(* ===== verification/Prelude.thy ===== *)
theory Prelude
  imports Main "HOL-Library.Word" "HOL-Library.Multiset"
begin

text \<open>
  Shared vocabulary of the development: unsigned machine integers with Rust's saturating
  operations written out, the result type of fallible handlers with Rust's \<open>ensure!\<close> and
  \<open>?\<close>, and the generic lemmas on finite sums, maps and lists that the components share.

  An unsigned integer of width \<open>w\<close> is a \<^typ>\<open>nat\<close>; an operation that can leave the range is
  written with the bound it has in the source: \<open>sat_add\<close> and \<open>sat_mul\<close> for
  \<open>saturating_add\<close> and \<open>saturating_mul\<close>, natural subtraction for \<open>saturating_sub\<close>
  (both stop at zero), \<open>mod 2 ^ w\<close> for an \<open>as\<close> cast to a narrower type, and
  \<^const>\<open>None\<close> or \<open>Trap\<close> for an operation that panics.
\<close>

named_theorems sat_simps \<open>bounds and exactness of the saturating operations\<close>
named_theorems result_simps \<open>inversion of the result combinators\<close>

subsection \<open>Identifiers and integers\<close>

type_synonym account_id = nat \<comment> \<open>an opaque 32-byte account: only equality is used\<close>
type_synonym hash256 = nat \<comment> \<open>an opaque 32-byte hash; the all-zero default is \<open>0\<close>\<close>
type_synonym block_number = nat
type_synonym bytes = "8 word list"

definition u8_max :: nat where "u8_max = 2 ^ 8 - 1"
definition u32_max :: nat where "u32_max = 2 ^ 32 - 1"
definition u64_max :: nat where "u64_max = 2 ^ 64 - 1"
definition u128_max :: nat where "u128_max = 2 ^ 128 - 1"
definition u256_max :: nat where "u256_max = 2 ^ 256 - 1"

definition sat_add :: "nat \<Rightarrow> nat \<Rightarrow> nat \<Rightarrow> nat" where
  "sat_add m a b = min (a + b) m"

definition sat_mul :: "nat \<Rightarrow> nat \<Rightarrow> nat \<Rightarrow> nat" where
  "sat_mul m a b = min (a * b) m"

lemma sat_add_le [simp, sat_simps]: "sat_add m a b \<le> m"
  by (simp add: sat_add_def)

lemma sat_mul_le [simp, sat_simps]: "sat_mul m a b \<le> m"
  by (simp add: sat_mul_def)

lemma sat_add_exact [sat_simps]: "a + b \<le> m \<Longrightarrow> sat_add m a b = a + b"
  by (simp add: sat_add_def)

lemma sat_mul_exact [sat_simps]: "a * b \<le> m \<Longrightarrow> sat_mul m a b = a * b"
  by (simp add: sat_mul_def)

lemma sat_add_le_sum [sat_simps]: "sat_add m a b \<le> a + b"
  by (simp add: sat_add_def)

lemma sat_mul_le_prod [sat_simps]: "sat_mul m a b \<le> a * b"
  by (simp add: sat_mul_def)

lemma sat_add_ge_left [sat_simps]: "a \<le> m \<Longrightarrow> a \<le> sat_add m a b"
  by (simp add: sat_add_def)

lemma sat_add_mono: "a \<le> a' \<Longrightarrow> b \<le> b' \<Longrightarrow> sat_add m a b \<le> sat_add m a' b'"
  unfolding sat_add_def by (rule min.mono) simp_all

lemma sat_mul_mono: "a \<le> a' \<Longrightarrow> b \<le> b' \<Longrightarrow> sat_mul m a b \<le> sat_mul m a' b'"
  unfolding sat_mul_def by (rule min.mono) (simp_all add: mult_le_mono)

text \<open>A saturating product divided by the second factor's denominator never exceeds the first.\<close>

lemma sat_mul_div_le: "0 < d \<Longrightarrow> b \<le> d \<Longrightarrow> sat_mul m a b div d \<le> a"
proof -
  assume "0 < d" and "b \<le> d"
  then have "sat_mul m a b \<le> a * d"
    by (meson le_trans mult_le_mono2 sat_mul_le_prod)
  then show ?thesis
    using \<open>0 < d\<close> by (metis div_le_mono nonzero_mult_div_cancel_right not_less0)
qed

subsection \<open>Results\<close>

text \<open>
  A dispatchable either fails and leaves the storage as it was (FRAME rolls a failed extrinsic
  back) or returns the new storage. \<open>Trap\<close> is a Rust panic.
\<close>

datatype 'e failure = Err 'e | Trap

type_synonym ('e, 'a) result = "'e failure + 'a"

definition ensure :: "bool \<Rightarrow> 'e \<Rightarrow> ('e, 'a) result \<Rightarrow> ('e, 'a) result" where
  "ensure b e k = (if b then k else Inl (Err e))"

definition ok_or :: "'b option \<Rightarrow> 'e \<Rightarrow> ('b \<Rightarrow> ('e, 'a) result) \<Rightarrow> ('e, 'a) result" where
  "ok_or m e k = (case m of None \<Rightarrow> Inl (Err e) | Some x \<Rightarrow> k x)"

definition or_trap :: "'b option \<Rightarrow> ('b \<Rightarrow> ('e, 'a) result) \<Rightarrow> ('e, 'a) result" where
  "or_trap m k = (case m of None \<Rightarrow> Inl Trap | Some x \<Rightarrow> k x)"

definition bind_ok :: "('e, 'b) result \<Rightarrow> ('b \<Rightarrow> ('e, 'a) result) \<Rightarrow> ('e, 'a) result" where
  "bind_ok m k = (case m of Inl e \<Rightarrow> Inl e | Inr x \<Rightarrow> k x)"

lemma ensure_Inr [result_simps]: "ensure b e k = Inr x \<longleftrightarrow> b \<and> k = Inr x"
  by (simp add: ensure_def)

lemma ok_or_Inr [result_simps]: "ok_or m e k = Inr x \<longleftrightarrow> (\<exists>y. m = Some y \<and> k y = Inr x)"
  by (simp add: ok_or_def split: option.splits)

lemma or_trap_Inr [result_simps]: "or_trap m k = Inr x \<longleftrightarrow> (\<exists>y. m = Some y \<and> k y = Inr x)"
  by (simp add: or_trap_def split: option.splits)

lemma bind_ok_Inr [result_simps]: "bind_ok m k = Inr x \<longleftrightarrow> (\<exists>y. m = Inr y \<and> k y = Inr x)"
  by (simp add: bind_ok_def split: sum.splits)

lemma ensure_True [simp]: "ensure True e k = k"
  by (simp add: ensure_def)

lemma ensure_False [simp]: "ensure False e k = Inl (Err e)"
  by (simp add: ensure_def)

lemma ok_or_simps [simp]: "ok_or None e k = Inl (Err e)" "ok_or (Some x) e k = k x"
  by (simp_all add: ok_or_def)

lemma or_trap_simps [simp]: "or_trap None k = Inl Trap" "or_trap (Some x) k = k x"
  by (simp_all add: or_trap_def)

lemma bind_ok_simps [simp]: "bind_ok (Inl e) k = Inl e" "bind_ok (Inr x) k = k x"
  by (simp_all add: bind_ok_def)

text \<open>\<open>?\<close> across error types: the inner error is converted.\<close>

definition bind_from :: "('e \<Rightarrow> 'f) \<Rightarrow> ('e, 'b) result \<Rightarrow> ('b \<Rightarrow> ('f, 'a) result) \<Rightarrow> ('f, 'a) result" where
  "bind_from conv m k = (case m of Inl Trap \<Rightarrow> Inl Trap | Inl (Err e) \<Rightarrow> Inl (Err (conv e)) | Inr x \<Rightarrow> k x)"

lemma bind_from_Inr [result_simps]: "bind_from conv m k = Inr x \<longleftrightarrow> (\<exists>y. m = Inr y \<and> k y = Inr x)"
  by (simp add: bind_from_def split: sum.splits failure.splits)

lemma bind_from_simps [simp]: "bind_from conv (Inr x) k = k x" "bind_from conv (Inl (Err e)) k = Inl (Err (conv e))"
  by (simp_all add: bind_from_def)

text \<open>\<open>get\<close> of a vector.\<close>

definition nth_opt :: "nat \<Rightarrow> 'a list \<Rightarrow> 'a option" where
  "nth_opt i xs = (if i < length xs then Some (xs ! i) else None)"

subsection \<open>Finite sums over the entries of a map\<close>

text \<open>The total of a storage map of balances, zero outside the stored keys.\<close>

definition map_total :: "('v \<Rightarrow> nat) \<Rightarrow> ('k \<rightharpoonup> 'v) \<Rightarrow> nat" where
  "map_total f m = (\<Sum>k \<in> dom m. f (the (m k)))"

lemma map_total_empty [simp]: "map_total f (\<lambda>_. None) = 0"
  by (simp add: map_total_def)

lemma map_total_remove:
  assumes "finite (dom m)" and "m k = Some v"
  shows "map_total f m = f v + map_total f (m(k := None))"
proof -
  have "k \<in> dom m" using assms(2) by auto
  then have "map_total f m = f v + (\<Sum>j \<in> dom m - {k}. f (the (m j)))"
    unfolding map_total_def using assms by (simp add: sum.remove)
  moreover have "(\<Sum>j \<in> dom m - {k}. f (the (m j))) = map_total f (m(k := None))"
    unfolding map_total_def by (rule sum.cong) auto
  ultimately show ?thesis by simp
qed

lemma map_total_insert:
  assumes "finite (dom m)" and "m k = None"
  shows "map_total f (m(k \<mapsto> v)) = f v + map_total f m"
proof -
  have "map_total f (m(k \<mapsto> v)) = f v + map_total f ((m(k \<mapsto> v))(k := None))"
    by (rule map_total_remove) (use assms in auto)
  moreover have "(m(k \<mapsto> v))(k := None) = m" using assms(2) by auto
  ultimately show ?thesis by simp
qed

lemma map_total_single [simp]: "map_total f ((\<lambda>_. None)(k \<mapsto> v)) = f v"
  using map_total_insert [of "\<lambda>_. None" k f v] by simp

lemma map_total_update:
  assumes "finite (dom m)" and "m k = Some v"
  shows "map_total f (m(k \<mapsto> w)) + f v = map_total f m + f w"
proof -
  have "map_total f (m(k \<mapsto> w)) = f w + map_total f ((m(k \<mapsto> w))(k := None))"
    by (rule map_total_remove) (use assms in auto)
  moreover have "(m(k \<mapsto> w))(k := None) = m(k := None)" by auto
  moreover have "map_total f m = f v + map_total f (m(k := None))"
    by (rule map_total_remove) (use assms in auto)
  ultimately show ?thesis by simp
qed

lemma map_total_ge:
  assumes "finite (dom m)" and "m k = Some v"
  shows "f v \<le> map_total f m"
  using map_total_remove [OF assms] by simp

lemma map_total_le_sum:
  assumes "finite (dom m)" and "\<And>k v. m k = Some v \<Longrightarrow> f v \<le> g k"
  shows "map_total f m \<le> (\<Sum>k \<in> dom m. g k)"
  unfolding map_total_def by (rule sum_mono) (use assms in auto)

text \<open>Changing one summand of a total over a finite set.\<close>

lemma sum_fun_upd_in:
  fixes f :: "'k \<Rightarrow> nat"
  assumes "finite S" and "k \<in> S"
  shows "(\<Sum>x \<in> S. (f(k := v)) x) + f k = (\<Sum>x \<in> S. f x) + v"
proof -
  have "(\<Sum>x \<in> S. (f(k := v)) x) = v + (\<Sum>x \<in> S - {k}. (f(k := v)) x)"
    using assms by (subst sum.remove [of _ k]) auto
  moreover have "(\<Sum>x \<in> S - {k}. (f(k := v)) x) = (\<Sum>x \<in> S - {k}. f x)"
    by (rule sum.cong) auto
  moreover have "(\<Sum>x \<in> S. f x) = f k + (\<Sum>x \<in> S - {k}. f x)"
    using assms by (subst sum.remove [of _ k]) auto
  ultimately show ?thesis by simp
qed

subsection \<open>Lists\<close>

text \<open>\<open>Vec::swap_remove\<close>: the last element takes the removed one's place.\<close>

definition swap_remove :: "nat \<Rightarrow> 'a list \<Rightarrow> 'a list" where
  "swap_remove i xs = (if i = length xs - 1 then butlast xs else butlast (xs[i := last xs]))"

definition index_of :: "'a \<Rightarrow> 'a list \<Rightarrow> nat option" where
  "index_of x xs = (let i = length (takeWhile (\<lambda>y. y \<noteq> x) xs)
                    in if i < length xs then Some i else None)"

lemma index_of_Some_iff: "(\<exists>i. index_of x xs = Some i) \<longleftrightarrow> x \<in> set xs"
proof -
  have "length (takeWhile (\<lambda>y. y \<noteq> x) xs) < length xs \<longleftrightarrow> x \<in> set xs"
    by (induction xs) auto
  then show ?thesis by (simp add: index_of_def Let_def)
qed

lemma index_of_nth: "index_of x xs = Some i \<Longrightarrow> i < length xs \<and> xs ! i = x"
  using nth_length_takeWhile [of "\<lambda>y. y \<noteq> x" xs]
  by (auto simp: index_of_def Let_def split: if_splits)

lemma mset_swap_remove:
  assumes "i < length xs"
  shows "mset xs = add_mset (xs ! i) (mset (swap_remove i xs))"
proof (cases "i = length xs - 1")
  case True
  with assms have "xs \<noteq> []" by auto
  with True have "xs ! i = last xs" by (simp add: last_conv_nth)
  from \<open>xs \<noteq> []\<close> have "mset xs = add_mset (last xs) (mset (butlast xs))"
    by (metis append_butlast_last_id mset.simps union_mset_add_mset_right mset_append add.right_neutral)
  with True \<open>xs ! i = last xs\<close> show ?thesis by (simp add: swap_remove_def)
next
  case False
  with assms have ne: "xs \<noteq> []" and lt: "i < length (butlast xs)" by auto
  have split: "xs = butlast xs @ [last xs]" using ne by simp
  have upd: "butlast (xs[i := last xs]) = (butlast xs)[i := last xs]"
    using lt False by (simp add: butlast_list_update)
  have "mset ((butlast xs)[i := last xs]) = add_mset (last xs) (mset (butlast xs) - {# butlast xs ! i #})"
    by (rule mset_update [OF lt])
  moreover have "butlast xs ! i = xs ! i" using lt by (simp add: nth_butlast)
  moreover have "xs ! i \<in># mset (butlast xs)"
    using lt \<open>butlast xs ! i = xs ! i\<close> by (metis nth_mem set_mset_mset)
  moreover have "mset xs = add_mset (last xs) (mset (butlast xs))"
    by (subst split) simp
  ultimately show ?thesis
    using False by (simp add: swap_remove_def upd)
qed

lemma swap_remove_distinct:
  assumes "i < length xs" and "distinct xs"
  shows "distinct (swap_remove i xs) \<and> set (swap_remove i xs) = set xs - {xs ! i}"
proof -
  have m: "mset xs = add_mset (xs ! i) (mset (swap_remove i xs))"
    by (rule mset_swap_remove [OF assms(1)])
  have ms: "set xs = insert (xs ! i) (set (swap_remove i xs))"
    by (metis m set_mset_add_mset_insert set_mset_mset)
  have "distinct (xs ! i # swap_remove i xs)"
    using m assms(2) by (metis mset.simps(2) mset_eq_imp_distinct_iff)
  then show ?thesis using ms by auto
qed

lemma length_swap_remove [simp]: "length (swap_remove i xs) = length xs - 1"
  by (simp add: swap_remove_def)

end
