(* ===== verification/Frame.thy ===== *)
theory Frame
  imports Prelude
begin

text \<open>
  The runtime libraries the pallets are generic in, which are not part of the repository:
  the currency (\<open>Currency\<close>, \<open>ReservableCurrency\<close>, \<open>fungible::Mutate\<close>, provided by
  \<open>pallet_balances\<close>) and \<open>Permill::mul_floor\<close>. Both are arguments of the model. Their
  documented behaviour is stated here as named hypotheses (\<open>currency_laws\<close>,
  \<open>permill_floor_law\<close>), and \<open>ledger_currency\<close>, \<open>floor_permill\<close> are concrete functions that
  satisfy them, used to instantiate the parameters in the witnesses.
\<close>

subsection \<open>The currency\<close>

record 'c currency =
  cur_ok :: "'c \<Rightarrow> bool"
  free_balance :: "'c \<Rightarrow> account_id \<Rightarrow> nat"
  reserved_balance :: "'c \<Rightarrow> account_id \<Rightarrow> nat"
  total_issuance :: "'c \<Rightarrow> nat"
  cur_reserve :: "account_id \<Rightarrow> nat \<Rightarrow> 'c \<Rightarrow> 'c option"
  cur_unreserve :: "account_id \<Rightarrow> nat \<Rightarrow> 'c \<Rightarrow> 'c"
  cur_slash_reserved :: "account_id \<Rightarrow> nat \<Rightarrow> 'c \<Rightarrow> 'c"
  cur_mint :: "account_id \<Rightarrow> nat \<Rightarrow> 'c \<Rightarrow> 'c option"
  cur_burn :: "account_id \<Rightarrow> nat \<Rightarrow> 'c \<Rightarrow> 'c option"
  cur_deposit :: "account_id \<Rightarrow> nat \<Rightarrow> 'c \<Rightarrow> 'c"
  cur_transfer :: "account_id \<Rightarrow> account_id \<Rightarrow> nat \<Rightarrow> 'c \<Rightarrow> 'c option"

text \<open>Balances sum to the issuance, which is a \<open>u128\<close>.\<close>

definition issuance_law :: "'c currency \<Rightarrow> bool" where
  "issuance_law cur \<longleftrightarrow> (\<forall>c A. cur_ok cur c \<longrightarrow> finite A \<longrightarrow>
     (\<Sum>w \<in> A. free_balance cur c w + reserved_balance cur c w) \<le> total_issuance cur c
     \<and> total_issuance cur c \<le> u128_max)"

text \<open>\<open>reserve\<close> moves an amount from the free to the reserved balance or fails.\<close>

definition reserve_law :: "'c currency \<Rightarrow> bool" where
  "reserve_law cur \<longleftrightarrow> (\<forall>w a c c'. cur_ok cur c \<longrightarrow> cur_reserve cur w a c = Some c' \<longrightarrow>
     cur_ok cur c' \<and> a \<le> free_balance cur c w
     \<and> free_balance cur c' = (free_balance cur c)(w := free_balance cur c w - a)
     \<and> reserved_balance cur c' = (reserved_balance cur c)(w := reserved_balance cur c w + a)
     \<and> total_issuance cur c' = total_issuance cur c)"

text \<open>\<open>unreserve\<close> moves up to an amount back.\<close>

definition unreserve_law :: "'c currency \<Rightarrow> bool" where
  "unreserve_law cur \<longleftrightarrow> (\<forall>w a c. cur_ok cur c \<longrightarrow>
     (let c' = cur_unreserve cur w a c; m = min a (reserved_balance cur c w) in
       cur_ok cur c'
       \<and> free_balance cur c' = (free_balance cur c)(w := free_balance cur c w + m)
       \<and> reserved_balance cur c' = (reserved_balance cur c)(w := reserved_balance cur c w - m)
       \<and> total_issuance cur c' = total_issuance cur c))"

text \<open>\<open>slash_reserved\<close> destroys up to an amount of the reserved balance.\<close>

definition slash_reserved_law :: "'c currency \<Rightarrow> bool" where
  "slash_reserved_law cur \<longleftrightarrow> (\<forall>w a c. cur_ok cur c \<longrightarrow>
     (let c' = cur_slash_reserved cur w a c; m = min a (reserved_balance cur c w) in
       cur_ok cur c'
       \<and> free_balance cur c' = free_balance cur c
       \<and> reserved_balance cur c' = (reserved_balance cur c)(w := reserved_balance cur c w - m)
       \<and> total_issuance cur c' + m = total_issuance cur c))"

text \<open>\<open>mint_into\<close> and \<open>burn_from\<close> create and destroy an exact amount or fail.\<close>

definition mint_law :: "'c currency \<Rightarrow> bool" where
  "mint_law cur \<longleftrightarrow> (\<forall>w a c c'. cur_ok cur c \<longrightarrow> cur_mint cur w a c = Some c' \<longrightarrow>
     cur_ok cur c'
     \<and> free_balance cur c' = (free_balance cur c)(w := free_balance cur c w + a)
     \<and> reserved_balance cur c' = reserved_balance cur c
     \<and> total_issuance cur c' = total_issuance cur c + a)"

definition burn_law :: "'c currency \<Rightarrow> bool" where
  "burn_law cur \<longleftrightarrow> (\<forall>w a c c'. cur_ok cur c \<longrightarrow> cur_burn cur w a c = Some c' \<longrightarrow>
     cur_ok cur c' \<and> a \<le> free_balance cur c w
     \<and> free_balance cur c' = (free_balance cur c)(w := free_balance cur c w - a)
     \<and> reserved_balance cur c' = reserved_balance cur c
     \<and> total_issuance cur c' + a = total_issuance cur c)"

text \<open>\<open>deposit_creating\<close> adds up to an amount: nothing when the account cannot be created.\<close>

definition deposit_law :: "'c currency \<Rightarrow> bool" where
  "deposit_law cur \<longleftrightarrow> (\<forall>w a c. cur_ok cur c \<longrightarrow>
     (let c' = cur_deposit cur w a c in
       cur_ok cur c' \<and> (\<exists>d \<le> a.
         free_balance cur c' = (free_balance cur c)(w := free_balance cur c w + d)
         \<and> reserved_balance cur c' = reserved_balance cur c
         \<and> total_issuance cur c' = total_issuance cur c + d)))"

text \<open>\<open>transfer\<close> moves an exact amount between free balances or fails.\<close>

definition transfer_law :: "'c currency \<Rightarrow> bool" where
  "transfer_law cur \<longleftrightarrow> (\<forall>v w a c c'. cur_ok cur c \<longrightarrow> cur_transfer cur v w a c = Some c' \<longrightarrow>
     cur_ok cur c' \<and> a \<le> free_balance cur c v
     \<and> free_balance cur c' =
         (let f = (free_balance cur c)(v := free_balance cur c v - a) in f(w := f w + a))
     \<and> reserved_balance cur c' = reserved_balance cur c
     \<and> total_issuance cur c' = total_issuance cur c)"

definition currency_laws :: "'c currency \<Rightarrow> bool" where
  "currency_laws cur \<longleftrightarrow> issuance_law cur \<and> reserve_law cur \<and> unreserve_law cur
     \<and> slash_reserved_law cur \<and> mint_law cur \<and> burn_law cur \<and> deposit_law cur \<and> transfer_law cur"

text \<open>The laws as rules.\<close>

lemma reserved_sum_le:
  assumes "currency_laws cur" "cur_ok cur c" "finite A"
  shows "(\<Sum>w \<in> A. reserved_balance cur c w) \<le> u128_max"
proof -
  have "(\<Sum>w \<in> A. reserved_balance cur c w)
      \<le> (\<Sum>w \<in> A. free_balance cur c w + reserved_balance cur c w)"
    by (rule sum_mono) simp
  also have "\<dots> \<le> u128_max"
    using assms unfolding currency_laws_def issuance_law_def by (meson le_trans)
  finally show ?thesis .
qed

lemma reserveD:
  assumes "currency_laws cur" "cur_ok cur c" "cur_reserve cur w a c = Some c'"
  shows "cur_ok cur c'" and "a \<le> free_balance cur c w"
    and "free_balance cur c' = (free_balance cur c)(w := free_balance cur c w - a)"
    and "reserved_balance cur c' = (reserved_balance cur c)(w := reserved_balance cur c w + a)"
    and "total_issuance cur c' = total_issuance cur c"
  using assms unfolding currency_laws_def reserve_law_def by metis+

lemma unreserveD:
  assumes "currency_laws cur" "cur_ok cur c"
  shows "cur_ok cur (cur_unreserve cur w a c)"
    and "free_balance cur (cur_unreserve cur w a c)
      = (free_balance cur c)(w := free_balance cur c w + min a (reserved_balance cur c w))"
    and "reserved_balance cur (cur_unreserve cur w a c)
      = (reserved_balance cur c)(w := reserved_balance cur c w - min a (reserved_balance cur c w))"
    and "total_issuance cur (cur_unreserve cur w a c) = total_issuance cur c"
  using assms unfolding currency_laws_def unreserve_law_def Let_def by metis+

lemma slash_reservedD:
  assumes "currency_laws cur" "cur_ok cur c"
  shows "cur_ok cur (cur_slash_reserved cur w a c)"
    and "free_balance cur (cur_slash_reserved cur w a c) = free_balance cur c"
    and "reserved_balance cur (cur_slash_reserved cur w a c)
      = (reserved_balance cur c)(w := reserved_balance cur c w - min a (reserved_balance cur c w))"
    and "total_issuance cur (cur_slash_reserved cur w a c) + min a (reserved_balance cur c w)
      = total_issuance cur c"
  using assms unfolding currency_laws_def slash_reserved_law_def Let_def by metis+

lemma mintD:
  assumes "currency_laws cur" "cur_ok cur c" "cur_mint cur w a c = Some c'"
  shows "cur_ok cur c'"
    and "free_balance cur c' = (free_balance cur c)(w := free_balance cur c w + a)"
    and "reserved_balance cur c' = reserved_balance cur c"
    and "total_issuance cur c' = total_issuance cur c + a"
  using assms unfolding currency_laws_def mint_law_def by metis+

lemma burnD:
  assumes "currency_laws cur" "cur_ok cur c" "cur_burn cur w a c = Some c'"
  shows "cur_ok cur c'" and "a \<le> free_balance cur c w"
    and "free_balance cur c' = (free_balance cur c)(w := free_balance cur c w - a)"
    and "reserved_balance cur c' = reserved_balance cur c"
    and "total_issuance cur c' + a = total_issuance cur c"
  using assms unfolding currency_laws_def burn_law_def by metis+

lemma depositD:
  assumes "currency_laws cur" "cur_ok cur c"
  shows "cur_ok cur (cur_deposit cur w a c)"
    and "reserved_balance cur (cur_deposit cur w a c) = reserved_balance cur c"
    and "total_issuance cur (cur_deposit cur w a c) \<le> total_issuance cur c + a"
    and "total_issuance cur c \<le> total_issuance cur (cur_deposit cur w a c)"
  using assms unfolding currency_laws_def deposit_law_def Let_def
  by (metis nat_add_left_cancel_le le_add1)+

subsection \<open>Permill\<close>

text \<open>
  A \<open>Permill\<close> is its number of parts per million; \<open>mul_floor\<close> multiplies and rounds down.
\<close>

definition permill_floor_law :: "(nat \<Rightarrow> nat \<Rightarrow> nat) \<Rightarrow> bool" where
  "permill_floor_law f \<longleftrightarrow> (\<forall>p x. f p x = p * x div 1000000)"

lemma mul_floor_le:
  assumes "permill_floor_law f" "p \<le> 1000000"
  shows "f p x \<le> x"
proof -
  have "p * x div 1000000 \<le> 1000000 * x div 1000000"
    by (rule div_le_mono) (use assms(2) in simp)
  then show ?thesis using assms(1) by (simp add: permill_floor_law_def)
qed

text \<open>Shares of one amount never add up to more than it when their parts do not exceed one.\<close>

lemma mul_floor_shares:
  assumes "permill_floor_law f" "p + q + r \<le> 1000000"
  shows "f p x + f q x + f r x \<le> x"
proof -
  have "(p * x div 1000000 + q * x div 1000000 + r * x div 1000000) * 1000000
      \<le> p * x + q * x + r * x"
    by (simp add: distrib_right add_mono)
  also have "\<dots> \<le> x * 1000000"
    using mult_le_mono1 [OF assms(2), of x] by (simp add: algebra_simps)
  finally show ?thesis using assms(1) by (simp add: permill_floor_law_def)
qed

definition floor_permill :: "nat \<Rightarrow> nat \<Rightarrow> nat" where
  "floor_permill p x = p * x div 1000000"

lemma floor_permill_law: "permill_floor_law floor_permill"
  by (simp add: permill_floor_law_def floor_permill_def)

subsection \<open>A concrete ledger\<close>

record ledger =
  led_free :: "account_id \<Rightarrow> nat"
  led_reserved :: "account_id \<Rightarrow> nat"
  led_issuance :: nat

definition led_ok :: "ledger \<Rightarrow> bool" where
  "led_ok l \<longleftrightarrow> led_issuance l \<le> u128_max \<and>
     (\<exists>S. finite S \<and> (\<forall>w. w \<notin> S \<longrightarrow> led_free l w = 0 \<and> led_reserved l w = 0) \<and>
          (\<Sum>w \<in> S. led_free l w + led_reserved l w) = led_issuance l)"

definition led_reserve :: "account_id \<Rightarrow> nat \<Rightarrow> ledger \<Rightarrow> ledger option" where
  "led_reserve w a l = (if a \<le> led_free l w
     then Some (l\<lparr>led_free := (led_free l)(w := led_free l w - a),
                  led_reserved := (led_reserved l)(w := led_reserved l w + a)\<rparr>)
     else None)"

definition led_unreserve :: "account_id \<Rightarrow> nat \<Rightarrow> ledger \<Rightarrow> ledger" where
  "led_unreserve w a l = (let m = min a (led_reserved l w) in
     l\<lparr>led_free := (led_free l)(w := led_free l w + m),
       led_reserved := (led_reserved l)(w := led_reserved l w - m)\<rparr>)"

definition led_slash :: "account_id \<Rightarrow> nat \<Rightarrow> ledger \<Rightarrow> ledger" where
  "led_slash w a l = (let m = min a (led_reserved l w) in
     l\<lparr>led_reserved := (led_reserved l)(w := led_reserved l w - m),
       led_issuance := led_issuance l - m\<rparr>)"

definition led_mint :: "account_id \<Rightarrow> nat \<Rightarrow> ledger \<Rightarrow> ledger option" where
  "led_mint w a l = (if led_issuance l + a \<le> u128_max
     then Some (l\<lparr>led_free := (led_free l)(w := led_free l w + a),
                  led_issuance := led_issuance l + a\<rparr>)
     else None)"

definition led_burn :: "account_id \<Rightarrow> nat \<Rightarrow> ledger \<Rightarrow> ledger option" where
  "led_burn w a l = (if a \<le> led_free l w
     then Some (l\<lparr>led_free := (led_free l)(w := led_free l w - a),
                  led_issuance := led_issuance l - a\<rparr>)
     else None)"

definition led_deposit :: "account_id \<Rightarrow> nat \<Rightarrow> ledger \<Rightarrow> ledger" where
  "led_deposit w a l = (case led_mint w a l of None \<Rightarrow> l | Some l' \<Rightarrow> l')"

definition led_transfer :: "account_id \<Rightarrow> account_id \<Rightarrow> nat \<Rightarrow> ledger \<Rightarrow> ledger option" where
  "led_transfer v w a l = (if a \<le> led_free l v
     then Some (l\<lparr>led_free := (let f = (led_free l)(v := led_free l v - a) in f(w := f w + a))\<rparr>)
     else None)"

definition ledger_currency :: "ledger currency" where
  "ledger_currency = \<lparr>cur_ok = led_ok, free_balance = led_free, reserved_balance = led_reserved,
     total_issuance = led_issuance, cur_reserve = led_reserve, cur_unreserve = led_unreserve,
     cur_slash_reserved = led_slash, cur_mint = led_mint, cur_burn = led_burn,
     cur_deposit = led_deposit, cur_transfer = led_transfer\<rparr>"

text \<open>
  Every ledger operation changes the balances of one account at a time; the sum over a finite
  support follows the change of that account's total.
\<close>

lemma led_ok_update:
  assumes ok: "led_ok l"
    and free: "\<forall>v. v \<noteq> w \<longrightarrow> led_free l' v = led_free l v"
    and res: "\<forall>v. v \<noteq> w \<longrightarrow> led_reserved l' v = led_reserved l v"
    and sum: "led_issuance l' + led_free l w + led_reserved l w
      = led_issuance l + led_free l' w + led_reserved l' w"
    and le: "led_issuance l' \<le> u128_max"
  shows "led_ok l'"
proof -
  from ok obtain S where S: "finite S"
    and out: "\<forall>v. v \<notin> S \<longrightarrow> led_free l v = 0 \<and> led_reserved l v = 0"
    and tot: "(\<Sum>v \<in> S. led_free l v + led_reserved l v) = led_issuance l"
    unfolding led_ok_def by blast
  let ?T = "insert w S"
  let ?f = "\<lambda>v. led_free l v + led_reserved l v"
  let ?g = "\<lambda>v. led_free l' v + led_reserved l' v"
  have totT: "(\<Sum>v \<in> ?T. ?f v) = led_issuance l"
    using S out tot by (cases "w \<in> S") (simp_all add: insert_absorb)
  have "(\<Sum>v \<in> ?T. ?g v) = (\<Sum>v \<in> ?T. (?f(w := ?g w)) v)"
    by (rule sum.cong) (use free res in auto)
  also have "\<dots> + ?f w = (\<Sum>v \<in> ?T. ?f v) + ?g w"
    by (rule sum_fun_upd_in) (use S in auto)
  finally have "(\<Sum>v \<in> ?T. ?g v) = led_issuance l'" using totT sum by simp
  moreover have "\<forall>v. v \<notin> ?T \<longrightarrow> led_free l' v = 0 \<and> led_reserved l' v = 0"
    using out free res by auto
  ultimately show ?thesis unfolding led_ok_def using S le by blast
qed

lemma led_balance_le:
  assumes "led_ok l"
  shows "led_free l w + led_reserved l w \<le> led_issuance l"
proof -
  from assms obtain S where S: "finite S"
    and out: "\<forall>v. v \<notin> S \<longrightarrow> led_free l v = 0 \<and> led_reserved l v = 0"
    and tot: "(\<Sum>v \<in> S. led_free l v + led_reserved l v) = led_issuance l"
    unfolding led_ok_def by blast
  show ?thesis
  proof (cases "w \<in> S")
    case True
    then show ?thesis using S tot member_le_sum [of w S "\<lambda>v. led_free l v + led_reserved l v"] by simp
  next
    case False
    then show ?thesis using out by simp
  qed
qed

lemma led_sum_le:
  assumes "led_ok l" "finite A"
  shows "(\<Sum>w \<in> A. led_free l w + led_reserved l w) \<le> led_issuance l"
proof -
  from assms(1) obtain S where S: "finite S"
    and out: "\<forall>v. v \<notin> S \<longrightarrow> led_free l v = 0 \<and> led_reserved l v = 0"
    and tot: "(\<Sum>v \<in> S. led_free l v + led_reserved l v) = led_issuance l"
    unfolding led_ok_def by blast
  have "(\<Sum>w \<in> A. led_free l w + led_reserved l w) = (\<Sum>w \<in> A \<inter> S. led_free l w + led_reserved l w)"
    by (rule sum.mono_neutral_right) (use assms(2) out in auto)
  also have "\<dots> \<le> (\<Sum>w \<in> S. led_free l w + led_reserved l w)"
    by (rule sum_mono2) (use S in auto)
  finally show ?thesis using tot by simp
qed

lemma led_ok_max: "led_ok l \<Longrightarrow> led_issuance l \<le> u128_max"
  by (simp add: led_ok_def)

lemma ledger_issuance_law: "issuance_law ledger_currency"
  by (simp add: issuance_law_def ledger_currency_def led_sum_le led_ok_max)

lemma ledger_reserve_law: "reserve_law ledger_currency"
proof -
  have "led_ok l'" if "led_ok l" and "led_reserve w a l = Some l'" for w a l l'
    by (rule led_ok_update [OF that(1), of w])
      (use that(2) led_ok_max [OF that(1)] in \<open>auto simp: led_reserve_def split: if_splits\<close>)
  then show ?thesis
    unfolding reserve_law_def ledger_currency_def by (auto simp: led_reserve_def split: if_splits)
qed

lemma ledger_unreserve_law: "unreserve_law ledger_currency"
proof -
  have "led_ok (led_unreserve w a l)" if "led_ok l" for w a l
    by (rule led_ok_update [OF that, of w]) (use led_ok_max [OF that] in \<open>auto simp: led_unreserve_def Let_def\<close>)
  then show ?thesis
    unfolding unreserve_law_def ledger_currency_def by (auto simp: led_unreserve_def Let_def)
qed

lemma ledger_slash_law: "slash_reserved_law ledger_currency"
proof -
  have "led_ok (led_slash w a l)" and "min a (led_reserved l w) \<le> led_issuance l"
    if "led_ok l" for w a l
  proof -
    have b: "led_free l w + led_reserved l w \<le> led_issuance l" by (rule led_balance_le [OF that])
    then show "min a (led_reserved l w) \<le> led_issuance l" by linarith
    show "led_ok (led_slash w a l)"
      by (rule led_ok_update [OF that, of w])
        (use b led_ok_max [OF that] in \<open>auto simp: led_slash_def Let_def\<close>)
  qed
  then show ?thesis
    unfolding slash_reserved_law_def ledger_currency_def by (auto simp: led_slash_def Let_def)
qed

lemma ledger_mint_law: "mint_law ledger_currency"
proof -
  have "led_ok l'" if "led_ok l" and "led_mint w a l = Some l'" for w a l l'
    by (rule led_ok_update [OF that(1), of w])
      (use that(2) in \<open>auto simp: led_mint_def split: if_splits\<close>)
  then show ?thesis
    unfolding mint_law_def ledger_currency_def by (auto simp: led_mint_def split: if_splits)
qed

lemma ledger_burn_law: "burn_law ledger_currency"
proof -
  have "led_ok l'" and "led_issuance l' + a = led_issuance l"
    if "led_ok l" and "led_burn w a l = Some l'" for w a l l'
  proof -
    have b: "led_free l w + led_reserved l w \<le> led_issuance l" by (rule led_balance_le [OF that(1)])
    with that(2) show "led_issuance l' + a = led_issuance l"
      by (auto simp: led_burn_def split: if_splits)
    show "led_ok l'"
      by (rule led_ok_update [OF that(1), of w])
        (use that(2) b led_ok_max [OF that(1)] in \<open>auto simp: led_burn_def split: if_splits\<close>)
  qed
  then show ?thesis
    unfolding burn_law_def ledger_currency_def by (auto simp: led_burn_def split: if_splits)
qed

lemma ledger_deposit_law: "deposit_law ledger_currency"
proof -
  have m: "mint_law ledger_currency" by (rule ledger_mint_law)
  have "led_ok (led_deposit w a l) \<and> (\<exists>d \<le> a.
      led_free (led_deposit w a l) = (led_free l)(w := led_free l w + d)
      \<and> led_reserved (led_deposit w a l) = led_reserved l
      \<and> led_issuance (led_deposit w a l) = led_issuance l + d)" if "led_ok l" for w a l
  proof (cases "led_mint w a l")
    case None
    then show ?thesis using that by (intro conjI exI [of _ 0]) (auto simp: led_deposit_def)
  next
    case (Some l')
    then show ?thesis using that m
      unfolding mint_law_def ledger_currency_def
      by (intro conjI exI [of _ a]) (auto simp: led_deposit_def)
  qed
  then show ?thesis unfolding deposit_law_def ledger_currency_def by (simp add: Let_def)
qed

lemma ledger_transfer_law: "transfer_law ledger_currency"
proof -
  have "led_ok l'" if ok: "led_ok l" and t: "led_transfer v w a l = Some l'" for v w a l l'
  proof -
    let ?m = "l\<lparr>led_free := (led_free l)(v := led_free l v - a), led_issuance := led_issuance l - a\<rparr>"
    from t have le: "a \<le> led_free l v"
      and l': "l' = l\<lparr>led_free := (let f = (led_free l)(v := led_free l v - a) in f(w := f w + a))\<rparr>"
      by (auto simp: led_transfer_def split: if_splits)
    have b: "led_free l v + led_reserved l v \<le> led_issuance l" by (rule led_balance_le [OF ok])
    have "led_ok ?m"
      by (rule led_ok_update [OF ok, of v]) (use b le led_ok_max [OF ok] in auto)
    then show ?thesis
      by (rule led_ok_update [of _ w]) (use b le l' led_ok_max [OF ok] in \<open>auto simp: Let_def\<close>)
  qed
  then show ?thesis
    unfolding transfer_law_def ledger_currency_def by (auto simp: led_transfer_def split: if_splits)
qed

lemma ledger_currency_laws: "currency_laws ledger_currency"
  by (simp add: currency_laws_def ledger_issuance_law ledger_reserve_law ledger_unreserve_law
      ledger_slash_law ledger_mint_law ledger_burn_law ledger_deposit_law ledger_transfer_law)

text \<open>A ledger that holds one account's balances.\<close>

definition ledger_of :: "account_id \<Rightarrow> nat \<Rightarrow> nat \<Rightarrow> ledger" where
  "ledger_of w f r = \<lparr>led_free = (\<lambda>_. 0)(w := f), led_reserved = (\<lambda>_. 0)(w := r), led_issuance = f + r\<rparr>"

lemma ledger_of_ok: "f + r \<le> u128_max \<Longrightarrow> led_ok (ledger_of w f r)"
  unfolding led_ok_def ledger_of_def by (auto intro!: exI [of _ "{w}"])

end
