(* ===== verification/Ppm_Math.thy ===== *)
theory Ppm_Math
  imports Frame
begin

text \<open>
  The integer square root by Newton's iteration that the storage and reaction pallets use on
  parts-per-million values. The loop is modelled with its two panics (the overflow of
  \<open>scaled + 1\<close> and a division by zero), shown to terminate, never to panic in the range its
  callers use, and to return the exact floor of the square root.
\<close>

function newton_loop :: "nat \<Rightarrow> nat \<Rightarrow> nat \<Rightarrow> nat option" where
  "newton_loop scaled y z =
     (if z < y then (if z = 0 then None else newton_loop scaled z ((scaled div z + z) div 2))
      else Some y)"
  by pat_completeness auto
termination
  by (relation "measure (\<lambda>(scaled, y, z). y)") auto

declare newton_loop.simps [simp del]

text \<open>The arithmetic mean of \<open>y\<close> and \<open>n div y\<close> is at least the floor of the square root.\<close>

lemma newton_step_upper:
  fixes n y :: nat
  assumes "0 < y"
  shows "n < ((n div y + y) div 2 + 1)\<^sup>2"
proof -
  let ?a = "n div y + 1" and ?s = "(n div y + y) div 2 + 1"
  have "n < ?a * y" using assms
    by (metis add.commute add_mult_distrib dividend_less_div_times mult_1)
  have "q + 1 + y \<le> 2 * ((q + y) div 2 + 1)" for q :: nat by presburger
  then have "?a + y \<le> 2 * ?s" .
  have "4 * n < 4 * (?a * y)" using \<open>n < ?a * y\<close> by simp
  also have "4 * (?a * y) \<le> (?a + y)\<^sup>2"
  proof -
    have amgm: "4 * (a * b) \<le> (a + b)\<^sup>2" for a b :: int
      using zero_le_power2 [of "a - b"] by (simp add: power2_eq_square algebra_simps)
    have "int (4 * (?a * y)) \<le> int ((?a + y)\<^sup>2)"
      using amgm [of "int ?a" "int y"] by (simp only: of_nat_mult of_nat_add of_nat_power of_nat_numeral)
    then show ?thesis by (simp only: of_nat_le_iff)
  qed
  also have "\<dots> \<le> (2 * ?s)\<^sup>2" by (rule power_mono [OF \<open>?a + y \<le> 2 * ?s\<close>]) simp
  also have "\<dots> = 4 * ?s\<^sup>2" by (simp only: power_mult_distrib) simp
  finally show ?thesis by simp
qed

lemma newton_step_pos:
  fixes n y :: nat
  assumes "0 < n" "0 < y"
  shows "0 < (n div y + y) div 2"
proof (cases "y = 1")
  case True
  with assms show ?thesis by simp
next
  case False
  with assms(2) have "2 \<le> n div y + y" by simp
  then show ?thesis by (simp add: div_greater_zero_iff)
qed

lemma newton_loop_correct:
  assumes "0 < n" "0 < y" "z = (n div y + y) div 2" "n < (y + 1)\<^sup>2"
  shows "\<exists>r. newton_loop n y z = Some r \<and> r\<^sup>2 \<le> n \<and> n < (r + 1)\<^sup>2"
  using assms
proof (induction n y z rule: newton_loop.induct)
  case (1 n y z)
  have zpos: "0 < z" using newton_step_pos [OF 1(2,3)] 1(4) by simp
  have zup: "n < (z + 1)\<^sup>2" using newton_step_upper [OF 1(3), of n] 1(4) by simp
  show ?case
  proof (cases "z < y")
    case True
    have "\<exists>r. newton_loop n z ((n div z + z) div 2) = Some r \<and> r\<^sup>2 \<le> n \<and> n < (r + 1)\<^sup>2"
      by (rule "1.IH") (use True zpos zup 1(2) in auto)
    then show ?thesis using True zpos by (simp add: newton_loop.simps [of n y z])
  next
    case False
    then have "y \<le> n div y" using 1(4) by linarith
    then have "y * y \<le> n" by (metis 1(3) div_le_mono div_times_less_eq_dividend mult_le_mono1 le_trans)
    then show ?thesis using False 1(5)
      by (simp add: newton_loop.simps [of n y z] power2_eq_square)
  qed
qed

text \<open>
  \<open>sqrt_ppm\<close> of \<open>pallets/storage/src/rewards.rs\<close>: \<open>scaled + 1\<close> overflows when the saturating
  product reached \<open>u128::MAX\<close>; with wrapping arithmetic the loop then divides by zero, so both
  build profiles panic.
\<close>

definition sqrt_ppm :: "nat \<Rightarrow> nat option" where
  "sqrt_ppm x_ppm = (let scaled = sat_mul u128_max x_ppm 1000000 in
     if scaled = 0 then Some 0
     else if scaled = u128_max then None
     else newton_loop scaled scaled ((scaled + 1) div 2))"

lemma sqrt_ppm_correct:
  assumes "x * 1000000 < u128_max"
  shows "\<exists>r. sqrt_ppm x = Some r \<and> r\<^sup>2 \<le> x * 1000000 \<and> x * 1000000 < (r + 1)\<^sup>2"
proof (cases "x = 0")
  case True
  then show ?thesis by (simp add: sqrt_ppm_def sat_mul_def)
next
  case False
  let ?n = "x * 1000000"
  have n: "0 < ?n" using False by simp
  have "(?n div ?n + ?n) div 2 = (?n + 1) div 2" using n by simp
  moreover have "?n < (?n + 1)\<^sup>2" by (simp add: power2_eq_square)
  ultimately have "\<exists>r. newton_loop ?n ?n ((?n + 1) div 2) = Some r \<and> r\<^sup>2 \<le> ?n \<and> ?n < (r + 1)\<^sup>2"
    using newton_loop_correct [OF n n] by metis
  moreover have "sat_mul u128_max x 1000000 = ?n"
    using assms by (simp add: sat_mul_def)
  ultimately show ?thesis using n assms by (simp add: sqrt_ppm_def Let_def)
qed

text \<open>The floor of the square root is unique, so the bounds determine the result.\<close>

lemma floor_sqrt_unique:
  fixes r s n :: nat
  assumes "r\<^sup>2 \<le> n" "n < (r + 1)\<^sup>2" "s\<^sup>2 \<le> n" "n < (s + 1)\<^sup>2"
  shows "r = s"
proof -
  have "r < s + 1" using assms(1,4) by (meson le_less_trans power_less_imp_less_base zero_le)
  moreover have "s < r + 1" using assms(2,3) by (meson le_less_trans power_less_imp_less_base zero_le)
  ultimately show ?thesis by simp
qed

lemma sqrt_ppm_eqI:
  assumes "x * 1000000 < u128_max" "r\<^sup>2 \<le> x * 1000000" "x * 1000000 < (r + 1)\<^sup>2"
  shows "sqrt_ppm x = Some r"
  using sqrt_ppm_correct [OF assms(1)] floor_sqrt_unique assms(2,3) by blast

lemma sqrt_ppm_unit:
  assumes "x \<le> 1000000"
  shows "\<exists>r \<le> 1000000. sqrt_ppm x = Some r \<and> r\<^sup>2 \<le> x * 1000000 \<and> x * 1000000 < (r + 1)\<^sup>2"
proof -
  have "x * 1000000 \<le> 1000000 * 1000000" using assms by simp
  also have "\<dots> < u128_max" by (simp add: u128_max_def)
  finally obtain r where r: "sqrt_ppm x = Some r" "r\<^sup>2 \<le> x * 1000000" "x * 1000000 < (r + 1)\<^sup>2"
    using sqrt_ppm_correct by blast
  have "r\<^sup>2 \<le> 1000000\<^sup>2"
    using r(2) \<open>x * 1000000 \<le> 1000000 * 1000000\<close> unfolding power2_eq_square by linarith
  then have "r \<le> 1000000" by (rule power2_le_imp_le) simp
  with r show ?thesis by blast
qed

text \<open>
  On a parts-per-million share the square root is never below the share itself, which is why a
  stake split among several accounts is rewarded more than the same stake held by one.
\<close>

lemma sqrt_ppm_ge:
  assumes "x \<le> 1000000" "sqrt_ppm x = Some r"
  shows "x \<le> r"
proof -
  from sqrt_ppm_unit [OF assms(1)] assms(2) have lt: "x * 1000000 < (r + 1)\<^sup>2" by auto
  have "x * x \<le> x * 1000000" using assms(1) by simp
  then have "x * x < (r + 1)\<^sup>2" using lt by (rule le_less_trans)
  then have "x\<^sup>2 < (r + 1)\<^sup>2" by (simp only: power2_eq_square)
  then have "x < r + 1" by (rule power_less_imp_less_base) simp
  then show ?thesis by simp
qed

lemma sqrt_ppm_mono:
  assumes "x \<le> y" "y \<le> 1000000" "sqrt_ppm x = Some r" "sqrt_ppm y = Some s"
  shows "r \<le> s"
proof -
  from sqrt_ppm_unit [of x] assms have "r\<^sup>2 \<le> x * 1000000" by auto
  moreover from sqrt_ppm_unit [of y] assms have "y * 1000000 < (s + 1)\<^sup>2" by auto
  moreover have "x * 1000000 \<le> y * 1000000" using assms(1) by simp
  ultimately have "r\<^sup>2 < (s + 1)\<^sup>2" by linarith
  then have "r < s + 1" by (rule power_less_imp_less_base) simp
  then show ?thesis by simp
qed

end
