(* ===== verification/Rewards.thy ===== *)
theory Rewards
  imports Ppm_Math
begin

text \<open>
  \<open>pallets/storage/src/rewards.rs\<close>: the reward of one holding proof, from the size of the data,
  the fill ratio of the reward pool and the square root of the prover's share of all bonds.
  \<^const>\<open>None\<close> is a panic of the square root; the lemmas show when it cannot happen.
\<close>

definition score_threshold :: nat where "score_threshold = 100"

definition calculate_reward_with_threshold :: "nat \<Rightarrow> nat \<Rightarrow> nat \<Rightarrow> nat \<Rightarrow> nat" where
  "calculate_reward_with_threshold data_size base_reward_per_byte score threshold =
     (if score < threshold then 0 else sat_mul u128_max base_reward_per_byte data_size)"

definition calculate_reward :: "nat \<Rightarrow> nat \<Rightarrow> nat \<Rightarrow> nat" where
  "calculate_reward data_size base_reward_per_byte score =
     calculate_reward_with_threshold data_size base_reward_per_byte score score_threshold"

text \<open>The pool ratio in parts per million, and the reward after the pool correction.\<close>

definition pool_ratio_ppm :: "nat \<Rightarrow> nat \<Rightarrow> nat" where
  "pool_ratio_ppm pool_balance pool_target =
     (if pool_target \<le> pool_balance then 1000000
      else sat_mul u128_max pool_balance 1000000 div max pool_target 1)"

definition calculate_reward_v3 ::
  "nat \<Rightarrow> nat \<Rightarrow> nat \<Rightarrow> nat \<Rightarrow> nat \<Rightarrow> nat \<Rightarrow> nat \<Rightarrow> nat \<Rightarrow> nat option" where
  "calculate_reward_v3 data_size base_reward_per_byte score threshold
      pool_balance pool_target node_bond total_active_bond =
     (if score < threshold then Some 0
      else
        let reward0 = sat_mul u128_max base_reward_per_byte data_size;
            reward1 = (if 0 < pool_target
                       then sat_mul u128_max reward0 (pool_ratio_ppm pool_balance pool_target) div 1000000
                       else reward0)
        in if 0 < total_active_bond \<and> 0 < node_bond
           then (case sqrt_ppm (sat_mul u128_max node_bond 1000000 div max total_active_bond 1) of
                   None \<Rightarrow> None
                 | Some sqrt_share_ppm \<Rightarrow> Some (sat_mul u128_max reward1 sqrt_share_ppm div 1000000))
           else Some reward1)"

definition calculate_reward_v2 :: "nat \<Rightarrow> nat \<Rightarrow> nat \<Rightarrow> nat \<Rightarrow> nat \<Rightarrow> nat \<Rightarrow> nat option" where
  "calculate_reward_v2 data_size base_reward_per_byte score threshold pool_balance pool_target =
     calculate_reward_v3 data_size base_reward_per_byte score threshold pool_balance pool_target 0 0"

lemma pool_ratio_ppm_le: "pool_ratio_ppm b t \<le> 1000000"
proof (cases "t \<le> b")
  case True
  then show ?thesis by (simp add: pool_ratio_ppm_def)
next
  case False
  have "sat_mul u128_max b 1000000 \<le> b * 1000000" by (rule sat_mul_le_prod)
  also have "\<dots> \<le> t * 1000000" using False by simp
  finally have "sat_mul u128_max b 1000000 div t \<le> t * 1000000 div t" by (rule div_le_mono)
  moreover have "max t 1 = t" by (rule max_absorb1) (use False in simp)
  moreover have "0 < t" using False by simp
  ultimately show ?thesis using False by (simp add: pool_ratio_ppm_def)
qed

lemma pool_ratio_ppm_mono: "b \<le> b' \<Longrightarrow> pool_ratio_ppm b t \<le> pool_ratio_ppm b' t"
  using pool_ratio_ppm_le [of b t]
  by (auto simp: pool_ratio_ppm_def intro: div_le_mono sat_mul_mono)

lemma bond_share_le:
  assumes "node_bond \<le> tot" "0 < tot"
  shows "sat_mul u128_max node_bond 1000000 div max tot 1 \<le> 1000000"
proof -
  have "sat_mul u128_max node_bond 1000000 \<le> node_bond * 1000000" by (rule sat_mul_le_prod)
  also have "\<dots> \<le> 1000000 * tot" using assms by simp
  finally have "sat_mul u128_max node_bond 1000000 div tot \<le> 1000000 * tot div tot"
    by (rule div_le_mono)
  moreover have "max tot 1 = tot" by (rule max_absorb1) (use assms(2) in simp)
  ultimately show ?thesis using assms(2) by simp
qed

text \<open>The parts of a reward: what the bond correction is applied to, and the correction.\<close>

definition base_reward :: "nat \<Rightarrow> nat \<Rightarrow> nat \<Rightarrow> nat \<Rightarrow> nat" where
  "base_reward data_size per_byte pool_balance pool_target =
     (let reward0 = sat_mul u128_max per_byte data_size in
      if 0 < pool_target then sat_mul u128_max reward0 (pool_ratio_ppm pool_balance pool_target) div 1000000
      else reward0)"

lemma base_reward_le: "base_reward d p b t \<le> p * d"
  using sat_mul_div_le [of 1000000 "pool_ratio_ppm b t" u128_max "sat_mul u128_max p d"]
    pool_ratio_ppm_le [of b t] sat_mul_le_prod [of u128_max p d]
  by (auto simp: base_reward_def Let_def intro: le_trans)

lemma base_reward_mono: "b \<le> b' \<Longrightarrow> base_reward d p b t \<le> base_reward d p b' t"
  by (simp add: base_reward_def Let_def div_le_mono sat_mul_mono pool_ratio_ppm_mono)

lemma reward_v3_cases:
  assumes "threshold \<le> score"
  shows "calculate_reward_v3 d p score threshold b t nb tb =
    (if 0 < tb \<and> 0 < nb
     then map_option (\<lambda>s. sat_mul u128_max (base_reward d p b t) s div 1000000)
            (sqrt_ppm (sat_mul u128_max nb 1000000 div max tb 1))
     else Some (base_reward d p b t))"
  using assms by (auto simp: calculate_reward_v3_def base_reward_def Let_def split: option.splits)

lemma reward_v3_below [simp]: "score < threshold \<Longrightarrow> calculate_reward_v3 d p score threshold b t nb tb = Some 0"
  by (simp add: calculate_reward_v3_def)

lemma reward_v3_bounded:
  assumes "nb \<le> tb"
  shows "\<exists>r. calculate_reward_v3 d p score threshold b t nb tb = Some r \<and> r \<le> p * d"
proof (cases "threshold \<le> score \<and> 0 < tb \<and> 0 < nb")
  case True
  let ?x = "sat_mul u128_max nb 1000000 div max tb 1"
  obtain s where s: "s \<le> 1000000" "sqrt_ppm ?x = Some s"
    using sqrt_ppm_unit [OF bond_share_le [OF assms]] True by blast
  have "sat_mul u128_max (base_reward d p b t) s div 1000000 \<le> base_reward d p b t"
    by (rule sat_mul_div_le) (use s in simp_all)
  then show ?thesis using True s base_reward_le [of d p b t] by (simp add: reward_v3_cases le_trans)
next
  case False
  then show ?thesis
    using base_reward_le [of d p b t] by (cases "score < threshold") (auto simp: reward_v3_cases)
qed

text \<open>A holding proof is always rewarded without a panic when the prover's bond does not exceed
  the total bond, with at most the base price of its bytes, with nothing below the score
  threshold, and with never less when the reward pool is fuller.
\<close>

theorem reward_v3_total_bounded_monotone:
  assumes "node_bond \<le> total_bond" and "pool \<le> pool'"
  shows "\<exists>r r'. calculate_reward_v3 data_size price score threshold pool target node_bond total_bond = Some r
    \<and> calculate_reward_v3 data_size price score threshold pool' target node_bond total_bond = Some r'
    \<and> r \<le> r' \<and> r' \<le> price * data_size \<and> (score < threshold \<longrightarrow> r' = 0)"
proof -
  from reward_v3_bounded [OF assms(1)] obtain r' where
    r': "calculate_reward_v3 data_size price score threshold pool' target node_bond total_bond = Some r'"
    "r' \<le> price * data_size" by blast
  from reward_v3_bounded [OF assms(1)] obtain r where
    r: "calculate_reward_v3 data_size price score threshold pool target node_bond total_bond = Some r"
    by blast
  have m: "base_reward data_size price pool target \<le> base_reward data_size price pool' target"
    by (rule base_reward_mono [OF assms(2)])
  have "r \<le> r'"
  proof (cases "score < threshold")
    case True
    with r r' show ?thesis by simp
  next
    case False
    then show ?thesis using r r'(1) m
      by (auto simp: reward_v3_cases split: if_splits intro!: div_le_mono sat_mul_mono)
  qed
  moreover have "score < threshold \<longrightarrow> r' = 0" using r' by auto
  ultimately show ?thesis using r r' by blast
qed

lemma reward_v3_total_bounded_monotone_witness:
  "\<exists>r r'. calculate_reward_v3 1024 1000000 150 100 250000 500000 250 1000 = Some r
    \<and> calculate_reward_v3 1024 1000000 150 100 400000 500000 250 1000 = Some r'
    \<and> r \<le> r' \<and> r' \<le> 1000000 * 1024"
  using reward_v3_total_bounded_monotone [of 250 1000 250000 400000 1024 1000000 150 100 500000] by auto

text \<open>Splitting one bond into four equal bonds of the same total doubles the sum of the rewards
  for the same proof, since the square root is subadditive. The comment of \<open>calculate_reward_v3\<close> claims the opposite inequality.
\<close>

theorem split_bond_doubles_reward:
  "\<exists>whole quarter.
     calculate_reward_v3 1024 1000000 150 100 500000 500000 1000 1000 = Some whole
     \<and> calculate_reward_v3 1024 1000000 150 100 500000 500000 250 1000 = Some quarter
     \<and> 0 < whole \<and> 4 * quarter = 2 * whole"
proof -
  have s1: "sqrt_ppm 1000000 = Some 1000000"
    by (rule sqrt_ppm_eqI) (simp_all add: u128_max_def)
  have s2: "sqrt_ppm 250000 = Some 500000"
    by (rule sqrt_ppm_eqI) (simp_all add: u128_max_def)
  have "calculate_reward_v3 1024 1000000 150 100 500000 500000 1000 1000 = Some 1024000000"
    by (simp add: reward_v3_cases base_reward_def pool_ratio_ppm_def sat_mul_def u128_max_def s1)
  moreover have "calculate_reward_v3 1024 1000000 150 100 500000 500000 250 1000 = Some 512000000"
    by (simp add: reward_v3_cases base_reward_def pool_ratio_ppm_def sat_mul_def u128_max_def s2)
  ultimately show ?thesis by simp
qed

text \<open>A prover without any bond is paid the whole base reward, never less than a bonded prover:
  the bond correction is skipped when the prover's own bond is zero, not only when no bond
  exists at all.
\<close>

theorem unbonded_prover_paid_most:
  assumes "node_bond \<le> total_bond"
    and "calculate_reward_v3 data_size price score threshold pool target node_bond total_bond = Some r"
  shows "\<exists>r0. calculate_reward_v3 data_size price score threshold pool target 0 total_bond = Some r0 \<and> r \<le> r0"
proof (cases "score < threshold")
  case True
  then show ?thesis using assms(2) by simp
next
  case False
  have "r \<le> base_reward data_size price pool target"
  proof (cases "0 < total_bond \<and> 0 < node_bond")
    case True
    then obtain s where s: "s \<le> 1000000" "sqrt_ppm (sat_mul u128_max node_bond 1000000 div max total_bond 1) = Some s"
      using sqrt_ppm_unit [OF bond_share_le [OF assms(1)]] by blast
    then have "r = sat_mul u128_max (base_reward data_size price pool target) s div 1000000"
      using assms(2) False True by (simp add: reward_v3_cases)
    then show ?thesis using s(1) by (simp add: sat_mul_div_le)
  next
    case no: False
    then show ?thesis using assms(2) False by (simp add: reward_v3_cases split: if_splits)
  qed
  then show ?thesis using False by (simp add: reward_v3_cases)
qed

lemma unbonded_prover_paid_most_witness:
  "\<exists>r0. calculate_reward_v3 1024 1000000 150 100 500000 500000 0 1000 = Some r0 \<and> 512000000 \<le> r0"
proof (rule unbonded_prover_paid_most [of 250])
  show "(250::nat) \<le> 1000" by simp
  have s2: "sqrt_ppm 250000 = Some 500000"
    by (rule sqrt_ppm_eqI) (simp_all add: u128_max_def)
  show "calculate_reward_v3 1024 1000000 150 100 500000 500000 250 1000 = Some 512000000"
    by (simp add: reward_v3_cases base_reward_def pool_ratio_ppm_def sat_mul_def u128_max_def s2)
qed

end
