(* ===== verification/Storage_Stake.thy ===== *)
theory Storage_Stake
  imports Rewards
begin

text \<open>
  \<open>pallets/storage_stake/src/lib.rs\<close>: bonds of storage nodes. The pallet's storage is a record,
  its extrinsics and the internal slash are functions on that record and the currency's state.
  The trait \<open>BondInfo\<close>, through which \<open>pallet_storage\<close> reads and slashes bonds, is the locale
  \<open>bond_info\<close>; it is interpreted on the pallet and on the stub \<open>NoBond\<close>.
\<close>

subsection \<open>The interface BondInfo\<close>

locale bond_info =
  fixes has_bond :: "'s \<Rightarrow> account_id \<Rightarrow> bool"
    and bond_amount :: "'s \<Rightarrow> account_id \<Rightarrow> nat"
    and active_bond :: "'s \<Rightarrow> nat"
    and slash_bond :: "account_id \<Rightarrow> nat \<Rightarrow> 's \<Rightarrow> nat \<times> 's"
    and inv :: "'s \<Rightarrow> bool"
  assumes amount_le_active: "inv s \<Longrightarrow> bond_amount s w \<le> active_bond s"
    and no_bond_no_amount: "inv s \<Longrightarrow> \<not> has_bond s w \<Longrightarrow> bond_amount s w = 0"
    and slash_inv: "inv s \<Longrightarrow> slash_bond w a s = (r, s') \<Longrightarrow> inv s'"
    and slash_le_request: "inv s \<Longrightarrow> slash_bond w a s = (r, s') \<Longrightarrow> r \<le> a"
    and slash_amount: "inv s \<Longrightarrow> slash_bond w a s = (r, s') \<Longrightarrow> bond_amount s' w + r = bond_amount s w"
    and slash_other: "inv s \<Longrightarrow> slash_bond w a s = (r, s') \<Longrightarrow> v \<noteq> w \<Longrightarrow> bond_amount s' v = bond_amount s v"
    and slash_active: "inv s \<Longrightarrow> slash_bond w a s = (r, s') \<Longrightarrow> active_bond s' + r = active_bond s"
begin

lemma slash_le_bond: "inv s \<Longrightarrow> slash_bond w a s = (r, s') \<Longrightarrow> r \<le> bond_amount s w"
  using slash_amount by (metis le_add2)

lemma reward_defined:
  assumes "inv s"
  shows "\<exists>r. calculate_reward_v3 d p score threshold b t (bond_amount s w) (active_bond s) = Some r
    \<and> r \<le> p * d"
  by (rule reward_v3_bounded [OF amount_le_active [OF assms]])

end

subsection \<open>State and operations\<close>

definition bytes_per_gb :: nat where "bytes_per_gb = 1073741824"

record stake_config =
  sk_bond_per_gb :: nat
  sk_min_capacity :: nat
  sk_release_delay :: block_number
  sk_burn_share :: nat
  sk_mul_floor :: "nat \<Rightarrow> nat \<Rightarrow> nat"

record bond =
  bd_amount :: nat
  bd_capacity :: nat
  bd_bonded_at :: block_number
  bd_release_requested_at :: "block_number option"

datatype stake_event =
    Bonded account_id nat nat
  | ReleaseRequested account_id block_number
  | Released account_id nat
  | Slashed account_id nat nat

datatype stake_error =
    AlreadyBonded | CapacityTooLow | StakeInsufficientBalance | StakeNotBonded
  | ReleaseNotRequested | ReleaseStillPending | BondInRelease

record stake_state =
  bonds :: "account_id \<rightharpoonup> bond"
  active_total :: nat
  stake_events :: "stake_event list"

definition stake_deposit_event :: "stake_event \<Rightarrow> stake_state \<Rightarrow> stake_state" where
  "stake_deposit_event e s = s\<lparr>stake_events := stake_events s @ [e]\<rparr>"

text \<open>\<open>BondPerGB\<close> times the capacity in gigabytes, rounded up.\<close>

definition required_bond :: "stake_config \<Rightarrow> nat \<Rightarrow> nat" where
  "required_bond cfg declared_capacity_bytes =
     (let gb = sat_add u64_max declared_capacity_bytes (bytes_per_gb - 1) div bytes_per_gb
      in sat_mul u128_max (sk_bond_per_gb cfg) gb)"

definition stake_bond ::
  "stake_config \<Rightarrow> 'c currency \<Rightarrow> block_number \<Rightarrow> account_id \<Rightarrow> nat \<Rightarrow>
   stake_state \<times> 'c \<Rightarrow> (stake_error, stake_state \<times> 'c) result" where
  "stake_bond cfg cur now who declared_capacity_bytes = (\<lambda>(s, c).
     ensure (bonds s who = None) AlreadyBonded (
     ensure (sk_min_capacity cfg \<le> declared_capacity_bytes) CapacityTooLow (
     let amount = required_bond cfg declared_capacity_bytes in
     ok_or (cur_reserve cur who amount c) StakeInsufficientBalance (\<lambda>c'.
     let s1 = s\<lparr>bonds := (bonds s)(who \<mapsto>
                  \<lparr>bd_amount = amount, bd_capacity = declared_capacity_bytes,
                   bd_bonded_at = now, bd_release_requested_at = None\<rparr>),
                active_total := sat_add u128_max (active_total s) amount\<rparr>
     in Inr (stake_deposit_event (Bonded who amount declared_capacity_bytes) s1, c')))))"

definition request_release ::
  "stake_config \<Rightarrow> block_number \<Rightarrow> account_id \<Rightarrow> stake_state \<Rightarrow> (stake_error, stake_state) result" where
  "request_release cfg now who s =
     ok_or (bonds s who) StakeNotBonded (\<lambda>b.
     ensure (bd_release_requested_at b = None) BondInRelease (
     let release_at = sat_add u32_max now (sk_release_delay cfg) in
     Inr (stake_deposit_event (ReleaseRequested who release_at)
            (s\<lparr>bonds := (bonds s)(who \<mapsto> b\<lparr>bd_release_requested_at := Some now\<rparr>)\<rparr>))))"

definition finalize_release ::
  "stake_config \<Rightarrow> 'c currency \<Rightarrow> block_number \<Rightarrow> account_id \<Rightarrow>
   stake_state \<times> 'c \<Rightarrow> (stake_error, stake_state \<times> 'c) result" where
  "finalize_release cfg cur now who = (\<lambda>(s, c).
     ok_or (bonds s who) StakeNotBonded (\<lambda>b.
     ok_or (bd_release_requested_at b) ReleaseNotRequested (\<lambda>requested.
     ensure (sat_add u32_max requested (sk_release_delay cfg) \<le> now) ReleaseStillPending (
     let amount = bd_amount b;
         c' = cur_unreserve cur who amount c;
         s1 = s\<lparr>bonds := (bonds s)(who := None), active_total := active_total s - amount\<rparr>
     in Inr (stake_deposit_event (Released who amount) s1, c')))))"

text \<open>
  The internal slash: part of the slashed amount is destroyed, the rest returns to the free
  balance. The \<open>Slashed\<close> event is emitted even when nothing was bonded.
\<close>

definition slash_settle :: "'c currency \<Rightarrow> account_id \<Rightarrow> nat \<Rightarrow> nat \<Rightarrow> 'c \<Rightarrow> 'c" where
  "slash_settle cur who burn_amount return_amount c =
     (let c1 = (if 0 < burn_amount then cur_slash_reserved cur who burn_amount c else c)
      in if 0 < return_amount then cur_unreserve cur who return_amount c1 else c1)"

definition do_slash_bond ::
  "stake_config \<Rightarrow> 'c currency \<Rightarrow> account_id \<Rightarrow> nat \<Rightarrow> stake_state \<times> 'c \<Rightarrow> nat \<times> (stake_state \<times> 'c)" where
  "do_slash_bond cfg cur who amount = (\<lambda>(s, c).
     case bonds s who of
       None \<Rightarrow> (0, (stake_deposit_event (Slashed who 0 0) s, c))
     | Some b \<Rightarrow>
         let slash = min (bd_amount b) amount in
         if slash = 0 then (0, (stake_deposit_event (Slashed who 0 0) s, c))
         else
           let left = bd_amount b - slash;
               burn_amount = sk_mul_floor cfg (sk_burn_share cfg) slash;
               return_amount = slash - burn_amount;
               c2 = slash_settle cur who burn_amount return_amount c;
               s1 = s\<lparr>active_total := active_total s - slash,
                      bonds := (bonds s)(who := (if left = 0 then None else Some (b\<lparr>bd_amount := left\<rparr>)))\<rparr>
           in (slash, (stake_deposit_event (Slashed who slash burn_amount) s1, c2)))"

text \<open>The \<open>BondInfo\<close> methods of the pallet and of the stub \<open>NoBond\<close>.\<close>

definition stake_has_bond :: "stake_state \<times> 'c \<Rightarrow> account_id \<Rightarrow> bool" where
  "stake_has_bond = (\<lambda>(s, c) who. bonds s who \<noteq> None)"

definition stake_bond_amount :: "stake_state \<times> 'c \<Rightarrow> account_id \<Rightarrow> nat" where
  "stake_bond_amount = (\<lambda>(s, c) who. case bonds s who of None \<Rightarrow> 0 | Some b \<Rightarrow> bd_amount b)"

definition stake_active_bond :: "stake_state \<times> 'c \<Rightarrow> nat" where
  "stake_active_bond = (\<lambda>(s, c). active_total s)"

definition nobond_has_bond :: "'s \<Rightarrow> account_id \<Rightarrow> bool" where "nobond_has_bond s who = True"

definition nobond_bond_amount :: "'s \<Rightarrow> account_id \<Rightarrow> nat" where "nobond_bond_amount s who = 0"

definition nobond_active_bond :: "'s \<Rightarrow> nat" where "nobond_active_bond s = 0"

definition nobond_slash_bond :: "account_id \<Rightarrow> nat \<Rightarrow> 's \<Rightarrow> nat \<times> 's" where
  "nobond_slash_bond who amount s = (0, s)"

subsection \<open>Invariant\<close>

text \<open>
  Finitely many bonds, each backed by the owner's reserved balance, adding up to the stored
  total. The backing is what keeps the total inside \<open>u128\<close>, so that it never saturates.
\<close>

definition stake_inv :: "'c currency \<Rightarrow> stake_state \<times> 'c \<Rightarrow> bool" where
  "stake_inv cur = (\<lambda>(s, c). cur_ok cur c \<and> finite (dom (bonds s))
     \<and> active_total s = map_total bd_amount (bonds s)
     \<and> (\<forall>w b. bonds s w = Some b \<longrightarrow> bd_amount b \<le> reserved_balance cur c w))"

lemma stake_inv_total_le:
  assumes "currency_laws cur" "stake_inv cur (s, c)"
  shows "active_total s \<le> u128_max"
proof -
  have "active_total s \<le> (\<Sum>w \<in> dom (bonds s). reserved_balance cur c w)"
    using assms(2) by (auto simp: stake_inv_def intro!: map_total_le_sum)
  also have "\<dots> \<le> u128_max"
    using assms by (intro reserved_sum_le) (auto simp: stake_inv_def)
  finally show ?thesis .
qed

lemma stake_inv_amount_le:
  "stake_inv cur (s, c) \<Longrightarrow> bonds s w = Some b \<Longrightarrow> bd_amount b \<le> active_total s"
  by (auto simp: stake_inv_def intro: map_total_ge)

lemma stake_deposit_event_inv [simp]:
  "stake_inv cur (stake_deposit_event e s, c) = stake_inv cur (s, c)"
  "bonds (stake_deposit_event e s) = bonds s"
  "active_total (stake_deposit_event e s) = active_total s"
  by (simp_all add: stake_inv_def stake_deposit_event_def)

text \<open>One entry changes together with its owner's reserved balance.\<close>

lemma stake_inv_remove:
  assumes "stake_inv cur (s, c)" "bonds s w = Some b" "cur_ok cur c'"
    and "\<forall>v. v \<noteq> w \<longrightarrow> reserved_balance cur c v \<le> reserved_balance cur c' v"
  shows "stake_inv cur (s\<lparr>bonds := (bonds s)(w := None), active_total := active_total s - bd_amount b\<rparr>, c')"
  using assms map_total_remove [of "bonds s" w b bd_amount]
  by (auto simp: stake_inv_def intro: le_trans)

lemma stake_inv_change:
  assumes "stake_inv cur (s, c)" "bonds s w = Some b" "cur_ok cur c'"
    and "\<forall>v. v \<noteq> w \<longrightarrow> reserved_balance cur c v \<le> reserved_balance cur c' v"
    and "bd_amount b' \<le> reserved_balance cur c' w" "bd_amount b' \<le> bd_amount b"
  shows "stake_inv cur (s\<lparr>bonds := (bonds s)(w \<mapsto> b'),
    active_total := active_total s - (bd_amount b - bd_amount b')\<rparr>, c')"
  using assms map_total_update [of "bonds s" w b bd_amount b']
    map_total_ge [of "bonds s" w b bd_amount]
  by (auto simp: stake_inv_def intro: le_trans)

subsection \<open>Every operation keeps the invariant\<close>

lemma stake_bond_inv:
  assumes laws: "currency_laws cur" and inv: "stake_inv cur (s, c)"
    and r: "stake_bond cfg cur now who cap (s, c) = Inr (s', c')"
  shows "stake_inv cur (s', c')"
proof -
  let ?a = "required_bond cfg cap"
  let ?b = "\<lparr>bd_amount = ?a, bd_capacity = cap, bd_bonded_at = now, bd_release_requested_at = None\<rparr>"
  from r have none: "bonds s who = None" and res: "cur_reserve cur who ?a c = Some c'"
    and s': "s' = stake_deposit_event (Bonded who ?a cap)
        (s\<lparr>bonds := (bonds s)(who \<mapsto> ?b), active_total := sat_add u128_max (active_total s) ?a\<rparr>)"
    by (auto simp: stake_bond_def Let_def result_simps)
  from inv have ok: "cur_ok cur c" by (simp add: stake_inv_def)
  note resD = reserveD [OF laws ok res]
  let ?s1 = "s\<lparr>bonds := (bonds s)(who \<mapsto> ?b), active_total := active_total s + ?a\<rparr>"
  have "stake_inv cur (?s1, c')"
    using inv none resD map_total_insert [of "bonds s" who bd_amount ?b]
    by (auto simp: stake_inv_def intro: le_trans)
  moreover from this have "active_total ?s1 \<le> u128_max" by (rule stake_inv_total_le [OF laws])
  ultimately show ?thesis by (simp add: s' sat_add_exact)
qed

lemma request_release_inv:
  assumes "stake_inv cur (s, c)" "request_release cfg now who s = Inr s'"
  shows "stake_inv cur (s', c)"
proof -
  from assms(2) obtain b where b: "bonds s who = Some b"
    and s': "s' = stake_deposit_event (ReleaseRequested who (sat_add u32_max now (sk_release_delay cfg)))
        (s\<lparr>bonds := (bonds s)(who \<mapsto> b\<lparr>bd_release_requested_at := Some now\<rparr>)\<rparr>)"
    by (auto simp: request_release_def Let_def result_simps)
  have "stake_inv cur (s\<lparr>bonds := (bonds s)(who \<mapsto> b\<lparr>bd_release_requested_at := Some now\<rparr>),
      active_total := active_total s - (bd_amount b - bd_amount (b\<lparr>bd_release_requested_at := Some now\<rparr>))\<rparr>, c)"
    by (rule stake_inv_change [OF assms(1) b]) (use assms(1) b in \<open>auto simp: stake_inv_def\<close>)
  then show ?thesis by (simp add: s')
qed

lemma finalize_release_inv:
  assumes laws: "currency_laws cur" and inv: "stake_inv cur (s, c)"
    and r: "finalize_release cfg cur now who (s, c) = Inr (s', c')"
  shows "stake_inv cur (s', c')"
proof -
  from r obtain b where b: "bonds s who = Some b" and c': "c' = cur_unreserve cur who (bd_amount b) c"
    and s': "s' = stake_deposit_event (Released who (bd_amount b))
        (s\<lparr>bonds := (bonds s)(who := None), active_total := active_total s - bd_amount b\<rparr>)"
    by (auto simp: finalize_release_def Let_def result_simps)
  from inv have ok: "cur_ok cur c" by (simp add: stake_inv_def)
  note un = unreserveD [OF laws ok, of who "bd_amount b"]
  show ?thesis
    unfolding s' c' by (simp, rule stake_inv_remove [OF inv b]) (simp_all add: un)
qed

text \<open>What a slash takes from the bond and does to the balances.\<close>

lemma do_slash_bond_cases:
  assumes "do_slash_bond cfg cur who amount (s, c) = (r, (s', c'))"
  obtains (none) "r = 0" "bonds s' = bonds s" "active_total s' = active_total s" "c' = c"
      "r = min (case bonds s who of None \<Rightarrow> 0 | Some b \<Rightarrow> bd_amount b) amount"
  | (some) b where "bonds s who = Some b" "r = min (bd_amount b) amount" "0 < r"
      "active_total s' = active_total s - r"
      "bonds s' = (bonds s)(who := (if bd_amount b = r then None else Some (b\<lparr>bd_amount := bd_amount b - r\<rparr>)))"
      "c' = slash_settle cur who (sk_mul_floor cfg (sk_burn_share cfg) r)
              (r - sk_mul_floor cfg (sk_burn_share cfg) r) c"
proof (cases "bonds s who")
  case None
  with assms show ?thesis by (intro none) (auto simp: do_slash_bond_def)
next
  case (Some b)
  show ?thesis
  proof (cases "min (bd_amount b) amount = 0")
    case True
    with Some assms show ?thesis by (intro none) (auto simp: do_slash_bond_def Let_def)
  next
    case False
    define m where "m = min (bd_amount b) amount"
    have m0: "m \<noteq> 0" and mb: "m \<le> bd_amount b" using False by (simp_all add: m_def)
    have le: "bd_amount b - m = 0 \<longleftrightarrow> bd_amount b = m" using mb by linarith
    from assms Some m0 mb have "r = m" "c' = slash_settle cur who (sk_mul_floor cfg (sk_burn_share cfg) m)
        (m - sk_mul_floor cfg (sk_burn_share cfg) m) c"
      "active_total s' = active_total s - m"
      "bonds s' = (bonds s)(who := (if bd_amount b = m then None else Some (b\<lparr>bd_amount := bd_amount b - m\<rparr>)))"
      by (auto simp: do_slash_bond_def Let_def le simp flip: m_def)
    then show ?thesis using m0 by (intro some [OF Some]) (simp_all add: m_def)
  qed
qed

text \<open>The two currency calls of a slash of a backed bond, taken together.\<close>

lemma slash_settle_effect:
  assumes laws: "currency_laws cur" and ok: "cur_ok cur c" and backed: "r \<le> reserved_balance cur c w"
    and burn: "burn \<le> r"
  defines "c' \<equiv> slash_settle cur w burn (r - burn) c"
  shows "cur_ok cur c'"
    and "reserved_balance cur c' = (reserved_balance cur c)(w := reserved_balance cur c w - r)"
    and "free_balance cur c' = (free_balance cur c)(w := free_balance cur c w + (r - burn))"
    and "total_issuance cur c' + burn = total_issuance cur c"
proof -
  let ?c1 = "if 0 < burn then cur_slash_reserved cur w burn c else c"
  note sl = slash_reservedD [OF laws ok, of w burn]
  have c1: "cur_ok cur ?c1" "free_balance cur ?c1 = free_balance cur c"
    "reserved_balance cur ?c1 = (reserved_balance cur c)(w := reserved_balance cur c w - burn)"
    "total_issuance cur ?c1 + burn = total_issuance cur c"
    using sl ok backed burn by (auto simp: min_absorb1)
  note un = unreserveD [OF laws c1(1), of w "r - burn"]
  have c': "c' = (if 0 < r - burn then cur_unreserve cur w (r - burn) ?c1 else ?c1)"
    by (simp add: c'_def slash_settle_def Let_def)
  show "cur_ok cur c'" using c1(1) un(1) by (simp add: c')
  show "reserved_balance cur c' = (reserved_balance cur c)(w := reserved_balance cur c w - r)"
  proof (cases "0 < r - burn")
    case True
    then show ?thesis using un(3) c1(3) backed burn by (simp add: c' min_absorb1)
  next
    case False
    then have "r = burn" using burn by simp
    then show ?thesis using c1(3) by (simp add: c')
  qed
  show "free_balance cur c' = (free_balance cur c)(w := free_balance cur c w + (r - burn))"
  proof (cases "0 < r - burn")
    case True
    then show ?thesis using un(2) c1(2,3) backed burn by (simp add: c' min_absorb1)
  next
    case False
    then show ?thesis using c1(2) by (simp add: c')
  qed
  show "total_issuance cur c' + burn = total_issuance cur c"
    using c1(4) un(4) by (simp add: c')
qed

lemma do_slash_bond_effect:
  assumes laws: "currency_laws cur" and floor: "permill_floor_law (sk_mul_floor cfg)"
    and share: "sk_burn_share cfg \<le> 1000000" and inv: "stake_inv cur (s, c)"
    and r: "do_slash_bond cfg cur who amount (s, c) = (r, (s', c'))"
  shows "stake_inv cur (s', c')" and "r = min (stake_bond_amount (s, c) who) amount"
    and "stake_bond_amount (s', c') who + r = stake_bond_amount (s, c) who"
    and "v \<noteq> who \<Longrightarrow> bonds s' v = bonds s v"
    and "active_total s' + r = active_total s"
    and "reserved_balance cur c' = (reserved_balance cur c)(who := reserved_balance cur c who - r)"
    and "free_balance cur c' = (free_balance cur c)(who := free_balance cur c who + (r - sk_burn_share cfg * r div 1000000))"
    and "total_issuance cur c' + sk_burn_share cfg * r div 1000000 = total_issuance cur c"
proof -
  from inv have ok: "cur_ok cur c" by (simp add: stake_inv_def)
  have "stake_inv cur (s', c') \<and> r = min (stake_bond_amount (s, c) who) amount
    \<and> stake_bond_amount (s', c') who + r = stake_bond_amount (s, c) who
    \<and> (v \<noteq> who \<longrightarrow> bonds s' v = bonds s v) \<and> active_total s' + r = active_total s
    \<and> reserved_balance cur c' = (reserved_balance cur c)(who := reserved_balance cur c who - r)
    \<and> free_balance cur c' = (free_balance cur c)(who := free_balance cur c who + (r - sk_burn_share cfg * r div 1000000))
    \<and> total_issuance cur c' + sk_burn_share cfg * r div 1000000 = total_issuance cur c"
    using r
  proof (cases rule: do_slash_bond_cases)
    case none
    then show ?thesis using inv by (simp add: stake_inv_def stake_bond_amount_def)
  next
    case (some b)
    have backed: "bd_amount b \<le> reserved_balance cur c who" using inv some(1) by (auto simp: stake_inv_def)
    have rb: "r \<le> bd_amount b" using some(2) by simp
    let ?burn = "sk_mul_floor cfg (sk_burn_share cfg) r"
    have burn: "?burn \<le> r" by (rule mul_floor_le [OF floor share])
    have b1: "?burn = sk_burn_share cfg * r div 1000000" using floor by (simp add: permill_floor_law_def)
    note eff = slash_settle_effect [OF laws ok le_trans [OF rb backed] burn, folded some(6)]
    have others: "\<forall>v. v \<noteq> who \<longrightarrow> reserved_balance cur c v \<le> reserved_balance cur c' v"
      by (simp add: eff(2))
    have "stake_inv cur (s\<lparr>bonds := bonds s', active_total := active_total s - r\<rparr>, c')"
    proof (cases "bd_amount b = r")
      case True
      then show ?thesis using stake_inv_remove [OF inv some(1) eff(1) others] some(5) by simp
    next
      case False
      let ?b = "b\<lparr>bd_amount := bd_amount b - r\<rparr>"
      have "stake_inv cur (s\<lparr>bonds := (bonds s)(who \<mapsto> ?b),
          active_total := active_total s - (bd_amount b - bd_amount ?b)\<rparr>, c')"
        by (rule stake_inv_change [OF inv some(1) eff(1) others]) (use backed eff(2) in simp_all)
      then show ?thesis using False some(5) rb by simp
    qed
    then have "stake_inv cur (s', c')" using some(4) by (simp add: stake_inv_def)
    moreover have "r \<le> active_total s" using stake_inv_amount_le [OF inv some(1)] rb by simp
    ultimately have "stake_inv cur (s', c')" "active_total s' + r = active_total s"
      using some(4) by simp_all
    moreover have "r = min (stake_bond_amount (s, c) who) amount"
      using some(1,2) by (simp add: stake_bond_amount_def)
    moreover have "stake_bond_amount (s', c') who + r = stake_bond_amount (s, c) who"
      using some(1,5) rb by (simp add: stake_bond_amount_def)
    moreover have "v \<noteq> who \<longrightarrow> bonds s' v = bonds s v" using some(5) by simp
    ultimately show ?thesis using eff(2-4) unfolding b1 by blast
  qed
  then show "stake_inv cur (s', c')" and "r = min (stake_bond_amount (s, c) who) amount"
    and "stake_bond_amount (s', c') who + r = stake_bond_amount (s, c) who"
    and "v \<noteq> who \<Longrightarrow> bonds s' v = bonds s v" and "active_total s' + r = active_total s"
    and "reserved_balance cur c' = (reserved_balance cur c)(who := reserved_balance cur c who - r)"
    and "free_balance cur c' = (free_balance cur c)(who := free_balance cur c who + (r - sk_burn_share cfg * r div 1000000))"
    and "total_issuance cur c' + sk_burn_share cfg * r div 1000000 = total_issuance cur c" by blast+
qed

subsection \<open>The interface provided\<close>

text \<open>The pallet's invariant together with a burn share of at most one and an exact \<open>mul_floor\<close>.\<close>

definition stake_provider_inv :: "stake_config \<Rightarrow> 'c currency \<Rightarrow> stake_state \<times> 'c \<Rightarrow> bool" where
  "stake_provider_inv cfg cur p \<longleftrightarrow> currency_laws cur \<and> permill_floor_law (sk_mul_floor cfg)
     \<and> sk_burn_share cfg \<le> 1000000 \<and> stake_inv cur p"

interpretation stake: bond_info stake_has_bond stake_bond_amount stake_active_bond
  "do_slash_bond cfg cur" "stake_provider_inv cfg cur"
proof (unfold_locales, goal_cases)
  case (1 s w)
  then show ?case
    by (cases s) (auto simp: stake_provider_inv_def stake_bond_amount_def stake_active_bond_def
        stake_inv_amount_le split: option.splits)
next
  case (2 s w)
  then show ?case by (cases s) (simp add: stake_has_bond_def stake_bond_amount_def)
next
  case (3 s w a r s')
  then show ?case
    by (cases s; cases s') (simp add: stake_provider_inv_def, metis do_slash_bond_effect(1))
next
  case (4 s w a r s')
  then show ?case
    by (cases s; cases s') (simp add: stake_provider_inv_def, metis do_slash_bond_effect(2) min.cobounded2)
next
  case (5 s w a r s')
  then show ?case
    by (cases s; cases s') (simp add: stake_provider_inv_def, metis do_slash_bond_effect(3))
next
  case (6 s w a r s' v)
  then have "bonds (fst s') v = bonds (fst s) v"
    by (cases s; cases s') (simp add: stake_provider_inv_def, metis do_slash_bond_effect(4))
  then show ?case by (cases s; cases s') (simp add: stake_bond_amount_def)
next
  case (7 s w a r s')
  then show ?case
    by (cases s; cases s') (simp add: stake_provider_inv_def stake_active_bond_def,
        metis do_slash_bond_effect(5))
qed

interpretation nobond: bond_info nobond_has_bond nobond_bond_amount nobond_active_bond
  nobond_slash_bond "\<lambda>_. True"
  by unfold_locales (simp_all add: nobond_has_bond_def nobond_bond_amount_def
      nobond_active_bond_def nobond_slash_bond_def)

subsection \<open>Runs of the pallet\<close>

inductive stake_step :: "stake_config \<Rightarrow> 'c currency \<Rightarrow> stake_state \<times> 'c \<Rightarrow> stake_state \<times> 'c \<Rightarrow> bool"
  for cfg :: stake_config and cur :: "'c currency" where
  step_bond: "stake_bond cfg cur now who cap p = Inr p' \<Longrightarrow> stake_step cfg cur p p'"
| step_request: "request_release cfg now who s = Inr s' \<Longrightarrow> stake_step cfg cur (s, c) (s', c)"
| step_finalize: "finalize_release cfg cur now who p = Inr p' \<Longrightarrow> stake_step cfg cur p p'"
| step_slash: "do_slash_bond cfg cur who amount p = (r, p') \<Longrightarrow> stake_step cfg cur p p'"

inductive stake_reachable :: "stake_config \<Rightarrow> 'c currency \<Rightarrow> 'c \<Rightarrow> stake_state \<times> 'c \<Rightarrow> bool"
  for cfg :: stake_config and cur :: "'c currency" and c0 :: 'c where
  stake_init: "stake_reachable cfg cur c0
     (\<lparr>bonds = \<lambda>_. None, active_total = 0, stake_events = []\<rparr>, c0)"
| stake_run: "stake_reachable cfg cur c0 p \<Longrightarrow> stake_step cfg cur p p' \<Longrightarrow> stake_reachable cfg cur c0 p'"

lemma stake_step_inv:
  assumes "stake_step cfg cur p p'" "stake_provider_inv cfg cur p"
  shows "stake_provider_inv cfg cur p'"
  using assms
proof (induction rule: stake_step.induct)
  case (step_bond now who cap p p')
  then show ?case by (cases p; cases p') (auto simp: stake_provider_inv_def intro: stake_bond_inv)
next
  case (step_request now who s s' c)
  then show ?case by (auto simp: stake_provider_inv_def intro: request_release_inv)
next
  case (step_finalize now who p p')
  then show ?case by (cases p; cases p') (auto simp: stake_provider_inv_def intro: finalize_release_inv)
next
  case (step_slash who amount p r p')
  then show ?case by (metis stake.slash_inv)
qed

text \<open>C3: in every state the staking pallet can reach, the stored total is exactly the sum of the
  bonds, fits in a \<open>u128\<close>, and every bond is backed by its owner's reserved balance.
\<close>

theorem stake_reachable_backed:
  assumes "stake_reachable cfg cur c0 (s, c)"
    and "currency_laws cur" "cur_ok cur c0"
    and "permill_floor_law (sk_mul_floor cfg)" "sk_burn_share cfg \<le> 1000000"
  shows "active_total s = map_total bd_amount (bonds s) \<and> active_total s \<le> u128_max
    \<and> (\<forall>w. stake_bond_amount (s, c) w \<le> reserved_balance cur c w)"
proof -
  have "stake_provider_inv cfg cur (s, c)"
    using assms(1)
  proof (induction "(s, c)" arbitrary: s c rule: stake_reachable.induct)
    case stake_init
    then show ?case using assms by (simp add: stake_provider_inv_def stake_inv_def)
  next
    case (stake_run p)
    then show ?case by (cases p) (metis stake_step_inv)
  qed
  then have inv: "stake_inv cur (s, c)" by (simp add: stake_provider_inv_def)
  moreover have "active_total s \<le> u128_max" by (rule stake_inv_total_le [OF assms(2) inv])
  ultimately show ?thesis
    by (auto simp: stake_inv_def stake_bond_amount_def split: option.splits)
qed

definition demo_stake_config :: stake_config where
  "demo_stake_config = \<lparr>sk_bond_per_gb = 10, sk_min_capacity = 1073741824, sk_release_delay = 100,
     sk_burn_share = 300000, sk_mul_floor = floor_permill\<rparr>"

definition demo_stake :: "stake_state" where
  "demo_stake = \<lparr>bonds = (\<lambda>_. None)(7 \<mapsto> \<lparr>bd_amount = 20, bd_capacity = 2000000000, bd_bonded_at = 5,
     bd_release_requested_at = None\<rparr>), active_total = 20, stake_events = [Bonded 7 20 2000000000]\<rparr>"

lemma demo_bond:
  "stake_bond demo_stake_config ledger_currency 5 7 2000000000
     (\<lparr>bonds = \<lambda>_. None, active_total = 0, stake_events = []\<rparr>, ledger_of 7 50 0)
   = Inr (demo_stake, ledger_of 7 30 20)"
  by (auto simp: stake_bond_def demo_stake_config_def ledger_currency_def led_reserve_def ledger_of_def
      required_bond_def sat_add_def sat_mul_def u64_max_def u128_max_def bytes_per_gb_def
      stake_deposit_event_def demo_stake_def fun_eq_iff)

lemma stake_inv_single:
  assumes "bd_amount b = r" "f + r \<le> u128_max"
  shows "stake_inv ledger_currency (\<lparr>bonds = (\<lambda>_. None)(w \<mapsto> b), active_total = r, stake_events = es\<rparr>,
    ledger_of w f r)"
  unfolding stake_inv_def prod.case stake_state.simps
  using assms ledger_of_ok [OF assms(2)] by (simp add: ledger_currency_def ledger_of_def)

lemma stake_reachable_backed_witness:
  "active_total demo_stake = map_total bd_amount (bonds demo_stake) \<and> active_total demo_stake \<le> u128_max
    \<and> (\<forall>w. stake_bond_amount (demo_stake, ledger_of 7 30 20) w
          \<le> reserved_balance ledger_currency (ledger_of 7 30 20) w)"
proof (rule stake_reachable_backed)
  show "stake_reachable demo_stake_config ledger_currency (ledger_of 7 50 0) (demo_stake, ledger_of 7 30 20)"
    by (rule stake_run [OF stake_init]) (rule step_bond [OF demo_bond])
  show "cur_ok ledger_currency (ledger_of 7 50 0)"
    by (simp add: ledger_currency_def ledger_of_ok u128_max_def)
qed (simp_all add: ledger_currency_laws floor_permill_law demo_stake_config_def)

text \<open>A slash takes at most what is bonded and what is asked for, and accounts for all of it:
  the burn share leaves the issuance, the rest returns to the free balance, the bond, the
  reserve and the stored total all fall by exactly the slashed amount, and nobody else's bond
  changes.
\<close>

theorem slash_conserves:
  assumes "currency_laws cur" "permill_floor_law (sk_mul_floor cfg)" "sk_burn_share cfg \<le> 1000000"
    and "stake_inv cur (s, c)"
    and "do_slash_bond cfg cur who amount (s, c) = (r, (s', c'))"
  shows "r = min (stake_bond_amount (s, c) who) amount
    \<and> stake_bond_amount (s', c') who + r = stake_bond_amount (s, c) who
    \<and> (\<forall>v. v \<noteq> who \<longrightarrow> stake_bond_amount (s', c') v = stake_bond_amount (s, c) v)
    \<and> active_total s' + r = active_total s
    \<and> reserved_balance cur c' who + r = reserved_balance cur c who
    \<and> (free_balance cur c' who - free_balance cur c who) + (total_issuance cur c - total_issuance cur c') = r"
proof -
  note eff = do_slash_bond_effect [OF assms]
  have "\<forall>v. v \<noteq> who \<longrightarrow> stake_bond_amount (s', c') v = stake_bond_amount (s, c) v"
    using eff(4) by (simp add: stake_bond_amount_def)
  moreover have "r \<le> reserved_balance cur c who"
    using eff(2) assms(4) by (auto simp: stake_inv_def stake_bond_amount_def intro: min.coboundedI1 split: option.splits)
  then have "reserved_balance cur c' who + r = reserved_balance cur c who" by (simp add: eff(6))
  moreover have burn: "sk_burn_share cfg * r div 1000000 \<le> r"
    using mul_floor_le [OF assms(2,3), of r] assms(2) by (simp add: permill_floor_law_def)
  have "free_balance cur c' who - free_balance cur c who = r - sk_burn_share cfg * r div 1000000"
    by (simp add: eff(7))
  moreover have "total_issuance cur c - total_issuance cur c' = sk_burn_share cfg * r div 1000000"
    using eff(8) by linarith
  ultimately show ?thesis using eff(2,3,5) burn by simp
qed

lemma slash_conserves_witness:
  "\<exists>s' c'. do_slash_bond demo_stake_config ledger_currency 7 10 (demo_stake, ledger_of 7 30 20) = (10, (s', c'))
    \<and> stake_bond_amount (s', c') 7 + 10 = 20
    \<and> (free_balance ledger_currency c' 7 - 30) + (total_issuance ledger_currency (ledger_of 7 30 20)
        - total_issuance ledger_currency c') = 10"
proof -
  obtain r s' c' where r: "do_slash_bond demo_stake_config ledger_currency 7 10 (demo_stake, ledger_of 7 30 20)
      = (r, (s', c'))"
    by (metis prod.exhaust)
  have "stake_inv ledger_currency (demo_stake, ledger_of 7 30 20)"
    unfolding demo_stake_def by (rule stake_inv_single) (simp_all add: u128_max_def)
  from slash_conserves [OF ledger_currency_laws _ _ this r] have
    "r = min (stake_bond_amount (demo_stake, ledger_of 7 30 20) 7) 10"
    "stake_bond_amount (s', c') 7 + r = stake_bond_amount (demo_stake, ledger_of 7 30 20) 7"
    "(free_balance ledger_currency c' 7 - free_balance ledger_currency (ledger_of 7 30 20) 7)
      + (total_issuance ledger_currency (ledger_of 7 30 20) - total_issuance ledger_currency c') = r"
    by (simp_all add: demo_stake_config_def floor_permill_law)
  moreover have "stake_bond_amount (demo_stake, ledger_of 7 30 20) 7 = 20"
    by (simp add: stake_bond_amount_def demo_stake_def)
  moreover have "free_balance ledger_currency (ledger_of 7 30 20) 7 = 30"
    by (simp add: ledger_currency_def ledger_of_def)
  ultimately show ?thesis using r by auto
qed

text \<open>A release completes exactly when it was requested and the delay (saturating at the last
  block number) has passed; it then returns the whole bond to the free balance and removes it,
  and a second completion fails because nothing is bonded.
\<close>

theorem finalize_release_spec:
  assumes "currency_laws cur" "stake_inv cur (s, c)"
  shows "((\<exists>p'. finalize_release cfg cur now who (s, c) = Inr p') \<longleftrightarrow>
      (\<exists>b t. bonds s who = Some b \<and> bd_release_requested_at b = Some t
         \<and> sat_add u32_max t (sk_release_delay cfg) \<le> now))
    \<and> (\<forall>s' c'. finalize_release cfg cur now who (s, c) = Inr (s', c') \<longrightarrow>
      free_balance cur c' who = free_balance cur c who + stake_bond_amount (s, c) who
      \<and> stake_bond_amount (s', c') who = 0
      \<and> finalize_release cfg cur later who (s', c') = Inl (Err StakeNotBonded))"
proof (intro conjI allI impI)
  show "(\<exists>p'. finalize_release cfg cur now who (s, c) = Inr p') \<longleftrightarrow>
      (\<exists>b t. bonds s who = Some b \<and> bd_release_requested_at b = Some t
         \<and> sat_add u32_max t (sk_release_delay cfg) \<le> now)"
    by (auto simp: finalize_release_def Let_def result_simps)
next
  fix s' c'
  assume "finalize_release cfg cur now who (s, c) = Inr (s', c')"
  then obtain b where b: "bonds s who = Some b" and c': "c' = cur_unreserve cur who (bd_amount b) c"
    and s': "s' = stake_deposit_event (Released who (bd_amount b))
        (s\<lparr>bonds := (bonds s)(who := None), active_total := active_total s - bd_amount b\<rparr>)"
    by (auto simp: finalize_release_def Let_def result_simps)
  from assms(2) b have ok: "cur_ok cur c" and le: "bd_amount b \<le> reserved_balance cur c who"
    by (auto simp: stake_inv_def)
  show "free_balance cur c' who = free_balance cur c who + stake_bond_amount (s, c) who"
    using unreserveD(2) [OF assms(1) ok, of who "bd_amount b"] le b
    by (simp add: c' stake_bond_amount_def min_absorb1)
  show "stake_bond_amount (s', c') who = 0" by (simp add: s' stake_bond_amount_def)
  show "finalize_release cfg cur later who (s', c') = Inl (Err StakeNotBonded)"
    by (simp add: s' finalize_release_def)
qed

definition demo_stake_released :: stake_state where
  "demo_stake_released = \<lparr>bonds = (\<lambda>_. None)(7 \<mapsto> \<lparr>bd_amount = 20, bd_capacity = 2000000000, bd_bonded_at = 5,
     bd_release_requested_at = Some 10\<rparr>), active_total = 20, stake_events = []\<rparr>"

lemma finalize_release_spec_witness:
  "(\<exists>p'. finalize_release demo_stake_config ledger_currency 110 7 (demo_stake_released, ledger_of 7 30 20) = Inr p')
   \<and> \<not> (\<exists>p'. finalize_release demo_stake_config ledger_currency 109 7 (demo_stake_released, ledger_of 7 30 20) = Inr p')"
proof -
  have inv: "stake_inv ledger_currency (demo_stake_released, ledger_of 7 30 20)"
    unfolding demo_stake_released_def by (rule stake_inv_single) (simp_all add: u128_max_def)
  show ?thesis
    unfolding conjunct1 [OF finalize_release_spec [OF ledger_currency_laws inv]]
    by (simp add: demo_stake_released_def demo_stake_config_def sat_add_def u32_max_def)
qed

end
