(* ===== verification/Pow.thy ===== *)
theory Pow
  imports Frame
begin

text \<open>
  Proof of work: \<open>primitives/pow/src/lib.rs\<close> (shared by the faucet and reaction pallets) and
  \<open>pallets/storage/src/pow.rs\<close> (node registration), with the rate limiting helpers of
  \<open>pallets/storage/src/rate_limit.rs\<close>. Blake2b is an argument. The main result reads the
  leading-zero test as a bound on the hash taken as a big-endian number.
\<close>

subsection \<open>Bytes\<close>

text \<open>\<open>u8::leading_zeros\<close> and \<open>u64::to_le_bytes\<close>.\<close>

definition leading_zeros8 :: "8 word \<Rightarrow> nat" where
  "leading_zeros8 b = (let n = unat b in
     if 128 \<le> n then 0 else if 64 \<le> n then 1 else if 32 \<le> n then 2 else if 16 \<le> n then 3
     else if 8 \<le> n then 4 else if 4 \<le> n then 5 else if 2 \<le> n then 6 else if 1 \<le> n then 7 else 8)"

fun le_bytes :: "nat \<Rightarrow> nat \<Rightarrow> bytes" where
  "le_bytes 0 n = []"
| "le_bytes (Suc k) n = of_nat (n mod 256) # le_bytes k (n div 256)"

fun be_value :: "bytes \<Rightarrow> nat" where
  "be_value [] = 0"
| "be_value (b # bs) = unat b * 256 ^ length bs + be_value bs"

lemma length_le_bytes [simp]: "length (le_bytes k n) = k"
  by (induction k arbitrary: n) simp_all

lemma unat_byte_less: "unat (b :: 8 word) < 256"
  using unsigned_less [of b, where 'a = nat] by simp

lemma unat_of_nat_byte: "unat (of_nat (n mod 256) :: 8 word) = n mod 256"
  by (simp add: unsigned_of_nat take_bit_eq_mod)

lemma be_value_append: "be_value (xs @ [b]) = be_value xs * 256 + unat b"
  by (induction xs) (simp_all add: algebra_simps)

lemma be_value_le_bytes: "n < 256 ^ k \<Longrightarrow> be_value (rev (le_bytes k n)) = n"
proof (induction k arbitrary: n)
  case (Suc k)
  then have "n div 256 < 256 ^ k" by (simp add: less_mult_imp_div_less mult.commute)
  with Suc.IH [of "n div 256"] show ?case by (simp add: be_value_append unat_of_nat)
qed simp

lemma be_value_zeros [simp]: "be_value (replicate n 0) = 0"
  by (induction n) simp_all

lemma le_bytes_inj: "n < 256 ^ k \<Longrightarrow> m < 256 ^ k \<Longrightarrow> le_bytes k n = le_bytes k m \<Longrightarrow> n = m"
proof (induction k arbitrary: n m)
  case 0
  then show ?case by simp
next
  case (Suc k)
  from Suc.prems(3) have hd: "(of_nat (n mod 256) :: 8 word) = of_nat (m mod 256)"
    and tl: "le_bytes k (n div 256) = le_bytes k (m div 256)" by simp_all
  have "n div 256 = m div 256"
    by (rule Suc.IH [OF _ _ tl]) (use Suc.prems in \<open>auto simp: less_mult_imp_div_less\<close>)
  moreover have "n mod 256 = m mod 256"
    using arg_cong [OF hd, of unat] by (simp only: unat_of_nat_byte)
  ultimately show ?case by (metis div_mult_mod_eq)
qed

lemma be_value_less: "be_value bs < 256 ^ length bs"
proof (induction bs)
  case Nil
  then show ?case by simp
next
  case (Cons b bs)
  have "unat b < 256" by (rule unat_byte_less)
  then have "(unat b + 1) * 256 ^ length bs \<le> 256 * 256 ^ length bs"
    by (intro mult_le_mono1) simp
  then have "unat b * 256 ^ length bs + 256 ^ length bs \<le> 256 * 256 ^ length bs" by simp
  with Cons have "unat b * 256 ^ length bs + be_value bs < 256 * 256 ^ length bs" by linarith
  then show ?case by (simp only: be_value.simps list.size power_Suc add.right_neutral add_Suc_right)
qed

lemma leading_zeros8_iff: "b \<noteq> 0 \<Longrightarrow> d \<le> 8 \<Longrightarrow> d \<le> leading_zeros8 b \<longleftrightarrow> unat b < 2 ^ (8 - d)"
proof -
  assume "b \<noteq> 0" and "d \<le> 8"
  then have "0 < unat b" by (simp add: unat_gt_0)
  have "unat b < 256" by (rule unat_byte_less)
  have "d \<in> {0, 1, 2, 3, 4, 5, 6, 7, 8}" using \<open>d \<le> 8\<close> by auto
  then show ?thesis
    using \<open>0 < unat b\<close> \<open>unat b < 256\<close> by (auto simp: leading_zeros8_def Let_def)
qed

lemma leading_zeros8_lt: "b \<noteq> 0 \<Longrightarrow> leading_zeros8 b < 8"
proof -
  assume "b \<noteq> 0"
  then have "0 < unat b" by (simp add: unat_gt_0)
  then show ?thesis by (auto simp: leading_zeros8_def Let_def)
qed

subsection \<open>Counting leading zero bits\<close>

text \<open>The loop over the bytes, its counter a saturating \<open>u8\<close>, left at the first nonzero byte.\<close>

fun clz_loop :: "nat \<Rightarrow> bytes \<Rightarrow> nat" where
  "clz_loop cnt [] = cnt"
| "clz_loop cnt (b # bs) =
     (if b = 0 then clz_loop (sat_add u8_max cnt 8) bs
      else sat_add u8_max cnt (leading_zeros8 b))"

definition count_leading_zero_bits :: "bytes \<Rightarrow> nat" where
  "count_leading_zero_bits hash = clz_loop 0 hash"

text \<open>The cnt without saturation.\<close>

fun clz_spec :: "bytes \<Rightarrow> nat" where
  "clz_spec [] = 0"
| "clz_spec (b # bs) = (if b = 0 then 8 + clz_spec bs else leading_zeros8 b)"

lemma clz_loop_spec: "cnt \<le> u8_max \<Longrightarrow> clz_loop cnt bs = min (cnt + clz_spec bs) u8_max"
proof (induction bs arbitrary: cnt)
  case Nil
  then show ?case by simp
next
  case (Cons b bs)
  then show ?case by (auto simp: sat_add_def)
qed

lemma clz_spec_iff: "d \<le> 8 * length bs \<Longrightarrow> d \<le> clz_spec bs \<longleftrightarrow> be_value bs < 2 ^ (8 * length bs - d)"
proof (induction bs arbitrary: d)
  case Nil
  then show ?case by simp
next
  case (Cons b bs)
  let ?n = "length bs"
  have p256: "(256::nat) ^ ?n = 2 ^ (8 * ?n)" by (simp add: power_mult)
  have r: "be_value bs < 2 ^ (8 * ?n)" using be_value_less [of bs] p256 by simp
  show ?case
  proof (cases "b = 0")
    case zero: True
    show ?thesis
    proof (cases "d \<le> 8")
      case True
      have "(2::nat) ^ (8 * ?n) \<le> 2 ^ (8 * length (b # bs) - d)"
        by (rule power_increasing) (use True in auto)
      then have "be_value bs < 2 ^ (8 * length (b # bs) - d)" by (rule less_le_trans [OF r])
      with True zero show ?thesis by simp
    next
      case False
      then have "8 + (d - 8) = d" and "d - 8 \<le> 8 * ?n" using Cons.prems by simp_all
      then have "d - 8 \<le> clz_spec bs \<longleftrightarrow> be_value bs < 2 ^ (8 * ?n - (d - 8))"
        by (intro Cons.IH)
      moreover have "8 * ?n - (d - 8) = 8 * length (b # bs) - d" using False by simp
      moreover have "d \<le> 8 + clz_spec bs \<longleftrightarrow> d - 8 \<le> clz_spec bs" using False by linarith
      ultimately show ?thesis using zero by simp
    qed
  next
    case nz: False
    show ?thesis
    proof (cases "d \<le> 8")
      case True
      have e: "(2::nat) ^ (8 * length (b # bs) - d) = 2 ^ (8 - d) * 2 ^ (8 * ?n)"
        using True by (simp flip: power_add)
      have "unat b * 2 ^ (8 * ?n) + be_value bs < 2 ^ (8 - d) * 2 ^ (8 * ?n) \<longleftrightarrow> unat b < 2 ^ (8 - d)"
      proof
        assume "unat b * 2 ^ (8 * ?n) + be_value bs < 2 ^ (8 - d) * 2 ^ (8 * ?n)"
        then have "unat b * 2 ^ (8 * ?n) < 2 ^ (8 - d) * 2 ^ (8 * ?n)" by linarith
        then show "unat b < 2 ^ (8 - d)" by simp
      next
        assume "unat b < 2 ^ (8 - d)"
        then have "(unat b + 1) * 2 ^ (8 * ?n) \<le> 2 ^ (8 - d) * 2 ^ (8 * ?n)"
          by (intro mult_le_mono1) simp
        then show "unat b * 2 ^ (8 * ?n) + be_value bs < 2 ^ (8 - d) * 2 ^ (8 * ?n)"
          using r by (simp add: algebra_simps)
      qed
      then show ?thesis using nz leading_zeros8_iff [OF nz True] e p256 by simp
    next
      case False
      have "(2::nat) ^ (8 * length (b # bs) - d) \<le> 2 ^ (8 * ?n)"
        by (rule power_increasing) (use False in auto)
      moreover have "1 \<le> unat b" using nz by (simp add: unat_gt_0 Suc_leI)
      then have "2 ^ (8 * ?n) \<le> unat b * 2 ^ (8 * ?n)" by simp
      ultimately have "2 ^ (8 * length (b # bs) - d) \<le> unat b * 2 ^ (8 * ?n)" by (rule le_trans)
      also have "\<dots> \<le> be_value (b # bs)" using p256 by simp
      finally have "\<not> be_value (b # bs) < 2 ^ (8 * length (b # bs) - d)" by (rule leD)
      then show ?thesis using nz False leading_zeros8_lt [OF nz] by simp
    qed
  qed
qed

lemma count_leading_zero_bits_iff:
  assumes "d \<le> u8_max" and "d \<le> 8 * length hash"
  shows "d \<le> count_leading_zero_bits hash \<longleftrightarrow> be_value hash < 2 ^ (8 * length hash - d)"
  using clz_spec_iff [OF assms(2)] assms(1)
  by (simp add: count_leading_zero_bits_def clz_loop_spec [of 0])

lemma count_leading_zero_bits_le: "count_leading_zero_bits hash \<le> u8_max"
  by (simp add: count_leading_zero_bits_def clz_loop_spec)

subsection \<open>Challenges of the faucet and of reactions\<close>

definition compute_challenge :: "(bytes \<Rightarrow> bytes) \<Rightarrow> bytes \<Rightarrow> bytes \<Rightarrow> bytes" where
  "compute_challenge blake2_256 block_hash account_bytes = blake2_256 (block_hash @ account_bytes)"

definition verify_proof :: "(bytes \<Rightarrow> bytes) \<Rightarrow> bytes \<Rightarrow> nat \<Rightarrow> nat \<Rightarrow> bool" where
  "verify_proof blake2_256 challenge nonce difficulty =
     (difficulty \<le> count_leading_zero_bits (blake2_256 (challenge @ le_bytes 8 nonce)))"

lemma verify_proof_mono: "verify_proof H c n d \<Longrightarrow> d' \<le> d \<Longrightarrow> verify_proof H c n d'"
  by (simp add: verify_proof_def)

subsection \<open>Node registration\<close>

datatype pow_result = Valid | InsufficientDifficulty

definition pow_max_difficulty :: nat where "pow_max_difficulty = 24"

definition calculate_difficulty :: "nat \<Rightarrow> nat \<Rightarrow> nat" where
  "calculate_difficulty recent_registrations base_difficulty =
     (let additional = (recent_registrations div 5) mod 2 ^ 8
      in min (sat_add u8_max base_difficulty additional) pow_max_difficulty)"

definition storage_clz :: "bytes \<Rightarrow> nat" where
  "storage_clz hash = clz_loop 0 hash"

definition compute_pow_hash :: "(bytes \<Rightarrow> bytes) \<Rightarrow> bytes \<Rightarrow> nat \<Rightarrow> bytes" where
  "compute_pow_hash blake2_256 peer_id nonce = blake2_256 (peer_id @ le_bytes 8 nonce)"

definition verify_pow :: "(bytes \<Rightarrow> bytes) \<Rightarrow> bytes \<Rightarrow> nat \<Rightarrow> nat \<Rightarrow> pow_result" where
  "verify_pow blake2_256 peer_id nonce difficulty =
     (if difficulty \<le> storage_clz (compute_pow_hash blake2_256 peer_id nonce)
      then Valid else InsufficientDifficulty)"

lemma storage_clz_eq: "storage_clz hash = count_leading_zero_bits hash"
  by (simp add: storage_clz_def count_leading_zero_bits_def)

lemma calculate_difficulty_le: "calculate_difficulty recent base \<le> pow_max_difficulty"
  by (simp add: calculate_difficulty_def Let_def)

lemma calculate_difficulty_mono:
  assumes "r \<le> r'" and "r' < 1280"
  shows "calculate_difficulty r b \<le> calculate_difficulty r' b"
proof -
  have "r' div 5 < 256" using assms(2) by simp
  moreover have "r div 5 \<le> r' div 5" using assms(1) by (rule div_le_mono)
  ultimately show ?thesis
    unfolding calculate_difficulty_def Let_def
    by (intro min.mono sat_add_mono) simp_all
qed

subsection \<open>Rate limits\<close>

definition can_register_node :: "nat \<Rightarrow> nat \<Rightarrow> bool" where
  "can_register_node current_count max_per_block = (current_count < max_per_block)"

definition can_declare_holding :: "nat \<Rightarrow> nat \<Rightarrow> bool" where
  "can_declare_holding current_count max_per_block_per_node = (current_count < max_per_block_per_node)"

definition increment_registration_count :: "nat \<Rightarrow> nat" where
  "increment_registration_count current_count = sat_add u32_max current_count 1"

definition increment_declaration_count :: "nat \<Rightarrow> nat" where
  "increment_declaration_count current_count = sat_add u32_max current_count 1"

lemma rate_limit_kept:
  "can_register_node n m \<Longrightarrow> increment_registration_count n \<le> m"
  "can_declare_holding n m \<Longrightarrow> increment_declaration_count n \<le> m"
  by (simp_all add: can_register_node_def can_declare_holding_def increment_registration_count_def
      increment_declaration_count_def sat_add_def)

text \<open>A registration nonce is accepted exactly when the Blake2b hash of the peer id and the
  little-endian nonce, read as a big-endian 256-bit number, lies below \<open>2 ^ (256 - difficulty)\<close>,
  for every difficulty the pallet can compute. The saturating byte loop never miscounts.
\<close>

theorem verify_pow_threshold:
  assumes "\<And>x. length (H x) = 32"
  shows "verify_pow H peer nonce (calculate_difficulty recent base) = Valid \<longleftrightarrow>
    be_value (H (peer @ le_bytes 8 nonce)) < 2 ^ (256 - calculate_difficulty recent base)"
proof -
  let ?d = "calculate_difficulty recent base"
  have "?d \<le> 24" using calculate_difficulty_le [of recent base] by (simp add: pow_max_difficulty_def)
  then have "?d \<le> u8_max" and "?d \<le> 8 * length (H (peer @ le_bytes 8 nonce))"
    using assms by (simp_all add: u8_max_def)
  from count_leading_zero_bits_iff [OF this] show ?thesis
    using assms by (simp add: verify_pow_def compute_pow_hash_def storage_clz_eq)
qed

lemma verify_pow_threshold_witness:
  "verify_pow (\<lambda>_. 1 # replicate 31 0) [7] 0 (calculate_difficulty 40 3) = InsufficientDifficulty
   \<and> verify_pow (\<lambda>_. 1 # replicate 31 0) [7] 0 (calculate_difficulty 20 3) = Valid"
proof -
  let ?H = "\<lambda>_ :: bytes. (1 :: 8 word) # replicate 31 0"
  have d: "calculate_difficulty 40 3 = 11" "calculate_difficulty 20 3 = 7"
    by (simp_all add: calculate_difficulty_def sat_add_def u8_max_def pow_max_difficulty_def)
  have "verify_pow ?H [7] 0 (calculate_difficulty 40 3) \<noteq> Valid"
    using verify_pow_threshold [of ?H "[7]" 0 40 3] by (simp add: d)
  moreover have "verify_pow ?H [7] 0 (calculate_difficulty 20 3) = Valid"
    using verify_pow_threshold [of ?H "[7]" 0 20 3] by (simp add: d)
  ultimately show ?thesis using pow_result.exhaust by blast
qed

end
