(* ===== verification/Storage_Pallet.thy ===== *)
theory Storage_Pallet
  imports Pow Storage_Stake
begin

text \<open>
  \<open>pallets/storage/src/lib.rs\<close>: fragment registration, the registry of storage nodes, holding
  declarations, KZG challenges and proofs, rewards, slashing and repair. This theory holds the
  storage of the pallet and every operation on it; its properties are in \<open>Storage_Registry\<close>,
  \<open>Storage_Challenges\<close> and \<open>Storage_Repair\<close>.

  The state \<open>'p\<close> behind the configuration is whatever the pallet reaches through its \<open>Config\<close>
  trait: the stake provider (\<open>BondInfo\<close>) and the native token. Blake2b and the BLS12-381 proof
  check (\<open>verify_kzg_proof\<close>, which only calls the \<open>ark\<close> library) are arguments.
\<close>

subsection \<open>Configuration, data and storage\<close>

record 'p storage_config =
  sc_max_fragment_size :: nat
  sc_max_peer_id_len :: nat
  sc_max_holders :: nat
  sc_max_fragments_per_node :: nat
  sc_min_peer_id_len :: nat
  sc_max_registrations :: nat
  sc_max_declarations :: nat
  sc_min_capacity :: nat
  sc_pow_period :: nat
  sc_base_pow_difficulty :: nat
  sc_reward_per_byte :: nat
  sc_score_threshold :: nat
  sc_score_margin :: nat
  sc_max_challenges :: nat
  sc_min_withdrawal :: nat
  sc_pool_target :: nat
  sc_slash_rate_ppm :: nat
  sc_has_bond :: "'p \<Rightarrow> account_id \<Rightarrow> bool"
  sc_bond_amount :: "'p \<Rightarrow> account_id \<Rightarrow> nat"
  sc_active_bond :: "'p \<Rightarrow> nat"
  sc_slash_bond :: "account_id \<Rightarrow> nat \<Rightarrow> 'p \<Rightarrow> nat \<times> 'p"
  sc_mint_into :: "account_id \<Rightarrow> nat \<Rightarrow> 'p \<Rightarrow> 'p option"
  sc_blake2_256 :: "bytes \<Rightarrow> bytes"
  sc_verify_kzg :: "bytes \<Rightarrow> nat \<Rightarrow> bytes \<Rightarrow> bytes \<Rightarrow> bool option"

record fragment_metadata =
  fm_size :: nat
  fm_creator :: account_id
  fm_created_at :: block_number

record storage_node_info =
  ni_operator :: account_id
  ni_capacity :: nat
  ni_registered_at :: block_number
  ni_pow_nonce :: nat
  ni_http_url :: bytes

record kzg_fragment =
  kf_owner :: account_id
  kf_commitment :: bytes
  kf_data_size :: nat
  kf_fragment_count :: nat
  kf_threshold :: nat
  kf_created_at :: block_number
  kf_holders :: "account_id list"

definition max_kzg_holders :: nat where "max_kzg_holders = 16"

record challenge =
  ch_content_hash :: hash256
  ch_share_index :: nat
  ch_node :: account_id
  ch_issued_at :: block_number
  ch_deadline :: block_number

record proof_record =
  pr_last_proved_at :: block_number
  pr_success_count :: nat
  pr_failure_count :: nat
  pr_slashed :: bool
  pr_share_index :: nat

definition default_proof_record :: proof_record where
  "default_proof_record = \<lparr>pr_last_proved_at = 0, pr_success_count = 0, pr_failure_count = 0,
     pr_slashed = False, pr_share_index = 0\<rparr>"

record eviction_candidate =
  ec_account :: account_id
  ec_score :: nat
  ec_share_index :: nat
  ec_slashed :: bool
  ec_last_proved_at :: block_number

datatype fragment_state_kind = Active | AtRisk | Repairing | Lost

record fragment_state =
  fs_kind :: fragment_state_kind
  fs_changed_at :: block_number

definition default_fragment_state :: fragment_state where
  "default_fragment_state = \<lparr>fs_kind = Active, fs_changed_at = 0\<rparr>"

datatype storage_event =
    FragmentRegistered hash256 account_id nat
  | NodeRegistered bytes account_id nat
  | NodeUpdated bytes nat
  | NodeUnregistered bytes account_id
  | HoldingDeclared bytes hash256
  | HoldingRevoked bytes hash256
  | KzgFragmentRegistered hash256 account_id bytes nat nat nat
  | HoldingProved hash256 account_id nat
  | ChallengeIssued hash256 nat account_id block_number
  | RewardClaimed account_id nat
  | ForgettingCandidateMarked hash256 block_number
  | ForgottenByPolicy hash256
  | ScoreRecovered hash256
  | ChallengeExpired hash256 nat account_id
  | FragmentAtRisk hash256 nat
  | FragmentLost hash256 nat
  | RepairCompleted hash256 account_id nat
  | NodeSlashed hash256 account_id nat
  | HolderEvicted hash256 account_id

datatype storage_error =
    FragmentAlreadyExists | FragmentTooLarge | FragmentTooSmall | FragmentNotFound
  | NodeAlreadyRegistered | OperatorAlreadyHasNode | NodeNotRegistered | InvalidPeerId
  | InvalidCapacity | NodeHasHoldings | AlreadyHolding | NotHolding | TooManyHolders
  | TooManyFragments | InvalidPow | TooManyRegistrationsThisBlock | TooManyDeclarationsThisBlock
  | CapacityTooSmall | PeerIdTooShort | PeerIdTooLong | InvalidHttpUrl | NotBonded
  | KzgFragmentAlreadyExists | InvalidCommitmentLength | InvalidKzgThreshold | FragmentCountTooSmall
  | InvalidCommitment | InvalidKzgProof | InvalidShareValue | ChallengeNotFound | NotChallenged
  | ChallengeAlreadyIssued | ProofAlreadySubmitted | InvalidChallengeIndex | KzgFragmentNotFound
  | NotHolder | NoPendingReward | InsufficientRewardPool | ArithmeticOverflow | RewardMintFailed
  | NotHolderOfFragment | ChallengeLimitExceeded | IssuerNotRegisteredNode
  | InsufficientAccruedRewards | FragmentNotAtRisk | FragmentHasTooManyHolders | NoExcessHolders
  | TargetNotHolder | TargetNotLowestPriority | AlreadySlashed

text \<open>
  A \<open>ValueQuery\<close> map is a total function that is the default where nothing is stored; an
  \<open>OptionQuery\<close> map is a partial function. \<open>FragmentStates\<close> is read with a default but also
  tested for presence, so it is a partial function here.
\<close>

record storage_state =
  fragments :: "hash256 \<rightharpoonup> fragment_metadata"
  storage_nodes :: "bytes \<rightharpoonup> storage_node_info"
  operator_nodes :: "account_id \<rightharpoonup> bytes"
  fragment_holders :: "hash256 \<Rightarrow> bytes list"
  node_holdings :: "bytes \<Rightarrow> hash256 list"
  registration_count :: "block_number \<Rightarrow> nat"
  declaration_count :: "block_number \<Rightarrow> bytes \<Rightarrow> nat"
  kzg_fragments :: "hash256 \<rightharpoonup> kzg_fragment"
  pending_challenges :: "hash256 \<times> nat \<rightharpoonup> challenge"
  proof_records :: "hash256 \<Rightarrow> account_id \<Rightarrow> proof_record"
  reward_pool :: nat
  score_cache :: "hash256 \<rightharpoonup> nat"
  pending_rewards :: "account_id \<Rightarrow> nat"
  forgetting_candidates :: "hash256 \<rightharpoonup> block_number"
  challenge_count :: "block_number \<Rightarrow> account_id \<Rightarrow> nat"
  challenges_by_deadline :: "block_number \<Rightarrow> (hash256 \<times> nat) list"
  fragment_states :: "hash256 \<rightharpoonup> fragment_state"
  repair_pools :: "hash256 \<Rightarrow> nat"
  storage_events :: "storage_event list"

definition genesis_storage :: "nat \<Rightarrow> storage_state" where
  "genesis_storage initial_reward_pool =
     \<lparr>fragments = \<lambda>_. None, storage_nodes = \<lambda>_. None, operator_nodes = \<lambda>_. None,
      fragment_holders = \<lambda>_. [], node_holdings = \<lambda>_. [], registration_count = \<lambda>_. 0,
      declaration_count = \<lambda>_ _. 0, kzg_fragments = \<lambda>_. None, pending_challenges = \<lambda>_. None,
      proof_records = \<lambda>_ _. default_proof_record, reward_pool = initial_reward_pool,
      score_cache = \<lambda>_. None, pending_rewards = \<lambda>_. 0, forgetting_candidates = \<lambda>_. None,
      challenge_count = \<lambda>_ _. 0, challenges_by_deadline = \<lambda>_. [], fragment_states = \<lambda>_. None,
      repair_pools = \<lambda>_. 0, storage_events = []\<rparr>"

definition storage_deposit_event :: "storage_event \<Rightarrow> storage_state \<Rightarrow> storage_state" where
  "storage_deposit_event e s = s\<lparr>storage_events := storage_events s @ [e]\<rparr>"

definition get_fragment_state :: "storage_state \<Rightarrow> hash256 \<Rightarrow> fragment_state" where
  "get_fragment_state s h = (case fragment_states s h of None \<Rightarrow> default_fragment_state | Some st \<Rightarrow> st)"

definition set_proof_record :: "hash256 \<Rightarrow> account_id \<Rightarrow> proof_record \<Rightarrow> storage_state \<Rightarrow> storage_state" where
  "set_proof_record h w r s = s\<lparr>proof_records := (proof_records s)(h := (proof_records s h)(w := r))\<rparr>"

subsection \<open>Fragments\<close>

definition do_register_fragment ::
  "'p storage_config \<Rightarrow> block_number \<Rightarrow> account_id \<Rightarrow> hash256 \<Rightarrow> nat \<Rightarrow> storage_state \<Rightarrow>
   (storage_error, storage_state) result" where
  "do_register_fragment cfg created_at creator fragment_id frag_size s =
     ensure (0 < frag_size) FragmentTooSmall (
     ensure (frag_size \<le> sc_max_fragment_size cfg) FragmentTooLarge (
     ensure (fragments s fragment_id = None) FragmentAlreadyExists (
     Inr (storage_deposit_event (FragmentRegistered fragment_id creator frag_size)
       (s\<lparr>fragments := (fragments s)(fragment_id \<mapsto>
            \<lparr>fm_size = frag_size, fm_creator = creator, fm_created_at = created_at\<rparr>)\<rparr>)))))"

definition register_fragment ::
  "'p storage_config \<Rightarrow> block_number \<Rightarrow> account_id \<Rightarrow> hash256 \<Rightarrow> nat \<Rightarrow> storage_state \<Rightarrow>
   (storage_error, storage_state) result" where
  "register_fragment cfg now creator fragment_id frag_size s =
     ensure (0 < frag_size) FragmentTooSmall (
     ensure (frag_size \<le> sc_max_fragment_size cfg) FragmentTooLarge (
     ensure (fragments s fragment_id = None) FragmentAlreadyExists (
     Inr (storage_deposit_event (FragmentRegistered fragment_id creator frag_size)
       (s\<lparr>fragments := (fragments s)(fragment_id \<mapsto>
            \<lparr>fm_size = frag_size, fm_creator = creator, fm_created_at = now\<rparr>)\<rparr>)))))"

definition do_register_kzg_fragment ::
  "block_number \<Rightarrow> account_id \<Rightarrow> hash256 \<Rightarrow> bytes \<Rightarrow> nat \<Rightarrow> nat \<Rightarrow> nat \<Rightarrow> storage_state \<Rightarrow>
   (storage_error, storage_state) result" where
  "do_register_kzg_fragment now owner h commitment data_size fragment_count threshold s =
     ensure (length commitment = 48) InvalidCommitmentLength (
     ensure (2 \<le> fragment_count) FragmentCountTooSmall (
     ensure (1 \<le> threshold \<and> threshold \<le> fragment_count) InvalidKzgThreshold (
     ensure (0 < data_size) FragmentTooSmall (
     ensure (kzg_fragments s h = None) KzgFragmentAlreadyExists (
     Inr (storage_deposit_event
           (KzgFragmentRegistered h owner commitment data_size fragment_count threshold)
       (s\<lparr>kzg_fragments := (kzg_fragments s)(h \<mapsto>
            \<lparr>kf_owner = owner, kf_commitment = commitment, kf_data_size = data_size,
             kf_fragment_count = fragment_count, kf_threshold = threshold, kf_created_at = now,
             kf_holders = []\<rparr>)\<rparr>)))))))"

text \<open>The \<open>StorageInterface\<close> entry first bounds the commitment to 48 bytes.\<close>

definition iface_register_kzg_fragment ::
  "block_number \<Rightarrow> account_id \<Rightarrow> hash256 \<Rightarrow> bytes \<Rightarrow> nat \<Rightarrow> nat \<Rightarrow> nat \<Rightarrow> storage_state \<Rightarrow>
   (storage_error, storage_state) result" where
  "iface_register_kzg_fragment now owner h commitment data_size fragment_count threshold s =
     ensure (length commitment \<le> 48) InvalidCommitmentLength (
     do_register_kzg_fragment now owner h commitment data_size fragment_count threshold s)"

definition do_deposit_to_reward_pool :: "nat \<Rightarrow> storage_state \<Rightarrow> storage_state" where
  "do_deposit_to_reward_pool amount s = s\<lparr>reward_pool := sat_add u128_max (reward_pool s) amount\<rparr>"

subsection \<open>Storage nodes\<close>

definition validate_peer_id :: "'p storage_config \<Rightarrow> bytes \<Rightarrow> (storage_error, 'a) result \<Rightarrow> (storage_error, 'a) result" where
  "validate_peer_id cfg peer k =
     ensure (sc_min_peer_id_len cfg \<le> length peer) PeerIdTooShort (
     ensure (length peer \<le> sc_max_peer_id_len cfg) PeerIdTooLong k)"

definition validate_capacity :: "'p storage_config \<Rightarrow> nat \<Rightarrow> (storage_error, 'a) result \<Rightarrow> (storage_error, 'a) result" where
  "validate_capacity cfg capacity k = ensure (sc_min_capacity cfg \<le> capacity) CapacityTooSmall k"

text \<open>The sum over the observation period skips block numbers below zero (\<open>checked_sub\<close>).\<close>

definition get_recent_registrations :: "'p storage_config \<Rightarrow> block_number \<Rightarrow> storage_state \<Rightarrow> nat" where
  "get_recent_registrations cfg now s =
     fold (\<lambda>i n. if i \<le> now then sat_add u32_max n (registration_count s (now - i)) else n)
       [0..<sc_pow_period cfg] 0"

definition current_pow_difficulty :: "'p storage_config \<Rightarrow> block_number \<Rightarrow> storage_state \<Rightarrow> nat" where
  "current_pow_difficulty cfg now s =
     calculate_difficulty (get_recent_registrations cfg now s) (sc_base_pow_difficulty cfg)"

definition register_node ::
  "'p storage_config \<Rightarrow> block_number \<Rightarrow> account_id \<Rightarrow> bytes \<Rightarrow> nat \<Rightarrow> nat \<Rightarrow> bytes \<Rightarrow> 'p \<Rightarrow>
   storage_state \<Rightarrow> (storage_error, storage_state) result" where
  "register_node cfg now operator peer capacity pow_nonce http_url p s =
     ensure (sc_has_bond cfg p operator) NotBonded (
     let current_count = registration_count s now in
     ensure (can_register_node current_count (sc_max_registrations cfg)) TooManyRegistrationsThisBlock (
     validate_peer_id cfg peer (
     validate_capacity cfg capacity (
     ensure (verify_pow (sc_blake2_256 cfg) peer pow_nonce (current_pow_difficulty cfg now s) = Valid) InvalidPow (
     ensure (storage_nodes s peer = None) NodeAlreadyRegistered (
     ensure (operator_nodes s operator = None) OperatorAlreadyHasNode (
     ensure (http_url \<noteq> []) InvalidHttpUrl (
     let info = \<lparr>ni_operator = operator, ni_capacity = capacity, ni_registered_at = now,
                 ni_pow_nonce = pow_nonce, ni_http_url = http_url\<rparr>
     in Inr (storage_deposit_event (NodeRegistered peer operator capacity)
          (s\<lparr>storage_nodes := (storage_nodes s)(peer \<mapsto> info),
             operator_nodes := (operator_nodes s)(operator \<mapsto> peer),
             registration_count := (registration_count s)(now := increment_registration_count current_count)\<rparr>))))))))))"

definition update_node ::
  "account_id \<Rightarrow> nat \<Rightarrow> storage_state \<Rightarrow> (storage_error, storage_state) result" where
  "update_node operator new_capacity s =
     ensure (0 < new_capacity) InvalidCapacity (
     ok_or (operator_nodes s operator) NodeNotRegistered (\<lambda>peer.
     ok_or (storage_nodes s peer) NodeNotRegistered (\<lambda>info.
     Inr (storage_deposit_event (NodeUpdated peer new_capacity)
       (s\<lparr>storage_nodes := (storage_nodes s)(peer \<mapsto> info\<lparr>ni_capacity := new_capacity\<rparr>)\<rparr>)))))"

definition unregister_node :: "account_id \<Rightarrow> storage_state \<Rightarrow> (storage_error, storage_state) result" where
  "unregister_node operator s =
     ok_or (operator_nodes s operator) NodeNotRegistered (\<lambda>peer.
     ensure (node_holdings s peer = []) NodeHasHoldings (
     Inr (storage_deposit_event (NodeUnregistered peer operator)
       (s\<lparr>storage_nodes := (storage_nodes s)(peer := None),
          operator_nodes := (operator_nodes s)(operator := None)\<rparr>))))"

subsection \<open>Holding declarations\<close>

text \<open>\<open>BoundedVec::try_push\<close> after the idempotency check: the new list and whether it changed.\<close>

definition push_once :: "nat \<Rightarrow> 'a \<Rightarrow> 'a list \<Rightarrow> 'e \<Rightarrow> ('e, 'a list \<times> bool) result" where
  "push_once bound x xs e =
     (if x \<in> set xs then Inr (xs, False)
      else if length xs < bound then Inr (xs @ [x], True) else Inl (Err e))"

definition declare_holding ::
  "'p storage_config \<Rightarrow> block_number \<Rightarrow> account_id \<Rightarrow> hash256 \<Rightarrow> storage_state \<Rightarrow>
   (storage_error, storage_state) result" where
  "declare_holding cfg now operator fragment_id s =
     ok_or (operator_nodes s operator) NodeNotRegistered (\<lambda>peer.
     let current_count = declaration_count s now peer in
     ensure (can_declare_holding current_count (sc_max_declarations cfg)) TooManyDeclarationsThisBlock (
     ensure (fragments s fragment_id \<noteq> None) FragmentNotFound (
     bind_ok (push_once (sc_max_holders cfg) peer (fragment_holders s fragment_id) TooManyHolders) (\<lambda>(hs, m1).
     bind_ok (push_once (sc_max_fragments_per_node cfg) fragment_id (node_holdings s peer) TooManyFragments) (\<lambda>(fs, m2).
     let s1 = s\<lparr>fragment_holders := (fragment_holders s)(fragment_id := hs),
                node_holdings := (node_holdings s)(peer := fs)\<rparr>
     in Inr (if m1 \<or> m2
          then storage_deposit_event (HoldingDeclared peer fragment_id)
                 (s1\<lparr>declaration_count := (declaration_count s)(now :=
                      (declaration_count s now)(peer := increment_declaration_count current_count))\<rparr>)
          else s1))))))"

definition revoke_holding ::
  "account_id \<Rightarrow> hash256 \<Rightarrow> storage_state \<Rightarrow> (storage_error, storage_state) result" where
  "revoke_holding operator fragment_id s =
     ok_or (operator_nodes s operator) NodeNotRegistered (\<lambda>peer.
     ok_or (index_of peer (fragment_holders s fragment_id)) NotHolding (\<lambda>i.
     ok_or (index_of fragment_id (node_holdings s peer)) NotHolding (\<lambda>j.
     Inr (storage_deposit_event (HoldingRevoked peer fragment_id)
       (s\<lparr>fragment_holders := (fragment_holders s)(fragment_id := swap_remove i (fragment_holders s fragment_id)),
          node_holdings := (node_holdings s)(peer := swap_remove j (node_holdings s peer))\<rparr>)))))"

text \<open>\<open>do_release_fragment\<close>: what is dropped when a post is deleted by policy.\<close>

definition do_release_fragment :: "hash256 \<Rightarrow> storage_state \<Rightarrow> storage_state" where
  "do_release_fragment h s =
     (let existed = (fragments s h \<noteq> None \<or> kzg_fragments s h \<noteq> None
            \<or> forgetting_candidates s h \<noteq> None \<or> fragment_states s h \<noteq> None
            \<or> fragment_holders s h \<noteq> [] \<or> score_cache s h \<noteq> None);
          s1 = s\<lparr>fragments := (fragments s)(h := None),
                 kzg_fragments := (kzg_fragments s)(h := None),
                 proof_records := (proof_records s)(h := \<lambda>_. default_proof_record),
                 forgetting_candidates := (forgetting_candidates s)(h := None),
                 fragment_states := (fragment_states s)(h := None),
                 fragment_holders := (fragment_holders s)(h := []),
                 node_holdings := (\<lambda>peer. if peer \<in> set (fragment_holders s h)
                    then filter (\<lambda>f. f \<noteq> h) (node_holdings s peer) else node_holdings s peer),
                 score_cache := (score_cache s)(h := None)\<rparr>
      in if existed then storage_deposit_event (ForgottenByPolicy h) s1 else s1)"

subsection \<open>Challenges, proofs and rewards\<close>

definition issue_challenge ::
  "'p storage_config \<Rightarrow> block_number \<Rightarrow> account_id \<Rightarrow> hash256 \<Rightarrow> account_id \<Rightarrow> nat \<Rightarrow>
   storage_state \<Rightarrow> (storage_error, storage_state) result" where
  "issue_challenge cfg now issuer h node_account challenge_index s =
     ensure (operator_nodes s issuer \<noteq> None) IssuerNotRegisteredNode (
     let current_count = challenge_count s now issuer in
     ensure (current_count < sc_max_challenges cfg) ChallengeLimitExceeded (
     ok_or (kzg_fragments s h) KzgFragmentNotFound (\<lambda>kf.
     ensure (node_account \<in> set (kf_holders kf)) NotHolderOfFragment (
     ensure (1 \<le> challenge_index \<and> challenge_index \<le> kf_fragment_count kf) InvalidChallengeIndex (
     ensure (pending_challenges s (h, challenge_index) = None) ChallengeAlreadyIssued (
     let deadline = sat_add u32_max now 100;
         ch = \<lparr>ch_content_hash = h, ch_share_index = challenge_index, ch_node = node_account,
               ch_issued_at = now, ch_deadline = deadline\<rparr>
     in ensure (length (challenges_by_deadline s deadline) < 1000) ChallengeLimitExceeded (
     Inr (storage_deposit_event (ChallengeIssued h challenge_index node_account deadline)
       (s\<lparr>pending_challenges := (pending_challenges s)((h, challenge_index) \<mapsto> ch),
          challenges_by_deadline := (challenges_by_deadline s)(deadline :=
             challenges_by_deadline s deadline @ [(h, challenge_index)]),
          challenge_count := (challenge_count s)(now :=
             (challenge_count s now)(issuer := sat_add u32_max current_count 1))\<rparr>)))))))))"

text \<open>What a successful proof does to the pending rewards and the forgetting candidates.\<close>

definition settle_proof_reward ::
  "'p storage_config \<Rightarrow> block_number \<Rightarrow> account_id \<Rightarrow> hash256 \<Rightarrow> nat \<Rightarrow> nat \<Rightarrow> storage_state \<Rightarrow> storage_state" where
  "settle_proof_reward cfg now prover h score reward s =
     (if 0 < reward then
        let s1 = s\<lparr>pending_rewards := (pending_rewards s)(prover :=
                     sat_add u128_max (pending_rewards s prover) reward)\<rparr>;
            recovery_threshold = sat_add u64_max (sc_score_threshold cfg) (sc_score_margin cfg)
        in if forgetting_candidates s h \<noteq> None \<and> recovery_threshold \<le> score
           then storage_deposit_event (ScoreRecovered h)
                  (s1\<lparr>forgetting_candidates := (forgetting_candidates s)(h := None)\<rparr>)
           else s1
      else if forgetting_candidates s h = None
           then storage_deposit_event (ForgettingCandidateMarked h now)
                  (s\<lparr>forgetting_candidates := (forgetting_candidates s)(h \<mapsto> now)\<rparr>)
           else s)"

definition prove_holding_kzg ::
  "'p storage_config \<Rightarrow> block_number \<Rightarrow> account_id \<Rightarrow> hash256 \<Rightarrow> nat \<Rightarrow> bytes \<Rightarrow> bytes \<Rightarrow> 'p \<Rightarrow>
   storage_state \<Rightarrow> (storage_error, storage_state) result" where
  "prove_holding_kzg cfg now prover h share_index share proof_bytes p s =
     ok_or (pending_challenges s (h, share_index)) NotChallenged (\<lambda>ch.
     ensure (ch_node ch = prover) NotChallenged (
     ensure (pr_last_proved_at (proof_records s h prover) \<noteq> now) ProofAlreadySubmitted (
     ensure (length share = 32) FragmentTooSmall (
     ensure (length proof_bytes = 48) InvalidCommitmentLength (
     ok_or (kzg_fragments s h) KzgFragmentNotFound (\<lambda>kf.
     ensure (prover \<in> set (kf_holders kf)) NotHolder (
     ensure (1 \<le> share_index \<and> share_index \<le> kf_fragment_count kf) InvalidChallengeIndex (
     ensure (length (kf_commitment kf) = 48) InvalidCommitmentLength (
     ok_or (sc_verify_kzg cfg (kf_commitment kf) share_index share proof_bytes) InvalidKzgProof (\<lambda>is_valid.
     ensure is_valid InvalidKzgProof (
     let score = (case score_cache s h of None \<Rightarrow> 1000 | Some v \<Rightarrow> v) in
     or_trap (calculate_reward_v3 (kf_data_size kf) (sc_reward_per_byte cfg) score
                (sc_score_threshold cfg) (reward_pool s) (sc_pool_target cfg)
                (sc_bond_amount cfg p prover) (sc_active_bond cfg p)) (\<lambda>reward.
     let record0 = proof_records s h prover;
         s1 = set_proof_record h prover (record0\<lparr>pr_last_proved_at := now,
                pr_success_count := sat_add u32_max (pr_success_count record0) 1,
                pr_failure_count := 0\<rparr>) s;
         s2 = settle_proof_reward cfg now prover h score reward s1;
         s3 = s2\<lparr>pending_challenges := (pending_challenges s2)((h, share_index) := None)\<rparr>
     in Inr (storage_deposit_event (HoldingProved h prover share_index) s3)))))))))))))"

text \<open>
  A claim pays the smaller of what is owed and what the pool holds. The conversion of the payout
  to the balance type cannot fail: both are \<open>u128\<close> in the runtime.
\<close>

definition claim_reward ::
  "'p storage_config \<Rightarrow> account_id \<Rightarrow> storage_state \<times> 'p \<Rightarrow> (storage_error, storage_state \<times> 'p) result" where
  "claim_reward cfg claimer = (\<lambda>(s, p).
     let total_reward = pending_rewards s claimer in
     ensure (0 < total_reward) NoPendingReward (
     ensure (sc_min_withdrawal cfg \<le> total_reward) InsufficientAccruedRewards (
     let payout = min total_reward (reward_pool s) in
     ensure (0 < payout) InsufficientRewardPool (
     ok_or (sc_mint_into cfg claimer payout p) RewardMintFailed (\<lambda>p'.
     let s1 = s\<lparr>reward_pool := reward_pool s - payout,
                pending_rewards := (pending_rewards s)(claimer :=
                   (if payout < total_reward then total_reward - payout else 0))\<rparr>
     in Inr (storage_deposit_event (RewardClaimed claimer payout) s1, p'))))))"

subsection \<open>Slashing and expiry\<close>

definition do_slash_node ::
  "'p storage_config \<Rightarrow> account_id \<Rightarrow> hash256 \<Rightarrow> storage_state \<times> 'p \<Rightarrow> (storage_error, storage_state \<times> 'p) result" where
  "do_slash_node cfg node h = (\<lambda>(s, p).
     let record0 = proof_records s h node in
     ensure (\<not> pr_slashed record0) AlreadySlashed (
     let s1 = set_proof_record h node (record0\<lparr>pr_slashed := True\<rparr>) s;
         reward_penalty = pending_rewards s node div 2;
         bond_slash_amount = sat_mul u128_max (sc_bond_amount cfg p node) (sc_slash_rate_ppm cfg) div 1000000;
         (bond_slashed, p') = (if 0 < bond_slash_amount then sc_slash_bond cfg node bond_slash_amount p else (0, p));
         s2 = s1\<lparr>pending_rewards := (pending_rewards s1)(node := pending_rewards s1 node - reward_penalty),
                 repair_pools := (repair_pools s1)(h := sat_add u128_max (repair_pools s1 h) reward_penalty)\<rparr>
     in Inr (storage_deposit_event (NodeSlashed h node (sat_add u128_max bond_slashed reward_penalty)) s2, p')))"

text \<open>One expired index entry of \<open>on_finalize\<close>; the result of the slash is ignored.\<close>

definition expire_challenge ::
  "'p storage_config \<Rightarrow> hash256 \<times> nat \<Rightarrow> storage_state \<times> 'p \<Rightarrow> storage_state \<times> 'p" where
  "expire_challenge cfg = (\<lambda>(h, i) (s, p).
     case pending_challenges s (h, i) of
       None \<Rightarrow> (s, p)
     | Some ch \<Rightarrow>
         let node = ch_node ch;
             record0 = proof_records s h node;
             record1 = record0\<lparr>pr_failure_count := sat_add u32_max (pr_failure_count record0) 1\<rparr>;
             s1 = s\<lparr>pending_challenges := (pending_challenges s)((h, i) := None)\<rparr>;
             s2 = storage_deposit_event (ChallengeExpired h i node) (set_proof_record h node record1 s1)
         in if 3 \<le> pr_failure_count record1 \<and> \<not> pr_slashed record1
            then (case do_slash_node cfg node h (s2, p) of Inl e \<Rightarrow> (s2, p) | Inr sp \<Rightarrow> sp)
            else (s2, p))"

definition storage_on_finalize ::
  "'p storage_config \<Rightarrow> block_number \<Rightarrow> storage_state \<times> 'p \<Rightarrow> storage_state \<times> 'p" where
  "storage_on_finalize cfg block = (\<lambda>(s, p).
     let expired = challenges_by_deadline s block;
         s1 = s\<lparr>registration_count := (registration_count s)(block := 0),
                declaration_count := (declaration_count s)(block := \<lambda>_. 0),
                challenge_count := (challenge_count s)(block := \<lambda>_. 0),
                challenges_by_deadline := (challenges_by_deadline s)(block := [])\<rparr>
     in fold (expire_challenge cfg) expired (s1, p))"

subsection \<open>Repair\<close>

definition state_for_holders :: "nat \<Rightarrow> fragment_state_kind" where
  "state_for_holders holder_count =
     (if 5 \<le> holder_count then Active else if 3 \<le> holder_count then AtRisk else Lost)"

definition update_fragment_state :: "block_number \<Rightarrow> hash256 \<Rightarrow> storage_state \<Rightarrow> storage_state" where
  "update_fragment_state now h s =
     (case kzg_fragments s h of
        None \<Rightarrow> s
      | Some kf \<Rightarrow>
          let holder_count = length (kf_holders kf);
              new_kind = state_for_holders holder_count
          in if new_kind \<noteq> fs_kind (get_fragment_state s h)
             then let s1 = s\<lparr>fragment_states := (fragment_states s)(h \<mapsto>
                               \<lparr>fs_kind = new_kind, fs_changed_at = now\<rparr>)\<rparr>
                  in (case new_kind of
                        AtRisk \<Rightarrow> storage_deposit_event (FragmentAtRisk h holder_count) s1
                      | Lost \<Rightarrow> storage_deposit_event (FragmentLost h holder_count) s1
                      | _ \<Rightarrow> s1)
             else s)"

definition priority_score :: "proof_record \<Rightarrow> nat" where
  "priority_score r =
     (if pr_slashed r then 0 else 1000)
     + (if pr_share_index r \<le> 5 \<and> 0 < pr_share_index r then 0 else 100)
     + min (pr_last_proved_at r div 100) 500"

definition compute_eviction_candidates :: "hash256 \<Rightarrow> storage_state \<Rightarrow> eviction_candidate list" where
  "compute_eviction_candidates h s =
     (case kzg_fragments s h of
        None \<Rightarrow> []
      | Some kf \<Rightarrow> sort_key ec_score (map (\<lambda>w. let r = proof_records s h w in
            \<lparr>ec_account = w, ec_score = priority_score r, ec_share_index = pr_share_index r,
             ec_slashed = pr_slashed r, ec_last_proved_at = pr_last_proved_at r\<rparr>) (kf_holders kf)))"

definition confirm_repair ::
  "'p storage_config \<Rightarrow> block_number \<Rightarrow> account_id \<Rightarrow> hash256 \<Rightarrow> nat \<Rightarrow> bytes \<Rightarrow> bytes \<Rightarrow>
   storage_state \<Rightarrow> (storage_error, storage_state) result" where
  "confirm_repair cfg now new_holder h share_index share proof_bytes s =
     ensure (operator_nodes s new_holder \<noteq> None) NodeNotRegistered (
     ok_or (kzg_fragments s h) KzgFragmentNotFound (\<lambda>kf.
     ensure (fs_kind (get_fragment_state s h) = AtRisk) FragmentNotAtRisk (
     ensure (new_holder \<notin> set (kf_holders kf)) AlreadyHolding (
     ensure (length (kf_commitment kf) = 48) InvalidCommitmentLength (
     ensure (length share = 32) InvalidShareValue (
     ensure (length proof_bytes = 48) InvalidKzgProof (
     ok_or (sc_verify_kzg cfg (kf_commitment kf) share_index share proof_bytes) InvalidKzgProof (\<lambda>is_valid.
     ensure is_valid InvalidKzgProof (
     ensure (length (kf_holders kf) < max_kzg_holders) FragmentHasTooManyHolders (
     let s1 = s\<lparr>kzg_fragments := (kzg_fragments s)(h \<mapsto> kf\<lparr>kf_holders := kf_holders kf @ [new_holder]\<rparr>)\<rparr>;
         s2 = set_proof_record h new_holder \<lparr>pr_last_proved_at = now, pr_success_count = 1,
                pr_failure_count = 0, pr_slashed = False, pr_share_index = share_index\<rparr> s1;
         pool_balance = repair_pools s2 h;
         s3 = s2\<lparr>repair_pools := (repair_pools s2)(h := 0),
                 pending_rewards := (if 0 < pool_balance
                    then (pending_rewards s2)(new_holder := sat_add u128_max (pending_rewards s2 new_holder) pool_balance)
                    else pending_rewards s2)\<rparr>
     in Inr (storage_deposit_event (RepairCompleted h new_holder share_index)
               (update_fragment_state now h s3))))))))))))"

definition evict_stale_holder ::
  "block_number \<Rightarrow> hash256 \<Rightarrow> storage_state \<Rightarrow> (storage_error, storage_state) result" where
  "evict_stale_holder now h s =
     ok_or (kzg_fragments s h) KzgFragmentNotFound (\<lambda>kf.
     ensure (kf_fragment_count kf < length (kf_holders kf) mod 256) NoExcessHolders (
     case compute_eviction_candidates h s of
       [] \<Rightarrow> Inl (Err NoExcessHolders)
     | cand # _ \<Rightarrow>
         let evicted = ec_account cand;
             s1 = s\<lparr>kzg_fragments := (kzg_fragments s)(h \<mapsto>
                      kf\<lparr>kf_holders := filter (\<lambda>w. w \<noteq> evicted) (kf_holders kf)\<rparr>)\<rparr>;
             s2 = set_proof_record h evicted default_proof_record s1
         in Inr (storage_deposit_event (HolderEvicted h evicted) (update_fragment_state now h s2))))"

end
