(* ===== verification/Storage_Registry.thy ===== *)
theory Storage_Registry
  imports Storage_Pallet
begin

text \<open>
  Runs of the storage pallet and the invariants of its registries: operators and peers are in
  bijection, the two holding indexes describe one relation within their bounds, and the
  holding operations refine insertion and deletion on that relation.
\<close>

subsection \<open>Runs\<close>

text \<open>
  A block executes dispatchables and calls from the other pallets (\<open>StorageInterface\<close>) at
  its number and then \<open>on_finalize\<close>. What the configuration reaches (\<open>'p\<close>: bonds and balances)
  may change arbitrarily in between.
\<close>

inductive storage_op ::
  "'p storage_config \<Rightarrow> block_number \<Rightarrow> storage_state \<times> 'p \<Rightarrow> storage_state \<times> 'p \<Rightarrow> bool"
  for cfg :: "'p storage_config" and now :: block_number where
  op_register_fragment: "register_fragment cfg now who f n s = Inr s' \<Longrightarrow> storage_op cfg now (s, p) (s', p)"
| op_iface_fragment: "do_register_fragment cfg t who f n s = Inr s' \<Longrightarrow> storage_op cfg now (s, p) (s', p)"
| op_iface_kzg: "iface_register_kzg_fragment now who h com n cnt thr s = Inr s' \<Longrightarrow> storage_op cfg now (s, p) (s', p)"
| op_deposit: "storage_op cfg now (s, p) (do_deposit_to_reward_pool a s, p)"
| op_release: "storage_op cfg now (s, p) (do_release_fragment h s, p)"
| op_register_node: "register_node cfg now who peer cap nonce url p s = Inr s' \<Longrightarrow> storage_op cfg now (s, p) (s', p)"
| op_update_node: "update_node who cap s = Inr s' \<Longrightarrow> storage_op cfg now (s, p) (s', p)"
| op_unregister_node: "unregister_node who s = Inr s' \<Longrightarrow> storage_op cfg now (s, p) (s', p)"
| op_declare: "declare_holding cfg now who f s = Inr s' \<Longrightarrow> storage_op cfg now (s, p) (s', p)"
| op_revoke: "revoke_holding who f s = Inr s' \<Longrightarrow> storage_op cfg now (s, p) (s', p)"
| op_challenge: "issue_challenge cfg now who h node i s = Inr s' \<Longrightarrow> storage_op cfg now (s, p) (s', p)"
| op_prove: "prove_holding_kzg cfg now who h i share proof p s = Inr s' \<Longrightarrow> storage_op cfg now (s, p) (s', p)"
| op_claim: "claim_reward cfg who (s, p) = Inr (s', p') \<Longrightarrow> storage_op cfg now (s, p) (s', p')"
| op_repair: "confirm_repair cfg now who h i share proof s = Inr s' \<Longrightarrow> storage_op cfg now (s, p) (s', p)"
| op_evict: "evict_stale_holder now h s = Inr s' \<Longrightarrow> storage_op cfg now (s, p) (s', p)"
| op_environment: "storage_op cfg now (s, p) (s, p')"

inductive storage_reachable :: "'p storage_config \<Rightarrow> block_number \<Rightarrow> storage_state \<times> 'p \<Rightarrow> bool"
  for cfg :: "'p storage_config" where
  reach_genesis: "storage_reachable cfg 0 (genesis_storage pool, p)"
| reach_op: "storage_reachable cfg now sp \<Longrightarrow> storage_op cfg now sp sp' \<Longrightarrow> storage_reachable cfg now sp'"
| reach_block: "storage_reachable cfg now sp \<Longrightarrow> storage_reachable cfg (now + 1) (storage_on_finalize cfg now sp)"

text \<open>
  An invariant that only reads some part of the state is preserved by \<open>on_finalize\<close> when the
  reset of the counters and each expiry preserve it.
\<close>

lemma fold_invariant:
  assumes "P a" "\<And>x b. x \<in> set xs \<Longrightarrow> P b \<Longrightarrow> P (f x b)"
  shows "P (fold f xs a)"
  using assms by (induction xs arbitrary: a) auto

lemma storage_reachable_induct [consumes 1, case_names genesis op block]:
  assumes "storage_reachable cfg now sp"
    and "\<And>pool p. P (genesis_storage pool, p)"
    and "\<And>n s p s' p'. P (s, p) \<Longrightarrow> storage_op cfg n (s, p) (s', p') \<Longrightarrow> P (s', p')"
    and "\<And>n s p. P (s, p) \<Longrightarrow> P (storage_on_finalize cfg n (s, p))"
  shows "P sp"
  using assms(1)
proof (induction rule: storage_reachable.induct)
  case (reach_op now sp sp')
  then show ?case using assms(3) by (cases sp; cases sp') auto
next
  case (reach_block now sp)
  then show ?case using assms(4) by (cases sp) auto
qed (rule assms(2))

lemmas storage_op_defs = register_fragment_def do_register_fragment_def iface_register_kzg_fragment_def
  do_register_kzg_fragment_def do_deposit_to_reward_pool_def register_node_def update_node_def
  unregister_node_def issue_challenge_def prove_holding_kzg_def claim_reward_def
  confirm_repair_def evict_stale_holder_def validate_peer_id_def validate_capacity_def
  storage_deposit_event_def set_proof_record_def settle_proof_reward_def update_fragment_state_def

subsection \<open>What each operation leaves alone\<close>

text \<open>The part of the state the registries live in.\<close>

definition registry_part :: "storage_state \<Rightarrow>
  (bytes \<rightharpoonup> storage_node_info) \<times> (account_id \<rightharpoonup> bytes) \<times> (hash256 \<Rightarrow> bytes list) \<times> (bytes \<Rightarrow> hash256 list)
    \<times> (hash256 \<rightharpoonup> fragment_metadata)" where
  "registry_part s = (storage_nodes s, operator_nodes s, fragment_holders s, node_holdings s, fragments s)"

lemma registry_part_frame [simp]:
  "registry_part (s\<lparr>registration_count := a1\<rparr>) = registry_part s"
  "registry_part (s\<lparr>declaration_count := a2\<rparr>) = registry_part s"
  "registry_part (s\<lparr>kzg_fragments := a3\<rparr>) = registry_part s"
  "registry_part (s\<lparr>pending_challenges := a4\<rparr>) = registry_part s"
  "registry_part (s\<lparr>proof_records := a5\<rparr>) = registry_part s"
  "registry_part (s\<lparr>reward_pool := a6\<rparr>) = registry_part s"
  "registry_part (s\<lparr>score_cache := a7\<rparr>) = registry_part s"
  "registry_part (s\<lparr>pending_rewards := a8\<rparr>) = registry_part s"
  "registry_part (s\<lparr>forgetting_candidates := a9\<rparr>) = registry_part s"
  "registry_part (s\<lparr>challenge_count := b1\<rparr>) = registry_part s"
  "registry_part (s\<lparr>challenges_by_deadline := b2\<rparr>) = registry_part s"
  "registry_part (s\<lparr>fragment_states := b3\<rparr>) = registry_part s"
  "registry_part (s\<lparr>repair_pools := b4\<rparr>) = registry_part s"
  "registry_part (s\<lparr>storage_events := b5\<rparr>) = registry_part s"
  by (simp_all add: registry_part_def)

lemma registry_part_event [simp]: "registry_part (storage_deposit_event e s) = registry_part s"
  by (simp add: storage_deposit_event_def)

lemma registry_part_proof_record [simp]: "registry_part (set_proof_record h w r s) = registry_part s"
  by (simp add: set_proof_record_def)

lemma registry_part_settle [simp]:
  "registry_part (settle_proof_reward cfg now w h score r s) = registry_part s"
  by (simp add: settle_proof_reward_def Let_def)

lemma registry_part_update_state [simp]: "registry_part (update_fragment_state now h s) = registry_part s"
  by (simp add: update_fragment_state_def Let_def split: option.splits fragment_state_kind.splits)

lemma registry_part_slash:
  "do_slash_node cfg w h (s, p) = Inr (s', p') \<Longrightarrow> registry_part s' = registry_part s"
  by (auto simp: do_slash_node_def result_simps Let_def split: prod.splits)

lemma registry_part_expire: "registry_part (fst (expire_challenge cfg hi (s, p))) = registry_part s"
proof -
  have slash: "registry_part (fst (case do_slash_node cfg w h (t, p) of Inl e \<Rightarrow> (t, p) | Inr sp \<Rightarrow> sp))
      = registry_part t" for w h t
    by (cases "do_slash_node cfg w h (t, p)") (auto dest: registry_part_slash)
  show ?thesis
    by (cases hi) (simp add: expire_challenge_def Let_def slash split: option.splits)
qed

lemma registry_part_finalize: "registry_part (fst (storage_on_finalize cfg b (s, p))) = registry_part s"
proof -
  have "registry_part (fst (fold (expire_challenge cfg) xs sp)) = registry_part (fst sp)" for xs sp
    by (induction xs arbitrary: sp) (auto, metis prod.collapse registry_part_expire)
  then show ?thesis by (simp add: storage_on_finalize_def Let_def)
qed

lemma registry_part_others:
  "prove_holding_kzg cfg now w h i sh pr p s = Inr s' \<Longrightarrow> registry_part s' = registry_part s"
  "issue_challenge cfg now w h v i s = Inr s' \<Longrightarrow> registry_part s' = registry_part s"
  "claim_reward cfg w (s, p) = Inr (s', p') \<Longrightarrow> registry_part s' = registry_part s"
  "confirm_repair cfg now w h i sh pr s = Inr s' \<Longrightarrow> registry_part s' = registry_part s"
  "evict_stale_holder now h s = Inr s' \<Longrightarrow> registry_part s' = registry_part s"
  "iface_register_kzg_fragment now w h com n cnt thr s = Inr s' \<Longrightarrow> registry_part s' = registry_part s"
  "registry_part (do_deposit_to_reward_pool a s) = registry_part s"
proof -
  show "prove_holding_kzg cfg now w h i sh pr p s = Inr s' \<Longrightarrow> registry_part s' = registry_part s"
    by (auto simp: prove_holding_kzg_def Let_def result_simps)
  show "issue_challenge cfg now w h v i s = Inr s' \<Longrightarrow> registry_part s' = registry_part s"
    by (auto simp: issue_challenge_def Let_def result_simps)
  show "claim_reward cfg w (s, p) = Inr (s', p') \<Longrightarrow> registry_part s' = registry_part s"
    by (auto simp: claim_reward_def Let_def result_simps)
  show "confirm_repair cfg now w h i sh pr s = Inr s' \<Longrightarrow> registry_part s' = registry_part s"
    by (auto simp: confirm_repair_def Let_def result_simps)
  show "evict_stale_holder now h s = Inr s' \<Longrightarrow> registry_part s' = registry_part s"
    by (cases "compute_eviction_candidates h s") (auto simp: evict_stale_holder_def Let_def result_simps)
  show "iface_register_kzg_fragment now w h com n cnt thr s = Inr s' \<Longrightarrow> registry_part s' = registry_part s"
    by (auto simp: iface_register_kzg_fragment_def do_register_kzg_fragment_def result_simps)
qed (simp add: do_deposit_to_reward_pool_def)

subsection \<open>Operators, peers and holdings\<close>

definition registry_inv :: "storage_state \<Rightarrow> bool" where
  "registry_inv s \<longleftrightarrow> (\<forall>who peer. operator_nodes s who = Some peer \<longleftrightarrow>
     (\<exists>info. storage_nodes s peer = Some info \<and> ni_operator info = who))"

definition holdings_inv :: "'p storage_config \<Rightarrow> storage_state \<Rightarrow> bool" where
  "holdings_inv cfg s \<longleftrightarrow>
     (\<forall>f peer. peer \<in> set (fragment_holders s f) \<longleftrightarrow> f \<in> set (node_holdings s peer))
     \<and> (\<forall>f. distinct (fragment_holders s f) \<and> length (fragment_holders s f) \<le> sc_max_holders cfg)
     \<and> (\<forall>peer. distinct (node_holdings s peer) \<and> length (node_holdings s peer) \<le> sc_max_fragments_per_node cfg)
     \<and> (\<forall>peer f. f \<in> set (node_holdings s peer) \<longrightarrow> storage_nodes s peer \<noteq> None \<and> fragments s f \<noteq> None)"

lemma registry_invD: "registry_inv s \<Longrightarrow> storage_nodes s q = Some i \<Longrightarrow> operator_nodes s (ni_operator i) = Some q"
  by (auto simp: registry_inv_def)

lemma registry_inv_iff: "registry_inv s \<Longrightarrow> operator_nodes s who = Some peer \<longleftrightarrow>
     (\<exists>info. storage_nodes s peer = Some info \<and> ni_operator info = who)"
  by (simp add: registry_inv_def)

text \<open>The abstract view: which registered peer holds which fragment.\<close>

definition holds :: "storage_state \<Rightarrow> (bytes \<times> hash256) set" where
  "holds s = {(peer, f). f \<in> set (node_holdings s peer)}"

lemma registry_invs_cong:
  assumes "registry_part s' = registry_part s"
  shows "registry_inv s' = registry_inv s" "holdings_inv cfg s' = holdings_inv cfg s"
  using assms by (simp_all add: registry_inv_def holdings_inv_def registry_part_def)

lemma registry_inv_genesis: "registry_inv (genesis_storage pool) \<and> holdings_inv cfg (genesis_storage pool)"
  by (simp add: registry_inv_def holdings_inv_def genesis_storage_def)

lemma push_once_Inr:
  "push_once bound x xs e = Inr (ys, m) \<Longrightarrow>
   ys = (if x \<in> set xs then xs else xs @ [x]) \<and> m = (x \<notin> set xs) \<and> (x \<in> set xs \<or> length xs < bound)"
  by (auto simp: push_once_def split: if_splits)

lemma push_once_facts:
  assumes "push_once bound x xs e = Inr (ys, m)"
  shows "set ys = insert x (set xs)" "distinct xs \<Longrightarrow> distinct ys"
    "length xs \<le> bound \<Longrightarrow> length ys \<le> bound"
  using push_once_Inr [OF assms] by (auto split: if_splits)

text \<open>What a successful declaration and a successful revocation do to the two indexes.\<close>

lemma declare_holding_effect:
  assumes "declare_holding cfg now who f s = Inr s'"
  obtains peer hs fs m1 m2 where
    "operator_nodes s who = Some peer" "fragments s f \<noteq> None"
    "push_once (sc_max_holders cfg) peer (fragment_holders s f) TooManyHolders = Inr (hs, m1)"
    "push_once (sc_max_fragments_per_node cfg) f (node_holdings s peer) TooManyFragments = Inr (fs, m2)"
    "fragment_holders s' = (fragment_holders s)(f := hs)"
    "node_holdings s' = (node_holdings s)(peer := fs)"
    "storage_nodes s' = storage_nodes s" "operator_nodes s' = operator_nodes s"
    "fragments s' = fragments s"
proof -
  from assms obtain peer where
    op: "operator_nodes s who = Some peer" and fr: "fragments s f \<noteq> None"
    and rest: "bind_ok (push_once (sc_max_holders cfg) peer (fragment_holders s f) TooManyHolders) (\<lambda>(hs, m1).
     bind_ok (push_once (sc_max_fragments_per_node cfg) f (node_holdings s peer) TooManyFragments) (\<lambda>(fs, m2).
     let s1 = s\<lparr>fragment_holders := (fragment_holders s)(f := hs),
                node_holdings := (node_holdings s)(peer := fs)\<rparr>
     in Inr (if m1 \<or> m2
          then storage_deposit_event (HoldingDeclared peer f)
                 (s1\<lparr>declaration_count := (declaration_count s)(now :=
                      (declaration_count s now)(peer := increment_declaration_count (declaration_count s now peer)))\<rparr>)
          else s1))) = Inr s'"
    by (auto simp: declare_holding_def Let_def result_simps)
  from rest obtain hs m1 fs m2 where
    "push_once (sc_max_holders cfg) peer (fragment_holders s f) TooManyHolders = Inr (hs, m1)"
    "push_once (sc_max_fragments_per_node cfg) f (node_holdings s peer) TooManyFragments = Inr (fs, m2)"
    and s': "s' = (let s1 = s\<lparr>fragment_holders := (fragment_holders s)(f := hs),
                node_holdings := (node_holdings s)(peer := fs)\<rparr>
     in if m1 \<or> m2
          then storage_deposit_event (HoldingDeclared peer f)
                 (s1\<lparr>declaration_count := (declaration_count s)(now :=
                      (declaration_count s now)(peer := increment_declaration_count (declaration_count s now peer)))\<rparr>)
          else s1)"
    by (auto simp: result_simps Let_def)
  then show ?thesis
    using op fr by (intro that [of peer hs m1 fs m2]) (simp_all add: s' Let_def storage_deposit_event_def)
qed

lemma revoke_holding_effect:
  assumes "revoke_holding who f s = Inr s'"
  obtains peer i j where
    "operator_nodes s who = Some peer"
    "index_of peer (fragment_holders s f) = Some i" "index_of f (node_holdings s peer) = Some j"
    "fragment_holders s' = (fragment_holders s)(f := swap_remove i (fragment_holders s f))"
    "node_holdings s' = (node_holdings s)(peer := swap_remove j (node_holdings s peer))"
    "storage_nodes s' = storage_nodes s" "operator_nodes s' = operator_nodes s" "fragments s' = fragments s"
  using assms that by (auto simp: revoke_holding_def result_simps storage_deposit_event_def)

lemma revoke_holding_succeeds:
  "(\<exists>s'. revoke_holding who f s = Inr s') \<longleftrightarrow> (\<exists>peer. operator_nodes s who = Some peer
     \<and> peer \<in> set (fragment_holders s f) \<and> f \<in> set (node_holdings s peer))"
  unfolding revoke_holding_def result_simps index_of_Some_iff [symmetric] by blast

lemma swap_remove_index:
  assumes "index_of x xs = Some i" "distinct xs"
  shows "set (swap_remove i xs) = set xs - {x}" "distinct (swap_remove i xs)" "x \<in> set xs"
  using swap_remove_distinct [of i xs] index_of_nth [OF assms(1)] assms(2) nth_mem [of i xs] by auto

lemma declare_holding_inv:
  assumes "declare_holding cfg now who f s = Inr s'" "registry_inv s" "holdings_inv cfg s"
  shows "registry_inv s' \<and> holdings_inv cfg s'"
proof -
  from assms(1) show ?thesis
  proof (rule declare_holding_effect)
    fix peer hs fs m1 m2
    assume op: "operator_nodes s who = Some peer" and fr: "fragments s f \<noteq> None"
      and hs: "push_once (sc_max_holders cfg) peer (fragment_holders s f) TooManyHolders = Inr (hs, m1)"
      and fs: "push_once (sc_max_fragments_per_node cfg) f (node_holdings s peer) TooManyFragments = Inr (fs, m2)"
      and s': "fragment_holders s' = (fragment_holders s)(f := hs)"
        "node_holdings s' = (node_holdings s)(peer := fs)"
        "storage_nodes s' = storage_nodes s" "operator_nodes s' = operator_nodes s" "fragments s' = fragments s"
    from assms(2) op have "storage_nodes s peer \<noteq> None" by (auto simp: registry_inv_def)
    then show ?thesis
      using assms(2,3) fr push_once_facts [OF hs] push_once_facts [OF fs]
      unfolding registry_inv_def holdings_inv_def s' by (simp split: if_splits)
  qed
qed

lemma revoke_holding_inv:
  assumes "revoke_holding who f s = Inr s'" "registry_inv s" "holdings_inv cfg s"
  shows "registry_inv s' \<and> holdings_inv cfg s'"
proof -
  from assms(1) show ?thesis
  proof (rule revoke_holding_effect)
    fix peer i j
    assume op: "operator_nodes s who = Some peer"
      and i: "index_of peer (fragment_holders s f) = Some i" and j: "index_of f (node_holdings s peer) = Some j"
      and s': "fragment_holders s' = (fragment_holders s)(f := swap_remove i (fragment_holders s f))"
        "node_holdings s' = (node_holdings s)(peer := swap_remove j (node_holdings s peer))"
        "storage_nodes s' = storage_nodes s" "operator_nodes s' = operator_nodes s" "fragments s' = fragments s"
    have d: "distinct (fragment_holders s f)" "distinct (node_holdings s peer)"
      using assms(3) by (simp_all add: holdings_inv_def)
    note hs = swap_remove_index [OF i d(1)] and fs = swap_remove_index [OF j d(2)]
    have "registry_inv s'" using assms(2) by (simp add: registry_inv_def s')
    moreover have "\<forall>g q. q \<in> set (fragment_holders s' g) \<longleftrightarrow> g \<in> set (node_holdings s' q)"
      using assms(3) by (auto simp: holdings_inv_def s' hs fs)
    moreover have "distinct (fragment_holders s' g) \<and> length (fragment_holders s' g) \<le> sc_max_holders cfg" for g
      using assms(3) hs(2) by (simp add: holdings_inv_def s') (metis diff_le_self le_trans diff_le_mono le_SucI)
    moreover have "distinct (node_holdings s' q) \<and> length (node_holdings s' q) \<le> sc_max_fragments_per_node cfg" for q
      using assms(3) fs(2) by (simp add: holdings_inv_def s') (metis diff_le_self le_trans diff_le_mono le_SucI)
    moreover have "\<forall>q g. g \<in> set (node_holdings s' q) \<longrightarrow> storage_nodes s' q \<noteq> None \<and> fragments s' g \<noteq> None"
      using assms(3) by (auto simp: holdings_inv_def s' fs)
    ultimately show ?thesis by (simp add: holdings_inv_def)
  qed
qed

lemma register_node_inv:
  assumes "register_node cfg now who peer cap nonce url p s = Inr s'" "registry_inv s" "holdings_inv cfg s"
  shows "registry_inv s' \<and> holdings_inv cfg s'"
proof -
  from assms(1) have new: "storage_nodes s peer = None" "operator_nodes s who = None"
    and s': "operator_nodes s' = (operator_nodes s)(who \<mapsto> peer)"
      "storage_nodes s' = (storage_nodes s)(peer \<mapsto> \<lparr>ni_operator = who, ni_capacity = cap,
         ni_registered_at = now, ni_pow_nonce = nonce, ni_http_url = url\<rparr>)"
      "fragment_holders s' = fragment_holders s" "node_holdings s' = node_holdings s" "fragments s' = fragments s"
    by (auto simp: register_node_def validate_peer_id_def validate_capacity_def Let_def result_simps
        storage_deposit_event_def)
  define info where "info = \<lparr>ni_operator = who, ni_capacity = cap, ni_registered_at = now,
    ni_pow_nonce = nonce, ni_http_url = url\<rparr>"
  then have info: "ni_operator info = who" "storage_nodes s' = (storage_nodes s)(peer \<mapsto> info)"
    using s'(2) by simp_all
  have "holdings_inv cfg s'"
    using assms(3) by (auto simp: holdings_inv_def s'(3-) info)
  moreover have "operator_nodes s' v = Some q \<longleftrightarrow> (\<exists>i. storage_nodes s' q = Some i \<and> ni_operator i = v)" for v q
    using assms(2) new info(1) by (cases "q = peer"; cases "v = who") (auto simp: registry_inv_def s'(1) info(2) dest: registry_invD [OF assms(2)])
  ultimately show ?thesis by (simp add: registry_inv_def)
qed

lemma update_node_inv:
  assumes "update_node who cap s = Inr s'" "registry_inv s" "holdings_inv cfg s"
  shows "registry_inv s' \<and> holdings_inv cfg s'"
proof -
  from assms(1) obtain peer info where old: "storage_nodes s peer = Some info"
    and s': "storage_nodes s' = (storage_nodes s)(peer \<mapsto> info\<lparr>ni_capacity := cap\<rparr>)"
      "operator_nodes s' = operator_nodes s" "fragment_holders s' = fragment_holders s"
      "node_holdings s' = node_holdings s" "fragments s' = fragments s"
    by (auto simp: update_node_def result_simps storage_deposit_event_def)
  have "registry_inv s'" using assms(2) old by (auto simp: registry_inv_def s')
  moreover have "holdings_inv cfg s'" using assms(3) by (auto simp: holdings_inv_def s')
  ultimately show ?thesis ..
qed

lemma unregister_node_inv:
  assumes "unregister_node who s = Inr s'" "registry_inv s" "holdings_inv cfg s"
  shows "registry_inv s' \<and> holdings_inv cfg s'"
proof -
  from assms(1) obtain peer where op: "operator_nodes s who = Some peer" and none: "node_holdings s peer = []"
    and s': "storage_nodes s' = (storage_nodes s)(peer := None)"
      "operator_nodes s' = (operator_nodes s)(who := None)" "fragment_holders s' = fragment_holders s"
      "node_holdings s' = node_holdings s" "fragments s' = fragments s"
    by (auto simp: unregister_node_def result_simps storage_deposit_event_def)
  have "operator_nodes s' v = Some q \<longleftrightarrow> (\<exists>i. storage_nodes s' q = Some i \<and> ni_operator i = v)" for v q
    using registry_inv_iff [OF assms(2), of v q] registry_inv_iff [OF assms(2), of who peer] op
    by (cases "q = peer"; cases "v = who") (auto simp: s')
  then have "registry_inv s'" by (simp add: registry_inv_def)
  moreover have "g \<in> set (node_holdings s q) \<Longrightarrow> q \<noteq> peer" for g q using none by auto
  then have "holdings_inv cfg s'" using assms(3) by (auto simp: holdings_inv_def s')
  ultimately show ?thesis ..
qed

lemma register_fragment_inv:
  assumes "do_register_fragment cfg t who f n s = Inr s' \<or> register_fragment cfg t who f n s = Inr s'"
    "registry_inv s" "holdings_inv cfg s"
  shows "registry_inv s' \<and> holdings_inv cfg s'"
proof -
  from assms(1) have s': "storage_nodes s' = storage_nodes s" "operator_nodes s' = operator_nodes s"
      "fragment_holders s' = fragment_holders s" "node_holdings s' = node_holdings s"
      "\<exists>m. fragments s' = (fragments s)(f \<mapsto> m)"
    by (auto simp: do_register_fragment_def register_fragment_def result_simps storage_deposit_event_def)
  then show ?thesis using assms(2,3) by (auto simp: registry_inv_def holdings_inv_def)
qed

lemma release_fragment_inv:
  assumes "registry_inv s" "holdings_inv cfg s"
  shows "registry_inv (do_release_fragment h s) \<and> holdings_inv cfg (do_release_fragment h s)"
proof -
  let ?s = "do_release_fragment h s"
  have s': "storage_nodes ?s = storage_nodes s" "operator_nodes ?s = operator_nodes s"
    "fragment_holders ?s = (fragment_holders s)(h := [])" "fragments ?s = (fragments s)(h := None)"
    "node_holdings ?s = (\<lambda>peer. if peer \<in> set (fragment_holders s h)
       then filter (\<lambda>f. f \<noteq> h) (node_holdings s peer) else node_holdings s peer)"
    by (simp_all add: do_release_fragment_def Let_def storage_deposit_event_def)
  have "registry_inv ?s" using assms(1) by (simp add: registry_inv_def s')
  moreover have "\<forall>g q. q \<in> set (fragment_holders ?s g) \<longleftrightarrow> g \<in> set (node_holdings ?s q)"
    using assms(2) by (auto simp: holdings_inv_def s')
  moreover have "distinct (fragment_holders ?s g) \<and> length (fragment_holders ?s g) \<le> sc_max_holders cfg" for g
    using assms(2) by (simp add: holdings_inv_def s')
  moreover have "distinct (node_holdings ?s q) \<and> length (node_holdings ?s q) \<le> sc_max_fragments_per_node cfg" for q
    using assms(2) by (auto simp: holdings_inv_def s' intro: order_trans [OF length_filter_le])
  moreover have "\<forall>q g. g \<in> set (node_holdings ?s q) \<longrightarrow> storage_nodes ?s q \<noteq> None \<and> fragments ?s g \<noteq> None"
    using assms(2) by (auto simp: holdings_inv_def s')
  ultimately show ?thesis by (simp add: holdings_inv_def)
qed

lemma storage_op_registry_inv:
  assumes "storage_op cfg now (s, p) (s', p')" "registry_inv s \<and> holdings_inv cfg s"
  shows "registry_inv s' \<and> holdings_inv cfg s'"
proof -
  have frame: "registry_part s' = registry_part s \<Longrightarrow> ?thesis"
    using assms(2) registry_invs_cong by metis
  note invs = assms(2) [THEN conjunct1] assms(2) [THEN conjunct2]
  from assms(1) show ?thesis
  proof (cases rule: storage_op.cases)
    case (op_register_fragment who f n)
    then show ?thesis using invs register_fragment_inv by metis
  next
    case (op_iface_fragment t who f n)
    then show ?thesis using invs register_fragment_inv by metis
  next
    case (op_release h)
    then show ?thesis using invs release_fragment_inv by metis
  next
    case (op_register_node who peer cap nonce url)
    then show ?thesis using invs register_node_inv by metis
  next
    case (op_update_node who cap)
    then show ?thesis using invs update_node_inv by metis
  next
    case (op_unregister_node who)
    then show ?thesis using invs unregister_node_inv by metis
  next
    case (op_declare who f)
    then show ?thesis using invs declare_holding_inv by metis
  next
    case (op_revoke who f)
    then show ?thesis using invs revoke_holding_inv by metis
  qed (rule frame, simp add: registry_part_others)+
qed

text \<open>C5: in every state the pallet can reach, operators and peers are in bijection, a node lists a
  fragment exactly when the fragment lists the node, neither index has duplicates or exceeds its
  bound, and only registered nodes hold only registered fragments.
\<close>

theorem registries_consistent:
  assumes "storage_reachable cfg now (s, p)"
  shows "(\<forall>who peer. operator_nodes s who = Some peer \<longleftrightarrow>
       (\<exists>info. storage_nodes s peer = Some info \<and> ni_operator info = who))
    \<and> (\<forall>f peer. peer \<in> set (fragment_holders s f) \<longleftrightarrow> f \<in> set (node_holdings s peer))
    \<and> (\<forall>f. distinct (fragment_holders s f) \<and> length (fragment_holders s f) \<le> sc_max_holders cfg)
    \<and> (\<forall>peer. distinct (node_holdings s peer) \<and> length (node_holdings s peer) \<le> sc_max_fragments_per_node cfg)
    \<and> (\<forall>peer f. f \<in> set (node_holdings s peer) \<longrightarrow> storage_nodes s peer \<noteq> None \<and> fragments s f \<noteq> None)"
proof -
  from assms have "registry_inv (fst (s, p)) \<and> holdings_inv cfg (fst (s, p))"
  proof (induction rule: storage_reachable_induct)
    case (genesis pool p)
    then show ?case using registry_inv_genesis by simp
  next
    case (op n s p s' p')
    then show ?case using storage_op_registry_inv by (metis fst_conv)
  next
    case (block n s p)
    then show ?case using registry_invs_cong [OF registry_part_finalize] by (metis fst_conv)
  qed
  then show ?thesis unfolding registry_inv_def holdings_inv_def fst_conv .
qed

definition demo_storage_config :: "unit storage_config" where
  "demo_storage_config = \<lparr>sc_max_fragment_size = 1000, sc_max_peer_id_len = 4, sc_max_holders = 2,
     sc_max_fragments_per_node = 2, sc_min_peer_id_len = 1, sc_max_registrations = 3,
     sc_max_declarations = 3, sc_min_capacity = 10, sc_pow_period = 0, sc_base_pow_difficulty = 0,
     sc_reward_per_byte = 1, sc_score_threshold = 100, sc_score_margin = 10, sc_max_challenges = 5,
     sc_min_withdrawal = 10, sc_pool_target = 1000, sc_slash_rate_ppm = 50000,
     sc_has_bond = \<lambda>_ _. True, sc_bond_amount = \<lambda>_ _. 0, sc_active_bond = \<lambda>_. 0,
     sc_slash_bond = \<lambda>_ _ p. (0, p), sc_mint_into = \<lambda>_ _ p. Some p,
     sc_blake2_256 = \<lambda>_. replicate 32 0, sc_verify_kzg = \<lambda>_ _ _ _. Some True\<rparr>"

definition demo_fragment_state :: storage_state where
  "demo_fragment_state = storage_deposit_event (FragmentRegistered 5 1 100)
     ((genesis_storage 0)\<lparr>fragments := (\<lambda>_. None)(5 \<mapsto> \<lparr>fm_size = 100, fm_creator = 1, fm_created_at = 0\<rparr>)\<rparr>)"

lemma demo_fragment_reachable: "storage_reachable demo_storage_config 0 (demo_fragment_state, ())"
proof (rule reach_op [OF reach_genesis])
  show "storage_op demo_storage_config 0 (genesis_storage 0, ()) (demo_fragment_state, ())"
    by (rule op_register_fragment [where who = 1 and f = 5 and n = 100])
      (simp add: register_fragment_def demo_storage_config_def demo_fragment_state_def genesis_storage_def)
qed

lemma registries_consistent_witness:
  "fragments demo_fragment_state 5 \<noteq> None \<and> distinct (fragment_holders demo_fragment_state 5)
   \<and> (\<forall>peer. length (node_holdings demo_fragment_state peer) \<le> 2)"
  using registries_consistent [OF demo_fragment_reachable]
  by (simp add: demo_storage_config_def) (simp add: demo_fragment_state_def storage_deposit_event_def)

lemma holdings_inv_facts:
  assumes "holdings_inv cfg s"
  shows "f \<in> set (node_holdings s q) \<longleftrightarrow> q \<in> set (fragment_holders s f)" and "distinct (node_holdings s q)"
  using assms by (simp_all add: holdings_inv_def)

lemma declare_inserts:
  assumes "holdings_inv cfg s" and d: "declare_holding cfg now who f s = Inr s'"
  shows "\<exists>peer. operator_nodes s who = Some peer \<and> holds s' = insert (peer, f) (holds s) \<and> ((peer, f) \<in> holds s \<longrightarrow> s' = s)"
  using d
proof (rule declare_holding_effect)
  fix peer hs fs m1 m2
  assume op: "operator_nodes s who = Some peer"
    and fs: "push_once (sc_max_fragments_per_node cfg) f (node_holdings s peer) TooManyFragments = Inr (fs, m2)"
    and s': "node_holdings s' = (node_holdings s)(peer := fs)"
  have "s' = s" if "f \<in> set (node_holdings s peer)"
    using d op that holdings_inv_facts(1) [OF assms(1)] by (auto simp: declare_holding_def Let_def result_simps push_once_def)
  moreover have "holds s' = insert (peer, f) (holds s)"
    using push_once_facts(1) [OF fs] by (auto simp: holds_def s' split: if_splits)
  ultimately show ?thesis using op by (auto simp: holds_def)
qed

lemma revoke_deletes:
  assumes "holdings_inv cfg s" and "revoke_holding who f s = Inr s'"
  shows "\<exists>peer. operator_nodes s who = Some peer \<and> holds s' = holds s - {(peer, f)}"
  using assms(2)
proof (rule revoke_holding_effect)
  fix peer i j
  assume op: "operator_nodes s who = Some peer" and j: "index_of f (node_holdings s peer) = Some j"
    and s': "node_holdings s' = (node_holdings s)(peer := swap_remove j (node_holdings s peer))"
  have "(q, g) \<in> holds s' \<longleftrightarrow> (q, g) \<in> holds s \<and> (q, g) \<noteq> (peer, f)" for q g
    by (cases "q = peer") (auto simp: holds_def s' swap_remove_index(1) [OF j holdings_inv_facts(2) [OF assms(1)]])
  then have "holds s' = holds s - {(peer, f)}" by auto
  then show ?thesis using op by blast
qed

lemma release_filters:
  assumes "holdings_inv cfg s"
  shows "holds (do_release_fragment h s) = {pf \<in> holds s. snd pf \<noteq> h}"
proof -
  have "f \<in> set (node_holdings (do_release_fragment h s) q) \<longleftrightarrow> f \<in> set (node_holdings s q) \<and> f \<noteq> h" for f q
    using holdings_inv_facts(1) [OF assms, of h q] by (auto simp: do_release_fragment_def Let_def storage_deposit_event_def)
  then show ?thesis by (auto simp: holds_def)
qed

text \<open>C6: on consistent registries the holding operations refine an abstract relation between peers
  and fragments: a declaration inserts the caller's pair (and leaves the storage untouched when it
  is there already), a revocation succeeds exactly when the pair is there and deletes it, and
  releasing a fragment deletes every pair it is in.
\<close>

theorem holding_operations_refine:
  assumes "registry_inv s" "holdings_inv cfg s"
  shows "(\<forall>who f s'. declare_holding cfg now who f s = Inr s' \<longrightarrow>
      (\<exists>peer. operator_nodes s who = Some peer \<and> holds s' = insert (peer, f) (holds s)
        \<and> ((peer, f) \<in> holds s \<longrightarrow> s' = s)))
    \<and> (\<forall>who f. (\<exists>s'. revoke_holding who f s = Inr s') \<longleftrightarrow>
      (\<exists>peer. operator_nodes s who = Some peer \<and> (peer, f) \<in> holds s))
    \<and> (\<forall>who f s'. revoke_holding who f s = Inr s' \<longrightarrow>
      (\<exists>peer. operator_nodes s who = Some peer \<and> holds s' = holds s - {(peer, f)}))
    \<and> holds (do_release_fragment h s) = {pf \<in> holds s. snd pf \<noteq> h}"
  using declare_inserts [OF assms(2)] revoke_deletes [OF assms(2)] release_filters [OF assms(2)] holdings_inv_facts [OF assms(2)]
  by (simp add: revoke_holding_succeeds holds_def)

definition demo_registry :: storage_state where
  "demo_registry = demo_fragment_state\<lparr>storage_nodes := (\<lambda>_. None)([9] \<mapsto>
       \<lparr>ni_operator = 7, ni_capacity = 50, ni_registered_at = 0, ni_pow_nonce = 0, ni_http_url = [1]\<rparr>),
     operator_nodes := (\<lambda>_. None)(7 \<mapsto> [9])\<rparr>"

lemma demo_registry_inv: "registry_inv demo_registry \<and> holdings_inv demo_storage_config demo_registry"
  by (auto simp: registry_inv_def holdings_inv_def demo_registry_def demo_fragment_state_def
      storage_deposit_event_def genesis_storage_def)

lemma holding_operations_refine_witness:
  "\<exists>s'. declare_holding demo_storage_config 3 7 5 demo_registry = Inr s' \<and> holds s' = {([9], 5)}"
proof -
  have "\<exists>s'. declare_holding demo_storage_config 3 7 5 demo_registry = Inr s'"
    by (simp add: declare_holding_def demo_registry_def demo_storage_config_def demo_fragment_state_def
        storage_deposit_event_def genesis_storage_def push_once_def can_declare_holding_def)
  then obtain s' where s': "declare_holding demo_storage_config 3 7 5 demo_registry = Inr s'" ..
  have ops: "operator_nodes demo_registry 7 = Some [9]" "holds demo_registry = {}"
    by (auto simp: demo_registry_def holds_def demo_fragment_state_def storage_deposit_event_def genesis_storage_def)
  from conjunct1 [OF holding_operations_refine [OF demo_registry_inv [THEN conjunct1] demo_registry_inv [THEN conjunct2],
        of 3]] s'
  have "\<exists>peer. operator_nodes demo_registry 7 = Some peer \<and> holds s' = insert (peer, 5) (holds demo_registry)"
    by blast
  then show ?thesis using s' ops by auto
qed

end
