(* ===== verification/Storage_Repair.thy ===== *)
theory Storage_Repair
  imports Storage_Registry
begin

text \<open>
  Repair and eviction of KZG share holders: the eviction order, what a confirmed repair does, and
  which states of this machinery the pallet can reach from genesis.
\<close>

subsection \<open>Eviction order\<close>

definition kind_rank :: "fragment_state_kind \<Rightarrow> nat" where
  "kind_rank k = (case k of Lost \<Rightarrow> 0 | AtRisk \<Rightarrow> 1 | Repairing \<Rightarrow> 2 | Active \<Rightarrow> 3)"

instantiation fragment_state_kind :: linorder
begin

definition less_eq_fragment_state_kind :: "fragment_state_kind \<Rightarrow> fragment_state_kind \<Rightarrow> bool" where
  "k \<le> k' \<longleftrightarrow> kind_rank k \<le> kind_rank k'"

definition less_fragment_state_kind :: "fragment_state_kind \<Rightarrow> fragment_state_kind \<Rightarrow> bool" where
  "k < k' \<longleftrightarrow> kind_rank k < kind_rank k'"

instance
  by standard (auto simp: less_eq_fragment_state_kind_def less_fragment_state_kind_def kind_rank_def
      split: fragment_state_kind.splits)

end

lemma state_for_holders_mono: "m \<le> n \<Longrightarrow> state_for_holders m \<le> state_for_holders n"
  by (simp add: state_for_holders_def less_eq_fragment_state_kind_def kind_rank_def)

definition candidate_of :: "storage_state \<Rightarrow> hash256 \<Rightarrow> account_id \<Rightarrow> eviction_candidate" where
  "candidate_of s h w = (let r = proof_records s h w in
     \<lparr>ec_account = w, ec_score = priority_score r, ec_share_index = pr_share_index r,
      ec_slashed = pr_slashed r, ec_last_proved_at = pr_last_proved_at r\<rparr>)"

lemma candidate_of_simps [simp]:
  "ec_account (candidate_of s h w) = w" "ec_score (candidate_of s h w) = priority_score (proof_records s h w)"
  by (simp_all add: candidate_of_def Let_def)

lemma compute_eviction_candidates_eq:
  "kzg_fragments s h = Some kf \<Longrightarrow>
   compute_eviction_candidates h s = sort_key ec_score (map (candidate_of s h) (kf_holders kf))"
  by (simp add: compute_eviction_candidates_def candidate_of_def [abs_def] Let_def)

lemma hd_sort_key_min:
  assumes "sort_key f xs = y # ys" shows "y \<in> set xs \<and> (\<forall>x \<in> set xs. f y \<le> f x)"
proof -
  have "sorted (map f (y # ys))" using sorted_sort_key [of f xs] assms by simp
  moreover have "set xs = insert y (set ys)"
    by (metis assms list.set(2) set_sort)
  ultimately show ?thesis by auto
qed

lemma priority_score_bounds:
  "pr_slashed r \<Longrightarrow> priority_score r \<le> 600" "\<not> pr_slashed r \<Longrightarrow> 1000 \<le> priority_score r"
  "priority_score r \<le> 1600"
  by (auto simp: priority_score_def)

lemma get_fragment_state_update:
  assumes "kzg_fragments s h = Some kf"
  shows "fs_kind (get_fragment_state (update_fragment_state now h s) h) = state_for_holders (length (kf_holders kf))"
  using assms
  by (auto simp: update_fragment_state_def Let_def get_fragment_state_def storage_deposit_event_def
      split: fragment_state_kind.splits)

lemma get_fragment_state_event [simp]: "get_fragment_state (storage_deposit_event e s) h = get_fragment_state s h"
  by (simp add: get_fragment_state_def storage_deposit_event_def)

lemma update_fragment_state_frame [simp]:
  "kzg_fragments (update_fragment_state now h s) = kzg_fragments s"
  "proof_records (update_fragment_state now h s) = proof_records s"
  "pending_rewards (update_fragment_state now h s) = pending_rewards s"
  "repair_pools (update_fragment_state now h s) = repair_pools s"
  by (simp_all add: update_fragment_state_def Let_def storage_deposit_event_def
      split: option.splits fragment_state_kind.splits)

text \<open>An eviction removes, of all holders of the fragment, one with the least priority score, and
  only that one; a slashed holder always goes before one that is not slashed; the evicted holder's
  record is reset and the fragment's state again matches its number of holders.
\<close>

theorem evict_removes_least_priority:
  assumes "evict_stale_holder now h s = Inr s'" "kzg_fragments s h = Some kf"
  shows "\<exists>w \<in> set (kf_holders kf).
      (\<forall>v \<in> set (kf_holders kf). priority_score (proof_records s h w) \<le> priority_score (proof_records s h v))
    \<and> ((\<exists>v \<in> set (kf_holders kf). pr_slashed (proof_records s h v)) \<longrightarrow> pr_slashed (proof_records s h w))
    \<and> kzg_fragments s' h = Some (kf\<lparr>kf_holders := filter (\<lambda>v. v \<noteq> w) (kf_holders kf)\<rparr>)
    \<and> proof_records s' h w = default_proof_record
    \<and> fs_kind (get_fragment_state s' h) = state_for_holders (length (filter (\<lambda>v. v \<noteq> w) (kf_holders kf)))"
proof -
  from assms obtain c cs where c: "compute_eviction_candidates h s = c # cs"
    and s': "s' = storage_deposit_event (HolderEvicted h (ec_account c)) (update_fragment_state now h
        (set_proof_record h (ec_account c) default_proof_record
          (s\<lparr>kzg_fragments := (kzg_fragments s)(h \<mapsto>
             kf\<lparr>kf_holders := filter (\<lambda>v. v \<noteq> ec_account c) (kf_holders kf)\<rparr>)\<rparr>)))"
    by (cases "compute_eviction_candidates h s") (auto simp: evict_stale_holder_def result_simps Let_def)
  from c have "c \<in> set (map (candidate_of s h) (kf_holders kf))
      \<and> (\<forall>x \<in> set (map (candidate_of s h) (kf_holders kf)). ec_score c \<le> ec_score x)"
    unfolding compute_eviction_candidates_eq [OF assms(2)] by (rule hd_sort_key_min)
  then obtain w where w: "w \<in> set (kf_holders kf)" "c = candidate_of s h w"
    and least: "\<forall>v \<in> set (kf_holders kf). priority_score (proof_records s h w) \<le> priority_score (proof_records s h v)"
    by auto
  moreover have "pr_slashed (proof_records s h w)"
    if "v \<in> set (kf_holders kf)" "pr_slashed (proof_records s h v)" for v
    using priority_score_bounds(1) [OF that(2)] priority_score_bounds(2) [of "proof_records s h w"] least that(1)
    by fastforce
  moreover have "fs_kind (get_fragment_state s' h) = state_for_holders (length (filter (\<lambda>v. v \<noteq> w) (kf_holders kf)))"
  proof -
    let ?kf = "kf\<lparr>kf_holders := filter (\<lambda>v. v \<noteq> w) (kf_holders kf)\<rparr>"
    let ?t = "set_proof_record h w default_proof_record (s\<lparr>kzg_fragments := (kzg_fragments s)(h \<mapsto> ?kf)\<rparr>)"
    have "kzg_fragments ?t h = Some ?kf" by (simp add: set_proof_record_def)
    from get_fragment_state_update [OF this] show ?thesis by (simp add: s' w(2))
  qed
  ultimately show ?thesis
    by (intro bexI [of _ w]) (auto simp: s' w(2) storage_deposit_event_def set_proof_record_def)
qed

text \<open>Of two holders that are not slashed and whose last proofs fall in the same hundred blocks,
  the one with an original share index (1 to 5) has the lower priority score than one with a
  repaired index (6 and above), so the originals are evicted first.
\<close>

theorem original_shares_evicted_first:
  assumes "\<not> pr_slashed r" "\<not> pr_slashed r'" "1 \<le> pr_share_index r" "pr_share_index r \<le> 5"
    "6 \<le> pr_share_index r'" "pr_last_proved_at r div 100 = pr_last_proved_at r' div 100"
  shows "priority_score r < priority_score r'"
  using assms by (simp add: priority_score_def)

lemma original_shares_evicted_first_witness:
  "priority_score \<lparr>pr_last_proved_at = 250, pr_success_count = 9, pr_failure_count = 0, pr_slashed = False,
     pr_share_index = 2\<rparr>
   < priority_score \<lparr>pr_last_proved_at = 210, pr_success_count = 1, pr_failure_count = 0, pr_slashed = False,
     pr_share_index = 7\<rparr>"
  by (rule original_shares_evicted_first) simp_all

definition demo_kzg :: "account_id list \<Rightarrow> kzg_fragment" where
  "demo_kzg hs = \<lparr>kf_owner = 1, kf_commitment = replicate 48 0, kf_data_size = 64, kf_fragment_count = 2,
     kf_threshold = 1, kf_created_at = 0, kf_holders = hs\<rparr>"

definition demo_crowded :: storage_state where
  "demo_crowded = (genesis_storage 0)\<lparr>kzg_fragments := (\<lambda>_. None)(5 \<mapsto> demo_kzg [7, 8, 9]),
     proof_records := (\<lambda>_ _. default_proof_record)(5 := (\<lambda>_. default_proof_record)(8 :=
       default_proof_record\<lparr>pr_slashed := True\<rparr>))\<rparr>"

lemma demo_crowded_evicts: "\<exists>s'. evict_stale_holder 4 5 demo_crowded = Inr s'"
  by (simp add: evict_stale_holder_def demo_crowded_def demo_kzg_def genesis_storage_def Let_def
      compute_eviction_candidates_def)

lemma evict_removes_least_priority_witness:
  "\<exists>s'. evict_stale_holder 4 5 demo_crowded = Inr s' \<and> kzg_fragments s' 5 = Some (demo_kzg [7, 9])"
proof -
  obtain s' where s': "evict_stale_holder 4 5 demo_crowded = Inr s'" using demo_crowded_evicts ..
  have kf: "kzg_fragments demo_crowded 5 = Some (demo_kzg [7, 8, 9])" by (simp add: demo_crowded_def)
  have sl: "pr_slashed (proof_records demo_crowded 5 w) \<longleftrightarrow> w = 8" for w
    by (simp add: demo_crowded_def default_proof_record_def)
  show ?thesis
    using evict_removes_least_priority [OF s' kf] s' unfolding sl by (auto simp: demo_kzg_def)
qed

subsection \<open>Confirmed repairs\<close>

lemma confirm_repair_effect:
  assumes "confirm_repair cfg now who h i share proof s = Inr s'"
  obtains kf where "kzg_fragments s h = Some kf" "fs_kind (get_fragment_state s h) = AtRisk"
    "who \<notin> set (kf_holders kf)" "length (kf_holders kf) < max_kzg_holders"
    "operator_nodes s who \<noteq> None" "sc_verify_kzg cfg (kf_commitment kf) i share proof = Some True"
    "kzg_fragments s' = (kzg_fragments s)(h \<mapsto> kf\<lparr>kf_holders := kf_holders kf @ [who]\<rparr>)"
    "fs_kind (get_fragment_state s' h) = state_for_holders (length (kf_holders kf) + 1)"
    "repair_pools s' = (repair_pools s)(h := 0)"
    "pending_rewards s' = (pending_rewards s)(who := (if repair_pools s h = 0 then pending_rewards s who
       else sat_add u128_max (pending_rewards s who) (repair_pools s h)))"
    "pr_share_index (proof_records s' h who) = i"
proof -
  from assms obtain kf where facts: "kzg_fragments s h = Some kf" "fs_kind (get_fragment_state s h) = AtRisk"
      "who \<notin> set (kf_holders kf)" "length (kf_holders kf) < max_kzg_holders" "operator_nodes s who \<noteq> None"
      "sc_verify_kzg cfg (kf_commitment kf) i share proof = Some True"
    by (auto simp: confirm_repair_def result_simps Let_def)
  let ?kf = "kf\<lparr>kf_holders := kf_holders kf @ [who]\<rparr>"
  define s2 where "s2 = set_proof_record h who \<lparr>pr_last_proved_at = now, pr_success_count = 1,
      pr_failure_count = 0, pr_slashed = False, pr_share_index = i\<rparr> (s\<lparr>kzg_fragments := (kzg_fragments s)(h \<mapsto> ?kf)\<rparr>)"
  define s3 where "s3 = s2\<lparr>repair_pools := (repair_pools s2)(h := 0),
      pending_rewards := (if 0 < repair_pools s2 h
        then (pending_rewards s2)(who := sat_add u128_max (pending_rewards s2 who) (repair_pools s2 h))
        else pending_rewards s2)\<rparr>"
  have s': "s' = storage_deposit_event (RepairCompleted h who i) (update_fragment_state now h s3)"
    using assms facts(1) by (auto simp: confirm_repair_def result_simps Let_def s2_def s3_def)
  have kz: "kzg_fragments s3 = (kzg_fragments s)(h \<mapsto> ?kf)"
    by (simp add: s3_def s2_def set_proof_record_def)
  then have "kzg_fragments s3 h = Some ?kf" by simp
  from get_fragment_state_update [OF this, of now]
  have st: "fs_kind (get_fragment_state s' h) = state_for_holders (length (kf_holders kf) + 1)"
    by (simp add: s')
  show ?thesis
  proof (rule that [OF facts])
    show "kzg_fragments s' = (kzg_fragments s)(h \<mapsto> ?kf)"
      using kz by (simp add: s' storage_deposit_event_def)
    show "repair_pools s' = (repair_pools s)(h := 0)"
      by (simp add: s' storage_deposit_event_def s3_def s2_def set_proof_record_def)
    show "pending_rewards s' = (pending_rewards s)(who := (if repair_pools s h = 0 then pending_rewards s who
       else sat_add u128_max (pending_rewards s who) (repair_pools s h)))"
      by (simp add: s' storage_deposit_event_def s3_def s2_def set_proof_record_def)
    show "pr_share_index (proof_records s' h who) = i"
      by (simp add: s' storage_deposit_event_def s3_def s2_def set_proof_record_def)
  qed (rule st)
qed

text \<open>A repair is confirmed only for a registered node that is not yet a holder, on a fragment at
  risk, with a valid proof; it adds exactly that holder, moves the whole repair pool into its
  pending rewards, and leaves the fragment in the state its new number of holders calls for, which
  is never worse than before.
\<close>

theorem confirm_repair_spec:
  assumes "confirm_repair cfg now who h i share proof s = Inr s'" "kzg_fragments s h = Some kf"
    and "pending_rewards s who + repair_pools s h \<le> u128_max"
  shows "operator_nodes s who \<noteq> None \<and> fs_kind (get_fragment_state s h) = AtRisk
    \<and> sc_verify_kzg cfg (kf_commitment kf) i share proof = Some True
    \<and> who \<notin> set (kf_holders kf)
    \<and> kzg_fragments s' = (kzg_fragments s)(h \<mapsto> kf\<lparr>kf_holders := kf_holders kf @ [who]\<rparr>)
    \<and> length (kf_holders kf @ [who]) \<le> max_kzg_holders
    \<and> fs_kind (get_fragment_state s' h) = state_for_holders (length (kf_holders kf) + 1)
    \<and> state_for_holders (length (kf_holders kf)) \<le> fs_kind (get_fragment_state s' h)
    \<and> pending_rewards s' who = pending_rewards s who + repair_pools s h \<and> repair_pools s' h = 0"
  using assms(1)
proof (rule confirm_repair_effect)
  fix kf'
  assume kf': "kzg_fragments s h = Some kf'" and "length (kf_holders kf') < max_kzg_holders"
    "fs_kind (get_fragment_state s h) = AtRisk"
    "who \<notin> set (kf_holders kf')" "operator_nodes s who \<noteq> None"
    "sc_verify_kzg cfg (kf_commitment kf') i share proof = Some True"
    "kzg_fragments s' = (kzg_fragments s)(h \<mapsto> kf'\<lparr>kf_holders := kf_holders kf' @ [who]\<rparr>)"
    "fs_kind (get_fragment_state s' h) = state_for_holders (length (kf_holders kf') + 1)"
    "repair_pools s' = (repair_pools s)(h := 0)"
    "pending_rewards s' = (pending_rewards s)(who := (if repair_pools s h = 0 then pending_rewards s who
       else sat_add u128_max (pending_rewards s who) (repair_pools s h)))"
  moreover from kf' assms(2) have "kf' = kf" by simp
  ultimately show ?thesis
    using assms(3) state_for_holders_mono [of "length (kf_holders kf)" "length (kf_holders kf) + 1"]
    by (simp add: sat_add_exact)
qed

definition demo_at_risk :: storage_state where
  "demo_at_risk = (genesis_storage 0)\<lparr>kzg_fragments := (\<lambda>_. None)(5 \<mapsto> demo_kzg [1, 2, 3, 4]),
     fragment_states := (\<lambda>_. None)(5 \<mapsto> \<lparr>fs_kind = AtRisk, fs_changed_at = 1\<rparr>),
     operator_nodes := (\<lambda>_. None)(7 \<mapsto> [9]), repair_pools := (\<lambda>_. 0)(5 := 30)\<rparr>"

lemma confirm_repair_spec_witness:
  "\<exists>s'. confirm_repair demo_storage_config 6 7 5 6 (replicate 32 1) (replicate 48 1) demo_at_risk = Inr s'
    \<and> fs_kind (get_fragment_state s' 5) = Active \<and> pending_rewards s' 7 = 30"
proof -
  have "\<exists>s'. confirm_repair demo_storage_config 6 7 5 6 (replicate 32 1) (replicate 48 1) demo_at_risk = Inr s'"
    by (simp add: confirm_repair_def demo_at_risk_def demo_kzg_def genesis_storage_def demo_storage_config_def
        get_fragment_state_def max_kzg_holders_def Let_def)
  then obtain s' where s': "confirm_repair demo_storage_config 6 7 5 6 (replicate 32 1) (replicate 48 1) demo_at_risk = Inr s'" ..
  have "kzg_fragments demo_at_risk 5 = Some (demo_kzg [1, 2, 3, 4])" by (simp add: demo_at_risk_def)
  from confirm_repair_spec [OF s' this] show ?thesis
    using s' by (simp add: demo_at_risk_def genesis_storage_def u128_max_def demo_kzg_def state_for_holders_def)
qed

subsection \<open>What the pallet can reach\<close>

text \<open>
  A holder list starts empty, grows only in \<open>confirm_repair\<close>, which needs the fragment at risk,
  and a fragment's state changes only after a repair or an eviction. So none of it ever starts.
\<close>

definition kzg_dormant :: "storage_state \<Rightarrow> bool" where
  "kzg_dormant s \<longleftrightarrow> (\<forall>h kf. kzg_fragments s h = Some kf \<longrightarrow> kf_holders kf = [])
     \<and> fragment_states s = (\<lambda>_. None) \<and> pending_challenges s = (\<lambda>_. None) \<and> pending_rewards s = (\<lambda>_. 0)"

lemma kzg_dormantI:
  assumes "kzg_dormant s" "kzg_fragments s' = kzg_fragments s" "fragment_states s' = fragment_states s"
    "pending_challenges s' = pending_challenges s" "pending_rewards s' = pending_rewards s"
  shows "kzg_dormant s'"
  using assms by (simp add: kzg_dormant_def)

lemma kzg_dormant_disabled:
  assumes "kzg_dormant s"
  shows "issue_challenge cfg now who h v i s \<noteq> Inr s'"
    "prove_holding_kzg cfg now who h i share proof p s \<noteq> Inr s'"
    "confirm_repair cfg now who h i share proof s \<noteq> Inr s'"
    "evict_stale_holder now h s \<noteq> Inr s'"
    "claim_reward cfg who (s, p) \<noteq> Inr sp'"
proof -
  have kf: "kzg_fragments s h = Some kf \<Longrightarrow> kf_holders kf = []" for kf
    using assms by (simp add: kzg_dormant_def)
  show "issue_challenge cfg now who h v i s \<noteq> Inr s'"
    using kf by (auto simp: issue_challenge_def result_simps Let_def)
  show "prove_holding_kzg cfg now who h i share proof p s \<noteq> Inr s'"
    using assms by (auto simp: prove_holding_kzg_def result_simps Let_def kzg_dormant_def)
  show "confirm_repair cfg now who h i share proof s \<noteq> Inr s'"
    using assms by (auto simp: confirm_repair_def result_simps Let_def kzg_dormant_def get_fragment_state_def
        default_fragment_state_def)
  show "evict_stale_holder now h s \<noteq> Inr s'"
    using kf by (auto simp: evict_stale_holder_def result_simps)
  show "claim_reward cfg who (s, p) \<noteq> Inr sp'"
    using assms by (auto simp: claim_reward_def result_simps Let_def kzg_dormant_def)
qed

lemma kzg_dormant_op:
  assumes "storage_op cfg now (s, p) (s', p')" "kzg_dormant s"
  shows "kzg_dormant s'"
  using assms(1)
proof (cases rule: storage_op.cases)
  case (op_iface_kzg who h com n cnt thr)
  then show ?thesis
    using assms(2) by (auto simp: iface_register_kzg_fragment_def do_register_kzg_fragment_def result_simps
        kzg_dormant_def storage_deposit_event_def split: if_splits)
next
  case (op_release h)
  then show ?thesis
    using assms(2) by (auto simp: do_release_fragment_def Let_def kzg_dormant_def storage_deposit_event_def)
next
  case (op_declare who f)
  then show ?thesis
    by (auto simp: declare_holding_def result_simps Let_def storage_deposit_event_def split: if_splits
        intro: kzg_dormantI [OF assms(2)])
qed (use assms(2) in \<open>auto simp: kzg_dormant_disabled [OF assms(2)] register_fragment_def do_register_fragment_def do_deposit_to_reward_pool_def register_node_def
      validate_peer_id_def validate_capacity_def update_node_def unregister_node_def revoke_holding_def
      Let_def result_simps storage_deposit_event_def intro: kzg_dormantI [OF assms(2)]\<close>)

lemma kzg_dormant_finalize: "kzg_dormant s \<Longrightarrow> kzg_dormant (fst (storage_on_finalize cfg b (s, p)))"
proof -
  assume d: "kzg_dormant s"
  have "pending_challenges t = (\<lambda>_. None) \<Longrightarrow> fold (expire_challenge cfg) xs (t, p) = (t, p)" for xs t
    by (induction xs) (auto simp: expire_challenge_def split: prod.splits)
  then show ?thesis using d by (simp add: storage_on_finalize_def Let_def kzg_dormant_def)
qed

text \<open>C33: in every state reachable from genesis, through any sequence of dispatchables, calls from the
  other pallets and block ends, no KZG fragment has a holder and nothing is owed to anyone, so
  challenges, proofs, repairs, evictions and reward claims all fail.
\<close>

theorem kzg_machinery_unreachable:
  assumes "storage_reachable cfg now (s, p)"
  shows "(\<forall>h kf. kzg_fragments s h = Some kf \<longrightarrow> kf_holders kf = []) \<and> (\<forall>w. pending_rewards s w = 0)
    \<and> (\<forall>who h v i s'. issue_challenge cfg now who h v i s \<noteq> Inr s')
    \<and> (\<forall>who h i share proof s'. prove_holding_kzg cfg now who h i share proof p s \<noteq> Inr s')
    \<and> (\<forall>who h i share proof s'. confirm_repair cfg now who h i share proof s \<noteq> Inr s')
    \<and> (\<forall>h s'. evict_stale_holder now h s \<noteq> Inr s')
    \<and> (\<forall>who sp'. claim_reward cfg who (s, p) \<noteq> Inr sp')"
proof -
  from assms have "kzg_dormant (fst (s, p))"
  proof (induction rule: storage_reachable_induct)
    case (genesis pool p)
    then show ?case by (simp add: kzg_dormant_def genesis_storage_def)
  next
    case (op n s p s' p')
    then show ?case using kzg_dormant_op by (metis fst_conv)
  next
    case (block n s p)
    then show ?case using kzg_dormant_finalize by (metis fst_conv)
  qed
  then have d: "kzg_dormant s" by simp
  then show ?thesis by (simp add: kzg_dormant_disabled [OF d]) (simp add: kzg_dormant_def)
qed

lemma kzg_machinery_unreachable_witness:
  "storage_reachable demo_storage_config 0 (demo_fragment_state, ())
   \<and> (\<forall>who h v i s'. issue_challenge demo_storage_config 0 who h v i demo_fragment_state \<noteq> Inr s')"
  by (simp add: demo_fragment_reachable kzg_machinery_unreachable [OF demo_fragment_reachable])

end
