(* ===== verification/Storage_Challenges.thy ===== *)
theory Storage_Challenges
  imports Storage_Repair
begin

text \<open>
  Challenges, proofs, expiry, slashing and reward claims of the storage pallet. What slashing does
  to a bond is proved once for every stake provider, in the locale \<open>bond_info\<close>, and used through
  its interpretation on the staking pallet.
\<close>

subsection \<open>Claims\<close>

text \<open>A claim succeeds exactly when something is owed, it reaches the minimum, the pool is not
  empty and the mint succeeds; it then mints the smaller of the debt and the pool, and takes that
  amount from both; what the pool cannot cover stays owed, and nobody else's debt changes.
\<close>

theorem claim_reward_spec:
  "((\<exists>s' p'. claim_reward cfg who (s, p) = Inr (s', p')) \<longleftrightarrow>
      0 < pending_rewards s who \<and> sc_min_withdrawal cfg \<le> pending_rewards s who \<and> 0 < reward_pool s
      \<and> sc_mint_into cfg who (min (pending_rewards s who) (reward_pool s)) p \<noteq> None)
   \<and> (\<forall>s' p'. claim_reward cfg who (s, p) = Inr (s', p') \<longrightarrow>
      (let paid = min (pending_rewards s who) (reward_pool s) in
        sc_mint_into cfg who paid p = Some p' \<and> reward_pool s' + paid = reward_pool s
        \<and> pending_rewards s' who + paid = pending_rewards s who
        \<and> (\<forall>v. v \<noteq> who \<longrightarrow> pending_rewards s' v = pending_rewards s v)
        \<and> storage_events s' = storage_events s @ [RewardClaimed who paid]))"
  by (auto simp: claim_reward_def Let_def result_simps storage_deposit_event_def min_def split: if_splits)

definition demo_owed :: storage_state where
  "demo_owed = (genesis_storage 40)\<lparr>pending_rewards := (\<lambda>_. 0)(7 := 100)\<rparr>"

lemma claim_reward_spec_witness:
  "\<exists>s'. claim_reward demo_storage_config 7 (demo_owed, ()) = Inr (s', ()) \<and> reward_pool s' = 0
     \<and> pending_rewards s' 7 = 60"
proof -
  have "\<exists>s' p'. claim_reward demo_storage_config 7 (demo_owed, ()) = Inr (s', p')"
    unfolding conjunct1 [OF claim_reward_spec]
    by (simp add: demo_owed_def demo_storage_config_def genesis_storage_def)
  then obtain s' where s': "claim_reward demo_storage_config 7 (demo_owed, ()) = Inr (s', ())" by auto
  have "pending_rewards demo_owed 7 = 100" "reward_pool demo_owed = 40"
    by (simp_all add: demo_owed_def genesis_storage_def)
  then show ?thesis
    using conjunct2 [OF claim_reward_spec, rule_format, OF s'] s' by (auto simp: Let_def)
qed

subsection \<open>Slashing\<close>

context bond_info begin

text \<open>A slash of a node, for any stake provider that keeps the laws of \<open>BondInfo\<close>.\<close>

lemma slash_node_bond:
  assumes "do_slash_node cfg node h (s, p) = Inr (s', p')" "inv p"
    and "sc_bond_amount cfg = bond_amount" "sc_slash_bond cfg = slash_bond"
  shows "inv p' \<and> bond_amount p' node \<le> bond_amount p node
    \<and> bond_amount p node - bond_amount p' node \<le> bond_amount p node * sc_slash_rate_ppm cfg div 1000000
    \<and> (\<forall>v. v \<noteq> node \<longrightarrow> bond_amount p' v = bond_amount p v)
    \<and> (\<exists>r. bond_amount p' node + r = bond_amount p node \<and> active_bond p' + r = active_bond p
        \<and> storage_events s' = storage_events s @ [NodeSlashed h node (sat_add u128_max r (pending_rewards s node div 2))])"
proof -
  let ?a = "sat_mul u128_max (bond_amount p node) (sc_slash_rate_ppm cfg) div 1000000"
  have a: "?a \<le> bond_amount p node * sc_slash_rate_ppm cfg div 1000000"
    by (rule div_le_mono [OF sat_mul_le_prod])
  have ev: "storage_events s' = storage_events s @ [NodeSlashed h node (sat_add u128_max r (pending_rewards s node div 2))]"
    if "(r, p') = (if 0 < ?a then slash_bond node ?a p else (0, p))" for r
    using assms that by (auto simp: do_slash_node_def result_simps Let_def storage_deposit_event_def
        set_proof_record_def split: prod.splits if_splits)
  show ?thesis
  proof (cases "0 < ?a")
    case True
    obtain r q where sl: "slash_bond node ?a p = (r, q)" by fastforce
    have q: "q = p'"
      using assms(1,3,4) True sl by (auto simp: do_slash_node_def result_simps Let_def)
    note laws = slash_inv [OF assms(2) sl] slash_le_request [OF assms(2) sl] slash_amount [OF assms(2) sl]
      slash_other [OF assms(2) sl] slash_active [OF assms(2) sl]
    show ?thesis using laws a ev [of r] sl True unfolding q by auto
  next
    case False
    then have "p' = p"
      using assms(1,3,4) by (auto simp: do_slash_node_def result_simps Let_def)
    then show ?thesis using assms(2) ev [of 0] False by auto
  qed
qed

end

lemma do_slash_node_effect:
  assumes "do_slash_node cfg node h (s, p) = Inr (s', p')"
  shows "proof_records s' = (proof_records s)(h := (proof_records s h)(node := proof_records s h node\<lparr>pr_slashed := True\<rparr>))"
    "pending_rewards s' = (pending_rewards s)(node := pending_rewards s node - pending_rewards s node div 2)"
    "repair_pools s' = (repair_pools s)(h := sat_add u128_max (repair_pools s h) (pending_rewards s node div 2))"
    "pending_challenges s' = pending_challenges s" "challenges_by_deadline s' = challenges_by_deadline s"
    "kzg_fragments s' = kzg_fragments s" "\<not> pr_slashed (proof_records s h node)"
  using assms by (auto simp: do_slash_node_def result_simps Let_def storage_deposit_event_def
      set_proof_record_def split: prod.splits)

lemma do_slash_node_succeeds:
  "(\<exists>sp'. do_slash_node cfg node h (s, p) = Inr sp') \<longleftrightarrow> \<not> pr_slashed (proof_records s h node)"
  by (auto simp: do_slash_node_def result_simps Let_def split: prod.splits)

definition stake_wired :: "(stake_state \<times> 'c) storage_config \<Rightarrow> stake_config \<Rightarrow> 'c currency \<Rightarrow> bool" where
  "stake_wired cfg skc cur \<longleftrightarrow> sc_has_bond cfg = stake_has_bond \<and> sc_bond_amount cfg = stake_bond_amount
     \<and> sc_active_bond cfg = stake_active_bond \<and> sc_slash_bond cfg = do_slash_bond skc cur"

text \<open>With the staking pallet as provider, slashing a node keeps the staking invariant, takes at
  most the configured share of its bond and of nobody else's, moves half of its pending rewards
  into the fragment's repair pool without losing any, and can happen once per fragment: a second
  slash fails with \<open>AlreadySlashed\<close>.
\<close>

theorem slash_node_spec:
  assumes "do_slash_node cfg node h (s, p) = Inr (s', p')" "stake_wired cfg skc cur"
    and "stake_provider_inv skc cur p" "repair_pools s h + pending_rewards s node \<le> u128_max"
  shows "stake_provider_inv skc cur p'
    \<and> stake_bond_amount p' node \<le> stake_bond_amount p node
    \<and> stake_bond_amount p node - stake_bond_amount p' node
        \<le> stake_bond_amount p node * sc_slash_rate_ppm cfg div 1000000
    \<and> (\<forall>v. v \<noteq> node \<longrightarrow> stake_bond_amount p' v = stake_bond_amount p v)
    \<and> pending_rewards s' node + repair_pools s' h = pending_rewards s node + repair_pools s h
    \<and> repair_pools s' h = repair_pools s h + pending_rewards s node div 2
    \<and> do_slash_node cfg node h (s', p') = Inl (Err AlreadySlashed)"
proof -
  from assms(2) have w: "sc_bond_amount cfg = stake_bond_amount" "sc_slash_bond cfg = do_slash_bond skc cur"
    by (simp_all add: stake_wired_def)
  note bond = stake.slash_node_bond [OF assms(1,3) w]
  note eff = do_slash_node_effect [OF assms(1)]
  have pool: "repair_pools s' h = repair_pools s h + pending_rewards s node div 2"
    using assms(4) by (simp add: eff(3)) (rule sat_add_exact, linarith)
  moreover have "pending_rewards s' node + pending_rewards s node div 2 = pending_rewards s node"
    by (simp add: eff(2))
  moreover have "do_slash_node cfg node h (s', p') = Inl (Err AlreadySlashed)"
    by (simp add: do_slash_node_def eff(1))
  ultimately show ?thesis using bond by simp
qed

definition demo_wired_config :: "(stake_state \<times> ledger) storage_config" where
  "demo_wired_config = \<lparr>sc_max_fragment_size = 1000, sc_max_peer_id_len = 4, sc_max_holders = 2,
     sc_max_fragments_per_node = 2, sc_min_peer_id_len = 1, sc_max_registrations = 3,
     sc_max_declarations = 3, sc_min_capacity = 10, sc_pow_period = 0, sc_base_pow_difficulty = 0,
     sc_reward_per_byte = 1, sc_score_threshold = 100, sc_score_margin = 10, sc_max_challenges = 5,
     sc_min_withdrawal = 10, sc_pool_target = 1000, sc_slash_rate_ppm = 500000,
     sc_has_bond = stake_has_bond, sc_bond_amount = stake_bond_amount, sc_active_bond = stake_active_bond,
     sc_slash_bond = do_slash_bond demo_stake_config ledger_currency, sc_mint_into = \<lambda>_ _ p. Some p,
     sc_blake2_256 = \<lambda>_. replicate 32 0, sc_verify_kzg = \<lambda>_ _ _ _. Some True\<rparr>"

lemma slash_node_spec_witness:
  "\<exists>s' p'. do_slash_node demo_wired_config 7 5 (demo_owed, (demo_stake, ledger_of 7 30 20)) = Inr (s', p')
     \<and> repair_pools s' 5 = 50 \<and> pending_rewards s' 7 = 50
     \<and> do_slash_node demo_wired_config 7 5 (s', p') = Inl (Err AlreadySlashed)"
proof -
  have "\<exists>sp'. do_slash_node demo_wired_config 7 5 (demo_owed, (demo_stake, ledger_of 7 30 20)) = Inr sp'"
    unfolding do_slash_node_succeeds by (simp add: demo_owed_def genesis_storage_def default_proof_record_def)
  then obtain s' p' where s': "do_slash_node demo_wired_config 7 5 (demo_owed, (demo_stake, ledger_of 7 30 20)) = Inr (s', p')"
    by auto
  have wired: "stake_wired demo_wired_config demo_stake_config ledger_currency"
    by (simp add: stake_wired_def demo_wired_config_def)
  have inv: "stake_provider_inv demo_stake_config ledger_currency (demo_stake, ledger_of 7 30 20)"
    unfolding stake_provider_inv_def
    using stake_inv_single [of "\<lparr>bd_amount = 20, bd_capacity = 2000000000, bd_bonded_at = 5,
       bd_release_requested_at = None\<rparr>" 20 30 7 "[Bonded 7 20 2000000000]"]
    by (simp add: ledger_currency_laws floor_permill_law demo_stake_config_def demo_stake_def u128_max_def)
  have vals: "repair_pools demo_owed 5 = 0" "pending_rewards demo_owed 7 = 100"
    by (simp_all add: demo_owed_def genesis_storage_def)
  show ?thesis
    using slash_node_spec [OF s' wired inv] s' vals by (auto simp: u128_max_def)
qed

subsection \<open>Expiry\<close>

definition challenged :: "storage_state \<Rightarrow> hash256 \<Rightarrow> nat \<Rightarrow> account_id \<Rightarrow> bool" where
  "challenged s h i w \<longleftrightarrow> (case pending_challenges s (h, i) of None \<Rightarrow> False | Some ch \<Rightarrow> ch_node ch = w)"

text \<open>The share indices of a fragment on which a list of index entries expires a node's challenge.\<close>

definition expired_shares :: "storage_state \<Rightarrow> (hash256 \<times> nat) list \<Rightarrow> hash256 \<Rightarrow> account_id \<Rightarrow> nat set" where
  "expired_shares s xs h w = {i. (h, i) \<in> set xs \<and> challenged s h i w}"

lemma finite_expired_shares [simp]: "finite (expired_shares s xs h w)"
proof -
  have "expired_shares s xs h w \<subseteq> snd ` set xs" by (force simp: expired_shares_def)
  then show ?thesis by (rule finite_subset) simp
qed

lemma expire_challenge_effect:
  assumes "expire_challenge cfg (g, j) (s, p) = (s', p')"
  shows "pending_challenges s' = (pending_challenges s)((g, j) := None)"
    and "pr_failure_count (proof_records s' h w) =
      (if h = g \<and> challenged s g j w then sat_add u32_max (pr_failure_count (proof_records s h w)) 1
       else pr_failure_count (proof_records s h w))"
    and "pr_slashed (proof_records s' h w) \<longleftrightarrow> pr_slashed (proof_records s h w)
      \<or> (h = g \<and> challenged s g j w \<and> 3 \<le> pr_failure_count (proof_records s' h w))"
proof -
  have "pending_challenges s' = (pending_challenges s)((g, j) := None)
    \<and> (pr_failure_count (proof_records s' h w) =
      (if h = g \<and> challenged s g j w then sat_add u32_max (pr_failure_count (proof_records s h w)) 1
       else pr_failure_count (proof_records s h w)))
    \<and> (pr_slashed (proof_records s' h w) \<longleftrightarrow> pr_slashed (proof_records s h w)
      \<or> (h = g \<and> challenged s g j w \<and> 3 \<le> pr_failure_count (proof_records s' h w)))"
  proof (cases "pending_challenges s (g, j)")
    case None
    then show ?thesis using assms by (auto simp: expire_challenge_def challenged_def fun_eq_iff)
  next
    case (Some ch)
    let ?n = "ch_node ch"
    let ?r = "(proof_records s g ?n)\<lparr>pr_failure_count := sat_add u32_max (pr_failure_count (proof_records s g ?n)) 1\<rparr>"
    define s2 where "s2 = storage_deposit_event (ChallengeExpired g j ?n) (set_proof_record g ?n ?r
       (s\<lparr>pending_challenges := (pending_challenges s)((g, j) := None)\<rparr>))"
    have s2: "pending_challenges s2 = (pending_challenges s)((g, j) := None)"
      "proof_records s2 = (proof_records s)(g := (proof_records s g)(?n := ?r))"
      by (simp_all add: s2_def storage_deposit_event_def set_proof_record_def)
    have ch: "challenged s g j w \<longleftrightarrow> w = ?n" by (auto simp: challenged_def Some)
    show ?thesis
    proof (cases "3 \<le> pr_failure_count ?r \<and> \<not> pr_slashed ?r")
      case True
      then have "\<exists>sp'. do_slash_node cfg ?n g (s2, p) = Inr sp'"
        unfolding do_slash_node_succeeds by (simp add: s2)
      then have sl: "do_slash_node cfg ?n g (s2, p) = Inr (s', p')"
        using assms True by (auto simp: expire_challenge_def Some Let_def s2_def)
      show ?thesis
        using True by (auto simp: do_slash_node_effect [OF sl] s2 ch)
    next
      case False
      then have "s' = s2" using assms by (auto simp: expire_challenge_def Some Let_def s2_def)
      then show ?thesis using False by (auto simp: s2 ch)
    qed
  qed
  then show "pending_challenges s' = (pending_challenges s)((g, j) := None)"
    and "pr_failure_count (proof_records s' h w) =
      (if h = g \<and> challenged s g j w then sat_add u32_max (pr_failure_count (proof_records s h w)) 1
       else pr_failure_count (proof_records s h w))"
    and "pr_slashed (proof_records s' h w) \<longleftrightarrow> pr_slashed (proof_records s h w)
      \<or> (h = g \<and> challenged s g j w \<and> 3 \<le> pr_failure_count (proof_records s' h w))"
    by blast+
qed

lemma expired_shares_step:
  assumes "pending_challenges s1 = (pending_challenges s)((g, j) := None)"
  shows "expired_shares s ((g, j) # xs) h w =
      (if h = g \<and> challenged s g j w then insert j (expired_shares s1 xs h w) else expired_shares s1 xs h w)"
    and "h = g \<Longrightarrow> j \<notin> expired_shares s1 xs h w"
  using assms by (auto simp: expired_shares_def challenged_def)

lemma expire_all_effect:
  assumes "fold (expire_challenge cfg) xs (s, p) = (s', p')"
  shows "pending_challenges s' hi = (if hi \<in> set xs then None else pending_challenges s hi)
    \<and> pr_failure_count (proof_records s' h w) = (if expired_shares s xs h w = {} then pr_failure_count (proof_records s h w)
         else sat_add u32_max (pr_failure_count (proof_records s h w)) (card (expired_shares s xs h w)))
    \<and> (pr_slashed (proof_records s' h w) \<longleftrightarrow> pr_slashed (proof_records s h w)
         \<or> (expired_shares s xs h w \<noteq> {} \<and> 3 \<le> pr_failure_count (proof_records s' h w)))"
  using assms
proof (induction xs arbitrary: s p)
  case Nil
  then show ?case by (simp add: expired_shares_def)
next
  case (Cons x xs)
  obtain g j where x: "x = (g, j)" by fastforce
  obtain s1 p1 where s1: "expire_challenge cfg (g, j) (s, p) = (s1, p1)" by fastforce
  note eff = expire_challenge_effect [OF s1]
  have rest: "fold (expire_challenge cfg) xs (s1, p1) = (s', p')" using Cons.prems by (simp add: x s1)
  note IH = Cons.IH [OF rest]
  note step = expired_shares_step [OF eff(1), where xs = xs and h = h and w = w]
  have pend: "pending_challenges s' hi = (if hi \<in> set (x # xs) then None else pending_challenges s hi)"
    using IH by (simp add: eff(1) x)
  show ?case
  proof (cases "h = g \<and> challenged s g j w")
    case hit: True
    have c: "card (expired_shares s (x # xs) h w) = Suc (card (expired_shares s1 xs h w))"
      using hit step by (simp add: x)
    have n: "expired_shares s (x # xs) h w \<noteq> {}" using hit step by (simp add: x)
    show ?thesis
    proof (cases "expired_shares s1 xs h w = {}")
      case True
      then show ?thesis using IH pend n c hit eff(2,3) [of h w] by simp
    next
      case False
      then show ?thesis using IH pend n c hit eff(2,3) [of h w] by (auto simp: sat_add_def)
    qed
  next
    case False
    then have "expired_shares s (x # xs) h w = expired_shares s1 xs h w" unfolding x step(1) by (rule if_not_P)
    moreover have "pr_failure_count (proof_records s1 h w) = pr_failure_count (proof_records s h w)"
      "pr_slashed (proof_records s1 h w) = pr_slashed (proof_records s h w)"
      using False eff(2,3) [of h w] by auto
    ultimately show ?thesis using IH pend by simp
  qed
qed

lemma expire_challenge_frame:
  "registration_count (fst (expire_challenge cfg hi sp)) = registration_count (fst sp)"
  "declaration_count (fst (expire_challenge cfg hi sp)) = declaration_count (fst sp)"
  "challenge_count (fst (expire_challenge cfg hi sp)) = challenge_count (fst sp)"
  "challenges_by_deadline (fst (expire_challenge cfg hi sp)) = challenges_by_deadline (fst sp)"
  by (auto simp: expire_challenge_def do_slash_node_def ensure_def Let_def storage_deposit_event_def
      set_proof_record_def split: prod.splits option.splits sum.splits)

lemma expire_all_frame:
  "registration_count (fst (fold (expire_challenge cfg) xs sp)) = registration_count (fst sp)"
  "declaration_count (fst (fold (expire_challenge cfg) xs sp)) = declaration_count (fst sp)"
  "challenge_count (fst (fold (expire_challenge cfg) xs sp)) = challenge_count (fst sp)"
  "challenges_by_deadline (fst (fold (expire_challenge cfg) xs sp)) = challenges_by_deadline (fst sp)"
  by (induction xs arbitrary: sp) (simp_all add: expire_challenge_frame)

lemma finalize_folds:
  assumes "storage_on_finalize cfg block (s, p) = (s', p')"
  shows "\<exists>s1. fold (expire_challenge cfg) (challenges_by_deadline s block) (s1, p) = (s', p')
    \<and> pending_challenges s1 = pending_challenges s \<and> proof_records s1 = proof_records s
    \<and> expired_shares s1 = expired_shares s
    \<and> registration_count s1 block = 0 \<and> declaration_count s1 block = (\<lambda>_. 0)
    \<and> challenge_count s1 block = (\<lambda>_. 0) \<and> challenges_by_deadline s1 block = []"
proof -
  let ?s1 = "s\<lparr>registration_count := (registration_count s)(block := 0),
                declaration_count := (declaration_count s)(block := \<lambda>_. 0),
                challenge_count := (challenge_count s)(block := \<lambda>_. 0),
                challenges_by_deadline := (challenges_by_deadline s)(block := [])\<rparr>"
  have "expired_shares ?s1 = expired_shares s"
    by (intro ext) (simp add: expired_shares_def challenged_def)
  moreover have "fold (expire_challenge cfg) (challenges_by_deadline s block) (?s1, p) = (s', p')"
    using assms by (simp add: storage_on_finalize_def Let_def)
  ultimately show ?thesis by (intro exI [of _ ?s1]) simp
qed

text \<open>The end of a block forgets exactly the challenges indexed under it, counts each one that was
  still open as one failure of the challenged node, marks a node slashed exactly when such a failure
  brings it to three or more, and resets the three rate-limit counters of the block.
\<close>

theorem finalize_expires_challenges:
  assumes "storage_on_finalize cfg block (s, p) = (s', p')"
  shows "(\<forall>hi. pending_challenges s' hi = (if hi \<in> set (challenges_by_deadline s block) then None else pending_challenges s hi))
    \<and> (let late = expired_shares s (challenges_by_deadline s block) h w;
           failures = pr_failure_count (proof_records s h w) in
        pr_failure_count (proof_records s' h w) =
          (if late = {} then failures else sat_add u32_max failures (card late))
        \<and> (pr_slashed (proof_records s' h w) \<longleftrightarrow> pr_slashed (proof_records s h w)
             \<or> (late \<noteq> {} \<and> 3 \<le> pr_failure_count (proof_records s' h w))))
    \<and> registration_count s' block = 0 \<and> declaration_count s' block = (\<lambda>_. 0)
    \<and> challenge_count s' block = (\<lambda>_. 0) \<and> challenges_by_deadline s' block = []"
proof -
  let ?xs = "challenges_by_deadline s block"
  from finalize_folds [OF assms] obtain s1 where f: "fold (expire_challenge cfg) ?xs (s1, p) = (s', p')"
    and s1: "pending_challenges s1 = pending_challenges s" "proof_records s1 = proof_records s"
      "expired_shares s1 = expired_shares s" "registration_count s1 block = 0"
      "declaration_count s1 block = (\<lambda>_. 0)" "challenge_count s1 block = (\<lambda>_. 0)"
      "challenges_by_deadline s1 block = []" by blast
  have "registration_count s' = registration_count s1" "declaration_count s' = declaration_count s1"
    "challenge_count s' = challenge_count s1" "challenges_by_deadline s' = challenges_by_deadline s1"
    using expire_all_frame [of cfg ?xs "(s1, p)"] by (simp_all add: f)
  then show ?thesis
    using expire_all_effect [OF f, where h = h and w = w] unfolding Let_def by (simp add: s1)
qed

definition demo_due :: storage_state where
  "demo_due = (genesis_storage 40)\<lparr>challenges_by_deadline := (\<lambda>_. [])(110 := [(5, 1)]),
     pending_challenges := (\<lambda>_. None)((5, 1) \<mapsto> \<lparr>ch_content_hash = 5, ch_share_index = 1, ch_node = 7,
       ch_issued_at = 10, ch_deadline = 110\<rparr>)\<rparr>"

lemma demo_due_late: "expired_shares demo_due (challenges_by_deadline demo_due 110) 5 7 = {1}"
  by (auto simp: expired_shares_def challenged_def demo_due_def genesis_storage_def)

lemma finalize_expires_challenges_witness:
  "\<exists>s' p'. storage_on_finalize demo_storage_config 110 (demo_due, ()) = (s', p')
     \<and> pending_challenges s' (5, 1) = None \<and> pr_failure_count (proof_records s' 5 7) = 1"
proof -
  obtain s' p' where f: "storage_on_finalize demo_storage_config 110 (demo_due, ()) = (s', p')"
    by (metis surj_pair)
  have "challenges_by_deadline demo_due 110 = [(5, 1)]" "pr_failure_count (proof_records demo_due 5 7) = 0"
    by (simp_all add: demo_due_def genesis_storage_def default_proof_record_def)
  then show ?thesis
    using finalize_expires_challenges [OF f, of 5 7] f demo_due_late
    by (simp add: Let_def sat_add_def u32_max_def)
qed

subsection \<open>Proofs\<close>

lemma settle_proof_reward_frame [simp]:
  "pending_challenges (settle_proof_reward cfg now w h score r s) = pending_challenges s"
  "proof_records (settle_proof_reward cfg now w h score r s) = proof_records s"
  "reward_pool (settle_proof_reward cfg now w h score r s) = reward_pool s"
  "challenges_by_deadline (settle_proof_reward cfg now w h score r s) = challenges_by_deadline s"
  "kzg_fragments (settle_proof_reward cfg now w h score r s) = kzg_fragments s"
  "pending_rewards (settle_proof_reward cfg now w h score r s) = (if r = 0 then pending_rewards s
     else (pending_rewards s)(w := sat_add u128_max (pending_rewards s w) r))"
  by (simp_all add: settle_proof_reward_def Let_def storage_deposit_event_def)

lemma prove_holding_effect:
  assumes "prove_holding_kzg cfg now prover h i share proof p s = Inr s'"
  obtains ch kf reward where "pending_challenges s (h, i) = Some ch" "ch_node ch = prover"
    "kzg_fragments s h = Some kf" "prover \<in> set (kf_holders kf)" "1 \<le> i" "i \<le> kf_fragment_count kf"
    "sc_verify_kzg cfg (kf_commitment kf) i share proof = Some True"
    "calculate_reward_v3 (kf_data_size kf) (sc_reward_per_byte cfg)
       (case score_cache s h of None \<Rightarrow> 1000 | Some v \<Rightarrow> v) (sc_score_threshold cfg) (reward_pool s)
       (sc_pool_target cfg) (sc_bond_amount cfg p prover) (sc_active_bond cfg p) = Some reward"
    "pending_challenges s' = (pending_challenges s)((h, i) := None)"
    "challenges_by_deadline s' = challenges_by_deadline s" "kzg_fragments s' = kzg_fragments s"
    "reward_pool s' = reward_pool s"
    "pending_rewards s' = (if reward = 0 then pending_rewards s
       else (pending_rewards s)(prover := sat_add u128_max (pending_rewards s prover) reward))"
    "proof_records s' h prover = (proof_records s h prover)\<lparr>pr_last_proved_at := now,
       pr_success_count := sat_add u32_max (pr_success_count (proof_records s h prover)) 1, pr_failure_count := 0\<rparr>"
  using assms that
  by (auto simp: prove_holding_kzg_def result_simps Let_def storage_deposit_event_def set_proof_record_def)

text \<open>C32: an accepted proof answers an open challenge to its submitter, who is a holder, with a valid
  proof for a share of the fragment; it closes the challenge, resets the failures, credits exactly
  the computed reward (the pool is only drawn when claiming), and cannot be replayed: the same share
  needs a new challenge, and the prover cannot prove the fragment again in the same block.
\<close>

theorem prove_holding_spec:
  assumes "prove_holding_kzg cfg now prover h i share proof p s = Inr s'"
  shows "(\<exists>ch kf reward. pending_challenges s (h, i) = Some ch \<and> ch_node ch = prover
      \<and> kzg_fragments s h = Some kf \<and> prover \<in> set (kf_holders kf) \<and> 1 \<le> i \<and> i \<le> kf_fragment_count kf
      \<and> sc_verify_kzg cfg (kf_commitment kf) i share proof = Some True
      \<and> calculate_reward_v3 (kf_data_size kf) (sc_reward_per_byte cfg)
          (case score_cache s h of None \<Rightarrow> 1000 | Some v \<Rightarrow> v) (sc_score_threshold cfg) (reward_pool s)
          (sc_pool_target cfg) (sc_bond_amount cfg p prover) (sc_active_bond cfg p) = Some reward
      \<and> pending_rewards s' prover = (if reward = 0 then pending_rewards s prover
            else sat_add u128_max (pending_rewards s prover) reward))
    \<and> reward_pool s' = reward_pool s
    \<and> pr_failure_count (proof_records s' h prover) = 0
    \<and> (\<forall>now' who share' proof' q. prove_holding_kzg cfg now' who h i share' proof' q s' = Inl (Err NotChallenged))
    \<and> (\<forall>j share' proof' q t. prove_holding_kzg cfg now prover h j share' proof' q s' \<noteq> Inr t)"
  using assms
proof (rule prove_holding_effect)
  fix ch kf reward
  assume a: "pending_challenges s (h, i) = Some ch" "ch_node ch = prover"
    "kzg_fragments s h = Some kf" "prover \<in> set (kf_holders kf)" "1 \<le> i" "i \<le> kf_fragment_count kf"
    "sc_verify_kzg cfg (kf_commitment kf) i share proof = Some True"
    "calculate_reward_v3 (kf_data_size kf) (sc_reward_per_byte cfg)
       (case score_cache s h of None \<Rightarrow> 1000 | Some v \<Rightarrow> v) (sc_score_threshold cfg) (reward_pool s)
       (sc_pool_target cfg) (sc_bond_amount cfg p prover) (sc_active_bond cfg p) = Some reward"
    "pending_challenges s' = (pending_challenges s)((h, i) := None)" "reward_pool s' = reward_pool s"
    "pending_rewards s' = (if reward = 0 then pending_rewards s
       else (pending_rewards s)(prover := sat_add u128_max (pending_rewards s prover) reward))"
    "proof_records s' h prover = (proof_records s h prover)\<lparr>pr_last_proved_at := now,
       pr_success_count := sat_add u32_max (pr_success_count (proof_records s h prover)) 1, pr_failure_count := 0\<rparr>"
  have "prove_holding_kzg cfg now' who h i share' proof' q s' = Inl (Err NotChallenged)" for now' who share' proof' q
    by (simp add: prove_holding_kzg_def a)
  moreover have "prove_holding_kzg cfg now prover h j share' proof' q s' \<noteq> Inr t" for j share' proof' q t
    using a(12) by (auto simp: prove_holding_kzg_def result_simps)
  ultimately show ?thesis using a by simp
qed

definition demo_challenged :: storage_state where
  "demo_challenged = (genesis_storage 1000)\<lparr>kzg_fragments := (\<lambda>_. None)(5 \<mapsto> demo_kzg [7]),
     operator_nodes := (\<lambda>_. None)(3 \<mapsto> [9])\<rparr>"

definition demo_challenged1 :: storage_state where
  "demo_challenged1 = (case issue_challenge demo_storage_config 10 3 5 7 1 demo_challenged of Inr s \<Rightarrow> s | _ \<Rightarrow> demo_challenged)"

lemma demo_issue: "issue_challenge demo_storage_config 10 3 5 7 1 demo_challenged = Inr demo_challenged1"
  by (simp add: demo_challenged1_def issue_challenge_def demo_challenged_def demo_storage_config_def
      genesis_storage_def demo_kzg_def Let_def)

lemma demo_prove: "\<exists>s'. prove_holding_kzg demo_storage_config 20 7 5 1 (replicate 32 1) (replicate 48 1) () demo_challenged1 = Inr s'"
  by (simp add: demo_challenged1_def issue_challenge_def demo_challenged_def demo_storage_config_def
      genesis_storage_def demo_kzg_def prove_holding_kzg_def storage_deposit_event_def default_proof_record_def
      reward_v3_cases Let_def)

lemma prove_holding_spec_witness:
  "\<exists>s'. prove_holding_kzg demo_storage_config 20 7 5 1 (replicate 32 1) (replicate 48 1) () demo_challenged1 = Inr s'
     \<and> prove_holding_kzg demo_storage_config 21 7 5 1 (replicate 32 1) (replicate 48 1) () s' = Inl (Err NotChallenged)"
  using demo_prove prove_holding_spec by metis

subsection \<open>Stale deadlines\<close>

lemma issue_challenge_effect:
  assumes "issue_challenge cfg now issuer h v i s = Inr s'"
  shows "pending_challenges s' (h, i) = Some \<lparr>ch_content_hash = h, ch_share_index = i, ch_node = v,
      ch_issued_at = now, ch_deadline = sat_add u32_max now 100\<rparr>"
    and "challenges_by_deadline s' = (challenges_by_deadline s)(sat_add u32_max now 100 :=
      challenges_by_deadline s (sat_add u32_max now 100) @ [(h, i)])"
  using assms by (auto simp: issue_challenge_def result_simps Let_def storage_deposit_event_def)

text \<open>Answering a challenge leaves its entry in the deadline index. When the same share is
  challenged again before the first deadline, the new challenge is dropped at the end of the
  block of the old deadline, before its own, and counted as a failure of the node.
\<close>

theorem reissued_challenge_expires_early:
  assumes "issue_challenge cfg t1 a h v i s0 = Inr s1"
    and "prove_holding_kzg cfg t2 v h i share proof p s1 = Inr s2"
    and "issue_challenge cfg t3 b h v i s2 = Inr s3"
    and "t1 < t3" "t3 < t1 + 100" "t3 + 100 \<le> u32_max"
    and "storage_on_finalize cfg (t1 + 100) (s3, q) = (s4, q')"
  shows "\<exists>ch. pending_challenges s3 (h, i) = Some ch \<and> ch_node ch = v \<and> t1 + 100 < ch_deadline ch
    \<and> pending_challenges s4 (h, i) = None \<and> 1 \<le> pr_failure_count (proof_records s4 h v)"
proof -
  have d: "sat_add u32_max t1 100 = t1 + 100" "sat_add u32_max t3 100 = t3 + 100"
    using assms(4,6) by (simp_all add: sat_add_exact)
  have "challenges_by_deadline s2 = challenges_by_deadline s1"
    using assms(2) by (rule prove_holding_effect)
  then have idx: "(h, i) \<in> set (challenges_by_deadline s3 (t1 + 100))"
    using assms(4) by (simp add: issue_challenge_effect(2) [OF assms(3)] issue_challenge_effect(2) [OF assms(1)] d)
  note ch = issue_challenge_effect(1) [OF assms(3)]
  then have "i \<in> expired_shares s3 (challenges_by_deadline s3 (t1 + 100)) h v"
    using idx by (simp add: expired_shares_def challenged_def)
  then have ne: "expired_shares s3 (challenges_by_deadline s3 (t1 + 100)) h v \<noteq> {}"
      "card (expired_shares s3 (challenges_by_deadline s3 (t1 + 100)) h v) \<noteq> 0" by auto
  let ?xs = "challenges_by_deadline s3 (t1 + 100)"
  from finalize_folds [OF assms(7)] obtain s1' where f: "fold (expire_challenge cfg) ?xs (s1', q) = (s4, q')"
    and s1': "pending_challenges s1' = pending_challenges s3" "expired_shares s1' = expired_shares s3" by blast
  have "1 \<le> sat_add u32_max n k" if "0 < k" for n k
    using that by (simp add: sat_add_def u32_max_def)
  then have "1 \<le> sat_add u32_max n (card (expired_shares s3 ?xs h v))" for n
    using ne(2) by blast
  then have "pending_challenges s4 (h, i) = None \<and> 1 \<le> pr_failure_count (proof_records s4 h v)"
    using expire_all_effect [OF f, where h = h and w = v and hi = "(h, i)"] idx ne(1) by (simp only: s1' if_True if_False simp_thms)
  then show ?thesis using ch assms(4) by (simp add: d)
qed

definition demo_challenged2 :: storage_state where
  "demo_challenged2 = (case prove_holding_kzg demo_storage_config 20 7 5 1 (replicate 32 1) (replicate 48 1) () demo_challenged1
     of Inr s \<Rightarrow> s | _ \<Rightarrow> demo_challenged1)"

lemma demo_prove2: "prove_holding_kzg demo_storage_config 20 7 5 1 (replicate 32 1) (replicate 48 1) () demo_challenged1 = Inr demo_challenged2"
  using demo_prove by (auto simp: demo_challenged2_def)

lemma demo_reissue: "\<exists>s3. issue_challenge demo_storage_config 50 3 5 7 1 demo_challenged2 = Inr s3"
proof -
  have "operator_nodes demo_challenged2 3 = Some [9]" "challenge_count demo_challenged2 50 = (\<lambda>_. 0)"
    "kzg_fragments demo_challenged2 5 = Some (demo_kzg [7])" "pending_challenges demo_challenged2 (5, 1) = None"
    "challenges_by_deadline demo_challenged2 150 = []"
    by (simp_all add: demo_challenged2_def demo_challenged1_def issue_challenge_def demo_challenged_def demo_storage_config_def
      genesis_storage_def demo_kzg_def prove_holding_kzg_def storage_deposit_event_def default_proof_record_def
      reward_v3_cases Let_def settle_proof_reward_def set_proof_record_def sat_add_def u32_max_def)
  then show ?thesis
    by (simp add: issue_challenge_def demo_storage_config_def demo_kzg_def Let_def sat_add_def u32_max_def)
qed

lemma reissued_challenge_expires_early_witness:
  "\<exists>s3 s4 q'. issue_challenge demo_storage_config 50 3 5 7 1 demo_challenged2 = Inr s3
     \<and> storage_on_finalize demo_storage_config 110 (s3, ()) = (s4, q')
     \<and> pending_challenges s3 (5, 1) \<noteq> None \<and> pending_challenges s4 (5, 1) = None"
proof -
  obtain s3 where s3: "issue_challenge demo_storage_config 50 3 5 7 1 demo_challenged2 = Inr s3"
    using demo_reissue ..
  obtain s4 q' where s4: "storage_on_finalize demo_storage_config (10 + 100) (s3, ()) = (s4, q')"
    by (metis surj_pair)
  show ?thesis
    using reissued_challenge_expires_early [OF demo_issue demo_prove2 s3 _ _ _ s4] s3 s4
    by (auto simp: u32_max_def)
qed

subsection \<open>What releasing a fragment leaves behind\<close>

text \<open>Releasing a fragment drops its metadata, holders, records, forgetting mark, state and score,
  reports it exactly when something was stored, and does nothing visible when repeated; but it keeps
  the fragment's open challenges and its repair pool.
\<close>

theorem release_fragment_spec:
  "let s' = do_release_fragment h s in
     fragments s' h = None \<and> kzg_fragments s' h = None \<and> fragment_holders s' h = []
     \<and> (\<forall>w. proof_records s' h w = default_proof_record) \<and> forgetting_candidates s' h = None
     \<and> fragment_states s' h = None \<and> score_cache s' h = None
     \<and> (storage_events s' = storage_events s @ [ForgottenByPolicy h] \<or> storage_events s' = storage_events s)
     \<and> do_release_fragment h s' = s'
     \<and> pending_challenges s' = pending_challenges s \<and> repair_pools s' = repair_pools s"
proof -
  let ?s = "do_release_fragment h s"
  have "fragments ?s h = None" "kzg_fragments ?s h = None" "fragment_holders ?s h = []"
    "forgetting_candidates ?s h = None" "fragment_states ?s h = None" "score_cache ?s h = None"
    "proof_records ?s h = (\<lambda>_. default_proof_record)"
    by (simp_all add: do_release_fragment_def Let_def storage_deposit_event_def)
  moreover from this have "do_release_fragment h ?s = ?s"
    by (simp add: do_release_fragment_def [of h ?s] Let_def fun_upd_idem)
  moreover have "storage_events ?s = storage_events s @ [ForgottenByPolicy h] \<or> storage_events ?s = storage_events s"
    "pending_challenges ?s = pending_challenges s" "repair_pools ?s = repair_pools s"
    by (simp_all add: do_release_fragment_def Let_def storage_deposit_event_def)
  ultimately show ?thesis by (simp add: Let_def)
qed

end
