(* ===== verification/Base_Fee.thy ===== *)
theory Base_Fee
  imports Prelude
begin

text \<open>
  \<open>pallets/base_fee/src/lib.rs\<close>: the fee per byte and its adjustment at the end of a block. The
  trait \<open>BaseFeeProvider\<close>, through which \<open>pallet_post\<close> and \<open>pallet_messaging\<close> read the fee and
  report the bytes they use, is the locale \<open>base_fee_provider\<close>; the pallet and the unit
  implementation interpret it.
\<close>

subsection \<open>The interface BaseFeeProvider\<close>

locale base_fee_provider =
  fixes current_fee :: "'s \<Rightarrow> nat" and record_gas :: "nat \<Rightarrow> 's \<Rightarrow> 's" and inv :: "'s \<Rightarrow> bool"
  assumes fee_u128: "inv s \<Longrightarrow> current_fee s \<le> u128_max"
    and record_inv: "inv s \<Longrightarrow> inv (record_gas n s)"
    and record_fee: "current_fee (record_gas n s) = current_fee s"
begin

text \<open>What a user pays for a payload does not depend on the gas recorded before in the block.\<close>

definition payload_fee :: "nat \<Rightarrow> 's \<Rightarrow> nat" where
  "payload_fee n s = sat_mul u128_max (current_fee s) n"

lemma payload_fee_record: "payload_fee n (fold record_gas ns s) = payload_fee n s"
  by (induction ns arbitrary: s) (simp_all add: payload_fee_def record_fee)

lemma payload_fee_mono: "n \<le> m \<Longrightarrow> payload_fee n s \<le> payload_fee m s"
  by (simp add: payload_fee_def sat_mul_mono)

end

subsection \<open>The pallet\<close>

record base_fee_config =
  bf_target :: nat
  bf_min :: nat
  bf_max :: nat
  bf_init :: nat

datatype base_fee_event = BaseFeeUpdated nat nat nat

record base_fee_state =
  base_fee :: nat
  gas_used_this_block :: nat
  base_fee_events :: "base_fee_event list"

definition genesis_base_fee :: "base_fee_config \<Rightarrow> base_fee_state" where
  "genesis_base_fee cfg =
     \<lparr>base_fee = max (bf_init cfg) (bf_min cfg), gas_used_this_block = 0, base_fee_events = []\<rparr>"

definition base_fee_on_finalize :: "base_fee_config \<Rightarrow> base_fee_state \<Rightarrow> base_fee_state" where
  "base_fee_on_finalize cfg s =
     (let used = gas_used_this_block s;
          s1 = s\<lparr>gas_used_this_block := 0\<rparr>;
          target = max (bf_target cfg) 1;
          cur = max (base_fee s) (bf_min cfg);
          new_fee =
            (if target \<le> used
             then sat_add u128_max cur (sat_mul u128_max cur (used - target) div (target * 8))
             else cur - sat_mul u128_max cur (target - used) div (target * 8));
          max_bump = sat_add u128_max cur (cur div 8);
          min_cut = cur - cur div 8;
          bumped = max (min new_fee max_bump) min_cut;
          final_fee = min (max bumped (bf_min cfg)) (bf_max cfg)
      in if final_fee \<noteq> cur
         then s1\<lparr>base_fee := final_fee, base_fee_events := base_fee_events s1 @ [BaseFeeUpdated cur final_fee used]\<rparr>
         else s1)"

definition current_base_fee_value :: "base_fee_config \<Rightarrow> base_fee_state \<Rightarrow> nat" where
  "current_base_fee_value cfg s = max (base_fee s) (bf_min cfg)"

definition record_gas_internal :: "nat \<Rightarrow> base_fee_state \<Rightarrow> base_fee_state" where
  "record_gas_internal n s = s\<lparr>gas_used_this_block := sat_add u32_max (gas_used_this_block s) n\<rparr>"

text \<open>The unit implementation: no fee, nothing recorded.\<close>

definition unit_current_base_fee :: "unit \<Rightarrow> nat" where "unit_current_base_fee _ = 0"

definition unit_record_gas :: "nat \<Rightarrow> unit \<Rightarrow> unit" where "unit_record_gas _ u = u"

text \<open>A sane configuration: the bounds are ordered and a fee times a block's bytes fits a \<open>u128\<close>.\<close>

definition base_fee_config_ok :: "base_fee_config \<Rightarrow> bool" where
  "base_fee_config_ok cfg \<longleftrightarrow> bf_min cfg \<le> bf_max cfg \<and> bf_max cfg * u32_max \<le> u128_max
     \<and> bf_target cfg \<le> u32_max"

definition base_fee_inv :: "base_fee_config \<Rightarrow> base_fee_state \<Rightarrow> bool" where
  "base_fee_inv cfg s \<longleftrightarrow> base_fee s \<le> max (bf_min cfg) (bf_max cfg) \<and> gas_used_this_block s \<le> u32_max"

lemma base_fee_config_bounds:
  assumes "base_fee_config_ok cfg"
  shows "bf_min cfg \<le> bf_max cfg" "bf_max cfg \<le> u128_max" "bf_max cfg + bf_max cfg div 8 \<le> u128_max"
proof -
  have "bf_max cfg * 2 \<le> bf_max cfg * u32_max" by (rule mult_le_mono2) (simp add: u32_max_def)
  also have "\<dots> \<le> u128_max" using assms by (simp add: base_fee_config_ok_def)
  finally have "bf_max cfg * 2 \<le> u128_max" .
  then show "bf_max cfg \<le> u128_max" "bf_max cfg + bf_max cfg div 8 \<le> u128_max" by linarith+
  show "bf_min cfg \<le> bf_max cfg" using assms by (simp add: base_fee_config_ok_def)
qed

text \<open>The abstract step: the fee moves by at most an eighth, within the bounds.\<close>

definition fee_target :: "base_fee_config \<Rightarrow> nat" where "fee_target cfg = max (bf_target cfg) 1"

definition fee_after :: "base_fee_config \<Rightarrow> nat \<Rightarrow> nat \<Rightarrow> nat" where
  "fee_after cfg used cur =
     (let target = fee_target cfg in
      if target \<le> used then min (bf_max cfg) (cur + min (cur * (used - target) div (target * 8)) (cur div 8))
      else max (bf_min cfg) (cur - cur * (target - used) div (target * 8)))"

lemma fee_target_pos: "0 < fee_target cfg"
  by (simp add: fee_target_def)

lemma eighth_exact: "c * fee_target cfg div (fee_target cfg * 8) = c div 8"
  using fee_target_pos [of cfg] by (metis div_mult_mult1 mult.commute less_numeral_extra(3))

lemma eighth_le: "d \<le> fee_target cfg \<Longrightarrow> c * d div (fee_target cfg * 8) \<le> c div 8"
  unfolding eighth_exact [of c cfg, symmetric] by (intro div_le_mono mult_le_mono2)

lemma eighth_ge: "fee_target cfg \<le> d \<Longrightarrow> c div 8 \<le> c * d div (fee_target cfg * 8)"
  unfolding eighth_exact [of c cfg, symmetric] by (intro div_le_mono mult_le_mono2)

lemma current_fee_bounds:
  assumes "base_fee_config_ok cfg" "base_fee_inv cfg s"
  shows "bf_min cfg \<le> current_base_fee_value cfg s" "current_base_fee_value cfg s \<le> bf_max cfg"
  using assms(2) base_fee_config_bounds(1) [OF assms(1)]
  by (auto simp: base_fee_inv_def current_base_fee_value_def max_def split: if_splits)

text \<open>The value the source computes, before the saturating operations are shown to be exact.\<close>

definition fee_saturating :: "base_fee_config \<Rightarrow> nat \<Rightarrow> nat \<Rightarrow> nat" where
  "fee_saturating cfg used cur =
     min (max (max (min (if fee_target cfg \<le> used
             then sat_add u128_max cur (sat_mul u128_max cur (used - fee_target cfg) div (fee_target cfg * 8))
             else cur - sat_mul u128_max cur (fee_target cfg - used) div (fee_target cfg * 8))
           (sat_add u128_max cur (cur div 8))) (cur - cur div 8)) (bf_min cfg)) (bf_max cfg)"

lemma fee_saturating_le: "fee_saturating cfg u c \<le> bf_max cfg"
  unfolding fee_saturating_def by (rule min.cobounded2)

lemma base_fee_on_finalize_eq:
  "base_fee_on_finalize cfg s =
     (let cur = current_base_fee_value cfg s; fee' = fee_saturating cfg (gas_used_this_block s) cur;
          s1 = s\<lparr>gas_used_this_block := 0\<rparr>
      in if fee' \<noteq> cur
         then s1\<lparr>base_fee := fee', base_fee_events := base_fee_events s1 @ [BaseFeeUpdated cur fee' (gas_used_this_block s)]\<rparr>
         else s1)"
  unfolding base_fee_on_finalize_def fee_saturating_def fee_target_def current_base_fee_value_def Let_def ..

lemma fee_after_exact:
  assumes ok: "base_fee_config_ok cfg" and c: "bf_min cfg \<le> c" "c \<le> bf_max cfg" and u: "u \<le> u32_max"
  shows "fee_saturating cfg u c = fee_after cfg u c"
proof -
  note b = base_fee_config_bounds [OF ok]
  have prod: "sat_mul u128_max c d = c * d" if "d \<le> u32_max" for d
  proof (rule sat_mul_exact)
    have "c * d \<le> bf_max cfg * u32_max" using c(2) that by (rule mult_le_mono)
    then show "c * d \<le> u128_max" using ok by (simp add: base_fee_config_ok_def)
  qed
  have t: "fee_target cfg \<le> u32_max" using ok by (simp add: base_fee_config_ok_def fee_target_def u32_max_def)
  have s2: "sat_add u128_max c (c div 8) = c + c div 8" using b(3) c(2) by (intro sat_add_exact) linarith
  show ?thesis
  proof (cases "fee_target cfg \<le> u")
    case True
    define x where "x = c * (u - fee_target cfg) div (fee_target cfg * 8)"
    have s1: "sat_mul u128_max c (u - fee_target cfg) = c * (u - fee_target cfg)" using u by (intro prod) simp
    have le: "c + c div 8 \<le> u128_max" using b(3) c(2) by linarith
    have m: "min (sat_add u128_max c x) (c + c div 8) = c + min x (c div 8)"
      using le by (auto simp: sat_add_def min_def)
    have sat: "fee_saturating cfg u c = min (max (max (c + min x (c div 8)) (c - c div 8)) (bf_min cfg)) (bf_max cfg)"
      using True by (simp only: fee_saturating_def s1 s2 m if_True flip: x_def)
    have "max (max (c + min x (c div 8)) (c - c div 8)) (bf_min cfg) = c + min x (c div 8)"
      using c(1) by (simp add: max_absorb1 trans_le_add1)
    then show ?thesis using True by (simp add: sat fee_after_def Let_def min.commute flip: x_def)
  next
    case False
    define x where "x = c * (fee_target cfg - u) div (fee_target cfg * 8)"
    have s1: "sat_mul u128_max c (fee_target cfg - u) = c * (fee_target cfg - u)" using t by (intro prod) simp
    have x: "x \<le> c div 8" unfolding x_def by (rule eighth_le) simp
    have sat: "fee_saturating cfg u c = min (max (max (min (c - x) (c + c div 8)) (c - c div 8)) (bf_min cfg)) (bf_max cfg)"
      using False by (simp only: fee_saturating_def s1 s2 if_False flip: x_def)
    have m1: "min (c - x) (c + c div 8) = c - x" by (rule min_absorb1) simp
    have m2: "max (c - x) (c - c div 8) = c - x" using x by (intro max_absorb1) simp
    have m3: "max (c - x) (bf_min cfg) \<le> bf_max cfg" using c b(1) by simp
    have "fee_saturating cfg u c = max (c - x) (bf_min cfg)" unfolding sat m1 m2 by (rule min_absorb1 [OF m3])
    then show ?thesis using False by (simp add: fee_after_def Let_def max.commute flip: x_def)
  qed
qed

lemma fee_after_bounds:
  assumes "bf_min cfg \<le> c" "c \<le> bf_max cfg"
  shows "bf_min cfg \<le> fee_after cfg u c" "fee_after cfg u c \<le> bf_max cfg"
    "fee_after cfg u c \<le> c + c div 8" "c - c div 8 \<le> fee_after cfg u c"
    "fee_target cfg \<le> u \<Longrightarrow> c \<le> fee_after cfg u c" "u < fee_target cfg \<Longrightarrow> fee_after cfg u c \<le> c"
proof -
  have "bf_min cfg \<le> fee_after cfg u c \<and> fee_after cfg u c \<le> bf_max cfg
    \<and> fee_after cfg u c \<le> c + c div 8 \<and> c - c div 8 \<le> fee_after cfg u c
    \<and> (fee_target cfg \<le> u \<longrightarrow> c \<le> fee_after cfg u c) \<and> (u < fee_target cfg \<longrightarrow> fee_after cfg u c \<le> c)"
  proof (cases "fee_target cfg \<le> u")
    case True
    define x where "x = min (c * (u - fee_target cfg) div (fee_target cfg * 8)) (c div 8)"
    have "fee_after cfg u c = min (bf_max cfg) (c + x)" using True by (simp add: fee_after_def Let_def x_def)
    moreover have "x \<le> c div 8" by (simp add: x_def)
    ultimately show ?thesis using True assms by (auto simp: min_def)
  next
    case False
    define x where "x = c * (fee_target cfg - u) div (fee_target cfg * 8)"
    have "fee_after cfg u c = max (bf_min cfg) (c - x)" using False by (simp add: fee_after_def Let_def x_def)
    moreover have "x \<le> c div 8" unfolding x_def by (rule eighth_le) simp
    ultimately show ?thesis using False assms by (auto simp: max_def)
  qed
  then show "bf_min cfg \<le> fee_after cfg u c" "fee_after cfg u c \<le> bf_max cfg"
    "fee_after cfg u c \<le> c + c div 8" "c - c div 8 \<le> fee_after cfg u c"
    "fee_target cfg \<le> u \<Longrightarrow> c \<le> fee_after cfg u c" "u < fee_target cfg \<Longrightarrow> fee_after cfg u c \<le> c" by simp_all
qed

lemma current_fee_updates:
  "current_base_fee_value cfg (s\<lparr>gas_used_this_block := g\<rparr>) = current_base_fee_value cfg s"
  "current_base_fee_value cfg (s\<lparr>gas_used_this_block := g, base_fee := f, base_fee_events := es\<rparr>) = max f (bf_min cfg)"
  by (simp_all add: current_base_fee_value_def)

lemma fee_after_refines:
  assumes "base_fee_config_ok cfg" "base_fee_inv cfg s"
  shows "current_base_fee_value cfg (base_fee_on_finalize cfg s)
     = fee_after cfg (gas_used_this_block s) (current_base_fee_value cfg s)"
proof -
  note c = current_fee_bounds [OF assms]
  have u: "gas_used_this_block s \<le> u32_max" using assms(2) by (simp add: base_fee_inv_def)
  define f where "f = fee_after cfg (gas_used_this_block s) (current_base_fee_value cfg s)"
  have f: "bf_min cfg \<le> f" unfolding f_def by (rule fee_after_bounds [OF c])
  have "current_base_fee_value cfg (base_fee_on_finalize cfg s) = f"
    unfolding base_fee_on_finalize_eq Let_def fee_after_exact [OF assms(1) c u] f_def [symmetric]
    using f by (simp add: current_fee_updates max_absorb1)
  then show ?thesis by (simp only: f_def)
qed

interpretation fee: base_fee_provider "current_base_fee_value cfg" record_gas_internal
  "\<lambda>s. base_fee_config_ok cfg \<and> base_fee_inv cfg s"
proof (unfold_locales, goal_cases)
  case (1 s)
  then show ?case
    using base_fee_config_bounds(1,2) [of cfg] by (auto simp: base_fee_inv_def current_base_fee_value_def max_def split: if_splits)
next
  case (2 s n)
  then show ?case by (simp add: base_fee_inv_def record_gas_internal_def)
next
  case (3 n s)
  then show ?case by (simp add: current_base_fee_value_def record_gas_internal_def)
qed

interpretation nofee: base_fee_provider unit_current_base_fee unit_record_gas "\<lambda>_. True"
  by unfold_locales (simp_all add: unit_current_base_fee_def)

lemma base_fee_finalize_inv:
  assumes "base_fee_config_ok cfg" "base_fee_inv cfg s"
  shows "base_fee_inv cfg (base_fee_on_finalize cfg s) \<and> gas_used_this_block (base_fee_on_finalize cfg s) = 0"
proof -
  have "base_fee (base_fee_on_finalize cfg s) \<le> max (base_fee s) (bf_max cfg)"
    unfolding base_fee_on_finalize_eq Let_def using fee_saturating_le [of cfg] by (simp add: max.coboundedI2)
  moreover have "gas_used_this_block (base_fee_on_finalize cfg s) = 0"
    unfolding base_fee_on_finalize_eq Let_def by simp
  ultimately show ?thesis
    using assms(2) base_fee_config_bounds(1) [OF assms(1)] by (simp add: base_fee_inv_def max_absorb2)
qed

text \<open>The end of a block refines the abstract fee step: it resets the gas, keeps the fee within its
  configured bounds, moves it by at most an eighth of its value, upwards only when at least the
  target was used and downwards only when less was.
\<close>

theorem base_fee_step:
  assumes "base_fee_config_ok cfg" "base_fee_inv cfg s"
  shows "let used = gas_used_this_block s; cur = current_base_fee_value cfg s;
             s' = base_fee_on_finalize cfg s; fee' = current_base_fee_value cfg s'
    in fee' = fee_after cfg used cur
       \<and> bf_min cfg \<le> fee' \<and> fee' \<le> bf_max cfg \<and> gas_used_this_block s' = 0
       \<and> fee' \<le> cur + cur div 8 \<and> cur - cur div 8 \<le> fee'
       \<and> (fee_target cfg \<le> used \<longrightarrow> cur \<le> fee') \<and> (used < fee_target cfg \<longrightarrow> fee' \<le> cur)"
  unfolding Let_def fee_after_refines [OF assms]
  using base_fee_finalize_inv [OF assms] fee_after_bounds [OF current_fee_bounds [OF assms]] by simp

definition mainnet_base_fee :: base_fee_config where
  "mainnet_base_fee = \<lparr>bf_target = 50000, bf_min = 100, bf_max = 100000000000, bf_init = 10000\<rparr>"

lemma mainnet_base_fee_ok: "base_fee_config_ok mainnet_base_fee \<and> base_fee_inv mainnet_base_fee (genesis_base_fee mainnet_base_fee)"
  by (simp add: base_fee_config_ok_def base_fee_inv_def mainnet_base_fee_def genesis_base_fee_def u32_max_def u128_max_def)

lemma base_fee_step_witness:
  "current_base_fee_value mainnet_base_fee (base_fee_on_finalize mainnet_base_fee
     (record_gas_internal 100000 (genesis_base_fee mainnet_base_fee))) = 11250"
proof -
  let ?s = "record_gas_internal 100000 (genesis_base_fee mainnet_base_fee)"
  have ok: "base_fee_config_ok mainnet_base_fee" "base_fee_inv mainnet_base_fee ?s"
    using fee.record_inv [OF mainnet_base_fee_ok, of 100000] by simp_all
  have "current_base_fee_value mainnet_base_fee (base_fee_on_finalize mainnet_base_fee ?s)
      = fee_after mainnet_base_fee (gas_used_this_block ?s) (current_base_fee_value mainnet_base_fee ?s)"
    using base_fee_step [OF ok] by (simp add: Let_def)
  then show ?thesis
    by (simp add: record_gas_internal_def genesis_base_fee_def mainnet_base_fee_def fee_after_def fee_target_def Let_def
        current_base_fee_value_def sat_add_def u32_max_def)
qed

subsection \<open>Sustained load\<close>

text \<open>A run of blocks, given the bytes each one records.\<close>

fun base_fee_blocks :: "base_fee_config \<Rightarrow> nat list \<Rightarrow> base_fee_state \<Rightarrow> base_fee_state" where
  "base_fee_blocks cfg [] s = s"
| "base_fee_blocks cfg (n # ns) s = base_fee_blocks cfg ns (base_fee_on_finalize cfg (record_gas_internal n s))"

lemma full_block_growth:
  assumes "base_fee_config_ok cfg" "base_fee_inv cfg s" "gas_used_this_block s = 0"
    and "8 \<le> current_base_fee_value cfg s" "2 * fee_target cfg \<le> n" "n \<le> u32_max"
  defines "fee' \<equiv> current_base_fee_value cfg (base_fee_on_finalize cfg (record_gas_internal n s))"
  shows "fee' = bf_max cfg \<or> 17 * current_base_fee_value cfg s \<le> 16 * fee'"
proof -
  let ?c = "current_base_fee_value cfg s" and ?s = "record_gas_internal n s"
  have ok: "base_fee_inv cfg ?s" using fee.record_inv [of cfg s n] assms(1,2) by simp
  have g: "gas_used_this_block ?s = n" using assms(3,6) by (simp add: record_gas_internal_def sat_add_def)
  have "?c div 8 \<le> ?c * (n - fee_target cfg) div (fee_target cfg * 8)"
    using assms(5) by (intro eighth_ge) simp
  then have "fee' = min (bf_max cfg) (?c + ?c div 8)"
    using assms(5) fee_after_refines [OF assms(1) ok]
    by (simp add: fee'_def fee_after_def Let_def g fee.record_fee min_absorb2)
  moreover have "17 * ?c \<le> 16 * (?c + ?c div 8)"
    using div_le_mono [OF assms(4), of 8] div_mult_mod_eq [of ?c 8] mod_less_divisor [of 8 ?c] by simp
  ultimately show ?thesis by (auto simp: min_def)
qed

lemma base_fee_after_ge:
  assumes "base_fee_config_ok cfg" "base_fee_inv cfg s" "fee_target cfg \<le> gas_used_this_block s"
  shows "current_base_fee_value cfg s \<le> current_base_fee_value cfg (base_fee_on_finalize cfg s)"
  unfolding fee_after_refines [OF assms(1,2)]
  by (rule fee_after_bounds(5) [OF current_fee_bounds [OF assms(1,2)] assms(3)])

lemma full_blocks_stay_max:
  assumes "base_fee_config_ok cfg"
  shows "base_fee_inv cfg s \<Longrightarrow> gas_used_this_block s = 0 \<Longrightarrow> current_base_fee_value cfg s = bf_max cfg
    \<Longrightarrow> \<forall>n \<in> set ns. 2 * fee_target cfg \<le> n \<and> n \<le> u32_max
    \<Longrightarrow> current_base_fee_value cfg (base_fee_blocks cfg ns s) = bf_max cfg"
proof (induction ns arbitrary: s)
  case (Cons n ns)
  let ?s = "record_gas_internal n s"
  have ok: "base_fee_inv cfg ?s" using fee.record_inv [of cfg s n] assms Cons.prems(1) by simp
  have g: "gas_used_this_block ?s = n"
    using Cons.prems(2,4) by (simp add: record_gas_internal_def sat_add_def)
  have "current_base_fee_value cfg (base_fee_on_finalize cfg ?s) = bf_max cfg"
    using Cons.prems(3,4) by (simp add: fee_after_refines [OF assms ok] g fee.record_fee fee_after_def Let_def)
  then show ?case using Cons.IH base_fee_finalize_inv [OF assms ok] Cons.prems(4) by simp
qed simp

text \<open>Blocks filled to at least twice the target raise the fee exponentially: from a fee of at
  least 8, after k such blocks either the fee is at its maximum or it has grown by a factor of at
  least 17/16 per block.
\<close>

theorem full_blocks_raise_fee:
  assumes "base_fee_config_ok cfg" "base_fee_inv cfg s" "gas_used_this_block s = 0"
    and "8 \<le> current_base_fee_value cfg s"
    and "\<forall>n \<in> set ns. 2 * fee_target cfg \<le> n \<and> n \<le> u32_max"
  shows "current_base_fee_value cfg (base_fee_blocks cfg ns s) = bf_max cfg
    \<or> 17 ^ length ns * current_base_fee_value cfg s \<le> 16 ^ length ns * current_base_fee_value cfg (base_fee_blocks cfg ns s)"
  using assms(2-5)
proof (induction ns arbitrary: s)
  case Nil
  then show ?case by simp
next
  case (Cons n ns)
  let ?s = "record_gas_internal n s" and ?s' = "base_fee_on_finalize cfg (record_gas_internal n s)"
  have ok: "base_fee_inv cfg ?s" using fee.record_inv [of cfg s n] assms(1) Cons.prems(1) by simp
  note inv' = base_fee_finalize_inv [OF assms(1) ok]
  have g: "gas_used_this_block ?s = n"
    using Cons.prems(2,4) by (simp add: record_gas_internal_def sat_add_def)
  have up: "current_base_fee_value cfg s \<le> current_base_fee_value cfg ?s'"
    using base_fee_after_ge [OF assms(1) ok] Cons.prems(4) by (simp add: g fee.record_fee)
  have IH: "current_base_fee_value cfg (base_fee_blocks cfg ns ?s') = bf_max cfg
    \<or> 17 ^ length ns * current_base_fee_value cfg ?s' \<le> 16 ^ length ns * current_base_fee_value cfg (base_fee_blocks cfg ns ?s')"
    using Cons.IH [of ?s'] inv' up Cons.prems(3,4) by simp
  show ?case
  proof (cases "current_base_fee_value cfg ?s' = bf_max cfg")
    case True
    have "current_base_fee_value cfg (base_fee_blocks cfg ns ?s') = bf_max cfg"
      using full_blocks_stay_max [OF assms(1)] inv' True Cons.prems(4) by simp
    then show ?thesis by simp
  next
    case False
    then have "17 * current_base_fee_value cfg s \<le> 16 * current_base_fee_value cfg ?s'"
      using full_block_growth [OF assms(1) Cons.prems(1-3), of n] Cons.prems(4) by auto
    then have "17 ^ length ns * (17 * current_base_fee_value cfg s) \<le> 17 ^ length ns * (16 * current_base_fee_value cfg ?s')"
      by (rule mult_le_mono2)
    then have "17 ^ length (n # ns) * current_base_fee_value cfg s \<le> 16 * (17 ^ length ns * current_base_fee_value cfg ?s')"
      by (simp add: mult.assoc mult.left_commute)
    moreover from IH have "16 * (17 ^ length ns * current_base_fee_value cfg ?s')
        \<le> 16 * (16 ^ length ns * current_base_fee_value cfg (base_fee_blocks cfg ns ?s'))
      \<or> current_base_fee_value cfg (base_fee_blocks cfg ns ?s') = bf_max cfg"
      by auto
    ultimately show ?thesis unfolding base_fee_blocks.simps length_Cons power_Suc mult.assoc
      using order_trans by blast
  qed
qed

lemma full_blocks_raise_fee_witness:
  "current_base_fee_value mainnet_base_fee (base_fee_blocks mainnet_base_fee [100000, 200000] (genesis_base_fee mainnet_base_fee))
      = 100000000000
    \<or> 17 ^ 2 * 10000 \<le> 16 ^ 2 * current_base_fee_value mainnet_base_fee
        (base_fee_blocks mainnet_base_fee [100000, 200000] (genesis_base_fee mainnet_base_fee))"
proof -
  have fee0: "current_base_fee_value mainnet_base_fee (genesis_base_fee mainnet_base_fee) = 10000"
    by (simp add: current_base_fee_value_def genesis_base_fee_def mainnet_base_fee_def)
  show ?thesis
    using full_blocks_raise_fee [OF mainnet_base_fee_ok [THEN conjunct1] mainnet_base_fee_ok [THEN conjunct2],
        of "[100000, 200000]"]
    unfolding fee0 by (simp add: genesis_base_fee_def mainnet_base_fee_def fee_target_def u32_max_def)
qed

end
