(* ===== verification/Block_Reward.thy ===== *)
theory Block_Reward
  imports Storage_Pallet
begin

text \<open>
  \<open>pallets/block_reward/src/lib.rs\<close>: the miner's reward per block with halving and tail emission,
  and its split between the miner and the two reward pools. The trait \<open>PoolDeposit\<close> is the locale
  \<open>pool_deposit\<close>, interpreted on the unit implementation and, through the runtime's
  \<open>StoragePoolSinkAdapter\<close>, on the storage pallet.
\<close>

subsection \<open>The interface PoolDeposit\<close>

locale pool_deposit =
  fixes deposit :: "nat \<Rightarrow> 's \<Rightarrow> 's" and pool :: "'s \<Rightarrow> nat"
  assumes deposit_le: "pool (deposit a s) \<le> pool s + a"
    and deposit_ge: "pool s \<le> u128_max \<Longrightarrow> pool s \<le> pool (deposit a s)"
    and deposit_u128: "pool s \<le> u128_max \<Longrightarrow> pool (deposit a s) \<le> u128_max"
begin

lemma deposits_le: "pool (fold deposit as s) \<le> pool s + sum_list as"
proof (induction "as" arbitrary: s)
  case (Cons a as)
  have "pool (fold deposit as (deposit a s)) \<le> pool (deposit a s) + sum_list as" by (rule Cons)
  also have "\<dots> \<le> pool s + a + sum_list as" using deposit_le [of a s] by simp
  finally show ?case by (simp add: add.assoc)
qed simp

end

definition unit_do_deposit :: "nat \<Rightarrow> unit \<Rightarrow> unit" where "unit_do_deposit _ u = u"

interpretation unit_sink: pool_deposit unit_do_deposit "\<lambda>_. 0"
  by unfold_locales simp_all

definition storage_pool_sink :: "nat \<Rightarrow> storage_state \<Rightarrow> storage_state" where
  "storage_pool_sink amount s = do_deposit_to_reward_pool amount s"

interpretation storage_sink: pool_deposit storage_pool_sink reward_pool
  by unfold_locales (simp_all add: storage_pool_sink_def do_deposit_to_reward_pool_def sat_add_def)

subsection \<open>The pallet\<close>

record 'p reward_config =
  br_initial :: nat
  br_tail :: nat
  br_halving_period :: nat
  br_max_halvings :: nat
  br_miner_share :: nat
  br_storage_share :: nat
  br_reaction_share :: nat
  br_mul_floor :: "nat \<Rightarrow> nat \<Rightarrow> nat"
  br_storage_sink :: "nat \<Rightarrow> 'p \<Rightarrow> 'p"
  br_reaction_sink :: "nat \<Rightarrow> 'p \<Rightarrow> 'p"

datatype skip_reason = NoAuthor | ZeroReward | InvalidSharesConfig

datatype reward_event =
    BlockRewardMinted account_id nat
  | BlockRewardSplit account_id nat nat nat
  | BlockRewardSkipped skip_reason

text \<open>
  The reward at a block. The number of halvings is cast to \<open>u32\<close>, and a shift of a \<open>u128\<close> by
  128 or more overflows, which is the value \<^const>\<open>None\<close>.
\<close>

definition current_reward :: "'p reward_config \<Rightarrow> block_number \<Rightarrow> nat option" where
  "current_reward cfg n =
     (if br_halving_period cfg = 0 then Some (max (br_initial cfg) (br_tail cfg))
      else let halvings = (n div br_halving_period cfg) mod 2 ^ 32 in
        if br_max_halvings cfg \<le> halvings then Some (max 0 (br_tail cfg))
        else if halvings < 128 then Some (max (drop_bit halvings (br_initial cfg)) (br_tail cfg))
        else None)"

text \<open>
  The end of a block. The author comes from the digest of the block through \<open>FindAuthor\<close>. The
  state is the pallet's events, the currency and whatever the two sinks deposit to.
\<close>

definition block_reward_on_finalize ::
  "'p reward_config \<Rightarrow> 'c currency \<Rightarrow> block_number \<Rightarrow> account_id option \<Rightarrow>
   reward_event list \<times> 'c \<times> 'p \<Rightarrow> (reward_event list \<times> 'c \<times> 'p) option" where
  "block_reward_on_finalize cfg cur n find_author = (\<lambda>(es, c, p).
     case find_author of
       None \<Rightarrow> Some (es @ [BlockRewardSkipped NoAuthor], c, p)
     | Some author \<Rightarrow>
        (case current_reward cfg n of
           None \<Rightarrow> None
         | Some tot \<Rightarrow>
            if tot = 0 then Some (es @ [BlockRewardSkipped ZeroReward], c, p)
            else if 1000000 < sat_add u64_max (sat_add u64_max (br_miner_share cfg) (br_storage_share cfg))
                       (br_reaction_share cfg)
            then Some (es @ [BlockRewardSkipped InvalidSharesConfig, BlockRewardMinted author tot],
                       cur_deposit cur author tot c, p)
            else
              let miner = br_mul_floor cfg (br_miner_share cfg) tot;
                  stor = br_mul_floor cfg (br_storage_share cfg) tot;
                  reac = br_mul_floor cfg (br_reaction_share cfg) tot;
                  c' = (if 0 < miner then cur_deposit cur author miner c else c);
                  p1 = (if 0 < stor then br_storage_sink cfg stor p else p);
                  p2 = (if 0 < reac then br_reaction_sink cfg reac p1 else p1)
              in Some (es @ [BlockRewardMinted author miner, BlockRewardSplit author miner stor reac], c', p2)))"

subsection \<open>The schedule\<close>

definition reward_config_ok :: "'p reward_config \<Rightarrow> bool" where
  "reward_config_ok cfg \<longleftrightarrow> 0 < br_halving_period cfg \<and> br_max_halvings cfg \<le> 128"

lemma current_reward_cases:
  assumes "reward_config_ok cfg" "n \<le> u32_max"
  shows "current_reward cfg n = Some (max (br_tail cfg)
    (if br_max_halvings cfg \<le> n div br_halving_period cfg then 0
     else br_initial cfg div 2 ^ (n div br_halving_period cfg)))"
proof -
  have "n div br_halving_period cfg \<le> n" by (rule div_le_dividend)
  also have "n < 2 ^ 32" using assms(2) by (simp add: u32_max_def)
  finally have "(n div br_halving_period cfg) mod 2 ^ 32 = n div br_halving_period cfg"
    by (rule mod_less)
  then show ?thesis
    using assms(1) by (simp add: current_reward_def reward_config_ok_def Let_def drop_bit_eq_div max.commute)
qed

text \<open>The halvings of one amount add up to less than twice that amount.\<close>

lemma halvings_sum: "(\<Sum>j<k. x div 2 ^ j) \<le> 2 * (x::nat)"
proof -
  have "(\<Sum>j<k. x div 2 ^ j) + 2 * (x div 2 ^ k) \<le> 2 * x"
  proof (induction k)
    case (Suc k)
    have "2 * (x div 2 ^ Suc k) \<le> x div 2 ^ k"
      by (simp add: div_mult2_eq mult.commute [of 2])
    then show ?case using Suc by simp
  qed simp
  then show ?thesis by linarith
qed

lemma sum_periods:
  fixes f :: "nat \<Rightarrow> nat"
  assumes "0 < P"
  shows "(\<Sum>n < k * P. f (n div P)) = P * (\<Sum>j<k. f j)"
proof -
  have "(\<Sum>n \<in> {j * P..<j * P + P}. f (n div P)) = P * f j" for j
  proof -
    have "(\<Sum>n \<in> {j * P..<j * P + P}. f (n div P)) = (\<Sum>n \<in> {j * P..<j * P + P}. f j)"
    proof (rule sum.cong)
      fix n
      assume "n \<in> {j * P..<j * P + P}"
      then have "n div P = j" using assms by (intro div_nat_eqI) (auto simp: mult.commute)
      then show "f (n div P) = f j" by simp
    qed simp
    then show ?thesis by simp
  qed
  then have "(\<Sum>j<k. \<Sum>n \<in> {j * P..<j * P + P}. f (n div P)) = (\<Sum>j<k. P * f j)" by simp
  then show ?thesis by (simp add: sum.nat_group sum_distrib_left)
qed

definition emitted :: "'p reward_config \<Rightarrow> block_number \<Rightarrow> nat" where
  "emitted cfg N = (\<Sum>n<N. case current_reward cfg n of None \<Rightarrow> 0 | Some r \<Rightarrow> r)"

text \<open>C31: with a positive halving period and at most 128 halvings the reward is defined at every block,
  never falls below the tail emission nor rises from one block to a later one, is the tail alone
  after the last halving, and the emission of any number of blocks is bounded: what exceeds the tail
  adds up to at most two halving periods of the initial reward, forever.
\<close>

theorem emission_schedule:
  assumes "reward_config_ok cfg" "n \<le> m" "m \<le> u32_max" "N \<le> u32_max"
  shows "(\<exists>r r'. current_reward cfg n = Some r \<and> current_reward cfg m = Some r' \<and> br_tail cfg \<le> r' \<and> r' \<le> r
      \<and> (br_max_halvings cfg * br_halving_period cfg \<le> m \<longrightarrow> r' = br_tail cfg))
    \<and> emitted cfg N \<le> N * br_tail cfg + 2 * br_halving_period cfg * br_initial cfg"
proof (intro conjI)
  let ?P = "br_halving_period cfg" and ?h = "\<lambda>j. if br_max_halvings cfg \<le> j then 0 else br_initial cfg div 2 ^ j"
  have P: "0 < ?P" using assms(1) by (simp add: reward_config_ok_def)
  have h: "?h j' \<le> ?h j" if "j \<le> j'" for j j'
  proof -
    have "br_initial cfg div 2 ^ j' \<le> br_initial cfg div 2 ^ j"
      using that by (intro div_le_mono2) simp_all
    then show ?thesis using that by auto
  qed
  have r: "current_reward cfg k = Some (max (br_tail cfg) (?h (k div ?P)))" if "k \<le> u32_max" for k
    by (rule current_reward_cases [OF assms(1) that])
  have "br_max_halvings cfg * ?P \<le> m \<Longrightarrow> br_max_halvings cfg \<le> m div ?P"
    using P by (simp add: less_eq_div_iff_mult_less_eq)
  then show "\<exists>r r'. current_reward cfg n = Some r \<and> current_reward cfg m = Some r' \<and> br_tail cfg \<le> r' \<and> r' \<le> r
      \<and> (br_max_halvings cfg * ?P \<le> m \<longrightarrow> r' = br_tail cfg)"
    using r [of n] r [of m] assms(2,3) h [OF div_le_mono [OF assms(2)], of ?P] by (auto simp: max.coboundedI2)
  have "emitted cfg N \<le> (\<Sum>n<N. br_tail cfg + ?h (n div ?P))"
    unfolding emitted_def
  proof (rule sum_mono)
    fix k
    assume "k \<in> {..<N}"
    then have k: "k \<le> u32_max" using assms(4) by simp
    then show "(case current_reward cfg k of None \<Rightarrow> 0 | Some r \<Rightarrow> r) \<le> br_tail cfg + ?h (k div ?P)"
      unfolding r [OF k] option.case by (simp add: max_def)
  qed
  also have "\<dots> = N * br_tail cfg + (\<Sum>n<N. ?h (n div ?P))"
    by (simp only: sum.distrib sum_constant card_lessThan of_nat_id)
  also have "(\<Sum>n<N. ?h (n div ?P)) \<le> (\<Sum>n < N * ?P. ?h (n div ?P))"
    using P by (intro sum_mono2) (auto intro: order.strict_trans2)
  also have "\<dots> = ?P * (\<Sum>j<N. ?h j)" by (rule sum_periods [OF P])
  also have "(\<Sum>j<N. ?h j) \<le> (\<Sum>j<N. br_initial cfg div 2 ^ j)" by (rule sum_mono) simp
  also have "\<dots> \<le> 2 * br_initial cfg" by (rule halvings_sum)
  finally show "emitted cfg N \<le> N * br_tail cfg + 2 * ?P * br_initial cfg"
    by (simp add: mult.assoc mult.left_commute)
qed

definition mainnet_reward :: "storage_state reward_config" where
  "mainnet_reward = \<lparr>br_initial = 5000000000000, br_tail = 500000000000, br_halving_period = 4204800,
     br_max_halvings = 64, br_miner_share = 500000, br_storage_share = 300000, br_reaction_share = 200000,
     br_mul_floor = floor_permill, br_storage_sink = storage_pool_sink, br_reaction_sink = \<lambda>_ p. p\<rparr>"

lemma emission_schedule_witness:
  "(\<exists>r. current_reward mainnet_reward 300000000 = Some r \<and> r = 500000000000)
   \<and> emitted mainnet_reward 10000000 \<le> 10000000 * 500000000000 + 2 * 4204800 * 5000000000000"
proof -
  have "reward_config_ok mainnet_reward" by (simp add: reward_config_ok_def mainnet_reward_def)
  from emission_schedule [OF this, of 1 300000000 10000000] show ?thesis
    by (auto simp: u32_max_def mainnet_reward_def)
qed

subsection \<open>The split\<close>

text \<open>A sink that is a lawful \<open>PoolDeposit\<close> on a part of the state, as both adapters are.\<close>

definition lawful_sink :: "(nat \<Rightarrow> 'p \<Rightarrow> 'p) \<Rightarrow> ('p \<Rightarrow> nat) \<Rightarrow> bool" where
  "lawful_sink dep pool \<longleftrightarrow> (\<forall>a p. pool p \<le> u128_max \<longrightarrow>
     pool p \<le> pool (dep a p) \<and> pool (dep a p) \<le> pool p + a)"

lemma storage_sink_lawful: "lawful_sink storage_pool_sink reward_pool"
  using storage_sink.deposit_le storage_sink.deposit_ge by (simp add: lawful_sink_def)

lemma noop_sink_lawful: "lawful_sink (\<lambda>_ p. p) pool"
  by (simp add: lawful_sink_def)

lemma mul_floor_shares_loss:
  assumes "permill_floor_law f" "p + q + r = 1000000"
  shows "x \<le> f p x + f q x + f r x + 2"
proof -
  have lt: "1000000 * (p * x div 1000000) + p * x mod 1000000 = p * x" for p by (rule mult_div_mod_eq)
  have m: "p * x mod 1000000 < 1000000" for p by simp
  have "1000000 * x = p * x + q * x + r * x" by (simp add: assms(2) flip: distrib_right)
  then show ?thesis
    using lt [of p] lt [of q] lt [of r] m [of p] m [of q] m [of r] assms(1)
    unfolding permill_floor_law_def by (simp only:)
qed

text \<open>When an author is found and the shares do not exceed one, a block issues at most its reward:
  the issuance grows by at most the miner's share, the pools by at most theirs, and the three shares
  add up to no more than the reward, and to no more than two units less when the configured parts
  add up to exactly one. Without an author nothing is issued at all.
\<close>

theorem block_reward_split:
  assumes "permill_floor_law (br_mul_floor cfg)" "currency_laws cur" "cur_ok cur c"
    and "br_miner_share cfg + br_storage_share cfg + br_reaction_share cfg \<le> 1000000"
    and "lawful_sink (br_storage_sink cfg) spool" "lawful_sink (br_reaction_sink cfg) rpool"
    and "\<forall>a p. rpool (br_storage_sink cfg a p) = rpool p" "\<forall>a p. spool (br_reaction_sink cfg a p) = spool p"
    and "spool p \<le> u128_max" "rpool p \<le> u128_max"
    and "current_reward cfg n = Some reward"
    and "block_reward_on_finalize cfg cur n author (es, c, p) = Some (es', c', p')"
  shows "(\<exists>m st re. m + st + re \<le> reward
      \<and> (br_miner_share cfg + br_storage_share cfg + br_reaction_share cfg = 1000000 \<longrightarrow> author \<noteq> None
          \<longrightarrow> reward \<le> m + st + re + 2)
      \<and> total_issuance cur c' \<le> total_issuance cur c + m
      \<and> spool p' \<le> spool p + st \<and> rpool p' \<le> rpool p + re)
    \<and> cur_ok cur c' \<and> (author = None \<longrightarrow> c' = c \<and> p' = p)"
proof (cases "author = None \<or> reward = 0")
  case True
  then have "c' = c \<and> p' = p" using assms(11,12) by (auto simp: block_reward_on_finalize_def split: option.splits)
  moreover have "author \<noteq> None \<longrightarrow> reward = 0" using True by auto
  ultimately show ?thesis using assms(3) by (intro conjI exI [of _ 0]) auto
next
  case False
  then obtain w where w: "author = Some w" "reward \<noteq> 0" by auto
  let ?f = "br_mul_floor cfg"
  define m where "m = ?f (br_miner_share cfg) reward"
  define st where "st = ?f (br_storage_share cfg) reward"
  define re where "re = ?f (br_reaction_share cfg) reward"
  have "sat_add u64_max (sat_add u64_max (br_miner_share cfg) (br_storage_share cfg)) (br_reaction_share cfg) \<le> 1000000"
    using assms(4) by (simp add: sat_add_def)
  then have out: "c' = (if 0 < m then cur_deposit cur w m c else c)"
    "p' = (if 0 < re then br_reaction_sink cfg re (if 0 < st then br_storage_sink cfg st p else p)
           else (if 0 < st then br_storage_sink cfg st p else p))"
    using assms(11,12) w by (auto simp: block_reward_on_finalize_def Let_def m_def st_def re_def)
  have "m + st + re \<le> reward" unfolding m_def st_def re_def by (rule mul_floor_shares [OF assms(1,4)])
  moreover have "br_miner_share cfg + br_storage_share cfg + br_reaction_share cfg = 1000000 \<Longrightarrow> reward \<le> m + st + re + 2"
    unfolding m_def st_def re_def by (rule mul_floor_shares_loss [OF assms(1)])
  moreover have "total_issuance cur c' \<le> total_issuance cur c + m \<and> cur_ok cur c'"
    using depositD [OF assms(2,3)] assms(3) by (simp add: out(1))
  moreover have "spool p' \<le> spool p + st"
    using assms(5,8,9) by (simp add: out(2) lawful_sink_def)
  moreover have "rpool p' \<le> rpool p + re"
    using assms(6)[unfolded lawful_sink_def, rule_format, of p re]
      assms(6)[unfolded lawful_sink_def, rule_format, of "br_storage_sink cfg st p" re] assms(7,10)
    by (simp add: out(2))
  ultimately show ?thesis using w by blast
qed

lemma block_reward_split_witness:
  "\<exists>es' c' p'. block_reward_on_finalize mainnet_reward ledger_currency 5 (Some 7) ([], ledger_of 7 30 20, genesis_storage 0)
       = Some (es', c', p')
     \<and> reward_pool p' \<le> 5000000000000 \<and> total_issuance ledger_currency c'
          \<le> total_issuance ledger_currency (ledger_of 7 30 20) + 5000000000000"
proof -
  let ?s = "([], ledger_of 7 30 20, genesis_storage 0)"
  have r: "current_reward mainnet_reward 5 = Some 5000000000000"
    by (simp add: current_reward_def mainnet_reward_def Let_def)
  obtain es' c' p' where out: "block_reward_on_finalize mainnet_reward ledger_currency 5 (Some 7) ?s = Some (es', c', p')"
    by (cases "block_reward_on_finalize mainnet_reward ledger_currency 5 (Some 7) ?s")
      (auto simp: block_reward_on_finalize_def r Let_def split: if_splits)
  have sinks: "br_storage_sink mainnet_reward = storage_pool_sink" "br_reaction_sink mainnet_reward = (\<lambda>_ p. p)"
    "br_mul_floor mainnet_reward = floor_permill"
    by (simp_all add: mainnet_reward_def)
  have "(\<exists>m st re. m + st + re \<le> 5000000000000
      \<and> (br_miner_share mainnet_reward + br_storage_share mainnet_reward + br_reaction_share mainnet_reward = 1000000
          \<longrightarrow> Some (7::nat) \<noteq> None \<longrightarrow> 5000000000000 \<le> m + st + re + 2)
      \<and> total_issuance ledger_currency c' \<le> total_issuance ledger_currency (ledger_of 7 30 20) + m
      \<and> reward_pool p' \<le> reward_pool (genesis_storage 0) + st \<and> (0::nat) \<le> 0 + re)
    \<and> cur_ok ledger_currency c' \<and> (Some (7::nat) = None \<longrightarrow> c' = ledger_of 7 30 20 \<and> p' = genesis_storage 0)"
    by (rule block_reward_split [OF _ ledger_currency_laws _ _ _ _ _ _ _ _ r out])
      (simp_all add: sinks floor_permill_law storage_sink_lawful noop_sink_lawful mainnet_reward_def storage_pool_sink_def do_deposit_to_reward_pool_def
        ledger_currency_def ledger_of_ok u128_max_def genesis_storage_def)
  then obtain m st re where "m + st + re \<le> 5000000000000"
    "total_issuance ledger_currency c' \<le> total_issuance ledger_currency (ledger_of 7 30 20) + m"
    "reward_pool p' \<le> reward_pool (genesis_storage 0) + st" by blast
  then show ?thesis using out by (auto simp: genesis_storage_def)
qed

end
