(* ===== verification/Difficulty.thy ===== *)
theory Difficulty
  imports Prelude
begin

text \<open>
  \<open>pallets/difficulty/src/lib.rs\<close> and \<open>lwma.rs\<close>: the consensus difficulty, adjusted at the end of
  each block by the linearly weighted moving average of the last solve times. A \<open>U256\<close> is a
  natural number up to \<^const>\<open>u256_max\<close>, with the saturating operations written out; the products
  the source forms without saturation stay far below the bound (\<open>lwma_products_fit\<close>).
\<close>

subsection \<open>The average\<close>

text \<open>
  A window entry is a difficulty and a timestamp in milliseconds, oldest first. The loop over
  \<open>i = 1 .. n - 1\<close> walks the list with the previous timestamp, adding to both sums.
\<close>

primrec lwma_loop :: "nat \<Rightarrow> nat \<Rightarrow> nat \<Rightarrow> nat \<Rightarrow> (nat \<times> nat) list \<Rightarrow> nat \<times> nat \<Rightarrow> nat \<times> nat" where
  "lwma_loop m max_solve i prev [] acc = acc"
| "lwma_loop m max_solve i prev (entry # rest) acc =
     (let (d, ts) = entry;
          (wsum, isum) = acc;
          raw_solve = max (ts - prev) 1;
          solve = min raw_solve max_solve;
          wsum' = sat_add u256_max wsum (i * solve);
          isum' = (if d \<noteq> 0 then sat_add u256_max isum (u256_max div d div m) else isum)
      in lwma_loop m max_solve (i + 1) ts rest (wsum', isum'))"

definition lwma3_next_difficulty :: "(nat \<times> nat) list \<Rightarrow> nat \<Rightarrow> nat" where
  "lwma3_next_difficulty window target_ms =
     (let n = length window;
          newest = (case rev window of [] \<Rightarrow> 1 | (d, _) # _ \<Rightarrow> d)
      in if n < 2 then newest
         else let m = n - 1;
                  max_solve = sat_mul u64_max 6 target_ms;
                  (wsum, isum) = lwma_loop m max_solve 1 (snd (hd window)) (tl window) (0, 0)
              in if isum = 0 then newest
                 else let harmonic_mean = u256_max div isum;
                          weighted_target_sum = target_ms * (m * (m + 1) div 2)
                      in if wsum = 0 then harmonic_mean
                         else sat_mul u256_max harmonic_mean weighted_target_sum div wsum)"

subsection \<open>The pallet\<close>

record difficulty_config =
  df_target_block_time :: nat
  df_window :: nat
  df_min :: nat

record difficulty_state =
  current_difficulty :: nat
  past_difficulties :: "(nat \<times> nat) list"

definition genesis_difficulty :: "difficulty_config \<Rightarrow> nat \<Rightarrow> difficulty_state" where
  "genesis_difficulty cfg initial_difficulty =
     \<lparr>current_difficulty = max initial_difficulty (df_min cfg), past_difficulties = []\<rparr>"

text \<open>\<open>now\<close> is the block's timestamp from \<open>pallet_timestamp\<close>.\<close>

definition adjust :: "difficulty_config \<Rightarrow> nat \<Rightarrow> difficulty_state \<Rightarrow> difficulty_state" where
  "adjust cfg now s =
     (let cap = df_window cfg in
      if cap = 0 then s
      else let w0 = past_difficulties s;
               w1 = (if cap \<le> length w0 \<and> w0 \<noteq> [] then tl w0 else w0)
           in if length w1 < cap
              then let w2 = w1 @ [(current_difficulty s, now)] in
                   if length w2 < cap then s\<lparr>past_difficulties := w2\<rparr>
                   else s\<lparr>past_difficulties := w2,
                          current_difficulty := max (lwma3_next_difficulty w2 (df_target_block_time cfg)) (df_min cfg)\<rparr>
              else s\<lparr>past_difficulties := w1\<rparr>)"

subsection \<open>The window\<close>

inductive difficulty_reachable :: "difficulty_config \<Rightarrow> nat \<Rightarrow> difficulty_state \<Rightarrow> bool"
  for cfg :: difficulty_config and initial_difficulty :: nat where
  "difficulty_reachable cfg initial_difficulty (genesis_difficulty cfg initial_difficulty)"
| "difficulty_reachable cfg initial_difficulty s \<Longrightarrow> difficulty_reachable cfg initial_difficulty (adjust cfg now s)"

lemma lwma_le: "\<forall>p \<in> set window. fst p \<le> u256_max \<Longrightarrow> lwma3_next_difficulty window t \<le> u256_max"
proof -
  assume w: "\<forall>p \<in> set window. fst p \<le> u256_max"
  have newest: "(case rev window of [] \<Rightarrow> 1 | (d, _) # _ \<Rightarrow> d) \<le> u256_max"
  proof (cases "rev window")
    case (Cons p ps)
    then have "p \<in> set window" by (metis list.set_intros(1) set_rev)
    then have "fst p \<le> u256_max" using w by blast
    then show ?thesis by (simp add: Cons split: prod.splits) (cases p, simp)
  qed (simp add: u256_max_def)
  have d: "x div y \<le> u256_max" if "x \<le> u256_max" for x y :: nat
    using that div_le_dividend order_trans by blast
  show ?thesis using newest
    unfolding lwma3_next_difficulty_def Let_def by (auto split: prod.splits intro!: d)
qed

definition difficulty_inv :: "difficulty_config \<Rightarrow> difficulty_state \<Rightarrow> bool" where
  "difficulty_inv cfg s \<longleftrightarrow> df_min cfg \<le> current_difficulty s \<and> current_difficulty s \<le> u256_max
     \<and> length (past_difficulties s) \<le> df_window cfg
     \<and> (\<forall>p \<in> set (past_difficulties s). df_min cfg \<le> fst p \<and> fst p \<le> u256_max)"

lemma adjust_inv:
  assumes "difficulty_inv cfg s" "df_min cfg \<le> u256_max"
  shows "difficulty_inv cfg (adjust cfg now s)"
proof (cases "df_window cfg = 0")
  case True
  then show ?thesis using assms(1) by (simp add: adjust_def)
next
  case False
  let ?w0 = "past_difficulties s"
  define w1 where "w1 = (if df_window cfg \<le> length ?w0 \<and> ?w0 \<noteq> [] then tl ?w0 else ?w0)"
  define w2 where "w2 = w1 @ [(current_difficulty s, now)]"
  have len: "length w1 < df_window cfg"
    using False assms(1) by (cases ?w0) (auto simp: w1_def difficulty_inv_def)
  have "set w1 \<subseteq> set ?w0" by (auto simp: w1_def dest: list.set_sel(2) split: if_splits)
  then have w2: "\<forall>p \<in> set w2. df_min cfg \<le> fst p \<and> fst p \<le> u256_max"
    using assms(1) by (auto simp: w2_def difficulty_inv_def)
  then have "lwma3_next_difficulty w2 (df_target_block_time cfg) \<le> u256_max" by (intro lwma_le) simp
  moreover have "length w2 \<le> df_window cfg" using len by (simp add: w2_def)
  moreover have "adjust cfg now s = (if length w2 < df_window cfg then s\<lparr>past_difficulties := w2\<rparr>
      else s\<lparr>past_difficulties := w2,
             current_difficulty := max (lwma3_next_difficulty w2 (df_target_block_time cfg)) (df_min cfg)\<rparr>)"
    using False len by (simp add: adjust_def Let_def w2_def flip: w1_def)
  ultimately show ?thesis using assms w2 by (simp add: difficulty_inv_def)
qed

text \<open>In every reachable state the difficulty lies between its minimum and the largest \<open>U256\<close>,
  the window never exceeds its capacity and holds only such difficulties.
\<close>

theorem difficulty_reachable_inv:
  assumes "difficulty_reachable cfg initial_difficulty s" "initial_difficulty \<le> u256_max" "df_min cfg \<le> u256_max"
  shows "df_min cfg \<le> current_difficulty s \<and> current_difficulty s \<le> u256_max
    \<and> length (past_difficulties s) \<le> df_window cfg
    \<and> (\<forall>p \<in> set (past_difficulties s). df_min cfg \<le> fst p \<and> fst p \<le> u256_max)"
proof -
  have "difficulty_inv cfg s"
    using assms(1)
  proof (induction rule: difficulty_reachable.induct)
    case 1
    then show ?case using assms(2,3) by (simp add: difficulty_inv_def genesis_difficulty_def)
  next
    case (2 s now)
    then show ?case using adjust_inv assms(3) by blast
  qed
  then show ?thesis by (simp add: difficulty_inv_def)
qed

definition mainnet_difficulty :: difficulty_config where
  "mainnet_difficulty = \<lparr>df_target_block_time = 30000, df_window = 60, df_min = 10000\<rparr>"

lemma difficulty_reachable_inv_witness:
  "10000 \<le> current_difficulty (adjust mainnet_difficulty 5000 (genesis_difficulty mainnet_difficulty 50))
   \<and> length (past_difficulties (adjust mainnet_difficulty 5000 (genesis_difficulty mainnet_difficulty 50))) \<le> 60"
proof -
  have "difficulty_reachable mainnet_difficulty 50 (adjust mainnet_difficulty 5000 (genesis_difficulty mainnet_difficulty 50))"
    by (intro difficulty_reachable.intros)
  from difficulty_reachable_inv [OF this] show ?thesis by (simp add: u256_max_def mainnet_difficulty_def)
qed

subsection \<open>The response to a constant solve time\<close>

text \<open>The products formed without saturation fit: weights are below \<open>2 ^ 32\<close>, times are \<open>u64\<close>.\<close>

lemma lwma_products_fit:
  assumes "i < 2 ^ 32" "m < 2 ^ 32" "x \<le> u64_max"
  shows "i * x \<le> u256_max" "m * (m + 1) \<le> u64_max" "x * (m * (m + 1) div 2) \<le> u256_max"
proof -
  have "i * x \<le> 2 ^ 32 * u64_max" using assms(1,3) by (intro mult_le_mono) simp_all
  then show "i * x \<le> u256_max" by (simp add: u64_max_def u256_max_def)
  have "m * (m + 1) \<le> (2 ^ 32 - 1) * 2 ^ 32" using assms(2) by (intro mult_le_mono) simp_all
  then show m: "m * (m + 1) \<le> u64_max" by (simp add: u64_max_def)
  have "x * (m * (m + 1) div 2) \<le> u64_max * u64_max"
    using assms(3) m by (intro mult_le_mono) linarith+
  then show "x * (m * (m + 1) div 2) \<le> u256_max" by (simp add: u64_max_def u256_max_def)
qed

definition uniform_window :: "nat \<Rightarrow> nat \<Rightarrow> nat \<Rightarrow> nat \<Rightarrow> (nat \<times> nat) list" where
  "uniform_window n d t0 g = map (\<lambda>k. (d, t0 + k * g)) [0..<n]"

lemma lwma_loop_uniform:
  assumes "d \<noteq> 0"
  shows "i \<le> n \<Longrightarrow> 1 \<le> i \<Longrightarrow> w + \<Sum>{i..<n} * min (max g 1) M \<le> u256_max
    \<Longrightarrow> v + (n - i) * (u256_max div d div m) \<le> u256_max
    \<Longrightarrow> lwma_loop m M i (t0 + (i - 1) * g) (map (\<lambda>k. (d, t0 + k * g)) [i..<n]) (w, v)
      = (w + \<Sum>{i..<n} * min (max g 1) M, v + (n - i) * (u256_max div d div m))"
proof (induction "n - i" arbitrary: i w v)
  case 0
  then show ?case by simp
next
  case (Suc k)
  let ?s = "min (max g 1) M" and ?q = "u256_max div d div m"
  have lt: "i < n" using Suc.hyps(2) by simp
  then have split: "\<Sum>{i..<n} = i + \<Sum>{Suc i..<n}" by (simp add: sum.atLeast_Suc_lessThan)
  have gap: "t0 + i * g - (t0 + (i - 1) * g) = g"
    using Suc.prems(2) by (cases i) simp_all
  have w: "sat_add u256_max w (i * ?s) = w + i * ?s"
    using Suc.prems(3) by (intro sat_add_exact) (simp add: split algebra_simps)
  have ni: "n - i = Suc (n - Suc i)" using lt by simp
  have v: "sat_add u256_max v ?q = v + ?q"
    using Suc.prems(4) by (intro sat_add_exact) (simp add: ni algebra_simps)
  have step: "lwma_loop m M i (t0 + (i - 1) * g) (map (\<lambda>k. (d, t0 + k * g)) [i..<n]) (w, v)
      = lwma_loop m M (Suc i) (t0 + i * g) (map (\<lambda>k. (d, t0 + k * g)) [Suc i..<n]) (w + i * ?s, v + ?q)"
    unfolding upt_conv_Cons [OF lt] list.map lwma_loop.simps Let_def prod.case gap w v using assms by simp
  have "lwma_loop m M (Suc i) (t0 + (Suc i - 1) * g) (map (\<lambda>k. (d, t0 + k * g)) [Suc i..<n]) (w + i * ?s, v + ?q)
      = (w + i * ?s + \<Sum>{Suc i..<n} * ?s, v + ?q + (n - Suc i) * ?q)"
  proof (rule Suc.hyps(1))
    show "k = n - Suc i" using Suc.hyps(2) by simp
    show "Suc i \<le> n" using lt by simp
    show "w + i * ?s + \<Sum>{Suc i..<n} * ?s \<le> u256_max" using Suc.prems(3) by (simp add: split distrib_right add.assoc)
    show "v + ?q + (n - Suc i) * ?q \<le> u256_max" using Suc.prems(4) by (simp add: ni)
  qed simp
  then show ?case unfolding step by (simp add: split ni distrib_right add.assoc)
qed

lemma weights_sum: "\<Sum>{1..<Suc m} = m * (m + 1) div 2"
proof -
  have "2 * \<Sum>{1..<Suc m} = m * (m + 1)" by (induction m) auto
  then show ?thesis by simp
qed

text \<open>The harmonic mean of equal difficulties is that difficulty, when it is small enough.\<close>

lemma harmonic_exact:
  fixes U d m :: nat
  assumes "0 < d" "0 < m" "(d + 1) * (m + 1) \<le> U div d"
  shows "U div (m * (U div d div m)) = d" "0 < m * (U div d div m)"
proof -
  let ?q = "U div d div m"
  have q1: "m * ?q \<le> U div d" by (simp add: mult.commute)
  have q2: "U div d + 1 \<le> m * ?q + m" using assms(2) mult_div_mod_eq [of m "U div d"] mod_less_divisor [of m "U div d"] by linarith
  have u1: "d * (U div d) \<le> U" by (simp add: mult.commute)
  have u2: "U + 1 \<le> d * (U div d) + d" using assms(1) mult_div_mod_eq [of d U] mod_less_divisor [of d U] by linarith
  have "m + 1 \<le> (d + 1) * (m + 1)" by simp
  then show pos: "0 < m * ?q" using q2 assms(3) by linarith
  have lo: "d * (m * ?q) \<le> U" using mult_le_mono2 [OF q1, of d] u1 by linarith
  have "(d + 1) * (U div d + 1) \<le> (d + 1) * (m * ?q + m)" by (rule mult_le_mono2 [OF q2])
  moreover have "d * (U div d + 1) = d * (U div d) + d" by simp
  ultimately have "U + 1 + (U div d + 1) \<le> (d + 1) * (m * ?q) + (d + 1) * m"
    using u2 by (simp only: distrib_right distrib_left mult_1 mult_1_right)
  moreover have "(d + 1) * m \<le> U div d" using assms(3) by simp
  ultimately have hi: "U < (d + 1) * (m * ?q)" by linarith
  show "U div (m * ?q) = d"
    using lo hi by (intro div_nat_eqI) (simp_all add: mult.commute)
qed

text \<open>When the window holds one difficulty and the blocks came at one pace, the next difficulty is
  that difficulty scaled by target time over solve time, with the solve time clamped between one
  millisecond and six targets: a steady chain keeps its difficulty, and no pace divides it by more
  than six.
\<close>

theorem lwma_uniform_response:
  assumes "2 \<le> n" "n < 2 ^ 32" "0 < d" "0 < target" "6 * target \<le> u64_max"
    and "(d + 1) * n \<le> u256_max div d" "d * (target * ((n - 1) * n div 2)) \<le> u256_max"
  shows "lwma3_next_difficulty (uniform_window n d t0 g) target = d * target div min (max g 1) (6 * target)
    \<and> lwma3_next_difficulty (uniform_window n d t0 target) target = d
    \<and> d div 6 \<le> lwma3_next_difficulty (uniform_window n d t0 g) target"
proof -
  have eq: "lwma3_next_difficulty (uniform_window n d t0 g) target = d * target div min (max g 1) (6 * target)" for g
  proof -
    define m where "m = n - 1"
    have n: "n = Suc m" "0 < m" using assms(1) by (auto simp: m_def)
    let ?s = "min (max g 1) (6 * target)" and ?q = "u256_max div d div m" and ?S = "m * (m + 1) div 2"
    have M: "sat_mul u64_max 6 target = 6 * target" using assms(5) by (rule sat_mul_exact)
    have s: "0 < ?s" using assms(4) by simp
    have "?s \<le> u64_max" using assms(5) by simp
    have S: "0 < ?S" using n(2) by (cases m) auto
    have "?S * ?s \<le> u64_max * u64_max"
      using lwma_products_fit(2) [of 0 m 0] assms(2,5) n by (intro mult_le_mono) auto
    then have fit1: "0 + \<Sum>{1..<n} * ?s \<le> u256_max"
      unfolding n weights_sum by (simp add: u64_max_def u256_max_def)
    have "m * ?q \<le> u256_max" by (metis div_le_dividend div_times_less_eq_dividend mult.commute order_trans)
    then have fit2: "0 + (n - 1) * ?q \<le> u256_max" by (simp add: n)
    have h: "u256_max div (m * ?q) = d" "0 < m * ?q"
      using harmonic_exact [of d m u256_max] assms(3,6) n by (simp_all add: mult.commute)
    have tl: "tl (uniform_window n d t0 g) = map (\<lambda>k. (d, t0 + k * g)) [1..<n]"
      unfolding uniform_window_def n by (simp add: upt_conv_Cons map_tl [symmetric] del: upt_Suc)
    have hd: "snd (hd (uniform_window n d t0 g)) = t0 + (1 - 1) * g"
      unfolding uniform_window_def n by (simp add: upt_conv_Cons del: upt_Suc)
    have loop: "lwma_loop m (6 * target) 1 (snd (hd (uniform_window n d t0 g))) (tl (uniform_window n d t0 g)) (0, 0)
        = (?S * ?s, m * ?q)"
      unfolding hd tl using lwma_loop_uniform [OF _ _ _ fit1, where ?t0.0 = t0 and v = 0 and m = m] fit2 assms(1,3)
      unfolding n weights_sum by simp
    have len: "length (uniform_window n d t0 g) = n" by (simp add: uniform_window_def)
    have ne: "\<not> n < 2" "m * ?q \<noteq> 0" "?S * ?s \<noteq> 0" using assms(1) h(2) S s by auto
    have nm: "n - 1 = m" by (simp add: m_def)
    have "lwma3_next_difficulty (uniform_window n d t0 g) target = sat_mul u256_max d (target * ?S) div (?S * ?s)"
      unfolding lwma3_next_difficulty_def Let_def len nm M loop prod.case h(1)
      using ne by (simp only: if_False)
    also have "sat_mul u256_max d (target * ?S) = d * (target * ?S)"
      using assms(7) by (intro sat_mul_exact) (simp add: n mult.commute)
    also have "d * (target * ?S) div (?S * ?s) = d * target div ?s"
    proof -
      have "d * (target * ?S) = ?S * (d * target)" by (simp only: mult.assoc mult.commute mult.left_commute)
      then show ?thesis using S by (simp only: div_mult_mult1 nat_neq_iff simp_thms)
    qed
    finally show ?thesis .
  qed
  have "d * target div (6 * target) \<le> d * target div min (max g 1) (6 * target)"
    using assms(4) by (intro div_le_mono2) simp_all
  moreover have "d * target div (6 * target) = d div 6" using assms(4) by (metis div_mult_mult2 nat_neq_iff)
  moreover have "min (max target 1) (6 * target) = target" using assms(4) by simp
  ultimately show ?thesis using eq assms(4) by simp
qed

lemma lwma_uniform_response_witness:
  "lwma3_next_difficulty (uniform_window 60 1000000 5000 15000) 30000 = 2000000"
  using lwma_uniform_response [of 60 1000000 30000 5000 15000] by (simp add: u64_max_def u256_max_def)

end
