(* ===== verification/Popularity.thy ===== *)
theory Popularity
  imports Prelude
begin

text \<open>
  \<open>pallets/popularity/src/lib.rs\<close> and \<open>decay.rs\<close>: the decaying score of a post, the scan that marks
  unpopular posts and the pass that deletes them after a grace period. The post and storage
  pallets, reached through \<open>PostCountProvider\<close>, \<open>PostMutator\<close> and \<open>StorageReleaser\<close>, are functions
  of the configuration on a state \<open>'p\<close>; the laws the pallet needs of them are the locale
  \<open>post_mutator\<close>.
\<close>

subsection \<open>Decay\<close>

definition decay_one :: nat where "decay_one = 1000000000000000000"
definition decay_scale :: nat where "decay_scale = 1000000000000"

text \<open>Exponentiation by squaring in fixed point; an early return of zero is \<^const>\<open>None\<close>.\<close>

function decay_loop :: "nat \<Rightarrow> nat \<Rightarrow> nat \<Rightarrow> nat option" where
  "decay_loop n base res =
     (if n = 0 then Some res
      else let res' = (if odd n then sat_mul u128_max res base div decay_one else res) in
        if odd n \<and> res' = 0 then None
        else let n' = n div 2 in
          if 0 < n'
          then let base' = sat_mul u128_max base base div decay_one in
               if base' = 0 then None else decay_loop n' base' res'
          else Some res')"
  by pat_completeness auto
termination by (relation "measure fst") auto

declare decay_loop.simps [simp del]

definition decay_apply :: "nat \<Rightarrow> nat \<Rightarrow> nat \<Rightarrow> nat \<Rightarrow> nat" where
  "decay_apply score delta_blocks decay_rate max_steps =
     (let steps = min delta_blocks max_steps in
      if steps = 0 \<or> score = 0 then score
      else if decay_rate = 1000000 then score
      else if decay_rate = 0 then 0
      else case decay_loop steps (decay_rate * decay_scale) decay_one of
             None \<Rightarrow> 0
           | Some res \<Rightarrow> (sat_mul u128_max score res div decay_one) mod 2 ^ 64)"

lemma decay_one_eq: "decay_one = 1000000 * decay_scale"
  by (simp add: decay_one_def decay_scale_def)

lemma decay_square:
  assumes "x \<le> decay_one" "y \<le> decay_one"
  shows "sat_mul u128_max x y div decay_one * decay_one \<le> x * y" "sat_mul u128_max x y div decay_one \<le> x"
proof -
  have "x * y \<le> decay_one * decay_one" using assms by (rule mult_le_mono)
  also have "\<dots> \<le> u128_max" by (simp add: decay_one_def u128_max_def)
  finally have e: "sat_mul u128_max x y = x * y" by (rule sat_mul_exact)
  show "sat_mul u128_max x y div decay_one * decay_one \<le> x * y" by (simp add: e)
  show "sat_mul u128_max x y div decay_one \<le> x"
    using assms(2) by (intro sat_mul_div_le) (simp_all add: decay_one_def)
qed

text \<open>The loop never overestimates the power, and never exceeds its accumulator.\<close>

lemma decay_loop_bound:
  "decay_loop n base res = Some x \<Longrightarrow> base \<le> decay_one \<Longrightarrow> res \<le> decay_one
   \<Longrightarrow> x * decay_one ^ n \<le> res * base ^ n \<and> x \<le> res"
proof (induction n base res rule: decay_loop.induct)
  case (1 n base res)
  show ?case
  proof (cases "n = 0")
    case True
    then show ?thesis using 1(2) by (simp add: decay_loop.simps)
  next
    case False
    define res' where "res' = (if odd n then sat_mul u128_max res base div decay_one else res)"
    define base' where "base' = sat_mul u128_max base base div decay_one"
    define k where "k = n div 2"
    have n: "n = 2 * k + (if odd n then 1 else 0)" by (simp add: k_def)
    have r1: "res' * decay_one ^ (n mod 2) \<le> res * base ^ (n mod 2)"
    proof (cases "odd n")
      case True
      then show ?thesis using decay_square(1) [OF 1(4,3)] by (simp add: res'_def odd_iff_mod_2_eq_one)
    next
      case False
      then show ?thesis by (simp add: res'_def)
    qed
    have r2: "res' \<le> res" using decay_square(2) [OF 1(4,3)] by (simp add: res'_def)
    have b1: "base' * decay_one \<le> base * base" "base' \<le> base"
      unfolding base'_def by (rule decay_square [OF 1(3,3)])+
    have nn: "n = 2 * k + n mod 2" by (simp add: k_def)
    show ?thesis
    proof (cases "0 < k")
      case True
      have unf: "decay_loop n base res = (if odd n \<and> res' = 0 then None else if base' = 0 then None
          else decay_loop k base' res')"
        using False True unfolding decay_loop.simps [of n base res] Let_def res'_def base'_def k_def by simp
      then have nz: "\<not> (odd n \<and> res' = 0)" "base' \<noteq> 0" and rec: "decay_loop k base' res' = Some x"
        using 1(2) by (auto split: if_splits)
      have IH: "x * decay_one ^ k \<le> res' * base' ^ k \<and> x \<le> res'"
        by (rule 1(1) [OF False res'_def nz(1) k_def True base'_def nz(2) rec]) (use b1(2) r2 1(3,4) in linarith)+
      have "x * decay_one ^ n = x * decay_one ^ k * (decay_one ^ k * decay_one ^ (n mod 2))"
        by (subst nn) (simp add: power_add mult_2 mult.assoc)
      also have "\<dots> \<le> res' * base' ^ k * (decay_one ^ k * decay_one ^ (n mod 2))"
        using IH by (intro mult_le_mono1) simp
      also have "\<dots> = (res' * decay_one ^ (n mod 2)) * (base' * decay_one) ^ k"
        by (simp add: power_mult_distrib mult_ac)
      also have "\<dots> \<le> (res * base ^ (n mod 2)) * (base * base) ^ k"
        by (rule mult_le_mono [OF r1 power_mono [OF b1(1)]]) simp
      also have "\<dots> = res * base ^ n"
      proof -
        have "(base * base) ^ k = base ^ (2 * k)" by (simp add: power_mult power2_eq_square)
        then have "base ^ n = base ^ (n mod 2) * (base * base) ^ k"
          by (subst nn) (simp only: power_add mult.commute)
        then show ?thesis by (simp only: mult.assoc)
      qed
      finally show ?thesis using IH r2 by simp
    next
      case k0: False
      then have "x = res'" using False 1(2)
        by (subst (asm) decay_loop.simps) (auto simp: Let_def res'_def k_def split: if_splits)
      moreover have "n = n mod 2" using nn k0 by simp
      ultimately show ?thesis using r1 r2 by simp
    qed
  qed
qed

text \<open>Decay never raises a score, never takes it below zero steps of change (it is the identity
  without elapsed blocks), never overestimates the exact exponential, and is monotone in the score,
  so posts keep their order between scans at the same age.
\<close>

theorem decay_apply_sound:
  assumes "score \<le> score'" "score' \<le> u64_max" "decay_rate \<le> 1000000"
  shows "decay_apply score delta decay_rate max_steps \<le> score
    \<and> decay_apply score 0 decay_rate max_steps = score
    \<and> decay_apply score delta decay_rate max_steps * 1000000 ^ min delta max_steps
        \<le> score * decay_rate ^ min delta max_steps
    \<and> decay_apply score delta decay_rate max_steps \<le> decay_apply score' delta decay_rate max_steps"
proof -
  let ?n = "min delta max_steps" and ?b = "decay_rate * decay_scale"
  have b: "?b \<le> decay_one" using assms(3) by (simp add: decay_scale_def decay_one_def)
  show ?thesis
  proof (cases "?n = 0 \<or> decay_rate = 1000000 \<or> decay_rate = 0")
    case True
    then show ?thesis using assms(1) by (auto simp: decay_apply_def Let_def power_0_left)
  next
    case False
    show ?thesis
    proof (cases "decay_loop ?n ?b decay_one")
      case None
      then show ?thesis using False by (auto simp: decay_apply_def Let_def)
    next
      case (Some x)
      have x: "x * decay_one ^ ?n \<le> decay_one * ?b ^ ?n" "x \<le> decay_one"
        using decay_loop_bound [OF Some b] by simp_all
      have val: "decay_apply t delta decay_rate max_steps = t * x div decay_one" "t * x div decay_one \<le> t"
        if "t \<le> u64_max" for t
      proof -
        have "t * x \<le> u64_max * decay_one" using that x(2) by (rule mult_le_mono)
        then have e: "sat_mul u128_max t x = t * x"
          by (intro sat_mul_exact) (simp add: u64_max_def decay_one_def u128_max_def)
        have "t * x div decay_one \<le> t * decay_one div decay_one" using x(2) by (intro div_le_mono) simp
        then show le: "t * x div decay_one \<le> t" by (simp add: decay_one_def)
        then have "t * x div decay_one < 2 ^ 64" using that by (simp add: u64_max_def)
        then show "decay_apply t delta decay_rate max_steps = t * x div decay_one"
          using False Some by (auto simp: decay_apply_def Let_def e)
      qed
      have s: "score \<le> u64_max" using assms(1,2) by simp
      have "score * x div decay_one * decay_one \<le> score * x" by simp
      then have "(score * x div decay_one * decay_one) * decay_one ^ ?n \<le> score * (x * decay_one ^ ?n)"
        by (metis mult.assoc mult_le_mono1)
      also have "\<dots> \<le> score * (decay_one * ?b ^ ?n)" by (rule mult_le_mono2 [OF x(1)])
      finally have "decay_one * (score * x div decay_one * decay_one ^ ?n) \<le> decay_one * (score * ?b ^ ?n)"
        by (simp only: mult_ac)
      moreover have pos: "0 < decay_one" "0 < decay_scale ^ ?n" by (simp_all add: decay_one_def decay_scale_def)
      ultimately have "score * x div decay_one * decay_one ^ ?n \<le> score * ?b ^ ?n"
        by (simp only: nat_mult_le_cancel1)
      moreover have "decay_one ^ ?n = 1000000 ^ ?n * decay_scale ^ ?n" "?b ^ ?n = decay_rate ^ ?n * decay_scale ^ ?n"
        by (simp_all only: decay_one_eq power_mult_distrib)
      ultimately have "decay_scale ^ ?n * (score * x div decay_one * 1000000 ^ ?n) \<le> decay_scale ^ ?n * (score * decay_rate ^ ?n)"
        by (simp only: mult_ac)
      then have "score * x div decay_one * 1000000 ^ ?n \<le> score * decay_rate ^ ?n"
        by (simp only: nat_mult_le_cancel1 pos)
      moreover have "score * x div decay_one \<le> score' * x div decay_one"
        using assms(1) by (intro div_le_mono mult_le_mono1)
      moreover have "decay_apply score 0 decay_rate max_steps = score" by (simp add: decay_apply_def)
      ultimately show ?thesis using val [OF s] val [OF assms(2)] by simp
    qed
  qed
qed

lemma decay_apply_sound_witness:
  "decay_apply 100000 7 999950 1000000 * 1000000 ^ 7 \<le> 100000 * 999950 ^ 7"
  using decay_apply_sound [of 100000 100000 999950 7 1000000] by (simp add: u64_max_def)

subsection \<open>The pallet\<close>

datatype popularity_reaction = PopLike | PopDislike

record post_popularity =
  pp_stored_score :: nat
  pp_last_touched :: block_number
  pp_like_count :: nat
  pp_dislike_count :: nat
  pp_marked_at :: "block_number option"

text \<open>
  The storage map \<open>DeletionQueue\<close> is iterated in the order of its hashed keys, so it is a list of
  entries; \<open>pc_key\<close> is the hashed key of a post id (\<open>Blake2_128Concat\<close>) as a number.
\<close>

record 'p popularity_config =
  pc_initial_score :: nat
  pc_like_weight :: nat
  pc_dislike_weight :: nat
  pc_decay_rate :: nat
  pc_threshold :: nat
  pc_margin :: nat
  pc_grace :: nat
  pc_max_scanned :: nat
  pc_max_deletions :: nat
  pc_max_reads :: nat
  pc_max_steps :: nat
  pc_next_post_id :: "'p \<Rightarrow> nat"
  pc_delete_post :: "nat \<Rightarrow> 'p \<Rightarrow> (hash256 \<times> 'p) option"
  pc_release_fragment :: "hash256 \<Rightarrow> 'p \<Rightarrow> 'p option"
  pc_key :: "nat \<Rightarrow> nat"

datatype popularity_event =
    PostMarkedForDeletion nat block_number | PostUnmarkedForDeletion nat | PostDeleted nat

record popularity_state =
  post_scores :: "nat \<rightharpoonup> post_popularity"
  deletion_queue :: "(nat \<times> block_number) list"
  scan_cursor :: nat
  deletion_cursor :: "nat option"
  popularity_events :: "popularity_event list"

definition genesis_popularity :: popularity_state where
  "genesis_popularity = \<lparr>post_scores = \<lambda>_. None, deletion_queue = [], scan_cursor = 0,
     deletion_cursor = None, popularity_events = []\<rparr>"

definition popularity_deposit_event :: "popularity_event \<Rightarrow> popularity_state \<Rightarrow> popularity_state" where
  "popularity_deposit_event e s = s\<lparr>popularity_events := popularity_events s @ [e]\<rparr>"

fun queue_insert :: "(nat \<Rightarrow> nat) \<Rightarrow> nat \<Rightarrow> block_number \<Rightarrow> (nat \<times> block_number) list \<Rightarrow> (nat \<times> block_number) list" where
  "queue_insert key pid e [] = [(pid, e)]"
| "queue_insert key pid e ((j, f) # q) =
     (if j = pid then (pid, e) # q
      else if key pid < key j then (pid, e) # (j, f) # q
      else (j, f) # queue_insert key pid e q)"

definition queue_remove :: "nat \<Rightarrow> (nat \<times> block_number) list \<Rightarrow> (nat \<times> block_number) list" where
  "queue_remove pid q = filter (\<lambda>(j, _). j \<noteq> pid) q"

definition effective_score_now :: "'p popularity_config \<Rightarrow> block_number \<Rightarrow> post_popularity \<Rightarrow> nat" where
  "effective_score_now cfg now p =
     decay_apply (pp_stored_score p) (now - pp_last_touched p) (pc_decay_rate cfg) (pc_max_steps cfg)"

definition fresh_popularity :: "'p popularity_config \<Rightarrow> block_number \<Rightarrow> post_popularity" where
  "fresh_popularity cfg now = \<lparr>pp_stored_score = pc_initial_score cfg, pp_last_touched = now,
     pp_like_count = 0, pp_dislike_count = 0, pp_marked_at = None\<rparr>"

definition on_post_created :: "'p popularity_config \<Rightarrow> block_number \<Rightarrow> nat \<Rightarrow> popularity_state \<Rightarrow> popularity_state" where
  "on_post_created cfg now pid s = s\<lparr>post_scores := (post_scores s)(pid \<mapsto> fresh_popularity cfg now)\<rparr>"

definition on_reaction ::
  "'p popularity_config \<Rightarrow> block_number \<Rightarrow> nat \<Rightarrow> popularity_reaction \<Rightarrow> popularity_state \<Rightarrow> popularity_state" where
  "on_reaction cfg now pid kind s =
     (let p0 = (case post_scores s pid of None \<Rightarrow> fresh_popularity cfg now | Some p \<Rightarrow> p);
          p1 = p0\<lparr>pp_stored_score := effective_score_now cfg now p0, pp_last_touched := now\<rparr>;
          (p2, delta) = (case kind of
              PopLike \<Rightarrow> (p1\<lparr>pp_like_count := sat_add u32_max (pp_like_count p1) 1\<rparr>, pc_like_weight cfg)
            | PopDislike \<Rightarrow> (p1\<lparr>pp_dislike_count := sat_add u32_max (pp_dislike_count p1) 1\<rparr>, pc_dislike_weight cfg));
          p3 = p2\<lparr>pp_stored_score := sat_add u64_max (pp_stored_score p2) delta\<rparr>;
          recovery = sat_add u64_max (pc_threshold cfg) (pc_margin cfg)
      in if pp_marked_at p3 \<noteq> None \<and> recovery \<le> pp_stored_score p3
         then popularity_deposit_event (PostUnmarkedForDeletion pid)
                (s\<lparr>post_scores := (post_scores s)(pid \<mapsto> p3\<lparr>pp_marked_at := None\<rparr>),
                   deletion_queue := queue_remove pid (deletion_queue s)\<rparr>)
         else s\<lparr>post_scores := (post_scores s)(pid \<mapsto> p3)\<rparr>)"

text \<open>One step of the scan.\<close>

definition scan_one :: "'p popularity_config \<Rightarrow> block_number \<Rightarrow> nat \<Rightarrow> popularity_state \<Rightarrow> popularity_state" where
  "scan_one cfg now pid s =
     (case post_scores s pid of
        None \<Rightarrow> s
      | Some p \<Rightarrow>
          let eff = effective_score_now cfg now p;
              recovery = sat_add u64_max (pc_threshold cfg) (pc_margin cfg);
              touched = (\<lambda>q. q\<lparr>pp_stored_score := eff, pp_last_touched := now\<rparr>)
          in if eff < pc_threshold cfg \<and> pp_marked_at p = None
             then popularity_deposit_event (PostMarkedForDeletion pid now)
                    (s\<lparr>post_scores := (post_scores s)(pid \<mapsto> touched (p\<lparr>pp_marked_at := Some now\<rparr>)),
                       deletion_queue := queue_insert (pc_key cfg) pid (sat_add u32_max now (pc_grace cfg)) (deletion_queue s)\<rparr>)
             else if recovery \<le> eff \<and> pp_marked_at p \<noteq> None
             then popularity_deposit_event (PostUnmarkedForDeletion pid)
                    (s\<lparr>post_scores := (post_scores s)(pid \<mapsto> touched (p\<lparr>pp_marked_at := None\<rparr>)),
                       deletion_queue := queue_remove pid (deletion_queue s)\<rparr>)
             else s\<lparr>post_scores := (post_scores s)(pid \<mapsto> touched p)\<rparr>)"

primrec scan_loop :: "'p popularity_config \<Rightarrow> block_number \<Rightarrow> nat \<Rightarrow> nat \<Rightarrow> nat \<Rightarrow> popularity_state \<Rightarrow> nat \<times> popularity_state" where
  "scan_loop cfg now max_post_id 0 cursor s = (cursor, s)"
| "scan_loop cfg now max_post_id (Suc remaining) cursor s =
     (let pid = (if max_post_id \<le> cursor then 0 else cursor)
      in scan_loop cfg now max_post_id remaining (sat_add u64_max pid 1) (scan_one cfg now pid s))"

definition run_scan_pass :: "'p popularity_config \<Rightarrow> block_number \<Rightarrow> popularity_state \<times> 'p \<Rightarrow> popularity_state \<times> 'p" where
  "run_scan_pass cfg now = (\<lambda>(s, p).
     let max_post_id = pc_next_post_id cfg p in
     if max_post_id = 0 then (s, p)
     else let (cursor, s1) = scan_loop cfg now max_post_id (pc_max_scanned cfg) (scan_cursor s) s
          in (s1\<lparr>scan_cursor := if max_post_id \<le> cursor then 0 else cursor\<rparr>, p))"

text \<open>
  The deletion pass reads at most \<open>MaxDeletionScanReads\<close> entries after the cursor, stops at
  \<open>MaxDeletionsPerBlock\<close> eligible ones, and restarts when the queue is exhausted.
\<close>

primrec collect_eligible ::
  "block_number \<Rightarrow> nat \<Rightarrow> (nat \<times> block_number) list \<Rightarrow> nat \<Rightarrow> nat list \<Rightarrow> nat option \<Rightarrow> nat list \<times> nat option" where
  "collect_eligible now delete_limit [] reads cands cursor = (if reads = 0 then (cands, cursor) else (cands, None))"
| "collect_eligible now delete_limit (entry # q) reads cands cursor =
     (if reads = 0 then (cands, cursor)
      else let (pid, eligible_at) = entry in
        if eligible_at \<le> now
        then let cands' = cands @ [pid] in
             if delete_limit \<le> length cands' then (cands', Some pid)
             else collect_eligible now delete_limit q (reads - 1) cands' (Some pid)
        else collect_eligible now delete_limit q (reads - 1) cands (Some pid))"

definition delete_one :: "'p popularity_config \<Rightarrow> nat \<Rightarrow> popularity_state \<times> 'p \<Rightarrow> popularity_state \<times> 'p" where
  "delete_one cfg pid = (\<lambda>(s, p).
     case pc_delete_post cfg pid p of
       Some (merkle_root, p1) \<Rightarrow>
         let p2 = (case pc_release_fragment cfg merkle_root p1 of None \<Rightarrow> p1 | Some q \<Rightarrow> q)
         in (popularity_deposit_event (PostDeleted pid)
               (s\<lparr>post_scores := (post_scores s)(pid := None),
                  deletion_queue := queue_remove pid (deletion_queue s)\<rparr>), p2)
     | None \<Rightarrow> (s\<lparr>deletion_queue := queue_remove pid (deletion_queue s)\<rparr>, p))"

definition run_deletion_pass :: "'p popularity_config \<Rightarrow> block_number \<Rightarrow> popularity_state \<times> 'p \<Rightarrow> popularity_state \<times> 'p" where
  "run_deletion_pass cfg now = (\<lambda>(s, p).
     if pc_max_deletions cfg = 0 \<or> pc_max_reads cfg = 0 then (s, p)
     else let from = (case deletion_cursor s of
                        Some pid \<Rightarrow> filter (\<lambda>(j, _). pc_key cfg pid < pc_key cfg j) (deletion_queue s)
                      | None \<Rightarrow> deletion_queue s);
              (cands, new_cursor) = collect_eligible now (pc_max_deletions cfg) from (pc_max_reads cfg) [] (deletion_cursor s)
          in fold (delete_one cfg) cands (s\<lparr>deletion_cursor := new_cursor\<rparr>, p))"

definition popularity_on_finalize :: "'p popularity_config \<Rightarrow> block_number \<Rightarrow> popularity_state \<times> 'p \<Rightarrow> popularity_state \<times> 'p" where
  "popularity_on_finalize cfg now sp = run_deletion_pass cfg now (run_scan_pass cfg now sp)"

definition get_net_count :: "popularity_state \<Rightarrow> nat \<Rightarrow> int option" where
  "get_net_count s pid = map_option (\<lambda>p. int (pp_like_count p) - int (pp_dislike_count p)) (post_scores s pid)"

subsection \<open>Marks and the deletion queue\<close>

definition queue_sorted :: "(nat \<Rightarrow> nat) \<Rightarrow> (nat \<times> block_number) list \<Rightarrow> bool" where
  "queue_sorted key q \<longleftrightarrow> sorted_wrt (\<lambda>x y. key (fst x) < key (fst y)) q"

text \<open>Every queued post is marked, and its deletion is due exactly one grace period after the mark.\<close>

definition popularity_inv :: "'p popularity_config \<Rightarrow> popularity_state \<Rightarrow> bool" where
  "popularity_inv cfg s \<longleftrightarrow> queue_sorted (pc_key cfg) (deletion_queue s)
     \<and> (\<forall>(pid, e) \<in> set (deletion_queue s). \<exists>p m. post_scores s pid = Some p
          \<and> pp_marked_at p = Some m \<and> e = sat_add u32_max m (pc_grace cfg))"

lemma popularity_invD:
  "popularity_inv cfg s \<Longrightarrow> (pid, e) \<in> set (deletion_queue s) \<Longrightarrow>
   \<exists>p m. post_scores s pid = Some p \<and> pp_marked_at p = Some m \<and> e = sat_add u32_max m (pc_grace cfg)"
  by (auto simp: popularity_inv_def)

lemma queue_insert_set:
  "pid \<notin> fst ` set q \<Longrightarrow> set (queue_insert key pid e q) = insert (pid, e) (set q)"
  by (induction q) (auto split: if_splits)

lemma queue_insert_sorted:
  assumes "inj key"
  shows "pid \<notin> fst ` set q \<Longrightarrow> queue_sorted key q \<Longrightarrow> queue_sorted key (queue_insert key pid e q)"
proof (induction q)
  case (Cons x q)
  obtain j f where x: "x = (j, f)" by fastforce
  have ne: "j \<noteq> pid" and notin: "pid \<notin> fst ` set q" using Cons.prems(1) by (auto simp: x)
  have rest: "queue_sorted key q" "\<forall>y \<in> set q. key j < key (fst y)" using Cons.prems(2) by (auto simp: queue_sorted_def x)
  show ?case
  proof (cases "key pid < key j")
    case True
    then show ?thesis using Cons.prems(2) ne rest(2) by (fastforce simp: queue_sorted_def x)
  next
    case False
    then have "key j < key pid" using ne assms by (metis injD linorder_neqE_nat)
    then show ?thesis using False ne Cons.IH [OF notin rest(1)] rest(2) queue_insert_set [OF notin]
      by (auto simp: queue_sorted_def x)
  qed
qed (simp add: queue_sorted_def)

lemma queue_remove_facts:
  "(j, e) \<in> set (queue_remove pid q) \<longleftrightarrow> (j, e) \<in> set q \<and> j \<noteq> pid"
  "queue_sorted key q \<Longrightarrow> queue_sorted key (queue_remove pid q)"
  by (auto simp: queue_remove_def queue_sorted_def intro: sorted_wrt_filter)

text \<open>Storing a post's entry keeps the invariant when the mark keeps step with the queue.\<close>

lemma popularity_inv_keep:
  assumes "popularity_inv cfg s" "\<And>p0. post_scores s pid = Some p0 \<Longrightarrow> pp_marked_at p0 = pp_marked_at p"
    and "deletion_queue s' = deletion_queue s" "post_scores s' = (post_scores s)(pid \<mapsto> p)"
  shows "popularity_inv cfg s'"
  using assms(1,2) unfolding popularity_inv_def assms(3,4) by fastforce

lemma popularity_inv_remove:
  assumes "popularity_inv cfg s" "deletion_queue s' = queue_remove pid (deletion_queue s)"
    and "\<And>j. j \<noteq> pid \<Longrightarrow> post_scores s' j = post_scores s j"
  shows "popularity_inv cfg s'"
  unfolding popularity_inv_def assms(2)
proof (intro conjI ballI, goal_cases)
  case 1
  then show ?case using assms(1) queue_remove_facts(2) by (auto simp: popularity_inv_def)
next
  case (2 x)
  obtain j e where x: "x = (j, e)" by fastforce
  with 2 have "(j, e) \<in> set (deletion_queue s)" "j \<noteq> pid" by (simp_all add: queue_remove_facts)
  then show ?case using popularity_invD [OF assms(1)] assms(3) by (simp add: x)
qed

lemma popularity_inv_insert:
  assumes "popularity_inv cfg s" "inj (pc_key cfg)" "pp_marked_at p = Some m"
    and "\<And>p0. post_scores s pid = Some p0 \<Longrightarrow> pp_marked_at p0 = None"
    and "deletion_queue s' = queue_insert (pc_key cfg) pid (sat_add u32_max m (pc_grace cfg)) (deletion_queue s)"
    and "post_scores s' = (post_scores s)(pid \<mapsto> p)"
  shows "popularity_inv cfg s'"
proof -
  have fresh: "pid \<notin> fst ` set (deletion_queue s)"
    using popularity_invD [OF assms(1)] assms(4) by fastforce
  have "queue_sorted (pc_key cfg) (deletion_queue s')"
    unfolding assms(5) using queue_insert_sorted [OF assms(2) fresh] assms(1) by (simp add: popularity_inv_def)
  moreover have "\<exists>p m. post_scores s' j = Some p \<and> pp_marked_at p = Some m \<and> e = sat_add u32_max m (pc_grace cfg)"
    if "(j, e) \<in> set (deletion_queue s')" for j e
  proof (cases "j = pid")
    case True
    then show ?thesis using that fresh queue_insert_set [OF fresh] assms(3) by (force simp: assms(5,6))
  next
    case False
    then have "(j, e) \<in> set (deletion_queue s)" using that queue_insert_set [OF fresh] by (simp add: assms(5))
    then show ?thesis using popularity_invD [OF assms(1)] False by (simp add: assms(6))
  qed
  ultimately show ?thesis by (auto simp: popularity_inv_def)
qed

lemma popularity_event_fields [simp]:
  "deletion_queue (popularity_deposit_event e s) = deletion_queue s"
  "post_scores (popularity_deposit_event e s) = post_scores s"
  "popularity_events (popularity_deposit_event e s) = popularity_events s @ [e]"
  by (simp_all add: popularity_deposit_event_def)

lemma on_post_created_inv:
  assumes "popularity_inv cfg s" "post_scores s pid = None"
  shows "popularity_inv cfg (on_post_created cfg now pid s)"
  by (rule popularity_inv_keep [OF assms(1), of pid "fresh_popularity cfg now"])
    (simp_all add: assms(2) on_post_created_def)

lemma on_reaction_inv:
  assumes "popularity_inv cfg s"
  shows "popularity_inv cfg (on_reaction cfg now pid kind s)"
proof -
  define p0 where "p0 = (case post_scores s pid of None \<Rightarrow> fresh_popularity cfg now | Some p \<Rightarrow> p)"
  obtain p3 where p3: "pp_marked_at p3 = pp_marked_at p0"
    and res: "on_reaction cfg now pid kind s =
      (if pp_marked_at p3 \<noteq> None \<and> sat_add u64_max (pc_threshold cfg) (pc_margin cfg) \<le> pp_stored_score p3
         then popularity_deposit_event (PostUnmarkedForDeletion pid)
                (s\<lparr>post_scores := (post_scores s)(pid \<mapsto> p3\<lparr>pp_marked_at := None\<rparr>),
                   deletion_queue := queue_remove pid (deletion_queue s)\<rparr>)
         else s\<lparr>post_scores := (post_scores s)(pid \<mapsto> p3)\<rparr>)"
    by (rule that [of "snd (let p1 = p0\<lparr>pp_stored_score := effective_score_now cfg now p0, pp_last_touched := now\<rparr>;
          (p2, delta) = (case kind of
              PopLike \<Rightarrow> (p1\<lparr>pp_like_count := sat_add u32_max (pp_like_count p1) 1\<rparr>, pc_like_weight cfg)
            | PopDislike \<Rightarrow> (p1\<lparr>pp_dislike_count := sat_add u32_max (pp_dislike_count p1) 1\<rparr>, pc_dislike_weight cfg))
          in ((), p2\<lparr>pp_stored_score := sat_add u64_max (pp_stored_score p2) delta\<rparr>))"])
      (simp_all add: on_reaction_def Let_def flip: p0_def split: popularity_reaction.splits)
  show ?thesis
  proof (cases "pp_marked_at p3 \<noteq> None \<and> sat_add u64_max (pc_threshold cfg) (pc_margin cfg) \<le> pp_stored_score p3")
    case True
    then show ?thesis unfolding res by (intro popularity_inv_remove [OF assms, of _ pid]) auto
  next
    case False
    show ?thesis unfolding res if_not_P [OF False]
      by (rule popularity_inv_keep [OF assms, of pid p3]) (simp_all add: p3 p0_def)
  qed
qed

lemma scan_one_inv:
  assumes "popularity_inv cfg s" "inj (pc_key cfg)"
  shows "popularity_inv cfg (scan_one cfg now pid s)"
proof (cases "post_scores s pid")
  case None
  then show ?thesis using assms(1) by (simp add: scan_one_def)
next
  case (Some p)
  let ?eff = "effective_score_now cfg now p" and ?rec = "sat_add u64_max (pc_threshold cfg) (pc_margin cfg)"
  consider (mark) "?eff < pc_threshold cfg \<and> pp_marked_at p = None"
    | (unmark) "\<not> (?eff < pc_threshold cfg \<and> pp_marked_at p = None)" "?rec \<le> ?eff \<and> pp_marked_at p \<noteq> None"
    | (keep) "\<not> (?eff < pc_threshold cfg \<and> pp_marked_at p = None)" "\<not> (?rec \<le> ?eff \<and> pp_marked_at p \<noteq> None)"
    by blast
  then show ?thesis
  proof cases
    case mark
    show ?thesis
      by (rule popularity_inv_insert [OF assms, of "p\<lparr>pp_marked_at := Some now, pp_stored_score := ?eff, pp_last_touched := now\<rparr>" now pid])
        (use mark Some in \<open>simp_all add: scan_one_def Let_def\<close>)
  next
    case unmark
    show ?thesis
      by (rule popularity_inv_remove [OF assms(1), of _ pid]) (use unmark Some in \<open>auto simp: scan_one_def Let_def\<close>)
  next
    case keep
    show ?thesis
      by (rule popularity_inv_keep [OF assms(1), of pid "p\<lparr>pp_stored_score := ?eff, pp_last_touched := now\<rparr>"])
        (use keep Some in \<open>auto simp: scan_one_def Let_def\<close>)
  qed
qed

lemma run_scan_pass_inv:
  assumes "popularity_inv cfg s" "inj (pc_key cfg)" "run_scan_pass cfg now (s, p) = (s', p')"
  shows "popularity_inv cfg s'"
proof -
  have loop: "popularity_inv cfg t \<Longrightarrow> popularity_inv cfg (snd (scan_loop cfg now mx k c t))" for mx k c t
    by (induction k arbitrary: c t) (simp_all add: Let_def scan_one_inv [OF _ assms(2)])
  have "popularity_inv cfg (t\<lparr>scan_cursor := c\<rparr>) = popularity_inv cfg t" for t c
    by (simp add: popularity_inv_def)
  then show ?thesis
    using assms(1,3) loop [OF assms(1), of "pc_next_post_id cfg p" "pc_max_scanned cfg" "scan_cursor s"]
    by (auto simp: run_scan_pass_def Let_def split: if_splits prod.splits)
qed

subsection \<open>The deletion pass\<close>

lemma collect_eligible_facts:
  assumes "collect_eligible now limit q reads cands cursor = (cands', cursor')"
  shows "set cands' \<subseteq> set cands \<union> {pid. \<exists>e. (pid, e) \<in> set q \<and> e \<le> now}"
    and "length cands < limit \<Longrightarrow> length cands' \<le> limit"
    and "length cands' \<le> length cands + reads"
  using assms
proof (induction q arbitrary: reads cands cursor)
  case (Cons x q)
  {
    case 1
    then show ?case using Cons.IH(1) by (force simp: Let_def split: if_splits prod.splits)
  next
    case 2
    then show ?case using Cons.IH(2) by (force simp: Let_def split: if_splits prod.splits)
  next
    case 3
    then show ?case using Cons.IH(3) by (fastforce simp: Let_def split: if_splits prod.splits)
  }
qed (auto split: if_splits)

lemma delete_one_effect:
  assumes "delete_one cfg pid (s, p) = (s', p')"
  shows "deletion_queue s' = queue_remove pid (deletion_queue s)"
    and "(popularity_events s' = popularity_events s @ [PostDeleted pid] \<and> post_scores s' = (post_scores s)(pid := None))
      \<or> (popularity_events s' = popularity_events s \<and> post_scores s' = post_scores s)"
  using assms by (auto simp: delete_one_def split: option.splits prod.splits)

lemma delete_all_effect:
  assumes "fold (delete_one cfg) cands (s, p) = (s', p')"
  shows "\<exists>es. popularity_events s' = popularity_events s @ es \<and> length es \<le> length cands
    \<and> (\<forall>e \<in> set es. \<exists>pid \<in> set cands. e = PostDeleted pid)
    \<and> (\<forall>pid. post_scores s' pid = (if PostDeleted pid \<in> set es then None else post_scores s pid))
    \<and> (popularity_inv cfg s \<longrightarrow> popularity_inv cfg s')"
  using assms
proof (induction cands arbitrary: s p)
  case Nil
  then show ?case by (intro exI [of _ "[]"]) simp
next
  case (Cons c cands)
  obtain s1 p1 where one: "delete_one cfg c (s, p) = (s1, p1)" by fastforce
  note eff = delete_one_effect [OF one]
  have "fold (delete_one cfg) cands (s1, p1) = (s', p')" using Cons.prems by (simp add: one)
  from Cons.IH [OF this] obtain es where es: "popularity_events s' = popularity_events s1 @ es"
    "length es \<le> length cands" "\<forall>e \<in> set es. \<exists>pid \<in> set cands. e = PostDeleted pid"
    "\<forall>pid. post_scores s' pid = (if PostDeleted pid \<in> set es then None else post_scores s1 pid)"
    "popularity_inv cfg s1 \<longrightarrow> popularity_inv cfg s'" by blast
  have "popularity_inv cfg s1" if "popularity_inv cfg s"
    by (rule popularity_inv_remove [OF that eff(1)]) (use eff(2) in auto)
  then have inv: "popularity_inv cfg s \<longrightarrow> popularity_inv cfg s'" using es(5) by blast
  from eff(2) show ?case
  proof
    assume d: "popularity_events s1 = popularity_events s @ [PostDeleted c] \<and> post_scores s1 = (post_scores s)(c := None)"
    show ?case
      by (intro exI [of _ "PostDeleted c # es"]) (use d es inv in auto)
  next
    assume "popularity_events s1 = popularity_events s \<and> post_scores s1 = post_scores s"
    then show ?case using es inv by (intro exI [of _ es]) auto
  qed
qed

lemma run_deletion_pass_effect:
  assumes "run_deletion_pass cfg now (s, p) = (s', p')"
  shows "\<exists>es. popularity_events s' = popularity_events s @ es
    \<and> length es \<le> min (pc_max_deletions cfg) (pc_max_reads cfg)
    \<and> (\<forall>e \<in> set es. \<exists>pid d. e = PostDeleted pid \<and> (pid, d) \<in> set (deletion_queue s) \<and> d \<le> now)
    \<and> (\<forall>pid. post_scores s' pid = (if PostDeleted pid \<in> set es then None else post_scores s pid))
    \<and> (popularity_inv cfg s \<longrightarrow> popularity_inv cfg s')"
proof (cases "pc_max_deletions cfg = 0 \<or> pc_max_reads cfg = 0")
  case True
  then show ?thesis using assms by (intro exI [of _ "[]"]) (auto simp: run_deletion_pass_def)
next
  case False
  define q where "q = (case deletion_cursor s of
      Some pid \<Rightarrow> filter (\<lambda>(j, _). pc_key cfg pid < pc_key cfg j) (deletion_queue s) | None \<Rightarrow> deletion_queue s)"
  obtain cands c' where col: "collect_eligible now (pc_max_deletions cfg) q (pc_max_reads cfg) [] (deletion_cursor s) = (cands, c')"
    by fastforce
  note facts = collect_eligible_facts [OF col]
  have q: "set q \<subseteq> set (deletion_queue s)" by (auto simp: q_def split: option.splits)
  have f: "fold (delete_one cfg) cands (s\<lparr>deletion_cursor := c'\<rparr>, p) = (s', p')"
    using assms False col by (auto simp: run_deletion_pass_def Let_def q_def split: if_splits)
  from delete_all_effect [OF f] obtain es where es: "popularity_events s' = popularity_events s @ es"
    "length es \<le> length cands" "\<forall>e \<in> set es. \<exists>pid \<in> set cands. e = PostDeleted pid"
    "\<forall>pid. post_scores s' pid = (if PostDeleted pid \<in> set es then None else post_scores s pid)"
    "popularity_inv cfg (s\<lparr>deletion_cursor := c'\<rparr>) \<longrightarrow> popularity_inv cfg s'" by auto
  moreover have "length cands \<le> min (pc_max_deletions cfg) (pc_max_reads cfg)"
    using facts(2,3) False by simp
  moreover have "\<exists>d. (pid, d) \<in> set (deletion_queue s) \<and> d \<le> now" if "pid \<in> set cands" for pid
    using facts(1) q that by auto
  moreover have "popularity_inv cfg (s\<lparr>deletion_cursor := c'\<rparr>) = popularity_inv cfg s" by (simp add: popularity_inv_def)
  ultimately show ?thesis by (intro exI [of _ es]) (metis order_trans)
qed

inductive popularity_reachable :: "'p popularity_config \<Rightarrow> block_number \<Rightarrow> popularity_state \<times> 'p \<Rightarrow> bool"
  for cfg :: "'p popularity_config" where
  pop_genesis: "popularity_reachable cfg 0 (genesis_popularity, p)"
| pop_created: "popularity_reachable cfg now (s, p) \<Longrightarrow> post_scores s pid = None \<Longrightarrow>
     popularity_reachable cfg now (on_post_created cfg now pid s, p)"
| pop_reaction: "popularity_reachable cfg now (s, p) \<Longrightarrow> popularity_reachable cfg now (on_reaction cfg now pid kind s, p)"
| pop_environment: "popularity_reachable cfg now (s, p) \<Longrightarrow> popularity_reachable cfg now (s, p')"
| pop_block: "popularity_reachable cfg now sp \<Longrightarrow> popularity_reachable cfg (now + 1) (popularity_on_finalize cfg now sp)"

lemma popularity_reachable_inv:
  assumes "popularity_reachable cfg now sp" "inj (pc_key cfg)"
  shows "popularity_inv cfg (fst sp)"
  using assms(1)
proof (induction rule: popularity_reachable.induct)
  case (pop_genesis p)
  then show ?case by (simp add: popularity_inv_def genesis_popularity_def queue_sorted_def)
next
  case (pop_created now s p pid)
  then show ?case using on_post_created_inv by simp
next
  case (pop_reaction now s p pid kind)
  then show ?case using on_reaction_inv by simp
next
  case (pop_block now sp)
  obtain s p s1 p1 s2 p2 where sp: "sp = (s, p)" "run_scan_pass cfg now (s, p) = (s1, p1)"
    "run_deletion_pass cfg now (s1, p1) = (s2, p2)" by (metis surj_pair)
  have "popularity_inv cfg s1" using run_scan_pass_inv [OF _ assms(2) sp(2)] pop_block.IH by (simp add: sp(1))
  then show ?case using run_deletion_pass_effect [OF sp(3)] by (auto simp: popularity_on_finalize_def sp)
qed simp

text \<open>At the end of any block of a reachable run, every post the policy deletes is marked at some
  block at least the grace period before (saturating at the last block number); at most
  \<open>MaxDeletionsPerBlock\<close> and at most \<open>MaxDeletionScanReads\<close> posts go in one block; and the entries
  of all other posts are exactly those the scan left.
\<close>

theorem deletion_respects_grace:
  assumes "popularity_reachable cfg now (s, p)" "inj (pc_key cfg)"
    and "run_scan_pass cfg now (s, p) = (s1, p1)" "popularity_on_finalize cfg now (s, p) = (s2, p2)"
  shows "\<exists>deleted. popularity_events s2 = popularity_events s1 @ deleted
    \<and> length deleted \<le> pc_max_deletions cfg \<and> length deleted \<le> pc_max_reads cfg
    \<and> (\<forall>e \<in> set deleted. \<exists>pid q m. e = PostDeleted pid \<and> post_scores s1 pid = Some q
          \<and> pp_marked_at q = Some m \<and> sat_add u32_max m (pc_grace cfg) \<le> now)
    \<and> (\<forall>pid. post_scores s2 pid = (if PostDeleted pid \<in> set deleted then None else post_scores s1 pid))"
proof -
  have "popularity_inv cfg s" using popularity_reachable_inv [OF assms(1,2)] by simp
  then have inv: "popularity_inv cfg s1" by (rule run_scan_pass_inv [OF _ assms(2,3)])
  have "run_deletion_pass cfg now (s1, p1) = (s2, p2)"
    using assms(3,4) by (simp add: popularity_on_finalize_def)
  from run_deletion_pass_effect [OF this] obtain es where es:
    "popularity_events s2 = popularity_events s1 @ es"
    "length es \<le> min (pc_max_deletions cfg) (pc_max_reads cfg)"
    "\<forall>e \<in> set es. \<exists>pid d. e = PostDeleted pid \<and> (pid, d) \<in> set (deletion_queue s1) \<and> d \<le> now"
    "\<forall>pid. post_scores s2 pid = (if PostDeleted pid \<in> set es then None else post_scores s1 pid)" by blast
  moreover have "\<forall>e \<in> set es. \<exists>pid q m. e = PostDeleted pid \<and> post_scores s1 pid = Some q
          \<and> pp_marked_at q = Some m \<and> sat_add u32_max m (pc_grace cfg) \<le> now"
    using es(3) popularity_invD [OF inv] by metis
  ultimately show ?thesis by (intro exI [of _ es]) simp
qed

definition demo_popularity :: "unit popularity_config" where
  "demo_popularity = \<lparr>pc_initial_score = 5, pc_like_weight = 100, pc_dislike_weight = 50,
     pc_decay_rate = 999950, pc_threshold = 1000, pc_margin = 500, pc_grace = 0, pc_max_scanned = 2,
     pc_max_deletions = 4, pc_max_reads = 16, pc_max_steps = 1000000, pc_next_post_id = \<lambda>_. 1,
     pc_delete_post = \<lambda>_ p. Some (9, p), pc_release_fragment = \<lambda>_ p. Some p, pc_key = \<lambda>j. j\<rparr>"

lemma deletion_respects_grace_witness:
  "\<exists>s1 s2 deleted. run_scan_pass demo_popularity 0 (on_post_created demo_popularity 0 0 genesis_popularity, ()) = (s1, ())
    \<and> popularity_on_finalize demo_popularity 0 (on_post_created demo_popularity 0 0 genesis_popularity, ()) = (s2, ())
    \<and> popularity_events s2 = popularity_events s1 @ deleted \<and> length deleted \<le> 4"
proof -
  let ?s = "on_post_created demo_popularity 0 0 genesis_popularity"
  have "popularity_reachable demo_popularity 0 (?s, ())"
    by (rule pop_created [OF pop_genesis]) (simp add: genesis_popularity_def)
  moreover have "inj (pc_key demo_popularity)" by (simp add: demo_popularity_def inj_on_def)
  moreover obtain s1 s2 where "run_scan_pass demo_popularity 0 (?s, ()) = (s1, ())"
    "popularity_on_finalize demo_popularity 0 (?s, ()) = (s2, ())" by (metis surj_pair unit.exhaust)
  ultimately show ?thesis
    using deletion_respects_grace [of demo_popularity 0 ?s "()" s1 "()" s2 "()"]
    by (auto simp: demo_popularity_def)
qed

subsection \<open>The scan\<close>

lemma scan_one_touches:
  assumes "post_scores s pid = Some p"
  shows "\<exists>q. post_scores (scan_one cfg now pid s) pid = Some q \<and> pp_stored_score q = effective_score_now cfg now p
    \<and> pp_last_touched q = now"
  using assms by (auto simp: scan_one_def Let_def)

lemma scan_one_other: "j \<noteq> pid \<Longrightarrow> post_scores (scan_one cfg now pid s) j = post_scores s j"
  by (auto simp: scan_one_def Let_def split: option.splits)

lemma decay_one_block:
  assumes "0 < score" "score \<le> 20000" "1 \<le> max_steps"
  shows "decay_apply score 1 999950 max_steps = score - 1"
proof -
  have l: "decay_loop 1 (999950 * decay_scale) decay_one = Some (999950 * decay_scale)"
    by (simp add: decay_loop.simps Let_def decay_scale_def decay_one_def sat_mul_def u128_max_def)
  have "score * (999950 * decay_scale) \<le> 20000 * (999950 * decay_scale)" using assms(2) by simp
  also have "\<dots> \<le> u128_max" by (simp add: decay_scale_def u128_max_def)
  finally have e: "sat_mul u128_max score (999950 * decay_scale) = score * (999950 * decay_scale)"
    by (rule sat_mul_exact)
  have "score * (999950 * decay_scale) div decay_one = score * 999950 div 1000000"
    unfolding decay_one_eq by (simp only: mult.assoc [symmetric] div_mult_mult2 nat_neq_iff) (simp add: decay_scale_def)
  also have "\<dots> = score - 1"
  proof -
    obtain m where "score = Suc m" using assms(1) gr0_implies_Suc by blast
    then show ?thesis using assms(2) by (intro div_nat_eqI) simp_all
  qed
  finally show ?thesis using assms l by (simp add: decay_apply_def Let_def e)
qed

definition scan_every_block :: "'p popularity_config \<Rightarrow> nat \<Rightarrow> block_number \<Rightarrow> nat \<Rightarrow> popularity_state \<Rightarrow> popularity_state" where
  "scan_every_block cfg pid t k s = fold (\<lambda>n. scan_one cfg n pid) [Suc t..<Suc (t + k)] s"

text \<open>The stored score depends on how often a post is scanned. At the runtime's decay rate of
  0.999950 a score of at most 20000 that is scanned at every block loses one unit at each of them,
  so 10000 is 9000 after a thousand blocks, while a single scan after the same thousand blocks
  leaves 9512.
\<close>

theorem scan_frequency_changes_decay:
  assumes "post_scores s pid = Some p" "pp_last_touched p = t" "k \<le> pp_stored_score p"
    and "pp_stored_score p \<le> 20000" "pc_decay_rate cfg = 999950" "1 \<le> pc_max_steps cfg"
  shows "(\<exists>q. post_scores (scan_every_block cfg pid t k s) pid = Some q \<and> pp_stored_score q = pp_stored_score p - k)
    \<and> decay_apply 10000 1000 999950 1000000 = 9512"
proof
  show "\<exists>q. post_scores (scan_every_block cfg pid t k s) pid = Some q \<and> pp_stored_score q = pp_stored_score p - k"
  proof -
    have "\<exists>q. post_scores (scan_every_block cfg pid t k s) pid = Some q \<and> pp_stored_score q = pp_stored_score p - k
        \<and> pp_last_touched q = t + k"
      using assms(3)
    proof (induction k)
      case 0
      then show ?case using assms(1,2) by (simp add: scan_every_block_def)
    next
      case (Suc k)
      then obtain q where q: "post_scores (scan_every_block cfg pid t k s) pid = Some q"
        "pp_stored_score q = pp_stored_score p - k" "pp_last_touched q = t + k" by auto
      have "scan_every_block cfg pid t (Suc k) s = scan_one cfg (t + Suc k) pid (scan_every_block cfg pid t k s)"
        by (simp add: scan_every_block_def)
      moreover have "effective_score_now cfg (t + Suc k) q = pp_stored_score p - Suc k"
        using q assms(4-6) Suc.prems decay_one_block [of "pp_stored_score p - k" "pc_max_steps cfg"]
        by (simp add: effective_score_now_def)
      ultimately show ?case using scan_one_touches [OF q(1), of cfg "t + Suc k"] by auto
    qed
    then show ?thesis by blast
  qed
  show "decay_apply 10000 1000 999950 1000000 = 9512"
    by (simp add: decay_apply_def Let_def decay_loop.simps decay_scale_def decay_one_def sat_mul_def u128_max_def)
qed

lemma scan_frequency_changes_decay_witness:
  "\<exists>q. post_scores (scan_every_block demo_popularity 0 0 3
      (on_post_created demo_popularity 0 0 genesis_popularity)) 0 = Some q \<and> pp_stored_score q = 2"
proof -
  have "post_scores (on_post_created demo_popularity 0 0 genesis_popularity) 0 = Some (fresh_popularity demo_popularity 0)"
    by (simp add: on_post_created_def)
  from conjunct1 [OF scan_frequency_changes_decay [OF this, where t = 0 and k = 3 and cfg = demo_popularity]]
  show ?thesis
    by (simp add: fresh_popularity_def demo_popularity_def)
qed

text \<open>What the scan loop does from a cursor: it visits the next \<open>k\<close> posts around the end.\<close>

lemma scan_loop_round:
  assumes "0 < n" and "n \<le> u64_max" and "c \<le> n" and "scan_loop cfg now n k c t = (c', t')"
  shows "c' \<le> n \<and> c' mod n = (c + k) mod n
     \<and> (\<forall>j. post_scores t j \<noteq> None \<longrightarrow> post_scores t' j \<noteq> None)
     \<and> (\<forall>j q. post_scores t j = Some q \<and> pp_last_touched q = now \<longrightarrow> (\<exists>q. post_scores t' j = Some q \<and> pp_last_touched q = now))
     \<and> (\<forall>j. (\<exists>i<k. j = (c + i) mod n) \<longrightarrow> post_scores t j \<noteq> None \<longrightarrow> (\<exists>q. post_scores t' j = Some q \<and> pp_last_touched q = now))
     \<and> (\<forall>j. \<not> (\<exists>i<k. j = (c + i) mod n) \<longrightarrow> post_scores t' j = post_scores t j)"
  using assms(3, 4)
proof (induction k arbitrary: c t)
  case 0
  then show ?case by auto
next
  case (Suc k)
  define pid where "pid = (if n \<le> c then 0 else c)"
  have pid: "pid < n" "c mod n = pid" using assms(1) Suc.prems(1) by (auto simp: pid_def)
  define t1 where "t1 = scan_one cfg now pid t"
  have "sat_add u64_max pid 1 = pid + 1" using pid(1) assms(2) by (intro sat_add_exact) simp
  then have rec: "scan_loop cfg now n k (pid + 1) t1 = (c', t')"
    using Suc.prems(2) by (simp add: Let_def pid_def t1_def)
  have IH: "c' \<le> n \<and> c' mod n = (pid + 1 + k) mod n
   \<and> (\<forall>j. post_scores t1 j \<noteq> None \<longrightarrow> post_scores t' j \<noteq> None)
   \<and> (\<forall>j q. post_scores t1 j = Some q \<and> pp_last_touched q = now \<longrightarrow> (\<exists>q. post_scores t' j = Some q \<and> pp_last_touched q = now))
   \<and> (\<forall>j. (\<exists>i<k. j = (pid + 1 + i) mod n) \<longrightarrow> post_scores t1 j \<noteq> None \<longrightarrow> (\<exists>q. post_scores t' j = Some q \<and> pp_last_touched q = now))
   \<and> (\<forall>j. \<not> (\<exists>i<k. j = (pid + 1 + i) mod n) \<longrightarrow> post_scores t' j = post_scores t1 j)"
    by (rule Suc.IH [OF _ rec]) (use pid in simp)
  have shift: "(pid + 1 + i) mod n = (c + Suc i) mod n" for i
    using pid(2) by (metis add.commute add_Suc_shift mod_add_left_eq plus_1_eq_Suc)
  have split: "(\<exists>i<Suc k. j = (c + i) mod n) \<longleftrightarrow> j = pid \<or> (\<exists>i<k. j = (pid + 1 + i) mod n)" for j
    unfolding shift Ex_less_Suc2 by (simp add: pid(2))
  have other: "j \<noteq> pid \<Longrightarrow> post_scores t1 j = post_scores t j" for j
    unfolding t1_def by (rule scan_one_other)
  have self: "post_scores t pid = Some q \<Longrightarrow> \<exists>q. post_scores t1 pid = Some q \<and> pp_last_touched q = now" for q
    unfolding t1_def using scan_one_touches by blast
  have none: "post_scores t pid = None \<Longrightarrow> t1 = t" by (simp add: t1_def scan_one_def)
  show ?case
  proof (intro conjI)
    show "c' \<le> n" using IH by blast
    show "c' mod n = (c + Suc k) mod n" using IH shift by metis
    show "\<forall>j. post_scores t j \<noteq> None \<longrightarrow> post_scores t' j \<noteq> None"
      using IH other self by (metis option.exhaust option.distinct(1))
    show "\<forall>j q. post_scores t j = Some q \<and> pp_last_touched q = now \<longrightarrow> (\<exists>q. post_scores t' j = Some q \<and> pp_last_touched q = now)"
      using IH other self by metis
    show "\<forall>j. (\<exists>i<Suc k. j = (c + i) mod n) \<longrightarrow> post_scores t j \<noteq> None \<longrightarrow> (\<exists>q. post_scores t' j = Some q \<and> pp_last_touched q = now)"
      unfolding split using IH other self by (metis option.exhaust)
    show "\<forall>j. \<not> (\<exists>i<Suc k. j = (c + i) mod n) \<longrightarrow> post_scores t' j = post_scores t j"
      unfolding split using IH other by metis
  qed
qed

text \<open>C40: one scan pass visits exactly the next \<open>MaxPostsScannedPerBlock\<close> ids after the cursor, wrapping
  at the number of posts, marks each of them that has an entry as touched in this block, leaves every
  other entry as it was, and leaves the cursor after the last: successive passes sweep all posts in turn.
\<close>

theorem scan_pass_round_robin:
  assumes "0 < n" "n = pc_next_post_id cfg p" "scan_cursor s < n" "n \<le> u64_max"
    and "run_scan_pass cfg now (s, p) = (s', p')"
  shows "scan_cursor s' = (scan_cursor s + pc_max_scanned cfg) mod n \<and> p' = p
    \<and> (\<forall>j. (\<exists>i < pc_max_scanned cfg. j = (scan_cursor s + i) mod n) \<longrightarrow> post_scores s j \<noteq> None
          \<longrightarrow> (\<exists>q. post_scores s' j = Some q \<and> pp_last_touched q = now))
    \<and> (\<forall>j. \<not> (\<exists>i < pc_max_scanned cfg. j = (scan_cursor s + i) mod n) \<longrightarrow> post_scores s' j = post_scores s j)"
proof -
  obtain c' t' where l: "scan_loop cfg now n (pc_max_scanned cfg) (scan_cursor s) s = (c', t')" by fastforce
  then have s': "s' = t'\<lparr>scan_cursor := if n \<le> c' then 0 else c'\<rparr>" "p' = p"
    using assms(1,2,5) by (auto simp: run_scan_pass_def Let_def)
  note L = scan_loop_round [OF assms(1, 4) less_imp_le [OF assms(3)] l]
  have "(if n \<le> c' then 0 else c') = c' mod n" using L assms(1) by auto
  then show ?thesis using L s' by simp
qed

lemma scan_pass_round_robin_witness:
  "\<exists>s'. run_scan_pass demo_popularity 3 (on_post_created demo_popularity 0 0 genesis_popularity, ()) = (s', ())
    \<and> (\<exists>q. post_scores s' 0 = Some q \<and> pp_last_touched q = 3)"
proof -
  let ?s = "on_post_created demo_popularity 0 0 genesis_popularity"
  obtain s' where s': "run_scan_pass demo_popularity 3 (?s, ()) = (s', ())" by (metis surj_pair unit.exhaust)
  have "scan_cursor ?s = 0" "post_scores ?s 0 \<noteq> None" "pc_next_post_id demo_popularity () = 1" "pc_max_scanned demo_popularity = 2"
    by (simp_all add: on_post_created_def genesis_popularity_def demo_popularity_def)
  moreover have "\<exists>i::nat. i < 2" by (intro exI [of _ 0]) simp
  ultimately show ?thesis
    using scan_pass_round_robin [of 1 demo_popularity "()" ?s 3 s' "()"] s' by (auto simp: u64_max_def)
qed

subsection \<open>The interface PostMutator\<close>

text \<open>
  What the pallet needs of the posts it deletes: a deletion succeeds exactly on a live post, removes
  that post alone, and releasing a fragment touches no post. Then scores exist for exactly the live
  posts at the end of every block if they did before.
\<close>

locale post_mutator =
  fixes live :: "'p \<Rightarrow> nat \<Rightarrow> bool" and delete :: "nat \<Rightarrow> 'p \<Rightarrow> (hash256 \<times> 'p) option"
    and release :: "hash256 \<Rightarrow> 'p \<Rightarrow> 'p option"
  assumes delete_None: "delete pid p = None \<longleftrightarrow> \<not> live p pid"
    and delete_live: "delete pid p = Some (h, p') \<Longrightarrow> live p' q \<longleftrightarrow> live p q \<and> q \<noteq> pid"
    and release_live: "release h p = Some p' \<Longrightarrow> live p' q \<longleftrightarrow> live p q"
begin

definition wired :: "'p popularity_config \<Rightarrow> bool" where
  "wired cfg \<longleftrightarrow> pc_delete_post cfg = delete \<and> pc_release_fragment cfg = release"

definition scores_match :: "popularity_state \<times> 'p \<Rightarrow> bool" where
  "scores_match = (\<lambda>(s, p). \<forall>q. post_scores s q \<noteq> None \<longleftrightarrow> live p q)"

lemma delete_one_match:
  assumes "wired cfg" "scores_match sp"
  shows "scores_match (delete_one cfg pid sp)"
proof -
  obtain s p where sp: "sp = (s, p)" by fastforce
  show ?thesis
  proof (cases "delete pid p")
    case None
    then show ?thesis using assms by (simp add: scores_match_def delete_one_def wired_def sp)
  next
    case (Some hp)
    obtain h p1 where hp: "hp = (h, p1)" by fastforce
    then have l1: "live p1 q \<longleftrightarrow> live p q \<and> q \<noteq> pid" for q using delete_live Some by blast
    then have l2: "live (case release h p1 of None \<Rightarrow> p1 | Some r \<Rightarrow> r) q \<longleftrightarrow> live p q \<and> q \<noteq> pid" for q
      using release_live by (simp split: option.split)
    have "scores_match (s, p)" using assms(2) by (simp only: sp)
    then show ?thesis using assms(1) Some l2
      by (simp add: scores_match_def delete_one_def wired_def sp hp)
  qed
qed

lemma deletion_pass_match:
  assumes "wired cfg" "scores_match sp"
  shows "scores_match (run_deletion_pass cfg now sp)"
proof -
  have "scores_match (fold (delete_one cfg) cands sp')" if "scores_match sp'" for cands sp'
    using that by (induction cands arbitrary: sp') (simp_all add: delete_one_match [OF assms(1)])
  moreover obtain s p where sp: "sp = (s, p)" by fastforce
  moreover have "scores_match (s\<lparr>deletion_cursor := c\<rparr>, p)" for c
    using assms(2) by (simp add: scores_match_def sp)
  ultimately show ?thesis using assms(2) by (simp add: run_deletion_pass_def Let_def split_beta)
qed

lemma scan_one_dom: "post_scores (scan_one cfg now pid s) q \<noteq> None \<longleftrightarrow> post_scores s q \<noteq> None"
  by (auto simp: scan_one_def Let_def split: option.splits)

lemma scan_loop_dom:
  "post_scores (snd (scan_loop cfg now m n c s)) q \<noteq> None \<longleftrightarrow> post_scores s q \<noteq> None"
  by (induction n arbitrary: c s) (simp_all add: Let_def scan_one_dom del: not_None_eq)

lemma finalize_match:
  assumes "wired cfg" "scores_match sp"
  shows "scores_match (popularity_on_finalize cfg now sp)"
proof -
  obtain s p where sp: "sp = (s, p)" by fastforce
  obtain c s1 where sc: "scan_loop cfg now (pc_next_post_id cfg p) (pc_max_scanned cfg) (scan_cursor s) s = (c, s1)"
    by fastforce
  have "post_scores s1 q \<noteq> None \<longleftrightarrow> post_scores s q \<noteq> None" for q
    by (metis scan_loop_dom sc snd_conv)
  then have "scores_match (run_scan_pass cfg now sp)"
    using assms(2) by (simp add: run_scan_pass_def scores_match_def sp sc Let_def)
  then show ?thesis unfolding popularity_on_finalize_def by (rule deletion_pass_match [OF assms(1)])
qed

lemma created_match:
  assumes "scores_match (s, p)" "\<And>q. live p' q \<longleftrightarrow> live p q \<or> q = pid"
  shows "scores_match (on_post_created cfg now pid s, p')"
  using assms by (auto simp: scores_match_def on_post_created_def)

lemma reaction_match:
  assumes "scores_match (s, p)" "live p pid"
  shows "scores_match (on_reaction cfg now pid kind s, p)"
  using assms by (auto simp: scores_match_def on_reaction_def Let_def split: popularity_reaction.splits prod.splits)

end

end
