(* ===== verification/Reaction.thy ===== *)
theory Reaction
  imports Pow Ppm_Math Popularity Frame Block_Reward
begin

text \<open>
  \<open>pallets/reaction/src/lib.rs\<close>: proof-of-work reactions to posts, the reward paid to the author of
  a liked post, the lock a reactor needs for it, and the adjustment of the reaction difficulty. The
  state \<open>'p\<close> is what the configuration reaches: the posts (\<open>PostAuthorProvider\<close>), the native token
  and the popularity pallet.
\<close>

subsection \<open>Configuration and storage\<close>

datatype reaction_type = Like | Bad

record reaction =
  rn_reactor :: account_id
  rn_type :: reaction_type
  rn_pow_nonce :: nat
  rn_cpu_power :: nat
  rn_created_at :: block_number

record reaction_stats =
  st_likes :: nat
  st_bads :: nat

record reactor_lock =
  rl_amount :: nat
  rl_unlock_at :: block_number

record 'p reaction_config =
  rc_post_author :: "'p \<Rightarrow> nat \<Rightarrow> account_id option"
  rc_reaction_reward :: nat
  rc_min_difficulty :: nat
  rc_max_difficulty :: nat
  rc_validity :: block_number
  rc_target_rate :: nat
  rc_window :: block_number
  rc_divisor :: nat
  rc_total_issuance :: "'p \<Rightarrow> nat"
  rc_gamma_max_ppm :: nat
  rc_decay_k :: nat
  rc_payout_cap_ppm :: nat
  rc_lock_min :: nat
  rc_lock_duration :: block_number
  rc_mint_into :: "account_id \<Rightarrow> nat \<Rightarrow> 'p \<Rightarrow> 'p option"
  rc_popularity :: "nat \<Rightarrow> popularity_reaction \<Rightarrow> 'p \<Rightarrow> 'p"
  rc_block_hash :: "block_number \<Rightarrow> bytes"
  rc_encode :: "account_id \<Rightarrow> bytes"
  rc_blake2_256 :: "bytes \<Rightarrow> bytes"

datatype reaction_event =
    ReactionCreated nat account_id reaction_type nat
  | RewardPoolDeposit nat
  | DifficultyAdjusted nat nat
  | ReactorLockBonded account_id nat block_number
  | ReactorLockReleased account_id nat

text \<open>Error names that clash with another component's carry a prefix or another word.\<close>

datatype reaction_error =
    AlreadyReacted | ChallengeOutdated | InvalidProof | BlockNotFound | ReactPostNotFound
  | InsufficientReactorLock | ReactorLockAlreadyHeld | ReactorLockStillActive | ReactorLockNotFound
  | ReactInsufficientBalance

record reaction_state =
  reactions :: "nat \<Rightarrow> account_id \<rightharpoonup> reaction"
  reaction_stats_storage :: "nat \<Rightarrow> reaction_stats"
  user_reaction_count :: "account_id \<Rightarrow> nat"
  reaction_reward_pool :: nat
  reactor_cumulative_count :: "account_id \<Rightarrow> nat"
  reaction_difficulty :: nat
  reaction_history :: "block_number \<Rightarrow> nat"
  total_reactions :: nat
  reactor_locks :: "account_id \<rightharpoonup> reactor_lock"
  per_block_payout :: nat
  reactor_locks_count :: nat
  reaction_events :: "reaction_event list"

definition genesis_reaction :: "nat \<Rightarrow> nat \<Rightarrow> reaction_state" where
  "genesis_reaction initial_reward_pool initial_difficulty =
     \<lparr>reactions = \<lambda>_ _. None, reaction_stats_storage = \<lambda>_. \<lparr>st_likes = 0, st_bads = 0\<rparr>,
      user_reaction_count = \<lambda>_. 0, reaction_reward_pool = initial_reward_pool,
      reactor_cumulative_count = \<lambda>_. 0, reaction_difficulty = initial_difficulty,
      reaction_history = \<lambda>_. 0, total_reactions = 0, reactor_locks = \<lambda>_. None, per_block_payout = 0,
      reactor_locks_count = 0, reaction_events = []\<rparr>"

definition reaction_deposit_event :: "reaction_event \<Rightarrow> reaction_state \<Rightarrow> reaction_state" where
  "reaction_deposit_event e s = s\<lparr>reaction_events := reaction_events s @ [e]\<rparr>"

definition do_deposit_to_reaction_pool :: "nat \<Rightarrow> reaction_state \<Rightarrow> reaction_state" where
  "do_deposit_to_reaction_pool amount s =
     reaction_deposit_event (RewardPoolDeposit amount)
       (s\<lparr>reaction_reward_pool := sat_add u128_max (reaction_reward_pool s) amount\<rparr>)"

definition get_reaction_counts :: "reaction_state \<Rightarrow> nat \<Rightarrow> (nat \<times> nat) option" where
  "get_reaction_counts s post_id =
     Some (st_likes (reaction_stats_storage s post_id), st_bads (reaction_stats_storage s post_id))"

interpretation reaction_sink: pool_deposit do_deposit_to_reaction_pool reaction_reward_pool
  by unfold_locales (simp_all add: do_deposit_to_reaction_pool_def reaction_deposit_event_def sat_add_def)

subsection \<open>Rewards\<close>

text \<open>The pallet's own copy of the integer square root.\<close>

definition reaction_sqrt_ppm :: "nat \<Rightarrow> nat option" where
  "reaction_sqrt_ppm x_ppm = (let scaled = sat_mul u128_max x_ppm 1000000 in
     if scaled = 0 then Some 0
     else if scaled = u128_max then None
     else newton_loop scaled scaled ((scaled + 1) div 2))"

definition compute_reward :: "'p reaction_config \<Rightarrow> nat \<Rightarrow> nat \<Rightarrow> nat \<Rightarrow> nat option" where
  "compute_reward cfg pool_balance issuance reactor_count =
     (if rc_gamma_max_ppm cfg = 0 then Some (min (rc_reaction_reward cfg) pool_balance)
      else
        let gamma_ppm = (if issuance = 0 then rc_gamma_max_ppm cfg
               else min (sat_mul u128_max pool_balance 1000000 div max issuance 1) (rc_gamma_max_ppm cfg));
            k = rc_decay_k cfg
        in case (if k = 0 then Some 1000000
                 else reaction_sqrt_ppm (sat_mul u128_max k 1000000 div max (k + reactor_count) 1)) of
             None \<Rightarrow> None
           | Some decay_ppm \<Rightarrow>
               let r1 = sat_mul u128_max (rc_reaction_reward cfg) gamma_ppm div 1000000
               in Some (sat_mul u128_max r1 decay_ppm div 1000000))"

text \<open>The lock that entitles a reactor's likes to a reward. Only its amount is looked at.\<close>

definition lock_ok :: "'p reaction_config \<Rightarrow> reaction_state \<Rightarrow> account_id \<Rightarrow> bool" where
  "lock_ok cfg s reactor =
     (if rc_lock_min cfg = 0 then True
      else case reactor_locks s reactor of Some lock \<Rightarrow> rc_lock_min cfg \<le> rl_amount lock | None \<Rightarrow> False)"

text \<open>The payout of a like: the reward cut to the rest of the block's budget and to the pool.\<close>

definition pay_author ::
  "'p reaction_config \<Rightarrow> account_id \<Rightarrow> account_id \<Rightarrow> reaction_state \<times> 'p \<Rightarrow> (nat \<times> reaction_state \<times> 'p) option" where
  "pay_author cfg reactor author = (\<lambda>(s, p).
     let pool_balance = reaction_reward_pool s in
     case compute_reward cfg pool_balance (rc_total_issuance cfg p) (reactor_cumulative_count s reactor) of
       None \<Rightarrow> None
     | Some computed \<Rightarrow>
        let (paid, s1, p1) =
          (if 0 < computed \<and> lock_ok cfg s reactor
           then let max_per_block = (if rc_payout_cap_ppm cfg = 0 then u128_max
                      else sat_mul u128_max pool_balance (rc_payout_cap_ppm cfg) div 1000000);
                    remaining_budget = max_per_block - per_block_payout s;
                    granted = min (min computed remaining_budget) pool_balance
                in if 0 < granted
                   then (case rc_mint_into cfg author granted p of
                           Some p' \<Rightarrow> (granted, s\<lparr>reaction_reward_pool := pool_balance - granted,
                                         per_block_payout := sat_add u128_max (per_block_payout s) granted\<rparr>, p')
                         | None \<Rightarrow> (0, s, p))
                   else (0, s, p)
           else (0, s, p))
        in Some (paid, s1\<lparr>reactor_cumulative_count := (reactor_cumulative_count s1)(reactor :=
                   sat_add u64_max (reactor_cumulative_count s1 reactor) 1)\<rparr>, p1))"

subsection \<open>Dispatchables\<close>

definition react ::
  "'p reaction_config \<Rightarrow> block_number \<Rightarrow> account_id \<Rightarrow> nat \<Rightarrow> reaction_type \<Rightarrow> block_number \<Rightarrow> nat \<Rightarrow> nat \<Rightarrow>
   reaction_state \<times> 'p \<Rightarrow> (reaction_error, reaction_state \<times> 'p) result" where
  "react cfg now reactor post_id rtype challenge_block nonce cpu_power = (\<lambda>(s, p).
     ensure (rc_post_author cfg p post_id \<noteq> None) ReactPostNotFound (
     ensure (reactions s post_id reactor = None) AlreadyReacted (
     ensure (now \<le> sat_add u32_max challenge_block (rc_validity cfg)) ChallengeOutdated (
     let block_hash = rc_block_hash cfg challenge_block in
     ensure (block_hash \<noteq> replicate 32 0) BlockNotFound (
     let challenge = compute_challenge (rc_blake2_256 cfg) block_hash (rc_encode cfg reactor);
         difficulty = max (reaction_difficulty s) (rc_min_difficulty cfg) in
     ensure (verify_proof (rc_blake2_256 cfg) challenge nonce difficulty) InvalidProof (
     let r = \<lparr>rn_reactor = reactor, rn_type = rtype, rn_pow_nonce = nonce, rn_cpu_power = cpu_power,
              rn_created_at = now\<rparr>;
         stats = reaction_stats_storage s post_id;
         stats' = (case rtype of Like \<Rightarrow> stats\<lparr>st_likes := sat_add u32_max (st_likes stats) 1\<rparr>
                               | Bad \<Rightarrow> stats\<lparr>st_bads := sat_add u32_max (st_bads stats) 1\<rparr>);
         s1 = s\<lparr>reactions := (reactions s)(post_id := (reactions s post_id)(reactor \<mapsto> r)),
                reaction_stats_storage := (reaction_stats_storage s)(post_id := stats'),
                user_reaction_count := (user_reaction_count s)(reactor := sat_add u32_max (user_reaction_count s reactor) 1),
                reaction_history := (reaction_history s)(now := sat_add u32_max (reaction_history s now) 1),
                total_reactions := sat_add u64_max (total_reactions s) 1\<rparr> in
     or_trap (case (rtype, rc_post_author cfg p post_id) of
                (Like, Some author) \<Rightarrow> pay_author cfg reactor author (s1, p)
              | _ \<Rightarrow> Some (0, s1, p)) (\<lambda>(paid, s2, p2).
     let pop_kind = (case rtype of Like \<Rightarrow> PopLike | Bad \<Rightarrow> PopDislike)
     in Inr (reaction_deposit_event (ReactionCreated post_id reactor rtype paid) s2,
             rc_popularity cfg post_id pop_kind p2))))))))"

definition lock_for_rewards ::
  "'p reaction_config \<Rightarrow> 'c currency \<Rightarrow> block_number \<Rightarrow> account_id \<Rightarrow> nat \<Rightarrow> reaction_state \<times> 'c \<Rightarrow>
   (reaction_error, reaction_state \<times> 'c) result" where
  "lock_for_rewards cfg cur now who amount = (\<lambda>(s, c).
     ensure (reactor_locks s who = None) ReactorLockAlreadyHeld (
     ensure (rc_lock_min cfg \<le> amount) InsufficientReactorLock (
     ok_or (cur_reserve cur who amount c) ReactInsufficientBalance (\<lambda>c'.
     let unlock_at = sat_add u32_max now (rc_lock_duration cfg);
         s1 = s\<lparr>reactor_locks := (reactor_locks s)(who \<mapsto> \<lparr>rl_amount = amount, rl_unlock_at = unlock_at\<rparr>),
                reactor_locks_count := sat_add u32_max (reactor_locks_count s) 1\<rparr>
     in Inr (reaction_deposit_event (ReactorLockBonded who amount unlock_at) s1, c')))))"

definition unlock_reactor ::
  "'c currency \<Rightarrow> block_number \<Rightarrow> account_id \<Rightarrow> reaction_state \<times> 'c \<Rightarrow>
   (reaction_error, reaction_state \<times> 'c) result" where
  "unlock_reactor cur now who = (\<lambda>(s, c).
     ok_or (reactor_locks s who) ReactorLockNotFound (\<lambda>lock.
     ensure (rl_unlock_at lock \<le> now) ReactorLockStillActive (
     let c' = cur_unreserve cur who (rl_amount lock) c;
         s1 = s\<lparr>reactor_locks := (reactor_locks s)(who := None),
                reactor_locks_count := reactor_locks_count s - 1\<rparr>
     in Inr (reaction_deposit_event (ReactorLockReleased who (rl_amount lock)) s1, c'))))"

subsection \<open>Difficulty\<close>

text \<open>
  The loop from the current block down to the start of the window. Both adjustments are cast to
  \<open>u8\<close>, and \<open>clamp\<close> panics when its bounds are crossed.
\<close>

definition recent_reactions :: "'p reaction_config \<Rightarrow> block_number \<Rightarrow> reaction_state \<Rightarrow> nat" where
  "recent_reactions cfg now s =
     fold (\<lambda>b n. sat_add u32_max n (reaction_history s b)) (rev [Suc (now - rc_window cfg)..<Suc now]) 0"

definition adjust_difficulty :: "'p reaction_config \<Rightarrow> block_number \<Rightarrow> reaction_state \<Rightarrow> reaction_state option" where
  "adjust_difficulty cfg now s =
     (let recent_count = recent_reactions cfg now s;
          current = reaction_difficulty s;
          target_total = sat_mul u32_max (rc_target_rate cfg) (rc_window cfg);
          diff = (if target_total < recent_count then (recent_count - target_total) div max (rc_divisor cfg) 1 else 0);
          decrease = (if recent_count < target_total then (target_total - recent_count) div max (rc_divisor cfg) 1 else 0)
      in if rc_max_difficulty cfg < rc_min_difficulty cfg then None
         else let new_difficulty = min (max (sat_add u8_max current (diff mod 256) - decrease mod 256)
                    (rc_min_difficulty cfg)) (rc_max_difficulty cfg)
              in Some (if new_difficulty \<noteq> current
                       then reaction_deposit_event (DifficultyAdjusted current new_difficulty)
                              (s\<lparr>reaction_difficulty := new_difficulty\<rparr>)
                       else s))"


subsection \<open>What a reaction changes\<close>

lemma reaction_sqrt_ppm_eq: "reaction_sqrt_ppm = sqrt_ppm"
  by (simp add: reaction_sqrt_ppm_def sqrt_ppm_def fun_eq_iff)

text \<open>The reward is always defined, and at most the base reward scaled by the largest gamma.\<close>

lemma compute_reward_total:
  "\<exists>r. compute_reward cfg pool issuance n = Some r
     \<and> (0 < rc_gamma_max_ppm cfg \<longrightarrow> r \<le> rc_reaction_reward cfg * rc_gamma_max_ppm cfg div 1000000)"
proof (cases "rc_gamma_max_ppm cfg = 0")
  case True
  then show ?thesis by (simp add: compute_reward_def)
next
  case False
  let ?k = "rc_decay_k cfg"
  define g where "g = (if issuance = 0 then rc_gamma_max_ppm cfg
     else min (sat_mul u128_max pool 1000000 div max issuance 1) (rc_gamma_max_ppm cfg))"
  have g: "g \<le> rc_gamma_max_ppm cfg" by (simp add: g_def)
  define d where "d = (if ?k = 0 then Some 1000000
     else reaction_sqrt_ppm (sat_mul u128_max ?k 1000000 div max (?k + n) 1))"
  have "\<exists>x \<le> 1000000. d = Some x"
  proof (cases "?k = 0")
    case True
    then show ?thesis by (simp add: d_def)
  next
    case k: False
    have "sat_mul u128_max ?k 1000000 div max (?k + n) 1 \<le> ?k * 1000000 div max (?k + n) 1"
      by (rule div_le_mono [OF sat_mul_le_prod])
    also have "\<dots> \<le> ?k * 1000000 div ?k" using k by (intro div_le_mono2) simp_all
    also have "\<dots> = 1000000" using k by simp
    finally show ?thesis using sqrt_ppm_unit k by (auto simp: d_def reaction_sqrt_ppm_eq)
  qed
  then obtain x where x: "x \<le> 1000000" "d = Some x" by blast
  have r1: "sat_mul u128_max (rc_reaction_reward cfg) g div 1000000 \<le> rc_reaction_reward cfg * rc_gamma_max_ppm cfg div 1000000"
    using g by (intro div_le_mono order_trans [OF sat_mul_le_prod] mult_le_mono2)
  have "compute_reward cfg pool issuance n = Some (sat_mul u128_max (sat_mul u128_max (rc_reaction_reward cfg) g div 1000000) x div 1000000)"
    using False x(2) by (simp add: compute_reward_def Let_def flip: g_def d_def)
  moreover have "sat_mul u128_max (sat_mul u128_max (rc_reaction_reward cfg) g div 1000000) x div 1000000
      \<le> sat_mul u128_max (rc_reaction_reward cfg) g div 1000000"
    by (rule sat_mul_div_le) (use x(1) in simp_all)
  ultimately show ?thesis using r1 by auto
qed

text \<open>The budget of one block for a pool balance.\<close>

definition block_budget :: "'p reaction_config \<Rightarrow> nat \<Rightarrow> nat" where
  "block_budget cfg pool =
     (if rc_payout_cap_ppm cfg = 0 then u128_max else sat_mul u128_max pool (rc_payout_cap_ppm cfg) div 1000000)"


lemma pay_author_effect:
  assumes "pay_author cfg reactor author (s, p) = Some (paid, s', p')"
  shows "reaction_reward_pool s' + paid = reaction_reward_pool s"
    and "per_block_payout s' = (if paid = 0 then per_block_payout s else sat_add u128_max (per_block_payout s) paid)"
    and "0 < paid \<Longrightarrow> per_block_payout s + paid \<le> block_budget cfg (reaction_reward_pool s)"
    and "\<exists>r. compute_reward cfg (reaction_reward_pool s) (rc_total_issuance cfg p) (reactor_cumulative_count s reactor) = Some r \<and> paid \<le> r"
    and "0 < paid \<Longrightarrow> lock_ok cfg s reactor \<and> rc_mint_into cfg author paid p = Some p'"
    and "reactions s' = reactions s \<and> reaction_stats_storage s' = reaction_stats_storage s
      \<and> reaction_difficulty s' = reaction_difficulty s \<and> reactor_locks s' = reactor_locks s"
proof -
  obtain r where r: "compute_reward cfg (reaction_reward_pool s) (rc_total_issuance cfg p) (reactor_cumulative_count s reactor) = Some r"
    using compute_reward_total by blast
  define g where "g = min (min r (block_budget cfg (reaction_reward_pool s) - per_block_payout s)) (reaction_reward_pool s)"
  have "pay_author cfg reactor author (s, p) =
    (let (paid, s1, p1) =
          (if 0 < r \<and> lock_ok cfg s reactor
           then if 0 < g
                then (case rc_mint_into cfg author g p of
                           Some p' \<Rightarrow> (g, s\<lparr>reaction_reward_pool := reaction_reward_pool s - g,
                                         per_block_payout := sat_add u128_max (per_block_payout s) g\<rparr>, p')
                         | None \<Rightarrow> (0, s, p))
                else (0, s, p)
           else (0, s, p))
        in Some (paid, s1\<lparr>reactor_cumulative_count := (reactor_cumulative_count s1)(reactor :=
                   sat_add u64_max (reactor_cumulative_count s1 reactor) 1)\<rparr>, p1))"
    unfolding pay_author_def prod.case Let_def r option.case g_def block_budget_def ..
  note eq = assms [unfolded this]
  have g: "g \<le> reaction_reward_pool s" "g \<le> r"
    "0 < g \<Longrightarrow> per_block_payout s + g \<le> block_budget cfg (reaction_reward_pool s)"
    by (auto simp: g_def)
  show "reaction_reward_pool s' + paid = reaction_reward_pool s"
    and "per_block_payout s' = (if paid = 0 then per_block_payout s else sat_add u128_max (per_block_payout s) paid)"
    and "0 < paid \<Longrightarrow> per_block_payout s + paid \<le> block_budget cfg (reaction_reward_pool s)"
    and "\<exists>r. compute_reward cfg (reaction_reward_pool s) (rc_total_issuance cfg p) (reactor_cumulative_count s reactor) = Some r \<and> paid \<le> r"
    and "0 < paid \<Longrightarrow> lock_ok cfg s reactor \<and> rc_mint_into cfg author paid p = Some p'"
    and "reactions s' = reactions s \<and> reaction_stats_storage s' = reaction_stats_storage s
      \<and> reaction_difficulty s' = reaction_difficulty s \<and> reactor_locks s' = reactor_locks s"
    using eq g r by (auto simp: Let_def split: if_splits option.splits)
qed

lemma pay_author_total: "\<exists>paid s' p'. pay_author cfg reactor author (s, p) = Some (paid, s', p')"
proof -
  obtain r where "compute_reward cfg (reaction_reward_pool s) (rc_total_issuance cfg p) (reactor_cumulative_count s reactor) = Some r"
    using compute_reward_total by blast
  then show ?thesis by (simp add: pay_author_def Let_def split: prod.splits)
qed

text \<open>The checks of a reaction, and the state they lead to before the reward.\<close>

definition react_ok :: "'p reaction_config \<Rightarrow> block_number \<Rightarrow> account_id \<Rightarrow> nat \<Rightarrow> block_number \<Rightarrow> nat \<Rightarrow> reaction_state \<times> 'p \<Rightarrow> bool" where
  "react_ok cfg now reactor post_id cb nonce = (\<lambda>(s, p).
     rc_post_author cfg p post_id \<noteq> None \<and> reactions s post_id reactor = None
     \<and> now \<le> sat_add u32_max cb (rc_validity cfg) \<and> rc_block_hash cfg cb \<noteq> replicate 32 0
     \<and> verify_proof (rc_blake2_256 cfg) (compute_challenge (rc_blake2_256 cfg) (rc_block_hash cfg cb) (rc_encode cfg reactor))
         nonce (max (reaction_difficulty s) (rc_min_difficulty cfg)))"

definition record_reaction :: "block_number \<Rightarrow> account_id \<Rightarrow> nat \<Rightarrow> reaction_type \<Rightarrow> nat \<Rightarrow> nat \<Rightarrow> reaction_state \<Rightarrow> reaction_state" where
  "record_reaction now reactor post_id rtype nonce cpu_power s =
     (let r = \<lparr>rn_reactor = reactor, rn_type = rtype, rn_pow_nonce = nonce, rn_cpu_power = cpu_power,
              rn_created_at = now\<rparr>;
         stats = reaction_stats_storage s post_id;
         stats' = (case rtype of Like \<Rightarrow> stats\<lparr>st_likes := sat_add u32_max (st_likes stats) 1\<rparr>
                               | Bad \<Rightarrow> stats\<lparr>st_bads := sat_add u32_max (st_bads stats) 1\<rparr>)
      in s\<lparr>reactions := (reactions s)(post_id := (reactions s post_id)(reactor \<mapsto> r)),
                reaction_stats_storage := (reaction_stats_storage s)(post_id := stats'),
                user_reaction_count := (user_reaction_count s)(reactor := sat_add u32_max (user_reaction_count s reactor) 1),
                reaction_history := (reaction_history s)(now := sat_add u32_max (reaction_history s now) 1),
                total_reactions := sat_add u64_max (total_reactions s) 1\<rparr>)"

lemma record_reaction_fields [simp]:
  "reaction_reward_pool (record_reaction now w pid rt nonce cpu s) = reaction_reward_pool s"
  "per_block_payout (record_reaction now w pid rt nonce cpu s) = per_block_payout s"
  "reactor_cumulative_count (record_reaction now w pid rt nonce cpu s) = reactor_cumulative_count s"
  "reaction_difficulty (record_reaction now w pid rt nonce cpu s) = reaction_difficulty s"
  "reactor_locks (record_reaction now w pid rt nonce cpu s) = reactor_locks s"
  by (simp_all add: record_reaction_def Let_def)

lemma react_Inr_iff:
  "react cfg now w pid rt cb nonce cpu (s, p) = Inr (s', p') \<longleftrightarrow> react_ok cfg now w pid cb nonce (s, p)
     \<and> (\<exists>paid s2 p2. (case (rt, rc_post_author cfg p pid) of
            (Like, Some author) \<Rightarrow> pay_author cfg w author (record_reaction now w pid rt nonce cpu s, p)
          | _ \<Rightarrow> Some (0, record_reaction now w pid rt nonce cpu s, p)) = Some (paid, s2, p2)
        \<and> s' = reaction_deposit_event (ReactionCreated pid w rt paid) s2
        \<and> p' = rc_popularity cfg pid (case rt of Like \<Rightarrow> PopLike | Bad \<Rightarrow> PopDislike) p2)"
  unfolding react_def react_ok_def record_reaction_def Let_def prod.case result_simps
  by (auto split: prod.splits)

lemma reaction_event_fields [simp]:
  "reactions (reaction_deposit_event e s) = reactions s"
  "reaction_stats_storage (reaction_deposit_event e s) = reaction_stats_storage s"
  "reaction_reward_pool (reaction_deposit_event e s) = reaction_reward_pool s"
  "per_block_payout (reaction_deposit_event e s) = per_block_payout s"
  "reaction_difficulty (reaction_deposit_event e s) = reaction_difficulty s"
  "reactor_locks (reaction_deposit_event e s) = reactor_locks s"
  "reaction_events (reaction_deposit_event e s) = reaction_events s @ [e]"
  by (simp_all add: reaction_deposit_event_def)

lemma react_effect:
  assumes "react cfg now w pid rt cb nonce cpu (s, p) = Inr (s', p')"
  shows "react_ok cfg now w pid cb nonce (s, p)"
    and "reactions s' = reactions (record_reaction now w pid rt nonce cpu s)"
    and "reaction_stats_storage s' = reaction_stats_storage (record_reaction now w pid rt nonce cpu s)"
    and "reaction_difficulty s' = reaction_difficulty s"
    and "\<exists>paid. reaction_reward_pool s' + paid = reaction_reward_pool s
      \<and> per_block_payout s' = (if paid = 0 then per_block_payout s else sat_add u128_max (per_block_payout s) paid)
      \<and> (0 < paid \<longrightarrow> rt = Like \<and> lock_ok cfg s w
           \<and> per_block_payout s + paid \<le> block_budget cfg (reaction_reward_pool s)
           \<and> (\<exists>author r q. rc_post_author cfg p pid = Some author \<and> rc_mint_into cfg author paid p = Some q
                \<and> compute_reward cfg (reaction_reward_pool s) (rc_total_issuance cfg p) (reactor_cumulative_count s w) = Some r
                \<and> paid \<le> r))"
proof -
  from assms show ok: "react_ok cfg now w pid cb nonce (s, p)" by (simp add: react_Inr_iff)
  let ?s1 = "record_reaction now w pid rt nonce cpu s"
  from assms obtain paid s2 p2 where paid: "(case (rt, rc_post_author cfg p pid) of
            (Like, Some author) \<Rightarrow> pay_author cfg w author (?s1, p) | _ \<Rightarrow> Some (0, ?s1, p)) = Some (paid, s2, p2)"
    and s': "s' = reaction_deposit_event (ReactionCreated pid w rt paid) s2"
    by (auto simp: react_Inr_iff)
  have "reactions s2 = reactions ?s1 \<and> reaction_stats_storage s2 = reaction_stats_storage ?s1
    \<and> reaction_difficulty s2 = reaction_difficulty s
    \<and> (reaction_reward_pool s2 + paid = reaction_reward_pool s
      \<and> per_block_payout s2 = (if paid = 0 then per_block_payout s else sat_add u128_max (per_block_payout s) paid)
      \<and> (0 < paid \<longrightarrow> rt = Like \<and> lock_ok cfg s w
           \<and> per_block_payout s + paid \<le> block_budget cfg (reaction_reward_pool s)
           \<and> (\<exists>author r q. rc_post_author cfg p pid = Some author \<and> rc_mint_into cfg author paid p = Some q
                \<and> compute_reward cfg (reaction_reward_pool s) (rc_total_issuance cfg p) (reactor_cumulative_count s w) = Some r
                \<and> paid \<le> r)))"
  proof (cases "rt = Like \<and> rc_post_author cfg p pid \<noteq> None")
    case True
    then obtain author where a: "rt = Like" "rc_post_author cfg p pid = Some author" by auto
    then have pay: "pay_author cfg w author (?s1, p) = Some (paid, s2, p2)" using paid by simp
    have "lock_ok cfg ?s1 w = lock_ok cfg s w" by (simp add: lock_ok_def)
    then show ?thesis using pay_author_effect [OF pay] a by simp
  next
    case False
    then have "paid = 0" "s2 = ?s1" using paid by (auto split: reaction_type.splits option.splits)
    then show ?thesis by simp
  qed
  then show "reactions s' = reactions ?s1" "reaction_stats_storage s' = reaction_stats_storage ?s1"
    "reaction_difficulty s' = reaction_difficulty s"
    and "\<exists>paid. reaction_reward_pool s' + paid = reaction_reward_pool s
      \<and> per_block_payout s' = (if paid = 0 then per_block_payout s else sat_add u128_max (per_block_payout s) paid)
      \<and> (0 < paid \<longrightarrow> rt = Like \<and> lock_ok cfg s w
           \<and> per_block_payout s + paid \<le> block_budget cfg (reaction_reward_pool s)
           \<and> (\<exists>author r q. rc_post_author cfg p pid = Some author \<and> rc_mint_into cfg author paid p = Some q
                \<and> compute_reward cfg (reaction_reward_pool s) (rc_total_issuance cfg p) (reactor_cumulative_count s w) = Some r
                \<and> paid \<le> r))"
    by (auto simp: s')
qed

subsection \<open>Properties\<close>

text \<open>An accepted reaction is to an existing post the account has not reacted to, with a proof of
  work at the current difficulty for a known and recent block; it is recorded once, raises exactly
  the counter of its kind for that post, and the same account can never react to the post again.
\<close>

theorem react_once:
  assumes "react cfg now w pid rt cb nonce cpu (s, p) = Inr (s', p')"
  shows "rc_post_author cfg p pid \<noteq> None \<and> reactions s pid w = None
    \<and> now \<le> sat_add u32_max cb (rc_validity cfg) \<and> rc_block_hash cfg cb \<noteq> replicate 32 0
    \<and> verify_proof (rc_blake2_256 cfg) (compute_challenge (rc_blake2_256 cfg) (rc_block_hash cfg cb) (rc_encode cfg w))
        nonce (max (reaction_difficulty s) (rc_min_difficulty cfg))
    \<and> (\<forall>q v. (q, v) \<noteq> (pid, w) \<longrightarrow> reactions s' q v = reactions s q v)
    \<and> st_likes (reaction_stats_storage s' pid) = (if rt = Like then sat_add u32_max (st_likes (reaction_stats_storage s pid)) 1
          else st_likes (reaction_stats_storage s pid))
    \<and> st_bads (reaction_stats_storage s' pid) = (if rt = Bad then sat_add u32_max (st_bads (reaction_stats_storage s pid)) 1
          else st_bads (reaction_stats_storage s pid))
    \<and> (\<forall>q. q \<noteq> pid \<longrightarrow> reaction_stats_storage s' q = reaction_stats_storage s q)
    \<and> (\<forall>now' rt' cb' nonce' cpu' q r. react cfg now' w pid rt' cb' nonce' cpu' (s', q) \<noteq> Inr r)"
proof -
  note eff = react_effect [OF assms]
  have "reactions s' pid w \<noteq> None" by (simp add: eff(2) record_reaction_def Let_def)
  then have "react cfg now' w pid rt' cb' nonce' cpu' (s', q) \<noteq> Inr r" for now' rt' cb' nonce' cpu' q r
    by (cases r) (simp add: react_Inr_iff react_ok_def)
  moreover have "\<forall>q v. (q, v) \<noteq> (pid, w) \<longrightarrow> reactions s' q v = reactions s q v"
    by (simp add: eff(2) record_reaction_def Let_def)
  moreover have "st_likes (reaction_stats_storage s' pid) = (if rt = Like then sat_add u32_max (st_likes (reaction_stats_storage s pid)) 1
          else st_likes (reaction_stats_storage s pid))"
    "st_bads (reaction_stats_storage s' pid) = (if rt = Bad then sat_add u32_max (st_bads (reaction_stats_storage s pid)) 1
          else st_bads (reaction_stats_storage s pid))"
    "\<forall>q. q \<noteq> pid \<longrightarrow> reaction_stats_storage s' q = reaction_stats_storage s q"
    by (cases rt, simp_all add: eff(3) record_reaction_def Let_def)+
  ultimately show ?thesis using eff(1) by (simp add: react_ok_def)
qed

definition demo_reaction :: "unit reaction_config" where
  "demo_reaction = \<lparr>rc_post_author = \<lambda>_ j. if j < 10 then Some 1 else None, rc_reaction_reward = 1000,
     rc_min_difficulty = 8, rc_max_difficulty = 32, rc_validity = 100, rc_target_rate = 10, rc_window = 10,
     rc_divisor = 4, rc_total_issuance = \<lambda>_. 100000, rc_gamma_max_ppm = 10000, rc_decay_k = 0,
     rc_payout_cap_ppm = 10000, rc_lock_min = 0, rc_lock_duration = 2880, rc_mint_into = \<lambda>_ _ p. Some p,
     rc_popularity = \<lambda>_ _ p. p, rc_block_hash = \<lambda>_. replicate 32 1, rc_encode = \<lambda>_. [],
     rc_blake2_256 = \<lambda>_. replicate 32 0\<rparr>"

lemma clz_spec_zeros: "clz_spec (replicate n 0) = 8 * n"
  by (induction n) simp_all

lemma clz_all_zero: "count_leading_zero_bits (replicate 32 0) = u8_max"
  by (simp add: count_leading_zero_bits_def clz_loop_spec clz_spec_zeros u8_max_def)

lemma demo_react_ok:
  assumes "pid < 10" "reactions s pid w = None" "now \<le> cb + 100" "now \<le> u32_max"
    and "reaction_difficulty s \<le> 100"
  shows "react_ok demo_reaction now w pid cb nonce (s, ())"
proof -
  have "replicate 32 (1 :: 8 word) \<noteq> replicate 32 0" by (simp add: replicate_eq_replicate)
  then show ?thesis
    using assms by (simp add: react_ok_def demo_reaction_def verify_proof_def clz_all_zero u8_max_def sat_add_def)
qed

lemma react_Inr_ex:
  assumes "react_ok cfg now w pid cb nonce (s, p)"
  shows "\<exists>s' p'. react cfg now w pid rt cb nonce cpu (s, p) = Inr (s', p')"
proof -
  have "\<exists>paid s2 p2. (case (rt, rc_post_author cfg p pid) of
            (Like, Some author) \<Rightarrow> pay_author cfg w author (record_reaction now w pid rt nonce cpu s, p)
          | _ \<Rightarrow> Some (0, record_reaction now w pid rt nonce cpu s, p)) = Some (paid, s2, p2)"
    using pay_author_total by (auto split: reaction_type.splits option.splits)
  then show ?thesis using assms unfolding react_Inr_iff by blast
qed

lemma react_once_witness:
  "\<exists>s'. react demo_reaction 5 7 3 Like 1 9 0 (genesis_reaction 1000 8, ()) = Inr (s', ())
    \<and> st_likes (reaction_stats_storage s' 3) = 1"
proof -
  have "react_ok demo_reaction 5 7 3 1 9 (genesis_reaction 1000 8, ())"
    by (rule demo_react_ok) (simp_all add: genesis_reaction_def u32_max_def)
  then obtain s' where s': "react demo_reaction 5 7 3 Like 1 9 0 (genesis_reaction 1000 8, ()) = Inr (s', ())"
    using react_Inr_ex by fastforce
  show ?thesis using react_once [OF s'] s' by (simp add: genesis_reaction_def sat_add_def u32_max_def)
qed

text \<open>
  What happens to the pallet within a block: accepted reactions, deposits into the pool (a post, a block
  reward and anyone else who calls \<open>do_deposit_to_reaction_pool\<close>), locks taken and released, and any
  changes of the posts, the token and the popularity pallet in between, in any order and by anyone.
  \<open>deposited\<close> is the sum of what was deposited so far.
\<close>

inductive react_run ::
    "'p reaction_config \<Rightarrow> 'c currency \<Rightarrow> block_number \<Rightarrow> reaction_state \<times> 'p \<Rightarrow> nat \<Rightarrow> reaction_state \<times> 'p \<Rightarrow> bool"
  for cfg :: "'p reaction_config" and cur :: "'c currency" and now :: block_number and sp :: "reaction_state \<times> 'p" where
  run_none: "react_run cfg cur now sp 0 sp"
| run_react: "react_run cfg cur now sp deposited (s1, p1) \<Longrightarrow> react cfg now w pid rt cb nonce cpu (s1, p1) = Inr (s2, p2) \<Longrightarrow>
     react_run cfg cur now sp deposited (s2, p2)"
| run_deposit: "react_run cfg cur now sp deposited (s1, p1) \<Longrightarrow>
     react_run cfg cur now sp (deposited + amount) (do_deposit_to_reaction_pool amount s1, p1)"
| run_lock: "react_run cfg cur now sp deposited (s1, p1) \<Longrightarrow> lock_for_rewards cfg cur now w amount (s1, c) = Inr (s2, c') \<Longrightarrow>
     react_run cfg cur now sp deposited (s2, p1)"
| run_unlock: "react_run cfg cur now sp deposited (s1, p1) \<Longrightarrow> unlock_reactor cur now w (s1, c) = Inr (s2, c') \<Longrightarrow>
     react_run cfg cur now sp deposited (s2, p1)"
| run_other: "react_run cfg cur now sp deposited (s1, p1) \<Longrightarrow> react_run cfg cur now sp deposited (s1, p2)"










text \<open>The challenge of a reaction does not depend on the post. One proof of work found for one
  post is accepted, in the same state of the difficulty and until it expires, for every other post
  the account has not reacted to.
\<close>

theorem one_proof_for_all_posts:
  assumes "react cfg now w pid rt cb nonce cpu (s, p) = Inr (s', p')"
    and "other \<noteq> pid" "rc_post_author cfg p' other \<noteq> None" "reactions s other w = None"
    and "now' \<le> sat_add u32_max cb (rc_validity cfg)"
  shows "\<exists>s'' p''. react cfg now' w other rt' cb nonce cpu' (s', p') = Inr (s'', p'')"
proof (rule react_Inr_ex)
  note eff = react_effect [OF assms(1)]
  have "reactions s' other w = None" using assms(2,4) by (simp add: eff(2) record_reaction_def Let_def)
  then show "react_ok cfg now' w other cb nonce (s', p')"
    using eff(1,4) assms(3,5) by (simp add: react_ok_def)
qed

lemma one_proof_for_all_posts_witness:
  "\<exists>s' s'' p''. react demo_reaction 5 7 3 Like 1 9 0 (genesis_reaction 1000 8, ()) = Inr (s', ())
     \<and> react demo_reaction 90 7 4 Bad 1 9 0 (s', ()) = Inr (s'', p'')"
proof -
  have "react_ok demo_reaction 5 7 3 1 9 (genesis_reaction 1000 8, ())"
    by (rule demo_react_ok) (simp_all add: genesis_reaction_def u32_max_def)
  then obtain s' where s': "react demo_reaction 5 7 3 Like 1 9 0 (genesis_reaction 1000 8, ()) = Inr (s', ())"
    using react_Inr_ex by fastforce
  from one_proof_for_all_posts [OF s', of 4 90 Bad 0] s' show ?thesis
    by (auto simp: demo_reaction_def genesis_reaction_def sat_add_def u32_max_def)
qed

text \<open>The adjusted difficulty always lies within its bounds. An excess of reactions raises it and a
  deficit lowers it as long as the change fits a byte; but the change is cast to a byte, so when the
  excess is a multiple of 256 times the divisor the difficulty does not move at all.
\<close>

theorem difficulty_adjustment:
  assumes "rc_min_difficulty cfg \<le> reaction_difficulty s" "reaction_difficulty s \<le> rc_max_difficulty cfg"
    and "rc_max_difficulty cfg \<le> u8_max" "0 < rc_divisor cfg"
  defines "target \<equiv> sat_mul u32_max (rc_target_rate cfg) (rc_window cfg)"
  shows "\<exists>s'. adjust_difficulty cfg now s = Some s'
    \<and> rc_min_difficulty cfg \<le> reaction_difficulty s' \<and> reaction_difficulty s' \<le> rc_max_difficulty cfg
    \<and> (target \<le> recent_reactions cfg now s \<longrightarrow> reaction_difficulty s \<le> reaction_difficulty s')
    \<and> (recent_reactions cfg now s \<le> target \<longrightarrow> reaction_difficulty s' \<le> reaction_difficulty s)
    \<and> (target < recent_reactions cfg now s \<longrightarrow> 256 dvd (recent_reactions cfg now s - target) div rc_divisor cfg \<longrightarrow> s' = s)"
proof -
  define n where "n = recent_reactions cfg now s"
  define up where "up = (if target < n then (n - target) div max (rc_divisor cfg) 1 else 0) mod 256"
  define down where "down = (if n < target then (target - n) div max (rc_divisor cfg) 1 else 0) mod 256"
  define x where "x = sat_add u8_max (reaction_difficulty s) up - down"
  define d where "d = min (max x (rc_min_difficulty cfg)) (rc_max_difficulty cfg)"
  define s' where "s' = (if d \<noteq> reaction_difficulty s
      then reaction_deposit_event (DifficultyAdjusted (reaction_difficulty s) d) (s\<lparr>reaction_difficulty := d\<rparr>) else s)"
  have adj: "adjust_difficulty cfg now s = Some s'"
    unfolding adjust_difficulty_def Let_def s'_def d_def x_def up_def down_def n_def target_def
    using assms(1,2) by (simp only: not_less [THEN iffD2, OF order_trans] if_False)
  have val: "reaction_difficulty s' = d" by (simp add: s'_def reaction_deposit_event_def)
  have c: "reaction_difficulty s \<le> u8_max" using assms(2,3) by (rule order_trans)
  have same: "sat_add u8_max (reaction_difficulty s) 0 = reaction_difficulty s" using c by (simp add: sat_add_def)
  have b: "rc_min_difficulty cfg \<le> d" "d \<le> rc_max_difficulty cfg"
    using order_trans [OF assms(1,2)] unfolding d_def by (simp_all only: min.bounded_iff max.cobounded2 min.cobounded2 simp_thms)
  have ge: "reaction_difficulty s \<le> d" if "reaction_difficulty s \<le> x"
    unfolding d_def by (intro min.boundedI assms(2) max.coboundedI1 that)
  have le: "d \<le> reaction_difficulty s" if "x \<le> reaction_difficulty s"
    unfolding d_def by (intro min.coboundedI1 max.boundedI assms(1) that)
  have x_ge: "reaction_difficulty s \<le> x" if "target \<le> n"
  proof -
    have "down = 0" using that by (simp add: down_def)
    then show ?thesis unfolding x_def using sat_add_ge_left [OF c, of up] by simp
  qed
  have x_le: "x \<le> reaction_difficulty s" if "n \<le> target"
  proof -
    have "up = 0" using that by (simp add: up_def)
    then show ?thesis unfolding x_def by (simp add: same)
  qed
  have stuck: "s' = s" if "target < n" "256 dvd (n - target) div rc_divisor cfg"
  proof -
    have "up = 0" "down = 0" using that assms(4) by (simp_all add: up_def down_def max_absorb1 Suc_le_eq dvd_eq_mod_eq_0)
    then have "x = reaction_difficulty s" unfolding x_def by (simp add: same)
    then have "d = reaction_difficulty s" using le ge by (simp add: antisym)
    then show ?thesis by (simp add: s'_def)
  qed
  show ?thesis
    unfolding n_def [symmetric]
    by (intro exI [of _ s'] conjI impI adj)
      (simp_all only: val b ge [OF x_ge] le [OF x_le] stuck)
qed

lemma difficulty_adjustment_witness:
  "adjust_difficulty demo_reaction 10 ((genesis_reaction 0 8)\<lparr>reaction_history := (\<lambda>_. 0)(7 := 1124)\<rparr>)
   = Some ((genesis_reaction 0 8)\<lparr>reaction_history := (\<lambda>_. 0)(7 := 1124)\<rparr>)"
proof -
  let ?s = "(genesis_reaction 0 8)\<lparr>reaction_history := (\<lambda>_. 0)(7 := 1124)\<rparr>"
  have "recent_reactions demo_reaction 10 ?s = 1124"
    by (simp add: recent_reactions_def demo_reaction_def sat_add_def u32_max_def upt_conv_Cons)
  then show ?thesis
    using difficulty_adjustment [of demo_reaction ?s 10]
    by (simp add: demo_reaction_def genesis_reaction_def u8_max_def sat_mul_def u32_max_def)
qed

end
