(* ===== verification/Post.thy ===== *)
theory Post
  imports Storage_Registry Popularity Base_Fee Reaction
begin

text \<open>
  \<open>pallets/post/src/lib.rs\<close>: the creation of a post, what it costs and where the cost goes, and the
  deletion of a post on behalf of the popularity pallet. The runtime wires the pallet to the
  storage, reaction, popularity and base fee pallets and to the native token, so its handlers are
  modelled on the record \<open>chain\<close> of their states.
\<close>

subsection \<open>Data and storage\<close>

record post =
  po_author :: account_id
  po_content_hash :: hash256
  po_created_at :: block_number
  po_parent_id :: "nat option"

record post_content =
  ct_root :: hash256
  ct_k :: nat
  ct_n :: nat
  ct_size :: nat
  ct_ciphertext_len :: nat
  ct_shard_size :: nat
  ct_compressed :: bool

record post_config =
  pt_max_content_length :: nat
  pt_base_cost :: nat
  pt_byte_cost :: nat
  pt_storage_share :: nat
  pt_reaction_share :: nat
  pt_mul_floor :: "nat \<Rightarrow> nat \<Rightarrow> nat"

datatype post_event = PostCreated nat account_id hash256

datatype post_error =
    ContentTooLong | TooManyPosts | ParentPostNotFound | InsufficientMoralBalance | InvalidKNParameters
  | DuplicateMerkleRoot | CostCalculationOverflow | PostIdOverflow | FragmentRegistrationFailed | PostNotFound

record post_state =
  next_post_id :: nat
  posts :: "nat \<rightharpoonup> post"
  content_refs :: "nat \<rightharpoonup> post_content"
  merkle_root_to_post_id :: "hash256 \<rightharpoonup> nat"
  user_posts :: "account_id \<Rightarrow> nat list"
  post_events :: "post_event list"

definition genesis_post :: post_state where
  "genesis_post = \<lparr>next_post_id = 0, posts = \<lambda>_. None, content_refs = \<lambda>_. None,
     merkle_root_to_post_id = \<lambda>_. None, user_posts = \<lambda>_. [], post_events = []\<rparr>"

definition max_user_posts :: nat where "max_user_posts = 1000"

text \<open>The pallets a post touches.\<close>

record 'c chain =
  ch_post :: post_state
  ch_storage :: storage_state
  ch_reaction :: reaction_state
  ch_popularity :: popularity_state
  ch_base_fee :: base_fee_state
  ch_token :: 'c

record ('c, 'p, 'q) chain_config =
  cc_post :: post_config
  cc_storage :: "'p storage_config"
  cc_popularity :: "'q popularity_config"
  cc_base_fee :: base_fee_config
  cc_token :: "'c currency"

subsection \<open>Creating a post\<close>

text \<open>The cost of a post: base cost, cost per byte and the base fee per byte.\<close>

definition post_distributable :: "post_config \<Rightarrow> nat \<Rightarrow> nat" where
  "post_distributable cfg n = sat_add u128_max (pt_base_cost cfg) (sat_mul u128_max n (pt_byte_cost cfg))"

definition post_total_cost :: "post_config \<Rightarrow> nat \<Rightarrow> nat \<Rightarrow> nat" where
  "post_total_cost cfg fee_per_byte n =
     sat_add u128_max (post_distributable cfg n) (sat_mul u128_max n fee_per_byte)"

definition create_post ::
  "('c, 'p, 'q) chain_config \<Rightarrow> block_number \<Rightarrow> account_id \<Rightarrow> hash256 \<Rightarrow> nat \<Rightarrow> nat \<Rightarrow> nat \<Rightarrow> nat \<Rightarrow> nat \<Rightarrow>
   bool \<Rightarrow> nat option \<Rightarrow> 'c chain \<Rightarrow> (post_error, 'c chain) result" where
  "create_post cc now who root k n total_size ciphertext_len shard_size compressed parent_id ch =
     (let cfg = cc_post cc; s = ch_post ch in
      ensure (0 < k \<and> k \<le> n \<and> n \<le> 255) InvalidKNParameters (
      ensure (total_size \<le> pt_max_content_length cfg) ContentTooLong (
      ensure (merkle_root_to_post_id s root = None) DuplicateMerkleRoot (
      ensure (case parent_id of None \<Rightarrow> True | Some pid \<Rightarrow> posts s pid \<noteq> None) ParentPostNotFound (
      ensure (length (user_posts s who) < max_user_posts) TooManyPosts (
      let cost = post_total_cost cfg (current_base_fee_value (cc_base_fee cc) (ch_base_fee ch)) total_size in
      ok_or (cur_burn (cc_token cc) who cost (ch_token ch)) InsufficientMoralBalance (\<lambda>token'.
      let distributable = post_distributable cfg total_size;
          storage_pool_amount = pt_mul_floor cfg (pt_storage_share cfg) distributable;
          reaction_pool_amount = pt_mul_floor cfg (pt_reaction_share cfg) distributable;
          storage1 = do_deposit_to_reward_pool storage_pool_amount (ch_storage ch);
          reaction' = do_deposit_to_reaction_pool reaction_pool_amount (ch_reaction ch);
          fee' = record_gas_internal (total_size mod 2 ^ 32) (ch_base_fee ch);
          post_id = next_post_id s in
      ensure (post_id + 1 \<le> u64_max) PostIdOverflow (
      let p = \<lparr>po_author = who, po_content_hash = root, po_created_at = now, po_parent_id = parent_id\<rparr>;
          content_ref = \<lparr>ct_root = root, ct_k = k, ct_n = n, ct_size = total_size,
            ct_ciphertext_len = ciphertext_len, ct_shard_size = shard_size, ct_compressed = compressed\<rparr>;
          fragment_size = min total_size u32_max in
      case do_register_fragment (cc_storage cc) now who root fragment_size storage1 of
        Inl Trap \<Rightarrow> Inl Trap
      | Inl (Err _) \<Rightarrow> Inl (Err FragmentRegistrationFailed)
      | Inr storage2 \<Rightarrow>
          Inr \<lparr>ch_post = \<lparr>next_post_id = post_id + 1, posts = (posts s)(post_id \<mapsto> p),
                 content_refs = (content_refs s)(post_id \<mapsto> content_ref),
                 merkle_root_to_post_id = (merkle_root_to_post_id s)(root \<mapsto> post_id),
                 user_posts = (user_posts s)(who := user_posts s who @ [post_id]),
                 post_events = post_events s @ [PostCreated post_id who root]\<rparr>,
               ch_storage = storage2, ch_reaction = reaction',
               ch_popularity = on_post_created (cc_popularity cc) now post_id (ch_popularity ch),
               ch_base_fee = fee', ch_token = token'\<rparr>))))))))"

text \<open>The pallet as \<open>PostCountProvider\<close>, \<open>PostMutator\<close> and \<open>PostAuthorProvider\<close> (the last in the runtime).\<close>

definition delete_post :: "nat \<Rightarrow> post_state \<Rightarrow> (hash256 \<times> post_state) option" where
  "delete_post post_id s =
     (case posts s post_id of
        None \<Rightarrow> None
      | Some p \<Rightarrow>
          Some (po_content_hash p,
            s\<lparr>posts := (posts s)(post_id := None),
              content_refs := (content_refs s)(post_id := None),
              merkle_root_to_post_id := (merkle_root_to_post_id s)(po_content_hash p := None),
              user_posts := (user_posts s)(po_author p := filter (\<lambda>j. j \<noteq> post_id) (user_posts s (po_author p)))\<rparr>))"

definition get_post_author :: "post_state \<Rightarrow> nat \<Rightarrow> account_id option" where
  "get_post_author s post_id = map_option po_author (posts s post_id)"

text \<open>The runtime API.\<close>

record post_content_info =
  pi_root :: hash256
  pi_k :: nat
  pi_n :: nat
  pi_size :: nat

definition content_info :: "post_content \<Rightarrow> post_content_info" where
  "content_info c = \<lparr>pi_root = ct_root c, pi_k = ct_k c, pi_n = ct_n c, pi_size = ct_size c\<rparr>"

definition get_content_by_post_id :: "post_state \<Rightarrow> nat \<Rightarrow> post_content_info option" where
  "get_content_by_post_id s post_id = map_option content_info (content_refs s post_id)"

definition get_content_by_merkle_root :: "post_state \<Rightarrow> hash256 \<Rightarrow> post_content_info option" where
  "get_content_by_merkle_root s root =
     (case merkle_root_to_post_id s root of
        None \<Rightarrow> None
      | Some pid \<Rightarrow> map_option content_info (content_refs s pid))"

subsection \<open>The pallet as the mutator of the popularity pallet\<close>

definition mutator_delete :: "nat \<Rightarrow> post_state \<times> storage_state \<Rightarrow> (hash256 \<times> (post_state \<times> storage_state)) option" where
  "mutator_delete pid = (\<lambda>(s, st). map_option (\<lambda>(h, s'). (h, (s', st))) (delete_post pid s))"

definition releaser :: "hash256 \<Rightarrow> post_state \<times> storage_state \<Rightarrow> (post_state \<times> storage_state) option" where
  "releaser h = (\<lambda>(s, st). Some (s, do_release_fragment h st))"

definition post_live :: "post_state \<times> storage_state \<Rightarrow> nat \<Rightarrow> bool" where
  "post_live = (\<lambda>(s, st) pid. posts s pid \<noteq> None)"

interpretation mutator: post_mutator post_live mutator_delete releaser
  by unfold_locales (auto simp: post_live_def mutator_delete_def releaser_def delete_post_def split: option.splits if_splits)

text \<open>The runtime's constants of the popularity pallet, for a hash of the map keys.\<close>

definition runtime_popularity :: "(nat \<Rightarrow> nat) \<Rightarrow> (post_state \<times> storage_state) popularity_config" where
  "runtime_popularity key = \<lparr>pc_initial_score = 100000, pc_like_weight = 100, pc_dislike_weight = 50,
     pc_decay_rate = 999950, pc_threshold = 1000, pc_margin = 500, pc_grace = 100800, pc_max_scanned = 8,
     pc_max_deletions = 4, pc_max_reads = 16, pc_max_steps = 1000000, pc_next_post_id = \<lambda>(s, st). next_post_id s,
     pc_delete_post = mutator_delete, pc_release_fragment = releaser, pc_key = key\<rparr>"

lemma runtime_popularity_wired: "mutator.wired (runtime_popularity key)"
  by (simp add: mutator.wired_def runtime_popularity_def)

subsection \<open>What an accepted post does\<close>

lemma fragment_case_Inr:
  "(case r of Inl Trap \<Rightarrow> Inl Trap | Inl (Err _) \<Rightarrow> Inl (Err e) | Inr x \<Rightarrow> Inr (k x)) = Inr y \<longleftrightarrow> (\<exists>x. r = Inr x \<and> y = k x)"
  by (auto split: sum.splits failure.splits)

lemma do_register_fragment_Inr:
  "do_register_fragment cfg c w f n s = Inr s' \<longleftrightarrow> 0 < n \<and> n \<le> sc_max_fragment_size cfg \<and> fragments s f = None
     \<and> s' = storage_deposit_event (FragmentRegistered f w n)
         (s\<lparr>fragments := (fragments s)(f \<mapsto> \<lparr>fm_size = n, fm_creator = w, fm_created_at = c\<rparr>)\<rparr>)"
  by (auto simp: do_register_fragment_def result_simps)

lemma create_post_Inr:
  assumes "create_post cc now who root k n sz cl ss cmp parent ch = Inr ch'"
  shows "0 < k \<and> k \<le> n \<and> n \<le> 255 \<and> 0 < sz \<and> sz \<le> pt_max_content_length (cc_post cc)
      \<and> merkle_root_to_post_id (ch_post ch) root = None
      \<and> (\<forall>pid. parent = Some pid \<longrightarrow> posts (ch_post ch) pid \<noteq> None)
      \<and> length (user_posts (ch_post ch) who) < max_user_posts \<and> next_post_id (ch_post ch) < u64_max
      \<and> fragments (ch_storage ch) root = None"
    and "cur_burn (cc_token cc) who
        (post_total_cost (cc_post cc) (current_base_fee_value (cc_base_fee cc) (ch_base_fee ch)) sz) (ch_token ch)
      = Some (ch_token ch')"
    and "ch_post ch' = \<lparr>next_post_id = next_post_id (ch_post ch) + 1,
        posts = (posts (ch_post ch))(next_post_id (ch_post ch) \<mapsto>
          \<lparr>po_author = who, po_content_hash = root, po_created_at = now, po_parent_id = parent\<rparr>),
        content_refs = (content_refs (ch_post ch))(next_post_id (ch_post ch) \<mapsto>
          \<lparr>ct_root = root, ct_k = k, ct_n = n, ct_size = sz, ct_ciphertext_len = cl, ct_shard_size = ss, ct_compressed = cmp\<rparr>),
        merkle_root_to_post_id = (merkle_root_to_post_id (ch_post ch))(root \<mapsto> next_post_id (ch_post ch)),
        user_posts = (user_posts (ch_post ch))(who := user_posts (ch_post ch) who @ [next_post_id (ch_post ch)]),
        post_events = post_events (ch_post ch) @ [PostCreated (next_post_id (ch_post ch)) who root]\<rparr>"
    and "fragments (ch_storage ch') = (fragments (ch_storage ch))(root \<mapsto>
        \<lparr>fm_size = min sz u32_max, fm_creator = who, fm_created_at = now\<rparr>)"
    and "reward_pool (ch_storage ch') = sat_add u128_max (reward_pool (ch_storage ch))
        (pt_mul_floor (cc_post cc) (pt_storage_share (cc_post cc)) (post_distributable (cc_post cc) sz))"
    and "reaction_reward_pool (ch_reaction ch') = sat_add u128_max (reaction_reward_pool (ch_reaction ch))
        (pt_mul_floor (cc_post cc) (pt_reaction_share (cc_post cc)) (post_distributable (cc_post cc) sz))"
    and "ch_popularity ch' = on_post_created (cc_popularity cc) now (next_post_id (ch_post ch)) (ch_popularity ch)"
    and "ch_base_fee ch' = record_gas_internal (sz mod 2 ^ 32) (ch_base_fee ch)"
proof -
  note r = assms [unfolded create_post_def Let_def result_simps fragment_case_Inr do_register_fragment_Inr]
  from r obtain token' where guards: "0 < k \<and> k \<le> n \<and> n \<le> 255" "sz \<le> pt_max_content_length (cc_post cc)"
      "merkle_root_to_post_id (ch_post ch) root = None"
      "case parent of None \<Rightarrow> True | Some pid \<Rightarrow> posts (ch_post ch) pid \<noteq> None"
      "length (user_posts (ch_post ch) who) < max_user_posts" "next_post_id (ch_post ch) + 1 \<le> u64_max"
    and burn: "cur_burn (cc_token cc) who
        (post_total_cost (cc_post cc) (current_base_fee_value (cc_base_fee cc) (ch_base_fee ch)) sz) (ch_token ch) = Some token'"
    and reg: "0 < min sz u32_max" "fragments (do_deposit_to_reward_pool (pt_mul_floor (cc_post cc)
        (pt_storage_share (cc_post cc)) (post_distributable (cc_post cc) sz)) (ch_storage ch)) root = None"
    by blast
  show "0 < k \<and> k \<le> n \<and> n \<le> 255 \<and> 0 < sz \<and> sz \<le> pt_max_content_length (cc_post cc)
      \<and> merkle_root_to_post_id (ch_post ch) root = None
      \<and> (\<forall>pid. parent = Some pid \<longrightarrow> posts (ch_post ch) pid \<noteq> None)
      \<and> length (user_posts (ch_post ch) who) < max_user_posts \<and> next_post_id (ch_post ch) < u64_max
      \<and> fragments (ch_storage ch) root = None"
    using guards reg by (auto simp: do_deposit_to_reward_pool_def)
qed (use assms [unfolded create_post_def Let_def result_simps fragment_case_Inr do_register_fragment_Inr] in
    \<open>elim conjE exE, simp add: do_deposit_to_reward_pool_def do_deposit_to_reaction_pool_def
      reaction_deposit_event_def storage_deposit_event_def\<close>)+

text \<open>C29: an accepted post burns exactly its cost from the author and nothing else in the ledger; the
  storage and reaction pools together are credited with no more than the part of the cost that is
  not the base fee; the post gets the next id, is found by its id and by its root with the
  parameters given, its author can be paid for reactions, its fragment is registered under the root
  with the author as creator, and its score starts fresh.
\<close>

theorem create_post_spec:
  assumes "create_post cc now who root k n sz cl ss cmp parent ch = Inr ch'"
    and "currency_laws (cc_token cc)" "cur_ok (cc_token cc) (ch_token ch)" "permill_floor_law (pt_mul_floor (cc_post cc))"
    and "pt_storage_share (cc_post cc) + pt_reaction_share (cc_post cc) \<le> 1000000"
  shows "let cost = post_total_cost (cc_post cc) (current_base_fee_value (cc_base_fee cc) (ch_base_fee ch)) sz;
      pid = next_post_id (ch_post ch); info = \<lparr>pi_root = root, pi_k = k, pi_n = n, pi_size = sz\<rparr> in
    0 < k \<and> k \<le> n \<and> n \<le> 255 \<and> 0 < sz \<and> sz \<le> pt_max_content_length (cc_post cc)
    \<and> cost \<le> free_balance (cc_token cc) (ch_token ch) who
    \<and> free_balance (cc_token cc) (ch_token ch') =
        (free_balance (cc_token cc) (ch_token ch))(who := free_balance (cc_token cc) (ch_token ch) who - cost)
    \<and> total_issuance (cc_token cc) (ch_token ch') + cost = total_issuance (cc_token cc) (ch_token ch)
    \<and> reward_pool (ch_storage ch') + reaction_reward_pool (ch_reaction ch')
        \<le> reward_pool (ch_storage ch) + reaction_reward_pool (ch_reaction ch) + post_distributable (cc_post cc) sz
    \<and> post_distributable (cc_post cc) sz \<le> cost
    \<and> get_content_by_merkle_root (ch_post ch) root = None
    \<and> get_content_by_merkle_root (ch_post ch') root = Some info
    \<and> get_content_by_post_id (ch_post ch') pid = Some info \<and> get_post_author (ch_post ch') pid = Some who
    \<and> fragments (ch_storage ch') root = Some \<lparr>fm_size = min sz u32_max, fm_creator = who, fm_created_at = now\<rparr>
    \<and> post_scores (ch_popularity ch') pid = Some (fresh_popularity (cc_popularity cc) now)"
proof -
  note eff = create_post_Inr [OF assms(1)]
  let ?cost = "post_total_cost (cc_post cc) (current_base_fee_value (cc_base_fee cc) (ch_base_fee ch)) sz"
  let ?d = "post_distributable (cc_post cc) sz" and ?f = "pt_mul_floor (cc_post cc)"
  have "?f (pt_storage_share (cc_post cc)) ?d + ?f (pt_reaction_share (cc_post cc)) ?d \<le> ?d"
    using mul_floor_shares [OF assms(4), of "pt_storage_share (cc_post cc)" "pt_reaction_share (cc_post cc)" 0 ?d] assms(5) by simp
  moreover note sat_add_le_sum [of u128_max "reward_pool (ch_storage ch)" "?f (pt_storage_share (cc_post cc)) ?d"]
    sat_add_le_sum [of u128_max "reaction_reward_pool (ch_reaction ch)" "?f (pt_reaction_share (cc_post cc)) ?d"]
  ultimately have pools: "reward_pool (ch_storage ch') + reaction_reward_pool (ch_reaction ch')
      \<le> reward_pool (ch_storage ch) + reaction_reward_pool (ch_reaction ch) + ?d"
    unfolding eff(5,6) by linarith
  have le: "?d \<le> ?cost" unfolding post_total_cost_def by (rule sat_add_ge_left) (simp add: post_distributable_def)
  note b = burnD [OF assms(2,3) eff(2)]
  show ?thesis
    unfolding Let_def
    by (intro conjI b(2,3,5) pools le) (use eff(1) in \<open>simp_all add: eff(3,4,7) get_content_by_merkle_root_def
        get_content_by_post_id_def get_post_author_def content_info_def on_post_created_def\<close>)
qed

definition demo_chain_config :: "'q popularity_config \<Rightarrow> (ledger, unit, 'q) chain_config" where
  "demo_chain_config pc = \<lparr>cc_post = \<lparr>pt_max_content_length = 1000, pt_base_cost = 25, pt_byte_cost = 2,
       pt_storage_share = 500000, pt_reaction_share = 200000, pt_mul_floor = floor_permill\<rparr>,
     cc_storage = demo_storage_config, cc_popularity = pc, cc_base_fee = mainnet_base_fee,
     cc_token = ledger_currency\<rparr>"

definition demo_chain :: "nat \<Rightarrow> ledger chain" where
  "demo_chain b = \<lparr>ch_post = genesis_post, ch_storage = genesis_storage 0, ch_reaction = genesis_reaction 0 8,
     ch_popularity = genesis_popularity, ch_base_fee = genesis_base_fee mainnet_base_fee, ch_token = ledger_of 1 b 0\<rparr>"

lemma demo_chain_create:
  "\<exists>ch'. create_post (demo_chain_config pc) 3 1 77 2 4 10 26 13 False None (demo_chain 1000000000) = Inr ch'"
  by (simp add: create_post_def Let_def demo_chain_config_def demo_chain_def genesis_post_def max_user_posts_def
      ledger_currency_def led_burn_def ledger_of_def post_total_cost_def post_distributable_def sat_add_def sat_mul_def
      current_base_fee_value_def genesis_base_fee_def mainnet_base_fee_def u128_max_def u64_max_def u32_max_def
      do_register_fragment_def demo_storage_config_def genesis_storage_def do_deposit_to_reward_pool_def)

lemma create_post_spec_witness:
  "\<exists>ch'. create_post (demo_chain_config demo_popularity) 3 1 77 2 4 10 26 13 False None (demo_chain 1000000000) = Inr ch'
    \<and> get_post_author (ch_post ch') 0 = Some 1"
proof -
  obtain ch' where ch': "create_post (demo_chain_config demo_popularity) 3 1 77 2 4 10 26 13 False None (demo_chain 1000000000) = Inr ch'"
    using demo_chain_create by blast
  have "cc_token (demo_chain_config demo_popularity) = ledger_currency"
    "pt_mul_floor (cc_post (demo_chain_config demo_popularity)) = floor_permill"
    "pt_storage_share (cc_post (demo_chain_config demo_popularity))
      + pt_reaction_share (cc_post (demo_chain_config demo_popularity)) \<le> 1000000"
    "cur_ok ledger_currency (ch_token (demo_chain 1000000000))"
    using ledger_of_ok [of 1000000000 0 1]
    by (simp_all add: demo_chain_config_def demo_chain_def ledger_currency_def u128_max_def)
  then show ?thesis
    using create_post_spec [OF ch'] ch' ledger_currency_laws floor_permill_law
    by (auto simp: Let_def demo_chain_def genesis_post_def)
qed

subsection \<open>The chain's steps on posts\<close>

text \<open>
  The reaction pallet wired as in the runtime: authors come from the posts, rewards are minted in the
  native token, and the popularity pallet is told of every reaction.
\<close>

definition reaction_wiring ::
  "('c, 'p, 'q) chain_config \<Rightarrow> block_number \<Rightarrow> (post_state \<times> popularity_state \<times> 'c) reaction_config \<Rightarrow>
   (post_state \<times> popularity_state \<times> 'c) reaction_config" where
  "reaction_wiring cc now rc = rc\<lparr>
     rc_post_author := \<lambda>(s, pop, c) pid. get_post_author s pid,
     rc_total_issuance := \<lambda>(s, pop, c). total_issuance (cc_token cc) c,
     rc_mint_into := \<lambda>w a (s, pop, c). map_option (\<lambda>c'. (s, pop, c')) (cur_mint (cc_token cc) w a c),
     rc_popularity := \<lambda>pid kind (s, pop, c). (s, on_reaction (cc_popularity cc) now pid kind pop, c)\<rparr>"

text \<open>
  Every other call of the storage pallet, and the end of its block, leaves the registered fragments
  registered: only the removal of a post, through the popularity pallet, releases one.
\<close>

lemma storage_op_keeps_fragments:
  assumes "storage_op cfg now (s, p) (s', p')" and "fragments s h \<noteq> None"
  shows "fragments s' h \<noteq> None \<or> (\<exists>f. s' = do_release_fragment f s)"
proof -
  have frame: "registry_part s' = registry_part s \<Longrightarrow> ?thesis" using assms(2) by (simp add: registry_part_def)
  from assms(1) show ?thesis
  proof (cases rule: storage_op.cases)
    case (op_register_node who peer cap nonce url)
    then show ?thesis using assms(2) by (auto simp: register_node_def validate_peer_id_def validate_capacity_def result_simps storage_deposit_event_def Let_def)
  next
    case (op_update_node who cap)
    then show ?thesis using assms(2) by (auto simp: update_node_def validate_capacity_def result_simps storage_deposit_event_def Let_def)
  next
    case (op_unregister_node who)
    then show ?thesis using assms(2) by (auto simp: unregister_node_def result_simps storage_deposit_event_def Let_def)
  next
    case (op_declare who f)
    then show ?thesis using assms(2) declare_holding_effect by metis
  next
    case (op_revoke who f)
    then show ?thesis using assms(2) revoke_holding_effect by metis
  next
    case (op_register_fragment who f n)
    then show ?thesis using assms(2) by (auto simp: register_fragment_def result_simps storage_deposit_event_def)
  next
    case (op_iface_fragment t who f n)
    then show ?thesis using assms(2) by (auto simp: do_register_fragment_def result_simps storage_deposit_event_def)
  next
    case (op_release f)
    then show ?thesis by blast
  qed (rule frame, simp add: registry_part_others)+
qed

lemma storage_finalize_keeps_fragments: "fragments (fst (storage_on_finalize cfg now (s, p))) = fragments s"
  using registry_part_finalize [of cfg now s p] by (simp add: registry_part_def)

text \<open>
  The steps: a post, a registration, a reaction, the end of a block of the popularity pallet, and
  \<open>step_others\<close> for everything else. By the two lemmas above that includes every other call of the
  storage pallet and the end of its block; the other pallets have no access to posts, scores and fragments.
\<close>

inductive chain_step ::
  "('c, 'p, post_state \<times> storage_state) chain_config \<Rightarrow> (post_state \<times> popularity_state \<times> 'c) reaction_config \<Rightarrow>
   'c chain \<Rightarrow> 'c chain \<Rightarrow> bool"
  for cc :: "('c, 'p, post_state \<times> storage_state) chain_config" and rc :: "(post_state \<times> popularity_state \<times> 'c) reaction_config" where
  step_create: "create_post cc now who root k n sz cl ss cmp parent ch = Inr ch' \<Longrightarrow> chain_step cc rc ch ch'"
| step_register: "register_fragment (cc_storage cc) now who f n (ch_storage ch) = Inr st' \<Longrightarrow>
     chain_step cc rc ch (ch\<lparr>ch_storage := st'\<rparr>)"
| step_react: "react (reaction_wiring cc now rc) now w pid rt cb nonce cpu
       (ch_reaction ch, ch_post ch, ch_popularity ch, ch_token ch) = Inr (r', s', pop', c') \<Longrightarrow>
     chain_step cc rc ch (ch\<lparr>ch_reaction := r', ch_post := s', ch_popularity := pop', ch_token := c'\<rparr>)"
| step_popularity: "popularity_on_finalize (cc_popularity cc) now (ch_popularity ch, ch_post ch, ch_storage ch) = (pop', s', st') \<Longrightarrow>
     chain_step cc rc ch (ch\<lparr>ch_popularity := pop', ch_post := s', ch_storage := st'\<rparr>)"
| step_others: "(\<And>h. fragments (ch_storage ch) h \<noteq> None \<Longrightarrow> fragments st' h \<noteq> None) \<Longrightarrow>
     chain_step cc rc ch (ch\<lparr>ch_storage := st', ch_reaction := r', ch_base_fee := b', ch_token := c'\<rparr>)"

inductive chain_reachable ::
  "('c, 'p, post_state \<times> storage_state) chain_config \<Rightarrow> (post_state \<times> popularity_state \<times> 'c) reaction_config \<Rightarrow> 'c chain \<Rightarrow> bool"
  for cc :: "('c, 'p, post_state \<times> storage_state) chain_config" and rc :: "(post_state \<times> popularity_state \<times> 'c) reaction_config" where
  chain_genesis: "ch_post ch = genesis_post \<Longrightarrow> ch_popularity ch = genesis_popularity \<Longrightarrow> chain_reachable cc rc ch"
| chain_more: "chain_reachable cc rc ch \<Longrightarrow> chain_step cc rc ch ch' \<Longrightarrow> chain_reachable cc rc ch'"

text \<open>The indexes of the posts agree, and every live post has a registered fragment.\<close>

definition post_inv :: "post_state \<Rightarrow> bool" where
  "post_inv s \<longleftrightarrow>
     (\<forall>pid p. posts s pid = Some p \<longrightarrow> pid < next_post_id s \<and> merkle_root_to_post_id s (po_content_hash p) = Some pid
        \<and> (\<exists>c. content_refs s pid = Some c \<and> ct_root c = po_content_hash p \<and> 0 < ct_k c \<and> ct_k c \<le> ct_n c \<and> ct_n c \<le> 255))
     \<and> (\<forall>pid. posts s pid = None \<longrightarrow> content_refs s pid = None)
     \<and> (\<forall>root pid. merkle_root_to_post_id s root = Some pid \<longrightarrow> (\<exists>p. posts s pid = Some p \<and> po_content_hash p = root))
     \<and> (\<forall>w. distinct (user_posts s w) \<and> length (user_posts s w) \<le> max_user_posts
          \<and> set (user_posts s w) = {pid. get_post_author s pid = Some w})"

definition post_fragments :: "post_state \<times> storage_state \<Rightarrow> bool" where
  "post_fragments = (\<lambda>(s, st). \<forall>pid p. posts s pid = Some p \<longrightarrow> fragments st (po_content_hash p) \<noteq> None)"

lemma pay_author_state:
  assumes "pay_author cfg reactor author (s, p) = Some (paid, s', p')"
  shows "p' = p \<or> (\<exists>a. rc_mint_into cfg author a p = Some p')"
  using assms by (auto simp: pay_author_def Let_def split: option.splits if_splits)

lemma wired_react:
  assumes "react (reaction_wiring cc now rc) now w pid rt cb nonce cpu (r, s, pop, c) = Inr (r', s', pop', c')"
  shows "posts s pid \<noteq> None \<and> s' = s
    \<and> pop' = on_reaction (cc_popularity cc) now pid (case rt of Like \<Rightarrow> PopLike | Bad \<Rightarrow> PopDislike) pop"
proof -
  let ?cfg = "reaction_wiring cc now rc"
  have "posts s pid \<noteq> None" using assms
    by (auto simp: react_Inr_iff react_ok_def reaction_wiring_def get_post_author_def)
  moreover from assms obtain paid s2 s3 pop3 c3 where case_eq: "(case (rt, rc_post_author ?cfg (s, pop, c) pid) of
        (Like, Some author) \<Rightarrow> pay_author ?cfg w author (record_reaction now w pid rt nonce cpu r, s, pop, c)
      | _ \<Rightarrow> Some (0, record_reaction now w pid rt nonce cpu r, s, pop, c)) = Some (paid, s2, s3, pop3, c3)"
    and p': "(s', pop', c') = rc_popularity ?cfg pid (case rt of Like \<Rightarrow> PopLike | Bad \<Rightarrow> PopDislike) (s3, pop3, c3)"
    unfolding react_Inr_iff by (metis prod.collapse)
  have "s3 = s \<and> pop3 = pop"
  proof (cases "\<exists>author. rt = Like \<and> rc_post_author ?cfg (s, pop, c) pid = Some author")
    case True
    then obtain author where "pay_author ?cfg w author (record_reaction now w pid rt nonce cpu r, s, pop, c) = Some (paid, s2, s3, pop3, c3)"
      using case_eq by auto
    from pay_author_state [OF this] show ?thesis by (auto simp: reaction_wiring_def)
  next
    case False
    then show ?thesis using case_eq by (auto split: reaction_type.splits option.splits)
  qed
  ultimately show ?thesis using p' by (simp add: reaction_wiring_def)
qed

lemma create_post_inv:
  assumes "create_post cc now who root k n sz cl ss cmp parent ch = Inr ch'" "post_inv (ch_post ch)"
    and "post_fragments (ch_post ch, ch_storage ch)"
  shows "post_inv (ch_post ch')" "post_fragments (ch_post ch', ch_storage ch')"
proof -
  note eff = create_post_Inr [OF assms(1)]
  let ?s = "ch_post ch"
  have none: "posts ?s (next_post_id ?s) = None"
    using assms(2) by (metis less_irrefl not_None_eq post_inv_def)
  then have "next_post_id ?s \<notin> set (user_posts ?s who)"
    using assms(2) by (simp add: post_inv_def get_post_author_def)
  note none = none this
  show "post_fragments (ch_post ch', ch_storage ch')"
    using assms(3) by (auto simp: post_fragments_def eff(3,4))
  have i1: "\<forall>pid p. posts (ch_post ch') pid = Some p \<longrightarrow> pid < next_post_id (ch_post ch')
      \<and> merkle_root_to_post_id (ch_post ch') (po_content_hash p) = Some pid
      \<and> (\<exists>c. content_refs (ch_post ch') pid = Some c \<and> ct_root c = po_content_hash p \<and> 0 < ct_k c \<and> ct_k c \<le> ct_n c \<and> ct_n c \<le> 255)"
  proof (intro allI impI)
    fix pid p assume p: "posts (ch_post ch') pid = Some p"
    show "pid < next_post_id (ch_post ch') \<and> merkle_root_to_post_id (ch_post ch') (po_content_hash p) = Some pid
      \<and> (\<exists>c. content_refs (ch_post ch') pid = Some c \<and> ct_root c = po_content_hash p \<and> 0 < ct_k c \<and> ct_k c \<le> ct_n c \<and> ct_n c \<le> 255)"
    proof (cases "pid = next_post_id ?s")
      case True
      then show ?thesis using p eff(1) by (auto simp: eff(3))
    next
      case False
      then have old: "posts ?s pid = Some p" using p by (simp add: eff(3))
      then have "pid < next_post_id ?s" "merkle_root_to_post_id ?s (po_content_hash p) = Some pid"
        and c: "\<exists>c. content_refs ?s pid = Some c \<and> ct_root c = po_content_hash p \<and> 0 < ct_k c \<and> ct_k c \<le> ct_n c \<and> ct_n c \<le> 255"
        using assms(2) unfolding post_inv_def by blast+
      moreover from this eff(1) have "po_content_hash p \<noteq> root" by auto
      ultimately show ?thesis using False c by (simp add: eff(3))
    qed
  qed
  have i2: "\<forall>pid. posts (ch_post ch') pid = None \<longrightarrow> content_refs (ch_post ch') pid = None"
    using assms(2) by (simp add: eff(3) post_inv_def)
  have i3: "\<forall>r pid. merkle_root_to_post_id (ch_post ch') r = Some pid \<longrightarrow>
      (\<exists>p. posts (ch_post ch') pid = Some p \<and> po_content_hash p = r)"
  proof (intro allI impI)
    fix r pid assume m: "merkle_root_to_post_id (ch_post ch') r = Some pid"
    show "\<exists>p. posts (ch_post ch') pid = Some p \<and> po_content_hash p = r"
    proof (cases "r = root")
      case True
      then show ?thesis using m by (simp add: eff(3))
    next
      case False
      then have "merkle_root_to_post_id ?s r = Some pid" using m by (simp add: eff(3))
      then obtain p where "posts ?s pid = Some p" "po_content_hash p = r"
        using assms(2) unfolding post_inv_def by blast
      moreover from this none(1) have "pid \<noteq> next_post_id ?s" by auto
      ultimately show ?thesis by (simp add: eff(3))
    qed
  qed
  have i4: "\<forall>w. distinct (user_posts (ch_post ch') w) \<and> length (user_posts (ch_post ch') w) \<le> max_user_posts
      \<and> set (user_posts (ch_post ch') w) = {pid. get_post_author (ch_post ch') pid = Some w}"
    using assms(2) none eff(1) by (auto simp: eff(3) post_inv_def get_post_author_def)
  show "post_inv (ch_post ch')" unfolding post_inv_def using i1 i2 i3 i4 by blast
qed

lemma delete_one_post_inv:
  assumes "pc_delete_post cfg = mutator_delete" "pc_release_fragment cfg = releaser"
    and "delete_one cfg pid (pop, s, st) = (pop', s', st')" "post_inv s" "post_fragments (s, st)"
  shows "post_inv s' \<and> post_fragments (s', st')"
proof (cases "posts s pid")
  case None
  then show ?thesis using assms by (simp add: delete_one_def mutator_delete_def delete_post_def)
next
  case (Some p)
  let ?h = "po_content_hash p"
  let ?s = "s\<lparr>posts := (posts s)(pid := None), content_refs := (content_refs s)(pid := None),
      merkle_root_to_post_id := (merkle_root_to_post_id s)(?h := None),
      user_posts := (user_posts s)(po_author p := filter (\<lambda>j. j \<noteq> pid) (user_posts s (po_author p)))\<rparr>"
  have eq: "s' = ?s" "st' = do_release_fragment ?h st"
    using assms(1-3) Some by (auto simp: delete_one_def mutator_delete_def delete_post_def releaser_def)
  have other: "po_content_hash q \<noteq> ?h" if "posts s j = Some q" "j \<noteq> pid" for j q
    using assms(4) that Some unfolding post_inv_def by (metis option.inject)
  have frag: "fragments st' h = (if h = ?h then None else fragments st h)" for h
    by (simp add: eq do_release_fragment_def Let_def storage_deposit_event_def)
  have "post_fragments (s', st')"
    using assms(5) other by (auto simp: post_fragments_def eq(1) frag)
  moreover have "post_inv s'"
    unfolding post_inv_def
  proof (intro conjI, goal_cases)
    case 1
    then show ?case using assms(4) other by (simp add: eq(1) post_inv_def)
  next
    case 2
    then show ?case using assms(4) by (simp add: eq(1) post_inv_def)
  next
    case 3
    show ?case
    proof (intro allI impI)
      fix root j assume a: "merkle_root_to_post_id s' root = Some j"
      then have b: "merkle_root_to_post_id s root = Some j" "root \<noteq> ?h" by (auto simp: eq(1) split: if_splits)
      then obtain q where q: "posts s j = Some q" "po_content_hash q = root" using assms(4) unfolding post_inv_def by blast
      then have "j \<noteq> pid" using b(2) Some by auto
      then show "\<exists>q. posts s' j = Some q \<and> po_content_hash q = root" using q by (simp add: eq(1))
    qed
  next
    case 4
    show ?case
    proof
      fix w
      have "distinct (user_posts s w) \<and> length (user_posts s w) \<le> max_user_posts
          \<and> set (user_posts s w) = {j. get_post_author s j = Some w}" using assms(4) by (simp add: post_inv_def)
      then show "distinct (user_posts s' w) \<and> length (user_posts s' w) \<le> max_user_posts
          \<and> set (user_posts s' w) = {j. get_post_author s' j = Some w}"
        using Some le_trans [OF length_filter_le [of "\<lambda>j. j \<noteq> pid" "user_posts s w"]]
        by (auto simp: eq(1) get_post_author_def)
    qed
  qed
  ultimately show ?thesis by blast
qed

lemma popularity_finalize_post_inv:
  assumes "pc_delete_post cfg = mutator_delete" "pc_release_fragment cfg = releaser"
    and "popularity_on_finalize cfg now (pop, s, st) = (pop', s', st')" "post_inv s" "post_fragments (s, st)"
  shows "post_inv s' \<and> post_fragments (s', st')"
proof -
  have all: "post_inv (fst (snd (fold (delete_one cfg) ids x))) \<and> post_fragments (snd (fold (delete_one cfg) ids x))"
    if "post_inv (fst (snd x)) \<and> post_fragments (snd x)" for ids x
    using that
  proof (induction ids arbitrary: x)
    case (Cons i ids)
    obtain a b c a' b' c' where x: "x = (a, b, c)" "delete_one cfg i (a, b, c) = (a', b', c')" by (metis prod_cases3)
    show ?case using Cons delete_one_post_inv [OF assms(1,2) x(2)] by (simp add: x)
  qed simp
  have "snd (run_scan_pass cfg now (pop, s, st)) = (s, st)"
    by (simp add: run_scan_pass_def Let_def split: prod.splits)
  then obtain pop1 where scan: "run_scan_pass cfg now (pop, s, st) = (pop1, s, st)" by (metis prod.collapse)
  from assms(3) have "run_deletion_pass cfg now (pop1, s, st) = (pop', s', st')"
    by (simp add: popularity_on_finalize_def scan)
  then consider "(s', st') = (s, st)"
    | ids pop2 where "fold (delete_one cfg) ids (pop2, s, st) = (pop', s', st')"
    by (auto simp: run_deletion_pass_def Let_def split: if_splits prod.splits)
  then show ?thesis
  proof cases
    case 1
    then show ?thesis using assms(4,5) by simp
  next
    case (2 ids pop2)
    then show ?thesis using all [of "(pop2, s, st)" ids] assms(4,5) by simp
  qed
qed

definition popularity_wired :: "('c, 'p, post_state \<times> storage_state) chain_config \<Rightarrow> bool" where
  "popularity_wired cc \<longleftrightarrow> mutator.wired (cc_popularity cc)"

text \<open>C4: at any point of the chain, whatever calls it runs (posts, registrations, reactions, the end of a block, and
  any others, which leave the posts and their scores alone and release no fragment), the indexes of the posts agree with the posts (ids, content
  references, roots and the lists of the authors), a live post's fragment is registered in the
  storage pallet, and the popularity pallet scores exactly the live posts. Content hashes of live
  posts are unique.
\<close>

theorem post_state_consistent:
  assumes "chain_reachable cc rc ch" "popularity_wired cc"
  shows "post_inv (ch_post ch) \<and> post_fragments (ch_post ch, ch_storage ch)
    \<and> (\<forall>pid. post_scores (ch_popularity ch) pid \<noteq> None \<longleftrightarrow> posts (ch_post ch) pid \<noteq> None)"
proof -
  have w: "mutator.wired (cc_popularity cc)" "pc_delete_post (cc_popularity cc) = mutator_delete"
    "pc_release_fragment (cc_popularity cc) = releaser"
    using assms(2) by (simp_all add: popularity_wired_def mutator.wired_def)
  have match: "mutator.scores_match (pop, s, st) \<longleftrightarrow> (\<forall>pid. post_scores pop pid \<noteq> None \<longleftrightarrow> posts s pid \<noteq> None)" for pop s st
    unfolding mutator.scores_match_def by (simp add: post_live_def)
  from assms(1) have "post_inv (ch_post ch) \<and> post_fragments (ch_post ch, ch_storage ch)
    \<and> mutator.scores_match (ch_popularity ch, ch_post ch, ch_storage ch)"
  proof induction
    case (chain_genesis ch)
    then show ?case
      by (auto simp: post_inv_def post_fragments_def genesis_post_def genesis_popularity_def get_post_author_def match)
  next
    case (chain_more ch ch')
    from chain_more(2) show ?case
    proof (cases rule: chain_step.cases)
      case (step_create now who root k n sz cl ss cmp parent)
      note eff = create_post_Inr [OF step_create]
      have "mutator.scores_match (ch_popularity ch', ch_post ch', ch_storage ch')"
        unfolding eff(7)
        by (rule mutator.created_match [of _ "(ch_post ch, ch_storage ch)"])
          (use chain_more(3) in \<open>auto simp: post_live_def eff(3)\<close>)
      then show ?thesis using create_post_inv [OF step_create] chain_more(3) by blast
    next
      case (step_register now who f n st')
      then show ?thesis using chain_more(3)
        by (auto simp: post_fragments_def match register_fragment_def result_simps storage_deposit_event_def)
    next
      case (step_react now w pid rt cb nonce cpu r' s' pop' c')
      note eff = wired_react [OF step_react(2)]
      have "mutator.scores_match (pop', ch_post ch, ch_storage ch)"
        unfolding conjunct2 [OF conjunct2 [OF eff]]
        by (rule mutator.reaction_match) (use chain_more(3) eff in \<open>simp_all add: post_live_def\<close>)
      then show ?thesis using chain_more(3) eff by (simp add: step_react(1))
    next
      case (step_popularity now pop' s' st')
      have "mutator.scores_match (pop', s', st')"
        using mutator.finalize_match [OF w(1)] chain_more(3) step_popularity(2) by metis
      then show ?thesis
        using popularity_finalize_post_inv [OF w(2,3) step_popularity(2)] chain_more(3) by (simp add: step_popularity(1))
    next
      case (step_others st' r' b' c')
      then show ?thesis using chain_more(3) by (simp add: post_fragments_def match)
    qed
  qed
  then show ?thesis by (simp add: match del: not_None_eq)
qed

lemma post_state_consistent_witness:
  "\<exists>rc ch. chain_reachable (demo_chain_config (runtime_popularity (\<lambda>j. j))) rc ch \<and> get_post_author (ch_post ch) 0 = Some 1
    \<and> post_scores (ch_popularity ch) 0 \<noteq> None"
proof -
  let ?cc = "demo_chain_config (runtime_popularity (\<lambda>j. j))"
  obtain ch where ch: "create_post ?cc 3 1 77 2 4 10 26 13 False None (demo_chain 1000000000) = Inr ch"
    using demo_chain_create by blast
  fix rc
  have r: "chain_reachable ?cc rc ch"
    by (rule chain_more [OF chain_genesis step_create [OF ch]]) (simp_all add: demo_chain_def)
  have w: "popularity_wired ?cc" by (simp add: popularity_wired_def demo_chain_config_def runtime_popularity_wired)
  have a: "get_post_author (ch_post ch) 0 = Some 1"
    using create_post_Inr(3) [OF ch] by (simp add: get_post_author_def demo_chain_def genesis_post_def)
  then have "post_scores (ch_popularity ch) 0 \<noteq> None"
    using post_state_consistent [OF r w] by (auto simp: get_post_author_def)
  with r a show ?thesis by blast
qed

text \<open>Registering fragments is open to everyone, and a post needs the fragment of its root to be
  unregistered. Whoever registers a root first blocks every later post with that root, for any
  author, cost and parameters, until a post with that root is deleted, which cannot exist.
\<close>

theorem registration_blocks_post:
  assumes "register_fragment (cc_storage cc) now attacker root n (ch_storage ch) = Inr st'"
  shows "\<forall>who now' k m sz cl ss cmp parent ch'. create_post cc now' who root k m sz cl ss cmp parent (ch\<lparr>ch_storage := st'\<rparr>) \<noteq> Inr ch'"
proof (intro allI notI)
  fix who now' k m sz cl ss cmp parent ch'
  assume "create_post cc now' who root k m sz cl ss cmp parent (ch\<lparr>ch_storage := st'\<rparr>) = Inr ch'"
  from create_post_Inr(1) [OF this] have "fragments st' root = None" by simp
  moreover have "fragments st' root \<noteq> None"
    using assms by (auto simp: register_fragment_def result_simps storage_deposit_event_def)
  ultimately show False by blast
qed

lemma registration_blocks_post_witness:
  "\<exists>st'. register_fragment demo_storage_config 3 9 77 1 (genesis_storage 0) = Inr st'
     \<and> (\<forall>ch'. create_post (demo_chain_config demo_popularity) 3 1 77 2 4 10 26 13 False None
           (demo_chain 1000000000\<lparr>ch_storage := st'\<rparr>) \<noteq> Inr ch')"
proof -
  obtain st' where st': "register_fragment demo_storage_config 3 9 77 1 (genesis_storage 0) = Inr st'"
    by (simp add: register_fragment_def demo_storage_config_def genesis_storage_def)
  then have "register_fragment (cc_storage (demo_chain_config demo_popularity)) 3 9 77 1 (ch_storage (demo_chain 1000000000)) = Inr st'"
    by (simp add: demo_chain_config_def demo_chain_def)
  from registration_blocks_post [OF this] show ?thesis using st' by blast
qed

end
