(* ===== verification/Stealth.thy ===== *)
theory Stealth
  imports Frame Block_Reward
begin

text \<open>
  \<open>pallets/stealth/src/lib.rs\<close>: transfers to one-time addresses, the reward pool that direct messages
  feed, the receive counts of ephemeral keys and the claim of a share of the pool. The signature check
  of the host and the SCALE encoding of the signed message are parameters, as is the verifier of the
  correspondence of keys, which the runtime sets to the unit implementation.
\<close>

subsection \<open>Configuration and storage\<close>

record ephemeral_key_entry =
  ek_ephemeral_pubkey :: hash256
  ek_stealth_address :: account_id

record 'c stealth_config =
  xc_max_entries :: nat
  xc_claim_cap_ppm :: nat
  xc_verify_correspondence :: "hash256 \<Rightarrow> hash256 \<Rightarrow> bytes \<Rightarrow> bool"
  xc_ed25519_verify :: "bytes \<Rightarrow> bytes \<Rightarrow> hash256 \<Rightarrow> bool"
  xc_encode_claim :: "account_id \<Rightarrow> hash256 \<Rightarrow> bytes"
  xc_funds_unavailable :: "account_id \<Rightarrow> nat \<Rightarrow> 'c \<Rightarrow> bool"

text \<open>The unit implementation of \<open>StealthCorrespondenceVerifier\<close>.\<close>

definition unit_verify :: "hash256 \<Rightarrow> hash256 \<Rightarrow> bytes \<Rightarrow> bool" where
  "unit_verify ephemeral_pubkey stealth_pubkey proof_bytes = True"

datatype stealth_event =
    StealthTransfer account_id account_id nat
  | StealthRewardDeposit nat
  | RecipientReceiveCounted hash256 nat
  | StealthRewardClaimed account_id hash256 nat nat

text \<open>\<open>TransferError\<close> stands for an error of the currency that the pallet passes on.\<close>

datatype stealth_error =
    ZeroAmount | TooManyEntriesInBlock | StealthInsufficientBalance | NoUnclaimedReceives
  | StealthRewardPoolEmpty | ClaimAmountTooSmall | InvalidStealthSignature | InvalidCorrespondenceProof
  | TransferError

record stealth_state =
  ephemeral_keys :: "block_number \<Rightarrow> ephemeral_key_entry list"
  stealth_reward_pool :: nat
  recipient_receive_count :: "hash256 \<Rightarrow> nat"
  total_received_count :: nat
  claimed_receive_count :: "hash256 \<Rightarrow> nat"
  stealth_events :: "stealth_event list"

definition genesis_stealth :: stealth_state where
  "genesis_stealth = \<lparr>ephemeral_keys = \<lambda>_. [], stealth_reward_pool = 0, recipient_receive_count = \<lambda>_. 0,
     total_received_count = 0, claimed_receive_count = \<lambda>_. 0, stealth_events = []\<rparr>"

definition stealth_deposit_event :: "stealth_event \<Rightarrow> stealth_state \<Rightarrow> stealth_state" where
  "stealth_deposit_event e s = s\<lparr>stealth_events := stealth_events s @ [e]\<rparr>"

definition deposit_to_stealth_pool :: "nat \<Rightarrow> stealth_state \<Rightarrow> stealth_state" where
  "deposit_to_stealth_pool amount s =
     (if amount = 0 then s
      else stealth_deposit_event (StealthRewardDeposit amount)
             (s\<lparr>stealth_reward_pool := sat_add u128_max (stealth_reward_pool s) amount\<rparr>))"

interpretation stealth_sink: pool_deposit deposit_to_stealth_pool stealth_reward_pool
  by unfold_locales (simp_all add: deposit_to_stealth_pool_def stealth_deposit_event_def sat_add_def)

definition record_recipient_receive :: "hash256 \<Rightarrow> stealth_state \<Rightarrow> stealth_state" where
  "record_recipient_receive key s =
     (let new_count = sat_add u32_max (recipient_receive_count s key) 1
      in stealth_deposit_event (RecipientReceiveCounted key new_count)
           (s\<lparr>recipient_receive_count := (recipient_receive_count s)(key := new_count),
              total_received_count := sat_add u64_max (total_received_count s) 1\<rparr>))"

definition compute_claim_amount :: "nat \<Rightarrow> nat \<Rightarrow> nat \<Rightarrow> nat \<Rightarrow> nat" where
  "compute_claim_amount unclaimed_count total_received pool_balance cap_ppm =
     (if unclaimed_count = 0 \<or> total_received = 0 \<or> pool_balance = 0 then 0
      else let share_ppm = sat_mul u128_max unclaimed_count 1000000 div max total_received 1;
               payout = sat_mul u128_max pool_balance share_ppm div 1000000;
               payout' = (if 0 < cap_ppm then min payout (sat_mul u128_max pool_balance cap_ppm div 1000000) else payout)
           in min payout' pool_balance)"

subsection \<open>Dispatchables\<close>

definition send_to_stealth ::
  "'c stealth_config \<Rightarrow> 'c currency \<Rightarrow> block_number \<Rightarrow> account_id \<Rightarrow> account_id \<Rightarrow> hash256 \<Rightarrow> nat \<Rightarrow>
   stealth_state \<times> 'c \<Rightarrow> (stealth_error, stealth_state \<times> 'c) result" where
  "send_to_stealth cfg cur now sender stealth_address key amount = (\<lambda>(s, c).
     ensure (0 < amount) ZeroAmount (
     ok_or (cur_transfer cur sender stealth_address amount c)
       (if xc_funds_unavailable cfg sender amount c then StealthInsufficientBalance else TransferError) (\<lambda>c'.
     let entries = ephemeral_keys s now in
     ensure (length entries < xc_max_entries cfg) TooManyEntriesInBlock (
     Inr (stealth_deposit_event (StealthTransfer sender stealth_address amount)
            (s\<lparr>ephemeral_keys := (ephemeral_keys s)(now := entries @
                 [\<lparr>ek_ephemeral_pubkey = key, ek_stealth_address = stealth_address\<rparr>])\<rparr>), c')))))"

definition claim_stealth_reward ::
  "'c stealth_config \<Rightarrow> 'c currency \<Rightarrow> account_id \<Rightarrow> hash256 \<Rightarrow> hash256 \<Rightarrow> bytes \<Rightarrow> bytes \<Rightarrow>
   stealth_state \<times> 'c \<Rightarrow> (stealth_error, stealth_state \<times> 'c) result" where
  "claim_stealth_reward cfg cur recipient key stealth_pubkey signature correspondence_proof = (\<lambda>(s, c).
     ensure (xc_ed25519_verify cfg signature (xc_encode_claim cfg recipient key) stealth_pubkey) InvalidStealthSignature (
     ensure (xc_verify_correspondence cfg key stealth_pubkey correspondence_proof) InvalidCorrespondenceProof (
     let claimed = claimed_receive_count s key;
         unclaimed = recipient_receive_count s key - claimed in
     ensure (0 < unclaimed) NoUnclaimedReceives (
     let pool = stealth_reward_pool s in
     ensure (0 < pool) StealthRewardPoolEmpty (
     let tot = total_received_count s;
         payout = compute_claim_amount unclaimed tot pool (xc_claim_cap_ppm cfg) in
     ensure (0 < payout) ClaimAmountTooSmall (
     let proportional_full = compute_claim_amount unclaimed tot pool 0;
         advanced = (if 0 < proportional_full \<and> payout < proportional_full
                     then max 1 (min (sat_mul u128_max payout unclaimed div max proportional_full 1) unclaimed mod 2 ^ 32)
                     else unclaimed);
         s1 = s\<lparr>stealth_reward_pool := pool - payout,
                claimed_receive_count := (claimed_receive_count s)(key := sat_add u32_max claimed advanced)\<rparr>
     in Inr (stealth_deposit_event (StealthRewardClaimed recipient key payout unclaimed) s1,
             cur_deposit cur recipient payout c)))))))"

subsection \<open>What a claim pays\<close>

lemma compute_claim_amount_le:
  "compute_claim_amount u t pool cap \<le> pool"
  "0 < cap \<Longrightarrow> compute_claim_amount u t pool cap \<le> pool * cap div 1000000"
  "compute_claim_amount u t pool cap \<le> compute_claim_amount u t pool 0"
  "compute_claim_amount u t pool cap * t \<le> pool * u"
proof -
  define share where "share = sat_mul u128_max u 1000000 div max t 1"
  define pay where "pay = sat_mul u128_max pool share div 1000000"
  define capped where "capped = sat_mul u128_max pool cap div 1000000"
  have eq: "compute_claim_amount u t pool cap = (if u = 0 \<or> t = 0 \<or> pool = 0 then 0
      else min (if 0 < cap then min pay capped else pay) pool)"
    "compute_claim_amount u t pool 0 = (if u = 0 \<or> t = 0 \<or> pool = 0 then 0 else min pay pool)"
    unfolding compute_claim_amount_def share_def pay_def capped_def Let_def by simp_all
  show "compute_claim_amount u t pool cap \<le> pool" "compute_claim_amount u t pool cap \<le> compute_claim_amount u t pool 0"
    unfolding eq by auto
  have "capped \<le> pool * cap div 1000000" unfolding capped_def by (rule div_le_mono [OF sat_mul_le_prod])
  then show "compute_claim_amount u t pool cap \<le> pool * cap div 1000000" if "0 < cap"
    unfolding eq using that by (auto simp: min.coboundedI1 min.coboundedI2)
  show "compute_claim_amount u t pool cap * t \<le> pool * u"
  proof (cases "t = 0")
    case False
    have "share * t \<le> sat_mul u128_max u 1000000" using False by (simp add: share_def max_absorb1 Suc_leI)
    also have "\<dots> \<le> u * 1000000" by (rule sat_mul_le_prod)
    finally have sh: "share * t \<le> u * 1000000" .
    have "pay * 1000000 \<le> sat_mul u128_max pool share" by (simp add: pay_def)
    also have "\<dots> \<le> pool * share" by (rule sat_mul_le_prod)
    finally have "pay * 1000000 * t \<le> pool * (share * t)" by (metis mult.assoc mult_le_mono1)
    also have "\<dots> \<le> pool * (u * 1000000)" by (rule mult_le_mono2 [OF sh])
    finally have "pay * t \<le> pool * u" by simp
    moreover have "compute_claim_amount u t pool cap \<le> pay" unfolding eq by auto
    ultimately show ?thesis by (meson le_trans mult_le_mono1)
  qed simp
qed

text \<open>C37: a claim pays a positive amount out of the pool, at most the claimer's unclaimed share of all
  receives and at most the cap of the pool, creates at most that amount of money, and marks at least
  one and at most all of the key's unclaimed receives as claimed; no other key is affected, and
  when all receives of the key are claimed no further claim succeeds.
\<close>

theorem stealth_claim_sound:
  assumes "claim_stealth_reward cfg cur w key pk sig prf (s, c) = Inr (s', c')"
    and "recipient_receive_count s key \<le> u32_max" "currency_laws cur" "cur_ok cur c"
  shows "\<exists>payout > 0. stealth_reward_pool s' + payout = stealth_reward_pool s
    \<and> payout * total_received_count s \<le> stealth_reward_pool s * (recipient_receive_count s key - claimed_receive_count s key)
    \<and> (0 < xc_claim_cap_ppm cfg \<longrightarrow> payout \<le> stealth_reward_pool s * xc_claim_cap_ppm cfg div 1000000)
    \<and> total_issuance cur c' \<le> total_issuance cur c + payout
    \<and> claimed_receive_count s key < claimed_receive_count s' key
    \<and> claimed_receive_count s' key \<le> recipient_receive_count s' key
    \<and> recipient_receive_count s' = recipient_receive_count s
    \<and> (\<forall>k. k \<noteq> key \<longrightarrow> claimed_receive_count s' k = claimed_receive_count s k)
    \<and> (claimed_receive_count s' key = recipient_receive_count s' key \<longrightarrow>
        (\<forall>w' pk' sig' prf' d r. claim_stealth_reward cfg cur w' key pk' sig' prf' (s', d) \<noteq> Inr r))"
proof -
  let ?u = "recipient_receive_count s key - claimed_receive_count s key" and ?pool = "stealth_reward_pool s"
  define payout where "payout = compute_claim_amount ?u (total_received_count s) ?pool (xc_claim_cap_ppm cfg)"
  define full where "full = compute_claim_amount ?u (total_received_count s) ?pool 0"
  define advanced where "advanced = (if 0 < full \<and> payout < full
      then max 1 (min (sat_mul u128_max payout ?u div max full 1) ?u mod 2 ^ 32) else ?u)"
  define s1 where "s1 = s\<lparr>stealth_reward_pool := ?pool - payout, claimed_receive_count :=
      (claimed_receive_count s)(key := sat_add u32_max (claimed_receive_count s key) advanced)\<rparr>"
  have eff: "0 < ?u" "0 < payout" "s' = stealth_deposit_event (StealthRewardClaimed w key payout ?u) s1"
    "c' = cur_deposit cur w payout c"
    using assms(1) unfolding claim_stealth_reward_def Let_def prod.case result_simps s1_def advanced_def payout_def full_def
    by (elim conjE, simp only: sum.inject prod.inject)+
  define r where "r = min (sat_mul u128_max payout ?u div max full 1) ?u mod 2 ^ 32"
  have "r \<le> ?u"
    unfolding r_def by (rule order_trans [OF mod_less_eq_dividend min.cobounded2])
  then have adv: "1 \<le> advanced" "advanced \<le> ?u"
    using eff(1) unfolding advanced_def r_def [symmetric] by auto
  then have "sat_add u32_max (claimed_receive_count s key) advanced = claimed_receive_count s key + advanced"
    using assms(2) eff(1) by (intro sat_add_exact) linarith
  then have cl: "claimed_receive_count s' = (claimed_receive_count s)(key := claimed_receive_count s key + advanced)"
    and rc: "recipient_receive_count s' = recipient_receive_count s" and pool: "stealth_reward_pool s' = ?pool - payout"
    by (simp_all add: eff(3) s1_def stealth_deposit_event_def)
  have none: "claim_stealth_reward cfg cur w' key pk' sig' prf' (s', d) \<noteq> Inr r"
    if "claimed_receive_count s' key = recipient_receive_count s' key" for w' pk' sig' prf' d r
    using that by (simp add: claim_stealth_reward_def Let_def result_simps)
  show ?thesis
  proof (intro exI [of _ payout] conjI impI allI eff(2) rc none)
    show "stealth_reward_pool s' + payout = ?pool" using compute_claim_amount_le(1) by (simp add: pool payout_def)
    show "payout * total_received_count s \<le> ?pool * ?u" unfolding payout_def by (rule compute_claim_amount_le(4))
    show "payout \<le> ?pool * xc_claim_cap_ppm cfg div 1000000" if "0 < xc_claim_cap_ppm cfg"
      unfolding payout_def by (rule compute_claim_amount_le(2) [OF that])
    show "total_issuance cur c' \<le> total_issuance cur c + payout" using depositD(3) [OF assms(3,4)] by (simp add: eff(4))
    show "claimed_receive_count s key < claimed_receive_count s' key"
      "claimed_receive_count s' key \<le> recipient_receive_count s' key"
      using adv eff(1) by (simp_all add: cl rc)
  qed (simp_all add: cl)
qed

definition demo_stealth :: "ledger stealth_config" where
  "demo_stealth = \<lparr>xc_max_entries = 100, xc_claim_cap_ppm = 100000, xc_verify_correspondence = unit_verify,
     xc_ed25519_verify = \<lambda>sig msg pk. sig = msg @ [of_nat pk],
     xc_encode_claim = \<lambda>w key. [of_nat w, of_nat key], xc_funds_unavailable = \<lambda>_ _ _. True\<rparr>"

definition demo_stealth_state :: stealth_state where
  "demo_stealth_state = deposit_to_stealth_pool 1000 (record_recipient_receive 5 (record_recipient_receive 5 genesis_stealth))"

lemma demo_stealth_fields:
  "recipient_receive_count demo_stealth_state 5 = 2" "claimed_receive_count demo_stealth_state 5 = 0"
  "stealth_reward_pool demo_stealth_state = 1000" "total_received_count demo_stealth_state = 2"
  by (simp_all add: demo_stealth_state_def deposit_to_stealth_pool_def record_recipient_receive_def Let_def
      genesis_stealth_def stealth_deposit_event_def sat_add_def u32_max_def u64_max_def u128_max_def)

lemma claim_stealth_Inr:
  assumes "xc_ed25519_verify cfg sig (xc_encode_claim cfg w key) pk" "xc_verify_correspondence cfg key pk prf"
    and "claimed_receive_count s key < recipient_receive_count s key" "0 < stealth_reward_pool s"
    and "0 < compute_claim_amount (recipient_receive_count s key - claimed_receive_count s key)
      (total_received_count s) (stealth_reward_pool s) (xc_claim_cap_ppm cfg)"
  shows "\<exists>s' c'. claim_stealth_reward cfg cur w key pk sig prf (s, c) = Inr (s', c')"
  using assms by (simp add: claim_stealth_reward_def Let_def)

lemma demo_stealth_claim:
  "\<exists>s' c'. claim_stealth_reward demo_stealth ledger_currency 7 5 3 [7, 5, 3] []
     (demo_stealth_state, ledger_of 1 10 0) = Inr (s', c')"
proof (rule claim_stealth_Inr)
  have "sat_mul u128_max 2 1000000 = 2000000" "sat_mul u128_max 1000 1000000 = 1000000000"
    "sat_mul u128_max 1000 100000 = 100000000" "max (2::nat) 1 = 2"
    by (simp_all add: sat_mul_def u128_max_def)
  then have "0 < compute_claim_amount 2 2 1000 100000"
    unfolding compute_claim_amount_def Let_def by (simp flip: numeral_2_eq_2)
  then show "0 < compute_claim_amount (recipient_receive_count demo_stealth_state 5 - claimed_receive_count demo_stealth_state 5)
      (total_received_count demo_stealth_state) (stealth_reward_pool demo_stealth_state) (xc_claim_cap_ppm demo_stealth)"
    by (simp add: demo_stealth_fields demo_stealth_def)
qed (simp_all add: demo_stealth_fields demo_stealth_def unit_verify_def)

lemma stealth_claim_sound_witness:
  "\<exists>s' c'. claim_stealth_reward demo_stealth ledger_currency 7 5 3 [7, 5, 3] [] (demo_stealth_state, ledger_of 1 10 0) = Inr (s', c')
     \<and> claimed_receive_count s' 5 \<le> 2 \<and> 0 < claimed_receive_count s' 5"
proof -
  obtain s' c' where r: "claim_stealth_reward demo_stealth ledger_currency 7 5 3 [7, 5, 3] []
      (demo_stealth_state, ledger_of 1 10 0) = Inr (s', c')"
    using demo_stealth_claim by blast
  have ok: "cur_ok ledger_currency (ledger_of 1 10 0)"
    using ledger_of_ok [of 10 0 1] by (simp add: ledger_currency_def u128_max_def)
  from stealth_claim_sound [OF r _ ledger_currency_laws ok] r show ?thesis
    by (auto simp: demo_stealth_fields u32_max_def)
qed

text \<open>As long as the verifier of the correspondence of keys is the unit implementation, nothing ties
  the signing key to the ephemeral key. Whatever claim its owner could make on the receives of an
  ephemeral key, anyone else with any key pair of their own can make, for the same amount, leaving
  the owner with the same pallet state as if the owner had claimed, but paid to the other account.
\<close>

theorem stealth_claim_by_anyone:
  assumes "claim_stealth_reward cfg cur owner key pk sig prf (s, c) = Inr (s', c')"
    and "xc_verify_correspondence cfg = unit_verify"
    and "xc_ed25519_verify cfg sig' (xc_encode_claim cfg thief key) pk'"
  shows "\<exists>payout. claim_stealth_reward cfg cur thief key pk' sig' prf' (s, c)
      = Inr (s'\<lparr>stealth_events := stealth_events s @ [StealthRewardClaimed thief key payout
               (recipient_receive_count s key - claimed_receive_count s key)]\<rparr>, cur_deposit cur thief payout c)
    \<and> stealth_reward_pool s' + payout = stealth_reward_pool s \<and> c' = cur_deposit cur owner payout c"
proof -
  let ?u = "recipient_receive_count s key - claimed_receive_count s key"
  define payout where "payout = compute_claim_amount ?u (total_received_count s) (stealth_reward_pool s) (xc_claim_cap_ppm cfg)"
  define s1 where "s1 = s\<lparr>stealth_reward_pool := stealth_reward_pool s - payout, claimed_receive_count :=
      (claimed_receive_count s)(key := sat_add u32_max (claimed_receive_count s key)
        (if 0 < compute_claim_amount ?u (total_received_count s) (stealth_reward_pool s) 0
            \<and> payout < compute_claim_amount ?u (total_received_count s) (stealth_reward_pool s) 0
         then max 1 (min (sat_mul u128_max payout ?u div
             max (compute_claim_amount ?u (total_received_count s) (stealth_reward_pool s) 0) 1) ?u mod 2 ^ 32)
         else ?u))\<rparr>"
  have eq: "claim_stealth_reward cfg cur w key k sg pf (s, c) =
      ensure (xc_ed25519_verify cfg sg (xc_encode_claim cfg w key) k) InvalidStealthSignature (
      ensure (xc_verify_correspondence cfg key k pf) InvalidCorrespondenceProof (
      ensure (0 < ?u) NoUnclaimedReceives (ensure (0 < stealth_reward_pool s) StealthRewardPoolEmpty (
      ensure (0 < payout) ClaimAmountTooSmall (
      Inr (stealth_deposit_event (StealthRewardClaimed w key payout ?u) s1, cur_deposit cur w payout c))))))" for w k sg pf
    unfolding claim_stealth_reward_def Let_def prod.case s1_def payout_def ..
  have own: "0 < ?u" "0 < stealth_reward_pool s" "0 < payout"
    "s' = stealth_deposit_event (StealthRewardClaimed owner key payout ?u) s1" "c' = cur_deposit cur owner payout c"
    using assms(1) unfolding eq result_simps by (elim conjE, simp only: sum.inject prod.inject)+
  have "s'\<lparr>stealth_events := stealth_events s @ [StealthRewardClaimed thief key payout ?u]\<rparr>
      = stealth_deposit_event (StealthRewardClaimed thief key payout ?u) s1"
    by (simp add: own(4) stealth_deposit_event_def s1_def)
  moreover have "stealth_reward_pool s' + payout = stealth_reward_pool s"
    using compute_claim_amount_le(1) by (simp add: own(4) stealth_deposit_event_def s1_def payout_def)
  moreover have "claim_stealth_reward cfg cur thief key pk' sig' prf' (s, c)
      = Inr (stealth_deposit_event (StealthRewardClaimed thief key payout ?u) s1, cur_deposit cur thief payout c)"
    unfolding eq using assms(2,3) own(1-3) by (simp only: unit_verify_def ensure_True)
  ultimately show ?thesis using own(5) by metis
qed

lemma stealth_claim_by_anyone_witness:
  "\<exists>s' c'. claim_stealth_reward demo_stealth ledger_currency 8 5 4 [8, 5, 4] [] (demo_stealth_state, ledger_of 1 10 0) = Inr (s', c')"
proof -
  obtain s' c' where r: "claim_stealth_reward demo_stealth ledger_currency 7 5 3 [7, 5, 3] []
      (demo_stealth_state, ledger_of 1 10 0) = Inr (s', c')"
    using demo_stealth_claim by blast
  have "xc_ed25519_verify demo_stealth [8, 5, 4] (xc_encode_claim demo_stealth 8 5) 4"
    "xc_verify_correspondence demo_stealth = unit_verify" by (simp_all add: demo_stealth_def)
  from stealth_claim_by_anyone [OF r this(2) this(1)] show ?thesis by blast
qed

end
