(* ===== verification/Messaging.thy ===== *)
theory Messaging
  imports Stealth Base_Fee Block_Reward
begin

text \<open>
  \<open>pallets/messaging/src/lib.rs\<close> and \<open>types.rs\<close>: reception keys, the sending of a direct message with
  its cost, and the runtime API a recipient scans the chain with. As in the runtime the pallet is
  wired to the storage, stealth and base fee pallets and to the native token.
\<close>

subsection \<open>Data and storage\<close>

record dm_meta_address =
  ma_scan_pub :: hash256
  ma_spend_pub :: hash256

record dm_content_ref =
  dr_root :: hash256
  dr_k :: nat
  dr_n :: nat
  dr_ciphertext_len :: nat

record dm_dispatch =
  dd_recipient_stealth :: account_id
  dd_ephemeral_pubkey :: hash256
  dd_content :: dm_content_ref

record messaging_config =
  mc_max_dispatches :: nat
  mc_base_cost :: nat
  mc_byte_cost :: nat
  mc_max_ciphertext_len :: nat
  mc_storage_share :: nat
  mc_stealth_share :: nat
  mc_mul_floor :: "nat \<Rightarrow> nat \<Rightarrow> nat"

datatype messaging_event =
    DmKeyPublished account_id
  | DmKeyRevoked account_id
  | DmDispatched nat block_number account_id hash256 hash256

datatype messaging_error =
    ReceptionKeyNotPublished | InvalidPaddingBucket | DuplicateContent | TooManyDispatchesInBlock
  | DmInvalidKNParameters | InsufficientStealthBalance | InvalidMetaAddress | DmCostCalculationOverflow

record messaging_state =
  dm_reception_keys :: "account_id \<rightharpoonup> dm_meta_address"
  dm_dispatches_by_block :: "block_number \<Rightarrow> dm_dispatch list"
  next_message_id :: nat
  dm_messages_by_root :: "hash256 \<rightharpoonup> nat"
  messaging_events :: "messaging_event list"

definition genesis_messaging :: messaging_state where
  "genesis_messaging = \<lparr>dm_reception_keys = \<lambda>_. None, dm_dispatches_by_block = \<lambda>_. [], next_message_id = 0,
     dm_messages_by_root = \<lambda>_. None, messaging_events = []\<rparr>"

definition messaging_deposit_event :: "messaging_event \<Rightarrow> messaging_state \<Rightarrow> messaging_state" where
  "messaging_deposit_event e s = s\<lparr>messaging_events := messaging_events s @ [e]\<rparr>"

record 'c dm_chain =
  dc_messaging :: messaging_state
  dc_storage :: storage_state
  dc_stealth :: stealth_state
  dc_base_fee :: base_fee_state
  dc_token :: 'c

definition dm_padding_buckets :: "nat list" where
  "dm_padding_buckets = [1024, 4096, 16384, 65536, 262144]"

subsection \<open>Reception keys\<close>

definition publish_dm_key :: "account_id \<Rightarrow> dm_meta_address \<Rightarrow> messaging_state \<Rightarrow> (messaging_error, messaging_state) result" where
  "publish_dm_key who meta s =
     ensure (ma_scan_pub meta \<noteq> 0 \<and> ma_spend_pub meta \<noteq> 0 \<and> ma_scan_pub meta \<noteq> u256_max
        \<and> ma_spend_pub meta \<noteq> u256_max \<and> ma_scan_pub meta \<noteq> ma_spend_pub meta) InvalidMetaAddress (
     Inr (messaging_deposit_event (DmKeyPublished who)
       (s\<lparr>dm_reception_keys := (dm_reception_keys s)(who \<mapsto> meta)\<rparr>)))"

definition revoke_dm_key :: "account_id \<Rightarrow> messaging_state \<Rightarrow> (messaging_error, messaging_state) result" where
  "revoke_dm_key who s =
     ensure (dm_reception_keys s who \<noteq> None) ReceptionKeyNotPublished (
     Inr (messaging_deposit_event (DmKeyRevoked who)
       (s\<lparr>dm_reception_keys := (dm_reception_keys s)(who := None)\<rparr>)))"

subsection \<open>Sending\<close>

text \<open>\<open>checked_mul\<close> and \<open>checked_add\<close> of \<open>u128\<close>.\<close>

definition checked_u128 :: "nat \<Rightarrow> nat option" where
  "checked_u128 n = (if n \<le> u128_max then Some n else None)"

definition send_dm ::
  "messaging_config \<Rightarrow> base_fee_config \<Rightarrow> 'c currency \<Rightarrow> block_number \<Rightarrow> account_id \<Rightarrow> account_id \<Rightarrow> hash256 \<Rightarrow> hash256 \<Rightarrow>
   nat \<Rightarrow> nat \<Rightarrow> nat \<Rightarrow> 'c dm_chain \<Rightarrow> (messaging_error, 'c dm_chain) result" where
  "send_dm cfg bcfg cur now who recipient_stealth key root k n ciphertext_len ch =
     (let s = dc_messaging ch in
      ensure (0 < k \<and> k \<le> n \<and> n \<le> 255) DmInvalidKNParameters (
      ensure (ciphertext_len \<in> set dm_padding_buckets \<and> ciphertext_len \<le> mc_max_ciphertext_len cfg) InvalidPaddingBucket (
      ensure (key \<noteq> 0) InvalidMetaAddress (
      ensure (dm_messages_by_root s root = None) DuplicateContent (
      ensure (length (dm_dispatches_by_block s now) mod 2 ^ 32 < mc_max_dispatches cfg) TooManyDispatchesInBlock (
      ok_or (checked_u128 (ciphertext_len * mc_byte_cost cfg)) DmCostCalculationOverflow (\<lambda>byte_total.
      let base_fee_per_byte = current_base_fee_value bcfg (dc_base_fee ch) in
      ok_or (checked_u128 (ciphertext_len * base_fee_per_byte)) DmCostCalculationOverflow (\<lambda>base_fee_burn.
      ok_or (checked_u128 (mc_base_cost cfg + byte_total)) DmCostCalculationOverflow (\<lambda>pre_total.
      ok_or (checked_u128 (pre_total + base_fee_burn)) DmCostCalculationOverflow (\<lambda>total_cost.
      ok_or (cur_burn cur who total_cost (dc_token ch)) InsufficientStealthBalance (\<lambda>token'.
      let storage_share = mc_mul_floor cfg (mc_storage_share cfg) pre_total;
          stealth_share = mc_mul_floor cfg (mc_stealth_share cfg) pre_total;
          storage' = do_deposit_to_reward_pool storage_share (dc_storage ch);
          stealth1 = deposit_to_stealth_pool stealth_share (dc_stealth ch);
          stealth2 = record_recipient_receive key stealth1;
          fee' = record_gas_internal (ciphertext_len mod 2 ^ 32) (dc_base_fee ch);
          message_id = next_message_id s in
      ensure (message_id + 1 \<le> u64_max) DmCostCalculationOverflow (
      let content = \<lparr>dr_root = root, dr_k = k, dr_n = n, dr_ciphertext_len = ciphertext_len\<rparr>;
          dispatch = \<lparr>dd_recipient_stealth = recipient_stealth, dd_ephemeral_pubkey = key, dd_content = content\<rparr>;
          entries = dm_dispatches_by_block s now in
      ensure (length entries < mc_max_dispatches cfg) TooManyDispatchesInBlock (
      Inr \<lparr>dc_messaging = messaging_deposit_event (DmDispatched message_id now recipient_stealth key root)
             (s\<lparr>next_message_id := message_id + 1,
                dm_dispatches_by_block := (dm_dispatches_by_block s)(now := entries @ [dispatch]),
                dm_messages_by_root := (dm_messages_by_root s)(root \<mapsto> message_id)\<rparr>),
           dc_storage = storage', dc_stealth = stealth2, dc_base_fee = fee', dc_token = token'\<rparr>)))))))))))))"

subsection \<open>The runtime API\<close>

definition dispatches_at :: "messaging_state \<Rightarrow> block_number \<Rightarrow> dm_dispatch list" where
  "dispatches_at s b = dm_dispatches_by_block s b"

definition reception_key :: "messaging_state \<Rightarrow> account_id \<Rightarrow> dm_meta_address option" where
  "reception_key s w = dm_reception_keys s w"

definition dispatches_range :: "messaging_state \<Rightarrow> block_number \<Rightarrow> block_number \<Rightarrow> (block_number \<times> dm_dispatch list) list" where
  "dispatches_range s from_block to_block =
     (if to_block < from_block \<or> 1024 < to_block - from_block then []
      else List.map_filter (\<lambda>b. let entries = dm_dispatches_by_block s b in if entries = [] then None else Some (b, entries))
             [from_block..<Suc to_block])"

lemma dispatches_range_mem:
  assumes "from \<le> b" "b \<le> to" "to - from \<le> 1024" "dm_dispatches_by_block s b \<noteq> []"
  shows "(b, dispatches_at s b) \<in> set (dispatches_range s from to)"
proof -
  have mem: "y \<in> set (List.map_filter g xs)" if "x \<in> set xs" "g x = Some y" for x y xs and g :: "nat \<Rightarrow> 'b option"
    using that by (induction xs) (auto simp: List.map_filter_simps split: option.splits)
  have ok: "\<not> (to < from \<or> 1024 < to - from)" using assms(1-3) by linarith
  show ?thesis
    unfolding dispatches_range_def dispatches_at_def if_not_P [OF ok]
    by (rule mem [of b]) (use assms in \<open>auto simp: Let_def\<close>)
qed

subsection \<open>Later states\<close>

text \<open>
  The states the pallet reaches from \<open>s\<close> by its own calls, each in any state of the other pallets and
  under any parameters: keys published and revoked, messages sent. The pallet has no hooks, and no
  other pallet writes its storage.
\<close>

inductive messaging_later :: "'c currency \<Rightarrow> messaging_state \<Rightarrow> messaging_state \<Rightarrow> bool"
  for cur :: "'c currency" and s :: messaging_state where
  same: "messaging_later cur s s"
| published: "messaging_later cur s t \<Longrightarrow> publish_dm_key who meta t = Inr t' \<Longrightarrow> messaging_later cur s t'"
| revoked: "messaging_later cur s t \<Longrightarrow> revoke_dm_key who t = Inr t' \<Longrightarrow> messaging_later cur s t'"
| sent: "messaging_later cur s (dc_messaging ch) \<Longrightarrow> send_dm cfg bcfg cur now who rs key root k n len ch = Inr ch'
     \<Longrightarrow> messaging_later cur s (dc_messaging ch')"

text \<open>The effect of one message on the pallet's own storage.\<close>

lemma send_dm_messaging:
  assumes "send_dm cfg bcfg cur now who rs key root k n len ch = Inr ch'"
  shows "dm_messages_by_root (dc_messaging ch) root = None"
    and "dm_messages_by_root (dc_messaging ch') = (dm_messages_by_root (dc_messaging ch))(root \<mapsto> next_message_id (dc_messaging ch))"
    and "\<exists>d. dm_dispatches_by_block (dc_messaging ch') = (dm_dispatches_by_block (dc_messaging ch))
           (now := dm_dispatches_by_block (dc_messaging ch) now @ [d])"
    and "next_message_id (dc_messaging ch') = next_message_id (dc_messaging ch) + 1"
  using assms by (auto simp: send_dm_def Let_def result_simps messaging_deposit_event_def)

text \<open>Nothing is forgotten: roots keep their message, blocks keep their dispatches, and ids only grow.\<close>

lemma later_keeps:
  assumes "messaging_later cur s t"
  shows "(\<forall>root i. dm_messages_by_root s root = Some i \<longrightarrow> dm_messages_by_root t root = Some i)
    \<and> (\<forall>b. \<exists>more. dm_dispatches_by_block t b = dm_dispatches_by_block s b @ more)
    \<and> next_message_id s \<le> next_message_id t"
  using assms
proof induction
  case (published t who meta t')
  then show ?case by (auto simp: publish_dm_key_def result_simps messaging_deposit_event_def)
next
  case (revoked t who t')
  then show ?case by (auto simp: revoke_dm_key_def result_simps messaging_deposit_event_def)
next
  case (sent ch cfg bcfg now who rs key root k n len ch')
  note eff = send_dm_messaging [OF sent(2)]
  from eff(3) obtain d where d: "dm_dispatches_by_block (dc_messaging ch') = (dm_dispatches_by_block (dc_messaging ch))
           (now := dm_dispatches_by_block (dc_messaging ch) now @ [d])" by blast
  have "\<exists>more. dm_dispatches_by_block (dc_messaging ch') b = dm_dispatches_by_block s b @ more" for b
  proof -
    obtain more where more: "dm_dispatches_by_block (dc_messaging ch) b = dm_dispatches_by_block s b @ more"
      using sent(3) by blast
    show ?thesis by (cases "b = now") (use d more in simp_all)
  qed
  then show ?case using sent(3) eff(1,2,4) by auto
qed simp

lemma known_root_refused:
  "dm_messages_by_root (dc_messaging ch) root = Some i \<Longrightarrow> send_dm cfg bcfg cur now who rs key root k n len ch \<noteq> Inr r"
  by (simp add: send_dm_def Let_def result_simps)

text \<open>C38: an accepted message burns exactly the base cost plus the byte cost and the base fee of its
  length, computed without overflow; the storage and stealth pools get no more than the part without
  the base fee; the message takes the next id, is found by a scan of any allowed range that holds its
  block, and counts as one receive of its ephemeral key. In every later state of the pallet, whatever
  keys are published and revoked and whatever messages are sent, its root still stands for this id and
  no later message takes the id, a scan of its block still finds it, and a message with the same root
  is refused, whoever sends it and with whatever parameters.
\<close>

theorem send_dm_spec:
  assumes "send_dm cfg bcfg cur now who rs key root k n len ch = Inr ch'"
    and "currency_laws cur" "cur_ok cur (dc_token ch)" "permill_floor_law (mc_mul_floor cfg)"
    and "mc_storage_share cfg + mc_stealth_share cfg \<le> 1000000"
  shows "let pre = mc_base_cost cfg + len * mc_byte_cost cfg;
      cost = pre + len * current_base_fee_value bcfg (dc_base_fee ch);
      d = \<lparr>dd_recipient_stealth = rs, dd_ephemeral_pubkey = key,
           dd_content = \<lparr>dr_root = root, dr_k = k, dr_n = n, dr_ciphertext_len = len\<rparr>\<rparr> in
    len \<in> {1024, 4096, 16384, 65536, 262144} \<and> 0 < k \<and> k \<le> n \<and> n \<le> 255
    \<and> cost \<le> free_balance cur (dc_token ch) who
    \<and> total_issuance cur (dc_token ch') + cost = total_issuance cur (dc_token ch)
    \<and> reward_pool (dc_storage ch') + stealth_reward_pool (dc_stealth ch')
        \<le> reward_pool (dc_storage ch) + stealth_reward_pool (dc_stealth ch) + pre
    \<and> dm_messages_by_root (dc_messaging ch') root = Some (next_message_id (dc_messaging ch))
    \<and> next_message_id (dc_messaging ch') = next_message_id (dc_messaging ch) + 1
    \<and> d \<in> set (dispatches_at (dc_messaging ch') now)
    \<and> (\<forall>from to. from \<le> now \<longrightarrow> now \<le> to \<longrightarrow> to - from \<le> 1024 \<longrightarrow>
         (now, dispatches_at (dc_messaging ch') now) \<in> set (dispatches_range (dc_messaging ch') from to))
    \<and> recipient_receive_count (dc_stealth ch') key = sat_add u32_max (recipient_receive_count (dc_stealth ch) key) 1
    \<and> (\<forall>later. messaging_later cur (dc_messaging ch') later \<longrightarrow>
         dm_messages_by_root later root = Some (next_message_id (dc_messaging ch))
         \<and> next_message_id (dc_messaging ch) < next_message_id later
         \<and> (\<forall>from to. from \<le> now \<longrightarrow> now \<le> to \<longrightarrow> to - from \<le> 1024 \<longrightarrow>
              (\<exists>ds. (now, ds) \<in> set (dispatches_range later from to) \<and> d \<in> set ds))
         \<and> (\<forall>chain cfg' bcfg' who' now' rs' key' k' n' len' r. dc_messaging chain = later \<longrightarrow>
              send_dm cfg' bcfg' cur now' who' rs' key' root k' n' len' chain \<noteq> Inr r))"
proof -
  define pre where "pre = mc_base_cost cfg + len * mc_byte_cost cfg"
  define cost where "cost = pre + len * current_base_fee_value bcfg (dc_base_fee ch)"
  define d where "d = \<lparr>dd_recipient_stealth = rs, dd_ephemeral_pubkey = key,
           dd_content = \<lparr>dr_root = root, dr_k = k, dr_n = n, dr_ciphertext_len = len\<rparr>\<rparr>"
  let ?f = "mc_mul_floor cfg" and ?s = "dc_messaging ch"
  have checked: "checked_u128 a = Some b \<longleftrightarrow> b = a \<and> a \<le> u128_max" for a b by (auto simp: checked_u128_def)
  note r = assms(1) [unfolded send_dm_def Let_def result_simps checked conj_assoc simp_thms(41) sum.inject,
      folded pre_def, folded cost_def, folded d_def]
  have g: "0 < k \<and> k \<le> n \<and> n \<le> 255" "len \<in> set dm_padding_buckets"
    and burn: "cur_burn cur who cost (dc_token ch) = Some (dc_token ch')"
    and ms: "dc_messaging ch' = messaging_deposit_event (DmDispatched (next_message_id ?s) now rs key root)
             (?s\<lparr>next_message_id := next_message_id ?s + 1,
                dm_dispatches_by_block := (dm_dispatches_by_block ?s)(now := dm_dispatches_by_block ?s now @ [d]),
                dm_messages_by_root := (dm_messages_by_root ?s)(root \<mapsto> next_message_id ?s)\<rparr>)"
    and st: "dc_storage ch' = do_deposit_to_reward_pool (?f (mc_storage_share cfg) pre) (dc_storage ch)"
    and xs: "dc_stealth ch' = record_recipient_receive key (deposit_to_stealth_pool (?f (mc_stealth_share cfg) pre) (dc_stealth ch))"
    by (use r in \<open>elim conjE exE, hypsubst, simp only: pre_def cost_def dm_chain.select_convs simp_thms\<close>)+
  have shares: "?f (mc_storage_share cfg) pre + ?f (mc_stealth_share cfg) pre \<le> pre"
    using mul_floor_shares [OF assms(4), of "mc_storage_share cfg" "mc_stealth_share cfg" 0 pre] assms(5) by simp
  have pool1: "reward_pool (dc_storage ch') \<le> reward_pool (dc_storage ch) + ?f (mc_storage_share cfg) pre"
    by (simp add: st do_deposit_to_reward_pool_def sat_add_le_sum)
  have "stealth_reward_pool (dc_stealth ch') = stealth_reward_pool (deposit_to_stealth_pool (?f (mc_stealth_share cfg) pre) (dc_stealth ch))"
    by (simp add: xs record_recipient_receive_def Let_def stealth_deposit_event_def)
  then have pool2: "stealth_reward_pool (dc_stealth ch') \<le> stealth_reward_pool (dc_stealth ch) + ?f (mc_stealth_share cfg) pre"
    using stealth_sink.deposit_le by simp
  have pools: "reward_pool (dc_storage ch') + stealth_reward_pool (dc_stealth ch')
        \<le> reward_pool (dc_storage ch) + stealth_reward_pool (dc_stealth ch) + pre"
    using shares pool1 pool2 by linarith
  have fields: "dm_messages_by_root (dc_messaging ch') root = Some (next_message_id ?s)"
    "next_message_id (dc_messaging ch') = next_message_id ?s + 1"
    "dm_dispatches_by_block (dc_messaging ch') now = dm_dispatches_by_block ?s now @ [d]"
    by (simp_all add: ms messaging_deposit_event_def)
  have recv: "recipient_receive_count (dc_stealth ch') key = sat_add u32_max (recipient_receive_count (dc_stealth ch) key) 1"
    by (simp add: xs record_recipient_receive_def Let_def stealth_deposit_event_def deposit_to_stealth_pool_def)
  have later: "dm_messages_by_root later root = Some (next_message_id ?s)" "next_message_id ?s < next_message_id later"
    "d \<in> set (dispatches_at later now)" if "messaging_later cur (dc_messaging ch') later" for later
    using later_keeps [OF that] fields by (auto simp: dispatches_at_def dest: spec [of _ now])
  have found: "\<exists>ds. (now, ds) \<in> set (dispatches_range later from to) \<and> d \<in> set ds"
    if "messaging_later cur (dc_messaging ch') later" "from \<le> now" "now \<le> to" "to - from \<le> 1024" for later "from" to
    using dispatches_range_mem [OF that(2-4), of later] later(3) [OF that(1)] by (fastforce simp: dispatches_at_def)
  have again: "send_dm cfg' bcfg' cur now' who' rs' key' root k' n' len' chain \<noteq> Inr r"
    if "messaging_later cur (dc_messaging ch') later" "dc_messaging chain = later"
    for later chain cfg' bcfg' who' now' rs' key' k' n' len' r
    using known_root_refused later(1) [OF that(1)] that(2) by blast
  have d_in: "d \<in> set (dispatches_at (dc_messaging ch') now)" by (simp add: dispatches_at_def fields(3))
  have bucket: "len \<in> {1024, 4096, 16384, 65536, 262144}" using g(2) unfolding dm_padding_buckets_def by simp
  show ?thesis
    unfolding Let_def pre_def [symmetric] cost_def [symmetric] d_def [symmetric]
    by (intro conjI allI impI bucket burnD(2,5) [OF assms(2,3) burn] pools fields(1,2) d_in recv later(1,2) found again dispatches_range_mem)
      (use g(1) fields(3) in simp_all)
qed

definition demo_messaging :: messaging_config where
  "demo_messaging = \<lparr>mc_max_dispatches = 256, mc_base_cost = 250, mc_byte_cost = 40, mc_max_ciphertext_len = 262144,
     mc_storage_share = 500000, mc_stealth_share = 200000, mc_mul_floor = floor_permill\<rparr>"

definition demo_dm_chain :: "ledger dm_chain" where
  "demo_dm_chain = \<lparr>dc_messaging = genesis_messaging, dc_storage = genesis_storage 0, dc_stealth = genesis_stealth,
     dc_base_fee = genesis_base_fee mainnet_base_fee, dc_token = ledger_of 1 1000000000 0\<rparr>"

lemma demo_send_dm:
  "\<exists>ch'. send_dm demo_messaging mainnet_base_fee ledger_currency 4 1 9 5 77 2 3 1024 demo_dm_chain = Inr ch'"
  by (simp add: send_dm_def Let_def demo_messaging_def demo_dm_chain_def genesis_messaging_def dm_padding_buckets_def
      checked_u128_def mainnet_base_fee_def genesis_base_fee_def current_base_fee_value_def u128_max_def u64_max_def
      ledger_currency_def led_burn_def ledger_of_def)

lemma send_dm_spec_witness:
  "\<exists>ch'. send_dm demo_messaging mainnet_base_fee ledger_currency 4 1 9 5 77 2 3 1024 demo_dm_chain = Inr ch'
     \<and> dm_messages_by_root (dc_messaging ch') 77 = Some 0
     \<and> (4, dispatches_at (dc_messaging ch') 4) \<in> set (dispatches_range (dc_messaging ch') 0 1000)
     \<and> (\<exists>later. publish_dm_key 8 \<lparr>ma_scan_pub = 1, ma_spend_pub = 2\<rparr> (dc_messaging ch') = Inr later
          \<and> dm_messages_by_root later 77 = Some 0)"
proof -
  obtain ch' where r: "send_dm demo_messaging mainnet_base_fee ledger_currency 4 1 9 5 77 2 3 1024 demo_dm_chain = Inr ch'"
    using demo_send_dm by blast
  have ok: "cur_ok ledger_currency (dc_token demo_dm_chain)"
    using ledger_of_ok [of 1000000000 0 1] by (simp add: ledger_currency_def demo_dm_chain_def u128_max_def)
  have cfg: "permill_floor_law (mc_mul_floor demo_messaging)" "mc_storage_share demo_messaging + mc_stealth_share demo_messaging \<le> 1000000"
    by (simp_all add: demo_messaging_def floor_permill_law)
  obtain later where l: "publish_dm_key 8 \<lparr>ma_scan_pub = 1, ma_spend_pub = 2\<rparr> (dc_messaging ch') = Inr later"
    by (simp add: publish_dm_key_def u256_max_def)
  have "messaging_later ledger_currency (dc_messaging ch') later" by (rule published [OF same l])
  moreover have "next_message_id (dc_messaging demo_dm_chain) = 0" by (simp add: demo_dm_chain_def genesis_messaging_def)
  ultimately show ?thesis using send_dm_spec [OF r ledger_currency_laws ok cfg] r l by (simp add: Let_def)
qed

end
