(* ===== verification/Economic_Params.thy ===== *)
theory Economic_Params
  imports Frame
begin

text \<open>
  \<open>pallets/economic_params/src/lib.rs\<close>: the parameters governance can set, their bounds and the
  values in effect. The governance origin check is a boolean argument of each call. In the runtime the
  four shares of posts and messages are read through \<open>effective_*\<close>; no other parameter is.
\<close>

subsection \<open>Configuration and storage\<close>

record economic_config =
  default_post_storage_share :: nat
  default_post_reaction_share :: nat
  default_dm_storage_share :: nat
  default_dm_stealth_share :: nat
  default_miner_share :: nat
  default_storage_share :: nat
  default_reaction_share :: nat
  default_reactor_lock_min :: nat
  default_bond_per_gb :: nat
  default_slash_rate_per_fail_ppm :: nat
  default_base_fee_min :: nat
  default_base_fee_max :: nat

datatype parameter_key =
    PostStorageShare | PostReactionShare | DmStorageShare | DmStealthShare | MinerShare | StorageShare
  | ReactionShare | ReactorLockMin | BondPerGB | SlashRatePerFailPpm | BaseFeeMin | BaseFeeMax

datatype economic_event = ParameterUpdated parameter_key "nat option" nat

datatype economic_error =
    BadOrigin | InvalidPermill | SharesSumExceedsHundred | InvertedBaseFeeRange | SlashRateAbove100Percent

record economic_state =
  cur_post_storage_share :: "nat option"
  cur_post_reaction_share :: "nat option"
  cur_dm_storage_share :: "nat option"
  cur_dm_stealth_share :: "nat option"
  cur_miner_share :: "nat option"
  cur_storage_share :: "nat option"
  cur_reaction_share :: "nat option"
  cur_reactor_lock_min :: "nat option"
  cur_bond_per_gb :: "nat option"
  cur_slash_rate_per_fail_ppm :: "nat option"
  cur_base_fee_min :: "nat option"
  cur_base_fee_max :: "nat option"
  economic_events :: "economic_event list"

definition genesis_economic :: economic_state where
  "genesis_economic = \<lparr>cur_post_storage_share = None, cur_post_reaction_share = None, cur_dm_storage_share = None, cur_dm_stealth_share = None,
     cur_miner_share = None, cur_storage_share = None, cur_reaction_share = None, cur_reactor_lock_min = None,
     cur_bond_per_gb = None, cur_slash_rate_per_fail_ppm = None, cur_base_fee_min = None, cur_base_fee_max = None, economic_events = []\<rparr>"

definition economic_deposit_event :: "economic_event \<Rightarrow> economic_state \<Rightarrow> economic_state" where
  "economic_deposit_event e s = s\<lparr>economic_events := economic_events s @ [e]\<rparr>"

definition or_default :: "nat option \<Rightarrow> nat \<Rightarrow> nat" where
  "or_default m d = (case m of Some v \<Rightarrow> v | None \<Rightarrow> d)"

definition permill_bounded :: "nat \<Rightarrow> bool" where
  "permill_bounded p \<longleftrightarrow> p \<le> 1000000"

subsection \<open>Values in effect\<close>

definition effective_post_storage_share :: "economic_config \<Rightarrow> economic_state \<Rightarrow> nat" where
  "effective_post_storage_share cfg s = or_default (cur_post_storage_share s) (default_post_storage_share cfg)"

definition effective_post_reaction_share :: "economic_config \<Rightarrow> economic_state \<Rightarrow> nat" where
  "effective_post_reaction_share cfg s = or_default (cur_post_reaction_share s) (default_post_reaction_share cfg)"

definition effective_dm_storage_share :: "economic_config \<Rightarrow> economic_state \<Rightarrow> nat" where
  "effective_dm_storage_share cfg s = or_default (cur_dm_storage_share s) (default_dm_storage_share cfg)"

definition effective_dm_stealth_share :: "economic_config \<Rightarrow> economic_state \<Rightarrow> nat" where
  "effective_dm_stealth_share cfg s = or_default (cur_dm_stealth_share s) (default_dm_stealth_share cfg)"

definition effective_miner_share :: "economic_config \<Rightarrow> economic_state \<Rightarrow> nat" where
  "effective_miner_share cfg s = or_default (cur_miner_share s) (default_miner_share cfg)"

definition effective_storage_share :: "economic_config \<Rightarrow> economic_state \<Rightarrow> nat" where
  "effective_storage_share cfg s = or_default (cur_storage_share s) (default_storage_share cfg)"

definition effective_reaction_share :: "economic_config \<Rightarrow> economic_state \<Rightarrow> nat" where
  "effective_reaction_share cfg s = or_default (cur_reaction_share s) (default_reaction_share cfg)"

definition effective_reactor_lock_min :: "economic_config \<Rightarrow> economic_state \<Rightarrow> nat" where
  "effective_reactor_lock_min cfg s = or_default (cur_reactor_lock_min s) (default_reactor_lock_min cfg)"

definition effective_bond_per_gb :: "economic_config \<Rightarrow> economic_state \<Rightarrow> nat" where
  "effective_bond_per_gb cfg s = or_default (cur_bond_per_gb s) (default_bond_per_gb cfg)"

definition effective_slash_rate_per_fail_ppm :: "economic_config \<Rightarrow> economic_state \<Rightarrow> nat" where
  "effective_slash_rate_per_fail_ppm cfg s = or_default (cur_slash_rate_per_fail_ppm s) (default_slash_rate_per_fail_ppm cfg)"

definition effective_base_fee_min :: "economic_config \<Rightarrow> economic_state \<Rightarrow> nat" where
  "effective_base_fee_min cfg s = or_default (cur_base_fee_min s) (default_base_fee_min cfg)"

definition effective_base_fee_max :: "economic_config \<Rightarrow> economic_state \<Rightarrow> nat" where
  "effective_base_fee_max cfg s = or_default (cur_base_fee_max s) (default_base_fee_max cfg)"

subsection \<open>Calls\<close>

definition set_post_storage_share :: "economic_config \<Rightarrow> bool \<Rightarrow> nat \<Rightarrow> economic_state \<Rightarrow> (economic_error, economic_state) result" where
  "set_post_storage_share cfg governance new s =
     ensure governance BadOrigin (
     ensure (permill_bounded new) InvalidPermill (
     let peer = effective_post_reaction_share cfg s in
     ensure (new + peer \<le> 1000000) SharesSumExceedsHundred (
     Inr (economic_deposit_event (ParameterUpdated PostStorageShare (cur_post_storage_share s) new) (s\<lparr>cur_post_storage_share := Some new\<rparr>)))))"

definition set_post_reaction_share :: "economic_config \<Rightarrow> bool \<Rightarrow> nat \<Rightarrow> economic_state \<Rightarrow> (economic_error, economic_state) result" where
  "set_post_reaction_share cfg governance new s =
     ensure governance BadOrigin (
     ensure (permill_bounded new) InvalidPermill (
     let peer = effective_post_storage_share cfg s in
     ensure (new + peer \<le> 1000000) SharesSumExceedsHundred (
     Inr (economic_deposit_event (ParameterUpdated PostReactionShare (cur_post_reaction_share s) new) (s\<lparr>cur_post_reaction_share := Some new\<rparr>)))))"

definition set_dm_storage_share :: "economic_config \<Rightarrow> bool \<Rightarrow> nat \<Rightarrow> economic_state \<Rightarrow> (economic_error, economic_state) result" where
  "set_dm_storage_share cfg governance new s =
     ensure governance BadOrigin (
     ensure (permill_bounded new) InvalidPermill (
     let peer = effective_dm_stealth_share cfg s in
     ensure (new + peer \<le> 1000000) SharesSumExceedsHundred (
     Inr (economic_deposit_event (ParameterUpdated DmStorageShare (cur_dm_storage_share s) new) (s\<lparr>cur_dm_storage_share := Some new\<rparr>)))))"

definition set_dm_stealth_share :: "economic_config \<Rightarrow> bool \<Rightarrow> nat \<Rightarrow> economic_state \<Rightarrow> (economic_error, economic_state) result" where
  "set_dm_stealth_share cfg governance new s =
     ensure governance BadOrigin (
     ensure (permill_bounded new) InvalidPermill (
     let peer = effective_dm_storage_share cfg s in
     ensure (new + peer \<le> 1000000) SharesSumExceedsHundred (
     Inr (economic_deposit_event (ParameterUpdated DmStealthShare (cur_dm_stealth_share s) new) (s\<lparr>cur_dm_stealth_share := Some new\<rparr>)))))"

definition set_block_reward_shares :: "bool \<Rightarrow> nat \<Rightarrow> nat \<Rightarrow> nat \<Rightarrow> economic_state \<Rightarrow> (economic_error, economic_state) result" where
  "set_block_reward_shares governance miner storage reaction s =
     ensure governance BadOrigin (
     ensure (miner + storage + reaction \<le> 1000000) SharesSumExceedsHundred (
     Inr (economic_deposit_event (ParameterUpdated MinerShare None miner)
       (s\<lparr>cur_miner_share := Some miner, cur_storage_share := Some storage, cur_reaction_share := Some reaction\<rparr>))))"

definition set_reactor_lock_min :: "bool \<Rightarrow> nat \<Rightarrow> economic_state \<Rightarrow> (economic_error, economic_state) result" where
  "set_reactor_lock_min governance new s =
     ensure governance BadOrigin (
     Inr (economic_deposit_event (ParameterUpdated ReactorLockMin (cur_reactor_lock_min s) new) (s\<lparr>cur_reactor_lock_min := Some new\<rparr>)))"

definition set_bond_per_gb :: "bool \<Rightarrow> nat \<Rightarrow> economic_state \<Rightarrow> (economic_error, economic_state) result" where
  "set_bond_per_gb governance new s =
     ensure governance BadOrigin (
     Inr (economic_deposit_event (ParameterUpdated BondPerGB (cur_bond_per_gb s) new) (s\<lparr>cur_bond_per_gb := Some new\<rparr>)))"

definition set_slash_rate_per_fail_ppm :: "bool \<Rightarrow> nat \<Rightarrow> economic_state \<Rightarrow> (economic_error, economic_state) result" where
  "set_slash_rate_per_fail_ppm governance new s =
     ensure governance BadOrigin (
     ensure (new \<le> 1000000) SlashRateAbove100Percent (
     Inr (economic_deposit_event (ParameterUpdated SlashRatePerFailPpm (cur_slash_rate_per_fail_ppm s) new)
       (s\<lparr>cur_slash_rate_per_fail_ppm := Some new\<rparr>))))"

definition set_base_fee_range :: "bool \<Rightarrow> nat \<Rightarrow> nat \<Rightarrow> economic_state \<Rightarrow> (economic_error, economic_state) result" where
  "set_base_fee_range governance fmin fmax s =
     ensure governance BadOrigin (
     ensure (fmin \<le> fmax) InvertedBaseFeeRange (
     Inr (economic_deposit_event (ParameterUpdated BaseFeeMin None fmin)
       (s\<lparr>cur_base_fee_min := Some fmin, cur_base_fee_max := Some fmax\<rparr>))))"

subsection \<open>Any history of calls\<close>

inductive economic_step :: "economic_config \<Rightarrow> economic_state \<Rightarrow> economic_state \<Rightarrow> bool" for cfg :: economic_config where
  "set_post_storage_share cfg g n s = Inr s' \<Longrightarrow> economic_step cfg s s'"
| "set_post_reaction_share cfg g n s = Inr s' \<Longrightarrow> economic_step cfg s s'"
| "set_dm_storage_share cfg g n s = Inr s' \<Longrightarrow> economic_step cfg s s'"
| "set_dm_stealth_share cfg g n s = Inr s' \<Longrightarrow> economic_step cfg s s'"
| "set_block_reward_shares g n m r s = Inr s' \<Longrightarrow> economic_step cfg s s'"
| "set_reactor_lock_min g n s = Inr s' \<Longrightarrow> economic_step cfg s s'"
| "set_bond_per_gb g n s = Inr s' \<Longrightarrow> economic_step cfg s s'"
| "set_slash_rate_per_fail_ppm g n s = Inr s' \<Longrightarrow> economic_step cfg s s'"
| "set_base_fee_range g n m s = Inr s' \<Longrightarrow> economic_step cfg s s'"

inductive economic_reachable :: "economic_config \<Rightarrow> economic_state \<Rightarrow> bool" for cfg :: economic_config where
  economic_genesis: "economic_reachable cfg genesis_economic"
| economic_more: "economic_reachable cfg s \<Longrightarrow> economic_step cfg s s' \<Longrightarrow> economic_reachable cfg s'"

definition economic_bounds :: "economic_config \<Rightarrow> economic_state \<Rightarrow> bool" where
  "economic_bounds cfg s \<longleftrightarrow>
     effective_post_storage_share cfg s + effective_post_reaction_share cfg s \<le> 1000000
     \<and> effective_dm_storage_share cfg s + effective_dm_stealth_share cfg s \<le> 1000000
     \<and> effective_miner_share cfg s + effective_storage_share cfg s + effective_reaction_share cfg s \<le> 1000000
     \<and> effective_slash_rate_per_fail_ppm cfg s \<le> 1000000
     \<and> effective_base_fee_min cfg s \<le> effective_base_fee_max cfg s"

lemmas effective_defs = effective_post_storage_share_def effective_post_reaction_share_def effective_dm_storage_share_def
  effective_dm_stealth_share_def effective_miner_share_def effective_storage_share_def effective_reaction_share_def
  effective_slash_rate_per_fail_ppm_def effective_base_fee_min_def effective_base_fee_max_def

lemmas setter_defs = set_post_storage_share_def set_post_reaction_share_def set_dm_storage_share_def set_dm_stealth_share_def
  set_block_reward_shares_def set_reactor_lock_min_def set_bond_per_gb_def set_slash_rate_per_fail_ppm_def set_base_fee_range_def

lemma economic_step_bounds:
  assumes "economic_step cfg s s'" "economic_bounds cfg s"
  shows "economic_bounds cfg s'"
  using assms
  by (cases rule: economic_step.cases)
    (auto simp: setter_defs Let_def result_simps economic_bounds_def effective_defs economic_deposit_event_def or_default_def)

text \<open>Whatever governance does, starting from consistent defaults the shares of a post's cost, of a
  message's cost and of the block reward never add up to more than the whole, the slash rate stays
  below one, the fee range is never inverted, and so the amounts split off a post's or a message's cost
  never exceed it.
\<close>

theorem economic_shares_bounded:
  assumes "economic_reachable cfg s" "economic_bounds cfg genesis_economic" "permill_floor_law f"
  shows "economic_bounds cfg s
    \<and> f (effective_post_storage_share cfg s) x + f (effective_post_reaction_share cfg s) x \<le> x
    \<and> f (effective_dm_storage_share cfg s) x + f (effective_dm_stealth_share cfg s) x \<le> x
    \<and> f (effective_miner_share cfg s) x + f (effective_storage_share cfg s) x + f (effective_reaction_share cfg s) x \<le> x"
proof -
  from assms(1) have b: "economic_bounds cfg s"
    by induction (simp_all add: assms(2) economic_step_bounds)
  have two: "f p x + f q x \<le> x" if "p + q \<le> 1000000" for p q
    using mul_floor_shares [OF assms(3), of p q 0 x] that by simp
  show ?thesis using b two mul_floor_shares [OF assms(3)] by (simp add: economic_bounds_def)
qed

text \<open>The runtime's defaults.\<close>

definition runtime_economic :: economic_config where
  "runtime_economic = \<lparr>default_post_storage_share = 500000, default_post_reaction_share = 200000,
     default_dm_storage_share = 500000, default_dm_stealth_share = 200000, default_miner_share = 500000,
     default_storage_share = 300000, default_reaction_share = 200000, default_reactor_lock_min = 100000000000,
     default_bond_per_gb = 10000000000000, default_slash_rate_per_fail_ppm = 50000, default_base_fee_min = 100,
     default_base_fee_max = 100000000000\<rparr>"

lemma runtime_economic_bounds: "economic_bounds runtime_economic genesis_economic"
  by (simp add: economic_bounds_def effective_defs or_default_def genesis_economic_def runtime_economic_def)

lemma economic_shares_bounded_witness:
  "\<exists>s. set_post_storage_share runtime_economic True 800000 genesis_economic = Inr s
    \<and> floor_permill (effective_post_storage_share runtime_economic s) 7 + floor_permill (effective_post_reaction_share runtime_economic s) 7 \<le> 7"
proof -
  obtain s where s: "set_post_storage_share runtime_economic True 800000 genesis_economic = Inr s"
    by (simp add: set_post_storage_share_def permill_bounded_def effective_defs or_default_def runtime_economic_def genesis_economic_def)
  have "economic_reachable runtime_economic s"
    by (rule economic_more [OF economic_genesis]) (rule economic_step.intros(1) [OF s])
  then show ?thesis using economic_shares_bounded [OF _ runtime_economic_bounds floor_permill_law] s by blast
qed

end
