(* ===== verification/Faucet.thy ===== *)
theory Faucet
  imports Pow Frame
begin

text \<open>
  \<open>pallets/faucet/src/lib.rs\<close>: the proof-of-work faucet, its difficulty, its cap and the check an
  unsigned claim has to pass before it enters the transaction pool.
\<close>

subsection \<open>Configuration and storage\<close>

record faucet_config =
  fc_base_difficulty :: nat
  fc_scaling_factor :: nat
  fc_max_difficulty :: nat
  fc_reward_amount :: nat
  fc_challenge_validity :: block_number
  fc_total_cap :: nat
  fc_block_hash :: "block_number \<Rightarrow> bytes"
  fc_encode :: "account_id \<Rightarrow> bytes"
  fc_blake2_256 :: "bytes \<Rightarrow> bytes"

record faucet_claim_record =
  cr_block_number :: block_number
  cr_amount :: nat

datatype faucet_event = FaucetClaimed account_id nat block_number

datatype claim_validation_error =
    ClaimAlreadyClaimed | ClaimChallengeExpired | ClaimBlockNotFound | ClaimInvalidProof | ClaimCapReached

text \<open>\<open>FaucetMintFailed\<close> stands for an error of \<open>mint_into\<close>, which the pallet passes on.\<close>

datatype faucet_error =
    AlreadyClaimed | FaucetChallengeExpired | FaucetInvalidProof | FaucetBlockNotFound | FaucetCapReached
  | FaucetMintFailed

record faucet_state =
  faucet_claims :: "account_id \<rightharpoonup> faucet_claim_record"
  total_claims :: nat
  total_minted :: nat
  faucet_events :: "faucet_event list"

definition genesis_faucet :: faucet_state where
  "genesis_faucet = \<lparr>faucet_claims = \<lambda>_. None, total_claims = 0, total_minted = 0, faucet_events = []\<rparr>"

subsection \<open>Difficulty\<close>

text \<open>The position of the highest one bit: 64 minus the leading zeros of a \<open>u64\<close>.\<close>

fun bit_length64 :: "nat \<Rightarrow> nat" where
  "bit_length64 n = (if n = 0 then 0 else Suc (bit_length64 (n div 2)))"

declare bit_length64.simps [simp del]

definition faucet_difficulty :: "faucet_config \<Rightarrow> faucet_state \<Rightarrow> nat" where
  "faucet_difficulty cfg s =
     (if fc_scaling_factor cfg = 0 then min (fc_base_difficulty cfg) (fc_max_difficulty cfg)
      else let ratio = sat_add u64_max 1 (total_claims s div fc_scaling_factor cfg);
               log2_value = bit_length64 ratio mod 2 ^ 8;
               adjustment = log2_value - 1
           in min (sat_add u8_max (fc_base_difficulty cfg) adjustment) (fc_max_difficulty cfg))"

lemma bit_length64_bounds: "0 < n \<Longrightarrow> 2 ^ (bit_length64 n - 1) \<le> n \<and> n < 2 ^ bit_length64 n"
proof (induction n rule: bit_length64.induct)
  case (1 n)
  show ?case
  proof (cases "n = 1")
    case True
    then show ?thesis by (simp add: bit_length64.simps)
  next
    case False
    then have p: "0 < n div 2" using 1(2) by linarith
    define b where "b = bit_length64 (n div 2 div 2)"
    have b: "bit_length64 (n div 2) = Suc b" using p by (subst bit_length64.simps) (simp add: b_def)
    then have IH: "2 ^ b \<le> n div 2" "n div 2 < 2 ^ Suc b" using 1(1) p 1(2) by auto
    have "bit_length64 n = Suc (Suc b)" using 1(2) b by (subst bit_length64.simps) simp
    moreover have "2 * 2 ^ b \<le> n" "n < 2 * 2 ^ Suc b" using IH by linarith+
    ultimately show ?thesis by simp
  qed
qed

lemma bit_length64_le: "n \<le> u64_max \<Longrightarrow> bit_length64 n \<le> 64"
proof (cases "n = 0")
  case False
  assume "n \<le> u64_max"
  then have "n < 2 ^ 64" by (simp add: u64_max_def)
  moreover have "2 ^ (bit_length64 n - 1) \<le> n" using bit_length64_bounds False by simp
  ultimately have "(2::nat) ^ (bit_length64 n - 1) < 2 ^ 64" by linarith
  then have "bit_length64 n - 1 < 64" by (rule power_less_imp_less_exp [rotated]) simp
  then show ?thesis by simp
qed (simp add: bit_length64.simps)

subsection \<open>Claims\<close>

definition validate_claim_params ::
  "faucet_config \<Rightarrow> block_number \<Rightarrow> account_id \<Rightarrow> block_number \<Rightarrow> nat \<Rightarrow> faucet_state \<Rightarrow> claim_validation_error option" where
  "validate_claim_params cfg now account block_number nonce s =
     (if 0 < fc_total_cap cfg \<and> fc_total_cap cfg < sat_add u128_max (total_minted s) (fc_reward_amount cfg)
      then Some ClaimCapReached
      else if faucet_claims s account \<noteq> None then Some ClaimAlreadyClaimed
      else if sat_add u32_max block_number (fc_challenge_validity cfg) < now then Some ClaimChallengeExpired
      else let block_hash = fc_block_hash cfg block_number in
        if block_hash = replicate 32 0 then Some ClaimBlockNotFound
        else let challenge = compute_challenge (fc_blake2_256 cfg) block_hash (fc_encode cfg account) in
          if \<not> verify_proof (fc_blake2_256 cfg) challenge nonce (faucet_difficulty cfg s) then Some ClaimInvalidProof
          else None)"

definition claim_error :: "claim_validation_error \<Rightarrow> faucet_error" where
  "claim_error e = (case e of
       ClaimAlreadyClaimed \<Rightarrow> AlreadyClaimed
     | ClaimChallengeExpired \<Rightarrow> FaucetChallengeExpired
     | ClaimBlockNotFound \<Rightarrow> FaucetBlockNotFound
     | ClaimInvalidProof \<Rightarrow> FaucetInvalidProof
     | ClaimCapReached \<Rightarrow> FaucetCapReached)"

definition claim ::
  "faucet_config \<Rightarrow> 'c currency \<Rightarrow> block_number \<Rightarrow> account_id \<Rightarrow> block_number \<Rightarrow> nat \<Rightarrow> faucet_state \<times> 'c \<Rightarrow>
   (faucet_error, faucet_state \<times> 'c) result" where
  "claim cfg cur now account block_number nonce = (\<lambda>(s, c).
     case validate_claim_params cfg now account block_number nonce s of
       Some e \<Rightarrow> Inl (Err (claim_error e))
     | None \<Rightarrow>
        ok_or (cur_mint cur account (fc_reward_amount cfg) c) FaucetMintFailed (\<lambda>c'.
        Inr (s\<lparr>faucet_claims := (faucet_claims s)(account \<mapsto> \<lparr>cr_block_number = block_number, cr_amount = fc_reward_amount cfg\<rparr>),
               total_claims := sat_add u64_max (total_claims s) 1,
               total_minted := sat_add u128_max (total_minted s) (fc_reward_amount cfg),
               faucet_events := faucet_events s @ [FaucetClaimed account (fc_reward_amount cfg) block_number]\<rparr>, c')))"

text \<open>
  The check before the pool. A valid claim provides the tag of its account, so the pool holds at most
  one claim per account; the other fields are constants.
\<close>

record valid_claim =
  vc_priority :: nat
  vc_provides :: account_id
  vc_longevity :: nat

definition faucet_validate_unsigned ::
  "faucet_config \<Rightarrow> block_number \<Rightarrow> account_id \<Rightarrow> block_number \<Rightarrow> nat \<Rightarrow> faucet_state \<Rightarrow> nat + valid_claim" where
  "faucet_validate_unsigned cfg now account block_number nonce s =
     (case validate_claim_params cfg now account block_number nonce s of
        Some ClaimAlreadyClaimed \<Rightarrow> Inl 1
      | Some ClaimChallengeExpired \<Rightarrow> Inl 2
      | Some ClaimBlockNotFound \<Rightarrow> Inl 3
      | Some ClaimInvalidProof \<Rightarrow> Inl 4
      | Some ClaimCapReached \<Rightarrow> Inl 5
      | None \<Rightarrow> Inr \<lparr>vc_priority = 100, vc_provides = account, vc_longevity = fc_challenge_validity cfg\<rparr>)"

subsection \<open>Any history of claims\<close>

inductive faucet_reachable :: "faucet_config \<Rightarrow> 'c currency \<Rightarrow> 'c \<Rightarrow> faucet_state \<times> 'c \<Rightarrow> bool"
  for cfg :: faucet_config and cur :: "'c currency" and c0 :: 'c where
  faucet_genesis: "faucet_reachable cfg cur c0 (genesis_faucet, c0)"
| faucet_more: "faucet_reachable cfg cur c0 sc \<Longrightarrow> claim cfg cur now account b nonce sc = Inr sc' \<Longrightarrow>
     faucet_reachable cfg cur c0 sc'"

definition faucet_inv :: "faucet_config \<Rightarrow> faucet_state \<Rightarrow> bool" where
  "faucet_inv cfg s \<longleftrightarrow> finite (dom (faucet_claims s))
     \<and> total_claims s = min (card (dom (faucet_claims s))) u64_max
     \<and> total_minted s = card (dom (faucet_claims s)) * fc_reward_amount cfg
     \<and> (0 < fc_total_cap cfg \<longrightarrow> total_minted s \<le> fc_total_cap cfg)"

lemma claim_Inr:
  assumes "claim cfg cur now w b nonce (s, c) = Inr (s', c')"
  shows "validate_claim_params cfg now w b nonce s = None" "cur_mint cur w (fc_reward_amount cfg) c = Some c'"
    "faucet_claims s' = (faucet_claims s)(w \<mapsto> \<lparr>cr_block_number = b, cr_amount = fc_reward_amount cfg\<rparr>)"
    "total_claims s' = sat_add u64_max (total_claims s) 1"
    "total_minted s' = sat_add u128_max (total_minted s) (fc_reward_amount cfg)"
    "faucet_claims s w = None"
    "0 < fc_total_cap cfg \<Longrightarrow> sat_add u128_max (total_minted s) (fc_reward_amount cfg) \<le> fc_total_cap cfg"
proof -
  from assms show v: "validate_claim_params cfg now w b nonce s = None" by (auto simp: claim_def split: option.splits)
  with assms show "cur_mint cur w (fc_reward_amount cfg) c = Some c'"
    "faucet_claims s' = (faucet_claims s)(w \<mapsto> \<lparr>cr_block_number = b, cr_amount = fc_reward_amount cfg\<rparr>)"
    "total_claims s' = sat_add u64_max (total_claims s) 1"
    "total_minted s' = sat_add u128_max (total_minted s) (fc_reward_amount cfg)"
    by (auto simp: claim_def result_simps)
  from v show "faucet_claims s w = None"
    and "0 < fc_total_cap cfg \<Longrightarrow> sat_add u128_max (total_minted s) (fc_reward_amount cfg) \<le> fc_total_cap cfg"
    unfolding validate_claim_params_def by (auto simp: not_less split: if_splits)
qed

lemma issuance_le:
  assumes "currency_laws cur" "cur_ok cur c"
  shows "total_issuance cur c \<le> u128_max"
  using assms unfolding currency_laws_def issuance_law_def by blast

lemma faucet_reachable_inv:
  assumes "faucet_reachable cfg cur c0 (s, c)" "currency_laws cur" "cur_ok cur c0"
  shows "faucet_inv cfg s \<and> cur_ok cur c
    \<and> total_issuance cur c = total_issuance cur c0 + card (dom (faucet_claims s)) * fc_reward_amount cfg"
  using assms(1)
proof (induction "(s, c)" arbitrary: s c)
  case faucet_genesis
  then show ?case using assms(3) by (simp add: faucet_inv_def genesis_faucet_def)
next
  case (faucet_more sc now w b nonce)
  obtain s0 d where sc: "sc = (s0, d)" by fastforce
  note IH = faucet_more(2) [OF sc] and eff = claim_Inr [OF faucet_more(3) [unfolded sc]]
  have fin: "finite (dom (faucet_claims s0))" using IH by (simp add: faucet_inv_def)
  then have card: "card (dom (faucet_claims s)) = Suc (card (dom (faucet_claims s0)))"
    using eff(6) by (simp add: eff(3) domIff)
  note m = mintD [OF assms(2) _ eff(2)]
  have ok: "cur_ok cur c" and iss: "total_issuance cur c = total_issuance cur d + fc_reward_amount cfg" using IH m by simp_all
  have "total_minted s0 + fc_reward_amount cfg \<le> u128_max"
    using IH iss issuance_le [OF assms(2) ok] by (simp add: faucet_inv_def)
  then have minted: "sat_add u128_max (total_minted s0) (fc_reward_amount cfg) = total_minted s0 + fc_reward_amount cfg"
    by (rule sat_add_exact)
  have "finite (dom (faucet_claims s))" using fin by (simp add: eff(3))
  moreover have "total_claims s = min (card (dom (faucet_claims s))) u64_max"
    using IH by (simp add: card eff(4) sat_add_def faucet_inv_def min_def)
  moreover have "total_minted s = card (dom (faucet_claims s)) * fc_reward_amount cfg"
    using IH unfolding eff(5) minted card by (simp add: faucet_inv_def)
  moreover have "0 < fc_total_cap cfg \<longrightarrow> total_minted s \<le> fc_total_cap cfg" using eff(7) by (simp add: eff(5))
  ultimately show ?case using ok iss IH by (simp add: faucet_inv_def card)
qed

lemma faucet_difficulty_log:
  fixes cfg :: faucet_config and s :: faucet_state
  assumes "0 < fc_scaling_factor cfg"
  defines "ratio \<equiv> min (1 + total_claims s div fc_scaling_factor cfg) u64_max"
  shows "\<exists>l. 2 ^ l \<le> ratio \<and> ratio < 2 ^ Suc l
    \<and> faucet_difficulty cfg s = min (min (fc_base_difficulty cfg + l) u8_max) (fc_max_difficulty cfg)"
proof -
  have r: "0 < ratio" "ratio \<le> u64_max" by (simp_all add: ratio_def u64_max_def)
  have b: "2 ^ (bit_length64 ratio - 1) \<le> ratio" "ratio < 2 ^ bit_length64 ratio" "bit_length64 ratio \<le> 64"
    using bit_length64_bounds [OF r(1)] bit_length64_le [OF r(2)] by auto
  have pos: "0 < bit_length64 ratio" using r(1) by (subst bit_length64.simps) simp
  have "bit_length64 ratio mod 2 ^ 8 = bit_length64 ratio" using b(3) by simp
  moreover have "sat_add u64_max 1 (total_claims s div fc_scaling_factor cfg) = ratio" by (simp add: sat_add_def ratio_def)
  ultimately have "faucet_difficulty cfg s
      = min (sat_add u8_max (fc_base_difficulty cfg) (bit_length64 ratio - 1)) (fc_max_difficulty cfg)"
    unfolding faucet_difficulty_def Let_def using assms(1) by simp
  then show ?thesis using b pos by (intro exI [of _ "bit_length64 ratio - 1"]) (simp add: sat_add_def)
qed

lemma validate_unsigned_iff:
  "(\<exists>v. faucet_validate_unsigned cfg now w b nonce s = Inr v) \<longleftrightarrow> validate_claim_params cfg now w b nonce s = None"
  by (auto simp: faucet_validate_unsigned_def split: option.splits claim_validation_error.splits)

text \<open>The faucet pays every account at most once and the same amount, so what it has minted is the
  reward times the number of accounts paid, never more than the cap, and it accounts for all money the
  faucet added to the ledger; a claim the pool accepts executes unless minting fails; and the
  difficulty is the base plus the logarithm of the number of claims per scaling factor, within its
  maximum.
\<close>

theorem faucet_accounts:
  assumes "faucet_reachable cfg cur c0 (s, c)" "currency_laws cur" "cur_ok cur c0" "0 < fc_scaling_factor cfg"
  shows "faucet_inv cfg s
    \<and> total_issuance cur c = total_issuance cur c0 + card (dom (faucet_claims s)) * fc_reward_amount cfg
    \<and> (\<forall>w r now b nonce sc'. faucet_claims s w = Some r \<longrightarrow> claim cfg cur now w b nonce (s, c) \<noteq> Inr sc')
    \<and> (\<forall>now w b nonce. (\<exists>v. faucet_validate_unsigned cfg now w b nonce s = Inr v)
         \<and> cur_mint cur w (fc_reward_amount cfg) c \<noteq> None \<longleftrightarrow> (\<exists>sc'. claim cfg cur now w b nonce (s, c) = Inr sc'))
    \<and> (\<exists>l. 2 ^ l \<le> min (1 + total_claims s div fc_scaling_factor cfg) u64_max
         \<and> min (1 + total_claims s div fc_scaling_factor cfg) u64_max < 2 ^ Suc l
         \<and> faucet_difficulty cfg s = min (min (fc_base_difficulty cfg + l) u8_max) (fc_max_difficulty cfg))"
proof (intro conjI allI impI)
  fix w r now b nonce sc'
  assume "faucet_claims s w = Some r"
  then show "claim cfg cur now w b nonce (s, c) \<noteq> Inr sc'" using claim_Inr(6) by (cases sc') fastforce
next
  fix now w b nonce
  show "(\<exists>v. faucet_validate_unsigned cfg now w b nonce s = Inr v) \<and> cur_mint cur w (fc_reward_amount cfg) c \<noteq> None
      \<longleftrightarrow> (\<exists>sc'. claim cfg cur now w b nonce (s, c) = Inr sc')"
    unfolding validate_unsigned_iff by (auto simp: claim_def result_simps split: option.splits)
next
  show "\<exists>l. 2 ^ l \<le> min (1 + total_claims s div fc_scaling_factor cfg) u64_max
         \<and> min (1 + total_claims s div fc_scaling_factor cfg) u64_max < 2 ^ Suc l
         \<and> faucet_difficulty cfg s = min (min (fc_base_difficulty cfg + l) u8_max) (fc_max_difficulty cfg)"
    by (rule faucet_difficulty_log [OF assms(4)])
qed (use faucet_reachable_inv [OF assms(1-3)] in blast)+

definition demo_faucet :: faucet_config where
  "demo_faucet = \<lparr>fc_base_difficulty = 18, fc_scaling_factor = 1000, fc_max_difficulty = 28, fc_reward_amount = 100,
     fc_challenge_validity = 100, fc_total_cap = 100000, fc_block_hash = \<lambda>_. [1], fc_encode = \<lambda>_. [],
     fc_blake2_256 = \<lambda>_. [0, 0, 0, 0]\<rparr>"

lemma faucet_accounts_witness:
  "\<exists>s c. claim demo_faucet ledger_currency 5 7 1 9 (genesis_faucet, ledger_of 1 10 0) = Inr (s, c)
     \<and> total_minted s = 100 \<and> total_issuance ledger_currency c = 110"
proof -
  have [simp]: "count_leading_zero_bits [0, 0, 0, 0] = 32"
    by (simp add: count_leading_zero_bits_def sat_add_def u8_max_def)
  have "bit_length64 (Suc 0) = 1" by (subst bit_length64.simps) (simp add: bit_length64.simps [of 0])
  then have d: "faucet_difficulty demo_faucet genesis_faucet = 18"
    by (simp add: faucet_difficulty_def demo_faucet_def genesis_faucet_def sat_add_def u64_max_def u8_max_def)
  have "length [1 :: 8 word] \<noteq> length (replicate 32 (0 :: 8 word))" by simp
  then have h: "[1 :: 8 word] \<noteq> replicate 32 0" by metis
  have v: "verify_proof (fc_blake2_256 demo_faucet) ch 9 18" for ch by (simp add: verify_proof_def demo_faucet_def)
  have "validate_claim_params demo_faucet 5 7 1 9 genesis_faucet = None"
    unfolding validate_claim_params_def d Let_def using v h
    by (simp add: demo_faucet_def genesis_faucet_def sat_add_def u128_max_def u32_max_def)
  then obtain s c where r: "claim demo_faucet ledger_currency 5 7 1 9 (genesis_faucet, ledger_of 1 10 0) = Inr (s, c)"
    by (auto simp: claim_def ledger_currency_def led_mint_def ledger_of_def demo_faucet_def u128_max_def)
  have ok: "cur_ok ledger_currency (ledger_of 1 10 0)"
    using ledger_of_ok [of 10 0 1] by (simp add: ledger_currency_def u128_max_def)
  have reach: "faucet_reachable demo_faucet ledger_currency (ledger_of 1 10 0) (s, c)"
    by (rule faucet_more [OF faucet_genesis r])
  have dom: "card (dom (faucet_claims s)) = 1" using claim_Inr(3) [OF r] by (simp add: genesis_faucet_def)
  have "0 < fc_scaling_factor demo_faucet" "fc_reward_amount demo_faucet = 100"
    "total_issuance ledger_currency (ledger_of 1 10 0) = 10"
    by (simp_all add: demo_faucet_def ledger_currency_def ledger_of_def)
  with faucet_accounts [OF reach ledger_currency_laws ok] r dom show ?thesis by (auto simp: faucet_inv_def)
qed

end
