(* ===== verification/Grandpa_Election.thy ===== *)
theory Grandpa_Election
  imports Prelude
begin

text \<open>
  \<open>pallets/grandpa_authority_election/src/lib.rs\<close>: the window of the latest block authors, the keys
  they register and the election of the most frequent ones at a rotation. The call
  \<open>pallet_grandpa::schedule_change\<close> is a function of the configuration on a state \<open>'g\<close>.
\<close>

subsection \<open>Configuration and storage\<close>

type_synonym grandpa_id = hash256

record 'g election_config =
  gc_window_size :: nat
  gc_authority_count :: nat
  gc_rotation_period :: nat
  gc_rotation_delay :: nat
  gc_schedule_change :: "(grandpa_id \<times> nat) list \<Rightarrow> nat \<Rightarrow> 'g \<Rightarrow> 'g option"

datatype election_skip = NoCandidates | ScheduleChangeFailed

datatype election_event =
    AuthorityKeyRegistered account_id
  | AuthorityKeyUnregistered account_id
  | AuthoritySetRotated nat
  | AuthoritySetRotationSkipped election_skip

datatype election_error = AlreadyRegistered | NotRegistered

record election_state =
  recent_authors :: "account_id list"
  authority_keys :: "account_id \<rightharpoonup> grandpa_id"
  election_events :: "election_event list"

definition genesis_election :: election_state where
  "genesis_election = \<lparr>recent_authors = [], authority_keys = \<lambda>_. None, election_events = []\<rparr>"

definition election_deposit_event :: "election_event \<Rightarrow> election_state \<Rightarrow> election_state" where
  "election_deposit_event e s = s\<lparr>election_events := election_events s @ [e]\<rparr>"

subsection \<open>Keys\<close>

definition register_grandpa_key :: "account_id \<Rightarrow> grandpa_id \<Rightarrow> election_state \<Rightarrow> (election_error, election_state) result" where
  "register_grandpa_key who key s =
     ensure (authority_keys s who = None) AlreadyRegistered (
     Inr (election_deposit_event (AuthorityKeyRegistered who)
       (s\<lparr>authority_keys := (authority_keys s)(who \<mapsto> key)\<rparr>)))"

definition unregister_grandpa_key :: "account_id \<Rightarrow> election_state \<Rightarrow> (election_error, election_state) result" where
  "unregister_grandpa_key who s =
     ensure (authority_keys s who \<noteq> None) NotRegistered (
     Inr (election_deposit_event (AuthorityKeyUnregistered who)
       (s\<lparr>authority_keys := (authority_keys s)(who := None)\<rparr>)))"

subsection \<open>Rotation\<close>

text \<open>
  The counts of the authors in the order of the \<open>BTreeMap\<close>, and the stable sort by the comparator
  (count descending, account ascending).
\<close>

definition author_counts :: "account_id list \<Rightarrow> (account_id \<times> nat) list" where
  "author_counts recent = map (\<lambda>a. (a, count_list recent a)) (sort (remdups recent))"

definition ranks_before :: "account_id \<times> nat \<Rightarrow> account_id \<times> nat \<Rightarrow> bool" where
  "ranks_before x y \<longleftrightarrow> snd y < snd x \<or> (snd x = snd y \<and> fst x \<le> fst y)"

fun rank_insert :: "account_id \<times> nat \<Rightarrow> (account_id \<times> nat) list \<Rightarrow> (account_id \<times> nat) list" where
  "rank_insert x [] = [x]"
| "rank_insert x (y # ys) = (if ranks_before x y then x # y # ys else y # rank_insert x ys)"

definition rank_sort :: "(account_id \<times> nat) list \<Rightarrow> (account_id \<times> nat) list" where
  "rank_sort xs = foldr rank_insert xs []"

text \<open>The loop that fills the new set with the registered keys, each of weight one, up to \<open>k\<close>.\<close>

fun elect :: "nat \<Rightarrow> (account_id \<rightharpoonup> grandpa_id) \<Rightarrow> (account_id \<times> nat) list \<Rightarrow> (grandpa_id \<times> nat) list \<Rightarrow> (grandpa_id \<times> nat) list" where
  "elect k keys [] new_set = new_set"
| "elect k keys ((a, n) # ranked) new_set =
     (if k \<le> length new_set then new_set
      else case keys a of
             Some key \<Rightarrow> elect k keys ranked (new_set @ [(key, 1)])
           | None \<Rightarrow> elect k keys ranked new_set)"

definition new_authorities :: "nat \<Rightarrow> election_state \<Rightarrow> (grandpa_id \<times> nat) list" where
  "new_authorities k s = elect k (authority_keys s) (rank_sort (author_counts (recent_authors s))) []"

definition rotate_authorities :: "'g election_config \<Rightarrow> election_state \<times> 'g \<Rightarrow> election_state \<times> 'g" where
  "rotate_authorities cfg = (\<lambda>(s, g).
     if recent_authors s = [] then (election_deposit_event (AuthoritySetRotationSkipped NoCandidates) s, g)
     else let new_set = new_authorities (gc_authority_count cfg) s in
       if new_set = [] then (election_deposit_event (AuthoritySetRotationSkipped NoCandidates) s, g)
       else case gc_schedule_change cfg new_set (gc_rotation_delay cfg) g of
              Some g' \<Rightarrow> (election_deposit_event (AuthoritySetRotated (length new_set mod 2 ^ 32)) s, g')
            | None \<Rightarrow> (election_deposit_event (AuthoritySetRotationSkipped ScheduleChangeFailed) s, g))"

text \<open>The end of a block: the author enters the window, then a rotation at the end of a period.\<close>

definition push_author :: "nat \<Rightarrow> account_id \<Rightarrow> account_id list \<Rightarrow> account_id list" where
  "push_author cap author w =
     (let w' = (if cap \<le> length w \<and> w \<noteq> [] then tl w else w)
      in if length w' < cap then w' @ [author] else w')"

definition election_on_finalize ::
  "'g election_config \<Rightarrow> block_number \<Rightarrow> account_id option \<Rightarrow> election_state \<times> 'g \<Rightarrow> election_state \<times> 'g" where
  "election_on_finalize cfg n find_author = (\<lambda>(s, g).
     if gc_window_size cfg = 0 then (s, g)
     else let s1 = (case find_author of
                      Some author \<Rightarrow> s\<lparr>recent_authors := push_author (gc_window_size cfg) author (recent_authors s)\<rparr>
                    | None \<Rightarrow> s)
          in if gc_rotation_period cfg = 0 \<or> n mod gc_rotation_period cfg \<noteq> 0 then (s1, g)
             else rotate_authorities cfg (s1, g))"

subsection \<open>The window\<close>

definition window_after :: "nat \<Rightarrow> account_id option list \<Rightarrow> account_id list" where
  "window_after cap found = fold (\<lambda>a w. case a of Some x \<Rightarrow> push_author cap x w | None \<Rightarrow> w) found []"

lemma window_after_latest:
  assumes "0 < cap"
  shows "window_after cap found = drop (length (List.map_filter (\<lambda>x. x) found) - cap) (List.map_filter (\<lambda>x. x) found)"
proof (induction found rule: rev_induct)
  case (snoc a found)
  let ?all = "List.map_filter (\<lambda>x. x) found"
  have app: "List.map_filter (\<lambda>x. x) (found @ [a]) = ?all @ (case a of Some x \<Rightarrow> [x] | None \<Rightarrow> [])"
    by (induction found) (auto simp: List.map_filter_simps split: option.splits)
  show ?case
  proof (cases a)
    case None
    then show ?thesis using snoc app by (simp add: window_after_def)
  next
    case (Some x)
    let ?w = "drop (length ?all - cap) ?all"
    have "window_after cap (found @ [a]) = push_author cap x ?w" using snoc Some by (simp add: window_after_def)
    also have "\<dots> = drop (length ?all + 1 - cap) (?all @ [x])"
    proof (cases "cap \<le> length ?all")
      case True
      then have "length ?w = cap" by simp
      moreover from this assms have "?w \<noteq> []" by auto
      ultimately have "push_author cap x ?w = tl ?w @ [x]" using assms by (simp add: push_author_def)
      then show ?thesis using True assms by (simp add: tl_drop drop_Suc Suc_diff_le flip: drop_Suc)
    next
      case False
      then show ?thesis by (simp add: push_author_def)
    qed
    finally show ?thesis using app Some by simp
  qed
qed (simp add: window_after_def List.map_filter_simps)

subsection \<open>The ranking\<close>

lemma rank_sort_set: "set (rank_sort xs) = set xs"
proof -
  have "set (rank_insert x ys) = insert x (set ys)" for x ys by (induction x ys rule: rank_insert.induct) auto
  then show ?thesis by (induction xs) (simp_all add: rank_sort_def)
qed

lemma rank_sort_length: "length (rank_sort xs) = length xs"
proof -
  have "length (rank_insert x ys) = Suc (length ys)" for x ys by (induction x ys rule: rank_insert.induct) auto
  then show ?thesis by (induction xs) (simp_all add: rank_sort_def)
qed

lemma ranks_total: "ranks_before x y \<or> ranks_before y x"
  by (auto simp: ranks_before_def)

lemma ranks_trans: "ranks_before x y \<Longrightarrow> ranks_before y z \<Longrightarrow> ranks_before x z"
  by (auto simp: ranks_before_def)

lemma rank_sort_sorted: "sorted_wrt ranks_before (rank_sort xs)"
proof -
  have set_ins: "set (rank_insert x ys) = insert x (set ys)" for x ys by (induction x ys rule: rank_insert.induct) auto
  have "sorted_wrt ranks_before (rank_insert x ys)" if "sorted_wrt ranks_before ys" for x ys
    using that
  proof (induction x ys rule: rank_insert.induct)
    case (2 x y ys)
    then show ?case using ranks_trans ranks_total [of x y] by (auto simp: set_ins)
  qed simp
  then show ?thesis by (induction xs) (simp_all add: rank_sort_def)
qed

lemma author_counts_facts:
  "fst ` set (author_counts recent) = set recent" "distinct (map fst (author_counts recent))"
  "(a, n) \<in> set (author_counts recent) \<Longrightarrow> n = count_list recent a"
  by (auto simp: author_counts_def image_image comp_def)

lemma elect_eq: "length acc \<le> k \<Longrightarrow>
  elect k keys ranked acc = acc @ take (k - length acc) (map (\<lambda>x. (the (keys (fst x)), 1)) (filter (\<lambda>x. keys (fst x) \<noteq> None) ranked))"
proof (induction k keys ranked acc rule: elect.induct)
  case (2 k keys a n ranked acc)
  show ?case
  proof (cases "k \<le> length acc")
    case False
    show ?thesis
    proof (cases "keys a")
      case None
      then show ?thesis using 2 False by simp
    next
      case (Some key)
      then have "elect k keys ((a, n) # ranked) acc = elect k keys ranked (acc @ [(key, 1)])" using False by simp
      also have "\<dots> = (acc @ [(key, 1)]) @ take (k - length (acc @ [(key, 1)]))
          (map (\<lambda>x. (the (keys (fst x)), 1)) (filter (\<lambda>x. keys (fst x) \<noteq> None) ranked))"
        using 2(2) [OF False Some] False by simp
      finally show ?thesis using False Some by (simp add: take_Cons' Suc_diff_Suc)
    qed
  qed simp
qed simp

text \<open>C39: at a rotation the new set has the keys of as many registered recent authors as it can hold:
  those that come first when authors are ordered by how many of the latest blocks of the window they
  found, ties by account. Every key has weight one, an author left out is ranked after every author
  elected, and the set is handed over as one change with the configured delay.
\<close>

theorem rotation_elects_top:
  assumes "new_authorities k s = set'" "set' \<noteq> []"
  defines "cands \<equiv> {a \<in> set (recent_authors s). authority_keys s a \<noteq> None}"
  shows "\<exists>elected. distinct elected \<and> length elected = min k (card cands) \<and> set elected \<subseteq> cands
    \<and> set' = map (\<lambda>a. (the (authority_keys s a), 1)) elected
    \<and> (\<forall>a \<in> set elected. \<forall>b \<in> cands - set elected. count_list (recent_authors s) b \<le> count_list (recent_authors s) a
         \<and> (count_list (recent_authors s) a = count_list (recent_authors s) b \<longrightarrow> a \<le> b))
    \<and> (gc_authority_count cfg = k \<longrightarrow> gc_schedule_change cfg set' (gc_rotation_delay cfg) g = Some g' \<longrightarrow>
         rotate_authorities cfg (s, g) = (election_deposit_event (AuthoritySetRotated (length set' mod 2 ^ 32)) s, g'))"
proof -
  let ?keys = "authority_keys s" and ?cnt = "count_list (recent_authors s)"
  define ranked where "ranked = rank_sort (author_counts (recent_authors s))"
  define reg where "reg = filter (\<lambda>x. ?keys (fst x) \<noteq> None) ranked"
  define elected where "elected = map fst (take k reg)"
  have "mset (rank_sort xs) = mset xs" for xs
  proof -
    have "mset (rank_insert x ys) = add_mset x (mset ys)" for x ys by (induction x ys rule: rank_insert.induct) auto
    then show ?thesis by (induction xs) (simp_all add: rank_sort_def)
  qed
  then have "mset (map fst ranked) = mset (map fst (author_counts (recent_authors s)))" by (simp add: ranked_def)
  then have "distinct (map fst ranked)" using author_counts_facts(2) mset_eq_imp_distinct_iff by blast
  then have dist: "distinct (map fst reg)" unfolding reg_def by (rule distinct_map_filter)
  have sorted: "sorted_wrt ranks_before reg" unfolding reg_def ranked_def by (rule sorted_wrt_filter [OF rank_sort_sorted])
  have cands: "fst ` set reg = cands"
    using author_counts_facts(1) [of "recent_authors s"] by (force simp: reg_def ranked_def rank_sort_set cands_def)
  have cnt: "n = ?cnt a" if "(a, n) \<in> set reg" for a n
    using that author_counts_facts(3) by (simp add: reg_def ranked_def rank_sort_set)
  have set': "set' = map (\<lambda>a. (the (?keys a), 1)) elected"
    using assms(1) by (simp add: new_authorities_def elect_eq elected_def reg_def ranked_def take_map [symmetric] comp_def)
  have "length reg = card cands" using dist by (metis cands distinct_card length_map list.set_map)
  then have len: "length elected = min k (card cands)" by (simp add: elected_def)
  have d: "distinct elected" using dist by (simp add: elected_def take_map [symmetric])
  have sub: "set elected \<subseteq> cands" using cands set_take_subset [of k reg] by (auto simp: elected_def)
  have best: "?cnt b \<le> ?cnt a \<and> (?cnt a = ?cnt b \<longrightarrow> a \<le> b)" if a: "a \<in> set elected" and b: "b \<in> cands - set elected" for a b
  proof -
    obtain n where n: "(a, n) \<in> set (take k reg)" using a by (auto simp: elected_def)
    obtain m where "(b, m) \<in> set reg" using b cands by force
    moreover have "(b, m) \<notin> set (take k reg)" using b by (force simp: elected_def)
    ultimately have m: "(b, m) \<in> set (drop k reg)" by (metis UnE append_take_drop_id set_append)
    have "ranks_before (a, n) (b, m)"
      using sorted n m by (metis append_take_drop_id sorted_wrt_append)
    moreover have "n = ?cnt a" "m = ?cnt b" using cnt in_set_takeD [OF n] in_set_dropD [OF m] by blast+
    ultimately show ?thesis by (auto simp: ranks_before_def)
  qed
  have "recent_authors s \<noteq> []"
    using assms(1,2) by (auto simp: new_authorities_def author_counts_def rank_sort_def)
  then have rot: "rotate_authorities cfg (s, g) = (election_deposit_event (AuthoritySetRotated (length set' mod 2 ^ 32)) s, g')"
    if "gc_authority_count cfg = k" "gc_schedule_change cfg set' (gc_rotation_delay cfg) g = Some g'"
    using that assms(1,2) by (simp add: rotate_authorities_def Let_def)
  show ?thesis
    by (intro exI [of _ elected] conjI ballI impI d len sub set' rot) (use best in blast)+
qed

definition demo_election :: election_state where
  "demo_election = genesis_election\<lparr>recent_authors := [4, 2, 9, 2, 4, 7], authority_keys := (\<lambda>_. None)(4 \<mapsto> 40, 7 \<mapsto> 70, 9 \<mapsto> 90)\<rparr>"

lemma demo_new_authorities: "new_authorities 2 demo_election = [(40, 1), (70, 1)]"
  by (simp add: new_authorities_def demo_election_def genesis_election_def author_counts_def rank_sort_def ranks_before_def)

definition demo_election_config :: "nat election_config" where
  "demo_election_config = \<lparr>gc_window_size = 6, gc_authority_count = 2, gc_rotation_period = 600,
     gc_rotation_delay = 10, gc_schedule_change = \<lambda>new_set d g. Some (g + length new_set)\<rparr>"

lemma rotation_elects_top_witness:
  "rotate_authorities demo_election_config (demo_election, 0)
     = (election_deposit_event (AuthoritySetRotated 2) demo_election, 2)"
proof -
  have "gc_authority_count demo_election_config = 2"
    "gc_schedule_change demo_election_config [(40, 1), (70, 1)] (gc_rotation_delay demo_election_config) 0 = Some 2"
    by (simp_all add: demo_election_config_def)
  moreover have "length [(40 :: nat, 1 :: nat), (70, 1)] mod 2 ^ 32 = 2" by simp
  ultimately show ?thesis
    using rotation_elects_top [OF demo_new_authorities, of demo_election_config 0 2] by (metis list.distinct(1))
qed

text \<open>Nothing keeps two authors from registering the same key: the set can then hold it twice.\<close>

lemma same_key_elected_twice:
  assumes "register_grandpa_key a key s = Inr s1" "a \<noteq> b" "authority_keys s b = None"
  shows "\<exists>s2. register_grandpa_key b key s1 = Inr s2 \<and> authority_keys s2 a = Some key \<and> authority_keys s2 b = Some key"
  using assms by (auto simp: register_grandpa_key_def result_simps election_deposit_event_def)

end
