(* ===== verification/List_Poly.thy ===== *)
theory List_Poly
  imports Prelude
begin

text \<open>
  Polynomials as coefficient lists over a field, constant term first, and the algebra of
  interpolation: a polynomial with as many roots as coefficients is zero, so values at enough
  distinct points determine it, and Lagrange's formula computes it. The two secret sharing schemes
  of the browser engine rest on these lemmas.
\<close>

named_theorems poly_like_intros \<open>closure of polynomial functions of bounded length\<close>

definition horner :: "'a::comm_ring_1 list \<Rightarrow> 'a \<Rightarrow> 'a" where
  "horner cs x = foldr (\<lambda>c r. r * x + c) cs 0"

lemma horner_simps [simp]: "horner [] x = 0" "horner (c # cs) x = horner cs x * x + c"
  by (simp_all add: horner_def)

lemma horner_zeros: "(\<forall>c \<in> set cs. c = 0) \<Longrightarrow> horner cs x = 0"
  by (induction cs) auto

lemma horner_append: "horner (cs @ ds) x = horner cs x + x ^ length cs * horner ds x"
  by (induction cs) (simp_all add: algebra_simps)

lemma horner_pad [simp]: "horner (cs @ replicate n 0) x = horner cs x"
  by (simp add: horner_append horner_zeros)

lemma horner_update: "k < length cs \<Longrightarrow> horner (cs[k := cs ! k + v]) x = horner cs x + v * x ^ k"
proof (induction cs arbitrary: k)
  case (Cons c cs)
  then show ?case by (cases k) (simp_all add: algebra_simps)
qed simp

lemma horner_map_scale: "horner (map (\<lambda>c. c * s) cs) x = horner cs x * s"
  by (induction cs) (simp_all add: algebra_simps)

lemma horner_at_zero: "horner cs 0 = (case cs of [] \<Rightarrow> 0 | c # _ \<Rightarrow> c)"
  by (cases cs) simp_all

subsection \<open>Roots\<close>

primrec synth_div :: "'a::comm_ring_1 \<Rightarrow> 'a list \<Rightarrow> 'a list" where
  "synth_div a [] = []"
| "synth_div a (c # cs) = (if cs = [] then [] else horner cs a # synth_div a cs)"

lemma synth_div_eval: "horner cs x = horner cs a + (x - a) * horner (synth_div a cs) x"
proof (induction cs)
  case (Cons c cs)
  show ?case
  proof (cases "cs = []")
    case False
    let ?p = "horner cs a" and ?q = "horner (synth_div a cs) x"
    have "horner (c # cs) x = (?p + (x - a) * ?q) * x + c"
      by (simp only: horner_simps Cons.IH [symmetric])
    also have "\<dots> = (?p * a + c) + (x - a) * (?q * x + ?p)"
      by (simp add: algebra_simps)
    finally show ?thesis using False by simp
  qed simp
qed simp

lemma length_synth_div [simp]: "length (synth_div a cs) = length cs - 1"
proof (induction cs)
  case (Cons c cs)
  then show ?case by (cases cs) simp_all
qed simp

lemma synth_div_zero:
  "horner cs a = 0 \<Longrightarrow> \<forall>c \<in> set (synth_div a cs). c = 0 \<Longrightarrow> \<forall>c \<in> set cs. c = 0"
  by (induction cs) (auto split: if_splits)

lemma many_roots_zero:
  fixes cs :: "'a::field list"
  assumes "distinct xs" and "length cs \<le> length xs" and "\<forall>x \<in> set xs. horner cs x = 0"
  shows "\<forall>c \<in> set cs. c = 0"
  using assms
proof (induction xs arbitrary: cs)
  case (Cons x xs)
  have "horner (synth_div x cs) y = 0" if "y \<in> set xs" for y
  proof -
    from that Cons.prems have "y \<noteq> x" "horner cs y = 0" "horner cs x = 0" by auto
    then show ?thesis using synth_div_eval [of cs y x] by simp
  qed
  moreover have "distinct xs" "length (synth_div x cs) \<le> length xs" "horner cs x = 0"
    using Cons.prems by simp_all
  ultimately show ?case by (intro synth_div_zero [of cs x] Cons.IH) simp_all
qed simp

lemma horner_diff:
  "length cs = length ds \<Longrightarrow> horner (map2 (-) cs ds) x = horner cs x - horner ds x"
  by (induction cs ds rule: list_induct2) (simp_all add: left_diff_distrib)

lemma coeffs_unique:
  fixes cs ds :: "'a::field list"
  assumes "distinct xs" and "length cs = length ds" and "length cs \<le> length xs"
    and "\<forall>x \<in> set xs. horner cs x = horner ds x"
  shows "cs = ds"
proof -
  have "\<forall>c \<in> set (map2 (-) cs ds). c = 0"
    by (rule many_roots_zero [OF assms(1)]) (use assms in \<open>simp_all add: horner_diff\<close>)
  moreover have "cs ! i - ds ! i \<in> set (map2 (-) cs ds)" if "i < length cs" for i
    using that assms(2) nth_mem [of i "map2 (-) cs ds"] by (simp del: set_map)
  ultimately have "cs ! i - ds ! i = 0" if "i < length cs" for i
    using that by blast
  then show ?thesis
    using assms(2) by (intro nth_equalityI) simp_all
qed

lemma eval_unique:
  fixes cs ds :: "'a::field list"
  assumes "distinct xs" and "length cs \<le> length xs" and "length ds \<le> length xs"
    and "\<forall>x \<in> set xs. horner cs x = horner ds x"
  shows "horner cs z = horner ds z"
proof -
  let ?p = "\<lambda>cs. cs @ replicate (length xs - length cs) 0"
  have "?p cs = ?p ds"
    by (rule coeffs_unique [OF assms(1)]) (use assms in simp_all)
  then show ?thesis by (metis horner_pad)
qed

subsection \<open>Functions that are polynomials of bounded length\<close>

definition poly_like :: "nat \<Rightarrow> ('a::field \<Rightarrow> 'a) \<Rightarrow> bool" where
  "poly_like n f \<longleftrightarrow> (\<exists>cs. length cs = n \<and> (\<forall>x. f x = horner cs x))"

lemma poly_like_mono: "poly_like m f \<Longrightarrow> m \<le> n \<Longrightarrow> poly_like n f"
  unfolding poly_like_def by (metis horner_pad length_append length_replicate le_add_diff_inverse)

lemma poly_like_const [poly_like_intros]: "poly_like 1 (\<lambda>_. c)"
  unfolding poly_like_def by (rule exI [of _ "[c]"]) simp

lemma poly_like_zero [poly_like_intros]: "poly_like n (\<lambda>_. 0)"
  unfolding poly_like_def by (rule exI [of _ "replicate n 0"]) (simp add: horner_zeros)

lemma poly_like_add [poly_like_intros]:
  assumes "poly_like n f" and "poly_like n g"
  shows "poly_like n (\<lambda>x. f x + g x)"
proof -
  have s: "length cs = length ds \<Longrightarrow> horner (map2 (+) cs ds) x = horner cs x + horner ds x" for cs ds :: "'a list" and x
    by (induction cs ds rule: list_induct2) (simp_all add: algebra_simps)
  from assms obtain cs ds where c: "length cs = n" "\<forall>x. f x = horner cs x"
    and d: "length ds = n" "\<forall>x. g x = horner ds x"
    unfolding poly_like_def by blast
  then have "length (map2 (+) cs ds) = n \<and> (\<forall>x. f x + g x = horner (map2 (+) cs ds) x)"
    by (simp add: s)
  then show ?thesis unfolding poly_like_def by blast
qed

lemma poly_like_scale [poly_like_intros]: "poly_like n f \<Longrightarrow> poly_like n (\<lambda>x. f x * s)"
  unfolding poly_like_def by (metis horner_map_scale length_map)

lemma poly_like_linear [poly_like_intros]:
  assumes "poly_like n f"
  shows "poly_like (Suc n) (\<lambda>x. f x * (x - a))"
proof -
  from assms obtain cs where c: "length cs = n" "\<forall>x. f x = horner cs x"
    unfolding poly_like_def by blast
  have "poly_like (Suc n) (\<lambda>x. f x * x)"
    unfolding poly_like_def by (rule exI [of _ "0 # cs"]) (simp add: c)
  moreover have "poly_like (Suc n) (\<lambda>x. f x * (- a))"
    by (rule poly_like_mono [of n], rule poly_like_scale [OF assms]) simp
  ultimately have "poly_like (Suc n) (\<lambda>x. f x * x + f x * (- a))" by (rule poly_like_add)
  then show ?thesis by (simp add: right_diff_distrib)
qed

lemma poly_like_prod:
  "finite S \<Longrightarrow> poly_like (Suc (card S)) (\<lambda>x. \<Prod>j \<in> S. (x - c j))"
proof (induction S rule: finite_induct)
  case empty
  then show ?case using poly_like_const [of 1] by simp
next
  case (insert a S)
  then show ?case
    using poly_like_linear [OF insert.IH, of "c a"] by (simp add: mult.commute)
qed

lemma poly_like_sum:
  "finite S \<Longrightarrow> (\<And>i. i \<in> S \<Longrightarrow> poly_like n (f i)) \<Longrightarrow> poly_like n (\<lambda>x. \<Sum>i \<in> S. f i x)"
  by (induction S rule: finite_induct) (auto intro: poly_like_intros)

subsection \<open>Lagrange's formula\<close>

definition lagrange_sum :: "(nat \<Rightarrow> 'a::field) \<Rightarrow> (nat \<Rightarrow> 'a) \<Rightarrow> nat \<Rightarrow> 'a \<Rightarrow> 'a" where
  "lagrange_sum xs ys n z =
     (\<Sum>i < n. (\<Prod>j \<in> {..<n} - {i}. (z - xs j)) * (ys i / (\<Prod>j \<in> {..<n} - {i}. (xs i - xs j))))"

lemma lagrange_sum_poly: "poly_like n (lagrange_sum xs ys n)"
proof (cases n)
  case (Suc m)
  have t: "poly_like n (\<lambda>z. (\<Prod>j \<in> {..<n} - {i}. (z - xs j)) * s)" if "i \<in> {..<n}" for i s
  proof (rule poly_like_scale)
    have "Suc (card ({..<n} - {i})) = n" using that Suc by simp
    then show "poly_like n (\<lambda>z. \<Prod>j \<in> {..<n} - {i}. (z - xs j))"
      using poly_like_prod [of "{..<n} - {i}" xs] by simp
  qed
  have "poly_like n (\<lambda>z. \<Sum>i < n. (\<Prod>j \<in> {..<n} - {i}. (z - xs j)) * (ys i / (\<Prod>j \<in> {..<n} - {i}. (xs i - xs j))))"
    by (rule poly_like_sum) (simp, rule t)
  then show ?thesis by (simp only: lagrange_sum_def [abs_def])
qed (simp add: poly_like_def lagrange_sum_def)

lemma lagrange_sum_at:
  assumes "inj_on xs {..<n}" and "k < n"
  shows "lagrange_sum xs ys n (xs k) = ys k"
proof -
  let ?d = "\<lambda>i. \<Prod>j \<in> {..<n} - {i}. (xs i - xs j)"
  have z: "(\<Prod>j \<in> {..<n} - {i}. (xs k - xs j)) = 0" if "i \<noteq> k" for i
    using that assms(2) by (intro prod_zero) auto
  have "?d k \<noteq> 0"
    using assms by (auto simp: inj_on_def)
  then have k: "?d k * (ys k / ?d k) = ys k" by simp
  have "(\<Prod>j \<in> {..<n} - {i}. (xs k - xs j)) * (ys i / ?d i) = (if i = k then ys k else 0)" for i
  proof (cases "i = k")
    case True
    then show ?thesis using k by simp
  qed (simp add: z)
  then have "lagrange_sum xs ys n (xs k) = (\<Sum>i < n. if i = k then ys k else 0)"
    by (simp only: lagrange_sum_def)
  then show ?thesis using assms(2) by simp
qed

theorem lagrange_interpolates:
  fixes cs :: "'a::field list"
  assumes "inj_on xs {..<n}" and "length cs \<le> n" and "\<And>i. i < n \<Longrightarrow> ys i = horner cs (xs i)"
  shows "lagrange_sum xs ys n z = horner cs z"
proof -
  obtain ds where d: "length ds = n" "\<forall>x. lagrange_sum xs ys n x = horner ds x"
    using lagrange_sum_poly unfolding poly_like_def by blast
  have "horner ds z = horner cs z"
  proof (rule eval_unique [of "map xs [0..<n]"])
    show "distinct (map xs [0..<n])" using assms(1) by (simp add: distinct_map atLeast0LessThan)
    have "horner ds (xs i) = horner cs (xs i)" if "i < n" for i
      using that d(2) assms(3) lagrange_sum_at [OF assms(1) that, of ys] by metis
    then show "\<forall>x \<in> set (map xs [0..<n]). horner ds x = horner cs x" by simp
  qed (use d assms(2) in simp_all)
  with d show ?thesis by simp
qed

text \<open>For any values at distinct points there is exactly one list of as many coefficients.\<close>

lemma interpolation_unique:
  fixes xs :: "nat \<Rightarrow> 'a::field"
  assumes "inj_on xs {..<n}"
  shows "\<exists>!cs. length cs = n \<and> (\<forall>i < n. horner cs (xs i) = ys i)"
proof -
  obtain ds where d: "length ds = n" "\<forall>x. lagrange_sum xs ys n x = horner ds x"
    using lagrange_sum_poly unfolding poly_like_def by blast
  show ?thesis
  proof (rule ex1I [of _ ds])
    show "length ds = n \<and> (\<forall>i < n. horner ds (xs i) = ys i)"
      using d lagrange_sum_at [OF assms] by metis
    fix cs assume c: "length cs = n \<and> (\<forall>i < n. horner cs (xs i) = ys i)"
    show "cs = ds"
    proof (rule coeffs_unique [of "map xs [0..<n]"])
      show "distinct (map xs [0..<n])" using assms by (simp add: distinct_map atLeast0LessThan)
      have "horner cs (xs i) = horner ds (xs i)" if "i < n" for i
        using that c d(2) lagrange_sum_at [OF assms that, of ys] by metis
      then show "\<forall>x \<in> set (map xs [0..<n]). horner cs x = horner ds x" by simp
    qed (use c d in simp_all)
  qed
qed

end
