(* ===== verification/Kzg_Encoding.thy ===== *)
theory Kzg_Encoding
  imports Pow List_Poly
begin

text \<open>
  The codecs in front of the verifiable secret sharing of the browser engine
  (\<open>src/packages/wasm-engine/src/kzg/compression.rs\<close> and \<open>kzg/encoding.rs\<close>): the decision whether
  to compress, and data as scalars of 31 bytes. The scalar field is any field \<open>'f\<close> with the
  conversions of the curve library as parameters; gzip is a parameter too.
\<close>

datatype kzg_error = DataTooLarge | KzgInvalidThreshold | SrsNotLoaded | KzgInsufficientShares | KzgInvalidShareIndex
  | DecompressionFailed | InvalidCommitment | InvalidProof | CommitmentMismatch | EncodingError string

subsection \<open>Compression\<close>

text \<open>\<open>gz_encode\<close> and \<open>gz_decode\<close> stand for the gzip streams; \<open>None\<close> is a stream error.\<close>

record gzip =
  gz_encode :: "bytes \<Rightarrow> bytes option"
  gz_decode :: "bytes \<Rightarrow> bytes option"

definition min_compress_size :: nat where "min_compress_size = 256"
definition max_decompressed_size :: nat where "max_decompressed_size = 32 * 1024 * 1024"

definition compress :: "gzip \<Rightarrow> bytes \<Rightarrow> bytes \<times> bool" where
  "compress gz data =
     (if length data < min_compress_size then (data, False)
      else case gz_encode gz data of
          Some compressed \<Rightarrow> (if length compressed < length data then (compressed, True) else (data, False))
        | None \<Rightarrow> (data, False))"

definition decompress :: "gzip \<Rightarrow> bytes \<Rightarrow> (kzg_error, bytes) result" where
  "decompress gz data = ok_or (gz_decode gz data) DecompressionFailed (\<lambda>out.
     ensure (length out \<le> max_decompressed_size) DecompressionFailed (Inr out))"

definition gzip_ok :: "gzip \<Rightarrow> bool" where
  "gzip_ok gz \<longleftrightarrow> (\<forall>d c. gz_encode gz d = Some c \<longrightarrow> gz_decode gz c = Some d)"

lemma compress_roundtrip:
  "gzip_ok gz \<Longrightarrow> length data \<le> max_decompressed_size \<Longrightarrow> compress gz data = (processed, compressed) \<Longrightarrow>
     (if compressed then decompress gz processed else Inr processed) = Inr data"
  by (auto simp: compress_def decompress_def gzip_ok_def split: if_splits option.splits)

lemma compress_nonempty:
  "gzip_ok gz \<Longrightarrow> compress gz data = (processed, compressed) \<Longrightarrow> \<not> compressed \<Longrightarrow> processed = data"
  by (auto simp: compress_def split: if_splits option.splits)

subsection \<open>Scalars\<close>

record 'f scalar_ops =
  fr_from_u64 :: "nat \<Rightarrow> 'f"
  fr_from_le_bytes_mod_order :: "bytes \<Rightarrow> 'f"
  fr_into_bigint :: "'f \<Rightarrow> nat list"

definition bytes_per_scalar :: nat where "bytes_per_scalar = 31"

definition scalar_to_bytes :: "('f, 'm) scalar_ops_scheme \<Rightarrow> 'f \<Rightarrow> bytes" where
  "scalar_to_bytes fr x = take 32 (concat (map (le_bytes 8) (fr_into_bigint fr x)) @ replicate 32 0)"

definition bytes_to_scalar :: "('f, 'm) scalar_ops_scheme \<Rightarrow> bytes \<Rightarrow> 'f" where
  "bytes_to_scalar fr bs = fr_from_le_bytes_mod_order fr bs"

definition num_chunks :: "bytes \<Rightarrow> nat" where
  "num_chunks data = (length data + bytes_per_scalar - 1) div bytes_per_scalar"

definition chunk_of :: "bytes \<Rightarrow> nat \<Rightarrow> bytes" where
  "chunk_of data i =
     (let start = i * bytes_per_scalar; end = min (start + bytes_per_scalar) (length data);
          part = take (end - start) (drop start data)
      in part @ replicate (32 - length part) 0)"

definition encode_to_scalars :: "('f, 'm) scalar_ops_scheme \<Rightarrow> bytes \<Rightarrow> (kzg_error, 'f list) result" where
  "encode_to_scalars fr data =
     ensure (data \<noteq> []) (EncodingError ''Empty data'') (
       Inr (map (\<lambda>i. fr_from_le_bytes_mod_order fr (chunk_of data i)) [0..<num_chunks data]))"

definition decode_from_scalars :: "('f, 'm) scalar_ops_scheme \<Rightarrow> 'f list \<Rightarrow> nat \<Rightarrow> (kzg_error, bytes) result" where
  "decode_from_scalars fr scalars original_len =
     ensure (scalars \<noteq> []) (EncodingError ''No scalars to decode'') (
       Inr (take original_len (concat (map (\<lambda>x. take bytes_per_scalar (scalar_to_bytes fr x)) scalars))))"

text \<open>What the code relies on: small integers are distinct scalars, the bytes of a scalar determine it,
  and (for a given text) the value of each 31-byte chunk is below the order of the field.\<close>

definition scalar_ok :: "('f, 'm) scalar_ops_scheme \<Rightarrow> bool" where
  "scalar_ok fr \<longleftrightarrow> inj_on (fr_from_u64 fr) {0..255}
     \<and> (\<forall>x. fr_from_le_bytes_mod_order fr (scalar_to_bytes fr x) = x)"

definition chunks_fit :: "('f, 'm) scalar_ops_scheme \<Rightarrow> bytes \<Rightarrow> bool" where
  "chunks_fit fr data \<longleftrightarrow> (\<forall>i < num_chunks data.
     scalar_to_bytes fr (fr_from_le_bytes_mod_order fr (chunk_of data i)) = chunk_of data i)"

lemma length_scalar_to_bytes [simp]: "length (scalar_to_bytes fr x) = 32"
  by (simp add: scalar_to_bytes_def)

lemma num_chunks_bounds:
  "data \<noteq> [] \<Longrightarrow> 0 < num_chunks data" "length data \<le> num_chunks data * bytes_per_scalar"
  "i < num_chunks data \<Longrightarrow> i * bytes_per_scalar < length data"
  by (auto simp: num_chunks_def bytes_per_scalar_def less_eq_Suc_le) (simp_all add: div_greater_zero_iff Suc_le_eq)

lemma chunk_payload:
  "i < num_chunks data \<Longrightarrow> take bytes_per_scalar (chunk_of data i)
     = take bytes_per_scalar (drop (i * bytes_per_scalar) data) @ replicate ((i + 1) * bytes_per_scalar - length data) 0"
  using num_chunks_bounds(3) [of i data]
  by (auto simp: chunk_of_def Let_def bytes_per_scalar_def min_def take_replicate)

text \<open>The payloads of the first chunks are the data with zeros behind.\<close>

lemma concat_payloads:
  "n \<le> num_chunks data \<Longrightarrow> concat (map (\<lambda>i. take bytes_per_scalar (chunk_of data i)) [0..<n])
     = take (n * bytes_per_scalar) data @ replicate (n * bytes_per_scalar - length data) 0"
proof (induction n)
  case (Suc n)
  then have lt: "n * bytes_per_scalar < length data" using num_chunks_bounds(3) [of n data] by simp
  have join: "take (n * bytes_per_scalar) data @ take bytes_per_scalar (drop (n * bytes_per_scalar) data)
      = take (Suc n * bytes_per_scalar) data"
    by (simp add: take_add [symmetric] add.commute)
  have "concat (map (\<lambda>i. take bytes_per_scalar (chunk_of data i)) [0..<Suc n])
     = (take (n * bytes_per_scalar) data @ take bytes_per_scalar (drop (n * bytes_per_scalar) data))
        @ replicate (Suc n * bytes_per_scalar - length data) 0"
    using Suc lt by (simp add: chunk_payload)
  then show ?case by (simp only: join)
qed simp

text \<open>Decoding at least the scalars of the data gives the data, whatever follows them.\<close>

lemma decode_encode:
  assumes "encode_to_scalars fr data = Inr scalars" and "chunks_fit fr data"
  shows "decode_from_scalars fr (scalars @ rest) (length data) = Inr data"
proof -
  have sc: "scalars = map (\<lambda>i. fr_from_le_bytes_mod_order fr (chunk_of data i)) [0..<num_chunks data]" and ne: "data \<noteq> []"
    using assms(1) by (auto simp: encode_to_scalars_def result_simps)
  have "map (\<lambda>x. take bytes_per_scalar (scalar_to_bytes fr x)) scalars
      = map (\<lambda>i. take bytes_per_scalar (chunk_of data i)) [0..<num_chunks data]"
    using assms(2) by (simp add: sc chunks_fit_def)
  then have "concat (map (\<lambda>x. take bytes_per_scalar (scalar_to_bytes fr x)) scalars)
      = data @ replicate (num_chunks data * bytes_per_scalar - length data) 0"
    using num_chunks_bounds(2) [of data] by (simp only:) (simp add: concat_payloads)
  moreover have "scalars \<noteq> []" using num_chunks_bounds(1) [OF ne] by (simp add: sc)
  ultimately show ?thesis by (simp add: decode_from_scalars_def)
qed

end
