(* ===== verification/Dense_Poly.thy ===== *)
theory Dense_Poly
  imports Kzg_Encoding
begin

text \<open>
  The polynomial arithmetic of the verifiable secret sharing
  (\<open>src/packages/wasm-engine/src/kzg/vss.rs\<close>, helper functions): sum, product, long division
  and interpolation on \<open>DensePolynomial\<close>. The polynomial type of the algebra library is a
  parameter with the laws its documentation states (\<open>poly_ok\<close>): it drops leading zeros when it
  is built, and evaluates by the usual formula. Long division is a loop that need not end for
  an arbitrary library, so it is a partial function, and that it ends is a theorem.
\<close>

record ('f, 'p) poly_ops = "'f scalar_ops" +
  from_coefficients_vec :: "'f list \<Rightarrow> 'p"
  dp_coeffs :: "'p \<Rightarrow> 'f list"
  dp_is_zero :: "'p \<Rightarrow> bool"
  dp_degree :: "'p \<Rightarrow> nat"
  dp_evaluate :: "'p \<Rightarrow> 'f \<Rightarrow> 'f"

definition trim :: "'f::zero list \<Rightarrow> 'f list" where
  "trim cs = rev (dropWhile (\<lambda>c. c = 0) (rev cs))"

definition poly_ok :: "('f::field, 'p, 'm) poly_ops_scheme \<Rightarrow> bool" where
  "poly_ok P \<longleftrightarrow> (\<forall>cs. dp_coeffs P (from_coefficients_vec P cs) = trim cs)
     \<and> (\<forall>p. dp_is_zero P p \<longleftrightarrow> (\<forall>c \<in> set (dp_coeffs P p). c = 0))
     \<and> (\<forall>p. dp_degree P p = (if dp_is_zero P p then 0 else length (dp_coeffs P p) - 1))
     \<and> (\<forall>p x. dp_evaluate P p x = horner (dp_coeffs P p) x)
     \<and> fr_from_u64 P 1 = 1"

text \<open>A run of code that may fail to return: \<^const>\<open>None\<close> is that it never does.\<close>

type_synonym 'a run = "(kzg_error, 'a) result option"

definition bind_run :: "'a run \<Rightarrow> ('a \<Rightarrow> 'b run) \<Rightarrow> 'b run" where
  "bind_run m k = (case m of None \<Rightarrow> None | Some (Inl e) \<Rightarrow> Some (Inl e) | Some (Inr x) \<Rightarrow> k x)"

lemma bind_run_simps [simp]:
  "bind_run None k = None" "bind_run (Some (Inl e)) k = Some (Inl e)" "bind_run (Some (Inr x)) k = k x"
  by (simp_all add: bind_run_def)

subsection \<open>Operations\<close>

definition field_inverse :: "'f::field \<Rightarrow> 'f option" where
  "field_inverse x = (if x = 0 then None else Some (inverse x))"

definition add_at :: "nat \<Rightarrow> 'f::field list \<Rightarrow> 'f list \<Rightarrow> 'f list" where
  "add_at k cs result = fold (\<lambda>(i, c) r. r[k + i := r ! (k + i) + c]) (enumerate 0 cs) result"

definition multiply_polynomials :: "('f::field, 'p, 'm) poly_ops_scheme \<Rightarrow> 'p \<Rightarrow> 'p \<Rightarrow> 'p" where
  "multiply_polynomials P a b =
     (if dp_is_zero P a \<or> dp_is_zero P b then from_coefficients_vec P []
      else let as = dp_coeffs P a; bs = dp_coeffs P b;
               result = replicate (length as + length bs - 1) 0
           in from_coefficients_vec P
                (fold (\<lambda>(i, ac) r. add_at i (map (\<lambda>bc. ac * bc) bs) r) (enumerate 0 as) result))"

definition add_polynomials :: "('f::field, 'p, 'm) poly_ops_scheme \<Rightarrow> 'p \<Rightarrow> 'p \<Rightarrow> 'p" where
  "add_polynomials P a b =
     (let as = dp_coeffs P a; bs = dp_coeffs P b;
          result = add_at 0 bs (add_at 0 as (replicate (max (length as) (length bs)) 0))
      in from_coefficients_vec P (if trim result = [] then take 1 result else trim result))"

definition basis_polynomial :: "('f::field, 'p, 'm) poly_ops_scheme \<Rightarrow> ('f \<times> 'f) list \<Rightarrow> nat \<Rightarrow> 'p \<times> 'f" where
  "basis_polynomial P points i =
     fold (\<lambda>j (basis, denominator). if i \<noteq> j
         then (multiply_polynomials P basis (from_coefficients_vec P [- fst (points ! j), fr_from_u64 P 1]),
               denominator * (fst (points ! i) - fst (points ! j)))
         else (basis, denominator))
       [0..<length points] (from_coefficients_vec P [fr_from_u64 P 1], fr_from_u64 P 1)"

definition lagrange_term :: "('f::field, 'p, 'm) poly_ops_scheme \<Rightarrow> ('f \<times> 'f) list \<Rightarrow> nat \<Rightarrow> (kzg_error, 'p) result" where
  "lagrange_term P points i =
     (let (basis, denominator) = basis_polynomial P points i
      in ok_or (field_inverse denominator) (EncodingError ''Lagrange basis denominator is zero (duplicate x)'') (\<lambda>denom_inv.
           Inr (from_coefficients_vec P (map (\<lambda>c. c * (snd (points ! i) * denom_inv)) (dp_coeffs P basis)))))"

definition lagrange_interpolate :: "('f::field, 'p, 'm) poly_ops_scheme \<Rightarrow> ('f \<times> 'f) list \<Rightarrow> (kzg_error, 'p) result" where
  "lagrange_interpolate P points =
     ensure (points \<noteq> []) KzgInsufficientShares (
       fold (\<lambda>i acc. bind_ok acc (\<lambda>result. bind_ok (lagrange_term P points i) (\<lambda>term. Inr (add_polynomials P result term))))
         [0..<length points] (Inr (from_coefficients_vec P [0])))"

definition subtract_shifted :: "('f::field, 'p, 'm) poly_ops_scheme \<Rightarrow> 'p \<Rightarrow> 'f \<Rightarrow> nat \<Rightarrow> 'f list \<Rightarrow> 'p" where
  "subtract_shifted P b coeff shift rem =
     (let sub_poly = from_coefficients_vec P (replicate shift 0 @ map (\<lambda>bc. coeff * bc) (dp_coeffs P b));
          new_rem = fold (\<lambda>(i, c) r. if i < length r then r[i := r ! i - c] else r)
                      (enumerate 0 (dp_coeffs P sub_poly)) rem
      in from_coefficients_vec P (trim new_rem))"

partial_function (option) divide_loop
  :: "('f::field, 'p, 'm) poly_ops_scheme \<Rightarrow> 'p \<Rightarrow> 'f \<Rightarrow> 'f list \<Rightarrow> 'p \<Rightarrow> ('f list \<times> 'p) run" where
  "divide_loop P b b_lead_inv quotient_coeffs remainder =
     (if dp_is_zero P remainder \<or> dp_degree P remainder < dp_degree P b
      then Some (Inr (quotient_coeffs, remainder))
      else if dp_coeffs P remainder = []
      then Some (Inl (Err (EncodingError ''Remainder polynomial empty during division'')))
      else let coeff = last (dp_coeffs P remainder) * b_lead_inv;
               shift = dp_degree P remainder - dp_degree P b
           in divide_loop P b b_lead_inv (quotient_coeffs[shift := coeff])
                (subtract_shifted P b coeff shift (dp_coeffs P remainder)))"

definition divide_polynomials :: "('f::field, 'p, 'm) poly_ops_scheme \<Rightarrow> 'p \<Rightarrow> 'p \<Rightarrow> ('p \<times> 'p) run" where
  "divide_polynomials P a b =
     (if dp_is_zero P b then Some (Inl (Err (EncodingError ''Division by zero polynomial'')))
      else if dp_coeffs P b = []
      then Some (Inl (Err (EncodingError ''Divisor polynomial has no leading coefficient'')))
      else case field_inverse (last (dp_coeffs P b)) of
          None \<Rightarrow> Some (Inl (Err (EncodingError ''Divisor leading coefficient has no inverse'')))
        | Some b_lead_inv \<Rightarrow>
            bind_run (divide_loop P b b_lead_inv (replicate (dp_degree P a - dp_degree P b + 1) 0) a)
              (\<lambda>(q, r). Some (Inr (from_coefficients_vec P q, r))))"

definition compute_quotient_polynomial :: "('f::field, 'p, 'm) poly_ops_scheme \<Rightarrow> 'p \<Rightarrow> 'f \<Rightarrow> 'f \<Rightarrow> 'p run" where
  "compute_quotient_polynomial P p point value =
     (let cs = (if dp_coeffs P p = [] then [0] else dp_coeffs P p);
          numerator = from_coefficients_vec P (cs[0 := cs ! 0 - value]);
          divisor = from_coefficients_vec P [- point, fr_from_u64 P 1]
      in bind_run (divide_polynomials P numerator divisor) (\<lambda>(quotient, remainder).
           Some (ensure (dp_is_zero P remainder) (EncodingError ''Quotient division has non-zero remainder'') (Inr quotient))))"

subsection \<open>Leading zeros\<close>

lemma trim_pad: "\<exists>m. cs = trim cs @ replicate m 0"
proof -
  have "rev cs = takeWhile (\<lambda>c. c = 0) (rev cs) @ rev (trim cs)" by (simp add: trim_def)
  moreover have "takeWhile (\<lambda>c. c = 0) (rev cs) = replicate (length (takeWhile (\<lambda>c. c = 0) (rev cs))) 0"
    by (rule replicate_eqI [symmetric, THEN sym]) (auto dest: set_takeWhileD)
  ultimately have "cs = trim cs @ rev (replicate (length (takeWhile (\<lambda>c. c = 0) (rev cs))) 0)"
    by (metis rev_append rev_rev_ident)
  then show ?thesis by (metis rev_replicate)
qed

lemma horner_trim [simp]: "horner (trim cs) x = horner cs x"
  using trim_pad [of cs] by (metis horner_pad)

lemma length_trim_le: "length (trim cs) \<le> length cs"
  unfolding trim_def by (metis length_dropWhile_le length_rev)

lemma last_trim: "trim cs \<noteq> [] \<Longrightarrow> last (trim cs) \<noteq> 0"
  unfolding trim_def last_rev rev_is_Nil_conv by (rule hd_dropWhile)

lemma trim_Nil_iff: "trim cs = [] \<longleftrightarrow> (\<forall>c \<in> set cs. c = 0)"
  by (simp add: trim_def)

lemma trim_id: "cs = [] \<or> last cs \<noteq> 0 \<Longrightarrow> trim cs = cs"
  by (cases cs rule: rev_cases) (auto simp: trim_def)

lemma trim_trim [simp]: "trim (trim cs) = trim cs"
  using last_trim by (blast intro: trim_id)

lemma trim_append_zeros [simp]: "trim (cs @ replicate m 0) = trim cs"
proof -
  have "dropWhile (\<lambda>c. c = 0) (replicate m 0 @ ds) = dropWhile (\<lambda>c. c = 0) ds" for ds :: "'a list"
    by (induction m) simp_all
  then show ?thesis by (simp add: trim_def)
qed

lemma trim_shorter: "cs \<noteq> [] \<Longrightarrow> last cs = 0 \<Longrightarrow> length (trim cs) < length cs"
proof (cases cs rule: rev_cases)
  case (snoc ds d)
  moreover assume "last cs = 0"
  ultimately show ?thesis using length_dropWhile_le [of "\<lambda>c. c = 0" "rev ds"] by (simp add: trim_def)
qed simp

text \<open>Lists of coefficients that agree at enough points are the same polynomial.\<close>

lemma trim_unique:
  fixes cs ds :: "'a::field list"
  assumes "distinct xs" and "length cs \<le> length xs" and "length ds \<le> length xs"
    and "\<forall>x \<in> set xs. horner cs x = horner ds x"
  shows "trim cs = trim ds"
proof -
  let ?p = "\<lambda>cs. cs @ replicate (length xs - length cs) 0"
  have "?p cs = ?p ds" by (rule coeffs_unique [of xs]) (use assms in simp_all)
  then show ?thesis by (metis trim_append_zeros)
qed

subsection \<open>The laws of the arithmetic\<close>

lemma poly_okD:
  assumes "poly_ok P"
  shows "dp_coeffs P (from_coefficients_vec P cs) = trim cs"
    and "dp_is_zero P p \<longleftrightarrow> (\<forall>c \<in> set (dp_coeffs P p). c = 0)"
    and "dp_degree P p = (if dp_is_zero P p then 0 else length (dp_coeffs P p) - 1)"
    and "dp_evaluate P p x = horner (dp_coeffs P p) x"
    and "fr_from_u64 P 1 = 1" and "fr_from_u64 P (Suc 0) = 1"
  using assms by (simp_all add: poly_ok_def)

lemma horner_map_scale_left: "horner (map (\<lambda>c. s * c) cs) x = s * horner cs x"
  by (induction cs) (simp_all add: algebra_simps)

lemma fold_add_at:
  "k + m + length cs \<le> length r \<Longrightarrow>
   length (fold (\<lambda>(i, c) r. r[k + i := r ! (k + i) + c]) (enumerate m cs) r) = length r
   \<and> horner (fold (\<lambda>(i, c) r. r[k + i := r ! (k + i) + c]) (enumerate m cs) r) x = horner r x + x ^ (k + m) * horner cs x"
proof (induction cs arbitrary: m r)
  case (Cons c cs)
  let ?r = "r[k + m := r ! (k + m) + c]"
  have "horner ?r x = horner r x + c * x ^ (k + m)" using Cons.prems by (intro horner_update) simp
  with Cons.IH [of "Suc m" ?r] Cons.prems show ?case by (simp add: algebra_simps)
qed simp

lemma add_at_laws:
  assumes "k + length cs \<le> length r"
  shows "length (add_at k cs r) = length r" and "horner (add_at k cs r) x = horner r x + x ^ k * horner cs x"
  using fold_add_at [of k 0 cs r x] assms by (simp_all add: add_at_def)

lemma fold_products:
  "m + length as + length bs \<le> Suc (length r) \<Longrightarrow>
   length (fold (\<lambda>(i, ac) r. add_at i (map (\<lambda>bc. ac * bc) bs) r) (enumerate m as) r) = length r
   \<and> horner (fold (\<lambda>(i, ac) r. add_at i (map (\<lambda>bc. ac * bc) bs) r) (enumerate m as) r) x
      = horner r x + x ^ m * horner as x * horner bs x"
proof (induction as arbitrary: m r)
  case (Cons a as)
  let ?r = "add_at m (map (\<lambda>bc. a * bc) bs) r"
  have "horner (map (\<lambda>bc. a * bc) bs) x = a * horner bs x" by (rule horner_map_scale_left)
  then have "length ?r = length r" "horner ?r x = horner r x + x ^ m * (a * horner bs x)"
    using Cons.prems by (simp_all add: add_at_laws)
  note r = this
  let ?S = "fold (\<lambda>(i, ac) r. add_at i (map (\<lambda>bc. ac * bc) bs) r) (enumerate (Suc m) as) ?r"
  have "length ?S = length ?r \<and> horner ?S x = horner ?r x + x ^ Suc m * horner as x * horner bs x"
    by (rule Cons.IH) (use Cons.prems r(1) in simp)
  then have "length ?S = length r \<and> horner ?S x = horner r x + x ^ m * (a * horner bs x) + x ^ Suc m * horner as x * horner bs x"
    by (simp only: r)
  moreover have "h + X * (a * b) + X * x * H * b = h + X * (H * x + a) * b" for h X b H :: 'a
    by (simp add: algebra_simps)
  ultimately show ?case by (simp add: mult.commute [of x])
qed simp

lemma multiply_eval:
  assumes "poly_ok P"
  shows "horner (dp_coeffs P (multiply_polynomials P a b)) x = horner (dp_coeffs P a) x * horner (dp_coeffs P b) x"
proof (cases "dp_is_zero P a \<or> dp_is_zero P b")
  case True
  then have "horner (dp_coeffs P a) x = 0 \<or> horner (dp_coeffs P b) x = 0"
    using poly_okD(2) [OF assms] horner_zeros by blast
  then show ?thesis using True by (auto simp: multiply_polynomials_def poly_okD [OF assms] horner_def trim_def)
next
  case False
  let ?l = "length (dp_coeffs P a) + length (dp_coeffs P b)"
  have "0 < length (dp_coeffs P a)" using False by (auto simp: poly_okD(2) [OF assms])
  then have "0 + ?l \<le> Suc (length (replicate (?l - 1) (0 :: 'a)))" by simp
  from fold_products [of 0 "dp_coeffs P a" "dp_coeffs P b" "replicate (?l - 1) 0" x] this False show ?thesis
    by (simp add: multiply_polynomials_def poly_okD(1) [OF assms] Let_def horner_zeros)
qed

lemma multiply_length:
  assumes "poly_ok P"
  shows "length (dp_coeffs P (multiply_polynomials P a b)) \<le> length (dp_coeffs P a) + length (dp_coeffs P b) - 1"
proof (cases "dp_is_zero P a \<or> dp_is_zero P b")
  case True
  then show ?thesis by (simp add: multiply_polynomials_def poly_okD(1) [OF assms] trim_def)
next
  case False
  let ?l = "length (dp_coeffs P a) + length (dp_coeffs P b)"
  have "0 < length (dp_coeffs P a)" using False by (auto simp: poly_okD(2) [OF assms])
  then have "0 + ?l \<le> Suc (length (replicate (?l - 1) (0 :: 'a)))" by simp
  from fold_products [of 0 "dp_coeffs P a" "dp_coeffs P b" "replicate (?l - 1) 0" undefined] this False show ?thesis
    by (simp add: multiply_polynomials_def poly_okD(1) [OF assms] Let_def) (metis length_trim_le)
qed

lemma add_laws:
  assumes "poly_ok P"
  shows "horner (dp_coeffs P (add_polynomials P a b)) x = horner (dp_coeffs P a) x + horner (dp_coeffs P b) x"
    and "length (dp_coeffs P (add_polynomials P a b)) \<le> max (length (dp_coeffs P a)) (length (dp_coeffs P b))"
proof -
  let ?as = "dp_coeffs P a" and ?bs = "dp_coeffs P b"
  let ?z = "replicate (max (length ?as) (length ?bs)) (0 :: 'a)"
  let ?r = "add_at 0 ?bs (add_at 0 ?as ?z)"
  have l: "length ?r = max (length ?as) (length ?bs)" by (simp add: add_at_laws)
  have h: "horner ?r x = horner ?as x + horner ?bs x" by (simp add: add_at_laws horner_zeros)
  have c: "dp_coeffs P (add_polynomials P a b) = trim ?r"
  proof (cases "trim ?r = []")
    case True
    then have "\<forall>c \<in> set (take 1 ?r). c = 0" using trim_Nil_iff [of ?r] in_set_takeD by fast
    then show ?thesis using True trim_Nil_iff [of "take 1 ?r"]
      by (simp add: add_polynomials_def poly_okD(1) [OF assms] Let_def)
  qed (simp add: add_polynomials_def poly_okD(1) [OF assms] Let_def)
  show "horner (dp_coeffs P (add_polynomials P a b)) x = horner ?as x + horner ?bs x" using c h by simp
  show "length (dp_coeffs P (add_polynomials P a b)) \<le> max (length ?as) (length ?bs)"
    using c l length_trim_le [of ?r] by simp
qed

subsection \<open>Long division\<close>

lemma fold_subtract:
  "m + length cs \<le> length r \<Longrightarrow>
   length (fold (\<lambda>(i, c) r. if i < length r then r[i := r ! i - c] else r) (enumerate m cs) r) = length r
   \<and> horner (fold (\<lambda>(i, c) r. if i < length r then r[i := r ! i - c] else r) (enumerate m cs) r) x
      = horner r x - x ^ m * horner cs x
   \<and> (\<forall>j < length r. fold (\<lambda>(i, c) r. if i < length r then r[i := r ! i - c] else r) (enumerate m cs) r ! j
      = (if m \<le> j \<and> j < m + length cs then r ! j - cs ! (j - m) else r ! j))"
proof (induction cs arbitrary: m r)
  case (Cons c cs)
  let ?r = "r[m := r ! m - c]"
  have "horner ?r x = horner r x - c * x ^ m"
    using horner_update [of m r "- c" x] Cons.prems by simp
  then show ?case using Cons.IH [of "Suc m" ?r] Cons.prems
    by (auto simp: algebra_simps nth_Cons' nth_list_update)
qed auto

lemma subtract_shifted_laws:
  fixes P :: "('f::field, 'p, 'm) poly_ops_scheme"
  assumes "poly_ok P" and b: "dp_coeffs P b \<noteq> []" "last (dp_coeffs P b) \<noteq> 0"
    and rem: "rem \<noteq> []" "length rem = shift + length (dp_coeffs P b)" and "coeff = last rem * inverse (last (dp_coeffs P b))"
  shows "length (dp_coeffs P (subtract_shifted P b coeff shift rem)) < length rem"
    and "horner (dp_coeffs P (subtract_shifted P b coeff shift rem)) x
       = horner rem x - coeff * x ^ shift * horner (dp_coeffs P b) x"
proof -
  let ?bs = "dp_coeffs P b"
  define sub where "sub = trim (replicate shift 0 @ map (\<lambda>bc. coeff * bc) ?bs)"
  define new where "new = fold (\<lambda>(i, c) r. if i < length r then r[i := r ! i - c] else r) (enumerate 0 sub) rem"
  have c: "dp_coeffs P (subtract_shifted P b coeff shift rem) = trim new"
    by (simp add: subtract_shifted_def Let_def new_def sub_def poly_okD(1) [OF assms(1)])
  have "length sub \<le> length (replicate shift 0 @ map (\<lambda>bc. coeff * bc) ?bs)"
    unfolding sub_def by (rule length_trim_le)
  then have "0 + length sub \<le> length rem" using rem by simp
  note f = fold_subtract [OF this, of x, folded new_def]
  have "horner sub x = coeff * x ^ shift * horner ?bs x"
    by (simp add: sub_def horner_append horner_zeros horner_map_scale_left)
  then show "horner (dp_coeffs P (subtract_shifted P b coeff shift rem)) x
       = horner rem x - coeff * x ^ shift * horner ?bs x" using f c by simp
  have lt: "length rem - 1 < length rem" using rem(1) by simp
  have top: "new ! (length rem - 1) = 0"
  proof (cases "coeff = 0")
    case True
    then have "sub = []" by (auto simp: sub_def trim_Nil_iff)
    moreover have "last rem = 0" using True assms(6) b by simp
    ultimately show ?thesis using rem by (simp add: new_def last_conv_nth)
  next
    case False
    then have s: "sub = replicate shift 0 @ map (\<lambda>bc. coeff * bc) ?bs"
      unfolding sub_def using b by (intro trim_id) (simp add: last_map)
    then have ls: "length sub = length rem" using rem by simp
    have "last sub = coeff * last ?bs" using b by (simp add: s last_map)
    then have "last sub = last rem" using assms(6) b by simp
    moreover have "sub \<noteq> []" using ls rem by auto
    ultimately have "sub ! (length rem - 1) = rem ! (length rem - 1)"
      using ls rem(1) by (metis last_conv_nth)
    moreover note ls
    ultimately show ?thesis using f lt by simp
  qed
  have "length new = length rem" using f by blast
  moreover have "new \<noteq> []" using rem \<open>length new = length rem\<close> by auto
  moreover have "last new = 0"
    using top \<open>length new = length rem\<close> \<open>new \<noteq> []\<close> by (metis last_conv_nth)
  ultimately show "length (dp_coeffs P (subtract_shifted P b coeff shift rem)) < length rem"
    unfolding c by (metis trim_shorter)
qed

text \<open>The loop ends, keeps \<open>q * b + r\<close>, and its remainder is smaller than the divisor.\<close>

lemma divide_loop_laws:
  fixes P :: "('f::field, 'p, 'm) poly_ops_scheme"
  assumes "poly_ok P" and b: "dp_coeffs P b \<noteq> []" "last (dp_coeffs P b) \<noteq> 0"
    and "length (dp_coeffs P r) < length q + length (dp_coeffs P b)"
    and "\<And>i. i < length q \<Longrightarrow> i + length (dp_coeffs P b) \<le> length (dp_coeffs P r) \<Longrightarrow> q ! i = 0"
  shows "\<exists>q' r'. divide_loop P b (inverse (last (dp_coeffs P b))) q r = Some (Inr (q', r'))
     \<and> length q' = length q
     \<and> (\<forall>x. horner q' x * horner (dp_coeffs P b) x + horner (dp_coeffs P r') x
            = horner q x * horner (dp_coeffs P b) x + horner (dp_coeffs P r) x)
     \<and> (dp_is_zero P r' \<or> dp_degree P r' < dp_degree P b)"
  using assms(4,5)
proof (induction "length (dp_coeffs P r)" arbitrary: q r rule: less_induct)
  case less
  let ?bs = "dp_coeffs P b" and ?rs = "dp_coeffs P r" and ?i = "inverse (last (dp_coeffs P b))"
  have bz: "\<not> dp_is_zero P b" using b poly_okD(2) [OF assms(1)] by (metis last_in_set)
  then have degb: "dp_degree P b = length ?bs - 1" by (simp add: poly_okD(3) [OF assms(1)])
  show ?case
  proof (cases "dp_is_zero P r \<or> dp_degree P r < dp_degree P b")
    case True
    then show ?thesis by (subst divide_loop.simps) simp
  next
    case False
    then have ne: "?rs \<noteq> []" and degr: "dp_degree P r = length ?rs - 1"
      using poly_okD(2) [OF assms(1), of r] poly_okD(3) [OF assms(1), of r] by auto
    then have "length ?bs - 1 \<le> length ?rs - 1" and "0 < length ?rs" using False degb by simp_all
    then have le: "length ?bs \<le> length ?rs" by linarith
    define shift where "shift = dp_degree P r - dp_degree P b"
    define coeff where "coeff = last ?rs * ?i"
    have "0 < length ?bs" using b by simp
    then have len: "length ?rs = shift + length ?bs" using le degb degr unfolding shift_def by linarith
    let ?r = "subtract_shifted P b coeff shift ?rs" and ?q = "q[shift := coeff]"
    note s = subtract_shifted_laws [OF assms(1) b ne len coeff_def]
    have sq: "shift < length q" and q0: "q ! shift = 0" using less.prems len by auto
    have "\<And>i. i < length ?q \<Longrightarrow> i + length ?bs \<le> length (dp_coeffs P ?r) \<Longrightarrow> ?q ! i = 0"
      using s(1) len less.prems(2) by (simp add: nth_list_update)
    moreover have "length (dp_coeffs P ?r) < length ?q + length ?bs" using s(1) less.prems(1) by simp
    ultimately obtain q' r' where ih: "divide_loop P b ?i ?q ?r = Some (Inr (q', r'))" "length q' = length ?q"
        "\<forall>x. horner q' x * horner ?bs x + horner (dp_coeffs P r') x
            = horner ?q x * horner ?bs x + horner (dp_coeffs P ?r) x"
        "dp_is_zero P r' \<or> dp_degree P r' < dp_degree P b"
      using less.hyps [OF s(1)] by blast
    have "horner ?q x = horner q x + coeff * x ^ shift" for x
      using horner_update [OF sq, of coeff x] q0 by simp
    then have "horner ?q x * horner ?bs x + horner (dp_coeffs P ?r) x
        = horner q x * horner ?bs x + horner ?rs x" for x
      by (simp add: s(2) algebra_simps)
    moreover have "divide_loop P b ?i q r = divide_loop P b ?i ?q ?r"
      using False ne by (subst divide_loop.simps) (simp add: shift_def coeff_def Let_def)
    ultimately show ?thesis using ih by auto
  qed
qed

lemma trim_monic [simp]: "trim [a, 1 :: 'f::field] = [a, 1]"
  by (simp add: trim_def)

lemma divide_polynomials_laws:
  fixes P :: "('f::field, 'p, 'm) poly_ops_scheme"
  assumes "poly_ok P" and "dp_coeffs P b \<noteq> []" and "last (dp_coeffs P b) \<noteq> 0"
  shows "\<exists>q r. divide_polynomials P a b = Some (Inr (q, r))
     \<and> (\<forall>x. dp_evaluate P a x = dp_evaluate P q x * dp_evaluate P b x + dp_evaluate P r x)
     \<and> (dp_is_zero P r \<or> dp_degree P r < dp_degree P b)
     \<and> length (dp_coeffs P q) \<le> dp_degree P a - dp_degree P b + 1"
proof -
  let ?q = "replicate (dp_degree P a - dp_degree P b + 1) (0 :: 'f)" and ?bs = "dp_coeffs P b"
  have bz: "\<not> dp_is_zero P b" using assms(2,3) poly_okD(2) [OF assms(1)] by (metis last_in_set)
  have "\<exists>q' r'. divide_loop P b (inverse (last ?bs)) ?q a = Some (Inr (q', r')) \<and> length q' = length ?q
     \<and> (\<forall>x. horner q' x * horner ?bs x + horner (dp_coeffs P r') x = horner ?q x * horner ?bs x + horner (dp_coeffs P a) x)
     \<and> (dp_is_zero P r' \<or> dp_degree P r' < dp_degree P b)"
  proof (cases "dp_is_zero P a")
    case True
    then show ?thesis by (subst divide_loop.simps) simp
  next
    case False
    have "0 < length ?bs" using assms(2) by simp
    moreover have "dp_degree P b = length ?bs - 1" "dp_degree P a = length (dp_coeffs P a) - 1"
      using bz False by (simp_all add: poly_okD(3) [OF assms(1)])
    ultimately have "length (dp_coeffs P a) < length ?q + length ?bs" unfolding length_replicate by linarith
    then show ?thesis by (rule divide_loop_laws [OF assms]) (simp only: length_replicate nth_replicate)
  qed
  then obtain q' r' where l: "divide_loop P b (inverse (last ?bs)) ?q a = Some (Inr (q', r'))"
      "length q' = length ?q"
      "\<forall>x. horner q' x * horner ?bs x + horner (dp_coeffs P r') x = horner ?q x * horner ?bs x + horner (dp_coeffs P a) x"
      "dp_is_zero P r' \<or> dp_degree P r' < dp_degree P b"
    by blast
  have "length (dp_coeffs P (from_coefficients_vec P q')) \<le> dp_degree P a - dp_degree P b + 1"
    using l(2) length_trim_le [of q'] by (simp add: poly_okD(1) [OF assms(1)])
  with l show ?thesis using bz assms(2,3)
    by (simp add: divide_polynomials_def field_inverse_def poly_okD [OF assms(1)] horner_zeros del: replicate_Suc)
qed

text \<open>
  The quotient of \<open>f - y\<close> by \<open>X - x\<close> exists exactly when \<open>f x = y\<close>, and then it is the quotient.
\<close>

lemma quotient_laws:
  fixes P :: "('f::field, 'p, 'm) poly_ops_scheme"
  assumes "poly_ok P"
  shows "dp_evaluate P p x = y \<Longrightarrow> \<exists>q. compute_quotient_polynomial P p x y = Some (Inr q)
      \<and> (\<forall>z. dp_evaluate P p z - y = dp_evaluate P q z * (z - x))
      \<and> length (dp_coeffs P q) \<le> max 1 (length (dp_coeffs P p))"
    and "dp_evaluate P p x \<noteq> y \<Longrightarrow> compute_quotient_polynomial P p x y
      = Some (Inl (Err (EncodingError ''Quotient division has non-zero remainder'')))"
proof -
  define cs where "cs = (if dp_coeffs P p = [] then [0] else dp_coeffs P p)"
  let ?num = "from_coefficients_vec P (cs[0 := cs ! 0 - y])" and ?div = "from_coefficients_vec P [- x, 1 :: 'f]"
  have d: "dp_coeffs P ?div = [- x, 1]" by (simp add: poly_okD(1) [OF assms])
  have "cs \<noteq> []" by (simp add: cs_def)
  then have "horner (cs[0 := cs ! 0 - y]) z = horner cs z - y" for z
    using horner_update [of 0 cs "- y" z] by simp
  moreover have "horner cs z = dp_evaluate P p z" for z by (simp add: cs_def poly_okD(4) [OF assms])
  ultimately have num: "dp_evaluate P ?num z = dp_evaluate P p z - y" for z
    by (simp add: poly_okD(1,4) [OF assms])
  obtain q r where qr: "divide_polynomials P ?num ?div = Some (Inr (q, r))"
      "\<forall>z. dp_evaluate P ?num z = dp_evaluate P q z * dp_evaluate P ?div z + dp_evaluate P r z"
      "dp_is_zero P r \<or> dp_degree P r < dp_degree P ?div"
      "length (dp_coeffs P q) \<le> dp_degree P ?num - dp_degree P ?div + 1"
    using divide_polynomials_laws [OF assms, of ?div ?num] d by auto
  have degd: "dp_degree P ?div = 1" using poly_okD(2,3) [OF assms, of ?div] d by simp
  have divx: "dp_evaluate P ?div z = z - x" for z using poly_okD(4) [OF assms] d by simp
  have const: "dp_evaluate P r z = dp_evaluate P p x - y" for z
  proof -
    have "\<exists>c. \<forall>z. dp_evaluate P r z = c"
    proof (cases "dp_is_zero P r")
      case True
      then show ?thesis using poly_okD(2) [OF assms, of r] by (simp add: poly_okD(4) [OF assms] horner_zeros)
    next
      case False
      then have "length (dp_coeffs P r) - 1 < 1" using qr(3) degd poly_okD(3) [OF assms, of r] by simp
      then have "length (dp_coeffs P r) = 0 \<or> length (dp_coeffs P r) = 1" by linarith
      then show ?thesis by (auto simp: poly_okD(4) [OF assms] length_Suc_conv)
    qed
    then obtain c where "\<forall>z. dp_evaluate P r z = c" by blast
    moreover have "dp_evaluate P r x = dp_evaluate P p x - y" using qr(2) num divx by (metis add_0 diff_self mult_zero_right)
    ultimately show ?thesis by metis
  qed
  have zero_iff: "dp_is_zero P r \<longleftrightarrow> dp_evaluate P p x = y"
  proof
    assume "dp_is_zero P r"
    then have "dp_evaluate P r x = 0" using poly_okD(2) [OF assms, of r] by (simp add: poly_okD(4) [OF assms] horner_zeros)
    then show "dp_evaluate P p x = y" using const by simp
  next
    assume "dp_evaluate P p x = y"
    then have z: "horner (dp_coeffs P r) z = 0" for z using const by (simp add: poly_okD(4) [OF assms])
    show "dp_is_zero P r"
    proof (rule ccontr)
      assume nz: "\<not> dp_is_zero P r"
      then have "length (dp_coeffs P r) - 1 < 1" using qr(3) degd poly_okD(3) [OF assms, of r] by simp
      then have "length (dp_coeffs P r) = 0 \<or> length (dp_coeffs P r) = 1" by linarith
      then have "\<forall>c \<in> set (dp_coeffs P r). c = 0" using z by (auto simp: length_Suc_conv)
      then show False using nz poly_okD(2) [OF assms] by blast
    qed
  qed
  have c: "compute_quotient_polynomial P p x y
      = Some (ensure (dp_is_zero P r) (EncodingError ''Quotient division has non-zero remainder'') (Inr q))"
    using qr(1) by (simp add: compute_quotient_polynomial_def poly_okD(6) [OF assms] cs_def [symmetric])
  show "dp_evaluate P p x \<noteq> y \<Longrightarrow> compute_quotient_polynomial P p x y
      = Some (Inl (Err (EncodingError ''Quotient division has non-zero remainder'')))"
    using c zero_iff by simp
  have "dp_degree P ?num \<le> length cs - 1"
    using poly_okD(3) [OF assms, of ?num] length_trim_le [of "cs[0 := cs ! 0 - y]"] by (simp add: poly_okD(1) [OF assms] diff_le_mono)
  then have "length (dp_coeffs P q) \<le> max 1 (length (dp_coeffs P p))"
    using qr(4) degd by (auto simp: cs_def split: if_splits)
  then show "dp_evaluate P p x = y \<Longrightarrow> \<exists>q. compute_quotient_polynomial P p x y = Some (Inr q)
      \<and> (\<forall>z. dp_evaluate P p z - y = dp_evaluate P q z * (z - x))
      \<and> length (dp_coeffs P q) \<le> max 1 (length (dp_coeffs P p))"
    using c zero_iff qr(2) num divx const by auto
qed

subsection \<open>Interpolation\<close>

lemma basis_laws:
  fixes P :: "('f::field, 'p, 'm) poly_ops_scheme"
  assumes "poly_ok P" and "basis_polynomial P points i = (basis, denominator)" and "i < length points"
  shows "dp_evaluate P basis x = (\<Prod>j \<in> {..<length points} - {i}. (x - fst (points ! j)))"
    and "denominator = (\<Prod>j \<in> {..<length points} - {i}. (fst (points ! i) - fst (points ! j)))"
    and "length (dp_coeffs P basis) \<le> length points"
proof -
  define step where "step = (\<lambda>j (basis, denominator). if i \<noteq> j
         then (multiply_polynomials P basis (from_coefficients_vec P [- fst (points ! j), fr_from_u64 P 1]),
               denominator * (fst (points ! i) - fst (points ! j)))
         else (basis, denominator :: 'f))"
  have inv: "\<exists>b. fold step [0..<m] (from_coefficients_vec P [fr_from_u64 P 1], fr_from_u64 P 1)
       = (b, \<Prod>j \<in> {..<m} - {i}. (fst (points ! i) - fst (points ! j)))
     \<and> (\<forall>x. dp_evaluate P b x = (\<Prod>j \<in> {..<m} - {i}. (x - fst (points ! j))))
     \<and> length (dp_coeffs P b) \<le> Suc (card ({..<m} - {i}))" for m
  proof (induction m)
    case 0
    then show ?case by (simp add: poly_okD [OF assms(1)] poly_okD(6) [OF assms(1)] trim_def)
  next
    case (Suc m)
    have S: "{..<Suc m} - {i} = (if i = m then {..<m} - {i} else insert m ({..<m} - {i}))" by auto
    from Suc obtain b where b: "fold step [0..<m] (from_coefficients_vec P [fr_from_u64 P 1], fr_from_u64 P 1)
         = (b, \<Prod>j \<in> {..<m} - {i}. (fst (points ! i) - fst (points ! j)))"
        "\<forall>x. dp_evaluate P b x = (\<Prod>j \<in> {..<m} - {i}. (x - fst (points ! j)))"
        "length (dp_coeffs P b) \<le> Suc (card ({..<m} - {i}))" by blast
    let ?f = "from_coefficients_vec P [- fst (points ! m), 1 :: 'f]"
    have f: "dp_coeffs P ?f = [- fst (points ! m), 1]" by (simp add: poly_okD(1) [OF assms(1)])
    have "length (dp_coeffs P (multiply_polynomials P b ?f)) \<le> Suc (length (dp_coeffs P b))"
      using multiply_length [OF assms(1), of b ?f] by (simp add: f)
    moreover have "dp_evaluate P (multiply_polynomials P b ?f) x = dp_evaluate P b x * (x - fst (points ! m))" for x
      by (simp add: poly_okD(4) [OF assms(1)] multiply_eval [OF assms(1)] f)
    ultimately show ?case using b
      by (auto simp: step_def S poly_okD(6) [OF assms(1)] mult.commute)
  qed
  have "basis_polynomial P points i = fold step [0..<length points] (from_coefficients_vec P [fr_from_u64 P 1], fr_from_u64 P 1)"
    by (simp add: basis_polynomial_def step_def)
  moreover have "Suc (card ({..<length points} - {i})) = length points" using assms(3) by simp
  ultimately show "dp_evaluate P basis x = (\<Prod>j \<in> {..<length points} - {i}. (x - fst (points ! j)))"
    and "denominator = (\<Prod>j \<in> {..<length points} - {i}. (fst (points ! i) - fst (points ! j)))"
    and "length (dp_coeffs P basis) \<le> length points"
    using inv [of "length points"] assms(2) by auto
qed

lemma lagrange_term_laws:
  fixes P :: "('f::field, 'p, 'm) poly_ops_scheme"
  assumes "poly_ok P" and "distinct (map fst points)" and "i < length points"
  shows "\<exists>t. lagrange_term P points i = Inr t \<and> length (dp_coeffs P t) \<le> length points
     \<and> (\<forall>x. dp_evaluate P t x = (\<Prod>j \<in> {..<length points} - {i}. (x - fst (points ! j)))
          * (snd (points ! i) / (\<Prod>j \<in> {..<length points} - {i}. (fst (points ! i) - fst (points ! j)))))"
proof -
  obtain b d where bd: "basis_polynomial P points i = (b, d)" by fastforce
  note l = basis_laws [OF assms(1) bd assms(3)]
  have "fst (points ! i) \<noteq> fst (points ! j)" if "j < length points" "j \<noteq> i" for j
    using nth_eq_iff_index_eq [OF assms(2), of i j] that assms(3) by simp
  then have "d \<noteq> 0" unfolding l(2) by auto
  moreover have "length (trim (map (\<lambda>c. c * (snd (points ! i) * inverse d)) (dp_coeffs P b))) \<le> length points"
    using l(3) length_trim_le [of "map (\<lambda>c. c * (snd (points ! i) * inverse d)) (dp_coeffs P b)"] by simp
  ultimately show ?thesis using bd l(1) l(2) [symmetric]
    by (simp add: lagrange_term_def field_inverse_def poly_okD(1,4) [OF assms(1)] horner_map_scale divide_inverse)
qed

text \<open>Interpolation at distinct points returns Lagrange's polynomial, with no leading zero.\<close>

lemma lagrange_interpolate_laws:
  fixes P :: "('f::field, 'p, 'm) poly_ops_scheme"
  assumes "poly_ok P" and "distinct (map fst points)" and "points \<noteq> []"
  shows "\<exists>p. lagrange_interpolate P points = Inr p \<and> length (dp_coeffs P p) \<le> length points
     \<and> trim (dp_coeffs P p) = dp_coeffs P p
     \<and> (\<forall>x. dp_evaluate P p x = lagrange_sum (\<lambda>i. fst (points ! i)) (\<lambda>i. snd (points ! i)) (length points) x)"
proof -
  let ?t = "\<lambda>i x. (\<Prod>j \<in> {..<length points} - {i}. (x - fst (points ! j)))
          * (snd (points ! i) / (\<Prod>j \<in> {..<length points} - {i}. (fst (points ! i) - fst (points ! j))))"
  have "m \<le> length points \<Longrightarrow> \<exists>p. fold (\<lambda>i acc. bind_ok acc (\<lambda>result. bind_ok (lagrange_term P points i) (\<lambda>term. Inr (add_polynomials P result term))))
       [0..<m] (Inr (from_coefficients_vec P [0])) = Inr p \<and> length (dp_coeffs P p) \<le> length points
     \<and> trim (dp_coeffs P p) = dp_coeffs P p
     \<and> (\<forall>x. dp_evaluate P p x = (\<Sum>i < m. ?t i x))" for m
  proof (induction m)
    case 0
    then show ?case by (simp add: poly_okD(1,4) [OF assms(1)]) (simp add: trim_def)
  next
    case (Suc m)
    then obtain p where p: "fold (\<lambda>i acc. bind_ok acc (\<lambda>result. bind_ok (lagrange_term P points i) (\<lambda>term. Inr (add_polynomials P result term))))
         [0..<m] (Inr (from_coefficients_vec P [0])) = Inr p" "length (dp_coeffs P p) \<le> length points"
        "\<forall>x. dp_evaluate P p x = (\<Sum>i < m. ?t i x)" by (meson Suc_leD)
    from Suc.prems obtain t where t: "lagrange_term P points m = Inr t" "length (dp_coeffs P t) \<le> length points"
        "\<forall>x. dp_evaluate P t x = ?t m x"
      using lagrange_term_laws [OF assms(1,2), of m] by (meson Suc_le_lessD)
    have "length (dp_coeffs P (add_polynomials P p t)) \<le> length points"
      using add_laws(2) [OF assms(1), of p t] p(2) t(2) by linarith
    moreover have "trim (dp_coeffs P (add_polynomials P p t)) = dp_coeffs P (add_polynomials P p t)"
      by (simp add: add_polynomials_def poly_okD(1) [OF assms(1)] Let_def)
    moreover have "dp_evaluate P (add_polynomials P p t) x = (\<Sum>i < Suc m. ?t i x)" for x
      using p(3) t(3) by (simp add: poly_okD(4) [OF assms(1)] add_laws(1) [OF assms(1)])
    ultimately show ?case using p(1) t(1) by simp
  qed
  from this [of "length points"] show ?thesis
    using assms(3) by (simp add: lagrange_interpolate_def lagrange_sum_def)
qed

text \<open>At the points of a polynomial of smaller degree it returns that polynomial.\<close>

lemma lagrange_interpolate_exact:
  fixes P :: "('f::field, 'p, 'm) poly_ops_scheme"
  assumes "poly_ok P" and "distinct (map fst points)" and "points \<noteq> []"
    and "length cs \<le> length points" and on: "\<And>x y. (x, y) \<in> set points \<Longrightarrow> y = horner cs x"
  shows "\<exists>p. lagrange_interpolate P points = Inr p \<and> dp_coeffs P p = trim cs"
proof -
  let ?n = "length points"
  obtain p where p: "lagrange_interpolate P points = Inr p" "length (dp_coeffs P p) \<le> ?n"
      "trim (dp_coeffs P p) = dp_coeffs P p"
      "\<forall>x. dp_evaluate P p x = lagrange_sum (\<lambda>i. fst (points ! i)) (\<lambda>i. snd (points ! i)) ?n x"
    using lagrange_interpolate_laws [OF assms(1-3)] by blast
  have inj: "inj_on (\<lambda>i. fst (points ! i)) {..<?n}"
    using assms(2) by (auto simp: inj_on_def distinct_conv_nth)
  have ys: "snd (points ! i) = horner cs (fst (points ! i))" if "i < ?n" for i
    using on [of "fst (points ! i)" "snd (points ! i)"] that by simp
  have "horner (dp_coeffs P p) x = horner cs x" for x
    using p(4) lagrange_interpolates [OF inj assms(4) ys] by (simp add: poly_okD(4) [OF assms(1)])
  then have "trim (dp_coeffs P p) = trim cs"
    by (intro trim_unique [of "map fst points"]) (use assms p in simp_all)
  with p show ?thesis by auto
qed

end
