(* ===== verification/Gf256.thy ===== *)
theory Gf256
  imports Prelude
begin

text \<open>
  The byte field of the key sharing (\<open>src/packages/wasm-engine/src/kzg/key_sss.rs\<close>): the
  multiplication loop on bytes modulo the Rijndael polynomial, the inverse by repeated squaring and
  the division, and the proof that they make the bytes a field. The type \<open>gf256\<close> is a copy of the
  bytes on which the library's field laws hold, so that the interpolation proofs need only algebra.
\<close>

unbundle bit_operations_syntax

type_synonym u8 = "8 word"

subsection \<open>The operations of the code\<close>

text \<open>One turn of the loop doubles \<open>a\<close>: the shift drops the high bit, which the reduction restores.\<close>

definition xtime :: "u8 \<Rightarrow> u8" where
  "xtime a = (let hi_bit = a AND 0x80; a' = push_bit 1 a in if hi_bit \<noteq> 0 then a' XOR 0x1b else a')"

lemma drop_bit_one_less: "b \<noteq> 0 \<Longrightarrow> unat (drop_bit 1 b) < unat (b :: u8)"
proof -
  assume "b \<noteq> 0"
  then have "0 < unat b" by (simp add: unat_gt_0)
  then show ?thesis by (simp add: unat_drop_bit_eq drop_bit_Suc unat_div)
qed

function gf256_mul_loop :: "u8 \<Rightarrow> u8 \<Rightarrow> u8 \<Rightarrow> u8" where
  "gf256_mul_loop a b result =
     (if b = 0 then result
      else gf256_mul_loop (xtime a) (drop_bit 1 b) (if b AND 1 \<noteq> 0 then result XOR a else result))"
  by pat_completeness auto

termination by (relation "measure (\<lambda>(a, b, r). unat b)") (use drop_bit_one_less in auto)

declare gf256_mul_loop.simps [simp del]

definition gf256_mul :: "u8 \<Rightarrow> u8 \<Rightarrow> u8" where
  "gf256_mul a b = gf256_mul_loop a b 0"

primrec gf256_inv_loop :: "nat \<Rightarrow> u8 \<Rightarrow> u8 \<Rightarrow> u8" where
  "gf256_inv_loop 0 a result = result"
| "gf256_inv_loop (Suc n) a result = gf256_inv_loop n a (gf256_mul (gf256_mul result result) a)"

definition gf256_inv :: "u8 \<Rightarrow> u8" where
  "gf256_inv a = (if a = 0 then 0 else let result = gf256_inv_loop 6 a a in gf256_mul result result)"

definition gf256_div :: "u8 \<Rightarrow> u8 \<Rightarrow> u8" where
  "gf256_div a b = (if b = 0 then 0 else gf256_mul a (gf256_inv b))"

subsection \<open>The loop is linear\<close>

lemma and_128: "a AND 0x80 \<noteq> 0 \<longleftrightarrow> bit a 7" for a :: u8
proof -
  have "(0x80 :: u8) = 2 ^ 7" by simp
  then show ?thesis by (simp only: and_exp_eq_0_iff_not_bit) simp
qed

lemma xtime_alt: "xtime a = push_bit 1 a XOR (if bit a 7 then 0x1b else 0)"
  by (simp only: xtime_def Let_def and_128) simp

lemma xtime_xor: "xtime (a XOR b) = xtime a XOR xtime b"
proof -
  have "(if bit (a XOR b) 7 then 0x1b else 0 :: u8) = (if bit a 7 then 0x1b else 0) XOR (if bit b 7 then 0x1b else 0)"
    by (simp add: bit_xor_iff)
  then show ?thesis by (simp only: xtime_alt push_bit_xor xor.assoc xor.left_commute)
qed

text \<open>Any additive map that commutes with doubling commutes with the loop.\<close>

lemma loop_hom:
  assumes add: "\<And>x y. f (x XOR y) = f x XOR f y" and xt: "\<And>x. f (xtime x) = xtime (f x)"
  shows "f (gf256_mul_loop a b r) = gf256_mul_loop (f a) b (f r)"
proof (induction a b r rule: gf256_mul_loop.induct)
  case (1 a b r)
  show ?case
  proof (cases "b = 0")
    case False
    then show ?thesis
      by (subst (1 2) gf256_mul_loop.simps) (simp only: 1 [OF False] add xt if_False if_distrib [of f])
  qed (simp add: gf256_mul_loop.simps)
qed

lemma loop_xor_acc: "gf256_mul_loop a b (s XOR r) = s XOR gf256_mul_loop a b r"
proof (induction a b r arbitrary: s rule: gf256_mul_loop.induct)
  case (1 a b r)
  show ?case
  proof (cases "b = 0")
    case False
    have "(if b AND 1 \<noteq> 0 then (s XOR r) XOR a else s XOR r) = s XOR (if b AND 1 \<noteq> 0 then r XOR a else r)"
      by (simp add: xor.assoc)
    then show ?thesis
      by (subst (1 2) gf256_mul_loop.simps) (simp only: 1 [OF False] if_False False)
  qed (simp add: gf256_mul_loop.simps)
qed

lemma loop_acc: "gf256_mul_loop a b r = r XOR gf256_mul a b"
  using loop_xor_acc [of a b r 0] by (simp add: gf256_mul_def)

lemma mul_zero_left [simp]: "gf256_mul 0 b = 0"
proof -
  have "gf256_mul_loop a b r = r" if "a = 0" for a r
    using that
  proof (induction a b r rule: gf256_mul_loop.induct)
    case (1 a b r)
    show ?case by (subst gf256_mul_loop.simps) (use 1 in \<open>simp add: xtime_alt\<close>)
  qed
  then show ?thesis by (simp add: gf256_mul_def)
qed

lemma mul_hom:
  assumes "\<And>x y. f (x XOR y) = f x XOR f y" and "\<And>x. f (xtime x) = xtime (f x)"
  shows "f (gf256_mul a b) = gf256_mul (f a) b"
proof -
  have "f 0 = 0" using assms(1) [of 0 0] by simp
  then show ?thesis using loop_hom [of f a b 0, OF assms] by (simp add: gf256_mul_def)
qed

lemma mul_xor_left: "gf256_mul (a XOR c) b = gf256_mul a b XOR gf256_mul c b"
proof -
  have "gf256_mul_loop (a XOR c) b (r XOR t) = gf256_mul_loop a b r XOR gf256_mul_loop c b t" for r t
  proof (induction a b r arbitrary: c t rule: gf256_mul_loop.induct)
    case (1 a b r)
    have "(if b AND 1 \<noteq> 0 then (r XOR t) XOR (a XOR c) else r XOR t)
        = (if b AND 1 \<noteq> 0 then r XOR a else r) XOR (if b AND 1 \<noteq> 0 then t XOR c else t)"
      by (simp add: xor.assoc xor.left_commute)
    then show ?case
      by (subst (1 2 3) gf256_mul_loop.simps) (simp add: xtime_xor 1 del: One_nat_def)
  qed
  from this [of 0 0] show ?thesis by (simp add: gf256_mul_def)
qed

lemma mul_xtime_left: "gf256_mul (xtime a) b = xtime (gf256_mul a b)"
  by (rule mul_hom [symmetric]) (simp_all add: xtime_xor)

lemma mul_right_commute: "gf256_mul (gf256_mul a b) c = gf256_mul (gf256_mul a c) b"
  by (rule mul_hom) (simp_all add: mul_xor_left mul_xtime_left)

text \<open>One is a left unit: checked on every byte.\<close>

lemma byte_exhaust: "list_all (\<lambda>n. P (word_of_nat n)) [0..<256] \<Longrightarrow> P (b :: u8)"
proof -
  assume "list_all (\<lambda>n. P (word_of_nat n)) [0..<256]"
  moreover have "unat b \<in> set [0..<256]" using unsigned_less [of b, where 'a = nat] by simp
  ultimately have "P (word_of_nat (unat b))" by (simp only: list_all_iff)
  then show ?thesis by simp
qed

lemma mul_one_left: "gf256_mul 1 b = b"
  by (rule byte_exhaust [where P = "\<lambda>b. gf256_mul 1 b = b"])
    (simp add: gf256_mul_def gf256_mul_loop.simps xtime_alt upt_rec)

lemma mul_commute: "gf256_mul a b = gf256_mul b a"
  using mul_right_commute [of 1 a b] by (simp add: mul_one_left)

lemma mul_assoc: "gf256_mul (gf256_mul a b) c = gf256_mul a (gf256_mul b c)"
  by (metis mul_commute mul_right_commute)

lemma mul_two_left: "gf256_mul 2 b = xtime b"
proof -
  have "xtime 1 = 2" by (simp add: xtime_alt)
  then show ?thesis using mul_xtime_left [of 1 b] by (simp add: mul_one_left)
qed

text \<open>The only idempotent bytes are zero and one: checked on every byte.\<close>

lemma idempotent_bytes: "gf256_mul b b = b \<Longrightarrow> b = 0 \<or> b = 1"
  using byte_exhaust [where P = "\<lambda>b. gf256_mul b b = b \<longrightarrow> b = 0 \<or> b = 1" and b = b]
  by (simp add: gf256_mul_def gf256_mul_loop.simps xtime_alt upt_rec)

subsection \<open>The field\<close>

typedef gf256 = "UNIV :: u8 set" morphisms byte_of gf_of ..

setup_lifting type_definition_gf256

instantiation gf256 :: comm_ring_1
begin

lift_definition zero_gf256 :: gf256 is 0 .
lift_definition one_gf256 :: gf256 is 1 .
lift_definition plus_gf256 :: "gf256 \<Rightarrow> gf256 \<Rightarrow> gf256" is "\<lambda>a b. a XOR b" .
lift_definition minus_gf256 :: "gf256 \<Rightarrow> gf256 \<Rightarrow> gf256" is "\<lambda>a b. a XOR b" .
lift_definition uminus_gf256 :: "gf256 \<Rightarrow> gf256" is "\<lambda>a. a" .
lift_definition times_gf256 :: "gf256 \<Rightarrow> gf256 \<Rightarrow> gf256" is gf256_mul .

instance
proof
  fix a b c :: gf256
  show "a + b + c = a + (b + c)" by transfer (rule xor.assoc)
  show "a + b = b + a" by transfer (rule xor.commute)
  show "0 + a = a" by transfer simp
  show "- a + a = 0" by transfer simp
  show "a - b = a + - b" by transfer simp
  show "a * b * c = a * (b * c)" by transfer (rule mul_assoc)
  show "a * b = b * a" by transfer (rule mul_commute)
  show "1 * a = a" by transfer (rule mul_one_left)
  show "(a + b) * c = a * c + b * c" by transfer (rule mul_xor_left)
  show "(0 :: gf256) \<noteq> 1" by transfer simp
qed

end

lemma gf_add_self [simp]: "a + a = (0 :: gf256)"
  by transfer simp

lemma gf_square_add: "(a + b) ^ 2 = a ^ 2 + b ^ 2" for a b :: gf256
proof -
  have "(a + b) ^ 2 = a ^ 2 + b ^ 2 + (a * b + a * b)"
    by (simp only: power2_eq_square ring_distribs mult.commute [of b a] add_ac)
  then show ?thesis by (simp only: gf_add_self add_0_right)
qed

lemma gf_frobenius_add: "(a + b) ^ 2 ^ n = a ^ 2 ^ n + b ^ 2 ^ n" for a b :: gf256
proof (induction n)
  case (Suc n)
  have "(a + b) ^ 2 ^ Suc n = ((a + b) ^ 2 ^ n) ^ 2" by (simp flip: power_mult add: mult.commute)
  also have "\<dots> = (a ^ 2 ^ n) ^ 2 + (b ^ 2 ^ n) ^ 2" by (simp only: Suc gf_square_add)
  finally show ?case by (simp flip: power_mult add: mult.commute)
qed simp

text \<open>Raising to the 256th power is additive and fixes the generator, so it fixes every byte.\<close>

lemma gf_two_256: "gf_of 2 ^ 256 = gf_of 2"
proof -
  have sq: "gf_of a * gf_of a = gf_of (gf256_mul a a)" for a
    by (simp add: times_gf256.abs_eq eq_onp_same_args)
  have "gf_of 2 ^ 256 = ((((((((gf_of 2 ^ 2) ^ 2) ^ 2) ^ 2) ^ 2) ^ 2) ^ 2) ^ 2)"
    by (simp flip: power_mult)
  also have "\<dots> = gf_of 2"
    by (simp add: power2_eq_square sq gf256_mul_def gf256_mul_loop.simps xtime_alt gf_of_inject)
  finally show ?thesis .
qed

lemma gf_power_256: "a ^ 256 = a" for a :: gf256
proof -
  define F where "F w = byte_of (gf_of w ^ 256)" for w
  have pl: "gf_of (v XOR w) = gf_of v + gf_of w" for v w by (simp add: plus_gf256.abs_eq eq_onp_same_args)
  have ti: "gf_of (gf256_mul v w) = gf_of v * gf_of w" for v w by (simp add: times_gf256.abs_eq eq_onp_same_args)
  have add: "F (v XOR w) = F v XOR F w" for v w
    using gf_frobenius_add [of "gf_of v" "gf_of w" 8] by (simp add: F_def pl plus_gf256.rep_eq)
  have xt: "F (xtime w) = xtime (F w)" for w
    by (simp add: F_def ti power_mult_distrib gf_two_256 times_gf256.rep_eq gf_of_inverse flip: mul_two_left)
  have one: "F 1 = 1" by (simp add: F_def one_gf256.rep_eq flip: one_gf256.abs_eq)
  have "F (byte_of a) = F (gf256_mul 1 (byte_of a))" by (simp add: mul_one_left)
  also have "\<dots> = gf256_mul (F 1) (byte_of a)" by (rule mul_hom [OF add xt])
  also have "\<dots> = byte_of a" by (simp add: one mul_one_left)
  finally show ?thesis by (simp add: F_def byte_of_inverse byte_of_inject)
qed

lemma gf_idempotent: "x * x = x \<Longrightarrow> x = 0 \<or> x = (1 :: gf256)"
  by transfer (rule idempotent_bytes)

lemma gf_fermat:
  fixes a :: gf256
  assumes "a \<noteq> 0"
  shows "a ^ 255 = 1"
proof -
  have e: "a * a ^ 255 = a" using gf_power_256 [of a] by (simp flip: power_Suc)
  have "a ^ 255 * a ^ 255 = a ^ 254 * (a * a ^ 255)"
    by (simp flip: power_add power_Suc)
  also have "\<dots> = a ^ 255" by (simp only: e) (simp flip: power_Suc2)
  finally have "a ^ 255 = 0 \<or> a ^ 255 = 1" by (rule gf_idempotent)
  with e assms show ?thesis by auto
qed

lemma inv_loop_power: "gf_of r = gf_of a ^ m \<Longrightarrow> gf_of (gf256_inv_loop n a r) = gf_of a ^ (2 ^ n * (m + 1) - 1)"
proof (induction n arbitrary: r m)
  case (Suc n)
  have "gf_of (gf256_mul (gf256_mul r r) a) = gf_of a ^ (2 * m + 1)"
    using Suc.prems by (simp add: eq_onp_same_args mult_2 power_add flip: times_gf256.abs_eq)
  from Suc.IH [OF this] show ?case by (simp add: algebra_simps)
qed simp

lemma gf256_inv_power: "gf_of (gf256_inv a) = gf_of a ^ 254"
proof (cases "a = 0")
  case False
  have "gf_of (gf256_inv_loop 6 a a) = gf_of a ^ 127"
    using inv_loop_power [of a a 1 6] by simp
  with False show ?thesis
    by (simp add: gf256_inv_def Let_def eq_onp_same_args flip: times_gf256.abs_eq power_add)
qed (simp add: gf256_inv_def zero_gf256.abs_eq [symmetric])

instantiation gf256 :: field
begin

lift_definition inverse_gf256 :: "gf256 \<Rightarrow> gf256" is gf256_inv .
lift_definition divide_gf256 :: "gf256 \<Rightarrow> gf256 \<Rightarrow> gf256" is gf256_div .

instance
proof
  fix a b :: gf256
  have i: "inverse a = a ^ 254"
    using gf256_inv_power [of "byte_of a"] by (simp add: inverse_gf256_def map_fun_def byte_of_inverse)
  show "a \<noteq> 0 \<Longrightarrow> inverse a * a = 1"
    by (simp add: i gf_fermat flip: power_Suc2)
  show "a div b = a * inverse b"
    by transfer (simp add: gf256_div_def gf256_inv_def mul_commute [of _ 0])
  show "inverse (0 :: gf256) = 0"
    by transfer (simp add: gf256_inv_def)
qed

end

lemma byte_of_simps [simp]:
  "byte_of 0 = 0" "byte_of 1 = 1" "byte_of (x + y) = byte_of x XOR byte_of y"
  "byte_of (x * y) = gf256_mul (byte_of x) (byte_of y)" "byte_of (x / y) = gf256_div (byte_of x) (byte_of y)"
  "byte_of (- x) = byte_of x" "byte_of (x - y) = byte_of x XOR byte_of y"
  by (transfer; simp)+

end
