(* ===== verification/Kzg_Vss.thy ===== *)
theory Kzg_Vss
  imports Dense_Poly Gf256
begin

text \<open>
  Verifiable secret sharing with KZG commitments (\<open>src/packages/wasm-engine/src/kzg/vss.rs\<close>,
  \<open>kzg/proof.rs\<close>, and the reader of the reference string in \<open>kzg/srs.rs\<close>). The pairing groups
  are parameters with the laws of the curve: multiples of the generators add and multiply as
  their scalars do, the pairing is bilinear and non-degenerate, and a point is read back from
  its bytes. The reference string is the global of \<open>srs.rs\<close>, \<^const>\<open>None\<close> until it is loaded.
\<close>

record ('f, 'p, 'g, 'h, 't) curve_ops = "('f, 'p) poly_ops" +
  g1_generator :: 'g
  g1_zero :: 'g
  g1_add :: "'g \<Rightarrow> 'g \<Rightarrow> 'g"
  g1_sub :: "'g \<Rightarrow> 'g \<Rightarrow> 'g"
  g1_mul :: "'g \<Rightarrow> 'f \<Rightarrow> 'g"
  g1_serialize :: "'g \<Rightarrow> bytes option"
  g1_deserialize :: "bytes \<Rightarrow> 'g option"
  g2_generator :: 'h
  g2_sub :: "'h \<Rightarrow> 'h \<Rightarrow> 'h"
  g2_mul :: "'h \<Rightarrow> 'f \<Rightarrow> 'h"
  g2_deserialize :: "bytes \<Rightarrow> 'h option"
  pairing :: "'g \<Rightarrow> 'h \<Rightarrow> 't"

record ('g, 'h) srs =
  powers_of_g1 :: "'g list"
  tau_g2 :: 'h

record vss_share =
  vs_index :: "8 word"
  vs_value :: bytes

record vss_split_result =
  vr_commitment :: bytes
  vr_shares :: "vss_share list"
  vr_proofs :: "bytes list"
  vr_compressed :: bool
  vr_original_len :: nat
  vr_processed_len :: nat
  vr_multi_segment :: bool
  vr_segment_count :: nat

definition max_data_size :: nat where "max_data_size = 32 * 1024 * 1024"
definition max_segment_size :: nat where "max_segment_size = 32 * 1024"

text \<open>\<open>getrandom c n\<close> is what call \<open>c\<close> of the random generator fills \<open>n\<close> bytes with.\<close>

type_synonym getrandom = "nat \<Rightarrow> nat \<Rightarrow> bytes option"

subsection \<open>Operations\<close>

primrec generate_random_scalars
  :: "('f::field, 'm) scalar_ops_scheme \<Rightarrow> getrandom \<Rightarrow> nat \<Rightarrow> nat \<Rightarrow> (kzg_error, 'f list) result" where
  "generate_random_scalars C getrandom call 0 = Inr []"
| "generate_random_scalars C getrandom call (Suc k) =
     ok_or (getrandom call 32) (EncodingError ''RNG error'') (\<lambda>random.
       let scalar = fr_from_le_bytes_mod_order C random
       in if scalar = 0
          then ok_or (getrandom (call + 1) 31) (EncodingError ''RNG error'') (\<lambda>retry.
                 bind_ok (generate_random_scalars C getrandom (call + 2) k) (\<lambda>rest.
                   Inr (fr_from_le_bytes_mod_order C (1 # retry) # rest)))
          else bind_ok (generate_random_scalars C getrandom (call + 1) k) (\<lambda>rest. Inr (scalar # rest)))"

definition construct_polynomial
  :: "('f::field, 'p, 'm) poly_ops_scheme \<Rightarrow> getrandom \<Rightarrow> 'f list \<Rightarrow> nat \<Rightarrow> (kzg_error, 'p) result" where
  "construct_polynomial C getrandom scalars threshold =
     ensure (scalars \<noteq> []) (EncodingError ''No scalars for polynomial'') (
     ensure (1 \<le> threshold) KzgInvalidThreshold (
     if threshold \<le> length scalars then Inr (from_coefficients_vec C scalars)
     else bind_ok (generate_random_scalars C getrandom 0 (threshold - length scalars)) (\<lambda>random_coeffs.
       Inr (from_coefficients_vec C (scalars @ random_coeffs)))))"

definition compute_commitment
  :: "('f::field, 'p, 'g, 'h, 't, 'm) curve_ops_scheme \<Rightarrow> ('g, 'h) srs \<Rightarrow> 'p \<Rightarrow> (kzg_error, bytes) result" where
  "compute_commitment C srs p =
     ensure (length (dp_coeffs C p) \<le> length (powers_of_g1 srs)) (EncodingError ''Polynomial degree exceeds SRS size'') (
     ok_or (g1_serialize C (fold (\<lambda>(i, coeff) acc. g1_add C acc (g1_mul C (powers_of_g1 srs ! i) coeff))
              (enumerate 0 (dp_coeffs C p)) (g1_zero C))) (EncodingError ''Failed to serialize commitment'') Inr)"

definition generate_single_proof
  :: "('f::field, 'p, 'g, 'h, 't, 'm) curve_ops_scheme \<Rightarrow> ('g, 'h) srs \<Rightarrow> 'p \<Rightarrow> 8 word \<Rightarrow> bytes run" where
  "generate_single_proof C srs p share_index =
     (let x = fr_from_u64 C (unat share_index); y = dp_evaluate C p x
      in bind_run (compute_quotient_polynomial C p x y) (\<lambda>q. Some (compute_commitment C srs q)))"

primrec generate_proofs
  :: "('f::field, 'p, 'g, 'h, 't, 'm) curve_ops_scheme \<Rightarrow> ('g, 'h) srs \<Rightarrow> 'p \<Rightarrow> vss_share list \<Rightarrow> bytes list run" where
  "generate_proofs C srs p [] = Some (Inr [])"
| "generate_proofs C srs p (s # ss) =
     bind_run (generate_single_proof C srs p (vs_index s)) (\<lambda>proof.
       bind_run (generate_proofs C srs p ss) (\<lambda>proofs. Some (Inr (proof # proofs))))"

definition make_share :: "('f::field, 'p, 'm) poly_ops_scheme \<Rightarrow> 'p \<Rightarrow> 8 word \<Rightarrow> vss_share" where
  "make_share C p i = \<lparr>vs_index = i, vs_value = scalar_to_bytes C (dp_evaluate C p (fr_from_u64 C (unat i)))\<rparr>"

definition vss_split
  :: "('f::field, 'p, 'g, 'h, 't, 'm) curve_ops_scheme \<Rightarrow> ('g, 'h) srs option \<Rightarrow> gzip \<Rightarrow> getrandom
      \<Rightarrow> bytes \<Rightarrow> nat \<Rightarrow> nat \<Rightarrow> vss_split_result run" where
  "vss_split C global_srs gz getrandom data threshold share_count =
     bind_run (Some (
       ensure (data \<noteq> [] \<and> length data \<le> max_data_size) DataTooLarge (
       ensure (2 \<le> threshold \<and> threshold \<le> share_count \<and> 2 \<le> share_count) KzgInvalidThreshold (
       ok_or global_srs SrsNotLoaded Inr)))) (\<lambda>srs.
     let (processed_data, compressed) = compress gz data
     in bind_run (Some (
          bind_ok (encode_to_scalars C processed_data) (\<lambda>scalars.
          ensure (length scalars \<le> threshold) DataTooLarge (
          bind_ok (construct_polynomial C getrandom scalars threshold) (\<lambda>polynomial.
          bind_ok (compute_commitment C srs polynomial) (\<lambda>commitment.
            Inr (polynomial, commitment))))))) (\<lambda>(polynomial, commitment).
        let shares = map (\<lambda>i. make_share C polynomial (word_of_nat i)) [1..<share_count + 1]
        in bind_run (generate_proofs C srs polynomial shares) (\<lambda>proofs.
             let segment_count = (length processed_data + max_segment_size - 1) div max_segment_size
             in Some (Inr \<lparr>vr_commitment = commitment, vr_shares = shares, vr_proofs = proofs,
                  vr_compressed = compressed, vr_original_len = length data,
                  vr_processed_len = length processed_data,
                  vr_multi_segment = (1 < segment_count), vr_segment_count = segment_count\<rparr>))))"

primrec check_indices :: "8 word set \<Rightarrow> vss_share list \<Rightarrow> bool" where
  "check_indices seen [] = True"
| "check_indices seen (s # ss) = (vs_index s \<noteq> 0 \<and> vs_index s \<notin> seen \<and> check_indices (insert (vs_index s) seen) ss)"

definition share_points :: "('f, 'm) scalar_ops_scheme \<Rightarrow> nat \<Rightarrow> vss_share list \<Rightarrow> ('f \<times> 'f) list" where
  "share_points C threshold shares =
     map (\<lambda>s. (fr_from_u64 C (unat (vs_index s)), bytes_to_scalar C (vs_value s))) (take threshold shares)"

definition vss_recover
  :: "('f::field, 'p, 'm) poly_ops_scheme \<Rightarrow> gzip \<Rightarrow> vss_share list \<Rightarrow> nat \<Rightarrow> bool \<Rightarrow> nat \<Rightarrow> nat
      \<Rightarrow> (kzg_error, bytes) result" where
  "vss_recover C gz shares threshold compressed original_len processed_len =
     ensure (threshold \<le> length shares mod 256) KzgInsufficientShares (
     ensure (check_indices {} shares) KzgInvalidShareIndex (
     bind_ok (lagrange_interpolate C (share_points C threshold shares)) (\<lambda>polynomial.
     bind_ok (decode_from_scalars C (dp_coeffs C polynomial) processed_len) (\<lambda>processed_data.
     if compressed then decompress gz processed_data else Inr processed_data))))"

definition regenerate_share
  :: "('f::field, 'p, 'g, 'h, 't, 'm) curve_ops_scheme \<Rightarrow> ('g, 'h) srs option \<Rightarrow> vss_share list \<Rightarrow> nat
      \<Rightarrow> 8 word \<Rightarrow> bytes \<Rightarrow> (vss_share \<times> bytes) run" where
  "regenerate_share C global_srs shares threshold new_index commitment =
     bind_run (Some (
       ensure (threshold \<le> length shares) KzgInsufficientShares (
       ensure (new_index \<noteq> 0) KzgInvalidThreshold (
       ensure (\<forall>s \<in> set shares. vs_index s \<noteq> new_index) KzgInvalidThreshold (
       ok_or global_srs SrsNotLoaded (\<lambda>srs.
       bind_ok (lagrange_interpolate C (share_points C threshold shares)) (\<lambda>polynomial.
       bind_ok (compute_commitment C srs polynomial) (\<lambda>recomputed.
       ensure (recomputed = commitment) CommitmentMismatch (Inr (srs, polynomial)))))))))) (\<lambda>(srs, polynomial).
     bind_run (generate_single_proof C srs polynomial new_index) (\<lambda>proof.
       Some (Inr (make_share C polynomial new_index, proof))))"

definition verify_kzg_proof
  :: "('f::field, 'p, 'g, 'h, 't, 'm) curve_ops_scheme \<Rightarrow> ('g, 'h) srs option
      \<Rightarrow> bytes \<Rightarrow> 8 word \<Rightarrow> bytes \<Rightarrow> bytes \<Rightarrow> (kzg_error, bool) result" where
  "verify_kzg_proof C global_srs commitment index value proof =
     ok_or global_srs SrsNotLoaded (\<lambda>srs.
     ok_or (g1_deserialize C commitment) InvalidCommitment (\<lambda>c.
     ok_or (g1_deserialize C proof) InvalidProof (\<lambda>pi.
       let y = bytes_to_scalar C value; x = fr_from_u64 C (unat index);
           c_minus_y = g1_sub C c (g1_mul C (g1_generator C) y);
           tau_minus_x_g2 = g2_sub C (tau_g2 srs) (g2_mul C (g2_generator C) x)
       in Inr (pairing C c_minus_y (g2_generator C) = pairing C pi tau_minus_x_g2))))"

primrec chunks_of :: "nat \<Rightarrow> nat \<Rightarrow> bytes \<Rightarrow> bytes list" where
  "chunks_of n 0 bs = []"
| "chunks_of n (Suc k) bs = take n bs # chunks_of n k (drop n bs)"

definition decode_polynomial_coeffs :: "('f, 'm) scalar_ops_scheme \<Rightarrow> bytes \<Rightarrow> (kzg_error, 'f list) result" where
  "decode_polynomial_coeffs C bs =
     ensure (length bs mod 32 = 0) (EncodingError ''Polynomial coefficients must be 32-byte aligned'') (
       Inr (map (bytes_to_scalar C) (chunks_of 32 (length bs div 32) bs)))"

definition vss_prove
  :: "('f::field, 'p, 'g, 'h, 't, 'm) curve_ops_scheme \<Rightarrow> ('g, 'h) srs option \<Rightarrow> bytes \<Rightarrow> vss_share \<Rightarrow> bytes
      \<Rightarrow> bytes run" where
  "vss_prove C global_srs commitment share polynomial_coeffs =
     bind_run (Some (
       ok_or global_srs SrsNotLoaded (\<lambda>srs.
       bind_ok (decode_polynomial_coeffs C polynomial_coeffs) (\<lambda>coeffs.
       ensure (coeffs \<noteq> []) (EncodingError ''Empty polynomial coefficients'') (
       bind_ok (compute_commitment C srs (from_coefficients_vec C coeffs)) (\<lambda>computed.
       ensure (computed = commitment) CommitmentMismatch (Inr (srs, from_coefficients_vec C coeffs)))))))) (\<lambda>(srs, polynomial).
     generate_single_proof C srs polynomial (vs_index share))"

subsection \<open>The reference string\<close>

text \<open>The binary format: a count in four bytes, that many 48-byte points, and one 96-byte point.\<close>

definition le_val :: "bytes \<Rightarrow> nat" where
  "le_val bs = be_value (rev bs)"

definition load_srs_from_bytes
  :: "('f, 'p, 'g, 'h, 't, 'm) curve_ops_scheme \<Rightarrow> bytes \<Rightarrow> (kzg_error, ('g, 'h) srs) result" where
  "load_srs_from_bytes C bs =
     ensure (4 + 48 + 96 \<le> length bs) (EncodingError ''SRS file too small'') (
     let num_g1 = le_val (take 4 bs)
     in ensure (num_g1 \<noteq> 0) (EncodingError ''SRS must contain at least 1 G1 point'') (
        ensure (4 + num_g1 * 48 + 96 \<le> length bs) (EncodingError ''SRS file too small'') (
        ok_or (those (map (g1_deserialize C) (chunks_of 48 num_g1 (drop 4 bs)))) (EncodingError ''Failed to deserialize G1 point'') (\<lambda>powers.
        ok_or (g2_deserialize C (take 96 (drop (4 + num_g1 * 48) bs))) (EncodingError ''Failed to deserialize G2 point'') (\<lambda>tau.
          Inr \<lparr>powers_of_g1 = powers, tau_g2 = tau\<rparr>)))))"

definition init_srs
  :: "('f, 'p, 'g, 'h, 't, 'm) curve_ops_scheme \<Rightarrow> ('g, 'h) srs option \<Rightarrow> bytes
      \<Rightarrow> (kzg_error, ('g, 'h) srs option) result" where
  "init_srs C global_srs bs =
     (if global_srs \<noteq> None then Inr global_srs
      else bind_ok (load_srs_from_bytes C bs) (\<lambda>srs. Inr (Some srs)))"

subsection \<open>The laws of the curve\<close>

definition curve_ok :: "('f::field, 'p, 'g, 'h, 't, 'm) curve_ops_scheme \<Rightarrow> bool" where
  "curve_ok C \<longleftrightarrow> poly_ok C \<and> scalar_ok C
     \<and> (\<forall>a b. g1_add C (g1_mul C (g1_generator C) a) (g1_mul C (g1_generator C) b) = g1_mul C (g1_generator C) (a + b))
     \<and> (\<forall>a b. g1_sub C (g1_mul C (g1_generator C) a) (g1_mul C (g1_generator C) b) = g1_mul C (g1_generator C) (a - b))
     \<and> (\<forall>a b. g1_mul C (g1_mul C (g1_generator C) a) b = g1_mul C (g1_generator C) (a * b))
     \<and> g1_zero C = g1_mul C (g1_generator C) 0
     \<and> (\<forall>p. \<exists>bs. g1_serialize C p = Some bs \<and> g1_deserialize C bs = Some p)
     \<and> (\<forall>bs p. g1_deserialize C bs = Some p \<longrightarrow> (\<exists>a. p = g1_mul C (g1_generator C) a))
     \<and> g2_generator C = g2_mul C (g2_generator C) 1
     \<and> (\<forall>a b. g2_sub C (g2_mul C (g2_generator C) a) (g2_mul C (g2_generator C) b) = g2_mul C (g2_generator C) (a - b))
     \<and> (\<forall>a b c d. pairing C (g1_mul C (g1_generator C) a) (g2_mul C (g2_generator C) b)
            = pairing C (g1_mul C (g1_generator C) c) (g2_mul C (g2_generator C) d) \<longleftrightarrow> a * b = c * d)"

definition srs_ok :: "('f::field, 'p, 'g, 'h, 't, 'm) curve_ops_scheme \<Rightarrow> 'f \<Rightarrow> ('g, 'h) srs \<Rightarrow> bool" where
  "srs_ok C tau srs \<longleftrightarrow> powers_of_g1 srs \<noteq> []
     \<and> (\<forall>i < length (powers_of_g1 srs). powers_of_g1 srs ! i = g1_mul C (g1_generator C) (tau ^ i))
     \<and> tau_g2 srs = g2_mul C (g2_generator C) tau"

abbreviation gen_mul :: "('f::field, 'p, 'g, 'h, 't, 'm) curve_ops_scheme \<Rightarrow> 'f \<Rightarrow> 'g" where
  "gen_mul C a \<equiv> g1_mul C (g1_generator C) a"

definition point_bytes :: "('f::field, 'p, 'g, 'h, 't, 'm) curve_ops_scheme \<Rightarrow> 'f \<Rightarrow> bytes" where
  "point_bytes C a = the (g1_serialize C (gen_mul C a))"

lemma curve_okD:
  assumes "curve_ok C"
  shows "poly_ok C" and "scalar_ok C"
    and "g1_add C (gen_mul C a) (gen_mul C b) = gen_mul C (a + b)"
    and "g1_sub C (gen_mul C a) (gen_mul C b) = gen_mul C (a - b)"
    and "g1_mul C (gen_mul C a) b = gen_mul C (a * b)"
    and "g1_zero C = gen_mul C 0"
    and "g1_serialize C (gen_mul C a) = Some (point_bytes C a)"
    and "g1_deserialize C (point_bytes C a) = Some (gen_mul C a)"
  using assms by (auto simp: curve_ok_def point_bytes_def) (metis option.sel)+

lemma commitment_laws:
  assumes "curve_ok C" and "srs_ok C tau srs" and "length (dp_coeffs C p) \<le> length (powers_of_g1 srs)"
  shows "compute_commitment C srs p = Inr (point_bytes C (dp_evaluate C p tau))"
proof -
  let ?f = "\<lambda>(i, coeff) acc. g1_add C acc (g1_mul C (powers_of_g1 srs ! i) coeff)"
  have "m + length cs \<le> length (powers_of_g1 srs) \<Longrightarrow>
      fold ?f (enumerate m cs) (gen_mul C a) = gen_mul C (a + tau ^ m * horner cs tau)" for m cs a
  proof (induction cs arbitrary: m a)
    case (Cons c cs)
    then have "powers_of_g1 srs ! m = gen_mul C (tau ^ m)" using assms(2) by (simp add: srs_ok_def)
    with Cons.IH [of "Suc m"] Cons.prems show ?case
      by (simp add: curve_okD(3,5) [OF assms(1)] algebra_simps)
  qed simp
  from this [of 0 "dp_coeffs C p" 0] assms(3) show ?thesis
    by (simp add: compute_commitment_def curve_okD(6,7) [OF assms(1)] poly_okD(4) [OF curve_okD(1) [OF assms(1)]])
qed

lemma single_proof_laws:
  fixes i :: "8 word"
  assumes "curve_ok C" and "srs_ok C tau srs" and "length (dp_coeffs C p) \<le> length (powers_of_g1 srs)"
  defines "x \<equiv> fr_from_u64 C (unat i)"
  shows "\<exists>w. generate_single_proof C srs p i = Some (Inr (point_bytes C w))
     \<and> dp_evaluate C p tau - dp_evaluate C p x = w * (tau - x)"
proof -
  obtain q where q: "compute_quotient_polynomial C p x (dp_evaluate C p x) = Some (Inr q)"
      "\<forall>z. dp_evaluate C p z - dp_evaluate C p x = dp_evaluate C q z * (z - x)"
      "length (dp_coeffs C q) \<le> max 1 (length (dp_coeffs C p))"
    using quotient_laws(1) [OF curve_okD(1) [OF assms(1)]] by blast
  have "0 < length (powers_of_g1 srs)" using assms(2) by (simp add: srs_ok_def)
  then have "max 1 (length (dp_coeffs C p)) \<le> length (powers_of_g1 srs)" using assms(3) by (simp add: Suc_le_eq)
  with q(3) have "length (dp_coeffs C q) \<le> length (powers_of_g1 srs)" by (rule order_trans)
  then have "compute_commitment C srs q = Inr (point_bytes C (dp_evaluate C q tau))"
    by (rule commitment_laws [OF assms(1,2)])
  then show ?thesis using q(1,2) by (auto simp: generate_single_proof_def x_def Let_def)
qed

text \<open>The pairing equation, in exponents.\<close>

lemma verify_laws:
  assumes "curve_ok C" and "srs_ok C tau srs" and "g1_deserialize C proof = Some (gen_mul C w)"
  shows "verify_kzg_proof C (Some srs) (point_bytes C a) i v proof = Inr (
     a - bytes_to_scalar C v = w * (tau - fr_from_u64 C (unat i)))"
proof -
  have g2: "g2_generator C = g2_mul C (g2_generator C) 1"
    and sub: "g2_sub C (g2_mul C (g2_generator C) s) (g2_mul C (g2_generator C) t) = g2_mul C (g2_generator C) (s - t)"
    and e: "pairing C (gen_mul C s) (g2_mul C (g2_generator C) t) = pairing C (gen_mul C s') (g2_mul C (g2_generator C) t')
      \<longleftrightarrow> s * t = s' * t'" for s t s' t'
    using assms(1) by (simp_all only: curve_ok_def)
  have "pairing C (gen_mul C s) (g2_generator C) = pairing C (gen_mul C s') (g2_mul C (g2_generator C) t') \<longleftrightarrow> s = s' * t'" for s s' t'
    using e [of s 1 s' t'] g2 by simp
  then show ?thesis using assms(2,3)
    by (simp add: verify_kzg_proof_def curve_okD(4,8) [OF assms(1)] srs_ok_def sub)
qed

lemma proofs_laws:
  assumes "curve_ok C" and "srs_ok C tau srs" and "length (dp_coeffs C p) \<le> length (powers_of_g1 srs)"
    and "\<forall>s \<in> set shares. s = make_share C p (vs_index s)"
  shows "\<exists>proofs. generate_proofs C srs p shares = Some (Inr proofs) \<and> length proofs = length shares
     \<and> (\<forall>i < length shares. verify_kzg_proof C (Some srs) (point_bytes C (dp_evaluate C p tau))
            (vs_index (shares ! i)) (vs_value (shares ! i)) (proofs ! i) = Inr True)"
  using assms(4)
proof (induction shares)
  case (Cons s ss)
  then obtain proofs where ps: "generate_proofs C srs p ss = Some (Inr proofs)" "length proofs = length ss"
      "\<forall>i < length ss. verify_kzg_proof C (Some srs) (point_bytes C (dp_evaluate C p tau))
            (vs_index (ss ! i)) (vs_value (ss ! i)) (proofs ! i) = Inr True" by auto
  obtain w where w: "generate_single_proof C srs p (vs_index s) = Some (Inr (point_bytes C w))"
      "dp_evaluate C p tau - dp_evaluate C p (fr_from_u64 C (unat (vs_index s))) = w * (tau - fr_from_u64 C (unat (vs_index s)))"
    using single_proof_laws [OF assms(1-3)] by blast
  have "s = make_share C p (vs_index s)" using Cons.prems by simp
  then have "vs_value s = scalar_to_bytes C (dp_evaluate C p (fr_from_u64 C (unat (vs_index s))))"
    by (metis make_share_def vss_share.select_convs(2))
  then have "bytes_to_scalar C (vs_value s) = dp_evaluate C p (fr_from_u64 C (unat (vs_index s)))"
    using curve_okD(2) [OF assms(1)] by (simp add: bytes_to_scalar_def scalar_ok_def)
  then have "verify_kzg_proof C (Some srs) (point_bytes C (dp_evaluate C p tau)) (vs_index s) (vs_value s) (point_bytes C w) = Inr True"
    using w(2) by (simp add: verify_laws [OF assms(1,2) curve_okD(8) [OF assms(1)]])
  then show ?case using ps w(1) by (auto simp: nth_Cons')
qed simp

subsection \<open>Splitting\<close>

text \<open>What the code requires of its arguments, and the coefficients it then uses.\<close>

definition split_input
  :: "('f::field, 'p, 'g, 'h, 't, 'm) curve_ops_scheme \<Rightarrow> ('g, 'h) srs \<Rightarrow> gzip \<Rightarrow> getrandom
      \<Rightarrow> bytes \<Rightarrow> nat \<Rightarrow> nat \<Rightarrow> 'f list \<Rightarrow> 'f list \<Rightarrow> bool" where
  "split_input C srs gz getrandom data k n scalars padding \<longleftrightarrow>
     data \<noteq> [] \<and> length data \<le> max_data_size \<and> 2 \<le> k \<and> k \<le> n \<and> n \<le> 255 \<and> k \<le> length (powers_of_g1 srs)
     \<and> encode_to_scalars C (fst (compress gz data)) = Inr scalars \<and> length scalars \<le> k
     \<and> generate_random_scalars C getrandom 0 (k - length scalars) = Inr padding"

lemma length_random_scalars: "generate_random_scalars C getrandom c k = Inr ss \<Longrightarrow> length ss = k"
  by (induction k arbitrary: c ss) (auto simp: Let_def result_simps split: if_splits)

lemma encode_scalars_nonempty: "encode_to_scalars C data = Inr scalars \<Longrightarrow> scalars \<noteq> [] \<and> length scalars = num_chunks data"
  using num_chunks_bounds(1) [of data] by (auto simp: encode_to_scalars_def result_simps)

lemma vss_split_laws:
  fixes C :: "('f::field, 'p, 'g, 'h, 't, 'm) curve_ops_scheme"
  assumes "curve_ok C" and "srs_ok C tau srs" and "split_input C srs gz getrandom data k n scalars padding"
  obtains res p where "vss_split C (Some srs) gz getrandom data k n = Some (Inr res)"
    and "dp_coeffs C p = trim (scalars @ padding)" and "length (scalars @ padding) = k"
    and "vr_shares res = map (\<lambda>i. make_share C p (word_of_nat i)) [1..<n + 1]"
    and "vr_commitment res = point_bytes C (dp_evaluate C p tau)"
    and "length (vr_proofs res) = n"
    and "\<forall>i < n. verify_kzg_proof C (Some srs) (vr_commitment res)
           (vs_index (vr_shares res ! i)) (vs_value (vr_shares res ! i)) (vr_proofs res ! i) = Inr True"
    and "vr_compressed res = snd (compress gz data)" and "vr_original_len res = length data"
    and "vr_processed_len res = length (fst (compress gz data))"
proof -
  note si = assms(3) [unfolded split_input_def]
  obtain pd comp where pc: "compress gz data = (pd, comp)" by fastforce
  let ?p = "from_coefficients_vec C (scalars @ padding)"
  have enc: "encode_to_scalars C pd = Inr scalars" using si pc by simp
  have len: "length (scalars @ padding) = k" using si length_random_scalars by fastforce
  have P: "construct_polynomial C getrandom scalars k = Inr ?p"
    using si encode_scalars_nonempty [OF enc] len by (auto simp: construct_polynomial_def)
  have c: "dp_coeffs C ?p = trim (scalars @ padding)" by (simp add: poly_okD(1) [OF curve_okD(1) [OF assms(1)]])
  then have cl: "length (dp_coeffs C ?p) \<le> length (powers_of_g1 srs)"
    using length_trim_le [of "scalars @ padding"] si unfolding len by simp
  let ?shares = "map (\<lambda>i. make_share C ?p (word_of_nat i)) [1..<n + 1]"
  have "\<forall>s \<in> set ?shares. s = make_share C ?p (vs_index s)" by (auto simp: make_share_def)
  then obtain proofs where pr: "generate_proofs C srs ?p ?shares = Some (Inr proofs)" "length proofs = length ?shares"
      "\<forall>i < length ?shares. verify_kzg_proof C (Some srs) (point_bytes C (dp_evaluate C ?p tau))
            (vs_index (?shares ! i)) (vs_value (?shares ! i)) (proofs ! i) = Inr True"
    using proofs_laws [OF assms(1,2) cl, of ?shares] by blast
  note cm = commitment_laws [OF assms(1,2) cl]
  let ?sc = "(length pd + max_segment_size - 1) div max_segment_size"
  have "vss_split C (Some srs) gz getrandom data k n = Some (Inr
     \<lparr>vr_commitment = point_bytes C (dp_evaluate C ?p tau), vr_shares = ?shares, vr_proofs = proofs,
      vr_compressed = comp, vr_original_len = length data, vr_processed_len = length pd,
      vr_multi_segment = (1 < ?sc), vr_segment_count = ?sc\<rparr>)"
    using si pc enc P cm pr(1) by (simp add: vss_split_def Let_def del: upt_Suc)
  then show thesis
    by (rule that) (use c len pr pc in \<open>simp_all del: upt_Suc\<close>)
qed

text \<open>C8: for data of at most \<open>k\<close> scalars, splitting returns, and gives \<open>n\<close> shares with the
  indices \<open>1\<close> to \<open>n\<close> and \<open>n\<close> proofs, each of which the verifier accepts for its share against the
  commitment.
\<close>

theorem vss_split_verifies:
  assumes "curve_ok C" and "srs_ok C tau srs" and "split_input C srs gz getrandom data k n scalars padding"
  shows "\<exists>res. vss_split C (Some srs) gz getrandom data k n = Some (Inr res)
     \<and> map vs_index (vr_shares res) = map word_of_nat [1..<n + 1] \<and> length (vr_proofs res) = n
     \<and> (\<forall>i < n. verify_kzg_proof C (Some srs) (vr_commitment res)
           (vs_index (vr_shares res ! i)) (vs_value (vr_shares res ! i)) (vr_proofs res ! i) = Inr True)"
proof -
  obtain res p where r: "vss_split C (Some srs) gz getrandom data k n = Some (Inr res)"
      "vr_shares res = map (\<lambda>i. make_share C p (word_of_nat i)) [1..<n + 1]" "length (vr_proofs res) = n"
      "\<forall>i < n. verify_kzg_proof C (Some srs) (vr_commitment res)
           (vs_index (vr_shares res ! i)) (vs_value (vr_shares res ! i)) (vr_proofs res ! i) = Inr True"
    by (rule vss_split_laws [OF assms]) blast
  have "map vs_index (vr_shares res) = map word_of_nat [1..<n + 1]"
    by (simp add: r(2) make_share_def del: upt_Suc)
  with r show ?thesis by blast
qed

subsection \<open>Recovery\<close>

definition genuine :: "('f::field, 'p, 'm) poly_ops_scheme \<Rightarrow> 'p \<Rightarrow> vss_share list \<Rightarrow> bool" where
  "genuine C p shares \<longleftrightarrow> distinct (map vs_index shares) \<and> (\<forall>s \<in> set shares. s = make_share C p (vs_index s))"

lemma check_indices_iff:
  "check_indices seen ss \<longleftrightarrow> distinct (map vs_index ss) \<and> 0 \<notin> vs_index ` set ss \<and> vs_index ` set ss \<inter> seen = {}"
  by (induction ss arbitrary: seen) auto

lemma genuine_interpolates:
  assumes "poly_ok C" and "scalar_ok C" and g: "genuine C p shares" and "1 \<le> k" and "k \<le> length shares"
    and "dp_coeffs C p = trim cs" and "length cs \<le> k"
  shows "\<exists>q. lagrange_interpolate C (share_points C k shares) = Inr q \<and> dp_coeffs C q = trim cs"
proof (rule lagrange_interpolate_exact [OF assms(1)])
  have inj: "inj_on (\<lambda>i :: 8 word. fr_from_u64 C (unat i)) A" for A
  proof (rule inj_onI)
    fix i j :: "8 word"
    have "unat i \<le> 255" "unat j \<le> 255"
      using unsigned_less [of i, where ?'a = nat] unsigned_less [of j, where ?'a = nat] by simp_all
    moreover assume "fr_from_u64 C (unat i) = fr_from_u64 C (unat j)"
    ultimately have "unat i = unat j" using assms(2) by (simp add: scalar_ok_def inj_on_def)
    then show "i = j" by (rule unsigned_word_eqI)
  qed
  have "map fst (share_points C k shares) = map (\<lambda>i. fr_from_u64 C (unat i)) (take k (map vs_index shares))"
    by (simp add: share_points_def take_map)
  moreover have "distinct (take k (map vs_index shares))" using g by (simp add: genuine_def)
  ultimately show "distinct (map fst (share_points C k shares))" by (simp add: distinct_map inj)
  show "share_points C k shares \<noteq> []" using assms(4,5) by (auto simp: share_points_def)
  show "length cs \<le> length (share_points C k shares)" using assms(5,7) by (simp add: share_points_def)
  fix x y assume "(x, y) \<in> set (share_points C k shares)"
  then obtain s where s: "s \<in> set shares" "x = fr_from_u64 C (unat (vs_index s))" "y = bytes_to_scalar C (vs_value s)"
    by (auto simp: share_points_def dest: in_set_takeD)
  then have "s = make_share C p (vs_index s)" using g by (simp add: genuine_def)
  then have "vs_value s = scalar_to_bytes C (dp_evaluate C p x)"
    unfolding s(2) by (metis make_share_def vss_share.select_convs(2))
  then show "y = horner cs x" using assms(2,6) s(3)
    by (simp add: bytes_to_scalar_def scalar_ok_def poly_okD(4) [OF assms(1)])
qed

lemma recover_laws:
  assumes "poly_ok C" and "scalar_ok C" and "genuine C p shares" and "0 \<notin> vs_index ` set shares"
    and "1 \<le> k" and "k \<le> length shares" and "dp_coeffs C p = trim cs" and "length cs \<le> k"
  shows "vss_recover C gz shares k zipped ol pl =
    bind_ok (decode_from_scalars C (trim cs) pl) (\<lambda>d. if zipped then decompress gz d else Inr d)"
proof -
  have d: "distinct (map vs_index shares)" using assms(3) by (simp add: genuine_def)
  have "card (vs_index ` set shares) = length shares" using distinct_card [OF d] by simp
  moreover have "card (vs_index ` set shares) \<le> card (UNIV - {0 :: 8 word})"
    by (rule card_mono) (use assms(4) in auto)
  ultimately have "length shares < 256" by (simp add: card_word)
  then have "k \<le> length shares mod 256" using assms(6) by simp
  moreover have "check_indices {} shares" using d assms(4) by (simp add: check_indices_iff)
  moreover obtain q where "lagrange_interpolate C (share_points C k shares) = Inr q" "dp_coeffs C q = trim cs"
    using genuine_interpolates [OF assms(1-3,5-8)] by blast
  ultimately show ?thesis by (simp add: vss_recover_def)
qed

lemma shares_genuine:
  assumes "set shares \<subseteq> set (map (\<lambda>i. make_share C p (word_of_nat i)) [1..<n + 1])" and "n \<le> 255" and "distinct shares"
  shows "genuine C p shares" and "0 \<notin> vs_index ` set shares"
proof -
  have mk: "s = make_share C p (vs_index s)" if "s \<in> set shares" for s
    using that assms(1) by (auto simp: make_share_def)
  have "inj_on vs_index (set shares)"
    by (rule inj_onI) (metis mk)
  then show "genuine C p shares" using assms(3) mk by (simp add: genuine_def distinct_map)
  have "word_of_nat i \<noteq> (0 :: 8 word)" if "i \<in> set [1..<n + 1]" for i
  proof -
    have "i < 256" "i \<noteq> 0" using that assms(2) by auto
    then have "unat (word_of_nat i :: 8 word) \<noteq> 0" by (simp add: unat_of_nat)
    then show ?thesis by (metis unat_0)
  qed
  then show "0 \<notin> vs_index ` set shares" using assms(1) by (force simp: make_share_def)
qed

text \<open>C7: data that is not empty, at most the size limit long, and fits after compression into
  \<open>k\<close> scalars (31 bytes each), with a threshold \<open>k\<close> of two or more, at most \<open>n\<close> of them and
  \<open>n\<close> at most 255, at least \<open>k\<close> powers in the reference
  string and random scalars to fill up with, is split; larger data is an error of the code, not covered here. When
  moreover the polynomial's top coefficient is not zero, any \<open>k\<close> or more of the shares, in any order,
  recover the data, through compression and encoding. The curve, the reference string and gzip obey their documented laws.
\<close>

theorem vss_roundtrip:
  assumes "curve_ok C" and "srs_ok C tau srs" and "gzip_ok gz"
    and "split_input C srs gz getrandom data k n scalars padding"
    and "chunks_fit C (fst (compress gz data))"
  shows "\<exists>res. vss_split C (Some srs) gz getrandom data k n = Some (Inr res)
     \<and> (\<forall>shares. last (scalars @ padding) \<noteq> 0 \<longrightarrow> set shares \<subseteq> set (vr_shares res) \<longrightarrow> distinct shares \<longrightarrow> k \<le> length shares \<longrightarrow>
          vss_recover C gz shares k (vr_compressed res) (vr_original_len res) (vr_processed_len res) = Inr data)"
proof -
  note si = assms(4) [unfolded split_input_def]
  obtain res p where r: "vss_split C (Some srs) gz getrandom data k n = Some (Inr res)"
      "dp_coeffs C p = trim (scalars @ padding)" "length (scalars @ padding) = k"
      "vr_shares res = map (\<lambda>i. make_share C p (word_of_nat i)) [1..<n + 1]"
      "vr_compressed res = snd (compress gz data)" "vr_processed_len res = length (fst (compress gz data))"
    by (rule vss_split_laws [OF assms(1,2,4)]) blast
  have "vss_recover C gz shares k (vr_compressed res) (vr_original_len res) (vr_processed_len res) = Inr data"
    if "last (scalars @ padding) \<noteq> 0" "set shares \<subseteq> set (vr_shares res)" "distinct shares" "k \<le> length shares" for shares
  proof -
    note g = shares_genuine [of shares C p n, folded r(4)]
    have "n \<le> 255" and "1 \<le> k" using si by simp_all
    then have "vss_recover C gz shares k (vr_compressed res) (vr_original_len res) (vr_processed_len res) =
        bind_ok (decode_from_scalars C (trim (scalars @ padding)) (length (fst (compress gz data))))
          (\<lambda>d. if snd (compress gz data) then decompress gz d else Inr d)"
      using recover_laws [OF curve_okD(1,2) [OF assms(1)] g(1) g(2) _ that(4) r(2)] that r(3,5,6) by simp
    also have "trim (scalars @ padding) = scalars @ padding" using that(1) by (simp add: trim_id)
    also have "decode_from_scalars C (scalars @ padding) (length (fst (compress gz data))) = Inr (fst (compress gz data))"
      using si by (intro decode_encode assms(5)) simp
    finally show ?thesis
      using compress_roundtrip [OF assms(3), of data "fst (compress gz data)" "snd (compress gz data)"] si
      by (simp add: max_data_size_def max_decompressed_size_def split: if_splits)
  qed
  with r(1) show ?thesis by blast
qed

text \<open>Data that fills all \<open>k\<close> scalars uncompressed and ends in a scalar that is zero is split
  without an error, and no set of shares recovers it: the top coefficient is dropped when the
  polynomial is built, so the decoder has fewer bytes than the data.
\<close>

theorem vss_zero_tail_lost:
  assumes "curve_ok C" and "srs_ok C tau srs"
    and "split_input C srs gz getrandom data k n scalars padding"
    and "length scalars = k" and "last scalars = 0" and "\<not> snd (compress gz data)"
  shows "\<exists>res. vss_split C (Some srs) gz getrandom data k n = Some (Inr res)
     \<and> (\<forall>shares. set shares \<subseteq> set (vr_shares res) \<longrightarrow> distinct shares \<longrightarrow>
          vss_recover C gz shares k (vr_compressed res) (vr_original_len res) (vr_processed_len res) \<noteq> Inr data)"
proof -
  note si = assms(3) [unfolded split_input_def]
  obtain res p where r: "vss_split C (Some srs) gz getrandom data k n = Some (Inr res)"
      "dp_coeffs C p = trim (scalars @ padding)" "length (scalars @ padding) = k"
      "vr_shares res = map (\<lambda>i. make_share C p (word_of_nat i)) [1..<n + 1]"
      "vr_compressed res = snd (compress gz data)" "vr_processed_len res = length (fst (compress gz data))"
    by (rule vss_split_laws [OF assms(1-3)]) blast
  have same: "fst (compress gz data) = data"
    using assms(6) by (auto simp: compress_def split: if_splits option.splits)
  have "scalars \<noteq> []" "num_chunks data = k"
    using encode_scalars_nonempty [of C "fst (compress gz data)" scalars] si assms(4) same by auto
  then have "length (trim scalars) < k" using trim_shorter [of scalars] assms(4,5) by simp
  have "(k - 1) * bytes_per_scalar < length data"
    using num_chunks_bounds(3) [of "k - 1" data] \<open>num_chunks data = k\<close> si by simp
  moreover have "length (trim scalars) * bytes_per_scalar \<le> (k - 1) * bytes_per_scalar"
    using \<open>length (trim scalars) < k\<close> by (intro mult_le_mono1) simp
  ultimately have short: "length (trim scalars) * bytes_per_scalar < length data" by linarith
  have "vss_recover C gz shares k (vr_compressed res) (vr_original_len res) (vr_processed_len res) \<noteq> Inr data"
    if "set shares \<subseteq> set (vr_shares res)" "distinct shares" for shares
  proof (cases "k \<le> length shares")
    case True
    note g = shares_genuine [of shares C p n, folded r(4)]
    have "n \<le> 255" and "1 \<le> k" using si by simp_all
    then have v: "vss_recover C gz shares k (vr_compressed res) (vr_original_len res) (vr_processed_len res) =
        decode_from_scalars C (trim scalars) (length data)"
      using recover_laws [OF curve_okD(1,2) [OF assms(1)] g(1) g(2) _ True r(2)] that r(3,5,6) assms(4,6) same
      by (simp add: bind_ok_def split: sum.splits)
    have "length (concat (map (\<lambda>x. take bytes_per_scalar (scalar_to_bytes C x)) cs)) = length cs * bytes_per_scalar" for cs
      by (induction cs) (simp_all add: bytes_per_scalar_def)
    then show ?thesis unfolding v decode_from_scalars_def using short
      by (auto simp: result_simps dest!: arg_cong [of _ data length])
  next
    case False
    then show ?thesis
      by (auto simp: vss_recover_def ensure_def dest: order_trans [OF _ mod_less_eq_dividend])
  qed
  with r(1) show ?thesis by blast
qed

subsection \<open>Regeneration\<close>

text \<open>After a split, any \<open>k\<close> of its shares regenerate a share at any other index: it
  is the share the split made or would have made there, and its proof is accepted against the
  original commitment.
\<close>

theorem regenerate_share_genuine:
  assumes "curve_ok C" and "srs_ok C tau srs" and "split_input C srs gz getrandom data k n scalars padding"
  shows "\<exists>res. vss_split C (Some srs) gz getrandom data k n = Some (Inr res)
     \<and> (\<forall>shares new_index. set shares \<subseteq> set (vr_shares res) \<longrightarrow> distinct shares \<longrightarrow> k \<le> length shares \<longrightarrow>
          new_index \<noteq> 0 \<longrightarrow> new_index \<notin> vs_index ` set shares \<longrightarrow>
          (\<exists>share proof. regenerate_share C (Some srs) shares k new_index (vr_commitment res) = Some (Inr (share, proof))
             \<and> vs_index share = new_index
             \<and> (unat new_index \<le> n \<longrightarrow> share = vr_shares res ! (unat new_index - 1))
             \<and> verify_kzg_proof C (Some srs) (vr_commitment res) new_index (vs_value share) proof = Inr True))"
proof -
  note si = assms(3) [unfolded split_input_def]
  obtain res p where r: "vss_split C (Some srs) gz getrandom data k n = Some (Inr res)"
      "dp_coeffs C p = trim (scalars @ padding)" "length (scalars @ padding) = k"
      "vr_shares res = map (\<lambda>i. make_share C p (word_of_nat i)) [1..<n + 1]"
      "vr_commitment res = point_bytes C (dp_evaluate C p tau)"
    by (rule vss_split_laws [OF assms]) blast
  show ?thesis
  proof (rule exI [of _ res], intro conjI allI impI)
    fix shares and new_index :: "8 word"
    assume s: "set shares \<subseteq> set (vr_shares res)" "distinct shares" "k \<le> length shares"
      and i: "new_index \<noteq> 0" "new_index \<notin> vs_index ` set shares"
    have "n \<le> 255" and "1 \<le> k" using si by simp_all
    note g = shares_genuine(1) [of shares C p n, folded r(4), OF s(1) this(1) s(2)]
    have le: "length (trim (scalars @ padding)) \<le> length (powers_of_g1 srs)"
      using length_trim_le [of "scalars @ padding"] si unfolding r(3) by simp
    obtain q where q: "lagrange_interpolate C (share_points C k shares) = Inr q" "dp_coeffs C q = trim (scalars @ padding)"
      using genuine_interpolates [OF curve_okD(1,2) [OF assms(1)] g \<open>1 \<le> k\<close> s(3) r(2)] r(3) by auto
    have ev: "dp_evaluate C q x = dp_evaluate C p x" for x
      using q(2) r(2) by (simp add: poly_okD(4) [OF curve_okD(1) [OF assms(1)]])
    have lq: "length (dp_coeffs C q) \<le> length (powers_of_g1 srs)" using q(2) le by simp
    let ?s = "make_share C q new_index"
    obtain proofs where pr: "generate_proofs C srs q [?s] = Some (Inr proofs)"
        "verify_kzg_proof C (Some srs) (point_bytes C (dp_evaluate C q tau)) new_index (vs_value ?s) (proofs ! 0) = Inr True"
      using proofs_laws [OF assms(1,2) lq, of "[?s]"] by (auto simp: make_share_def)
    then obtain w where w: "generate_single_proof C srs q new_index = Some (Inr w)" "proofs ! 0 = w"
      by (auto simp: bind_run_def make_share_def split: option.splits sum.splits)
    have "vs_index x \<noteq> new_index" if "x \<in> set shares" for x using i that by auto
    then have "regenerate_share C (Some srs) shares k new_index (vr_commitment res) = Some (Inr (?s, w))"
      using s(3) i(1) q(1) commitment_laws [OF assms(1,2) lq] w(1) by (simp add: regenerate_share_def r(5) ev)
    moreover have "?s = vr_shares res ! (unat new_index - 1)" if "unat new_index \<le> n"
    proof -
      have "unat new_index \<noteq> 0" using i(1) by (simp add: unat_eq_zero)
      then have "vr_shares res ! (unat new_index - 1) = make_share C p (word_of_nat (unat new_index))"
        using that by (simp add: r(4) del: upt_Suc)
      then show ?thesis by (simp add: make_share_def ev)
    qed
    ultimately show "\<exists>share proof. regenerate_share C (Some srs) shares k new_index (vr_commitment res) = Some (Inr (share, proof))
             \<and> vs_index share = new_index
             \<and> (unat new_index \<le> n \<longrightarrow> share = vr_shares res ! (unat new_index - 1))
             \<and> verify_kzg_proof C (Some srs) (vr_commitment res) new_index (vs_value share) proof = Inr True"
      using pr(2) w(2) r(5) ev by (intro exI [of _ ?s] exI [of _ w]) (simp add: make_share_def)
  qed (rule r(1))
qed

subsection \<open>Soundness of the verifier\<close>

text \<open>C28: an accepted proof of a wrong value solves the problem the reference string is built
  on: together with the honest proof it gives the generator divided by \<open>tau - x\<close>, computed
  from public points only.
\<close>

theorem kzg_forgery_breaks_srs:
  assumes "curve_ok C" and "srs_ok C tau srs" and "length (dp_coeffs C p) \<le> length (powers_of_g1 srs)"
    and "compute_commitment C srs p = Inr commitment"
    and "verify_kzg_proof C (Some srs) commitment i v proof = Inr True"
    and "bytes_to_scalar C v \<noteq> dp_evaluate C p (fr_from_u64 C (unat i))"
  shows "\<exists>honest P H. generate_single_proof C srs p i = Some (Inr honest)
     \<and> g1_deserialize C proof = Some P \<and> g1_deserialize C honest = Some H
     \<and> tau \<noteq> fr_from_u64 C (unat i)
     \<and> g1_mul C (g1_sub C P H) (inverse (dp_evaluate C p (fr_from_u64 C (unat i)) - bytes_to_scalar C v))
        = g1_mul C (g1_generator C) (inverse (tau - fr_from_u64 C (unat i)))"
proof -
  let ?x = "fr_from_u64 C (unat i)" and ?v = "bytes_to_scalar C v"
  have c: "commitment = point_bytes C (dp_evaluate C p tau)"
    using assms(4) commitment_laws [OF assms(1-3)] by simp
  obtain P where "g1_deserialize C proof = Some P"
    using assms(5) by (auto simp: verify_kzg_proof_def result_simps)
  then obtain w where w: "g1_deserialize C proof = Some (gen_mul C w)"
    using assms(1) unfolding curve_ok_def by metis
  have e: "dp_evaluate C p tau - ?v = w * (tau - ?x)"
    using assms(5) by (simp add: c verify_laws [OF assms(1,2) w])
  obtain h where h: "generate_single_proof C srs p i = Some (Inr (point_bytes C h))"
      "dp_evaluate C p tau - dp_evaluate C p ?x = h * (tau - ?x)"
    using single_proof_laws [OF assms(1-3)] by blast
  have d: "(dp_evaluate C p ?x - ?v) = (w - h) * (tau - ?x)"
  proof -
    have "dp_evaluate C p ?x - ?v = (dp_evaluate C p tau - ?v) - (dp_evaluate C p tau - dp_evaluate C p ?x)" by simp
    then show ?thesis by (simp only: e h(2) left_diff_distrib)
  qed
  then have "tau \<noteq> ?x" and "w \<noteq> h" using assms(6) by auto
  then have "(w - h) * inverse (dp_evaluate C p ?x - ?v) = inverse (tau - ?x)"
    unfolding d by (simp add: inverse_mult_distrib)
  then show ?thesis using h(1) w \<open>tau \<noteq> ?x\<close>
    by (simp add: curve_okD(4,5,8) [OF assms(1)])
qed

subsection \<open>A small instance\<close>

text \<open>A field of 256 elements whose curves are the field itself meets every law.\<close>

definition demo_curve :: "(gf256, gf256 list, gf256, gf256, gf256) curve_ops" where
  "demo_curve = \<lparr>
     fr_from_u64 = (\<lambda>n. gf_of (word_of_nat n)),
     fr_from_le_bytes_mod_order = (\<lambda>bs. gf_of (hd bs)),
     fr_into_bigint = (\<lambda>x. [unat (byte_of x), 0, 0, 0]),
     from_coefficients_vec = trim, dp_coeffs = (\<lambda>p. p), dp_is_zero = list_all (\<lambda>c. c = 0),
     dp_degree = (\<lambda>p. if list_all (\<lambda>c. c = 0) p then 0 else length p - 1), dp_evaluate = horner,
     g1_generator = 1, g1_zero = 0, g1_add = (+), g1_sub = (-), g1_mul = (*),
     g1_serialize = (\<lambda>a. Some [byte_of a]), g1_deserialize = (\<lambda>bs. case bs of [b] \<Rightarrow> Some (gf_of b) | _ \<Rightarrow> None),
     g2_generator = 1, g2_sub = (-), g2_mul = (*), g2_deserialize = (\<lambda>bs. case bs of [b] \<Rightarrow> Some (gf_of b) | _ \<Rightarrow> None),
     pairing = (*)\<rparr>"

definition demo_srs :: "(gf256, gf256) srs" where
  "demo_srs = \<lparr>powers_of_g1 = [1, gf_of 3], tau_g2 = gf_of 3\<rparr>"

definition demo_gzip :: gzip where
  "demo_gzip = \<lparr>gz_encode = Some, gz_decode = Some\<rparr>"

definition demo_random :: getrandom where
  "demo_random call n = Some (replicate n 7)"

definition demo_tail :: bytes where
  "demo_tail = 5 # replicate 31 0"

lemma demo_scalar_bytes: "scalar_to_bytes demo_curve x = byte_of x # replicate 31 0"
proof -
  have z: "le_bytes k 0 = replicate k 0" for k by (induction k) simp_all
  have "unat (byte_of x) < 256" using unsigned_less [of "byte_of x", where 'a = nat] by simp
  then have "le_bytes (Suc 7) (unat (byte_of x)) = byte_of x # replicate 7 0"
    unfolding le_bytes.simps by (simp add: z)
  then have "le_bytes 8 (unat (byte_of x)) = byte_of x # replicate 7 0" by simp
  then show ?thesis
    by (simp add: scalar_to_bytes_def demo_curve_def z replicate_add [symmetric] take_replicate)
qed

lemma demo_poly_ok: "poly_ok demo_curve"
  by (auto simp: poly_ok_def demo_curve_def one_gf256_def list_all_iff)

lemma demo_scalar_ok: "scalar_ok demo_curve"
proof -
  have "inj_on (\<lambda>n. gf_of (word_of_nat n)) {0..255}"
    by (rule inj_onI) (auto simp: gf_of_inject dest!: arg_cong [of _ _ unat] simp: unat_of_nat)
  then show ?thesis unfolding scalar_ok_def demo_scalar_bytes by (simp add: demo_curve_def byte_of_inverse)
qed

lemma demo_curve_ok: "curve_ok demo_curve"
  unfolding curve_ok_def using demo_poly_ok demo_scalar_ok
  by (simp add: demo_curve_def byte_of_inverse algebra_simps)

lemma demo_srs_ok: "srs_ok demo_curve (gf_of 3) demo_srs"
  by (auto simp: srs_ok_def demo_srs_def demo_curve_def less_Suc_eq)

lemma demo_input: "split_input demo_curve demo_srs demo_gzip demo_random [5] 2 3 [gf_of 5] [gf_of 7]"
  by (simp add: split_input_def demo_srs_def demo_gzip_def demo_random_def compress_def encode_to_scalars_def demo_curve_def
      max_data_size_def min_compress_size_def num_chunks_def bytes_per_scalar_def chunk_of_def zero_gf256_def gf_of_inject)

theorem vss_split_verifies_witness:
  "\<exists>res. vss_split demo_curve (Some demo_srs) demo_gzip demo_random [5] 2 3 = Some (Inr res)
     \<and> map vs_index (vr_shares res) = map word_of_nat [1..<3 + 1] \<and> length (vr_proofs res) = 3
     \<and> (\<forall>i < 3. verify_kzg_proof demo_curve (Some demo_srs) (vr_commitment res)
           (vs_index (vr_shares res ! i)) (vs_value (vr_shares res ! i)) (vr_proofs res ! i) = Inr True)"
  by (rule vss_split_verifies [OF demo_curve_ok demo_srs_ok demo_input])

lemma demo_fits: "chunks_fit demo_curve (fst (compress demo_gzip [5]))"
  unfolding chunks_fit_def demo_scalar_bytes
  by (simp add: demo_gzip_def compress_def demo_curve_def min_compress_size_def num_chunks_def bytes_per_scalar_def
      chunk_of_def gf_of_inverse)

theorem vss_roundtrip_witness:
  "\<exists>res. vss_split demo_curve (Some demo_srs) demo_gzip demo_random [5] 2 3 = Some (Inr res)
     \<and> (\<forall>shares. set shares \<subseteq> set (vr_shares res) \<longrightarrow> distinct shares \<longrightarrow> 2 \<le> length shares \<longrightarrow>
          vss_recover demo_curve demo_gzip shares 2 (vr_compressed res) (vr_original_len res) (vr_processed_len res) = Inr [5])"
proof -
  have "gzip_ok demo_gzip" by (simp add: gzip_ok_def demo_gzip_def)
  moreover have "last ([gf_of 5] @ [gf_of 7]) \<noteq> 0" by (simp add: zero_gf256_def gf_of_inject)
  ultimately show ?thesis using vss_roundtrip [OF demo_curve_ok demo_srs_ok _ demo_input demo_fits] by blast
qed

lemma demo_tail_input: "split_input demo_curve demo_srs demo_gzip demo_random demo_tail 2 3 [gf_of 5, 0] []"
  by (simp add: split_input_def demo_srs_def demo_gzip_def demo_tail_def compress_def encode_to_scalars_def demo_curve_def
      max_data_size_def min_compress_size_def num_chunks_def bytes_per_scalar_def chunk_of_def zero_gf256_def
      upt_rec [of 0] upt_rec [of "Suc 0"] take_Cons_numeral)

theorem vss_zero_tail_lost_witness:
  "\<exists>res. vss_split demo_curve (Some demo_srs) demo_gzip demo_random demo_tail 2 3 = Some (Inr res)
     \<and> (\<forall>shares. set shares \<subseteq> set (vr_shares res) \<longrightarrow> distinct shares \<longrightarrow>
          vss_recover demo_curve demo_gzip shares 2 (vr_compressed res) (vr_original_len res) (vr_processed_len res) \<noteq> Inr demo_tail)"
  by (rule vss_zero_tail_lost [OF demo_curve_ok demo_srs_ok demo_tail_input])
    (simp_all add: compress_def demo_tail_def min_compress_size_def)

theorem regenerate_share_genuine_witness:
  "\<exists>res. vss_split demo_curve (Some demo_srs) demo_gzip demo_random [5] 2 3 = Some (Inr res)
     \<and> (\<forall>shares new_index. set shares \<subseteq> set (vr_shares res) \<longrightarrow> distinct shares \<longrightarrow> 2 \<le> length shares \<longrightarrow>
          new_index \<noteq> 0 \<longrightarrow> new_index \<notin> vs_index ` set shares \<longrightarrow>
          (\<exists>share proof. regenerate_share demo_curve (Some demo_srs) shares 2 new_index (vr_commitment res) = Some (Inr (share, proof))
             \<and> vs_index share = new_index
             \<and> (unat new_index \<le> 3 \<longrightarrow> share = vr_shares res ! (unat new_index - 1))
             \<and> verify_kzg_proof demo_curve (Some demo_srs) (vr_commitment res) new_index (vs_value share) proof = Inr True))"
  by (rule regenerate_share_genuine [OF demo_curve_ok demo_srs_ok demo_input])

text \<open>The constant polynomial 2 opened at 1 as 0, with the generator itself as the proof.\<close>

theorem kzg_forgery_breaks_srs_witness:
  "\<exists>honest P H. generate_single_proof demo_curve demo_srs [gf_of 2] 1 = Some (Inr honest)
     \<and> g1_deserialize demo_curve [1] = Some P \<and> g1_deserialize demo_curve honest = Some H
     \<and> gf_of 3 \<noteq> fr_from_u64 demo_curve (unat (1 :: 8 word))
     \<and> g1_mul demo_curve (g1_sub demo_curve P H)
          (inverse (dp_evaluate demo_curve [gf_of 2] (fr_from_u64 demo_curve (unat (1 :: 8 word))) - bytes_to_scalar demo_curve [0]))
        = g1_mul demo_curve (g1_generator demo_curve) (inverse (gf_of 3 - fr_from_u64 demo_curve (unat (1 :: 8 word))))"
proof (rule kzg_forgery_breaks_srs [OF demo_curve_ok demo_srs_ok])
  have two: "gf_of 3 - gf_of 1 = gf_of 2" by (simp add: byte_of_inject [symmetric] gf_of_inverse)
  show "length (dp_coeffs demo_curve [gf_of 2]) \<le> length (powers_of_g1 demo_srs)"
    by (simp add: demo_curve_def demo_srs_def)
  show "compute_commitment demo_curve demo_srs [gf_of 2] = Inr [2]"
    by (simp add: compute_commitment_def demo_curve_def demo_srs_def gf_of_inverse)
  show "verify_kzg_proof demo_curve (Some demo_srs) [2] 1 [0] [1] = Inr True"
    using two by (simp add: verify_kzg_proof_def demo_curve_def demo_srs_def bytes_to_scalar_def
      one_gf256_def [symmetric] zero_gf256_def [symmetric])
  show "bytes_to_scalar demo_curve [0] \<noteq> dp_evaluate demo_curve [gf_of 2] (fr_from_u64 demo_curve (unat (1 :: 8 word)))"
    by (simp add: demo_curve_def bytes_to_scalar_def gf_of_inject)
qed

text \<open>Long division by a polynomial with a non-zero leading coefficient returns,
  for any dividend and any field: it gives a quotient and a remainder with \<open>a = q * b + r\<close>
  where the remainder is zero or of smaller degree.
\<close>

theorem division_returns:
  assumes "poly_ok P" and "dp_coeffs P b \<noteq> []" and "last (dp_coeffs P b) \<noteq> 0"
  shows "\<exists>q r. divide_polynomials P a b = Some (Inr (q, r))
     \<and> (\<forall>x. dp_evaluate P a x = dp_evaluate P q x * dp_evaluate P b x + dp_evaluate P r x)
     \<and> (dp_is_zero P r \<or> dp_degree P r < dp_degree P b)"
  using divide_polynomials_laws [OF assms] by blast

theorem division_returns_witness:
  "\<exists>q r. divide_polynomials demo_curve [1, 0, 1] [1, 1] = Some (Inr (q, r))
     \<and> (\<forall>x. dp_evaluate demo_curve [1, 0, 1] x = dp_evaluate demo_curve q x * dp_evaluate demo_curve [1, 1] x + dp_evaluate demo_curve r x)
     \<and> (dp_is_zero demo_curve r \<or> dp_degree demo_curve r < dp_degree demo_curve [1, 1])"
  by (rule division_returns [OF demo_poly_ok]) (simp_all add: demo_curve_def)

end
