(* ===== verification/Key_Sss.thy ===== *)
theory Key_Sss
  imports Gf256 List_Poly
begin

text \<open>
  Splitting the key of a post among its shares
  (\<open>src/packages/wasm-engine/src/kzg/key_sss.rs\<close>): Shamir's scheme on each of the 32 bytes over
  the byte field. The random source \<open>getrandom\<close> is a parameter: call number and buffer length to
  the bytes it fills in, or a failure.
\<close>

datatype key_sss_error = RngFailed | InvalidKeySize | InvalidThreshold | InsufficientShares
  | RecoveryFailed | InvalidShareIndex

record key_share =
  ks_index :: u8
  ks_data :: bytes

definition key_size :: nat where "key_size = 32"

type_synonym rng = "nat \<Rightarrow> nat \<Rightarrow> bytes option"

subsection \<open>Operations\<close>

definition poly_eval :: "bytes \<Rightarrow> u8 \<Rightarrow> u8" where
  "poly_eval coeffs x = foldr (\<lambda>c result. gf256_mul result x XOR c) coeffs 0"

definition sss_split_byte :: "bytes option \<Rightarrow> u8 \<Rightarrow> nat \<Rightarrow> (key_sss_error, (u8 \<times> u8) list) result" where
  "sss_split_byte random secret n =
     ok_or random RngFailed (\<lambda>random_bytes.
       let coeffs = secret # random_bytes
       in Inr (map (\<lambda>x. (word_of_nat x, poly_eval coeffs (word_of_nat x))) [1..<n + 1]))"

definition basis_at_zero :: "(u8 \<times> u8) list \<Rightarrow> nat \<Rightarrow> u8 \<times> u8" where
  "basis_at_zero shares i =
     fold (\<lambda>j (num, den). if i \<noteq> j
            then (gf256_mul num (fst (shares ! j)), gf256_mul den (fst (shares ! i) XOR fst (shares ! j)))
            else (num, den)) [0..<length shares] (1, 1)"

definition lagrange_interpolate_at_zero :: "(u8 \<times> u8) list \<Rightarrow> u8" where
  "lagrange_interpolate_at_zero shares =
     fold (\<lambda>i result. let (num, den) = basis_at_zero shares i
             in result XOR gf256_mul (snd (shares ! i)) (gf256_div num den)) [0..<length shares] 0"

definition push_share :: "key_share \<Rightarrow> u8 \<times> u8 \<Rightarrow> key_share" where
  "push_share sh xy = sh\<lparr>ks_data := ks_data sh @ [snd xy]\<rparr>"

primrec split_bytes :: "rng \<Rightarrow> nat \<Rightarrow> nat \<Rightarrow> nat \<Rightarrow> bytes \<Rightarrow> key_share list \<Rightarrow> (key_sss_error, key_share list) result" where
  "split_bytes getrandom k n i [] shares = Inr shares"
| "split_bytes getrandom k n i (byte # bytes) shares =
     bind_ok (sss_split_byte (getrandom i (k - 1)) byte n) (\<lambda>byte_shares.
       split_bytes getrandom k n (i + 1) bytes (map2 push_share shares byte_shares))"

definition key_split :: "rng \<Rightarrow> bytes \<Rightarrow> nat \<Rightarrow> nat \<Rightarrow> (key_sss_error, key_share list) result" where
  "key_split getrandom key k n =
     ensure (length key = key_size) InvalidKeySize (
     ensure (2 \<le> k \<and> k \<le> n \<and> n \<le> 20) InvalidThreshold (
       split_bytes getrandom k n 0 key (map (\<lambda>x. \<lparr>ks_index = word_of_nat x, ks_data = []\<rparr>) [1..<n + 1])))"

definition key_recover :: "key_share list \<Rightarrow> nat \<Rightarrow> (key_sss_error, bytes) result" where
  "key_recover shares k =
     ensure (k \<le> length shares) InsufficientShares (
     ensure (\<forall>s \<in> set shares. length (ks_data s) = key_size) RecoveryFailed (
     let used_shares = take k shares in
     ensure (\<forall>s \<in> set used_shares. ks_index s \<noteq> 0) InvalidShareIndex (
     ensure (distinct (map ks_index used_shares)) InvalidShareIndex (
       Inr (map (\<lambda>i. lagrange_interpolate_at_zero (map (\<lambda>s. (ks_index s, ks_data s ! i)) used_shares))
              [0..<key_size])))))"

subsection \<open>The byte loops compute in the field\<close>

lemma poly_eval_field: "poly_eval cs x = byte_of (horner (map gf_of cs) (gf_of x))"
  by (induction cs) (simp_all add: poly_eval_def gf_of_inverse)

lemma prod_diff_step:
  "(\<Prod>j \<in> {..<Suc n} - {i}. f j) = (if i \<noteq> n then (\<Prod>j \<in> {..<n} - {i}. f j) * f n else (\<Prod>j \<in> {..<n} - {i}. f j))"
  for f :: "nat \<Rightarrow> gf256"
proof (cases "i = n")
  case False
  then have "{..<Suc n} - {i} = insert n ({..<n} - {i})" by auto
  then show ?thesis using False by (simp add: mult.commute)
next
  case True
  then have "{..<Suc n} - {i} = {..<n} - {i}" by auto
  then show ?thesis using True by simp
qed

lemma basis_at_zero_field:
  defines "X \<equiv> \<lambda>pts j. gf_of (fst (pts ! j))"
  shows "basis_at_zero pts i = (byte_of (\<Prod>j \<in> {..<length pts} - {i}. (0 - X pts j)),
     byte_of (\<Prod>j \<in> {..<length pts} - {i}. (X pts i - X pts j)))"
proof -
  let ?step = "\<lambda>j (num, den). if i \<noteq> j
            then (gf256_mul num (fst (pts ! j)), gf256_mul den (fst (pts ! i) XOR fst (pts ! j)))
            else (num, den)"
  have "fold ?step [0..<n] (1, 1) = (byte_of (\<Prod>j \<in> {..<n} - {i}. (0 - X pts j)),
     byte_of (\<Prod>j \<in> {..<n} - {i}. (X pts i - X pts j)))" for n
  proof (induction n)
    case (Suc n)
    have "fold ?step [0..<Suc n] (1, 1) = ?step n (fold ?step [0..<n] (1, 1))" by simp
    then show ?case by (simp only: Suc prod_diff_step) (simp add: X_def gf_of_inverse)
  qed simp
  then show ?thesis by (simp add: basis_at_zero_def)
qed

lemma lagrange_at_zero_field:
  "lagrange_interpolate_at_zero pts =
     byte_of (lagrange_sum (\<lambda>i. gf_of (fst (pts ! i))) (\<lambda>i. gf_of (snd (pts ! i))) (length pts) 0)"
proof -
  let ?num = "\<lambda>i. \<Prod>j \<in> {..<length pts} - {i}. (0 - gf_of (fst (pts ! j)))"
  let ?den = "\<lambda>i. \<Prod>j \<in> {..<length pts} - {i}. (gf_of (fst (pts ! i)) - gf_of (fst (pts ! j)))"
  let ?step = "\<lambda>i result. let (num, den) = basis_at_zero pts i
             in result XOR gf256_mul (snd (pts ! i)) (gf256_div num den)"
  have "fold ?step [0..<n] 0 = byte_of (\<Sum>i < n. ?num i * (gf_of (snd (pts ! i)) / ?den i))" for n
  proof (induction n)
    case (Suc n)
    have "fold ?step [0..<Suc n] 0 = ?step n (fold ?step [0..<n] 0)" by simp
    also have "\<dots> = ?step n (byte_of (\<Sum>i < n. ?num i * (gf_of (snd (pts ! i)) / ?den i)))"
      by (simp only: Suc)
    also have "\<dots> = byte_of ((\<Sum>i < n. ?num i * (gf_of (snd (pts ! i)) / ?den i)) + gf_of (snd (pts ! n)) * (?num n / ?den n))"
      by (simp only: basis_at_zero_field byte_of_simps Let_def prod.case gf_of_inverse [OF UNIV_I])
    also have "gf_of (snd (pts ! n)) * (?num n / ?den n) = ?num n * (gf_of (snd (pts ! n)) / ?den n)" by simp
    finally show ?case by (simp only: sum.lessThan_Suc)
  qed simp
  then show ?thesis by (simp add: lagrange_interpolate_at_zero_def lagrange_sum_def)
qed

subsection \<open>What a split produces\<close>

definition share_of :: "bytes \<Rightarrow> (nat \<Rightarrow> bytes) \<Rightarrow> nat \<Rightarrow> key_share" where
  "share_of key rand x = \<lparr>ks_index = word_of_nat x,
     ks_data = map (\<lambda>j. poly_eval (key ! j # rand j) (word_of_nat x)) [0..<length key]\<rparr>"

lemma split_bytes_eq:
  assumes "\<And>j. j < length bs \<Longrightarrow> g (i + j) (k - 1) = Some (rand (i + j))" and "length shares = n"
  shows "split_bytes g k n i bs shares = Inr (map (\<lambda>m. (shares ! m)\<lparr>ks_data := ks_data (shares ! m)
      @ map (\<lambda>j. poly_eval (bs ! j # rand (i + j)) (word_of_nat (m + 1))) [0..<length bs]\<rparr>) [0..<n])"
  using assms
proof (induction bs arbitrary: i shares)
  case Nil
  then show ?case using map_nth [of shares] by simp
next
  case (Cons b bs)
  let ?pe = "\<lambda>m. poly_eval (b # rand i) (word_of_nat (m + 1))"
  let ?shares = "map2 push_share shares (map (\<lambda>x. (word_of_nat x, poly_eval (b # rand i) (word_of_nat x))) [1..<n + 1])"
  have g: "g i (k - 1) = Some (rand i)" using Cons.prems(1) [of 0] by simp
  have sh: "?shares ! m = (shares ! m)\<lparr>ks_data := ks_data (shares ! m) @ [?pe m]\<rparr>" if "m < n" for m
    using that Cons.prems(2) by (simp add: push_share_def nth_append del: upt_Suc)
  have "split_bytes g k n i (b # bs) shares = split_bytes g k n (i + 1) bs ?shares"
    by (simp add: sss_split_byte_def g [simplified] Let_def del: upt_Suc)
  also have "\<dots> = Inr (map (\<lambda>m. (?shares ! m)\<lparr>ks_data := ks_data (?shares ! m)
      @ map (\<lambda>j. poly_eval (bs ! j # rand (i + 1 + j)) (word_of_nat (m + 1))) [0..<length bs]\<rparr>) [0..<n])"
  proof (rule Cons.IH)
    show "g (i + 1 + j) (k - 1) = Some (rand (i + 1 + j))" if "j < length bs" for j
      using Cons.prems(1) [of "Suc j"] that by simp
  qed (use Cons.prems(2) in simp)
  also have "\<dots> = Inr (map (\<lambda>m. (shares ! m)\<lparr>ks_data := ks_data (shares ! m)
      @ map (\<lambda>j. poly_eval ((b # bs) ! j # rand (i + j)) (word_of_nat (m + 1))) [0..<length (b # bs)]\<rparr>) [0..<n])"
  proof -
    have "map (\<lambda>j. poly_eval ((b # bs) ! j # rand (i + j)) w) [0..<length (b # bs)]
        = poly_eval (b # rand i) w # map (\<lambda>j. poly_eval (bs ! j # rand (i + 1 + j)) w) [0..<length bs]" for w
      by (simp add: upt_conv_Cons map_Suc_upt [symmetric] o_def del: upt_Suc)
    then show ?thesis by (intro arg_cong [where f = Inr] map_cong refl) (simp only: sh set_upt atLeastLessThan_iff, simp)
  qed
  finally show ?case .
qed

lemma split_bytes_Inr:
  "split_bytes g k n i bs shares = Inr out \<Longrightarrow> j < length bs \<Longrightarrow> g (i + j) (k - 1) \<noteq> None"
proof (induction bs arbitrary: i j shares)
  case (Cons b bs)
  then show ?case by (cases j) (auto simp: sss_split_byte_def result_simps dest: Cons.IH)
qed simp

lemma key_split_eq:
  assumes "length key = key_size" and "2 \<le> k" and "k \<le> n" and "n \<le> 20"
    and "\<And>j. j < key_size \<Longrightarrow> g j (k - 1) = Some (rand j)"
  shows "key_split g key k n = Inr (map (share_of key rand) [1..<n + 1])"
proof -
  have "key_split g key k n = Inr (map (\<lambda>m. share_of key rand (m + 1)) [0..<n])"
    using assms(1-4) split_bytes_eq [of key g 0 k rand "map (\<lambda>x. \<lparr>ks_index = word_of_nat x, ks_data = []\<rparr>) [1..<n + 1]" n] assms(5)
    by (simp add: key_split_def share_of_def nth_append cong: map_cong del: upt_Suc)
  also have "map (\<lambda>m. share_of key rand (m + 1)) [0..<n] = map (share_of key rand) [1..<n + 1]"
    by (rule nth_equalityI) (simp_all del: upt_Suc)
  finally show ?thesis .
qed

lemma key_split_Inr:
  assumes "key_split g key k n = Inr shares"
  obtains rand where "length key = key_size" "2 \<le> k" "k \<le> n" "n \<le> 20"
    "\<And>j. j < key_size \<Longrightarrow> g j (k - 1) = Some (rand j)" "shares = map (share_of key rand) [1..<n + 1]"
proof -
  have c: "length key = key_size" "2 \<le> k" "k \<le> n" "n \<le> 20"
    and sb: "split_bytes g k n 0 key (map (\<lambda>x. \<lparr>ks_index = word_of_nat x, ks_data = []\<rparr>) [1..<n + 1]) = Inr shares"
    using assms [unfolded key_split_def result_simps] by blast+
  have r: "g j (k - 1) = Some (the (g j (k - 1)))" if "j < key_size" for j
    using split_bytes_Inr [OF sb, of j] that c by simp
  show ?thesis
  proof (rule that [OF c r])
    show "shares = map (share_of key (\<lambda>j. the (g j (k - 1)))) [1..<n + 1]"
      using key_split_eq [where g = g and rand = "\<lambda>j. the (g j (k - 1))", OF c r] assms by simp
  qed
qed

lemma unat_index: "x < 256 \<Longrightarrow> unat (word_of_nat x :: u8) = x"
  by (simp add: unsigned_of_nat take_bit_nat_eq_self)

lemma index_inj:
  assumes "x \<in> {1..20}" and "y \<in> {1..20}" and "word_of_nat x = (word_of_nat y :: u8)"
  shows "x = y"
proof -
  have "unat (word_of_nat x :: u8) = x" "unat (word_of_nat y :: u8) = y"
    using assms(1, 2) by (simp_all add: unat_index)
  with assms(3) show ?thesis by metis
qed

lemma index_nonzero: "x \<in> {1..20} \<Longrightarrow> word_of_nat x \<noteq> (0 :: u8)"
  using unat_index [of x] by auto

lemma share_of_simps [simp]:
  "ks_index (share_of key rand x) = word_of_nat x" "length (ks_data (share_of key rand x)) = length key"
  "i < length key \<Longrightarrow> ks_data (share_of key rand x) ! i = poly_eval (key ! i # rand i) (word_of_nat x)"
  by (simp_all add: share_of_def)

text \<open>Interpolating one byte of the shares at the points \<open>xs\<close> gives that byte of the key.\<close>

lemma interpolate_byte:
  assumes "distinct xs" and "set xs \<subseteq> {1..20}" and "length (rand i) < length xs" and "i < length key"
  shows "lagrange_interpolate_at_zero (map (\<lambda>s. (ks_index s, ks_data s ! i)) (map (share_of key rand) xs)) = key ! i"
proof -
  let ?pts = "map (\<lambda>s. (ks_index s, ks_data s ! i)) (map (share_of key rand) xs)"
  let ?X = "\<lambda>j. gf_of (fst (?pts ! j))" and ?Y = "\<lambda>j. gf_of (snd (?pts ! j))"
  let ?cs = "map gf_of (key ! i # rand i)"
  have "inj_on ?X {..<length xs}"
  proof (rule inj_onI)
    fix a b assume ab: "a \<in> {..<length xs}" "b \<in> {..<length xs}" "?X a = ?X b"
    then have "word_of_nat (xs ! a) = (word_of_nat (xs ! b) :: u8)" by (simp add: gf_of_inject)
    moreover have "xs ! a \<in> set xs" "xs ! b \<in> set xs" using ab by simp_all
    then have "xs ! a \<in> {1..20}" "xs ! b \<in> {1..20}" using assms(2) by blast+
    ultimately show "a = b" using ab assms(1) index_inj [of "xs ! a" "xs ! b"] by (simp add: nth_eq_iff_index_eq)
  qed
  moreover have "?Y j = horner ?cs (?X j)" if "j < length xs" for j
    using that assms(4) by (simp add: poly_eval_field byte_of_inverse del: byte_of_simps horner_simps)
  ultimately have "lagrange_sum ?X ?Y (length xs) 0 = horner ?cs 0"
    using assms(3) by (intro lagrange_interpolates) simp_all
  then show ?thesis
    by (simp add: lagrange_at_zero_field gf_of_inverse)
qed

lemma used_indices:
  assumes "set used \<subseteq> set (map (share_of key rand) [1..<n + 1])" and "distinct used" and "n \<le> 20"
  obtains xs where "used = map (share_of key rand) xs" "distinct xs" "set xs \<subseteq> {1..20}" "set xs \<subseteq> {1..n}"
proof -
  have "\<forall>s \<in> set used. \<exists>x \<in> {1..n}. s = share_of key rand x"
    using assms(1) by (auto simp: image_iff simp del: upt_Suc) fastforce
  then obtain f where f: "\<And>s. s \<in> set used \<Longrightarrow> f s \<in> {1..n} \<and> s = share_of key rand (f s)"
    by metis
  have "used = map (share_of key rand) (map f used)"
    using f by (simp add: map_idI)
  moreover have "distinct (map f used)"
    using assms(2) f by (auto simp: distinct_map inj_on_def) metis
  ultimately show ?thesis using that f assms(3) by fastforce
qed

text \<open>Recovery inverts splitting.\<close>

lemma key_recover_split:
  assumes "key_split getrandom key k n = Inr shares"
    and "\<forall>i m bs. getrandom i m = Some bs \<longrightarrow> length bs = m"
    and "set used \<subseteq> set shares" and "distinct used" and "k \<le> length used"
  shows "key_recover used k = Inr key"
proof -
  obtain rand where key: "length key = key_size" "2 \<le> k" "k \<le> n" "n \<le> 20"
    and g: "\<And>j. j < key_size \<Longrightarrow> getrandom j (k - 1) = Some (rand j)"
    and sh: "shares = map (share_of key rand) [1..<n + 1]"
    using key_split_Inr [OF assms(1)] by metis
  obtain xs where xs: "used = map (share_of key rand) xs" "distinct xs" "set xs \<subseteq> {1..20}"
    using used_indices [of used key rand n] assms(3, 4) key sh by metis
  let ?ys = "take k xs"
  have ys: "distinct ?ys" "set ?ys \<subseteq> {1..20}" "length ?ys = k" "take k used = map (share_of key rand) ?ys"
    using xs assms(5) set_take_subset [of k xs] by (auto simp: take_map)
  have b: "lagrange_interpolate_at_zero (map (\<lambda>s. (ks_index s, ks_data s ! i)) (take k used)) = key ! i"
    if "i < key_size" for i
  proof -
    have "length (rand i) = k - 1" using assms(2) g [OF that] by blast
    then show ?thesis
      unfolding ys(4) by (intro interpolate_byte) (use ys that key in simp_all)
  qed
  have "inj_on (\<lambda>x. word_of_nat x :: u8) (set ?ys)"
    using ys(2) index_inj by (meson inj_onI subset_iff)
  then have "distinct (map ks_index (take k used))"
    using ys(1, 4) by (simp add: distinct_map o_def)
  moreover have "\<forall>s \<in> set (take k used). ks_index s \<noteq> 0"
    using ys index_nonzero by auto
  moreover have "\<forall>s \<in> set used. length (ks_data s) = key_size"
    using xs key by auto
  moreover have "map (\<lambda>i. lagrange_interpolate_at_zero (map (\<lambda>s. (ks_index s, ks_data s ! i)) (take k used))) [0..<key_size] = key"
    using key by (intro nth_equalityI) (simp_all add: b)
  ultimately show ?thesis
    using assms(5) by (simp add: key_recover_def)
qed

text \<open>C9: splitting a key and recovering it from any k of its shares, in any order, gives the key
  back: for every 32-byte key, every threshold and number of shares the split accepts and whatever
  the random source returns, as long as it fills its buffers.
\<close>

theorem key_sss_roundtrip:
  assumes "key_split getrandom key k n = Inr shares"
    and "\<forall>i m bs. getrandom i m = Some bs \<longrightarrow> length bs = m"
    and "set used \<subseteq> set shares" and "distinct used" and "k \<le> length used"
  shows "key_recover used k = Inr key"
  by (rule key_recover_split [OF assms])

definition demo_shares :: "key_share list" where
  "demo_shares = map (share_of (replicate 32 5) (\<lambda>_. [7])) [1..<3 + 1]"

lemma demo_split: "key_split (\<lambda>_ m. Some (replicate m 7)) (replicate 32 5) 2 3 = Inr demo_shares"
  unfolding demo_shares_def by (rule key_split_eq) (simp_all add: key_size_def)

lemma key_sss_roundtrip_witness: "key_recover [demo_shares ! 2, demo_shares ! 0] 2 = Inr (replicate 32 5)"
proof -
  have "demo_shares ! 0 \<noteq> demo_shares ! 2" by (simp add: demo_shares_def share_of_def del: upt_Suc)
  moreover have "length demo_shares = 3" by (simp add: demo_shares_def del: upt_Suc)
  ultimately show ?thesis by (intro key_sss_roundtrip [OF demo_split]) auto
qed

lemma ex1_list:
  assumes "\<And>i. i < m \<Longrightarrow> \<exists>!c. P i c"
  shows "\<exists>!l. length l = m \<and> (\<forall>i < m. P i (l ! i))"
proof -
  from assms obtain f where f: "\<And>i. i < m \<Longrightarrow> P i (f i)" by metis
  show ?thesis
  proof (rule ex1I [of _ "map f [0..<m]"])
    fix l assume l: "length l = m \<and> (\<forall>i < m. P i (l ! i))"
    have "l ! i = f i" if "i < m" for i
      using that l f [OF that] assms [OF that] by blast
    with l show "l = map f [0..<m]" by (intro nth_equalityI) simp_all
  qed (simp add: f)
qed

definition same_byte :: "bytes \<Rightarrow> bytes \<Rightarrow> (nat \<Rightarrow> bytes) \<Rightarrow> nat list \<Rightarrow> nat \<Rightarrow> nat \<Rightarrow> bytes \<Rightarrow> bool" where
  "same_byte key key' rand xs k i c \<longleftrightarrow> length c = k - 1 \<and>
     (\<forall>x \<in> set xs. poly_eval (key' ! i # c) (word_of_nat x) = poly_eval (key ! i # rand i) (word_of_nat x))"

text \<open>One byte: the secret at zero and the k - 1 values seen determine the coefficients.\<close>

lemma same_byte_ex1:
  assumes "distinct xs" and "set xs \<subseteq> {1..20}" and "length xs = k - 1" and "2 \<le> k"
  shows "\<exists>!c. same_byte key key' rand xs k i c"
proof -
  let ?X = "\<lambda>j. if j = 0 then 0 else gf_of (word_of_nat (xs ! (j - 1)))"
  let ?Y = "\<lambda>j. if j = 0 then gf_of (key' ! i) else gf_of (poly_eval (key ! i # rand i) (word_of_nat (xs ! (j - 1))))"
  have x: "xs ! j \<in> {1..20}" if "j < k - 1" for j
  proof -
    have "xs ! j \<in> set xs" using that assms(3) by simp
    with assms(2) show ?thesis by blast
  qed
  have inj: "inj_on ?X {..<k}"
  proof (rule inj_onI)
    have nz: "gf_of (word_of_nat (xs ! (j - 1))) \<noteq> 0" if "j < k" "j \<noteq> 0" for j
      using that index_nonzero [OF x [of "j - 1"]] by (simp add: zero_gf256_def gf_of_inject)
    fix a b assume ab: "a \<in> {..<k}" "b \<in> {..<k}" "?X a = ?X b"
    show "a = b"
    proof (cases "a = 0 \<or> b = 0")
      case True
      with ab nz [of a] nz [of b] show ?thesis by (auto split: if_splits)
    next
      case False
      with ab have lt: "a - 1 < k - 1" "b - 1 < k - 1" and "word_of_nat (xs ! (a - 1)) = (word_of_nat (xs ! (b - 1)) :: u8)"
        by (auto simp: gf_of_inject)
      then have "xs ! (a - 1) = xs ! (b - 1)" using index_inj [OF x [OF lt(1)] x [OF lt(2)]] by blast
      with lt have "a - 1 = b - 1" using assms(1, 3) by (simp add: nth_eq_iff_index_eq)
      with False show ?thesis by linarith
    qed
  qed
  define Q where "Q cs \<longleftrightarrow> length cs = k \<and> (\<forall>j < k. horner cs (?X j) = ?Y j)" for cs
  have "\<exists>!cs. Q cs" unfolding Q_def by (rule interpolation_unique [OF inj])
  moreover have "same_byte key key' rand xs k i c \<longleftrightarrow> Q (map gf_of (key' ! i # c))" for c
  proof -
    have split: "(\<forall>j < k. P j) \<longleftrightarrow> P 0 \<and> (\<forall>j < k - 1. P (Suc j))" for P
      using assms(4) by (cases k) (auto simp: All_less_Suc2)
    have "Q (map gf_of (key' ! i # c)) \<longleftrightarrow> length c = k - 1 \<and>
        (\<forall>j < k - 1. poly_eval (key' ! i # c) (word_of_nat (xs ! j)) = poly_eval (key ! i # rand i) (word_of_nat (xs ! j)))"
      unfolding Q_def split using assms(4)
      by (auto simp: poly_eval_field byte_of_inverse byte_of_inject simp del: byte_of_simps)
    then show ?thesis by (simp add: same_byte_def all_set_conv_all_nth assms(3))
  qed
  moreover have "\<exists>c. cs = map gf_of (key' ! i # c)" if "Q cs" for cs
  proof -
    from that assms(4) obtain d ds where cs: "cs = d # ds" unfolding Q_def by (cases cs) auto
    have "horner cs 0 = gf_of (key' ! i)" using that assms(4) unfolding Q_def by force
    then have "d = gf_of (key' ! i)" by (simp add: cs)
    moreover have "ds = map gf_of (map byte_of ds)" by (simp add: byte_of_inverse o_def)
    ultimately show ?thesis using cs by (metis list.simps(9))
  qed
  moreover have "c = c'" if "map gf_of (key' ! i # c) = map gf_of (key' ! i # c')" for c c'
    using that by (simp add: inj_map_eq_map inj_def gf_of_inject)
  ultimately show ?thesis by metis
qed

lemma share_of_eq:
  "length key = length key' \<Longrightarrow> share_of key' rand' x = share_of key rand x
    \<longleftrightarrow> (\<forall>i < length key. poly_eval (key' ! i # rand' i) (word_of_nat x) = poly_eval (key ! i # rand i) (word_of_nat x))"
  by (auto simp: share_of_def)

text \<open>C10: k - 1 shares say nothing about the key. Whatever key they were split from, every other
  32-byte key has, for any k - 1 of the shares, exactly one choice of the random coefficients that
  produces the same k - 1 shares: all keys remain equally likely.
\<close>

theorem key_sss_secrecy:
  assumes "key_split getrandom key k n = Inr shares"
    and "length key' = key_size"
    and "set seen \<subseteq> set shares" and "distinct seen" and "length seen = k - 1"
  shows "\<exists>!coeffs. length coeffs = key_size \<and> (\<forall>cs \<in> set coeffs. length cs = k - 1)
    \<and> (\<exists>shares'. key_split (\<lambda>i m. Some (coeffs ! i)) key' k n = Inr shares' \<and> set seen \<subseteq> set shares')"
proof -
  obtain rand where key: "length key = key_size" "2 \<le> k" "k \<le> n" "n \<le> 20"
    and sh: "shares = map (share_of key rand) [1..<n + 1]"
    using key_split_Inr [OF assms(1)] by metis
  obtain xs where xs: "seen = map (share_of key rand) xs" "distinct xs" "set xs \<subseteq> {1..20}" "set xs \<subseteq> {1..n}"
    using used_indices [of seen key rand n] assms(3, 4) key sh by metis
  have split: "key_split (\<lambda>i m. Some (coeffs ! i)) key' k n = Inr (map (share_of key' ((!) coeffs)) [1..<n + 1])" for coeffs
    by (rule key_split_eq) (use key assms(2) in simp_all)
  have match: "set seen \<subseteq> set (map (share_of key' ((!) coeffs)) [1..<n + 1])
      \<longleftrightarrow> (\<forall>x \<in> set xs. share_of key' ((!) coeffs) x = share_of key rand x)" for coeffs
  proof -
    have "share_of key rand x \<in> set (map (share_of key' ((!) coeffs)) [1..<n + 1])
        \<longleftrightarrow> share_of key' ((!) coeffs) x = share_of key rand x" if "x \<in> set xs" for x
    proof
      assume "share_of key rand x \<in> set (map (share_of key' ((!) coeffs)) [1..<n + 1])"
      then obtain y where y: "y \<in> {1..n}" "share_of key rand x = share_of key' ((!) coeffs) y" by fastforce
      then have "word_of_nat x = (word_of_nat y :: u8)" by (metis share_of_simps(1))
      moreover have "x \<in> {1..20}" "y \<in> {1..20}" using y that xs key by auto
      ultimately have "x = y" by (metis index_inj)
      with y show "share_of key' ((!) coeffs) x = share_of key rand x" by simp
    next
      assume "share_of key' ((!) coeffs) x = share_of key rand x"
      moreover have "x \<in> set [1..<n + 1]" using that xs by auto
      ultimately show "share_of key rand x \<in> set (map (share_of key' ((!) coeffs)) [1..<n + 1])"
        by (metis imageI list.set_map)
    qed
    then have "(\<forall>x \<in> set xs. share_of key rand x \<in> set (map (share_of key' ((!) coeffs)) [1..<n + 1]))
        \<longleftrightarrow> (\<forall>x \<in> set xs. share_of key' ((!) coeffs) x = share_of key rand x)" by (rule ball_cong [OF refl])
    then show ?thesis by (simp only: xs(1) set_map image_subset_iff)
  qed
  have "length coeffs = key_size \<and> (\<forall>cs \<in> set coeffs. length cs = k - 1)
      \<and> (\<exists>shares'. key_split (\<lambda>i m. Some (coeffs ! i)) key' k n = Inr shares' \<and> set seen \<subseteq> set shares')
    \<longleftrightarrow> length coeffs = key_size \<and> (\<forall>i < key_size. same_byte key key' rand xs k i (coeffs ! i))" for coeffs
  proof -
    have "(\<exists>shares'. key_split (\<lambda>i m. Some (coeffs ! i)) key' k n = Inr shares' \<and> set seen \<subseteq> set shares')
        \<longleftrightarrow> (\<forall>x \<in> set xs. share_of key' ((!) coeffs) x = share_of key rand x)"
      using match [of coeffs] by (simp only: split sum.inject) blast
    then show ?thesis
      using key(1) assms(2) by (auto simp: share_of_eq same_byte_def all_set_conv_all_nth)
  qed
  then show ?thesis
    using ex1_list [of key_size "same_byte key key' rand xs k"] same_byte_ex1 [of xs k]
      xs assms(2, 5) key by simp
qed

lemma key_sss_secrecy_witness:
  "\<exists>!coeffs. length coeffs = key_size \<and> (\<forall>cs \<in> set coeffs. length cs = 1)
    \<and> (\<exists>shares'. key_split (\<lambda>i m. Some (coeffs ! i)) (replicate 32 9) 2 3 = Inr shares'
          \<and> set [demo_shares ! 1] \<subseteq> set shares')"
proof -
  have "length demo_shares = 3" by (simp add: demo_shares_def del: upt_Suc)
  then show ?thesis
    using key_sss_secrecy [OF demo_split, of "replicate 32 9" "[demo_shares ! 1]"]
    by (simp add: key_size_def)
qed

end
