(* ===== verification/Hybrid.thy ===== *)
theory Hybrid
  imports Key_Sss Kzg_Encoding
begin

text \<open>
  How a post becomes its shares (\<open>src/packages/wasm-engine/src/kzg/hybrid.rs\<close>,
  \<open>kzg/reed_solomon.rs\<close>, \<open>kzg/encryption.rs\<close>): compress, encrypt under a fresh key, spread the
  ciphertext with an erasure code and the key with \<open>Key_Sss\<close>, and back. The erasure code, the
  cipher, the hash and gzip are parameters.
\<close>

datatype encryption_error = InvalidCipherKeySize | EncryptionFailed | DecryptionFailed | CiphertextTooShort
  | RandomGenerationFailed

datatype rs_error = RsInvalidThreshold | RsEmptyData | InsufficientShards | ShardSizeMismatch
  | EncodeFailed | DecodeFailed | InvalidShardIndex

text \<open>The messages of the inner errors are represented by the errors.\<close>

datatype hybrid_error = HybridEmptyData | HybridDataTooLarge | HybridInvalidThreshold
  | Encryption encryption_error | ReedSolomon rs_error | KeySss key_sss_error
  | HybridRecoveryFailed | HybridDecompressionFailed

record rs_shard =
  rs_index :: nat
  rs_data :: bytes

record hybrid_shard =
  hs_index :: nat
  hs_chunk :: bytes
  hs_chunk_hash :: bytes
  hs_key_share :: key_share

record hybrid_split_result =
  hr_shards :: "hybrid_shard list"
  hr_original_len :: nat
  hr_compressed :: bool
  hr_ciphertext_len :: nat
  hr_shard_size :: nat
  hr_threshold :: nat
  hr_total_shards :: nat

record libs =
  rs_new :: "nat \<Rightarrow> nat \<Rightarrow> bool"
  rs_parity :: "nat \<Rightarrow> nat \<Rightarrow> bytes list \<Rightarrow> bytes list option"
  rs_reconstruct :: "nat \<Rightarrow> nat \<Rightarrow> bytes option list \<Rightarrow> bytes option list option"
  aes_encrypt :: "bytes \<Rightarrow> bytes \<Rightarrow> bytes \<Rightarrow> bytes option"
  aes_decrypt :: "bytes \<Rightarrow> bytes \<Rightarrow> bytes \<Rightarrow> bytes option"
  blake2b :: "bytes \<Rightarrow> bytes"
  gz :: gzip

definition nonce_size :: nat where "nonce_size = 12"
definition hybrid_max_data :: nat where "hybrid_max_data = 32 * 1024 * 1024"

subsection \<open>Encryption\<close>

definition generate_key :: "rng \<Rightarrow> (encryption_error, bytes) result" where
  "generate_key getrandom = ok_or (getrandom 0 key_size) RandomGenerationFailed Inr"

definition encrypt :: "libs \<Rightarrow> bytes option \<Rightarrow> bytes \<Rightarrow> bytes \<Rightarrow> (encryption_error, bytes) result" where
  "encrypt L nonce_random plaintext key =
     ensure (length key = key_size) InvalidCipherKeySize (
     ok_or nonce_random RandomGenerationFailed (\<lambda>nonce.
     ok_or (aes_encrypt L key nonce plaintext) EncryptionFailed (\<lambda>ciphertext. Inr (nonce @ ciphertext))))"

definition decrypt :: "libs \<Rightarrow> bytes \<Rightarrow> bytes \<Rightarrow> (encryption_error, bytes) result" where
  "decrypt L ciphertext key =
     ensure (length key = key_size) InvalidCipherKeySize (
     ensure (nonce_size \<le> length ciphertext) CiphertextTooShort (
     ok_or (aes_decrypt L key (take nonce_size ciphertext) (drop nonce_size ciphertext)) DecryptionFailed Inr))"

subsection \<open>Erasure coding\<close>

definition data_shard :: "bytes \<Rightarrow> nat \<Rightarrow> nat \<Rightarrow> bytes" where
  "data_shard data shard_size i =
     (let start = i * shard_size; end = min (start + shard_size) (length data);
          shard = (if start < length data then take (end - start) (drop start data) else [])
      in take shard_size shard @ replicate (shard_size - length shard) 0)"

definition rs_encode :: "libs \<Rightarrow> bytes \<Rightarrow> nat \<Rightarrow> nat \<Rightarrow> (rs_error, rs_shard list \<times> nat \<times> nat) result" where
  "rs_encode L data k n =
     ensure (1 \<le> k \<and> k \<le> n \<and> 2 \<le> n) RsInvalidThreshold (
     ensure (data \<noteq> []) RsEmptyData (
     ensure (rs_new L k (n - k)) RsInvalidThreshold (
     let shard_size = (length data + k - 1) div k;
         shards = map (data_shard data shard_size) [0..<k] @ replicate (n - k) (replicate shard_size 0)
     in ok_or (rs_parity L k (n - k) shards) EncodeFailed (\<lambda>encoded.
          Inr (map (\<lambda>(i, d). \<lparr>rs_index = i, rs_data = d\<rparr>) (enumerate 0 encoded), length data, shard_size)))))"

definition rs_decode :: "libs \<Rightarrow> rs_shard option list \<Rightarrow> nat \<Rightarrow> nat \<Rightarrow> nat \<Rightarrow> nat \<Rightarrow> (rs_error, bytes) result" where
  "rs_decode L shards k n original_len shard_size =
     ensure (1 \<le> k \<and> k \<le> n \<and> 2 \<le> n) RsInvalidThreshold (
     ensure (length shards = n) InsufficientShards (
     ensure (k \<le> length (filter (\<lambda>s. s \<noteq> None) shards)) InsufficientShards (
     ensure (rs_new L k (n - k)) RsInvalidThreshold (
     let shard_data = map (map_option rs_data) shards
     in ensure (\<forall>d. Some d \<in> set shard_data \<longrightarrow> length d = shard_size) ShardSizeMismatch (
        ok_or (rs_reconstruct L k (n - k) shard_data) DecodeFailed (\<lambda>all.
        ok_or (those (take k all)) DecodeFailed (\<lambda>data.
          Inr (take original_len (concat data)))))))))"

definition place_shards :: "rs_shard list \<Rightarrow> nat \<Rightarrow> rs_shard option list" where
  "place_shards available n = fold (\<lambda>s v. v[rs_index s := Some s]) available (replicate n None)"

definition rs_decode_from_shards
  :: "libs \<Rightarrow> rs_shard list \<Rightarrow> nat \<Rightarrow> nat \<Rightarrow> nat \<Rightarrow> nat \<Rightarrow> (rs_error, bytes) result" where
  "rs_decode_from_shards L available k n original_len shard_size =
     ensure (k \<le> length available) InsufficientShards (
     ensure (\<forall>s \<in> set available. rs_index s < n) InvalidShardIndex (
     rs_decode L (place_shards available n) k n original_len shard_size))"

subsection \<open>The hybrid split\<close>

text \<open>The random source is drawn from in the order of the calls: the key, the nonce, the key shares.\<close>

definition hybrid_split :: "libs \<Rightarrow> rng \<Rightarrow> bytes \<Rightarrow> nat \<Rightarrow> nat \<Rightarrow> (hybrid_error, hybrid_split_result) result" where
  "hybrid_split L getrandom data k n =
     ensure (data \<noteq> []) HybridEmptyData (
     ensure (length data \<le> hybrid_max_data) HybridDataTooLarge (
     ensure (2 \<le> k \<and> k \<le> n) HybridInvalidThreshold (
     let (processed_data, compressed) = compress (gz L) data
     in bind_from Encryption (generate_key getrandom) (\<lambda>key.
        bind_from Encryption (encrypt L (getrandom 1 nonce_size) processed_data key) (\<lambda>ciphertext.
        bind_from ReedSolomon (rs_encode L ciphertext k n) (\<lambda>(rs_shards, _, shard_size).
        bind_from KeySss (key_split (\<lambda>i. getrandom (i + 2)) key k n) (\<lambda>key_shares.
          Inr \<lparr>hr_shards = map2 (\<lambda>r ks. \<lparr>hs_index = rs_index r, hs_chunk = rs_data r,
                   hs_chunk_hash = blake2b L (rs_data r), hs_key_share = ks\<rparr>) rs_shards key_shares,
               hr_original_len = length data, hr_compressed = compressed, hr_ciphertext_len = length ciphertext,
               hr_shard_size = shard_size, hr_threshold = k, hr_total_shards = n\<rparr>)))))))"

definition hybrid_recover
  :: "libs \<Rightarrow> hybrid_shard list \<Rightarrow> nat \<Rightarrow> nat \<Rightarrow> nat \<Rightarrow> nat \<Rightarrow> nat \<Rightarrow> bool \<Rightarrow> (hybrid_error, bytes) result" where
  "hybrid_recover L shards k n original_len ciphertext_len shard_size compressed =
     ensure (k \<le> length shards) HybridRecoveryFailed (
     ensure (\<forall>s \<in> set shards. blake2b L (hs_chunk s) = hs_chunk_hash s) HybridRecoveryFailed (
     bind_from KeySss (key_recover (map hs_key_share shards) k) (\<lambda>key.
     bind_from ReedSolomon (rs_decode_from_shards L
         (map (\<lambda>s. \<lparr>rs_index = hs_index s, rs_data = hs_chunk s\<rparr>) shards) k n ciphertext_len shard_size) (\<lambda>ciphertext.
     bind_from Encryption (decrypt L ciphertext key) (\<lambda>decrypted.
     bind_from (\<lambda>_. HybridDecompressionFailed) (if compressed then decompress (gz L) decrypted else Inr decrypted) (\<lambda>result.
       ensure (length result = original_len) HybridRecoveryFailed (Inr result)))))))"

subsection \<open>What the code relies on\<close>

text \<open>The erasure code keeps the data shards, keeps the sizes, and restores all shards from any \<open>k\<close>.\<close>

definition codec_ok :: "libs \<Rightarrow> nat \<Rightarrow> nat \<Rightarrow> bool" where
  "codec_ok L k m \<longleftrightarrow> (\<forall>shards encoded z. length shards = k + m \<longrightarrow> (\<forall>s \<in> set shards. length s = z)
     \<longrightarrow> rs_parity L k m shards = Some encoded \<longrightarrow>
       length encoded = k + m \<and> take k encoded = take k shards \<and> (\<forall>s \<in> set encoded. length s = z)
       \<and> (\<forall>sel. length sel = k + m \<longrightarrow> (\<forall>i < k + m. sel ! i = None \<or> sel ! i = Some (encoded ! i))
            \<longrightarrow> k \<le> length (filter (\<lambda>s. s \<noteq> None) sel) \<longrightarrow> rs_reconstruct L k m sel = Some (map Some encoded)))"

definition cipher_ok :: "libs \<Rightarrow> bool" where
  "cipher_ok L \<longleftrightarrow> (\<forall>key nonce p c. aes_encrypt L key nonce p = Some c \<longrightarrow> aes_decrypt L key nonce c = Some p)"

definition rng_ok :: "rng \<Rightarrow> bool" where
  "rng_ok getrandom \<longleftrightarrow> (\<forall>i m bs. getrandom i m = Some bs \<longrightarrow> length bs = m)"

subsection \<open>Encryption round trip\<close>

lemma decrypt_encrypt:
  assumes "encrypt L nonce_random plaintext key = Inr ct" and "cipher_ok L"
    and "\<And>nonce. nonce_random = Some nonce \<Longrightarrow> length nonce = nonce_size"
  shows "decrypt L ct key = Inr plaintext" and "ct \<noteq> []"
  using assms by (auto simp: encrypt_def decrypt_def cipher_ok_def nonce_size_def result_simps)

subsection \<open>Erasure coding round trip\<close>

lemma length_data_shard: "length (data_shard data z i) = z"
  by (simp add: data_shard_def Let_def min_def)

lemma concat_data_shards:
  "concat (map (data_shard data z) [0..<k]) = take (k * z) data @ replicate (k * z - length data) 0"
proof (induction k)
  case (Suc k)
  have s: "data_shard data z k = take z (drop (k * z) data) @ replicate (z - (length data - k * z)) 0"
    by (auto simp: data_shard_def Let_def min_def)
  have "concat (map (data_shard data z) [0..<Suc k])
      = take (k * z) data @ replicate (k * z - length data) 0 @ take z (drop (k * z) data) @ replicate (z - (length data - k * z)) 0"
    using Suc by (simp add: s)
  also have "\<dots> = take (Suc k * z) data @ replicate (Suc k * z - length data) 0"
  proof (cases "k * z \<le> length data")
    case True
    then have "Suc k * z - length data = z - (length data - k * z)" by simp
    moreover have "take (Suc k * z) data = take (k * z) data @ take z (drop (k * z) data)"
      using take_add [of "k * z" z data] by (simp add: add.commute)
    ultimately show ?thesis using True by simp
  next
    case False
    then have "Suc k * z - length data = (k * z - length data) + z" by simp
    then have "replicate (Suc k * z - length data) (0 :: 8 word) = replicate (k * z - length data) 0 @ replicate z 0"
      by (simp only: replicate_add)
    then show ?thesis using False by simp
  qed
  finally show ?case .
qed simp

lemma shard_size_covers: "1 \<le> k \<Longrightarrow> length data \<le> k * ((length data + k - 1) div k)"
proof -
  assume "1 \<le> k"
  have "length data + k - 1 < k * ((length data + k - 1) div k) + k"
    using \<open>1 \<le> k\<close> by (metis add.commute div_mult_mod_eq less_le_trans linorder_not_less mod_less_divisor mult.commute nat_add_left_cancel_less zero_less_one)
  then show ?thesis using \<open>1 \<le> k\<close> by linarith
qed

lemma place_shards_nth:
  assumes "\<forall>s \<in> set available. rs_index s < n \<and> rs_data s = enc ! rs_index s"
  shows "length (place_shards available n) = n"
    and "i < n \<Longrightarrow> map (map_option rs_data) (place_shards available n) ! i
           = (if i \<in> rs_index ` set available then Some (enc ! i) else None)"
proof -
  have g: "length (fold (\<lambda>s v. v[rs_index s := Some s]) ss v) = length v
     \<and> (\<forall>i < length v. map_option rs_data (fold (\<lambda>s v. v[rs_index s := Some s]) ss v ! i)
          = (if i \<in> rs_index ` set ss then Some (enc ! i) else map_option rs_data (v ! i)))"
    if "\<forall>s \<in> set ss. rs_index s < length v \<and> rs_data s = enc ! rs_index s" for ss v
    using that
  proof (induction ss arbitrary: v)
    case (Cons s ss)
    then show ?case using Cons.IH [of "v[rs_index s := Some s]"] by (auto simp: nth_list_update)
  qed simp
  note g = g [of available "replicate n None", folded place_shards_def]
  show "length (place_shards available n) = n" using g assms by simp
  then show "i < n \<Longrightarrow> map (map_option rs_data) (place_shards available n) ! i
           = (if i \<in> rs_index ` set available then Some (enc ! i) else None)"
    using g assms by simp
qed

lemma those_map_Some: "those (map Some xs) = Some xs"
  by (induction xs) simp_all

lemma codec_okD:
  assumes "codec_ok L k m" and "length shards = k + m" and "\<forall>s \<in> set shards. length s = z"
    and "rs_parity L k m shards = Some encoded"
  shows "length encoded = k + m" and "take k encoded = take k shards" and "\<forall>s \<in> set encoded. length s = z"
    and "length sel = k + m \<Longrightarrow> \<forall>i < k + m. sel ! i = None \<or> sel ! i = Some (encoded ! i) \<Longrightarrow>
      k \<le> length (filter (\<lambda>s. s \<noteq> None) sel) \<Longrightarrow> rs_reconstruct L k m sel = Some (map Some encoded)"
  using assms unfolding codec_ok_def by blast+

lemma rs_decode_laws:
  assumes "codec_ok L k (n - k)" and "rs_encode L data k n = Inr (shards, len, z)"
    and "set used \<subseteq> set shards" and "distinct used" and "k \<le> length used"
  shows "rs_decode_from_shards L used k n len z = Inr data"
proof -
  let ?plain = "map (data_shard data z) [0..<k] @ replicate (n - k) (replicate z 0)"
  from assms(2) obtain enc where k: "1 \<le> k" "k \<le> n" "2 \<le> n" and new: "rs_new L k (n - k)"
    and z: "z = (length data + k - 1) div k" and enc: "rs_parity L k (n - k) ?plain = Some enc"
    and sh: "shards = map (\<lambda>(i, d). \<lparr>rs_index = i, rs_data = d\<rparr>) (enumerate 0 enc)" and len: "len = length data"
    by (auto simp: rs_encode_def result_simps Let_def)
  have plain: "length ?plain = k + (n - k)" "\<forall>s \<in> set ?plain. length s = z" by (auto simp: length_data_shard)
  note law = codec_okD [OF assms(1) plain enc]
  have c: "length enc = n" "take k enc = map (data_shard data z) [0..<k]" "\<forall>s \<in> set enc. length s = z"
    using law(1-3) k by simp_all
  have rec: "rs_reconstruct L k (n - k) sel = Some (map Some enc)"
    if "length sel = n" "\<forall>i < n. sel ! i = None \<or> sel ! i = Some (enc ! i)" "k \<le> length (filter (\<lambda>s. s \<noteq> None) sel)" for sel
    using law(4) [of sel] that k by simp
  have u: "rs_index s < n \<and> rs_data s = enc ! rs_index s" if "s \<in> set used" for s
    using that assms(3) c(1) by (fastforce simp: sh in_set_conv_nth nth_enumerate_eq)
  have inj: "inj_on rs_index (set used)"
    by (rule inj_onI) (metis rs_shard.equality u unit.exhaust old.unit.exhaust)
  let ?sel = "map (map_option rs_data) (place_shards used n)"
  note pl = place_shards_nth [of used n enc]
  have lsel: "length (place_shards used n) = n" using pl(1) u by blast
  have nth: "i < n \<Longrightarrow> ?sel ! i = (if i \<in> rs_index ` set used then Some (enc ! i) else None)" for i
    using pl(2) u by blast
  have "{i. i < n \<and> ?sel ! i \<noteq> None} = rs_index ` set used" using u nth by (auto split: if_splits)
  moreover have "card (rs_index ` set used) = length used"
    using card_image [OF inj] distinct_card [OF assms(4)] by simp
  ultimately have cnt: "length (filter (\<lambda>s. s \<noteq> None) ?sel) = length used"
    by (simp only: length_filter_conv_card length_map lsel)
  then have cnt': "length (filter (\<lambda>s. s \<noteq> None) (place_shards used n)) = length used"
    by (simp add: filter_map o_def)
  have "rs_reconstruct L k (n - k) ?sel = Some (map Some enc)"
    by (rule rec) (use lsel nth cnt assms(5) in simp_all)
  moreover have "length d = z" if "Some d \<in> set ?sel" for d
  proof -
    from that obtain i where "i < n" "?sel ! i = Some d" using lsel by (metis in_set_conv_nth length_map)
    then have "d = enc ! i" using nth by (auto split: if_splits)
    then show ?thesis using c \<open>i < n\<close> by simp
  qed
  moreover have "take len (concat (take k enc)) = data"
    unfolding c(2) concat_data_shards using shard_size_covers [of k data] k z len by simp
  ultimately show ?thesis
    using k new u assms(5) lsel cnt'
    by (simp add: rs_decode_from_shards_def rs_decode_def Let_def take_map those_map_Some)
qed

subsection \<open>The whole pipeline\<close>

lemma rs_shard_eta [simp]: "\<lparr>rs_index = rs_index r, rs_data = rs_data r\<rparr> = r" for r :: rs_shard
  by (cases r) simp

lemma rs_shard_eqI: "rs_index a = rs_index b \<Longrightarrow> rs_data a = rs_data b \<Longrightarrow> a = b" for a b :: rs_shard
  by (cases a; cases b) simp

text \<open>The shards of an encoding are distinct, and so are the shares of a key.\<close>

lemma distinct_shards: "rs_encode L data k n = Inr (shards, len, z) \<Longrightarrow> distinct shards"
proof -
  assume "rs_encode L data k n = Inr (shards, len, z)"
  then obtain enc where "shards = map (\<lambda>(i, d). \<lparr>rs_index = i, rs_data = d\<rparr>) (enumerate 0 enc)"
    by (auto simp: rs_encode_def result_simps Let_def)
  then have "map rs_index shards = [0..<length enc]" by (simp add: o_def case_prod_beta map_fst_enumerate [symmetric])
  then show ?thesis by (metis distinct_map distinct_upt)
qed

lemma zip_functional: "(x, y) \<in> set (zip xs ys) \<Longrightarrow> (x, z) \<in> set (zip xs ys) \<Longrightarrow> distinct xs \<Longrightarrow> y = z"
  by (auto simp: in_set_zip nth_eq_iff_index_eq)

lemma zip_functional_right: "(x, z) \<in> set (zip xs ys) \<Longrightarrow> (y, z) \<in> set (zip xs ys) \<Longrightarrow> distinct ys \<Longrightarrow> x = y"
  by (auto simp: in_set_zip nth_eq_iff_index_eq)

lemma key_split_distinct:
  assumes "key_split getrandom key k n = Inr shares" and "\<forall>i m bs. getrandom i m = Some bs \<longrightarrow> length bs = m"
  shows "distinct shares"
proof -
  obtain rand where n: "n \<le> 20" and sh: "shares = map (share_of key rand) [1..<n + 1]"
    using key_split_Inr [OF assms(1)] by metis
  have "inj_on (share_of key rand) (set [1..<n + 1])"
  proof (rule inj_onI)
    fix x y assume x: "x \<in> set [1..<n + 1]" and y: "y \<in> set [1..<n + 1]" and e: "share_of key rand x = share_of key rand y"
    have "(word_of_nat x :: u8) = word_of_nat y" using e by (simp add: share_of_def)
    then have "unat (word_of_nat x :: u8) = unat (word_of_nat y :: u8)" by (rule arg_cong)
    moreover have "x < 256" "y < 256" using x y n by auto
    ultimately show "x = y" by (simp add: unat_of_nat)
  qed
  then show ?thesis by (simp add: sh distinct_map)
qed

lemma hybrid_split_distinct:
  assumes "hybrid_split L getrandom data k n = Inr res"
  shows "distinct (hr_shards res)"
proof -
  obtain ct rs len z kss where rs: "rs_encode L ct k n = Inr (rs, len, z)"
    and res: "hr_shards res = map2 (\<lambda>r ks. \<lparr>hs_index = rs_index r, hs_chunk = rs_data r,
                   hs_chunk_hash = blake2b L (rs_data r), hs_key_share = ks\<rparr>) rs kss"
    using assms by (auto simp: hybrid_split_def result_simps split: prod.splits)
  have "distinct (zip rs kss)" by (rule distinct_zipI1 [OF distinct_shards [OF rs]])
  moreover have "inj (\<lambda>(r :: rs_shard, ks). \<lparr>hs_index = rs_index r, hs_chunk = rs_data r,
      hs_chunk_hash = blake2b L (rs_data r), hs_key_share = ks\<rparr>)"
    by (auto simp: inj_def intro: rs_shard_eqI)
  ultimately show ?thesis unfolding res distinct_map by (blast intro: inj_on_subset)
qed

text \<open>Any \<open>k\<close> of the shards of a post, in any order, give the post back: through gzip,
  the cipher, the erasure code and the shares of the key, whatever the random source returns.
\<close>

theorem hybrid_roundtrip:
  assumes "hybrid_split L getrandom data k n = Inr res"
    and "codec_ok L k (n - k)" and "cipher_ok L" and "gzip_ok (gz L)" and "rng_ok getrandom"
    and "set used \<subseteq> set (hr_shards res)" and "distinct used" and "k \<le> length used"
  shows "hybrid_recover L used k n (hr_original_len res) (hr_ciphertext_len res) (hr_shard_size res) (hr_compressed res) = Inr data"
proof -
  obtain pd zipped where pc: "compress (gz L) data = (pd, zipped)" by fastforce
  from assms(1) obtain key ct rs len z kss where d: "data \<noteq> []" "length data \<le> hybrid_max_data"
    and key: "generate_key getrandom = Inr key" and ct: "encrypt L (getrandom 1 nonce_size) pd key = Inr ct"
    and rs: "rs_encode L ct k n = Inr (rs, len, z)" and ks: "key_split (\<lambda>i. getrandom (i + 2)) key k n = Inr kss"
    and res: "res = \<lparr>hr_shards = map2 (\<lambda>r ks. \<lparr>hs_index = rs_index r, hs_chunk = rs_data r,
                   hs_chunk_hash = blake2b L (rs_data r), hs_key_share = ks\<rparr>) rs kss,
               hr_original_len = length data, hr_compressed = zipped, hr_ciphertext_len = length ct,
               hr_shard_size = z, hr_threshold = k, hr_total_shards = n\<rparr>"
    by (auto simp: hybrid_split_def pc result_simps)
  let ?rs = "\<lambda>s. \<lparr>rs_index = hs_index s, rs_data = hs_chunk s\<rparr>"
  have mem: "(?rs s, hs_key_share s) \<in> set (zip rs kss) \<and> blake2b L (hs_chunk s) = hs_chunk_hash s" if "s \<in> set used" for s
  proof -
    have "s \<in> set (hr_shards res)" using that assms(6) by blast
    then obtain r x where "(r, x) \<in> set (zip rs kss)"
        "s = \<lparr>hs_index = rs_index r, hs_chunk = rs_data r, hs_chunk_hash = blake2b L (rs_data r), hs_key_share = x\<rparr>"
      unfolding res by auto
    then show ?thesis by simp
  qed
  have drs: "distinct rs" by (rule distinct_shards [OF rs])
  have dks: "distinct kss" by (rule key_split_distinct [OF ks]) (use assms(5) in \<open>simp add: rng_ok_def\<close>)
  have one: "s = t" if "s \<in> set used" "t \<in> set used" "?rs s = ?rs t \<or> hs_key_share s = hs_key_share t" for s t
    using mem [OF that(1)] mem [OF that(2)] that(3) drs dks
    by (auto intro!: hybrid_shard.equality dest: zip_functional zip_functional_right)
  have dist: "distinct (map ?rs used)" "distinct (map hs_key_share used)"
    using one assms(7) by (auto simp: distinct_map inj_on_def)
  have sub: "set (map ?rs used) \<subseteq> set rs" "set (map hs_key_share used) \<subseteq> set kss"
    using mem by (auto dest: set_zip_leftD set_zip_rightD)
  have "key_recover (map hs_key_share used) k = Inr key"
    by (rule key_recover_split [OF ks _ sub(2) dist(2)]) (use assms(5,8) in \<open>auto simp: rng_ok_def\<close>)
  moreover have "len = length ct" using rs by (auto simp: rs_encode_def result_simps Let_def)
  then have "rs_decode_from_shards L (map ?rs used) k n (length ct) z = Inr ct"
    using rs_decode_laws [OF assms(2) rs sub(1) dist(1)] assms(8) by simp
  moreover have "decrypt L ct key = Inr pd"
    by (rule decrypt_encrypt [OF ct assms(3)]) (use assms(5) in \<open>simp add: rng_ok_def\<close>)
  moreover have "(if zipped then decompress (gz L) pd else Inr pd) = Inr data"
    using compress_roundtrip [OF assms(4) _ pc] d by (simp add: hybrid_max_data_def max_decompressed_size_def)
  moreover have "\<forall>s \<in> set used. blake2b L (hs_chunk s) = hs_chunk_hash s" using mem by blast
  ultimately show ?thesis
    using assms(8) by (simp add: hybrid_recover_def res)
qed

subsection \<open>A small instance\<close>

text \<open>Two data shards and their sum as parity; the key is the pad of the cipher's nonce.\<close>

definition xor_bytes :: "bytes \<Rightarrow> bytes \<Rightarrow> bytes" where
  "xor_bytes = map2 (XOR)"

lemma xor_bytes_cancel: "length a = length b \<Longrightarrow> xor_bytes a (xor_bytes a b) = b \<and> xor_bytes (xor_bytes a b) b = a"
  unfolding xor_bytes_def by (induction a b rule: list_induct2) (simp_all add: xor.assoc [symmetric], simp add: xor.assoc)

definition demo_libs :: libs where
  "demo_libs = \<lparr>
     rs_new = (\<lambda>k m. k = 2 \<and> m = 1),
     rs_parity = (\<lambda>k m shards. case shards of [a, b, c] \<Rightarrow> Some [a, b, xor_bytes a b] | _ \<Rightarrow> None),
     rs_reconstruct = (\<lambda>k m sel. case sel of
         [Some a, Some b, _] \<Rightarrow> Some [Some a, Some b, Some (xor_bytes a b)]
       | [Some a, None, Some c] \<Rightarrow> Some [Some a, Some (xor_bytes a c), Some c]
       | [None, Some b, Some c] \<Rightarrow> Some [Some (xor_bytes c b), Some b, Some c]
       | _ \<Rightarrow> None),
     aes_encrypt = (\<lambda>key nonce p. Some p), aes_decrypt = (\<lambda>key nonce c. Some c),
     blake2b = (\<lambda>d. replicate 32 0), gz = \<lparr>gz_encode = Some, gz_decode = Some\<rparr>\<rparr>"

lemma demo_codec_ok: "codec_ok demo_libs 2 1"
  unfolding codec_ok_def
proof (intro allI impI)
  fix shards encoded :: "bytes list" and z
  assume "length shards = 2 + 1" and s: "\<forall>s \<in> set shards. length s = z" and e: "rs_parity demo_libs 2 1 shards = Some encoded"
  then obtain a b c where abc: "shards = [a, b, c]" by (auto simp: length_Suc_conv numeral_3_eq_3)
  then have l: "length a = z" "length b = z" and enc: "encoded = [a, b, xor_bytes a b]" using s e by (auto simp: demo_libs_def)
  have x: "xor_bytes a (xor_bytes a b) = b" "xor_bytes (xor_bytes a b) b = a" using xor_bytes_cancel [of a b] l by simp_all
  have "rs_reconstruct demo_libs 2 1 sel = Some (map Some encoded)"
    if "length sel = 2 + 1" "\<forall>i < 2 + 1. sel ! i = None \<or> sel ! i = Some (encoded ! i)" "2 \<le> length (filter (\<lambda>s. s \<noteq> None) sel)" for sel
  proof -
    from that(1) obtain p q r where sel: "sel = [p, q, r]" by (auto simp: length_Suc_conv numeral_3_eq_3)
    have "p = None \<or> p = Some a" "q = None \<or> q = Some b" "r = None \<or> r = Some (xor_bytes a b)"
      using that(2) [rule_format, of 0] that(2) [rule_format, of 1] that(2) [rule_format, of 2] by (simp_all add: sel enc)
    then show ?thesis using that(3) x by (auto simp: sel enc demo_libs_def split: if_splits)
  qed
  then show "length encoded = 2 + 1 \<and> take 2 encoded = take 2 shards \<and> (\<forall>s \<in> set encoded. length s = z)
       \<and> (\<forall>sel. length sel = 2 + 1 \<longrightarrow> (\<forall>i < 2 + 1. sel ! i = None \<or> sel ! i = Some (encoded ! i))
            \<longrightarrow> 2 \<le> length (filter (\<lambda>s. s \<noteq> None) sel) \<longrightarrow> rs_reconstruct demo_libs 2 1 sel = Some (map Some encoded))"
    using l by (auto simp: abc enc xor_bytes_def)
qed

definition demo_rng :: rng where
  "demo_rng i m = Some (replicate m 7)"

definition demo_result :: hybrid_split_result where
  "demo_result = (case hybrid_split demo_libs demo_rng [9] 2 3 of Inr res \<Rightarrow> res | Inl _ \<Rightarrow> undefined)"

lemma demo_key_split: "\<exists>kss. key_split (\<lambda>i. demo_rng (i + 2)) (replicate 32 7) 2 3 = Inr kss \<and> length kss = 3"
proof -
  have "key_split (\<lambda>i. demo_rng (i + 2)) (replicate 32 7) 2 3 = Inr (map (share_of (replicate 32 7) (\<lambda>_. [7])) [1..<3 + 1])"
    by (rule key_split_eq) (simp_all add: key_size_def demo_rng_def)
  then show ?thesis by simp
qed

lemma demo_hybrid_split: "hybrid_split demo_libs demo_rng [9] 2 3 = Inr demo_result \<and> length (hr_shards demo_result) = 3
    \<and> hr_ciphertext_len demo_result = 13"
proof -
  obtain kss where ks: "key_split (\<lambda>i. demo_rng (i + 2)) (replicate 32 7) 2 3 = Inr kss" "length kss = 3"
    using demo_key_split by blast
  have c: "compress (gz demo_libs) [9] = ([9], False)" by (simp add: compress_def min_compress_size_def)
  have g: "generate_key demo_rng = Inr (replicate 32 7)" by (simp add: generate_key_def demo_rng_def key_size_def)
  have e: "encrypt demo_libs (demo_rng 1 nonce_size) [9] (replicate 32 7) = Inr (replicate 12 7 @ [9])"
    by (simp add: encrypt_def demo_rng_def nonce_size_def key_size_def demo_libs_def)
  obtain rs len z where r: "rs_encode demo_libs (replicate 12 7 @ [9]) 2 3 = Inr (rs, len, z)" "length rs = 3"
    by (simp add: rs_encode_def demo_libs_def Let_def numeral_2_eq_2 upt_rec)
  show ?thesis using ks r
    by (simp add: demo_result_def hybrid_split_def c g e hybrid_max_data_def del: One_nat_def)
qed

theorem hybrid_roundtrip_witness:
  "\<exists>a b. {a, b} \<subseteq> set (hr_shards demo_result) \<and> a \<noteq> b
     \<and> hybrid_recover demo_libs [b, a] 2 3 (hr_original_len demo_result) (hr_ciphertext_len demo_result)
         (hr_shard_size demo_result) (hr_compressed demo_result) = Inr [9]"
proof -
  have d: "distinct (hr_shards demo_result)" by (rule hybrid_split_distinct [of demo_libs demo_rng "[9]" 2 3])
      (use demo_hybrid_split in simp)
  let ?a = "hr_shards demo_result ! 0" and ?b = "hr_shards demo_result ! 2"
  have l: "length (hr_shards demo_result) = 3" using demo_hybrid_split by simp
  have ab: "?a \<noteq> ?b" "{?a, ?b} \<subseteq> set (hr_shards demo_result)" using l d by (simp_all add: nth_eq_iff_index_eq)
  have "hybrid_recover demo_libs [?b, ?a] 2 3 (hr_original_len demo_result) (hr_ciphertext_len demo_result)
         (hr_shard_size demo_result) (hr_compressed demo_result) = Inr [9]"
  proof (rule hybrid_roundtrip)
    show "hybrid_split demo_libs demo_rng [9] 2 3 = Inr demo_result" using demo_hybrid_split by blast
    show "codec_ok demo_libs 2 (3 - 2)" using demo_codec_ok by simp
    show "cipher_ok demo_libs" by (simp add: cipher_ok_def demo_libs_def)
    show "gzip_ok (gz demo_libs)" by (simp add: gzip_ok_def demo_libs_def)
    show "rng_ok demo_rng" by (simp add: rng_ok_def demo_rng_def)
  qed (use ab in auto)
  with ab show ?thesis by blast
qed

end
