(* ===== verification/Wallet.thy ===== *)
theory Wallet
  imports Gf256 Pow
begin

text \<open>
  The stealth wallet of the browser engine (\<open>src/packages/wasm-engine/src/stealth\<close>: \<open>keys.rs\<close>,
  \<open>address.rs\<close>, \<open>scan.rs\<close>, \<open>backup.rs\<close>): key pairs and meta addresses, one-time addresses and
  how their owner finds and spends them, Ed25519 signatures with an expanded key, and the
  encrypted backup. The curve, the hashes, the cipher, base58, base64 and JSON are parameters.
\<close>

text \<open>The messages of the errors, one constructor for each place the code makes one.\<close>

datatype wallet_error = InvalidMetaAddress | DecodingError | InvalidMetaLength | InvalidSpendPubkey
  | InvalidSpendKey | InvalidViewKey | InvalidEphemeralKey | InvalidExpandedKey | InvalidPubkey
  | EmptyPassword | RandomFailed | CipherFailed | JsonFailed
  | InvalidBackupFormat | MissingVersion | UnsupportedVersion nat | MissingSalt | MissingNonce | MissingCiphertext
  | Base64Error | NonceLength nat | SaltLength nat | DecryptionFailed | PayloadSize | ChecksumMismatch

text \<open>A backup as the JSON value it is written to; a field that is absent or of another type is \<^const>\<open>None\<close>.\<close>

record backup_json =
  bj_version :: "nat option"
  bj_salt :: "string option"
  bj_nonce :: "string option"
  bj_ciphertext :: "string option"

record ('s, 'p) ecc =
  x25519_dh :: "bytes \<Rightarrow> bytes \<Rightarrow> bytes"
  x25519_public :: "bytes \<Rightarrow> bytes"
  blake2b_256 :: "bytes \<Rightarrow> bytes"
  blake2b_512 :: "bytes \<Rightarrow> bytes"
  sha512 :: "bytes \<Rightarrow> bytes"
  scalar_from_bytes_mod_order :: "bytes \<Rightarrow> 's"
  scalar_from_bytes_mod_order_wide :: "bytes \<Rightarrow> 's"
  scalar_to_bytes :: "'s \<Rightarrow> bytes"
  basepoint_mul :: "'s \<Rightarrow> 'p"
  point_add :: "'p \<Rightarrow> 'p \<Rightarrow> 'p"
  point_mul :: "'s \<Rightarrow> 'p \<Rightarrow> 'p"
  compress_point :: "'p \<Rightarrow> bytes"
  decompress_point :: "bytes \<Rightarrow> 'p option"
  ed25519_verifying_key :: "bytes \<Rightarrow> bytes"
  bs58_encode :: "bytes \<Rightarrow> string"
  bs58_decode :: "string \<Rightarrow> bytes option"
  pbkdf2 :: "string \<Rightarrow> bytes \<Rightarrow> bytes"
  aes_gcm_encrypt :: "bytes \<Rightarrow> bytes \<Rightarrow> bytes \<Rightarrow> bytes \<Rightarrow> bytes option"
  aes_gcm_decrypt :: "bytes \<Rightarrow> bytes \<Rightarrow> bytes \<Rightarrow> bytes \<Rightarrow> bytes option"
  base64_encode :: "bytes \<Rightarrow> string"
  base64_decode :: "string \<Rightarrow> bytes option"
  json_write :: "backup_json \<Rightarrow> bytes option"
  json_parse :: "bytes \<Rightarrow> backup_json option"

record stealth_key_pair =
  kp_spend_key :: bytes
  kp_view_key :: bytes
  kp_spend_pubkey :: bytes
  kp_view_pubkey :: bytes
  kp_meta_address :: string

record stealth_address_result =
  sa_address :: string
  sa_ephemeral_pubkey :: bytes
  sa_pubkey :: bytes

subsection \<open>Addresses\<close>

definition meta_address_prefix :: string where "meta_address_prefix = ''st:anarchy:''"

definition format_meta_address :: "('s, 'p, 'm) ecc_scheme \<Rightarrow> bytes \<Rightarrow> bytes \<Rightarrow> string" where
  "format_meta_address E spend_pubkey view_pubkey = meta_address_prefix @ bs58_encode E (spend_pubkey @ view_pubkey)"

definition parse_meta_address :: "('s, 'p, 'm) ecc_scheme \<Rightarrow> string \<Rightarrow> (wallet_error, bytes \<times> bytes) result" where
  "parse_meta_address E meta_address =
     ensure (take (length meta_address_prefix) meta_address = meta_address_prefix) InvalidMetaAddress (
     ok_or (bs58_decode E (drop (length meta_address_prefix) meta_address)) DecodingError (\<lambda>decoded.
     ensure (length decoded = 64) InvalidMetaLength (
       Inr (take 32 decoded, take 32 (drop 32 decoded)))))"

definition pubkey_to_ss58 :: "('s, 'p, 'm) ecc_scheme \<Rightarrow> bytes \<Rightarrow> string" where
  "pubkey_to_ss58 E pubkey =
     (let payload = 42 # pubkey;
          hash = blake2b_512 E (map (\<lambda>c. word_of_nat (of_char c)) ''SS58PRE'' @ payload)
      in bs58_encode E (payload @ take 2 hash))"

definition pubkey_to_ss58_address :: "('s, 'p, 'm) ecc_scheme \<Rightarrow> bytes \<Rightarrow> (wallet_error, string) result" where
  "pubkey_to_ss58_address E pubkey = ensure (length pubkey = 32) InvalidPubkey (Inr (pubkey_to_ss58 E pubkey))"

text \<open>The random ephemeral secret is an argument.\<close>

definition derive_stealth_address
  :: "('s, 'p, 'm) ecc_scheme \<Rightarrow> bytes \<Rightarrow> string \<Rightarrow> (wallet_error, stealth_address_result) result" where
  "derive_stealth_address E ephemeral_secret meta_address =
     bind_ok (parse_meta_address E meta_address) (\<lambda>(spend_bytes, view_pubkey).
     let ephemeral_pubkey = x25519_public E ephemeral_secret;
         shared_secret = x25519_dh E ephemeral_secret view_pubkey;
         h = blake2b_256 E shared_secret
     in ok_or (decompress_point E spend_bytes) InvalidSpendPubkey (\<lambda>spend_point.
          let h_g = basepoint_mul E (scalar_from_bytes_mod_order E h);
              stealth_pubkey = compress_point E (point_add E spend_point h_g)
          in Inr \<lparr>sa_address = pubkey_to_ss58 E stealth_pubkey, sa_ephemeral_pubkey = ephemeral_pubkey,
                  sa_pubkey = stealth_pubkey\<rparr>))"

subsection \<open>Scanning\<close>

definition debug_derive_expected_pubkey
  :: "('s, 'p, 'm) ecc_scheme \<Rightarrow> bytes \<Rightarrow> bytes \<Rightarrow> bytes \<Rightarrow> bytes option" where
  "debug_derive_expected_pubkey E view_key ephemeral_pubkey spend_pubkey =
     (if length view_key \<noteq> 32 \<or> length ephemeral_pubkey \<noteq> 32 \<or> length spend_pubkey \<noteq> 32 then None
      else let h = blake2b_256 E (x25519_dh E view_key ephemeral_pubkey)
           in map_option (\<lambda>spend_point. compress_point E
                  (point_add E spend_point (basepoint_mul E (scalar_from_bytes_mod_order E h))))
                (decompress_point E spend_pubkey))"

definition scan_transaction :: "('s, 'p, 'm) ecc_scheme \<Rightarrow> bytes \<Rightarrow> bytes \<Rightarrow> bytes \<Rightarrow> bytes \<Rightarrow> bool" where
  "scan_transaction E view_key ephemeral_pubkey stealth_pubkey spend_pubkey =
     (if length view_key \<noteq> 32 \<or> length ephemeral_pubkey \<noteq> 32 \<or> length stealth_pubkey \<noteq> 32 \<or> length spend_pubkey \<noteq> 32
      then False
      else let h = blake2b_256 E (x25519_dh E view_key ephemeral_pubkey)
           in case decompress_point E spend_pubkey of
                None \<Rightarrow> False
              | Some spend_point \<Rightarrow>
                  compress_point E (point_add E spend_point (basepoint_mul E (scalar_from_bytes_mod_order E h))) = stealth_pubkey)"

subsection \<open>Keys\<close>

definition restore_stealth_keys
  :: "('s, 'p, 'm) ecc_scheme \<Rightarrow> bytes \<Rightarrow> bytes \<Rightarrow> (wallet_error, stealth_key_pair) result" where
  "restore_stealth_keys E spend_seed view_seed =
     ensure (length spend_seed = 32) InvalidSpendKey (
     ensure (length view_seed = 32) InvalidViewKey (
     let spend_pubkey = ed25519_verifying_key E spend_seed; view_pubkey = x25519_public E view_seed
     in Inr \<lparr>kp_spend_key = spend_seed, kp_view_key = view_seed, kp_spend_pubkey = spend_pubkey,
             kp_view_pubkey = view_pubkey, kp_meta_address = format_meta_address E spend_pubkey view_pubkey\<rparr>))"

definition clamp :: "bytes \<Rightarrow> bytes" where
  "clamp bs = (let bs = bs[0 := bs ! 0 AND 248]; bs = bs[31 := bs ! 31 AND 63] in bs[31 := bs ! 31 OR 64])"

definition derive_stealth_private_key
  :: "('s::comm_ring_1, 'p, 'm) ecc_scheme \<Rightarrow> bytes \<Rightarrow> bytes \<Rightarrow> bytes \<Rightarrow> (wallet_error, bytes) result" where
  "derive_stealth_private_key E spend_key view_key ephemeral_pubkey =
     ensure (length spend_key = 32) InvalidSpendKey (
     ensure (length view_key = 32) InvalidViewKey (
     ensure (length ephemeral_pubkey = 32) InvalidEphemeralKey (
     let h = blake2b_256 E (x25519_dh E view_key ephemeral_pubkey);
         expanded = sha512 E spend_key;
         spend_scalar_bytes = clamp (take 32 expanded);
         nonce_prefix = take 32 (drop 32 expanded);
         stealth_scalar = scalar_from_bytes_mod_order E spend_scalar_bytes + scalar_from_bytes_mod_order E h;
         stealth_nonce_prefix = take 32 (sha512 E (nonce_prefix @ h))
     in Inr (scalar_to_bytes E stealth_scalar @ stealth_nonce_prefix))))"

definition stealth_get_public_key
  :: "('s::comm_ring_1, 'p, 'm) ecc_scheme \<Rightarrow> bytes \<Rightarrow> (wallet_error, bytes) result" where
  "stealth_get_public_key E expanded_key =
     ensure (length expanded_key = 64) InvalidExpandedKey (
       Inr (compress_point E (basepoint_mul E (scalar_from_bytes_mod_order E (take 32 expanded_key)))))"

definition stealth_sign :: "('s::comm_ring_1, 'p, 'm) ecc_scheme \<Rightarrow> bytes \<Rightarrow> bytes \<Rightarrow> (wallet_error, bytes) result" where
  "stealth_sign E expanded_key message =
     ensure (length expanded_key = 64) InvalidExpandedKey (
     let scalar = scalar_from_bytes_mod_order E (take 32 expanded_key);
         nonce_prefix = take 32 (drop 32 expanded_key);
         public_key = compress_point E (basepoint_mul E scalar);
         r = scalar_from_bytes_mod_order_wide E (sha512 E (nonce_prefix @ message));
         r_bytes = compress_point E (basepoint_mul E r);
         k = scalar_from_bytes_mod_order_wide E (sha512 E (r_bytes @ public_key @ message));
         s = r + k * scalar
     in Inr (r_bytes @ scalar_to_bytes E s))"

subsection \<open>Backup\<close>

definition backup_version :: nat where "backup_version = 1"

definition encrypt_backup
  :: "('s, 'p, 'm) ecc_scheme \<Rightarrow> bytes option \<Rightarrow> bytes option \<Rightarrow> nat \<Rightarrow> bytes \<Rightarrow> bytes \<Rightarrow> string
      \<Rightarrow> (wallet_error, bytes) result" where
  "encrypt_backup E random_salt random_nonce timestamp spend_key view_key password =
     ensure (length spend_key = 32) InvalidSpendKey (
     ensure (length view_key = 32) InvalidViewKey (
     ensure (password \<noteq> '''') EmptyPassword (
     ok_or random_salt RandomFailed (\<lambda>salt.
     ok_or random_nonce RandomFailed (\<lambda>nonce_bytes.
     let derived_key = pbkdf2 E password salt;
         payload = spend_key @ view_key @ le_bytes 8 timestamp;
         checksum = blake2b_256 E payload
     in ok_or (aes_gcm_encrypt E derived_key nonce_bytes [] (payload @ checksum)) CipherFailed (\<lambda>ciphertext.
        ok_or (json_write E \<lparr>bj_version = Some backup_version, bj_salt = Some (base64_encode E salt),
                 bj_nonce = Some (base64_encode E nonce_bytes), bj_ciphertext = Some (base64_encode E ciphertext)\<rparr>)
          JsonFailed Inr))))))"

definition decrypt_backup
  :: "('s, 'p, 'm) ecc_scheme \<Rightarrow> bytes \<Rightarrow> string \<Rightarrow> (wallet_error, stealth_key_pair) result" where
  "decrypt_backup E encrypted password =
     ok_or (json_parse E encrypted) InvalidBackupFormat (\<lambda>backup.
     ok_or (bj_version backup) MissingVersion (\<lambda>version.
     ensure (version = backup_version) (UnsupportedVersion version) (
     ok_or (bj_salt backup) MissingSalt (\<lambda>salt64.
     ok_or (base64_decode E salt64) Base64Error (\<lambda>salt.
     ok_or (bj_nonce backup) MissingNonce (\<lambda>nonce64.
     ok_or (base64_decode E nonce64) Base64Error (\<lambda>nonce_bytes.
     ok_or (bj_ciphertext backup) MissingCiphertext (\<lambda>ciphertext64.
     ok_or (base64_decode E ciphertext64) Base64Error (\<lambda>ciphertext.
     ensure (length nonce_bytes = 12) (NonceLength (length nonce_bytes)) (
     ensure (16 \<le> length salt) (SaltLength (length salt)) (
     ok_or (aes_gcm_decrypt E (pbkdf2 E password salt) nonce_bytes [] ciphertext) DecryptionFailed (\<lambda>payload.
     ensure (length payload = 104) PayloadSize (
     let spend_key = take 32 payload; view_key = take 32 (drop 32 payload);
         stored_checksum = take 32 (drop 72 payload)
     in ensure (stored_checksum = blake2b_256 E (take 72 payload)) ChecksumMismatch (
        let spend_pubkey = ed25519_verifying_key E spend_key; view_pubkey = x25519_public E view_key
        in Inr \<lparr>kp_spend_key = spend_key, kp_view_key = view_key, kp_spend_pubkey = spend_pubkey,
             kp_view_pubkey = view_pubkey, kp_meta_address = format_meta_address E spend_pubkey view_pubkey\<rparr>))))))))))))))"

subsection \<open>What the code relies on\<close>

text \<open>The clamping of RFC 8032, the key of a seed, and its signature equation.\<close>

definition rfc_clamp :: "bytes \<Rightarrow> bytes" where
  "rfc_clamp bs = bs[0 := bs ! 0 AND 248, 31 := (bs ! 31 AND 127) OR 64]"

definition ed25519_accepts :: "('s::comm_ring_1, 'p, 'm) ecc_scheme \<Rightarrow> bytes \<Rightarrow> bytes \<Rightarrow> bytes \<Rightarrow> bool" where
  "ed25519_accepts E public_key message signature \<longleftrightarrow> length signature = 64 \<and>
     (let R = take 32 signature; s = scalar_from_bytes_mod_order E (drop 32 signature);
          k = scalar_from_bytes_mod_order_wide E (sha512 E (R @ public_key @ message))
      in case (decompress_point E R, decompress_point E public_key) of
           (Some r, Some a) \<Rightarrow> basepoint_mul E s = point_add E r (point_mul E k a)
         | _ \<Rightarrow> False)"

definition ecc_ok :: "('s::comm_ring_1, 'p, 'm) ecc_scheme \<Rightarrow> bool" where
  "ecc_ok E \<longleftrightarrow>
     (\<forall>a b. x25519_dh E a (x25519_public E b) = x25519_dh E b (x25519_public E a))
     \<and> (\<forall>a. length (x25519_public E a) = 32) \<and> (\<forall>m. length (sha512 E m) = 64) \<and> (\<forall>m. length (blake2b_256 E m) = 32)
     \<and> (\<forall>s. scalar_from_bytes_mod_order E (scalar_to_bytes E s) = s) \<and> (\<forall>s. length (scalar_to_bytes E s) = 32)
     \<and> (\<forall>a b. basepoint_mul E (a + b) = point_add E (basepoint_mul E a) (basepoint_mul E b))
     \<and> (\<forall>a b. point_mul E a (basepoint_mul E b) = basepoint_mul E (a * b))
     \<and> (\<forall>p. decompress_point E (compress_point E p) = Some p) \<and> (\<forall>p. length (compress_point E p) = 32)
     \<and> (\<forall>seed. ed25519_verifying_key E seed
          = compress_point E (basepoint_mul E (scalar_from_bytes_mod_order E (rfc_clamp (take 32 (sha512 E seed))))))
     \<and> (\<forall>bs. bs58_decode E (bs58_encode E bs) = Some bs)"

definition backup_ok :: "('s, 'p, 'm) ecc_scheme \<Rightarrow> bool" where
  "backup_ok E \<longleftrightarrow> (\<forall>bs. base64_decode E (base64_encode E bs) = Some bs)
     \<and> (\<forall>v bs. json_write E v = Some bs \<longrightarrow> json_parse E bs = Some v)
     \<and> (\<forall>key nonce aad p c. aes_gcm_encrypt E key nonce aad p = Some c \<longrightarrow> aes_gcm_decrypt E key nonce aad c = Some p)
     \<and> (\<forall>m. length (blake2b_256 E m) = 32)"

lemma ecc_okD:
  assumes "ecc_ok E"
  shows "x25519_dh E a (x25519_public E b) = x25519_dh E b (x25519_public E a)"
    and "length (x25519_public E a) = 32" and "length (sha512 E m) = 64" and "length (blake2b_256 E m) = 32"
    and "scalar_from_bytes_mod_order E (scalar_to_bytes E s) = s" and "length (scalar_to_bytes E s) = 32"
    and "basepoint_mul E (s + t) = point_add E (basepoint_mul E s) (basepoint_mul E t)"
    and "point_mul E s (basepoint_mul E t) = basepoint_mul E (s * t)"
    and "decompress_point E (compress_point E p) = Some p" and "length (compress_point E p) = 32"
    and "ed25519_verifying_key E seed
          = compress_point E (basepoint_mul E (scalar_from_bytes_mod_order E (rfc_clamp (take 32 (sha512 E seed)))))"
    and "bs58_decode E (bs58_encode E bs) = Some bs"
  using assms unfolding ecc_ok_def by blast+

subsection \<open>Addresses are found and spent by their owner\<close>

text \<open>The code clears bit 6 before it sets it: the same as the standard.\<close>

lemma clamp_rfc: "length bs = 32 \<Longrightarrow> clamp bs = rfc_clamp bs"
proof -
  assume l: "length bs = 32"
  have "(b AND 63) OR 64 = (b AND 127) OR 64" for b :: u8
  proof -
    have "b AND 127 = (b AND 63) OR (b AND 64)" by (simp add: bit.conj_disj_distrib [symmetric])
    moreover have "(b AND 64) OR 64 = 64" by (rule bit_word_eqI) (auto simp: bit_simps)
    ultimately show ?thesis by (simp add: or.assoc)
  qed
  then show ?thesis using l by (simp add: clamp_def rfc_clamp_def Let_def)
qed

lemma meta_address_roundtrip:
  assumes "ecc_ok E" and "length spend = 32" and "length view = 32"
  shows "parse_meta_address E (format_meta_address E spend view) = Inr (spend, view)"
  using assms(2,3) by (simp add: parse_meta_address_def format_meta_address_def ecc_okD(12) [OF assms(1)])

text \<open>A signature with an expanded key is one the standard's verifier accepts under the key's public key.\<close>

lemma stealth_sign_accepted:
  assumes "ecc_ok E" and "stealth_get_public_key E sk = Inr pk"
  shows "\<exists>sig. stealth_sign E sk message = Inr sig \<and> ed25519_accepts E pk message sig"
proof -
  let ?a = "scalar_from_bytes_mod_order E (take 32 sk)"
  have sk: "length sk = 64" and pk: "pk = compress_point E (basepoint_mul E ?a)"
    using assms(2) by (simp_all add: stealth_get_public_key_def result_simps)
  let ?r = "scalar_from_bytes_mod_order_wide E (sha512 E (take 32 (drop 32 sk) @ message))"
  let ?R = "compress_point E (basepoint_mul E ?r)"
  let ?k = "scalar_from_bytes_mod_order_wide E (sha512 E (?R @ pk @ message))"
  have "stealth_sign E sk message = Inr (?R @ scalar_to_bytes E (?r + ?k * ?a))"
    using sk by (simp add: stealth_sign_def Let_def pk)
  moreover have "ed25519_accepts E pk message (?R @ scalar_to_bytes E (?r + ?k * ?a))"
    using ecc_okD [OF assms(1)] by (simp add: ed25519_accepts_def Let_def pk)
  ultimately show ?thesis by blast
qed

text \<open>C34: a one-time address made from a restored wallet's meta address is recognised by that
  wallet's scan, the secret key the wallet derives for it is the key of that address, and what it
  signs with that key is a valid Ed25519 signature under the address.
\<close>

theorem stealth_scan_and_spend:
  assumes "ecc_ok E" and "length spend_seed = 32" and "length view_seed = 32"
  shows "\<exists>kp res sk. restore_stealth_keys E spend_seed view_seed = Inr kp
     \<and> derive_stealth_address E eph (kp_meta_address kp) = Inr res
     \<and> scan_transaction E view_seed (sa_ephemeral_pubkey res) (sa_pubkey res) (kp_spend_pubkey kp)
     \<and> derive_stealth_private_key E spend_seed view_seed (sa_ephemeral_pubkey res) = Inr sk
     \<and> stealth_get_public_key E sk = Inr (sa_pubkey res)
     \<and> (\<forall>message. \<exists>sig. stealth_sign E sk message = Inr sig \<and> ed25519_accepts E (sa_pubkey res) message sig)"
proof -
  note law = ecc_okD [OF assms(1)]
  let ?expanded = "sha512 E spend_seed"
  let ?a = "scalar_from_bytes_mod_order E (rfc_clamp (take 32 ?expanded))"
  let ?h = "blake2b_256 E (x25519_dh E view_seed (x25519_public E eph))"
  let ?b = "scalar_from_bytes_mod_order E ?h"
  let ?spend = "compress_point E (basepoint_mul E ?a)" and ?view = "x25519_public E view_seed"
  let ?stealth = "compress_point E (basepoint_mul E (?a + ?b))"
  let ?kp = "\<lparr>kp_spend_key = spend_seed, kp_view_key = view_seed, kp_spend_pubkey = ?spend,
             kp_view_pubkey = ?view, kp_meta_address = format_meta_address E ?spend ?view\<rparr>"
  let ?res = "\<lparr>sa_address = pubkey_to_ss58 E ?stealth, sa_ephemeral_pubkey = x25519_public E eph, sa_pubkey = ?stealth\<rparr>"
  let ?sk = "scalar_to_bytes E (?a + ?b) @ take 32 (sha512 E (take 32 (drop 32 ?expanded) @ ?h))"
  have dh: "x25519_dh E eph ?view = x25519_dh E view_seed (x25519_public E eph)" by (rule law(1))
  have 1: "restore_stealth_keys E spend_seed view_seed = Inr ?kp"
    using assms(2,3) by (simp add: restore_stealth_keys_def law(11) Let_def)
  have 2: "derive_stealth_address E eph (kp_meta_address ?kp) = Inr ?res"
    by (simp add: derive_stealth_address_def meta_address_roundtrip [OF assms(1)] law(2,7,9,10) dh Let_def)
  have 3: "scan_transaction E view_seed (sa_ephemeral_pubkey ?res) (sa_pubkey ?res) (kp_spend_pubkey ?kp)"
    using assms(3) by (simp add: scan_transaction_def law(2,7,9,10) Let_def)
  have 4: "derive_stealth_private_key E spend_seed view_seed (sa_ephemeral_pubkey ?res) = Inr ?sk"
    using assms(2,3) by (simp add: derive_stealth_private_key_def Let_def law(2,3) clamp_rfc)
  have 5: "stealth_get_public_key E ?sk = Inr (sa_pubkey ?res)"
    by (simp add: stealth_get_public_key_def law(3,5,6))
  show ?thesis using 1 2 3 4 5 stealth_sign_accepted [OF assms(1) 5] by blast
qed

text \<open>A backup opened with the password it was made with restores the keys: the same key
  pair that restoring from the two seeds gives.
\<close>

theorem backup_roundtrip:
  assumes "backup_ok E" and "encrypt_backup E salt nonce now spend_key view_key password = Inr json"
    and "\<forall>bs. salt = Some bs \<longrightarrow> length bs = 16" and "\<forall>bs. nonce = Some bs \<longrightarrow> length bs = 12"
  shows "decrypt_backup E json password = restore_stealth_keys E spend_key view_key"
proof -
  from assms(2) obtain s c n where l: "length spend_key = 32" "length view_key = 32"
    and sn: "salt = Some s" "nonce = Some n"
    and c: "aes_gcm_encrypt E (pbkdf2 E password s) n []
        ((spend_key @ view_key @ le_bytes 8 now) @ blake2b_256 E (spend_key @ view_key @ le_bytes 8 now)) = Some c"
    and j: "json_write E \<lparr>bj_version = Some backup_version, bj_salt = Some (base64_encode E s),
                 bj_nonce = Some (base64_encode E n), bj_ciphertext = Some (base64_encode E c)\<rparr> = Some json"
    by (auto simp: encrypt_backup_def result_simps Let_def)
  have b64: "base64_decode E (base64_encode E bs) = Some bs" for bs using assms(1) by (simp add: backup_ok_def)
  have parse: "json_parse E json = Some \<lparr>bj_version = Some backup_version, bj_salt = Some (base64_encode E s),
                 bj_nonce = Some (base64_encode E n), bj_ciphertext = Some (base64_encode E c)\<rparr>"
    using assms(1) j unfolding backup_ok_def by blast
  have dec: "aes_gcm_decrypt E (pbkdf2 E password s) n [] c
      = Some ((spend_key @ view_key @ le_bytes 8 now) @ blake2b_256 E (spend_key @ view_key @ le_bytes 8 now))"
    using assms(1) c unfolding backup_ok_def by blast
  have hl: "length (blake2b_256 E m) = 32" for m using assms(1) by (simp add: backup_ok_def)
  show ?thesis using l sn assms(3,4)
    by (simp add: decrypt_backup_def parse b64 dec restore_stealth_keys_def hl)
qed

subsection \<open>A small instance\<close>

definition fit :: "nat \<Rightarrow> bytes \<Rightarrow> bytes" where
  "fit n bs = take n (bs @ replicate n 0)"

definition demo_payload :: bytes where
  "demo_payload = replicate 32 3 @ replicate 32 4 @ le_bytes 8 5"

definition demo_char :: "8 word \<Rightarrow> char" where
  "demo_char b = char_of (unat b)"

definition demo_json :: backup_json where
  "demo_json = \<lparr>bj_version = Some 1, bj_salt = Some (map demo_char (replicate 16 1)),
     bj_nonce = Some (map demo_char (replicate 12 2)),
     bj_ciphertext = Some (map demo_char (demo_payload @ fit 32 demo_payload))\<rparr>"

definition demo_ecc :: "(gf256, gf256) ecc" where
  "demo_ecc = \<lparr>
     x25519_dh = (\<lambda>a p. map2 (XOR) (fit 32 a) p), x25519_public = fit 32,
     blake2b_256 = fit 32, blake2b_512 = fit 64, sha512 = fit 64,
     scalar_from_bytes_mod_order = (\<lambda>bs. gf_of (hd bs)), scalar_from_bytes_mod_order_wide = (\<lambda>bs. gf_of (hd bs)),
     scalar_to_bytes = (\<lambda>s. byte_of s # replicate 31 0),
     basepoint_mul = (\<lambda>s. s), point_add = (+), point_mul = (*),
     compress_point = (\<lambda>p. byte_of p # replicate 31 0), decompress_point = (\<lambda>bs. Some (gf_of (hd bs))),
     ed25519_verifying_key = (\<lambda>seed. hd (rfc_clamp (take 32 (fit 64 seed))) # replicate 31 0),
     bs58_encode = map demo_char, bs58_decode = (\<lambda>s. Some (map (\<lambda>c. word_of_nat (of_char c)) s)),
     pbkdf2 = (\<lambda>pw salt. salt), aes_gcm_encrypt = (\<lambda>key nonce aad p. Some p), aes_gcm_decrypt = (\<lambda>key nonce aad c. Some c),
     base64_encode = map demo_char, base64_decode = (\<lambda>s. Some (map (\<lambda>c. word_of_nat (of_char c)) s)),
     json_write = (\<lambda>v. if v = demo_json then Some [1] else None), json_parse = (\<lambda>bs. Some demo_json)\<rparr>"

lemma demo_char_back [simp]: "word_of_nat (of_char (demo_char b)) = b"
  using unsigned_less [of b, where 'a = nat] by (simp add: demo_char_def)

lemma length_fit [simp]: "length (fit n bs) = n"
  by (simp add: fit_def)

lemma demo_ecc_ok: "ecc_ok demo_ecc"
proof -
  have "map2 (XOR) x y = map2 (XOR) y x" for x y :: bytes
    by (rule nth_equalityI) (simp_all add: xor.commute)
  then show ?thesis unfolding ecc_ok_def
    by (simp add: demo_ecc_def gf_of_inverse byte_of_inverse o_def)
qed

theorem stealth_scan_and_spend_witness:
  "\<exists>kp res sk. restore_stealth_keys demo_ecc (replicate 32 3) (replicate 32 4) = Inr kp
     \<and> derive_stealth_address demo_ecc [7] (kp_meta_address kp) = Inr res
     \<and> scan_transaction demo_ecc (replicate 32 4) (sa_ephemeral_pubkey res) (sa_pubkey res) (kp_spend_pubkey kp)
     \<and> derive_stealth_private_key demo_ecc (replicate 32 3) (replicate 32 4) (sa_ephemeral_pubkey res) = Inr sk
     \<and> stealth_get_public_key demo_ecc sk = Inr (sa_pubkey res)
     \<and> (\<forall>message. \<exists>sig. stealth_sign demo_ecc sk message = Inr sig \<and> ed25519_accepts demo_ecc (sa_pubkey res) message sig)"
  by (rule stealth_scan_and_spend [OF demo_ecc_ok]) simp_all

lemma demo_backup_ok: "backup_ok demo_ecc"
  by (simp add: backup_ok_def demo_ecc_def o_def)

lemma demo_backup:
  "encrypt_backup demo_ecc (Some (replicate 16 1)) (Some (replicate 12 2)) 5 (replicate 32 3) (replicate 32 4) ''p'' = Inr [1]"
proof -
  have "json_write demo_ecc \<lparr>bj_version = Some backup_version, bj_salt = Some (map demo_char (replicate 16 1)),
      bj_nonce = Some (map demo_char (replicate 12 2)),
      bj_ciphertext = Some (map demo_char (demo_payload @ fit 32 demo_payload))\<rparr> = Some [1]"
    by (simp add: demo_ecc_def demo_json_def backup_version_def)
  moreover have "base64_encode demo_ecc bs = map demo_char bs" "aes_gcm_encrypt demo_ecc k n a p = Some p"
      "blake2b_256 demo_ecc bs = fit 32 bs" for bs k n a p
    by (simp_all add: demo_ecc_def)
  ultimately show ?thesis
    by (simp only: encrypt_backup_def Let_def demo_payload_def [symmetric] ok_or_simps length_replicate ensure_True list.distinct not_False_eq_True append_assoc refl)
qed

theorem backup_roundtrip_witness:
  "decrypt_backup demo_ecc [1] ''p'' = restore_stealth_keys demo_ecc (replicate 32 3) (replicate 32 4)"
  by (rule backup_roundtrip [OF demo_backup_ok demo_backup]) simp_all

end
