(* ===== verification/Dm_Crypto.thy ===== *)
theory Dm_Crypto
  imports Wallet Hybrid
begin

text \<open>
  Direct messages in the browser engine (\<open>src/packages/wasm-engine/src/dm\<close> and \<open>merkle.rs\<close>): the
  padding to size buckets, the envelope and the hash its sender signs, encryption to a one-time
  address, decryption while scanning, attachments, and the fragments of a ciphertext. The key
  derivation, the SCALE codec, sr25519 and the Merkle tree library are parameters, beside the
  curve and the cipher of \<open>Wallet\<close>.
\<close>

datatype dm_error = InvalidLength | InvalidEdwardsPoint | BodyTooLarge | PaddingOverflow | AesGcmFailed
  | InvalidFragmentCount | EmptyCiphertext | MerkleBuildFailed | MerkleProofFailed | IndexOutOfBounds
  | MediaKeyLength | MediaEmpty | MediaTooShort | MerkleProofFormat | NoLeaves

record dm_envelope =
  env_version :: "8 word"
  env_sender_account :: bytes
  env_timestamp_ms :: nat
  env_body :: bytes
  env_signature :: bytes

record ('s, 'p) dm_ops = "('s, 'p) ecc" +
  hkdf_okm :: "bytes \<Rightarrow> bytes \<Rightarrow> bytes"
  scale_encode :: "dm_envelope \<Rightarrow> bytes"
  scale_decode :: "bytes \<Rightarrow> dm_envelope option"
  sr25519_verify :: "bytes \<Rightarrow> bytes \<Rightarrow> bytes \<Rightarrow> bool"
  tree_root :: "bytes list \<Rightarrow> bytes option"
  tree_proof :: "bytes list \<Rightarrow> nat \<Rightarrow> bytes"
  proof_parses :: "bytes \<Rightarrow> bool"
  proof_verify :: "bytes \<Rightarrow> bytes \<Rightarrow> nat \<Rightarrow> bytes \<Rightarrow> nat \<Rightarrow> bool"

subsection \<open>Padding\<close>

definition dm_padding_buckets :: "nat list" where
  "dm_padding_buckets = [1024, 4096, 16384, 65536, 262144]"

definition aes_gcm_tag_len :: nat where "aes_gcm_tag_len = 16"

definition select_padding_bucket :: "nat \<Rightarrow> nat option" where
  "select_padding_bucket padded_plaintext_len =
     List.find (\<lambda>b. padded_plaintext_len + aes_gcm_tag_len \<le> b) dm_padding_buckets"

definition pad_iso7816_4 :: "bytes \<Rightarrow> nat \<Rightarrow> bytes option" where
  "pad_iso7816_4 input target_len =
     (if target_len \<le> length input then None
      else let out = input @ [0x80] in Some (out @ replicate (target_len - length out) 0))"

definition strip_iso7816_4 :: "bytes \<Rightarrow> bytes option" where
  "strip_iso7816_4 padded =
     (let after = takeWhile (\<lambda>b. b \<noteq> 0x80) (rev padded); upto = dropWhile (\<lambda>b. b \<noteq> 0x80) (rev padded)
      in if upto = [] then None
         else if \<exists>b \<in> set after. b \<noteq> 0 then None
         else Some (rev (tl upto)))"

subsection \<open>Envelope and keys\<close>

definition dm_protocol_version :: "8 word" where "dm_protocol_version = 1"

definition compute_inner_signed_hash
  :: "('s, 'p, 'm) dm_ops_scheme \<Rightarrow> bytes \<Rightarrow> bytes \<Rightarrow> bytes \<Rightarrow> nat \<Rightarrow> bytes \<Rightarrow> bytes" where
  "compute_inner_signed_hash E sender recipient_stealth ephemeral_pubkey timestamp_ms body =
     blake2b_256 E (dm_protocol_version # sender @ recipient_stealth @ ephemeral_pubkey
       @ le_bytes 8 timestamp_ms @ blake2b_256 E body)"

definition dm_compute_inner_signed_hash
  :: "('s, 'p, 'm) dm_ops_scheme \<Rightarrow> bytes \<Rightarrow> bytes \<Rightarrow> bytes \<Rightarrow> nat \<Rightarrow> bytes \<Rightarrow> (dm_error, bytes) result" where
  "dm_compute_inner_signed_hash E sender recipient_stealth ephemeral_pubkey timestamp_ms body =
     ensure (length sender = 32) InvalidLength (
     ensure (length recipient_stealth = 32) InvalidLength (
     ensure (length ephemeral_pubkey = 32) InvalidLength (
       Inr (compute_inner_signed_hash E sender recipient_stealth ephemeral_pubkey timestamp_ms body))))"

text \<open>Stealth key, ephemeral public key and shared secret.\<close>

definition dm_derive_recipient_stealth
  :: "('s, 'p, 'm) dm_ops_scheme \<Rightarrow> bytes \<Rightarrow> bytes \<Rightarrow> bytes \<Rightarrow> (dm_error, bytes \<times> bytes \<times> bytes) result" where
  "dm_derive_recipient_stealth E recipient_scan_pub recipient_spend_pub ephemeral_priv =
     ensure (length recipient_scan_pub = 32) InvalidLength (
     ensure (length recipient_spend_pub = 32) InvalidLength (
     ensure (length ephemeral_priv = 32) InvalidLength (
     let eph_pub = x25519_public E ephemeral_priv;
         shared = x25519_dh E ephemeral_priv recipient_scan_pub;
         h = blake2b_256 E shared
     in ok_or (decompress_point E recipient_spend_pub) InvalidEdwardsPoint (\<lambda>spend_point.
          Inr (compress_point E (point_add E spend_point (basepoint_mul E (scalar_from_bytes_mod_order E h))), eph_pub, shared)))))"

definition be_bytes :: "nat \<Rightarrow> nat \<Rightarrow> bytes" where
  "be_bytes k n = rev (le_bytes k n)"

definition build_aad :: "bytes \<Rightarrow> bytes \<Rightarrow> nat \<Rightarrow> bytes" where
  "build_aad recipient_stealth eph_pub padded_len =
     recipient_stealth @ eph_pub @ be_bytes 4 (padded_len mod 2 ^ 32) @ [dm_protocol_version]"

subsection \<open>Encryption and decryption\<close>

text \<open>
  A fresh sender: account and seed, from 32 random bytes and the public key that sr25519 derives from a
  seed.
\<close>

definition dm_generate_sender_stealth :: "(bytes \<Rightarrow> bytes) \<Rightarrow> bytes \<Rightarrow> bytes \<times> bytes" where
  "dm_generate_sender_stealth public_of_seed seed = (public_of_seed seed, seed)"

text \<open>Ciphertext, ephemeral public key, stealth key and bucket.\<close>

definition dm_encrypt_and_pad
  :: "('s, 'p, 'm) dm_ops_scheme \<Rightarrow> bytes \<Rightarrow> bytes \<Rightarrow> bytes \<Rightarrow> bytes \<Rightarrow> bytes \<Rightarrow> nat \<Rightarrow> bytes
      \<Rightarrow> (dm_error, bytes \<times> bytes \<times> bytes \<times> nat) result" where
  "dm_encrypt_and_pad E recipient_scan_pub recipient_spend_pub sender_main_account sender_signature body timestamp_ms ephemeral_priv =
     ensure (length recipient_scan_pub = 32 \<and> length recipient_spend_pub = 32 \<and> length sender_main_account = 32
         \<and> length sender_signature = 64 \<and> length ephemeral_priv = 32) InvalidLength (
     bind_ok (dm_derive_recipient_stealth E recipient_scan_pub recipient_spend_pub ephemeral_priv) (\<lambda>(stealth, eph_pub, shared).
     let encoded = scale_encode E \<lparr>env_version = dm_protocol_version, env_sender_account = sender_main_account,
           env_timestamp_ms = timestamp_ms, env_body = body, env_signature = sender_signature\<rparr>
     in ok_or (select_padding_bucket (length encoded + 1)) BodyTooLarge (\<lambda>bucket.
        let padded_len = bucket - aes_gcm_tag_len
        in ok_or (pad_iso7816_4 encoded padded_len) PaddingOverflow (\<lambda>padded.
           let okm = hkdf_okm E shared (stealth @ eph_pub)
           in ok_or (aes_gcm_encrypt E (take 32 okm) (take 12 (drop 32 okm)) (build_aad stealth eph_pub padded_len) padded)
                AesGcmFailed (\<lambda>ciphertext. Inr (ciphertext, eph_pub, stealth, bucket))))))"

text \<open>Sender, timestamp, body and whether the inner signature is valid.\<close>

definition dm_decrypt_scan
  :: "('s, 'p, 'm) dm_ops_scheme \<Rightarrow> bytes \<Rightarrow> bytes \<Rightarrow> bytes \<Rightarrow> bytes \<Rightarrow> bytes \<Rightarrow> (bytes \<times> nat \<times> bytes \<times> bool) option" where
  "dm_decrypt_scan E own_scan_priv own_spend_pub ephemeral_pubkey purported_recipient_stealth ciphertext =
     (if length own_scan_priv \<noteq> 32 \<or> length own_spend_pub \<noteq> 32 \<or> length ephemeral_pubkey \<noteq> 32
         \<or> length purported_recipient_stealth \<noteq> 32 then None
      else if length ciphertext < aes_gcm_tag_len then None
      else let shared = x25519_dh E own_scan_priv ephemeral_pubkey; h = blake2b_256 E shared
           in case decompress_point E own_spend_pub of None \<Rightarrow> None | Some spend_point \<Rightarrow>
              if compress_point E (point_add E spend_point (basepoint_mul E (scalar_from_bytes_mod_order E h)))
                   \<noteq> purported_recipient_stealth then None
              else let okm = hkdf_okm E shared (purported_recipient_stealth @ ephemeral_pubkey);
                       padded_len = length ciphertext - aes_gcm_tag_len
                   in case aes_gcm_decrypt E (take 32 okm) (take 12 (drop 32 okm))
                             (build_aad purported_recipient_stealth ephemeral_pubkey padded_len) ciphertext of
                        None \<Rightarrow> None
                      | Some padded_plain \<Rightarrow>
                      (case strip_iso7816_4 padded_plain of None \<Rightarrow> None | Some scale_bytes \<Rightarrow>
                      (case scale_decode E scale_bytes of None \<Rightarrow> None | Some envelope \<Rightarrow>
                       if env_version envelope \<noteq> dm_protocol_version then None
                       else let sig_hash = compute_inner_signed_hash E (env_sender_account envelope) purported_recipient_stealth
                                  ephemeral_pubkey (env_timestamp_ms envelope) (env_body envelope)
                            in Some (env_sender_account envelope, env_timestamp_ms envelope, env_body envelope,
                                 sr25519_verify E (env_sender_account envelope) sig_hash (env_signature envelope)))))"

definition dm_media_encrypt :: "('s, 'p, 'm) ecc_scheme \<Rightarrow> bytes \<Rightarrow> bytes \<Rightarrow> bytes \<Rightarrow> (dm_error, bytes) result" where
  "dm_media_encrypt E nonce_random key plaintext =
     ensure (length key = 32) MediaKeyLength (
     ensure (plaintext \<noteq> []) MediaEmpty (
     ok_or (aes_gcm_encrypt E key nonce_random [] plaintext) AesGcmFailed (\<lambda>ct. Inr (nonce_random @ ct))))"

definition dm_media_decrypt :: "('s, 'p, 'm) ecc_scheme \<Rightarrow> bytes \<Rightarrow> bytes \<Rightarrow> (dm_error, bytes) result" where
  "dm_media_decrypt E key blob =
     ensure (length key = 32) MediaKeyLength (
     ensure (12 + 16 \<le> length blob) MediaTooShort (
     ok_or (aes_gcm_decrypt E key (take 12 blob) [] (drop 12 blob)) AesGcmFailed Inr))"

subsection \<open>Fragments and their Merkle tree\<close>

definition hash_leaf :: "('s, 'p, 'm) ecc_scheme \<Rightarrow> bytes \<Rightarrow> bytes" where
  "hash_leaf E leaf = blake2b_256 E (0x00 # leaf)"

definition concat_and_hash :: "('s, 'p, 'm) ecc_scheme \<Rightarrow> bytes \<Rightarrow> bytes option \<Rightarrow> bytes" where
  "concat_and_hash E left right = (case right of Some r \<Rightarrow> blake2b_256 E (0x01 # left @ r) | None \<Rightarrow> left)"

definition merkle_build_internal :: "('s, 'p, 'm) dm_ops_scheme \<Rightarrow> bytes list \<Rightarrow> (dm_error, bytes \<times> bytes list) result" where
  "merkle_build_internal E fragments =
     ensure (fragments \<noteq> []) MerkleBuildFailed (
     let leaves = map (hash_leaf E) fragments
     in ok_or (tree_root E leaves) MerkleBuildFailed (\<lambda>root. Inr (root, leaves)))"

definition generate_proof :: "('s, 'p, 'm) dm_ops_scheme \<Rightarrow> bytes list \<Rightarrow> nat \<Rightarrow> (dm_error, bytes) result" where
  "generate_proof E leaves index = ensure (index < length leaves) IndexOutOfBounds (Inr (tree_proof E leaves index))"

definition merkle_verify_internal
  :: "('s, 'p, 'm) dm_ops_scheme \<Rightarrow> bytes \<Rightarrow> bytes \<Rightarrow> bytes \<Rightarrow> nat \<Rightarrow> nat \<Rightarrow> (dm_error, bool) result" where
  "merkle_verify_internal E root proof_bytes leaf_data leaf_index total_leaves =
     ensure (total_leaves \<noteq> 0) NoLeaves (
     ensure (leaf_index < total_leaves) IndexOutOfBounds (
     ensure (proof_parses E proof_bytes) MerkleProofFormat (
       Inr (proof_verify E proof_bytes root leaf_index (hash_leaf E leaf_data) total_leaves))))"

text \<open>The bindings: a result that generates proofs, and the check of a root handed over by JavaScript.\<close>

record merkle_result =
  mr_root :: bytes
  mr_leaves :: "bytes list"
  mr_leaf_count :: nat

definition merkle_build :: "('s, 'p, 'm) dm_ops_scheme \<Rightarrow> bytes list \<Rightarrow> (dm_error, merkle_result) result" where
  "merkle_build E fragments =
     ensure (fragments \<noteq> []) MerkleBuildFailed (
     bind_ok (merkle_build_internal E fragments) (\<lambda>(root, leaves).
       Inr \<lparr>mr_root = root, mr_leaves = leaves, mr_leaf_count = length leaves\<rparr>))"

definition merkle_result_proof :: "('s, 'p, 'm) dm_ops_scheme \<Rightarrow> merkle_result \<Rightarrow> nat \<Rightarrow> (dm_error, bytes) result" where
  "merkle_result_proof E r index =
     ensure (index < mr_leaf_count r) IndexOutOfBounds (Inr (tree_proof E (mr_leaves r) index))"

definition merkle_verify
  :: "('s, 'p, 'm) dm_ops_scheme \<Rightarrow> bytes \<Rightarrow> bytes \<Rightarrow> bytes \<Rightarrow> nat \<Rightarrow> nat \<Rightarrow> (dm_error, bool) result" where
  "merkle_verify E root proof_bytes leaf_data leaf_index total_leaves =
     ensure (length root = 32) InvalidLength (
     ensure (total_leaves \<noteq> 0) NoLeaves (
     ensure (leaf_index < total_leaves) IndexOutOfBounds (
       merkle_verify_internal E root proof_bytes leaf_data leaf_index total_leaves)))"

text \<open>A leaf that hashes like an inner node is a collision of the hash.\<close>

lemma leaf_node_collision:
  "hash_leaf E leaf = concat_and_hash E left (Some right) \<Longrightarrow> \<exists>x y. x \<noteq> y \<and> blake2b_256 E x = blake2b_256 E y"
  unfolding hash_leaf_def concat_and_hash_def option.case by (metis list.inject zero_neq_one)

definition fragment_of :: "bytes \<Rightarrow> nat \<Rightarrow> nat \<Rightarrow> bytes" where
  "fragment_of ciphertext chunk i =
     (let start = min (i * chunk) (length ciphertext); end = min ((i + 1) * chunk) (length ciphertext);
          frag = take (end - start) (drop start ciphertext)
      in take chunk frag @ replicate (chunk - length frag) 0)"

primrec collect_ok :: "('a \<Rightarrow> ('e, 'b) result) \<Rightarrow> 'a list \<Rightarrow> ('e, 'b list) result" where
  "collect_ok f [] = Inr []"
| "collect_ok f (x # xs) = bind_ok (f x) (\<lambda>y. bind_ok (collect_ok f xs) (\<lambda>ys. Inr (y # ys)))"

text \<open>Merkle root, fragments and proofs.\<close>

definition dm_fragment_ciphertext
  :: "('s, 'p, 'm) dm_ops_scheme \<Rightarrow> bytes \<Rightarrow> nat \<Rightarrow> nat \<Rightarrow> (dm_error, bytes \<times> bytes list \<times> bytes list) result" where
  "dm_fragment_ciphertext E ciphertext k n =
     ensure (n \<noteq> 0) InvalidFragmentCount (
     ensure (k \<noteq> 0 \<and> k \<le> n) InvalidFragmentCount (
     ensure (ciphertext \<noteq> []) EmptyCiphertext (
     let chunk = (length ciphertext + n - 1) div n;
         fragments = map (fragment_of ciphertext chunk) [0..<n]
     in bind_ok (merkle_build_internal E fragments) (\<lambda>(root, leaves).
        bind_ok (collect_ok (generate_proof E leaves) [0..<length fragments]) (\<lambda>proofs.
          Inr (root, fragments, proofs))))))"

subsection \<open>What the code relies on\<close>

definition envelope_wf :: "dm_envelope \<Rightarrow> bool" where
  "envelope_wf e \<longleftrightarrow> length (env_sender_account e) = 32 \<and> env_timestamp_ms e < 2 ^ 64 \<and> length (env_signature e) = 64"

definition dm_ok :: "('s, 'p, 'm) dm_ops_scheme \<Rightarrow> bool" where
  "dm_ok E \<longleftrightarrow> (\<forall>key nonce aad p c. aes_gcm_encrypt E key nonce aad p = Some c \<longrightarrow>
       aes_gcm_decrypt E key nonce aad c = Some p \<and> length c = length p + 16)
     \<and> (\<forall>e. envelope_wf e \<longrightarrow> scale_decode E (scale_encode E e) = Some e)"

definition tree_ok :: "('s, 'p, 'm) dm_ops_scheme \<Rightarrow> bool" where
  "tree_ok E \<longleftrightarrow> (\<forall>leaves root i. tree_root E leaves = Some root \<longrightarrow> i < length leaves \<longrightarrow>
     proof_parses E (tree_proof E leaves i) \<and> proof_verify E (tree_proof E leaves i) root i (leaves ! i) (length leaves))"

text \<open>What the bindings build they verify, for every fragment.\<close>

lemma merkle_bindings_roundtrip:
  assumes "tree_ok E" and "merkle_build E fragments = Inr r" and "length (mr_root r) = 32" and "i < length fragments"
  shows "\<exists>proof_bytes. merkle_result_proof E r i = Inr proof_bytes
    \<and> merkle_verify E (mr_root r) proof_bytes (fragments ! i) i (length fragments) = Inr True"
proof -
  have "tree_root E (map (hash_leaf E) fragments) = Some (mr_root r)" "mr_leaves r = map (hash_leaf E) fragments"
    "mr_leaf_count r = length fragments"
    using assms(2) by (auto simp: merkle_build_def merkle_build_internal_def result_simps Let_def)
  moreover from this have "proof_parses E (tree_proof E (mr_leaves r) i)
      \<and> proof_verify E (tree_proof E (mr_leaves r) i) (mr_root r) i (mr_leaves r ! i) (length fragments)"
    using assms(1, 4) by (metis tree_ok_def length_map)
  ultimately show ?thesis
    using assms(3, 4) by (auto simp: merkle_result_proof_def merkle_verify_def merkle_verify_internal_def ensure_def)
qed

subsection \<open>Padding hides the length and is removed exactly\<close>

lemma pad_strip:
  assumes "pad_iso7816_4 input n = Some padded"
  shows "strip_iso7816_4 padded = Some input" and "length padded = n"
proof -
  have p: "padded = input @ 0x80 # replicate (n - Suc (length input)) 0" and l: "length input < n"
    using assms by (auto simp: pad_iso7816_4_def split: if_splits)
  have "takeWhile (\<lambda>b. b \<noteq> 0x80) (replicate m 0 @ 0x80 # xs) = replicate m (0 :: 8 word)"
    and "dropWhile (\<lambda>b. b \<noteq> 0x80) (replicate m 0 @ 0x80 # xs) = (0x80 :: 8 word) # xs" for m xs
    by (induction m) simp_all
  then show "strip_iso7816_4 padded = Some input" by (simp add: p strip_iso7816_4_def Let_def)
  show "length padded = n" using l by (simp add: p)
qed

lemma bucket_laws:
  assumes "select_padding_bucket n = Some b"
  shows "b \<in> set dm_padding_buckets" and "n + aes_gcm_tag_len \<le> b"
    and "b' \<in> set dm_padding_buckets \<Longrightarrow> n + aes_gcm_tag_len \<le> b' \<Longrightarrow> b \<le> b'"
  using assms by (auto simp: select_padding_bucket_def dm_padding_buckets_def split: if_splits)

text \<open>C35: a message encrypted to a recipient's keys has exactly the length of its bucket,
  and the recipient's scan opens it: sender, time and body are those sent, and the signature is
  reported valid exactly when it is one on the inner hash.
\<close>

theorem dm_roundtrip:
  assumes "ecc_ok E" and "dm_ok E" and "length scan_priv = 32" and "timestamp_ms < 2 ^ 64"
    and "dm_encrypt_and_pad E (x25519_public E scan_priv) spend_pub sender signature body timestamp_ms eph
       = Inr (ciphertext, eph_pub, stealth, bucket)"
  shows "length ciphertext = bucket \<and> bucket \<in> set dm_padding_buckets
     \<and> dm_decrypt_scan E scan_priv spend_pub eph_pub stealth ciphertext
       = Some (sender, timestamp_ms, body,
           sr25519_verify E sender (compute_inner_signed_hash E sender stealth eph_pub timestamp_ms body) signature)"
proof -
  note law = ecc_okD [OF assms(1)]
  let ?env = "\<lparr>env_version = dm_protocol_version, env_sender_account = sender,
           env_timestamp_ms = timestamp_ms, env_body = body, env_signature = signature\<rparr>"
  let ?shared = "x25519_dh E eph (x25519_public E scan_priv)"
  let ?okm = "hkdf_okm E ?shared (stealth @ eph_pub)"
  from assms(5) obtain pt padded where l: "length spend_pub = 32" "length sender = 32" "length signature = 64"
    and pt: "decompress_point E spend_pub = Some pt" and eph: "eph_pub = x25519_public E eph"
    and st: "stealth = compress_point E (point_add E pt (basepoint_mul E (scalar_from_bytes_mod_order E (blake2b_256 E ?shared))))"
    and b: "select_padding_bucket (length (scale_encode E ?env) + 1) = Some bucket"
    and pad: "pad_iso7816_4 (scale_encode E ?env) (bucket - aes_gcm_tag_len) = Some padded"
    and ct: "aes_gcm_encrypt E (take 32 ?okm) (take 12 (drop 32 ?okm))
        (build_aad stealth eph_pub (bucket - aes_gcm_tag_len)) padded = Some ciphertext"
    by (auto simp: dm_encrypt_and_pad_def dm_derive_recipient_stealth_def result_simps Let_def split: prod.splits)
  have dh: "x25519_dh E scan_priv eph_pub = ?shared" unfolding eph by (rule law(1))
  have dec: "aes_gcm_decrypt E (take 32 ?okm) (take 12 (drop 32 ?okm))
        (build_aad stealth eph_pub (bucket - aes_gcm_tag_len)) ciphertext = Some padded"
    and cl: "length ciphertext = length padded + 16" using assms(2) ct unfolding dm_ok_def by blast+
  have "aes_gcm_tag_len \<le> bucket" using bucket_laws(2) [OF b] by simp
  then have len: "length ciphertext = bucket" using cl pad_strip(2) [OF pad] by (simp add: aes_gcm_tag_len_def)
  have "envelope_wf ?env" using l assms(4) by (simp add: envelope_wf_def)
  then have sc: "scale_decode E (scale_encode E ?env) = Some ?env" using assms(2) by (simp add: dm_ok_def)
  have "\<not> length ciphertext < aes_gcm_tag_len" using cl by (simp add: aes_gcm_tag_len_def)
  then have "dm_decrypt_scan E scan_priv spend_pub eph_pub stealth ciphertext
       = Some (sender, timestamp_ms, body,
           sr25519_verify E sender (compute_inner_signed_hash E sender stealth eph_pub timestamp_ms body) signature)"
    unfolding dm_decrypt_scan_def Let_def dh
    using assms(3) l pt st dec pad_strip(1) [OF pad] sc by (simp add: law(2,10) eph len)
  then show ?thesis using len bucket_laws(1) [OF b] by blast
qed

subsection \<open>Fragments\<close>

lemma fragment_of_shard: "fragment_of ciphertext chunk i = data_shard ciphertext chunk i"
  by (auto simp: fragment_of_def data_shard_def Let_def min_def)

lemma collect_ok_Inr:
  "collect_ok f xs = Inr ys \<Longrightarrow> length ys = length xs \<and> (\<forall>i < length xs. f (xs ! i) = Inr (ys ! i))"
  by (induction xs arbitrary: ys) (auto simp: result_simps nth_Cons' less_Suc_eq_0_disj)

text \<open>A ciphertext is cut into exactly \<open>n\<close> fragments that give it back when joined and cut
  to its length, and each fragment's proof is accepted by the verifier for its index and the root.
\<close>

theorem dm_fragments_rejoin:
  assumes "tree_ok E" and "dm_fragment_ciphertext E ciphertext k n = Inr (root, fragments, proofs)"
  shows "length fragments = n \<and> take (length ciphertext) (concat fragments) = ciphertext
     \<and> (\<forall>i < n. merkle_verify_internal E root (proofs ! i) (fragments ! i) i n = Inr True)"
proof -
  let ?chunk = "(length ciphertext + n - 1) div n"
  have n: "n \<noteq> 0" and fr: "fragments = map (data_shard ciphertext ?chunk) [0..<n]"
    and root: "tree_root E (map (hash_leaf E) fragments) = Some root"
    and pr: "collect_ok (generate_proof E (map (hash_leaf E) fragments)) [0..<n] = Inr proofs"
    using assms(2) by (auto simp: dm_fragment_ciphertext_def merkle_build_internal_def result_simps Let_def
        fragment_of_shard [abs_def])
  have len: "length fragments = n" by (simp add: fr)
  have "merkle_verify_internal E root (proofs ! i) (fragments ! i) i n = Inr True" if "i < n" for i
  proof -
    have "generate_proof E (map (hash_leaf E) fragments) i = Inr (proofs ! i)"
      using collect_ok_Inr [OF pr] that by simp
    then have "proofs ! i = tree_proof E (map (hash_leaf E) fragments) i"
      by (simp add: generate_proof_def result_simps)
    then show ?thesis using assms(1) root that n len unfolding tree_ok_def
      by (simp add: merkle_verify_internal_def) (metis length_map nth_map)
  qed
  moreover have "length ciphertext \<le> n * ?chunk" by (rule shard_size_covers) (use n in simp)
  then have "take (length ciphertext) (concat fragments) = ciphertext"
    by (simp add: fr concat_data_shards)
  ultimately show ?thesis using len by blast
qed

subsection \<open>A small instance\<close>

text \<open>The cipher appends a tag; the tree is the list of its leaves, and a proof of one names it.\<close>

definition demo_dm :: "(gf256, gf256) dm_ops" where
  "demo_dm = ecc.extend (demo_ecc\<lparr>aes_gcm_encrypt := (\<lambda>key nonce aad p. Some (p @ replicate 16 9)),
       aes_gcm_decrypt := (\<lambda>key nonce aad c. Some (take (length c - 16) c))\<rparr>)
     (dm_ops.fields (\<lambda>shared info. shared)
       (\<lambda>e. env_version e # env_sender_account e @ le_bytes 8 (env_timestamp_ms e) @ env_signature e @ env_body e)
       (\<lambda>bs. Some \<lparr>env_version = hd bs, env_sender_account = take 32 (drop 1 bs),
          env_timestamp_ms = be_value (rev (take 8 (drop 33 bs))), env_body = drop 105 bs,
          env_signature = take 64 (drop 41 bs)\<rparr>)
       (\<lambda>pub msg sig. True) (\<lambda>leaves. Some (concat leaves)) (\<lambda>leaves i. leaves ! i) (\<lambda>p. True)
       (\<lambda>proof root i leaf total. proof = leaf))"

lemma demo_dm_ecc: "ecc_ok demo_dm"
  using demo_ecc_ok by (simp add: ecc_ok_def demo_dm_def ecc.defs)

lemma demo_dm_ok: "dm_ok demo_dm"
  unfolding dm_ok_def
proof (intro conjI allI impI)
  fix e assume "envelope_wf e"
  then show "scale_decode demo_dm (scale_encode demo_dm e) = Some e"
    by (cases e) (simp add: envelope_wf_def demo_dm_def ecc.defs dm_ops.defs be_value_le_bytes)
qed (auto simp: demo_dm_def ecc.defs dm_ops.defs)

lemma demo_dm_encrypt: "\<exists>ct eph_pub st b. dm_encrypt_and_pad demo_dm (x25519_public demo_dm (replicate 32 1)) (replicate 32 2)
    (replicate 32 3) (replicate 64 4) [5] 6 (replicate 32 7) = Inr (ct, eph_pub, st, b)"
  by (simp add: dm_encrypt_and_pad_def dm_derive_recipient_stealth_def Let_def demo_dm_def ecc.defs dm_ops.defs demo_ecc_def
      select_padding_bucket_def dm_padding_buckets_def aes_gcm_tag_len_def pad_iso7816_4_def)

theorem dm_roundtrip_witness:
  "\<exists>ct eph_pub st b. length ct = b \<and> b \<in> set dm_padding_buckets
     \<and> dm_decrypt_scan demo_dm (replicate 32 1) (replicate 32 2) eph_pub st ct
       = Some (replicate 32 3, 6, [5],
           sr25519_verify demo_dm (replicate 32 3) (compute_inner_signed_hash demo_dm (replicate 32 3) st eph_pub 6 [5]) (replicate 64 4))"
proof -
  obtain ct eph_pub st b where e: "dm_encrypt_and_pad demo_dm (x25519_public demo_dm (replicate 32 1)) (replicate 32 2)
    (replicate 32 3) (replicate 64 4) [5] 6 (replicate 32 7) = Inr (ct, eph_pub, st, b)"
    using demo_dm_encrypt by blast
  show ?thesis using dm_roundtrip [OF demo_dm_ecc demo_dm_ok _ _ e] by auto
qed

theorem dm_fragments_rejoin_witness:
  "\<exists>root fragments proofs. dm_fragment_ciphertext demo_dm [1, 2, 3] 1 2 = Inr (root, fragments, proofs)
     \<and> length fragments = 2 \<and> take (length [1, 2, 3 :: 8 word]) (concat fragments) = [1, 2, 3]
     \<and> (\<forall>i < 2. merkle_verify_internal demo_dm root (proofs ! i) (fragments ! i) i 2 = Inr True)"
proof -
  have tree: "tree_ok demo_dm" by (simp add: tree_ok_def demo_dm_def ecc.defs dm_ops.defs)
  obtain root fragments proofs where e: "dm_fragment_ciphertext demo_dm [1, 2, 3] 1 2 = Inr (root, fragments, proofs)"
    by (simp add: dm_fragment_ciphertext_def merkle_build_internal_def generate_proof_def Let_def upt_rec
        demo_dm_def ecc.defs dm_ops.defs numeral_2_eq_2)
  show ?thesis using e dm_fragments_rejoin [OF tree e] by blast
qed

end
