(* ===== verification/Rust_Text.thy ===== *)
theory Rust_Text
  imports Pow
begin

text \<open>
  Operations of the standard library on text that the programs use: decimal numbers, \<open>lines\<close>,
  \<open>trim\<close>, \<open>parse::<usize>\<close>, and the digits of hexadecimal. Text is the sequence of its UTF-8
  bytes, held as characters.
\<close>

subsection \<open>Decimal numbers\<close>

text \<open>The decimal digits \<open>format!\<close> writes for an integer.\<close>

fun decimal :: "nat \<Rightarrow> string" where
  "decimal n = (if n < 10 then [char_of (n + 48)] else decimal (n div 10) @ [char_of (n mod 10 + 48)])"

declare decimal.simps [simp del]

definition digit_val :: "char \<Rightarrow> nat option" where
  "digit_val c = (let n = of_char c in if 48 \<le> n \<and> n \<le> 57 then Some (n - 48) else None)"

primrec parse_digits :: "string \<Rightarrow> nat \<Rightarrow> nat option" where
  "parse_digits [] acc = Some acc"
| "parse_digits (c # cs) acc = (case digit_val c of None \<Rightarrow> None | Some d \<Rightarrow> parse_digits cs (10 * acc + d))"

text \<open>\<open>parse\<close> into an unsigned integer of \<open>w\<close> bits: one leading plus sign is allowed.\<close>

definition parse_usize :: "nat \<Rightarrow> string \<Rightarrow> nat option" where
  "parse_usize w s =
     (let t = (case s of c # r \<Rightarrow> if c = CHR ''+'' \<and> r \<noteq> [] then r else s | [] \<Rightarrow> [])
      in if t = [] then None
         else case parse_digits t 0 of None \<Rightarrow> None | Some v \<Rightarrow> if v < 2 ^ w then Some v else None)"

lemma parse_digits_append:
  "parse_digits (s @ t) acc = (case parse_digits s acc of None \<Rightarrow> None | Some v \<Rightarrow> parse_digits t v)"
  by (induction s arbitrary: acc) (auto split: option.splits)

lemma digit_val_digit: "d < 10 \<Longrightarrow> digit_val (char_of (d + 48)) = Some d"
  by (simp add: digit_val_def Let_def)

lemma parse_decimal: "parse_digits (decimal n) 0 = Some n"
proof (induction n rule: decimal.induct)
  case (1 n)
  show ?case
  proof (cases "n < 10")
    case True
    then show ?thesis by (simp add: decimal.simps [of n] digit_val_digit)
  next
    case False
    moreover have "digit_val (char_of (n mod 10 + 48)) = Some (n mod 10)" by (rule digit_val_digit) simp
    ultimately show ?thesis using 1 by (subst decimal.simps) (simp add: parse_digits_append)
  qed
qed

definition is_digit :: "char \<Rightarrow> bool" where "is_digit c \<longleftrightarrow> (48 :: nat) \<le> of_char c \<and> of_char c \<le> (57 :: nat)"

lemma decimal_digits: "decimal n \<noteq> [] \<and> (\<forall>c \<in> set (decimal n). is_digit c)"
proof (induction n rule: decimal.induct)
  case (1 n)
  have "is_digit (char_of (d + 48))" if "d < 10" for d :: nat using that by (simp add: is_digit_def)
  then show ?case using 1 by (subst (1 2) decimal.simps) auto
qed

lemma parse_usize_decimal: "n < 2 ^ w \<Longrightarrow> parse_usize w (decimal n) = Some n"
proof -
  assume "n < 2 ^ w"
  obtain c r where d: "decimal n = c # r" using decimal_digits [of n] by (cases "decimal n") auto
  then have "is_digit c" using decimal_digits [of n] by simp
  then have "c \<noteq> CHR ''+''" by (auto simp: is_digit_def)
  then show ?thesis using \<open>n < 2 ^ w\<close> parse_decimal [of n] by (simp add: parse_usize_def d Let_def)
qed

subsection \<open>Lines\<close>

definition newline :: char where "newline = CHR 0x0A"
definition carriage_return :: char where "carriage_return = CHR 0x0D"

definition strip_cr :: "string \<Rightarrow> string" where
  "strip_cr l = (if l \<noteq> [] \<and> last l = carriage_return then butlast l else l)"

text \<open>A last line that no newline ends is kept as it is, and only there a final carriage return.\<close>

function text_lines :: "string \<Rightarrow> string list" where
  "text_lines s =
     (if s = [] then []
      else case dropWhile (\<lambda>c. c \<noteq> newline) s of
          [] \<Rightarrow> [s]
        | _ # r \<Rightarrow> strip_cr (takeWhile (\<lambda>c. c \<noteq> newline) s) # text_lines r)"
  by pat_completeness auto

termination
proof (relation "measure length")
  fix s :: string and x r
  assume "dropWhile (\<lambda>c. c \<noteq> newline) s = x # r"
  then have "length (x # r) \<le> length s" by (metis length_dropWhile_le)
  then show "(r, s) \<in> measure length" by simp
qed simp

declare text_lines.simps [simp del]

lemma text_lines_join:
  assumes "\<forall>l \<in> set ls. newline \<notin> set l \<and> (l = [] \<or> last l \<noteq> carriage_return)"
  shows "text_lines (concat (map (\<lambda>l. l @ [newline]) ls)) = ls"
  using assms
proof (induction ls)
  case (Cons l ls)
  have "newline \<notin> set l" using Cons.prems by simp
  then have d: "dropWhile (\<lambda>c. c \<noteq> newline) (l @ newline # t) = newline # t"
    and t: "takeWhile (\<lambda>c. c \<noteq> newline) (l @ newline # t) = l" for t
    by (induction l) auto
  have "strip_cr l = l" using Cons.prems by (auto simp: strip_cr_def)
  then show ?case using Cons by (subst text_lines.simps) (simp add: d t)
qed (simp add: text_lines.simps)

subsection \<open>White space\<close>

text \<open>The encodings of the characters with the property \<open>White_Space\<close>.\<close>

definition white_space_codes :: "nat list list" where
  "white_space_codes =
     [[0x09], [0x0A], [0x0B], [0x0C], [0x0D], [0x20], [0xC2, 0x85], [0xC2, 0xA0], [0xE1, 0x9A, 0x80]]
     @ map (\<lambda>b. [0xE2, 0x80, b]) [0x80, 0x81, 0x82, 0x83, 0x84, 0x85, 0x86, 0x87, 0x88, 0x89, 0x8A, 0xA8, 0xA9, 0xAF]
     @ [[0xE2, 0x81, 0x9F], [0xE3, 0x80, 0x80]]"

definition white_space :: "string list" where
  "white_space = map (map char_of) white_space_codes"

text \<open>Strips whatever encodings of \<open>ws\<close> the text begins with.\<close>

function strip_start :: "string list \<Rightarrow> string \<Rightarrow> string" where
  "strip_start ws s = (case find (\<lambda>w. w \<noteq> [] \<and> take (length w) s = w) ws of
       None \<Rightarrow> s | Some w \<Rightarrow> strip_start ws (drop (length w) s))"
  by pat_completeness auto

termination
proof (relation "measure (length \<circ> snd)")
  fix ws s w assume "find (\<lambda>w. w \<noteq> [] \<and> take (length w) s = w) ws = Some w"
  then have "w \<noteq> []" "take (length w) s = w" by (auto simp: find_Some_iff)
  then show "((ws, drop (length w) s), ws, s) \<in> measure (length \<circ> snd)" by (cases s) auto
qed simp

declare strip_start.simps [simp del]

definition text_trim :: "string \<Rightarrow> string" where
  "text_trim s = rev (strip_start (map rev white_space) (rev (strip_start white_space s)))"

definition graphic :: "char \<Rightarrow> bool" where "graphic c \<longleftrightarrow> (33 :: nat) \<le> of_char c \<and> of_char c < (127 :: nat)"

lemma white_space_ends: "\<forall>w \<in> set white_space. w \<noteq> [] \<and> \<not> graphic (hd w) \<and> \<not> graphic (last w)"
  by (simp add: white_space_def white_space_codes_def graphic_def)

lemma strip_start_id:
  assumes "\<forall>w \<in> set ws. w \<noteq> [] \<longrightarrow> \<not> graphic (hd w)" and "s = [] \<or> graphic (hd s)"
  shows "strip_start ws s = s"
proof -
  have "find (\<lambda>w. w \<noteq> [] \<and> take (length w) s = w) ws = None"
    unfolding find_None_iff
  proof (intro notI, elim exE conjE)
    fix w assume w: "w \<in> set ws" "w \<noteq> []" "take (length w) s = w"
    then have "hd w = hd s" "s \<noteq> []" by (metis hd_take length_greater_0_conv, auto)
    then show False using w assms by auto
  qed
  then show ?thesis by (simp add: strip_start.simps)
qed

lemma text_trim_id:
  assumes "s = [] \<or> (graphic (hd s) \<and> graphic (last s))"
  shows "text_trim s = s"
proof -
  have "strip_start white_space s = s"
    by (rule strip_start_id) (use assms white_space_ends in auto)
  moreover have "strip_start (map rev white_space) (rev s) = rev s"
  proof (rule strip_start_id)
    show "\<forall>w \<in> set (map rev white_space). w \<noteq> [] \<longrightarrow> \<not> graphic (hd w)"
      using white_space_ends by (simp add: hd_rev)
    show "rev s = [] \<or> graphic (hd (rev s))" using assms by (auto simp: hd_rev)
  qed
  ultimately show ?thesis by (simp add: text_trim_def)
qed

subsection \<open>Hexadecimal\<close>

definition hex_val :: "char \<Rightarrow> nat option" where
  "hex_val c = (let n = of_char c in
     if 48 \<le> n \<and> n \<le> 57 then Some (n - 48)
     else if 97 \<le> n \<and> n \<le> 102 then Some (n - 87)
     else if 65 \<le> n \<and> n \<le> 70 then Some (n - 55) else None)"

definition hex_digit :: "nat \<Rightarrow> char" where
  "hex_digit d = char_of (if d < 10 then d + 48 else d + 87)"

definition hex_encode :: "bytes \<Rightarrow> string" where
  "hex_encode bs = concat (map (\<lambda>b. [hex_digit (unat b div 16), hex_digit (unat b mod 16)]) bs)"

lemma hex_val_digit: "d < 16 \<Longrightarrow> hex_val (hex_digit d) = Some d"
  by (auto simp: hex_val_def hex_digit_def Let_def)

lemma hex_digit_graphic: "d < 16 \<Longrightarrow> graphic (hex_digit d) \<and> hex_digit d \<noteq> CHR ''+'' \<and> of_char (hex_digit d) < (128 :: nat)"
  by (auto simp: hex_digit_def graphic_def dest: arg_cong [of _ _ "of_char :: char \<Rightarrow> nat"])

lemma nibbles: "unat (b :: 8 word) div 16 < 16" "unat b mod 16 < 16"
  using unat_byte_less [of b] by (simp_all add: less_mult_imp_div_less)

lemma hex_encode_graphic: "\<forall>c \<in> set (hex_encode bs). graphic c"
  unfolding hex_encode_def using hex_digit_graphic nibbles by auto

end
