(* ===== verification/Node_Auth.thy ===== *)
theory Node_Auth
  imports Pow Rust_Text
begin

text \<open>
  Request authentication of the storage node daemon (\<open>src/apps/storage-node/src/rpc/auth.rs\<close>):
  the cache of used nonces, the validation of a signed request, the middleware and the gate in
  front of the write methods. The clock is an argument of every operation that reads it, once for
  each reading. The hex and JSON decoders, Blake2b and the Sr25519 library are parameters.
\<close>

subsection \<open>Data\<close>

record signed_request =
  sr_account_id :: string
  sr_timestamp :: nat
  sr_nonce :: string
  sr_payload_hash :: string
  sr_signature :: string

record chain_auth =
  ca_public_key :: string
  ca_timestamp :: nat
  ca_method :: string
  ca_signature :: string

datatype auth_error = MissingAuth | MalformedRequest | InvalidSignature | ExpiredTimestamp | NonceReused
  | PayloadHashMismatch

primrec status_code :: "auth_error \<Rightarrow> nat" where
  "status_code MissingAuth = 401"
| "status_code MalformedRequest = 403"
| "status_code InvalidSignature = 403"
| "status_code ExpiredTimestamp = 403"
| "status_code NonceReused = 403"
| "status_code PayloadHashMismatch = 403"

primrec auth_message :: "auth_error \<Rightarrow> string" where
  "auth_message MissingAuth = ''Authentication required''"
| "auth_message MalformedRequest = ''Malformed authentication request''"
| "auth_message InvalidSignature = ''Invalid signature''"
| "auth_message ExpiredTimestamp = ''Timestamp expired''"
| "auth_message NonceReused = ''Nonce already used''"
| "auth_message PayloadHashMismatch = ''Payload hash mismatch''"

text \<open>What the code takes from its libraries: \<open>hex::decode\<close>, \<open>serde_json\<close>, Blake2b and schnorrkel.\<close>

record ('j, 'k, 's) auth_env =
  hex_decode :: "string \<Rightarrow> bytes option"
  parse_signed :: "string \<Rightarrow> signed_request option"
  parse_chain :: "string \<Rightarrow> chain_auth option"
  json_params :: "bytes \<Rightarrow> 'j option option"
  without_auth :: "'j \<Rightarrow> 'j"
  json_to_string :: "'j \<Rightarrow> bytes option"
  env_blake2 :: "bytes \<Rightarrow> bytes"
  pk_from_bytes :: "bytes \<Rightarrow> 'k option"
  sig_from_bytes :: "bytes \<Rightarrow> 's option"
  pk_verify :: "'k \<Rightarrow> bytes \<Rightarrow> bytes \<Rightarrow> 's \<Rightarrow> bool"

definition signature_validity :: nat where "signature_validity = 300"

definition nonce_ttl :: nat where "nonce_ttl = signature_validity"

definition signing_context :: bytes where
  "signing_context = map (word_of_nat \<circ> of_char) ''substrate''"

subsection \<open>Fields of a request\<close>

definition strip_hex_prefix :: "string \<Rightarrow> string" where
  "strip_hex_prefix s =
     (case s of a # b # t \<Rightarrow> (if a = CHR ''0'' \<and> (b = CHR ''x'' \<or> b = CHR ''X'') then t else s) | _ \<Rightarrow> s)"

text \<open>\<open>hex::decode(..)?.try_into()\<close> for an array of \<open>n\<close> bytes.\<close>

definition hex_field :: "('j, 'k, 's) auth_env \<Rightarrow> nat \<Rightarrow> string \<Rightarrow> (auth_error, bytes) result" where
  "hex_field env n s = ok_or (hex_decode env (strip_hex_prefix s)) MalformedRequest (\<lambda>bs.
     ensure (length bs = n) MalformedRequest (Inr bs))"

definition get_account_id_bytes :: "('j, 'k, 's) auth_env \<Rightarrow> signed_request \<Rightarrow> (auth_error, bytes) result" where
  "get_account_id_bytes env r = hex_field env 32 (sr_account_id r)"

definition get_nonce_bytes :: "('j, 'k, 's) auth_env \<Rightarrow> signed_request \<Rightarrow> (auth_error, bytes) result" where
  "get_nonce_bytes env r = hex_field env 16 (sr_nonce r)"

definition get_signature_bytes :: "('j, 'k, 's) auth_env \<Rightarrow> signed_request \<Rightarrow> (auth_error, bytes) result" where
  "get_signature_bytes env r = hex_field env 64 (sr_signature r)"

definition get_payload_hash_bytes :: "('j, 'k, 's) auth_env \<Rightarrow> signed_request \<Rightarrow> (auth_error, bytes) result" where
  "get_payload_hash_bytes env r = hex_field env 32 (sr_payload_hash r)"

subsection \<open>The cache of nonces\<close>

type_synonym nonce_cache = "string \<rightharpoonup> nat"

definition check_and_insert :: "nat \<Rightarrow> nat \<Rightarrow> string \<Rightarrow> nonce_cache \<Rightarrow> bool \<times> nonce_cache" where
  "check_and_insert ttl now nonce cache =
     (if (case cache nonce of None \<Rightarrow> False | Some inserted_at \<Rightarrow> now - inserted_at \<le> ttl)
      then (False, cache)
      else (True, cache(nonce \<mapsto> now)))"

definition nonce_gc :: "nat \<Rightarrow> nat \<Rightarrow> nonce_cache \<Rightarrow> nonce_cache" where
  "nonce_gc ttl now cache =
     (\<lambda>nonce. case cache nonce of None \<Rightarrow> None
        | Some inserted_at \<Rightarrow> if now - inserted_at \<le> ttl then Some inserted_at else None)"

subsection \<open>Validation\<close>

definition verify_sr25519_signature :: "('j, 'k, 's) auth_env \<Rightarrow> bytes \<Rightarrow> bytes \<Rightarrow> bytes \<Rightarrow> bool" where
  "verify_sr25519_signature env public_key message signature =
     (case pk_from_bytes env public_key of
        None \<Rightarrow> False
      | Some pk \<Rightarrow> (case sig_from_bytes env signature of
            None \<Rightarrow> False
          | Some sg \<Rightarrow> pk_verify env pk signing_context message sg))"

definition signed_message :: "bytes \<Rightarrow> nat \<Rightarrow> bytes \<Rightarrow> bytes \<Rightarrow> bytes" where
  "signed_message account timestamp nonce payload_hash =
     account @ le_bytes 8 timestamp @ nonce @ payload_hash"

definition timestamp_ok :: "nat \<Rightarrow> nat \<Rightarrow> bool" where
  "timestamp_ok now timestamp \<longleftrightarrow> now - timestamp \<le> signature_validity \<and> timestamp - now \<le> 30"

text \<open>The nonce is used up as soon as it is seen fresh, also when a later check fails.\<close>

definition validate_request ::
  "('j, 'k, 's) auth_env \<Rightarrow> nat \<Rightarrow> nat \<Rightarrow> signed_request \<Rightarrow> bytes \<Rightarrow> nonce_cache \<Rightarrow>
   nonce_cache \<times> (auth_error, unit) result" where
  "validate_request env now now' r expected cache =
     (if \<not> timestamp_ok now (sr_timestamp r) then (cache, Inl (Err ExpiredTimestamp))
      else
        let (fresh, cache') = check_and_insert nonce_ttl now' (sr_nonce r) cache in
        if \<not> fresh then (cache', Inl (Err NonceReused))
        else (cache',
          bind_ok (get_payload_hash_bytes env r) (\<lambda>provided_hash.
          ensure (provided_hash = expected) PayloadHashMismatch (
          bind_ok (get_account_id_bytes env r) (\<lambda>public_key.
          bind_ok (get_signature_bytes env r) (\<lambda>signature.
          bind_ok (get_nonce_bytes env r) (\<lambda>nonce.
          ensure (verify_sr25519_signature env public_key
                    (signed_message public_key (sr_timestamp r) nonce provided_hash) signature)
            InvalidSignature (Inr ()))))))))"

definition chain_message :: "nat \<Rightarrow> string \<Rightarrow> bytes" where
  "chain_message timestamp method =
     map (word_of_nat \<circ> of_char) (''chain-auth:'' @ decimal timestamp @ '':'' @ method)"

definition validate_chain_auth :: "('j, 'k, 's) auth_env \<Rightarrow> nat \<Rightarrow> chain_auth \<Rightarrow> (auth_error, unit) result" where
  "validate_chain_auth env now a =
     ensure (timestamp_ok now (ca_timestamp a)) ExpiredTimestamp (
     bind_ok (hex_field env 32 (ca_public_key a)) (\<lambda>pk.
     bind_ok (hex_field env 64 (ca_signature a)) (\<lambda>sg.
     ensure (verify_sr25519_signature env pk (chain_message (ca_timestamp a) (ca_method a)) sg)
       InvalidSignature (Inr ()))))"

subsection \<open>The middleware\<close>

text \<open>A header is absent, present with a value that is not text, or present with a text.\<close>

type_synonym headers = "string \<Rightarrow> string option option"

definition auth_header :: string where "auth_header = ''X-Anarchy-Auth''"
definition chain_auth_header :: string where "chain_auth_header = ''X-Chain-Auth''"

datatype auth_response = Denied nat string | Next bytes

definition parse_auth_header :: "('j, 'k, 's) auth_env \<Rightarrow> headers \<Rightarrow> (auth_error, signed_request) result" where
  "parse_auth_header env headers =
     ok_or (headers auth_header) MissingAuth (\<lambda>v. ok_or v MalformedRequest (\<lambda>text.
     ok_or (parse_signed env text) MalformedRequest Inr))"

definition parse_chain_auth_header :: "('j, 'k, 's) auth_env \<Rightarrow> headers \<Rightarrow> (auth_error, chain_auth) result" where
  "parse_chain_auth_header env headers =
     ok_or (headers chain_auth_header) MissingAuth (\<lambda>v. ok_or v MalformedRequest (\<lambda>text.
     ok_or (parse_chain env text) MalformedRequest Inr))"

definition extract_and_hash_params :: "('j, 'k, 's) auth_env \<Rightarrow> bytes \<Rightarrow> (auth_error, bytes) result" where
  "extract_and_hash_params env body =
     ok_or (json_params env body) InvalidSignature (\<lambda>field.
     ok_or field InvalidSignature (\<lambda>params.
     ok_or (json_to_string env (without_auth env params)) InvalidSignature (\<lambda>text.
       Inr (env_blake2 env text))))"

definition deny :: "auth_error failure \<Rightarrow> auth_response" where
  "deny e = (case e of Err x \<Rightarrow> Denied (status_code x) (auth_message x) | Trap \<Rightarrow> Denied 500 '''')"

definition auth_middleware ::
  "('j, 'k, 's) auth_env \<Rightarrow> nat \<Rightarrow> bool \<Rightarrow> nat \<times> nat \<times> nat \<Rightarrow> headers \<Rightarrow> bytes \<Rightarrow> nonce_cache \<Rightarrow>
   nonce_cache \<times> auth_response" where
  "auth_middleware env max_body enabled = (\<lambda>(now1, now2, now3) headers body cache.
     if \<not> enabled then (cache, Next body)
     else if headers chain_auth_header = None then (cache, Denied 401 ''X-Chain-Auth header required'')
     else
       case bind_ok (parse_chain_auth_header env headers) (validate_chain_auth env now1) of
         Inl e \<Rightarrow> (cache, deny e)
       | Inr _ \<Rightarrow>
          if headers auth_header = None then (cache, Next body)
          else
            case parse_auth_header env headers of
              Inl e \<Rightarrow> (cache, deny e)
            | Inr request \<Rightarrow>
               if max_body < length body then (cache, Denied 413 ''Request body too large'')
               else
                 case extract_and_hash_params env body of
                   Inl _ \<Rightarrow> (cache, Denied 400 ''Invalid JSON-RPC request'')
                 | Inr actual \<Rightarrow>
                    let (cache', res) = validate_request env now2 now3 request actual cache
                    in case res of Inl e \<Rightarrow> (cache', deny e) | Inr _ \<Rightarrow> (cache', Next body))"

definition require_auth :: "headers \<Rightarrow> bool \<Rightarrow> bool" where
  "require_auth headers enabled = (if \<not> enabled then True else headers auth_header \<noteq> None)"

definition method_requires_auth :: "string \<Rightarrow> bool" where
  "method_requires_auth method \<longleftrightarrow>
     method \<in> {''storage_storeFragment'', ''storage_deleteFragment'', ''storage_storeKzgShard''}"

text \<open>What \<open>handle_rpc\<close> checks before it calls a handler (\<open>src/apps/storage-node/src/rpc/mod.rs\<close>).\<close>

definition rpc_gate :: "headers \<Rightarrow> bool \<Rightarrow> string \<Rightarrow> bool" where
  "rpc_gate headers enabled method = (if method_requires_auth method then require_auth headers enabled else True)"

subsection \<open>What an accepted request was checked for\<close>

lemmas field_defs = get_account_id_bytes_def get_nonce_bytes_def get_signature_bytes_def
  get_payload_hash_bytes_def hex_field_def

lemma check_and_insert_cases:
  "check_and_insert ttl now nonce cache = (fresh, cache') \<Longrightarrow>
     fresh \<and> cache' = cache(nonce \<mapsto> now) \<and> (\<forall>e. cache nonce = Some e \<longrightarrow> ttl < now - e)
   \<or> \<not> fresh \<and> cache' = cache \<and> (\<exists>e. cache nonce = Some e \<and> now - e \<le> ttl)"
  by (auto simp: check_and_insert_def split: if_splits option.splits)

lemma validate_request_Inr:
  assumes "validate_request env now now' r expected cache = (cache', Inr u)"
  shows "timestamp_ok now (sr_timestamp r)" and "cache' = cache(sr_nonce r \<mapsto> now')"
    and "\<forall>e. cache (sr_nonce r) = Some e \<longrightarrow> nonce_ttl < now' - e"
    and "\<exists>pk sg nonce. get_payload_hash_bytes env r = Inr expected \<and> get_account_id_bytes env r = Inr pk
       \<and> get_signature_bytes env r = Inr sg \<and> get_nonce_bytes env r = Inr nonce
       \<and> verify_sr25519_signature env pk (signed_message pk (sr_timestamp r) nonce expected) sg"
proof -
  obtain fresh c where ci: "check_and_insert nonce_ttl now' (sr_nonce r) cache = (fresh, c)" by fastforce
  have ok: "timestamp_ok now (sr_timestamp r)" "fresh" "c = cache'"
    and rest: "\<exists>pk sg nonce. get_payload_hash_bytes env r = Inr expected \<and> get_account_id_bytes env r = Inr pk
       \<and> get_signature_bytes env r = Inr sg \<and> get_nonce_bytes env r = Inr nonce
       \<and> verify_sr25519_signature env pk (signed_message pk (sr_timestamp r) nonce expected) sg"
    using assms by (auto simp: validate_request_def ci result_simps split: if_splits)
  show "timestamp_ok now (sr_timestamp r)" by (rule ok)
  show "cache' = cache(sr_nonce r \<mapsto> now')" "\<forall>e. cache (sr_nonce r) = Some e \<longrightarrow> nonce_ttl < now' - e"
    using check_and_insert_cases [OF ci] ok by auto
  show "\<exists>pk sg nonce. get_payload_hash_bytes env r = Inr expected \<and> get_account_id_bytes env r = Inr pk
       \<and> get_signature_bytes env r = Inr sg \<and> get_nonce_bytes env r = Inr nonce
       \<and> verify_sr25519_signature env pk (signed_message pk (sr_timestamp r) nonce expected) sg" by (rule rest)
qed

text \<open>A request and an environment to try the properties on.\<close>

definition demo_request :: signed_request where
  "demo_request = \<lparr>sr_account_id = replicate 32 (CHR ''a''), sr_timestamp = 1030, sr_nonce = replicate 16 (CHR ''b''),
     sr_payload_hash = replicate 32 (CHR ''c''), sr_signature = replicate 64 (CHR ''d'')\<rparr>"

definition demo_chain_auth :: chain_auth where
  "demo_chain_auth = \<lparr>ca_public_key = replicate 32 (CHR ''a''), ca_timestamp = 1000, ca_method = ''m'',
     ca_signature = replicate 64 (CHR ''d'')\<rparr>"

definition demo_env :: "(bytes, bytes, bytes) auth_env" where
  "demo_env = \<lparr>hex_decode = \<lambda>s. Some (map (word_of_nat \<circ> of_char) s), parse_signed = \<lambda>_. Some demo_request,
     parse_chain = \<lambda>_. Some demo_chain_auth, json_params = \<lambda>b. Some (Some b), without_auth = \<lambda>j. j,
     json_to_string = Some, env_blake2 = \<lambda>_. replicate 32 99, pk_from_bytes = Some, sig_from_bytes = Some,
     pk_verify = \<lambda>pk ctx msg sg. pk = replicate 32 97 \<and> sg = replicate 64 100\<rparr>"

lemma demo_fields:
  "get_payload_hash_bytes demo_env demo_request = Inr (replicate 32 99)"
  "get_account_id_bytes demo_env demo_request = Inr (replicate 32 97)"
  "get_signature_bytes demo_env demo_request = Inr (replicate 64 100)"
  "get_nonce_bytes demo_env demo_request = Inr (replicate 16 98)"
  by (simp_all add: field_defs demo_env_def demo_request_def strip_hex_prefix_def eval_nat_numeral)

lemma demo_accepts:
  assumes "timestamp_ok now 1030" and "cache (replicate 16 (CHR ''b'')) = None"
  shows "validate_request demo_env now now' demo_request (replicate 32 99) cache
    = (cache(replicate 16 (CHR ''b'') \<mapsto> now'), Inr ())"
proof -
  have "sr_timestamp demo_request = 1030" "sr_nonce demo_request = replicate 16 (CHR ''b'')"
    by (simp_all only: demo_request_def signed_request.select_convs)
  moreover have "verify_sr25519_signature demo_env (replicate 32 97) m (replicate 64 100)" for m
    by (simp only: verify_sr25519_signature_def demo_env_def auth_env.select_convs option.case)
  ultimately show ?thesis
    using assms by (simp only: validate_request_def demo_fields check_and_insert_def option.case Let_def prod.case
        bind_ok_simps ensure_True if_True if_False not_True_eq_False not_False_eq_True simp_thms)
qed

text \<open>C13: with authentication enabled, a write method is only executed when the request carries a
  chain-node header that verifies and a user header that verifies for this very body: its payload
  hash is the hash of the body's parameters, and the account's key signs account, time, nonce and
  that hash, at a time at most five minutes past and thirty seconds ahead.
\<close>

theorem write_needs_signature:
  assumes "auth_middleware env max_body True (now1, now2, now3) headers body cache = (cache', Next body')"
    and "rpc_gate headers True method" and "method_requires_auth method"
  shows "body' = body \<and> length body \<le> max_body
    \<and> (\<exists>a. parse_chain_auth_header env headers = Inr a \<and> validate_chain_auth env now1 a = Inr ())
    \<and> (\<exists>r h pk sg nonce. parse_auth_header env headers = Inr r \<and> extract_and_hash_params env body = Inr h
        \<and> cache' = cache(sr_nonce r \<mapsto> now3)
        \<and> now2 \<le> sr_timestamp r + 300 \<and> sr_timestamp r \<le> now2 + 30
        \<and> get_payload_hash_bytes env r = Inr h \<and> get_account_id_bytes env r = Inr pk
        \<and> get_signature_bytes env r = Inr sg \<and> get_nonce_bytes env r = Inr nonce
        \<and> verify_sr25519_signature env pk (signed_message pk (sr_timestamp r) nonce h) sg)"
proof -
  have user: "headers auth_header \<noteq> None" using assms(2, 3) by (simp add: rpc_gate_def require_auth_def)
  then obtain a r h where mw: "body' = body" "length body \<le> max_body"
    "parse_chain_auth_header env headers = Inr a" "validate_chain_auth env now1 a = Inr ()"
    "parse_auth_header env headers = Inr r" "extract_and_hash_params env body = Inr h"
    "validate_request env now2 now3 r h cache = (cache', Inr ())"
    using assms(1)
    by (auto simp: auth_middleware_def deny_def bind_ok_Inr split: if_splits sum.splits failure.splits prod.splits)
  show ?thesis
    using mw validate_request_Inr [OF mw(7)] by (auto simp: timestamp_ok_def signature_validity_def)
qed

lemma write_needs_signature_witness:
  "\<exists>cache'. auth_middleware demo_env 100 True (1000, 1001, 1002) (\<lambda>_. Some (Some ''h'')) [1, 2] Map.empty = (cache', Next [1, 2])
    \<and> get_payload_hash_bytes demo_env demo_request = Inr (replicate 32 99)"
proof -
  let ?h = "\<lambda>_. Some (Some ''h'') :: string option option"
  have f: "hex_field demo_env 32 (replicate 32 (CHR ''a'')) = Inr (replicate 32 97)"
    "hex_field demo_env 64 (replicate 64 (CHR ''d'')) = Inr (replicate 64 100)"
    using demo_fields by (simp_all only: get_account_id_bytes_def get_signature_bytes_def demo_request_def signed_request.select_convs)
  have v: "verify_sr25519_signature demo_env (replicate 32 97) m (replicate 64 100)" for m
    by (simp only: verify_sr25519_signature_def demo_env_def auth_env.select_convs option.case)
  have c: "bind_ok (parse_chain_auth_header demo_env ?h) (validate_chain_auth demo_env 1000) = Inr ()"
    by (simp add: parse_chain_auth_header_def validate_chain_auth_def demo_env_def [THEN arg_cong [where f = parse_chain]]
        demo_chain_auth_def f v timestamp_ok_def signature_validity_def)
  have p: "parse_auth_header demo_env ?h = Inr demo_request" "extract_and_hash_params demo_env [1, 2] = Inr (replicate 32 99)"
    by (simp_all add: parse_auth_header_def extract_and_hash_params_def demo_env_def)
  have m: "auth_middleware demo_env 100 True (1000, 1001, 1002) ?h [1, 2] Map.empty
      = (Map.empty(replicate 16 (CHR ''b'') \<mapsto> 1002), Next [1, 2])"
    using demo_accepts [of 1001 Map.empty 1002]
    by (simp add: auth_middleware_def c p timestamp_ok_def signature_validity_def)
  have g: "rpc_gate ?h True ''storage_storeFragment''" by (simp add: rpc_gate_def require_auth_def)
  have w: "method_requires_auth ''storage_storeFragment''" by (simp add: method_requires_auth_def)
  show ?thesis using write_needs_signature [OF m g w] m p by auto
qed

subsection \<open>Replay\<close>

text \<open>What can happen to the cache between two requests: other validations and garbage collections,
  at times that do not go back.\<close>

datatype auth_event = Validate nat nat signed_request bytes | Collect nat

primrec auth_apply :: "('j, 'k, 's) auth_env \<Rightarrow> auth_event \<Rightarrow> nonce_cache \<Rightarrow> nonce_cache" where
  "auth_apply env (Validate now now' r h) cache = fst (validate_request env now now' r h cache)"
| "auth_apply env (Collect now) cache = nonce_gc nonce_ttl now cache"

primrec event_start :: "auth_event \<Rightarrow> nat" where
  "event_start (Validate now now' r h) = now"
| "event_start (Collect now) = now"

primrec event_end :: "auth_event \<Rightarrow> nat" where
  "event_end (Validate now now' r h) = now'"
| "event_end (Collect now) = now"

fun in_order :: "nat \<Rightarrow> auth_event list \<Rightarrow> nat \<Rightarrow> bool" where
  "in_order t [] t' \<longleftrightarrow> t \<le> t'"
| "in_order t (ev # evs) t' \<longleftrightarrow> t \<le> event_start ev \<and> event_start ev \<le> event_end ev \<and> in_order (event_end ev) evs t'"

text \<open>A nonce inserted at \<open>t0\<close> is still there, perhaps inserted anew, until it is older than the
  cache keeps it.\<close>

definition remembered :: "string \<Rightarrow> nat \<Rightarrow> nat \<Rightarrow> nonce_cache \<Rightarrow> bool" where
  "remembered nonce t0 t cache \<longleftrightarrow> (\<exists>e. cache nonce = Some e \<and> t0 \<le> e \<and> e \<le> t) \<or> t0 + nonce_ttl < t"

lemma remembered_later: "remembered nonce t0 t cache \<Longrightarrow> t \<le> t' \<Longrightarrow> remembered nonce t0 t' cache"
  unfolding remembered_def by (meson le_trans less_le_trans)

lemma remembered_insert:
  "remembered nonce t0 t cache \<Longrightarrow> t0 \<le> t \<Longrightarrow> t \<le> t' \<Longrightarrow> remembered nonce t0 t' (cache(n \<mapsto> t'))"
  unfolding remembered_def by (auto intro: le_trans)

lemma validate_request_cache:
  "fst (validate_request env now now' r h cache) \<in> {cache, cache(sr_nonce r \<mapsto> now')}"
  by (auto simp: validate_request_def check_and_insert_def split: if_splits)

lemma remembered_apply:
  assumes "remembered nonce t0 t cache" and "t0 \<le> t" and "t \<le> event_start ev" and "event_start ev \<le> event_end ev"
  shows "remembered nonce t0 (event_end ev) (auth_apply env ev cache)"
proof (cases ev)
  case (Validate now now' r h)
  then show ?thesis
    using validate_request_cache [of env now now' r h cache] assms
      remembered_later [OF assms(1), of now'] remembered_insert [OF assms(1, 2), of now' "sr_nonce r"] by auto
next
  case (Collect now)
  then show ?thesis
    using assms by (auto simp: remembered_def nonce_gc_def)
qed

lemma remembered_run:
  "remembered nonce t0 t cache \<Longrightarrow> t0 \<le> t \<Longrightarrow> in_order t evs t' \<Longrightarrow>
     remembered nonce t0 t' (fold (auth_apply env) evs cache)"
proof (induction evs arbitrary: t cache)
  case Nil
  then show ?case by (auto intro: remembered_later)
next
  case (Cons ev evs)
  then have "remembered nonce t0 (event_end ev) (auth_apply env ev cache)"
    by (intro remembered_apply) auto
  with Cons show ?case by (auto intro!: Cons.IH)
qed

text \<open>Whatever else the daemon validates and collects in between, the same request is accepted a
  second time only more than five minutes after the first, and only when its timestamp lay ahead of
  the clock then: a request dated no later than its acceptance can never be replayed as it is.
\<close>

theorem replay_only_of_future_requests:
  assumes "validate_request env a a' r h cache = (cache1, Inr ())" and "a \<le> a'"
    and "in_order a' evs b" and "b \<le> b'"
    and "validate_request env b b' r h' (fold (auth_apply env) evs cache1) = (cache2, Inr ())"
  shows "a' + 300 < b' \<and> b \<le> sr_timestamp r + 300 \<and> sr_timestamp r \<le> a + 30
    \<and> (b = b' \<longrightarrow> a' < sr_timestamp r)"
proof -
  have ts1: "timestamp_ok a (sr_timestamp r)" and c1: "cache1 = cache(sr_nonce r \<mapsto> a')"
    using validate_request_Inr [OF assms(1)] by auto
  have ts2: "timestamp_ok b (sr_timestamp r)"
    and c2: "\<forall>e. fold (auth_apply env) evs cache1 (sr_nonce r) = Some e \<longrightarrow> nonce_ttl < b' - e"
    using validate_request_Inr [OF assms(5)] by auto
  have "remembered (sr_nonce r) a' a' cache1" by (simp add: remembered_def c1)
  from remembered_run [OF this order.refl assms(3), of env]
  have "a' + nonce_ttl < b'"
    using c2 assms(4) by (auto simp: remembered_def)
  with ts1 ts2 show ?thesis
    by (auto simp: timestamp_ok_def signature_validity_def nonce_ttl_def)
qed

lemma replay_only_of_future_requests_witness:
  "\<exists>c1 c2. validate_request demo_env 1000 1000 demo_request (replicate 32 99) Map.empty = (c1, Inr ())
    \<and> validate_request demo_env 1305 1305 demo_request (replicate 32 99) (fold (auth_apply demo_env) [Collect 1301] c1) = (c2, Inr ())
    \<and> sr_timestamp demo_request > 1000"
proof -
  let ?n = "replicate 16 (CHR ''b'')"
  let ?c1 = "Map.empty(?n \<mapsto> 1000)"
  have v1: "validate_request demo_env 1000 1000 demo_request (replicate 32 99) Map.empty = (?c1, Inr ())"
    by (rule demo_accepts) (simp_all only: timestamp_ok_def signature_validity_def, simp)
  have gone: "fold (auth_apply demo_env) [Collect 1301] ?c1 ?n = None"
    by (simp add: nonce_gc_def nonce_ttl_def signature_validity_def)
  have "timestamp_ok 1305 1030" by (simp add: timestamp_ok_def signature_validity_def)
  note v2 = demo_accepts [where cache = "fold (auth_apply demo_env) [Collect 1301] ?c1" and now' = 1305, OF this gone]
  have "in_order 1000 [Collect 1301] 1305" by simp
  from replay_only_of_future_requests [OF v1 order.refl this order.refl v2] v1 v2 show ?thesis by blast
qed

text \<open>A request can be replayed under another spelling of its nonce. The cache compares the text
  of the nonce, the signature covers the decoded bytes: after a request with a plain nonce was
  accepted, the same request with \<open>0x\<close> in front of the nonce, signed by nobody, is accepted too.
\<close>

theorem replay_under_other_spelling:
  assumes "validate_request env a a' r h cache = (cache1, Inr ())"
    and "strip_hex_prefix (sr_nonce r) = sr_nonce r" and "cache (''0x'' @ sr_nonce r) = None"
    and "timestamp_ok b (sr_timestamp r)"
  shows "validate_request env b b' (r\<lparr>sr_nonce := ''0x'' @ sr_nonce r\<rparr>) h cache1
    = (cache1(''0x'' @ sr_nonce r \<mapsto> b'), Inr ())"
proof -
  let ?r = "r\<lparr>sr_nonce := ''0x'' @ sr_nonce r\<rparr>"
  have "strip_hex_prefix (''0x'' @ sr_nonce r) = sr_nonce r" by (simp add: strip_hex_prefix_def)
  then have same: "get_nonce_bytes env ?r = get_nonce_bytes env r"
    by (simp add: field_defs assms(2))
  have c1: "cache1 (''0x'' @ sr_nonce r) = None"
    using validate_request_Inr(2) [OF assms(1)] assms(3) by auto
  from validate_request_Inr(4) [OF assms(1)] obtain pk sg nonce where
    f: "get_payload_hash_bytes env r = Inr h" "get_account_id_bytes env r = Inr pk"
      "get_signature_bytes env r = Inr sg" "get_nonce_bytes env r = Inr nonce"
      "verify_sr25519_signature env pk (signed_message pk (sr_timestamp r) nonce h) sg" by blast
  have "get_payload_hash_bytes env ?r = Inr h" "get_account_id_bytes env ?r = Inr pk"
    "get_signature_bytes env ?r = Inr sg" "get_nonce_bytes env ?r = Inr nonce"
    using f same by (simp_all add: field_defs)
  then show ?thesis
    using assms(4) c1 f(5) by (simp add: validate_request_def check_and_insert_def)
qed

lemma replay_under_other_spelling_witness:
  "\<exists>c1. validate_request demo_env 1010 1010 demo_request (replicate 32 99) Map.empty = (c1, Inr ())
    \<and> snd (validate_request demo_env 1011 1011 (demo_request\<lparr>sr_nonce := ''0x'' @ sr_nonce demo_request\<rparr>) (replicate 32 99) c1) = Inr ()"
proof -
  have t: "timestamp_ok 1010 1030" "timestamp_ok 1011 (sr_timestamp demo_request)"
    by (simp_all add: timestamp_ok_def signature_validity_def demo_request_def)
  note v = demo_accepts [OF t(1), of Map.empty 1010, simplified]
  have "strip_hex_prefix (sr_nonce demo_request) = sr_nonce demo_request"
    by (simp add: strip_hex_prefix_def demo_request_def eval_nat_numeral)
  from replay_under_other_spelling [OF v this _ t(2)] v show ?thesis by auto
qed

end
