(* ===== verification/Fragment_Store.thy ===== *)
theory Fragment_Store
  imports Prelude "HOL-Library.RBT" "HOL-Library.Product_Lexorder"
begin

text \<open>
  The store of the storage node daemon (\<open>src/apps/storage-node/src/storage/mod.rs\<close> and
  \<open>storage/metadata.rs\<close>): fragments under a hash and under a post and index, their metadata, the
  used-bytes counter in memory and in the database, the buffer of touches and the eviction in
  least-recently-used order. A database table is an ordered finite map (a table that does not exist
  yet is the empty one), a write transaction one update of the record. The content hash is a
  parameter; failures of the disk are not modelled.
\<close>

subsection \<open>Data\<close>

record metadata =
  md_version :: nat
  md_size :: nat
  md_created_at :: nat
  md_last_accessed_at :: nat
  md_ref_count :: nat
  md_data_hash :: hash256

definition meta_v1 :: nat where "meta_v1 = 1"

definition metadata_fresh :: "nat \<Rightarrow> hash256 \<Rightarrow> nat \<Rightarrow> metadata" where
  "metadata_fresh n data_hash now = \<lparr>md_version = meta_v1, md_size = n, md_created_at = now,
     md_last_accessed_at = now, md_ref_count = 1, md_data_hash = data_hash\<rparr>"

datatype eviction_key = Fragment hash256 | PostFragment nat nat

record eviction_candidate =
  cd_last_accessed_at :: nat
  cd_size :: nat
  cd_key :: eviction_key

record eviction_stats =
  ev_fragments :: nat
  ev_post_fragments :: nat
  ev_bytes_freed :: nat

record fragment_store =
  fs_fragments :: "(hash256, bytes) rbt"
  fs_fragment_meta :: "(hash256, metadata) rbt"
  fs_posts :: "(nat \<times> nat, bytes) rbt"
  fs_post_meta :: "(nat \<times> nat, metadata) rbt"
  fs_counter :: "nat option"
  fs_used :: nat
  fs_capacity :: nat
  fs_verify :: bool
  fs_touched :: "hash256 \<rightharpoonup> nat"
  fs_touched_posts :: "nat \<times> nat \<rightharpoonup> nat"

datatype store_error = FragmentTooLarge | QuotaExceeded | InvalidPostId | InvalidIndex
  | MissingMetadata | HashMismatch

definition max_fragment_size :: nat where "max_fragment_size = 1024 * 1024 * 1024"
definition max_post_id :: nat where "max_post_id = u64_max div 2"
definition max_fragment_index :: nat where "max_fragment_index = 255"

subsection \<open>The used-bytes counter\<close>

definition used_delta_add :: "nat \<Rightarrow> nat option \<Rightarrow> nat option" where
  "used_delta_add n c = Some (sat_add u64_max (case c of None \<Rightarrow> 0 | Some v \<Rightarrow> v) n)"

definition used_delta_sub :: "nat \<Rightarrow> nat option \<Rightarrow> nat option" where
  "used_delta_sub n c = Some ((case c of None \<Rightarrow> 0 | Some v \<Rightarrow> v) - n)"

definition scan_used_bytes :: "fragment_store \<Rightarrow> nat" where
  "scan_used_bytes s = (\<Sum>e \<leftarrow> RBT.entries (fs_fragments s). length (snd e))
     + (\<Sum>e \<leftarrow> RBT.entries (fs_posts s). length (snd e))"

definition load_or_recover_used :: "fragment_store \<Rightarrow> nat \<times> fragment_store" where
  "load_or_recover_used s =
     (case fs_counter s of Some v \<Rightarrow> (v, s)
      | None \<Rightarrow> (scan_used_bytes s, s\<lparr>fs_counter := Some (scan_used_bytes s)\<rparr>))"

text \<open>Opening the database: the counter in memory starts from the stored or recovered one.\<close>

definition open_store :: "nat \<Rightarrow> bool \<Rightarrow> fragment_store \<Rightarrow> fragment_store" where
  "open_store capacity verify db =
     (let (used, db') = load_or_recover_used db
      in db'\<lparr>fs_used := used, fs_capacity := capacity, fs_verify := verify,
             fs_touched := Map.empty, fs_touched_posts := Map.empty\<rparr>)"

definition empty_db :: fragment_store where
  "empty_db = \<lparr>fs_fragments = RBT.empty, fs_fragment_meta = RBT.empty, fs_posts = RBT.empty, fs_post_meta = RBT.empty,
     fs_counter = None, fs_used = 0, fs_capacity = 0, fs_verify = False, fs_touched = Map.empty,
     fs_touched_posts = Map.empty\<rparr>"

subsection \<open>Fragments under a hash\<close>

definition store :: "(bytes \<Rightarrow> hash256) \<Rightarrow> nat \<Rightarrow> hash256 \<Rightarrow> bytes \<Rightarrow> fragment_store \<Rightarrow> (store_error, fragment_store) result" where
  "store H now fid data s =
     ensure (length data \<le> max_fragment_size) FragmentTooLarge (
     let new_size = length data; prev = fs_used s in
     ensure (prev + new_size \<le> fs_capacity s) QuotaExceeded (
     case RBT.lookup (fs_fragments s) fid of
       Some _ \<Rightarrow> Inr s
     | None \<Rightarrow> Inr (s\<lparr>fs_fragments := RBT.insert fid data (fs_fragments s),
           fs_fragment_meta := RBT.insert fid (metadata_fresh new_size (H data) now) (fs_fragment_meta s),
           fs_counter := used_delta_add new_size (fs_counter s), fs_used := prev + new_size\<rparr>)))"

definition verify_integrity :: "(bytes \<Rightarrow> hash256) \<Rightarrow> metadata option \<Rightarrow> bytes \<Rightarrow> (store_error, 'a) result \<Rightarrow> (store_error, 'a) result" where
  "verify_integrity H meta data k =
     ok_or meta MissingMetadata (\<lambda>m. ensure (H data = md_data_hash m) HashMismatch k)"

definition retrieve :: "(bytes \<Rightarrow> hash256) \<Rightarrow> nat \<Rightarrow> hash256 \<Rightarrow> fragment_store \<Rightarrow> (store_error, bytes option \<times> fragment_store) result" where
  "retrieve H now fid s =
     (case RBT.lookup (fs_fragments s) fid of
        None \<Rightarrow> Inr (None, s)
      | Some data \<Rightarrow>
          let found = Inr (Some data, s\<lparr>fs_touched := (fs_touched s)(fid \<mapsto> now)\<rparr>)
          in if fs_verify s then verify_integrity H (RBT.lookup (fs_fragment_meta s) fid) data found else found)"

definition delete :: "hash256 \<Rightarrow> fragment_store \<Rightarrow> bool \<times> fragment_store" where
  "delete fid s =
     (case RBT.lookup (fs_fragments s) fid of
        None \<Rightarrow> (False, s)
      | Some old \<Rightarrow> (True, s\<lparr>fs_fragments := RBT.delete fid (fs_fragments s),
            fs_fragment_meta := RBT.delete fid (fs_fragment_meta s),
            fs_counter := used_delta_sub (length old) (fs_counter s), fs_used := fs_used s - length old\<rparr>))"

definition delete_all :: "fragment_store \<Rightarrow> nat \<times> fragment_store" where
  "delete_all s =
     (let entries = RBT.entries (fs_fragments s); freed = (\<Sum>e \<leftarrow> entries. length (snd e))
      in (length entries, s\<lparr>fs_fragments := fold (\<lambda>e. RBT.delete (fst e)) entries (fs_fragments s),
            fs_fragment_meta := fold (\<lambda>e. RBT.delete (fst e)) entries (fs_fragment_meta s),
            fs_counter := used_delta_sub freed (fs_counter s), fs_used := fs_used s - freed\<rparr>))"

subsection \<open>Fragments under a post\<close>

definition store_post_fragment ::
  "(bytes \<Rightarrow> hash256) \<Rightarrow> nat \<Rightarrow> nat \<Rightarrow> nat \<Rightarrow> bytes \<Rightarrow> fragment_store \<Rightarrow> (store_error, fragment_store) result" where
  "store_post_fragment H now post_id index data s =
     ensure (length data \<le> max_fragment_size) FragmentTooLarge (
     ensure (post_id \<le> max_post_id) InvalidPostId (
     ensure (index \<le> max_fragment_index) InvalidIndex (
     let new_size = length data; prev = fs_used s in
     ensure (prev + new_size \<le> fs_capacity s) QuotaExceeded (
     case RBT.lookup (fs_posts s) (post_id, index) of
       Some _ \<Rightarrow> Inr s
     | None \<Rightarrow> Inr (s\<lparr>fs_posts := RBT.insert (post_id, index) data (fs_posts s),
           fs_post_meta := RBT.insert (post_id, index) (metadata_fresh new_size (H data) now) (fs_post_meta s),
           fs_counter := used_delta_add new_size (fs_counter s), fs_used := prev + new_size\<rparr>)))))"

definition retrieve_post_fragment ::
  "(bytes \<Rightarrow> hash256) \<Rightarrow> nat \<Rightarrow> nat \<Rightarrow> nat \<Rightarrow> fragment_store \<Rightarrow> (store_error, bytes option \<times> fragment_store) result" where
  "retrieve_post_fragment H now post_id index s =
     (case RBT.lookup (fs_posts s) (post_id, index) of
        None \<Rightarrow> Inr (None, s)
      | Some data \<Rightarrow>
          let found = Inr (Some data, s\<lparr>fs_touched_posts := (fs_touched_posts s)((post_id, index) \<mapsto> now)\<rparr>)
          in if fs_verify s then verify_integrity H (RBT.lookup (fs_post_meta s) (post_id, index)) data found else found)"

definition delete_post_fragment :: "nat \<Rightarrow> nat \<Rightarrow> fragment_store \<Rightarrow> bool \<times> fragment_store" where
  "delete_post_fragment post_id index s =
     (case RBT.lookup (fs_posts s) (post_id, index) of
        None \<Rightarrow> (False, s)
      | Some old \<Rightarrow> (True, s\<lparr>fs_posts := RBT.delete (post_id, index) (fs_posts s),
            fs_post_meta := RBT.delete (post_id, index) (fs_post_meta s),
            fs_counter := used_delta_sub (length old) (fs_counter s), fs_used := fs_used s - length old\<rparr>))"

definition post_range :: "nat \<Rightarrow> fragment_store \<Rightarrow> ((nat \<times> nat) \<times> bytes) list" where
  "post_range post_id s = filter (\<lambda>e. fst (fst e) = post_id) (RBT.entries (fs_posts s))"

definition list_post_fragments :: "nat \<Rightarrow> fragment_store \<Rightarrow> nat list" where
  "list_post_fragments post_id s = map (\<lambda>e. snd (fst e)) (post_range post_id s)"

definition delete_post_fragments :: "nat \<Rightarrow> fragment_store \<Rightarrow> fragment_store" where
  "delete_post_fragments post_id s =
     (let entries = post_range post_id s; freed = (\<Sum>e \<leftarrow> entries. length (snd e))
      in s\<lparr>fs_posts := fold (\<lambda>e. RBT.delete (fst e)) entries (fs_posts s),
           fs_post_meta := fold (\<lambda>e. RBT.delete (fst e)) entries (fs_post_meta s),
           fs_counter := used_delta_sub freed (fs_counter s), fs_used := fs_used s - freed\<rparr>)"

subsection \<open>Touches and eviction\<close>

definition touch :: "('k \<rightharpoonup> nat) \<Rightarrow> 'k \<Rightarrow> metadata \<Rightarrow> metadata" where
  "touch touched k m = (case touched k of None \<Rightarrow> m | Some ts \<Rightarrow> m\<lparr>md_last_accessed_at := ts\<rparr>)"

definition flush_touch_buffer :: "fragment_store \<Rightarrow> nat \<times> fragment_store" where
  "flush_touch_buffer s =
     (length (filter (\<lambda>e. fs_touched s (fst e) \<noteq> None) (RBT.entries (fs_fragment_meta s)))
        + length (filter (\<lambda>e. fs_touched_posts s (fst e) \<noteq> None) (RBT.entries (fs_post_meta s))),
      s\<lparr>fs_fragment_meta := RBT.map (touch (fs_touched s)) (fs_fragment_meta s),
        fs_post_meta := RBT.map (touch (fs_touched_posts s)) (fs_post_meta s),
        fs_touched := Map.empty, fs_touched_posts := Map.empty\<rparr>)"

definition collect_eviction_candidates :: "fragment_store \<Rightarrow> eviction_candidate list" where
  "collect_eviction_candidates s = sort_key cd_last_accessed_at
     (map (\<lambda>(k, m). \<lparr>cd_last_accessed_at = md_last_accessed_at m, cd_size = md_size m, cd_key = Fragment k\<rparr>)
        (RBT.entries (fs_fragment_meta s))
      @ map (\<lambda>((p, i), m). \<lparr>cd_last_accessed_at = md_last_accessed_at m, cd_size = md_size m, cd_key = PostFragment p i\<rparr>)
        (RBT.entries (fs_post_meta s)))"

definition evict_one :: "eviction_candidate \<Rightarrow> fragment_store \<times> eviction_stats \<Rightarrow> fragment_store \<times> eviction_stats" where
  "evict_one c = (\<lambda>(s, st).
     case cd_key c of
       Fragment fid \<Rightarrow> (let (ok, s') = delete fid s
          in (s', if ok then st\<lparr>ev_fragments := ev_fragments st + 1, ev_bytes_freed := ev_bytes_freed st + cd_size c\<rparr> else st))
     | PostFragment p i \<Rightarrow> (let (ok, s') = delete_post_fragment p i s
          in (s', if ok then st\<lparr>ev_post_fragments := ev_post_fragments st + 1, ev_bytes_freed := ev_bytes_freed st + cd_size c\<rparr> else st)))"

primrec evict_loop :: "nat \<Rightarrow> eviction_candidate list \<Rightarrow> fragment_store \<times> eviction_stats \<Rightarrow> fragment_store \<times> eviction_stats" where
  "evict_loop target [] acc = acc"
| "evict_loop target (c # cs) acc =
     (if fs_used (fst acc) \<le> target then acc else evict_loop target cs (evict_one c acc))"

definition evict_lru :: "nat \<Rightarrow> fragment_store \<Rightarrow> fragment_store \<times> eviction_stats" where
  "evict_lru target s =
     (let stats = \<lparr>ev_fragments = 0, ev_post_fragments = 0, ev_bytes_freed = 0\<rparr>
      in if fs_used s \<le> target then (s, stats) else evict_loop target (collect_eviction_candidates s) (s, stats))"

subsection \<open>The invariant\<close>

text \<open>Each fragment has the metadata its bytes call for, and the other way round.\<close>

definition entry_ok :: "(bytes \<Rightarrow> hash256) \<Rightarrow> bytes option \<Rightarrow> metadata option \<Rightarrow> bool" where
  "entry_ok H data meta = (case (data, meta) of
       (None, None) \<Rightarrow> True
     | (Some b, Some m) \<Rightarrow> md_size m = length b \<and> md_data_hash m = H b \<and> length b \<le> max_fragment_size
     | _ \<Rightarrow> False)"

lemma entry_ok_simps [simp]:
  "entry_ok H None om \<longleftrightarrow> om = None" "entry_ok H d None \<longleftrightarrow> d = None"
  "entry_ok H (Some b) (Some m) \<longleftrightarrow> md_size m = length b \<and> md_data_hash m = H b \<and> length b \<le> max_fragment_size"
  by (auto simp: entry_ok_def split: option.splits)

lemma entry_ok_Some:
  "entry_ok H (Some b) m \<Longrightarrow> \<exists>md. m = Some md \<and> md_size md = length b \<and> md_data_hash md = H b \<and> length b \<le> max_fragment_size"
  by (cases m) auto

definition tables_match :: "(bytes \<Rightarrow> hash256) \<Rightarrow> ('k::linorder, bytes) rbt \<Rightarrow> ('k, metadata) rbt \<Rightarrow> bool" where
  "tables_match H data meta \<longleftrightarrow> (\<forall>k. entry_ok H (RBT.lookup data k) (RBT.lookup meta k))"

lemma tables_matchD: "tables_match H data meta \<Longrightarrow> entry_ok H (RBT.lookup data k) (RBT.lookup meta k)"
  by (simp add: tables_match_def)

definition table_bytes :: "('k::linorder, bytes) rbt \<Rightarrow> nat" where
  "table_bytes t = map_total length (RBT.lookup t)"

definition store_inv :: "(bytes \<Rightarrow> hash256) \<Rightarrow> fragment_store \<Rightarrow> bool" where
  "store_inv H s \<longleftrightarrow> tables_match H (fs_fragments s) (fs_fragment_meta s) \<and> tables_match H (fs_posts s) (fs_post_meta s)
     \<and> fs_used s = table_bytes (fs_fragments s) + table_bytes (fs_posts s)
     \<and> fs_used s \<le> fs_capacity s \<and> fs_capacity s \<le> u64_max \<and> fs_counter s = Some (fs_used s)"

lemma lookup_delete_upd: "RBT.lookup (RBT.delete k t) = (RBT.lookup t)(k := None)"
  by (rule ext) (simp add: restrict_map_def)

declare lookup_delete [simp del]
declare lookup_delete_upd [simp]

lemma tables_match_insert:
  "tables_match H data meta \<Longrightarrow> length b \<le> max_fragment_size \<Longrightarrow>
     tables_match H (RBT.insert k b data) (RBT.insert k (metadata_fresh (length b) (H b) now) meta)"
  by (simp add: tables_match_def metadata_fresh_def)

lemma tables_match_delete:
  "tables_match H data meta \<Longrightarrow> tables_match H (RBT.delete k data) (RBT.delete k meta)"
  by (simp add: tables_match_def lookup_delete_upd)

lemma tables_match_fold_delete:
  "tables_match H data meta \<Longrightarrow>
     tables_match H (fold (\<lambda>e. RBT.delete (f e)) es data) (fold (\<lambda>e. RBT.delete (f e)) es meta)"
  by (induction es arbitrary: data meta) (simp_all add: tables_match_delete)

lemma entry_ok_touch: "entry_ok H d m \<Longrightarrow> entry_ok H d (map_option (touch touched k) m)"
  by (cases d; cases m) (simp_all add: touch_def split: option.split)

lemma tables_match_touch:
  "tables_match H data meta \<Longrightarrow> tables_match H data (RBT.map (touch touched) meta)"
  by (simp add: tables_match_def entry_ok_touch)

lemma tables_match_empty: "tables_match H RBT.empty RBT.empty"
  by (simp add: tables_match_def)

lemma table_bytes_insert: "RBT.lookup t k = None \<Longrightarrow> table_bytes (RBT.insert k b t) = length b + table_bytes t"
  by (simp add: table_bytes_def map_total_insert)

lemma table_bytes_empty [simp]: "table_bytes RBT.empty = 0"
  by (simp add: table_bytes_def)

lemma table_bytes_delete:
  "RBT.lookup t k = Some b \<Longrightarrow> table_bytes t = length b + table_bytes (RBT.delete k t)"
  using map_total_remove [of "RBT.lookup t" k b length] by (simp only: table_bytes_def lookup_delete_upd finite_dom_lookup)

lemma entries_bytes: "(\<Sum>e \<leftarrow> RBT.entries t. length (snd e)) = table_bytes t" for t :: "('k::linorder, bytes) rbt"
proof -
  have "(\<Sum>e \<leftarrow> RBT.entries t. length (snd e)) = (\<Sum>e \<in> set (RBT.entries t). length (snd e))"
    by (rule sum_list_distinct_conv_sum_set) (metis distinct_entries distinct_map)
  also have "\<dots> = (\<Sum>k \<in> fst ` set (RBT.entries t). length (the (RBT.lookup t k)))"
  proof (rule sum.reindex_cong [symmetric])
    show "inj_on fst (set (RBT.entries t))" by (metis distinct_entries distinct_map)
    show "length (the (RBT.lookup t (fst e))) = length (snd e)" if "e \<in> set (RBT.entries t)" for e
    proof -
      have "RBT.lookup t (fst e) = Some (snd e)" using that by (simp add: lookup_in_tree)
      then show ?thesis by simp
    qed
  qed simp
  also have "fst ` set (RBT.entries t) = dom (RBT.lookup t)"
    by (force simp: lookup_in_tree dom_def)
  finally show ?thesis by (simp add: table_bytes_def map_total_def)
qed

lemma fold_delete_lookup:
  "RBT.lookup (fold (\<lambda>e. RBT.delete (fst e)) es t) k = (if k \<in> fst ` set es then None else RBT.lookup t k)"
  by (induction es arbitrary: t) (auto simp: lookup_delete_upd)

lemma fold_delete_bytes:
  assumes "distinct (map fst es)" and "\<forall>e \<in> set es. RBT.lookup t (fst e) = Some (snd e)"
  shows "table_bytes t = (\<Sum>e \<leftarrow> es. length (snd e)) + table_bytes (fold (\<lambda>e. RBT.delete (fst e)) es t)"
  using assms
proof (induction es arbitrary: t)
  case (Cons e es)
  have "\<forall>x \<in> set es. RBT.lookup (RBT.delete (fst e) t) (fst x) = Some (snd x)"
    using Cons.prems by (force simp: lookup_delete_upd)
  with Cons.IH [of "RBT.delete (fst e) t"] Cons.prems table_bytes_delete [of t "fst e" "snd e"]
  show ?case by simp
qed simp

subsection \<open>Every operation keeps the invariant\<close>

lemma u64_sat_exact: "a + b \<le> c \<Longrightarrow> c \<le> u64_max \<Longrightarrow> sat_add u64_max a b = a + b"
  by (simp add: sat_add_def)

lemma store_inv_store: "store_inv H s \<Longrightarrow> store H now fid data s = Inr s' \<Longrightarrow> store_inv H s'"
  by (auto simp: store_def store_inv_def result_simps Let_def tables_match_insert table_bytes_insert used_delta_add_def
      u64_sat_exact split: option.splits)

lemma store_inv_store_post:
  "store_inv H s \<Longrightarrow> store_post_fragment H now p i data s = Inr s' \<Longrightarrow> store_inv H s'"
  by (auto simp: store_post_fragment_def store_inv_def result_simps Let_def tables_match_insert table_bytes_insert
      used_delta_add_def u64_sat_exact split: option.splits)

lemma store_inv_retrieve:
  "store_inv H s \<Longrightarrow> retrieve H now fid s = Inr (r, s') \<Longrightarrow> store_inv H s'"
  by (auto simp: retrieve_def verify_integrity_def store_inv_def result_simps Let_def split: option.splits if_splits)

lemma store_inv_retrieve_post:
  "store_inv H s \<Longrightarrow> retrieve_post_fragment H now p i s = Inr (r, s') \<Longrightarrow> store_inv H s'"
  by (auto simp: retrieve_post_fragment_def verify_integrity_def store_inv_def result_simps Let_def split: option.splits if_splits)

lemma delete_facts:
  assumes "store_inv H s" and "delete fid s = (ok, s')"
  shows "store_inv H s' \<and> (ok \<longleftrightarrow> RBT.lookup (fs_fragments s) fid \<noteq> None)
    \<and> RBT.lookup (fs_fragments s') = (RBT.lookup (fs_fragments s))(fid := None)
    \<and> RBT.lookup (fs_fragment_meta s') = (RBT.lookup (fs_fragment_meta s))(fid := None)
    \<and> fs_used s' + (case RBT.lookup (fs_fragments s) fid of None \<Rightarrow> 0 | Some b \<Rightarrow> length b) = fs_used s
    \<and> fs_posts s' = fs_posts s \<and> fs_post_meta s' = fs_post_meta s"
proof (cases "RBT.lookup (fs_fragments s) fid")
  case None
  moreover have "RBT.lookup (fs_fragment_meta s) fid = None"
    using None assms(1) tables_matchD [of H "fs_fragments s" "fs_fragment_meta s" "fid"] by (simp add: store_inv_def)
  moreover have "s' = s" "\<not> ok" using None assms(2) by (simp_all add: delete_def)
  ultimately show "store_inv H s' \<and> (ok \<longleftrightarrow> RBT.lookup (fs_fragments s) fid \<noteq> None)
    \<and> RBT.lookup (fs_fragments s') = (RBT.lookup (fs_fragments s))(fid := None)
    \<and> RBT.lookup (fs_fragment_meta s') = (RBT.lookup (fs_fragment_meta s))(fid := None)
    \<and> fs_used s' + (case RBT.lookup (fs_fragments s) fid of None \<Rightarrow> 0 | Some b \<Rightarrow> length b) = fs_used s
    \<and> fs_posts s' = fs_posts s \<and> fs_post_meta s' = fs_post_meta s"
    using assms(1) by (simp add: fun_upd_idem)
next
  case (Some b)
  then show "store_inv H s' \<and> (ok \<longleftrightarrow> RBT.lookup (fs_fragments s) fid \<noteq> None)
    \<and> RBT.lookup (fs_fragments s') = (RBT.lookup (fs_fragments s))(fid := None)
    \<and> RBT.lookup (fs_fragment_meta s') = (RBT.lookup (fs_fragment_meta s))(fid := None)
    \<and> fs_used s' + (case RBT.lookup (fs_fragments s) fid of None \<Rightarrow> 0 | Some b \<Rightarrow> length b) = fs_used s
    \<and> fs_posts s' = fs_posts s \<and> fs_post_meta s' = fs_post_meta s"
    using assms table_bytes_delete [OF Some]
    by (auto simp: delete_def store_inv_def tables_match_delete lookup_delete_upd used_delta_sub_def)
qed

lemmas delete_eq = delete_facts [THEN conjunct1] delete_facts [THEN conjunct2, THEN conjunct1]
  delete_facts [THEN conjunct2, THEN conjunct2, THEN conjunct1]
  delete_facts [THEN conjunct2, THEN conjunct2, THEN conjunct2, THEN conjunct1]
  delete_facts [THEN conjunct2, THEN conjunct2, THEN conjunct2, THEN conjunct2]

lemma delete_post_facts:
  assumes "store_inv H s" and "delete_post_fragment p i s = (ok, s')"
  shows "store_inv H s' \<and> (ok \<longleftrightarrow> RBT.lookup (fs_posts s) (p, i) \<noteq> None)
    \<and> RBT.lookup (fs_posts s') = (RBT.lookup (fs_posts s))((p, i) := None)
    \<and> RBT.lookup (fs_post_meta s') = (RBT.lookup (fs_post_meta s))((p, i) := None)
    \<and> fs_used s' + (case RBT.lookup (fs_posts s) (p, i) of None \<Rightarrow> 0 | Some b \<Rightarrow> length b) = fs_used s
    \<and> fs_fragments s' = fs_fragments s \<and> fs_fragment_meta s' = fs_fragment_meta s"
proof (cases "RBT.lookup (fs_posts s) (p, i)")
  case None
  moreover have "RBT.lookup (fs_post_meta s) (p, i) = None"
    using None assms(1) tables_matchD [of H "fs_posts s" "fs_post_meta s" "(p, i)"] by (simp add: store_inv_def)
  moreover have "s' = s" "\<not> ok" using None assms(2) by (simp_all add: delete_post_fragment_def)
  ultimately show "store_inv H s' \<and> (ok \<longleftrightarrow> RBT.lookup (fs_posts s) (p, i) \<noteq> None)
    \<and> RBT.lookup (fs_posts s') = (RBT.lookup (fs_posts s))((p, i) := None)
    \<and> RBT.lookup (fs_post_meta s') = (RBT.lookup (fs_post_meta s))((p, i) := None)
    \<and> fs_used s' + (case RBT.lookup (fs_posts s) (p, i) of None \<Rightarrow> 0 | Some b \<Rightarrow> length b) = fs_used s
    \<and> fs_fragments s' = fs_fragments s \<and> fs_fragment_meta s' = fs_fragment_meta s"
    using assms(1) by (simp add: fun_upd_idem)
next
  case (Some b)
  then show "store_inv H s' \<and> (ok \<longleftrightarrow> RBT.lookup (fs_posts s) (p, i) \<noteq> None)
    \<and> RBT.lookup (fs_posts s') = (RBT.lookup (fs_posts s))((p, i) := None)
    \<and> RBT.lookup (fs_post_meta s') = (RBT.lookup (fs_post_meta s))((p, i) := None)
    \<and> fs_used s' + (case RBT.lookup (fs_posts s) (p, i) of None \<Rightarrow> 0 | Some b \<Rightarrow> length b) = fs_used s
    \<and> fs_fragments s' = fs_fragments s \<and> fs_fragment_meta s' = fs_fragment_meta s"
    using assms table_bytes_delete [OF Some]
    by (auto simp: delete_post_fragment_def store_inv_def tables_match_delete lookup_delete_upd used_delta_sub_def)
qed

lemmas delete_post_eq = delete_post_facts [THEN conjunct1] delete_post_facts [THEN conjunct2, THEN conjunct1]
  delete_post_facts [THEN conjunct2, THEN conjunct2, THEN conjunct1]
  delete_post_facts [THEN conjunct2, THEN conjunct2, THEN conjunct2, THEN conjunct1]
  delete_post_facts [THEN conjunct2, THEN conjunct2, THEN conjunct2, THEN conjunct2]

lemma entries_distinct_lookup:
  "distinct (map fst (RBT.entries t)) \<and> (\<forall>e \<in> set (RBT.entries t). RBT.lookup t (fst e) = Some (snd e))"
  by (simp add: distinct_entries lookup_in_tree)

lemma store_inv_delete_all: "store_inv H s \<Longrightarrow> store_inv H (snd (delete_all s))"
  using fold_delete_bytes [of "RBT.entries (fs_fragments s)" "fs_fragments s"] entries_distinct_lookup [of "fs_fragments s"]
  by (simp add: delete_all_def store_inv_def Let_def tables_match_fold_delete used_delta_sub_def)

lemma store_inv_delete_posts: "store_inv H s \<Longrightarrow> store_inv H (delete_post_fragments p s)"
proof -
  assume inv: "store_inv H s"
  have "distinct (map fst (post_range p s))" "\<forall>e \<in> set (post_range p s). RBT.lookup (fs_posts s) (fst e) = Some (snd e)"
    using entries_distinct_lookup [of "fs_posts s"] by (auto simp: post_range_def distinct_map_filter)
  from fold_delete_bytes [OF this] inv show ?thesis
    by (simp add: delete_post_fragments_def store_inv_def Let_def tables_match_fold_delete used_delta_sub_def)
qed

lemma store_inv_flush: "store_inv H s \<Longrightarrow> store_inv H (snd (flush_touch_buffer s))"
  by (simp add: flush_touch_buffer_def store_inv_def tables_match_touch)

lemma store_inv_evict_one: "store_inv H s \<Longrightarrow> evict_one c (s, st) = (s', st') \<Longrightarrow> store_inv H s'"
  by (auto simp: evict_one_def split: eviction_key.splits prod.splits dest: delete_eq(1) delete_post_eq(1))

lemma store_inv_evict_loop: "store_inv H (fst acc) \<Longrightarrow> store_inv H (fst (evict_loop target cs acc))"
proof (induction cs arbitrary: acc)
  case (Cons c cs)
  then show ?case
    using store_inv_evict_one [of H "fst acc" c "snd acc"] by (cases "evict_one c acc") auto
qed simp

lemma store_inv_evict: "store_inv H s \<Longrightarrow> store_inv H (fst (evict_lru target s))"
  by (simp add: evict_lru_def Let_def store_inv_evict_loop)

inductive store_step :: "(bytes \<Rightarrow> hash256) \<Rightarrow> fragment_store \<Rightarrow> fragment_store \<Rightarrow> bool"
  for H :: "bytes \<Rightarrow> hash256" where
  step_store: "store H now fid data s = Inr s' \<Longrightarrow> store_step H s s'"
| step_store_post: "store_post_fragment H now p i data s = Inr s' \<Longrightarrow> store_step H s s'"
| step_retrieve: "retrieve H now fid s = Inr (r, s') \<Longrightarrow> store_step H s s'"
| step_retrieve_post: "retrieve_post_fragment H now p i s = Inr (r, s') \<Longrightarrow> store_step H s s'"
| step_delete: "delete fid s = (ok, s') \<Longrightarrow> store_step H s s'"
| step_delete_all: "delete_all s = (n, s') \<Longrightarrow> store_step H s s'"
| step_delete_post: "delete_post_fragment p i s = (ok, s') \<Longrightarrow> store_step H s s'"
| step_delete_posts: "store_step H s (delete_post_fragments p s)"
| step_flush: "flush_touch_buffer s = (n, s') \<Longrightarrow> store_step H s s'"
| step_evict: "evict_lru target s = (s', st) \<Longrightarrow> store_step H s s'"

inductive store_reachable :: "(bytes \<Rightarrow> hash256) \<Rightarrow> nat \<Rightarrow> bool \<Rightarrow> fragment_store \<Rightarrow> bool"
  for H :: "bytes \<Rightarrow> hash256" and capacity :: nat and verify :: bool where
  store_opened: "store_reachable H capacity verify (open_store capacity verify empty_db)"
| store_more: "store_reachable H capacity verify s \<Longrightarrow> store_step H s s' \<Longrightarrow> store_reachable H capacity verify s'"
| store_reopened: "store_reachable H capacity verify s \<Longrightarrow> store_reachable H capacity verify (open_store capacity verify s)"

lemma store_inv_step:
  assumes "store_inv H s" and "store_step H s s'"
  shows "store_inv H s'"
  using assms(2, 1)
proof (cases rule: store_step.cases)
  case (step_delete_all n)
  then show ?thesis using store_inv_delete_all [OF assms(1)] by simp
next
  case (step_flush n)
  then show ?thesis using store_inv_flush [OF assms(1)] by simp
next
  case (step_evict target st)
  then show ?thesis using store_inv_evict [OF assms(1), of target] by simp
qed (use assms(1) in \<open>blast intro: store_inv_store store_inv_store_post store_inv_retrieve store_inv_retrieve_post
      delete_eq(1) delete_post_eq(1) store_inv_delete_posts\<close>)+

lemma store_step_capacity: "store_step H s s' \<Longrightarrow> fs_capacity s' = fs_capacity s"
proof (induction rule: store_step.cases)
  case (step_evict target st)
  have "fs_capacity (fst (evict_one c acc)) = fs_capacity (fst acc)" for c acc
    by (cases acc) (auto simp: evict_one_def delete_def delete_post_fragment_def split: eviction_key.splits option.splits)
  then have "fs_capacity (fst (evict_loop target cs acc)) = fs_capacity (fst acc)" for cs acc
    by (induction cs arbitrary: acc) simp_all
  then have "fs_capacity (fst (evict_lru target s)) = fs_capacity s" for s
    by (simp add: evict_lru_def Let_def)
  with step_evict show ?case by (metis fst_conv)
qed (auto simp: store_def store_post_fragment_def retrieve_def retrieve_post_fragment_def verify_integrity_def delete_def
    delete_all_def delete_post_fragment_def delete_post_fragments_def flush_touch_buffer_def result_simps Let_def
    split: option.splits if_splits)

lemma store_reachable_capacity: "store_reachable H capacity verify s \<Longrightarrow> fs_capacity s = capacity"
  by (induction rule: store_reachable.induct)
    (simp_all add: store_step_capacity open_store_def split: prod.split)

lemma store_inv_reopened: "store_inv H s \<Longrightarrow> store_inv H (open_store capacity verify s) \<longleftrightarrow> fs_used s \<le> capacity \<and> capacity \<le> u64_max"
  by (auto simp: open_store_def load_or_recover_used_def store_inv_def)

lemma store_inv_reachable:
  assumes "store_reachable H capacity verify s" and "capacity \<le> u64_max"
  shows "store_inv H s"
  using assms
proof (induction rule: store_reachable.induct)
  case store_opened
  then show ?case
    by (simp add: open_store_def load_or_recover_used_def scan_used_bytes_def entries_bytes empty_db_def store_inv_def
        tables_match_empty)
next
  case (store_reopened s)
  then show ?case using store_inv_reopened [of H s capacity verify] store_reachable_capacity [of H capacity verify s]
    by (auto simp: store_inv_def)
qed (blast intro: store_inv_step)

subsection \<open>Eviction\<close>

text \<open>Both kinds of fragments under one key.\<close>

primrec stored :: "fragment_store \<Rightarrow> eviction_key \<Rightarrow> bytes option" where
  "stored s (Fragment fid) = RBT.lookup (fs_fragments s) fid"
| "stored s (PostFragment p i) = RBT.lookup (fs_posts s) (p, i)"

primrec meta_of :: "fragment_store \<Rightarrow> eviction_key \<Rightarrow> metadata option" where
  "meta_of s (Fragment fid) = RBT.lookup (fs_fragment_meta s) fid"
| "meta_of s (PostFragment p i) = RBT.lookup (fs_post_meta s) (p, i)"

subsection \<open>What those who only store and read rely on\<close>

lemma store_effect:
  assumes "store H now fid data s = Inr s'"
  shows "stored s' = (if stored s (Fragment fid) = None then (stored s)(Fragment fid \<mapsto> data) else stored s)"
proof
  show "stored s' k = (if stored s (Fragment fid) = None then (stored s)(Fragment fid \<mapsto> data) else stored s) k" for k
    using assms by (cases k) (auto simp: store_def result_simps Let_def split: option.splits if_splits)
qed

lemma retrieve_effect:
  assumes "retrieve H now fid s = Inr (r, s')"
  shows "stored s' = stored s" and "r = stored s (Fragment fid)"
proof -
  have facts: "fs_fragments s' = fs_fragments s \<and> fs_posts s' = fs_posts s \<and> r = RBT.lookup (fs_fragments s) fid"
    using assms by (auto simp: retrieve_def verify_integrity_def result_simps Let_def split: option.splits if_splits)
  show "stored s' = stored s"
  proof
    show "stored s' k = stored s k" for k using facts by (cases k) simp_all
  qed
  show "r = stored s (Fragment fid)" using facts by simp
qed

text \<open>A store that loses nothing while it is used, and a client that only uses it.\<close>

locale fragment_keeper =
  fixes inv :: "'s \<Rightarrow> bool" and held :: "'s \<Rightarrow> 'k \<Rightarrow> 'v option" and step :: "'s \<Rightarrow> 's \<Rightarrow> bool"
  assumes step_inv: "inv s \<Longrightarrow> step s s' \<Longrightarrow> inv s'"
    and step_keeps: "step s s' \<Longrightarrow> held s k = Some v \<Longrightarrow> held s' k = Some v"
begin

lemma run_inv: "step\<^sup>*\<^sup>* s s' \<Longrightarrow> inv s \<Longrightarrow> inv s'"
  by (induction rule: rtranclp_induct) (auto intro: step_inv)

lemma run_keeps: "step\<^sup>*\<^sup>* s s' \<Longrightarrow> held s k = Some v \<Longrightarrow> held s' k = Some v"
  by (induction rule: rtranclp_induct) (auto intro: step_keeps)

end

locale fragment_client = fragment_keeper +
  fixes store_of :: "'t \<Rightarrow> 's" and act :: "'t \<Rightarrow> 't \<Rightarrow> bool"
  assumes act_uses: "act t t' \<Longrightarrow> step\<^sup>*\<^sup>* (store_of t) (store_of t')"
begin

lemma acts_use: "act\<^sup>*\<^sup>* t t' \<Longrightarrow> step\<^sup>*\<^sup>* (store_of t) (store_of t')"
  by (induction rule: rtranclp_induct) (auto intro: act_uses rtranclp_trans)

lemma client_keeps:
  assumes "act\<^sup>*\<^sup>* t t'" and "inv (store_of t)"
  shows "inv (store_of t') \<and> (\<forall>k v. held (store_of t) k = Some v \<longrightarrow> held (store_of t') k = Some v)"
  using run_inv [OF acts_use [OF assms(1)] assms(2)] run_keeps [OF acts_use [OF assms(1)]] by blast

end

definition use_step :: "(bytes \<Rightarrow> hash256) \<Rightarrow> fragment_store \<Rightarrow> fragment_store \<Rightarrow> bool" where
  "use_step H s s' \<longleftrightarrow> (\<exists>now fid data. store H now fid data s = Inr s') \<or> (\<exists>now fid r. retrieve H now fid s = Inr (r, s'))"

interpretation keeper: fragment_keeper "store_inv H" stored "use_step H" for H :: "bytes \<Rightarrow> hash256"
proof
  fix s s' :: fragment_store
  assume step: "use_step H s s'"
  then show "store_inv H s'" if "store_inv H s"
    using that by (auto simp: use_step_def intro: store_inv_store store_inv_retrieve)
  have "stored s' = stored s \<or> (\<exists>fid data. stored s (Fragment fid) = None \<and> stored s' = (stored s)(Fragment fid \<mapsto> data))"
    using step unfolding use_step_def by (metis store_effect retrieve_effect(1))
  then show "stored s' k = Some v" if "stored s k = Some v" for k v using that by (auto simp del: stored.simps)
qed

lemma stored_meta: "store_inv H s \<Longrightarrow> entry_ok H (stored s k) (meta_of s k)"
  by (cases k) (simp_all add: store_inv_def tables_match_def)

lemma evict_one_eq:
  assumes inv: "store_inv H s" and b: "stored s (cd_key c) = Some b" and sz: "cd_size c = length b"
  shows "\<exists>s' st'. evict_one c (s, st) = (s', st') \<and> store_inv H s' \<and> stored s' = (stored s)(cd_key c := None)
    \<and> meta_of s' = (meta_of s)(cd_key c := None) \<and> fs_used s' + cd_size c = fs_used s
    \<and> ev_bytes_freed st' = ev_bytes_freed st + cd_size c"
proof (cases "cd_key c")
  case (Fragment fid)
  obtain ok s' where d: "delete fid s = (ok, s')" by fastforce
  have ok: "ok" using delete_eq(2) [OF inv d] b Fragment by simp
  have "stored s' = (stored s)(cd_key c := None)" "meta_of s' = (meta_of s)(cd_key c := None)"
    using delete_eq(3-5) [OF inv d] Fragment by (auto simp: fun_eq_iff elim: eviction_key.exhaust) (metis eviction_key.exhaust stored.simps meta_of.simps)+
  moreover have "fs_used s' + cd_size c = fs_used s"
    using delete_eq(5) [OF inv d] b sz Fragment by simp
  ultimately show ?thesis
    using d ok delete_eq(1) [OF inv d] Fragment by (simp add: evict_one_def)
next
  case (PostFragment p i)
  obtain ok s' where d: "delete_post_fragment p i s = (ok, s')" by fastforce
  have ok: "ok" using delete_post_eq(2) [OF inv d] b PostFragment by simp
  have "stored s' = (stored s)(cd_key c := None)" "meta_of s' = (meta_of s)(cd_key c := None)"
    using delete_post_eq(3-5) [OF inv d] PostFragment by (auto simp: fun_eq_iff elim: eviction_key.exhaust) (metis eviction_key.exhaust stored.simps meta_of.simps)+
  moreover have "fs_used s' + cd_size c = fs_used s"
    using delete_post_eq(5) [OF inv d] b sz PostFragment by simp
  ultimately show ?thesis
    using d ok delete_post_eq(1) [OF inv d] PostFragment by (simp add: evict_one_def)
qed

text \<open>The loop removes a prefix of the candidates: the shortest that brings the use down to the target.\<close>

lemma evict_loop_prefix:
  assumes "store_inv H s" and "distinct (map cd_key cs)"
    and "\<forall>c \<in> set cs. \<exists>b. stored s (cd_key c) = Some b \<and> cd_size c = length b"
  shows "\<exists>n s' st'. n \<le> length cs \<and> evict_loop target cs (s, st) = (s', st') \<and> store_inv H s'
    \<and> stored s' = (\<lambda>k. if k \<in> cd_key ` set (take n cs) then None else stored s k)
    \<and> meta_of s' = (\<lambda>k. if k \<in> cd_key ` set (take n cs) then None else meta_of s k)
    \<and> ev_bytes_freed st' + fs_used s' = ev_bytes_freed st + fs_used s
    \<and> (fs_used s' \<le> target \<or> n = length cs) \<and> fs_used s' \<le> fs_used s
    \<and> (0 < n \<longrightarrow> target < fs_used s' + cd_size (cs ! (n - 1))) \<and> (n = 0 \<longrightarrow> s' = s)"
  using assms
proof (induction cs arbitrary: s st)
  case Nil
  then show ?case by (intro exI [of _ 0]) simp
next
  case (Cons c cs)
  show ?case
  proof (cases "fs_used s \<le> target")
    case True
    with Cons.prems(1) show ?thesis by (intro exI [of _ 0]) simp
  next
    case False
    from Cons.prems(3) obtain b where b: "stored s (cd_key c) = Some b" "cd_size c = length b" by auto
    obtain s1 st1 where e: "evict_one c (s, st) = (s1, st1)" "store_inv H s1"
      "stored s1 = (stored s)(cd_key c := None)" "meta_of s1 = (meta_of s)(cd_key c := None)"
      "fs_used s1 + cd_size c = fs_used s" "ev_bytes_freed st1 = ev_bytes_freed st + cd_size c"
      using evict_one_eq [OF Cons.prems(1) b, of st] by blast
    have "\<forall>x \<in> set cs. \<exists>b. stored s1 (cd_key x) = Some b \<and> cd_size x = length b"
      using Cons.prems(2, 3) e(3) by (auto simp: image_iff)
    from Cons.IH [OF e(2) _ this, of st1] Cons.prems(2) obtain n s' st' where n: "n \<le> length cs"
      "evict_loop target cs (s1, st1) = (s', st')" "store_inv H s'"
      "stored s' = (\<lambda>k. if k \<in> cd_key ` set (take n cs) then None else stored s1 k)"
      "meta_of s' = (\<lambda>k. if k \<in> cd_key ` set (take n cs) then None else meta_of s1 k)"
      "ev_bytes_freed st' + fs_used s' = ev_bytes_freed st1 + fs_used s1"
      "fs_used s' \<le> target \<or> n = length cs" "fs_used s' \<le> fs_used s1"
      "0 < n \<longrightarrow> target < fs_used s' + cd_size (cs ! (n - 1))" "n = 0 \<longrightarrow> s' = s1" by auto
    have "target < fs_used s' + cd_size ((c # cs) ! (Suc n - 1))"
      using n(9, 10) e(5) False by (cases n) auto
    moreover have upd: "(\<lambda>k. if k \<in> cd_key ` set (take n cs) then None else (f(cd_key c := None)) k)
        = (\<lambda>k. if k \<in> cd_key ` set (take (Suc n) (c # cs)) then None else f k)"
      for f :: "eviction_key \<Rightarrow> 'x option"
      by (rule ext) auto
    have "stored s' = (\<lambda>k. if k \<in> cd_key ` set (take (Suc n) (c # cs)) then None else stored s k)"
      by (simp only: n(4) e(3) upd)
    moreover have "meta_of s' = (\<lambda>k. if k \<in> cd_key ` set (take (Suc n) (c # cs)) then None else meta_of s k)"
      by (simp only: n(5) e(4) upd)
    moreover have "evict_loop target (c # cs) (s, st) = (s', st')" using False e(1) n(2) by simp
    moreover have "ev_bytes_freed st' + fs_used s' = ev_bytes_freed st + fs_used s" using n(6) e(5, 6) by simp
    moreover have "fs_used s' \<le> fs_used s" using n(8) e(5) by simp
    moreover have "Suc n \<le> length (c # cs)" "fs_used s' \<le> target \<or> Suc n = length (c # cs)" using n(1, 7) by auto
    ultimately show ?thesis using n(3) by blast
  qed
qed

lemma candidates_keys:
  "distinct (map cd_key (collect_eviction_candidates s))"
  "set (collect_eviction_candidates s) = {c. \<exists>m. meta_of s (cd_key c) = Some m
     \<and> cd_size c = md_size m \<and> cd_last_accessed_at c = md_last_accessed_at m}"
proof -
  let ?A = "map (\<lambda>(k, m). \<lparr>cd_last_accessed_at = md_last_accessed_at m, cd_size = md_size m, cd_key = Fragment k\<rparr>)
        (RBT.entries (fs_fragment_meta s))"
  let ?B = "map (\<lambda>((p, i), m). \<lparr>cd_last_accessed_at = md_last_accessed_at m, cd_size = md_size m, cd_key = PostFragment p i\<rparr>)
        (RBT.entries (fs_post_meta s))"
  have A: "map cd_key ?A = map Fragment (map fst (RBT.entries (fs_fragment_meta s)))" by auto
  have B: "map cd_key ?B = map (\<lambda>(p, i). PostFragment p i) (map fst (RBT.entries (fs_post_meta s)))" by auto
  have "distinct (map cd_key ?A)" unfolding A
    by (subst distinct_map) (simp add: distinct_entries inj_on_def)
  moreover have "distinct (map cd_key ?B)" unfolding B
    by (subst distinct_map) (auto simp: distinct_entries inj_on_def)
  ultimately have "distinct (map cd_key (?A @ ?B))" by auto
  then show "distinct (map cd_key (collect_eviction_candidates s))"
    unfolding collect_eviction_candidates_def
    by (metis (no_types, lifting) distinct_map distinct_sort set_sort)
  have "c \<in> set ?A \<union> set ?B \<longleftrightarrow> (\<exists>m. meta_of s (cd_key c) = Some m
     \<and> cd_size c = md_size m \<and> cd_last_accessed_at c = md_last_accessed_at m)" for c
    by (cases c; cases "cd_key c") (force simp: lookup_in_tree image_iff)+
  then show "set (collect_eviction_candidates s) = {c. \<exists>m. meta_of s (cd_key c) = Some m
     \<and> cd_size c = md_size m \<and> cd_last_accessed_at c = md_last_accessed_at m}"
    by (simp only: collect_eviction_candidates_def set_sort set_append) blast
qed

lemma candidate_stored:
  "store_inv H s \<Longrightarrow> c \<in> set (collect_eviction_candidates s) \<Longrightarrow>
     \<exists>b. stored s (cd_key c) = Some b \<and> cd_size c = length b"
  using stored_meta [of H s "cd_key c"] by (auto simp: candidates_keys(2) entry_ok_def split: option.splits)

lemma candidate_exists:
  "meta_of s k = Some m \<Longrightarrow> \<exists>c \<in> set (collect_eviction_candidates s). cd_key c = k \<and> cd_last_accessed_at c = md_last_accessed_at m"
  unfolding candidates_keys(2)
  by (rule bexI [of _ "\<lparr>cd_last_accessed_at = md_last_accessed_at m, cd_size = md_size m, cd_key = k\<rparr>"]) auto

text \<open>The candidates are in order of their last access.\<close>

lemma candidates_order:
  assumes "store_inv H s" and "meta_of s k = Some m" and "k \<in> cd_key ` set (take n (collect_eviction_candidates s))"
    and "meta_of s k' = Some m'" and "k' \<notin> cd_key ` set (take n (collect_eviction_candidates s))"
  shows "md_last_accessed_at m \<le> md_last_accessed_at m'"
proof -
  let ?cs = "collect_eviction_candidates s"
  from assms(3) obtain c where c: "c \<in> set (take n ?cs)" "cd_key c = k" by blast
  then have la: "cd_last_accessed_at c = md_last_accessed_at m"
    using assms(2) in_set_takeD [OF c(1)] by (simp add: candidates_keys(2))
  from candidate_exists [OF assms(4)] obtain c' where
    c': "c' \<in> set ?cs" "cd_key c' = k'" "cd_last_accessed_at c' = md_last_accessed_at m'" by blast
  have "c' \<in> set (drop n ?cs)"
    using c'(1, 2) assms(5) by (metis Un_iff append_take_drop_id image_eqI set_append)
  moreover have "sorted (map cd_last_accessed_at (take n ?cs @ drop n ?cs))"
    by (simp add: collect_eviction_candidates_def)
  then have "\<forall>x \<in> set (map cd_last_accessed_at (take n ?cs)). \<forall>y \<in> set (map cd_last_accessed_at (drop n ?cs)). x \<le> y"
    unfolding map_append sorted_append by blast
  ultimately have "cd_last_accessed_at c \<le> cd_last_accessed_at c'"
    using c(1) by (simp only: set_map ball_simps)
  then show ?thesis by (simp add: la c'(3))
qed

lemma nothing_stored: "(\<forall>k. stored s k = None) \<Longrightarrow> store_inv H s \<Longrightarrow> fs_used s = 0"
proof -
  assume e: "\<forall>k. stored s k = None" and inv: "store_inv H s"
  have "RBT.lookup (fs_fragments s) = Map.empty" "RBT.lookup (fs_posts s) = Map.empty"
    using e [rule_format, of "Fragment _"] e [rule_format, of "PostFragment _ _"] by (auto simp: fun_eq_iff)
  with inv show ?thesis by (simp add: store_inv_def table_bytes_def)
qed

lemma evict_lru_prefix:
  assumes inv: "store_inv H s" and ev: "evict_lru target s = (s', st)"
  shows "\<exists>n cs. cs = collect_eviction_candidates s
    \<and> stored s' = (\<lambda>k. if k \<in> cd_key ` set (take n cs) then None else stored s k)
    \<and> meta_of s' = (\<lambda>k. if k \<in> cd_key ` set (take n cs) then None else meta_of s k)
    \<and> ev_bytes_freed st + fs_used s' = fs_used s \<and> fs_used s' \<le> target
    \<and> (n = 0 \<and> s' = s \<or> 0 < n \<and> n \<le> length cs \<and> target < fs_used s' + cd_size (cs ! (n - 1)))"
proof (cases "fs_used s \<le> target")
  case True
  with ev show ?thesis by (intro exI [of _ 0]) (auto simp: evict_lru_def)
next
  case False
  let ?cs = "collect_eviction_candidates s"
  let ?st = "\<lparr>ev_fragments = 0, ev_post_fragments = 0, ev_bytes_freed = 0\<rparr>"
  have cand: "\<forall>c \<in> set ?cs. \<exists>b. stored s (cd_key c) = Some b \<and> cd_size c = length b"
    using candidate_stored [OF inv] by blast
  have loop: "evict_loop target ?cs (s, ?st) = (s', st)" using False ev by (simp add: evict_lru_def)
  from evict_loop_prefix [OF inv candidates_keys(1) cand, of target ?st]
  obtain n where n: "n \<le> length ?cs" "store_inv H s'"
    "stored s' = (\<lambda>k. if k \<in> cd_key ` set (take n ?cs) then None else stored s k)"
    "meta_of s' = (\<lambda>k. if k \<in> cd_key ` set (take n ?cs) then None else meta_of s k)"
    "ev_bytes_freed st + fs_used s' = fs_used s" "fs_used s' \<le> target \<or> n = length ?cs"
    "0 < n \<longrightarrow> target < fs_used s' + cd_size (?cs ! (n - 1))" "n = 0 \<longrightarrow> s' = s"
    by (simp only: loop prod.inject eviction_stats.select_convs) force
  have "fs_used s' \<le> target"
  proof (cases "n = length ?cs")
    case True
    have "stored s' k = None" for k
    proof (cases "stored s k")
      case (Some b)
      with stored_meta [OF inv, of k] obtain m where "meta_of s k = Some m" by (auto dest: entry_ok_Some)
      with candidate_exists have "k \<in> cd_key ` set (take n ?cs)" using True by fastforce
      then show ?thesis by (simp add: n(3))
    qed (simp add: n(3))
    then show ?thesis using nothing_stored n(2) by simp
  qed (use n(6) in simp)
  moreover have "n = 0 \<and> s' = s \<or> 0 < n \<and> n \<le> length ?cs \<and> target < fs_used s' + cd_size (?cs ! (n - 1))"
    using n(1, 7, 8) by (cases n) simp_all
  ultimately show ?thesis
    using n(3-5) by (intro exI [of _ n] exI [of _ ?cs] conjI refl) assumption+
qed

lemma store_step_immutable:
  assumes "store_inv H s" and "store_step H s t" and "stored s k = Some b" and "stored t k = Some b'"
  shows "b' = b"
  using assms(2)
proof (cases rule: store_step.cases)
  case (step_delete fid ok)
  with delete_eq(3, 5) [OF assms(1) step_delete] assms(3, 4) show ?thesis by (cases k) (auto split: if_splits)
next
  case (step_delete_post p i ok)
  with delete_post_eq(3, 5) [OF assms(1) step_delete_post] assms(3, 4) show ?thesis by (cases k) (auto split: if_splits)
next
  case (step_evict target st)
  with evict_lru_prefix [OF assms(1) step_evict] assms(3, 4) show ?thesis by (auto split: if_splits)
next
  case (step_delete_all n)
  then show ?thesis using assms(3, 4)
    by (cases k) (auto simp: delete_all_def Let_def fold_delete_lookup split: if_splits)
next
  case (step_delete_posts p)
  then show ?thesis using assms(3, 4)
    by (cases k) (auto simp: delete_post_fragments_def Let_def fold_delete_lookup split: if_splits)
qed (use assms(3, 4) in \<open>cases k; auto simp: store_def store_post_fragment_def retrieve_def retrieve_post_fragment_def
    verify_integrity_def flush_touch_buffer_def result_simps Let_def split: option.splits if_splits\<close>)+

subsection \<open>Properties\<close>

definition demo_store :: fragment_store where
  "demo_store = (let s0 = open_store 10 True empty_db
     in case store (\<lambda>_. 7) 1 5 [1, 2, 3] s0 of Inl _ \<Rightarrow> s0
        | Inr s1 \<Rightarrow> (case store_post_fragment (\<lambda>_. 7) 2 8 0 [4, 5] s1 of Inl _ \<Rightarrow> s1 | Inr s2 \<Rightarrow> s2))"

lemma demo_store_reachable: "store_reachable (\<lambda>_. 7) 10 True demo_store"
proof -
  let ?s0 = "open_store 10 True empty_db"
  have s0: "store_reachable (\<lambda>_. 7) 10 True ?s0" by (rule store_opened)
  show ?thesis
  proof (cases "store (\<lambda>_. 7) 1 5 [1, 2, 3] ?s0")
    case (Inr s1)
    then have s1: "store_reachable (\<lambda>_. 7) 10 True s1" by (rule store_more [OF s0 step_store])
    show ?thesis
    proof (cases "store_post_fragment (\<lambda>_. 7) 2 8 0 [4, 5] s1")
      case (Inr s2)
      from store_more [OF s1 step_store_post [OF this]] Inr \<open>store (\<lambda>_. 7) 1 5 [1, 2, 3] ?s0 = Inr s1\<close>
      show ?thesis by (simp add: demo_store_def)
    qed (use s1 Inr in \<open>simp add: demo_store_def\<close>)
  qed (use s0 in \<open>simp add: demo_store_def\<close>)
qed

lemma demo_store_used: "fs_used demo_store = 5" "stored demo_store (Fragment 5) = Some [1, 2, 3]"
  by (simp_all add: demo_store_def open_store_def load_or_recover_used_def scan_used_bytes_def empty_db_def store_def
      store_post_fragment_def max_fragment_size_def max_post_id_def max_fragment_index_def u64_max_def
      entries_bytes Let_def)

text \<open>In every state the store can reach, the bytes it holds never exceed its capacity, the
  counter in memory and the counter in the database are exactly those bytes, a counter that was lost
  is recovered to the same value, and every fragment has metadata with its size and content hash.
\<close>

theorem store_accounts:
  assumes "store_reachable H capacity verify s" and "capacity \<le> u64_max"
  shows "fs_used s \<le> capacity \<and> fs_counter s = Some (fs_used s)
    \<and> fs_used s = table_bytes (fs_fragments s) + table_bytes (fs_posts s)
    \<and> load_or_recover_used (s\<lparr>fs_counter := None\<rparr>) = (fs_used s, s)
    \<and> (\<forall>k b. stored s k = Some b \<longrightarrow>
          (\<exists>m. meta_of s k = Some m \<and> md_size m = length b \<and> md_data_hash m = H b))"
proof -
  have inv: "store_inv H s" by (rule store_inv_reachable [OF assms])
  then have "fs_counter s = Some (fs_used s)" "fs_used s = table_bytes (fs_fragments s) + table_bytes (fs_posts s)"
    by (simp_all add: store_inv_def)
  then have "load_or_recover_used (s\<lparr>fs_counter := None\<rparr>) = (fs_used s, s)"
    by (simp add: load_or_recover_used_def scan_used_bytes_def entries_bytes)
  moreover have "\<exists>m. meta_of s k = Some m \<and> md_size m = length b \<and> md_data_hash m = H b" if "stored s k = Some b" for k b
    using entry_ok_Some stored_meta [OF inv, of k] that by force
  ultimately show ?thesis
    using inv store_reachable_capacity [OF assms(1)] by (auto simp: store_inv_def)
qed

lemma store_accounts_witness: "fs_used demo_store \<le> 10 \<and> load_or_recover_used (demo_store\<lparr>fs_counter := None\<rparr>) = (5, demo_store)"
  using store_accounts [OF demo_store_reachable] by (simp add: demo_store_used u64_max_def)

text \<open>What was stored is what is read. After a fragment was accepted, reading it returns the bytes
  first stored under its name, also with verification on every read; and no operation of the store
  ever changes the bytes of a fragment that stays.
\<close>

theorem store_retrieve_roundtrip:
  assumes "store_reachable H capacity verify s" and "capacity \<le> u64_max"
    and "store H now fid data s = Inr s'"
  shows "(\<exists>s''. retrieve H now' fid s' = Inr (Some (case stored s (Fragment fid) of None \<Rightarrow> data | Some old \<Rightarrow> old), s''))
    \<and> (\<forall>t k b b'. store_step H s' t \<longrightarrow> stored s' k = Some b \<longrightarrow> stored t k = Some b' \<longrightarrow> b' = b)"
proof -
  have inv: "store_inv H s" by (rule store_inv_reachable [OF assms(1, 2)])
  note inv' = store_inv_store [OF inv assms(3)]
  let ?d = "case stored s (Fragment fid) of None \<Rightarrow> data | Some old \<Rightarrow> old"
  have d: "RBT.lookup (fs_fragments s') fid = Some ?d"
    using assms(3) by (auto simp: store_def result_simps Let_def split: option.splits)
  with entry_ok_Some [of H ?d] stored_meta [OF inv', of "Fragment fid"]
  obtain m where "RBT.lookup (fs_fragment_meta s') fid = Some m" "md_data_hash m = H ?d" by auto
  with d have "\<exists>s''. retrieve H now' fid s' = Inr (Some ?d, s'')"
    by (simp add: retrieve_def verify_integrity_def Let_def)
  then show ?thesis using store_step_immutable [OF inv'] by blast
qed

lemma store_retrieve_roundtrip_witness:
  "\<exists>s' s''. store (\<lambda>_. 7) 3 9 [6, 6] demo_store = Inr s' \<and> retrieve (\<lambda>_. 7) 4 9 s' = Inr (Some [6, 6], s'')"
proof -
  have none: "stored demo_store (Fragment 9) = None" and cap: "fs_capacity demo_store = 10"
    using store_reachable_capacity [OF demo_store_reachable]
    by (simp_all add: demo_store_def open_store_def load_or_recover_used_def scan_used_bytes_def empty_db_def store_def
      store_post_fragment_def max_fragment_size_def max_post_id_def max_fragment_index_def u64_max_def entries_bytes Let_def)
  obtain s' where "store (\<lambda>_. 7) 3 9 [6, 6] demo_store = Inr s'"
    using none cap by (simp add: store_def max_fragment_size_def demo_store_used)
  from store_retrieve_roundtrip [OF demo_store_reachable _ this, of 4] this none show ?thesis
    by (auto simp: u64_max_def)
qed

text \<open>An eviction brings the use down to the target, with the fewest victims: the least recently
  used fragments go first, no fragment that stays was used before one that goes, what stays is
  unchanged, the last victim was still needed, and the statistics report exactly the bytes freed.
\<close>

theorem evict_lru_spec:
  assumes "store_reachable H capacity verify s" and "capacity \<le> u64_max"
    and "evict_lru target s = (s', st)"
  shows "fs_used s' \<le> target \<and> ev_bytes_freed st + fs_used s' = fs_used s
    \<and> (\<forall>k. stored s' k = stored s k \<and> meta_of s' k = meta_of s k \<or> stored s' k = None)
    \<and> (\<forall>k k' m m'. stored s' k = None \<longrightarrow> meta_of s k = Some m \<longrightarrow> meta_of s' k' = Some m'
          \<longrightarrow> md_last_accessed_at m \<le> md_last_accessed_at m')
    \<and> (s' = s \<or> (\<exists>k b. stored s k = Some b \<and> stored s' k = None \<and> target < fs_used s' + length b))"
proof -
  have inv: "store_inv H s" by (rule store_inv_reachable [OF assms(1, 2)])
  from evict_lru_prefix [OF inv assms(3)] obtain n cs where n: "cs = collect_eviction_candidates s"
    "stored s' = (\<lambda>k. if k \<in> cd_key ` set (take n cs) then None else stored s k)"
    "meta_of s' = (\<lambda>k. if k \<in> cd_key ` set (take n cs) then None else meta_of s k)"
    "ev_bytes_freed st + fs_used s' = fs_used s" "fs_used s' \<le> target"
    "n = 0 \<and> s' = s \<or> 0 < n \<and> n \<le> length cs \<and> target < fs_used s' + cd_size (cs ! (n - 1))" by blast
  have "md_last_accessed_at m \<le> md_last_accessed_at m'"
    if "stored s' k = None" "meta_of s k = Some m" "meta_of s' k' = Some m'" for k k' m m'
  proof (rule candidates_order [OF inv that(2), of n k'])
    have "stored s k \<noteq> None" using stored_meta [OF inv, of k] that(2) by (cases "stored s k") auto
    with that(1) show "k \<in> cd_key ` set (take n (collect_eviction_candidates s))"
      by (simp add: n(1, 2) split: if_splits)
    from that(3) show "meta_of s k' = Some m'" "k' \<notin> cd_key ` set (take n (collect_eviction_candidates s))"
      by (simp_all add: n(1, 3) split: if_splits)
  qed
  moreover have "\<exists>k b. stored s k = Some b \<and> stored s' k = None \<and> target < fs_used s' + length b" if "s' \<noteq> s"
  proof -
    let ?c = "cs ! (n - 1)"
    have n0: "0 < n" "n \<le> length cs" "target < fs_used s' + cd_size ?c" using n(6) that by auto
    then have "?c \<in> set (take n cs)" by (auto simp: in_set_conv_nth intro!: exI [of _ "n - 1"])
    moreover from this obtain b where "stored s (cd_key ?c) = Some b" "cd_size ?c = length b"
      using candidate_stored [OF inv] n(1) by (meson in_set_takeD)
    ultimately show ?thesis using n(2) n0(3) by (intro exI [of _ "cd_key ?c"] exI [of _ b]) auto
  qed
  moreover have "\<forall>k. stored s' k = stored s k \<and> meta_of s' k = meta_of s k \<or> stored s' k = None"
    by (simp add: n(2, 3))
  ultimately show ?thesis using n(4, 5) by blast
qed

lemma evict_lru_spec_witness:
  "\<exists>s' st. evict_lru 3 demo_store = (s', st) \<and> fs_used s' \<le> 3 \<and> ev_bytes_freed st + fs_used s' = 5"
proof -
  obtain s' st where e: "evict_lru 3 demo_store = (s', st)" by fastforce
  show ?thesis
    using evict_lru_spec [OF demo_store_reachable _ e] e by (simp add: demo_store_used u64_max_def)
qed

end
