(* ===== verification/Ip_Address.thy ===== *)
theory Ip_Address
  imports Prelude
begin

text \<open>
  Internet addresses as the code takes them from \<open>std::net\<close>: four octets or eight segments, the
  class predicates of the standard library, and the addresses as numbers, on which a network in
  CIDR notation is a block of numbers with a common prefix. Also the text operations of
  \<open>std::str\<close> that the endpoint checks use.
\<close>

unbundle bit_operations_syntax

subsection \<open>Addresses and the classes of the standard library\<close>

datatype ipv4 = Ipv4Addr "8 word" "8 word" "8 word" "8 word"

datatype ipv6 = Ipv6Addr "16 word" "16 word" "16 word" "16 word" "16 word" "16 word" "16 word" "16 word"

datatype ip_addr = V4 ipv4 | V6 ipv6

fun v4_is_loopback :: "ipv4 \<Rightarrow> bool" where
  "v4_is_loopback (Ipv4Addr a b c d) \<longleftrightarrow> a = 127"

fun v4_is_private :: "ipv4 \<Rightarrow> bool" where
  "v4_is_private (Ipv4Addr a b c d) \<longleftrightarrow>
     a = 10 \<or> (a = 172 \<and> 16 \<le> b \<and> b \<le> 31) \<or> (a = 192 \<and> b = 168)"

fun v4_is_link_local :: "ipv4 \<Rightarrow> bool" where
  "v4_is_link_local (Ipv4Addr a b c d) \<longleftrightarrow> a = 169 \<and> b = 254"

fun v4_is_multicast :: "ipv4 \<Rightarrow> bool" where
  "v4_is_multicast (Ipv4Addr a b c d) \<longleftrightarrow> 224 \<le> a \<and> a \<le> 239"

fun v4_is_unspecified :: "ipv4 \<Rightarrow> bool" where
  "v4_is_unspecified (Ipv4Addr a b c d) \<longleftrightarrow> a = 0 \<and> b = 0 \<and> c = 0 \<and> d = 0"

fun v4_is_broadcast :: "ipv4 \<Rightarrow> bool" where
  "v4_is_broadcast (Ipv4Addr a b c d) \<longleftrightarrow> a = 255 \<and> b = 255 \<and> c = 255 \<and> d = 255"

fun v6_segment0 :: "ipv6 \<Rightarrow> 16 word" where
  "v6_segment0 (Ipv6Addr s0 s1 s2 s3 s4 s5 s6 s7) = s0"

fun v6_is_loopback :: "ipv6 \<Rightarrow> bool" where
  "v6_is_loopback (Ipv6Addr s0 s1 s2 s3 s4 s5 s6 s7) \<longleftrightarrow>
     s0 = 0 \<and> s1 = 0 \<and> s2 = 0 \<and> s3 = 0 \<and> s4 = 0 \<and> s5 = 0 \<and> s6 = 0 \<and> s7 = 1"

fun v6_is_unspecified :: "ipv6 \<Rightarrow> bool" where
  "v6_is_unspecified (Ipv6Addr s0 s1 s2 s3 s4 s5 s6 s7) \<longleftrightarrow>
     s0 = 0 \<and> s1 = 0 \<and> s2 = 0 \<and> s3 = 0 \<and> s4 = 0 \<and> s5 = 0 \<and> s6 = 0 \<and> s7 = 0"

definition v6_is_multicast :: "ipv6 \<Rightarrow> bool" where
  "v6_is_multicast a \<longleftrightarrow> v6_segment0 a AND 0xff00 = 0xff00"

fun to_ipv4_mapped :: "ipv6 \<Rightarrow> ipv4 option" where
  "to_ipv4_mapped (Ipv6Addr s0 s1 s2 s3 s4 s5 s6 s7) =
     (if s0 = 0 \<and> s1 = 0 \<and> s2 = 0 \<and> s3 = 0 \<and> s4 = 0 \<and> s5 = 0xffff
      then Some (Ipv4Addr (ucast (drop_bit 8 s6)) (ucast s6) (ucast (drop_bit 8 s7)) (ucast s7))
      else None)"

subsection \<open>Addresses as numbers, networks as prefixes\<close>

definition be_num :: "nat \<Rightarrow> nat list \<Rightarrow> nat" where
  "be_num B ds = foldl (\<lambda>acc d. acc * B + d) 0 ds"

fun v4_num :: "ipv4 \<Rightarrow> nat" where
  "v4_num (Ipv4Addr a b c d) = be_num 256 [unat a, unat b, unat c, unat d]"

fun v6_num :: "ipv6 \<Rightarrow> nat" where
  "v6_num (Ipv6Addr s0 s1 s2 s3 s4 s5 s6 s7) =
     be_num 65536 [unat s0, unat s1, unat s2, unat s3, unat s4, unat s5, unat s6, unat s7]"

text \<open>The \<open>w\<close>-bit number lies in the network with this base address and prefix length.\<close>

definition in_net :: "nat \<Rightarrow> nat \<Rightarrow> nat \<times> nat \<Rightarrow> bool" where
  "in_net w n = (\<lambda>(base, len). n div 2 ^ (w - len) = base div 2 ^ (w - len))"

lemma be_num_snoc: "be_num B (ds @ [d]) = be_num B ds * B + d"
  by (simp add: be_num_def)

lemma be_num_prefix: "\<forall>d \<in> set qs. d < B \<Longrightarrow> be_num B (ps @ qs) div B ^ length qs = be_num B ps"
proof (induction qs rule: rev_induct)
  case (snoc q qs)
  then have "(be_num B (ps @ qs) * B + q) div B = be_num B (ps @ qs)" by auto
  then show ?case
    using snoc by (simp add: append_assoc [symmetric] be_num_snoc div_mult2_eq del: append_assoc)
qed simp

lemma be_num_inj:
  assumes "length xs = length ys" and "\<forall>d \<in> set xs. d < B" and "\<forall>d \<in> set ys. d < B"
    and "be_num B xs = be_num B ys"
  shows "xs = ys"
  using assms
proof (induction xs ys rule: rev_induct2)
  case (4 x xs y ys)
  then have "be_num B xs * B + x = be_num B ys * B + y" "x < B" "y < B"
    by (auto simp: be_num_snoc)
  then have "(be_num B xs * B + x) div B = (be_num B ys * B + y) div B"
    and "(be_num B xs * B + x) mod B = (be_num B ys * B + y) mod B" by simp_all
  with \<open>x < B\<close> \<open>y < B\<close> have "be_num B xs = be_num B ys" "x = y" by simp_all
  with 4 show ?case by auto
qed auto

lemma octet_less [simp]: "unat (b :: 8 word) < 256"
  using unsigned_less [of b, where 'a = nat] by simp

lemma segment_less [simp]: "unat (s :: 16 word) < 65536"
  using unsigned_less [of s, where 'a = nat] by simp

lemma v4_num_prefix:
  "v4_num (Ipv4Addr a b c d) div 2 ^ 24 = unat a"
  "v4_num (Ipv4Addr a b c d) div 2 ^ 16 = unat a * 256 + unat b"
  using be_num_prefix [of "[unat b, unat c, unat d]" 256 "[unat a]"]
    be_num_prefix [of "[unat c, unat d]" 256 "[unat a, unat b]"]
  by (simp_all add: be_num_def)

lemma v4_num_inj: "v4_num a = v4_num b \<longleftrightarrow> a = b"
proof
  assume eq: "v4_num a = v4_num b"
  obtain a0 a1 a2 a3 b0 b1 b2 b3 where [simp]: "a = Ipv4Addr a0 a1 a2 a3" "b = Ipv4Addr b0 b1 b2 b3"
    by (metis ipv4.exhaust)
  have "[unat a0, unat a1, unat a2, unat a3] = [unat b0, unat b1, unat b2, unat b3]"
    by (rule be_num_inj [of _ _ 256]) (use eq in auto)
  then show "a = b" by (auto simp: unsigned_word_eqI)
qed simp

lemma v6_num_inj: "v6_num a = v6_num b \<longleftrightarrow> a = b"
proof
  assume eq: "v6_num a = v6_num b"
  obtain a0 a1 a2 a3 a4 a5 a6 a7 where [simp]: "a = Ipv6Addr a0 a1 a2 a3 a4 a5 a6 a7"
    by (cases a)
  obtain b0 b1 b2 b3 b4 b5 b6 b7 where [simp]: "b = Ipv6Addr b0 b1 b2 b3 b4 b5 b6 b7"
    by (cases b)
  have "[unat a0, unat a1, unat a2, unat a3, unat a4, unat a5, unat a6, unat a7]
      = [unat b0, unat b1, unat b2, unat b3, unat b4, unat b5, unat b6, unat b7]"
    by (rule be_num_inj [of _ _ 65536]) (use eq in auto)
  then show "a = b" by (auto simp: unsigned_word_eqI)
qed simp

lemma v6_num_segment0: "v6_num a div 2 ^ 112 = unat (v6_segment0 a)"
proof (cases a)
  case (Ipv6Addr s0 s1 s2 s3 s4 s5 s6 s7)
  then show ?thesis
    using be_num_prefix [of "[unat s1, unat s2, unat s3, unat s4, unat s5, unat s6, unat s7]" 65536 "[unat s0]"]
    by (simp add: be_num_def)
qed

text \<open>A word agrees with a constant above bit \<open>n\<close> when both give the same quotient.\<close>

lemma and_high_bits:
  fixes w :: "'a::len word"
  assumes "m = NOT (mask n)" and "v = push_bit n (drop_bit n v)"
  shows "w AND m = v \<longleftrightarrow> unat w div 2 ^ n = unat v div 2 ^ n"
proof -
  have high: "x AND m = push_bit n (drop_bit n x)" for x :: "'a word"
    by (rule bit_word_eqI) (auto simp: assms(1) bit_simps)
  have "drop_bit n (push_bit n (drop_bit n x)) = drop_bit n x" for x :: "'a word"
    by (rule bit_word_eqI) (auto simp: bit_simps dest: bit_imp_le_length)
  then have "w AND m = v \<longleftrightarrow> drop_bit n w = drop_bit n v"
    using assms(2) by (metis high)
  also have "\<dots> \<longleftrightarrow> unat (drop_bit n w) = unat (drop_bit n v)"
    by (auto intro: unsigned_word_eqI)
  finally have *: "w AND m = v \<longleftrightarrow> unat (drop_bit n w) = unat (drop_bit n v)" .
  have "unat (drop_bit n x) = unat x div 2 ^ n" for x :: "'a word"
    by (simp add: unsigned_drop_bit_eq drop_bit_eq_div [where 'a = nat] take_bit_nat_eq_self del: drop_bit_eq_div)
  with * show ?thesis by simp
qed

subsection \<open>Text\<close>

definition ascii_lower :: "char \<Rightarrow> char" where
  "ascii_lower c = (if 65 \<le> (of_char c :: nat) \<and> (of_char c :: nat) \<le> 90 then char_of ((of_char c :: nat) + 32) else c)"

definition to_ascii_lowercase :: "string \<Rightarrow> string" where
  "to_ascii_lowercase s = map ascii_lower s"

definition eq_ignore_ascii_case :: "string \<Rightarrow> string \<Rightarrow> bool" where
  "eq_ignore_ascii_case s t \<longleftrightarrow> to_ascii_lowercase s = to_ascii_lowercase t"

definition ends_with :: "string \<Rightarrow> string \<Rightarrow> bool" where
  "ends_with s t \<longleftrightarrow> length t \<le> length s \<and> drop (length s - length t) s = t"

subsection \<open>Parsed URLs\<close>

text \<open>What the code reads off a value of \<open>url::Url\<close>; the parser is a parameter of the checks.\<close>

datatype url_host = Domain string | Ipv4Host ipv4 | Ipv6Host ipv6

record url =
  url_scheme :: string
  url_host_of :: "url_host option"
  url_port :: "16 word option" \<comment> \<open>\<open>port_or_known_default\<close>\<close>

type_synonym url_parser = "string \<Rightarrow> url option"

end
