(* ===== verification/Endpoint_Policy.thy ===== *)
theory Endpoint_Policy
  imports Ip_Address
begin

text \<open>
  The policy of a chain node for the URLs it sends requests to
  (\<open>src/apps/blockchain/node/src/rpc/endpoint_policy.rs\<close>). The URL parser and the name resolver
  are parameters.
\<close>

unbundle bit_operations_syntax

subsection \<open>The policy\<close>

record endpoint_policy =
  allow_private :: bool
  own_rpc_ports :: "16 word list"

datatype endpoint_error = InvalidUrl | InvalidUrlScheme string | NoPort | OwnRpcPort "16 word" | NoHost
  | ForbiddenIp ip_addr | PrivateIp ip_addr | LocalhostNotAllowed
  | LookupTimedOut string | LookupFailed string | ResolvesToForbidden string | NoAddresses string

fun canonical_ip :: "ip_addr \<Rightarrow> ip_addr" where
  "canonical_ip (V6 v6) = (case to_ipv4_mapped v6 of Some v4 \<Rightarrow> V4 v4 | None \<Rightarrow> V6 v6)"
| "canonical_ip (V4 v4) = V4 v4"

fun octets01 :: "ipv4 \<Rightarrow> 8 word \<times> 8 word" where
  "octets01 (Ipv4Addr a b c d) = (a, b)"

definition is_private_v4 :: "ipv4 \<Rightarrow> bool" where
  "is_private_v4 v4 =
     (let (o0, o1) = octets01 v4
      in v4_is_loopback v4 \<or> v4_is_private v4 \<or> (o0 = 100 \<and> o1 AND 0xc0 = 64))"

definition is_private_v6 :: "ipv6 \<Rightarrow> bool" where
  "is_private_v6 v6 \<longleftrightarrow> v6_is_loopback v6 \<or> v6_segment0 v6 AND 0xfe00 = 0xfc00"

definition is_link_local_v6 :: "ipv6 \<Rightarrow> bool" where
  "is_link_local_v6 v6 \<longleftrightarrow> v6_segment0 v6 AND 0xffc0 = 0xfe80"

definition check_ip :: "endpoint_policy \<Rightarrow> ip_addr \<Rightarrow> (endpoint_error, unit) result" where
  "check_ip P ip = (case canonical_ip ip of
       V4 v4 \<Rightarrow>
         ensure (\<not> (v4_is_link_local v4 \<or> v4_is_multicast v4 \<or> v4_is_unspecified v4 \<or> v4_is_broadcast v4))
           (ForbiddenIp (V4 v4)) (
         ensure (\<not> (\<not> allow_private P \<and> is_private_v4 v4)) (PrivateIp (V4 v4)) (Inr ()))
     | V6 v6 \<Rightarrow>
         ensure (\<not> (is_link_local_v6 v6 \<or> v6_is_multicast v6 \<or> v6_is_unspecified v6)) (ForbiddenIp (V6 v6)) (
         ensure (\<not> (\<not> allow_private P \<and> is_private_v6 v6)) (PrivateIp (V6 v6)) (Inr ())))"

text \<open>The match on the host in \<open>validate_url_sync\<close>.\<close>

definition check_host :: "endpoint_policy \<Rightarrow> url_host option \<Rightarrow> (endpoint_error, unit) result" where
  "check_host P host = (case host of
       None \<Rightarrow> Inl (Err NoHost)
     | Some (Ipv4Host v4) \<Rightarrow> check_ip P (V4 v4)
     | Some (Ipv6Host v6) \<Rightarrow> check_ip P (V6 v6)
     | Some (Domain domain) \<Rightarrow>
         ensure (\<not> (eq_ignore_ascii_case domain ''localhost'' \<and> \<not> allow_private P)) LocalhostNotAllowed (Inr ()))"

definition validate_url_sync :: "url_parser \<Rightarrow> endpoint_policy \<Rightarrow> string \<Rightarrow> (endpoint_error, url) result" where
  "validate_url_sync parse P s =
     ok_or (parse s) InvalidUrl (\<lambda>u.
     ensure (url_scheme u = ''http'' \<or> url_scheme u = ''https'') (InvalidUrlScheme (url_scheme u)) (
     ok_or (url_port u) NoPort (\<lambda>port.
     ensure (port \<notin> set (own_rpc_ports P)) (OwnRpcPort port) (
     bind_ok (check_host P (url_host_of u)) (\<lambda>_. Inr u)))))"

datatype dns_answer = DnsTimeout | DnsFailure | DnsAddrs "ip_addr list"

type_synonym resolver = "string \<Rightarrow> 16 word \<Rightarrow> dns_answer"

fun check_addrs :: "endpoint_policy \<Rightarrow> string \<Rightarrow> ip_addr list \<Rightarrow> (endpoint_error, unit) result" where
  "check_addrs P domain [] = Inr ()"
| "check_addrs P domain (ip # ips) =
     (case check_ip P ip of Inl _ \<Rightarrow> Inl (Err (ResolvesToForbidden domain)) | Inr _ \<Rightarrow> check_addrs P domain ips)"

text \<open>The second stage, once the synchronous check has passed.\<close>

definition check_names :: "resolver \<Rightarrow> endpoint_policy \<Rightarrow> url \<Rightarrow> (endpoint_error, unit) result" where
  "check_names lookup P u = (case url_host_of u of
       Some (Domain d) \<Rightarrow>
         (let domain = to_ascii_lowercase d in
          if domain = ''localhost'' \<or> ends_with domain ''.onion'' \<or> ends_with domain ''.i2p'' then Inr ()
          else case lookup domain (case url_port u of Some p \<Rightarrow> p | None \<Rightarrow> 80) of
              DnsTimeout \<Rightarrow> Inl (Err (LookupTimedOut domain))
            | DnsFailure \<Rightarrow> Inl (Err (LookupFailed domain))
            | DnsAddrs addrs \<Rightarrow>
                bind_ok (check_addrs P domain addrs) (\<lambda>_.
                  ensure (addrs \<noteq> []) (NoAddresses domain) (Inr ())))
     | _ \<Rightarrow> Inr ())"

definition validate_url :: "url_parser \<Rightarrow> resolver \<Rightarrow> endpoint_policy \<Rightarrow> string \<Rightarrow> (endpoint_error, unit) result" where
  "validate_url parse lookup P s = bind_ok (validate_url_sync parse P s) (check_names lookup P)"

subsection \<open>The reference: networks in CIDR notation\<close>

text \<open>
  169.254.0.0/16, 224.0.0.0/4, 0.0.0.0/32 and 255.255.255.255/32 are never allowed; 127.0.0.0/8,
  10.0.0.0/8, 172.16.0.0/12, 192.168.0.0/16 and 100.64.0.0/10 only on a development chain.
\<close>

definition v4_forbidden :: "(nat \<times> nat) list" where
  "v4_forbidden = [(0xa9fe0000, 16), (0xe0000000, 4), (0, 32), (0xffffffff, 32)]"

definition v4_private :: "(nat \<times> nat) list" where
  "v4_private = [(0x7f000000, 8), (0x0a000000, 8), (0xac100000, 12), (0xc0a80000, 16), (0x64400000, 10)]"

text \<open>fe80::/10, ff00::/8 and ::/128; ::1/128 and fc00::/7; ::ffff:0:0/96 holds the mapped addresses.\<close>

definition v6_forbidden :: "(nat \<times> nat) list" where
  "v6_forbidden = [(0xfe80 * 2 ^ 112, 10), (0xff00 * 2 ^ 112, 8), (0, 128)]"

definition v6_private :: "(nat \<times> nat) list" where
  "v6_private = [(1, 128), (0xfc00 * 2 ^ 112, 7)]"

definition v6_mapped :: "nat \<times> nat" where "v6_mapped = (0xffff * 2 ^ 32, 96)"

definition nets_allow :: "nat \<Rightarrow> bool \<Rightarrow> (nat \<times> nat) list \<Rightarrow> (nat \<times> nat) list \<Rightarrow> nat \<Rightarrow> bool" where
  "nets_allow w priv never dev n \<longleftrightarrow> \<not> list_ex (in_net w n) never \<and> (priv \<or> \<not> list_ex (in_net w n) dev)"

definition cidr_allows :: "bool \<Rightarrow> ip_addr \<Rightarrow> bool" where
  "cidr_allows priv ip = (case ip of
       V4 a \<Rightarrow> nets_allow 32 priv v4_forbidden v4_private (v4_num a)
     | V6 a \<Rightarrow> if in_net 128 (v6_num a) v6_mapped
              then nets_allow 32 priv v4_forbidden v4_private (v6_num a mod 2 ^ 32)
              else nets_allow 128 priv v6_forbidden v6_private (v6_num a))"

text \<open>What the host of an accepted URL may be, given what the resolver answers for a name.\<close>

definition host_allowed :: "resolver \<Rightarrow> bool \<Rightarrow> 16 word \<Rightarrow> url_host \<Rightarrow> bool" where
  "host_allowed lookup priv port h = (case h of
       Ipv4Host a \<Rightarrow> cidr_allows priv (V4 a)
     | Ipv6Host a \<Rightarrow> cidr_allows priv (V6 a)
     | Domain d \<Rightarrow>
         (let domain = to_ascii_lowercase d in
          if domain = ''localhost'' then priv
          else ends_with domain ''.onion'' \<or> ends_with domain ''.i2p''
             \<or> (\<exists>addrs. lookup domain port = DnsAddrs addrs \<and> addrs \<noteq> [] \<and> (\<forall>ip \<in> set addrs. cidr_allows priv ip))))"

subsection \<open>The class predicates are networks\<close>

lemma div_prefix: "n div 2 ^ (k + j) = n div 2 ^ k div 2 ^ j"
  for n :: nat by (simp add: power_add div_mult2_eq)

text \<open>Two octets with the second cut at a prefix boundary.\<close>

lemma octets_prefix:
  fixes x y k j X Y :: nat
  assumes "256 = j * k" and "y < 256" and "Y < j" and "0 < k"
  shows "(x * 256 + y) div k = X * j + Y \<longleftrightarrow> x = X \<and> y div k = Y"
proof -
  have "(x * 256 + y) div k = x * j + y div k"
    using assms(1,4) by (metis div_mult_self3 mult.assoc mult.commute not_less0 add.commute)
  moreover have "y div k < j" using assms by (simp add: less_mult_imp_div_less)
  then have "(x * j + y div k) div j = x" "(x * j + y div k) mod j = y div k"
    "(X * j + Y) div j = X" "(X * j + Y) mod j = Y" using assms(3) by simp_all
  ultimately show ?thesis by metis
qed

lemma v4_classes:
  fixes a b c d :: "8 word"
  defines "n \<equiv> v4_num (Ipv4Addr a b c d)"
  shows "in_net 32 n (0x7f000000, 8) \<longleftrightarrow> unat a = 127"
    and "in_net 32 n (0x0a000000, 8) \<longleftrightarrow> unat a = 10"
    and "in_net 32 n (0xe0000000, 4) \<longleftrightarrow> unat a div 16 = 14"
    and "in_net 32 n (0xa9fe0000, 16) \<longleftrightarrow> unat a = 169 \<and> unat b = 254"
    and "in_net 32 n (0xc0a80000, 16) \<longleftrightarrow> unat a = 192 \<and> unat b = 168"
    and "in_net 32 n (0xac100000, 12) \<longleftrightarrow> unat a = 172 \<and> unat b div 16 = 1"
    and "in_net 32 n (0x64400000, 10) \<longleftrightarrow> unat a = 100 \<and> unat b div 64 = 1"
    and "in_net 32 n (0, 32) \<longleftrightarrow> unat a = 0 \<and> unat b = 0 \<and> unat c = 0 \<and> unat d = 0"
    and "in_net 32 n (0xffffffff, 32) \<longleftrightarrow> unat a = 255 \<and> unat b = 255 \<and> unat c = 255 \<and> unat d = 255"
proof -
  note bounds = octet_less [of a] octet_less [of b] octet_less [of c] octet_less [of d]
  have n24: "n div 2 ^ 24 = unat a" and n16: "n div 2 ^ 16 = unat a * 256 + unat b"
    unfolding n_def by (rule v4_num_prefix)+
  have n28: "n div 2 ^ 28 = unat a div 16" and n20: "n div 2 ^ 20 = (unat a * 256 + unat b) div 16"
    and n22: "n div 2 ^ 22 = (unat a * 256 + unat b) div 64"
    using div_prefix [of n 24 4] div_prefix [of n 16 4] div_prefix [of n 16 6] n24 n16 by simp_all
  have n0: "n = ((unat a * 256 + unat b) * 256 + unat c) * 256 + unat d"
    by (simp add: n_def be_num_def)
  show "in_net 32 n (0x7f000000, 8) \<longleftrightarrow> unat a = 127" "in_net 32 n (0x0a000000, 8) \<longleftrightarrow> unat a = 10"
    using n24 by (simp_all add: in_net_def)
  show "in_net 32 n (0xe0000000, 4) \<longleftrightarrow> unat a div 16 = 14" using n28 by (simp add: in_net_def)
  show "in_net 32 n (0xa9fe0000, 16) \<longleftrightarrow> unat a = 169 \<and> unat b = 254"
    "in_net 32 n (0xc0a80000, 16) \<longleftrightarrow> unat a = 192 \<and> unat b = 168"
    using n16 octets_prefix [of 256 1 "unat b" 254 "unat a" 169] octets_prefix [of 256 1 "unat b" 168 "unat a" 192]
    by (simp_all add: in_net_def)
  show "in_net 32 n (0xac100000, 12) \<longleftrightarrow> unat a = 172 \<and> unat b div 16 = 1"
    using n20 octets_prefix [of 16 16 "unat b" 1 "unat a" 172] by (simp add: in_net_def)
  show "in_net 32 n (0x64400000, 10) \<longleftrightarrow> unat a = 100 \<and> unat b div 64 = 1"
    using n22 octets_prefix [of 4 64 "unat b" 1 "unat a" 100] by (simp add: in_net_def)
  show "in_net 32 n (0, 32) \<longleftrightarrow> unat a = 0 \<and> unat b = 0 \<and> unat c = 0 \<and> unat d = 0"
    using n0 by (simp add: in_net_def)
  have "n = v4_num (Ipv4Addr 255 255 255 255) \<longleftrightarrow> a = 255 \<and> b = 255 \<and> c = 255 \<and> d = 255"
    unfolding n_def v4_num_inj by simp
  then show "in_net 32 n (0xffffffff, 32) \<longleftrightarrow> unat a = 255 \<and> unat b = 255 \<and> unat c = 255 \<and> unat d = 255"
    by (simp add: in_net_def be_num_def word_unat_eq_iff)
qed

lemmas word_as_nat = word_unat_eq_iff word_le_nat_alt

lemma high_masks:
  "NOT (mask 6) = (0xc0 :: 8 word)" "NOT (mask 6) = (0xffc0 :: 16 word)"
  "NOT (mask 8) = (0xff00 :: 16 word)" "NOT (mask 9) = (0xfe00 :: 16 word)"
  by (simp_all add: mask_eq_exp_minus_1)

lemma v4_policy:
  "v4_is_link_local v \<or> v4_is_multicast v \<or> v4_is_unspecified v \<or> v4_is_broadcast v
     \<longleftrightarrow> list_ex (in_net 32 (v4_num v)) v4_forbidden"
  "is_private_v4 v \<longleftrightarrow> list_ex (in_net 32 (v4_num v)) v4_private"
proof -
  obtain a b c d where v: "v = Ipv4Addr a b c d" by (cases v)
  have cgnat: "b AND 0xc0 = 64 \<longleftrightarrow> unat b div 64 = 1"
    using and_high_bits [OF refl, of 64 6 b] unfolding high_masks by simp
  have ranges: "16 \<le> unat b \<and> unat b \<le> 31 \<longleftrightarrow> unat b div 16 = 1" "224 \<le> unat a \<and> unat a \<le> 239 \<longleftrightarrow> unat a div 16 = 14"
    by arith+
  show "v4_is_link_local v \<or> v4_is_multicast v \<or> v4_is_unspecified v \<or> v4_is_broadcast v
     \<longleftrightarrow> list_ex (in_net 32 (v4_num v)) v4_forbidden"
    unfolding v v4_forbidden_def list_ex_Nil_iff list_ex_Cons_iff v4_classes
    using ranges by (auto simp: word_as_nat)
  show "is_private_v4 v \<longleftrightarrow> list_ex (in_net 32 (v4_num v)) v4_private"
    unfolding v v4_private_def list_ex_Nil_iff list_ex_Cons_iff v4_classes
    using ranges cgnat by (auto simp: is_private_v4_def word_as_nat)
qed

lemma v6_classes:
  fixes v :: ipv6
  defines "n \<equiv> v6_num v"
  shows "in_net 128 n (0xfe80 * 2 ^ 112, 10) \<longleftrightarrow> unat (v6_segment0 v) div 2 ^ 6 = 0xfe80 div 2 ^ 6"
    and "in_net 128 n (0xff00 * 2 ^ 112, 8) \<longleftrightarrow> unat (v6_segment0 v) div 2 ^ 8 = 0xff00 div 2 ^ 8"
    and "in_net 128 n (0xfc00 * 2 ^ 112, 7) \<longleftrightarrow> unat (v6_segment0 v) div 2 ^ 9 = 0xfc00 div 2 ^ 9"
    and "in_net 128 n (0, 128) \<longleftrightarrow> v6_is_unspecified v"
    and "in_net 128 n (1, 128) \<longleftrightarrow> v6_is_loopback v"
proof -
  have top: "n div 2 ^ 112 = unat (v6_segment0 v)" unfolding n_def by (rule v6_num_segment0)
  have "n div 2 ^ (112 + j) = unat (v6_segment0 v) div 2 ^ j" for j
    by (simp only: div_prefix top)
  from this [of 6] this [of 8] this [of 9]
  show "in_net 128 n (0xfe80 * 2 ^ 112, 10) \<longleftrightarrow> unat (v6_segment0 v) div 2 ^ 6 = 0xfe80 div 2 ^ 6"
    "in_net 128 n (0xff00 * 2 ^ 112, 8) \<longleftrightarrow> unat (v6_segment0 v) div 2 ^ 8 = 0xff00 div 2 ^ 8"
    "in_net 128 n (0xfc00 * 2 ^ 112, 7) \<longleftrightarrow> unat (v6_segment0 v) div 2 ^ 9 = 0xfc00 div 2 ^ 9"
    by (simp_all add: in_net_def)
  have "n = v6_num (Ipv6Addr 0 0 0 0 0 0 0 k) \<longleftrightarrow> v = Ipv6Addr 0 0 0 0 0 0 0 k" for k
    unfolding n_def by (rule v6_num_inj)
  from this [of 0] this [of 1]
  show "in_net 128 n (0, 128) \<longleftrightarrow> v6_is_unspecified v" "in_net 128 n (1, 128) \<longleftrightarrow> v6_is_loopback v"
    by (cases v; simp add: in_net_def be_num_def)+
qed

lemma v6_policy:
  "is_link_local_v6 v \<or> v6_is_multicast v \<or> v6_is_unspecified v \<longleftrightarrow> list_ex (in_net 128 (v6_num v)) v6_forbidden"
  "is_private_v6 v \<longleftrightarrow> list_ex (in_net 128 (v6_num v)) v6_private"
proof -
  define s where "s = v6_segment0 v"
  have masks: "s AND 0xffc0 = 0xfe80 \<longleftrightarrow> unat s div 2 ^ 6 = 0xfe80 div 2 ^ 6"
    "s AND 0xff00 = 0xff00 \<longleftrightarrow> unat s div 2 ^ 8 = 0xff00 div 2 ^ 8"
    "s AND 0xfe00 = 0xfc00 \<longleftrightarrow> unat s div 2 ^ 9 = 0xfc00 div 2 ^ 9"
    using and_high_bits [OF refl, of "0xfe80" 6 s] and_high_bits [OF refl, of "0xff00" 8 s]
      and_high_bits [OF refl, of "0xfc00" 9 s] unfolding high_masks by simp_all
  show "is_link_local_v6 v \<or> v6_is_multicast v \<or> v6_is_unspecified v \<longleftrightarrow> list_ex (in_net 128 (v6_num v)) v6_forbidden"
    unfolding v6_forbidden_def list_ex_Nil_iff list_ex_Cons_iff v6_classes is_link_local_v6_def v6_is_multicast_def
      s_def [symmetric] masks by simp
  show "is_private_v6 v \<longleftrightarrow> list_ex (in_net 128 (v6_num v)) v6_private"
    unfolding v6_private_def list_ex_Nil_iff list_ex_Cons_iff v6_classes is_private_v6_def s_def [symmetric] masks by simp
qed

lemma mapped_net:
  "in_net 128 (v6_num v) v6_mapped \<longleftrightarrow> to_ipv4_mapped v \<noteq> None"
  "to_ipv4_mapped v = Some a \<Longrightarrow> v6_num v mod 2 ^ 32 = v4_num a"
proof -
  obtain s0 s1 s2 s3 s4 s5 s6 s7 where v: "v = Ipv6Addr s0 s1 s2 s3 s4 s5 s6 s7" by (cases v)
  let ?top = "[unat s0, unat s1, unat s2, unat s3, unat s4, unat s5]"
  have "v6_num v div 65536 ^ length [unat s6, unat s7] = be_num 65536 ?top"
    unfolding v using be_num_prefix [of "[unat s6, unat s7]" 65536 ?top] by simp
  then have "in_net 128 (v6_num v) v6_mapped \<longleftrightarrow> be_num 65536 ?top = be_num 65536 [0, 0, 0, 0, 0, 65535]"
    by (simp add: in_net_def v6_mapped_def be_num_def)
  also have "\<dots> \<longleftrightarrow> ?top = [0, 0, 0, 0, 0, 65535]"
    using be_num_inj [of ?top "[0, 0, 0, 0, 0, 65535]" 65536] by auto
  finally show "in_net 128 (v6_num v) v6_mapped \<longleftrightarrow> to_ipv4_mapped v \<noteq> None"
    by (simp add: v word_unat_eq_iff)
  assume "to_ipv4_mapped v = Some a"
  then have a: "a = Ipv4Addr (ucast (drop_bit 8 s6)) (ucast s6) (ucast (drop_bit 8 s7)) (ucast s7)"
    and top: "v6_num v = be_num 65536 [0, 0, 0, 0, 0, 65535, unat s6, unat s7]"
    by (auto simp: v split: if_splits)
  have low: "unat s div 256 < 256" for s :: "16 word"
    by (rule less_mult_imp_div_less) simp
  have halves: "unat (ucast (drop_bit 8 s) :: 8 word) = unat s div 256" "unat (ucast s :: 8 word) = unat s mod 256"
    for s :: "16 word"
    by (simp_all add: unsigned_ucast_eq unsigned_drop_bit_eq take_bit_eq_mod drop_bit_eq_div [where 'a = nat]
        take_bit_nat_eq_self mod_less del: drop_bit_eq_div)
      (rule mod_less [OF low])
  have join: "s div 256 * 256 + s mod 256 = s" for s :: nat by simp
  have "v4_num a = be_num 256 [unat s6 div 256, unat s6 mod 256, unat s7 div 256, unat s7 mod 256]"
    unfolding a v4_num.simps halves(1) unfolding halves(2) ..
  also have "\<dots> = (unat s6 div 256 * 256 + unat s6 mod 256) * 65536 + (unat s7 div 256 * 256 + unat s7 mod 256)"
    by (simp add: be_num_def del: div_mult_mod_eq mult_div_mod_eq)
  finally have "v4_num a = unat s6 * 65536 + unat s7" by (simp only: join)
  moreover have "unat s6 * 65536 + unat s7 < 2 ^ 32"
  proof -
    have "unat s6 * 65536 + unat s7 < 4294967296"
      using segment_less [of s6] segment_less [of s7] by linarith
    then show ?thesis by simp
  qed
  moreover have "v6_num v = 65535 * 2 ^ 32 + (unat s6 * 65536 + unat s7)"
    by (simp add: top be_num_def algebra_simps)
  ultimately show "v6_num v mod 2 ^ 32 = v4_num a" by (simp only: mod_mult_self3 mod_less)
qed

lemma check_ip_cidr: "check_ip P ip = Inr () \<longleftrightarrow> cidr_allows (allow_private P) ip"
proof (cases ip)
  case (V4 a)
  then show ?thesis
    by (simp add: check_ip_def cidr_allows_def nets_allow_def ensure_Inr v4_policy [symmetric])
next
  case (V6 v)
  show ?thesis
  proof (cases "to_ipv4_mapped v")
    case None
    then show ?thesis
      using V6 mapped_net(1) [of v]
      by (simp add: check_ip_def cidr_allows_def nets_allow_def ensure_Inr v6_policy [symmetric])
  next
    case (Some a)
    then show ?thesis
      using V6 mapped_net(1) [of v] mapped_net(2) [OF Some]
      by (simp add: check_ip_def cidr_allows_def nets_allow_def ensure_Inr v4_policy [symmetric])
  qed
qed

lemma check_addrs_cidr:
  "check_addrs P domain ips = Inr () \<longleftrightarrow> (\<forall>ip \<in> set ips. cidr_allows (allow_private P) ip)"
  by (induction ips) (auto simp: check_ip_cidr [symmetric] split: sum.splits)

lemma lower_localhost: "eq_ignore_ascii_case d ''localhost'' \<longleftrightarrow> to_ascii_lowercase d = ''localhost''"
proof -
  have "to_ascii_lowercase ''localhost'' = ''localhost''" by code_simp
  then show ?thesis by (simp add: eq_ignore_ascii_case_def)
qed

text \<open>What the synchronous check lets through: a name is only refused when it is localhost.\<close>

definition literal_allowed :: "bool \<Rightarrow> url_host \<Rightarrow> bool" where
  "literal_allowed priv h = (case h of
       Domain d \<Rightarrow> to_ascii_lowercase d = ''localhost'' \<longrightarrow> priv
     | Ipv4Host a \<Rightarrow> cidr_allows priv (V4 a)
     | Ipv6Host a \<Rightarrow> cidr_allows priv (V6 a))"

lemma check_host_ok: "check_host P host = Inr () \<longleftrightarrow> (\<exists>h. host = Some h \<and> literal_allowed (allow_private P) h)"
  by (auto simp: check_host_def literal_allowed_def result_simps check_ip_cidr lower_localhost
      split: option.splits url_host.splits)

lemma validate_url_sync_ok:
  "validate_url_sync parse P s = Inr u \<longleftrightarrow>
     parse s = Some u \<and> url_scheme u \<in> {''http'', ''https''}
     \<and> (\<exists>port h. url_port u = Some port \<and> port \<notin> set (own_rpc_ports P) \<and> url_host_of u = Some h
         \<and> literal_allowed (allow_private P) h)"
proof -
  have "bind_ok (check_host P host) (\<lambda>_. Inr v) = Inr u \<longleftrightarrow> check_host P host = Inr () \<and> v = u" for host v
    by (auto simp: bind_ok_Inr)
  then show ?thesis
    unfolding validate_url_sync_def ok_or_Inr ensure_Inr by (auto simp: check_host_ok)
qed

lemma check_names_ok:
  assumes "url_host_of u = Some h" and "url_port u = Some port"
  shows "literal_allowed (allow_private P) h \<and> check_names lookup P u = Inr ()
    \<longleftrightarrow> host_allowed lookup (allow_private P) port h"
proof (cases h)
  case (Domain d)
  then show ?thesis
    using assms
    by (cases "lookup (to_ascii_lowercase d) port")
      (auto simp: literal_allowed_def check_names_def host_allowed_def Let_def result_simps check_addrs_cidr ends_with_def)
qed (use assms in \<open>simp_all add: literal_allowed_def check_names_def host_allowed_def\<close>)

lemma validate_url_ok:
  "validate_url parse lookup P s = Inr () \<longleftrightarrow>
     (\<exists>u port h. parse s = Some u \<and> url_scheme u \<in> {''http'', ''https''} \<and> url_port u = Some port
        \<and> port \<notin> set (own_rpc_ports P) \<and> url_host_of u = Some h \<and> host_allowed lookup (allow_private P) port h)"
proof -
  have "validate_url parse lookup P s = Inr ()
      \<longleftrightarrow> (\<exists>u. validate_url_sync parse P s = Inr u \<and> check_names lookup P u = Inr ())"
    by (simp add: validate_url_def bind_ok_Inr)
  moreover have "validate_url_sync parse P s = Inr u \<and> check_names lookup P u = Inr () \<longleftrightarrow>
      (\<exists>port h. parse s = Some u \<and> url_scheme u \<in> {''http'', ''https''} \<and> url_port u = Some port
          \<and> port \<notin> set (own_rpc_ports P) \<and> url_host_of u = Some h \<and> host_allowed lookup (allow_private P) port h)" for u
    unfolding validate_url_sync_ok using check_names_ok [of u _ _ P lookup] by blast
  ultimately show ?thesis by simp
qed

text \<open>C21: the policy of the chain node refines the networks it documents. An address passes exactly
  when its number lies in none of the blocks that are always forbidden and, unless private
  addresses are allowed, in none of the private blocks, an IPv4-mapped address being judged by its
  last 32 bits. A URL is accepted for registration exactly when it parses to http or https with a
  port that is not the node's own, and its host is an allowed literal, localhost on a development
  chain, an anonymous service, or a name that resolves to at least one address and to allowed
  addresses only.
\<close>

theorem endpoint_policy_spec:
  "(check_ip P ip = Inr () \<longleftrightarrow> cidr_allows (allow_private P) ip)
   \<and> (validate_url parse lookup P s = Inr () \<longleftrightarrow>
       (\<exists>u port h. parse s = Some u \<and> url_scheme u \<in> {''http'', ''https''} \<and> url_port u = Some port
          \<and> port \<notin> set (own_rpc_ports P) \<and> url_host_of u = Some h \<and> host_allowed lookup (allow_private P) port h))"
  by (simp add: check_ip_cidr validate_url_ok)

end
