(* ===== verification/Node_Registry.thy ===== *)
theory Node_Registry
  imports Endpoint_Policy Pow
begin

text \<open>
  The list of storage nodes a chain node knows
  (\<open>src/apps/blockchain/node/src/rpc/mod.rs\<close>): registration as heartbeat, eviction of the
  oldest entry, the rate limit per operator, liveness, and the choice of a node for a fragment. The
  clock is an argument. The hash map of the rate limit is the list of its entries in iteration
  order; an insertion may reorder it in any way, which is the parameter \<open>shuffle\<close>.
\<close>

subsection \<open>Entries\<close>

record registration_proof =
  rp_operator :: bytes
  rp_timestamp :: nat
  rp_signature :: bytes

record registered_node =
  rn_endpoint :: string
  rn_node_id :: "string option"
  rn_registered_at :: nat
  rn_is_online :: bool
  rn_last_health_check :: nat
  rn_latency_ms :: "nat option"
  rn_proof :: "registration_proof option"

definition new_node :: "nat \<Rightarrow> string \<Rightarrow> registered_node" where
  "new_node now endpoint = \<lparr>rn_endpoint = endpoint, rn_node_id = None, rn_registered_at = now, rn_is_online = True,
     rn_last_health_check = now, rn_latency_ms = None, rn_proof = None\<rparr>"

record node_registry =
  rg_nodes :: "registered_node list"
  rg_max_size :: nat
  rg_last_register :: "(bytes \<times> nat) list"

definition default_max_registry_size :: nat where "default_max_registry_size = 10000"
definition min_reregister_interval :: nat where "min_reregister_interval = 30"
definition max_rate_limit_entries :: nat where "max_rate_limit_entries = 10000"
definition node_stale_after :: nat where "node_stale_after = 180"

datatype register_outcome = Added | Refreshed | Unchanged

definition new_registry :: node_registry where
  "new_registry = \<lparr>rg_nodes = [], rg_max_size = default_max_registry_size, rg_last_register = []\<rparr>"

subsection \<open>Operations\<close>

text \<open>\<open>Iterator::min_by_key\<close>: the first least element.\<close>

fun min_by_key :: "('a \<Rightarrow> nat) \<Rightarrow> 'a list \<Rightarrow> 'a option" where
  "min_by_key f [] = None"
| "min_by_key f (x # xs) =
     (case min_by_key f xs of None \<Rightarrow> Some x | Some y \<Rightarrow> Some (if f y < f x then y else x))"

definition remove_key :: "'k \<Rightarrow> ('k \<times> 'v) list \<Rightarrow> ('k \<times> 'v) list" where
  "remove_key k xs = filter (\<lambda>(k', _). k' \<noteq> k) xs"

lemma min_by_key_None [simp]: "min_by_key f xs = None \<longleftrightarrow> xs = []"
  by (cases xs) (auto split: option.splits)

lemma min_by_key_in: "min_by_key f xs = Some x \<Longrightarrow> x \<in> set xs \<and> (\<forall>y \<in> set xs. f x \<le> f y)"
proof (induction xs arbitrary: x)
  case (Cons a xs)
  show ?case
  proof (cases "min_by_key f xs")
    case (Some y)
    then show ?thesis using Cons.IH [OF Some] Cons.prems by (auto split: if_splits)
  qed (use Cons.prems in auto)
qed simp

lemma remove_key_shorter: "(k, v) \<in> set xs \<Longrightarrow> length (remove_key k xs) < length xs"
  unfolding remove_key_def by (rule length_filter_less [of "(k, v)"]) auto

text \<open>The loop that makes room in the rate limit map.\<close>

function evict_rates :: "(bytes \<times> nat) list \<Rightarrow> (bytes \<times> nat) list" where
  "evict_rates xs =
     (if max_rate_limit_entries \<le> length xs
      then case min_by_key snd xs of None \<Rightarrow> xs | Some (k, _) \<Rightarrow> evict_rates (remove_key k xs)
      else xs)"
  by pat_completeness auto

termination
  by (relation "measure length") (auto dest!: min_by_key_in intro: remove_key_shorter)

declare evict_rates.simps [simp del]

type_synonym shuffle = "(bytes \<times> nat) list \<Rightarrow> (bytes \<times> nat) list"

text \<open>\<open>Inl\<close> is the number of seconds to wait; the pruned map is kept also then.\<close>

definition check_and_record_operator_rate
  :: "shuffle \<Rightarrow> bytes \<Rightarrow> nat \<Rightarrow> node_registry \<Rightarrow> node_registry \<times> (nat + unit)" where
  "check_and_record_operator_rate shuffle operator now R =
     (let recent = filter (\<lambda>(_, previous). now - previous < min_reregister_interval) (rg_last_register R)
      in case map_of recent operator of
           Some previous \<Rightarrow>
             if now - previous < min_reregister_interval
             then (R\<lparr>rg_last_register := recent\<rparr>, Inl (min_reregister_interval - (now - previous)))
             else (R\<lparr>rg_last_register := shuffle ((operator, now) # remove_key operator (evict_rates recent))\<rparr>, Inr ())
         | None \<Rightarrow> (R\<lparr>rg_last_register := shuffle ((operator, now) # remove_key operator (evict_rates recent))\<rparr>, Inr ()))"

primrec update_first :: "('a \<Rightarrow> bool) \<Rightarrow> ('a \<Rightarrow> 'a) \<Rightarrow> 'a list \<Rightarrow> 'a list" where
  "update_first P f [] = []"
| "update_first P f (x # xs) = (if P x then f x # xs else x # update_first P f xs)"

primrec remove_first :: "'a \<Rightarrow> 'a list \<Rightarrow> 'a list" where
  "remove_first x [] = []"
| "remove_first x (y # ys) = (if x = y then ys else y # remove_first x ys)"

definition refresh_node :: "registered_node \<Rightarrow> registered_node \<Rightarrow> registered_node" where
  "refresh_node node existing =
     (let online = existing\<lparr>rn_is_online := True\<rparr>
      in if rn_last_health_check existing < rn_last_health_check node
         then online\<lparr>rn_last_health_check := rn_last_health_check node,
                rn_proof := (if rn_proof node \<noteq> None then rn_proof node else rn_proof existing)\<rparr>
         else online)"

definition register_outcome :: "registered_node \<Rightarrow> node_registry \<Rightarrow> node_registry \<times> register_outcome" where
  "register_outcome node R =
     (case find (\<lambda>n. rn_endpoint n = rn_endpoint node) (rg_nodes R) of
        Some existing \<Rightarrow>
          (R\<lparr>rg_nodes := update_first (\<lambda>n. rn_endpoint n = rn_endpoint node) (refresh_node node) (rg_nodes R)\<rparr>,
           if rn_last_health_check existing < rn_last_health_check node then Refreshed else Unchanged)
      | None \<Rightarrow>
          (let kept = (if rg_max_size R \<le> length (rg_nodes R)
                       then case min_by_key rn_registered_at (rg_nodes R) of
                              None \<Rightarrow> rg_nodes R | Some oldest \<Rightarrow> remove_first oldest (rg_nodes R)
                       else rg_nodes R)
           in (R\<lparr>rg_nodes := kept @ [node]\<rparr>, Added)))"

definition register_node :: "registered_node \<Rightarrow> node_registry \<Rightarrow> node_registry \<times> bool" where
  "register_node node R = (let (R', outcome) = register_outcome node R in (R', outcome = Added))"

definition is_live :: "registered_node \<Rightarrow> nat \<Rightarrow> bool" where
  "is_live node now \<longleftrightarrow> rn_is_online node \<and> now - rn_last_health_check node \<le> node_stale_after"

definition online_nodes :: "nat \<Rightarrow> node_registry \<Rightarrow> registered_node list" where
  "online_nodes now R = filter (\<lambda>n. is_live n now) (rg_nodes R)"

definition online_node_count :: "nat \<Rightarrow> node_registry \<Rightarrow> nat" where
  "online_node_count now R = length (online_nodes now R)"

text \<open>The random order is a parameter.\<close>

definition online_nodes_shuffled :: "(registered_node list \<Rightarrow> registered_node list) \<Rightarrow> nat \<Rightarrow> node_registry \<Rightarrow> registered_node list" where
  "online_nodes_shuffled shuffled now R = shuffled (online_nodes now R)"

definition le_u64 :: "bytes \<Rightarrow> nat" where
  "le_u64 bs = foldr (\<lambda>b acc. unat b + 256 * acc) (take 8 bs) 0"

text \<open>\<open>usize\<close> has 64 bits: the sum of seed and index wraps.\<close>

definition fragment_slot :: "bytes \<Rightarrow> nat \<Rightarrow> nat \<Rightarrow> nat" where
  "fragment_slot merkle_root index n = ((le_u64 merkle_root + index) mod 2 ^ 64) mod n"

definition select_node_for_fragment :: "nat \<Rightarrow> bytes \<Rightarrow> nat \<Rightarrow> node_registry \<Rightarrow> registered_node option" where
  "select_node_for_fragment now merkle_root index R =
     (let online = online_nodes now R
      in if online = [] then None else Some (online ! fragment_slot merkle_root index (length online)))"

subsection \<open>Laws of the list of nodes\<close>

definition endpoints :: "node_registry \<Rightarrow> string list" where
  "endpoints R = map rn_endpoint (rg_nodes R)"

text \<open>What the registry knows of an endpoint: the time of its last heartbeat.\<close>

definition heard :: "node_registry \<Rightarrow> string \<rightharpoonup> nat" where
  "heard R = map_of (map (\<lambda>n. (rn_endpoint n, rn_last_health_check n)) (rg_nodes R))"

lemma refresh_node_simps [simp]:
  "rn_endpoint (refresh_node n e) = rn_endpoint e"
  "rn_last_health_check (refresh_node n e) = max (rn_last_health_check n) (rn_last_health_check e)"
  "rn_registered_at (refresh_node n e) = rn_registered_at e"
  by (simp_all add: refresh_node_def Let_def max_def)

lemma map_update_first: "(\<And>x. P x \<Longrightarrow> g (f x) = g x) \<Longrightarrow> map g (update_first P f xs) = map g xs"
  by (induction xs) auto

lemma length_update_first [simp]: "length (update_first P f xs) = length xs"
  by (induction xs) auto

lemma set_update_first: "y \<in> set (update_first P f xs) \<Longrightarrow> y \<in> set xs \<or> (\<exists>x \<in> set xs. P x \<and> y = f x)"
  by (induction xs) (auto split: if_splits)

lemma set_remove_first_subset: "set (remove_first x xs) \<subseteq> set xs"
  by (induction xs) auto

lemma length_remove_first: "x \<in> set xs \<Longrightarrow> Suc (length (remove_first x xs)) = length xs"
  by (induction xs) auto

lemma distinct_remove_first: "distinct (map g xs) \<Longrightarrow> distinct (map g (remove_first x xs))"
  by (induction xs) (use set_remove_first_subset in fastforce)+

lemma find_endpoint:
  "find (\<lambda>n. rn_endpoint n = e) ns = None \<longleftrightarrow> e \<notin> rn_endpoint ` set ns"
  by (induction ns) auto

lemma heard_find:
  "heard R e = map_option rn_last_health_check (find (\<lambda>n. rn_endpoint n = e) (rg_nodes R))"
proof -
  have "map_of (map (\<lambda>n. (rn_endpoint n, rn_last_health_check n)) ns) e
      = map_option rn_last_health_check (find (\<lambda>n. rn_endpoint n = e) ns)" for ns
    by (induction ns) auto
  then show ?thesis by (simp add: heard_def)
qed

lemma find_update_first:
  "find (\<lambda>n. rn_endpoint n = e') (update_first (\<lambda>n. rn_endpoint n = e) (refresh_node node) ns)
    = (if e' = e then map_option (refresh_node node) (find (\<lambda>n. rn_endpoint n = e) ns)
       else find (\<lambda>n. rn_endpoint n = e') ns)"
  by (induction ns) auto

text \<open>
  A registration tells whether the heartbeat is news. When there is room, nothing else is forgotten.
\<close>

lemma register_outcome_heard:
  assumes "register_outcome node R = (R', outcome)"
  shows "outcome = Added \<longleftrightarrow> heard R (rn_endpoint node) = None"
    and "outcome = Refreshed \<longleftrightarrow> (\<exists>t. heard R (rn_endpoint node) = Some t \<and> t < rn_last_health_check node)"
    and "outcome = Unchanged \<longleftrightarrow> (\<exists>t. heard R (rn_endpoint node) = Some t \<and> rn_last_health_check node \<le> t)"
  using assms by (auto simp: register_outcome_def heard_find Let_def split: option.splits if_splits)

lemma register_outcome_room:
  assumes "register_outcome node R = (R', outcome)"
    and "heard R (rn_endpoint node) = None \<Longrightarrow> length (rg_nodes R) < rg_max_size R"
  shows "heard R' = (heard R)(rn_endpoint node \<mapsto>
           (case heard R (rn_endpoint node) of None \<Rightarrow> rn_last_health_check node
              | Some t \<Rightarrow> max (rn_last_health_check node) t))"
proof (cases "find (\<lambda>n. rn_endpoint n = rn_endpoint node) (rg_nodes R)")
  case None
  then have "heard R (rn_endpoint node) = None" by (simp add: heard_find)
  moreover have "rg_nodes R' = rg_nodes R @ [node]"
    using assms None calculation by (auto simp: register_outcome_def Let_def)
  moreover have "dom (heard R) = rn_endpoint ` set (rg_nodes R)"
    by (force simp: heard_def dom_map_of_conv_image_fst)
  ultimately show ?thesis
    by (auto simp: heard_def map_add_def fun_eq_iff split: option.splits)
next
  case (Some existing)
  then show ?thesis
    using assms(1)
    by (auto simp: register_outcome_def heard_find find_update_first fun_eq_iff)
qed

text \<open>The invariant of the node list: one entry per endpoint, at most \<open>max_size\<close> of them.\<close>

definition registry_ok :: "node_registry \<Rightarrow> bool" where
  "registry_ok R \<longleftrightarrow> distinct (endpoints R) \<and> length (rg_nodes R) \<le> rg_max_size R
     \<and> length (rg_last_register R) \<le> max_rate_limit_entries"

lemma register_outcome_ok:
  assumes "register_outcome node R = (R', outcome)" and "registry_ok R" and "0 < rg_max_size R"
  shows "registry_ok R'" and "rg_max_size R' = rg_max_size R" and "rg_last_register R' = rg_last_register R"
    and "n \<in> set (rg_nodes R') \<Longrightarrow> n = node \<or> n \<in> set (rg_nodes R)
           \<or> (\<exists>e \<in> set (rg_nodes R). rn_endpoint e = rn_endpoint node \<and> n = refresh_node node e)"
proof -
  let ?ns = "rg_nodes R"
  show "rg_max_size R' = rg_max_size R" "rg_last_register R' = rg_last_register R"
    using assms(1) by (auto simp: register_outcome_def Let_def split: option.splits)
  have "distinct (map rn_endpoint (rg_nodes R')) \<and> length (rg_nodes R') \<le> rg_max_size R
      \<and> (\<forall>n \<in> set (rg_nodes R'). n = node \<or> n \<in> set ?ns
           \<or> (\<exists>e \<in> set ?ns. rn_endpoint e = rn_endpoint node \<and> n = refresh_node node e))"
  proof (cases "find (\<lambda>n. rn_endpoint n = rn_endpoint node) ?ns")
    case None
    define kept where "kept = (if rg_max_size R \<le> length ?ns
        then case min_by_key rn_registered_at ?ns of None \<Rightarrow> ?ns | Some oldest \<Rightarrow> remove_first oldest ?ns else ?ns)"
    have R': "rg_nodes R' = kept @ [node]"
      using assms(1) None by (simp add: register_outcome_def kept_def Let_def) auto
    have kept: "set kept \<subseteq> set ?ns" "distinct (map rn_endpoint kept)"
      using assms(2)
      by (auto simp: kept_def registry_ok_def endpoints_def distinct_remove_first split: option.splits
          dest: subsetD [OF set_remove_first_subset])
    have "length kept < rg_max_size R"
    proof (cases "rg_max_size R \<le> length ?ns")
      case True
      then have "length ?ns = rg_max_size R" "?ns \<noteq> []" using assms(2,3) by (auto simp: registry_ok_def)
      then obtain oldest where "min_by_key rn_registered_at ?ns = Some oldest" by fastforce
      then show ?thesis
        using True \<open>length ?ns = rg_max_size R\<close> min_by_key_in [of rn_registered_at ?ns oldest]
          length_remove_first [of oldest ?ns] by (simp add: kept_def)
    qed (simp add: kept_def)
    then show ?thesis using R' kept None by (auto simp: find_endpoint)
  next
    case (Some existing)
    then have "rg_nodes R' = update_first (\<lambda>n. rn_endpoint n = rn_endpoint node) (refresh_node node) ?ns"
      using assms(1) by (auto simp: register_outcome_def)
    then show ?thesis
      using assms(2) by (auto simp: map_update_first registry_ok_def endpoints_def dest: set_update_first)
  qed
  then show "registry_ok R'" "n \<in> set (rg_nodes R') \<Longrightarrow> n = node \<or> n \<in> set (rg_nodes R)
           \<or> (\<exists>e \<in> set (rg_nodes R). rn_endpoint e = rn_endpoint node \<and> n = refresh_node node e)"
    using assms(2) \<open>rg_max_size R' = rg_max_size R\<close> \<open>rg_last_register R' = rg_last_register R\<close>
    by (auto simp: registry_ok_def endpoints_def)
qed

subsection \<open>The rate limit\<close>

definition permutes_entries :: "shuffle \<Rightarrow> bool" where
  "permutes_entries shuffle \<longleftrightarrow> (\<forall>xs. mset (shuffle xs) = mset xs)"

lemma evict_rates_shorter: "length (evict_rates xs) < max_rate_limit_entries"
proof (induction xs rule: evict_rates.induct)
  case (1 xs)
  show ?case
  proof (cases "max_rate_limit_entries \<le> length xs")
    case True
    then have "xs \<noteq> []" by (auto simp: max_rate_limit_entries_def)
    then obtain k v where "min_by_key snd xs = Some (k, v)" by (metis min_by_key_None not_None_eq surj_pair)
    then show ?thesis using 1 [OF True] True by (subst evict_rates.simps) simp
  qed (subst evict_rates.simps, simp)
qed

lemma remove_key_length: "length (remove_key k xs) \<le> length xs"
  by (simp add: remove_key_def)

lemma recent_lookup:
  assumes "distinct (map fst xs)"
  shows "map_of (filter (\<lambda>(_, t). P t) xs) k = (case map_of xs k of Some t \<Rightarrow> if P t then Some t else None | None \<Rightarrow> None)"
  using assms
proof (induction xs)
  case (Cons x xs)
  then have "map_of xs (fst x) = None" by (simp add: map_of_eq_None_iff)
  with Cons show ?case by (cases x) (auto split: option.splits)
qed simp

lemma rate_limit_bound:
  assumes "check_and_record_operator_rate shuffle operator now R = (R', res)" and "permutes_entries shuffle"
    and "length (rg_last_register R) \<le> max_rate_limit_entries"
  shows "length (rg_last_register R') \<le> max_rate_limit_entries"
proof -
  let ?recent = "filter (\<lambda>(_, t). now - t < min_reregister_interval) (rg_last_register R)"
  have "length (shuffle xs) = length xs" for xs
    using assms(2) by (metis permutes_entries_def size_mset)
  moreover have "length (remove_key operator (evict_rates ?recent)) < max_rate_limit_entries"
    using remove_key_length evict_rates_shorter by (rule le_less_trans)
  moreover have "length ?recent \<le> max_rate_limit_entries"
    using assms(3) length_filter_le le_trans by blast
  ultimately show ?thesis
    using assms(1) unfolding check_and_record_operator_rate_def Let_def
    by (auto simp: Suc_le_eq split: option.splits if_splits)
qed

text \<open>
  An operator is refused exactly when its last accepted registration still on record is less than
  thirty seconds old, and an accepted one is on record from then on.
\<close>

lemma rate_limit_spec:
  assumes "check_and_record_operator_rate shuffle operator now R = (R', res)"
    and "distinct (map fst (rg_last_register R))" and "permutes_entries shuffle"
  shows "res = Inr () \<longleftrightarrow>
      (\<forall>t. map_of (rg_last_register R) operator = Some t \<longrightarrow> min_reregister_interval \<le> now - t)"
    and "res = Inr () \<Longrightarrow> (operator, now) \<in> set (rg_last_register R')"
    and "rg_nodes R' = rg_nodes R \<and> rg_max_size R' = rg_max_size R"
proof -
  let ?recent = "filter (\<lambda>(_, t). now - t < min_reregister_interval) (rg_last_register R)"
  have recent: "map_of ?recent operator = (case map_of (rg_last_register R) operator of
      Some t \<Rightarrow> if now - t < min_reregister_interval then Some t else None | None \<Rightarrow> None)"
    by (rule recent_lookup) (rule assms(2))
  have set_sh: "set (shuffle xs) = set xs" for xs
    using assms(3) by (metis permutes_entries_def set_mset_mset)
  show "res = Inr () \<longleftrightarrow>
      (\<forall>t. map_of (rg_last_register R) operator = Some t \<longrightarrow> min_reregister_interval \<le> now - t)"
    using assms(1) unfolding check_and_record_operator_rate_def Let_def recent
    by (auto split: option.splits if_splits)
  show "res = Inr () \<Longrightarrow> (operator, now) \<in> set (rg_last_register R')"
    using assms(1) unfolding check_and_record_operator_rate_def Let_def recent
    by (auto simp: set_sh split: option.splits if_splits)
  show "rg_nodes R' = rg_nodes R \<and> rg_max_size R' = rg_max_size R"
    using assms(1) unfolding check_and_record_operator_rate_def Let_def by (auto split: option.splits if_splits)
qed

subsection \<open>Spreading fragments\<close>

text \<open>
  The fragments of a post go to different nodes when there are at least as many live nodes as
  fragments and the sum of seed and index does not wrap.
\<close>

lemma fragment_slots_less:
  assumes "le_u64 root + leaves \<le> 2 ^ 64" and "leaves \<le> n" and "i < j" and "j < leaves"
  shows "fragment_slot root i n \<noteq> fragment_slot root j n"
proof
  assume "fragment_slot root i n = fragment_slot root j n"
  then have "(le_u64 root + j) mod n = (le_u64 root + i) mod n"
    using assms by (simp add: fragment_slot_def)
  then have "n dvd (le_u64 root + j) - (le_u64 root + i)"
    using assms(3) by (subst (asm) mod_eq_dvd_iff_nat) auto
  then show False using assms(2-4) by (auto dest: dvd_imp_le)
qed

lemma fragment_slots_distinct:
  assumes "le_u64 root + leaves \<le> 2 ^ 64" and "leaves \<le> n"
  shows "inj_on (\<lambda>i. fragment_slot root i n) {..<leaves}"
  by (rule linorder_inj_onI) (use fragment_slots_less [OF assms] in auto)

text \<open>When the sum wraps, two fragments of one post can land on the same node.\<close>

lemma fragment_slots_collide:
  "fragment_slot ([255, 255, 255, 255, 255, 255, 255, 255] @ rest) 0 5
     = fragment_slot ([255, 255, 255, 255, 255, 255, 255, 255] @ rest) 1 5"
proof -
  have "le_u64 ([255, 255, 255, 255, 255, 255, 255, 255] @ rest) = 2 ^ 64 - 1" by (simp add: le_u64_def)
  then show ?thesis by (simp add: fragment_slot_def)
qed

end
