(* ===== verification/Node_Gossip.thy ===== *)
theory Node_Gossip
  imports Node_Registry Node_Auth
begin

text \<open>
  How chain nodes learn of storage nodes: the registration RPC
  (\<open>register_endpoint\<close> in \<open>src/apps/blockchain/node/src/rpc/storage.rs\<close>) and the gossip
  service (\<open>src/apps/blockchain/node/src/gossip/mod.rs\<close>), event by event, and the network of
  such services. The SCALE codec, Sr25519, the URL parser and the resolver are parameters; the
  clock and the resolver are read anew at every event.
\<close>

subsection \<open>Messages and registrations\<close>

record gossip_info =
  gi_endpoint :: string
  gi_registered_at :: nat
  gi_latency_ms :: "nat option"
  gi_operator :: bytes
  gi_timestamp :: nat
  gi_signature :: bytes

datatype gossip_message = NodeRegistered gossip_info | SyncRequest | SyncResponse "gossip_info list"

record gossip_env =
  ge_decode :: "bytes \<Rightarrow> gossip_message option"
  ge_encode :: "gossip_message \<Rightarrow> bytes"
  ge_verify :: "bytes \<Rightarrow> bytes \<Rightarrow> bytes \<Rightarrow> bool" \<comment> \<open>public key, message, signature\<close>
  ge_parse :: url_parser
  ge_policy :: endpoint_policy
  ge_hex :: "string \<Rightarrow> bytes option"

definition max_timestamp_skew :: nat where "max_timestamp_skew = 300"
definition max_connections :: nat where "max_connections = 128"
definition max_sync_nodes :: nat where "max_sync_nodes = 256"

definition abs_diff :: "nat \<Rightarrow> nat \<Rightarrow> nat" where
  "abs_diff a b = (if b < a then a - b else b - a)"

definition registration_message :: "string \<Rightarrow> nat \<Rightarrow> bytes" where
  "registration_message url timestamp =
     map (word_of_nat \<circ> of_char) (''register_endpoint:'' @ url @ '':'' @ decimal timestamp)"

definition verify_registration_signature :: "gossip_env \<Rightarrow> string \<Rightarrow> bytes \<Rightarrow> nat \<Rightarrow> bytes \<Rightarrow> bool" where
  "verify_registration_signature E url operator timestamp signature \<longleftrightarrow>
     length signature = 64 \<and> ge_verify E operator (registration_message url timestamp) signature"

text \<open>The entry a message stands for; its time is the unsigned \<open>registered_at\<close> of the message.\<close>

definition node_of_info :: "gossip_info \<Rightarrow> registered_node" where
  "node_of_info i = \<lparr>rn_endpoint = gi_endpoint i, rn_node_id = None, rn_registered_at = gi_registered_at i,
     rn_is_online = True, rn_last_health_check = gi_registered_at i, rn_latency_ms = gi_latency_ms i,
     rn_proof = Some \<lparr>rp_operator = gi_operator i, rp_timestamp = gi_timestamp i, rp_signature = gi_signature i\<rparr>\<rparr>"

definition from_node :: "registered_node \<Rightarrow> gossip_info option" where
  "from_node n = (case rn_proof n of None \<Rightarrow> None | Some p \<Rightarrow>
     if length (rp_signature p) = 64
     then Some \<lparr>gi_endpoint = rn_endpoint n, gi_registered_at = rn_registered_at n, gi_latency_ms = rn_latency_ms n,
                gi_operator = rp_operator p, gi_timestamp = rp_timestamp p, gi_signature = rp_signature p\<rparr>
     else None)"

subsection \<open>The gossip service\<close>

record 'p gossip_state =
  gs_registry :: node_registry
  gs_peers :: "'p list"

definition relay_except :: "'p \<Rightarrow> bytes \<Rightarrow> 'p list \<Rightarrow> ('p \<times> bytes) list" where
  "relay_except from_peer raw peers = map (\<lambda>p. (p, raw)) (filter (\<lambda>p. p \<noteq> from_peer) peers)"

definition send_sync_response_to :: "gossip_env \<Rightarrow> 'p \<Rightarrow> node_registry \<Rightarrow> ('p \<times> bytes) list" where
  "send_sync_response_to E peer R =
     (let nodes = take max_sync_nodes (List.map_filter from_node (rg_nodes R))
      in if nodes = [] then [] else [(peer, ge_encode E (SyncResponse nodes))])"

text \<open>The checks both kinds of message make on an announced node.\<close>

definition info_valid :: "gossip_env \<Rightarrow> resolver \<Rightarrow> gossip_info \<Rightarrow> bool" where
  "info_valid E lookup i \<longleftrightarrow>
     verify_registration_signature E (gi_endpoint i) (gi_operator i) (gi_timestamp i) (gi_signature i)
     \<and> validate_url (ge_parse E) lookup (ge_policy E) (gi_endpoint i) = Inr ()"

fun sync_nodes :: "gossip_env \<Rightarrow> resolver \<Rightarrow> gossip_info list \<Rightarrow> node_registry \<Rightarrow> node_registry" where
  "sync_nodes E lookup [] R = R"
| "sync_nodes E lookup (i # is) R =
     sync_nodes E lookup is (if info_valid E lookup i then fst (register_node (node_of_info i) R) else R)"

definition handle_notification
  :: "gossip_env \<Rightarrow> nat \<Rightarrow> resolver \<Rightarrow> 'p \<Rightarrow> bytes \<Rightarrow> 'p gossip_state \<Rightarrow> 'p gossip_state \<times> ('p \<times> bytes) list" where
  "handle_notification E now lookup peer raw S =
     (case ge_decode E raw of
        None \<Rightarrow> (S, [])
      | Some (NodeRegistered i) \<Rightarrow>
          if max_timestamp_skew < abs_diff now (gi_timestamp i) then (S, [])
          else if \<not> info_valid E lookup i then (S, [])
          else (case register_outcome (node_of_info i) (gs_registry S) of
              (R, Unchanged) \<Rightarrow> (S\<lparr>gs_registry := R\<rparr>, [])
            | (R, _) \<Rightarrow> (S\<lparr>gs_registry := R\<rparr>, relay_except peer raw (gs_peers S)))
      | Some SyncRequest \<Rightarrow> (S, send_sync_response_to E peer (gs_registry S))
      | Some (SyncResponse nodes) \<Rightarrow>
          if max_sync_nodes < length nodes then (S, [])
          else (S\<lparr>gs_registry := sync_nodes E lookup nodes (gs_registry S)\<rparr>, []))"

definition broadcast_node_registered
  :: "gossip_env \<Rightarrow> string \<Rightarrow> nat \<Rightarrow> nat option \<Rightarrow> registration_proof \<Rightarrow> 'p list \<Rightarrow> ('p \<times> bytes) list" where
  "broadcast_node_registered E endpoint registered_at latency_ms proof peers =
     (if length (rp_signature proof) \<noteq> 64 then []
      else map (\<lambda>p. (p, ge_encode E (NodeRegistered \<lparr>gi_endpoint = endpoint, gi_registered_at = registered_at,
             gi_latency_ms = latency_ms, gi_operator = rp_operator proof, gi_timestamp = rp_timestamp proof,
             gi_signature = rp_signature proof\<rparr>))) peers)"

text \<open>The answer to \<open>ValidateInboundSubstream\<close>.\<close>

definition validate_inbound :: "'p gossip_state \<Rightarrow> bool" where
  "validate_inbound S \<longleftrightarrow> length (gs_peers S) < max_connections"

datatype 'p gossip_event = Received 'p bytes | StreamOpened 'p | StreamClosed 'p
  | BroadcastRegistration string nat "nat option" registration_proof

fun on_event
  :: "gossip_env \<Rightarrow> nat \<Rightarrow> resolver \<Rightarrow> 'p gossip_event \<Rightarrow> 'p gossip_state \<Rightarrow> 'p gossip_state \<times> ('p \<times> bytes) list" where
  "on_event E now lookup (Received peer raw) S = handle_notification E now lookup peer raw S"
| "on_event E now lookup (StreamOpened peer) S =
     (S\<lparr>gs_peers := List.insert peer (gs_peers S)\<rparr>, send_sync_response_to E peer (gs_registry S))"
| "on_event E now lookup (StreamClosed peer) S = (S\<lparr>gs_peers := filter (\<lambda>p. p \<noteq> peer) (gs_peers S)\<rparr>, [])"
| "on_event E now lookup (BroadcastRegistration endpoint registered_at latency_ms proof) S =
     (S, broadcast_node_registered E endpoint registered_at latency_ms proof (gs_peers S))"

subsection \<open>The registration RPC\<close>

record registration_request =
  rq_url :: string
  rq_operator :: string
  rq_timestamp :: nat
  rq_signature :: string

datatype registration_error = UrlRejected endpoint_error | TimestampSkew nat | OperatorHex | OperatorLength
  | SignatureHex | SignatureLength | SignatureRejected | OperatorRateLimited nat

definition url_check :: "(endpoint_error, 'a) result \<Rightarrow> (registration_error, 'a) result" where
  "url_check r = (case r of Inr x \<Rightarrow> Inr x | Inl (Err e) \<Rightarrow> Inl (Err (UrlRejected e)) | Inl Trap \<Rightarrow> Inl Trap)"

lemma url_check_Inr [result_simps]: "url_check r = Inr x \<longleftrightarrow> r = Inr x"
  by (auto simp: url_check_def split: sum.splits failure.splits)

text \<open>The checks before the registry is locked.\<close>

definition check_registration
  :: "gossip_env \<Rightarrow> nat \<Rightarrow> resolver \<Rightarrow> registration_request \<Rightarrow> (registration_error, bytes \<times> bytes) result" where
  "check_registration E now lookup q =
     bind_ok (url_check (validate_url_sync (ge_parse E) (ge_policy E) (rq_url q))) (\<lambda>_.
     ensure (abs_diff now (rq_timestamp q) \<le> max_timestamp_skew) (TimestampSkew (abs_diff now (rq_timestamp q))) (
     ok_or (ge_hex E (rq_operator q)) OperatorHex (\<lambda>operator.
     ensure (length operator = 32) OperatorLength (
     ok_or (ge_hex E (rq_signature q)) SignatureHex (\<lambda>signature.
     ensure (length signature = 64) SignatureLength (
     ensure (verify_registration_signature E (rq_url q) operator (rq_timestamp q) signature) SignatureRejected (
     bind_ok (url_check (validate_url (ge_parse E) lookup (ge_policy E) (rq_url q))) (\<lambda>_. Inr (operator, signature)))))))))"

text \<open>
  The registry after the call, the answer, and the broadcast the call leaves for the gossip service.
  \<open>now'\<close> is the clock when the entry is made.
\<close>

definition register_endpoint
  :: "gossip_env \<Rightarrow> shuffle \<Rightarrow> nat \<Rightarrow> nat \<Rightarrow> resolver \<Rightarrow> registration_request \<Rightarrow> node_registry
      \<Rightarrow> node_registry \<times> (registration_error, bool) result \<times> 'p gossip_event list" where
  "register_endpoint E shuffle now now' lookup q R =
     (case check_registration E now lookup q of
        Inl e \<Rightarrow> (R, Inl e, [])
      | Inr (operator, signature) \<Rightarrow>
          (case check_and_record_operator_rate shuffle operator now R of
             (R1, Inl wait) \<Rightarrow> (R1, Inl (Err (OperatorRateLimited wait)), [])
           | (R1, Inr _) \<Rightarrow>
               (let proof = \<lparr>rp_operator = operator, rp_timestamp = rq_timestamp q, rp_signature = signature\<rparr>;
                    node = (new_node now' (rq_url q))\<lparr>rn_proof := Some proof\<rparr>;
                    (R2, outcome) = register_outcome node R1
                in (R2, Inr (outcome = Added),
                    if outcome \<noteq> Unchanged
                    then [BroadcastRegistration (rq_url q) (rn_registered_at node) (rn_latency_ms node) proof] else []))))"

subsection \<open>Every entry is signed and allowed\<close>

text \<open>
  The entry is signed, and its URL passed both stages of the endpoint policy under one of the answers
  \<open>L\<close> that the resolver gave in the past.
\<close>

definition genuine :: "gossip_env \<Rightarrow> resolver set \<Rightarrow> registered_node \<Rightarrow> bool" where
  "genuine E L n \<longleftrightarrow> (\<exists>p. rn_proof n = Some p
     \<and> verify_registration_signature E (rn_endpoint n) (rp_operator p) (rp_timestamp p) (rp_signature p))
     \<and> (\<exists>lookup \<in> L. validate_url (ge_parse E) lookup (ge_policy E) (rn_endpoint n) = Inr ())"

definition gossip_inv :: "gossip_env \<Rightarrow> resolver set \<Rightarrow> node_registry \<Rightarrow> bool" where
  "gossip_inv E L R \<longleftrightarrow> registry_ok R \<and> rg_max_size R = default_max_registry_size \<and> (\<forall>n \<in> set (rg_nodes R). genuine E L n)"

lemma genuine_sync: "genuine E L n \<Longrightarrow> \<exists>u. validate_url_sync (ge_parse E) (ge_policy E) (rn_endpoint n) = Inr u"
  by (auto simp: genuine_def validate_url_def bind_ok_Inr)

lemma genuine_info: "info_valid E lookup i \<Longrightarrow> lookup \<in> L \<Longrightarrow> genuine E L (node_of_info i)"
  by (auto simp: info_valid_def genuine_def node_of_info_def)

lemma genuine_refresh:
  "genuine E L n \<Longrightarrow> genuine E L e \<Longrightarrow> rn_endpoint e = rn_endpoint n \<Longrightarrow> genuine E L (refresh_node n e)"
  by (auto simp: genuine_def refresh_node_def Let_def)

lemma gossip_inv_register:
  assumes "register_outcome node R = (R', outcome)" and "gossip_inv E L R" and "genuine E L node"
  shows "gossip_inv E L R'"
proof -
  have room: "0 < rg_max_size R" "registry_ok R"
    using assms(2) by (simp_all add: gossip_inv_def default_max_registry_size_def)
  note ok = register_outcome_ok [OF assms(1) room(2,1)]
  have "genuine E L n" if "n \<in> set (rg_nodes R')" for n
    using ok(4) [OF that] assms(2,3) genuine_refresh by (auto simp: gossip_inv_def)
  then show ?thesis using ok(1,2) assms(2) by (simp add: gossip_inv_def)
qed

lemma gossip_inv_sync: "gossip_inv E L R \<Longrightarrow> lookup \<in> L \<Longrightarrow> gossip_inv E L (sync_nodes E lookup is R)"
proof (induction "is" arbitrary: R)
  case (Cons i "is")
  obtain R' outcome where r: "register_outcome (node_of_info i) R = (R', outcome)" by fastforce
  then have "info_valid E lookup i \<Longrightarrow> gossip_inv E L R'"
    using gossip_inv_register [OF r Cons.prems(1)] genuine_info Cons.prems(2) by blast
  with Cons r show ?case by (simp add: register_node_def)
qed simp

lemma gossip_inv_event:
  assumes "gossip_inv E L (gs_registry S)" and "lookup \<in> L"
  shows "gossip_inv E L (gs_registry (fst (on_event E now lookup ev S)))"
proof (cases ev)
  case (Received peer raw)
  show ?thesis
  proof (cases "ge_decode E raw")
    case (Some m)
    show ?thesis
    proof (cases m)
      case (NodeRegistered i)
      obtain R' outcome where r: "register_outcome (node_of_info i) (gs_registry S) = (R', outcome)" by fastforce
      then have "info_valid E lookup i \<Longrightarrow> gossip_inv E L R'"
        using gossip_inv_register [OF r assms(1)] genuine_info assms(2) by blast
      then show ?thesis
        using assms r Received Some NodeRegistered
        by (auto simp: handle_notification_def split: register_outcome.split)
    qed (use assms Received Some in \<open>auto simp: handle_notification_def gossip_inv_sync\<close>)
  qed (use assms Received in \<open>simp add: handle_notification_def\<close>)
qed (use assms in simp_all)

lemma check_registration_ok:
  assumes "check_registration E now lookup q = Inr (operator, signature)"
  shows "ge_hex E (rq_operator q) = Some operator" and "length operator = 32"
    and "verify_registration_signature E (rq_url q) operator (rq_timestamp q) signature"
    and "validate_url (ge_parse E) lookup (ge_policy E) (rq_url q) = Inr ()"
    and "abs_diff now (rq_timestamp q) \<le> max_timestamp_skew"
proof -
  show "ge_hex E (rq_operator q) = Some operator" "length operator = 32"
    "verify_registration_signature E (rq_url q) operator (rq_timestamp q) signature"
    "validate_url (ge_parse E) lookup (ge_policy E) (rq_url q) = Inr ()"
    "abs_diff now (rq_timestamp q) \<le> max_timestamp_skew"
    using assms by (auto simp: check_registration_def result_simps)
qed

lemma gossip_inv_rpc:
  assumes "register_endpoint E shuffle now now' lookup q R = (R', res, evs)"
    and "gossip_inv E L R" and "permutes_entries shuffle" and "lookup \<in> L"
  shows "gossip_inv E L R'"
proof (cases "check_registration E now lookup q")
  case (Inr os)
  then obtain operator signature where c: "check_registration E now lookup q = Inr (operator, signature)"
    by (cases os) simp
  obtain R1 lim where rate: "check_and_record_operator_rate shuffle operator now R = (R1, lim)" by fastforce
  have "rg_nodes R1 = rg_nodes R \<and> rg_max_size R1 = rg_max_size R"
    using rate by (auto simp: check_and_record_operator_rate_def Let_def split: option.splits if_splits)
  moreover have "length (rg_last_register R1) \<le> max_rate_limit_entries"
    using rate_limit_bound [OF rate assms(3)] assms(2) by (simp add: gossip_inv_def registry_ok_def)
  ultimately have R1: "gossip_inv E L R1"
    using assms(2) by (simp add: gossip_inv_def registry_ok_def endpoints_def)
  define node where "node = (new_node now' (rq_url q))\<lparr>rn_proof :=
      Some \<lparr>rp_operator = operator, rp_timestamp = rq_timestamp q, rp_signature = signature\<rparr>\<rparr>"
  have "genuine E L node"
    using check_registration_ok [OF c] assms(4)
    by (auto simp: genuine_def node_def new_node_def)
  moreover obtain R2 outcome where "register_outcome node R1 = (R2, outcome)" by fastforce
  ultimately show ?thesis
    using assms(1) c rate R1 gossip_inv_register
    by (cases lim) (auto simp: register_endpoint_def node_def Let_def)
qed (use assms in \<open>auto simp: register_endpoint_def\<close>)

text \<open>
  The states a chain node reaches from an empty registry, by gossip events and calls of the RPC;
  \<open>L\<close> holds the answers the resolver gives in the course of it, which may differ from one
  event to the next.
\<close>

inductive chain_node_reaches :: "gossip_env \<Rightarrow> resolver set \<Rightarrow> 'p gossip_state \<Rightarrow> bool" for E L where
  start: "chain_node_reaches E L \<lparr>gs_registry = new_registry, gs_peers = []\<rparr>"
| event: "chain_node_reaches E L S \<Longrightarrow> lookup \<in> L \<Longrightarrow> chain_node_reaches E L (fst (on_event E now lookup ev S))"
| rpc: "chain_node_reaches E L S \<Longrightarrow> permutes_entries shuffle \<Longrightarrow> lookup \<in> L
    \<Longrightarrow> register_endpoint E shuffle now now' lookup q (gs_registry S) = (R', res, evs :: 'p gossip_event list)
    \<Longrightarrow> chain_node_reaches E L (S\<lparr>gs_registry := R'\<rparr>)"

lemma node_reaches_inv: "chain_node_reaches E L S \<Longrightarrow> gossip_inv E L (gs_registry S)"
proof (induction rule: chain_node_reaches.induct)
  case start
  show ?case by (simp add: gossip_inv_def new_registry_def registry_ok_def endpoints_def)
next
  case (event S lookup now ev)
  then show ?case by (simp add: gossip_inv_event)
next
  case (rpc S shuffle lookup now now' q R' res evs)
  then show ?case using gossip_inv_rpc by fastforce
qed

text \<open>C22: whatever a chain node receives by RPC or gossip, its registry holds at most ten thousand
  entries, one per endpoint, and its rate limit at most ten thousand operators; every entry
  carries an operator's signature for its endpoint, and its URL is http or https to a port that is
  not the node's own and to a host the whole endpoint policy allows: an allowed address, or a name
  for which the resolver once gave at least one address and only allowed ones (or localhost on a
  development chain, or an anonymous service). The lookup is made when the entry is taken over; what the name
  resolves to later is not checked again.
\<close>

theorem registry_genuine:
  assumes "chain_node_reaches E L S" and "n \<in> set (rg_nodes (gs_registry S))"
  shows "distinct (endpoints (gs_registry S)) \<and> length (rg_nodes (gs_registry S)) \<le> 10000
    \<and> length (rg_last_register (gs_registry S)) \<le> 10000
    \<and> (\<exists>p. rn_proof n = Some p
        \<and> verify_registration_signature E (rn_endpoint n) (rp_operator p) (rp_timestamp p) (rp_signature p))
    \<and> (\<exists>lookup \<in> L. \<exists>u port h. ge_parse E (rn_endpoint n) = Some u \<and> url_scheme u \<in> {''http'', ''https''}
        \<and> url_port u = Some port \<and> port \<notin> set (own_rpc_ports (ge_policy E)) \<and> url_host_of u = Some h
        \<and> host_allowed lookup (allow_private (ge_policy E)) port h)"
  using node_reaches_inv [OF assms(1)] assms(2)
  by (auto simp: gossip_inv_def registry_ok_def default_max_registry_size_def max_rate_limit_entries_def
      genuine_def validate_url_ok)

subsection \<open>The network\<close>

text \<open>
  The services of the chain nodes and the notifications on their way, each with sender and receiver.
  A delivery hands one of them to its receiver at any time and with any answers of the resolver.
\<close>

record 'p net =
  net_nodes :: "'p \<Rightarrow> 'p gossip_state"
  net_flight :: "('p \<times> 'p \<times> bytes) multiset"

inductive deliver :: "gossip_env \<Rightarrow> 'p net \<Rightarrow> 'p net \<Rightarrow> bool" for E where
  deliver: "(from_peer, to, raw) \<in># net_flight N
    \<Longrightarrow> on_event E now lookup (Received from_peer raw) (net_nodes N to) = (S', out)
    \<Longrightarrow> deliver E N \<lparr>net_nodes = (net_nodes N)(to := S'),
          net_flight = net_flight N - {#(from_peer, to, raw)#} + mset (map (\<lambda>(p, m). (to, p, m)) out)\<rparr>"

text \<open>
  A flood: every notification on its way announces a node, the announcements are among \<open>T\<close>
  (endpoint and time), nobody has more than \<open>d\<close> peers, and the registries have room for
  every announced endpoint.
\<close>

definition flood :: "gossip_env \<Rightarrow> 'p set \<Rightarrow> nat \<Rightarrow> (string \<times> nat) set \<Rightarrow> 'p net \<Rightarrow> bool" where
  "flood E P d T N \<longleftrightarrow> finite P \<and> finite T
     \<and> (\<forall>p \<in> P. set (gs_peers (net_nodes N p)) \<subseteq> P \<and> length (gs_peers (net_nodes N p)) \<le> d)
     \<and> (\<forall>p \<in> P. let R = gs_registry (net_nodes N p) in
           distinct (endpoints R) \<and> card (set (endpoints R) \<union> fst ` T) \<le> rg_max_size R)
     \<and> (\<forall>(from_peer, to, raw) \<in># net_flight N. to \<in> P
           \<and> (\<exists>i. ge_decode E raw = Some (NodeRegistered i) \<and> (gi_endpoint i, gi_registered_at i) \<in> T))"

text \<open>The announcements that would still be news to a registry.\<close>

definition fresh :: "node_registry \<Rightarrow> (string \<times> nat) set \<Rightarrow> (string \<times> nat) set" where
  "fresh R T = {(e, t) \<in> T. \<forall>h. heard R e = Some h \<longrightarrow> h < t}"

definition potential :: "'p set \<Rightarrow> nat \<Rightarrow> (string \<times> nat) set \<Rightarrow> 'p net \<Rightarrow> nat" where
  "potential P d T N = size (net_flight N) + d * (\<Sum>p \<in> P. card (fresh (gs_registry (net_nodes N p)) T))"

lemma dom_heard: "dom (heard R) = set (endpoints R)"
  by (simp add: heard_def endpoints_def dom_map_of_conv_image_fst image_image)

text \<open>One registration: what is news shrinks when the outcome is relayed, and never grows.\<close>

lemma register_fresh:
  assumes "register_outcome node R = (R', outcome)" and "finite T"
    and "(rn_endpoint node, rn_last_health_check node) \<in> T"
    and "distinct (endpoints R)" and "card (set (endpoints R) \<union> fst ` T) \<le> rg_max_size R"
  shows "outcome = Unchanged \<Longrightarrow> fresh R' T \<subseteq> fresh R T"
    and "outcome \<noteq> Unchanged \<Longrightarrow> fresh R' T \<subset> fresh R T"
    and "distinct (endpoints R')" and "card (set (endpoints R') \<union> fst ` T) \<le> rg_max_size R'"
proof -
  let ?e = "rn_endpoint node" and ?t = "rn_last_health_check node"
  have e: "?e \<in> fst ` T" using assms(3) by force
  have room: "length (rg_nodes R) < rg_max_size R" if "heard R ?e = None"
  proof -
    have "?e \<notin> set (endpoints R)" using that dom_heard [of R] by auto
    then have "set (endpoints R) \<subset> set (endpoints R) \<union> fst ` T" using e by blast
    then have "card (set (endpoints R)) < card (set (endpoints R) \<union> fst ` T)"
      using assms(2) by (intro psubset_card_mono) auto
    moreover have "card (set (endpoints R)) = length (rg_nodes R)"
      by (metis assms(4) distinct_card endpoints_def length_map)
    ultimately show ?thesis using assms(5) by simp
  qed
  have heard': "heard R' = (heard R)(?e \<mapsto> (case heard R ?e of None \<Rightarrow> ?t | Some h \<Rightarrow> max ?t h))"
    by (rule register_outcome_room [OF assms(1) room])
  then have sub: "fresh R' T \<subseteq> fresh R T"
    by (auto simp: fresh_def split: if_splits option.splits)
  show "fresh R' T \<subseteq> fresh R T" by (rule sub)
  show "fresh R' T \<subset> fresh R T" if "outcome \<noteq> Unchanged"
  proof -
    have "(?e, ?t) \<in> fresh R T"
      using that register_outcome_heard(3) [OF assms(1)] assms(3) by (auto simp: fresh_def not_le)
    moreover have "(?e, ?t) \<notin> fresh R' T"
      using heard' by (auto simp: fresh_def split: option.splits)
    ultimately show ?thesis using sub by blast
  qed
  have "set (endpoints R') = set (endpoints R) \<union> {?e}"
    using heard' by (simp add: dom_heard [symmetric])
  then have "set (endpoints R') \<union> fst ` T = set (endpoints R) \<union> fst ` T" using e by auto
  moreover have "rg_max_size R' = rg_max_size R"
    using assms(1) by (auto simp: register_outcome_def Let_def split: option.splits)
  ultimately show "card (set (endpoints R') \<union> fst ` T) \<le> rg_max_size R'" using assms(5) by simp
  show "distinct (endpoints R')"
    using assms(1,4) room
    by (auto simp: register_outcome_def Let_def endpoints_def heard_find map_update_first find_endpoint
        split: option.splits)
qed

lemma handle_registered_cases:
  assumes "handle_notification E now lookup peer raw S = (S', out)"
    and "ge_decode E raw = Some (NodeRegistered i)"
  obtains (dropped) "S' = S" "out = []"
  | (stored) R outcome where "register_outcome (node_of_info i) (gs_registry S) = (R, outcome)"
      "S' = S\<lparr>gs_registry := R\<rparr>" "out = (if outcome = Unchanged then [] else relay_except peer raw (gs_peers S))"
proof (cases "max_timestamp_skew < abs_diff now (gi_timestamp i) \<or> \<not> info_valid E lookup i")
  case True
  then show ?thesis using assms dropped by (auto simp: handle_notification_def split: if_splits)
next
  case False
  obtain R outcome where r: "register_outcome (node_of_info i) (gs_registry S) = (R, outcome)" by fastforce
  show ?thesis
    by (rule stored [OF r]) (use assms False r in \<open>cases outcome; simp add: handle_notification_def\<close>)+
qed

lemma flood_step:
  assumes "deliver E N N'" and "flood E P d T N"
  shows "flood E P d T N' \<and> potential P d T N' < potential P d T N"
  using assms(1)
proof cases
  case (deliver from_peer to raw now lookup S' out)
  let ?S = "net_nodes N to"
  obtain i where i: "to \<in> P" "ge_decode E raw = Some (NodeRegistered i)" "(gi_endpoint i, gi_registered_at i) \<in> T"
    using assms(2) deliver(2) by (fastforce simp: flood_def)
  have fin: "finite P" "finite T" using assms(2) by (simp_all add: flood_def)
  have peers: "set (gs_peers ?S) \<subseteq> P" "length (gs_peers ?S) \<le> d"
    and reg: "distinct (endpoints (gs_registry ?S))"
      "card (set (endpoints (gs_registry ?S)) \<union> fst ` T) \<le> rg_max_size (gs_registry ?S)"
    using assms(2) i(1) by (simp_all add: flood_def Let_def)
  have info: "(rn_endpoint (node_of_info i), rn_last_health_check (node_of_info i)) \<in> T"
    using i(3) by (simp add: node_of_info_def)
  have "handle_notification E now lookup from_peer raw ?S = (S', out)" using deliver(3) by simp
  then have step: "gs_peers S' = gs_peers ?S \<and> set out \<subseteq> (\<lambda>p. (p, raw)) ` set (gs_peers ?S)
      \<and> distinct (endpoints (gs_registry S'))
      \<and> card (set (endpoints (gs_registry S')) \<union> fst ` T) \<le> rg_max_size (gs_registry S')
      \<and> length out + d * card (fresh (gs_registry S') T) \<le> d * card (fresh (gs_registry ?S) T)"
    using i(2)
  proof (cases rule: handle_registered_cases)
    case (stored R outcome)
    note laws = register_fresh [OF stored(1) fin(2) info reg]
    have "card (fresh R T) + (if outcome = Unchanged then 0 else 1) \<le> card (fresh (gs_registry ?S) T)"
    proof -
      have "finite (fresh (gs_registry ?S) T)" using fin(2) by (rule rev_finite_subset) (auto simp: fresh_def)
      then show ?thesis
        using laws(1,2) by (auto intro: card_mono simp: Suc_le_eq psubset_card_mono)
    qed
    then have "d * (card (fresh R T) + (if outcome = Unchanged then 0 else 1)) \<le> d * card (fresh (gs_registry ?S) T)"
      by (rule mult_le_mono2)
    moreover have "length out \<le> (if outcome = Unchanged then 0 else d)"
      using peers(2) stored(3) by (auto simp: relay_except_def intro: le_trans [OF length_filter_le])
    ultimately show ?thesis
      using stored laws(3,4) by (auto simp: relay_except_def algebra_simps)
  qed (use reg in auto)
  define f where "f = (\<lambda>p. card (fresh (gs_registry (net_nodes N p)) T))"
  have nodes': "net_nodes N' = (net_nodes N)(to := S')" using deliver(1) by simp
  have "(\<Sum>p \<in> P. card (fresh (gs_registry (net_nodes N' p)) T)) = (\<Sum>p \<in> P. (f(to := card (fresh (gs_registry S') T))) p)"
    unfolding nodes' by (rule sum.cong) (auto simp: f_def)
  then have "(\<Sum>p \<in> P. card (fresh (gs_registry (net_nodes N' p)) T)) + f to = (\<Sum>p \<in> P. f p) + card (fresh (gs_registry S') T)"
    using sum_fun_upd_in [OF fin(1) i(1), of f] by simp
  then have sums: "d * (\<Sum>p \<in> P. card (fresh (gs_registry (net_nodes N' p)) T)) + d * f to
      = d * (\<Sum>p \<in> P. f p) + d * card (fresh (gs_registry S') T)"
    by (metis distrib_left)
  have "Suc (size (net_flight N - {#(from_peer, to, raw)#})) = size (net_flight N)"
    by (metis deliver(2) insert_DiffM size_add_mset)
  then have "size (net_flight N') + 1 = size (net_flight N) + length out" using deliver(1) by simp
  then have less: "potential P d T N' < potential P d T N"
    using sums step unfolding potential_def f_def by linarith
  have "flood E P d T N'"
    unfolding flood_def
  proof (intro conjI fin)
    show "\<forall>p \<in> P. set (gs_peers (net_nodes N' p)) \<subseteq> P \<and> length (gs_peers (net_nodes N' p)) \<le> d"
      "\<forall>p \<in> P. let R = gs_registry (net_nodes N' p) in
           distinct (endpoints R) \<and> card (set (endpoints R) \<union> fst ` T) \<le> rg_max_size R"
      using assms(2) step unfolding nodes' flood_def by simp_all
    show "\<forall>(from_peer, to, raw) \<in># net_flight N'. to \<in> P
           \<and> (\<exists>i. ge_decode E raw = Some (NodeRegistered i) \<and> (gi_endpoint i, gi_registered_at i) \<in> T)"
    proof (safe, goal_cases)
      case (1 a b c)
      then show ?case using assms(2) step peers(1) deliver(1) by (auto simp: flood_def dest!: in_diffD)
    next
      case (2 a b c)
      then show ?case using assms(2) step i deliver(1) by (auto simp: flood_def dest!: in_diffD)
    qed
  qed
  with less show ?thesis by simp
qed

text \<open>C23: the flooding of registrations stops. Starting from notifications that announce nodes among a
  finite set of announcements, with room in every registry for the announced endpoints, the network
  delivers at most as many notifications as are on their way, plus the number of peers times the
  announcements that are news to some registry, whatever the order of delivery, the clocks and the
  answers of the resolvers.
\<close>

theorem flood_terminates:
  assumes "flood E P d T N" and "(deliver E ^^ n) N N'"
  shows "n \<le> potential P d T N"
proof -
  have "flood E P d T N' \<and> n + potential P d T N' \<le> potential P d T N"
    using assms(2)
  proof (induction n arbitrary: N')
    case (Suc n)
    then obtain M where "(deliver E ^^ n) N M" "deliver E M N'" by auto
    with Suc.IH [of M] flood_step [of E M N' P d T] show ?case by auto
  qed (use assms(1) in auto)
  then show ?thesis by linarith
qed

subsection \<open>The time of a registration is not signed\<close>

lemma find_snoc: "find P (xs @ [x]) = (case find P xs of Some y \<Rightarrow> Some y | None \<Rightarrow> if P x then Some x else None)"
  by (induction xs) auto

lemma register_added:
  assumes "register_outcome node R = (R', outcome)"
    and "find (\<lambda>n. rn_endpoint n = rn_endpoint node) (rg_nodes R) = None"
  shows "\<exists>kept. set kept \<subseteq> set (rg_nodes R) \<and> rg_nodes R' = kept @ [node] \<and> outcome = Added"
proof -
  let ?kept = "if rg_max_size R \<le> length (rg_nodes R)
      then case min_by_key rn_registered_at (rg_nodes R) of None \<Rightarrow> rg_nodes R | Some oldest \<Rightarrow> remove_first oldest (rg_nodes R)
      else rg_nodes R"
  have "set ?kept \<subseteq> set (rg_nodes R)" by (auto split: option.splits dest: subsetD [OF set_remove_first_subset])
  moreover have "rg_nodes R' = ?kept @ [node]" "outcome = Added"
    using assms by (simp_all add: register_outcome_def Let_def) auto
  ultimately show ?thesis by blast
qed

lemma info_valid_any_time: "info_valid E lookup (i\<lparr>gi_registered_at := t\<rparr>) \<longleftrightarrow> info_valid E lookup i"
  by (simp add: info_valid_def)

text \<open>The operator signs endpoint and timestamp but not the time the registry goes by, so whoever
  relays a registration can set it. A relayed registration of an endpoint the receiver does not know
  yet, with any time \<open>t\<close> written into it, is stored; the node then counts as live until
  180 seconds after \<open>t\<close>, and every honest heartbeat before \<open>t\<close> is ignored and not
  relayed.
\<close>

theorem forged_time_freezes_node:
  assumes "info_valid E lookup i" and "abs_diff now (gi_timestamp i) \<le> max_timestamp_skew"
    and "gi_endpoint i \<notin> set (endpoints (gs_registry S))"
    and "ge_decode E raw = Some (NodeRegistered (i\<lparr>gi_registered_at := t\<rparr>))"
  shows "let R = gs_registry (fst (handle_notification E now lookup relay raw S)) in
      (\<forall>later \<le> t + node_stale_after. \<exists>n \<in> set (online_nodes later R). rn_endpoint n = gi_endpoint i)
      \<and> (\<forall>node. rn_endpoint node = gi_endpoint i \<longrightarrow> rn_last_health_check node \<le> t
            \<longrightarrow> snd (register_outcome node R) = Unchanged)"
proof -
  let ?node = "node_of_info (i\<lparr>gi_registered_at := t\<rparr>)"
  obtain R outcome where r: "register_outcome ?node (gs_registry S) = (R, outcome)" by fastforce
  have new: "find (\<lambda>n. rn_endpoint n = rn_endpoint ?node) (rg_nodes (gs_registry S)) = None"
    using assms(3) by (auto simp: find_endpoint endpoints_def node_of_info_def)
  from register_added [OF r this]
  obtain kept where "set kept \<subseteq> set (rg_nodes (gs_registry S))" and R: "rg_nodes R = kept @ [?node]"
    and out: "outcome = Added" by blast
  then have "find (\<lambda>n. rn_endpoint n = gi_endpoint i) kept = None"
    using assms(3) by (auto simp: find_endpoint endpoints_def)
  then have "heard R (gi_endpoint i) = Some t"
    using R by (auto simp: heard_find node_of_info_def find_snoc)
  then have "rn_endpoint node = gi_endpoint i \<Longrightarrow> rn_last_health_check node \<le> t \<Longrightarrow> snd (register_outcome node R) = Unchanged"
    for node using register_outcome_heard(3) [of node R "fst (register_outcome node R)" "snd (register_outcome node R)"] by simp
  moreover have "?node \<in> set (online_nodes later R)" if "later \<le> t + node_stale_after" for later
    using that R by (simp add: online_nodes_def is_live_def node_of_info_def) linarith
  moreover have "rn_endpoint ?node = gi_endpoint i" by (simp add: node_of_info_def)
  moreover have "gs_registry (fst (handle_notification E now lookup relay raw S)) = R"
    using assms(1,2,4) r out by (simp add: handle_notification_def info_valid_any_time)
  ultimately show ?thesis by (auto simp: Let_def)
qed

subsection \<open>A flood that goes round for ever\<close>

text \<open>
  Three nodes in a triangle whose registries are full: two announcements push each other out of
  every registry they reach and are relayed each time as new.
\<close>

definition demo_info :: "bool \<Rightarrow> gossip_info" where
  "demo_info k = \<lparr>gi_endpoint = (if k then ''a'' else ''b''), gi_registered_at = 5, gi_latency_ms = None,
     gi_operator = [], gi_timestamp = 5, gi_signature = replicate 64 0\<rparr>"

definition demo_raw :: "bool \<Rightarrow> bytes" where "demo_raw k = (if k then [1] else [2])"

definition demo_env :: gossip_env where
  "demo_env = \<lparr>ge_decode = (\<lambda>raw. if raw = [1] then Some (NodeRegistered (demo_info True))
        else if raw = [2] then Some (NodeRegistered (demo_info False)) else None),
     ge_encode = (\<lambda>_. []), ge_verify = (\<lambda>_ _ _. True),
     ge_parse = (\<lambda>_. Some \<lparr>url_scheme = ''http'', url_host_of = Some (Ipv4Host (Ipv4Addr 8 8 8 8)), url_port = Some 80\<rparr>),
     ge_policy = \<lparr>allow_private = False, own_rpc_ports = []\<rparr>, ge_hex = (\<lambda>s. Some [])\<rparr>"

definition demo_lookup :: resolver where "demo_lookup d p = DnsFailure"

definition demo_registry :: "bool \<Rightarrow> node_registry" where
  "demo_registry k = \<lparr>rg_nodes = [node_of_info (demo_info k)], rg_max_size = 1, rg_last_register = []\<rparr>"

definition triangle :: "nat list" where "triangle = [0, 1, 2]"

definition demo_net :: "(nat \<Rightarrow> bool) \<Rightarrow> (nat \<times> nat \<times> bytes) multiset \<Rightarrow> nat net" where
  "demo_net s M = \<lparr>net_nodes = (\<lambda>p. \<lparr>gs_registry = demo_registry (s p), gs_peers = filter (\<lambda>q. q \<noteq> p) triangle\<rparr>),
     net_flight = M\<rparr>"

lemma demo_valid: "info_valid demo_env demo_lookup (demo_info k)"
  by (simp add: info_valid_def verify_registration_signature_def demo_info_def demo_env_def validate_url_def
      validate_url_sync_def check_host_def check_ip_def check_names_def is_private_v4_def)

lemma demo_decode [simp]: "ge_decode demo_env (demo_raw k) = Some (NodeRegistered (demo_info k))"
  by (simp add: demo_env_def demo_raw_def)

lemma demo_register:
  "register_outcome (node_of_info (demo_info (\<not> k))) (demo_registry k) = (demo_registry (\<not> k), Added)"
  by (simp add: register_outcome_def demo_registry_def node_of_info_def demo_info_def)

lemma demo_deliver:
  assumes "(x, y, demo_raw k) \<in># M" and "s y = (\<not> k)"
  shows "deliver demo_env (demo_net s M) (demo_net (s(y := k))
    (M - {#(x, y, demo_raw k)#} + mset (map (\<lambda>q. (y, q, demo_raw k)) (filter (\<lambda>q. q \<noteq> x \<and> q \<noteq> y) triangle))))"
proof -
  let ?peers = "filter (\<lambda>q. q \<noteq> y) triangle"
  have "handle_notification demo_env 5 demo_lookup x (demo_raw k) (net_nodes (demo_net s M) y)
      = (\<lparr>gs_registry = demo_registry k, gs_peers = ?peers\<rparr>, relay_except x (demo_raw k) ?peers)"
    using assms(2) demo_register [of "\<not> k"] demo_valid [of k]
    by (simp add: handle_notification_def demo_net_def abs_diff_def) (simp add: demo_info_def max_timestamp_skew_def)
  then have "on_event demo_env 5 demo_lookup (Received x (demo_raw k)) (net_nodes (demo_net s M) y)
      = (\<lparr>gs_registry = demo_registry k, gs_peers = ?peers\<rparr>, relay_except x (demo_raw k) ?peers)" by simp
  moreover have "(x, y, demo_raw k) \<in># net_flight (demo_net s M)" using assms(1) by (simp add: demo_net_def)
  ultimately have "deliver demo_env (demo_net s M)
      \<lparr>net_nodes = (net_nodes (demo_net s M))(y := \<lparr>gs_registry = demo_registry k, gs_peers = ?peers\<rparr>),
       net_flight = net_flight (demo_net s M) - {#(x, y, demo_raw k)#}
         + mset (map (\<lambda>(p, m). (y, p, m)) (relay_except x (demo_raw k) ?peers))\<rparr>"
    by (rule deliver.deliver [rotated])
  also have "map (\<lambda>(p, m). (y, p, m)) (relay_except x (demo_raw k) ?peers)
      = map (\<lambda>q. (y, q, demo_raw k)) (filter (\<lambda>q. q \<noteq> x \<and> q \<noteq> y) triangle)"
    by (simp add: relay_except_def comp_def conj_commute)
  also have "(net_nodes (demo_net s M))(y := \<lparr>gs_registry = demo_registry k, gs_peers = ?peers\<rparr>)
      = net_nodes (demo_net (s(y := k)) M)"
    by (auto simp: demo_net_def)
  finally show ?thesis by (simp add: demo_net_def)
qed

text \<open>Both announcements move one edge on, and the registries end as they were.\<close>

lemma demo_hop:
  assumes "filter (\<lambda>q. q \<noteq> x \<and> q \<noteq> y) triangle = [z]"
  shows "(deliver demo_env ^^ 2) (demo_net (\<lambda>_. False) {#(x, y, demo_raw True), (x, y, demo_raw False)#})
    (demo_net (\<lambda>_. False) {#(y, z, demo_raw True), (y, z, demo_raw False)#})"
proof -
  let ?a = "demo_raw True" and ?b = "demo_raw False"
  have "deliver demo_env (demo_net (\<lambda>_. False) {#(x, y, ?a), (x, y, ?b)#})
      (demo_net ((\<lambda>_. False)(y := True)) {#(x, y, ?b), (y, z, ?a)#})"
    using demo_deliver [of x y True "{#(x, y, ?a), (x, y, ?b)#}" "\<lambda>_. False"] assms by (simp add: add_mset_commute)
  moreover have "deliver demo_env (demo_net ((\<lambda>_. False)(y := True)) {#(x, y, ?b), (y, z, ?a)#})
      (demo_net (\<lambda>_. False) {#(y, z, ?a), (y, z, ?b)#})"
    using demo_deliver [of x y False "{#(x, y, ?b), (y, z, ?a)#}" "(\<lambda>_. False)(y := True)"] assms
    by (simp add: add_mset_commute fun_upd_idem)
  ultimately show ?thesis by (auto simp: numeral_2_eq_2 intro: relcomppI)
qed

lemma flood_loops_when_full:
  "(deliver demo_env ^^ 6) (demo_net (\<lambda>_. False) {#(0, 1, demo_raw True), (0, 1, demo_raw False)#})
     (demo_net (\<lambda>_. False) {#(0, 1, demo_raw True), (0, 1, demo_raw False)#})"
proof -
  let ?N = "\<lambda>x y. demo_net (\<lambda>_. False) {#(x, y, demo_raw True), (x, y, demo_raw False)#}"
  have "(deliver demo_env ^^ 2) (?N 0 1) (?N 1 2)" "(deliver demo_env ^^ 2) (?N 1 2) (?N 2 0)"
    "(deliver demo_env ^^ 2) (?N 2 0) (?N 0 1)"
    by (rule demo_hop, simp add: triangle_def)+
  then have "(deliver demo_env ^^ (2 + (2 + 2))) (?N 0 1) (?N 0 1)"
    unfolding relpowp_add by blast
  then show ?thesis by simp
qed

subsection \<open>Witnesses\<close>

definition demo_start :: "nat gossip_state" where
  "demo_start = \<lparr>gs_registry = new_registry, gs_peers = [7]\<rparr>"

lemma demo_received:
  "handle_notification demo_env 5 demo_lookup p (demo_raw k) \<lparr>gs_registry = new_registry, gs_peers = ps\<rparr>
    = (\<lparr>gs_registry = new_registry\<lparr>rg_nodes := [node_of_info (demo_info k)]\<rparr>, gs_peers = ps\<rparr>,
       relay_except p (demo_raw k) ps)"
  using demo_valid [of k]
  by (simp add: handle_notification_def abs_diff_def register_outcome_def new_registry_def default_max_registry_size_def)
     (simp add: demo_info_def max_timestamp_skew_def)

theorem registry_genuine_witness:
  "\<exists>S :: nat gossip_state. chain_node_reaches demo_env {demo_lookup} S \<and> length (rg_nodes (gs_registry S)) = 1
     \<and> (\<forall>n \<in> set (rg_nodes (gs_registry S)). \<exists>p. rn_proof n = Some p \<and> rp_timestamp p = 5)
     \<and> length (rg_last_register (gs_registry S)) \<le> 10000"
proof -
  let ?S = "fst (on_event demo_env 5 demo_lookup (Received (0 :: nat) (demo_raw True)) \<lparr>gs_registry = new_registry, gs_peers = []\<rparr>)"
  have S: "rg_nodes (gs_registry ?S) = [node_of_info (demo_info True)]"
    by (simp add: demo_received)
  have r: "chain_node_reaches demo_env {demo_lookup} ?S"
    by (rule chain_node_reaches.event [OF chain_node_reaches.start]) simp
  from registry_genuine [OF r, of "node_of_info (demo_info True)"] S
  have "length (rg_last_register (gs_registry ?S)) \<le> 10000" by simp
  moreover have "\<exists>p. rn_proof (node_of_info (demo_info True)) = Some p \<and> rp_timestamp p = 5"
    by (simp add: node_of_info_def demo_info_def)
  ultimately show ?thesis using r S by (intro exI [of _ ?S]) simp
qed

definition demo_pair :: "nat net" where
  "demo_pair = \<lparr>net_nodes = (\<lambda>p. \<lparr>gs_registry = new_registry, gs_peers = [1 - p]\<rparr>),
     net_flight = {#(0, 1, demo_raw True)#}\<rparr>"

theorem flood_terminates_witness:
  "flood demo_env {0, 1} 1 {(''a'', 5)} demo_pair \<and> (\<exists>N'. (deliver demo_env ^^ 1) demo_pair N')
     \<and> 1 \<le> potential {0, 1} 1 {(''a'', 5)} demo_pair"
proof -
  have flood: "flood demo_env {0, 1} 1 {(''a'', 5)} demo_pair"
    by (auto simp: flood_def demo_pair_def Let_def endpoints_def new_registry_def default_max_registry_size_def
        demo_info_def)
  have "deliver demo_env demo_pair \<lparr>net_nodes = (net_nodes demo_pair)(1 :=
      fst (on_event demo_env 5 demo_lookup (Received 0 (demo_raw True)) (net_nodes demo_pair 1))),
      net_flight = net_flight demo_pair - {#(0, 1, demo_raw True)#} + mset (map (\<lambda>(p, m). (1, p, m))
        (snd (on_event demo_env 5 demo_lookup (Received 0 (demo_raw True)) (net_nodes demo_pair 1))))\<rparr>"
    by (rule deliver.deliver [where now = 5 and lookup = demo_lookup]) (simp_all add: demo_pair_def)
  then obtain N' where "(deliver demo_env ^^ 1) demo_pair N'" by (auto simp: relpowp_1)
  with flood_terminates [OF flood this] flood show ?thesis by blast
qed

theorem forged_time_freezes_node_witness:
  "\<exists>n \<in> set (online_nodes 185 (gs_registry (fst (handle_notification demo_env 5 demo_lookup 7 (demo_raw True) demo_start)))).
     rn_endpoint n = ''a''"
proof -
  let ?i = "demo_info True\<lparr>gi_registered_at := 3\<rparr>"
  have "?i\<lparr>gi_registered_at := 5\<rparr> = demo_info True" by (simp add: demo_info_def)
  moreover have "info_valid demo_env demo_lookup ?i" using demo_valid info_valid_any_time by blast
  moreover have "abs_diff 5 (gi_timestamp ?i) \<le> max_timestamp_skew" by (simp add: demo_info_def abs_diff_def)
  moreover have "gi_endpoint ?i \<notin> set (endpoints (gs_registry demo_start))"
    by (simp add: demo_start_def endpoints_def new_registry_def)
  ultimately have "let R = gs_registry (fst (handle_notification demo_env 5 demo_lookup 7 (demo_raw True) demo_start)) in
      (\<forall>later \<le> 5 + node_stale_after. \<exists>n \<in> set (online_nodes later R). rn_endpoint n = gi_endpoint ?i)
      \<and> (\<forall>node. rn_endpoint node = gi_endpoint ?i \<longrightarrow> rn_last_health_check node \<le> 5
            \<longrightarrow> snd (register_outcome node R) = Unchanged)"
    using forged_time_freezes_node [of demo_env demo_lookup ?i 5 demo_start "demo_raw True" 5 7] by simp
  then show ?thesis by (simp add: Let_def node_stale_after_def demo_info_def)
qed

end
