(* ===== verification/Utf8.thy ===== *)
theory Utf8
  imports Prelude
begin

text \<open>
  \<open>core::str::from_utf8\<close>: which byte sequences are text, as the ranges of the standard library's
  table, and the proof that these are exactly the encodings of sequences of Unicode scalar values.
\<close>

subsection \<open>The check\<close>

abbreviation (input) cont :: "nat \<Rightarrow> bool" where
  "cont b \<equiv> 0x80 \<le> b \<and> b \<le> 0xbf"

text \<open>The second byte a three-byte or four-byte sequence may have after its first.\<close>

definition second3 :: "nat \<Rightarrow> nat \<Rightarrow> bool" where
  "second3 a b \<longleftrightarrow> (if a = 0xe0 then 0xa0 \<le> b \<and> b \<le> 0xbf else if a = 0xed then 0x80 \<le> b \<and> b \<le> 0x9f
     else 0x80 \<le> b \<and> b \<le> 0xbf)"

definition second4 :: "nat \<Rightarrow> nat \<Rightarrow> bool" where
  "second4 a b \<longleftrightarrow> (if a = 0xf0 then 0x90 \<le> b \<and> b \<le> 0xbf else if a = 0xf4 then 0x80 \<le> b \<and> b \<le> 0x8f
     else 0x80 \<le> b \<and> b \<le> 0xbf)"

text \<open>The bytes after the first sequence, when there is one.\<close>

fun utf8_step :: "nat list \<Rightarrow> nat list option" where
  "utf8_step [] = None"
| "utf8_step (a # r) =
     (if a < 0x80 then Some r
      else if 0xc2 \<le> a \<and> a \<le> 0xdf then (case r of b # r' \<Rightarrow> if cont b then Some r' else None | _ \<Rightarrow> None)
      else if 0xe0 \<le> a \<and> a \<le> 0xef then
        (case r of b # c # r' \<Rightarrow> if second3 a b \<and> cont c then Some r' else None | _ \<Rightarrow> None)
      else if 0xf0 \<le> a \<and> a \<le> 0xf4 then
        (case r of b # c # d # r' \<Rightarrow> if second4 a b \<and> cont c \<and> cont d then Some r' else None | _ \<Rightarrow> None)
      else None)"

lemma utf8_step_shorter: "utf8_step bs = Some r \<Longrightarrow> length r < length bs"
  by (cases bs) (auto split: if_splits list.splits)

function utf8_valid :: "nat list \<Rightarrow> bool" where
  "utf8_valid bs = (if bs = [] then True else case utf8_step bs of None \<Rightarrow> False | Some r \<Rightarrow> utf8_valid r)"
  by pat_completeness auto

termination by (relation "measure length") (auto intro: utf8_step_shorter)

declare utf8_valid.simps [simp del]

text \<open>Text is its bytes; a \<^typ>\<open>string\<close> holds them as characters.\<close>

definition from_utf8 :: "bytes \<Rightarrow> string option" where
  "from_utf8 bs = (if utf8_valid (map unat bs) then Some (map (char_of \<circ> unat) bs) else None)"

subsection \<open>The encoding\<close>

definition scalar_value :: "nat \<Rightarrow> bool" where
  "scalar_value c \<longleftrightarrow> c < 0xd800 \<or> (0xe000 \<le> c \<and> c < 0x110000)"

definition utf8_encode :: "nat \<Rightarrow> nat list" where
  "utf8_encode c =
     (if c < 0x80 then [c]
      else if c < 0x800 then [0xc0 + c div 64, 0x80 + c mod 64]
      else if c < 0x10000 then [0xe0 + c div 4096, 0x80 + c div 64 mod 64, 0x80 + c mod 64]
      else [0xf0 + c div 262144, 0x80 + c div 4096 mod 64, 0x80 + c div 64 mod 64, 0x80 + c mod 64])"

lemma utf8_step_encode: "scalar_value c \<Longrightarrow> utf8_step (utf8_encode c @ r) = Some r"
proof -
  assume s: "scalar_value c"
  have low: "x mod 64 \<le> 63" for x :: nat by simp
  consider "c < 0x80" | "0x80 \<le> c" "c < 0x800" | "0x800 \<le> c" "c < 0x10000" | "0x10000 \<le> c" by linarith
  then show ?thesis
  proof cases
    case 2
    then have "2 \<le> c div 64" "c div 64 \<le> 31" by auto
    then show ?thesis using 2 low [of c] by (simp add: utf8_encode_def)
  next
    case 3
    have "c div 4096 \<le> 15" using 3 by auto
    moreover have "c div 64 mod 64 \<ge> 32" if "c div 4096 = 0"
      using 3 that by auto
    moreover have "c div 64 mod 64 \<le> 31" if "c div 4096 = 13"
    proof -
      have "c < 55296" using s 3 that by (auto simp: scalar_value_def)
      then have "c div 64 < 864" by (simp add: less_mult_imp_div_less)
      moreover have "c div 64 div 64 = 13" using that by (simp add: div_mult2_eq [symmetric])
      ultimately show ?thesis using minus_div_mult_eq_mod [of "c div 64" 64] by linarith
    qed
    ultimately show ?thesis using 3 low [of c] low [of "c div 64"]
      by (auto simp: utf8_encode_def second3_def)
  next
    case 4
    have "c < 0x110000" using s 4 by (auto simp: scalar_value_def)
    then have "c div 262144 \<le> 4" by auto
    moreover have "c div 4096 mod 64 \<ge> 16" if "c div 262144 = 0"
      using 4 that by auto
    moreover have "c div 4096 mod 64 \<le> 15" if "c div 262144 = 4"
    proof -
      have "c div 4096 < 272" using \<open>c < 0x110000\<close> by (simp add: less_mult_imp_div_less)
      moreover have "c div 4096 div 64 = 4" using that by (simp add: div_mult2_eq [symmetric])
      ultimately show ?thesis using minus_div_mult_eq_mod [of "c div 4096" 64] by linarith
    qed
    ultimately show ?thesis using 4 low [of c] low [of "c div 64"] low [of "c div 4096"]
      by (auto simp: utf8_encode_def second4_def)
  qed (simp add: utf8_encode_def)
qed

lemma utf8_step_decode:
  assumes "utf8_step bs = Some r" and "\<forall>b \<in> set bs. b < 256"
  shows "\<exists>c. scalar_value c \<and> bs = utf8_encode c @ r"
proof (cases bs)
  case (Cons a bs')
  have split: "(x * 64 + y) div 64 = x" "(x * 64 + y) mod 64 = y" if "y < 64" for x y :: nat using that by simp_all
  consider "a < 0x80" | "0xc2 \<le> a" "a \<le> 0xdf" | "0xe0 \<le> a" "a \<le> 0xef" | "0xf0 \<le> a" "a \<le> 0xf4"
    using assms(1) Cons by (auto split: if_splits)
  then show ?thesis
  proof cases
    case 1
    then show ?thesis
      using assms(1) Cons by (intro exI [of _ a]) (simp add: scalar_value_def utf8_encode_def)
  next
    case 2
    then obtain b where bs: "bs = a # b # r" "cont b"
      using assms(1) Cons by (auto split: if_splits list.splits)
    define x y where "x = a - 0xc0" and "y = b - 0x80"
    have xy: "a = 0xc0 + x" "b = 0x80 + y" "2 \<le> x" "x \<le> 31" "y < 64" using 2 bs(2) by (auto simp: x_def y_def)
    then have "utf8_encode (x * 64 + y) = [a, b]" by (simp add: utf8_encode_def split)
    moreover have "scalar_value (x * 64 + y)" using xy by (simp add: scalar_value_def)
    ultimately show ?thesis using bs(1) by (intro exI [of _ "x * 64 + y"]) simp
  next
    case 3
    then obtain b c where bs: "bs = a # b # c # r" "second3 a b" "cont c"
      using assms(1) Cons by (auto split: if_splits list.splits)
    define x y z where "x = a - 0xe0" and "y = b - 0x80" and "z = c - 0x80"
    have xyz: "a = 0xe0 + x" "b = 0x80 + y" "c = 0x80 + z" "x \<le> 15" "y < 64" "z < 64"
      and low: "x = 0 \<Longrightarrow> 32 \<le> y" and sur: "x = 13 \<Longrightarrow> y \<le> 31"
      using 3 bs(2,3) by (auto simp: x_def y_def z_def second3_def split: if_splits)
    obtain v where v: "v = (x * 64 + y) * 64 + z" by simp
    have q: "v div 64 = x * 64 + y" "v mod 64 = z" unfolding v by (rule split [OF xyz(6)])+
    then have top: "v div 64 mod 64 = y" "v div 4096 = x"
      using split [OF xyz(5), of x] div_mult2_eq [of v 64 64] by simp_all
    have "0x800 \<le> v" "v < 0x10000" using xyz low v by (cases "x = 0"; simp)+
    with q(2) top have "utf8_encode v = [a, b, c]"
      using xyz by (simp add: utf8_encode_def)
    moreover have "scalar_value v"
    proof (cases "x < 13")
      case False
      then show ?thesis using xyz sur v by (cases "x = 13") (simp_all add: scalar_value_def)
    qed (use xyz v in \<open>simp add: scalar_value_def\<close>)
    ultimately show ?thesis using bs(1) by (intro exI [of _ v]) simp
  next
    case 4
    then obtain b c d where bs: "bs = a # b # c # d # r" "second4 a b" "cont c" "cont d"
      using assms(1) Cons by (auto split: if_splits list.splits)
    define x y z w where "x = a - 0xf0" and "y = b - 0x80" and "z = c - 0x80" and "w = d - 0x80"
    have xyz: "a = 0xf0 + x" "b = 0x80 + y" "c = 0x80 + z" "d = 0x80 + w" "x \<le> 4" "y < 64" "z < 64" "w < 64"
      and low: "x = 0 \<Longrightarrow> 16 \<le> y" and top: "x = 4 \<Longrightarrow> y \<le> 15"
      using 4 bs(2-4) by (auto simp: x_def y_def z_def w_def second4_def split: if_splits)
    obtain v where v: "v = ((x * 64 + y) * 64 + z) * 64 + w" by simp
    have q: "v div 64 = (x * 64 + y) * 64 + z" "v mod 64 = w" unfolding v by (rule split [OF xyz(8)])+
    then have q2: "v div 64 mod 64 = z" "v div 4096 = x * 64 + y"
      using split [OF xyz(7), of "x * 64 + y"] div_mult2_eq [of v 64 64] by simp_all
    then have q3: "v div 4096 mod 64 = y" "v div 262144 = x"
      using split [OF xyz(6), of x] div_mult2_eq [of v 4096 64] by simp_all
    have range: "0x10000 \<le> v" "v < 0x110000"
      using xyz low top v by (cases "x = 0"; simp; fail | cases "x = 4"; simp)+
    with q(2) q2 q3 have "utf8_encode v = [a, b, c, d]"
      using xyz by (simp add: utf8_encode_def)
    moreover have "scalar_value v" using range by (simp add: scalar_value_def)
    ultimately show ?thesis using bs(1) by (intro exI [of _ v]) simp
  qed
qed (use assms(1) in simp)

lemma utf8_encode_nonempty [simp]: "utf8_encode c \<noteq> []"
  by (simp add: utf8_encode_def)

lemma utf8_valid_encoded: "\<forall>c \<in> set cs. scalar_value c \<Longrightarrow> utf8_valid (concat (map utf8_encode cs))"
  by (induction cs) (subst utf8_valid.simps; simp add: utf8_step_encode)+

lemma utf8_valid_decodes:
  "utf8_valid bs \<Longrightarrow> \<forall>b \<in> set bs. b < 256 \<Longrightarrow> \<exists>cs. (\<forall>c \<in> set cs. scalar_value c) \<and> bs = concat (map utf8_encode cs)"
proof (induction bs rule: utf8_valid.induct)
  case (1 bs)
  show ?case
  proof (cases "bs = []")
    case False
    then obtain r where r: "utf8_step bs = Some r" "utf8_valid r"
      using "1.prems"(1) by (subst (asm) utf8_valid.simps) (auto split: option.splits)
    obtain c where c: "scalar_value c" "bs = utf8_encode c @ r"
      using utf8_step_decode [OF r(1) "1.prems"(2)] by blast
    moreover obtain cs where "\<forall>c \<in> set cs. scalar_value c" "r = concat (map utf8_encode cs)"
      using "1.IH" [OF False r] "1.prems"(2) c(2) by auto
    ultimately show ?thesis by (intro exI [of _ "c # cs"]) simp
  qed (auto intro: exI [of _ "[]"])
qed

text \<open>The check accepts exactly the encodings of Unicode scalar values.\<close>

lemma utf8_valid_iff:
  "utf8_valid (map unat bs) \<longleftrightarrow> (\<exists>cs. (\<forall>c \<in> set cs. scalar_value c) \<and> map unat bs = concat (map utf8_encode cs))"
  for bs :: bytes
proof -
  have "\<forall>b \<in> set (map unat bs). b < 256" using unsigned_less [where 'a = nat and 'b = 8] by auto
  then show ?thesis using utf8_valid_encoded utf8_valid_decodes by metis
qed

end
