(* ===== verification/Nickname.thy ===== *)
theory Nickname
  imports Utf8
begin

text \<open>
  The nickname pallet (\<open>src/apps/blockchain/pallets/nickname/src/lib.rs\<close>): a map from accounts
  to display names, with the two calls. The runtime sets the length limit to 128.
\<close>

subsection \<open>State and calls\<close>

datatype nickname_error = NicknameTooLong | NicknameEmpty | InvalidUtf8

datatype nickname_event = NicknameSet account_id bytes | NicknameCleared account_id

record nickname_state =
  nicknames :: "account_id \<rightharpoonup> bytes"
  nickname_events :: "nickname_event list"

definition max_nickname_length :: nat where "max_nickname_length = 128"

definition set_nickname :: "account_id \<Rightarrow> bytes \<Rightarrow> nickname_state \<Rightarrow> (nickname_error, nickname_state) result" where
  "set_nickname who nickname s =
     ensure (nickname \<noteq> []) NicknameEmpty (
     ok_or (from_utf8 nickname) InvalidUtf8 (\<lambda>_.
     ensure (length nickname \<le> max_nickname_length) NicknameTooLong (
       Inr (s\<lparr>nicknames := (nicknames s)(who \<mapsto> nickname),
              nickname_events := nickname_events s @ [NicknameSet who nickname]\<rparr>))))"

definition clear_nickname :: "account_id \<Rightarrow> nickname_state \<Rightarrow> (nickname_error, nickname_state) result" where
  "clear_nickname who s =
     Inr (s\<lparr>nicknames := (nicknames s)(who := None), nickname_events := nickname_events s @ [NicknameCleared who]\<rparr>)"

subsection \<open>Any history of calls\<close>

datatype nickname_call = SetNickname account_id bytes | ClearNickname account_id

primrec dispatch_nickname :: "nickname_call \<Rightarrow> nickname_state \<Rightarrow> (nickname_error, nickname_state) result" where
  "dispatch_nickname (SetNickname who n) s = set_nickname who n s"
| "dispatch_nickname (ClearNickname who) s = clear_nickname who s"

text \<open>A failed call leaves the state as it was.\<close>

fun run_nicknames :: "nickname_call list \<Rightarrow> nickname_state \<Rightarrow> nickname_state" where
  "run_nicknames [] s = s"
| "run_nicknames (c # cs) s = run_nicknames cs (case dispatch_nickname c s of Inl _ \<Rightarrow> s | Inr s' \<Rightarrow> s')"

definition genesis_nicknames :: nickname_state where
  "genesis_nicknames = \<lparr>nicknames = \<lambda>_. None, nickname_events = []\<rparr>"

definition nickname_ok :: "bytes \<Rightarrow> bool" where
  "nickname_ok n \<longleftrightarrow> 1 \<le> length n \<and> length n \<le> 128
     \<and> (\<exists>cs. (\<forall>c \<in> set cs. scalar_value c) \<and> map unat n = concat (map utf8_encode cs))"

lemma set_nickname_accepts:
  "(\<exists>s'. set_nickname who n s = Inr s') \<longleftrightarrow> nickname_ok n"
  by (auto simp: set_nickname_def result_simps from_utf8_def utf8_valid_iff nickname_ok_def
      max_nickname_length_def Suc_le_eq)

text \<open>The name an account goes by: its last accepted name since it last cleared it.\<close>

definition says :: "account_id \<Rightarrow> nickname_call \<Rightarrow> bytes option option" where
  "says who c = (case c of SetNickname w n \<Rightarrow> if w = who \<and> nickname_ok n then Some (Some n) else None
     | ClearNickname w \<Rightarrow> if w = who then Some None else None)"

definition latest :: "account_id \<Rightarrow> nickname_call list \<Rightarrow> bytes option" where
  "latest who cs = (let names = List.map_filter (says who) cs in if names = [] then None else last names)"

lemma latest_snoc: "latest who (cs @ [c]) = (case says who c of None \<Rightarrow> latest who cs | Some v \<Rightarrow> v)"
  by (auto simp: latest_def map_filter_def split: option.splits)

lemma run_snoc: "run_nicknames (cs @ [c]) s = (case dispatch_nickname c (run_nicknames cs s) of
    Inl _ \<Rightarrow> run_nicknames cs s | Inr s' \<Rightarrow> s')"
  by (induction cs arbitrary: s) (simp_all split: sum.splits)

lemma dispatch_nicknames:
  "nicknames (case dispatch_nickname c s of Inl _ \<Rightarrow> s | Inr s' \<Rightarrow> s') who
     = (case says who c of None \<Rightarrow> nicknames s who | Some v \<Rightarrow> v)"
proof (cases c)
  case (SetNickname w n)
  show ?thesis
  proof (cases "nickname_ok n")
    case True
    then obtain s' where "set_nickname w n s = Inr s'" using set_nickname_accepts by blast
    moreover from this have "nicknames s' = (nicknames s)(w \<mapsto> n)" by (auto simp: set_nickname_def result_simps)
    ultimately show ?thesis using SetNickname True by (simp add: says_def)
  next
    case False
    then obtain e where "set_nickname w n s = Inl e" by (metis set_nickname_accepts sum.exhaust)
    then show ?thesis using SetNickname False by (simp add: says_def)
  qed
qed (simp add: clear_nickname_def says_def)

lemma run_latest: "nicknames (run_nicknames cs genesis_nicknames) who = latest who cs"
proof (induction cs rule: rev_induct)
  case (snoc c cs)
  then show ?case by (simp only: run_snoc dispatch_nicknames latest_snoc)
qed (simp add: genesis_nicknames_def latest_def map_filter_def)

lemma latest_ok: "latest who cs = Some n \<Longrightarrow> nickname_ok n"
proof (induction cs rule: rev_induct)
  case (snoc c cs)
  then show ?case by (auto simp: latest_snoc says_def split: option.splits nickname_call.splits if_splits)
qed (simp add: latest_def map_filter_def)

text \<open>C27: after any history of calls the pallet holds for each account the last name it set and has not
  cleared since, where a name counts when it is accepted; a name is accepted exactly when it has 1
  to 128 bytes and encodes a sequence of Unicode scalar values, so every stored name does.
\<close>

theorem nicknames_well_formed:
  "nicknames (run_nicknames cs genesis_nicknames) who = latest who cs
   \<and> pred_option nickname_ok (nicknames (run_nicknames cs genesis_nicknames) who)
   \<and> ((\<exists>s'. set_nickname who n s = Inr s') = nickname_ok n)"
  using run_latest [of cs who] latest_ok [of who cs] set_nickname_accepts [of who n s]
  by (cases "latest who cs") simp_all

end
