(* ===== verification/Storage_Api.thy ===== *)
theory Storage_Api
  imports Storage_Pallet
begin

text \<open>
  The runtime API over the storage pallet (\<open>impl StorageApi for Runtime\<close> in
  \<open>src/apps/blockchain/runtime/src/lib.rs\<close>), through which the RPC of a chain node reads the
  state. A map is enumerated in the order of its hashed keys, which is a parameter.
\<close>

definition max_rpc_scan_entries :: nat where "max_rpc_scan_entries = 1000"

text \<open>\<open>StorageMap::iter\<close>: every entry once.\<close>

definition enumerates :: "(('k \<rightharpoonup> 'v) \<Rightarrow> ('k \<times> 'v) list) \<Rightarrow> bool" where
  "enumerates iter \<longleftrightarrow> (\<forall>m. finite (dom m) \<longrightarrow> distinct (map fst (iter m)) \<and> map_of (iter m) = m)"

record storage_iter =
  it_nodes :: "(bytes \<rightharpoonup> storage_node_info) \<Rightarrow> (bytes \<times> storage_node_info) list"
  it_states :: "(hash256 \<rightharpoonup> fragment_state) \<Rightarrow> (hash256 \<times> fragment_state) list"
  it_kzg :: "(hash256 \<rightharpoonup> kzg_fragment) \<Rightarrow> (hash256 \<times> kzg_fragment) list"

record storage_node_info_rpc =
  nr_operator :: account_id
  nr_capacity :: nat
  nr_registered_at :: nat
  nr_pow_nonce :: nat
  nr_http_url :: bytes
  nr_peer_id :: bytes

record kzg_fragment_info_rpc =
  kr_owner :: account_id
  kr_commitment :: bytes
  kr_data_size :: nat
  kr_fragment_count :: nat
  kr_threshold :: nat
  kr_created_at :: nat

text \<open>\<open>saturated_into::<u32>\<close>.\<close>

definition sat_u32 :: "nat \<Rightarrow> nat" where "sat_u32 n = min n u32_max"

definition get_all_storage_nodes :: "storage_iter \<Rightarrow> storage_state \<Rightarrow> storage_node_info_rpc list" where
  "get_all_storage_nodes it s = map (\<lambda>(peer_id, info).
     \<lparr>nr_operator = ni_operator info, nr_capacity = ni_capacity info, nr_registered_at = sat_u32 (ni_registered_at info),
      nr_pow_nonce = ni_pow_nonce info, nr_http_url = ni_http_url info, nr_peer_id = peer_id\<rparr>)
     (it_nodes it (storage_nodes s))"

definition get_kzg_fragment :: "storage_state \<Rightarrow> hash256 \<Rightarrow> kzg_fragment_info_rpc option" where
  "get_kzg_fragment s h = map_option (\<lambda>f.
     \<lparr>kr_owner = kf_owner f, kr_commitment = kf_commitment f, kr_data_size = kf_data_size f,
      kr_fragment_count = kf_fragment_count f, kr_threshold = kf_threshold f,
      kr_created_at = sat_u32 (kf_created_at f)\<rparr>) (kzg_fragments s h)"

definition get_reward_pool_balance :: "storage_state \<Rightarrow> nat" where
  "get_reward_pool_balance s = reward_pool s"

definition get_forgetting_candidates :: "storage_state \<Rightarrow> hash256 list \<Rightarrow> (hash256 \<times> bool) list" where
  "get_forgetting_candidates s hashes = map (\<lambda>h. (h, forgetting_candidates s h \<noteq> None)) hashes"

definition is_registered_storage_node :: "storage_state \<Rightarrow> account_id \<Rightarrow> bool" where
  "is_registered_storage_node s operator =
     (case operator_nodes s operator of None \<Rightarrow> False | Some peer_id \<Rightarrow> storage_nodes s peer_id \<noteq> None)"

text \<open>The scan stops after a thousand entries, whatever it has found.\<close>

definition get_at_risk_fragments :: "storage_iter \<Rightarrow> storage_state \<Rightarrow> hash256 list" where
  "get_at_risk_fragments it s =
     map fst (filter (\<lambda>(_, st). fs_kind st = AtRisk) (take max_rpc_scan_entries (it_states it (fragment_states s))))"

fun kind_u8 :: "fragment_state_kind \<Rightarrow> nat" where
  "kind_u8 Active = 0"
| "kind_u8 AtRisk = 1"
| "kind_u8 Repairing = 2"
| "kind_u8 Lost = 3"

definition get_fragment_state_rpc :: "storage_state \<Rightarrow> hash256 \<Rightarrow> (nat \<times> nat) option" where
  "get_fragment_state_rpc s h =
     (if kzg_fragments s h = None then None
      else let st = get_fragment_state s h in Some (kind_u8 (fs_kind st), sat_u32 (fs_changed_at st)))"

definition get_eviction_candidates :: "storage_state \<Rightarrow> hash256 \<Rightarrow> eviction_candidate list" where
  "get_eviction_candidates s h =
     map (\<lambda>c. c\<lparr>ec_last_proved_at := sat_u32 (ec_last_proved_at c)\<rparr>) (compute_eviction_candidates h s)"

definition get_fragments_with_excess_holders :: "storage_iter \<Rightarrow> storage_state \<Rightarrow> hash256 list" where
  "get_fragments_with_excess_holders it s =
     map fst (filter (\<lambda>(_, f). kf_fragment_count f < length (kf_holders f) mod 2 ^ 8)
       (take max_rpc_scan_entries (it_kzg it (kzg_fragments s))))"

subsection \<open>What the scans report\<close>

lemma enumerates_entries:
  assumes "enumerates iter" and "finite (dom m)"
  shows "(k, v) \<in> set (iter m) \<longleftrightarrow> m k = Some v" and "length (iter m) = card (dom m)"
proof -
  have it: "distinct (map fst (iter m))" "map_of (iter m) = m" using assms by (auto simp: enumerates_def)
  then show "(k, v) \<in> set (iter m) \<longleftrightarrow> m k = Some v" by (metis map_of_eq_Some_iff)
  have "dom m = set (map fst (iter m))" using it(2) by (metis dom_map_of_conv_image_fst list.set_map)
  then show "length (iter m) = card (dom m)" using it(1) by (metis distinct_card length_map)
qed

lemma scan_complete:
  assumes "enumerates iter" and "finite (dom m)"
  shows "set (map fst (filter (\<lambda>(_, v). P v) (take n (iter m)))) \<subseteq> {k. \<exists>v. m k = Some v \<and> P v}"
    and "card (dom m) \<le> n \<Longrightarrow>
      set (map fst (filter (\<lambda>(_, v). P v) (take n (iter m)))) = {k. \<exists>v. m k = Some v \<and> P v}"
  using enumerates_entries [OF assms] by (force dest: in_set_takeD)+

text \<open>
  The two scans of the runtime API only report fragments that are at risk, or have more holders
  than shares, and they report all of them while the map has at most a thousand entries; the count
  of holders is cast to a byte, which changes nothing for the sixteen holders a fragment can have.
\<close>

lemma scans_report:
  assumes "enumerates (it_states it)" and "enumerates (it_kzg it)"
    and "finite (dom (fragment_states s))" and "finite (dom (kzg_fragments s))"
    and "\<And>h f. kzg_fragments s h = Some f \<Longrightarrow> length (kf_holders f) \<le> max_kzg_holders"
  shows "set (get_at_risk_fragments it s) \<subseteq> {h. fs_kind (get_fragment_state s h) = AtRisk}"
    and "card (dom (fragment_states s)) \<le> 1000 \<Longrightarrow>
      set (get_at_risk_fragments it s) = {h. fs_kind (get_fragment_state s h) = AtRisk}"
    and "set (get_fragments_with_excess_holders it s)
      \<subseteq> {h. \<exists>f. kzg_fragments s h = Some f \<and> kf_fragment_count f < length (kf_holders f)}"
    and "card (dom (kzg_fragments s)) \<le> 1000 \<Longrightarrow> set (get_fragments_with_excess_holders it s)
      = {h. \<exists>f. kzg_fragments s h = Some f \<and> kf_fragment_count f < length (kf_holders f)}"
proof -
  have risk: "{h. fs_kind (get_fragment_state s h) = AtRisk} = {h. \<exists>st. fragment_states s h = Some st \<and> fs_kind st = AtRisk}"
    by (auto simp: get_fragment_state_def default_fragment_state_def split: option.splits)
  have small: "length (kf_holders f) mod 2 ^ 8 = length (kf_holders f)" if "kzg_fragments s h = Some f" for h f
    using assms(5) [OF that] by (simp add: max_kzg_holders_def)
  have excess: "{h. \<exists>f. kzg_fragments s h = Some f \<and> kf_fragment_count f < length (kf_holders f)}
      = {h. \<exists>f. kzg_fragments s h = Some f \<and> kf_fragment_count f < length (kf_holders f) mod 2 ^ 8}"
    using small by fastforce
  show "set (get_at_risk_fragments it s) \<subseteq> {h. fs_kind (get_fragment_state s h) = AtRisk}"
    "card (dom (fragment_states s)) \<le> 1000 \<Longrightarrow>
      set (get_at_risk_fragments it s) = {h. fs_kind (get_fragment_state s h) = AtRisk}"
    using scan_complete [OF assms(1,3), where P = "\<lambda>st. fs_kind st = AtRisk" and n = max_rpc_scan_entries]
    unfolding risk get_at_risk_fragments_def max_rpc_scan_entries_def by blast+
  show "set (get_fragments_with_excess_holders it s)
      \<subseteq> {h. \<exists>f. kzg_fragments s h = Some f \<and> kf_fragment_count f < length (kf_holders f)}"
    "card (dom (kzg_fragments s)) \<le> 1000 \<Longrightarrow> set (get_fragments_with_excess_holders it s)
      = {h. \<exists>f. kzg_fragments s h = Some f \<and> kf_fragment_count f < length (kf_holders f)}"
    using scan_complete [OF assms(2,4), where P = "\<lambda>f. kf_fragment_count f < length (kf_holders f) mod 2 ^ 8" and n = max_rpc_scan_entries]
    unfolding excess get_fragments_with_excess_holders_def max_rpc_scan_entries_def by blast+
qed

end
