(* ===== verification/Storage_Rpc.thy ===== *)
theory Storage_Rpc
  imports Storage_Api Node_Gossip Utf8 Kzg_Vss Post
begin

text \<open>
  The storage RPC of a chain node (\<open>src/apps/blockchain/node/src/rpc/storage.rs\<close>): it checks
  fragments and shards, chooses a storage node, forwards the request over HTTP and reads the answer.
  HTTP, base64, hex, Blake2b, the Merkle proof library and Sr25519 are parameters; the chain state
  is \<^const>\<open>None\<close> when the runtime API cannot be called.
\<close>

subsection \<open>Requests\<close>

record upload_fragment_request =
  uf_merkle_root :: bytes
  uf_index :: nat
  uf_data :: string
  uf_proof :: string
  uf_total_leaves :: nat
  uf_auth :: "signed_request option"

record upload_kzg_shard_request =
  uk_content_hash :: bytes
  uk_share_index :: "8 word"
  uk_shard_data :: string
  uk_proof :: string
  uk_auth :: "signed_request option"

record get_fragment_response =
  gr_data :: string
  gr_hash :: bytes

record post_info_response =
  po_merkle_root :: hash256
  po_k :: nat
  po_n :: nat
  po_size :: nat
  po_available_indices :: "nat list"

record holder_info =
  ho_account_id :: string
  ho_indices :: "nat list"
  ho_endpoint :: "string option"

record node_info =
  no_endpoint :: string
  no_is_online :: bool
  no_registered_at :: nat

record get_nodes_response =
  gn_nodes :: "node_info list"
  gn_online_count :: nat
  gn_total_count :: nat

subsection \<open>What the node calls\<close>

datatype rpc_params = StoreFragment upload_fragment_request | GetFragment bytes nat | StoreKzgShard bytes "8 word" string

record http_request =
  hq_url :: string
  hq_method :: string
  hq_params :: rpc_params
  hq_auth :: "signed_request option" \<comment> \<open>the header \<open>X-Anarchy-Auth\<close>\<close>
  hq_chain_auth :: "chain_auth option" \<comment> \<open>the header \<open>X-Chain-Auth\<close>\<close>

text \<open>A request fails, or is answered with a status and a body, which may be JSON with result and error.\<close>

datatype 'r http_answer = SendFailed | HttpAnswer nat "('r option \<times> string option) option"

record 'sk rpc_env =
  rv_gossip :: gossip_env
  rv_base64 :: "string \<Rightarrow> bytes option"
  rv_hex_encode :: "bytes \<Rightarrow> string"
  rv_blake2b :: "bytes \<Rightarrow> bytes"
  rv_proof_parses :: "bytes \<Rightarrow> bool"
  rv_proof_verify :: "bytes \<Rightarrow> bytes \<Rightarrow> nat \<Rightarrow> bytes \<Rightarrow> nat \<Rightarrow> bool"
  rv_public :: "'sk \<Rightarrow> bytes"
  rv_sign :: "'sk \<Rightarrow> bytes \<Rightarrow> bytes"

definition max_fragment_size :: nat where "max_fragment_size = 128 * 1024 * 1024"
definition max_total_leaves :: nat where "max_total_leaves = 255"
definition max_proof_size :: nat where "max_proof_size = 8 * 1024"

subsection \<open>The client of a storage node\<close>

definition chain_auth_create :: "'sk rpc_env \<Rightarrow> nat \<Rightarrow> 'sk \<Rightarrow> string \<Rightarrow> chain_auth" where
  "chain_auth_create E now keypair method =
     \<lparr>ca_public_key = rv_hex_encode E (rv_public E keypair), ca_timestamp = now, ca_method = method,
      ca_signature = rv_hex_encode E (rv_sign E keypair (chain_message now method))\<rparr>"

text \<open>The host of the URL ends in \<open>.onion\<close> or \<open>.i2p\<close>; decides the connection timeout.\<close>

definition is_anonymous_endpoint :: "gossip_env \<Rightarrow> string \<Rightarrow> bool" where
  "is_anonymous_endpoint G url = (case ge_parse G url of
       None \<Rightarrow> False
     | Some u \<Rightarrow> (case url_host_of u of
           Some (Domain d) \<Rightarrow> ends_with (to_ascii_lowercase d) ''.onion'' \<or> ends_with (to_ascii_lowercase d) ''.i2p''
         | _ \<Rightarrow> False))"

record 'sk storage_client =
  sl_url :: string
  sl_keypair :: "'sk option"

definition make_storage_client :: "'sk option \<Rightarrow> string \<Rightarrow> 'sk storage_client" where
  "make_storage_client keypair url = \<lparr>sl_url = url, sl_keypair = keypair\<rparr>"

definition chain_auth_of :: "'sk rpc_env \<Rightarrow> nat \<Rightarrow> 'sk storage_client \<Rightarrow> string \<Rightarrow> chain_auth option" where
  "chain_auth_of E now c method = map_option (\<lambda>kp. chain_auth_create E now kp method) (sl_keypair c)"

datatype client_error = HttpRequestFailed | HttpStatus nat | ResponseUnparsable | RpcErrorMessage string | NoResult

definition read_answer :: "'r http_answer \<Rightarrow> (client_error, 'r) result" where
  "read_answer answer = (case answer of
       SendFailed \<Rightarrow> Inl (Err HttpRequestFailed)
     | HttpAnswer status body \<Rightarrow>
         ensure (200 \<le> status \<and> status < 300) (HttpStatus status) (
         ok_or body ResponseUnparsable (\<lambda>(result, error).
           (case error of Some message \<Rightarrow> Inl (Err (RpcErrorMessage message))
            | None \<Rightarrow> ok_or result NoResult Inr))))"

definition client_upload_fragment
  :: "'sk rpc_env \<Rightarrow> (http_request \<Rightarrow> 'r http_answer) \<Rightarrow> nat \<Rightarrow> 'sk storage_client \<Rightarrow> upload_fragment_request
      \<Rightarrow> (client_error, 'r) result" where
  "client_upload_fragment E http now c q =
     read_answer (http \<lparr>hq_url = sl_url c, hq_method = ''storage_storeFragment'',
       hq_params = StoreFragment (q\<lparr>uf_auth := None\<rparr>), hq_auth = uf_auth q,
       hq_chain_auth = chain_auth_of E now c ''storage_storeFragment''\<rparr>)"

definition client_get_fragment
  :: "'sk rpc_env \<Rightarrow> (http_request \<Rightarrow> get_fragment_response http_answer) \<Rightarrow> nat \<Rightarrow> 'sk storage_client \<Rightarrow> bytes \<Rightarrow> nat
      \<Rightarrow> (client_error, get_fragment_response) result" where
  "client_get_fragment E http now c root index =
     read_answer (http \<lparr>hq_url = sl_url c, hq_method = ''storage_getFragment'', hq_params = GetFragment root index,
       hq_auth = None, hq_chain_auth = chain_auth_of E now c ''storage_getFragment''\<rparr>)"

definition client_store_kzg_shard
  :: "'sk rpc_env \<Rightarrow> (http_request \<Rightarrow> 'r http_answer) \<Rightarrow> nat \<Rightarrow> 'sk storage_client \<Rightarrow> upload_kzg_shard_request
      \<Rightarrow> (client_error, 'r) result" where
  "client_store_kzg_shard E http now c q =
     read_answer (http \<lparr>hq_url = sl_url c, hq_method = ''storage_storeKzgShard'',
       hq_params = StoreKzgShard (uk_content_hash q) (uk_share_index q) (uk_shard_data q), hq_auth = uk_auth q,
       hq_chain_auth = chain_auth_of E now c ''storage_storeKzgShard''\<rparr>)"

subsection \<open>Choosing storage nodes\<close>

text \<open>\<open>R\<close> is the shared registry at the moment of the call.\<close>

definition get_on_chain_storage_nodes :: "'sk rpc_env \<Rightarrow> storage_iter \<Rightarrow> storage_state option \<Rightarrow> string list" where
  "get_on_chain_storage_nodes E it chain = (case chain of
       None \<Rightarrow> []
     | Some s \<Rightarrow> filter (\<lambda>url. case validate_url_sync (ge_parse (rv_gossip E)) (ge_policy (rv_gossip E)) url of
           Inr _ \<Rightarrow> True | Inl _ \<Rightarrow> False)
         (List.map_filter (\<lambda>n. from_utf8 (nr_http_url n)) (get_all_storage_nodes it s)))"

definition get_storage_client_for_fragment
  :: "'sk rpc_env \<Rightarrow> storage_iter \<Rightarrow> storage_state option \<Rightarrow> 'sk option \<Rightarrow> nat \<Rightarrow> node_registry \<Rightarrow> bytes \<Rightarrow> nat
      \<Rightarrow> 'sk storage_client option" where
  "get_storage_client_for_fragment E it chain keypair now R root index =
     (case select_node_for_fragment now root index R of
        Some node \<Rightarrow> Some (make_storage_client keypair (rn_endpoint node))
      | None \<Rightarrow>
          (let urls = get_on_chain_storage_nodes E it chain
           in if urls = [] then None
              else Some (make_storage_client keypair (urls ! fragment_slot root index (length urls)))))"

definition get_all_storage_clients
  :: "'sk rpc_env \<Rightarrow> storage_iter \<Rightarrow> storage_state option \<Rightarrow> 'sk option \<Rightarrow> (registered_node list \<Rightarrow> registered_node list)
      \<Rightarrow> nat \<Rightarrow> node_registry \<Rightarrow> 'sk storage_client list" where
  "get_all_storage_clients E it chain keypair shuffled now R =
     map (make_storage_client keypair)
       (fold (\<lambda>url urls. if url \<in> set urls then urls else urls @ [url]) (get_on_chain_storage_nodes E it chain)
          (map rn_endpoint (online_nodes_shuffled shuffled now R)))"

subsection \<open>Fragments\<close>

definition rpc_hash_leaf :: "'sk rpc_env \<Rightarrow> bytes \<Rightarrow> bytes" where
  "rpc_hash_leaf E data = rv_blake2b E (0x00 # data)"

datatype rpc_error = InsufficientNodes nat nat | InvalidBase64Data | InvalidBase64Proof | FragmentOversize nat
  | ProofOversize nat | TotalLeavesRange nat | IndexRange nat nat | ProofFormat | ProofRejected | NoStorageNodes
  | ForwardFailed "client_error failure" | AllNodesFailed "client_error failure option" | RuntimeApiError | PostNotFound
  | KzgFragmentMissing | ShareIndexRange nat nat | KzgProofLength nat | ShardTooSmall | KzgVerificationError | KzgRejected
  | TooManyHashes nat

definition verify_merkle_proof :: "'sk rpc_env \<Rightarrow> bytes \<Rightarrow> bytes \<Rightarrow> bytes \<Rightarrow> nat \<Rightarrow> nat \<Rightarrow> (rpc_error, bool) result" where
  "verify_merkle_proof E root proof_bytes leaf_data leaf_index total_leaves =
     ensure (rv_proof_parses E proof_bytes) ProofFormat (
       Inr (rv_proof_verify E proof_bytes root leaf_index (rpc_hash_leaf E leaf_data) total_leaves))"

definition forwarded :: "(client_error, 'r) result \<Rightarrow> (rpc_error, 'r) result" where
  "forwarded r = (case r of Inr x \<Rightarrow> Inr x | Inl e \<Rightarrow> Inl (Err (ForwardFailed e)))"

text \<open>
  The two readings of clock and registry are apart: the number of live nodes is checked first, the
  node is chosen after the proof was verified. The answer is the hash of the fragment.
\<close>

definition upload_fragment
  :: "'sk rpc_env \<Rightarrow> storage_iter \<Rightarrow> storage_state option \<Rightarrow> 'sk option \<Rightarrow> (http_request \<Rightarrow> 'r http_answer)
      \<Rightarrow> nat \<times> node_registry \<Rightarrow> nat \<times> node_registry \<Rightarrow> upload_fragment_request \<Rightarrow> (rpc_error, bytes) result" where
  "upload_fragment E it chain keypair http first second q =
     (let available = online_node_count (fst first) (snd first); required = uf_total_leaves q in
     ensure (required \<le> available) (InsufficientNodes required available) (
     ok_or (rv_base64 E (uf_data q)) InvalidBase64Data (\<lambda>data.
     ok_or (rv_base64 E (uf_proof q)) InvalidBase64Proof (\<lambda>proof.
     ensure (length data \<le> max_fragment_size) (FragmentOversize (length data)) (
     ensure (length proof \<le> max_proof_size) (ProofOversize (length proof)) (
     ensure (uf_total_leaves q \<noteq> 0 \<and> uf_total_leaves q \<le> max_total_leaves) (TotalLeavesRange (uf_total_leaves q)) (
     ensure (uf_index q < uf_total_leaves q) (IndexRange (uf_index q) (uf_total_leaves q)) (
     bind_ok (verify_merkle_proof E (uf_merkle_root q) proof data (uf_index q) (uf_total_leaves q)) (\<lambda>is_valid.
     ensure is_valid ProofRejected (
     ok_or (get_storage_client_for_fragment E it chain keypair (fst second) (snd second) (uf_merkle_root q) (uf_index q))
       NoStorageNodes (\<lambda>client.
     bind_ok (forwarded (client_upload_fragment E http (fst second) client q)) (\<lambda>_.
       Inr (rv_blake2b E data)))))))))))))"

fun try_clients :: "('c \<Rightarrow> (client_error, 'r) result) \<Rightarrow> client_error failure option \<Rightarrow> 'c list \<Rightarrow> (rpc_error, 'r) result" where
  "try_clients ask last_error [] = Inl (Err (AllNodesFailed last_error))"
| "try_clients ask last_error (c # cs) = (case ask c of Inr r \<Rightarrow> Inr r | Inl e \<Rightarrow> try_clients ask (Some e) cs)"

text \<open>The clients in the order of the loop: the one at \<open>index mod length\<close> first.\<close>

definition primary_first :: "nat \<Rightarrow> 'c list \<Rightarrow> 'c list" where
  "primary_first index cs =
     (let primary = index mod length cs; is = [0..<length cs]
      in map (\<lambda>i. cs ! i) (primary # (take primary is @ drop (primary + 1) is)))"

definition get_fragment
  :: "'sk rpc_env \<Rightarrow> storage_iter \<Rightarrow> storage_state option \<Rightarrow> 'sk option \<Rightarrow> (registered_node list \<Rightarrow> registered_node list)
      \<Rightarrow> (http_request \<Rightarrow> get_fragment_response http_answer) \<Rightarrow> nat \<Rightarrow> node_registry \<Rightarrow> bytes \<Rightarrow> nat
      \<Rightarrow> (rpc_error, get_fragment_response) result" where
  "get_fragment E it chain keypair shuffled http now R root index =
     (let clients = get_all_storage_clients E it chain keypair shuffled now R in
      ensure (clients \<noteq> []) NoStorageNodes (
        try_clients (\<lambda>c. client_get_fragment E http now c root index) None (primary_first index clients)))"

subsection \<open>Shards\<close>

text \<open>
  The proof check of the node. Unlike the one of the browser engine it checks the lengths, refuses
  index zero and a value that is not a reduced scalar, for which \<open>from_bigint\<close> is
  \<^const>\<open>None\<close>; \<open>tau_g2_bytes\<close> is the constant of the ceremony.
\<close>

datatype node_kzg_error = CommitmentLength nat | ProofLength nat | ShareValueLength nat | ShareIndexZero
  | BadCommitment | BadProof | BadScalar | BadTauG2

definition node_verify_kzg_proof
  :: "('f::field, 'p, 'g, 'h, 't, 'm) curve_ops_scheme \<Rightarrow> (bytes \<Rightarrow> 'f option) \<Rightarrow> bytes
      \<Rightarrow> bytes \<Rightarrow> 8 word \<Rightarrow> bytes \<Rightarrow> bytes \<Rightarrow> (node_kzg_error, bool) result" where
  "node_verify_kzg_proof C from_bigint tau_g2_bytes commitment share_index share_value proof =
     ensure (length commitment = 48) (CommitmentLength (length commitment)) (
     ensure (length proof = 48) (ProofLength (length proof)) (
     ensure (length share_value = 32) (ShareValueLength (length share_value)) (
     ensure (share_index \<noteq> 0) ShareIndexZero (
     ok_or (g1_deserialize C commitment) BadCommitment (\<lambda>c.
     ok_or (g1_deserialize C proof) BadProof (\<lambda>pi.
     ok_or (from_bigint share_value) BadScalar (\<lambda>y.
     ok_or (g2_deserialize C tau_g2_bytes) BadTauG2 (\<lambda>tau.
       let x = fr_from_u64 C (unat share_index);
           c_minus_y = g1_sub C c (g1_mul C (g1_generator C) y);
           tau_minus_x_g2 = g2_sub C tau (g2_mul C (g2_generator C) x)
       in Inr (pairing C c_minus_y (g2_generator C) = pairing C pi tau_minus_x_g2)))))))))"

text \<open>The content hash keys the chain's map as the number its bytes stand for.\<close>

definition upload_kzg_shard
  :: "'sk rpc_env \<Rightarrow> (bytes \<Rightarrow> 8 word \<Rightarrow> bytes \<Rightarrow> bytes \<Rightarrow> (node_kzg_error, bool) result) \<Rightarrow> storage_iter
      \<Rightarrow> storage_state option \<Rightarrow> 'sk option \<Rightarrow> (http_request \<Rightarrow> 'r http_answer) \<Rightarrow> nat \<Rightarrow> node_registry
      \<Rightarrow> upload_kzg_shard_request \<Rightarrow> (rpc_error, bytes) result" where
  "upload_kzg_shard E verify it chain keypair http now R q =
     ok_or chain RuntimeApiError (\<lambda>s.
     ok_or (get_kzg_fragment s (be_value (uk_content_hash q))) KzgFragmentMissing (\<lambda>fragment.
     ensure (uk_share_index q \<noteq> 0 \<and> unat (uk_share_index q) \<le> kr_fragment_count fragment)
       (ShareIndexRange (unat (uk_share_index q)) (kr_fragment_count fragment)) (
     ok_or (rv_base64 E (uk_shard_data q)) InvalidBase64Data (\<lambda>shard_data.
     ok_or (rv_base64 E (uk_proof q)) InvalidBase64Proof (\<lambda>proof.
     ensure (length shard_data \<le> max_fragment_size) (FragmentOversize (length shard_data)) (
     ensure (length proof = 48) (KzgProofLength (length proof)) (
     ensure (32 \<le> length shard_data) ShardTooSmall (
     bind_ok (case verify (kr_commitment fragment) (uk_share_index q) (take 32 shard_data) proof of
                Inl _ \<Rightarrow> Inl (Err KzgVerificationError) | Inr valid \<Rightarrow> Inr valid) (\<lambda>is_valid.
     ensure is_valid KzgRejected (
     ok_or (get_storage_client_for_fragment E it chain keypair now R (uk_content_hash q) (unat (uk_share_index q)))
       NoStorageNodes (\<lambda>client.
     bind_ok (forwarded (client_store_kzg_shard E http now client q)) (\<lambda>_.
       Inr (rv_blake2b E shard_data)))))))))))))"

subsection \<open>Queries\<close>

definition get_post_info :: "post_state option \<Rightarrow> hash256 \<Rightarrow> (rpc_error, post_info_response) result" where
  "get_post_info chain root =
     ok_or chain RuntimeApiError (\<lambda>s.
     ok_or (get_content_by_merkle_root s root) PostNotFound (\<lambda>info.
       Inr \<lparr>po_merkle_root = pi_root info, po_k = pi_k info, po_n = pi_n info, po_size = pi_size info,
            po_available_indices = [0..<pi_n info]\<rparr>))"

text \<open>The post is not looked at: every live node is reported as holding the indices 0 to 4.\<close>

definition list_holders :: "nat \<Rightarrow> node_registry \<Rightarrow> nat \<Rightarrow> holder_info list" where
  "list_holders now R post_id = map (\<lambda>(idx, node).
     \<lparr>ho_account_id = ''storage_node_'' @ decimal idx, ho_indices = [0..<5], ho_endpoint = Some (rn_endpoint node)\<rparr>)
     (enumerate 0 (online_nodes now R))"

definition get_nodes :: "storage_iter \<Rightarrow> storage_state option \<Rightarrow> nat \<Rightarrow> nat \<Rightarrow> node_registry \<Rightarrow> get_nodes_response" where
  "get_nodes it chain now now' R =
     (let in_memory = map (\<lambda>n. \<lparr>no_endpoint = rn_endpoint n, no_is_online = is_live n now,
            no_registered_at = rn_registered_at n\<rparr>) (rg_nodes R);
          on_chain = (case chain of None \<Rightarrow> [] | Some s \<Rightarrow> get_all_storage_nodes it s);
          nodes = fold (\<lambda>n nodes. case from_utf8 (nr_http_url n) of
              None \<Rightarrow> nodes
            | Some endpoint \<Rightarrow> if \<exists>m \<in> set nodes. no_endpoint m = endpoint then nodes
                else nodes @ [\<lparr>no_endpoint = endpoint, no_is_online = True, no_registered_at = nr_registered_at n\<rparr>])
            on_chain in_memory
      in \<lparr>gn_nodes = nodes, gn_online_count = length (online_nodes now' R), gn_total_count = length nodes\<rparr>)"

definition check_forgetting_candidates
  :: "storage_state option \<Rightarrow> hash256 list \<Rightarrow> (rpc_error, (hash256 \<times> bool) list) result" where
  "check_forgetting_candidates chain hashes =
     ensure (length hashes \<le> 1000) (TooManyHashes (length hashes)) (
     ok_or chain RuntimeApiError (\<lambda>s. Inr (get_forgetting_candidates s hashes)))"

definition rpc_get_fragment_state :: "storage_state option \<Rightarrow> hash256 \<Rightarrow> (rpc_error, string \<times> nat) result" where
  "rpc_get_fragment_state chain h =
     ok_or chain RuntimeApiError (\<lambda>s. Inr (case get_fragment_state_rpc s h of
         Some (kind, changed_at) \<Rightarrow>
           (if kind = 0 then ''Active'' else if kind = 1 then ''AtRisk'' else if kind = 2 then ''Repairing''
            else if kind = 3 then ''Lost'' else ''Unknown'', changed_at)
       | None \<Rightarrow> (''Active'', 0)))"

definition rpc_get_eviction_candidates
  :: "storage_state option \<Rightarrow> hash256 \<Rightarrow> (rpc_error, (account_id \<times> nat \<times> bool) list) result" where
  "rpc_get_eviction_candidates chain h =
     ok_or chain RuntimeApiError (\<lambda>s.
       Inr (map (\<lambda>c. (ec_account c, ec_score c, ec_slashed c)) (get_eviction_candidates s h)))"

definition rpc_get_reward_pool_balance :: "storage_state option \<Rightarrow> (rpc_error, nat) result" where
  "rpc_get_reward_pool_balance chain = ok_or chain RuntimeApiError (\<lambda>s. Inr (get_reward_pool_balance s))"

definition rpc_get_at_risk_fragments :: "storage_iter \<Rightarrow> storage_state option \<Rightarrow> (rpc_error, hash256 list) result" where
  "rpc_get_at_risk_fragments it chain = ok_or chain RuntimeApiError (\<lambda>s. Inr (get_at_risk_fragments it s))"

definition rpc_get_excess_fragments :: "storage_iter \<Rightarrow> storage_state option \<Rightarrow> (rpc_error, hash256 list) result" where
  "rpc_get_excess_fragments it chain = ok_or chain RuntimeApiError (\<lambda>s. Inr (get_fragments_with_excess_holders it s))"

subsection \<open>Requests only go where the policy allows\<close>

definition url_allowed :: "gossip_env \<Rightarrow> string \<Rightarrow> bool" where
  "url_allowed G url \<longleftrightarrow> (\<exists>u port h. ge_parse G url = Some u \<and> url_scheme u \<in> {''http'', ''https''}
     \<and> url_port u = Some port \<and> port \<notin> set (own_rpc_ports (ge_policy G)) \<and> url_host_of u = Some h
     \<and> literal_allowed (allow_private (ge_policy G)) h)"

lemma url_allowed_sync: "url_allowed G url \<longleftrightarrow> (\<exists>u. validate_url_sync (ge_parse G) (ge_policy G) url = Inr u)"
  by (auto simp: url_allowed_def validate_url_sync_ok)

lemma on_chain_allowed: "url \<in> set (get_on_chain_storage_nodes E it chain) \<Longrightarrow> url_allowed (rv_gossip E) url"
  by (auto simp: get_on_chain_storage_nodes_def url_allowed_sync split: option.splits sum.splits)

lemma live_allowed: "gossip_inv G L R \<Longrightarrow> node \<in> set (online_nodes now R) \<Longrightarrow> url_allowed G (rn_endpoint node)"
  by (auto simp: gossip_inv_def online_nodes_def url_allowed_sync intro: genuine_sync)

lemma fragment_slot_less: "0 < n \<Longrightarrow> fragment_slot root index n < n"
  by (simp add: fragment_slot_def)

lemma selected_live: "select_node_for_fragment now root index R = Some node \<Longrightarrow> node \<in> set (online_nodes now R)"
  by (auto simp: select_node_for_fragment_def Let_def fragment_slot_less split: if_splits)

lemma set_merge: "set (fold (\<lambda>url urls. if url \<in> set urls then urls else urls @ [url]) new old) = set old \<union> set new"
  by (induction new arbitrary: old) auto

text \<open>C24: a chain node sends the fragments and shards it forwards, and the requests for them, only to
  URLs its endpoint policy allows: http or https, not its own RPC ports, no forbidden literal
  address; this holds for the nodes it learnt by RPC and gossip and for those registered on chain.
\<close>

theorem clients_allowed:
  assumes "chain_node_reaches (rv_gossip E) L S" and "\<And>xs. set (shuffled xs) = set xs"
    and "c \<in> set (get_all_storage_clients E it chain keypair shuffled now (gs_registry S))
       \<or> get_storage_client_for_fragment E it chain keypair now (gs_registry S) root index = Some c"
  shows "\<exists>u port h. ge_parse (rv_gossip E) (sl_url c) = Some u \<and> url_scheme u \<in> {''http'', ''https''}
     \<and> url_port u = Some port \<and> port \<notin> set (own_rpc_ports (ge_policy (rv_gossip E))) \<and> url_host_of u = Some h
     \<and> literal_allowed (allow_private (ge_policy (rv_gossip E))) h"
proof -
  let ?R = "gs_registry S"
  have inv: "gossip_inv (rv_gossip E) L ?R" by (rule node_reaches_inv [OF assms(1)])
  have "url_allowed (rv_gossip E) (sl_url c)"
    using assms(3)
  proof
    assume "c \<in> set (get_all_storage_clients E it chain keypair shuffled now ?R)"
    then show ?thesis
      using assms(2) live_allowed [OF inv] on_chain_allowed
      by (auto simp: get_all_storage_clients_def set_merge online_nodes_shuffled_def make_storage_client_def)
  next
    assume c: "get_storage_client_for_fragment E it chain keypair now ?R root index = Some c"
    show ?thesis
    proof (cases "select_node_for_fragment now root index ?R")
      case None
      let ?urls = "get_on_chain_storage_nodes E it chain"
      have "?urls \<noteq> []" "sl_url c = ?urls ! fragment_slot root index (length ?urls)"
        using c None by (auto simp: get_storage_client_for_fragment_def make_storage_client_def Let_def split: if_splits)
      then show ?thesis using on_chain_allowed fragment_slot_less by (metis length_greater_0_conv nth_mem)
    next
      case (Some node)
      then have "sl_url c = rn_endpoint node"
        using c by (auto simp: get_storage_client_for_fragment_def make_storage_client_def)
      then show ?thesis using live_allowed [OF inv selected_live [OF Some]] by simp
    qed
  qed
  then show ?thesis by (simp add: url_allowed_def)
qed

subsection \<open>Fragments are spread over the live nodes\<close>

text \<open>When the registry has at least as many live nodes as the post has fragments and the seed of
  its root does not wrap, the fragments of a post are sent to pairwise different storage nodes, each
  of them live.
\<close>

theorem fragments_spread:
  assumes "chain_node_reaches (rv_gossip E) L S" and "leaves \<le> online_node_count now (gs_registry S)"
    and "le_u64 root + leaves \<le> 2 ^ 64"
  shows "inj_on (\<lambda>i. map_option sl_url (get_storage_client_for_fragment E it chain keypair now (gs_registry S) root i)) {..<leaves}
    \<and> (\<forall>i < leaves. \<exists>node \<in> set (online_nodes now (gs_registry S)).
         map_option sl_url (get_storage_client_for_fragment E it chain keypair now (gs_registry S) root i) = Some (rn_endpoint node))"
proof -
  let ?live = "online_nodes now (gs_registry S)"
  let ?slot = "\<lambda>i. fragment_slot root i (length ?live)"
  have "distinct (map rn_endpoint (rg_nodes (gs_registry S)))"
    using node_reaches_inv [OF assms(1)] by (simp add: gossip_inv_def registry_ok_def endpoints_def)
  then have dist: "distinct (map rn_endpoint ?live)" by (simp add: online_nodes_def distinct_map_filter)
  have url: "map_option sl_url (get_storage_client_for_fragment E it chain keypair now (gs_registry S) root i)
      = Some (rn_endpoint (?live ! ?slot i)) \<and> ?slot i < length ?live" if "i < leaves" for i
  proof -
    have "?live \<noteq> []" using assms(2) that by (auto simp: online_node_count_def)
    then show ?thesis
      by (simp add: get_storage_client_for_fragment_def select_node_for_fragment_def Let_def make_storage_client_def
          fragment_slot_less)
  qed
  have inj: "inj_on ?slot {..<leaves}"
    using assms(2,3) by (intro fragment_slots_distinct) (simp_all add: online_node_count_def)
  have "inj_on (\<lambda>i. map_option sl_url (get_storage_client_for_fragment E it chain keypair now (gs_registry S) root i)) {..<leaves}"
  proof (rule inj_onI)
    fix i j assume ij: "i \<in> {..<leaves}" "j \<in> {..<leaves}"
      and eq: "map_option sl_url (get_storage_client_for_fragment E it chain keypair now (gs_registry S) root i)
        = map_option sl_url (get_storage_client_for_fragment E it chain keypair now (gs_registry S) root j)"
    then have "map rn_endpoint ?live ! ?slot i = map rn_endpoint ?live ! ?slot j" using url by simp
    then have "?slot i = ?slot j" using url [of i] url [of j] ij dist by (simp add: nth_eq_iff_index_eq del: nth_map)
    then show "i = j" using inj ij by (auto dest: inj_onD)
  qed
  then show ?thesis using url by (auto intro!: bexI [OF _ nth_mem])
qed

subsection \<open>Fetching asks every node\<close>

lemma try_clients_laws:
  "(\<exists>r. try_clients ask le cs = Inr r) \<longleftrightarrow> (\<exists>c \<in> set cs. \<exists>r. ask c = Inr r)"
  "try_clients ask le cs = Inr r \<Longrightarrow> \<exists>c \<in> set cs. ask c = Inr r"
  by (induction cs arbitrary: le) (auto split: sum.splits)

lemma set_primary_first: "cs \<noteq> [] \<Longrightarrow> set (primary_first index cs) = set cs"
proof -
  assume "cs \<noteq> []"
  then have p: "index mod length cs < length [0..<length cs]" by simp
  have "set (index mod length cs # (take (index mod length cs) [0..<length cs] @ drop (index mod length cs + 1) [0..<length cs]))
      = set [0..<length cs]"
    using id_take_nth_drop [OF p] p by (metis (no_types, lifting) Suc_eq_plus1 Un_insert_right append_Cons list.simps(15)
        nth_upt add_0 diff_zero length_upt set_append)
  then have "set (primary_first index cs) = (\<lambda>i. cs ! i) ` {0..<length cs}"
    unfolding primary_first_def Let_def set_map by simp
  also have "\<dots> = set cs" unfolding set_conv_nth by auto
  finally show ?thesis .
qed

text \<open>The URLs a fragment is looked for at, and the answer of one of them.\<close>

definition fetch_urls :: "'sk rpc_env \<Rightarrow> storage_iter \<Rightarrow> storage_state option \<Rightarrow> nat \<Rightarrow> node_registry \<Rightarrow> string set" where
  "fetch_urls E it chain now R = rn_endpoint ` set (online_nodes now R) \<union> set (get_on_chain_storage_nodes E it chain)"

abbreviation ask_url where
  "ask_url E keypair http now root index url \<equiv> client_get_fragment E http now (make_storage_client keypair url) root index"

text \<open>A fragment is found exactly when some live node of the registry or some allowed node of the
  chain answers the request for it with success, and the answer is the one of such a node; the code
  does not check the fragment against its root.
\<close>

theorem get_fragment_complete:
  assumes "\<And>xs. set (shuffled xs) = set xs"
  shows "((\<exists>r. get_fragment E it chain keypair shuffled http now R root index = Inr r)
        \<longleftrightarrow> (\<exists>url \<in> fetch_urls E it chain now R. \<exists>r. ask_url E keypair http now root index url = Inr r))
    \<and> (\<forall>r. get_fragment E it chain keypair shuffled http now R root index = Inr r
        \<longrightarrow> (\<exists>url \<in> fetch_urls E it chain now R. ask_url E keypair http now root index url = Inr r))"
proof -
  let ?cs = "get_all_storage_clients E it chain keypair shuffled now R"
  let ?ask = "\<lambda>c. client_get_fragment E http now c root index"
  have cs: "set ?cs = make_storage_client keypair ` fetch_urls E it chain now R"
    using assms(1) by (simp add: get_all_storage_clients_def set_merge online_nodes_shuffled_def fetch_urls_def)
  show ?thesis
  proof (cases "?cs = []")
    case True
    then have "fetch_urls E it chain now R = {}" using cs by simp
    then show ?thesis using True by (simp add: get_fragment_def)
  next
    case False
    then have "get_fragment E it chain keypair shuffled http now R root index = try_clients ?ask None (primary_first index ?cs)"
      by (simp add: get_fragment_def)
    then show ?thesis
      using try_clients_laws [of ?ask None "primary_first index ?cs"] set_primary_first [OF False, of index] cs
      by auto
  qed
qed

subsection \<open>The node and the browser engine verify alike\<close>

text \<open>For a commitment, a proof and a value of the right lengths, an index that is not zero and a
  reduced scalar, the proof check of the chain node gives the verdict of the browser engine's,
  whenever both have the same point of the ceremony.
\<close>

theorem node_verifier_agrees:
  assumes "length commitment = 48" and "length proof = 48" and "length value = 32" and "index \<noteq> 0"
    and "from_bigint value = Some (bytes_to_scalar C value)" and "g2_deserialize C tau_bytes = Some (tau_g2 srs)"
  shows "node_verify_kzg_proof C from_bigint tau_bytes commitment index value proof = Inr valid
    \<longleftrightarrow> verify_kzg_proof C (Some srs) commitment index value proof = Inr valid"
  using assms
  by (auto simp: node_verify_kzg_proof_def verify_kzg_proof_def ensure_def ok_or_def Let_def split: option.splits)

subsection \<open>The storage node accepts the chain node's header\<close>

definition hex_ok :: "(bytes \<Rightarrow> string) \<Rightarrow> (string \<Rightarrow> bytes option) \<Rightarrow> bool" where
  "hex_ok encode decode \<longleftrightarrow> (\<forall>bs. decode (encode bs) = Some bs \<and> set (encode bs) \<subseteq> set ''0123456789abcdef'')"

definition sr25519_ok :: "'sk rpc_env \<Rightarrow> ('j, 'k, 's) auth_env \<Rightarrow> bool" where
  "sr25519_ok E A \<longleftrightarrow> (\<forall>kp m. length (rv_public E kp) = 32 \<and> length (rv_sign E kp m) = 64
     \<and> (\<exists>pk sg. pk_from_bytes A (rv_public E kp) = Some pk \<and> sig_from_bytes A (rv_sign E kp m) = Some sg
           \<and> pk_verify A pk signing_context m sg))"

lemma strip_hex: "set s \<subseteq> set ''0123456789abcdef'' \<Longrightarrow> strip_hex_prefix s = s"
  by (auto simp: strip_hex_prefix_def split: list.splits)

text \<open>The header with which a chain node signs a forwarded request passes the check of the storage
  node, whatever the method, when the clock of the storage node is not more than 300 seconds ahead
  and not more than 30 behind.
\<close>

theorem chain_auth_accepted:
  assumes "hex_ok (rv_hex_encode E) (hex_decode A)" and "sr25519_ok E A"
    and "now \<le> now' + 30" and "now' \<le> now + 300"
  shows "validate_chain_auth A now' (chain_auth_create E now kp method) = Inr ()"
proof -
  have field: "hex_field A n (rv_hex_encode E bs) = Inr bs" if "length bs = n" for n bs
    using assms(1) that by (simp add: hex_field_def hex_ok_def strip_hex)
  have "\<exists>pk sg. pk_from_bytes A (rv_public E kp) = Some pk
      \<and> sig_from_bytes A (rv_sign E kp (chain_message now method)) = Some sg
      \<and> pk_verify A pk signing_context (chain_message now method) sg"
    using assms(2) unfolding sr25519_ok_def by blast
  then obtain pk sg where "pk_from_bytes A (rv_public E kp) = Some pk"
    "sig_from_bytes A (rv_sign E kp (chain_message now method)) = Some sg"
    "pk_verify A pk signing_context (chain_message now method) sg" by blast
  moreover have "hex_field A 32 (rv_hex_encode E (rv_public E kp)) = Inr (rv_public E kp)"
    "hex_field A 64 (rv_hex_encode E (rv_sign E kp (chain_message now method))) = Inr (rv_sign E kp (chain_message now method))"
    using assms(2) by (auto simp: sr25519_ok_def intro: field)
  moreover have "now' - now \<le> 300 \<and> now - now' \<le> 30" using assms(3,4) by linarith
  ultimately show ?thesis
    by (simp add: validate_chain_auth_def chain_auth_create_def timestamp_ok_def signature_validity_def
        verify_sr25519_signature_def)
qed

subsection \<open>Witnesses\<close>

definition hex_digits :: string where "hex_digits = ''0123456789abcdef''"

fun demo_hex :: "bytes \<Rightarrow> string" where
  "demo_hex [] = []"
| "demo_hex (b # bs) = hex_digits ! (unat b div 16) # hex_digits ! (unat b mod 16) # demo_hex bs"

definition demo_nibble :: "char \<Rightarrow> nat" where
  "demo_nibble c = length (takeWhile (\<lambda>d. d \<noteq> c) hex_digits)"

fun demo_unhex :: "string \<Rightarrow> bytes option" where
  "demo_unhex [] = Some []"
| "demo_unhex [c] = None"
| "demo_unhex (c # d # s) = map_option (\<lambda>bs. word_of_nat (16 * demo_nibble c + demo_nibble d) # bs) (demo_unhex s)"

lemma demo_digits: "k < 16 \<Longrightarrow> demo_nibble (hex_digits ! k) = k \<and> hex_digits ! k \<in> set hex_digits"
proof -
  have "\<forall>k \<in> set [0..<16]. demo_nibble (hex_digits ! k) = k \<and> hex_digits ! k \<in> set hex_digits" by code_simp
  then show "k < 16 \<Longrightarrow> demo_nibble (hex_digits ! k) = k \<and> hex_digits ! k \<in> set hex_digits" by simp
qed

lemma demo_hex_ok: "hex_ok demo_hex demo_unhex"
proof -
  have "demo_unhex (demo_hex bs) = Some bs \<and> set (demo_hex bs) \<subseteq> set hex_digits" for bs
  proof (induction bs)
    case (Cons b bs)
    have "unat b div 16 < 16" "unat b mod 16 < 16" by (simp_all add: less_mult_imp_div_less)
    then show ?case using Cons demo_digits by simp
  qed simp
  then show ?thesis by (simp add: hex_ok_def hex_digits_def)
qed

definition demo_rpc :: "unit rpc_env" where
  "demo_rpc = \<lparr>rv_gossip = demo_env, rv_base64 = (\<lambda>_. Some []), rv_hex_encode = demo_hex, rv_blake2b = (\<lambda>_. replicate 32 0),
     rv_proof_parses = (\<lambda>_. True), rv_proof_verify = (\<lambda>_ _ _ _ _. True), rv_public = (\<lambda>_. replicate 32 0),
     rv_sign = (\<lambda>_ _. replicate 64 0)\<rparr>"

definition demo_iter :: storage_iter where
  "demo_iter = \<lparr>it_nodes = (\<lambda>_. []), it_states = (\<lambda>_. []), it_kzg = (\<lambda>_. [])\<rparr>"

definition demo_state :: "nat gossip_state" where
  "demo_state = fst (on_event demo_env 5 demo_lookup (Received 0 (demo_raw True)) \<lparr>gs_registry = new_registry, gs_peers = []\<rparr>)"

lemma demo_state_reached: "chain_node_reaches demo_env {demo_lookup} demo_state"
  unfolding demo_state_def by (rule chain_node_reaches.event [OF chain_node_reaches.start]) simp

lemma demo_state_live: "online_nodes 5 (gs_registry demo_state) = [node_of_info (demo_info True)]"
  by (simp add: demo_state_def demo_received online_nodes_def is_live_def node_of_info_def demo_info_def)

theorem clients_allowed_witness:
  "\<exists>c. get_storage_client_for_fragment demo_rpc demo_iter None None 5 (gs_registry demo_state) (replicate 32 0) 0 = Some c
     \<and> (\<exists>u. ge_parse demo_env (sl_url c) = Some u \<and> url_scheme u \<in> {''http'', ''https''})"
proof -
  let ?get = "get_storage_client_for_fragment demo_rpc demo_iter None (None :: unit option) 5 (gs_registry demo_state) (replicate 32 0) 0"
  have c: "?get = Some (make_storage_client None ''a'')"
    by (simp add: get_storage_client_for_fragment_def select_node_for_fragment_def demo_state_live Let_def
        fragment_slot_def) (simp add: node_of_info_def demo_info_def)
  have g: "rv_gossip demo_rpc = demo_env" by (simp add: demo_rpc_def)
  have r: "chain_node_reaches (rv_gossip demo_rpc) {demo_lookup} demo_state" by (simp add: g demo_state_reached)
  have "\<exists>u port h. ge_parse (rv_gossip demo_rpc) (sl_url (make_storage_client (None :: unit option) ''a'')) = Some u
      \<and> url_scheme u \<in> {''http'', ''https''}
     \<and> url_port u = Some port \<and> port \<notin> set (own_rpc_ports (ge_policy (rv_gossip demo_rpc))) \<and> url_host_of u = Some h
     \<and> literal_allowed (allow_private (ge_policy (rv_gossip demo_rpc))) h"
    by (rule clients_allowed [OF r, of "\<lambda>xs. xs"]) (simp, rule disjI2, rule c)
  then show ?thesis unfolding c g by blast
qed

theorem fragments_spread_witness:
  "\<exists>node \<in> set (online_nodes 5 (gs_registry demo_state)).
     map_option sl_url (get_storage_client_for_fragment demo_rpc demo_iter None None 5 (gs_registry demo_state) (replicate 32 0) 0)
       = Some (rn_endpoint node)"
proof -
  have r: "chain_node_reaches (rv_gossip demo_rpc) {demo_lookup} demo_state" by (simp add: demo_rpc_def demo_state_reached)
  have one: "1 \<le> online_node_count 5 (gs_registry demo_state)" by (simp add: online_node_count_def demo_state_live)
  have seed: "le_u64 (replicate 32 0) + 1 \<le> 2 ^ 64"
  proof -
    have "foldr (\<lambda>(b :: 8 word) acc. unat b + 256 * acc) (replicate n 0) 0 = 0" for n
      by (induction n) simp_all
    then show ?thesis by (simp add: le_u64_def take_replicate)
  qed
  show ?thesis using fragments_spread [OF r one seed] by simp
qed

definition demo_http :: "http_request \<Rightarrow> get_fragment_response http_answer" where
  "demo_http q = (if hq_url q = ''a'' then HttpAnswer 200 (Some (Some \<lparr>gr_data = [], gr_hash = []\<rparr>, None)) else SendFailed)"

theorem get_fragment_complete_witness:
  "\<exists>r. get_fragment demo_rpc demo_iter None None (\<lambda>xs. xs) demo_http 5 (gs_registry demo_state) [] 0 = Inr r"
proof -
  have "''a'' \<in> fetch_urls demo_rpc demo_iter None 5 (gs_registry demo_state)"
    by (simp add: fetch_urls_def demo_state_live) (simp add: node_of_info_def demo_info_def)
  moreover have "ask_url demo_rpc None demo_http 5 [] 0 ''a'' = Inr \<lparr>gr_data = [], gr_hash = []\<rparr>"
    by (simp add: client_get_fragment_def make_storage_client_def demo_http_def read_answer_def)
  ultimately show ?thesis
    using get_fragment_complete [of "\<lambda>xs. xs" demo_rpc demo_iter None None demo_http 5 "gs_registry demo_state" "[]" 0]
    by auto
qed

definition demo_auth :: "(unit, unit, unit) auth_env" where
  "demo_auth = \<lparr>hex_decode = demo_unhex, parse_signed = (\<lambda>_. None), parse_chain = (\<lambda>_. None), json_params = (\<lambda>_. None),
     without_auth = (\<lambda>x. x), json_to_string = (\<lambda>_. None), env_blake2 = (\<lambda>_. []), pk_from_bytes = (\<lambda>_. Some ()),
     sig_from_bytes = (\<lambda>_. Some ()), pk_verify = (\<lambda>_ _ _ _. True)\<rparr>"

theorem chain_auth_accepted_witness:
  "validate_chain_auth demo_auth 1030 (chain_auth_create demo_rpc 1000 () ''storage_getFragment'') = Inr ()"
proof (rule chain_auth_accepted)
  show "hex_ok (rv_hex_encode demo_rpc) (hex_decode demo_auth)"
    using demo_hex_ok by (simp add: demo_rpc_def demo_auth_def)
  show "sr25519_ok demo_rpc demo_auth" by (simp add: sr25519_ok_def demo_rpc_def demo_auth_def)
qed simp_all

text \<open>The demonstration curve reads points of any length by their first byte.\<close>

definition demo_long_curve :: "(gf256, gf256 list, gf256, gf256, gf256) curve_ops" where
  "demo_long_curve = demo_curve\<lparr>g1_deserialize := \<lambda>bs. Some (gf_of (hd bs)), g2_deserialize := \<lambda>bs. Some (gf_of (hd bs))\<rparr>"

theorem node_verifier_agrees_witness:
  "node_verify_kzg_proof demo_long_curve (\<lambda>bs. Some (bytes_to_scalar demo_long_curve bs)) (replicate 96 0)
     (replicate 48 0) 1 (replicate 32 0) (replicate 48 0) = Inr True
   \<longleftrightarrow> verify_kzg_proof demo_long_curve (Some \<lparr>powers_of_g1 = [], tau_g2 = gf_of 0\<rparr>) (replicate 48 0) 1 (replicate 32 0)
         (replicate 48 0) = Inr True"
proof (rule node_verifier_agrees)
  have "hd (replicate 96 (0 :: 8 word)) = 0" by (rule hd_replicate) simp
  then show "g2_deserialize demo_long_curve (replicate 96 0) = Some (tau_g2 \<lparr>powers_of_g1 = [], tau_g2 = gf_of 0\<rparr>)"
    by (simp add: demo_long_curve_def)
qed simp_all

end
