(* ===== verification/Wasm_Bindings.thy ===== *)
theory Wasm_Bindings
  imports Hybrid Kzg_Vss
begin

text \<open>
  The bindings between the browser engine and JavaScript (\<open>src/packages/wasm-engine/src/kzg/wasm.rs\<close>):
  results and shards as byte strings, and the calls. The engine is compiled to 32-bit WebAssembly in
  release mode: a \<open>usize\<close> has 32 bits, its sums wrap, and a byte string is shorter than \<open>2 ^ 31\<close>
  (\<open>isize::MAX\<close>). A slice whose bounds do not fit panics, which is \<^const>\<open>Trap\<close>.
\<close>

unbundle bit_operations_syntax

subsection \<open>Values handed to JavaScript\<close>

record wasm_vss_share =
  ws_index :: "8 word"
  ws_value :: bytes

record wasm_vss_split_result =
  wr_commitment :: bytes
  wr_shares :: "wasm_vss_share list"
  wr_proofs :: "bytes list"
  wr_compressed :: bool
  wr_original_len :: nat
  wr_processed_len :: nat

record wasm_hybrid_shard =
  wh_index :: nat
  wh_chunk :: bytes
  wh_chunk_hash :: bytes
  wh_key_share_index :: "8 word"
  wh_key_share_data :: bytes

record wasm_hybrid_split_result =
  wy_shards :: "wasm_hybrid_shard list"
  wy_original_len :: nat
  wy_compressed :: bool
  wy_ciphertext_len :: nat
  wy_shard_size :: nat
  wy_threshold :: nat
  wy_total_shards :: nat

datatype js_error = DataShort | DataShortForShares | ValuesNotAligned | CountMismatch
  | CommitmentLengthJs | ShareValueLengthJs | ProofLengthJs
  | ShardShort | ChunkShort | KeyLengthShort | KeyDataShort
  | KzgJs kzg_error | HybridJs hybrid_error

subsection \<open>Results of the verifiable sharing\<close>

definition get_share :: "wasm_vss_split_result \<Rightarrow> nat \<Rightarrow> wasm_vss_share option" where
  "get_share r i = nth_opt i (wr_shares r)"

definition get_share_indices :: "wasm_vss_split_result \<Rightarrow> bytes" where
  "get_share_indices r = map ws_index (wr_shares r)"

definition get_share_values_flat :: "wasm_vss_split_result \<Rightarrow> bytes" where
  "get_share_values_flat r = concat (map ws_value (wr_shares r))"

definition get_proof :: "wasm_vss_split_result \<Rightarrow> nat \<Rightarrow> bytes option" where
  "get_proof r i = nth_opt i (wr_proofs r)"

definition vss_to_bytes :: "wasm_vss_split_result \<Rightarrow> bytes" where
  "vss_to_bytes r =
     (if wr_compressed r then 1 else 0) # le_bytes 4 (wr_original_len r) @ le_bytes 4 (wr_processed_len r)
       @ [word_of_nat (length (wr_shares r))] @ wr_commitment r
       @ concat (map (\<lambda>s. ws_index s # ws_value s) (wr_shares r)) @ concat (wr_proofs r)"

definition vss_from_bytes :: "bytes \<Rightarrow> (js_error, wasm_vss_split_result) result" where
  "vss_from_bytes data =
     ensure (10 \<le> length data) DataShort (
     let flags = data ! 0; share_count = unat (data ! 9)
     in ensure (10 + 48 + share_count * 33 + share_count * 48 \<le> length data) DataShortForShares (
          Inr \<lparr>wr_commitment = take 48 (drop 10 data),
            wr_shares = map (\<lambda>i. let offset = 58 + 33 * i in
               \<lparr>ws_index = data ! offset, ws_value = take 32 (drop (offset + 1) data)\<rparr>) [0..<share_count],
            wr_proofs = map (\<lambda>i. take 48 (drop (58 + 33 * share_count + 48 * i) data)) [0..<share_count],
            wr_compressed = (flags AND 1 \<noteq> 0),
            wr_original_len = le_val (take 4 (drop 1 data)),
            wr_processed_len = le_val (take 4 (drop 5 data))\<rparr>))"

definition vss_from_internal :: "vss_split_result \<Rightarrow> wasm_vss_split_result" where
  "vss_from_internal r =
     \<lparr>wr_commitment = vr_commitment r,
      wr_shares = map (\<lambda>s. \<lparr>ws_index = vs_index s, ws_value = vs_value s\<rparr>) (vr_shares r),
      wr_proofs = vr_proofs r, wr_compressed = vr_compressed r,
      wr_original_len = vr_original_len r, wr_processed_len = vr_processed_len r\<rparr>"

subsection \<open>Calls of the verifiable sharing\<close>

definition kzg_js :: "(kzg_error, 'a) result \<Rightarrow> (js_error, 'a) result" where
  "kzg_js r = bind_from KzgJs r Inr"

definition kzg_init_srs
  :: "('f, 'p, 'g, 'h, 't, 'm) curve_ops_scheme \<Rightarrow> ('g, 'h) srs option \<Rightarrow> bytes \<Rightarrow> (js_error, ('g, 'h) srs option) result" where
  "kzg_init_srs C global_srs bs = kzg_js (init_srs C global_srs bs)"

definition kzg_is_srs_initialized :: "('g, 'h) srs option \<Rightarrow> bool" where
  "kzg_is_srs_initialized global_srs \<longleftrightarrow> global_srs \<noteq> None"

definition kzg_vss_split
  :: "('f::field, 'p, 'g, 'h, 't, 'm) curve_ops_scheme \<Rightarrow> ('g, 'h) srs option \<Rightarrow> gzip \<Rightarrow> getrandom \<Rightarrow> bytes
      \<Rightarrow> 8 word \<Rightarrow> 8 word \<Rightarrow> (js_error, wasm_vss_split_result) result option" where
  "kzg_vss_split C global_srs g getrandom data threshold share_count =
     map_option (\<lambda>r. bind_from KzgJs r (\<lambda>x. Inr (vss_from_internal x)))
       (vss_split C global_srs g getrandom data (unat threshold) (unat share_count))"

definition kzg_vss_recover
  :: "('f::field, 'p, 'm) poly_ops_scheme \<Rightarrow> gzip \<Rightarrow> bytes \<Rightarrow> bytes \<Rightarrow> 8 word \<Rightarrow> bool \<Rightarrow> nat \<Rightarrow> nat
      \<Rightarrow> (js_error, bytes) result" where
  "kzg_vss_recover C g indices values_flat threshold compressed original_len processed_len =
     ensure (length values_flat mod 32 = 0) ValuesNotAligned (
     ensure (length indices = length values_flat div 32) CountMismatch (
     let shares = map2 (\<lambda>i v. \<lparr>vs_index = i, vs_value = v\<rparr>) indices (chunks_of 32 (length values_flat div 32) values_flat)
     in kzg_js (vss_recover C g shares (unat threshold) compressed original_len processed_len)))"

definition kzg_generate_proof
  :: "('f::field, 'p, 'g, 'h, 't, 'm) curve_ops_scheme \<Rightarrow> ('g, 'h) srs option \<Rightarrow> bytes \<Rightarrow> 8 word \<Rightarrow> bytes \<Rightarrow> bytes
      \<Rightarrow> (js_error, bytes) result option" where
  "kzg_generate_proof C global_srs commitment share_index share_value polynomial_coeffs =
     (if length commitment \<noteq> 48 then Some (Inl (Err CommitmentLengthJs))
      else if length share_value \<noteq> 32 then Some (Inl (Err ShareValueLengthJs))
      else map_option kzg_js
        (vss_prove C global_srs commitment \<lparr>vs_index = share_index, vs_value = share_value\<rparr> polynomial_coeffs))"

definition kzg_verify_proof
  :: "('f::field, 'p, 'g, 'h, 't, 'm) curve_ops_scheme \<Rightarrow> ('g, 'h) srs option \<Rightarrow> bytes \<Rightarrow> 8 word \<Rightarrow> bytes \<Rightarrow> bytes
      \<Rightarrow> (js_error, bool) result" where
  "kzg_verify_proof C global_srs commitment share_index share_value proof =
     ensure (length commitment = 48) CommitmentLengthJs (
     ensure (length share_value = 32) ShareValueLengthJs (
     ensure (length proof = 48) ProofLengthJs (
       kzg_js (verify_kzg_proof C global_srs commitment share_index share_value proof))))"

definition kzg_compress :: "gzip \<Rightarrow> bytes \<Rightarrow> bytes" where
  "kzg_compress g data = fst (compress g data)"

definition kzg_decompress :: "gzip \<Rightarrow> bytes \<Rightarrow> (js_error, bytes) result" where
  "kzg_decompress g data = kzg_js (decompress g data)"

subsection \<open>Shards of a post\<close>

text \<open>Sums of the 32-bit \<open>usize\<close>, and slices.\<close>

definition usize :: "nat \<Rightarrow> nat" where "usize n = n mod 2 ^ 32"

definition slice :: "bytes \<Rightarrow> nat \<Rightarrow> nat \<Rightarrow> bytes option" where
  "slice data a b = (if a \<le> b \<and> b \<le> length data then Some (take (b - a) (drop a data)) else None)"

definition shard_to_bytes :: "wasm_hybrid_shard \<Rightarrow> bytes" where
  "shard_to_bytes s =
     le_bytes 4 (wh_index s) @ le_bytes 4 (length (wh_chunk s)) @ [wh_key_share_index s] @ wh_chunk_hash s
       @ wh_chunk s @ le_bytes 4 (length (wh_key_share_data s)) @ wh_key_share_data s"

definition shard_from_bytes :: "bytes \<Rightarrow> (js_error, wasm_hybrid_shard) result" where
  "shard_from_bytes data =
     ensure (45 \<le> length data) ShardShort (
     let index = le_val (take 4 data); chunk_len = le_val (take 4 (drop 4 data)); key_share_index = data ! 8;
         chunk_hash = take 32 (drop 9 data)
     in ensure (usize (45 + chunk_len) \<le> length data) ChunkShort (
     or_trap (slice data 41 (usize (41 + chunk_len))) (\<lambda>chunk.
     let key_data_offset = usize (41 + chunk_len)
     in ensure (usize (key_data_offset + 4) \<le> length data) KeyLengthShort (
     or_trap (slice data key_data_offset (key_data_offset + 4)) (\<lambda>len_bytes.
     let key_share_len = le_val len_bytes
     in ensure (usize (key_data_offset + 4 + key_share_len) \<le> length data) KeyDataShort (
     or_trap (slice data (usize (key_data_offset + 4)) (usize (key_data_offset + 4 + key_share_len))) (\<lambda>key_share_data.
       Inr \<lparr>wh_index = index, wh_chunk = chunk, wh_chunk_hash = chunk_hash, wh_key_share_index = key_share_index,
            wh_key_share_data = key_share_data\<rparr>)))))))"

definition get_shard :: "wasm_hybrid_split_result \<Rightarrow> nat \<Rightarrow> wasm_hybrid_shard option" where
  "get_shard r i = nth_opt i (wy_shards r)"

definition metadata_to_bytes :: "wasm_hybrid_split_result \<Rightarrow> bytes" where
  "metadata_to_bytes r =
     le_bytes 4 (wy_original_len r) @ [if wy_compressed r then 1 else 0] @ le_bytes 4 (wy_ciphertext_len r)
       @ le_bytes 4 (wy_shard_size r) @ [word_of_nat (wy_threshold r), word_of_nat (wy_total_shards r)]"

definition shard_from_internal :: "hybrid_shard \<Rightarrow> wasm_hybrid_shard" where
  "shard_from_internal s =
     \<lparr>wh_index = hs_index s, wh_chunk = hs_chunk s, wh_chunk_hash = hs_chunk_hash s,
      wh_key_share_index = ks_index (hs_key_share s), wh_key_share_data = ks_data (hs_key_share s)\<rparr>"

definition hybrid_from_internal :: "hybrid_split_result \<Rightarrow> wasm_hybrid_split_result" where
  "hybrid_from_internal r =
     \<lparr>wy_shards = map shard_from_internal (hr_shards r), wy_original_len = hr_original_len r,
      wy_compressed = hr_compressed r, wy_ciphertext_len = hr_ciphertext_len r, wy_shard_size = hr_shard_size r,
      wy_threshold = hr_threshold r, wy_total_shards = hr_total_shards r\<rparr>"

definition wasm_hybrid_split
  :: "libs \<Rightarrow> rng \<Rightarrow> bytes \<Rightarrow> 8 word \<Rightarrow> 8 word \<Rightarrow> (js_error, wasm_hybrid_split_result) result" where
  "wasm_hybrid_split L getrandom data threshold shard_count =
     bind_from HybridJs (hybrid_split L getrandom data (unat threshold) (unat shard_count))
       (\<lambda>r. Inr (hybrid_from_internal r))"

definition shard_to_internal :: "wasm_hybrid_shard \<Rightarrow> hybrid_shard" where
  "shard_to_internal s =
     \<lparr>hs_index = wh_index s, hs_chunk = wh_chunk s, hs_chunk_hash = wh_chunk_hash s,
      hs_key_share = \<lparr>ks_index = wh_key_share_index s, ks_data = wh_key_share_data s\<rparr>\<rparr>"

primrec parse_shards :: "bytes list \<Rightarrow> (js_error, hybrid_shard list) result" where
  "parse_shards [] = Inr []"
| "parse_shards (bs # bss) =
     bind_ok (shard_from_bytes bs) (\<lambda>s. bind_ok (parse_shards bss) (\<lambda>ss. Inr (shard_to_internal s # ss)))"

definition wasm_hybrid_recover
  :: "libs \<Rightarrow> bytes list \<Rightarrow> 8 word \<Rightarrow> 8 word \<Rightarrow> nat \<Rightarrow> nat \<Rightarrow> nat \<Rightarrow> bool \<Rightarrow> (js_error, bytes) result" where
  "wasm_hybrid_recover L shard_bytes threshold total_shards original_len ciphertext_len shard_size compressed =
     bind_ok (parse_shards shard_bytes) (\<lambda>shards.
       bind_from HybridJs
         (hybrid_recover L shards (unat threshold) (unat total_shards) original_len ciphertext_len shard_size compressed)
         Inr)"

subsection \<open>Numbers and blocks\<close>

lemma le_val_le_bytes: "n < 256 ^ k \<Longrightarrow> le_val (le_bytes k n) = n"
  by (simp add: le_val_def be_value_le_bytes)

lemma le_val_4: "n < 2 ^ 32 \<Longrightarrow> le_val (le_bytes 4 n) = n"
  by (rule le_val_le_bytes) simp

lemma le_val_take_4: "le_val (take 4 bs) < 2 ^ 32"
proof -
  have "256 ^ length (rev (take 4 bs)) \<le> (256 :: nat) ^ 4" by (intro power_increasing) simp_all
  then show ?thesis using be_value_less [of "rev (take 4 bs)"] by (simp add: le_val_def)
qed

text \<open>Block \<open>i\<close> of a concatenation of blocks of one length.\<close>

lemma concat_block:
  assumes "\<forall>b \<in> set bs. length b = k" and "i < length bs"
  shows "drop (k * i) (concat bs @ rest) = bs ! i @ concat (drop (Suc i) bs) @ rest"
  using assms
proof (induction bs arbitrary: i)
  case (Cons b bs)
  then show ?case by (cases i) (simp_all add: mult.commute)
qed simp

lemma length_blocks: "\<forall>b \<in> set bs. length b = k \<Longrightarrow> length (concat bs) = k * length bs"
  by (induction bs) simp_all

subsection \<open>Round trip of the sharing\<close>

definition vss_result_wf :: "wasm_vss_split_result \<Rightarrow> bool" where
  "vss_result_wf r \<longleftrightarrow> length (wr_commitment r) = 48 \<and> length (wr_shares r) < 256
     \<and> (\<forall>s \<in> set (wr_shares r). length (ws_value s) = 32)
     \<and> length (wr_proofs r) = length (wr_shares r) \<and> (\<forall>p \<in> set (wr_proofs r). length p = 48)
     \<and> wr_original_len r < 2 ^ 32 \<and> wr_processed_len r < 2 ^ 32"

lemma vss_bytes_parse:
  assumes "vss_result_wf r"
  shows "vss_from_bytes (vss_to_bytes r @ rest) = Inr r"
proof -
  let ?n = "length (wr_shares r)"
  let ?sh = "map (\<lambda>s. ws_index s # ws_value s) (wr_shares r)"
  let ?data = "vss_to_bytes r @ rest"
  obtain f o4 p4 where d: "?data = f # o4 @ p4 @ [word_of_nat ?n] @ wr_commitment r @ concat ?sh @ concat (wr_proofs r) @ rest"
    and f: "f = (if wr_compressed r then 1 else 0)" and o4: "o4 = le_bytes 4 (wr_original_len r)"
    and p4: "p4 = le_bytes 4 (wr_processed_len r)" by (simp add: vss_to_bytes_def)
  have len: "length o4 = 4" "length p4 = 4" "length (wr_commitment r) = 48" "length (concat ?sh) = 33 * ?n"
      "length (concat (wr_proofs r)) = 48 * ?n"
    using assms length_blocks [of ?sh 33] length_blocks [of "wr_proofs r" 48] by (auto simp: vss_result_wf_def o4 p4)
  have n: "unat (word_of_nat ?n :: 8 word) = ?n" using assms by (simp add: vss_result_wf_def unat_of_nat)
  have nine: "?data ! 9 = word_of_nat ?n" by (simp add: d nth_append nth_Cons' len)
  have drop58: "drop 58 ?data = concat ?sh @ concat (wr_proofs r) @ rest" by (simp add: d len)
  have dropsh: "drop (58 + 33 * i) ?data = (ws_index (wr_shares r ! i) # ws_value (wr_shares r ! i))
      @ concat (drop (Suc i) ?sh) @ concat (wr_proofs r) @ rest" if "i < ?n" for i
  proof -
    have "drop (58 + 33 * i) ?data = drop (33 * i) (drop 58 ?data)" by (simp only: drop_drop add.commute)
    also have "\<dots> = ?sh ! i @ concat (drop (Suc i) ?sh) @ concat (wr_proofs r) @ rest"
      unfolding drop58 by (rule concat_block) (use assms that in \<open>auto simp: vss_result_wf_def\<close>)
    finally show ?thesis using that by simp
  qed
  have share: "?data ! (58 + 33 * i) = ws_index (wr_shares r ! i) \<and>
      take 32 (drop (58 + 33 * i + 1) ?data) = ws_value (wr_shares r ! i)" if "i < ?n" for i
  proof -
    have l: "length (ws_value (wr_shares r ! i)) = 32" using assms that by (simp add: vss_result_wf_def)
    have h: "?data ! (58 + 33 * i) = hd (drop (58 + 33 * i) ?data)"
      by (rule hd_drop_conv_nth [symmetric]) (use that in \<open>simp add: d len\<close>)
    have t: "drop (58 + 33 * i + 1) ?data = tl (drop (58 + 33 * i) ?data)"
      unfolding Suc_eq_plus1 [symmetric] by (simp only: drop_Suc tl_drop)
    show ?thesis unfolding h t dropsh [OF that] using l by simp
  qed
  have dropp: "drop (58 + 33 * ?n) ?data = concat (wr_proofs r) @ rest"
  proof -
    have "drop (58 + 33 * ?n) ?data = drop (33 * ?n) (drop 58 ?data)" by (simp only: drop_drop add.commute)
    then show ?thesis unfolding drop58 using len by simp
  qed
  have proof_at: "take 48 (drop (58 + 33 * ?n + 48 * i) ?data) = wr_proofs r ! i" if "i < ?n" for i
  proof -
    have l: "i < length (wr_proofs r)" using assms that by (simp add: vss_result_wf_def)
    have "drop (58 + 33 * ?n + 48 * i) ?data = drop (48 * i) (drop (58 + 33 * ?n) ?data)" by (simp only: drop_drop add.commute)
    also have "\<dots> = wr_proofs r ! i @ concat (drop (Suc i) (wr_proofs r)) @ rest"
      unfolding dropp by (rule concat_block [OF _ l]) (use assms in \<open>simp add: vss_result_wf_def\<close>)
    finally show ?thesis using assms l by (simp add: vss_result_wf_def)
  qed
  have shares: "map (\<lambda>i. \<lparr>ws_index = ?data ! (58 + 33 * i), ws_value = take 32 (drop (58 + 33 * i + 1) ?data)\<rparr>) [0..<?n] = wr_shares r"
    by (rule nth_equalityI) (use share in simp_all)
  have proofs: "map (\<lambda>i. take 48 (drop (58 + 33 * ?n + 48 * i) ?data)) [0..<?n] = wr_proofs r"
    by (rule nth_equalityI) (use assms proof_at in \<open>simp_all add: vss_result_wf_def\<close>)
  have flag: "(?data ! 0 AND 1 \<noteq> 0) = wr_compressed r" by (simp add: d f)
  have nums: "le_val (take 4 (drop 1 ?data)) = wr_original_len r" "le_val (take 4 (drop 5 ?data)) = wr_processed_len r"
    using assms by (simp_all add: d len) (simp_all add: o4 p4 le_val_4 vss_result_wf_def)
  have big: "10 \<le> length ?data" "10 + 48 + ?n * 33 + ?n * 48 \<le> length ?data" by (simp_all add: d len)
  have com: "take 48 (drop 10 ?data) = wr_commitment r" by (simp add: d len)
  show ?thesis unfolding vss_from_bytes_def Let_def nine n
    using big by (simp only: shares proofs flag nums com ensure_True) simp
qed

text \<open>The code serialises a point into an array of 48 bytes.\<close>

definition point_size_ok :: "('f, 'p, 'g, 'h, 't, 'm) curve_ops_scheme \<Rightarrow> bool" where
  "point_size_ok C \<longleftrightarrow> (\<forall>p bs. g1_serialize C p = Some bs \<longrightarrow> length bs = 48)"

lemma commitment_length: "point_size_ok C \<Longrightarrow>
    compute_commitment C srs p = Inr c \<Longrightarrow> length c = 48"
  by (auto simp: compute_commitment_def point_size_ok_def result_simps)

lemma single_proof_length: "point_size_ok C \<Longrightarrow>
    generate_single_proof C srs p i = Some (Inr c) \<Longrightarrow> length c = 48"
  by (auto simp: generate_single_proof_def Let_def bind_run_def commitment_length split: option.splits sum.splits)

lemma proofs_length:
  assumes "point_size_ok C"
  shows "generate_proofs C srs p shares = Some (Inr proofs) \<Longrightarrow>
    length proofs = length shares \<and> (\<forall>w \<in> set proofs. length w = 48)"
proof (induction shares arbitrary: proofs)
  case (Cons s ss)
  then obtain w ws where "generate_single_proof C srs p (vs_index s) = Some (Inr w)"
      "generate_proofs C srs p ss = Some (Inr ws)" "proofs = w # ws"
    by (auto simp: bind_run_def split: option.splits sum.splits)
  then show ?case using Cons.IH single_proof_length [OF assms] by auto
qed simp

lemma compress_shorter: "length (fst (compress g data)) \<le> length data"
  by (auto simp: compress_def split: option.splits)

lemma split_result_wf:
  assumes "vss_split C global_srs g getrandom data k n = Some (Inr x)"
    and "point_size_ok C" and "n < 256"
  shows "vss_result_wf (vss_from_internal x)"
proof -
  obtain pd zipped where pc: "compress g data = (pd, zipped)" by fastforce
  have "length pd \<le> length data" using compress_shorter [of g data] pc by simp
  moreover obtain srs p commitment proofs where d: "length data \<le> max_data_size"
    and c: "compute_commitment C srs p = Inr commitment"
    and pr: "generate_proofs C srs p (map (\<lambda>i. make_share C p (word_of_nat i)) [1..<n + 1]) = Some (Inr proofs)"
    and x: "vr_commitment x = commitment" "vr_shares x = map (\<lambda>i. make_share C p (word_of_nat i)) [1..<n + 1]"
      "vr_proofs x = proofs" "vr_original_len x = length data" "vr_processed_len x = length pd"
    using assms(1) pc
    by (auto simp: vss_split_def bind_run_def Let_def result_simps ensure_def ok_or_def
        split: option.splits sum.splits if_splits simp del: upt_Suc)
  moreover have "length (scalar_to_bytes C v) = 32" for v by (simp add: scalar_to_bytes_def)
  ultimately show ?thesis
    using commitment_length [OF assms(2) c] proofs_length [OF assms(2) pr] assms(3)
    by (auto simp: vss_result_wf_def vss_from_internal_def make_share_def max_data_size_def simp del: upt_Suc)
qed

text \<open>Every result of a split that the engine hands to JavaScript is read back from its bytes as it
  was, whatever follows them; points are serialised into 48 bytes.
\<close>

theorem vss_bytes_roundtrip:
  assumes "kzg_vss_split C global_srs g getrandom data threshold share_count = Some (Inr r)"
    and "point_size_ok C"
  shows "vss_from_bytes (vss_to_bytes r @ rest) = Inr r"
proof (rule vss_bytes_parse)
  from assms(1) obtain x where x: "vss_split C global_srs g getrandom data (unat threshold) (unat share_count) = Some (Inr x)"
    and r: "r = vss_from_internal x"
    by (auto simp: kzg_vss_split_def result_simps)
  show "vss_result_wf r"
    unfolding r by (rule split_result_wf [OF x]) (use assms(2) unat_byte_less in auto)
qed

subsection \<open>Shards as bytes\<close>

lemma usize_small: "n < 2 ^ 32 \<Longrightarrow> usize n = n"
  by (simp add: usize_def)

lemma usize_wrapped: "2 ^ 32 \<le> n \<Longrightarrow> n < 2 * 2 ^ 32 \<Longrightarrow> usize n = n - 2 ^ 32"
  unfolding usize_def by (simp add: mod_if)

lemma shard_bytes_parse:
  assumes "wh_index s < 2 ^ 32" and "length (wh_chunk_hash s) = 32" and "length (shard_to_bytes s) < 2 ^ 31"
  shows "shard_from_bytes (shard_to_bytes s @ rest) = Inr s"
proof -
  let ?c = "length (wh_chunk s)" and ?k = "length (wh_key_share_data s)" 
  define data where "data = shard_to_bytes s @ rest"
  have size: "45 + ?c + ?k < 2 ^ 31" using assms(2,3) by (simp add: shard_to_bytes_def)
  obtain i4 c4 k4 where d: "data = i4 @ c4 @ [wh_key_share_index s] @ wh_chunk_hash s @ wh_chunk s @ k4 @ wh_key_share_data s @ rest"
    and i4: "i4 = le_bytes 4 (wh_index s)" and c4: "c4 = le_bytes 4 ?c" and k4: "k4 = le_bytes 4 ?k"
    by (simp add: data_def shard_to_bytes_def)
  have len: "length i4 = 4" "length c4 = 4" "length k4 = 4" by (simp_all add: i4 c4 k4)
  have vals: "le_val i4 = wh_index s" "le_val c4 = ?c" "le_val k4 = ?k"
    using assms(1) size by (simp_all add: i4 c4 k4 le_val_4)
  have c: "le_val (take 4 (drop 4 data)) = ?c" by (simp add: d len vals)
  have chunk: "slice data 41 (41 + ?c) = Some (wh_chunk s)" using assms(2) by (simp add: slice_def d len)
  define A where "A = i4 @ c4 @ [wh_key_share_index s] @ wh_chunk_hash s @ wh_chunk s"
  have A: "data = A @ k4 @ wh_key_share_data s @ rest" "length A = 41 + ?c" using assms(2) by (simp_all add: A_def d len)
  have "slice data (length A) (length A + 4) = Some k4"
    unfolding A(1) by (simp add: slice_def len)
  then have key_len: "slice data (41 + ?c) (45 + ?c) = Some k4" by (simp add: A(2))
  have "slice data (length (A @ k4)) (length (A @ k4) + ?k) = Some (wh_key_share_data s)"
    unfolding A(1) by (simp add: slice_def)
  then have key: "slice data (45 + ?c) (45 + ?c + ?k) = Some (wh_key_share_data s)" by (simp add: A(2) len)
  have u: "usize (45 + ?c) = 45 + ?c" "usize (41 + ?c) = 41 + ?c" "usize (41 + ?c + 4) = 45 + ?c"
      "usize (45 + ?c) = 45 + ?c" "usize (45 + ?c + ?k) = 45 + ?c + ?k"
    using size by (simp_all add: usize_small)
  have big: "45 \<le> length data" "45 + ?c \<le> length data" "45 + ?c + ?k \<le> length data"
    using assms(2) by (simp_all add: d len)
  have rest: "le_val (take 4 data) = wh_index s" "data ! 8 = wh_key_share_index s" "take 32 (drop 9 data) = wh_chunk_hash s"
    using assms(2) by (simp_all add: d len vals nth_append)
  show ?thesis
    unfolding data_def [symmetric] shard_from_bytes_def Let_def c u by (simp add: big chunk key_len key vals u rest)
qed

text \<open>The two places where an index wraps: after the chunk and after the key share.\<close>

lemma shard_chunk_wraps:
  assumes "length data < 2 ^ 31" and "45 \<le> length data" and "2 ^ 32 \<le> 45 + le_val (take 4 (drop 4 data))"
  shows "shard_from_bytes data = Inl Trap"
proof -
  define chunk_len where "chunk_len = le_val (take 4 (drop 4 data))"
  have cl: "chunk_len < 2 ^ 32" unfolding chunk_len_def by (rule le_val_take_4)
  have wrap: "2 ^ 32 \<le> 45 + chunk_len" using assms(3) by (simp add: chunk_len_def)
  have "\<not> (41 \<le> usize (41 + chunk_len) \<and> usize (41 + chunk_len) \<le> length data)"
  proof (cases "2 ^ 32 \<le> 41 + chunk_len")
    case True
    then show ?thesis using usize_wrapped [OF True] cl by simp
  next
    case False
    then show ?thesis using usize_small [of "41 + chunk_len"] wrap assms(1) by simp
  qed
  then have "slice data 41 (usize (41 + chunk_len)) = None" by (simp add: slice_def)
  moreover have "usize (45 + chunk_len) \<le> length data" using usize_wrapped [OF wrap] cl assms(2) by simp
  ultimately show ?thesis using assms(2) by (simp add: shard_from_bytes_def Let_def chunk_len_def [symmetric])
qed

lemma shard_key_share:
  assumes "45 \<le> length data" and "45 + chunk_len < 2 ^ 32" and "chunk_len = le_val (take 4 (drop 4 data))"
    and "key_share_len = le_val (take 4 (drop (41 + chunk_len) data))"
  shows "shard_from_bytes data = (if length data < 45 + chunk_len then Inl (Err ChunkShort) else
      ensure (usize (45 + chunk_len + key_share_len) \<le> length data) KeyDataShort (
      or_trap (slice data (45 + chunk_len) (usize (45 + chunk_len + key_share_len))) (\<lambda>key_share_data.
        Inr \<lparr>wh_index = le_val (take 4 data), wh_chunk = take chunk_len (drop 41 data),
          wh_chunk_hash = take 32 (drop 9 data), wh_key_share_index = data ! 8, wh_key_share_data = key_share_data\<rparr>)))"
proof -
  have u: "usize (45 + chunk_len) = 45 + chunk_len" "usize (41 + chunk_len) = 41 + chunk_len"
      "usize (41 + chunk_len + 4) = 45 + chunk_len" using assms(2) by (simp_all add: usize_small)
  have "slice data 41 (41 + chunk_len) = Some (take chunk_len (drop 41 data))"
      "slice data (41 + chunk_len) (45 + chunk_len) = Some (take 4 (drop (41 + chunk_len) data))"
    if "45 + chunk_len \<le> length data" using that by (simp_all add: slice_def)
  then show ?thesis
    using assms(1) u by (auto simp: shard_from_bytes_def Let_def assms(3, 4) [symmetric] add.assoc)
qed

text \<open>C36: the declared lengths of a shard are added without a check: exactly when the length of the chunk
  or of the key share makes the 32-bit sum wrap, the call panics, which traps the engine, instead of
  returning the error it has for shards that are too short.
\<close>

theorem shard_from_bytes_traps:
  assumes "length data < 2 ^ 31"
  defines "chunk_len \<equiv> le_val (take 4 (drop 4 data))"
  defines "key_share_len \<equiv> le_val (take 4 (drop (41 + chunk_len) data))"
  shows "shard_from_bytes data = Inl Trap \<longleftrightarrow> 45 \<le> length data
     \<and> (2 ^ 32 \<le> 45 + chunk_len \<or> (45 + chunk_len \<le> length data \<and> 2 ^ 32 \<le> 45 + chunk_len + key_share_len))"
proof (cases "45 \<le> length data \<and> 45 + chunk_len < 2 ^ 32")
  case False
  then show ?thesis
  proof (cases "45 \<le> length data")
    case long: True
    then show ?thesis using False shard_chunk_wraps [OF assms(1) long] by (simp add: chunk_len_def)
  next
    case False
    then show ?thesis by (simp add: shard_from_bytes_def)
  qed
next
  case True
  have kl: "key_share_len < 2 ^ 32" unfolding key_share_len_def by (rule le_val_take_4)
  note e = shard_key_share [OF True [THEN conjunct1] True [THEN conjunct2] meta_eq_to_obj_eq [OF chunk_len_def]
      meta_eq_to_obj_eq [OF key_share_len_def]]
  show ?thesis
  proof (cases "2 ^ 32 \<le> 45 + chunk_len + key_share_len")
    case wrap: True
    then have "usize (45 + chunk_len + key_share_len) = 45 + chunk_len + key_share_len - 2 ^ 32"
      using True kl by (intro usize_wrapped) simp_all
    then have "usize (45 + chunk_len + key_share_len) < 45 + chunk_len" using kl True by simp
    then show ?thesis using True wrap e by (auto simp: slice_def)
  next
    case False
    then have "usize (45 + chunk_len + key_share_len) = 45 + chunk_len + key_share_len" by (simp add: usize_small)
    then show ?thesis using True False e by (simp add: ensure_def slice_def)
  qed
qed

subsection \<open>A post through its serialised shards\<close>

lemma hybrid_shard_facts:
  assumes "hybrid_split L getrandom data k n = Inr x" and "codec_ok L k (n - k)" and "s \<in> set (hr_shards x)"
  shows "hs_index s < n" and "hs_chunk_hash s = blake2b L (hs_chunk s)" and "length (ks_data (hs_key_share s)) = key_size"
    and "length (hs_chunk s) \<le> hr_ciphertext_len x + n" and "n \<le> 20"
proof -
  obtain ct rs len z key kss where rs: "rs_encode L ct k n = Inr (rs, len, z)"
    and ks: "key_split (\<lambda>i. getrandom (i + 2)) key k n = Inr kss" and ct: "hr_ciphertext_len x = length ct"
    and sh: "hr_shards x = map2 (\<lambda>r ks. \<lparr>hs_index = rs_index r, hs_chunk = rs_data r,
                   hs_chunk_hash = blake2b L (rs_data r), hs_key_share = ks\<rparr>) rs kss"
    using assms(1) by (auto simp: hybrid_split_def result_simps split: prod.splits)
  obtain rand where key: "length key = key_size" and n: "2 \<le> k" "k \<le> n" "n \<le> 20"
    and kss: "kss = map (share_of key rand) [1..<n + 1]"
    using key_split_Inr [OF ks] by metis
  obtain enc where z: "z = (length ct + k - 1) div k" and rs': "rs = map (\<lambda>(i, d). \<lparr>rs_index = i, rs_data = d\<rparr>) (enumerate 0 enc)"
    and enc: "rs_parity L k (n - k) (map (data_shard ct z) [0..<k] @ replicate (n - k) (replicate z 0)) = Some enc"
    using rs by (auto simp: rs_encode_def result_simps Let_def)
  have e: "length enc = n" "\<forall>d \<in> set enc. length d = z"
  proof -
    have c1: "length (map (data_shard ct z) [0..<k] @ replicate (n - k) (replicate z 0)) = k + (n - k)" by simp
    have c2: "\<forall>d \<in> set (map (data_shard ct z) [0..<k] @ replicate (n - k) (replicate z 0)). length d = z"
      by (auto simp: length_data_shard)
    have "length enc = k + (n - k)" by (rule codec_okD(1) [OF assms(2) c1 c2 enc])
    then show "length enc = n" using n(2) by linarith
    show "\<forall>d \<in> set enc. length d = z" by (rule codec_okD(3) [OF assms(2) c1 c2 enc])
  qed
  obtain i where i: "i < n" "s = \<lparr>hs_index = i, hs_chunk = enc ! i, hs_chunk_hash = blake2b L (enc ! i),
      hs_key_share = share_of key rand (i + 1)\<rparr>"
  proof -
    have l: "length rs = n" "length kss = n" using e by (simp_all add: rs' kss del: upt_Suc)
    obtain i where "i < n" "s = \<lparr>hs_index = rs_index (rs ! i), hs_chunk = rs_data (rs ! i),
        hs_chunk_hash = blake2b L (rs_data (rs ! i)), hs_key_share = kss ! i\<rparr>"
      using assms(3) l unfolding sh set_conv_nth by auto
    moreover have "rs ! i = \<lparr>rs_index = i, rs_data = enc ! i\<rparr>" "kss ! i = share_of key rand (i + 1)" if "i < n" for i
      using that e by (simp_all add: rs' kss nth_enumerate_eq del: upt_Suc)
    ultimately show thesis using that by auto
  qed
  have "z \<le> length ct + k - 1" unfolding z by (rule div_le_dividend)
  then show "length (hs_chunk s) \<le> hr_ciphertext_len x + n" using e i n ct by simp
  show "hs_index s < n" "hs_chunk_hash s = blake2b L (hs_chunk s)" "length (ks_data (hs_key_share s)) = key_size"
    using i key by simp_all
  show "n \<le> 20" by (rule n(3))
qed

lemma shard_internal [simp]: "shard_to_internal (shard_from_internal s) = s"
  by (simp add: shard_to_internal_def shard_from_internal_def)

lemma parse_shards_bytes:
  assumes "\<forall>s \<in> set ss. wh_index s < 2 ^ 32 \<and> length (wh_chunk_hash s) = 32 \<and> length (shard_to_bytes s) < 2 ^ 31"
  shows "parse_shards (map shard_to_bytes ss) = Inr (map shard_to_internal ss)"
  using assms
proof (induction ss)
  case (Cons s ss)
  then show ?case using shard_bytes_parse [of s "[]"] by simp
qed simp

text \<open>C11: a post split in the browser, its shards serialised, stored and read back, and any \<open>k\<close> of them in
  any order: recovery returns the post, and no call traps.
\<close>

theorem wasm_hybrid_roundtrip:
  assumes "wasm_hybrid_split L getrandom data k n = Inr res"
    and "codec_ok L (unat k) (unat n - unat k)" and "cipher_ok L" and "gzip_ok (gz L)" and "rng_ok getrandom"
    and "\<And>bs. length (blake2b L bs) = 32" and "wy_ciphertext_len res < 2 ^ 30"
    and "set used \<subseteq> set (wy_shards res)" and "distinct used" and "unat k \<le> length used"
  shows "wasm_hybrid_recover L (map shard_to_bytes used) k n (wy_original_len res) (wy_ciphertext_len res)
    (wy_shard_size res) (wy_compressed res) = Inr data"
proof -
  obtain x where x: "hybrid_split L getrandom data (unat k) (unat n) = Inr x" and res: "res = hybrid_from_internal x"
    using assms(1) by (auto simp: wasm_hybrid_split_def result_simps)
  have from_x: "\<exists>h \<in> set (hr_shards x). s = shard_from_internal h" if "s \<in> set used" for s
    using that assms(8) by (auto simp: res hybrid_from_internal_def)
  have "wh_index s < 2 ^ 32 \<and> length (wh_chunk_hash s) = 32 \<and> length (shard_to_bytes s) < 2 ^ 31" if "s \<in> set used" for s
  proof -
    from from_x [OF that] obtain h where h: "h \<in> set (hr_shards x)" "s = shard_from_internal h" by blast
    note f = hybrid_shard_facts [OF x assms(2) h(1)]
    have "hr_ciphertext_len x < 2 ^ 30" using assms(7) by (simp add: res hybrid_from_internal_def)
    then show ?thesis using f assms(6) by (simp add: h(2) shard_from_internal_def shard_to_bytes_def key_size_def)
  qed
  then have parsed: "parse_shards (map shard_to_bytes used) = Inr (map shard_to_internal used)"
    by (intro parse_shards_bytes) blast
  have sub: "set (map shard_to_internal used) \<subseteq> set (hr_shards x)" using from_x by fastforce
  have "inj_on shard_to_internal (set used)"
    by (rule inj_onI) (simp add: shard_to_internal_def)
  then have dist: "distinct (map shard_to_internal used)" using assms(9) by (simp add: distinct_map)
  have "hybrid_recover L (map shard_to_internal used) (unat k) (unat n) (hr_original_len x) (hr_ciphertext_len x)
      (hr_shard_size x) (hr_compressed x) = Inr data"
    by (rule hybrid_roundtrip [OF x assms(2-5) sub dist]) (simp add: assms(10))
  then show ?thesis using parsed by (simp add: wasm_hybrid_recover_def res hybrid_from_internal_def)
qed

subsection \<open>Witnesses\<close>

definition wasm_curve :: "(gf256, gf256 list, gf256, gf256, gf256) curve_ops" where
  "wasm_curve = demo_curve\<lparr>g1_serialize := \<lambda>a. Some (byte_of a # replicate 47 0),
     g1_deserialize := \<lambda>bs. Some (gf_of (hd bs))\<rparr>"

lemma wasm_curve_ok: "curve_ok wasm_curve"
  using demo_curve_ok unfolding curve_ok_def wasm_curve_def
  by (simp add: poly_ok_def scalar_ok_def scalar_to_bytes_def demo_curve_def byte_of_inverse)

theorem vss_bytes_roundtrip_witness:
  "\<exists>r. kzg_vss_split wasm_curve (Some demo_srs) demo_gzip demo_random [5] 2 3 = Some (Inr r)
     \<and> vss_from_bytes (vss_to_bytes r @ [1]) = Inr r"
proof -
  have "srs_ok wasm_curve (gf_of 3) demo_srs" using demo_srs_ok by (simp add: srs_ok_def wasm_curve_def)
  moreover have "split_input wasm_curve demo_srs demo_gzip demo_random [5] 2 3 [gf_of 5] [gf_of 7]"
    by (simp add: split_input_def demo_srs_def demo_gzip_def demo_random_def compress_def encode_to_scalars_def demo_curve_def
        wasm_curve_def max_data_size_def min_compress_size_def num_chunks_def bytes_per_scalar_def chunk_of_def
        zero_gf256_def gf_of_inject)
  ultimately obtain x where "vss_split wasm_curve (Some demo_srs) demo_gzip demo_random [5] 2 3 = Some (Inr x)"
    using vss_split_laws [OF wasm_curve_ok] by metis
  then have s: "kzg_vss_split wasm_curve (Some demo_srs) demo_gzip demo_random [5] 2 3 = Some (Inr (vss_from_internal x))"
    by (simp add: kzg_vss_split_def)
  have "point_size_ok wasm_curve" by (simp add: point_size_ok_def wasm_curve_def)
  from vss_bytes_roundtrip [OF s this] s show ?thesis by blast
qed

theorem shard_from_bytes_traps_witness:
  "shard_from_bytes (replicate 4 0 @ replicate 4 0xff @ replicate 40 0) = Inl Trap"
proof -
  let ?data = "replicate 4 0 @ replicate 4 0xff @ replicate 40 (0 :: 8 word)"
  have "length ?data < 2 ^ 31" by simp
  note traps = shard_from_bytes_traps [OF this]
  have r: "replicate 4 (0xff :: 8 word) = [0xff, 0xff, 0xff, 0xff]" by (simp add: numeral_eq_Suc)
  have "take 4 (drop 4 ?data) = [0xff, 0xff, 0xff, 0xff]" by (simp add: r [symmetric])
  moreover have "le_val [0xff, 0xff, 0xff, 0xff] = 2 ^ 32 - 1" by (simp add: le_val_def)
  ultimately have "2 ^ 32 \<le> 45 + le_val (take 4 (drop 4 ?data))" by simp
  then show ?thesis unfolding traps by simp
qed

theorem wasm_hybrid_roundtrip_witness:
  "\<exists>res a b. wasm_hybrid_split demo_libs demo_rng [9] 2 3 = Inr res \<and> {a, b} \<subseteq> set (wy_shards res) \<and> a \<noteq> b
     \<and> wasm_hybrid_recover demo_libs [shard_to_bytes b, shard_to_bytes a] 2 3 (wy_original_len res)
         (wy_ciphertext_len res) (wy_shard_size res) (wy_compressed res) = Inr [9]"
proof -
  let ?res = "hybrid_from_internal demo_result"
  have s: "wasm_hybrid_split demo_libs demo_rng [9] 2 3 = Inr ?res"
    using demo_hybrid_split by (simp add: wasm_hybrid_split_def)
  have d: "distinct (hr_shards demo_result)" by (rule hybrid_split_distinct [of demo_libs demo_rng "[9]" 2 3])
      (use demo_hybrid_split in simp)
  have "inj_on shard_from_internal (set (hr_shards demo_result))" by (rule inj_onI) (metis shard_internal)
  then have dw: "distinct (wy_shards ?res)" using d by (simp add: hybrid_from_internal_def distinct_map)
  let ?a = "wy_shards ?res ! 0" and ?b = "wy_shards ?res ! 2"
  have l: "length (wy_shards ?res) = 3" using demo_hybrid_split by (simp add: hybrid_from_internal_def)
  have ab: "?a \<noteq> ?b" "{?a, ?b} \<subseteq> set (wy_shards ?res)" using l dw by (simp_all add: nth_eq_iff_index_eq)
  have "wasm_hybrid_recover demo_libs (map shard_to_bytes [?b, ?a]) 2 3 (wy_original_len ?res)
         (wy_ciphertext_len ?res) (wy_shard_size ?res) (wy_compressed ?res) = Inr [9]"
  proof (rule wasm_hybrid_roundtrip [OF s])
    show "codec_ok demo_libs (unat (2 :: 8 word)) (unat (3 :: 8 word) - unat (2 :: 8 word))" using demo_codec_ok by simp
    show "cipher_ok demo_libs" by (simp add: cipher_ok_def demo_libs_def)
    show "gzip_ok (gz demo_libs)" by (simp add: gzip_ok_def demo_libs_def)
    show "rng_ok demo_rng" by (simp add: rng_ok_def demo_rng_def)
    show "length (blake2b demo_libs bs) = 32" for bs by (simp add: demo_libs_def)
    show "wy_ciphertext_len ?res < 2 ^ 30" using demo_hybrid_split by (simp add: hybrid_from_internal_def)
  qed (use ab in auto)
  with s ab show ?thesis by (intro exI [of _ ?res] exI [of _ ?a] exI [of _ ?b]) simp
qed

end
