(* ===== verification/Srs_Text.thy ===== *)
theory Srs_Text
  imports Wasm_Bindings Rust_Text
begin

text \<open>
  The text format of the Ethereum ceremony for the reference string, which the browser engine
  (\<open>src/packages/wasm-engine/src/kzg/srs.rs\<close>) and the prover of the storage node daemon
  (\<open>src/apps/storage-node/src/prover.rs\<close>) read with the same loop and different decoders of
  hexadecimal: two counts, the points of the first group and those of the second, one to a line.
  \<open>w\<close> is the width of \<open>usize\<close>, whose sums wrap; \<open>point_size\<close> is the size of a point in memory, by
  which the reservation of a vector panics when it exceeds \<open>isize::MAX\<close>.
\<close>

subsection \<open>The loop\<close>

datatype srs_text_error = SrsTooShort | BadG1Count | BadG2Count | NoG1Points | FewG2Points | MissingLines nat nat
  | G1Hex nat | G1Size nat nat | G1Point nat | TauHex | TauSize nat | TauPoint

type_synonym hex_decoder = "string \<Rightarrow> (unit, bytes) result"

primrec read_g1
  :: "hex_decoder \<Rightarrow> (bytes \<Rightarrow> 'g option) \<Rightarrow> string list \<Rightarrow> nat \<Rightarrow> nat \<Rightarrow> (srs_text_error, 'g list) result" where
  "read_g1 hex de lines i 0 = Inr []"
| "read_g1 hex de lines i (Suc n) =
     or_trap (nth_opt (2 + i) lines) (\<lambda>line.
     bind_from (\<lambda>_. G1Hex i) (hex (text_trim line)) (\<lambda>bs.
     ensure (length bs = 48) (G1Size i (length bs)) (
     ok_or (de bs) (G1Point i) (\<lambda>p.
     bind_ok (read_g1 hex de lines (Suc i) n) (\<lambda>ps. Inr (p # ps))))))"

definition read_ceremony_text
  :: "nat \<Rightarrow> nat \<Rightarrow> hex_decoder \<Rightarrow> (bytes \<Rightarrow> 'g option) \<Rightarrow> (bytes \<Rightarrow> 'h option) \<Rightarrow> string
      \<Rightarrow> (srs_text_error, 'g list \<times> 'h) result" where
  "read_ceremony_text w point_size hex g1_de g2_de text =
     (let lines = text_lines text in
     ensure (4 \<le> length lines) SrsTooShort (
     ok_or (parse_usize w (text_trim (lines ! 0))) BadG1Count (\<lambda>num_g1.
     ok_or (parse_usize w (text_trim (lines ! 1))) BadG2Count (\<lambda>num_g2.
     ensure (num_g1 \<noteq> 0) NoG1Points (
     ensure (2 \<le> num_g2) FewG2Points (
     let expected_lines = (2 + num_g1 + num_g2) mod 2 ^ w in
     ensure (expected_lines \<le> length lines) (MissingLines expected_lines (length lines)) (
     if 2 ^ (w - 1) \<le> num_g1 * point_size then Inl Trap
     else bind_ok (read_g1 hex g1_de lines 0 num_g1) (\<lambda>powers.
          or_trap (nth_opt (2 + num_g1 + 1) lines) (\<lambda>line.
          bind_from (\<lambda>_. TauHex) (hex (text_trim line)) (\<lambda>bs.
          ensure (length bs = 96) (TauSize (length bs)) (
          ok_or (g2_de bs) TauPoint (\<lambda>tau. Inr (powers, tau)))))))))))))"

subsection \<open>The engine\<close>

text \<open>
  Two characters are parsed by \<open>u8::from_str_radix\<close>, which accepts a plus sign. A slice that would
  cut a character of several bytes panics.
\<close>

definition from_str_radix16 :: "char \<Rightarrow> char \<Rightarrow> 8 word option" where
  "from_str_radix16 a b =
     (if a = CHR ''+'' then map_option word_of_nat (hex_val b)
      else case hex_val a of None \<Rightarrow> None | Some x \<Rightarrow> map_option (\<lambda>y. word_of_nat (16 * x + y)) (hex_val b))"

definition char_boundary :: "string \<Rightarrow> bool" where
  "char_boundary rest = (case rest of [] \<Rightarrow> True | c # _ \<Rightarrow> \<not> ((128 :: nat) \<le> of_char c \<and> of_char c < (192 :: nat)))"

fun hex_pairs :: hex_decoder where
  "hex_pairs [] = Inr []"
| "hex_pairs [a] = Inl Trap"
| "hex_pairs (a # b # rest) =
     (if char_boundary rest
      then ok_or (from_str_radix16 a b) () (\<lambda>v. bind_ok (hex_pairs rest) (\<lambda>vs. Inr (v # vs)))
      else Inl Trap)"

definition hex_to_bytes :: hex_decoder where
  "hex_to_bytes hex = ensure (even (length hex)) () (hex_pairs hex)"

definition srs_message :: "srs_text_error \<Rightarrow> kzg_error" where
  "srs_message e = EncodingError (case e of
       SrsTooShort \<Rightarrow> ''SRS text too short'' | BadG1Count \<Rightarrow> ''Invalid G1 count'' | BadG2Count \<Rightarrow> ''Invalid G2 count''
     | NoG1Points \<Rightarrow> ''SRS must have at least 1 G1 point''
     | FewG2Points \<Rightarrow> ''SRS must have at least 2 G2 points (need G2[1])''
     | MissingLines expected actual \<Rightarrow> ''Expected '' @ decimal expected @ '' lines, got '' @ decimal actual
     | G1Hex i \<Rightarrow> ''G1['' @ decimal i @ ''] hex error''
     | G1Size i l \<Rightarrow> ''G1['' @ decimal i @ ''] wrong size: expected 48 bytes, got '' @ decimal l
     | G1Point i \<Rightarrow> ''G1['' @ decimal i @ ''] deserialize error''
     | TauHex \<Rightarrow> ''tau_g2 hex error'' | TauSize l \<Rightarrow> ''tau_g2 wrong size: expected 96 bytes, got '' @ decimal l
     | TauPoint \<Rightarrow> ''tau_g2 deserialize error'')"

definition load_srs_from_ceremony_text
  :: "('f, 'p, 'g, 'h, 't, 'm) curve_ops_scheme \<Rightarrow> nat \<Rightarrow> string \<Rightarrow> (kzg_error, ('g, 'h) srs) result" where
  "load_srs_from_ceremony_text C point_size text =
     bind_from srs_message (read_ceremony_text 32 point_size hex_to_bytes (g1_deserialize C) (g2_deserialize C) text)
       (\<lambda>(powers, tau). Inr \<lparr>powers_of_g1 = powers, tau_g2 = tau\<rparr>)"

definition init_srs_from_ceremony_text
  :: "('f, 'p, 'g, 'h, 't, 'm) curve_ops_scheme \<Rightarrow> nat \<Rightarrow> ('g, 'h) srs option \<Rightarrow> string
      \<Rightarrow> (kzg_error, ('g, 'h) srs option) result" where
  "init_srs_from_ceremony_text C point_size global_srs text =
     (if global_srs \<noteq> None then Inr global_srs
      else bind_ok (load_srs_from_ceremony_text C point_size text) (\<lambda>srs. Inr (Some srs)))"

subsection \<open>Reading back a written file\<close>

definition ceremony_text :: "bytes list \<Rightarrow> bytes list \<Rightarrow> string" where
  "ceremony_text ps qs =
     concat (map (\<lambda>l. l @ [newline])
       (decimal (length ps) # decimal (length qs) # map hex_encode ps @ map hex_encode qs))"

lemma from_str_radix16_digits: "from_str_radix16 (hex_digit (unat b div 16)) (hex_digit (unat b mod 16)) = Some b"
proof -
  have "hex_digit (unat b div 16) \<noteq> CHR ''+''" using hex_digit_graphic nibbles(1) by blast
  moreover have "word_of_nat (16 * (unat b div 16) + unat b mod 16) = b" by (simp only: mult_div_mod_eq) simp
  ultimately show ?thesis
    by (simp add: from_str_radix16_def hex_val_digit nibbles del: of_nat_add of_nat_mult)
qed

lemma hex_encode_Cons: "hex_encode (b # bs) = hex_digit (unat b div 16) # hex_digit (unat b mod 16) # hex_encode bs"
  by (simp add: hex_encode_def)

lemma hex_encode_boundary: "char_boundary (hex_encode bs)"
  using hex_encode_graphic [of bs] by (cases "hex_encode bs") (auto simp: char_boundary_def graphic_def)

lemma hex_pairs_encode: "hex_pairs (hex_encode bs) = Inr bs"
proof (induction bs)
  case (Cons b bs)
  then show ?case by (simp add: hex_encode_Cons hex_encode_boundary from_str_radix16_digits)
qed (simp add: hex_encode_def)

lemma hex_to_bytes_encode: "hex_to_bytes (hex_encode bs) = Inr bs"
proof -
  have "even (length (hex_encode bs))" by (induction bs) (simp_all add: hex_encode_def)
  then show ?thesis by (simp add: hex_to_bytes_def hex_pairs_encode)
qed

lemma graphic_lines:
  assumes "\<forall>c \<in> set l. graphic c"
  shows "text_trim l = l" and "newline \<notin> set l \<and> (l = [] \<or> last l \<noteq> carriage_return)"
proof -
  show "text_trim l = l" by (rule text_trim_id) (use assms in auto)
  show "newline \<notin> set l \<and> (l = [] \<or> last l \<noteq> carriage_return)"
  proof -
    have "\<not> graphic newline" "\<not> graphic carriage_return" by (simp_all add: graphic_def newline_def carriage_return_def)
    then show ?thesis using assms last_in_set [of l] by metis
  qed
qed

lemma decimal_graphic: "\<forall>c \<in> set (decimal n). graphic c"
  using decimal_digits [of n] by (auto simp: is_digit_def graphic_def)

lemma read_g1_encode:
  assumes "\<And>bs. hex (hex_encode bs) = Inr bs"
    and "length ps \<le> n" and "\<forall>j < length ps. nth_opt (2 + (i + j)) lines = Some (hex_encode (ps ! j))"
    and "\<forall>bs \<in> set ps. length bs = 48 \<and> de bs = Some (point bs)"
  shows "read_g1 hex de lines i (length ps) = Inr (map point ps)"
  using assms(2-4)
proof (induction ps arbitrary: i)
  case (Cons b bs)
  have "nth_opt (2 + i) lines = Some (hex_encode b)" using Cons.prems(2) by force
  moreover have "read_g1 hex de lines (Suc i) (length bs) = Inr (map point bs)"
  proof (rule Cons.IH)
    show "\<forall>j < length bs. nth_opt (2 + (Suc i + j)) lines = Some (hex_encode (bs ! j))"
    proof (intro allI impI)
      fix j assume "j < length bs"
      then show "nth_opt (2 + (Suc i + j)) lines = Some (hex_encode (bs ! j))"
        using Cons.prems(2) [rule_format, of "Suc j"] by simp
    qed
  qed (use Cons.prems in auto)
  ultimately show ?case
    using Cons.prems(3) assms(1) by (simp add: graphic_lines(1) hex_encode_graphic)
qed simp

lemma read_ceremony_encode:
  assumes hex: "\<And>bs. hex (hex_encode bs) = Inr bs"
    and "ps \<noteq> []" and "2 \<le> length qs" and "2 + length ps + length qs < 2 ^ w" and "length ps * point_size < 2 ^ (w - 1)"
    and "\<forall>bs \<in> set ps. length bs = 48 \<and> g1_de bs = Some (point bs)"
    and "length (qs ! 1) = 96" and "g2_de (qs ! 1) = Some tau"
  shows "read_ceremony_text w point_size hex g1_de g2_de (ceremony_text ps qs) = Inr (map point ps, tau)"
proof -
  let ?ls = "decimal (length ps) # decimal (length qs) # map hex_encode ps @ map hex_encode qs"
  have g: "\<forall>l \<in> set ?ls. \<forall>c \<in> set l. graphic c" using decimal_graphic hex_encode_graphic by auto
  then have lines: "text_lines (ceremony_text ps qs) = ?ls"
    unfolding ceremony_text_def by (intro text_lines_join ballI graphic_lines(2)) blast
  have g1: "read_g1 hex g1_de ?ls 0 (length ps) = Inr (map point ps)"
    by (rule read_g1_encode [OF hex order_refl]) (use assms(6) in \<open>auto simp: nth_opt_def nth_append\<close>)
  have tau: "nth_opt (2 + length ps + 1) ?ls = Some (hex_encode (qs ! 1))"
    using assms(3) by (simp add: nth_opt_def nth_append)
  have n: "parse_usize w (text_trim (?ls ! 0)) = Some (length ps)" "parse_usize w (text_trim (?ls ! 1)) = Some (length qs)"
    using assms(4) by (simp_all add: graphic_lines(1) decimal_graphic parse_usize_decimal)
  have l: "4 \<le> length ?ls" "(2 + length ps + length qs) mod 2 ^ w = length ?ls" "length ps \<noteq> 0"
    using assms(2-4) by (auto simp: Suc_le_eq)
  have t: "hex (text_trim (hex_encode (qs ! 1))) = Inr (qs ! 1)"
    using hex by (simp add: graphic_lines(1) hex_encode_graphic)
  show ?thesis
    unfolding read_ceremony_text_def lines Let_def n
    using assms(3,5,7,8) l by (simp only: g1 tau t ok_or_simps or_trap_simps bind_ok_simps bind_from_simps ensure_True) simp
qed

end
