(* ===== verification/Kzg_Prover.thy ===== *)
theory Kzg_Prover
  imports Srs_Text Utf8
begin

text \<open>
  The two ends of a proof of holding: the prover of the storage node daemon
  (\<open>src/apps/storage-node/src/prover.rs\<close>) with its stored shares and its reference string, and the
  verifier of the chain (\<open>src/apps/blockchain/pallets/storage/src/kzg.rs\<close>) with the point of the
  ceremony (\<open>src/packages/kzg-constants/src/lib.rs\<close>). The daemon is a 64-bit program.
\<close>

subsection \<open>The prover\<close>

record stored_share =
  ss_content_hash :: bytes
  ss_share_index :: "8 word"
  ss_share_value :: bytes
  ss_polynomial_coeffs :: bytes

record ('g, 'h) prover =
  pv_shares :: "bytes \<times> 8 word \<rightharpoonup> stored_share"
  pv_srs_g1 :: "'g list"
  pv_tau_g2 :: "'h option"

datatype prover_error = SrsFileUnread | SrsNotUtf8 | SrsText srs_text_error | SrsTooSmall nat nat | SrsG1Point | SrsG2Point
  | ShareNotFound | ProverSrsNotLoaded | NoCoefficients | EmptyPolynomial | DegreeExceedsSrs nat nat
  | CoefficientsUnaligned | ProofNotSerialized

definition prover_new :: "('g, 'h) prover" where
  "prover_new = \<lparr>pv_shares = (\<lambda>_. None), pv_srs_g1 = [], pv_tau_g2 = None\<rparr>"

definition prover_with_srs :: "'g list \<Rightarrow> ('g, 'h) prover" where
  "prover_with_srs powers = \<lparr>pv_shares = (\<lambda>_. None), pv_srs_g1 = powers, pv_tau_g2 = None\<rparr>"

definition prover_load_text
  :: "('f, 'p, 'g, 'h, 't, 'm) curve_ops_scheme \<Rightarrow> hex_decoder \<Rightarrow> nat \<Rightarrow> string \<Rightarrow> ('g, 'h) prover
      \<Rightarrow> (prover_error, ('g, 'h) prover) result" where
  "prover_load_text C hex point_size text P =
     bind_from SrsText (read_ceremony_text 64 point_size hex (g1_deserialize C) (g2_deserialize C) text)
       (\<lambda>(powers, tau). Inr (P\<lparr>pv_srs_g1 := powers, pv_tau_g2 := Some tau\<rparr>))"

definition prover_load_bytes
  :: "('f, 'p, 'g, 'h, 't, 'm) curve_ops_scheme \<Rightarrow> bytes \<Rightarrow> ('g, 'h) prover \<Rightarrow> (prover_error, ('g, 'h) prover) result" where
  "prover_load_bytes C bs P =
     ensure (4 + 48 + 96 \<le> length bs) (SrsTooSmall (4 + 48 + 96) (length bs)) (
     let num_g1 = le_val (take 4 bs); expected_size = 4 + num_g1 * 48 + 96
     in ensure (expected_size \<le> length bs) (SrsTooSmall expected_size (length bs)) (
        ok_or (those (map (g1_deserialize C) (chunks_of 48 num_g1 (drop 4 bs)))) SrsG1Point (\<lambda>powers.
        ok_or (g2_deserialize C (take 96 (drop (4 + num_g1 * 48) bs))) SrsG2Point (\<lambda>tau.
          Inr (P\<lparr>pv_srs_g1 := powers, pv_tau_g2 := Some tau\<rparr>)))))"

text \<open>\<open>file\<close> is what reading the file gives. A file that begins with an ASCII digit is taken for text.\<close>

definition prover_load_file
  :: "('f, 'p, 'g, 'h, 't, 'm) curve_ops_scheme \<Rightarrow> hex_decoder \<Rightarrow> nat \<Rightarrow> bytes option \<Rightarrow> ('g, 'h) prover
      \<Rightarrow> (prover_error, ('g, 'h) prover) result" where
  "prover_load_file C hex point_size file P =
     ok_or file SrsFileUnread (\<lambda>bs.
       if 4 < length bs \<and> 48 \<le> unat (bs ! 0) \<and> unat (bs ! 0) \<le> 57
       then ok_or (from_utf8 bs) SrsNotUtf8 (\<lambda>text. prover_load_text C hex point_size text P)
       else prover_load_bytes C bs P)"

primrec tau_powers :: "('f::field, 'p, 'g, 'h, 't, 'm) curve_ops_scheme \<Rightarrow> 'f \<Rightarrow> 'f \<Rightarrow> nat \<Rightarrow> 'g list" where
  "tau_powers C tau tau_power 0 = []"
| "tau_powers C tau tau_power (Suc n) = g1_mul C (g1_generator C) tau_power # tau_powers C tau (tau_power * tau) n"

definition prover_init_test_srs
  :: "('f::field, 'p, 'g, 'h, 't, 'm) curve_ops_scheme \<Rightarrow> nat \<Rightarrow> ('g, 'h) prover \<Rightarrow> ('g, 'h) prover" where
  "prover_init_test_srs C max_degree P =
     (let tau = fr_from_u64 C 12345
      in P\<lparr>pv_srs_g1 := tau_powers C tau (fr_from_u64 C 1) (max_degree + 1),
           pv_tau_g2 := Some (g2_mul C (g2_generator C) tau)\<rparr>)"

definition prover_is_srs_loaded :: "('g, 'h) prover \<Rightarrow> bool" where
  "prover_is_srs_loaded P \<longleftrightarrow> pv_srs_g1 P \<noteq> []"

definition prover_srs_degree :: "('g, 'h) prover \<Rightarrow> nat" where
  "prover_srs_degree P = (if pv_srs_g1 P = [] then 0 else length (pv_srs_g1 P) - 1)"

definition prover_store_share :: "stored_share \<Rightarrow> ('g, 'h) prover \<Rightarrow> ('g, 'h) prover" where
  "prover_store_share s P = P\<lparr>pv_shares := (pv_shares P)((ss_content_hash s, ss_share_index s) \<mapsto> s)\<rparr>"

definition prover_remove_share :: "bytes \<Rightarrow> 8 word \<Rightarrow> ('g, 'h) prover \<Rightarrow> ('g, 'h) prover" where
  "prover_remove_share h i P = P\<lparr>pv_shares := (pv_shares P)((h, i) := None)\<rparr>"

definition prover_decode_coeffs :: "('f, 'm) scalar_ops_scheme \<Rightarrow> bytes \<Rightarrow> (prover_error, 'f list) result" where
  "prover_decode_coeffs C bs =
     ensure (length bs mod 32 = 0) CoefficientsUnaligned (
       Inr (map (bytes_to_scalar C) (chunks_of 32 (length bs div 32) bs)))"

definition prover_evaluate :: "('f::field, 'p, 'm) poly_ops_scheme \<Rightarrow> 'p \<Rightarrow> 'f \<Rightarrow> 'f" where
  "prover_evaluate C p x =
     fst (fold (\<lambda>coeff (result, x_power). (result + coeff * x_power, x_power * x)) (dp_coeffs C p)
       (fr_from_u64 C 0, fr_from_u64 C 1))"

definition synthetic_quotient :: "'f::field \<Rightarrow> 'f list \<Rightarrow> 'f list" where
  "synthetic_quotient z cs =
     (let n = length cs; zeros = replicate (n - 1) 0
      in if 1 < n
         then fold (\<lambda>i q. q[i := cs ! (i + 1) + z * q ! (i + 1)]) (rev [0..<n - 2]) (zeros[n - 2 := cs ! (n - 1)])
         else zeros)"

definition prover_compute_quotient :: "('f::field, 'p, 'm) poly_ops_scheme \<Rightarrow> 'p \<Rightarrow> 'f \<Rightarrow> 'f \<Rightarrow> (prover_error, 'p) result" where
  "prover_compute_quotient C p z y =
     ensure (dp_coeffs C p \<noteq> []) EmptyPolynomial (
       Inr (from_coefficients_vec C (synthetic_quotient z (dp_coeffs C p))))"

definition prover_commit
  :: "('f::field, 'p, 'g, 'h, 't, 'm) curve_ops_scheme \<Rightarrow> ('g, 'h) prover \<Rightarrow> 'p \<Rightarrow> (prover_error, 'g) result" where
  "prover_commit C P p =
     ensure (length (dp_coeffs C p) \<le> length (pv_srs_g1 P))
       (DegreeExceedsSrs (length (dp_coeffs C p) - 1) (length (pv_srs_g1 P) - 1)) (
       Inr (fold (\<lambda>(i, coeff) acc. g1_add C acc (g1_mul C (pv_srs_g1 P ! i) coeff)) (enumerate 0 (dp_coeffs C p)) (g1_zero C)))"

definition generate_kzg_proof
  :: "('f::field, 'p, 'g, 'h, 't, 'm) curve_ops_scheme \<Rightarrow> ('g, 'h) prover \<Rightarrow> 'p \<Rightarrow> 8 word \<Rightarrow> (prover_error, 'g) result" where
  "generate_kzg_proof C P p index =
     (let x = fr_from_u64 C (unat index); y = prover_evaluate C p x
      in bind_ok (prover_compute_quotient C p x y) (\<lambda>q. prover_commit C P q))"

definition generate_proof_for_challenge
  :: "('f::field, 'p, 'g, 'h, 't, 'm) curve_ops_scheme \<Rightarrow> ('g, 'h) prover \<Rightarrow> bytes \<Rightarrow> 8 word
      \<Rightarrow> (prover_error, bytes \<times> bytes) result" where
  "generate_proof_for_challenge C P h i =
     ok_or (pv_shares P (h, i)) ShareNotFound (\<lambda>share.
     ensure (pv_srs_g1 P \<noteq> []) ProverSrsNotLoaded (
     bind_ok (prover_decode_coeffs C (ss_polynomial_coeffs share)) (\<lambda>coeffs.
     ensure (coeffs \<noteq> []) NoCoefficients (
     bind_ok (generate_kzg_proof C P (from_coefficients_vec C coeffs) i) (\<lambda>proof.
     ok_or (g1_serialize C proof) ProofNotSerialized (\<lambda>proof_bytes.
       Inr (ss_share_value share, proof_bytes)))))))"

subsection \<open>The verifier of the chain\<close>

definition tau_g2_bytes :: bytes where
  "tau_g2_bytes = [
    0xb5, 0xbf, 0xd7, 0xdd, 0x8c, 0xde, 0xb1, 0x28,
    0x84, 0x3b, 0xc2, 0x87, 0x23, 0x0a, 0xf3, 0x89,
    0x26, 0x18, 0x70, 0x75, 0xcb, 0xfb, 0xef, 0xa8,
    0x10, 0x09, 0xa2, 0xce, 0x61, 0x5a, 0xc5, 0x3d,
    0x29, 0x14, 0xe5, 0x87, 0x0c, 0xb4, 0x52, 0xd2,
    0xaf, 0xaa, 0xab, 0x24, 0xf3, 0x49, 0x9f, 0x72,
    0x18, 0x5c, 0xbf, 0xee, 0x53, 0x49, 0x27, 0x14,
    0x73, 0x44, 0x29, 0xb7, 0xb3, 0x86, 0x08, 0xe2,
    0x39, 0x26, 0xc9, 0x11, 0xcc, 0xec, 0xea, 0xc9,
    0xa3, 0x68, 0x51, 0x47, 0x7b, 0xa4, 0xc6, 0x0b,
    0x08, 0x70, 0x41, 0xde, 0x62, 0x10, 0x00, 0xed,
    0xc9, 0x8e, 0xda, 0xda, 0x20, 0xc1, 0xde, 0xf2]"

datatype kzg_verify_error = ChainInvalidCommitment | ChainInvalidProof | ChainInvalidShareValue | ChainInvalidTauG2
  | ChainVerificationFailed

definition chain_verify_kzg_proof
  :: "('f::field, 'p, 'g, 'h, 't, 'm) curve_ops_scheme \<Rightarrow> bytes \<Rightarrow> 8 word \<Rightarrow> bytes \<Rightarrow> bytes \<Rightarrow> (kzg_verify_error, bool) result" where
  "chain_verify_kzg_proof C commitment index share_value proof =
     ok_or (g1_deserialize C commitment) ChainInvalidCommitment (\<lambda>c.
     ok_or (g1_deserialize C proof) ChainInvalidProof (\<lambda>pi.
     ok_or (g2_deserialize C tau_g2_bytes) ChainInvalidTauG2 (\<lambda>tau_g2.
       let y = bytes_to_scalar C share_value; x = fr_from_u64 C (unat index);
           c_minus_y = g1_sub C c (g1_mul C (g1_generator C) y);
           tau_minus_x_g2 = g2_sub C tau_g2 (g2_mul C (g2_generator C) x)
       in Inr (pairing C c_minus_y (g2_generator C) = pairing C pi tau_minus_x_g2))))"

subsection \<open>Synthetic division\<close>

lemma synthetic_loop:
  assumes "\<forall>i. Suc i < length cs \<longrightarrow> h i = cs ! (i + 1) + z * h (i + 1)"
  shows "m + 1 < length cs \<Longrightarrow> length q = length cs - 1 \<Longrightarrow> q ! m = h m \<Longrightarrow>
    (let r = fold (\<lambda>i q. q[i := cs ! (i + 1) + z * q ! (i + 1)]) (rev [0..<m]) q
     in length r = length cs - 1 \<and> (\<forall>i \<le> m. r ! i = h i) \<and> (\<forall>i > m. r ! i = q ! i))"
proof (induction m arbitrary: q)
  case (Suc m)
  let ?q = "q[m := cs ! (m + 1) + z * q ! (m + 1)]"
  have "h m = cs ! (m + 1) + z * h (m + 1)" using assms Suc.prems(1) by simp
  then have "?q ! m = h m" using Suc.prems by simp
  moreover have "m + 1 < length cs" "length ?q = length cs - 1" using Suc.prems by simp_all
  ultimately have IH: "let r = fold (\<lambda>i q. q[i := cs ! (i + 1) + z * q ! (i + 1)]) (rev [0..<m]) ?q
     in length r = length cs - 1 \<and> (\<forall>i \<le> m. r ! i = h i) \<and> (\<forall>i > m. r ! i = ?q ! i)"
    using Suc.IH [of ?q] by blast
  then show ?case using Suc.prems(3) by (auto simp: Let_def le_Suc_eq)
qed (simp add: Let_def)

lemma synth_div_nth: "Suc i < length cs \<Longrightarrow> synth_div z cs ! i = horner (drop (Suc i) cs) z"
proof (induction cs arbitrary: i)
  case (Cons c cs)
  then show ?case by (cases i) (auto split: if_splits)
qed simp

text \<open>The loop from the top coefficient down computes the quotient by \<open>x - z\<close>.\<close>

lemma synthetic_quotient_eq: "synthetic_quotient z cs = synth_div z cs"
proof (cases "1 < length cs")
  case True
  let ?n = "length cs" and ?h = "\<lambda>i. horner (drop (Suc i) cs) z"
  have h: "\<forall>i. Suc i < ?n \<longrightarrow> ?h i = cs ! (i + 1) + z * ?h (i + 1)"
  proof (intro allI impI)
    fix i assume "Suc i < ?n"
    then have "drop (Suc i) cs = cs ! (i + 1) # drop (Suc (i + 1)) cs" by (simp add: Cons_nth_drop_Suc)
    then show "?h i = cs ! (i + 1) + z * ?h (i + 1)" by (simp add: algebra_simps)
  qed
  let ?q0 = "(replicate (?n - 1) 0)[?n - 2 := cs ! (?n - 1)]"
  have "?h (?n - 2) = cs ! (?n - 1)" using h [rule_format, of "?n - 2"] True by (simp add: numeral_2_eq_2 Suc_diff_Suc)
  then have "?q0 ! (?n - 2) = ?h (?n - 2)" using True by simp
  moreover have "?n - 2 + 1 < ?n" "length ?q0 = ?n - 1" using True by simp_all
  ultimately have "let r = fold (\<lambda>i q. q[i := cs ! (i + 1) + z * q ! (i + 1)]) (rev [0..<?n - 2]) ?q0
     in length r = ?n - 1 \<and> (\<forall>i \<le> ?n - 2. r ! i = ?h i) \<and> (\<forall>i > ?n - 2. r ! i = ?q0 ! i)"
    using synthetic_loop [OF h] by blast
  then show ?thesis using True
    by (intro nth_equalityI) (auto simp: synthetic_quotient_def Let_def synth_div_nth)
next
  case False
  then have "length (synth_div z cs) = 0" "length cs - 1 = 0" by simp_all
  then have "synth_div z cs = []" "length cs - 1 = 0" by (simp_all only: length_0_conv)
  then show ?thesis using False by (simp add: synthetic_quotient_def Let_def)
qed

subsection \<open>An honest proof is accepted\<close>

lemma prover_commit_serialized:
  assumes "prover_commit C P q = Inr point" and "pv_srs_g1 P = powers_of_g1 srs"
  shows "ok_or (g1_serialize C point) (EncodingError ''Failed to serialize commitment'') Inr = compute_commitment C srs q"
  using assms by (auto simp: prover_commit_def compute_commitment_def ensure_def split: if_splits)

lemma chunks_of_blocks: "\<forall>b \<in> set bs. length b = n \<Longrightarrow> chunks_of n (length bs) (concat bs) = bs"
  by (induction bs) simp_all

definition encode_coeffs :: "('f, 'm) scalar_ops_scheme \<Rightarrow> 'f list \<Rightarrow> bytes" where
  "encode_coeffs C cs = concat (map (scalar_to_bytes C) cs)"

lemma decode_coeffs:
  assumes "scalar_ok C"
  shows "length (encode_coeffs C cs) = 32 * length cs"
    and "map (bytes_to_scalar C) (chunks_of 32 (length cs) (encode_coeffs C cs)) = cs"
proof -
  have "length (scalar_to_bytes C c) = 32" for c by (simp add: scalar_to_bytes_def)
  then have b: "\<forall>b \<in> set (map (scalar_to_bytes C) cs). length b = 32" by simp
  show "length (encode_coeffs C cs) = 32 * length cs" unfolding encode_coeffs_def length_blocks [OF b] by simp
  have "chunks_of 32 (length cs) (encode_coeffs C cs) = map (scalar_to_bytes C) cs"
    unfolding encode_coeffs_def using chunks_of_blocks [OF b] by simp
  then show "map (bytes_to_scalar C) (chunks_of 32 (length cs) (encode_coeffs C cs)) = cs"
    using assms by (simp add: bytes_to_scalar_def scalar_ok_def o_def)
qed

lemma horner_quotient:
  assumes "dp_coeffs C q = trim (synth_div z cs)" and "poly_ok C"
  shows "horner cs x - horner cs z = dp_evaluate C q x * (x - z)"
  using synth_div_eval [of cs x z] by (simp add: poly_okD(4) [OF assms(2)] assms(1) algebra_simps)

text \<open>The storage node that keeps the coefficients of a post's polynomial and its own share answers a
  challenge: its prover returns the share and a proof which the chain accepts against the
  commitment of the browser engine, and which is byte for byte the proof the engine makes, although
  the one divides synthetically and the other by long division.
\<close>

theorem honest_proof_accepted:
  assumes "curve_ok C" and "srs_ok C tau srs" and "pv_srs_g1 P = powers_of_g1 srs"
    and "g2_deserialize C tau_g2_bytes = Some (tau_g2 srs)"
    and "pv_shares P (h, i) = Some share" and "ss_polynomial_coeffs share = encode_coeffs C cs"
    and "ss_share_value share = scalar_to_bytes C (horner cs (fr_from_u64 C (unat i)))"
    and "trim cs \<noteq> []" and "length cs \<le> length (powers_of_g1 srs)"
    and "compute_commitment C srs (from_coefficients_vec C cs) = Inr commitment"
    and "tau \<noteq> fr_from_u64 C (unat i)"
  shows "\<exists>proof. generate_proof_for_challenge C P h i = Inr (ss_share_value share, proof)
     \<and> chain_verify_kzg_proof C commitment i (ss_share_value share) proof = Inr True
     \<and> vss_prove C (Some srs) commitment \<lparr>vs_index = i, vs_value = ss_share_value share\<rparr>
          (ss_polynomial_coeffs share) = Some (Inr proof)"
proof -
  let ?p = "from_coefficients_vec C cs" and ?x = "fr_from_u64 C (unat i)"
  note ok = curve_okD [OF assms(1)]
  have pc: "dp_coeffs C ?p = trim cs" by (simp add: poly_okD(1) [OF ok(1)])
  have pl: "length (dp_coeffs C ?p) \<le> length (powers_of_g1 srs)" using length_trim_le [of cs] assms(9) pc by simp
  have ev: "dp_evaluate C ?p z = horner cs z" for z by (simp add: poly_okD(4) [OF ok(1)] pc)
  define q where "q = from_coefficients_vec C (synthetic_quotient ?x (dp_coeffs C ?p))"
  have qc: "dp_coeffs C q = trim (synth_div ?x (trim cs))"
    by (simp add: q_def synthetic_quotient_eq poly_okD(1) [OF ok(1)] pc)
  have "length (dp_coeffs C q) \<le> length (trim cs) - 1" unfolding qc by (metis length_trim_le length_synth_div)
  then have ql: "length (dp_coeffs C q) \<le> length (powers_of_g1 srs)" using pl pc by simp
  have qe: "horner cs tau - horner cs ?x = dp_evaluate C q tau * (tau - ?x)"
    using horner_quotient [OF qc ok(1), of tau] by simp
  have commit_q: "compute_commitment C srs q = Inr (point_bytes C (dp_evaluate C q tau))"
    by (rule commitment_laws [OF assms(1,2) ql])
  have commit_p: "commitment = point_bytes C (horner cs tau)"
    using assms(10) commitment_laws [OF assms(1,2) pl] ev by simp
  obtain point where point: "prover_commit C P q = Inr point"
    using ql by (simp add: prover_commit_def assms(3))
  then have ser: "g1_serialize C point = Some (point_bytes C (dp_evaluate C q tau))"
    using prover_commit_serialized [OF point assms(3)] commit_q by (auto simp: ok_or_def split: option.splits)
  have cs: "cs \<noteq> []" "dp_coeffs C ?p \<noteq> []" using assms(8) by (auto simp: pc trim_def)
  have dec: "prover_decode_coeffs C (ss_polynomial_coeffs share) = Inr cs"
    "decode_polynomial_coeffs C (ss_polynomial_coeffs share) = Inr cs"
    using decode_coeffs [OF ok(2), of cs]
    by (simp_all add: prover_decode_coeffs_def decode_polynomial_coeffs_def assms(6))
  have srs: "pv_srs_g1 P \<noteq> []" using assms(2,3) by (simp add: srs_ok_def)
  have made: "generate_proof_for_challenge C P h i = Inr (ss_share_value share, point_bytes C (dp_evaluate C q tau))"
    using assms(5) srs cs point ser
    by (simp add: generate_proof_for_challenge_def dec generate_kzg_proof_def prover_compute_quotient_def Let_def q_def [symmetric])
  have same_verifier: "chain_verify_kzg_proof C commitment i v pf = Inr b \<longleftrightarrow> verify_kzg_proof C (Some srs) commitment i v pf = Inr b"
    for v pf b using assms(4)
    by (auto simp: chain_verify_kzg_proof_def verify_kzg_proof_def ok_or_def Let_def split: option.splits)
  have "bytes_to_scalar C (ss_share_value share) = horner cs ?x"
    using ok(2) by (simp add: assms(7) bytes_to_scalar_def scalar_ok_def)
  then have "verify_kzg_proof C (Some srs) commitment i (ss_share_value share) (point_bytes C (dp_evaluate C q tau)) = Inr True"
    unfolding commit_p using qe by (simp add: verify_laws [OF assms(1,2) ok(8)])
  moreover obtain w where w: "generate_single_proof C srs ?p i = Some (Inr (point_bytes C w))"
      "horner cs tau - horner cs ?x = w * (tau - ?x)"
    using single_proof_laws [OF assms(1,2) pl, of i] by (auto simp: ev)
  moreover have "w = dp_evaluate C q tau" using w(2) qe assms(11) by simp
  ultimately show ?thesis
    using made same_verifier assms(10) cs by (simp add: vss_prove_def dec)
qed

subsection \<open>Files\<close>

text \<open>A reference string written in the text format of the ceremony is read back as it was, by the
  engine and by the prover.
\<close>

theorem srs_text_roundtrip:
  assumes "\<forall>p \<in> set powers. g1_serialize C p = Some (enc p) \<and> length (enc p) = 48 \<and> g1_deserialize C (enc p) = Some p"
    and "powers \<noteq> []" and "2 \<le> length qs" and "length (qs ! 1) = 96" and "g2_deserialize C (qs ! 1) = Some tau"
    and "2 + length powers + length qs < 2 ^ 32" and "length powers * point_size < 2 ^ 31"
    and "\<And>bs. hex (hex_encode bs) = Inr bs"
  shows "load_srs_from_ceremony_text C point_size (ceremony_text (map enc powers) qs) = Inr \<lparr>powers_of_g1 = powers, tau_g2 = tau\<rparr>
     \<and> prover_load_text C hex point_size (ceremony_text (map enc powers) qs) P
         = Inr (P\<lparr>pv_srs_g1 := powers, pv_tau_g2 := Some tau\<rparr>)"
proof -
  let ?point = "\<lambda>bs. the (g1_deserialize C bs)"
  have pts: "\<forall>bs \<in> set (map enc powers). length bs = 48 \<and> g1_deserialize C bs = Some (?point bs)"
    and reread: "map ?point (map enc powers) = powers"
    using assms(1) by (auto intro: map_idI)
  have "read_ceremony_text w point_size h (g1_deserialize C) (g2_deserialize C) (ceremony_text (map enc powers) qs) = Inr (powers, tau)"
    if "\<And>bs. h (hex_encode bs) = Inr bs" and "32 \<le> w" for h w
  proof -
    have "(2 :: nat) ^ 32 \<le> 2 ^ w" "(2 :: nat) ^ 31 \<le> 2 ^ (w - 1)" using that(2) by (intro power_increasing; simp)+
    then have b: "2 + length (map enc powers) + length qs < 2 ^ w" "length (map enc powers) * point_size < 2 ^ (w - 1)"
      using assms(6,7) by simp_all
    have "map enc powers \<noteq> []" using assms(2) by simp
    from read_ceremony_encode [where point = ?point and hex = h and ps = "map enc powers" and qs = qs
        and g1_de = "g1_deserialize C" and g2_de = "g2_deserialize C", OF that(1) this assms(3) b pts assms(4,5)] show ?thesis
      unfolding reread .
  qed
  then show ?thesis using assms(8) hex_to_bytes_encode
    by (simp add: load_srs_from_ceremony_text_def prover_load_text_def)
qed

text \<open>
  A binary file whose count has an ASCII digit as its lowest byte is taken for text and refused, the
  first byte of a compressed point not being text.
\<close>

lemma binary_file_refused:
  assumes "48 \<le> unat b0" and "unat b0 \<le> 57" and "unat b1 < 128" and "unat b2 < 128" and "unat b3 < 128"
    and "128 \<le> unat b4" and "unat b4 < 192"
  shows "prover_load_file C hex point_size (Some (b0 # b1 # b2 # b3 # b4 # rest)) P = Inl (Err SrsNotUtf8)"
proof -
  have "\<not> utf8_valid (unat b0 # unat b1 # unat b2 # unat b3 # unat b4 # map unat rest)"
    using assms by (simp add: utf8_valid.simps)
  then show ?thesis using assms(1,2) by (simp add: prover_load_file_def from_utf8_def)
qed

text \<open>The deterministic string for tests is a lawful one.\<close>

lemma test_srs_ok:
  assumes "curve_ok C"
  shows "srs_ok C (fr_from_u64 C 12345) \<lparr>powers_of_g1 = pv_srs_g1 (prover_init_test_srs C n P),
    tau_g2 = the (pv_tau_g2 (prover_init_test_srs C n P))\<rparr>"
proof -
  have l: "length (tau_powers C t a m) = m" for t a m by (induction m arbitrary: a) simp_all
  have "i < m \<Longrightarrow> tau_powers C t a m ! i = gen_mul C (a * t ^ i)" for t a m i
    by (induction m arbitrary: a i) (auto simp: nth_Cons' algebra_simps power_eq_if)
  then show ?thesis
    using l [of "fr_from_u64 C 12345" "fr_from_u64 C 1" "n + 1"]
    by (auto simp: srs_ok_def prover_init_test_srs_def Let_def poly_okD(5,6) [OF curve_okD(1) [OF assms]]
        simp del: tau_powers.simps)
qed

subsection \<open>Witnesses\<close>

definition prover_curve :: "(gf256, gf256 list, gf256, gf256, gf256) curve_ops" where
  "prover_curve = wasm_curve\<lparr>g2_deserialize := \<lambda>bs. Some (gf_of (hd bs))\<rparr>"

lemma prover_curve_ok: "curve_ok prover_curve"
  using wasm_curve_ok unfolding curve_ok_def prover_curve_def
  by (simp add: poly_ok_def scalar_ok_def scalar_to_bytes_def)

definition ceremony_srs :: "(gf256, gf256) srs" where
  "ceremony_srs = \<lparr>powers_of_g1 = [1, gf_of 0xb5], tau_g2 = gf_of 0xb5\<rparr>"

definition demo_share :: stored_share where
  "demo_share = \<lparr>ss_content_hash = [], ss_share_index = 1,
    ss_share_value = scalar_to_bytes prover_curve (horner [gf_of 5, gf_of 7] (fr_from_u64 prover_curve (unat (1 :: 8 word)))),
    ss_polynomial_coeffs = encode_coeffs prover_curve [gf_of 5, gf_of 7]\<rparr>"

definition demo_prover :: "(gf256, gf256) prover" where
  "demo_prover = prover_store_share demo_share (prover_with_srs (powers_of_g1 ceremony_srs))"

text \<open>The prover holds one share of a polynomial of degree one; all that a proof of it needs is in place.\<close>

lemma demo_prover_facts:
  "srs_ok prover_curve (gf_of 0xb5) ceremony_srs"
  "pv_srs_g1 demo_prover = powers_of_g1 ceremony_srs"
  "g2_deserialize prover_curve tau_g2_bytes = Some (tau_g2 ceremony_srs)"
  "pv_shares demo_prover ([], 1) = Some demo_share"
  "trim [gf_of 5, gf_of 7] \<noteq> []"
  "length [gf_of 5, gf_of 7] \<le> length (powers_of_g1 ceremony_srs)"
  "\<exists>commitment. compute_commitment prover_curve ceremony_srs (from_coefficients_vec prover_curve [gf_of 5, gf_of 7]) = Inr commitment"
  "gf_of 0xb5 \<noteq> fr_from_u64 prover_curve (unat (1 :: 8 word))"
proof -
  let ?cs = "[gf_of 5, gf_of 7]" and ?C = prover_curve
  show srs: "srs_ok ?C (gf_of 0xb5) ceremony_srs"
    by (auto simp: srs_ok_def ceremony_srs_def prover_curve_def wasm_curve_def demo_curve_def less_Suc_eq)
  have tr: "trim ?cs = ?cs" by (simp add: trim_def zero_gf256_def gf_of_inject)
  show "trim ?cs \<noteq> []" by (simp add: tr)
  have "length (dp_coeffs ?C (from_coefficients_vec ?C ?cs)) \<le> length (powers_of_g1 ceremony_srs)"
    using poly_okD(1) [OF curve_okD(1) [OF prover_curve_ok], of ?cs] by (simp add: tr ceremony_srs_def)
  from commitment_laws [OF prover_curve_ok srs this]
  show "\<exists>commitment. compute_commitment ?C ceremony_srs (from_coefficients_vec ?C ?cs) = Inr commitment" by blast
  show "g2_deserialize ?C tau_g2_bytes = Some (tau_g2 ceremony_srs)"
    by (simp add: prover_curve_def tau_g2_bytes_def ceremony_srs_def)
  show "pv_shares demo_prover ([], 1) = Some demo_share"
    by (simp add: demo_prover_def prover_store_share_def demo_share_def)
  show "gf_of 0xb5 \<noteq> fr_from_u64 ?C (unat (1 :: 8 word))"
    by (simp add: prover_curve_def wasm_curve_def demo_curve_def gf_of_inject)
  show "pv_srs_g1 demo_prover = powers_of_g1 ceremony_srs" "length ?cs \<le> length (powers_of_g1 ceremony_srs)"
    by (simp_all add: demo_prover_def prover_store_share_def prover_with_srs_def ceremony_srs_def)
qed

theorem honest_proof_accepted_witness:
  "\<exists>commitment value proof. generate_proof_for_challenge prover_curve demo_prover [] 1 = Inr (value, proof)
     \<and> chain_verify_kzg_proof prover_curve commitment 1 value proof = Inr True"
proof -
  obtain commitment where
    c: "compute_commitment prover_curve ceremony_srs (from_coefficients_vec prover_curve [gf_of 5, gf_of 7]) = Inr commitment"
    using demo_prover_facts(7) by blast
  from honest_proof_accepted [OF prover_curve_ok demo_prover_facts(1-4) _ _ demo_prover_facts(5,6) c demo_prover_facts(8)]
  show ?thesis by (auto simp: demo_share_def)
qed

theorem srs_text_roundtrip_witness:
  "load_srs_from_ceremony_text prover_curve 104 (ceremony_text [0xb5 # replicate 47 0] [[], replicate 96 7])
     = Inr \<lparr>powers_of_g1 = [gf_of 0xb5], tau_g2 = gf_of 7\<rparr>"
proof -
  let ?enc = "\<lambda>p. byte_of p # replicate 47 (0 :: 8 word)"
  have e: "map ?enc [gf_of 0xb5] = [0xb5 # replicate 47 0]" by (simp add: gf_of_inverse)
  have p: "\<forall>p \<in> set [gf_of 0xb5]. g1_serialize prover_curve p = Some (?enc p) \<and> length (?enc p) = 48
      \<and> g1_deserialize prover_curve (?enc p) = Some p"
    by (simp add: prover_curve_def wasm_curve_def byte_of_inverse)
  have h: "hd (replicate 96 (7 :: 8 word)) = 7" by (rule hd_replicate) simp
  show ?thesis
    using srs_text_roundtrip [OF p, of "[[], replicate 96 7]" "gf_of 7" 104 hex_to_bytes prover_new] hex_to_bytes_encode h
    unfolding e by (simp add: prover_curve_def)
qed

end
