(* ===== verification/Peer_Caches.thy ===== *)
theory Peer_Caches
  imports Endpoint_Policy
begin

text \<open>
  What a storage node daemon remembers of other nodes
  (\<open>src/apps/storage-node/src/network\<close>): the endpoints of chain nodes (\<open>endpoint_cache.rs\<close>) and of
  storage nodes (\<open>storage_node_cache.rs\<close>) it hears of by gossip, with the check of their URLs, and
  the reputation of its peers (\<open>reputation.rs\<close>). The URL parser, the clock and HTTP are parameters. A
  hash map is a finite map; where the code walks over one, the order of the walk is a parameter.
\<close>

unbundle bit_operations_syntax

subsection \<open>URLs from gossip\<close>

definition max_url_len :: nat where "max_url_len = 256"

datatype gossip_url_error = UrlTooLong | UrlParseFailed | SchemeNotAllowed | UrlHasNoHost | HostIsLocal | Ipv4IsLocal
  | Ipv6IsSpecial | Ipv6UniqueLocal | Ipv6LinkLocal

definition check_gossip_host :: "url_host \<Rightarrow> (gossip_url_error, unit) result" where
  "check_gossip_host h = (case h of
       Domain d \<Rightarrow>
         ensure (\<not> (eq_ignore_ascii_case d ''localhost'' \<or> ends_with (to_ascii_lowercase d) ''.local'')) HostIsLocal (Inr ())
     | Ipv4Host v4 \<Rightarrow>
         ensure (\<not> (v4_is_loopback v4 \<or> v4_is_private v4 \<or> v4_is_link_local v4 \<or> v4_is_broadcast v4
           \<or> v4_is_unspecified v4 \<or> v4_is_multicast v4)) Ipv4IsLocal (Inr ())
     | Ipv6Host v6 \<Rightarrow>
         ensure (\<not> (v6_is_loopback v6 \<or> v6_is_unspecified v6 \<or> v6_is_multicast v6)) Ipv6IsSpecial (
         ensure (v6_segment0 v6 AND 0xfe00 \<noteq> 0xfc00) Ipv6UniqueLocal (
         ensure (v6_segment0 v6 AND 0xffc0 \<noteq> 0xfe80) Ipv6LinkLocal (Inr ()))))"

definition validate_gossip_url :: "url_parser \<Rightarrow> string list \<Rightarrow> string \<Rightarrow> (gossip_url_error, unit) result" where
  "validate_gossip_url parse allowed_schemes s =
     ensure (length s \<le> max_url_len) UrlTooLong (
     ok_or (parse s) UrlParseFailed (\<lambda>parsed.
     ensure (url_scheme parsed \<in> set allowed_schemes) SchemeNotAllowed (
     ok_or (url_host_of parsed) UrlHasNoHost check_gossip_host)))"

definition validate_endpoint_url :: "url_parser \<Rightarrow> string \<Rightarrow> (gossip_url_error, unit) result" where
  "validate_endpoint_url parse s = validate_gossip_url parse [''http'', ''https''] s"

subsection \<open>Endpoints of chain nodes\<close>

record blockchain_endpoint =
  be_url :: string
  be_chain_id :: bytes
  be_last_verified :: nat
  be_latency_ms :: nat
  be_ttl_secs :: nat

definition be_expired :: "nat \<Rightarrow> blockchain_endpoint \<Rightarrow> bool" where
  "be_expired now e \<longleftrightarrow> be_ttl_secs e < now - be_last_verified e"

definition be_refresh :: "nat \<Rightarrow> blockchain_endpoint \<Rightarrow> blockchain_endpoint" where
  "be_refresh now e = e\<lparr>be_last_verified := now\<rparr>"

record endpoint_entry =
  ee_endpoint :: blockchain_endpoint
  ee_added_at :: nat
  ee_verified_locally :: bool

record endpoint_cache =
  ec_entries :: "string \<rightharpoonup> endpoint_entry"
  ec_expected_chain_id :: bytes

definition endpoint_cache_new :: "bytes \<Rightarrow> endpoint_cache" where
  "endpoint_cache_new expected = \<lparr>ec_entries = Map.empty, ec_expected_chain_id = expected\<rparr>"

definition endpoint_cache_insert :: "url_parser \<Rightarrow> nat \<Rightarrow> blockchain_endpoint \<Rightarrow> endpoint_cache \<Rightarrow> bool \<times> endpoint_cache" where
  "endpoint_cache_insert parse now e C =
     (case validate_gossip_url parse [''ws'', ''wss''] (be_url e) of
        Inl _ \<Rightarrow> (False, C)
      | Inr _ \<Rightarrow>
          if be_chain_id e \<noteq> ec_expected_chain_id C then (False, C)
          else (True, C\<lparr>ec_entries := (ec_entries C)(be_url e \<mapsto>
                  \<lparr>ee_endpoint = e, ee_added_at = now, ee_verified_locally = False\<rparr>)\<rparr>))"

definition endpoint_cache_get :: "endpoint_cache \<Rightarrow> string \<Rightarrow> blockchain_endpoint option" where
  "endpoint_cache_get C u = map_option ee_endpoint (ec_entries C u)"

text \<open>\<open>urls\<close> is the order in which the map yields its keys; the sort is stable.\<close>

definition get_all_by_latency :: "string list \<Rightarrow> nat \<Rightarrow> endpoint_cache \<Rightarrow> blockchain_endpoint list" where
  "get_all_by_latency urls now C =
     sort_key be_latency_ms (filter (\<lambda>e. \<not> be_expired now e) (List.map_filter (endpoint_cache_get C) urls))"

definition endpoint_cache_remove :: "string \<Rightarrow> endpoint_cache \<Rightarrow> endpoint_cache" where
  "endpoint_cache_remove u C = C\<lparr>ec_entries := (ec_entries C)(u := None)\<rparr>"

definition retain :: "('v \<Rightarrow> bool) \<Rightarrow> ('k \<rightharpoonup> 'v) \<Rightarrow> ('k \<rightharpoonup> 'v)" where
  "retain keep m = (\<lambda>k. case m k of None \<Rightarrow> None | Some v \<Rightarrow> if keep v then Some v else None)"

definition endpoint_cache_len :: "endpoint_cache \<Rightarrow> nat" where
  "endpoint_cache_len C = card (dom (ec_entries C))"

definition endpoint_cache_gc :: "nat \<Rightarrow> endpoint_cache \<Rightarrow> nat \<times> endpoint_cache" where
  "endpoint_cache_gc now C =
     (let C' = C\<lparr>ec_entries := retain (\<lambda>entry. \<not> be_expired now (ee_endpoint entry)) (ec_entries C)\<rparr>
      in (endpoint_cache_len C - endpoint_cache_len C', C'))"

definition endpoint_cache_is_empty :: "endpoint_cache \<Rightarrow> bool" where
  "endpoint_cache_is_empty C \<longleftrightarrow> endpoint_cache_len C = 0"

definition mark_verified :: "nat \<Rightarrow> string \<Rightarrow> nat \<Rightarrow> endpoint_cache \<Rightarrow> endpoint_cache" where
  "mark_verified now u latency C =
     (case ec_entries C u of
        None \<Rightarrow> C
      | Some entry \<Rightarrow> C\<lparr>ec_entries := (ec_entries C)(u \<mapsto> entry\<lparr>ee_verified_locally := True,
            ee_endpoint := be_refresh now ((ee_endpoint entry)\<lparr>be_latency_ms := latency\<rparr>)\<rparr>)\<rparr>)"

subsection \<open>Endpoints of storage nodes\<close>

record storage_node_endpoint =
  sn_url :: string
  sn_last_verified :: nat
  sn_latency_ms :: nat
  sn_ttl_secs :: nat

definition storage_node_endpoint_new :: "nat \<Rightarrow> string \<Rightarrow> storage_node_endpoint" where
  "storage_node_endpoint_new now u = \<lparr>sn_url = u, sn_last_verified = now, sn_latency_ms = 0, sn_ttl_secs = 300\<rparr>"

definition sn_expired :: "nat \<Rightarrow> storage_node_endpoint \<Rightarrow> bool" where
  "sn_expired now e \<longleftrightarrow> sn_ttl_secs e < now - sn_last_verified e"

definition sn_refresh :: "nat \<Rightarrow> storage_node_endpoint \<Rightarrow> storage_node_endpoint" where
  "sn_refresh now e = e\<lparr>sn_last_verified := now\<rparr>"

definition sn_update_latency :: "nat \<Rightarrow> nat \<Rightarrow> storage_node_endpoint \<Rightarrow> storage_node_endpoint" where
  "sn_update_latency now latency e = sn_refresh now (e\<lparr>sn_latency_ms := latency\<rparr>)"

record storage_node_entry =
  se_endpoint :: storage_node_endpoint
  se_added_at :: nat
  se_health_checked :: bool

type_synonym storage_node_cache = "string \<rightharpoonup> storage_node_entry"

definition node_cache_insert :: "url_parser \<Rightarrow> nat \<Rightarrow> storage_node_endpoint \<Rightarrow> storage_node_cache \<Rightarrow> bool \<times> storage_node_cache" where
  "node_cache_insert parse now e C =
     (case validate_endpoint_url parse (sn_url e) of
        Inl _ \<Rightarrow> (False, C)
      | Inr _ \<Rightarrow> (True, C(sn_url e \<mapsto> \<lparr>se_endpoint = e, se_added_at = now, se_health_checked = False\<rparr>)))"

definition mark_health_checked :: "nat \<Rightarrow> string \<Rightarrow> storage_node_cache \<Rightarrow> storage_node_cache" where
  "mark_health_checked now u C =
     (case C u of
        None \<Rightarrow> C
      | Some entry \<Rightarrow> C(u \<mapsto> entry\<lparr>se_health_checked := True, se_endpoint := sn_refresh now (se_endpoint entry)\<rparr>))"

definition node_cache_get :: "storage_node_cache \<Rightarrow> string \<Rightarrow> storage_node_endpoint option" where
  "node_cache_get C u = map_option se_endpoint (C u)"

definition node_cache_get_all :: "string list \<Rightarrow> nat \<Rightarrow> storage_node_cache \<Rightarrow> storage_node_endpoint list" where
  "node_cache_get_all urls now C = filter (\<lambda>e. \<not> sn_expired now e) (List.map_filter (node_cache_get C) urls)"

definition get_healthy_by_latency :: "string list \<Rightarrow> nat \<Rightarrow> storage_node_cache \<Rightarrow> storage_node_endpoint list" where
  "get_healthy_by_latency urls now C =
     sort_key sn_latency_ms (map se_endpoint
       (filter (\<lambda>entry. \<not> sn_expired now (se_endpoint entry) \<and> se_health_checked entry) (List.map_filter C urls)))"

definition node_cache_remove :: "string \<Rightarrow> storage_node_cache \<Rightarrow> storage_node_cache" where
  "node_cache_remove u C = C(u := None)"

definition node_cache_len :: "storage_node_cache \<Rightarrow> nat" where "node_cache_len C = card (dom C)"

definition node_cache_gc :: "nat \<Rightarrow> storage_node_cache \<Rightarrow> nat \<times> storage_node_cache" where
  "node_cache_gc now C =
     (let C' = retain (\<lambda>entry. \<not> sn_expired now (se_endpoint entry)) C in (node_cache_len C - node_cache_len C', C'))"

definition node_cache_is_empty :: "storage_node_cache \<Rightarrow> bool" where "node_cache_is_empty C \<longleftrightarrow> node_cache_len C = 0"

definition node_cache_clear :: "storage_node_cache \<Rightarrow> storage_node_cache" where "node_cache_clear C = Map.empty"

text \<open>
  The health check asks for \<open>/health\<close> below the URL; \<open>get\<close> answers with the status and the elapsed
  milliseconds, or nothing when no answer arrives, and \<open>clock u\<close> is the time when the answer of \<open>u\<close> is in.
\<close>

definition trim_end_slashes :: "string \<Rightarrow> string" where
  "trim_end_slashes s = rev (dropWhile (\<lambda>c. c = CHR ''/'') (rev s))"

definition health_check :: "(string \<Rightarrow> (nat \<times> nat) option) \<Rightarrow> string \<Rightarrow> nat option" where
  "health_check http_get u =
     (case http_get (trim_end_slashes u @ ''/health'') of
        Some (status, elapsed) \<Rightarrow> if 200 \<le> status \<and> status < 300 then Some (elapsed mod 2 ^ 32) else None
      | None \<Rightarrow> None)"

primrec verify_storage_nodes ::
  "(string \<Rightarrow> (nat \<times> nat) option) \<Rightarrow> (string \<Rightarrow> nat) \<Rightarrow> storage_node_endpoint list \<Rightarrow> storage_node_endpoint list" where
  "verify_storage_nodes http_get clock [] = []"
| "verify_storage_nodes http_get clock (n # ns) =
     (case health_check http_get (sn_url n) of
        Some latency \<Rightarrow> sn_update_latency (clock (sn_url n)) latency n # verify_storage_nodes http_get clock ns
      | None \<Rightarrow> verify_storage_nodes http_get clock ns)"

subsection \<open>Reputation\<close>

definition initial_score :: int where "initial_score = 100"
definition invalid_penalty :: int where "invalid_penalty = - 20"
definition valid_reward :: int where "valid_reward = 1"
definition ignore_threshold :: int where "ignore_threshold = 50"
definition max_score :: int where "max_score = 100"

definition i32_sat_add :: "int \<Rightarrow> int \<Rightarrow> int" where
  "i32_sat_add a b = max (- (2 ^ 31)) (min (2 ^ 31 - 1) (a + b))"

record peer_reputation =
  pr_score :: int
  pr_last_updated :: nat
  pr_invalid_count :: nat
  pr_valid_count :: nat

definition peer_reputation_new :: "nat \<Rightarrow> peer_reputation" where
  "peer_reputation_new now = \<lparr>pr_score = initial_score, pr_last_updated = now, pr_invalid_count = 0, pr_valid_count = 0\<rparr>"

definition is_ignored :: "peer_reputation \<Rightarrow> bool" where "is_ignored r \<longleftrightarrow> pr_score r \<le> ignore_threshold"

definition penalize :: "nat \<Rightarrow> peer_reputation \<Rightarrow> peer_reputation" where
  "penalize now r = r\<lparr>pr_score := i32_sat_add (pr_score r) invalid_penalty,
     pr_invalid_count := sat_add u32_max (pr_invalid_count r) 1, pr_last_updated := now\<rparr>"

definition reward_peer :: "nat \<Rightarrow> peer_reputation \<Rightarrow> peer_reputation" where
  "reward_peer now r = r\<lparr>pr_score := min (i32_sat_add (pr_score r) valid_reward) max_score,
     pr_valid_count := sat_add u32_max (pr_valid_count r) 1, pr_last_updated := now\<rparr>"

type_synonym 'p reputations = "'p \<rightharpoonup> peer_reputation"

definition entry_or_new :: "nat \<Rightarrow> 'p reputations \<Rightarrow> 'p \<Rightarrow> peer_reputation" where
  "entry_or_new now m p = (case m p of Some r \<Rightarrow> r | None \<Rightarrow> peer_reputation_new now)"

definition reputation_get_or_create :: "nat \<Rightarrow> 'p \<Rightarrow> 'p reputations \<Rightarrow> peer_reputation \<times> 'p reputations" where
  "reputation_get_or_create now p m = (entry_or_new now m p, m(p \<mapsto> entry_or_new now m p))"

definition should_ignore :: "'p reputations \<Rightarrow> 'p \<Rightarrow> bool" where
  "should_ignore m p = (case m p of Some r \<Rightarrow> is_ignored r | None \<Rightarrow> False)"

definition record_valid :: "nat \<Rightarrow> 'p \<Rightarrow> 'p reputations \<Rightarrow> 'p reputations" where
  "record_valid now p m = m(p \<mapsto> reward_peer now (entry_or_new now m p))"

definition record_invalid :: "nat \<Rightarrow> 'p \<Rightarrow> 'p reputations \<Rightarrow> 'p reputations" where
  "record_invalid now p m = m(p \<mapsto> penalize now (entry_or_new now m p))"

definition get_score :: "'p reputations \<Rightarrow> 'p \<Rightarrow> int option" where "get_score m p = map_option pr_score (m p)"

definition reputation_cleanup :: "nat \<Rightarrow> nat \<Rightarrow> 'p reputations \<Rightarrow> nat \<times> 'p reputations" where
  "reputation_cleanup now max_age m =
     (let m' = retain (\<lambda>r. now - pr_last_updated r < max_age) m in (card (dom m) - card (dom m'), m'))"

text \<open>The messages of one peer, in order: \<open>True\<close> for a valid one.\<close>

definition judge :: "bool \<times> nat \<Rightarrow> peer_reputation \<Rightarrow> peer_reputation" where
  "judge = (\<lambda>(ok, now). if ok then reward_peer now else penalize now)"

definition invalid_ones :: "(bool \<times> nat) list \<Rightarrow> nat" where
  "invalid_ones ms = length (filter (\<lambda>m. \<not> fst m) ms)"

definition valid_ones :: "(bool \<times> nat) list \<Rightarrow> nat" where
  "valid_ones ms = length (filter fst ms)"

lemma score_bounds:
  assumes "length ms < 2 ^ 20" and "r = fold judge ms (peer_reputation_new now)"
  shows "100 - 20 * int (invalid_ones ms) \<le> pr_score r \<and> pr_score r \<le> 100
     \<and> pr_score r \<le> 100 - 20 * int (invalid_ones ms) + int (valid_ones ms)"
  using assms
proof (induction ms arbitrary: r rule: rev_induct)
  case Nil
  then show ?case by (simp add: peer_reputation_new_def initial_score_def invalid_ones_def valid_ones_def)
next
  case (snoc m ms)
  define r0 where "r0 = fold judge ms (peer_reputation_new now)"
  obtain ok t where m: "m = (ok, t)" by fastforce
  have len: "length ms < 2 ^ 20" using snoc.prems(1) by simp
  have r: "r = judge m r0" using snoc.prems(2) by (simp add: r0_def)
  have "invalid_ones ms \<le> length ms" by (simp add: invalid_ones_def)
  with len have few: "int (invalid_ones ms) < 2 ^ 20" by simp
  from snoc.IH [OF len r0_def] few show ?case
    by (cases ok) (auto simp: r m judge_def reward_peer_def penalize_def i32_sat_add_def invalid_penalty_def
        valid_reward_def max_score_def invalid_ones_def valid_ones_def)
qed

text \<open>
  Good behaviour buys back little: a peer is ignored as soon as its invalid messages, twenty points
  each, outweigh its valid ones by fifty points, whatever the order, and is heard as long as fewer
  than three of its messages were invalid.
\<close>

lemma offender_ignored:
  assumes "length ms < 2 ^ 20" and "r = fold judge ms (peer_reputation_new now)"
  shows "valid_ones ms + 50 \<le> 20 * invalid_ones ms \<Longrightarrow> is_ignored r"
    and "invalid_ones ms < 3 \<Longrightarrow> \<not> is_ignored r"
  using score_bounds [OF assms] by (auto simp: is_ignored_def ignore_threshold_def)

subsection \<open>Which URLs are remembered\<close>

text \<open>
  The reference: 169.254.0.0/16, 224.0.0.0/4, 0.0.0.0/32, 255.255.255.255/32, 127.0.0.0/8, 10.0.0.0/8,
  172.16.0.0/12 and 192.168.0.0/16; fe80::/10, ff00::/8, ::/128, ::1/128 and fc00::/7.
\<close>

definition gossip_v4_blocks :: "(nat \<times> nat) list" where
  "gossip_v4_blocks = v4_forbidden @ [(0x7f000000, 8), (0x0a000000, 8), (0xac100000, 12), (0xc0a80000, 16)]"

definition gossip_v6_blocks :: "(nat \<times> nat) list" where
  "gossip_v6_blocks = v6_forbidden @ v6_private"

definition gossip_host_allowed :: "url_host \<Rightarrow> bool" where
  "gossip_host_allowed h = (case h of
       Domain d \<Rightarrow> to_ascii_lowercase d \<noteq> ''localhost'' \<and> \<not> ends_with (to_ascii_lowercase d) ''.local''
     | Ipv4Host a \<Rightarrow> \<not> list_ex (in_net 32 (v4_num a)) gossip_v4_blocks
     | Ipv6Host a \<Rightarrow> \<not> list_ex (in_net 128 (v6_num a)) gossip_v6_blocks)"

lemma v4_local_blocks:
  "v4_is_loopback v \<or> v4_is_private v
     \<longleftrightarrow> list_ex (in_net 32 (v4_num v)) [(0x7f000000, 8), (0x0a000000, 8), (0xac100000, 12), (0xc0a80000, 16)]"
proof -
  obtain a b c d where v: "v = Ipv4Addr a b c d" by (cases v)
  have "16 \<le> unat b \<and> unat b \<le> 31 \<longleftrightarrow> unat b div 16 = 1" by arith
  then show ?thesis
    unfolding v list_ex_Nil_iff list_ex_Cons_iff v4_classes by (auto simp: word_as_nat)
qed

lemma check_gossip_host_allowed: "check_gossip_host h = Inr () \<longleftrightarrow> gossip_host_allowed h"
proof (cases h)
  case (Domain d)
  then show ?thesis
    using lower_localhost
    by (simp add: check_gossip_host_def gossip_host_allowed_def ensure_Inr eq_ignore_ascii_case_def)
next
  case (Ipv4Host a)
  have "(v4_is_loopback a \<or> v4_is_private a) \<or> (v4_is_link_local a \<or> v4_is_multicast a \<or> v4_is_unspecified a \<or> v4_is_broadcast a)
     \<longleftrightarrow> list_ex (in_net 32 (v4_num a)) gossip_v4_blocks"
    unfolding v4_local_blocks v4_policy(1) gossip_v4_blocks_def list_ex_append by blast
  then show ?thesis
    using Ipv4Host by (simp add: check_gossip_host_def gossip_host_allowed_def ensure_Inr) blast
next
  case (Ipv6Host a)
  have "(is_link_local_v6 a \<or> v6_is_multicast a \<or> v6_is_unspecified a) \<or> is_private_v6 a
     \<longleftrightarrow> list_ex (in_net 128 (v6_num a)) gossip_v6_blocks"
    unfolding v6_policy gossip_v6_blocks_def list_ex_append ..
  then show ?thesis
    using Ipv6Host
    by (simp add: check_gossip_host_def gossip_host_allowed_def ensure_Inr is_link_local_v6_def is_private_v6_def) blast
qed

text \<open>A URL from gossip is accepted exactly when it is at most 256 bytes long, parses, has one of
  the schemes, and its host is a name other than localhost and those under .local, or an address
  outside the listed blocks. IPv4 addresses mapped into IPv6 are in no block, so the loopback
  address of the daemon itself is accepted as ::ffff:127.0.0.1, which the chain node refuses.
\<close>

theorem gossip_url_spec:
  "(validate_gossip_url parse schemes s = Inr () \<longleftrightarrow>
      length s \<le> 256 \<and> (\<exists>u h. parse s = Some u \<and> url_scheme u \<in> set schemes \<and> url_host_of u = Some h \<and> gossip_host_allowed h))
   \<and> gossip_host_allowed (Ipv6Host (Ipv6Addr 0 0 0 0 0 0xffff 0x7f00 1))
   \<and> \<not> cidr_allows False (V6 (Ipv6Addr 0 0 0 0 0 0xffff 0x7f00 1))"
proof (intro conjI)
  show "validate_gossip_url parse schemes s = Inr () \<longleftrightarrow>
      length s \<le> 256 \<and> (\<exists>u h. parse s = Some u \<and> url_scheme u \<in> set schemes \<and> url_host_of u = Some h \<and> gossip_host_allowed h)"
    by (auto simp: validate_gossip_url_def max_url_len_def result_simps check_gossip_host_allowed)
  show "gossip_host_allowed (Ipv6Host (Ipv6Addr 0 0 0 0 0 0xffff 0x7f00 1))"
    by (simp add: check_gossip_host_allowed [symmetric] check_gossip_host_def v6_is_multicast_def)
  show "\<not> cidr_allows False (V6 (Ipv6Addr 0 0 0 0 0 0xffff 0x7f00 1))"
    using check_ip_cidr [of "\<lparr>allow_private = False, own_rpc_ports = []\<rparr>" "V6 (Ipv6Addr 0 0 0 0 0 0xffff 0x7f00 1)"]
    by (simp add: check_ip_def is_private_v4_def ensure_def)
qed

subsection \<open>What the caches hold\<close>

definition endpoint_cache_ok :: "url_parser \<Rightarrow> endpoint_cache \<Rightarrow> bool" where
  "endpoint_cache_ok parse C \<longleftrightarrow>
     (\<forall>u entry. ec_entries C u = Some entry \<longrightarrow>
        be_url (ee_endpoint entry) = u \<and> be_chain_id (ee_endpoint entry) = ec_expected_chain_id C
        \<and> validate_gossip_url parse [''ws'', ''wss''] u = Inr ())"

lemma retain_Some [simp]: "retain keep m k = Some v \<longleftrightarrow> m k = Some v \<and> keep v"
  by (auto simp: retain_def split: option.splits)

lemma endpoint_cache_ok_new: "endpoint_cache_ok parse (endpoint_cache_new c)"
  by (simp add: endpoint_cache_ok_def endpoint_cache_new_def)

lemma endpoint_cache_ok_steps:
  assumes "endpoint_cache_ok parse C"
  shows "endpoint_cache_ok parse (snd (endpoint_cache_insert parse now e C))"
    and "endpoint_cache_ok parse (endpoint_cache_remove u C)"
    and "endpoint_cache_ok parse (snd (endpoint_cache_gc now C))"
    and "endpoint_cache_ok parse (mark_verified now u latency C)"
  using assms
  by (auto simp: endpoint_cache_ok_def endpoint_cache_insert_def endpoint_cache_remove_def endpoint_cache_gc_def
      mark_verified_def be_refresh_def Let_def split: sum.splits option.splits)

lemma map_filter_Some: "x \<in> set (List.map_filter f xs) \<longleftrightarrow> (\<exists>k \<in> set xs. f k = Some x)"
  by (force simp: map_filter_def)

text \<open>The list for the failover holds the live entries, nearest first, each of an accepted URL.\<close>

lemma get_all_by_latency_spec:
  assumes "endpoint_cache_ok parse C" and "set urls = dom (ec_entries C)"
  shows "sorted (map be_latency_ms (get_all_by_latency urls now C))"
    and "set (get_all_by_latency urls now C)
       = {e. \<not> be_expired now e \<and> (\<exists>entry. ec_entries C (be_url e) = Some entry \<and> ee_endpoint entry = e)}"
    and "e \<in> set (get_all_by_latency urls now C) \<Longrightarrow> validate_gossip_url parse [''ws'', ''wss''] (be_url e) = Inr ()"
proof -
  show "sorted (map be_latency_ms (get_all_by_latency urls now C))" by (simp add: get_all_by_latency_def)
  show s: "set (get_all_by_latency urls now C)
       = {e. \<not> be_expired now e \<and> (\<exists>entry. ec_entries C (be_url e) = Some entry \<and> ee_endpoint entry = e)}"
  proof -
    have "(\<exists>u \<in> set urls. endpoint_cache_get C u = Some e) \<longleftrightarrow> (\<exists>entry. ec_entries C (be_url e) = Some entry \<and> ee_endpoint entry = e)"
      for e
      using assms by (auto simp: endpoint_cache_get_def endpoint_cache_ok_def)
    then show ?thesis by (auto simp: get_all_by_latency_def map_filter_Some)
  qed
  show "e \<in> set (get_all_by_latency urls now C) \<Longrightarrow> validate_gossip_url parse [''ws'', ''wss''] (be_url e) = Inr ()"
    using assms(1) by (auto simp: s endpoint_cache_ok_def)
qed

text \<open>
  The daemon itself only ever inserts into the cache of storage nodes; without a call that marks a
  node as checked, none is ever healthy, and the daemon has nothing to announce.
\<close>

lemma never_healthy:
  assumes "\<forall>entry \<in> ran C. \<not> se_health_checked entry"
  shows "get_healthy_by_latency urls now C = []"
    and "\<forall>entry \<in> ran (snd (node_cache_insert parse t e C)). \<not> se_health_checked entry"
proof -
  have "entry \<in> ran C" if "entry \<in> set (List.map_filter C urls)" for entry
    using that by (auto simp: map_filter_Some intro: ranI)
  then show "get_healthy_by_latency urls now C = []"
    using assms by (auto simp: get_healthy_by_latency_def filter_empty_conv)
  show "\<forall>entry \<in> ran (snd (node_cache_insert parse t e C)). \<not> se_health_checked entry"
    using assms by (auto simp: node_cache_insert_def ran_def split: sum.splits)
qed

end
