(* ===== verification/Chain_Client.thy ===== *)
theory Chain_Client
  imports Peer_Caches Node_Gossip
begin

text \<open>
  The chain client of the storage node daemon (\<open>src/apps/storage-node/src/chain\<close>): the failover
  manager (\<open>failover.rs\<close>), the signer (\<open>signer.rs\<close>) and the client itself (\<open>mod.rs\<close>) with its
  rate limit, its pinned genesis hash, reconnection, registration, extrinsics and queries. What
  answers on the other side is a parameter of each operation: \<open>connect\<close> gives the genesis hash of the
  node at a URL, \<open>post\<close> the answer to a JSON-RPC request. An operation returns the client even
  when it fails, because what it has changed by then stays changed.
\<close>

subsection \<open>Failover\<close>

definition failure_threshold :: nat where "failure_threshold = 3"

datatype connection_role = Primary | HotStandby | Disconnected

record connection_state =
  cs_endpoint :: blockchain_endpoint
  cs_role :: connection_role
  cs_failure_count :: nat
  cs_last_success :: "nat option"
  cs_connecting :: bool

definition connection_new :: "blockchain_endpoint \<Rightarrow> connection_state" where
  "connection_new e = \<lparr>cs_endpoint = e, cs_role = Disconnected, cs_failure_count = 0, cs_last_success = None,
     cs_connecting = False\<rparr>"

definition record_success :: "nat \<Rightarrow> connection_state \<Rightarrow> connection_state" where
  "record_success now s = s\<lparr>cs_failure_count := 0, cs_last_success := Some now\<rparr>"

definition record_failure :: "connection_state \<Rightarrow> bool \<times> connection_state" where
  "record_failure s =
     (let s' = s\<lparr>cs_failure_count := sat_add u32_max (cs_failure_count s) 1\<rparr>
      in (failure_threshold \<le> cs_failure_count s', s'))"

definition should_failover :: "connection_state \<Rightarrow> bool" where
  "should_failover s \<longleftrightarrow> failure_threshold \<le> cs_failure_count s"

definition promote :: "connection_state \<Rightarrow> connection_state" where
  "promote s = s\<lparr>cs_role := Primary, cs_failure_count := 0\<rparr>"

definition demote :: "connection_state \<Rightarrow> connection_state" where
  "demote s = s\<lparr>cs_role := Disconnected\<rparr>"

record failover_manager =
  fo_primary :: "connection_state option"
  fo_standbys :: "connection_state list"

definition failover_new :: failover_manager where
  "failover_new = \<lparr>fo_primary = None, fo_standbys = []\<rparr>"

definition set_primary :: "nat \<Rightarrow> blockchain_endpoint \<Rightarrow> failover_manager \<Rightarrow> failover_manager" where
  "set_primary now e F = F\<lparr>fo_primary := Some ((connection_new e)\<lparr>cs_role := Primary, cs_last_success := Some now\<rparr>)\<rparr>"

definition add_standby :: "blockchain_endpoint \<Rightarrow> failover_manager \<Rightarrow> failover_manager" where
  "add_standby e F = F\<lparr>fo_standbys := fo_standbys F @ [(connection_new e)\<lparr>cs_role := HotStandby\<rparr>]\<rparr>"

definition get_primary_url :: "failover_manager \<Rightarrow> string option" where
  "get_primary_url F = map_option (be_url \<circ> cs_endpoint) (fo_primary F)"

definition record_primary_success :: "nat \<Rightarrow> failover_manager \<Rightarrow> failover_manager" where
  "record_primary_success now F = F\<lparr>fo_primary := map_option (record_success now) (fo_primary F)\<rparr>"

definition standby_position :: "connection_state list \<Rightarrow> nat option" where
  "standby_position ss = List.find (\<lambda>i. cs_role (ss ! i) = HotStandby) [0..<length ss]"

definition record_primary_failure :: "failover_manager \<Rightarrow> string option \<times> failover_manager" where
  "record_primary_failure F =
     (case fo_primary F of
        None \<Rightarrow> (None, F)
      | Some p \<Rightarrow>
          (let (failed, p') = record_failure p; F' = F\<lparr>fo_primary := Some p'\<rparr>
           in if \<not> failed then (None, F')
              else (case standby_position (fo_standbys F) of
                      None \<Rightarrow> (None, F')
                    | Some i \<Rightarrow>
                        (let new_primary = promote (fo_standbys F ! i)
                         in (Some (be_url (cs_endpoint new_primary)),
                             \<lparr>fo_primary = Some new_primary,
                              fo_standbys = take i (fo_standbys F) @ drop (Suc i) (fo_standbys F) @ [demote p']\<rparr>)))))"

definition standby_count :: "failover_manager \<Rightarrow> nat" where
  "standby_count F = length (filter (\<lambda>s. cs_role s = HotStandby) (fo_standbys F))"

definition has_primary :: "failover_manager \<Rightarrow> bool" where "has_primary F \<longleftrightarrow> fo_primary F \<noteq> None"

subsection \<open>The rate limit\<close>

definition rate_period :: nat where "rate_period = 60000" \<comment> \<open>milliseconds\<close>

record rate_limiter =
  rl_max_calls :: nat
  rl_call_times :: "nat list"

definition rate_limiter_new :: "nat \<Rightarrow> rate_limiter" where
  "rate_limiter_new n = \<lparr>rl_max_calls = n, rl_call_times = []\<rparr>"

definition try_acquire :: "nat \<Rightarrow> rate_limiter \<Rightarrow> bool \<times> rate_limiter" where
  "try_acquire now L =
     (let times = filter (\<lambda>t. now - t < rate_period) (rl_call_times L)
      in if rl_max_calls L \<le> length times then (False, L\<lparr>rl_call_times := times\<rparr>)
         else (True, L\<lparr>rl_call_times := times @ [now]\<rparr>))"

definition rate_remaining :: "nat \<Rightarrow> rate_limiter \<Rightarrow> nat" where
  "rate_remaining now L = rl_max_calls L - length (filter (\<lambda>t. now - t < rate_period) (rl_call_times L)) mod 2 ^ 32"

subsection \<open>The signer\<close>

text \<open>Sr25519: the public key and the signature under a seed; base 58 and Blake2b-512 for addresses.\<close>

record sr25519 =
  sr_public :: "bytes \<Rightarrow> bytes"
  sr_sign :: "bytes \<Rightarrow> bytes \<Rightarrow> bytes"
  sr_base58 :: "bytes \<Rightarrow> string"
  sr_blake2b512 :: "bytes \<Rightarrow> bytes"

datatype signer_error = SeedHex | SeedLength nat

definition from_seed_hex :: "(string \<Rightarrow> bytes option) \<Rightarrow> string \<Rightarrow> (signer_error, bytes) result" where
  "from_seed_hex unhex seed_hex =
     ok_or (unhex seed_hex) SeedHex (\<lambda>seed. ensure (length seed = 32) (SeedLength (length seed)) (Inr seed))"

definition ss58_hash :: "sr25519 \<Rightarrow> bytes \<Rightarrow> bytes" where
  "ss58_hash K data = sr_blake2b512 K (map (word_of_nat \<circ> of_char) ''SS58PRE'' @ data)"

definition ss58_address :: "sr25519 \<Rightarrow> bytes \<Rightarrow> string" where
  "ss58_address K seed =
     (let data = 42 # sr_public K seed in sr_base58 K (data @ take 2 (ss58_hash K data)))"

subsection \<open>The client\<close>

record retry_config =
  rc_max_retries :: nat
  rc_initial_delay_secs :: nat
  rc_max_delay_secs :: nat

definition retry_config_default :: retry_config where
  "retry_config_default = \<lparr>rc_max_retries = 10, rc_initial_delay_secs = 1, rc_max_delay_secs = 60\<rparr>"

text \<open>A connection is the URL it was made to with the genesis hash found there.\<close>

type_synonym connection = "string \<times> hash256"

type_synonym connector = "string \<Rightarrow> hash256 option"

record chain_client =
  cc_endpoint :: string
  cc_failover :: failover_manager
  cc_endpoint_cache :: endpoint_cache
  cc_rate_limiter :: rate_limiter
  cc_seed :: bytes
  cc_subxt_client :: "connection option"
  cc_holding_map :: "hash256 \<rightharpoonup> nat \<times> nat"
  cc_expected_genesis :: "hash256 option"
  cc_retry_config :: retry_config

datatype chain_error = SignerFailed signer_error | NoPrimaryEndpoint | SubxtConnectFailed
  | GenesisMismatch string hash256 hash256 | ReconnectionFailed nat | OperationFailed string
  | RateLimitExceeded | SubmitFailed | DispatchFailed | TransactionError | StreamEnded | ExtrinsicTimeout
  | FetchFailed | RequestFailed | ParseFailed | RpcErrorReturned string | NoResult | NotImplemented

definition chain_client_new ::
  "(string \<Rightarrow> bytes option) \<Rightarrow> connector \<Rightarrow> nat \<Rightarrow> string \<Rightarrow> nat \<Rightarrow> string \<Rightarrow> failover_manager \<Rightarrow> endpoint_cache
     \<Rightarrow> (chain_error, chain_client) result" where
  "chain_client_new unhex connect now endpoint declare_rate_limit signer_seed F cache =
     bind_from SignerFailed (from_seed_hex unhex signer_seed) (\<lambda>seed.
     let initial = \<lparr>be_url = endpoint, be_chain_id = replicate 32 0, be_last_verified = now, be_latency_ms = 0,
                    be_ttl_secs = 300\<rparr>;
         client = connect endpoint
     in Inr \<lparr>cc_endpoint = endpoint, cc_failover = set_primary now initial F, cc_endpoint_cache = cache,
             cc_rate_limiter = rate_limiter_new declare_rate_limit, cc_seed = seed,
             cc_subxt_client = map_option (Pair endpoint) client, cc_holding_map = Map.empty,
             cc_expected_genesis = client, cc_retry_config = retry_config_default\<rparr>)"

definition active_endpoint :: "chain_client \<Rightarrow> string option" where
  "active_endpoint c = get_primary_url (cc_failover c)"

definition ensure_subxt_client :: "connector \<Rightarrow> chain_client \<Rightarrow> (chain_error, connection) result \<times> chain_client" where
  "ensure_subxt_client connect c =
     (case cc_subxt_client c of
        Some client \<Rightarrow> (Inr client, c)
      | None \<Rightarrow>
          (case active_endpoint c of
             None \<Rightarrow> (Inl (Err NoPrimaryEndpoint), c)
           | Some endpoint \<Rightarrow>
               (case connect endpoint of
                  None \<Rightarrow> (Inl (Err SubxtConnectFailed), c)
                | Some genesis \<Rightarrow>
                    (case cc_expected_genesis c of
                       Some e \<Rightarrow>
                         if e \<noteq> genesis then (Inl (Err (GenesisMismatch endpoint e genesis)), c)
                         else (Inr (endpoint, genesis), c\<lparr>cc_subxt_client := Some (endpoint, genesis)\<rparr>)
                     | None \<Rightarrow> (Inr (endpoint, genesis),
                         c\<lparr>cc_expected_genesis := Some genesis, cc_subxt_client := Some (endpoint, genesis)\<rparr>)))))"

definition reconnect :: "connector \<Rightarrow> chain_client \<Rightarrow> (chain_error, unit) result \<times> chain_client" where
  "reconnect connect c =
     (case ensure_subxt_client connect (c\<lparr>cc_subxt_client := None\<rparr>) of
        (Inl e, c') \<Rightarrow> (Inl e, c') | (Inr _, c') \<Rightarrow> (Inr (), c'))"

text \<open>The loop also returns the delays it slept; \<open>connects n\<close> is the world at attempt \<open>n\<close>.\<close>

primrec reconnect_loop ::
  "(nat \<Rightarrow> connector) \<Rightarrow> nat \<Rightarrow> nat \<Rightarrow> nat \<Rightarrow> nat \<Rightarrow> chain_client \<Rightarrow> ((chain_error, unit) result \<times> chain_client) \<times> nat list" where
  "reconnect_loop connects max_delay 0 attempt delay c = ((Inl (Err (ReconnectionFailed (attempt - 1))), c), [])"
| "reconnect_loop connects max_delay (Suc left) attempt delay c =
     (case ensure_subxt_client (connects attempt) (c\<lparr>cc_subxt_client := None\<rparr>) of
        (Inr _, c') \<Rightarrow> ((Inr (), c'), [])
      | (Inl e, c') \<Rightarrow>
          if left = 0 then ((Inl e, c'), [])
          else (let (r, delays) = reconnect_loop connects max_delay left (attempt + 1) (min (delay * 2) max_delay) c'
                in (r, delay # delays)))"

definition reconnect_with_backoff ::
  "(nat \<Rightarrow> connector) \<Rightarrow> chain_client \<Rightarrow> ((chain_error, unit) result \<times> chain_client) \<times> nat list" where
  "reconnect_with_backoff connects c =
     (let config = cc_retry_config c
      in reconnect_loop connects (rc_max_delay_secs config) (rc_max_retries config) 1 (rc_initial_delay_secs config) c)"

subsection \<open>Success and failure of calls\<close>

definition report_success :: "nat \<Rightarrow> chain_client \<Rightarrow> chain_client" where
  "report_success now c = c\<lparr>cc_failover := record_primary_success now (cc_failover c)\<rparr>"

definition consider_standby :: "connector \<Rightarrow> hash256 \<Rightarrow> string option \<Rightarrow> blockchain_endpoint \<Rightarrow> chain_client \<Rightarrow> chain_client" where
  "consider_standby connect expected current_primary e c =
     (if Some (be_url e) = current_primary then c
      else case connect (be_url e) of
          None \<Rightarrow> c
        | Some genesis \<Rightarrow>
            if genesis \<noteq> expected then c\<lparr>cc_endpoint_cache := endpoint_cache_remove (be_url e) (cc_endpoint_cache c)\<rparr>
            else c\<lparr>cc_failover := add_standby e (cc_failover c)\<rparr>)"

definition refresh_standbys_from_cache :: "connector \<Rightarrow> string list \<Rightarrow> nat \<Rightarrow> chain_client \<Rightarrow> chain_client" where
  "refresh_standbys_from_cache connect urls now c =
     (case cc_expected_genesis c of
        None \<Rightarrow> c
      | Some expected \<Rightarrow>
          fold (consider_standby connect expected (active_endpoint c))
            (take 5 (get_all_by_latency urls now (cc_endpoint_cache c))) c)"

definition report_failure :: "connector \<Rightarrow> string list \<Rightarrow> nat \<Rightarrow> chain_client \<Rightarrow> string option \<times> chain_client" where
  "report_failure connect urls now c =
     (let (new_primary, F) = record_primary_failure (cc_failover c); c' = c\<lparr>cc_failover := F\<rparr>
      in (new_primary, if new_primary = None then c' else refresh_standbys_from_cache connect urls now c'))"

text \<open>An error of an operation is its text; some texts are taken for a lost connection.\<close>

definition text_contains :: "string \<Rightarrow> string \<Rightarrow> bool" where
  "text_contains s t \<longleftrightarrow> list_ex (\<lambda>i. take (length t) (drop i s) = t) [0..<Suc (length s)]"

definition is_connection_error :: "string \<Rightarrow> bool" where
  "is_connection_error e =
     (let s = to_ascii_lowercase e
      in text_contains s ''connection'' \<or> text_contains s ''disconnected'' \<or> text_contains s ''timeout''
         \<or> text_contains s ''websocket'')"

text \<open>The world of one call: the clock, the first connection, those of the retries and of the standbys.\<close>

record call_world =
  cw_now :: nat
  cw_connect :: connector
  cw_reconnects :: "nat \<Rightarrow> connector"
  cw_candidates :: connector
  cw_urls :: "string list"

definition with_reconnect ::
  "call_world \<Rightarrow> (connection \<Rightarrow> string + 'a) \<Rightarrow> (connection \<Rightarrow> string + 'a) \<Rightarrow> chain_client
     \<Rightarrow> (chain_error, 'a) result \<times> chain_client" where
  "with_reconnect W operation again c =
     (let retry = (\<lambda>c. case reconnect_with_backoff (cw_reconnects W) c of
            ((Inl e, c1), _) \<Rightarrow> (Inl e, c1)
          | ((Inr _, c1), _) \<Rightarrow>
              (case ensure_subxt_client (cw_connect W) c1 of
                 (Inl e, c2) \<Rightarrow> (Inl e, c2)
               | (Inr client, c2) \<Rightarrow>
                   (case again client of
                      Inl e \<Rightarrow> (Inl (Err (OperationFailed e)), c2)
                    | Inr x \<Rightarrow> (Inr x, report_success (cw_now W) c2))))
      in case ensure_subxt_client (cw_connect W) c of
           (Inl _, c1) \<Rightarrow> retry c1
         | (Inr client, c1) \<Rightarrow>
             (case operation client of
                Inr x \<Rightarrow> (Inr x, report_success (cw_now W) c1)
              | Inl e \<Rightarrow>
                  if is_connection_error e then retry (snd (report_failure (cw_candidates W) (cw_urls W) (cw_now W) c1))
                  else (Inl (Err (OperationFailed e)), c1)))"

subsection \<open>Storage queries and extrinsics\<close>

text \<open>\<open>fetch\<close> reads a key of the chain behind a connection: whether there is an entry, or an error.\<close>

definition fragment_exists ::
  "connector \<Rightarrow> (connection \<Rightarrow> hash256 \<Rightarrow> bool option) \<Rightarrow> hash256 \<Rightarrow> chain_client \<Rightarrow> (chain_error, bool) result \<times> chain_client" where
  "fragment_exists connect fetch fid c =
     (case ensure_subxt_client connect c of
        (Inl e, c') \<Rightarrow> (Inl e, c')
      | (Inr client, c') \<Rightarrow> (ok_or (fetch client fid) FetchFailed Inr, c'))"

datatype storage_call = DeclareHolding hash256 | RevokeHolding hash256
  | ProveHoldingKzg bytes "8 word" bytes bytes | ClaimReward

datatype tx_status = InBestBlock hash256 bool | InFinalizedBlock hash256 bool | OtherStatus | StatusError

text \<open>
  A submission is refused, or is watched: the statuses that arrive within the time limit, and
  whether the stream has then ended. The flag of a block tells whether the call succeeded in it.
\<close>

datatype submission = Refused | Watched "tx_status list" bool

fun watch :: "bool \<Rightarrow> tx_status list \<Rightarrow> (chain_error, hash256) result" where
  "watch ended (InBestBlock block success # _) = ensure success DispatchFailed (Inr block)"
| "watch ended (InFinalizedBlock block success # _) = ensure success DispatchFailed (Inr block)"
| "watch ended (OtherStatus # ss) = watch ended ss"
| "watch ended (StatusError # _) = Inl (Err TransactionError)"
| "watch ended [] = Inl (Err (if ended then StreamEnded else ExtrinsicTimeout))"

definition submit_storage_extrinsic ::
  "connector \<Rightarrow> (connection \<Rightarrow> storage_call \<Rightarrow> submission) \<Rightarrow> nat \<Rightarrow> storage_call \<Rightarrow> chain_client
     \<Rightarrow> (chain_error, hash256) result \<times> chain_client" where
  "submit_storage_extrinsic connect submit now call c =
     (case ensure_subxt_client connect c of
        (Inl e, c') \<Rightarrow> (Inl e, c')
      | (Inr client, c') \<Rightarrow>
          (case submit client call of
             Refused \<Rightarrow> (Inl (Err SubmitFailed), c')
           | Watched statuses ended \<Rightarrow>
               (case watch ended statuses of
                  Inl e \<Rightarrow> (Inl e, c')
                | Inr block \<Rightarrow> (Inr block, report_success now c'))))"

definition unit_result :: "('e, 'a) result \<times> 'c \<Rightarrow> ('e, unit) result \<times> 'c" where
  "unit_result r = (case r of (Inl e, c) \<Rightarrow> (Inl e, c) | (Inr _, c) \<Rightarrow> (Inr (), c))"

definition rate_limited :: "nat \<Rightarrow> chain_client \<Rightarrow> (chain_client \<Rightarrow> (chain_error, unit) result \<times> chain_client)
    \<Rightarrow> (chain_error, unit) result \<times> chain_client" where
  "rate_limited now c k =
     (case try_acquire now (cc_rate_limiter c) of
        (False, L) \<Rightarrow> (Inl (Err RateLimitExceeded), c\<lparr>cc_rate_limiter := L\<rparr>)
      | (True, L) \<Rightarrow> k (c\<lparr>cc_rate_limiter := L\<rparr>))"

definition declare_holding where
  "declare_holding connect submit now fid c =
     rate_limited now c (\<lambda>c. unit_result (submit_storage_extrinsic connect submit now (DeclareHolding fid) c))"

definition declare_holding_for_post where
  "declare_holding_for_post connect submit now post_id index fid c =
     rate_limited now c (\<lambda>c.
       unit_result (submit_storage_extrinsic connect submit now (DeclareHolding fid)
         (c\<lparr>cc_holding_map := (cc_holding_map c)(fid \<mapsto> (post_id, index))\<rparr>)))"

definition get_holding_info :: "chain_client \<Rightarrow> hash256 \<Rightarrow> (nat \<times> nat) option" where
  "get_holding_info c fid = cc_holding_map c fid"

definition revoke_holding where
  "revoke_holding connect submit now fid c =
     rate_limited now c (\<lambda>c. unit_result (submit_storage_extrinsic connect submit now (RevokeHolding fid) c))"

definition submit_holding_proof where
  "submit_holding_proof connect submit now h i share_value proof c =
     unit_result (submit_storage_extrinsic connect submit now (ProveHoldingKzg h i share_value proof) c)"

definition claim_reward where
  "claim_reward connect submit now c = unit_result (submit_storage_extrinsic connect submit now ClaimReward c)"

definition is_connected :: "chain_client \<Rightarrow> bool" where "is_connected c \<longleftrightarrow> cc_subxt_client c \<noteq> None"

definition rate_limit_remaining :: "nat \<Rightarrow> chain_client \<Rightarrow> nat" where
  "rate_limit_remaining now c = rate_remaining now (cc_rate_limiter c)"

definition signer_account_id :: "sr25519 \<Rightarrow> chain_client \<Rightarrow> bytes" where
  "signer_account_id K c = sr_public K (cc_seed c)"

definition signer_ss58 :: "sr25519 \<Rightarrow> chain_client \<Rightarrow> string" where
  "signer_ss58 K c = ss58_address K (cc_seed c)"

text \<open>The queries of fragments are missing in the daemon and always fail.\<close>

definition get_fragment_metadata :: "hash256 \<Rightarrow> (chain_error, 'm option) result" where
  "get_fragment_metadata fid = Inl (Err NotImplemented)"

definition get_fragment_holders :: "hash256 \<Rightarrow> (chain_error, bytes list) result" where
  "get_fragment_holders fid = Inl (Err NotImplemented)"

definition latest_block_number ::
  "connector \<Rightarrow> (connection \<Rightarrow> nat option) \<Rightarrow> chain_client \<Rightarrow> (chain_error, nat) result \<times> chain_client" where
  "latest_block_number connect at_latest c =
     (case ensure_subxt_client connect c of
        (Inl e, c') \<Rightarrow> (Inl e, c')
      | (Inr client, c') \<Rightarrow> (ok_or (at_latest client) FetchFailed Inr, c'))"

subsection \<open>JSON-RPC over HTTP\<close>

text \<open>\<open>str::replace\<close>: non-overlapping occurrences from the left.\<close>

fun str_replace :: "string \<Rightarrow> string \<Rightarrow> string \<Rightarrow> string" where
  "str_replace pat to [] = []"
| "str_replace pat to (c # cs) =
     (if pat \<noteq> [] \<and> take (length pat) (c # cs) = pat then to @ str_replace pat to (drop (length pat - 1) cs)
      else c # str_replace pat to cs)"

definition http_endpoint :: "string \<Rightarrow> string" where
  "http_endpoint u = str_replace ''wss://'' ''https://'' (str_replace ''ws://'' ''http://'' u)"

text \<open>The request fails, or is answered by something that may not parse.\<close>

record 'a rpc_response =
  rr_result :: "'a option"
  rr_error :: "string option"

datatype 'a http_answer = HttpFailure | HttpAnswer "'a rpc_response option"

definition signed_registration :: "sr25519 \<Rightarrow> nat \<Rightarrow> string \<Rightarrow> chain_client \<Rightarrow> registration_request" where
  "signed_registration K now our_rpc_url c =
     \<lparr>rq_url = our_rpc_url, rq_operator = hex_encode (sr_public K (cc_seed c)), rq_timestamp = now,
      rq_signature = hex_encode (sr_sign K (cc_seed c)
        (map (word_of_nat \<circ> of_char) (''register_endpoint:'' @ our_rpc_url @ '':'' @ decimal now)))\<rparr>"

definition max_retries :: nat where "max_retries = 3"

text \<open>The attempts left; each sees its own world, and the error of the last one is returned.\<close>

primrec register_loop ::
  "(nat \<Rightarrow> string \<Rightarrow> registration_request \<Rightarrow> bool http_answer) \<Rightarrow> call_world \<Rightarrow> registration_request \<Rightarrow> nat \<Rightarrow> chain_client
     \<Rightarrow> (chain_error, unit) result \<times> chain_client" where
  "register_loop post W request 0 c = (Inl (Err RequestFailed), c)"
| "register_loop post W request (Suc left) c =
     (case active_endpoint c of
        None \<Rightarrow> (Inl (Err NoPrimaryEndpoint), c)
      | Some u \<Rightarrow>
          (case post left (http_endpoint u) request of
             HttpAnswer parsed \<Rightarrow>
               (let c' = report_success (cw_now W) c
                in (ok_or parsed ParseFailed (\<lambda>r. case rr_error r of
                        Some m \<Rightarrow> Inl (Err (RpcErrorReturned m)) | None \<Rightarrow> Inr ()), c'))
           | HttpFailure \<Rightarrow>
               (case report_failure (cw_candidates W) (cw_urls W) (cw_now W) c of
                  (Some _, c') \<Rightarrow> register_loop post W request left c'
                | (None, c') \<Rightarrow> (Inl (Err RequestFailed), c'))))"

definition register_with_blockchain ::
  "sr25519 \<Rightarrow> (nat \<Rightarrow> string \<Rightarrow> registration_request \<Rightarrow> bool http_answer) \<Rightarrow> call_world \<Rightarrow> nat \<Rightarrow> string \<Rightarrow> chain_client
     \<Rightarrow> (chain_error, unit) result \<times> chain_client" where
  "register_with_blockchain K post W now our_rpc_url c =
     register_loop post W (signed_registration K now our_rpc_url c) max_retries c"

text \<open>The error field is looked at first; a missing result is an error too.\<close>

definition rpc_value :: "'a http_answer \<Rightarrow> (chain_error, 'a) result" where
  "rpc_value a = (case a of
       HttpFailure \<Rightarrow> Inl (Err RequestFailed)
     | HttpAnswer parsed \<Rightarrow> ok_or parsed ParseFailed (\<lambda>r. case rr_error r of
           Some m \<Rightarrow> Inl (Err (RpcErrorReturned m)) | None \<Rightarrow> ok_or (rr_result r) NoResult Inr))"

definition get_reward_pool_balance :: "(string \<Rightarrow> nat http_answer) \<Rightarrow> chain_client \<Rightarrow> (chain_error, nat) result" where
  "get_reward_pool_balance post c =
     ok_or (active_endpoint c) NoPrimaryEndpoint (\<lambda>u. rpc_value (post (http_endpoint u)))"

definition check_forgetting_candidates ::
  "(string \<Rightarrow> hash256 list \<Rightarrow> (hash256 \<times> bool) list http_answer) \<Rightarrow> hash256 list \<Rightarrow> chain_client
     \<Rightarrow> (chain_error, (hash256 \<times> bool) list) result" where
  "check_forgetting_candidates post hashes c =
     ok_or (active_endpoint c) NoPrimaryEndpoint (\<lambda>u. rpc_value (post (http_endpoint u) hashes))"

lemma http_endpoint_schemes:
  "http_endpoint ''ws://node:9944'' = ''http://node:9944''"
  "http_endpoint ''wss://node:9944'' = ''https://node:9944''"
  by code_simp+

subsection \<open>The rate limit holds in every minute\<close>

text \<open>The times of the accepted calls among a sequence of calls.\<close>

fun accepted :: "nat list \<Rightarrow> rate_limiter \<Rightarrow> nat list" where
  "accepted [] L = []"
| "accepted (t # ts) L = (case try_acquire t L of (ok, L') \<Rightarrow> (if ok then [t] else []) @ accepted ts L')"

definition in_minute :: "nat \<Rightarrow> nat list \<Rightarrow> nat" where
  "in_minute w ts = length (filter (\<lambda>t. w \<le> t \<and> t < w + rate_period) ts)"

text \<open>
  The limiter remembers what it has accepted in the last minute, so no window of a minute holds more
  than the limit, wherever it starts.
\<close>

lemma accepted_window:
  assumes "sorted (past @ ts)" and "\<forall>p \<in> set past. \<forall>t \<in> set ts. p \<le> t"
    and "\<forall>w. in_minute w past \<le> rl_max_calls L"
    and "\<forall>t \<in> set ts. filter (\<lambda>p. t - p < rate_period) (rl_call_times L) = filter (\<lambda>p. t - p < rate_period) past"
  shows "in_minute w (past @ accepted ts L) \<le> rl_max_calls L"
  using assms
proof (induction ts arbitrary: past L)
  case Nil
  then show ?case by simp
next
  case (Cons t ts)
  obtain ok L' where a: "try_acquire t L = (ok, L')" by fastforce
  let ?times = "filter (\<lambda>p. t - p < rate_period) past"
  have times: "filter (\<lambda>p. t - p < rate_period) (rl_call_times L) = ?times" using Cons.prems(4) by simp
  have later: "t' - p < rate_period \<Longrightarrow> t - p < rate_period" if "t' \<in> set ts" for t' p
  proof -
    have "t \<le> t'" using Cons.prems(1) that by (simp add: sorted_append)
    then show "t' - p < rate_period \<Longrightarrow> t - p < rate_period" by linarith
  qed
  have again: "filter (\<lambda>p. t' - p < rate_period) ?times = filter (\<lambda>p. t' - p < rate_period) past" if "t' \<in> set ts" for t'
    using later [OF that] by (auto simp: filter_filter intro: filter_cong)
  show ?case
  proof (cases "rl_max_calls L \<le> length ?times")
    case True
    then have L': "ok = False" "L' = L\<lparr>rl_call_times := ?times\<rparr>" using a times by (auto simp: try_acquire_def Let_def)
    have "in_minute w (past @ accepted ts L') \<le> rl_max_calls L'"
      by (rule Cons.IH) (use Cons.prems again in \<open>auto simp: L' sorted_append\<close>)
    then show ?thesis by (simp add: a L')
  next
    case False
    then have L': "ok = True" "L' = L\<lparr>rl_call_times := ?times @ [t]\<rparr>" using a times by (auto simp: try_acquire_def Let_def)
    have room: "in_minute w (past @ [t]) \<le> rl_max_calls L" for w
    proof (cases "w \<le> t \<and> t < w + rate_period")
      case True
      have "filter (\<lambda>p. w \<le> p \<and> p < w + rate_period) past = filter (\<lambda>p. w \<le> p \<and> p < w + rate_period) ?times"
        using True by (auto simp: filter_filter intro!: filter_cong)
      then have "in_minute w past \<le> length ?times" unfolding in_minute_def by (metis length_filter_le)
      with False True show ?thesis by (simp add: in_minute_def)
    next
      case outside: False
      have "in_minute w (past @ [t]) = in_minute w past" using outside by (auto simp: in_minute_def)
      then show ?thesis using Cons.prems(3) by simp
    qed
    have "in_minute w ((past @ [t]) @ accepted ts L') \<le> rl_max_calls L'"
      by (rule Cons.IH) (use Cons.prems again room in \<open>auto simp: L' sorted_append\<close>)
    then show ?thesis by (simp add: a L')
  qed
qed

lemma rate_limit_per_minute:
  assumes "sorted ts"
  shows "in_minute w (accepted ts (rate_limiter_new n)) \<le> n"
  using accepted_window [of "[]" ts "rate_limiter_new n" w] assms
  by (simp add: rate_limiter_new_def in_minute_def)

subsection \<open>What a failover does\<close>

definition endpoints_of :: "failover_manager \<Rightarrow> blockchain_endpoint multiset" where
  "endpoints_of F = mset (map cs_endpoint (case fo_primary F of None \<Rightarrow> fo_standbys F | Some p \<Rightarrow> p # fo_standbys F))"

lemma standby_position_Some:
  assumes "standby_position ss = Some i"
  shows "i < length ss" and "cs_role (ss ! i) = HotStandby" and "\<forall>j < i. cs_role (ss ! j) \<noteq> HotStandby"
  using assms unfolding standby_position_def find_Some_iff by auto

lemma standby_position_None: "standby_position ss = None \<longleftrightarrow> (\<forall>s \<in> set ss. cs_role s \<noteq> HotStandby)"
  unfolding standby_position_def find_None_iff by (simp add: all_set_conv_all_nth)

text \<open>
  A failover happens at the third failure in a row and only to a hot standby; no endpoint is lost,
  and the failed one comes back as a connection that no failover chooses again.
\<close>

lemma record_primary_failure_cases:
  assumes "fo_primary F = Some p"
  obtains (kept) "cs_failure_count p + 1 < 3 \<or> standby_count F = 0"
      "record_primary_failure F = (None, F\<lparr>fo_primary := Some (snd (record_failure p))\<rparr>)"
    | (moved) i where "i < length (fo_standbys F)" "cs_role (fo_standbys F ! i) = HotStandby" "3 \<le> cs_failure_count p + 1"
      "record_primary_failure F = (Some (be_url (cs_endpoint (fo_standbys F ! i))),
         \<lparr>fo_primary = Some (promote (fo_standbys F ! i)),
          fo_standbys = take i (fo_standbys F) @ drop (Suc i) (fo_standbys F) @ [demote (snd (record_failure p))]\<rparr>)"
proof (cases "fst (record_failure p)")
  case False
  then have "cs_failure_count p + 1 < 3 \<or> standby_count F = 0"
    by (simp add: record_failure_def failure_threshold_def sat_add_def u32_max_def Let_def)
  moreover have "record_primary_failure F = (None, F\<lparr>fo_primary := Some (snd (record_failure p))\<rparr>)"
    using assms False by (simp add: record_primary_failure_def case_prod_unfold Let_def)
  ultimately show thesis by (rule kept)
next
  case True
  then have c: "3 \<le> cs_failure_count p + 1"
    by (simp add: record_failure_def failure_threshold_def sat_add_def u32_max_def Let_def)
  show thesis
  proof (cases "standby_position (fo_standbys F)")
    case None
    then have "standby_count F = 0" by (simp add: standby_position_None standby_count_def filter_empty_conv)
    moreover have "record_primary_failure F = (None, F\<lparr>fo_primary := Some (snd (record_failure p))\<rparr>)"
      using assms True None by (simp add: record_primary_failure_def case_prod_unfold Let_def)
    ultimately show thesis using kept by blast
  next
    case (Some i)
    show thesis
      by (rule moved [of i])
        (use assms True Some c standby_position_Some [OF Some]
          in \<open>simp_all add: record_primary_failure_def case_prod_unfold Let_def promote_def\<close>)
  qed
qed

lemma failover_keeps_endpoints: "endpoints_of (snd (record_primary_failure F)) = endpoints_of F"
proof (cases "fo_primary F")
  case None
  then show ?thesis by (simp add: record_primary_failure_def)
next
  case (Some p)
  then show ?thesis
  proof (cases rule: record_primary_failure_cases)
    case kept
    then show ?thesis using Some by (simp add: endpoints_of_def record_failure_def Let_def)
  next
    case (moved i)
    then have "mset (fo_standbys F) = {#fo_standbys F ! i#} + mset (take i (fo_standbys F)) + mset (drop (Suc i) (fo_standbys F))"
      by (metis add_mset_add_single id_take_nth_drop mset.simps(2) mset_append union_commute union_mset_add_mset_right)
    then show ?thesis
      using moved Some
      by (simp add: endpoints_of_def promote_def demote_def record_failure_def Let_def mset_map)
  qed
qed

lemma failover_spends_a_standby:
  assumes "record_primary_failure F = (Some u, F')"
  shows "standby_count F = standby_count F' + 1" and "get_primary_url F' = Some u"
proof -
  obtain p where p: "fo_primary F = Some p" using assms by (auto simp: record_primary_failure_def split: option.splits)
  from p have "standby_count F = standby_count F' + 1 \<and> get_primary_url F' = Some u"
  proof (cases rule: record_primary_failure_cases)
    case kept
    with assms show ?thesis by simp
  next
    case (moved i)
    have "filter (\<lambda>s. cs_role s = HotStandby) (fo_standbys F) = filter (\<lambda>s. cs_role s = HotStandby) (take i (fo_standbys F))
        @ fo_standbys F ! i # filter (\<lambda>s. cs_role s = HotStandby) (drop (Suc i) (fo_standbys F))"
      using moved(1,2) id_take_nth_drop [OF moved(1)] by (metis (mono_tags, lifting) filter.simps(2) filter_append)
    with assms moved show ?thesis
      by (auto simp: standby_count_def demote_def promote_def get_primary_url_def record_failure_def Let_def)
  qed
  then show "standby_count F = standby_count F' + 1" "get_primary_url F' = Some u" by auto
qed

text \<open>
  The refresh adds endpoints that were seen with the pinned genesis hash just now, and drops from the
  cache those that showed another.
\<close>

lemma consider_standby_fields [simp]:
  "cc_expected_genesis (consider_standby connect g pr e c) = cc_expected_genesis c"
  "cc_subxt_client (consider_standby connect g pr e c) = cc_subxt_client c"
  "cc_endpoint (consider_standby connect g pr e c) = cc_endpoint c"
  "fo_primary (cc_failover (consider_standby connect g pr e c)) = fo_primary (cc_failover c)"
  by (auto simp: consider_standby_def add_standby_def split: option.splits)

lemma refresh_standbys_fields [simp]:
  "cc_expected_genesis (refresh_standbys_from_cache connect urls now c) = cc_expected_genesis c"
  "cc_subxt_client (refresh_standbys_from_cache connect urls now c) = cc_subxt_client c"
  "cc_endpoint (refresh_standbys_from_cache connect urls now c) = cc_endpoint c"
  "fo_primary (cc_failover (refresh_standbys_from_cache connect urls now c)) = fo_primary (cc_failover c)"
proof -
  have "cc_expected_genesis (fold (consider_standby connect g pr) es c) = cc_expected_genesis c
      \<and> cc_subxt_client (fold (consider_standby connect g pr) es c) = cc_subxt_client c
      \<and> cc_endpoint (fold (consider_standby connect g pr) es c) = cc_endpoint c
      \<and> fo_primary (cc_failover (fold (consider_standby connect g pr) es c)) = fo_primary (cc_failover c)" for g pr es
    by (induction es arbitrary: c) auto
  then show "cc_expected_genesis (refresh_standbys_from_cache connect urls now c) = cc_expected_genesis c"
    "cc_subxt_client (refresh_standbys_from_cache connect urls now c) = cc_subxt_client c"
    "cc_endpoint (refresh_standbys_from_cache connect urls now c) = cc_endpoint c"
    "fo_primary (cc_failover (refresh_standbys_from_cache connect urls now c)) = fo_primary (cc_failover c)"
    by (auto simp: refresh_standbys_from_cache_def split: option.splits)
qed

lemma refreshed_standbys_verified:
  assumes "s \<in> set (fo_standbys (cc_failover (refresh_standbys_from_cache connect urls now c)))"
  shows "s \<in> set (fo_standbys (cc_failover c))
    \<or> (cs_role s = HotStandby \<and> connect (be_url (cs_endpoint s)) = cc_expected_genesis c \<and> cc_expected_genesis c \<noteq> None)"
proof (cases "cc_expected_genesis c")
  case None
  then show ?thesis using assms by (simp add: refresh_standbys_from_cache_def)
next
  case (Some g)
  let ?ok = "cs_role s = HotStandby \<and> connect (be_url (cs_endpoint s)) = Some g"
  have one: "s \<in> set (fo_standbys (cc_failover c)) \<or> ?ok"
    if "s \<in> set (fo_standbys (cc_failover (consider_standby connect g pr e c)))" for pr e c
    using that
    by (auto simp: consider_standby_def add_standby_def connection_new_def split: if_splits option.splits)
  have "s \<in> set (fo_standbys (cc_failover (fold (consider_standby connect g pr) es c)))
      \<longrightarrow> s \<in> set (fo_standbys (cc_failover c)) \<or> ?ok" for pr es
    by (induction es arbitrary: c) (use one in \<open>simp, fastforce\<close>)
  then show ?thesis using assms Some by (auto simp: refresh_standbys_from_cache_def)
qed

subsection \<open>The client in the daemon\<close>

text \<open>
  What the daemon does with its client, each call in a world of its own, and what others do to it:
  gossip fills the cache of endpoints.
\<close>

inductive client_step :: "url_parser \<Rightarrow> sr25519 \<Rightarrow> chain_client \<Rightarrow> chain_client \<Rightarrow> bool"
  for parse :: url_parser and K :: sr25519 where
  "register_with_blockchain K post W now u c = (r, c') \<Longrightarrow> client_step parse K c c'"
| "declare_holding connect submit now fid c = (r, c') \<Longrightarrow> client_step parse K c c'"
| "declare_holding_for_post connect submit now p i fid c = (r, c') \<Longrightarrow> client_step parse K c c'"
| "revoke_holding connect submit now fid c = (r, c') \<Longrightarrow> client_step parse K c c'"
| "submit_holding_proof connect submit now h i share_value proof c = (r, c') \<Longrightarrow> client_step parse K c c'"
| "claim_reward connect submit now c = (r, c') \<Longrightarrow> client_step parse K c c'"
| "fragment_exists connect fetch fid c = (e, c') \<Longrightarrow> client_step parse K c c'"
| "latest_block_number connect at_latest c = (n, c') \<Longrightarrow> client_step parse K c c'"
| "with_reconnect W operation again c = (r :: (chain_error, unit) result, c') \<Longrightarrow> client_step parse K c c'"
| "reconnect connect c = (r, c') \<Longrightarrow> client_step parse K c c'"
| "report_failure connect urls now c = (new, c') \<Longrightarrow> client_step parse K c c'"
| "c' = c\<lparr>cc_endpoint_cache := snd (endpoint_cache_insert parse now e (cc_endpoint_cache c))\<rparr> \<Longrightarrow> client_step parse K c c'"

inductive client_reachable :: "url_parser \<Rightarrow> sr25519 \<Rightarrow> string \<Rightarrow> chain_client \<Rightarrow> bool"
  for parse :: url_parser and K :: sr25519 and endpoint :: string where
  client_start: "chain_client_new unhex connect now endpoint limit seed failover_new (endpoint_cache_new chain_id) = Inr c
    \<Longrightarrow> client_reachable parse K endpoint c"
| client_more: "client_reachable parse K endpoint c \<Longrightarrow> client_step parse K c c' \<Longrightarrow> client_reachable parse K endpoint c'"

definition client_inv :: "string \<Rightarrow> chain_client \<Rightarrow> bool" where
  "client_inv endpoint c \<longleftrightarrow> fo_standbys (cc_failover c) = [] \<and> active_endpoint c = Some endpoint
     \<and> (\<forall>u g. cc_subxt_client c = Some (u, g) \<longrightarrow> u = endpoint \<and> cc_expected_genesis c = Some g)"

text \<open>Each call keeps the invariant and the pinned genesis hash.\<close>

definition evolves :: "chain_client \<Rightarrow> chain_client \<Rightarrow> bool" where
  "evolves c c' \<longleftrightarrow> (\<forall>endpoint. client_inv endpoint c \<longrightarrow> client_inv endpoint c')
     \<and> (\<forall>g. cc_expected_genesis c = Some g \<longrightarrow> cc_expected_genesis c' = Some g)"

named_theorems evolving \<open>calls of the client that keep its invariant\<close>

lemma evolves_refl [evolving]: "evolves c c"
  by (simp add: evolves_def)

lemma evolves_trans: "evolves c c' \<Longrightarrow> evolves c' c'' \<Longrightarrow> evolves c c''"
  by (auto simp: evolves_def)

lemma evolves_drop_client [evolving]: "evolves c (c\<lparr>cc_subxt_client := None\<rparr>)"
  by (simp add: evolves_def client_inv_def active_endpoint_def)

lemma evolves_others [evolving]:
  "evolves c (c\<lparr>cc_rate_limiter := L\<rparr>)" "evolves c (c\<lparr>cc_holding_map := m\<rparr>)" "evolves c (c\<lparr>cc_endpoint_cache := C\<rparr>)"
  by (simp_all add: evolves_def client_inv_def active_endpoint_def)

lemma evolves_ensure [evolving]: "evolves c (snd (ensure_subxt_client connect c))"
  by (auto simp: ensure_subxt_client_def evolves_def client_inv_def active_endpoint_def split: option.splits)

lemma evolves_success [evolving]: "evolves c (report_success now c)"
  by (auto simp: report_success_def record_primary_success_def record_success_def evolves_def client_inv_def
      active_endpoint_def get_primary_url_def option.map_comp comp_def)

lemma failure_without_standbys:
  assumes "client_inv endpoint c"
  shows "fst (report_failure connect urls now c) = None" and "client_inv endpoint (snd (report_failure connect urls now c))"
proof -
  obtain p where p: "fo_primary (cc_failover c) = Some p" "be_url (cs_endpoint p) = endpoint"
    using assms by (auto simp: client_inv_def active_endpoint_def get_primary_url_def)
  have "record_primary_failure (cc_failover c) = (None, (cc_failover c)\<lparr>fo_primary := Some (snd (record_failure p))\<rparr>)"
    using p(1)
  proof (cases rule: record_primary_failure_cases)
    case (moved i)
    then show ?thesis using assms by (simp add: client_inv_def)
  qed
  then show "fst (report_failure connect urls now c) = None" "client_inv endpoint (snd (report_failure connect urls now c))"
    using assms p by (simp_all add: report_failure_def client_inv_def active_endpoint_def get_primary_url_def
        record_failure_def Let_def)
qed

lemma evolves_failure [evolving]: "evolves c (snd (report_failure connect urls now c))"
proof -
  have "cc_expected_genesis (snd (report_failure connect urls now c)) = cc_expected_genesis c"
    by (simp add: report_failure_def case_prod_unfold Let_def)
  then show ?thesis using failure_without_standbys(2) by (auto simp: evolves_def)
qed

lemma evolves_reconnect [evolving]: "evolves c (snd (reconnect connect c))"
  using evolves_trans [OF evolves_drop_client evolves_ensure [of "c\<lparr>cc_subxt_client := None\<rparr>" connect]]
  by (auto simp: reconnect_def split: prod.splits sum.splits)

lemma evolves_reconnect_loop: "evolves c (snd (fst (reconnect_loop connects max_delay left attempt delay c)))"
proof (induction left arbitrary: attempt delay c)
  case 0
  then show ?case by (simp add: evolves_refl)
next
  case (Suc left)
  let ?e = "ensure_subxt_client (connects attempt) (c\<lparr>cc_subxt_client := None\<rparr>)"
  have "evolves c (snd ?e)"
    by (rule evolves_trans [OF evolves_drop_client evolves_ensure])
  with Suc show ?case
    by (auto simp: case_prod_unfold Let_def split: prod.splits sum.splits intro: evolves_trans)
qed

lemma evolves_backoff [evolving]: "evolves c (snd (fst (reconnect_with_backoff connects c)))"
  unfolding reconnect_with_backoff_def Let_def by (rule evolves_reconnect_loop)

lemma evolves_query [evolving]:
  "evolves c (snd (fragment_exists connect fetch fid c))" "evolves c (snd (latest_block_number connect at_latest c))"
  using evolves_ensure [of c connect]
  by (auto simp: fragment_exists_def latest_block_number_def split: prod.splits sum.splits)

lemma evolves_submit [evolving]: "evolves c (snd (submit_storage_extrinsic connect submit now call c))"
  using evolves_ensure [of c connect] evolves_success
  by (auto simp: submit_storage_extrinsic_def split: prod.splits sum.splits submission.splits intro: evolves_trans)

lemma snd_unit_result [simp]: "snd (unit_result r) = snd r"
  by (auto simp: unit_result_def split: prod.splits sum.splits)

lemma evolves_limited:
  assumes "\<And>L. evolves (c\<lparr>cc_rate_limiter := L\<rparr>) (snd (k (c\<lparr>cc_rate_limiter := L\<rparr>)))"
  shows "evolves c (snd (rate_limited now c k))"
  using assms evolves_others(1) by (auto simp: rate_limited_def split: prod.splits bool.splits intro: evolves_trans)

lemma evolves_calls [evolving]:
  "evolves c (snd (declare_holding connect submit now fid c))"
  "evolves c (snd (declare_holding_for_post connect submit now p i fid c))"
  "evolves c (snd (revoke_holding connect submit now fid c))"
  "evolves c (snd (submit_holding_proof connect submit now h j share_value proof c))"
  "evolves c (snd (claim_reward connect submit now c))"
  unfolding declare_holding_def declare_holding_for_post_def revoke_holding_def submit_holding_proof_def claim_reward_def
    snd_unit_result
  by (auto intro!: evolves_limited evolves_submit intro: evolves_trans [OF evolves_others(2) evolves_submit])

lemma evolves_register_loop: "evolves c (snd (register_loop post W request left c))"
proof (induction left arbitrary: c)
  case 0
  then show ?case by (simp add: evolves_refl)
next
  case (Suc left)
  have "evolves c c'" if "report_failure (cw_candidates W) (cw_urls W) (cw_now W) c = (new, c')" for new c'
    using evolves_failure [of c] that by (metis snd_conv)
  with Suc show ?case
    by (auto simp: Let_def evolves_refl evolves_success split: option.splits http_answer.splits prod.splits intro: evolves_trans)
qed

lemma evolves_register [evolving]: "evolves c (snd (register_with_blockchain K post W now u c))"
  unfolding register_with_blockchain_def by (rule evolves_register_loop)

lemma evolves_with_reconnect [evolving]: "evolves c (snd (with_reconnect W operation again c))"
proof -
  define retry where "retry = (\<lambda>c. case reconnect_with_backoff (cw_reconnects W) c of
            ((Inl e, c1), _) \<Rightarrow> (Inl e, c1)
          | ((Inr _, c1), _) \<Rightarrow>
              (case ensure_subxt_client (cw_connect W) c1 of
                 (Inl e, c2) \<Rightarrow> (Inl e, c2)
               | (Inr client, c2) \<Rightarrow>
                   (case again client of
                      Inl e \<Rightarrow> (Inl (Err (OperationFailed e)), c2)
                    | Inr x \<Rightarrow> (Inr x, report_success (cw_now W) c2))))"
  have b: "reconnect_with_backoff (cw_reconnects W) c = ((r, c1), ds) \<Longrightarrow> evolves c c1" for c r c1 ds
    using evolves_backoff [of c "cw_reconnects W"] by simp
  have e: "ensure_subxt_client (cw_connect W) c = (r, c1) \<Longrightarrow> evolves c c1" for c r c1
    using evolves_ensure [of c "cw_connect W"] by simp
  have retry: "evolves c (snd (retry c))" for c
    unfolding retry_def
    by (auto split: prod.splits sum.splits dest!: b e intro: evolves_trans evolves_success)
  have f: "evolves c (snd (retry (snd (report_failure (cw_candidates W) (cw_urls W) (cw_now W) c))))" for c
    by (rule evolves_trans [OF evolves_failure retry])
  show ?thesis
    unfolding with_reconnect_def retry_def [symmetric] Let_def
    by (auto split: prod.splits sum.splits dest!: e intro: evolves_trans evolves_success retry f)
qed

lemma client_step_evolves: "client_step parse K c c' \<Longrightarrow> evolves c c'"
  by (induction rule: client_step.induct) (metis evolving snd_conv)+

lemma client_reachable_inv: "client_reachable parse K endpoint c \<Longrightarrow> client_inv endpoint c"
proof (induction rule: client_reachable.induct)
  case (client_start unhex connect now limit seed chain_id c)
  then show ?case
    by (auto simp: chain_client_new_def bind_from_Inr client_inv_def active_endpoint_def get_primary_url_def set_primary_def
        failover_new_def connection_new_def Let_def)
next
  case (client_more c c')
  then show ?case using client_step_evolves by (auto simp: evolves_def)
qed

text \<open>The failover of the daemon never happens. Only a failover looks for standbys, a failover needs
  a standby, and none is there at the start: whatever fails and whatever gossip brings, the primary
  stays the endpoint of the configuration, and no failure of it moves the client elsewhere.
\<close>

theorem failover_never_happens:
  assumes "client_reachable parse K endpoint c"
  shows "active_endpoint c = Some endpoint \<and> standby_count (cc_failover c) = 0
    \<and> fst (report_failure connect urls now c) = None"
  using client_reachable_inv [OF assms] failure_without_standbys(1) [OF client_reachable_inv [OF assms]]
  by (simp add: client_inv_def standby_count_def)

text \<open>C15: The client is pinned to the first chain it connects to: once it knows a genesis hash it keeps
  it, and a connection it holds is to a node that showed this hash.
\<close>

theorem client_pins_chain:
  assumes "client_reachable parse K endpoint c" and "(client_step parse K)\<^sup>*\<^sup>* c c'"
    and "cc_expected_genesis c = Some g"
  shows "cc_expected_genesis c' = Some g \<and> (\<forall>u h. cc_subxt_client c' = Some (u, h) \<longrightarrow> h = g)
    \<and> (\<forall>connect r c''. ensure_subxt_client connect c' = (Inr r, c'') \<longrightarrow> snd r = g)"
proof -
  from assms(2) have "evolves c c'" by (induction rule: rtranclp_induct) (auto intro: evolves_refl evolves_trans client_step_evolves)
  then have i: "client_inv endpoint c'" and g: "cc_expected_genesis c' = Some g"
    using client_reachable_inv [OF assms(1)] assms(3) by (auto simp: evolves_def)
  from i g have h: "\<forall>u h. cc_subxt_client c' = Some (u, h) \<longrightarrow> h = g" by (auto simp: client_inv_def)
  have "snd r = g" if "ensure_subxt_client connect c' = (Inr r, c'')" for connect r c''
    using that g h by (cases r) (auto simp: ensure_subxt_client_def split: option.splits if_splits)
  with g h show ?thesis by blast
qed

subsection \<open>Registration with a chain node\<close>

text \<open>A chain node accepts the registration a daemon signs, when its policy allows the URL, the
  clocks differ by at most five minutes, and the signature scheme accepts its own signatures.
\<close>

theorem registration_accepted:
  assumes "\<And>bs. ge_hex E (hex_encode bs) = Some bs"
    and "length (sr_public K (cc_seed c)) = 32" and "\<And>m. length (sr_sign K (cc_seed c) m) = 64"
    and "\<And>m. ge_verify E (sr_public K (cc_seed c)) m (sr_sign K (cc_seed c) m)"
    and "validate_url (ge_parse E) lookup (ge_policy E) u = Inr ()" and "abs_diff now' now \<le> 300"
  shows "\<exists>signature. check_registration E now' lookup (signed_registration K now u c) = Inr (sr_public K (cc_seed c), signature)"
proof -
  obtain v where "validate_url_sync (ge_parse E) (ge_policy E) u = Inr v"
    using assms(5) by (auto simp: validate_url_def result_simps)
  then show ?thesis
    using assms
    by (simp add: check_registration_def signed_registration_def url_check_def max_timestamp_skew_def
        verify_registration_signature_def registration_message_def)
qed

subsection \<open>Instances\<close>

text \<open>Pairs of hexadecimal digits, read back.\<close>

fun unhex :: "string \<Rightarrow> bytes option" where
  "unhex [] = Some []"
| "unhex [c] = None"
| "unhex (c # d # s) =
     (case (hex_val c, hex_val d, unhex s) of
        (Some h, Some l, Some bs) \<Rightarrow> Some (of_nat (16 * h + l) # bs) | _ \<Rightarrow> None)"

lemma unhex_encode: "unhex (hex_encode bs) = Some bs"
proof (induction bs)
  case (Cons b bs)
  have "(word_of_nat (16 * (unat b div 16) + unat b mod 16) :: 8 word) = b" by simp
  then show ?case
    using Cons nibbles [of b] by (simp add: hex_encode_def hex_val_digit del: mult_div_mod_eq)
qed (simp add: hex_encode_def)

definition demo_keys :: sr25519 where
  "demo_keys = \<lparr>sr_public = (\<lambda>seed. seed), sr_sign = (\<lambda>seed m. replicate 64 0), sr_base58 = (\<lambda>_. []),
     sr_blake2b512 = (\<lambda>_. replicate 64 0)\<rparr>"

definition demo_seed :: string where "demo_seed = hex_encode (replicate 32 1)"

definition demo_client :: chain_client where
  "demo_client = \<lparr>cc_endpoint = ''ws://a'',
     cc_failover = set_primary 0 \<lparr>be_url = ''ws://a'', be_chain_id = replicate 32 0, be_last_verified = 0, be_latency_ms = 0,
                      be_ttl_secs = 300\<rparr> failover_new,
     cc_endpoint_cache = endpoint_cache_new [], cc_rate_limiter = rate_limiter_new 5, cc_seed = replicate 32 1,
     cc_subxt_client = Some (''ws://a'', 7), cc_holding_map = Map.empty, cc_expected_genesis = Some 7,
     cc_retry_config = retry_config_default\<rparr>"

lemma demo_client_reachable: "client_reachable parse K ''ws://a'' demo_client"
proof (rule client_start)
  show "chain_client_new unhex (\<lambda>_. Some 7) 0 ''ws://a'' 5 demo_seed failover_new (endpoint_cache_new []) = Inr demo_client"
    by (simp add: chain_client_new_def from_seed_hex_def demo_seed_def unhex_encode demo_client_def)
qed

theorem failover_never_happens_witness:
  "active_endpoint demo_client = Some ''ws://a'' \<and> standby_count (cc_failover demo_client) = 0
    \<and> fst (report_failure (\<lambda>_. Some 7) [] 0 demo_client) = None"
  by (rule failover_never_happens [OF demo_client_reachable])

theorem client_pins_chain_witness:
  "cc_expected_genesis demo_client = Some 7
    \<and> (case cc_subxt_client demo_client of Some (u, h) \<Rightarrow> h = 7 | None \<Rightarrow> True)
    \<and> (case fst (ensure_subxt_client (\<lambda>_. Some 8) demo_client) of Inr r \<Rightarrow> snd r = 7 | Inl _ \<Rightarrow> True)"
proof -
  have "cc_expected_genesis demo_client = Some 7" by (simp add: demo_client_def)
  note pins = client_pins_chain [OF demo_client_reachable rtranclp.rtrancl_refl this]
  obtain r c' where e: "ensure_subxt_client (\<lambda>_. Some 8) demo_client = (r, c')" by fastforce
  have "snd x = 7" if "r = Inr x" for x using pins e that by blast
  then show ?thesis using pins e by (auto split: option.split sum.split)
qed

theorem registration_accepted_witness:
  "\<exists>E signature. check_registration E 5 (\<lambda>_ _. DnsFailure) (signed_registration demo_keys 0 ''http://8.8.8.8'' demo_client)
     = Inr (replicate 32 1, signature)"
proof -
  define E :: gossip_env where
    "E = \<lparr>ge_decode = (\<lambda>_. None), ge_encode = (\<lambda>_. []), ge_verify = (\<lambda>_ _ _. True),
      ge_parse = (\<lambda>_. Some \<lparr>url_scheme = ''http'', url_host_of = Some (Ipv4Host (Ipv4Addr 8 8 8 8)), url_port = Some 80\<rparr>),
      ge_policy = \<lparr>allow_private = False, own_rpc_ports = []\<rparr>, ge_hex = unhex\<rparr>"
  have url: "validate_url (ge_parse E) (\<lambda>_ _. DnsFailure) (ge_policy E) ''http://8.8.8.8'' = Inr ()"
    by (simp add: E_def validate_url_def validate_url_sync_def check_host_def check_ip_def check_names_def
        is_private_v4_def Let_def)
  have "\<exists>signature. check_registration E 5 (\<lambda>_ _. DnsFailure) (signed_registration demo_keys 0 ''http://8.8.8.8'' demo_client)
     = Inr (sr_public demo_keys (cc_seed demo_client), signature)"
    by (rule registration_accepted)
      (use url in \<open>simp_all add: E_def unhex_encode demo_keys_def demo_client_def abs_diff_def\<close>)
  then show ?thesis by (auto simp: demo_keys_def demo_client_def)
qed

end
