(* ===== verification/Challenge_Monitor.thy ===== *)
theory Challenge_Monitor
  imports Chain_Client Kzg_Prover
begin

text \<open>
  The challenge monitor of the storage node daemon (\<open>src/apps/storage-node/src/challenge.rs\<close>) with
  the polling loop around it (the challenge arm of \<open>main.rs\<close>). The prover and the client of the
  chain are those of the daemon; the world a call to the chain meets is a parameter.
\<close>

subsection \<open>The monitor\<close>

record challenge =
  ch_content_hash :: bytes
  ch_share_index :: "8 word"
  ch_target_node :: bytes
  ch_deadline :: nat
  ch_issued_at :: nat

record pending_challenge =
  pc_challenge :: challenge
  pc_attempts :: nat
  pc_submitted :: bool

type_synonym challenge_key = "bytes \<times> 8 word"

record challenge_monitor =
  cm_our_account :: bytes
  cm_pending :: "challenge_key \<rightharpoonup> pending_challenge"
  cm_max_attempts :: nat

definition monitor_new :: "bytes \<Rightarrow> challenge_monitor" where
  "monitor_new account = \<lparr>cm_our_account = account, cm_pending = Map.empty, cm_max_attempts = 3\<rparr>"

datatype monitor_error = ProofFailed prover_error | SubmissionFailed chain_error

text \<open>
  How a proof reaches the chain: through the client, or not at all when there is none, as in the
  tests of the source. The state behind a submission is \<open>'c\<close>.
\<close>

type_synonym 'c submitter = "bytes \<Rightarrow> 8 word \<Rightarrow> bytes \<Rightarrow> bytes \<Rightarrow> 'c \<Rightarrow> (chain_error, unit) result \<times> 'c"

definition client_submitter ::
  "connector \<Rightarrow> (connection \<Rightarrow> storage_call \<Rightarrow> submission) \<Rightarrow> nat \<Rightarrow> chain_client option submitter" where
  "client_submitter connect submit now h i share_value proof client =
     (case client of
        Some c \<Rightarrow> map_prod id Some (submit_holding_proof connect submit now h i share_value proof c)
      | None \<Rightarrow> (Inr (), None))"

definition try_submit_proof ::
  "('f::field, 'p, 'g, 'h, 't, 'm) curve_ops_scheme \<Rightarrow> ('g, 'h) prover \<Rightarrow> 'c submitter \<Rightarrow> bytes \<Rightarrow> 8 word
     \<Rightarrow> challenge_monitor \<Rightarrow> 'c \<Rightarrow> (monitor_error, unit) result \<times> challenge_monitor \<times> 'c" where
  "try_submit_proof C P submit h i M c =
     (case cm_pending M (h, i) of
        None \<Rightarrow> (Inr (), M, c)
      | Some pc \<Rightarrow>
          if pc_submitted pc \<or> cm_max_attempts M \<le> pc_attempts pc then (Inr (), M, c)
          else
            (let tried = pc\<lparr>pc_attempts := pc_attempts pc + 1\<rparr>;
                 M1 = M\<lparr>cm_pending := (cm_pending M)((h, i) \<mapsto> tried)\<rparr>
             in case generate_proof_for_challenge C P h i of
                  Inl Trap \<Rightarrow> (Inl Trap, M1, c)
                | Inl (Err e) \<Rightarrow> (Inl (Err (ProofFailed e)), M1, c)
                | Inr (share_value, proof) \<Rightarrow>
                    (case submit h i share_value proof c of
                       (Inl Trap, c') \<Rightarrow> (Inl Trap, M1, c')
                     | (Inl (Err e), c') \<Rightarrow> (Inl (Err (SubmissionFailed e)), M1, c')
                     | (Inr _, c') \<Rightarrow>
                         (Inr (), M1\<lparr>cm_pending := (cm_pending M1)((h, i) \<mapsto> tried\<lparr>pc_submitted := True\<rparr>)\<rparr>, c'))))"

definition on_challenge_issued ::
  "('f::field, 'p, 'g, 'h, 't, 'm) curve_ops_scheme \<Rightarrow> ('g, 'h) prover \<Rightarrow> 'c submitter \<Rightarrow> challenge
     \<Rightarrow> challenge_monitor \<Rightarrow> 'c \<Rightarrow> (monitor_error, unit) result \<times> challenge_monitor \<times> 'c" where
  "on_challenge_issued C P submit ch M c =
     (if ch_target_node ch \<noteq> cm_our_account M then (Inr (), M, c)
      else
        (let key = (ch_content_hash ch, ch_share_index ch);
             M1 = M\<lparr>cm_pending := (cm_pending M)(key \<mapsto> \<lparr>pc_challenge = ch, pc_attempts = 0, pc_submitted = False\<rparr>)\<rparr>
         in try_submit_proof C P submit (ch_content_hash ch) (ch_share_index ch) M1 c))"

definition pending_count :: "challenge_monitor \<Rightarrow> nat" where "pending_count M = card (dom (cm_pending M))"

definition unanswered_count :: "challenge_monitor \<Rightarrow> nat" where
  "unanswered_count M = card {k. \<exists>pc. cm_pending M k = Some pc \<and> \<not> pc_submitted pc}"

definition cleanup_old_challenges :: "nat \<Rightarrow> challenge_monitor \<Rightarrow> challenge_monitor" where
  "cleanup_old_challenges current M =
     M\<lparr>cm_pending := retain (\<lambda>pc. \<not> pc_submitted pc \<and> current < ch_deadline (pc_challenge pc)) (cm_pending M)\<rparr>"

text \<open>\<open>order\<close> is the order in which the map of pending challenges is walked.\<close>

definition retry_keys :: "challenge_key list \<Rightarrow> challenge_monitor \<Rightarrow> challenge_key list" where
  "retry_keys order M = filter (\<lambda>k. case cm_pending M k of None \<Rightarrow> False
     | Some pc \<Rightarrow> \<not> pc_submitted pc \<and> pc_attempts pc < cm_max_attempts M) order"

primrec process_keys ::
  "('f::field, 'p, 'g, 'h, 't, 'm) curve_ops_scheme \<Rightarrow> ('g, 'h) prover \<Rightarrow> 'c submitter \<Rightarrow> challenge_key list
     \<Rightarrow> challenge_monitor \<Rightarrow> 'c \<Rightarrow> challenge_monitor \<times> 'c" where
  "process_keys C P submit [] M c = (M, c)"
| "process_keys C P submit (k # ks) M c =
     (case try_submit_proof C P submit (fst k) (snd k) M c of (_, M', c') \<Rightarrow> process_keys C P submit ks M' c')"

definition process_pending ::
  "('f::field, 'p, 'g, 'h, 't, 'm) curve_ops_scheme \<Rightarrow> ('g, 'h) prover \<Rightarrow> 'c submitter \<Rightarrow> challenge_key list
     \<Rightarrow> challenge_monitor \<Rightarrow> 'c \<Rightarrow> challenge_monitor \<times> 'c" where
  "process_pending C P submit order M c = process_keys C P submit (retry_keys order M) M c"

subsection \<open>The polling loop\<close>

text \<open>The query for challenges is missing in the client and always fails.\<close>

definition poll_challenges :: "chain_client \<Rightarrow> (chain_error, challenge list) result" where
  "poll_challenges c = Inl (Err NotImplemented)"

primrec issue_all where
  "issue_all C P submit [] M c = (M, c)"
| "issue_all C P submit (ch # chs) M c =
     (case on_challenge_issued C P submit ch M c of (_, M', c') \<Rightarrow> issue_all C P submit chs M' c')"

definition cleanup_every :: nat where "cleanup_every = 20"

text \<open>
  One tick of the arm: poll, retry, and every twentieth time clean up, when the current block can be
  had in time (\<open>at_latest\<close>).
\<close>

definition challenge_tick ::
  "('f::field, 'p, 'g, 'h, 't, 'm) curve_ops_scheme \<Rightarrow> ('g, 'h) prover \<Rightarrow> chain_client submitter \<Rightarrow> challenge_key list
     \<Rightarrow> connector \<Rightarrow> (connection \<Rightarrow> nat option) \<Rightarrow> challenge_monitor \<times> nat \<times> chain_client
     \<Rightarrow> challenge_monitor \<times> nat \<times> chain_client" where
  "challenge_tick C P submit order connect at_latest = (\<lambda>(M, counter, c).
     let (M1, c1) = (case poll_challenges c of Inr chs \<Rightarrow> issue_all C P submit chs M c | Inl _ \<Rightarrow> (M, c));
         (M2, c2) = process_pending C P submit order M1 c1
     in if cleanup_every \<le> counter + 1
        then (case latest_block_number connect at_latest c2 of
                (Inr current, c3) \<Rightarrow> (cleanup_old_challenges current M2, 0, c3)
              | (Inl _, c3) \<Rightarrow> (M2, 0, c3))
        else (M2, counter + 1, c2))"

subsection \<open>How often a proof is submitted\<close>

text \<open>A submitter that records what it is given and answers in any way, call by call.\<close>

definition logged ::
  "(nat \<Rightarrow> (chain_error, unit) result) \<Rightarrow> (challenge_key \<times> bytes \<times> bytes) list submitter" where
  "logged answer h i share_value proof log = (answer (length log), log @ [((h, i), share_value, proof)])"

definition submissions :: "challenge_key \<Rightarrow> (challenge_key \<times> bytes \<times> bytes) list \<Rightarrow> nat" where
  "submissions k log = length (filter (\<lambda>e. fst e = k) log)"

datatype monitor_event = Issued challenge | Retry "challenge_key list" | Cleanup nat

fun monitor_step where
  "monitor_step C P answer (Issued ch) (M, log) = snd (on_challenge_issued C P (logged answer) ch M log)"
| "monitor_step C P answer (Retry order) (M, log) = process_pending C P (logged answer) order M log"
| "monitor_step C P answer (Cleanup current) (M, log) = (cleanup_old_challenges current M, log)"

definition issues :: "bytes \<Rightarrow> challenge_key \<Rightarrow> monitor_event list \<Rightarrow> nat" where
  "issues account k evs = length (filter (\<lambda>e. case e of
     Issued ch \<Rightarrow> (ch_content_hash ch, ch_share_index ch) = k \<and> ch_target_node ch = account | _ \<Rightarrow> False) evs)"

text \<open>
  The attempts a pending challenge still has, and whether it is answered: with what has been
  submitted they never exceed three for each time the challenge was issued.
\<close>

definition attempts_left :: "challenge_monitor \<Rightarrow> challenge_key \<Rightarrow> nat" where
  "attempts_left M k = (case cm_pending M k of None \<Rightarrow> 0
     | Some pc \<Rightarrow> if pc_submitted pc then 0 else cm_max_attempts M - pc_attempts pc)"

lemma try_submit_logged:
  assumes "try_submit_proof C P (logged answer) h i M log = (r, M', log')"
  shows "submissions k log' + attempts_left M' k \<le> submissions k log + attempts_left M k"
    and "cm_max_attempts M' = cm_max_attempts M" and "cm_our_account M' = cm_our_account M"
  using assms
  by (auto simp: try_submit_proof_def logged_def submissions_def attempts_left_def Let_def
      split: option.splits if_splits sum.splits failure.splits prod.splits)

lemma process_keys_logged:
  assumes "process_keys C P (logged answer) ks M log = (M', log')"
  shows "submissions k log' + attempts_left M' k \<le> submissions k log + attempts_left M k
    \<and> cm_max_attempts M' = cm_max_attempts M \<and> cm_our_account M' = cm_our_account M"
  using assms
proof (induction ks arbitrary: M log)
  case (Cons x ks)
  obtain r M1 log1 where t: "try_submit_proof C P (logged answer) (fst x) (snd x) M log = (r, M1, log1)"
    by (metis prod_cases3)
  have "submissions k log' + attempts_left M' k \<le> submissions k log1 + attempts_left M1 k
    \<and> cm_max_attempts M' = cm_max_attempts M1 \<and> cm_our_account M' = cm_our_account M1"
    by (rule Cons.IH) (use Cons.prems t in simp)
  then show ?case using try_submit_logged(1) [OF t, of k] try_submit_logged(2,3) [OF t] by simp
qed simp

lemma monitor_step_logged:
  assumes "monitor_step C P answer e (M, log) = (M', log')"
  shows "submissions k log' + attempts_left M' k
      \<le> submissions k log + attempts_left M k + cm_max_attempts M * issues (cm_our_account M) k [e]"
    and "cm_max_attempts M' = cm_max_attempts M" and "cm_our_account M' = cm_our_account M"
proof -
  have "submissions k log' + attempts_left M' k
      \<le> submissions k log + attempts_left M k + cm_max_attempts M * issues (cm_our_account M) k [e]
    \<and> cm_max_attempts M' = cm_max_attempts M \<and> cm_our_account M' = cm_our_account M"
  proof (cases e)
    case (Issued ch)
    show ?thesis
    proof (cases "ch_target_node ch = cm_our_account M")
      case False
      then show ?thesis using assms Issued by (simp add: on_challenge_issued_def)
    next
      case True
      let ?key = "(ch_content_hash ch, ch_share_index ch)"
      let ?M1 = "M\<lparr>cm_pending := (cm_pending M)(?key \<mapsto> \<lparr>pc_challenge = ch, pc_attempts = 0, pc_submitted = False\<rparr>)\<rparr>"
      obtain r where "try_submit_proof C P (logged answer) (ch_content_hash ch) (ch_share_index ch) ?M1 log = (r, M', log')"
        using assms Issued True by (simp add: on_challenge_issued_def Let_def) (metis surjective_pairing)
      note tried = try_submit_logged(1) [OF this, of k] try_submit_logged(2,3) [OF this]
      have "attempts_left ?M1 k \<le> attempts_left M k + cm_max_attempts M * issues (cm_our_account M) k [e]"
        using True Issued by (auto simp: attempts_left_def issues_def split: option.split)
      with tried show ?thesis by simp
    qed
  next
    case (Retry order)
    then show ?thesis
      using assms process_keys_logged [of C P answer "retry_keys order M" M log M' log' k]
      by (simp add: process_pending_def issues_def)
  next
    case (Cleanup current)
    have "attempts_left (cleanup_old_challenges current M) k \<le> attempts_left M k"
      by (simp add: cleanup_old_challenges_def attempts_left_def retain_def split: option.split)
    with Cleanup show ?thesis using assms by (auto simp: issues_def cleanup_old_challenges_def)
  qed
  then show "submissions k log' + attempts_left M' k
      \<le> submissions k log + attempts_left M k + cm_max_attempts M * issues (cm_our_account M) k [e]"
    "cm_max_attempts M' = cm_max_attempts M" "cm_our_account M' = cm_our_account M" by auto
qed

lemma monitor_run_logged:
  assumes "fold (monitor_step C P answer) evs (M, log) = (M', log')"
  shows "submissions k log' + attempts_left M' k
    \<le> submissions k log + attempts_left M k + cm_max_attempts M * issues (cm_our_account M) k evs"
  using assms
proof (induction evs arbitrary: M log)
  case (Cons e evs)
  obtain M1 log1 where s: "monitor_step C P answer e (M, log) = (M1, log1)" by fastforce
  have "submissions k log' + attempts_left M' k
    \<le> submissions k log1 + attempts_left M1 k + cm_max_attempts M1 * issues (cm_our_account M1) k evs"
    by (rule Cons.IH) (use Cons.prems s in simp)
  moreover have "issues account k (e # evs) = issues account k [e] + issues account k evs" for account
    by (simp add: issues_def)
  ultimately show ?case using monitor_step_logged(1) [OF s, of k] monitor_step_logged(2,3) [OF s] by (simp add: algebra_simps)
qed (simp add: issues_def)

text \<open>Whatever the chain answers and however often the monitor retries and cleans up, it submits at
  most three proofs for each time a challenge of its node is issued, and none for other nodes.
\<close>

theorem submissions_bounded:
  "submissions k (snd (fold (monitor_step C P answer) evs (monitor_new account, []))) \<le> 3 * issues account k evs"
proof -
  obtain M' log' where r: "fold (monitor_step C P answer) evs (monitor_new account, []) = (M', log')" by fastforce
  from monitor_run_logged [OF this, of k] show ?thesis
    unfolding r by (simp add: monitor_new_def attempts_left_def submissions_def)
qed

subsection \<open>A challenge answered\<close>

text \<open>A chain that includes a call exactly when it is a proof its verifier accepts for the commitment.\<close>

definition verifying_chain ::
  "('f::field, 'p, 'g, 'h, 't, 'm) curve_ops_scheme \<Rightarrow> bytes \<Rightarrow> hash256 \<Rightarrow> connection \<Rightarrow> storage_call \<Rightarrow> submission" where
  "verifying_chain C commitment block client call =
     (case call of
        ProveHoldingKzg h i share_value proof \<Rightarrow>
          if chain_verify_kzg_proof C commitment i share_value proof = Inr True then Watched [InBestBlock block True] False
          else Watched [OtherStatus, InBestBlock block False] False
      | _ \<Rightarrow> Refused)"

text \<open>C12: A node that is challenged on a share it holds answers in the same call, provided that its prover has
  loaded the reference string of the very ceremony whose point the chain verifies with (a daemon
  without a reference string, or a development daemon with its own secret, does not answer), that the stored
  coefficients are not all zero and no more than the powers of the string, that the stored value is the value of
  the polynomial at the index and the chain's commitment the one of the polynomial, that the index is not the
  secret of the ceremony, that the challenge names the node's account and an attempt is left, and that the
  connection to the chain comes about. Then a chain that includes a call exactly when its KZG verifier accepts the proof
  includes it, and the monitor counts the challenge as answered. (The other checks of
  \<open>prove_holding_kzg\<close>, among them that the challenge is pending, are those of the storage pallet and not part of this chain.)
\<close>

theorem challenge_answered:
  assumes "curve_ok C" and "srs_ok C tau srs" and "pv_srs_g1 P = powers_of_g1 srs"
    and "g2_deserialize C tau_g2_bytes = Some (tau_g2 srs)"
    and "pv_shares P (ch_content_hash ch, ch_share_index ch) = Some share"
    and "ss_polynomial_coeffs share = encode_coeffs C cs"
    and "ss_share_value share = scalar_to_bytes C (horner cs (fr_from_u64 C (unat (ch_share_index ch))))"
    and "trim cs \<noteq> []" and "length cs \<le> length (powers_of_g1 srs)"
    and "compute_commitment C srs (from_coefficients_vec C cs) = Inr commitment"
    and "tau \<noteq> fr_from_u64 C (unat (ch_share_index ch))"
    and "ch_target_node ch = cm_our_account M" and "0 < cm_max_attempts M"
    and "ensure_subxt_client connect client = (Inr link, client')"
  shows "\<exists>M'. on_challenge_issued C P (client_submitter connect (verifying_chain C commitment block) now) ch M (Some client)
        = (Inr (), M', Some (report_success now client'))
    \<and> map_option pc_submitted (cm_pending M' (ch_content_hash ch, ch_share_index ch)) = Some True"
proof -
  obtain pf where g: "generate_proof_for_challenge C P (ch_content_hash ch) (ch_share_index ch) = Inr (ss_share_value share, pf)"
    and v: "chain_verify_kzg_proof C commitment (ch_share_index ch) (ss_share_value share) pf = Inr True"
    using honest_proof_accepted [OF assms(1-11)] by blast
  have "submit_holding_proof connect (verifying_chain C commitment block) now (ch_content_hash ch) (ch_share_index ch)
      (ss_share_value share) pf client = (Inr (), report_success now client')"
    using assms(14) v by (simp add: submit_holding_proof_def submit_storage_extrinsic_def unit_result_def verifying_chain_def)
  with g assms(12,13) show ?thesis
    by (simp add: on_challenge_issued_def try_submit_proof_def client_submitter_def Let_def)
qed

subsection \<open>In the daemon nothing is ever answered\<close>

lemma idle_tick:
  assumes "cm_pending M = Map.empty" and "counter < cleanup_every"
  shows "\<exists>queries. challenge_tick C P submit order connect at_latest (M, counter, c)
    = (M, if counter + 1 = cleanup_every then 0 else counter + 1,
       fold (\<lambda>(connect, at_latest) c. snd (latest_block_number connect at_latest c)) queries c)"
proof -
  have keys: "retry_keys order M = []" using assms(1) by (simp add: retry_keys_def)
  have "retain keep (Map.empty :: challenge_key \<rightharpoonup> pending_challenge) = Map.empty" for keep by (simp add: retain_def)
  then have clean: "cleanup_old_challenges current M = M" for current using assms(1) by (simp add: cleanup_old_challenges_def)
  show ?thesis
  proof (cases "counter + 1 = cleanup_every")
    case True
    then show ?thesis using keys clean
      by (intro exI [of _ "[(connect, at_latest)]"])
        (auto simp: challenge_tick_def poll_challenges_def process_pending_def split: prod.splits sum.splits)
  next
    case False
    then show ?thesis using keys assms(2)
      by (intro exI [of _ "[]"]) (simp add: challenge_tick_def poll_challenges_def process_pending_def)
  qed
qed

text \<open>The monitor of the running daemon never learns of a challenge, because the query that should
  bring them is missing: after any number of ticks nothing is pending and no proof was submitted;
  all the ticks do to the client is to ask it for the latest block.
\<close>

theorem daemon_never_proves:
  assumes "fold (\<lambda>(order, connect, at_latest). challenge_tick C P submit order connect at_latest) ticks
      (monitor_new account, 0, c) = (M, counter, c')"
  shows "cm_pending M = Map.empty \<and> counter < cleanup_every
    \<and> (\<exists>queries. c' = fold (\<lambda>(connect, at_latest) c. snd (latest_block_number connect at_latest c)) queries c)"
proof -
  define tick where "tick = (\<lambda>(order, connect, at_latest). challenge_tick C P submit order connect at_latest)"
  have step: "\<exists>queries. tick t (M, counter, c) = (M, if counter + 1 = cleanup_every then 0 else counter + 1,
      fold (\<lambda>(connect, at_latest) c. snd (latest_block_number connect at_latest c)) queries c)"
    if "cm_pending M = Map.empty" "counter < cleanup_every" for t M counter c
  proof -
    obtain order connect at_latest where "t = (order, connect, at_latest)" by (metis prod_cases3)
    with idle_tick [OF that, of C P submit order connect at_latest c] show ?thesis by (simp add: tick_def)
  qed
  have "cm_pending M = Map.empty \<and> counter < cleanup_every
      \<and> (\<exists>queries. c' = fold (\<lambda>(connect, at_latest) c. snd (latest_block_number connect at_latest c)) queries c)"
    if "fold tick ticks (M0, n0, c) = (M, counter, c')" "cm_pending M0 = Map.empty" "n0 < cleanup_every" for M0 n0
    using that
  proof (induction ticks arbitrary: M0 n0 c)
    case Nil
    then show ?case by (auto intro: exI [of _ "[]"])
  next
    case (Cons t ticks)
    obtain queries where t: "tick t (M0, n0, c) = (M0, if n0 + 1 = cleanup_every then 0 else n0 + 1,
      fold (\<lambda>(connect, at_latest) c. snd (latest_block_number connect at_latest c)) queries c)" (is "_ = (_, ?n, ?c)")
      using step [OF Cons.prems(2,3)] by blast
    have "?n < cleanup_every" using Cons.prems(3) by (auto simp: cleanup_every_def)
    then have "cm_pending M = Map.empty \<and> counter < cleanup_every
      \<and> (\<exists>more. c' = fold (\<lambda>(connect, at_latest) c. snd (latest_block_number connect at_latest c)) more ?c)"
      using Cons.IH [of M0 ?n ?c] Cons.prems t by simp
    then show ?case by (metis comp_apply fold_append)
  qed
  from this [of "monitor_new account" 0] assms show ?thesis
    by (simp add: tick_def monitor_new_def cleanup_every_def)
qed

subsection \<open>Witnesses\<close>

theorem daemon_never_proves_witness:
  "\<exists>M counter c'. challenge_tick prover_curve demo_prover (\<lambda>_ _ _ _ c. (Inr (), c)) [] (\<lambda>_. None) (\<lambda>_. None)
      (monitor_new [], 0, demo_client) = (M, counter, c') \<and> cm_pending M = Map.empty"
proof -
  obtain M counter c' where t: "challenge_tick prover_curve demo_prover (\<lambda>_ _ _ _ c. (Inr (), c)) [] (\<lambda>_. None) (\<lambda>_. None)
      (monitor_new [], 0, demo_client) = (M, counter, c')" by (metis prod_cases3)
  then show ?thesis
    using daemon_never_proves [of prover_curve demo_prover "\<lambda>_ _ _ _ c. (Inr (), c)" "[([], \<lambda>_. None, \<lambda>_. None)]" "[]" demo_client M counter c']
    by auto
qed

definition demo_challenge :: challenge where
  "demo_challenge = \<lparr>ch_content_hash = [], ch_share_index = 1, ch_target_node = [], ch_deadline = 9, ch_issued_at = 1\<rparr>"

theorem challenge_answered_witness:
  "\<exists>commitment M'. on_challenge_issued prover_curve demo_prover
      (client_submitter (\<lambda>_. Some 7) (verifying_chain prover_curve commitment 3) 4)
      demo_challenge (monitor_new []) (Some demo_client) = (Inr (), M', Some (report_success 4 demo_client))
    \<and> map_option pc_submitted (cm_pending M' ([], 1)) = Some True"
proof -
  obtain commitment where
    c: "compute_commitment prover_curve ceremony_srs (from_coefficients_vec prover_curve [gf_of 5, gf_of 7]) = Inr commitment"
    using demo_prover_facts(7) by blast
  have e: "ensure_subxt_client (\<lambda>_. Some 7) demo_client = (Inr (''ws://a'', 7), demo_client)"
    by (simp add: ensure_subxt_client_def demo_client_def)
  have held: "pv_shares demo_prover (ch_content_hash demo_challenge, ch_share_index demo_challenge) = Some demo_share"
    "ss_share_value demo_share
       = scalar_to_bytes prover_curve (horner [gf_of 5, gf_of 7] (fr_from_u64 prover_curve (unat (ch_share_index demo_challenge))))"
    "gf_of 0xb5 \<noteq> fr_from_u64 prover_curve (unat (ch_share_index demo_challenge))"
    using demo_prover_facts(4,8) by (simp_all add: demo_challenge_def) (simp add: demo_share_def)
  have share: "ss_polynomial_coeffs demo_share = encode_coeffs prover_curve [gf_of 5, gf_of 7]"
    by (simp add: demo_share_def)
  have "\<exists>M'. on_challenge_issued prover_curve demo_prover
        (client_submitter (\<lambda>_. Some 7) (verifying_chain prover_curve commitment 3) 4)
        demo_challenge (monitor_new []) (Some demo_client) = (Inr (), M', Some (report_success 4 demo_client))
    \<and> map_option pc_submitted (cm_pending M' (ch_content_hash demo_challenge, ch_share_index demo_challenge)) = Some True"
    by (rule challenge_answered [OF prover_curve_ok demo_prover_facts(1-3) held(1) share held(2) demo_prover_facts(5,6) c held(3) _ _ e])
      (simp_all add: demo_challenge_def monitor_new_def)
  then show ?thesis by (auto simp: demo_challenge_def)
qed

end
