(* ===== verification/Node_Gc.thy ===== *)
theory Node_Gc
  imports Chain_Client Fragment_Store
begin

text \<open>
  What the storage node daemon throws away and when: the collector of forgotten content
  (\<open>src/apps/storage-node/src/gc\<close>), and the arms of the main loop that run it and the eviction
  (\<open>main.rs\<close>), with the queries of the store they use (\<open>storage/mod.rs\<close>). Times are seconds.
\<close>

subsection \<open>Queries of the store\<close>

definition list_fragments :: "fragment_store \<Rightarrow> hash256 list" where
  "list_fragments s = RBT.keys (fs_fragments s)"

definition fragment_stored :: "hash256 \<Rightarrow> fragment_store \<Rightarrow> bool" where
  "fragment_stored fid s \<longleftrightarrow> RBT.lookup (fs_fragments s) fid \<noteq> None"

definition post_fragment_stored :: "nat \<Rightarrow> nat \<Rightarrow> fragment_store \<Rightarrow> bool" where
  "post_fragment_stored p i s \<longleftrightarrow> RBT.lookup (fs_posts s) (p, i) \<noteq> None"

definition fragment_count :: "fragment_store \<Rightarrow> nat" where "fragment_count s = length (RBT.entries (fs_fragments s))"
definition post_fragment_count :: "fragment_store \<Rightarrow> nat" where "post_fragment_count s = length (RBT.entries (fs_posts s))"
definition total_fragment_count :: "fragment_store \<Rightarrow> nat" where
  "total_fragment_count s = fragment_count s + post_fragment_count s"

definition fragment_metadata :: "hash256 \<Rightarrow> fragment_store \<Rightarrow> metadata option" where
  "fragment_metadata fid s = RBT.lookup (fs_fragment_meta s) fid"

definition post_fragment_metadata :: "nat \<Rightarrow> nat \<Rightarrow> fragment_store \<Rightarrow> metadata option" where
  "post_fragment_metadata p i s = RBT.lookup (fs_post_meta s) (p, i)"

subsection \<open>The collector\<close>

definition gc_grace_period_secs :: nat where "gc_grace_period_secs = 7 * 86400"
definition gc_grace_period_dev_secs :: nat where "gc_grace_period_dev_secs = 10 * 60"

record gc_candidate =
  gc_content_hash :: hash256
  gc_marked_at :: nat
  gc_score :: nat

record garbage_collector =
  gc_candidates :: "hash256 \<rightharpoonup> gc_candidate"
  gc_grace_period :: nat

definition gc_new :: "bool \<Rightarrow> garbage_collector" where
  "gc_new dev_mode = \<lparr>gc_candidates = Map.empty,
     gc_grace_period = (if dev_mode then gc_grace_period_dev_secs else gc_grace_period_secs)\<rparr>"

definition mark_forgetting_candidate :: "nat \<Rightarrow> hash256 \<Rightarrow> nat \<Rightarrow> garbage_collector \<Rightarrow> garbage_collector" where
  "mark_forgetting_candidate now h score G =
     (if gc_candidates G h = None
      then G\<lparr>gc_candidates := (gc_candidates G)(h \<mapsto> \<lparr>gc_content_hash = h, gc_marked_at = now, gc_score = score\<rparr>)\<rparr>
      else G)"

definition unmark_forgetting_candidate :: "hash256 \<Rightarrow> garbage_collector \<Rightarrow> garbage_collector" where
  "unmark_forgetting_candidate h G = G\<lparr>gc_candidates := (gc_candidates G)(h := None)\<rparr>"

text \<open>\<open>order\<close> is the order in which the map is walked.\<close>

definition get_gc_ready :: "hash256 list \<Rightarrow> nat \<Rightarrow> garbage_collector \<Rightarrow> hash256 list" where
  "get_gc_ready order now G = filter (\<lambda>h. case gc_candidates G h of None \<Rightarrow> False
     | Some c \<Rightarrow> gc_grace_period G \<le> now - gc_marked_at c) order"

definition execute_gc :: "nat \<Rightarrow> hash256 \<Rightarrow> garbage_collector \<Rightarrow> bool \<times> garbage_collector" where
  "execute_gc now h G =
     (case gc_candidates G h of
        None \<Rightarrow> (False, G)
      | Some c \<Rightarrow>
          if gc_grace_period G \<le> now - gc_marked_at c then (True, unmark_forgetting_candidate h G) else (False, G))"

definition gc_pending_count :: "garbage_collector \<Rightarrow> nat" where "gc_pending_count G = card (dom (gc_candidates G))"

definition get_all_candidates :: "hash256 list \<Rightarrow> garbage_collector \<Rightarrow> gc_candidate list" where
  "get_all_candidates order G = List.map_filter (gc_candidates G) order"

subsection \<open>The arm that collects\<close>

text \<open>The answers of the chain are taken in order; an error of the query leaves the marks as they are.\<close>

definition apply_answer :: "nat \<Rightarrow> hash256 \<times> bool \<Rightarrow> garbage_collector \<Rightarrow> garbage_collector" where
  "apply_answer now = (\<lambda>(h, is_candidate).
     if is_candidate then mark_forgetting_candidate now h 0 else unmark_forgetting_candidate h)"

definition gc_query :: "(string \<Rightarrow> hash256 list \<Rightarrow> (hash256 \<times> bool) list http_answer) \<Rightarrow> chain_client \<Rightarrow> fragment_store
     \<Rightarrow> (hash256 \<times> bool) list" where
  "gc_query post c s =
     (if list_fragments s = [] then []
      else case check_forgetting_candidates post (list_fragments s) c of Inr answers \<Rightarrow> answers | Inl _ \<Rightarrow> [])"

definition collect_one :: "nat \<Rightarrow> hash256 \<Rightarrow> garbage_collector \<times> fragment_store \<Rightarrow> garbage_collector \<times> fragment_store" where
  "collect_one now h = (\<lambda>(G, s).
     case execute_gc now h G of (True, G') \<Rightarrow> (G', snd (delete h s)) | (False, G') \<Rightarrow> (G', s))"

text \<open>One tick: \<open>now\<close> is the time of the marks, \<open>later\<close> that of the collection.\<close>

definition gc_tick ::
  "(string \<Rightarrow> hash256 list \<Rightarrow> (hash256 \<times> bool) list http_answer) \<Rightarrow> chain_client \<Rightarrow> hash256 list \<Rightarrow> nat \<Rightarrow> nat
     \<Rightarrow> garbage_collector \<times> fragment_store \<Rightarrow> garbage_collector \<times> fragment_store" where
  "gc_tick post c order now later = (\<lambda>(G, s).
     let G1 = fold (apply_answer now) (gc_query post c s) G
     in fold (collect_one later) (get_gc_ready order later G1) (G1, s))"

subsection \<open>The arm that flushes and evicts\<close>

definition touch_tick :: "fragment_store \<Rightarrow> fragment_store" where
  "touch_tick s =
     (let s1 = snd (flush_touch_buffer s); cap = fs_capacity s1
      in if 0 < cap \<and> cap div 100 * 95 < fs_used s1 then fst (evict_lru (cap div 100 * 85) s1) else s1)"

subsection \<open>Excess holders\<close>

record stale_holder_gc_config =
  sh_check_interval_secs :: nat
  sh_max_evictions_per_cycle :: nat
  sh_enabled :: bool

definition stale_holder_gc_default :: stale_holder_gc_config where
  "stale_holder_gc_default = \<lparr>sh_check_interval_secs = 300, sh_max_evictions_per_cycle = 10, sh_enabled = True\<rparr>"

text \<open>The eviction of excess holders is missing: a cycle that is enabled fails.\<close>

definition run_cycle :: "stale_holder_gc_config \<Rightarrow> (chain_error, nat) result" where
  "run_cycle cfg = (if sh_enabled cfg then Inl (Err NotImplemented) else Inr 0)"

subsection \<open>The collector keeps the store consistent\<close>

lemma collect_one_facts:
  assumes "store_inv H s" and "collect_one now h (G, s) = (G', s')"
  shows "store_inv H s' \<and> fs_capacity s' = fs_capacity s \<and> fs_posts s' = fs_posts s
    \<and> RBT.lookup (fs_fragments s') = (if fst (execute_gc now h G) then (RBT.lookup (fs_fragments s))(h := None) else RBT.lookup (fs_fragments s))
    \<and> G' = snd (execute_gc now h G)"
proof (cases "fst (execute_gc now h G)")
  case True
  then obtain ok where "delete h s = (ok, s')" and g: "G' = snd (execute_gc now h G)"
    using assms(2) by (cases "execute_gc now h G"; cases "delete h s") (auto simp: collect_one_def)
  then have "fs_capacity s' = fs_capacity s" by (auto simp: delete_def split: option.splits)
  with delete_facts [OF assms(1) \<open>delete h s = (ok, s')\<close>] g True show ?thesis by simp
next
  case False
  then show ?thesis using assms by (cases "execute_gc now h G") (auto simp: collect_one_def)
qed

lemma collect_all_facts:
  assumes "store_inv H s" and "fold (collect_one now) hs (G, s) = (G', s')"
  shows "store_inv H s' \<and> fs_posts s' = fs_posts s
    \<and> (\<forall>k. RBT.lookup (fs_fragments s') k = RBT.lookup (fs_fragments s) k \<or> k \<in> set hs \<and> RBT.lookup (fs_fragments s') k = None)
    \<and> (\<forall>k c. gc_candidates G' k = Some c \<longrightarrow> gc_candidates G k = Some c) \<and> gc_grace_period G' = gc_grace_period G"
  using assms
proof (induction hs arbitrary: G s)
  case (Cons h hs)
  obtain G1 s1 where one: "collect_one now h (G, s) = (G1, s1)" by fastforce
  note facts = collect_one_facts [OF Cons.prems(1) one]
  have "(\<forall>k c. gc_candidates G1 k = Some c \<longrightarrow> gc_candidates G k = Some c) \<and> gc_grace_period G1 = gc_grace_period G"
    using facts by (auto simp: execute_gc_def unmark_forgetting_candidate_def split: option.splits if_splits)
  moreover have "RBT.lookup (fs_fragments s1) k = RBT.lookup (fs_fragments s) k \<or> k = h \<and> RBT.lookup (fs_fragments s1) k = None" for k
    using facts by auto
  moreover have "fold (collect_one now) hs (G1, s1) = (G', s')" using Cons.prems(2) one by simp
  ultimately show ?case using Cons.IH [of s1 G1] facts by (simp; metis)
qed simp

subsection \<open>Nothing is collected before its time\<close>

text \<open>
  A tick in its world: how the chain answers, the client, the store as the other arms have left it,
  the order of the map, and the two times; and all the answers of a sequence of ticks.
\<close>

type_synonym gc_world =
  "(string \<Rightarrow> hash256 list \<Rightarrow> (hash256 \<times> bool) list http_answer) \<times> chain_client \<times> fragment_store \<times> hash256 list \<times> nat \<times> nat"

definition gc_answers :: "gc_world \<Rightarrow> (nat \<times> hash256 \<times> bool) list" where
  "gc_answers = (\<lambda>(post, c, s, order, now, later). map (Pair now) (gc_query post c s))"

definition gc_run :: "gc_world list \<Rightarrow> garbage_collector \<Rightarrow> garbage_collector" where
  "gc_run = fold (\<lambda>(post, c, s, order, now, later) G. fst (gc_tick post c order now later (G, s)))"

definition candidate_since :: "hash256 \<Rightarrow> nat \<Rightarrow> (nat \<times> hash256 \<times> bool) list \<Rightarrow> bool" where
  "candidate_since h t answers \<longleftrightarrow>
     (\<exists>before after. answers = before @ (t, h, True) # after \<and> (\<forall>(t', h', is_candidate) \<in> set after. h' = h \<longrightarrow> is_candidate))"

definition marks_justified :: "garbage_collector \<Rightarrow> (nat \<times> hash256 \<times> bool) list \<Rightarrow> bool" where
  "marks_justified G answers \<longleftrightarrow> (\<forall>h c. gc_candidates G h = Some c \<longrightarrow> candidate_since h (gc_marked_at c) answers)"

lemma candidate_since_snoc:
  "candidate_since h t (answers @ [(t', h', f)])
     \<longleftrightarrow> (f \<and> h' = h \<and> t' = t) \<or> (candidate_since h t answers \<and> (h' = h \<longrightarrow> f))" (is "?l \<longleftrightarrow> ?r")
proof
  assume ?l
  then obtain before after where split: "answers @ [(t', h', f)] = before @ (t, h, True) # after"
    and kept: "\<forall>(t', h', is_candidate) \<in> set after. h' = h \<longrightarrow> is_candidate"
    by (auto simp: candidate_since_def)
  show ?r
  proof (cases after rule: rev_cases)
    case Nil
    then show ?thesis using split by simp
  next
    case (snoc after' x)
    then have "answers = before @ (t, h, True) # after'" "x = (t', h', f)" using split by simp_all
    then show ?thesis using kept snoc by (auto simp: candidate_since_def)
  qed
next
  assume ?r
  then show ?l
  proof
    assume "f \<and> h' = h \<and> t' = t"
    then show ?l unfolding candidate_since_def by (intro exI [of _ answers] exI [of _ "[]"]) simp
  next
    assume c: "candidate_since h t answers \<and> (h' = h \<longrightarrow> f)"
    then obtain before after where "answers = before @ (t, h, True) # after"
      "\<forall>(t', h', is_candidate) \<in> set after. h' = h \<longrightarrow> is_candidate"
      unfolding candidate_since_def by blast
    with c show ?l unfolding candidate_since_def
      by (intro exI [of _ before] exI [of _ "after @ [(t', h', f)]"]) auto
  qed
qed

lemma marks_justified_answers:
  assumes "marks_justified G answers"
  shows "marks_justified (fold (apply_answer now) as G) (answers @ map (Pair now) as)"
    and "gc_grace_period (fold (apply_answer now) as G) = gc_grace_period G"
proof -
  have "marks_justified (fold (apply_answer now) as G) (answers @ map (Pair now) as)
      \<and> gc_grace_period (fold (apply_answer now) as G) = gc_grace_period G"
    using assms
  proof (induction as arbitrary: G answers)
    case (Cons a as)
    obtain h f where a: "a = (h, f)" by fastforce
    have "marks_justified (apply_answer now a G) (answers @ [(now, a)])"
      using Cons.prems unfolding a
      by (cases f) (auto simp: marks_justified_def apply_answer_def mark_forgetting_candidate_def
          unmark_forgetting_candidate_def candidate_since_snoc)
    moreover have "gc_grace_period (apply_answer now a G) = gc_grace_period G"
      by (simp add: a apply_answer_def mark_forgetting_candidate_def unmark_forgetting_candidate_def)
    ultimately show ?case using Cons.IH [of "apply_answer now a G" "answers @ [(now, a)]"] by simp
  qed simp
  then show "marks_justified (fold (apply_answer now) as G) (answers @ map (Pair now) as)"
    "gc_grace_period (fold (apply_answer now) as G) = gc_grace_period G" by auto
qed

lemma gc_run_justified:
  "marks_justified (gc_run ticks (gc_new dev)) (concat (map gc_answers ticks))
   \<and> gc_grace_period (gc_run ticks (gc_new dev)) = gc_grace_period (gc_new dev)"
  if "\<forall>(post, c, s, order, now, later) \<in> set ticks. store_inv H s"
  using that
proof (induction ticks rule: rev_induct)
  case Nil
  then show ?case by (simp add: gc_run_def marks_justified_def gc_new_def)
next
  case (snoc w ticks)
  obtain post c s order now later where w: "w = (post, c, s, order, now, later)" by (metis prod_cases6)
  let ?G = "gc_run ticks (gc_new dev)" and ?as = "gc_query post c s"
  let ?G1 = "fold (apply_answer now) ?as ?G"
  obtain G' s' where t: "gc_tick post c order now later (?G, s) = (G', s')" by fastforce
  have j: "marks_justified ?G1 (concat (map gc_answers ticks) @ map (Pair now) ?as)" "gc_grace_period ?G1 = gc_grace_period ?G"
    using marks_justified_answers snoc by auto
  have "store_inv H s" using snoc.prems w by auto
  moreover have "fold (collect_one later) (get_gc_ready order later ?G1) (?G1, s) = (G', s')"
    using t by (simp add: gc_tick_def Let_def)
  ultimately have kept: "\<forall>k c. gc_candidates G' k = Some c \<longrightarrow> gc_candidates ?G1 k = Some c" "gc_grace_period G' = gc_grace_period ?G1"
    using collect_all_facts by blast+
  have "gc_run (ticks @ [w]) (gc_new dev) = G'" using t by (simp add: gc_run_def w)
  moreover have "concat (map gc_answers (ticks @ [w])) = concat (map gc_answers ticks) @ map (Pair now) ?as"
    by (simp add: w gc_answers_def)
  ultimately show ?case using j kept snoc by (auto simp: marks_justified_def)
qed

text \<open>C17: A tick deletes a fragment only when the chain called it a forgetting candidate at least the
  grace period before, seven days or ten minutes in development, and has not taken it back in any
  answer since; nothing else in the store changes, and its accounts stay right.
\<close>

theorem gc_respects_grace:
  assumes "\<forall>(post, c, s, order, now, later) \<in> set ticks. store_inv H s" and "store_inv H s"
    and "gc_tick post c order now later (gc_run ticks (gc_new dev), s) = (G', s')"
  shows "store_inv H s' \<and> fs_posts s' = fs_posts s
    \<and> (\<forall>h. RBT.lookup (fs_fragments s') h = RBT.lookup (fs_fragments s) h \<or>
        RBT.lookup (fs_fragments s') h = None
        \<and> (\<exists>t. candidate_since h t (concat (map gc_answers (ticks @ [(post, c, s, order, now, later)])))
              \<and> (if dev then 10 * 60 else 7 * 24 * 60 * 60) \<le> later - t))"
proof -
  let ?G = "gc_run ticks (gc_new dev)" and ?as = "gc_query post c s"
  let ?G1 = "fold (apply_answer now) ?as ?G"
  let ?answers = "concat (map gc_answers (ticks @ [(post, c, s, order, now, later)]))"
  note run = gc_run_justified [OF assms(1), of dev]
  have j: "marks_justified ?G1 ?answers" "gc_grace_period ?G1 = gc_grace_period (gc_new dev)"
    using marks_justified_answers run by (auto simp: gc_answers_def)
  have fold: "fold (collect_one later) (get_gc_ready order later ?G1) (?G1, s) = (G', s')"
    using assms(3) by (simp add: gc_tick_def Let_def)
  note facts = collect_all_facts [OF assms(2) fold]
  have "\<exists>t. candidate_since h t ?answers \<and> gc_grace_period (gc_new dev) \<le> later - t"
    if "h \<in> set (get_gc_ready order later ?G1)" for h
    using that j by (auto simp: get_gc_ready_def marks_justified_def split: option.splits)
  with facts show ?thesis
    by (auto simp: gc_new_def gc_grace_period_secs_def gc_grace_period_dev_secs_def split: if_splits)
qed

lemma collect_all_collects:
  assumes "store_inv H s" and "fold (collect_one now) hs (G, s) = (G', s')" and "h \<in> set hs"
    and "gc_candidates G h = Some c" and "gc_grace_period G \<le> now - gc_marked_at c"
  shows "RBT.lookup (fs_fragments s') h = None"
  using assms
proof (induction hs arbitrary: G s)
  case (Cons x hs)
  obtain G1 s1 where one: "collect_one now x (G, s) = (G1, s1)" by fastforce
  have rest: "fold (collect_one now) hs (G1, s1) = (G', s')" using Cons.prems(2) one by simp
  note facts = collect_one_facts [OF Cons.prems(1) one]
  show ?case
  proof (cases "x = h")
    case True
    then have "RBT.lookup (fs_fragments s1) h = None" using facts Cons.prems(4,5) by (simp add: execute_gc_def)
    then show ?thesis using collect_all_facts [OF _ rest] facts by metis
  next
    case False
    then have "gc_candidates G1 h = Some c" "gc_grace_period G1 = gc_grace_period G"
      using facts Cons.prems(4) by (auto simp: execute_gc_def unmark_forgetting_candidate_def split: option.splits if_splits)
    then show ?thesis using Cons.IH [OF _ rest] facts Cons.prems False by auto
  qed
qed simp

text \<open>
  The collector fails open: when the chain cannot be asked, the marks it had are carried out, also
  for a fragment whose score has recovered since, and for one that was evicted and stored again, since
  a mark stays with the name when its fragment goes by another way.
\<close>

lemma gc_fails_open:
  assumes "store_inv H s" and "check_forgetting_candidates post (list_fragments s) client = Inl e"
    and "gc_candidates G h = Some c" and "gc_grace_period G \<le> later - gc_marked_at c" and "h \<in> set order"
    and "gc_tick post client order now later (G, s) = (G', s')"
  shows "\<not> fragment_stored h s'"
proof -
  have "gc_query post client s = []" using assms(2) by (simp add: gc_query_def)
  then have "fold (collect_one later) (get_gc_ready order later G) (G, s) = (G', s')"
    using assms(6) by (simp add: gc_tick_def)
  moreover have "h \<in> set (get_gc_ready order later G)" using assms(3-5) by (simp add: get_gc_ready_def)
  ultimately show ?thesis using collect_all_collects [OF assms(1)] assms(3,4) by (auto simp: fragment_stored_def)
qed

lemma eviction_keeps_marks: "fst (gc_tick post c order now later (G, s)) = G"
  if "list_fragments s = []" and "get_gc_ready order later G = []"
  using that by (simp add: gc_tick_def gc_query_def)

subsection \<open>Room to write\<close>

text \<open>After a tick of the other arm at most 95 percent of the capacity is in use.\<close>

lemma touch_tick_room:
  assumes "store_reachable H capacity verify s" and "capacity \<le> u64_max" and "0 < capacity"
  shows "fs_used (touch_tick s) \<le> capacity div 100 * 95" and "store_reachable H capacity verify (touch_tick s)"
proof -
  let ?s1 = "snd (flush_touch_buffer s)" and ?target = "capacity div 100 * 85"
  have r1: "store_reachable H capacity verify ?s1"
    by (rule store_more [OF assms(1) step_flush]) (simp add: prod_eq_iff)
  have cap: "fs_capacity ?s1 = capacity" by (rule store_reachable_capacity [OF r1])
  obtain s2 st where ev: "evict_lru ?target ?s1 = (s2, st)" by fastforce
  have "fs_used s2 \<le> ?target" using evict_lru_prefix [OF store_inv_reachable [OF r1 assms(2)] ev] by blast
  moreover have "capacity div 100 * 85 \<le> capacity div 100 * 95" by simp
  ultimately show "fs_used (touch_tick s) \<le> capacity div 100 * 95"
    using ev assms(3) by (simp add: touch_tick_def Let_def cap)
  show "store_reachable H capacity verify (touch_tick s)"
    using store_more [OF r1 step_evict [OF ev]] r1 ev by (simp add: touch_tick_def Let_def cap)
qed

subsection \<open>Witness\<close>

text \<open>A fragment the chain calls a candidate at time 0 is kept by the tick at 599 and goes with the one at 600.\<close>

definition demo_answer :: "string \<Rightarrow> hash256 list \<Rightarrow> (hash256 \<times> bool) list http_answer" where
  "demo_answer u hs = HttpAnswer (Some \<lparr>rr_result = Some (map (\<lambda>h. (h, True)) hs), rr_error = None\<rparr>)"

lemma demo_store_list: "list_fragments demo_store = [5]"
proof -
  have "dom (RBT.lookup (fs_fragments demo_store)) = {5}"
    by (simp add: demo_store_def open_store_def load_or_recover_used_def scan_used_bytes_def empty_db_def store_def
        store_post_fragment_def max_fragment_size_def max_post_id_def max_fragment_index_def u64_max_def entries_bytes Let_def)
  then have "set (list_fragments demo_store) = {5}" by (simp add: list_fragments_def lookup_keys [symmetric])
  moreover have "distinct (list_fragments demo_store)" unfolding list_fragments_def by (rule RBT.distinct_keys)
  ultimately show ?thesis using distinct_card [of "list_fragments demo_store"]
    by (cases "list_fragments demo_store" rule: remdups_adj.cases) auto
qed

theorem gc_respects_grace_witness:
  "\<exists>G' s'. gc_tick demo_answer demo_client [5] 600 600
        (gc_run [(demo_answer, demo_client, demo_store, [5], 0, 0), (demo_answer, demo_client, demo_store, [5], 599, 599)]
           (gc_new True), demo_store) = (G', s')
     \<and> store_inv (\<lambda>_. 7) s' \<and> \<not> fragment_stored 5 s'"
proof -
  let ?ticks = "[(demo_answer, demo_client, demo_store, [5], 0, 0), (demo_answer, demo_client, demo_store, [5], 599, 599)]"
  have inv: "store_inv (\<lambda>_. 7) demo_store" by (rule store_inv_reachable [OF demo_store_reachable]) (simp add: u64_max_def)
  obtain G' s' where t: "gc_tick demo_answer demo_client [5] 600 600 (gc_run ?ticks (gc_new True), demo_store) = (G', s')"
    by fastforce
  have q: "gc_query demo_answer demo_client demo_store = [(5, True)]"
    by (simp add: gc_query_def demo_store_list check_forgetting_candidates_def demo_answer_def rpc_value_def demo_client_def
        active_endpoint_def set_primary_def get_primary_url_def connection_new_def)
  have G: "gc_run ?ticks (gc_new True)
      = (gc_new True)\<lparr>gc_candidates := [5 \<mapsto> \<lparr>gc_content_hash = 5, gc_marked_at = 0, gc_score = 0\<rparr>]\<rparr>" (is "_ = ?G")
    by (simp add: gc_run_def gc_tick_def q apply_answer_def mark_forgetting_candidate_def get_gc_ready_def gc_new_def
        gc_grace_period_dev_secs_def)
  have "fold (collect_one 600) [5] (?G, demo_store) = (G', s')"
    using t unfolding G by (simp add: gc_tick_def q apply_answer_def mark_forgetting_candidate_def get_gc_ready_def gc_new_def
        gc_grace_period_dev_secs_def)
  from collect_all_collects [OF inv this, of 5] have "RBT.lookup (fs_fragments s') 5 = None"
    by (simp add: gc_new_def gc_grace_period_dev_secs_def)
  with gc_respects_grace [OF _ inv t] inv t show ?thesis by (auto simp: fragment_stored_def)
qed

end
