(* ===== verification/Node_Metrics.thy ===== *)
theory Node_Metrics
  imports Rust_Text
begin

text \<open>
  The counters a storage node daemon publishes (\<open>src/apps/storage-node/src/metrics.rs\<close>). They are
  atomic 64-bit words: an increment wraps around. The percentage of use, a floating-point number that
  is only logged, is not modelled.
\<close>

record metrics =
  mt_fragment_count :: "64 word"
  mt_capacity_used_bytes :: "64 word"
  mt_capacity_total_bytes :: "64 word"
  mt_put_requests :: "64 word"
  mt_get_requests :: "64 word"
  mt_connected_peers :: "64 word"
  mt_declare_holding_calls :: "64 word"
  mt_gossip_messages_received :: "64 word"
  mt_gossip_messages_sent :: "64 word"
  mt_gossip_messages_invalid :: "64 word"
  mt_endpoints_cached :: "64 word"
  mt_endpoint_verifications :: "64 word"
  mt_endpoint_verification_failures :: "64 word"
  mt_peers_ignored :: "64 word"
  mt_auth_failures :: "64 word"
  mt_chain_failovers :: "64 word"
  mt_chain_latency_ms :: "64 word"

definition metrics_new :: metrics where
  "metrics_new = \<lparr>mt_fragment_count = 0, mt_capacity_used_bytes = 0, mt_capacity_total_bytes = 0, mt_put_requests = 0,
     mt_get_requests = 0, mt_connected_peers = 0, mt_declare_holding_calls = 0, mt_gossip_messages_received = 0,
     mt_gossip_messages_sent = 0, mt_gossip_messages_invalid = 0, mt_endpoints_cached = 0, mt_endpoint_verifications = 0,
     mt_endpoint_verification_failures = 0, mt_peers_ignored = 0, mt_auth_failures = 0, mt_chain_failovers = 0,
     mt_chain_latency_ms = 0\<rparr>"

definition set_capacity_total :: "64 word \<Rightarrow> metrics \<Rightarrow> metrics" where
  "set_capacity_total n m = m\<lparr>mt_capacity_total_bytes := n\<rparr>"

definition set_storage_stats :: "64 word \<Rightarrow> 64 word \<Rightarrow> metrics \<Rightarrow> metrics" where
  "set_storage_stats fragments used m = m\<lparr>mt_fragment_count := fragments, mt_capacity_used_bytes := used\<rparr>"

definition inc_fragment_count :: "64 word \<Rightarrow> metrics \<Rightarrow> metrics" where
  "inc_fragment_count delta m = m\<lparr>mt_fragment_count := mt_fragment_count m + delta\<rparr>"

definition add_capacity_used :: "64 word \<Rightarrow> metrics \<Rightarrow> metrics" where
  "add_capacity_used n m = m\<lparr>mt_capacity_used_bytes := mt_capacity_used_bytes m + n\<rparr>"

definition record_put :: "metrics \<Rightarrow> metrics" where "record_put m = m\<lparr>mt_put_requests := mt_put_requests m + 1\<rparr>"

definition record_get :: "metrics \<Rightarrow> metrics" where "record_get m = m\<lparr>mt_get_requests := mt_get_requests m + 1\<rparr>"

definition set_connected_peers :: "64 word \<Rightarrow> metrics \<Rightarrow> metrics" where
  "set_connected_peers n m = m\<lparr>mt_connected_peers := n\<rparr>"

definition inc_connected_peers :: "metrics \<Rightarrow> metrics" where
  "inc_connected_peers m = m\<lparr>mt_connected_peers := mt_connected_peers m + 1\<rparr>"

definition dec_connected_peers :: "metrics \<Rightarrow> metrics" where
  "dec_connected_peers m = m\<lparr>mt_connected_peers := mt_connected_peers m - 1\<rparr>"

definition record_declare_holding :: "metrics \<Rightarrow> metrics" where
  "record_declare_holding m = m\<lparr>mt_declare_holding_calls := mt_declare_holding_calls m + 1\<rparr>"

definition record_gossip_received :: "metrics \<Rightarrow> metrics" where
  "record_gossip_received m = m\<lparr>mt_gossip_messages_received := mt_gossip_messages_received m + 1\<rparr>"

definition record_gossip_sent :: "metrics \<Rightarrow> metrics" where
  "record_gossip_sent m = m\<lparr>mt_gossip_messages_sent := mt_gossip_messages_sent m + 1\<rparr>"

definition record_gossip_invalid :: "metrics \<Rightarrow> metrics" where
  "record_gossip_invalid m = m\<lparr>mt_gossip_messages_invalid := mt_gossip_messages_invalid m + 1\<rparr>"

definition set_endpoints_cached :: "64 word \<Rightarrow> metrics \<Rightarrow> metrics" where
  "set_endpoints_cached n m = m\<lparr>mt_endpoints_cached := n\<rparr>"

definition record_endpoint_verification :: "bool \<Rightarrow> metrics \<Rightarrow> metrics" where
  "record_endpoint_verification success m =
     (let m1 = m\<lparr>mt_endpoint_verifications := mt_endpoint_verifications m + 1\<rparr>
      in if success then m1
         else m1\<lparr>mt_endpoint_verification_failures := mt_endpoint_verification_failures m1 + 1\<rparr>)"

definition set_peers_ignored :: "64 word \<Rightarrow> metrics \<Rightarrow> metrics" where
  "set_peers_ignored n m = m\<lparr>mt_peers_ignored := n\<rparr>"

definition record_auth_failure :: "metrics \<Rightarrow> metrics" where
  "record_auth_failure m = m\<lparr>mt_auth_failures := mt_auth_failures m + 1\<rparr>"

definition record_chain_failover :: "metrics \<Rightarrow> metrics" where
  "record_chain_failover m = m\<lparr>mt_chain_failovers := mt_chain_failovers m + 1\<rparr>"

definition set_chain_latency_ms :: "64 word \<Rightarrow> metrics \<Rightarrow> metrics" where
  "set_chain_latency_ms n m = m\<lparr>mt_chain_latency_ms := n\<rparr>"

text \<open>A gauge that is raised and lowered equally often comes back; lowered below zero it jumps to the largest value.\<close>

lemma peers_gauge: "dec_connected_peers (inc_connected_peers m) = m"
  "unat (mt_connected_peers (dec_connected_peers metrics_new)) = 2 ^ 64 - 1"
  by (simp_all add: dec_connected_peers_def inc_connected_peers_def metrics_new_def unsigned_minus_1_eq_mask mask_eq_exp_minus_1)

end
