(* ===== verification/Node_Rpc.thy ===== *)
theory Node_Rpc
  imports Node_Auth Node_Gc Node_Metrics
begin

text \<open>
  The HTTP JSON-RPC server of the storage node daemon (\<open>src/apps/storage-node/src/rpc/mod.rs\<close>) on
  top of the fragment store: the handlers, their dispatch, the health and metrics pages, and
  the page of metrics. JSON values, base64 and Blake2b are parameters.
\<close>

subsection \<open>Parameters, results and errors\<close>

record store_fragment_params =
  sf_merkle_root :: bytes
  sf_index :: nat
  sf_data :: string
  sf_proof :: string
  sf_total_leaves :: nat

record get_fragment_params =
  gf_merkle_root :: bytes
  gf_index :: nat

record store_kzg_shard_params =
  sk_content_hash :: bytes
  sk_shard_index :: "8 word"
  sk_shard_data :: string

record repair_status =
  rs_fragments_held :: nat
  rs_at_risk_fragments :: nat
  rs_repairs_completed :: nat
  rs_repairs_in_progress :: nat
  rs_repair_enabled :: bool
  rs_last_gc_cycle :: nat

datatype rpc_result = FragmentStored bytes | FragmentData string bytes | ShardStored bytes | RepairStatus repair_status

datatype node_rpc_error = InvalidParams | InvalidBase64 | TooLarge nat | ShardIndexZero | StoreFailed store_error
  | FragmentNotFound | MethodNotFound string

fun rpc_error_code :: "node_rpc_error \<Rightarrow> int" where
  "rpc_error_code InvalidParams = - 32602"
| "rpc_error_code InvalidBase64 = - 32602"
| "rpc_error_code (TooLarge n) = - 32000"
| "rpc_error_code ShardIndexZero = - 32602"
| "rpc_error_code (StoreFailed e) = - 32001"
| "rpc_error_code FragmentNotFound = - 32002"
| "rpc_error_code (MethodNotFound m) = - 32601"

text \<open>How parameters are read from a JSON value, and the codecs.\<close>

record 'j node_rpc_env =
  ne_store_params :: "'j \<Rightarrow> store_fragment_params option"
  ne_get_params :: "'j \<Rightarrow> get_fragment_params option"
  ne_shard_params :: "'j \<Rightarrow> store_kzg_shard_params option"
  ne_b64_decode :: "string \<Rightarrow> bytes option"
  ne_b64_encode :: "bytes \<Rightarrow> string"
  ne_blake2b :: "bytes \<Rightarrow> bytes"

definition rpc_max_fragment_size :: nat where "rpc_max_fragment_size = 1024 * 1024 * 1024"

definition max_body_size :: nat where "max_body_size = 192 * 1024 * 1024"

record rpc_state =
  st_store :: fragment_store
  st_metrics :: metrics

subsection \<open>Handlers\<close>

text \<open>The names under which fragments lie in the store; a name is held as the number its bytes stand for.\<close>

definition create_fragment_id :: "'j node_rpc_env \<Rightarrow> bytes \<Rightarrow> nat \<Rightarrow> hash256" where
  "create_fragment_id E merkle_root index = be_value (ne_blake2b E (merkle_root @ le_bytes 4 index))"

definition create_kzg_shard_id :: "'j node_rpc_env \<Rightarrow> bytes \<Rightarrow> 8 word \<Rightarrow> hash256" where
  "create_kzg_shard_id E content_hash shard_index =
     be_value (ne_blake2b E (map (word_of_nat \<circ> of_char) ''kzg-shard'' @ content_hash @ [shard_index]))"

definition content_name :: "'j node_rpc_env \<Rightarrow> bytes \<Rightarrow> hash256" where
  "content_name E data = be_value (ne_blake2b E data)"

type_synonym rpc_answer = "(node_rpc_error, rpc_result) result \<times> rpc_state"

definition handle_store_fragment :: "'j node_rpc_env \<Rightarrow> nat \<Rightarrow> 'j \<Rightarrow> rpc_state \<Rightarrow> rpc_answer" where
  "handle_store_fragment E now params S =
     (case ne_store_params E params of
        None \<Rightarrow> (Inl (Err InvalidParams), S)
      | Some p \<Rightarrow>
          (case ne_b64_decode E (sf_data p) of
             None \<Rightarrow> (Inl (Err InvalidBase64), S)
           | Some data \<Rightarrow>
               if rpc_max_fragment_size < length data then (Inl (Err (TooLarge (length data))), S)
               else (case store (content_name E) now (create_fragment_id E (sf_merkle_root p) (sf_index p)) data (st_store S) of
                       Inr s \<Rightarrow> (Inr (FragmentStored (ne_blake2b E data)), S\<lparr>st_store := s, st_metrics := record_put (st_metrics S)\<rparr>)
                     | Inl (Err e) \<Rightarrow> (Inl (Err (StoreFailed e)), S)
                     | Inl Trap \<Rightarrow> (Inl Trap, S))))"

definition handle_get_fragment :: "'j node_rpc_env \<Rightarrow> nat \<Rightarrow> 'j \<Rightarrow> rpc_state \<Rightarrow> rpc_answer" where
  "handle_get_fragment E now params S =
     (case ne_get_params E params of
        None \<Rightarrow> (Inl (Err InvalidParams), S)
      | Some p \<Rightarrow>
          (case retrieve (content_name E) now (create_fragment_id E (gf_merkle_root p) (gf_index p)) (st_store S) of
             Inr (Some data, s) \<Rightarrow>
               (Inr (FragmentData (ne_b64_encode E data) (ne_blake2b E data)),
                S\<lparr>st_store := s, st_metrics := record_get (st_metrics S)\<rparr>)
           | Inr (None, s) \<Rightarrow> (Inl (Err FragmentNotFound), S\<lparr>st_store := s\<rparr>)
           | Inl (Err e) \<Rightarrow> (Inl (Err (StoreFailed e)), S)
           | Inl Trap \<Rightarrow> (Inl Trap, S)))"

definition handle_store_kzg_shard :: "'j node_rpc_env \<Rightarrow> nat \<Rightarrow> 'j \<Rightarrow> rpc_state \<Rightarrow> rpc_answer" where
  "handle_store_kzg_shard E now params S =
     (case ne_shard_params E params of
        None \<Rightarrow> (Inl (Err InvalidParams), S)
      | Some p \<Rightarrow>
          (case ne_b64_decode E (sk_shard_data p) of
             None \<Rightarrow> (Inl (Err InvalidBase64), S)
           | Some data \<Rightarrow>
               if rpc_max_fragment_size < length data then (Inl (Err (TooLarge (length data))), S)
               else if sk_shard_index p = 0 then (Inl (Err ShardIndexZero), S)
               else (case store (content_name E) now (create_kzg_shard_id E (sk_content_hash p) (sk_shard_index p)) data (st_store S) of
                       Inr s \<Rightarrow> (Inr (ShardStored (ne_blake2b E data)), S\<lparr>st_store := s, st_metrics := record_put (st_metrics S)\<rparr>)
                     | Inl (Err e) \<Rightarrow> (Inl (Err (StoreFailed e)), S)
                     | Inl Trap \<Rightarrow> (Inl Trap, S))))"

text \<open>Apart from the number of fragments the status is made of constants and the clock.\<close>

definition handle_repair_status :: "nat \<Rightarrow> rpc_state \<Rightarrow> rpc_answer" where
  "handle_repair_status now S =
     (Inr (RepairStatus \<lparr>rs_fragments_held = length (list_fragments (st_store S)), rs_at_risk_fragments = 0,
        rs_repairs_completed = 0, rs_repairs_in_progress = 0, rs_repair_enabled = True, rs_last_gc_cycle = now\<rparr>), S)"

record 'j rpc_request =
  rq_id :: nat
  rq_method :: string
  rq_params :: 'j

datatype rpc_reply = Unauthorized | Replied nat "(node_rpc_error, rpc_result) result"

definition handle_rpc ::
  "'j node_rpc_env \<Rightarrow> bool \<Rightarrow> nat \<Rightarrow> headers \<Rightarrow> 'j rpc_request \<Rightarrow> rpc_state \<Rightarrow> rpc_reply \<times> rpc_state" where
  "handle_rpc E enabled now headers request S =
     (if \<not> rpc_gate headers enabled (rq_method request) then (Unauthorized, S)
      else
        (let (response, S') =
           (if rq_method request = ''storage_storeFragment'' then handle_store_fragment E now (rq_params request) S
            else if rq_method request = ''storage_getFragment'' then handle_get_fragment E now (rq_params request) S
            else if rq_method request = ''storage_storeKzgShard'' then handle_store_kzg_shard E now (rq_params request) S
            else if rq_method request = ''storage_repairStatus'' then handle_repair_status now S
            else (Inl (Err (MethodNotFound (rq_method request))), S))
         in (Replied (rq_id request) response, S')))"


subsection \<open>The page of metrics\<close>

definition newline :: string where "newline = [CHR 0x0A]"

text \<open>One metric of the page: two comment lines, the line with the value, and the blank line that separates it from the next.\<close>

definition metric_text :: "string \<Rightarrow> string \<Rightarrow> string \<Rightarrow> nat \<Rightarrow> string" where
  "metric_text name help kind v =
     ''# HELP '' @ name @ '' '' @ help @ newline @ ''# TYPE '' @ name @ '' '' @ kind @ newline
     @ name @ '' '' @ decimal v @ newline"

definition page_of :: "string list \<Rightarrow> string" where
  "page_of sections = concat (map (\<lambda>(i, s). if i = 0 then s else newline @ s) (enumerate 0 sections))"

definition handle_metrics :: "rpc_state \<Rightarrow> string" where
  "handle_metrics S = (let m = st_metrics S in page_of
     [metric_text ''fragment_upload_total'' ''Total number of fragment uploads'' ''counter'' (unat (mt_put_requests m)),
      metric_text ''fragment_download_total'' ''Total number of fragment downloads'' ''counter'' (unat (mt_get_requests m)),
      metric_text ''storage_node_peers'' ''Number of connected storage node peers'' ''gauge'' (unat (mt_connected_peers m)),
      metric_text ''blockchain_node_failover_total'' ''Total number of blockchain node failovers'' ''counter''
        (unat (mt_chain_failovers m)),
      metric_text ''gossipsub_messages_received_total'' ''Total number of Gossipsub messages received'' ''counter''
        (unat (mt_gossip_messages_received m)),
      metric_text ''storage_fragments_total'' ''Total number of stored fragments'' ''gauge''
        (total_fragment_count (st_store S)),
      metric_text ''storage_capacity_used_bytes'' ''Storage capacity used in bytes'' ''gauge'' (fs_used (st_store S)),
      metric_text ''storage_capacity_total_bytes'' ''Total storage capacity in bytes'' ''gauge''
        (unat (mt_capacity_total_bytes m)),
      metric_text ''storage_auth_failures_total'' ''Total number of authentication failures'' ''counter''
        (unat (mt_auth_failures m)),
      metric_text ''storage_chain_latency_ms'' ''Current blockchain connection latency in milliseconds'' ''gauge''
        (unat (mt_chain_latency_ms m))])"

subsection \<open>What requests do to the store\<close>

text \<open>What a request may do: nothing, store one fragment, or read one; of the counters it moves at most two.\<close>

definition rpc_effect :: "'j node_rpc_env \<Rightarrow> rpc_state \<Rightarrow> rpc_state \<Rightarrow> bool" where
  "rpc_effect E S S' \<longleftrightarrow>
     (st_store S' = st_store S
       \<or> (\<exists>now fid data. store (content_name E) now fid data (st_store S) = Inr (st_store S'))
       \<or> (\<exists>now fid r. retrieve (content_name E) now fid (st_store S) = Inr (r, st_store S')))
     \<and> (\<exists>puts gets. st_metrics S' = (st_metrics S)\<lparr>mt_put_requests := puts, mt_get_requests := gets\<rparr>)"

lemma rpc_effectI:
  assumes "st_store S' = st_store S
       \<or> (\<exists>now fid data. store (content_name E) now fid data (st_store S) = Inr (st_store S'))
       \<or> (\<exists>now fid r. retrieve (content_name E) now fid (st_store S) = Inr (r, st_store S'))"
    and "st_metrics S' \<in> {st_metrics S, record_put (st_metrics S), record_get (st_metrics S)}"
  shows "rpc_effect E S S'"
proof -
  have "\<exists>puts gets. m = (st_metrics S)\<lparr>mt_put_requests := puts, mt_get_requests := gets\<rparr>"
    if "m \<in> {st_metrics S, record_put (st_metrics S), record_get (st_metrics S)}" for m
    using that by (cases "st_metrics S") (auto simp: record_put_def record_get_def)
  with assms show ?thesis by (auto simp: rpc_effect_def)
qed

lemma store_fragment_effect: "rpc_effect E S (snd (handle_store_fragment E now p S))"
  by (rule rpc_effectI; cases "ne_store_params E p")
    (auto simp: handle_store_fragment_def split: option.splits sum.splits failure.splits)

lemma store_shard_effect: "rpc_effect E S (snd (handle_store_kzg_shard E now p S))"
  by (rule rpc_effectI; cases "ne_shard_params E p")
    (auto simp: handle_store_kzg_shard_def split: option.splits sum.splits failure.splits)

lemma get_fragment_effect: "rpc_effect E S (snd (handle_get_fragment E now p S))"
  by (rule rpc_effectI; cases "ne_get_params E p")
    (auto simp: handle_get_fragment_def split: option.splits sum.splits failure.splits prod.splits)

lemma no_effect: "rpc_effect E S S" by (rule rpc_effectI) simp_all

lemma snd_handle_rpc:
  "snd (handle_rpc E enabled now headers q S) =
     (if \<not> rpc_gate headers enabled (rq_method q) then S
      else if rq_method q = ''storage_storeFragment'' then snd (handle_store_fragment E now (rq_params q) S)
      else if rq_method q = ''storage_getFragment'' then snd (handle_get_fragment E now (rq_params q) S)
      else if rq_method q = ''storage_storeKzgShard'' then snd (handle_store_kzg_shard E now (rq_params q) S)
      else S)"
  unfolding handle_rpc_def Let_def handle_repair_status_def by (simp add: split_beta)

lemma handle_rpc_effect: "rpc_effect E S (snd (handle_rpc E enabled now headers q S))"
  by (simp add: snd_handle_rpc store_fragment_effect store_shard_effect get_fragment_effect no_effect)

text \<open>The handlers only use the store: no request removes a fragment or changes one.\<close>

interpretation rpc_client: fragment_client "store_inv (content_name E)" stored "use_step (content_name E)" st_store "rpc_effect E"
  for E :: "'j node_rpc_env"
proof
  fix S S' :: rpc_state
  assume "rpc_effect E S S'"
  then have "st_store S' = st_store S \<or> use_step (content_name E) (st_store S) (st_store S')"
    unfolding rpc_effect_def use_step_def by blast
  then show "(use_step (content_name E))\<^sup>*\<^sup>* (st_store S) (st_store S')" by auto
qed

text \<open>A sequence of requests, each with its time and headers.\<close>

type_synonym 'j rpc_call = "nat \<times> headers \<times> 'j rpc_request"

definition rpc_run :: "'j node_rpc_env \<Rightarrow> bool \<Rightarrow> 'j rpc_call list \<Rightarrow> rpc_state \<Rightarrow> rpc_state" where
  "rpc_run E enabled = fold (\<lambda>(now, headers, q) S. snd (handle_rpc E enabled now headers q S))"

lemma rpc_run_effects: "(rpc_effect E)\<^sup>*\<^sup>* S (rpc_run E enabled calls S)"
proof (induction calls arbitrary: S)
  case (Cons call calls)
  obtain now headers q where "call = (now, headers, q)" by (metis prod_cases3)
  then have "rpc_run E enabled (call # calls) S = rpc_run E enabled calls (snd (handle_rpc E enabled now headers q S))"
    by (simp add: rpc_run_def)
  with Cons.IH converse_rtranclp_into_rtranclp [of "rpc_effect E", OF handle_rpc_effect] show ?case by metis
qed (simp add: rpc_run_def)

lemmas rpc_run_keeps = rpc_client.client_keeps [OF rpc_run_effects]

lemma retrieve_held:
  assumes "store_inv H s" and "stored s (Fragment fid) = Some b"
  shows "\<exists>s'. retrieve H now fid s = Inr (Some b, s')"
  using assms(2) entry_ok_Some [of H b] stored_meta [OF assms(1), of "Fragment fid"]
  by (fastforce simp: retrieve_def verify_integrity_def Let_def)

lemma get_fragment_held:
  assumes "store_inv (content_name E) (st_store S)" and "ne_get_params E g = Some p"
    and "stored (st_store S) (Fragment (create_fragment_id E (gf_merkle_root p) (gf_index p))) = Some b"
  shows "fst (handle_rpc E enabled now headers \<lparr>rq_id = i, rq_method = ''storage_getFragment'', rq_params = g\<rparr> S)
    = Replied i (Inr (FragmentData (ne_b64_encode E b) (ne_blake2b E b)))"
  using retrieve_held [OF assms(1, 3), of now] assms(2)
  by (auto simp: handle_rpc_def handle_get_fragment_def rpc_gate_def method_requires_auth_def)

text \<open>The first write of a fragment is the one requests see.\<close>

lemma stored_then_served:
  assumes "store_reachable (content_name E) capacity verify (st_store S)" and "capacity \<le> u64_max"
    and "ne_store_params E p = Some sp" and "ne_b64_decode E (sf_data sp) = Some data"
    and "ne_get_params E g = Some \<lparr>gf_merkle_root = sf_merkle_root sp, gf_index = sf_index sp\<rparr>"
    and "handle_rpc E enabled now headers \<lparr>rq_id = i, rq_method = ''storage_storeFragment'', rq_params = p\<rparr> S
         = (Replied i (Inr (FragmentStored h)), T)"
  shows "h = ne_blake2b E data \<and> (let kept = (case stored (st_store S)
        (Fragment (create_fragment_id E (sf_merkle_root sp) (sf_index sp))) of None \<Rightarrow> data | Some old \<Rightarrow> old)
    in fst (handle_rpc E enabled now' headers' \<lparr>rq_id = i', rq_method = ''storage_getFragment'', rq_params = g\<rparr>
              (rpc_run E enabled calls T))
       = Replied i' (Inr (FragmentData (ne_b64_encode E kept) (ne_blake2b E kept))))"
proof -
  let ?id = "create_fragment_id E (sf_merkle_root sp) (sf_index sp)"
  let ?kept = "case stored (st_store S) (Fragment ?id) of None \<Rightarrow> data | Some old \<Rightarrow> old"
  have inv: "store_inv (content_name E) (st_store S)" by (rule store_inv_reachable [OF assms(1, 2)])
  obtain s where s: "store (content_name E) now ?id data (st_store S) = Inr s" "st_store T = s" "h = ne_blake2b E data"
    using assms(3, 4, 6)
    by (auto simp: handle_rpc_def handle_store_fragment_def Let_def split: sum.splits failure.splits if_splits)
  have "stored s (Fragment ?id) = Some ?kept"
    using s(1) by (auto simp: store_def result_simps Let_def split: option.splits if_splits)
  moreover have "store_inv (content_name E) s" by (rule store_inv_store [OF inv s(1)])
  ultimately have inv': "store_inv (content_name E) (st_store T)" and kept: "stored (st_store T) (Fragment ?id) = Some ?kept"
    using s(2) by simp_all
  note run = rpc_run_keeps [OF inv', of enabled calls]
  have "stored (st_store (rpc_run E enabled calls T)) (Fragment ?id) = Some ?kept" using run kept by blast
  with get_fragment_held [OF conjunct1 [OF run] assms(5)] s(3) show ?thesis by (simp add: Let_def del: stored.simps)
qed

text \<open>A fragment accepted by the RPC of a daemon is served by it, whatever requests come between, under
  its root and index, with the hash of its bytes; the bytes are the ones first stored there. The answer
  to a second, different upload under the same root and index is again success, with the hash of the
  bytes that were dropped.
\<close>

theorem rpc_first_write_wins:
  assumes "store_reachable (content_name E) capacity verify (st_store S)" and "capacity \<le> u64_max"
    and "ne_store_params E p = Some sp" and "ne_b64_decode E (sf_data sp) = Some data"
    and "ne_get_params E g = Some \<lparr>gf_merkle_root = sf_merkle_root sp, gf_index = sf_index sp\<rparr>"
    and "handle_rpc E enabled now headers \<lparr>rq_id = i, rq_method = ''storage_storeFragment'', rq_params = p\<rparr> S
         = (Replied i (Inr (FragmentStored h)), S1)"
  shows "h = ne_blake2b E data \<and> (let kept = (case stored (st_store S)
        (Fragment (create_fragment_id E (sf_merkle_root sp) (sf_index sp))) of None \<Rightarrow> data | Some old \<Rightarrow> old)
    in fst (handle_rpc E enabled now' headers' \<lparr>rq_id = i', rq_method = ''storage_getFragment'', rq_params = g\<rparr>
              (rpc_run E enabled calls S1))
       = Replied i' (Inr (FragmentData (ne_b64_encode E kept) (ne_blake2b E kept))))"
  by (rule stored_then_served [OF assms])

text \<open>A small server: parameters are already read, the codecs leave text as it is, the hash is constant.\<close>

definition demo_rpc_env :: "(store_fragment_params + get_fragment_params) node_rpc_env" where
  "demo_rpc_env = \<lparr>ne_store_params = (\<lambda>j. case j of Inl p \<Rightarrow> Some p | Inr _ \<Rightarrow> None),
     ne_get_params = (\<lambda>j. case j of Inl _ \<Rightarrow> None | Inr p \<Rightarrow> Some p), ne_shard_params = (\<lambda>_. None),
     ne_b64_decode = (\<lambda>s. Some (map (word_of_nat \<circ> of_char) s)), ne_b64_encode = (\<lambda>bs. map (\<lambda>b. char_of (unat b)) bs),
     ne_blake2b = (\<lambda>_. [7])\<rparr>"

definition demo_upload :: store_fragment_params where
  "demo_upload = \<lparr>sf_merkle_root = replicate 32 1, sf_index = 0, sf_data = ''hi'', sf_proof = [], sf_total_leaves = 1\<rparr>"

definition demo_rpc_state :: rpc_state where
  "demo_rpc_state = \<lparr>st_store = open_store 10 True empty_db, st_metrics = metrics_new\<rparr>"

lemma demo_upload_stored:
  "\<exists>S. handle_rpc demo_rpc_env False 1 (\<lambda>_. None) \<lparr>rq_id = 1, rq_method = ''storage_storeFragment'', rq_params = Inl demo_upload\<rparr>
     demo_rpc_state = (Replied 1 (Inr (FragmentStored [7])), S)"
  by (simp add: handle_rpc_def handle_store_fragment_def rpc_gate_def method_requires_auth_def require_auth_def demo_rpc_env_def
      demo_upload_def demo_rpc_state_def rpc_max_fragment_size_def store_def max_fragment_size_def open_store_def
      load_or_recover_used_def scan_used_bytes_def entries_bytes empty_db_def Let_def)

theorem rpc_first_write_wins_witness:
  "\<exists>S. fst (handle_rpc demo_rpc_env False 2 (\<lambda>_. None) \<lparr>rq_id = 2, rq_method = ''storage_getFragment'',
      rq_params = Inr \<lparr>gf_merkle_root = replicate 32 1, gf_index = 0\<rparr>\<rparr> S) = Replied 2 (Inr (FragmentData ''hi'' [7]))"
proof -
  obtain S where S: "handle_rpc demo_rpc_env False 1 (\<lambda>_. None)
      \<lparr>rq_id = 1, rq_method = ''storage_storeFragment'', rq_params = Inl demo_upload\<rparr> demo_rpc_state
      = (Replied 1 (Inr (FragmentStored [7])), S)"
    using demo_upload_stored by blast
  have "store_reachable (content_name demo_rpc_env) 10 True (st_store demo_rpc_state)"
    by (simp add: demo_rpc_state_def store_opened)
  note first = rpc_first_write_wins [OF this _ _ _ _ S, of demo_upload "[104, 105]"
      "Inr \<lparr>gf_merkle_root = replicate 32 1, gf_index = 0\<rparr>" 2 "\<lambda>_. None" 2 "[]"]
  have "stored (st_store demo_rpc_state) k = None" for k
    by (cases k) (simp_all add: demo_rpc_state_def open_store_def load_or_recover_used_def empty_db_def)
  moreover have hi: "char_of (104 :: nat) = CHR ''h''" "char_of (105 :: nat) = CHR ''i''" by code_simp+
  ultimately show ?thesis
    using first by (intro exI [of _ S])
      (simp add: demo_rpc_env_def demo_upload_def u64_max_def rpc_run_def hi del: stored.simps)
qed

text \<open>Writes need the header of an author while authentication is on, and leave the state alone without it.\<close>

lemma writes_gated:
  assumes "headers auth_header = None"
  shows "stored (st_store (snd (handle_rpc E True now headers q S))) k = stored (st_store S) k"
proof (cases "rpc_gate headers True (rq_method q)")
  case True
  then have "rq_method q \<noteq> ''storage_storeFragment''" "rq_method q \<noteq> ''storage_storeKzgShard''"
    using assms by (auto simp: rpc_gate_def require_auth_def method_requires_auth_def)
  moreover have "stored (st_store (snd (handle_get_fragment E now p S))) k = stored (st_store S) k" for p
    by (auto simp: handle_get_fragment_def retrieve_effect simp del: stored.simps
        split: option.splits sum.splits failure.splits prod.splits)
  ultimately show ?thesis by (simp add: snd_handle_rpc)
qed (simp add: snd_handle_rpc)

text \<open>
  The names of shards are not among the names requests read: as long as the hash keeps them apart, a
  request for a fragment is answered the same before and after a shard was stored.
\<close>

lemma shard_not_served:
  assumes "store H now sid data s = Inr s'" and "fid \<noteq> sid"
  shows "map_sum id fst (retrieve H now' fid s') = map_sum id fst (retrieve H now' fid s)"
proof -
  have "RBT.lookup (fs_fragments s') fid = RBT.lookup (fs_fragments s) fid
      \<and> RBT.lookup (fs_fragment_meta s') fid = RBT.lookup (fs_fragment_meta s) fid \<and> fs_verify s' = fs_verify s"
    using assms by (auto simp: store_def result_simps Let_def split: option.splits if_splits)
  then show ?thesis
    by (auto simp: retrieve_def verify_integrity_def ok_or_def ensure_def Let_def split: option.splits)
qed

text \<open>Of the counters on the page requests only move the two of uploads and downloads.\<close>

lemma other_metrics_fixed:
  "\<exists>puts gets. st_metrics (rpc_run E enabled calls S) = (st_metrics S)\<lparr>mt_put_requests := puts, mt_get_requests := gets\<rparr>"
proof (induction calls arbitrary: S)
  case Nil
  show ?case by (cases "st_metrics S") (simp add: rpc_run_def)
next
  case (Cons call calls)
  obtain now headers q where call: "call = (now, headers, q)" by (metis prod_cases3)
  have "\<exists>puts gets. st_metrics (snd (handle_rpc E enabled now headers q S))
      = (st_metrics S)\<lparr>mt_put_requests := puts, mt_get_requests := gets\<rparr>"
    using handle_rpc_effect [of E S enabled now headers q] unfolding rpc_effect_def by (rule conjunct2)
  then obtain puts gets where "st_metrics (snd (handle_rpc E enabled now headers q S))
      = (st_metrics S)\<lparr>mt_put_requests := puts, mt_get_requests := gets\<rparr>" by blast
  moreover obtain puts' gets' where "st_metrics (rpc_run E enabled calls (snd (handle_rpc E enabled now headers q S)))
      = (st_metrics (snd (handle_rpc E enabled now headers q S)))\<lparr>mt_put_requests := puts', mt_get_requests := gets'\<rparr>"
    using Cons.IH by blast
  ultimately have "st_metrics (rpc_run E enabled (call # calls) S)
      = (st_metrics S)\<lparr>mt_put_requests := puts', mt_get_requests := gets'\<rparr>" by (simp add: call rpc_run_def)
  then show ?case by blast
qed

end
