(* ===== verification/Self_Repair.thy ===== *)
theory Self_Repair
  imports Node_Gc
begin

text \<open>
  Repair between storage nodes (\<open>src/apps/storage-node/src/repair\<close>): the messages
  (\<open>protocol.rs\<close>), the coordinator that collects shares (\<open>coordinator.rs\<close>), donors and receivers
  of shares on top of the fragment store (\<open>donor.rs\<close>, \<open>receiver.rs\<close>), the choice of what to repair
  (\<open>discovery.rs\<close>) and the report to the chain (\<open>reporter.rs\<close>). Peers, the chain and the hash of the
  store are parameters.
\<close>

subsection \<open>Messages\<close>

definition kzg_commitment_size :: nat where "kzg_commitment_size = 48"
definition share_value_size :: nat where "share_value_size = 32"

record share_data =
  sd_index :: "8 word"
  sd_value :: bytes
  sd_proof :: bytes

definition share_data_new :: "8 word \<Rightarrow> bytes \<Rightarrow> bytes \<Rightarrow> share_data" where
  "share_data_new i v p = \<lparr>sd_index = i, sd_value = v, sd_proof = p\<rparr>"

definition value_array :: "share_data \<Rightarrow> bytes option" where
  "value_array s = (if length (sd_value s) = share_value_size then Some (sd_value s) else None)"

definition proof_array :: "share_data \<Rightarrow> bytes option" where
  "proof_array s = (if length (sd_proof s) = kzg_commitment_size then Some (sd_proof s) else None)"

datatype repair_request = CollectShare hash256 "8 word" bytes | PushShare hash256 share_data bytes | Ping nat

datatype denial_reason = NotHolder | WrongIndex | ContentExpired | Busy | DenialUnknown
datatype rejection_reason = AlreadyHolder | InvalidProof | NoCapacity | NotInterested | RejectionUnknown

datatype repair_response = ShareProvided hash256 share_data | ShareDenied hash256 denial_reason
  | ShareAccepted hash256 "8 word" | ShareRejected hash256 rejection_reason | Pong nat

subsection \<open>Donors\<close>

text \<open>The response, and the store, in which a read marks the fragment as used.\<close>

definition handle_collect_share ::
  "(bytes \<Rightarrow> hash256) \<Rightarrow> nat \<Rightarrow> 8 word \<Rightarrow> hash256 \<Rightarrow> 8 word \<Rightarrow> fragment_store \<Rightarrow> repair_response \<times> fragment_store" where
  "handle_collect_share H now share_index content requested s =
     (if share_index \<noteq> requested then (ShareDenied content WrongIndex, s)
      else case retrieve H now content s of
          Inr (Some data, s') \<Rightarrow>
            if length data < 32 + 48 then (ShareDenied content DenialUnknown, s')
            else (ShareProvided content \<lparr>sd_index = share_index, sd_value = take 32 data, sd_proof = take 48 (drop 32 data)\<rparr>, s')
        | Inr (None, s') \<Rightarrow> (ShareDenied content NotHolder, s')
        | Inl _ \<Rightarrow> (ShareDenied content DenialUnknown, s))"

fun donor_handle_request ::
  "(bytes \<Rightarrow> hash256) \<Rightarrow> nat \<Rightarrow> 8 word \<Rightarrow> repair_request \<Rightarrow> fragment_store \<Rightarrow> repair_response \<times> fragment_store" where
  "donor_handle_request H now share_index (CollectShare content requested coordinator) s =
     handle_collect_share H now share_index content requested s"
| "donor_handle_request H now share_index (Ping nonce) s = (Pong nonce, s)"
| "donor_handle_request H now share_index (PushShare content share commitment) s = (ShareDenied 0 DenialUnknown, s)"

subsection \<open>Receivers\<close>

text \<open>The check of the proof is a placeholder in the source.\<close>

definition receiver_verify_kzg_proof :: "bytes \<Rightarrow> share_data \<Rightarrow> bool" where
  "receiver_verify_kzg_proof commitment share = True"

definition handle_push_share ::
  "(bytes \<Rightarrow> hash256) \<Rightarrow> nat \<Rightarrow> hash256 \<Rightarrow> share_data \<Rightarrow> bytes \<Rightarrow> fragment_store \<Rightarrow> repair_response \<times> fragment_store" where
  "handle_push_share H now content share commitment s =
     (if fragment_stored content s then (ShareRejected content AlreadyHolder, s)
      else if fs_capacity s < (fs_used s + (length (sd_value share) + length (sd_proof share))) mod 2 ^ 64
      then (ShareRejected content NoCapacity, s)
      else if \<not> receiver_verify_kzg_proof commitment share then (ShareRejected content InvalidProof, s)
      else case store H now content (sd_value share @ sd_proof share) s of
          Inr s' \<Rightarrow> (ShareAccepted content (sd_index share), s')
        | Inl _ \<Rightarrow> (ShareRejected content RejectionUnknown, s))"

fun receiver_handle_request ::
  "(bytes \<Rightarrow> hash256) \<Rightarrow> nat \<Rightarrow> repair_request \<Rightarrow> fragment_store \<Rightarrow> repair_response \<times> fragment_store" where
  "receiver_handle_request H now (PushShare content share commitment) s = handle_push_share H now content share commitment s"
| "receiver_handle_request H now (Ping nonce) s = (Pong nonce, s)"
| "receiver_handle_request H now (CollectShare content requested coordinator) s = (ShareRejected content RejectionUnknown, s)"

subsection \<open>The coordinator\<close>

record holder_info =
  hi_peer_id :: bytes
  hi_share_index :: "8 word"
  hi_http_url :: "string option"

record coordinator_config =
  co_share_collect_timeout :: nat
  co_max_concurrent_requests :: nat
  co_threshold_k :: nat
  co_total_shares_n :: nat

definition coordinator_config_default :: coordinator_config where
  "coordinator_config_default = \<lparr>co_share_collect_timeout = 30, co_max_concurrent_requests = 5, co_threshold_k = 3,
     co_total_shares_n = 5\<rparr>"

datatype coordinator_error = InsufficientShares nat nat | ChainSubmissionFailed string | NoEligibleHolders

type_synonym collected = "8 word \<rightharpoonup> share_data"

definition collected_count :: "collected \<Rightarrow> nat" where "collected_count m = card (dom m)"

primrec collect_from ::
  "nat \<Rightarrow> hash256 \<Rightarrow> (bytes \<Rightarrow> repair_request \<Rightarrow> repair_response option) \<Rightarrow> holder_info list \<Rightarrow> collected \<Rightarrow> collected" where
  "collect_from k content send [] m = m"
| "collect_from k content send (h # hs) m =
     (if k \<le> collected_count m then m
      else collect_from k content send hs
        (case send (hi_peer_id h) (CollectShare content (hi_share_index h) []) of
           Some (ShareProvided _ share) \<Rightarrow> m(sd_index share \<mapsto> share)
         | _ \<Rightarrow> m))"

text \<open>\<open>order\<close> is the order in which the map of collected shares is walked.\<close>

definition collect_shares ::
  "coordinator_config \<Rightarrow> 8 word list \<Rightarrow> hash256 \<Rightarrow> holder_info list \<Rightarrow> (bytes \<Rightarrow> repair_request \<Rightarrow> repair_response option)
     \<Rightarrow> (coordinator_error, share_data list) result" where
  "collect_shares cfg order content holders send =
     ensure (holders \<noteq> []) NoEligibleHolders (
     let m = collect_from (co_threshold_k cfg) content send holders Map.empty
     in ensure (co_threshold_k cfg \<le> collected_count m) (InsufficientShares (collected_count m) (co_threshold_k cfg)) (
        Inr (List.map_filter m order)))"

text \<open>The interpolation is a placeholder in the source: the share and its proof are zeros.\<close>

definition coordinator_regenerate_share ::
  "coordinator_config \<Rightarrow> share_data list \<Rightarrow> bytes \<Rightarrow> 8 word \<Rightarrow> (coordinator_error, share_data \<times> bytes) result" where
  "coordinator_regenerate_share cfg shares commitment new_index =
     ensure (co_threshold_k cfg \<le> length shares) (InsufficientShares (length shares) (co_threshold_k cfg)) (
     Inr (\<lparr>sd_index = new_index, sd_value = replicate 32 0, sd_proof = replicate 48 0\<rparr>, replicate 48 0))"

definition execute_repair ::
  "coordinator_config \<Rightarrow> 8 word list \<Rightarrow> hash256 \<Rightarrow> bytes \<Rightarrow> holder_info list \<Rightarrow> 8 word
     \<Rightarrow> (bytes \<Rightarrow> repair_request \<Rightarrow> repair_response option) \<Rightarrow> (hash256 \<Rightarrow> 8 word \<Rightarrow> bytes \<Rightarrow> string option)
     \<Rightarrow> (coordinator_error, unit) result" where
  "execute_repair cfg order content commitment holders new_share_index send submit_confirm_repair =
     bind_ok (collect_shares cfg order content holders send) (\<lambda>shares.
     bind_ok (coordinator_regenerate_share cfg shares commitment new_share_index) (\<lambda>(new_share, kzg_proof).
     case submit_confirm_repair content (sd_index new_share) kzg_proof of
       Some e \<Rightarrow> Inl (Err (ChainSubmissionFailed e)) | None \<Rightarrow> Inr ()))"

subsection \<open>What to repair\<close>

record at_risk_fragment =
  ar_content_hash :: hash256
  ar_commitment :: bytes
  ar_holder_count :: nat
  ar_threshold :: nat
  ar_fragment_count :: "8 word"
  ar_holders :: "holder_info list"

text \<open>The queries of the chain are placeholders in the source.\<close>

definition get_at_risk_fragments :: "(string, hash256 list) result" where "get_at_risk_fragments = Inr []"

definition get_fragment_info :: "hash256 \<Rightarrow> (string, at_risk_fragment option) result" where
  "get_fragment_info content = Inr None"

definition get_holder_info :: "bytes list \<Rightarrow> (string, holder_info list) result" where
  "get_holder_info accounts = Inr []"

text \<open>The sum of the count and one is taken on eight bits; the release build wraps.\<close>

definition allocate_share_index :: "8 word \<Rightarrow> 8 word list \<Rightarrow> 8 word option" where
  "allocate_share_index n existing =
     List.find (\<lambda>candidate. candidate \<notin> set existing) (map word_of_nat [unat (n + 1)..<256])"

definition should_participate :: "at_risk_fragment \<Rightarrow> bytes \<Rightarrow> nat \<Rightarrow> nat \<Rightarrow> bool" where
  "should_participate f our_account our_capacity share_size \<longleftrightarrow>
     \<not> list_ex (\<lambda>h. 32 \<le> length (hi_peer_id h) \<and> take 32 (hi_peer_id h) = our_account) (ar_holders f)
     \<and> share_size \<le> our_capacity \<and> ar_threshold f \<le> ar_holder_count f"

subsection \<open>The report\<close>

record reporter_config =
  rp_chain_endpoint :: string
  rp_signer_seed :: "string option"

definition reporter_config_default :: reporter_config where
  "reporter_config_default = \<lparr>rp_chain_endpoint = ''ws://127.0.0.1:9944'', rp_signer_seed = None\<rparr>"

text \<open>With a proof of the right length the report succeeds, and nothing is submitted.\<close>

definition report_repair :: "reporter_config \<Rightarrow> hash256 \<Rightarrow> share_data \<Rightarrow> bytes \<Rightarrow> (nat, unit) result" where
  "report_repair cfg content share kzg_proof =
     ensure (length kzg_proof = 48) (length kzg_proof) (case rp_signer_seed cfg of None \<Rightarrow> Inr () | Some _ \<Rightarrow> Inr ())"

subsection \<open>A pushed share is served again\<close>

text \<open>What a receiver accepts lies in the store as value and proof, unchecked and without its index.\<close>

lemma pushed_share_stored:
  assumes "handle_push_share H now content share commitment s = (ShareAccepted content i, s')"
  shows "i = sd_index share \<and> \<not> fragment_stored content s
    \<and> store H now content (sd_value share @ sd_proof share) s = Inr s'
    \<and> RBT.lookup (fs_fragments s') content = Some (sd_value share @ sd_proof share)"
  using assms
  by (auto simp: handle_push_share_def store_def fragment_stored_def result_simps Let_def split: if_splits sum.splits option.splits)

lemma retrieve_stored:
  assumes "store_inv H s" and "RBT.lookup (fs_fragments s) fid = Some data"
  shows "retrieve H now fid s = Inr (Some data, s\<lparr>fs_touched := (fs_touched s)(fid \<mapsto> now)\<rparr>)"
proof -
  obtain m where "RBT.lookup (fs_fragment_meta s) fid = Some m" "md_data_hash m = H data"
    using entry_ok_Some [of H data] assms tables_matchD [of H "fs_fragments s" "fs_fragment_meta s" fid]
    by (auto simp: store_inv_def)
  then show ?thesis using assms(2) by (simp add: retrieve_def verify_integrity_def Let_def)
qed

text \<open>A share that a receiver accepts is given back by the donor on the same store with the same
  value and proof; but under the index the donor is configured with, whatever index the share was
  pushed with, since the store does not keep it, and no proof is ever refused.
\<close>

theorem pushed_share_roundtrip:
  assumes "store_reachable H capacity verify s" and "capacity \<le> u64_max"
    and "handle_push_share H now content share commitment s = (ShareAccepted content i, s')"
    and "length (sd_value share) = 32" and "length (sd_proof share) = 48"
  shows "\<exists>s''. donor_handle_request H now' d (CollectShare content d peer) s' = (ShareProvided content (share\<lparr>sd_index := d\<rparr>), s'')
    \<and> store_reachable H capacity verify s''"
proof -
  note stored = pushed_share_stored [OF assms(3)]
  have r: "store_reachable H capacity verify s'"
    using store_more [OF assms(1) step_store] stored by blast
  have inv: "store_inv H s'" by (rule store_inv_reachable [OF r assms(2)])
  note read = retrieve_stored [OF inv, of content "sd_value share @ sd_proof share" now'] stored
  then have "store_reachable H capacity verify (s'\<lparr>fs_touched := (fs_touched s')(content \<mapsto> now')\<rparr>)"
    using store_more [OF r step_retrieve] by blast
  with read assms(4,5) show ?thesis by (simp add: handle_collect_share_def)
qed

text \<open>The room the receiver asks for is what the store needs; only a fragment that is too large is refused later.\<close>

lemma push_share_accepted:
  assumes "store_inv H s" and "\<not> fragment_stored content s"
    and "fs_used s + (length (sd_value share) + length (sd_proof share)) \<le> fs_capacity s"
    and "length (sd_value share) + length (sd_proof share) \<le> max_fragment_size"
  shows "\<exists>s'. handle_push_share H now content share commitment s = (ShareAccepted content (sd_index share), s')"
proof -
  have "fs_used s + (length (sd_value share) + length (sd_proof share)) < 2 ^ 64"
    using assms(1,3) by (simp add: store_inv_def u64_max_def)
  then have "(fs_used s + (length (sd_value share) + length (sd_proof share))) mod 2 ^ 64
      = fs_used s + (length (sd_value share) + length (sd_proof share))" by (rule mod_less)
  then show ?thesis
    using assms(2-4) unfolding handle_push_share_def
    by (simp add: fragment_stored_def receiver_verify_kzg_proof_def store_def Let_def)
qed

subsection \<open>What a coordinator collects\<close>

lemma finite_collected: "finite (dom m) \<Longrightarrow> finite (dom (collect_from k content send hs m))"
  by (induction hs arbitrary: m) (auto split: option.splits repair_response.splits)

lemma collected_count_update: "finite (dom m) \<Longrightarrow> collected_count (m(i \<mapsto> x)) \<le> collected_count m + 1"
  by (simp add: collected_count_def card_insert_if)

lemma collect_from_bounds:
  assumes "finite (dom m)" and "collected_count m \<le> k"
  shows "collected_count (collect_from k content send hs m) \<le> k"
  using assms
proof (induction hs arbitrary: m)
  case (Cons h hs)
  show ?case
  proof (cases "k \<le> collected_count m")
    case False
    have "finite (dom m')" "collected_count m' \<le> k" if "m' = m \<or> m' = m(i \<mapsto> x)" for m' i x
      using that Cons.prems collected_count_update [OF Cons.prems(1), of i x] False by auto
    then show ?thesis using Cons.IH False by (auto split: option.split repair_response.split)
  qed (use Cons in simp)
qed simp

lemma collect_from_provenance:
  assumes "collect_from k content send hs m i = Some share"
  shows "m i = Some share \<or> (sd_index share = i
    \<and> (\<exists>h \<in> set hs. \<exists>content'. send (hi_peer_id h) (CollectShare content (hi_share_index h) []) = Some (ShareProvided content' share)))"
  using assms
  by (induction hs arbitrary: m)
    (fastforce split: if_splits option.splits repair_response.splits)+

text \<open>
  A collection that succeeds returns exactly as many shares as the threshold asks for, of different
  indexes, each of which some holder has sent; nothing ties it to the index or the content asked for.
\<close>

lemma collect_shares_facts:
  assumes "collect_shares cfg order content holders send = Inr shares"
    and "set order = UNIV" and "distinct order"
  shows "length shares = co_threshold_k cfg \<and> distinct (map sd_index shares)
    \<and> (\<forall>share \<in> set shares. \<exists>h \<in> set holders. \<exists>content'.
         send (hi_peer_id h) (CollectShare content (hi_share_index h) []) = Some (ShareProvided content' share))"
proof -
  let ?m = "collect_from (co_threshold_k cfg) content send holders Map.empty"
  have fin: "finite (dom ?m)" by (rule finite_collected) simp
  have shares: "shares = List.map_filter ?m order" and full: "co_threshold_k cfg \<le> collected_count ?m"
    using assms(1) by (auto simp: collect_shares_def result_simps Let_def)
  have "collected_count ?m \<le> co_threshold_k cfg" by (rule collect_from_bounds) (simp_all add: collected_count_def)
  with full have count: "collected_count ?m = co_threshold_k cfg" by simp
  have prov: "sd_index share = i \<and> (\<exists>h \<in> set holders. \<exists>content'.
         send (hi_peer_id h) (CollectShare content (hi_share_index h) []) = Some (ShareProvided content' share))"
    if "?m i = Some share" for i share
    using collect_from_provenance [OF that] by auto
  have keys: "map sd_index (List.map_filter ?m is) = filter (\<lambda>i. ?m i \<noteq> None) is" for "is"
    by (induction "is") (auto simp: map_filter_simps prov split: option.splits)
  have "distinct (filter (\<lambda>i. ?m i \<noteq> None) order)" using assms(3) by simp
  moreover have "set (filter (\<lambda>i. ?m i \<noteq> None) order) = dom ?m" using assms(2) by auto
  ultimately have "length (filter (\<lambda>i. ?m i \<noteq> None) order) = card (dom ?m)" by (metis distinct_card)
  then have "length shares = co_threshold_k cfg" using keys [of order] shares count
    by (metis collected_count_def length_map)
  moreover have "distinct (map sd_index shares)" using keys [of order] shares assms(3) by simp
  moreover have "\<exists>i. ?m i = Some share" if "share \<in> set shares" for share
    using that shares by (auto simp: map_filter_def)
  ultimately show ?thesis using prov by blast
qed

text \<open>Every repair that succeeds has submitted a proof of zeros.\<close>

lemma repair_submits_zeros:
  assumes "execute_repair cfg order content commitment holders new_index send submit = Inr ()"
  shows "submit content new_index (replicate 48 0) = None"
  using assms
  by (auto simp: execute_repair_def coordinator_regenerate_share_def result_simps split: option.splits)

text \<open>
  The index for a new share is the first unused one above those of the original shares. With 255
  shares the eight-bit sum wraps to zero, and the share at zero is given out, where the polynomial
  of the content shows its first chunk.
\<close>

lemma allocate_share_index_spec:
  assumes "n < 255"
  shows "allocate_share_index n existing = Some c \<Longrightarrow> n < c \<and> c \<notin> set existing \<and> (\<forall>b. n < b \<and> b < c \<longrightarrow> b \<in> set existing)"
    and "allocate_share_index n existing = None \<longleftrightarrow> {c. n < c} \<subseteq> set existing"
proof -
  let ?cs = "map word_of_nat [unat (n + 1)..<256] :: 8 word list"
  have n: "unat (n + 1) = unat n + 1" using assms by (simp add: unat_word_ariths word_less_nat_alt)
  have small: "unat (word_of_nat k :: 8 word) = k" if "k < 256" for k
    using that by (simp add: unat_of_nat)
  have at: "?cs ! j = word_of_nat (unat n + 1 + j)" if "j < length ?cs" for j using that by (simp add: n)
  have place: "\<exists>j < length ?cs. ?cs ! j = b \<and> unat b = unat n + 1 + j" if "n < b" for b
  proof -
    have "unat n + 1 \<le> unat b" using that by (simp add: word_less_nat_alt)
    moreover define j where "j = unat b - unat n - 1"
    ultimately have b: "unat b = unat n + 1 + j" by simp
    then have j: "j < length ?cs" using unat_byte_less [of b] by (simp add: n)
    have "?cs ! j = word_of_nat (unat b)" unfolding at [OF j] b ..
    then have "?cs ! j = b" by (simp del: nth_map)
    with b j show ?thesis by blast
  qed
  have above: "n < ?cs ! j \<and> unat (?cs ! j) = unat n + 1 + j" if "j < length ?cs" for j
  proof -
    have "unat n + 1 + j < 256" using that by (simp add: n)
    from small [OF this] show ?thesis unfolding at [OF that] by (simp add: word_less_nat_alt)
  qed
  show "allocate_share_index n existing = Some c \<Longrightarrow> n < c \<and> c \<notin> set existing \<and> (\<forall>b. n < b \<and> b < c \<longrightarrow> b \<in> set existing)"
  proof -
    assume "allocate_share_index n existing = Some c"
    then obtain i where i: "i < length ?cs" "c = ?cs ! i" "c \<notin> set existing" "\<forall>j < i. ?cs ! j \<in> set existing"
      unfolding allocate_share_index_def find_Some_iff by auto
    moreover have "b \<in> set existing" if between: "n < b" "b < c" for b
    proof -
      obtain j where j: "j < length ?cs" "?cs ! j = b" "unat b = unat n + 1 + j" using place [OF between(1)] by blast
      then have "j < i" using between(2) above [OF i(1)] i(2) by (simp add: word_less_nat_alt)
      then show ?thesis using i(4) j(2) by blast
    qed
    ultimately show ?thesis using above by blast
  qed
  have "c \<in> set ?cs \<longleftrightarrow> n < c" for c using in_set_conv_nth [of c ?cs] place above by blast
  then show "allocate_share_index n existing = None \<longleftrightarrow> {c. n < c} \<subseteq> set existing"
    unfolding allocate_share_index_def find_None_iff subset_iff by simp
qed

lemma allocate_zero_share: "0 \<notin> set existing \<Longrightarrow> allocate_share_index 255 existing = Some 0"
proof -
  have "[0..<256] = 0 # [1..<256]" by (subst upt_rec) simp
  then show "0 \<notin> set existing \<Longrightarrow> allocate_share_index 255 existing = Some 0"
    by (simp add: allocate_share_index_def)
qed

subsection \<open>Witness\<close>

theorem pushed_share_roundtrip_witness:
  "\<exists>s s' s''. receiver_handle_request (\<lambda>_. 7) 1 (PushShare 5 (share_data_new 6 (replicate 32 1) (replicate 48 2)) []) s
      = (ShareAccepted 5 6, s')
    \<and> donor_handle_request (\<lambda>_. 7) 2 3 (CollectShare 5 3 []) s'
      = (ShareProvided 5 (share_data_new 3 (replicate 32 1) (replicate 48 2)), s'')"
proof -
  let ?s = "open_store 100 True empty_db" and ?share = "share_data_new 6 (replicate 32 1) (replicate 48 2)"
  have r: "store_reachable (\<lambda>_. 7) 100 True ?s" by (rule store_opened)
  have inv: "store_inv (\<lambda>_. 7) ?s" by (rule store_inv_reachable [OF r]) (simp add: u64_max_def)
  have "fs_used ?s = 0" "fs_capacity ?s = 100" "\<not> fragment_stored 5 ?s"
    by (simp_all add: open_store_def load_or_recover_used_def scan_used_bytes_def empty_db_def entries_bytes fragment_stored_def)
  then obtain s' where p: "handle_push_share (\<lambda>_. 7) 1 5 ?share [] ?s = (ShareAccepted 5 6, s')"
    using push_share_accepted [OF inv, of 5 ?share] by (auto simp: share_data_new_def max_fragment_size_def)
  from pushed_share_roundtrip [OF r _ p, of 2 3] p show ?thesis
    by (auto simp: u64_max_def share_data_new_def)
qed

end
