(* ===== verification/Peer_Network.thy ===== *)
theory Peer_Network
  imports Node_Gc Utf8 Dm_Crypto
begin

text \<open>
  The peer-to-peer side of the storage node daemon (\<open>src/apps/storage-node/src/network\<close>): the signed
  messages in which nodes tell each other of endpoints (\<open>gossip.rs\<close>), the frames of the fragment
  protocol, the answers to requests of peers and the loop that turns events of the transport into
  events of the daemon (\<open>mod.rs\<close>). Keys, peer ids, JSON, SCALE and hexadecimal are parameters.
\<close>

subsection \<open>Gossip\<close>

definition gossip_max_message_size :: nat where "gossip_max_message_size = 4096"
definition max_endpoints_per_message :: nat where "max_endpoints_per_message = 20"

definition text_bytes :: "string \<Rightarrow> bytes" where "text_bytes s = map (word_of_nat \<circ> of_char) s"

text \<open>The identities of the transport: secret keys \<open>'sk\<close>, public keys \<open>'pk\<close> and peer ids \<open>'p\<close>.\<close>

record ('sk, 'pk, 'p) identities =
  id_public :: "'sk \<Rightarrow> 'pk"
  id_sign :: "'sk \<Rightarrow> bytes \<Rightarrow> bytes option"
  id_verify :: "'pk \<Rightarrow> bytes \<Rightarrow> bytes \<Rightarrow> bool"
  id_encode_protobuf :: "'pk \<Rightarrow> bytes"
  id_decode_protobuf :: "bytes \<Rightarrow> 'pk option"
  id_to_peer_id :: "'pk \<Rightarrow> 'p"
  id_to_base58 :: "'p \<Rightarrow> string"
  id_parse_peer_id :: "string \<Rightarrow> 'p option"
  id_unhex :: "string \<Rightarrow> bytes option"
  id_blake2b :: "bytes \<Rightarrow> bytes"

text \<open>The messages about chain nodes and about storage nodes differ in the type of their entries only.\<close>

record 'a gossip_message =
  gm_entries :: "'a list"
  gm_sender_peer_id :: string
  gm_sender_public_key :: string
  gm_timestamp :: nat
  gm_signature :: string

datatype gossip_error = UnsupportedKeyType

definition endpoint_preimage :: "blockchain_endpoint list \<Rightarrow> bytes" where
  "endpoint_preimage es = concat (map (\<lambda>e. text_bytes (be_url e) @ be_chain_id e @ le_bytes 8 (be_last_verified e)
     @ le_bytes 4 (be_latency_ms e) @ le_bytes 4 (be_ttl_secs e)) es)"

definition hash_endpoints :: "('sk, 'pk, 'p) identities \<Rightarrow> blockchain_endpoint list \<Rightarrow> bytes" where
  "hash_endpoints K es = id_blake2b K (endpoint_preimage es)"

definition storage_node_preimage :: "storage_node_endpoint list \<Rightarrow> bytes" where
  "storage_node_preimage ns = concat (map (\<lambda>n. text_bytes (sn_url n) @ le_bytes 8 (sn_last_verified n)
     @ le_bytes 4 (sn_latency_ms n) @ le_bytes 4 (sn_ttl_secs n)) ns)"

definition hash_storage_nodes :: "('sk, 'pk, 'p) identities \<Rightarrow> storage_node_endpoint list \<Rightarrow> bytes" where
  "hash_storage_nodes K ns = id_blake2b K (storage_node_preimage ns)"

definition sign_data :: "string \<Rightarrow> nat \<Rightarrow> bytes \<Rightarrow> bytes" where
  "sign_data peer_id timestamp entries_hash = text_bytes peer_id @ le_bytes 8 timestamp @ entries_hash"

definition message_new ::
  "('sk, 'pk, 'p) identities \<Rightarrow> ('a list \<Rightarrow> bytes) \<Rightarrow> nat \<Rightarrow> 'a list \<Rightarrow> 'p \<Rightarrow> 'sk \<Rightarrow> (gossip_error, 'a gossip_message) result" where
  "message_new K entries_hash now entries sender keypair =
     (let peer_id = id_to_base58 K sender
      in ok_or (id_sign K keypair (sign_data peer_id now (entries_hash entries))) UnsupportedKeyType (\<lambda>signature.
         Inr \<lparr>gm_entries = entries, gm_sender_peer_id = peer_id,
           gm_sender_public_key = hex_encode (id_encode_protobuf K (id_public K keypair)), gm_timestamp = now,
           gm_signature = hex_encode signature\<rparr>))"

definition verify_message_signature :: "('sk, 'pk, 'p) identities \<Rightarrow> ('a list \<Rightarrow> bytes) \<Rightarrow> 'a gossip_message \<Rightarrow> bool" where
  "verify_message_signature K entries_hash m =
     (case id_unhex K (gm_signature m) of None \<Rightarrow> False
      | Some sig_bytes \<Rightarrow>
     (case id_parse_peer_id K (gm_sender_peer_id m) of None \<Rightarrow> False
      | Some claimed \<Rightarrow>
     (case id_unhex K (gm_sender_public_key m) of None \<Rightarrow> False
      | Some pubkey_bytes \<Rightarrow>
     (case id_decode_protobuf K pubkey_bytes of None \<Rightarrow> False
      | Some public_key \<Rightarrow>
          if id_to_peer_id K public_key \<noteq> claimed then False
          else id_verify K public_key
                 (sign_data (gm_sender_peer_id m) (gm_timestamp m) (entries_hash (gm_entries m))) sig_bytes))))"

text \<open>The messages about chain nodes and the ones about storage nodes.\<close>

definition endpoint_message_new where "endpoint_message_new K = message_new K (hash_endpoints K)"
definition storage_node_message_new where "storage_node_message_new K = message_new K (hash_storage_nodes K)"
definition endpoint_signature_ok where "endpoint_signature_ok K = verify_message_signature K (hash_endpoints K)"
definition storage_node_signature_ok where "storage_node_signature_ok K = verify_message_signature K (hash_storage_nodes K)"

definition is_size_valid :: "('a gossip_message \<Rightarrow> bytes option) \<Rightarrow> 'a gossip_message \<Rightarrow> bool" where
  "is_size_valid to_bytes m = (case to_bytes m of Some bs \<Rightarrow> length bs \<le> gossip_max_message_size | None \<Rightarrow> False)"

datatype message_validation = Valid | TooLargeMessage | BadSignature | Expired | Malformed

definition validate_gossip ::
  "('sk, 'pk, 'p) identities \<Rightarrow> ('a list \<Rightarrow> bytes) \<Rightarrow> (bytes \<Rightarrow> 'a gossip_message option) \<Rightarrow> nat \<Rightarrow> bytes \<Rightarrow> message_validation" where
  "validate_gossip K entries_hash from_bytes now data =
     (if gossip_max_message_size < length data then TooLargeMessage
      else case from_bytes data of
          None \<Rightarrow> Malformed
        | Some m \<Rightarrow>
            if \<not> verify_message_signature K entries_hash m then BadSignature
            else if 300 < now - gm_timestamp m then Expired
            else Valid)"

definition validate_message where
  "validate_message K = validate_gossip K (hash_endpoints K)"

definition validate_storage_node_message where
  "validate_storage_node_message K = validate_gossip K (hash_storage_nodes K)"

subsection \<open>Frames\<close>

definition net_max_fragment_size :: nat where "net_max_fragment_size = 128 * 1024 * 1024"
definition envelope_overhead :: nat where "envelope_overhead = 1024"
definition max_message_size :: nat where "max_message_size = net_max_fragment_size + envelope_overhead"

datatype fragment_request = FragmentGet hash256 | FragmentPut hash256 bytes

datatype ack_error = NotRegistered | ChainUnavailable | StoreRefused "store_error failure"

datatype fragment_response = FragmentReply "bytes option" | Ack bool "ack_error option"

datatype io_error = UnexpectedEof | FrameTooLarge nat | Undecodable

text \<open>
  A frame is read from the bytes the peer sends; \<open>decode\<close> reads a value from the front of the
  buffer, and what is left of the buffer is ignored.
\<close>

definition read_framed :: "(bytes \<Rightarrow> ('m \<times> bytes) option) \<Rightarrow> bytes \<Rightarrow> (io_error, 'm \<times> bytes) result" where
  "read_framed decode stream =
     ensure (4 \<le> length stream) UnexpectedEof (
     let n = be_value (take 4 stream); body = drop 4 stream in
     ensure (n \<le> max_message_size) (FrameTooLarge n) (
     ensure (n \<le> length body) UnexpectedEof (
     ok_or (decode (take n body)) Undecodable (\<lambda>(m, _). Inr (m, drop n body)))))"

definition write_framed :: "('m \<Rightarrow> bytes) \<Rightarrow> 'm \<Rightarrow> (io_error, bytes) result" where
  "write_framed encode m =
     (let data = encode m in
      ensure (length data \<le> max_message_size) (FrameTooLarge (length data)) (
        Inr (be_bytes 4 (length data mod 2 ^ 32) @ data)))"

subsection \<open>Requests of peers\<close>

text \<open>
  The response with the name of a fragment that was stored, the store and the client afterwards; when
  the store cannot read a fragment the whole event fails and there is no response.
\<close>

definition handle_request ::
  "(bytes \<Rightarrow> hash256) \<Rightarrow> nat \<Rightarrow> connector \<Rightarrow> (connection \<Rightarrow> hash256 \<Rightarrow> bool option) \<Rightarrow> fragment_request
     \<Rightarrow> fragment_store \<times> chain_client
     \<Rightarrow> (store_error, fragment_response \<times> hash256 option) result \<times> fragment_store \<times> chain_client" where
  "handle_request H now connect fetch request = (\<lambda>(s, c). case request of
       FragmentGet fid \<Rightarrow>
         (case retrieve H now fid s of
            Inl e \<Rightarrow> (Inl e, s, c)
          | Inr (data, s') \<Rightarrow> (Inr (FragmentReply data, None), s', c))
     | FragmentPut fid data \<Rightarrow>
         (case fragment_exists connect fetch fid c of
            (Inr True, c') \<Rightarrow>
              (case store H now fid data s of
                 Inr s' \<Rightarrow> (Inr (Ack True None, Some fid), s', c')
               | Inl e \<Rightarrow> (Inr (Ack False (Some (StoreRefused e)), None), s, c'))
          | (Inr False, c') \<Rightarrow> (Inr (Ack False (Some NotRegistered), None), s, c')
          | (Inl _, c') \<Rightarrow> (Inr (Ack False (Some ChainUnavailable), None), s, c')))"

subsection \<open>Events\<close>

definition endpoint_topic :: string where "endpoint_topic = ''/anarchy/endpoints/1.0.0''"
definition storage_node_topic :: string where "storage_node_topic = ''/anarchy/storage-nodes/1.0.0''"

datatype 'p swarm_event = NewListenAddr string | ConnectionEstablished 'p | ConnectionClosed 'p
  | RequestReceived 'p fragment_request | ResponseReceived 'p fragment_response | Identified 'p
  | GossipMessage 'p string bytes | OtherEvent

datatype 'p network_event = Listening string | PeerConnected 'p | PeerDisconnected 'p
  | FragmentResponse 'p fragment_response | FragmentStoredEvent hash256
  | EndpointUpdate 'p "blockchain_endpoint list" | StorageNodeUpdate 'p "storage_node_endpoint list"

record ('sk, 'pk, 'p) network_env =
  nw_ids :: "('sk, 'pk, 'p) identities"
  nw_parse_endpoints :: "bytes \<Rightarrow> blockchain_endpoint gossip_message option"
  nw_parse_nodes :: "bytes \<Rightarrow> storage_node_endpoint gossip_message option"
  nw_hash :: "bytes \<Rightarrow> hash256"

record 'p network_state =
  ns_connected :: "'p set"
  ns_store :: fragment_store
  ns_client :: chain_client

definition handle_gossip :: "('sk, 'pk, 'p) network_env \<Rightarrow> nat \<Rightarrow> 'p \<Rightarrow> string \<Rightarrow> bytes \<Rightarrow> 'p network_event option" where
  "handle_gossip E now source topic data =
     (if topic = endpoint_topic then
        (case validate_message (nw_ids E) (nw_parse_endpoints E) now data of
           Valid \<Rightarrow> map_option (\<lambda>m. EndpointUpdate source (gm_entries m)) (nw_parse_endpoints E data)
         | _ \<Rightarrow> None)
      else if topic = storage_node_topic then
        (case validate_storage_node_message (nw_ids E) (nw_parse_nodes E) now data of
           Valid \<Rightarrow> map_option (\<lambda>m. StorageNodeUpdate source (gm_entries m)) (nw_parse_nodes E data)
         | _ \<Rightarrow> None)
      else None)"

text \<open>The event for the daemon, the response for the peer, and the state.\<close>

definition handle_event ::
  "('sk, 'pk, 'p) network_env \<Rightarrow> nat \<Rightarrow> connector \<Rightarrow> (connection \<Rightarrow> hash256 \<Rightarrow> bool option) \<Rightarrow> 'p swarm_event \<Rightarrow> 'p network_state
     \<Rightarrow> (store_error, 'p network_event option) result \<times> fragment_response option \<times> 'p network_state" where
  "handle_event E now connect fetch event N = (case event of
       NewListenAddr a \<Rightarrow> (Inr (Some (Listening a)), None, N)
     | ConnectionEstablished p \<Rightarrow> (Inr (Some (PeerConnected p)), None, N\<lparr>ns_connected := insert p (ns_connected N)\<rparr>)
     | ConnectionClosed p \<Rightarrow> (Inr (Some (PeerDisconnected p)), None, N\<lparr>ns_connected := ns_connected N - {p}\<rparr>)
     | RequestReceived p request \<Rightarrow>
         (let (r, s, c) = handle_request (nw_hash E) now connect fetch request (ns_store N, ns_client N);
              N' = N\<lparr>ns_store := s, ns_client := c\<rparr>
          in case r of
               Inl e \<Rightarrow> (Inl e, None, N')
             | Inr (response, added) \<Rightarrow> (Inr (map_option FragmentStoredEvent added), Some response, N'))
     | ResponseReceived p response \<Rightarrow> (Inr (Some (FragmentResponse p response)), None, N)
     | Identified p \<Rightarrow> (Inr None, None, N)
     | GossipMessage source topic data \<Rightarrow> (Inr (handle_gossip E now source topic data), None, N)
     | OtherEvent \<Rightarrow> (Inr None, None, N))"

definition peer_count :: "'p network_state \<Rightarrow> nat" where "peer_count N = card (ns_connected N)"

text \<open>The bytes the daemon hands to the transport to publish.\<close>

definition broadcast ::
  "('sk, 'pk, 'p) identities \<Rightarrow> ('a list \<Rightarrow> bytes) \<Rightarrow> ('a gossip_message \<Rightarrow> bytes option) \<Rightarrow> 'sk \<Rightarrow> nat \<Rightarrow> 'a list \<Rightarrow> bytes option" where
  "broadcast K entries_hash to_bytes keypair now entries =
     (case message_new K entries_hash now entries (id_to_peer_id K (id_public K keypair)) keypair of
        Inl _ \<Rightarrow> None
      | Inr m \<Rightarrow> to_bytes m)"

definition broadcast_endpoints where "broadcast_endpoints K = broadcast K (hash_endpoints K)"
definition broadcast_storage_nodes where "broadcast_storage_nodes K = broadcast K (hash_storage_nodes K)"

text \<open>What is handed to the transport is a message of the right kind.\<close>

lemma broadcast_messages:
  "broadcast_endpoints K to_bytes keypair now es = (case endpoint_message_new K now es (id_to_peer_id K (id_public K keypair)) keypair of
     Inl _ \<Rightarrow> None | Inr m \<Rightarrow> to_bytes m)"
  "broadcast_storage_nodes K to_bytes' keypair now ns = (case storage_node_message_new K now ns (id_to_peer_id K (id_public K keypair)) keypair of
     Inl _ \<Rightarrow> None | Inr m' \<Rightarrow> to_bytes' m')"
  by (simp_all add: broadcast_endpoints_def broadcast_storage_nodes_def broadcast_def endpoint_message_new_def storage_node_message_new_def)

subsection \<open>Signed messages\<close>

text \<open>What the daemon relies on: signatures verify, and keys, peer ids and bytes survive their text forms.\<close>

definition identities_ok :: "('sk, 'pk, 'p) identities \<Rightarrow> bool" where
  "identities_ok K \<longleftrightarrow> (\<forall>sk m sig. id_sign K sk m = Some sig \<longrightarrow> id_verify K (id_public K sk) m sig)
     \<and> (\<forall>pk. id_decode_protobuf K (id_encode_protobuf K pk) = Some pk)
     \<and> (\<forall>p. id_parse_peer_id K (id_to_base58 K p) = Some p) \<and> (\<forall>bs. id_unhex K (hex_encode bs) = Some bs)"

lemma own_message_verifies:
  assumes "identities_ok K" and "message_new K h now es (id_to_peer_id K (id_public K sk)) sk = Inr m"
  shows "verify_message_signature K h m \<and> gm_entries m = es \<and> gm_timestamp m = now"
  using assms by (auto simp: message_new_def identities_ok_def verify_message_signature_def result_simps Let_def
      split: option.splits)

lemma gossip_accepted_iff:
  "validate_gossip K h parse now data = Valid \<longleftrightarrow> length data \<le> 4096 \<and> (\<exists>m sig pkb pk. parse data = Some m
     \<and> id_unhex K (gm_signature m) = Some sig \<and> id_unhex K (gm_sender_public_key m) = Some pkb
     \<and> id_decode_protobuf K pkb = Some pk \<and> id_parse_peer_id K (gm_sender_peer_id m) = Some (id_to_peer_id K pk)
     \<and> id_verify K pk (sign_data (gm_sender_peer_id m) (gm_timestamp m) (h (gm_entries m))) sig
     \<and> now \<le> gm_timestamp m + 300)"
  by (auto simp: validate_gossip_def verify_message_signature_def gossip_max_message_size_def split: option.splits)

text \<open>What a node has told its peers: each of its announcements, with the time it was signed.\<close>

datatype announcement = OfEndpoints nat "blockchain_endpoint list" | OfNodes nat "storage_node_endpoint list"

fun announced_at :: "announcement \<Rightarrow> nat" where
  "announced_at (OfEndpoints t es) = t"
| "announced_at (OfNodes t ns) = t"

fun announced_preimage :: "announcement \<Rightarrow> bytes" where
  "announced_preimage (OfEndpoints t es) = endpoint_preimage es"
| "announced_preimage (OfNodes t ns) = storage_node_preimage ns"

definition announcement_data :: "('sk, 'pk, 'p) identities \<Rightarrow> 'p \<Rightarrow> announcement \<Rightarrow> bytes" where
  "announcement_data K p a = sign_data (id_to_base58 K p) (announced_at a) (id_blake2b K (announced_preimage a))"

text \<open>The code signs this for every message it makes, and the kind of the message is not a part of it.\<close>

lemma message_new_signs:
  "endpoint_message_new K now es p sk = Inr m \<Longrightarrow> id_sign K sk (announcement_data K p (OfEndpoints now es)) \<noteq> None"
  "storage_node_message_new K now ns p sk = Inr m' \<Longrightarrow> id_sign K sk (announcement_data K p (OfNodes now ns)) \<noteq> None"
  by (auto simp: endpoint_message_new_def storage_node_message_new_def message_new_def announcement_data_def
      hash_endpoints_def hash_storage_nodes_def result_simps Let_def)

text \<open>
  Nobody else can sign for the key: what verifies under it is one of the announcements in \<open>log\<close> or
  something the transport signed with the same key, which never begins with the peer id.
\<close>

definition unforgeable :: "('sk, 'pk, 'p) identities \<Rightarrow> 'pk \<Rightarrow> announcement list \<Rightarrow> bool" where
  "unforgeable K pk log \<longleftrightarrow> (\<forall>m sig. id_verify K pk m sig \<longrightarrow>
     m \<in> announcement_data K (id_to_peer_id K pk) ` set log
     \<or> take (length (id_to_base58 K (id_to_peer_id K pk))) m \<noteq> text_bytes (id_to_base58 K (id_to_peer_id K pk)))"

text \<open>Peer ids have one key and one text, hashes 32 bytes.\<close>

definition peer_ids_ok :: "('sk, 'pk, 'p) identities \<Rightarrow> bool" where
  "peer_ids_ok K \<longleftrightarrow> inj (id_to_peer_id K) \<and> (\<forall>s p. id_parse_peer_id K s = Some p \<longrightarrow> s = id_to_base58 K p)
     \<and> (\<forall>bs. length (id_blake2b K bs) = 32)"

lemma sign_data_inj:
  assumes "sign_data s t h = sign_data s' t' h'" and "length h = length h'" and "t < 2 ^ 64" and "t' < 2 ^ 64"
  shows "text_bytes s = text_bytes s' \<and> t = t' \<and> h = h'"
proof -
  have "text_bytes s = text_bytes s' \<and> le_bytes 8 t @ h = le_bytes 8 t' @ h'"
    by (rule append_eq_append_conv [THEN iffD1, OF disjI2]) (use assms(1,2) in \<open>simp_all add: sign_data_def\<close>)
  then have "text_bytes s = text_bytes s' \<and> le_bytes 8 t = le_bytes 8 t' \<and> h = h'" by simp
  moreover have "be_value (rev (le_bytes 8 x)) = x" if "x < 2 ^ 64" for x
    using that be_value_le_bytes [of x 8] by simp
  ultimately show ?thesis using assms(3,4) by metis
qed

text \<open>An accepted message that claims a peer id was signed, time and hash, by the holder of its key.\<close>

lemma claimed_was_announced:
  assumes "unforgeable K pk log" and "peer_ids_ok K" and "\<And>a. a \<in> set log \<Longrightarrow> announced_at a < 2 ^ 64"
    and "validate_gossip K (\<lambda>es. id_blake2b K (preimage es)) parse now data = Valid" and "parse data = Some m"
    and "gm_timestamp m < 2 ^ 64" and "id_parse_peer_id K (gm_sender_peer_id m) = Some (id_to_peer_id K pk)"
  shows "\<exists>a \<in> set log. announced_at a = gm_timestamp m \<and> now \<le> announced_at a + 300
    \<and> id_blake2b K (announced_preimage a) = id_blake2b K (preimage (gm_entries m))"
proof -
  let ?text = "id_to_base58 K (id_to_peer_id K pk)"
  let ?data = "sign_data (gm_sender_peer_id m) (gm_timestamp m) (id_blake2b K (preimage (gm_entries m)))"
  have claimed: "gm_sender_peer_id m = ?text" using assms(2,7) by (auto simp: peer_ids_ok_def)
  obtain sig where sig: "id_verify K pk ?data sig" and fresh: "now \<le> gm_timestamp m + 300"
    using assms(2,4,5,7) unfolding gossip_accepted_iff by (auto simp: peer_ids_ok_def dest: injD)
  have "take (length ?text) ?data = text_bytes ?text" by (simp add: claimed sign_data_def text_bytes_def)
  then obtain a where a: "a \<in> set log" "?data = announcement_data K (id_to_peer_id K pk) a"
    using assms(1) sig unfolding unforgeable_def by blast
  have "announced_at a = gm_timestamp m \<and> id_blake2b K (announced_preimage a) = id_blake2b K (preimage (gm_entries m))"
    using sign_data_inj [OF a(2) [unfolded announcement_data_def]] assms(2,3,6) a(1) by (auto simp: peer_ids_ok_def)
  with a(1) fresh show ?thesis by auto
qed

text \<open>C25: Gossip is authentic. When a node passes on an event for a message of either kind, and the message claims
  the peer id of a key nobody else can sign for, the holder of the key has announced, at the very time
  the message carries and at most 300 seconds ago (or in the future: that is not refused), entries with the same hash; whoever
  relays the message cannot have changed sender, time or hashed bytes. Since only the concatenation of
  the entries is hashed, neither where one entry ends nor the kind of the message is covered: the announced
  entries may be of the other kind. (Assumed: peer ids have one key and one text form, hashes 32 bytes, times 64 bits; what the
  transport signs with the same key does not begin with the peer id.)
\<close>

theorem gossip_authentic:
  assumes "unforgeable (nw_ids E) pk log" and "peer_ids_ok (nw_ids E)" and "\<And>a. a \<in> set log \<Longrightarrow> announced_at a < 2 ^ 64"
    and "\<And>m. nw_parse_endpoints E data = Some m \<Longrightarrow> gm_timestamp m < 2 ^ 64"
    and "\<And>m. nw_parse_nodes E data = Some m \<Longrightarrow> gm_timestamp m < 2 ^ 64"
    and "handle_event E now connect fetch (GossipMessage source topic data) N = (Inr (Some event), response, N')"
  shows "length data \<le> 4096 \<and> N' = N \<and> response = None
    \<and> ((\<exists>m. topic = endpoint_topic \<and> nw_parse_endpoints E data = Some m \<and> event = EndpointUpdate source (gm_entries m)
          \<and> (id_parse_peer_id (nw_ids E) (gm_sender_peer_id m) = Some (id_to_peer_id (nw_ids E) pk) \<longrightarrow>
             (\<exists>a \<in> set log. announced_at a = gm_timestamp m \<and> now \<le> announced_at a + 300
                \<and> id_blake2b (nw_ids E) (announced_preimage a) = id_blake2b (nw_ids E) (endpoint_preimage (gm_entries m)))))
      \<or> (\<exists>m. topic = storage_node_topic \<and> nw_parse_nodes E data = Some m \<and> event = StorageNodeUpdate source (gm_entries m)
          \<and> (id_parse_peer_id (nw_ids E) (gm_sender_peer_id m) = Some (id_to_peer_id (nw_ids E) pk) \<longrightarrow>
             (\<exists>a \<in> set log. announced_at a = gm_timestamp m \<and> now \<le> announced_at a + 300
                \<and> id_blake2b (nw_ids E) (announced_preimage a) = id_blake2b (nw_ids E) (storage_node_preimage (gm_entries m))))))"
proof -
  let ?K = "nw_ids E"
  have hashes: "hash_endpoints ?K = (\<lambda>es. id_blake2b ?K (endpoint_preimage es))"
    "hash_storage_nodes ?K = (\<lambda>ns. id_blake2b ?K (storage_node_preimage ns))"
    by (simp_all add: fun_eq_iff hash_endpoints_def hash_storage_nodes_def)
  have event: "handle_gossip E now source topic data = Some event" "N' = N" "response = None"
    using assms(6) by (auto simp: handle_event_def)
  consider (endpoints) m where "topic = endpoint_topic" "nw_parse_endpoints E data = Some m"
      "event = EndpointUpdate source (gm_entries m)"
      "validate_gossip ?K (\<lambda>es. id_blake2b ?K (endpoint_preimage es)) (nw_parse_endpoints E) now data = Valid"
    | (nodes) m where "topic = storage_node_topic" "nw_parse_nodes E data = Some m"
      "event = StorageNodeUpdate source (gm_entries m)"
      "validate_gossip ?K (\<lambda>ns. id_blake2b ?K (storage_node_preimage ns)) (nw_parse_nodes E) now data = Valid"
    using event(1)
    by (auto simp: handle_gossip_def validate_message_def validate_storage_node_message_def hashes
        split: if_splits message_validation.splits)
  then show ?thesis
  proof cases
    case endpoints
    then have "length data \<le> 4096" by (simp add: gossip_accepted_iff)
    then show ?thesis
      using endpoints event(2,3) claimed_was_announced [OF assms(1-3) endpoints(4,2) assms(4) [OF endpoints(2)]] by blast
  next
    case nodes
    then have "length data \<le> 4096" by (simp add: gossip_accepted_iff)
    then show ?thesis
      using nodes event(2,3) claimed_was_announced [OF assms(1-3) nodes(4,2) assms(5) [OF nodes(2)]] by blast
  qed
qed

lemma validate_gossip_own:
  assumes "verify_message_signature K h m" and "from_bytes data = Some m" and "length data \<le> gossip_max_message_size"
    and "now \<le> gm_timestamp m + 300"
  shows "validate_gossip K h from_bytes now data = Valid"
  using assms by (simp add: validate_gossip_def)

lemma own_broadcast_valid:
  assumes "identities_ok K" and "\<And>m data. to_bytes m = Some data \<Longrightarrow> parse data = Some m"
    and "broadcast K h to_bytes keypair now es = Some data" and "length data \<le> 4096" and "now' \<le> now + 300"
  shows "validate_gossip K h parse now' data = Valid \<and> (\<exists>m. parse data = Some m \<and> gm_entries m = es)"
proof -
  obtain m where m: "message_new K h now es (id_to_peer_id K (id_public K keypair)) keypair = Inr m" "to_bytes m = Some data"
    using assms(3) by (auto simp: broadcast_def split: sum.splits)
  note own = own_message_verifies [OF assms(1) m(1)] and parsed = assms(2) [OF m(2)]
  have "validate_gossip K h parse now' data = Valid"
    using own parsed assms(4, 5) by (intro validate_gossip_own) (auto simp: gossip_max_message_size_def)
  with own parsed show ?thesis by blast
qed

text \<open>What a node publishes reaches the daemon of a peer as the event of its kind, with the same entries.\<close>

lemma broadcast_received:
  assumes "identities_ok (nw_ids E)"
    and "\<And>m data. to_bytes m = Some data \<Longrightarrow> nw_parse_endpoints E data = Some m"
    and "\<And>m data. to_bytes' m = Some data \<Longrightarrow> nw_parse_nodes E data = Some m"
    and "broadcast_endpoints (nw_ids E) to_bytes keypair now es = Some data" and "length data \<le> 4096" and "now' \<le> now + 300"
    and "broadcast_storage_nodes (nw_ids E) to_bytes' keypair' made ns = Some data'" and "length data' \<le> 4096"
    and "now' \<le> made + 300"
  shows "handle_event E now' connect fetch (GossipMessage source endpoint_topic data) N
      = (Inr (Some (EndpointUpdate source es)), None, N)
    \<and> handle_event E now' connect fetch (GossipMessage source storage_node_topic data') N
      = (Inr (Some (StorageNodeUpdate source ns)), None, N)"
proof -
  have "endpoint_topic \<noteq> storage_node_topic" by (simp add: endpoint_topic_def storage_node_topic_def)
  moreover note own_broadcast_valid [where parse = "nw_parse_endpoints E", OF assms(1, 2) assms(4) [unfolded broadcast_endpoints_def] assms(5, 6)]
    own_broadcast_valid [where parse = "nw_parse_nodes E", OF assms(1, 3) assms(7) [unfolded broadcast_storage_nodes_def] assms(8, 9)]
  ultimately show ?thesis
    by (auto simp: handle_event_def handle_gossip_def validate_message_def validate_storage_node_message_def)
qed

text \<open>
  The hash of the entries is taken over their concatenation. So the signature does not say where one
  entry ends: two entries can be replaced by one whose URL has swallowed the first.
\<close>

definition merged_endpoint :: "blockchain_endpoint \<Rightarrow> blockchain_endpoint \<Rightarrow> blockchain_endpoint" where
  "merged_endpoint a b = b\<lparr>be_url := map (\<lambda>w. char_of (unat w)) (endpoint_preimage [a]) @ be_url b\<rparr>"

lemma text_bytes_inverse: "text_bytes (map (\<lambda>w. char_of (unat w)) bs) = bs"
proof -
  have "word_of_nat (of_char (char_of (unat w) :: char)) = w" for w :: "8 word"
  proof -
    have "of_char (char_of (unat w) :: char) = unat w" using unsigned_less [of w] by (simp add: of_char_of)
    then show ?thesis by simp
  qed
  then show ?thesis by (induction bs) (simp_all add: text_bytes_def)
qed

lemma boundaries_unsigned:
  "verify_message_signature K (hash_endpoints K) (m\<lparr>gm_entries := [merged_endpoint a b]\<rparr>)
     \<longleftrightarrow> verify_message_signature K (hash_endpoints K) (m\<lparr>gm_entries := [a, b]\<rparr>)"
proof -
  have "text_bytes (x @ y) = text_bytes x @ text_bytes y" for x y by (simp add: text_bytes_def)
  then have "endpoint_preimage [merged_endpoint a b] = endpoint_preimage [a, b]"
    by (simp add: merged_endpoint_def text_bytes_inverse endpoint_preimage_def)
  then show ?thesis by (simp add: verify_message_signature_def hash_endpoints_def cong: option.case_cong)
qed

text \<open>Nor does it say which kind was meant: an announced endpoint also reads as a storage node.\<close>

lemma kind_unsigned:
  assumes "n = \<lparr>sn_url = be_url e @ map (\<lambda>w. char_of (unat w)) (be_chain_id e), sn_last_verified = be_last_verified e,
     sn_latency_ms = be_latency_ms e, sn_ttl_secs = be_ttl_secs e\<rparr>"
  shows "announcement_data K p (OfNodes t [n]) = announcement_data K p (OfEndpoints t [e])"
proof -
  have "text_bytes (x @ y) = text_bytes x @ text_bytes y" for x y by (simp add: text_bytes_def)
  then show ?thesis
    by (simp add: assms announcement_data_def text_bytes_inverse endpoint_preimage_def storage_node_preimage_def)
qed

subsection \<open>Frames\<close>

lemma be_value_be_bytes: "n < 256 ^ k \<Longrightarrow> be_value (be_bytes k n) = n"
  by (simp add: be_bytes_def be_value_le_bytes)

lemma length_be_bytes [simp]: "length (be_bytes k n) = k"
  by (simp add: be_bytes_def)

text \<open>The names of fragments have 32 bytes.\<close>

definition named_ok :: "fragment_request \<Rightarrow> bool" where
  "named_ok m = (case m of FragmentGet fid \<Rightarrow> fid < 2 ^ 256 | FragmentPut fid _ \<Rightarrow> fid < 2 ^ 256)"

text \<open>A frame that was written is read back, whatever follows it on the stream. A value is refused by
  the writer exactly when its encoding is longer than the limit, and the limit leaves room for every
  fragment of 128 MiB; the reader refuses a longer announcement before it reads on.
\<close>

theorem frame_roundtrip:
  assumes "\<And>m. named_ok m \<Longrightarrow> decode (encode m) = Some (m, [])" and "named_ok m"
    and "\<And>fid data. length (encode (FragmentPut fid data)) \<le> length data + 38"
  shows "(case write_framed encode m of
            Inr frame \<Rightarrow> read_framed decode (frame @ rest) = Inr (m, rest)
          | Inl e \<Rightarrow> 128 * 1024 * 1024 + 1024 < length (encode m))
    \<and> (\<forall>fid data. m = FragmentPut fid data \<longrightarrow> length data \<le> 128 * 1024 * 1024 \<longrightarrow> (\<exists>frame. write_framed encode m = Inr frame))
    \<and> (\<forall>n body. n < 2 ^ 32 \<longrightarrow> 128 * 1024 * 1024 + 1024 < n \<longrightarrow> read_framed decode (be_bytes 4 n @ body) = Inl (Err (FrameTooLarge n)))"
proof (intro conjI allI impI)
  show "case write_framed encode m of Inr frame \<Rightarrow> read_framed decode (frame @ rest) = Inr (m, rest)
          | Inl e \<Rightarrow> 128 * 1024 * 1024 + 1024 < length (encode m)"
  proof (cases "length (encode m) \<le> max_message_size")
    case True
    then have "length (encode m) < 256 ^ 4" by (simp add: max_message_size_def net_max_fragment_size_def envelope_overhead_def)
    then show ?thesis using True
      by (simp add: write_framed_def read_framed_def Let_def be_value_be_bytes assms(1) [OF assms(2)])
  qed (simp add: write_framed_def Let_def max_message_size_def net_max_fragment_size_def envelope_overhead_def)
next
  fix fid data
  assume "m = FragmentPut fid data" "length data \<le> 128 * 1024 * 1024"
  then have "length (encode m) \<le> max_message_size"
    using assms(3) [of fid data] by (simp add: max_message_size_def net_max_fragment_size_def envelope_overhead_def)
  then show "\<exists>frame. write_framed encode m = Inr frame" by (simp add: write_framed_def Let_def)
next
  fix n :: nat and body :: bytes
  assume "n < 2 ^ 32" "128 * 1024 * 1024 + 1024 < n"
  then show "read_framed decode (be_bytes 4 n @ body) = Inl (Err (FrameTooLarge n))"
    by (simp add: read_framed_def Let_def be_value_be_bytes max_message_size_def net_max_fragment_size_def
        envelope_overhead_def)
qed


subsection \<open>What peers can write\<close>

lemma ensure_genesis:
  assumes "client_inv endpoint c" and "ensure_subxt_client connect c = (Inr (u, g), c')"
  shows "u = endpoint \<and> cc_expected_genesis c' = Some g"
  using assms by (auto simp: ensure_subxt_client_def client_inv_def split: option.splits if_splits)

lemma fragment_exists_genesis:
  assumes "client_inv endpoint c" and "fragment_exists connect fetch fid c = (Inr b, c')"
  shows "\<exists>g. cc_expected_genesis c' = Some g \<and> fetch (endpoint, g) fid = Some b"
  using assms ensure_genesis [OF assms(1)]
  by (auto simp: fragment_exists_def result_simps split: prod.splits sum.splits)

lemma handle_request_facts:
  assumes "client_inv endpoint c" and "handle_request H now connect fetch request (s, c) = (r, s', c')"
  shows "stored s' = stored s \<or> (\<exists>fid data g. request = FragmentPut fid data \<and> stored s (Fragment fid) = None
      \<and> stored s' = (stored s)(Fragment fid \<mapsto> data) \<and> r = Inr (Ack True None, Some fid)
      \<and> cc_expected_genesis c' = Some g \<and> fetch (endpoint, g) fid = Some True)"
proof (cases request)
  case (FragmentGet fid)
  then show ?thesis using assms(2) by (auto simp: handle_request_def retrieve_effect(1) split: sum.splits)
next
  case (FragmentPut fid data)
  obtain e c1 where e: "fragment_exists connect fetch fid c = (e, c1)" by fastforce
  show ?thesis
  proof (cases "\<exists>s1. e = Inr True \<and> store H now fid data s = Inr s1")
    case True
    then obtain s1 where s1: "e = Inr True" "store H now fid data s = Inr s1" by blast
    then have r: "r = Inr (Ack True None, Some fid)" "s' = s1" "c' = c1"
      using assms(2) e FragmentPut by (auto simp: handle_request_def)
    show ?thesis
      using fragment_exists_genesis [OF assms(1)] e s1 store_effect [OF s1(2)] r FragmentPut
      by (cases "stored s (Fragment fid)") (auto simp del: stored.simps)
  next
    case False
    then have "s' = s" using assms(2) e FragmentPut
      by (auto simp: handle_request_def split: sum.splits bool.splits)
    then show ?thesis by simp
  qed
qed

text \<open>C14: A peer changes what a node holds in one way only: it puts a fragment under a name that is free,
  after a chain node on the chain the client is pinned to has said that the name is registered; the node
  then tells the daemon to declare the holding. All other events leave every fragment as it was.
\<close>

theorem peer_writes_authorised:
  assumes "client_reachable parse K endpoint (ns_client N)"
    and "handle_event E now connect fetch event N = (r, response, N')"
  shows "stored (ns_store N') = stored (ns_store N)
    \<or> (\<exists>p fid data g. event = RequestReceived p (FragmentPut fid data) \<and> stored (ns_store N) (Fragment fid) = None
        \<and> stored (ns_store N') = (stored (ns_store N))(Fragment fid \<mapsto> data)
        \<and> cc_expected_genesis (ns_client N') = Some g \<and> fetch (endpoint, g) fid = Some True
        \<and> r = Inr (Some (FragmentStoredEvent fid)) \<and> response = Some (Ack True None))"
proof (cases "\<exists>p request. event = RequestReceived p request")
  case True
  then obtain p request where ev: "event = RequestReceived p request" by blast
  obtain r1 s c where h: "handle_request (nw_hash E) now connect fetch request (ns_store N, ns_client N) = (r1, s, c)"
    by (metis prod_cases3)
  have "client_inv endpoint (ns_client N)" by (rule client_reachable_inv [OF assms(1)])
  from handle_request_facts [OF this h] show ?thesis
    using assms(2) h ev by (auto simp: handle_event_def Let_def split: sum.splits)
next
  case False
  then show ?thesis using assms(2) by (auto simp: handle_event_def split: swarm_event.splits)
qed


text \<open>The peers, whatever they send, are clients of the store that only use it.\<close>

definition peer_step :: "('sk, 'pk, 'p) network_env \<Rightarrow> 'p network_state \<Rightarrow> 'p network_state \<Rightarrow> bool" where
  "peer_step E N N' \<longleftrightarrow> (\<exists>now connect fetch event. N' = snd (snd (handle_event E now connect fetch event N)))"

lemma handle_request_uses:
  "handle_request H now connect fetch request (s, c) = (r, s', c') \<Longrightarrow> s' = s \<or> use_step H s s'"
  by (auto simp: handle_request_def use_step_def split: fragment_request.splits sum.splits prod.splits bool.splits)

lemma peer_step_uses:
  assumes "peer_step E N N'"
  shows "(use_step (nw_hash E))\<^sup>*\<^sup>* (ns_store N) (ns_store N')"
proof -
  obtain now connect fetch event where N': "N' = snd (snd (handle_event E now connect fetch event N))"
    using assms by (auto simp: peer_step_def)
  have "ns_store N' = ns_store N \<or> use_step (nw_hash E) (ns_store N) (ns_store N')"
  proof (cases event)
    case (RequestReceived p request)
    obtain r s c where h: "handle_request (nw_hash E) now connect fetch request (ns_store N, ns_client N) = (r, s, c)"
      by (metis prod_cases3)
    from handle_request_uses [OF h] h show ?thesis
      by (simp add: N' RequestReceived handle_event_def Let_def split: sum.split)
  qed (simp_all add: N' handle_event_def)
  then show ?thesis by auto
qed

interpretation peer_client: fragment_client "store_inv (nw_hash E)" stored "use_step (nw_hash E)" ns_store "peer_step E"
  for E :: "('sk, 'pk, 'p) network_env"
  by unfold_locales (rule peer_step_uses)

text \<open>
  The content is not compared with the name: whoever puts first decides the bytes. A later put of the
  right ones is acknowledged as a success and dropped, and the first ones are what peers get.
\<close>

lemma first_put_decides:
  assumes "store_inv H s" and "stored s (Fragment fid) = None"
    and "handle_request H now connect fetch (FragmentPut fid junk) (s, c) = (Inr (Ack True None, x), s1, c1)"
    and "handle_request H now' connect' fetch' (FragmentPut fid data) (s1, c1) = (Inr (Ack True None, y), s2, c2)"
  shows "\<exists>s3. handle_request H now'' connect'' fetch'' (FragmentGet fid) (s2, c2) = (Inr (FragmentReply (Some junk), None), s3, c2)"
proof -
  have s1: "store H now fid junk s = Inr s1" and s2: "store H now' fid data s1 = Inr s2"
    using assms(3, 4) by (auto simp: handle_request_def split: prod.splits sum.splits bool.splits)
  have "use_step H s s1" "use_step H s1 s2" using s1 s2 by (auto simp: use_step_def)
  then have inv: "store_inv H s2" using keeper.step_inv assms(1) by blast
  have "stored s2 (Fragment fid) = Some junk"
    using store_effect [OF s1] store_effect [OF s2] assms(2) by (simp del: stored.simps)
  with entry_ok_Some [of H junk] stored_meta [OF inv, of "Fragment fid"] show ?thesis
    by (fastforce simp: handle_request_def retrieve_def verify_integrity_def Let_def)
qed

text \<open>A fragment the RPC has taken can be too long for the protocol: then a peer that asks for it gets nothing.\<close>

lemma large_fragment_unserved:
  assumes "\<And>data. length data < length (encode (FragmentReply (Some data)))" and "128 * 1024 * 1024 + 1024 \<le> length data"
  shows "write_framed encode (FragmentReply (Some data)) = Inl (Err (FrameTooLarge (length (encode (FragmentReply (Some data))))))"
  using assms(1) [of data] assms(2)
  by (simp add: write_framed_def Let_def max_message_size_def net_max_fragment_size_def envelope_overhead_def)

text \<open>A peer counts as gone when one of its connections closes, even while another is open.\<close>

lemma one_close_disconnects:
  "p \<notin> ns_connected (snd (snd (handle_event E now connect fetch (ConnectionClosed p)
     (snd (snd (handle_event E now' connect' fetch' (ConnectionEstablished p) N))))))"
  by (simp add: handle_event_def)

subsection \<open>An instance\<close>

definition demo_ids :: "(bytes, bytes, bytes) identities" where
  "demo_ids = \<lparr>id_public = (\<lambda>sk. sk), id_sign = (\<lambda>_ m. Some m), id_verify = (\<lambda>_ m sig. m = sig),
     id_encode_protobuf = (\<lambda>pk. pk), id_decode_protobuf = Some, id_to_peer_id = (\<lambda>pk. pk), id_to_base58 = hex_encode,
     id_parse_peer_id = unhex, id_unhex = unhex, id_blake2b = (\<lambda>bs. take 32 bs)\<rparr>"

lemma demo_ids_ok: "identities_ok demo_ids"
  by (simp add: identities_ok_def demo_ids_def unhex_encode)

definition demo_endpoint :: blockchain_endpoint where
  "demo_endpoint = \<lparr>be_url = ''wss://a'', be_chain_id = replicate 32 0, be_last_verified = 9, be_latency_ms = 5, be_ttl_secs = 300\<rparr>"

definition demo_message :: "blockchain_endpoint gossip_message" where
  "demo_message = (case message_new demo_ids (hash_endpoints demo_ids) 10 [demo_endpoint] [1] [1] of Inr m \<Rightarrow> m)"

definition demo_nodes_message :: "storage_node_endpoint gossip_message" where
  "demo_nodes_message = (case message_new demo_ids (hash_storage_nodes demo_ids) 11 [storage_node_endpoint_new 9 ''http://b''] [1] [1] of
     Inr m \<Rightarrow> m)"

definition demo_network :: "(bytes, bytes, bytes) network_env" where
  "demo_network = \<lparr>nw_ids = demo_ids, nw_parse_endpoints = (\<lambda>data. if data = [1] then Some demo_message else None),
     nw_parse_nodes = (\<lambda>data. if data = [2] then Some demo_nodes_message else None), nw_hash = (\<lambda>_. 7)\<rparr>"

definition demo_network_state :: "bytes network_state" where
  "demo_network_state = \<lparr>ns_connected = {}, ns_store = demo_store, ns_client = demo_client\<rparr>"

text \<open>A key that has signed the two demonstration messages and nothing else.\<close>

definition demo_log :: "announcement list" where
  "demo_log = [OfEndpoints 10 [demo_endpoint], OfNodes 11 [storage_node_endpoint_new 9 ''http://b'']]"

definition demo_sealed :: "(bytes, bytes, bytes) identities" where
  "demo_sealed = demo_ids\<lparr>id_verify := (\<lambda>_ m sig. m = sig \<and> (\<exists>a \<in> set demo_log.
       m = sign_data (hex_encode [1]) (announced_at a) (take 32 (announced_preimage a @ replicate 32 0)))),
     id_parse_peer_id := (\<lambda>s. if s = hex_encode [1] then Some [1] else None),
     id_blake2b := (\<lambda>bs. take 32 (bs @ replicate 32 0))\<rparr>"

definition demo_sealed_message :: "blockchain_endpoint gossip_message" where
  "demo_sealed_message = (case endpoint_message_new demo_sealed 10 [demo_endpoint] [1] [1] of Inr m \<Rightarrow> m)"

definition demo_sealed_network :: "(bytes, bytes, bytes) network_env" where
  "demo_sealed_network = \<lparr>nw_ids = demo_sealed, nw_parse_endpoints = (\<lambda>data. if data = [1] then Some demo_sealed_message else None),
     nw_parse_nodes = (\<lambda>_. None), nw_hash = (\<lambda>_. 7)\<rparr>"

lemma demo_sealed_ok: "unforgeable demo_sealed [1] demo_log" "peer_ids_ok demo_sealed"
  by (auto simp: unforgeable_def demo_sealed_def demo_ids_def announcement_data_def peer_ids_ok_def inj_def split: if_splits)

theorem gossip_authentic_witness:
  "handle_event demo_sealed_network 12 (\<lambda>_. None) (\<lambda>_ _. None) (GossipMessage [2] endpoint_topic [1]) demo_network_state
     = (Inr (Some (EndpointUpdate [2] [demo_endpoint])), None, demo_network_state)
   \<and> (\<exists>a \<in> set demo_log. announced_at a = 10
        \<and> id_blake2b demo_sealed (announced_preimage a) = id_blake2b demo_sealed (endpoint_preimage [demo_endpoint]))"
proof -
  have m: "gm_entries demo_sealed_message = [demo_endpoint]" "gm_timestamp demo_sealed_message = 10"
    "gm_sender_peer_id demo_sealed_message = hex_encode [1]" "gm_sender_public_key demo_sealed_message = hex_encode [1]"
    "gm_signature demo_sealed_message = hex_encode (announcement_data demo_sealed [1] (OfEndpoints 10 [demo_endpoint]))"
    by (simp_all add: demo_sealed_message_def endpoint_message_new_def message_new_def demo_sealed_def demo_ids_def Let_def
        announcement_data_def hash_endpoints_def ok_or_def)
  have "verify_message_signature demo_sealed (hash_endpoints demo_sealed) demo_sealed_message"
    unfolding verify_message_signature_def m
    by (simp add: demo_sealed_def demo_ids_def unhex_encode announcement_data_def hash_endpoints_def demo_log_def)
  then have h: "handle_event demo_sealed_network 12 (\<lambda>_. None) (\<lambda>_ _. None) (GossipMessage [2] endpoint_topic [1]) demo_network_state
     = (Inr (Some (EndpointUpdate [2] [demo_endpoint])), None, demo_network_state)"
    by (simp add: handle_event_def handle_gossip_def validate_message_def validate_gossip_def demo_sealed_network_def m
        gossip_max_message_size_def)
  have "unforgeable (nw_ids demo_sealed_network) [1] demo_log" "peer_ids_ok (nw_ids demo_sealed_network)"
    using demo_sealed_ok by (simp_all add: demo_sealed_network_def)
  from gossip_authentic [OF this _ _ _ h] m
  show ?thesis using h
    by (auto simp: demo_sealed_network_def demo_log_def demo_sealed_def demo_ids_def endpoint_topic_def storage_node_topic_def)
qed

fun demo_encode :: "fragment_request \<Rightarrow> bytes" where
  "demo_encode (FragmentGet fid) = 0 # le_bytes 32 fid"
| "demo_encode (FragmentPut fid data) = 1 # le_bytes 32 fid @ data"

definition demo_decode :: "bytes \<Rightarrow> (fragment_request \<times> bytes) option" where
  "demo_decode bs = (case bs of [] \<Rightarrow> None
     | t # r \<Rightarrow> let fid = be_value (rev (take 32 r)) in
         Some (if t = 0 then FragmentGet fid else FragmentPut fid (drop 32 r), []))"

lemma demo_decode_encode: "named_ok m \<Longrightarrow> demo_decode (demo_encode m) = Some (m, [])"
proof -
  have "be_value (rev (le_bytes 32 fid)) = fid" if "fid < 2 ^ 256" for fid
    using that be_value_le_bytes [of fid 32] by simp
  then show "named_ok m \<Longrightarrow> ?thesis" by (cases m) (simp_all add: named_ok_def demo_decode_def Let_def)
qed

theorem frame_roundtrip_witness:
  "\<exists>frame. write_framed demo_encode (FragmentPut 5 [1, 2, 3]) = Inr frame
     \<and> read_framed demo_decode (frame @ [9]) = Inr (FragmentPut 5 [1, 2, 3], [9])"
proof -
  note trip = frame_roundtrip [where encode = demo_encode and decode = demo_decode and m = "FragmentPut 5 [1, 2, 3]" and rest = "[9]"]
  have "named_ok (FragmentPut 5 [1, 2, 3])" by (simp add: named_ok_def)
  moreover have "\<exists>frame. write_framed demo_encode (FragmentPut 5 [1, 2, 3]) = Inr frame"
    by (simp add: write_framed_def Let_def max_message_size_def net_max_fragment_size_def envelope_overhead_def)
  ultimately show ?thesis using trip demo_decode_encode by fastforce
qed

theorem peer_writes_authorised_witness:
  "\<exists>N'. handle_event demo_network 12 (\<lambda>_. Some 7) (\<lambda>_ _. Some True) (RequestReceived [2] (FragmentPut 9 [6])) demo_network_state
      = (Inr (Some (FragmentStoredEvent 9)), Some (Ack True None), N')
    \<and> stored (ns_store N') = (stored demo_store)(Fragment 9 \<mapsto> [6]) \<and> cc_expected_genesis (ns_client N') = Some 7"
proof -
  let ?e = "RequestReceived [2] (FragmentPut 9 [6])"
  have none: "stored demo_store (Fragment 9) = None" and cap: "fs_capacity demo_store = 10"
    using store_reachable_capacity [OF demo_store_reachable]
    by (simp_all add: demo_store_def open_store_def load_or_recover_used_def scan_used_bytes_def empty_db_def store_def
      store_post_fragment_def max_fragment_size_def max_post_id_def max_fragment_index_def u64_max_def entries_bytes Let_def)
  obtain s' where s': "store (\<lambda>_. 7) 12 9 [6] demo_store = Inr s'"
    using none cap by (simp add: store_def max_fragment_size_def demo_store_used)
  have client: "ensure_subxt_client (\<lambda>_. Some 7) demo_client = (Inr (''ws://a'', 7), demo_client)"
    by (simp add: ensure_subxt_client_def demo_client_def)
  obtain N' where e: "handle_event demo_network 12 (\<lambda>_. Some 7) (\<lambda>_ _. Some True) ?e demo_network_state
      = (Inr (Some (FragmentStoredEvent 9)), Some (Ack True None), N')" and N': "ns_store N' = s'"
    using s' client by (simp add: handle_event_def handle_request_def fragment_exists_def demo_network_def demo_network_state_def)
  have "client_reachable unhex_parse demo_keys ''ws://a'' (ns_client demo_network_state)" for unhex_parse
    by (simp add: demo_network_state_def demo_client_reachable)
  from peer_writes_authorised [OF this e] have "stored (ns_store N') = (stored demo_store)(Fragment 9 \<mapsto> [6])
      \<and> cc_expected_genesis (ns_client N') = Some 7"
  proof
    assume "stored (ns_store N') = stored (ns_store demo_network_state)"
    moreover have "stored (ns_store N') (Fragment 9) = Some [6]"
      using store_effect [OF s'] none N' by (simp del: stored.simps)
    ultimately show ?thesis using none by (simp add: demo_network_state_def del: stored.simps)
  qed (use client e in \<open>auto simp: demo_network_state_def demo_client_def handle_event_def handle_request_def fragment_exists_def
      demo_network_def ensure_subxt_client_def split: sum.splits\<close>)
  then show ?thesis using e by blast
qed

end
