(* ===== verification/Node_Config.thy ===== *)
theory Node_Config
  imports Peer_Network
begin

text \<open>
  The start of a storage node daemon: its configuration
  (\<open>src/apps/storage-node/src/config/mod.rs\<close>) and its identity (\<open>identity.rs\<close>). Files are a map from
  paths to contents; the TOML parser, which yields the fields that are present, the URL parser and the
  key library are parameters. Errors of the disk other than a missing file are not modelled.
\<close>

subsection \<open>Configuration\<close>

record config_overrides =
  ov_data_dir :: "string option"
  ov_chain_url :: "string option"
  ov_listen_addr :: "string option"
  ov_rpc_port :: "16 word option"
  ov_auth_enabled :: "bool option"
  ov_public_url :: "string option"

record config =
  cf_data_dir :: string
  cf_capacity :: nat
  cf_chain_url :: string
  cf_listen_addr :: string
  cf_declare_rate_limit :: nat
  cf_rpc_port :: "16 word"
  cf_auth_enabled :: bool
  cf_bootstrap_peers :: "string list"
  cf_srs_path :: string
  cf_dev_mode :: bool
  cf_signer_seed :: string
  cf_verify_on_read :: bool
  cf_public_url :: "string option"

text \<open>A parsed file: a field that is missing takes its default, except the seed, which has none.\<close>

record config_file =
  fl_data_dir :: "string option"
  fl_capacity :: "nat option"
  fl_chain_url :: "string option"
  fl_listen_addr :: "string option"
  fl_declare_rate_limit :: "nat option"
  fl_rpc_port :: "16 word option"
  fl_auth_enabled :: "bool option"
  fl_bootstrap_peers :: "string list option"
  fl_srs_path :: "string option"
  fl_dev_mode :: "bool option"
  fl_signer_seed :: "string option"
  fl_verify_on_read :: "bool option"
  fl_public_url :: "string option"

definition config_default :: config where
  "config_default = \<lparr>cf_data_dir = ''./data'', cf_capacity = 10 * 1024 * 1024 * 1024, cf_chain_url = ''ws://127.0.0.1:9944'',
     cf_listen_addr = ''/ip4/0.0.0.0/tcp/4001'', cf_declare_rate_limit = 10, cf_rpc_port = 3030, cf_auth_enabled = True,
     cf_bootstrap_peers = [], cf_srs_path = '''', cf_dev_mode = False, cf_signer_seed = '''', cf_verify_on_read = False,
     cf_public_url = None\<rparr>"

definition or_else :: "'a option \<Rightarrow> 'a \<Rightarrow> 'a" where
  "or_else x d = (case x of Some v \<Rightarrow> v | None \<Rightarrow> d)"

definition config_of_file :: "config_file \<Rightarrow> config option" where
  "config_of_file f = map_option (\<lambda>seed.
     \<lparr>cf_data_dir = or_else (fl_data_dir f) (cf_data_dir config_default),
      cf_capacity = or_else (fl_capacity f) (cf_capacity config_default),
      cf_chain_url = or_else (fl_chain_url f) (cf_chain_url config_default),
      cf_listen_addr = or_else (fl_listen_addr f) (cf_listen_addr config_default),
      cf_declare_rate_limit = or_else (fl_declare_rate_limit f) (cf_declare_rate_limit config_default),
      cf_rpc_port = or_else (fl_rpc_port f) (cf_rpc_port config_default),
      cf_auth_enabled = or_else (fl_auth_enabled f) (cf_auth_enabled config_default),
      cf_bootstrap_peers = or_else (fl_bootstrap_peers f) (cf_bootstrap_peers config_default),
      cf_srs_path = or_else (fl_srs_path f) (cf_srs_path config_default),
      cf_dev_mode = or_else (fl_dev_mode f) (cf_dev_mode config_default),
      cf_signer_seed = seed,
      cf_verify_on_read = or_else (fl_verify_on_read f) (cf_verify_on_read config_default),
      cf_public_url = fl_public_url f\<rparr>) (fl_signer_seed f)"

definition apply_overrides :: "config_overrides \<Rightarrow> config \<Rightarrow> config" where
  "apply_overrides ov c = c\<lparr>cf_data_dir := or_else (ov_data_dir ov) (cf_data_dir c),
     cf_chain_url := or_else (ov_chain_url ov) (cf_chain_url c),
     cf_listen_addr := or_else (ov_listen_addr ov) (cf_listen_addr c),
     cf_rpc_port := or_else (ov_rpc_port ov) (cf_rpc_port c),
     cf_auth_enabled := or_else (ov_auth_enabled ov) (cf_auth_enabled c),
     cf_public_url := (case ov_public_url ov of Some u \<Rightarrow> Some u | None \<Rightarrow> cf_public_url c)\<rparr>"

datatype config_error = ConfigNotFound string | ConfigUnparsable | SeedMissing | SeedNot64 nat | PublicUrlUnparsable
  | PublicUrlScheme string | PublicUrlNoHost

definition validate_public_url :: "url_parser \<Rightarrow> string \<Rightarrow> (config_error, unit) result" where
  "validate_public_url parse u =
     ok_or (parse u) PublicUrlUnparsable (\<lambda>parsed.
     ensure (url_scheme parsed = ''http'' \<or> url_scheme parsed = ''https'') (PublicUrlScheme (url_scheme parsed)) (
     ensure (url_host_of parsed \<noteq> None) PublicUrlNoHost (Inr ())))"

definition config_validate :: "url_parser \<Rightarrow> config \<Rightarrow> (config_error, unit) result" where
  "config_validate parse c = (case cf_public_url c of Some u \<Rightarrow> validate_public_url parse u | None \<Rightarrow> Inr ())"

definition config_load ::
  "url_parser \<Rightarrow> (string \<Rightarrow> config_file option) \<Rightarrow> (string \<rightharpoonup> string) \<Rightarrow> string \<Rightarrow> config_overrides \<Rightarrow> (config_error, config) result" where
  "config_load parse parse_toml files path overrides =
     ok_or (files path) (ConfigNotFound path) (\<lambda>content.
     ok_or (Option.bind (parse_toml content) config_of_file) ConfigUnparsable (\<lambda>c.
     ensure (cf_signer_seed c \<noteq> '''') SeedMissing (
     ensure (length (cf_signer_seed c) = 64) (SeedNot64 (length (cf_signer_seed c))) (
     let c' = apply_overrides overrides c
     in bind_ok (config_validate parse c') (\<lambda>_. Inr c')))))"

definition advertised_url :: "config \<Rightarrow> string" where
  "advertised_url c = (case cf_public_url c of Some u \<Rightarrow> u | None \<Rightarrow> ''http://127.0.0.1:'' @ decimal (unat (cf_rpc_port c)))"

text \<open>
  A configuration that was loaded has a seed of 64 characters, advertises a URL that parses as http or
  https with a host, unless it falls back to the loopback address, and takes its port, URLs and
  directory from the command line where that gives them.
\<close>

lemma loaded_config_ok:
  assumes "config_load parse parse_toml files path ov = Inr c"
  shows "length (cf_signer_seed c) = 64
    \<and> (\<forall>u. cf_public_url c = Some u \<longrightarrow> advertised_url c = u \<and> (\<exists>p. parse u = Some p \<and> url_scheme p \<in> {''http'', ''https''}
          \<and> url_host_of p \<noteq> None))
    \<and> (\<forall>v. ov_rpc_port ov = Some v \<longrightarrow> cf_rpc_port c = v) \<and> (\<forall>v. ov_public_url ov = Some v \<longrightarrow> cf_public_url c = Some v)
    \<and> (\<forall>v. ov_chain_url ov = Some v \<longrightarrow> cf_chain_url c = v) \<and> (\<forall>v. ov_data_dir ov = Some v \<longrightarrow> cf_data_dir c = v)"
proof -
  obtain c0 where c: "length (cf_signer_seed c0) = 64" "c = apply_overrides ov c0" "config_validate parse c = Inr ()"
    using assms by (auto simp: config_load_def result_simps Let_def)
  have "cf_signer_seed c = cf_signer_seed c0" by (simp add: c(2) apply_overrides_def)
  moreover have "advertised_url c = u \<and> (\<exists>p. parse u = Some p \<and> url_scheme p \<in> {''http'', ''https''} \<and> url_host_of p \<noteq> None)"
    if "cf_public_url c = Some u" for u
    using c(3) that by (auto simp: config_validate_def validate_public_url_def advertised_url_def result_simps)
  ultimately show ?thesis using c(1) by (simp add: c(2) apply_overrides_def or_else_def)
qed

text \<open>
  The check of the URL is weaker than the policy of the chain node that will be asked to register it: a
  node whose public URL has a private or loopback address, no known port, or one of the node's own
  ports starts, and is then refused with every registration.
\<close>

lemma public_url_may_be_refused:
  assumes "parse u = Some p" and "url_scheme p = ''http''" and "url_host_of p = Some (Ipv4Host a)" and "is_private_v4 a"
    and "\<not> allow_private P"
  shows "validate_public_url parse u = Inr ()" and "\<exists>e. validate_url_sync parse P u = Inl e"
proof -
  show "validate_public_url parse u = Inr ()" using assms by (simp add: validate_public_url_def)
  have "check_ip P (V4 a) \<noteq> Inr ()" using assms(4, 5) by (auto simp: check_ip_def result_simps)
  then show "\<exists>e. validate_url_sync parse P u = Inl e"
    using assms(1-3) by (cases "validate_url_sync parse P u")
      (auto simp: validate_url_sync_def check_host_def result_simps)
qed

text \<open>The daemon starts only with a seed that is 32 bytes in hexadecimal: the client refuses the others.\<close>

lemma started_with_seed:
  assumes "chain_client_new unhex' connect now (cf_chain_url c) (cf_declare_rate_limit c) (cf_signer_seed c) F cache = Inr client"
  shows "\<exists>seed. unhex' (cf_signer_seed c) = Some seed \<and> length seed = 32 \<and> cc_seed client = seed"
  using assms by (auto simp: chain_client_new_def from_seed_hex_def bind_from_Inr result_simps Let_def)

subsection \<open>Identity\<close>

type_synonym files = "string list \<rightharpoonup> bytes"

text \<open>The Ed25519 keys of the library: their 64 bytes, and back.\<close>

record 'sk key_codec =
  kc_to_bytes :: "'sk \<Rightarrow> bytes"
  kc_from_bytes :: "bytes \<Rightarrow> 'sk option"

datatype identity_error = KeypairSize nat | KeypairInvalid

definition keypair_path :: "string \<Rightarrow> string list" where "keypair_path dir = [dir, ''identity'', ''keypair.bin'']"
definition peer_id_path :: "string \<Rightarrow> string list" where "peer_id_path dir = [dir, ''identity'', ''peer_id'']"

text \<open>\<open>new_key\<close> is the key the library would generate.\<close>

definition load_or_create ::
  "'sk key_codec \<Rightarrow> ('sk, 'pk, 'p) identities \<Rightarrow> 'sk \<Rightarrow> string \<Rightarrow> files \<Rightarrow> (identity_error, 'sk \<times> 'p) result \<times> files" where
  "load_or_create C K new_key dir files =
     (let finish = (\<lambda>keypair files. let peer_id = id_to_peer_id K (id_public K keypair)
            in (Inr (keypair, peer_id), files(peer_id_path dir \<mapsto> text_bytes (id_to_base58 K peer_id))))
      in case files (keypair_path dir) of
           Some content \<Rightarrow>
             if length content \<noteq> 64 then (Inl (Err (KeypairSize (length content))), files)
             else (case kc_from_bytes C content of
                     None \<Rightarrow> (Inl (Err KeypairInvalid), files)
                   | Some keypair \<Rightarrow> finish keypair files)
         | None \<Rightarrow> finish new_key (files(keypair_path dir \<mapsto> kc_to_bytes C new_key)))"

text \<open>A node keeps its identity: whatever key the library would generate at a later start, the node gets
  the key pair and the peer id of the first one, and the file with the peer id stays right.
\<close>

theorem identity_persists:
  assumes "\<And>sk. length (kc_to_bytes C sk) = 64" and "\<And>sk. kc_from_bytes C (kc_to_bytes C sk) = Some sk"
    and "load_or_create C K new_key dir files = (Inr (keypair, peer_id), files')"
    and "\<And>path. path \<noteq> peer_id_path dir \<Longrightarrow> later path = files' path"
  shows "load_or_create C K newer dir later = (Inr (keypair, peer_id),
      later(peer_id_path dir \<mapsto> text_bytes (id_to_base58 K peer_id)))"
proof -
  have "keypair_path dir \<noteq> peer_id_path dir" by (simp add: keypair_path_def peer_id_path_def)
  moreover have "files' (keypair_path dir) \<noteq> None \<and> length (the (files' (keypair_path dir))) = 64
      \<and> kc_from_bytes C (the (files' (keypair_path dir))) = Some keypair \<and> peer_id = id_to_peer_id K (id_public K keypair)"
    using assms(1-3) calculation
    by (auto simp: load_or_create_def Let_def split: option.splits if_splits)
  ultimately show ?thesis using assms(4) [of "keypair_path dir"] by (auto simp: load_or_create_def Let_def)
qed

definition bool_codec :: "bool key_codec" where
  "bool_codec = \<lparr>kc_to_bytes = (\<lambda>b. replicate 64 (if b then 1 else 0)), kc_from_bytes = (\<lambda>bs. Some (hd bs = 1))\<rparr>"

definition bool_ids :: "(bool, bool, bool) identities" where
  "bool_ids = \<lparr>id_public = (\<lambda>sk. sk), id_sign = (\<lambda>_ m. Some m), id_verify = (\<lambda>_ m sig. m = sig),
     id_encode_protobuf = (\<lambda>pk. [if pk then 1 else 0]), id_decode_protobuf = (\<lambda>bs. Some (bs = [1])),
     id_to_peer_id = (\<lambda>pk. pk), id_to_base58 = (\<lambda>p. if p then ''Y'' else ''N''), id_parse_peer_id = (\<lambda>s. Some (s = ''Y'')),
     id_unhex = unhex, id_blake2b = (\<lambda>bs. bs)\<rparr>"

theorem identity_persists_witness:
  "load_or_create bool_codec bool_ids False ''data'' (snd (load_or_create bool_codec bool_ids True ''data'' Map.empty))
     = (Inr (True, True), (snd (load_or_create bool_codec bool_ids True ''data'' Map.empty))
          (peer_id_path ''data'' \<mapsto> text_bytes ''Y''))"
proof -
  have "load_or_create bool_codec bool_ids True ''data'' Map.empty
      = (Inr (True, True), snd (load_or_create bool_codec bool_ids True ''data'' Map.empty))"
    by (simp add: load_or_create_def bool_ids_def Let_def)
  from identity_persists [OF _ _ this refl, of False] show ?thesis by (simp add: bool_codec_def bool_ids_def)
qed

end
