(* ===== verification/Daemon.thy ===== *)
theory Daemon
  imports Node_Config Node_Rpc Challenge_Monitor
begin

text \<open>
  The storage node daemon as a whole (\<open>src/apps/storage-node/src/main.rs\<close>): its start from a
  configuration and its event loop. The state is made of the states of the parts; one step is one arm
  of the loop, a request the HTTP server handles beside it, or the end of a spawned declaration. What
  happens between two steps, and in which order the arms fire, is left open.
\<close>

subsection \<open>State and start\<close>

record 'p daemon =
  dm_rpc :: rpc_state
  dm_peers :: "'p set"
  dm_client :: chain_client
  dm_node_cache :: storage_node_cache
  dm_gc :: garbage_collector
  dm_monitor :: challenge_monitor
  dm_polls :: nat
  dm_declaring :: "hash256 list" \<comment> \<open>declarations spawned and not finished\<close>

text \<open>\<open>db\<close> is the database in the data directory. The endpoint cache expects the chain id of a development chain.\<close>

definition daemon_start ::
  "(string \<Rightarrow> bytes option) \<Rightarrow> connector \<Rightarrow> sr25519 \<Rightarrow> nat \<Rightarrow> config \<Rightarrow> fragment_store \<Rightarrow> (chain_error, 'p daemon) result" where
  "daemon_start hex connect K now cfg db =
     (let store = open_store (cf_capacity cfg) (cf_verify_on_read cfg) db;
          metrics = set_capacity_total (word_of_nat (cf_capacity cfg)) metrics_new;
          cache = endpoint_cache_new (replicate 32 0)
      in bind_ok (chain_client_new hex connect now (cf_chain_url cfg) (cf_declare_rate_limit cfg) (cf_signer_seed cfg)
           failover_new cache) (\<lambda>client.
         Inr \<lparr>dm_rpc = \<lparr>st_store = store, st_metrics = metrics\<rparr>, dm_peers = {}, dm_client = client, dm_node_cache = Map.empty,
              dm_gc = gc_new (cf_dev_mode cfg), dm_monitor = monitor_new (signer_account_id K client), dm_polls = 0,
              dm_declaring = []\<rparr>))"

subsection \<open>The arm of the network\<close>

definition network_of :: "'p daemon \<Rightarrow> 'p network_state" where
  "network_of D = \<lparr>ns_connected = dm_peers D, ns_store = st_store (dm_rpc D), ns_client = dm_client D\<rparr>"

definition with_network :: "'p network_state \<Rightarrow> 'p daemon \<Rightarrow> 'p daemon" where
  "with_network N D = D\<lparr>dm_peers := ns_connected N, dm_rpc := (dm_rpc D)\<lparr>st_store := ns_store N\<rparr>, dm_client := ns_client N\<rparr>"

definition learn_endpoint :: "url_parser \<Rightarrow> nat \<Rightarrow> blockchain_endpoint \<Rightarrow> chain_client \<Rightarrow> chain_client" where
  "learn_endpoint parse now e c = c\<lparr>cc_endpoint_cache := snd (endpoint_cache_insert parse now e (cc_endpoint_cache c))\<rparr>"

definition react :: "url_parser \<Rightarrow> nat \<Rightarrow> 'p network_event option \<Rightarrow> 'p daemon \<Rightarrow> 'p daemon" where
  "react parse now event D = (case event of
       Some (FragmentStoredEvent fid) \<Rightarrow> D\<lparr>dm_declaring := dm_declaring D @ [fid]\<rparr>
     | Some (EndpointUpdate source es) \<Rightarrow> D\<lparr>dm_client := fold (learn_endpoint parse now) es (dm_client D)\<rparr>
     | Some (StorageNodeUpdate source ns) \<Rightarrow>
         D\<lparr>dm_node_cache := fold (\<lambda>n C. snd (node_cache_insert parse now n C)) ns (dm_node_cache D)\<rparr>
     | _ \<Rightarrow> D)"

definition network_arm where
  "network_arm E parse now connect fetch event D =
     (let (r, response, N) = handle_event E now connect fetch event (network_of D); D' = with_network N D
      in case r of Inr ev \<Rightarrow> react parse now ev D' | Inl _ \<Rightarrow> D')"

text \<open>
  Each turn of the loop waits for the first arm to be ready and drops the others. A handler of an event
  that is suspended then, waiting for the chain or for the disk, is not resumed: what it had begun to do
  to the store and to the client is done, but the peer gets no response and the loop no event.
\<close>

definition network_cancelled where
  "network_cancelled E now connect fetch event D =
     with_network (snd (snd (handle_event E now connect fetch event (network_of D)))) D"

definition network_abandoned where
  "network_abandoned connect fetch fid D = D\<lparr>dm_client := snd (fragment_exists connect fetch fid (dm_client D))\<rparr>"

subsection \<open>The other arms\<close>

definition rpc_arm where
  "rpc_arm NE cfg now headers request D =
     D\<lparr>dm_rpc := snd (handle_rpc NE (cf_auth_enabled cfg) now headers request (dm_rpc D))\<rparr>"

definition heartbeat_arm where
  "heartbeat_arm K post W now cfg D =
     D\<lparr>dm_client := snd (register_with_blockchain K post W now (advertised_url cfg) (dm_client D))\<rparr>"

text \<open>The arm that announces storage nodes: the bytes for the transport, when there is something to tell.\<close>

definition announce_arm ::
  "('sk, 'pk, 'p) identities \<Rightarrow> (storage_node_endpoint gossip_message \<Rightarrow> bytes option) \<Rightarrow> 'sk \<Rightarrow> string list \<Rightarrow> nat
     \<Rightarrow> 'p daemon \<Rightarrow> bytes option" where
  "announce_arm ids to_bytes keypair urls now D =
     (let nodes = get_healthy_by_latency urls now (dm_node_cache D)
      in if nodes = [] then None else broadcast_storage_nodes ids to_bytes keypair now nodes)"

definition gc_arm where
  "gc_arm post order now later D =
     (let (G, s) = gc_tick post (dm_client D) order now later (dm_gc D, st_store (dm_rpc D))
      in D\<lparr>dm_gc := G, dm_rpc := (dm_rpc D)\<lparr>st_store := s\<rparr>\<rparr>)"

definition touch_arm :: "'p daemon \<Rightarrow> 'p daemon" where
  "touch_arm D = D\<lparr>dm_rpc := (dm_rpc D)\<lparr>st_store := touch_tick (st_store (dm_rpc D))\<rparr>\<rparr>"

definition challenge_arm where
  "challenge_arm C P submit order connect at_latest D =
     (let (M, polls, c) = challenge_tick C P submit order connect at_latest (dm_monitor D, dm_polls D, dm_client D)
      in D\<lparr>dm_monitor := M, dm_polls := polls, dm_client := c\<rparr>)"

definition declare_done where
  "declare_done connect submit now fid D =
     D\<lparr>dm_client := snd (declare_holding connect submit now fid (dm_client D)), dm_declaring := remove1 fid (dm_declaring D)\<rparr>"

text \<open>
  The state behind the submitter of proofs is the client. The arm for excess holders runs
  \<^const>\<open>run_cycle\<close>, which changes nothing; neither does the one that announces storage nodes.
\<close>

inductive daemon_step ::
  "('sk, 'pk, 'p) network_env \<Rightarrow> 'j node_rpc_env \<Rightarrow> url_parser \<Rightarrow> sr25519 \<Rightarrow> config
     \<Rightarrow> ('f::field, 'poly, 'g, 'h, 't, 'm) curve_ops_scheme \<Rightarrow> ('g, 'h) prover \<Rightarrow> 'p daemon \<Rightarrow> 'p daemon \<Rightarrow> bool"
  for E :: "('sk, 'pk, 'p) network_env" and NE :: "'j node_rpc_env" and parse :: url_parser and K :: sr25519
    and cfg :: config and C :: "('f::field, 'poly, 'g, 'h, 't, 'm) curve_ops_scheme" and P :: "('g, 'h) prover" where
  on_network: "daemon_step E NE parse K cfg C P D (network_arm E parse now connect fetch event D)"
| on_cancelled: "daemon_step E NE parse K cfg C P D (network_cancelled E now connect fetch event D)"
| on_abandoned: "daemon_step E NE parse K cfg C P D (network_abandoned connect fetch fid D)"
| on_rpc: "daemon_step E NE parse K cfg C P D (rpc_arm NE cfg now headers request D)"
| on_heartbeat: "daemon_step E NE parse K cfg C P D (heartbeat_arm K post W now cfg D)"
| on_gc: "daemon_step E NE parse K cfg C P D (gc_arm post' order now later D)"
| on_touch: "daemon_step E NE parse K cfg C P D (touch_arm D)"
| on_challenge: "daemon_step E NE parse K cfg C P D (challenge_arm C P submit keys connect at_latest D)"
| on_declared: "fid \<in> set (dm_declaring D) \<Longrightarrow> daemon_step E NE parse K cfg C P D (declare_done connect submit' now fid D)"

inductive daemon_reachable ::
  "('sk, 'pk, 'p) network_env \<Rightarrow> 'j node_rpc_env \<Rightarrow> url_parser \<Rightarrow> sr25519 \<Rightarrow> config
     \<Rightarrow> ('f::field, 'poly, 'g, 'h, 't, 'm) curve_ops_scheme \<Rightarrow> ('g, 'h) prover \<Rightarrow> 'p daemon \<Rightarrow> bool"
  for E :: "('sk, 'pk, 'p) network_env" and NE :: "'j node_rpc_env" and parse :: url_parser and K :: sr25519
    and cfg :: config and C :: "('f::field, 'poly, 'g, 'h, 't, 'm) curve_ops_scheme" and P :: "('g, 'h) prover" where
  started: "daemon_start hex connect K now cfg empty_db = Inr D \<Longrightarrow> daemon_reachable E NE parse K cfg C P D"
| stepped: "daemon_reachable E NE parse K cfg C P D \<Longrightarrow> daemon_step E NE parse K cfg C P D D'
    \<Longrightarrow> daemon_reachable E NE parse K cfg C P D'"
| restarted: "daemon_reachable E NE parse K cfg C P D \<Longrightarrow> daemon_start hex connect K now cfg (st_store (dm_rpc D)) = Inr D'
    \<Longrightarrow> daemon_reachable E NE parse K cfg C P D'"


subsection \<open>The invariant\<close>

definition node_cache_ok :: "url_parser \<Rightarrow> storage_node_cache \<Rightarrow> bool" where
  "node_cache_ok parse C \<longleftrightarrow>
     (\<forall>u entry. C u = Some entry \<longrightarrow> validate_endpoint_url parse u = Inr () \<and> \<not> se_health_checked entry)"

definition client_ok :: "url_parser \<Rightarrow> sr25519 \<Rightarrow> config \<Rightarrow> chain_client \<Rightarrow> bool" where
  "client_ok parse K cfg c \<longleftrightarrow> client_reachable parse K (cf_chain_url cfg) c \<and> endpoint_cache_ok parse (cc_endpoint_cache c)
     \<and> ec_expected_chain_id (cc_endpoint_cache c) = replicate 32 0"

definition daemon_inv :: "(bytes \<Rightarrow> hash256) \<Rightarrow> url_parser \<Rightarrow> sr25519 \<Rightarrow> config \<Rightarrow> 'p daemon \<Rightarrow> bool" where
  "daemon_inv H parse K cfg D \<longleftrightarrow>
     store_reachable H (cf_capacity cfg) (cf_verify_on_read cfg) (st_store (dm_rpc D))
     \<and> client_ok parse K cfg (dm_client D) \<and> node_cache_ok parse (dm_node_cache D)
     \<and> cm_pending (dm_monitor D) = Map.empty \<and> dm_polls D < cleanup_every"

text \<open>The calls of the loop leave the cache of endpoints alone.\<close>

lemma ensure_cache: "ensure_subxt_client connect c = (r, c') \<Longrightarrow> cc_endpoint_cache c' = cc_endpoint_cache c"
  by (auto simp: ensure_subxt_client_def split: option.splits if_splits)

lemma fragment_exists_cache: "fragment_exists connect fetch fid c = (r, c') \<Longrightarrow> cc_endpoint_cache c' = cc_endpoint_cache c"
  by (auto simp: fragment_exists_def dest: ensure_cache split: prod.splits sum.splits)

lemma latest_block_cache: "latest_block_number connect at_latest c = (r, c') \<Longrightarrow> cc_endpoint_cache c' = cc_endpoint_cache c"
  by (auto simp: latest_block_number_def dest: ensure_cache split: prod.splits sum.splits)

lemma declare_cache: "declare_holding connect submit now fid c = (r, c') \<Longrightarrow> cc_endpoint_cache c' = cc_endpoint_cache c"
  by (auto simp: declare_holding_def rate_limited_def unit_result_def submit_storage_extrinsic_def report_success_def
      dest!: ensure_cache split: prod.splits sum.splits bool.splits submission.splits)

lemma report_failure_cache:
  assumes "client_inv endpoint c" and "report_failure connect urls now c = (new, c')"
  shows "cc_endpoint_cache c' = cc_endpoint_cache c \<and> new = None"
proof -
  have "fst (report_failure connect urls now c) = None" by (rule failure_without_standbys(1) [OF assms(1)])
  with assms(2) show ?thesis by (auto simp: report_failure_def Let_def split: prod.splits if_splits)
qed

lemma register_cache:
  assumes "client_inv endpoint c" and "register_with_blockchain K post W now u c = (r, c')"
  shows "cc_endpoint_cache c' = cc_endpoint_cache c"
proof -
  have "register_loop post W q (Suc n) c = (r, c') \<Longrightarrow> ?thesis" for q n
    by (auto simp: report_success_def dest: report_failure_cache [OF assms(1)]
        split: option.splits http_answer.splits prod.splits)
  then show ?thesis using assms(2) unfolding register_with_blockchain_def max_retries_def by (simp only: numeral_3_eq_3)
qed

lemma client_okI:
  assumes "client_ok parse K cfg c" and "client_step parse K c c'" and "cc_endpoint_cache c' = cc_endpoint_cache c"
  shows "client_ok parse K cfg c'"
  using assms client_more unfolding client_ok_def by metis

lemma client_ok_inv: "client_ok parse K cfg c \<Longrightarrow> client_inv (cf_chain_url cfg) c"
  unfolding client_ok_def by (rule client_reachable_inv [OF conjunct1])

lemma client_ok_calls:
  assumes "client_ok parse K cfg c"
  shows "client_ok parse K cfg (snd (fragment_exists connect fetch fid c))"
    and "client_ok parse K cfg (snd (latest_block_number connect at_latest c))"
    and "client_ok parse K cfg (snd (declare_holding connect submit now fid c))"
    and "client_ok parse K cfg (snd (register_with_blockchain K post W now u c))"
proof -
  note intro = client_okI [OF assms]
  show "client_ok parse K cfg (snd (fragment_exists connect fetch fid c))"
    by (rule intro) (auto intro: client_step.intros fragment_exists_cache simp: prod_eq_iff)
  show "client_ok parse K cfg (snd (latest_block_number connect at_latest c))"
    by (rule intro) (auto intro: client_step.intros latest_block_cache simp: prod_eq_iff)
  show "client_ok parse K cfg (snd (declare_holding connect submit now fid c))"
    by (rule intro) (auto intro: client_step.intros declare_cache simp: prod_eq_iff)
  show "client_ok parse K cfg (snd (register_with_blockchain K post W now u c))"
    by (rule intro) (auto intro: client_step.intros register_cache [OF client_ok_inv [OF assms]] simp: prod_eq_iff)
qed

lemma learn_endpoint_ok: "client_ok parse K cfg c \<Longrightarrow> client_ok parse K cfg (learn_endpoint parse now e c)"
proof -
  assume c: "client_ok parse K cfg c"
  have "client_step parse K c (learn_endpoint parse now e c)" unfolding learn_endpoint_def by (rule client_step.intros) (rule refl)
  then have "client_reachable parse K (cf_chain_url cfg) (learn_endpoint parse now e c)"
    using c client_more by (auto simp: client_ok_def)
  moreover have "ec_expected_chain_id (snd (endpoint_cache_insert parse now e C)) = ec_expected_chain_id C" for C
    by (simp add: endpoint_cache_insert_def split: sum.splits)
  ultimately show "client_ok parse K cfg (learn_endpoint parse now e c)"
    using c endpoint_cache_ok_steps(1) by (simp add: client_ok_def learn_endpoint_def)
qed

lemma fold_keeps: "Q x \<Longrightarrow> (\<And>y x. Q x \<Longrightarrow> Q (f y x)) \<Longrightarrow> Q (fold f ys x)"
  by (induction ys arbitrary: x) simp_all

lemma node_cache_insert_ok: "node_cache_ok parse C \<Longrightarrow> node_cache_ok parse (snd (node_cache_insert parse now n C))"
  by (auto simp: node_cache_ok_def node_cache_insert_def split: sum.splits)

lemma handle_request_reachable:
  assumes "store_reachable H cap v s" and "handle_request H now connect fetch request (s, c) = (r, s', c')"
  shows "store_reachable H cap v s' \<and> (c' = c \<or> (\<exists>fid. c' = snd (fragment_exists connect fetch fid c)))"
proof (cases request)
  case (FragmentGet fid)
  then show ?thesis using assms store_more [OF assms(1) step_retrieve]
    by (auto simp: handle_request_def split: sum.splits)
next
  case (FragmentPut fid data)
  obtain e c1 where f: "fragment_exists connect fetch fid c = (e, c1)" by fastforce
  then have c1: "c1 = snd (fragment_exists connect fetch fid c)" by simp
  have h: "handle_request H now connect fetch request (s, c) = (r, s', c')" by (rule assms(2))
  show ?thesis
  proof (cases e)
    case (Inr b)
    show ?thesis
    proof (cases "b \<and> (\<exists>s1. store H now fid data s = Inr s1)")
      case True
      then obtain s1 where s1: "b" "store H now fid data s = Inr s1" by blast
      then have "s' = s1" "c' = c1" using h f Inr FragmentPut by (simp_all add: handle_request_def)
      with c1 store_more [OF assms(1) step_store [OF s1(2)]] show ?thesis by blast
    next
      case False
      then have "s' = s" "c' = c1"
        using h f Inr FragmentPut by (auto simp: handle_request_def split: sum.splits bool.splits)
      with c1 assms(1) show ?thesis by blast
    qed
  next
    case (Inl x)
    then have "s' = s" "c' = c1" using h f FragmentPut by (simp_all add: handle_request_def)
    with c1 assms(1) show ?thesis by blast
  qed
qed

lemma gc_tick_reachable:
  assumes "store_reachable H cap v s" and "gc_tick post c order now later (G, s) = (G', s')"
  shows "store_reachable H cap v s'"
proof -
  have *: "store_reachable H cap v (snd (fold (collect_one t) hs x))" if "store_reachable H cap v (snd x)" for t hs x
    using that
  proof (rule fold_keeps [where Q = "\<lambda>x. store_reachable H cap v (snd x)"])
    fix h and y :: "garbage_collector \<times> fragment_store"
    assume y: "store_reachable H cap v (snd y)"
    obtain ok s1 where d: "delete h (snd y) = (ok, s1)" by fastforce
    from store_more [OF y step_delete [OF d]] y d show "store_reachable H cap v (snd (collect_one t h y))"
      by (auto simp: collect_one_def split: prod.splits bool.splits)
  qed
  have "s' = snd (gc_tick post c order now later (G, s))" using assms(2) by simp
  also have "store_reachable H cap v \<dots>" unfolding gc_tick_def case_prod_conv Let_def by (rule *) (simp add: assms(1))
  finally show ?thesis .
qed

lemma touch_tick_reachable:
  assumes "store_reachable H cap v s"
  shows "store_reachable H cap v (touch_tick s)"
proof -
  have f: "store_reachable H cap v (snd (flush_touch_buffer s))"
    by (rule store_more [OF assms step_flush]) (simp add: prod_eq_iff)
  then have "store_reachable H cap v (fst (evict_lru target (snd (flush_touch_buffer s))))" for target
    by (rule store_more [OF _ step_evict]) (simp add: prod_eq_iff)
  with f show ?thesis by (simp add: touch_tick_def Let_def)
qed


lemma network_cancelled_inv:
  assumes "daemon_inv (nw_hash E) parse K cfg D"
  shows "daemon_inv (nw_hash E) parse K cfg (network_cancelled E now connect fetch event D)"
proof -
  obtain r response N where e: "handle_event E now connect fetch event (network_of D) = (r, response, N)" by (metis prod_cases3)
  have "store_reachable (nw_hash E) (cf_capacity cfg) (cf_verify_on_read cfg) (ns_store N) \<and> client_ok parse K cfg (ns_client N)"
  proof (cases "\<exists>p request. event = RequestReceived p request")
    case True
    then obtain p request where ev: "event = RequestReceived p request" by blast
    obtain r1 s c where h: "handle_request (nw_hash E) now connect fetch request (st_store (dm_rpc D), dm_client D) = (r1, s, c)"
      by (metis prod_cases3)
    have "ns_store N = s" "ns_client N = c"
      using e h ev by (auto simp: handle_event_def network_of_def Let_def split: sum.splits)
    moreover have "client_ok parse K cfg (dm_client D)"
      "store_reachable (nw_hash E) (cf_capacity cfg) (cf_verify_on_read cfg) (st_store (dm_rpc D))"
      using assms by (simp_all add: daemon_inv_def)
    ultimately show ?thesis using handle_request_reachable [OF _ h] client_ok_calls(1) by metis
  next
    case False
    then have "ns_store N = ns_store (network_of D)" "ns_client N = ns_client (network_of D)"
      using e by (auto simp: handle_event_def split: swarm_event.splits)
    then show ?thesis using assms by (simp add: daemon_inv_def network_of_def)
  qed
  then show ?thesis using assms e by (simp add: daemon_inv_def with_network_def network_cancelled_def)
qed

lemma network_arm_inv:
  assumes "daemon_inv (nw_hash E) parse K cfg D"
  shows "daemon_inv (nw_hash E) parse K cfg (network_arm E parse now connect fetch event D)"
proof -
  obtain r response N where e: "handle_event E now connect fetch event (network_of D) = (r, response, N)" by (metis prod_cases3)
  have inv: "daemon_inv (nw_hash E) parse K cfg (with_network N D)"
    using network_cancelled_inv [OF assms, of now connect fetch event] e by (simp add: network_cancelled_def)
  have "daemon_inv (nw_hash E) parse K cfg (react parse now ev (with_network N D))" for ev
  proof -
    have "client_ok parse K cfg (fold (learn_endpoint parse now) es c)" if "client_ok parse K cfg c" for es c
      using that by (rule fold_keeps) (rule learn_endpoint_ok)
    moreover have "node_cache_ok parse (fold (\<lambda>n C. snd (node_cache_insert parse now n C)) ns C)" if "node_cache_ok parse C" for ns C
      using that by (rule fold_keeps [where Q = "node_cache_ok parse"]) (rule node_cache_insert_ok)
    ultimately show ?thesis
      using inv by (auto simp: react_def daemon_inv_def split: option.splits network_event.splits)
  qed
  then show ?thesis using e inv by (simp add: network_arm_def Let_def split: sum.splits)
qed

lemma rpc_arm_inv:
  assumes "daemon_inv (content_name NE) parse K cfg D"
  shows "daemon_inv (content_name NE) parse K cfg (rpc_arm NE cfg now headers request D)"
proof -
  have "store_reachable (content_name NE) (cf_capacity cfg) (cf_verify_on_read cfg)
      (st_store (snd (handle_rpc NE (cf_auth_enabled cfg) now headers request (dm_rpc D))))"
    using handle_rpc_effect [of NE "dm_rpc D" "cf_auth_enabled cfg" now headers request] assms
    unfolding rpc_effect_def daemon_inv_def by (metis store_more step_store step_retrieve)
  then show ?thesis using assms by (simp add: daemon_inv_def rpc_arm_def)
qed

lemma challenge_arm_inv:
  assumes "daemon_inv H parse K cfg D"
  shows "daemon_inv H parse K cfg (challenge_arm C P submit keys connect at_latest D)"
proof -
  have "cm_pending (dm_monitor D) = Map.empty" "dm_polls D < cleanup_every" using assms by (simp_all add: daemon_inv_def)
  from idle_tick [OF this] obtain queries where
    t: "challenge_tick C P submit keys connect at_latest (dm_monitor D, dm_polls D, dm_client D)
      = (dm_monitor D, if dm_polls D + 1 = cleanup_every then 0 else dm_polls D + 1,
         fold (\<lambda>(connect, at_latest) c. snd (latest_block_number connect at_latest c)) queries (dm_client D))" by blast
  have "client_ok parse K cfg (fold (\<lambda>(connect, at_latest) c. snd (latest_block_number connect at_latest c)) queries (dm_client D))"
    by (rule fold_keeps) (use assms client_ok_calls(2) in \<open>auto simp: daemon_inv_def split: prod.split\<close>)
  then show ?thesis
    using assms t by (auto simp: challenge_arm_def daemon_inv_def cleanup_every_def)
qed

lemma daemon_step_inv:
  assumes "daemon_inv (content_name NE) parse K cfg D" and "daemon_step E NE parse K cfg C P D D'"
    and "nw_hash E = content_name NE"
  shows "daemon_inv (content_name NE) parse K cfg D'"
  using assms(2)
proof (cases rule: daemon_step.cases)
  case (on_network now connect fetch event)
  then show ?thesis using network_arm_inv [of E] assms(1, 3) by metis
next
  case (on_cancelled now connect fetch event)
  then show ?thesis using network_cancelled_inv [of E] assms(1, 3) by metis
next
  case (on_abandoned connect fetch fid)
  then show ?thesis using assms(1) client_ok_calls(1) by (auto simp: network_abandoned_def daemon_inv_def)
next
  case (on_rpc now headers request)
  then show ?thesis using rpc_arm_inv [OF assms(1)] by simp
next
  case (on_heartbeat post W now)
  then show ?thesis using assms(1) client_ok_calls(4) by (auto simp: heartbeat_arm_def daemon_inv_def)
next
  case (on_gc post' order now later)
  obtain G s where g: "gc_tick post' (dm_client D) order now later (dm_gc D, st_store (dm_rpc D)) = (G, s)" by fastforce
  then show ?thesis using on_gc assms(1) gc_tick_reachable [OF _ g] by (auto simp: gc_arm_def daemon_inv_def)
next
  case on_touch
  then show ?thesis using assms(1) touch_tick_reachable by (auto simp: touch_arm_def daemon_inv_def)
next
  case (on_challenge submit keys connect at_latest)
  then show ?thesis using challenge_arm_inv [OF assms(1)] by simp
next
  case (on_declared fid connect submit' now)
  then show ?thesis using assms(1) client_ok_calls(3) by (auto simp: declare_done_def daemon_inv_def)
qed

lemma daemon_start_inv:
  assumes "daemon_start hex connect K now cfg db = Inr D"
    and "store_reachable H (cf_capacity cfg) (cf_verify_on_read cfg) (open_store (cf_capacity cfg) (cf_verify_on_read cfg) db)"
  shows "daemon_inv H parse K cfg D"
proof -
  let ?cache = "endpoint_cache_new (replicate 32 0)"
  obtain client where c: "chain_client_new hex connect now (cf_chain_url cfg) (cf_declare_rate_limit cfg) (cf_signer_seed cfg)
      failover_new ?cache = Inr client" "dm_client D = client" "cm_pending (dm_monitor D) = Map.empty" "dm_polls D = 0"
      "dm_node_cache D = Map.empty" "st_store (dm_rpc D) = open_store (cf_capacity cfg) (cf_verify_on_read cfg) db"
    using assms(1) by (auto simp: daemon_start_def result_simps monitor_new_def Let_def)
  have "client_reachable parse K (cf_chain_url cfg) client" by (rule client_start [OF c(1)])
  moreover have "cc_endpoint_cache client = ?cache" using c(1) by (auto simp: chain_client_new_def bind_from_Inr Let_def)
  ultimately show ?thesis
    using c assms(2) by (simp add: daemon_inv_def client_ok_def endpoint_cache_ok_new node_cache_ok_def cleanup_every_def)
      (simp add: endpoint_cache_new_def)
qed

lemma daemon_reachable_inv:
  assumes "daemon_reachable E NE parse K cfg C P D" and "nw_hash E = content_name NE"
  shows "daemon_inv (content_name NE) parse K cfg D"
  using assms(1)
proof (induction rule: daemon_reachable.induct)
  case (started hex connect now D)
  then show ?case by (rule daemon_start_inv) (rule store_opened)
next
  case (stepped D D')
  then show ?case using daemon_step_inv [OF _ _ assms(2)] by blast
next
  case (restarted D hex connect now D')
  from restarted(3) [unfolded daemon_inv_def] store_reopened show ?case
    by (intro daemon_start_inv [OF restarted(2)]) blast
qed

text \<open>
  A fragment a peer puts is queued for a declaration on the chain, unless the handler was cancelled
  after the store took it: then the daemon holds a fragment nobody will declare.
\<close>

lemma put_may_stay_undeclared:
  assumes "fragment_exists connect fetch fid (dm_client D) = (Inr True, c)"
    and "store (nw_hash E) now fid data (st_store (dm_rpc D)) = Inr s"
  shows "dm_declaring (network_arm E parse now connect fetch (RequestReceived p (FragmentPut fid data)) D) = dm_declaring D @ [fid]"
    and "st_store (dm_rpc (network_arm E parse now connect fetch (RequestReceived p (FragmentPut fid data)) D)) = s"
    and "dm_declaring (network_cancelled E now connect fetch (RequestReceived p (FragmentPut fid data)) D) = dm_declaring D"
    and "st_store (dm_rpc (network_cancelled E now connect fetch (RequestReceived p (FragmentPut fid data)) D)) = s"
  using assms by (simp_all add: network_arm_def network_cancelled_def handle_event_def handle_request_def network_of_def
      with_network_def react_def Let_def)

text \<open>C2: Whatever requests, messages of peers, answers of chain nodes, timers, cancelled handlers and restarts a
  daemon sees, in whatever order: it never holds more bytes than its configured capacity, every fragment it holds has
  metadata with its size and content hash, its connection is to the configured chain node and shows
  the genesis hash it is pinned to, and the URLs it remembers have all passed the check of URLs.
\<close>

theorem daemon_invariant:
  assumes "daemon_reachable E NE parse K cfg C P D" and "nw_hash E = content_name NE" and "cf_capacity cfg \<le> u64_max"
  shows "fs_used (st_store (dm_rpc D)) \<le> cf_capacity cfg
    \<and> fs_used (st_store (dm_rpc D)) = table_bytes (fs_fragments (st_store (dm_rpc D))) + table_bytes (fs_posts (st_store (dm_rpc D)))
    \<and> (\<forall>k b. stored (st_store (dm_rpc D)) k = Some b \<longrightarrow> (\<exists>m. meta_of (st_store (dm_rpc D)) k = Some m
          \<and> md_size m = length b \<and> md_data_hash m = be_value (ne_blake2b NE b)))
    \<and> (\<forall>u g. cc_subxt_client (dm_client D) = Some (u, g) \<longrightarrow> u = cf_chain_url cfg \<and> cc_expected_genesis (dm_client D) = Some g)
    \<and> (\<forall>u. ec_entries (cc_endpoint_cache (dm_client D)) u \<noteq> None \<longrightarrow> validate_gossip_url parse [''ws'', ''wss''] u = Inr ())
    \<and> (\<forall>u. dm_node_cache D u \<noteq> None \<longrightarrow> validate_gossip_url parse [''http'', ''https''] u = Inr ())"
proof -
  have inv: "daemon_inv (content_name NE) parse K cfg D" by (rule daemon_reachable_inv [OF assms(1, 2)])
  then have r: "store_reachable (content_name NE) (cf_capacity cfg) (cf_verify_on_read cfg) (st_store (dm_rpc D))"
    and c: "client_ok parse K cfg (dm_client D)" and n: "node_cache_ok parse (dm_node_cache D)"
    by (simp_all add: daemon_inv_def)
  have s: "store_inv (content_name NE) (st_store (dm_rpc D))" by (rule store_inv_reachable [OF r assms(3)])
  have "\<exists>m. meta_of (st_store (dm_rpc D)) k = Some m \<and> md_size m = length b \<and> md_data_hash m = content_name NE b"
    if "stored (st_store (dm_rpc D)) k = Some b" for k b
    using entry_ok_Some stored_meta [OF s, of k] that by force
  then show ?thesis
    using s store_reachable_capacity [OF r] client_ok_inv [OF c] c n
    by (auto simp: store_inv_def client_inv_def client_ok_def endpoint_cache_ok_def node_cache_ok_def validate_endpoint_url_def
        content_name_def)
qed

text \<open>C16: In a running daemon several services never do anything: no storage node is ever announced to the
  peers, no challenge is ever pending, so no proof is submitted, no standby chain node is ever found,
  so no failure ends in a failover, and an endpoint of a chain whose id is not all zeros is not taken over.
\<close>

theorem daemon_idle_services:
  assumes "daemon_reachable E NE parse K cfg C P D" and "nw_hash E = content_name NE"
  shows "announce_arm ids to_bytes keypair urls now D = None \<and> pending_count (dm_monitor D) = 0
    \<and> standby_count (cc_failover (dm_client D)) = 0 \<and> active_endpoint (dm_client D) = Some (cf_chain_url cfg)
    \<and> fst (report_failure connect urls now (dm_client D)) = None
    \<and> (\<forall>e. be_chain_id e \<noteq> replicate 32 0 \<longrightarrow> learn_endpoint parse now e (dm_client D) = dm_client D)"
proof -
  have inv: "daemon_inv (content_name NE) parse K cfg D" by (rule daemon_reachable_inv [OF assms])
  then have c: "client_ok parse K cfg (dm_client D)" and n: "node_cache_ok parse (dm_node_cache D)"
    and m: "cm_pending (dm_monitor D) = Map.empty" by (simp_all add: daemon_inv_def)
  have "\<forall>entry \<in> ran (dm_node_cache D). \<not> se_health_checked entry" using n by (auto simp: node_cache_ok_def ran_def)
  then have "announce_arm ids to_bytes keypair urls now D = None" using never_healthy(1) by (simp add: announce_arm_def)
  moreover have "learn_endpoint parse now e (dm_client D) = dm_client D" if "be_chain_id e \<noteq> replicate 32 0" for e
    using c that by (simp add: learn_endpoint_def endpoint_cache_insert_def client_ok_def split: sum.split)
  moreover have "fst (report_failure connect urls now (dm_client D)) = None"
    by (rule failure_without_standbys(1) [OF client_ok_inv [OF c]])
  moreover have "pending_count (dm_monitor D) = 0" using m by (simp add: pending_count_def)
  moreover have "standby_count (cc_failover (dm_client D)) = 0" "active_endpoint (dm_client D) = Some (cf_chain_url cfg)"
    using client_ok_inv [OF c] by (simp_all add: client_inv_def standby_count_def)
  ultimately show ?thesis by blast
qed


subsection \<open>What a broadcast leads to\<close>





lemma same_network [simp]: "with_network (network_of D) D = D"
  by (simp add: with_network_def network_of_def)


subsection \<open>Witnesses\<close>

definition demo_config :: config where
  "demo_config = config_default\<lparr>cf_signer_seed := demo_seed\<rparr>"

definition demo_daemon :: "bytes daemon" where
  "demo_daemon = (case daemon_start unhex (\<lambda>_. Some 7) demo_keys 0 demo_config empty_db of Inr D \<Rightarrow> D)"

lemma demo_daemon_start: "daemon_start unhex (\<lambda>_. Some 7) demo_keys 0 demo_config empty_db = Inr demo_daemon"
proof -
  have "\<exists>D. daemon_start unhex (\<lambda>_. Some 7) demo_keys 0 demo_config empty_db = Inr (D :: bytes daemon)"
    by (simp add: daemon_start_def chain_client_new_def from_seed_hex_def demo_config_def demo_seed_def unhex_encode Let_def)
  then show ?thesis by (auto simp: demo_daemon_def)
qed

text \<open>A peer puts a registered fragment.\<close>

definition demo_after_put :: "bytes daemon" where
  "demo_after_put = network_arm demo_network (\<lambda>_. None) 12 (\<lambda>_. Some 7) (\<lambda>_ _. Some True)
     (RequestReceived [2] (FragmentPut 9 [6])) demo_daemon"

lemma demo_after_put_reachable:
  "daemon_reachable demo_network demo_rpc_env (\<lambda>_. None) demo_keys demo_config prover_curve demo_prover demo_after_put"
  unfolding demo_after_put_def by (rule stepped [OF started [OF demo_daemon_start] on_network])

lemma demo_hashes: "nw_hash demo_network = content_name demo_rpc_env"
  by (rule ext) (simp add: demo_network_def content_name_def demo_rpc_env_def)

theorem daemon_invariant_witness:
  "fs_used (st_store (dm_rpc demo_after_put)) \<le> 10737418240
    \<and> (case cc_subxt_client (dm_client demo_after_put) of Some (u, g) \<Rightarrow> u = ''ws://127.0.0.1:9944'' | None \<Rightarrow> True)"
  using daemon_invariant [OF demo_after_put_reachable demo_hashes]
  by (simp add: demo_config_def config_default_def u64_max_def split: option.split)

theorem daemon_idle_services_witness:
  "announce_arm demo_ids (\<lambda>_. Some []) [1] [] 20 demo_after_put = None \<and> pending_count (dm_monitor demo_after_put) = 0
    \<and> active_endpoint (dm_client demo_after_put) = Some ''ws://127.0.0.1:9944''"
  using daemon_idle_services [OF demo_after_put_reachable demo_hashes, of demo_ids "\<lambda>_. Some []" "[1]" "[]" 20 "\<lambda>_. None"]
  by (simp add: demo_config_def config_default_def)



end
