(* ===== verification/Upload_Path.thy ===== *)
theory Upload_Path
  imports Daemon Storage_Rpc
begin

text \<open>
  A chain node (\<open>src/apps/blockchain/node/src/rpc/storage.rs\<close>) and a storage node daemon
  (\<open>src/apps/storage-node/src/rpc\<close>) talking to each other: the request the chain node sends over HTTP goes
  through the authentication and the handlers of the daemon, and its answer is what the client of the
  chain node reads. The JSON of both sides names the same fields, so a request is its parameters.
\<close>

subsection \<open>The connection\<close>

text \<open>The parameters the handlers read from the requests of the chain node, with the codecs and the hash.\<close>

definition linked_env :: "(string \<Rightarrow> bytes option) \<Rightarrow> (bytes \<Rightarrow> string) \<Rightarrow> (bytes \<Rightarrow> bytes) \<Rightarrow> rpc_params node_rpc_env" where
  "linked_env decode encode hash = \<lparr>
     ne_store_params = (\<lambda>j. case j of
         StoreFragment q \<Rightarrow> Some \<lparr>sf_merkle_root = uf_merkle_root q, sf_index = uf_index q, sf_data = uf_data q,
           sf_proof = uf_proof q, sf_total_leaves = uf_total_leaves q\<rparr>
       | _ \<Rightarrow> None),
     ne_get_params = (\<lambda>j. case j of GetFragment root i \<Rightarrow> Some \<lparr>gf_merkle_root = root, gf_index = i\<rparr> | _ \<Rightarrow> None),
     ne_shard_params = (\<lambda>j. case j of
         StoreKzgShard h i d \<Rightarrow> Some \<lparr>sk_content_hash = h, sk_shard_index = i, sk_shard_data = d\<rparr> | _ \<Rightarrow> None),
     ne_b64_decode = decode, ne_b64_encode = encode, ne_blake2b = hash\<rparr>"

record ('j, 'k, 's) web =
  wb_auth :: "('j, 'k, 's) auth_env"
  wb_env :: "rpc_params node_rpc_env"
  wb_enabled :: bool
  wb_body :: "http_request \<Rightarrow> bytes"
  wb_user_text :: "signed_request \<Rightarrow> string"
  wb_chain_text :: "chain_auth \<Rightarrow> string"
  wb_error_text :: "node_rpc_error \<Rightarrow> string"

definition web_headers :: "('j, 'k, 's) web \<Rightarrow> http_request \<Rightarrow> headers" where
  "web_headers W r name =
     (if name = auth_header then map_option (Some \<circ> wb_user_text W) (hq_auth r)
      else if name = chain_auth_header then map_option (Some \<circ> wb_chain_text W) (hq_chain_auth r)
      else None)"

text \<open>The server: status or reply, the state of the handlers and the nonces afterwards.\<close>

definition serve ::
  "('j, 'k, 's) web \<Rightarrow> (nat \<times> nat \<times> nat) \<times> nat \<Rightarrow> http_request \<Rightarrow> rpc_state \<times> nonce_cache
     \<Rightarrow> (nat + rpc_reply) \<times> rpc_state \<times> nonce_cache" where
  "serve W = (\<lambda>(clocks, now) r (S, cache).
     case auth_middleware (wb_auth W) max_body_size (wb_enabled W) clocks (web_headers W r) (wb_body W r) cache of
       (cache', Denied status _) \<Rightarrow> (Inl status, S, cache')
     | (cache', Next _) \<Rightarrow>
         (let (reply, S') = handle_rpc (wb_env W) (wb_enabled W) now (web_headers W r)
                \<lparr>rq_id = 1, rq_method = hq_method r, rq_params = hq_params r\<rparr> S
          in (Inr reply, S', cache')))"

text \<open>What the client reads: \<open>pick\<close> parses the result it expects.\<close>

definition answer_of :: "('j, 'k, 's) web \<Rightarrow> (rpc_result \<Rightarrow> 'r option) \<Rightarrow> nat + rpc_reply \<Rightarrow> 'r Storage_Rpc.http_answer" where
  "answer_of W pick a = (case a of
       Inl status \<Rightarrow> Storage_Rpc.HttpAnswer status None
     | Inr Unauthorized \<Rightarrow> Storage_Rpc.HttpAnswer 401 None
     | Inr (Replied _ (Inl (Err e))) \<Rightarrow> Storage_Rpc.HttpAnswer 200 (Some (None, Some (wb_error_text W e)))
     | Inr (Replied _ (Inl Trap)) \<Rightarrow> SendFailed
     | Inr (Replied _ (Inr result)) \<Rightarrow> Storage_Rpc.HttpAnswer 200 (map_option (\<lambda>r. (Some r, None)) (pick result)))"

definition pick_stored :: "rpc_result \<Rightarrow> bytes option" where
  "pick_stored r = (case r of FragmentStored h \<Rightarrow> Some h | _ \<Rightarrow> None)"

definition pick_data :: "rpc_result \<Rightarrow> get_fragment_response option" where
  "pick_data r = (case r of FragmentData d h \<Rightarrow> Some \<lparr>gr_data = d, gr_hash = h\<rparr> | _ \<Rightarrow> None)"

text \<open>
  The network of the chain node: the daemon of interest at one URL, in a given state, and whatever
  \<open>others\<close> answer at every other URL.
\<close>

definition node_at where
  "node_at W pick u clocks state others r =
     (if hq_url r = u then answer_of W pick (fst (serve W clocks r state)) else others r)"

subsection \<open>Reading answers\<close>

lemma read_answer_Inr:
  "read_answer (answer_of W pick a) = Inr x
     \<Longrightarrow> \<exists>i result. a = Inr (Replied i (Inr result)) \<and> pick result = Some x"
  by (auto simp: read_answer_def answer_of_def result_simps split: sum.splits rpc_reply.splits failure.splits option.splits)

lemma read_failed [simp]: "read_answer SendFailed = Inl (Err HttpRequestFailed)"
  by (simp add: read_answer_def)

lemma serve_reply:
  assumes "serve W t r (S, cache) = (Inr reply, S', cache')"
  shows "handle_rpc (wb_env W) (wb_enabled W) (snd t) (web_headers W r)
      \<lparr>rq_id = 1, rq_method = hq_method r, rq_params = hq_params r\<rparr> S = (reply, S')"
  using assms by (cases t) (auto simp: serve_def split: prod.splits auth_response.splits)

text \<open>A read needs no header of an author; with authentication on, the header of the chain node is enough.\<close>

lemma get_served:
  assumes "\<not> wb_enabled W \<or> (\<exists>ca. hq_chain_auth r = Some ca \<and> parse_chain (wb_auth W) (wb_chain_text W ca) = Some ca
      \<and> validate_chain_auth (wb_auth W) (fst (fst t)) ca = Inr ())" and "hq_auth r = None"
  shows "serve W t r (S, cache) =
    (let (reply, S') = handle_rpc (wb_env W) (wb_enabled W) (snd t) (web_headers W r)
        \<lparr>rq_id = 1, rq_method = hq_method r, rq_params = hq_params r\<rparr> S in (Inr reply, S', cache))"
proof -
  obtain n1 n2 n3 now where t: "t = ((n1, n2, n3), now)" by (metis prod.exhaust)
  have "\<exists>b. auth_middleware (wb_auth W) max_body_size (wb_enabled W) (n1, n2, n3) (web_headers W r) (wb_body W r) cache = (cache, Next b)"
    using assms t by (auto simp: auth_middleware_def web_headers_def parse_chain_auth_header_def auth_header_def
        chain_auth_header_def)
  then show ?thesis by (auto simp: serve_def t split: prod.splits)
qed

lemma reply_id: "handle_rpc N enabled now headers q S = (Replied i r, S') \<Longrightarrow> i = rq_id q"
  by (auto simp: handle_rpc_def split: if_splits prod.splits)

subsection \<open>What is uploaded can be fetched\<close>

text \<open>The request a chain node with this key pair sends for an upload.\<close>

definition upload_request :: "'sk rpc_env \<Rightarrow> 'sk option \<Rightarrow> string \<Rightarrow> nat \<Rightarrow> upload_fragment_request \<Rightarrow> http_request" where
  "upload_request E keypair u now q = \<lparr>hq_url = u, hq_method = ''storage_storeFragment'',
     hq_params = StoreFragment (q\<lparr>uf_auth := None\<rparr>), hq_auth = uf_auth q,
     hq_chain_auth = chain_auth_of E now (make_storage_client keypair u) ''storage_storeFragment''\<rparr>"

lemma forwarded_Inr: "forwarded r = Inr x \<longleftrightarrow> r = Inr x"
  by (auto simp: forwarded_def split: sum.splits failure.splits)

text \<open>An upload accepted with the daemon as the chosen node was stored by the daemon.\<close>

lemma upload_accepted:
  assumes "upload_fragment E it chain keypair (node_at W pick_stored u clocks state others) first second q = Inr h"
    and "map_option sl_url (get_storage_client_for_fragment E it chain keypair (fst second) (snd second)
      (uf_merkle_root q) (uf_index q)) = Some u"
  shows "\<exists>data i h'. rv_base64 E (uf_data q) = Some data \<and> h = rv_blake2b E data
    \<and> fst (serve W clocks (upload_request E keypair u (fst second) q) state) = Inr (Replied i (Inr (FragmentStored h')))"
proof -
  obtain data client x where data: "rv_base64 E (uf_data q) = Some data" "h = rv_blake2b E data"
    and client: "get_storage_client_for_fragment E it chain keypair (fst second) (snd second) (uf_merkle_root q) (uf_index q) = Some client"
    and asked: "client_upload_fragment E (node_at W pick_stored u clocks state others) (fst second) client q = Inr x"
    using assms(1)
    unfolding upload_fragment_def Let_def bind_ok_Inr ensure_Inr ok_or_Inr forwarded_Inr by blast
  have kp: "client = make_storage_client keypair (sl_url client)"
    using client by (auto simp: get_storage_client_for_fragment_def make_storage_client_def Let_def split: option.splits if_splits)
  have url: "sl_url client = u" using client assms(2) by simp
  have "client = make_storage_client keypair u" using kp url by simp
  with asked have "read_answer (answer_of W pick_stored (fst (serve W clocks (upload_request E keypair u (fst second) q) state))) = Inr x"
    by (simp add: client_upload_fragment_def node_at_def upload_request_def make_storage_client_def)
  from read_answer_Inr [OF this] obtain i result where
    reply: "fst (serve W clocks (upload_request E keypair u (fst second) q) state) = Inr (Replied i (Inr result))"
    "pick_stored result = Some x" by blast
  then have "result = FragmentStored x" by (cases result) (simp_all add: pick_stored_def)
  with reply data show ?thesis by blast
qed

text \<open>A fetch that finds the daemon's answer returns it, or the answer of another node.\<close>

lemma fetch_is_answer:
  assumes "\<And>xs. set (shuffled xs) = set xs" and "u \<in> fetch_urls E it chain now R"
    and "fst (serve W clocks \<lparr>hq_url = u, hq_method = ''storage_getFragment'', hq_params = GetFragment root index,
       hq_auth = None, hq_chain_auth = chain_auth_of E now (make_storage_client keypair u) ''storage_getFragment''\<rparr> state)
     = Inr (Replied i (Inr (FragmentData d h)))"
  shows "\<exists>r. get_fragment E it chain keypair shuffled (node_at W pick_data u clocks state others) now R root index = Inr r
    \<and> (r = \<lparr>gr_data = d, gr_hash = h\<rparr>
       \<or> (\<exists>url \<in> fetch_urls E it chain now R - {u}. ask_url E keypair others now root index url = Inr r))"
proof -
  let ?http = "node_at W pick_data u clocks state others"
  have here: "ask_url E keypair ?http now root index u = Inr \<lparr>gr_data = d, gr_hash = h\<rparr>"
    using assms(3) by (simp add: client_get_fragment_def node_at_def make_storage_client_def answer_of_def pick_data_def read_answer_def)
  have elsewhere: "ask_url E keypair ?http now root index url = ask_url E keypair others now root index url" if "url \<noteq> u" for url
    using that by (simp add: client_get_fragment_def node_at_def make_storage_client_def)
  note complete = get_fragment_complete [OF assms(1), where E = E and it = it and chain = chain and keypair = keypair
      and http = ?http and now = now and R = R and root = root and index = index]
  obtain r where r: "get_fragment E it chain keypair shuffled ?http now R root index = Inr r"
    using complete assms(2) here by blast
  with complete obtain url where url: "url \<in> fetch_urls E it chain now R" "ask_url E keypair ?http now root index url = Inr r"
    by blast
  show ?thesis
  proof (cases "url = u")
    case True
    then show ?thesis using r url here by auto
  next
    case False
    then show ?thesis using r url elsewhere by auto
  qed
qed

text \<open>C1: A fragment a chain node accepts for upload is there to be fetched, through any chain node. The first
  chain node hands it to the storage node it chose for it (chosen by root and index among the live nodes, or the
  nodes on chain); that daemon's middleware, handler and store take it. After any further RPC requests
  to the daemon (and nothing that removes data: no collection, eviction or deletion in between), any
  chain node, with its own environment, key pair, registry and clock, that knows the daemon's URL
  finds a fragment, however the other nodes of the network answer: what it returns is the bytes the daemon holds
  under the root and index of the upload, with their hash, or the answer of another node of its list that also
  answered with success; the code does not check the bytes against the root. When no other node
  answers, it is the daemon's bytes; these are the uploaded bytes unless other bytes were there before
  the upload. With authentication on, the fetching node signs its requests (Sr25519 and hex as documented),
  and its clock is at most 30 seconds ahead of the daemon's and 300 behind. The daemon's store is a reachable one, and
  daemon and first chain node have the same base64 and hash.
\<close>

theorem upload_download:
  assumes "upload_fragment E it chain keypair (node_at W pick_stored u clocks (S, cache) others) first second q = Inr h"
    and "map_option sl_url (get_storage_client_for_fragment E it chain keypair (fst second) (snd second)
      (uf_merkle_root q) (uf_index q)) = Some u"
    and "serve W clocks (upload_request E keypair u (fst second) q) (S, cache) = (answer, S1, kept_nonces)"
    and "wb_env W = linked_env (rv_base64 E) encode (rv_blake2b E)"
    and "store_reachable (content_name (wb_env W)) capacity verify (st_store S)" and "capacity \<le> u64_max"
    and "u \<in> fetch_urls E' it' chain' now' R'" and "\<And>xs. set (shuffled xs) = set xs"
    and "\<not> wb_enabled W \<or> (\<exists>kp. keypair' = Some kp \<and> hex_ok (rv_hex_encode E') (hex_decode (wb_auth W))
      \<and> sr25519_ok E' (wb_auth W) \<and> (\<forall>ca. parse_chain (wb_auth W) (wb_chain_text W ca) = Some ca)
      \<and> now' \<le> clock + 30 \<and> clock \<le> now' + 300)"
  shows "\<exists>data. rv_base64 E (uf_data q) = Some data \<and> h = rv_blake2b E data
    \<and> (let kept = (case stored (st_store S) (Fragment (create_fragment_id (wb_env W) (uf_merkle_root q) (uf_index q))) of
                     None \<Rightarrow> data | Some old \<Rightarrow> old)
       in \<exists>r. get_fragment E' it' chain' keypair' shuffled
              (node_at W pick_data u ((clock, clock', clock''), later) (rpc_run (wb_env W) (wb_enabled W) calls S1, nonces) others')
              now' R' (uf_merkle_root q) (uf_index q) = Inr r
            \<and> (r = \<lparr>gr_data = encode kept, gr_hash = rv_blake2b E kept\<rparr>
               \<or> (\<exists>url \<in> fetch_urls E' it' chain' now' R' - {u}.
                    ask_url E' keypair' others' now' (uf_merkle_root q) (uf_index q) url = Inr r)))"
proof -
  let ?N = "wb_env W" and ?up = "upload_request E keypair u (fst second) q"
  let ?id = "create_fragment_id ?N (uf_merkle_root q) (uf_index q)"
  let ?S2 = "rpc_run ?N (wb_enabled W) calls S1"
  let ?get = "\<lparr>hq_url = u, hq_method = ''storage_getFragment'', hq_params = GetFragment (uf_merkle_root q) (uf_index q),
     hq_auth = None, hq_chain_auth = chain_auth_of E' now' (make_storage_client keypair' u) ''storage_getFragment''\<rparr>"
  obtain data i h' where data: "rv_base64 E (uf_data q) = Some data" "h = rv_blake2b E data"
    and "answer = Inr (Replied i (Inr (FragmentStored h')))"
    using upload_accepted [OF assms(1,2)] assms(3) by auto
  with assms(3) have "handle_rpc ?N (wb_enabled W) (snd clocks) (web_headers W ?up)
      \<lparr>rq_id = 1, rq_method = hq_method ?up, rq_params = hq_params ?up\<rparr> S = (Replied i (Inr (FragmentStored h')), S1)"
    using serve_reply by blast
  then have handled: "handle_rpc ?N (wb_enabled W) (snd clocks) (web_headers W ?up)
      \<lparr>rq_id = 1, rq_method = ''storage_storeFragment'', rq_params = StoreFragment (q\<lparr>uf_auth := None\<rparr>)\<rparr> S
      = (Replied i (Inr (FragmentStored h')), S1)"
    by (simp add: upload_request_def)
  have "i = 1" using reply_id [OF handled] by simp
  let ?kept = "case stored (st_store S) (Fragment ?id) of None \<Rightarrow> data | Some old \<Rightarrow> old"
  have ne: "ne_store_params ?N (StoreFragment (q\<lparr>uf_auth := None\<rparr>)) = Some \<lparr>sf_merkle_root = uf_merkle_root q,
      sf_index = uf_index q, sf_data = uf_data q, sf_proof = uf_proof q, sf_total_leaves = uf_total_leaves q\<rparr>"
    "ne_b64_decode ?N (uf_data q) = Some data"
    "ne_get_params ?N (GetFragment (uf_merkle_root q) (uf_index q)) = Some \<lparr>gf_merkle_root = uf_merkle_root q, gf_index = uf_index q\<rparr>"
    "ne_b64_encode ?N = encode" "ne_blake2b ?N = rv_blake2b E"
    using assms(4) data(1) by (simp_all add: linked_env_def)
  have held: "fst (handle_rpc ?N (wb_enabled W) later (web_headers W ?get)
      \<lparr>rq_id = 1, rq_method = ''storage_getFragment'', rq_params = GetFragment (uf_merkle_root q) (uf_index q)\<rparr> ?S2)
      = Replied 1 (Inr (FragmentData (encode ?kept) (rv_blake2b E ?kept)))"
    using stored_then_served [OF assms(5,6), where p = "StoreFragment (q\<lparr>uf_auth := None\<rparr>)" and data = data
        and g = "GetFragment (uf_merkle_root q) (uf_index q)", OF ne(1), where enabled = "wb_enabled W"
        and now = "snd clocks" and headers = "web_headers W ?up" and i = 1 and h = h' and T = S1] handled ne \<open>i = 1\<close>
    by (simp add: Let_def del: stored.simps One_nat_def)
  have auth: "\<not> wb_enabled W \<or> (\<exists>ca. hq_chain_auth ?get = Some ca \<and> parse_chain (wb_auth W) (wb_chain_text W ca) = Some ca
      \<and> validate_chain_auth (wb_auth W) clock ca = Inr ())"
    using assms(9) chain_auth_accepted [of E' "wb_auth W" now' clock]
    by (auto simp: chain_auth_of_def make_storage_client_def)
  have "fst (serve W ((clock, clock', clock''), later) ?get (?S2, nonces))
      = Inr (Replied 1 (Inr (FragmentData (encode ?kept) (rv_blake2b E ?kept))))"
    using get_served [of W ?get "((clock, clock', clock''), later)" ?S2 nonces] auth held
    by (simp add: split_beta Let_def del: stored.simps)
  from fetch_is_answer [where shuffled = shuffled and others = others', OF assms(8) assms(7) this] data
  show ?thesis by (auto simp add: Let_def simp del: stored.simps)
qed

text \<open>One daemon at the URL of the demonstration registry, without authentication.\<close>

definition demo_web :: "(unit, unit, unit) web" where
  "demo_web = \<lparr>wb_auth = demo_auth, wb_env = linked_env (rv_base64 demo_rpc) (\<lambda>_. []) (rv_blake2b demo_rpc),
     wb_enabled = False, wb_body = (\<lambda>_. []), wb_user_text = (\<lambda>_. []), wb_chain_text = (\<lambda>_. []), wb_error_text = (\<lambda>_. [])\<rparr>"

definition demo_file :: upload_fragment_request where
  "demo_file = \<lparr>uf_merkle_root = replicate 32 0, uf_index = 0, uf_data = [], uf_proof = [], uf_total_leaves = 1, uf_auth = None\<rparr>"

lemma demo_served:
  "\<exists>S1. serve demo_web ((0, 0, 0), 0) (upload_request demo_rpc None ''a'' 5 demo_file) (demo_rpc_state, Map.empty)
     = (Inr (Replied 1 (Inr (FragmentStored (replicate 32 0)))), S1, Map.empty)"
  by (simp add: serve_def auth_middleware_def demo_web_def upload_request_def handle_rpc_def rpc_gate_def require_auth_def
      method_requires_auth_def handle_store_fragment_def linked_env_def demo_file_def demo_rpc_def rpc_max_fragment_size_def
      demo_rpc_state_def store_def Fragment_Store.max_fragment_size_def open_store_def load_or_recover_used_def
      scan_used_bytes_def entries_bytes empty_db_def Let_def)

lemma demo_client:
  "get_storage_client_for_fragment demo_rpc demo_iter None (None :: unit option) 5 (gs_registry demo_state) (replicate 32 0) 0
    = Some (make_storage_client None ''a'')"
  by (simp add: get_storage_client_for_fragment_def select_node_for_fragment_def demo_state_live Let_def
      fragment_slot_def) (simp add: node_of_info_def demo_info_def)

lemma demo_uploaded:
  "upload_fragment demo_rpc demo_iter None None
     (node_at demo_web pick_stored ''a'' ((0, 0, 0), 0) (demo_rpc_state, Map.empty) (\<lambda>_. SendFailed))
     (5, gs_registry demo_state) (5, gs_registry demo_state) demo_file = Inr (replicate 32 0)"
proof -
  let ?http = "node_at demo_web pick_stored ''a'' ((0, 0, 0), 0) (demo_rpc_state, Map.empty) (\<lambda>_. SendFailed)"
  obtain S1 where "serve demo_web ((0, 0, 0), 0) (upload_request demo_rpc None ''a'' 5 demo_file) (demo_rpc_state, Map.empty)
     = (Inr (Replied 1 (Inr (FragmentStored (replicate 32 0)))), S1, Map.empty)" using demo_served by blast
  then have "client_upload_fragment demo_rpc ?http 5 (make_storage_client None ''a'') demo_file = Inr (replicate 32 0)"
    by (simp add: client_upload_fragment_def node_at_def upload_request_def make_storage_client_def answer_of_def
        pick_stored_def read_answer_def)
  moreover have "uf_merkle_root demo_file = replicate 32 0" "uf_index demo_file = 0" "uf_total_leaves demo_file = 1"
    by (simp_all add: demo_file_def)
  ultimately show ?thesis
    by (simp add: upload_fragment_def demo_client online_node_count_def demo_state_live forwarded_def verify_merkle_proof_def
        Storage_Rpc.max_fragment_size_def max_proof_size_def max_total_leaves_def) (simp add: demo_rpc_def)
qed

text \<open>The network of the witness: the daemon at \<open>''a''\<close>, nothing anywhere else.\<close>

theorem upload_download_witness:
  "\<exists>S1. get_fragment demo_rpc demo_iter None None (\<lambda>xs. xs)
     (node_at demo_web pick_data ''a'' ((9, 9, 9), 9) (S1, Map.empty) (\<lambda>_. SendFailed))
     5 (gs_registry demo_state) (replicate 32 0) 0 = Inr \<lparr>gr_data = [], gr_hash = replicate 32 0\<rparr>"
proof -
  let ?w = "demo_web"
  obtain S1 where S1: "serve ?w ((0, 0, 0), 0) (upload_request demo_rpc None ''a'' (fst (5, gs_registry demo_state)) demo_file)
      (demo_rpc_state, Map.empty) = (Inr (Replied 1 (Inr (FragmentStored (replicate 32 0)))), S1, Map.empty)"
    using demo_served by auto
  have "''a'' \<in> fetch_urls demo_rpc demo_iter None 5 (gs_registry demo_state)"
    by (simp add: fetch_urls_def demo_state_live) (simp add: node_of_info_def demo_info_def)
  moreover have "store_reachable (content_name (wb_env ?w)) 10 True (st_store demo_rpc_state)"
    by (simp add: demo_rpc_state_def store_opened)
  moreover have w: "wb_env ?w = linked_env (rv_base64 demo_rpc) (\<lambda>_. []) (rv_blake2b demo_rpc)" "\<not> wb_enabled ?w"
    by (simp_all add: demo_web_def)
  moreover have "(10 :: nat) \<le> u64_max" by (simp add: u64_max_def)
  moreover have "map_option sl_url (get_storage_client_for_fragment demo_rpc demo_iter None (None :: unit option)
      (fst (5, gs_registry demo_state)) (snd (5, gs_registry demo_state)) (uf_merkle_root demo_file) (uf_index demo_file)) = Some ''a''"
    using demo_client by (simp add: demo_file_def make_storage_client_def)
  ultimately have "\<exists>kept. get_fragment demo_rpc demo_iter None None (\<lambda>xs. xs)
      (node_at ?w pick_data ''a'' ((9, 9, 9), 9) (rpc_run (wb_env ?w) (wb_enabled ?w) [] S1, Map.empty) (\<lambda>_. SendFailed))
      5 (gs_registry demo_state) (uf_merkle_root demo_file) (uf_index demo_file)
      = Inr \<lparr>gr_data = [], gr_hash = rv_blake2b demo_rpc kept\<rparr>"
    using upload_download [OF demo_uploaded _ S1, of "\<lambda>_. []" 10 True demo_rpc demo_iter None 5 "gs_registry demo_state" "\<lambda>xs. xs" None,
        where clock = 9 and clock' = 9 and clock'' = 9 and later = 9 and calls = "[]" and nonces = Map.empty
          and others' = "\<lambda>_. SendFailed"]
    by (auto simp: Let_def client_get_fragment_def simp del: stored.simps)
  then show ?thesis
    by (intro exI [of _ S1]) (simp add: demo_file_def rpc_run_def demo_rpc_def)
qed

end
