(* ===== verification/Mining.thy ===== *)
theory Mining
  imports Difficulty Endpoint_Policy Pow
begin

text \<open>
  Proof of work of the chain node: the seal and its verification
  (\<open>src/apps/blockchain/node/src/pow\<close>), the thread that searches for nonces and the choices the service
  makes at its start (\<open>service.rs\<close>, \<open>cli.rs\<close>), and the gauges of the economy (\<open>economic_metrics.rs\<close>). The
  RandomX library, the builder of blocks and the import of submitted seals are parameters.
\<close>

subsection \<open>RandomX\<close>

datatype randomx_mode = Fast | Light

definition full_mode :: "randomx_mode \<Rightarrow> bool" where
  "full_mode mode = (case mode of Fast \<Rightarrow> True | Light \<Rightarrow> False)"

text \<open>The library: whether a machine can be built for a key, in full or light mode, and its hash, which may fail.\<close>

record randomx =
  rx_new :: "bytes \<Rightarrow> bool \<Rightarrow> bool"
  rx_hash :: "bool \<Rightarrow> bytes \<Rightarrow> bytes \<Rightarrow> bytes option"

record randomx_vm =
  vm_key :: bytes
  vm_full :: bool

datatype pow_error = SealUndecodable | VmUnavailable | EmptyHash

definition vm_new :: "randomx \<Rightarrow> bytes \<Rightarrow> bool \<Rightarrow> (pow_error, randomx_vm) result" where
  "vm_new R key full = ensure (rx_new R key full) VmUnavailable (Inr \<lparr>vm_key = key, vm_full = full\<rparr>)"

definition ensure_key :: "randomx \<Rightarrow> bytes \<Rightarrow> randomx_vm \<Rightarrow> (pow_error, randomx_vm) result" where
  "ensure_key R key vm = (if vm_key vm = key then Inr vm else vm_new R key (vm_full vm))"

definition vm_hash :: "randomx \<Rightarrow> randomx_vm \<Rightarrow> bytes \<Rightarrow> bytes" where
  "vm_hash R vm input = (case rx_hash R (vm_full vm) (vm_key vm) input of Some h \<Rightarrow> h | None \<Rightarrow> [])"

subsection \<open>Seals\<close>

record pow_seal =
  ps_nonce :: "64 word"
  ps_work :: bytes

definition seal_encode :: "pow_seal \<Rightarrow> bytes" where
  "seal_encode s = le_bytes 8 (unat (ps_nonce s)) @ ps_work s"

text \<open>The decoder reads 40 bytes and leaves what follows.\<close>

definition seal_decode :: "bytes \<Rightarrow> pow_seal option" where
  "seal_decode bs = (if length bs < 40 then None
     else Some \<lparr>ps_nonce = word_of_nat (be_value (rev (take 8 bs))), ps_work = take 32 (drop 8 bs)\<rparr>)"

definition pow_input :: "bytes \<Rightarrow> 64 word \<Rightarrow> bytes" where
  "pow_input pre_hash n = pre_hash @ le_bytes 8 (unat n)"

definition pow_target :: "nat \<Rightarrow> nat" where
  "pow_target difficulty = u256_max div difficulty"

text \<open>
  The verdict and the machine afterwards; a hash of more than 32 bytes does not fit into a \<open>U256\<close>. The
  error for a poisoned lock of the machine is left out: the lock is poisoned only once a call has panicked.
\<close>

definition verify_seal ::
  "randomx \<Rightarrow> bytes \<Rightarrow> bytes \<Rightarrow> bytes \<Rightarrow> nat \<Rightarrow> randomx_vm \<Rightarrow> (pow_error, bool) result \<times> randomx_vm" where
  "verify_seal R genesis_hash pre_hash seal_bytes difficulty vm =
     (case seal_decode seal_bytes of
        None \<Rightarrow> (Inl (Err SealUndecodable), vm)
      | Some s \<Rightarrow>
          (case ensure_key R genesis_hash vm of
             Inl e \<Rightarrow> (Inl e, vm)
           | Inr vm' \<Rightarrow>
               (let work = vm_hash R vm' (pow_input pre_hash (ps_nonce s)) in
                if work = [] then (Inl (Err EmptyHash), vm')
                else if difficulty = 0 then (Inr False, vm')
                else if 32 < length work then (Inl Trap, vm')
                else (Inr (be_value work \<le> pow_target difficulty), vm'))))"

subsection \<open>The mining thread\<close>

record build =
  bd_pre_hash :: bytes
  bd_difficulty :: nat

text \<open>
  The thread waits for a block to seal, tries nonces, and after a seal was taken waits for another
  block. It ends in a panic when a work hash is no 32 bytes.
\<close>

datatype miner_phase = AwaitBuild | Searching bytes nat "64 word" | AwaitNewBuild bytes | Panicked

record miner =
  mi_nonce :: "64 word"
  mi_total :: "64 word"
  mi_phase :: miner_phase

definition miner_start :: miner where
  "miner_start = \<lparr>mi_nonce = 0, mi_total = 0, mi_phase = AwaitBuild\<rparr>"

text \<open>
  One turn of the innermost loop the thread is in. \<open>meta\<close> is what the builder has when the thread looks,
  \<open>taken\<close> whether a submitted seal is taken; the result is the miner afterwards and the seal submitted.
\<close>

definition try_nonce ::
  "randomx \<Rightarrow> randomx_vm \<Rightarrow> build option \<Rightarrow> bool \<Rightarrow> bytes \<Rightarrow> nat \<Rightarrow> 64 word \<Rightarrow> miner \<Rightarrow> miner \<times> bytes option" where
  "try_nonce R vm meta taken pre_hash target tried m =
     (let work = vm_hash R vm (pow_input pre_hash (mi_nonce m));
          next = m\<lparr>mi_nonce := mi_nonce m + 1, mi_total := mi_total m + 1\<rparr>
      in if 32 < length work then (m\<lparr>mi_phase := Panicked\<rparr>, None)
         else if be_value work \<le> target then
           (if length work \<noteq> 32 then (m\<lparr>mi_total := mi_total m + 1, mi_phase := Panicked\<rparr>, None)
            else (next\<lparr>mi_phase := (if taken then AwaitNewBuild pre_hash else AwaitBuild)\<rparr>,
                  Some (seal_encode \<lparr>ps_nonce = mi_nonce m, ps_work = work\<rparr>)))
         else
           (let changed = (tried + 1) mod 256 = 0 \<and> (case meta of Some b \<Rightarrow> bd_pre_hash b \<noteq> pre_hash | None \<Rightarrow> False)
            in (next\<lparr>mi_phase := (if changed then AwaitBuild else Searching pre_hash target (tried + 1))\<rparr>, None)))"

definition miner_step :: "randomx \<Rightarrow> randomx_vm \<Rightarrow> build option \<times> bool \<Rightarrow> miner \<Rightarrow> miner \<times> bytes option" where
  "miner_step R vm = (\<lambda>(meta, taken) m. case mi_phase m of
       AwaitBuild \<Rightarrow>
         (case meta of
            None \<Rightarrow> (m, None)
          | Some b \<Rightarrow>
              if bd_difficulty b = 0 then (m, None)
              else (m\<lparr>mi_phase := Searching (bd_pre_hash b) (pow_target (bd_difficulty b)) 0\<rparr>, None))
     | Searching pre_hash target tried \<Rightarrow> try_nonce R vm meta taken pre_hash target tried m
     | AwaitNewBuild pre_hash \<Rightarrow>
         (case meta of
            Some b \<Rightarrow> (if bd_pre_hash b \<noteq> pre_hash then (m\<lparr>mi_phase := AwaitBuild\<rparr>, None) else (m, None))
          | None \<Rightarrow> (m\<lparr>mi_phase := AwaitBuild\<rparr>, None))
     | Panicked \<Rightarrow> (m, None))"

text \<open>The thread: it starts if its machine can be built. Each observation of the world is one turn.\<close>

primrec miner_run :: "randomx \<Rightarrow> randomx_vm \<Rightarrow> (build option \<times> bool) list \<Rightarrow> miner \<Rightarrow> miner \<times> bytes list" where
  "miner_run R vm [] m = (m, [])"
| "miner_run R vm (w # ws) m =
     (let (m', submitted) = miner_step R vm w m; (m'', seals) = miner_run R vm ws m'
      in (m'', (case submitted of Some s \<Rightarrow> s # seals | None \<Rightarrow> seals)))"

definition mining_thread ::
  "randomx \<Rightarrow> bytes \<Rightarrow> randomx_mode \<Rightarrow> (build option \<times> bool) list \<Rightarrow> (pow_error, miner \<times> bytes list) result" where
  "mining_thread R genesis_hash mode world =
     bind_ok (vm_new R genesis_hash (full_mode mode)) (\<lambda>vm. Inr (miner_run R vm world miner_start))"

subsection \<open>Choices of the service\<close>

datatype chain_type = Development | Local | Live | Custom string

definition node_endpoint_policy :: "chain_type \<Rightarrow> 16 word list option \<Rightarrow> 16 word \<Rightarrow> endpoint_policy" where
  "node_endpoint_policy chain_type rpc_listen_ports rpc_port =
     \<lparr>allow_private = (case chain_type of Development \<Rightarrow> True | Local \<Rightarrow> True | _ \<Rightarrow> False),
      own_rpc_ports = (case rpc_listen_ports of Some ports \<Rightarrow> ports | None \<Rightarrow> [rpc_port])\<rparr>"

subsection \<open>Gauges\<close>

record economic_snapshot =
  sp_storage_pool :: nat
  sp_reaction_pool :: nat
  sp_stealth_pool :: nat
  sp_base_fee :: nat
  sp_total_active_bond :: nat
  sp_faucet_minted :: nat
  sp_total_issuance :: nat
  sp_gas_used_this_block :: nat
  sp_reactor_locks_count :: nat

definition saturating_u128_to_u64 :: "nat \<Rightarrow> nat" where
  "saturating_u128_to_u64 v = (if u64_max < v then u64_max else v)"

text \<open>The gauges have the fields of the snapshot; they stay as they are when it cannot be had.\<close>

definition collect_gauges :: "economic_snapshot option \<Rightarrow> economic_snapshot \<Rightarrow> economic_snapshot" where
  "collect_gauges snapshot gauges = (case snapshot of
       None \<Rightarrow> gauges
     | Some s \<Rightarrow> \<lparr>sp_storage_pool = saturating_u128_to_u64 (sp_storage_pool s),
         sp_reaction_pool = saturating_u128_to_u64 (sp_reaction_pool s),
         sp_stealth_pool = saturating_u128_to_u64 (sp_stealth_pool s),
         sp_base_fee = saturating_u128_to_u64 (sp_base_fee s),
         sp_total_active_bond = saturating_u128_to_u64 (sp_total_active_bond s),
         sp_faucet_minted = saturating_u128_to_u64 (sp_faucet_minted s),
         sp_total_issuance = saturating_u128_to_u64 (sp_total_issuance s),
         sp_gas_used_this_block = sp_gas_used_this_block s,
         sp_reactor_locks_count = sp_reactor_locks_count s\<rparr>)"

lemma gauges_exact:
  assumes "\<forall>f \<in> {sp_storage_pool, sp_reaction_pool, sp_stealth_pool, sp_base_fee, sp_total_active_bond, sp_faucet_minted,
      sp_total_issuance}. f s \<le> u64_max"
  shows "collect_gauges (Some s) gauges = s"
  using assms by (cases s) (simp add: collect_gauges_def saturating_u128_to_u64_def)

subsection \<open>What is accepted\<close>

text \<open>What is relied on: both modes give the same hashes, of 32 bytes.\<close>

definition randomx_ok :: "randomx \<Rightarrow> bool" where
  "randomx_ok R \<longleftrightarrow> (\<forall>k i. rx_hash R True k i = rx_hash R False k i) \<and> (\<forall>f k i h. rx_hash R f k i = Some h \<longrightarrow> length h = 32)"

lemma randomx_mode_irrelevant: "randomx_ok R \<Longrightarrow> rx_hash R f k i = rx_hash R False k i"
  by (cases f) (simp_all add: randomx_ok_def)

definition seal_nonce :: "bytes \<Rightarrow> 64 word" where
  "seal_nonce seal_bytes = word_of_nat (be_value (rev (take 8 seal_bytes)))"

lemma seal_decode_encode:
  assumes "length (ps_work s) = 32"
  shows "seal_decode (seal_encode s @ junk) = Some s"
proof -
  have "unat (ps_nonce s) < 256 ^ 8" using unsigned_less [of "ps_nonce s", where 'a = nat] by simp
  then show ?thesis using assms by (cases s) (simp add: seal_decode_def seal_encode_def be_value_le_bytes)
qed

lemma seal_nonce_encode: "length (ps_work s) = 32 \<Longrightarrow> seal_nonce (seal_encode s) = ps_nonce s"
  using seal_decode_encode [of s "[]"] by (cases s) (auto simp: seal_decode_def seal_nonce_def split: if_splits)

lemma target_product: "0 < d \<Longrightarrow> x \<le> pow_target d \<longleftrightarrow> x * d \<le> u256_max"
  by (simp add: pow_target_def less_eq_div_iff_mult_less_eq)

lemma ensure_key_key: "ensure_key R g vm = Inr vm' \<Longrightarrow> vm_key vm' = g \<and> (vm_key vm = g \<or> rx_new R g (vm_full vm))"
  by (auto simp: ensure_key_def vm_new_def result_simps split: if_splits)

lemma ensure_key_total: "vm_key vm = g \<or> rx_new R g (vm_full vm) \<Longrightarrow> \<exists>vm'. ensure_key R g vm = Inr vm'"
  by (auto simp: ensure_key_def vm_new_def)

text \<open>C19: a seal is accepted exactly when it has at least 40 bytes, the machine for the genesis hash is there or
  can be built, and the RandomX hash of block and nonce, times a difficulty that is not zero, does not
  exceed the largest \<open>U256\<close>. Of the seal only the nonce counts.
\<close>

theorem verify_seal_iff:
  assumes "randomx_ok R"
  shows "fst (verify_seal R genesis_hash pre_hash seal_bytes difficulty vm) = Inr True \<longleftrightarrow>
      40 \<le> length seal_bytes \<and> (vm_key vm = genesis_hash \<or> rx_new R genesis_hash (vm_full vm)) \<and> difficulty \<noteq> 0
    \<and> (\<exists>work. rx_hash R False genesis_hash (pow_input pre_hash (seal_nonce seal_bytes)) = Some work
          \<and> be_value work * difficulty \<le> u256_max)"
proof (cases "40 \<le> length seal_bytes \<and> (vm_key vm = genesis_hash \<or> rx_new R genesis_hash (vm_full vm))")
  case False
  then show ?thesis
    using ensure_key_key [of R genesis_hash vm]
    by (auto simp: verify_seal_def seal_decode_def split: option.splits sum.splits if_splits)
next
  case True
  then obtain vm' where vm': "ensure_key R genesis_hash vm = Inr vm'" using ensure_key_total by blast
  obtain s where s: "seal_decode seal_bytes = Some s" "ps_nonce s = seal_nonce seal_bytes"
    using True by (auto simp: seal_decode_def seal_nonce_def)
  have h: "vm_hash R vm' (pow_input pre_hash (seal_nonce seal_bytes))
      = (case rx_hash R False genesis_hash (pow_input pre_hash (seal_nonce seal_bytes)) of Some w \<Rightarrow> w | None \<Rightarrow> [])"
    using ensure_key_key [OF vm'] randomx_mode_irrelevant [OF assms, of "vm_full vm'"] by (simp add: vm_hash_def)
  show ?thesis
  proof (cases "rx_hash R False genesis_hash (pow_input pre_hash (seal_nonce seal_bytes))")
    case None
    then show ?thesis using True vm' s h by (auto simp: verify_seal_def Let_def)
  next
    case (Some work)
    then have "length work = 32" using assms unfolding randomx_ok_def by blast
    moreover from this have "work \<noteq> []" by auto
    ultimately show ?thesis using True vm' s h Some by (auto simp: verify_seal_def Let_def target_product)
  qed
qed

text \<open>
  So one proof of work seals any number of blocks that differ in their seal only: the work hash in the
  seal is not compared with anything, and bytes may follow it.
\<close>

lemma seal_malleable:
  assumes "take 8 other = take 8 seal_bytes" and "40 \<le> length seal_bytes" and "40 \<le> length other"
  shows "fst (verify_seal R genesis_hash pre_hash other difficulty vm) = fst (verify_seal R genesis_hash pre_hash seal_bytes difficulty vm)"
  using assms by (auto simp: verify_seal_def seal_decode_def split: sum.splits)

subsection \<open>Miner and verifier\<close>

text \<open>A thread that searches does so for a block it was shown, with the target of its difficulty.\<close>

definition search_ok :: "build set \<Rightarrow> miner \<Rightarrow> bool" where
  "search_ok B m \<longleftrightarrow> (\<forall>pre_hash target tried. mi_phase m = Searching pre_hash target tried \<longrightarrow>
     (\<exists>b \<in> B. pre_hash = bd_pre_hash b \<and> bd_difficulty b \<noteq> 0 \<and> target = pow_target (bd_difficulty b)))"

lemma miner_step_ok:
  assumes "search_ok B m" and "case fst w of Some b \<Rightarrow> b \<in> B | None \<Rightarrow> True" and "miner_step R vm w m = (m', out)"
  shows "search_ok B m'"
    and "out = Some seal_bytes \<Longrightarrow> \<exists>b \<in> B. bd_difficulty b \<noteq> 0 \<and> 40 \<le> length seal_bytes
      \<and> length (vm_hash R vm (pow_input (bd_pre_hash b) (seal_nonce seal_bytes))) = 32
      \<and> be_value (vm_hash R vm (pow_input (bd_pre_hash b) (seal_nonce seal_bytes))) \<le> pow_target (bd_difficulty b)"
proof -
  obtain meta taken where w: "w = (meta, taken)" by fastforce
  show "search_ok B m'"
    using assms by (auto simp: w miner_step_def try_nonce_def search_ok_def Let_def
        split: miner_phase.splits option.splits if_splits)
  assume out: "out = Some seal_bytes"
  then obtain pre_hash target tried where ph: "mi_phase m = Searching pre_hash target tried"
    using assms(3) by (auto simp: w miner_step_def split: miner_phase.splits option.splits if_splits)
  let ?work = "vm_hash R vm (pow_input pre_hash (mi_nonce m))"
  have work: "length ?work = 32" "be_value ?work \<le> target" "seal_bytes = seal_encode \<lparr>ps_nonce = mi_nonce m, ps_work = ?work\<rparr>"
    using assms(3) out by (auto simp: w miner_step_def ph try_nonce_def Let_def split: if_splits)
  obtain b where b: "b \<in> B" "pre_hash = bd_pre_hash b" "bd_difficulty b \<noteq> 0" "target = pow_target (bd_difficulty b)"
    using assms(1) ph by (auto simp: search_ok_def)
  have "seal_nonce seal_bytes = mi_nonce m" "40 \<le> length seal_bytes"
    using seal_nonce_encode [of "\<lparr>ps_nonce = mi_nonce m, ps_work = ?work\<rparr>"] work by (auto simp: seal_encode_def)
  with b work show "\<exists>b \<in> B. bd_difficulty b \<noteq> 0 \<and> 40 \<le> length seal_bytes
      \<and> length (vm_hash R vm (pow_input (bd_pre_hash b) (seal_nonce seal_bytes))) = 32
      \<and> be_value (vm_hash R vm (pow_input (bd_pre_hash b) (seal_nonce seal_bytes))) \<le> pow_target (bd_difficulty b)"
    by auto
qed

lemma miner_run_seals:
  assumes "search_ok B m" and "\<forall>w \<in> set world. case fst w of Some b \<Rightarrow> b \<in> B | None \<Rightarrow> True"
    and "seal_bytes \<in> set (snd (miner_run R vm world m))"
  shows "\<exists>b \<in> B. bd_difficulty b \<noteq> 0 \<and> 40 \<le> length seal_bytes
      \<and> length (vm_hash R vm (pow_input (bd_pre_hash b) (seal_nonce seal_bytes))) = 32
      \<and> be_value (vm_hash R vm (pow_input (bd_pre_hash b) (seal_nonce seal_bytes))) \<le> pow_target (bd_difficulty b)"
  using assms
proof (induction world arbitrary: m)
  case (Cons w world)
  obtain m' out where step: "miner_step R vm w m = (m', out)" by fastforce
  have w: "case fst w of Some b \<Rightarrow> b \<in> B | None \<Rightarrow> True" using Cons.prems(2) by simp
  note ok = miner_step_ok [OF Cons.prems(1) w step]
  have "out = Some seal_bytes \<or> seal_bytes \<in> set (snd (miner_run R vm world m'))"
    using Cons.prems(3) step by (auto simp: split: prod.splits option.splits)
  then show ?case using ok(2) Cons.IH [OF ok(1)] Cons.prems(2) by auto
qed simp

text \<open>C18: what a miner submits is valid: every seal of a mining thread, in whichever mode it runs, is for a block
  the builder had shown it, and each node that has the machine of the chain accepts it for that block at
  its difficulty.
\<close>

theorem mined_seals_accepted:
  assumes "randomx_ok R" and "mining_thread R genesis_hash mode world = Inr (m, seals)" and "seal_bytes \<in> set seals"
    and "vm_key vm = genesis_hash \<or> rx_new R genesis_hash (vm_full vm)"
  shows "\<exists>b taken. (Some b, taken) \<in> set world
    \<and> fst (verify_seal R genesis_hash (bd_pre_hash b) seal_bytes (bd_difficulty b) vm) = Inr True"
proof -
  let ?B = "{b. \<exists>taken. (Some b, taken) \<in> set world}" and ?vm = "\<lparr>vm_key = genesis_hash, vm_full = full_mode mode\<rparr>"
  have run: "miner_run R ?vm world miner_start = (m, seals)"
    using assms(2) by (auto simp: mining_thread_def vm_new_def result_simps)
  have "\<forall>w \<in> set world. case fst w of Some b \<Rightarrow> b \<in> ?B | None \<Rightarrow> True" by (auto split: option.split)
  moreover have "search_ok ?B miner_start" by (simp add: search_ok_def miner_start_def)
  ultimately obtain b where b: "b \<in> ?B" "bd_difficulty b \<noteq> 0" "40 \<le> length seal_bytes"
    "length (vm_hash R ?vm (pow_input (bd_pre_hash b) (seal_nonce seal_bytes))) = 32"
    "be_value (vm_hash R ?vm (pow_input (bd_pre_hash b) (seal_nonce seal_bytes))) \<le> pow_target (bd_difficulty b)"
    using miner_run_seals [of ?B miner_start world seal_bytes R ?vm] assms(3) run by auto
  then have "\<exists>work. rx_hash R False genesis_hash (pow_input (bd_pre_hash b) (seal_nonce seal_bytes)) = Some work
      \<and> be_value work * bd_difficulty b \<le> u256_max"
    using randomx_mode_irrelevant [OF assms(1), of "full_mode mode"]
    by (auto simp: vm_hash_def target_product split: option.splits)
  with b assms(4) verify_seal_iff [OF assms(1)] show ?thesis by auto
qed

text \<open>C20: a miner finds what there is to find: while the block to seal stays the same and its machine never fails to hash,
  it submits a seal within as many turns as lie between its nonce and a winning one, counted around
  \<open>2 ^ 64\<close>; it passes over no nonce.
\<close>

theorem miner_finds_seal:
  assumes "randomx_ok R" and "\<And>input. rx_hash R (vm_full vm) (vm_key vm) input \<noteq> None"
    and "mi_phase m = Searching pre_hash target tried"
    and "\<forall>(meta, taken) \<in> set world. case meta of None \<Rightarrow> True | Some b \<Rightarrow> bd_pre_hash b = pre_hash"
    and "be_value (vm_hash R vm (pow_input pre_hash winner)) \<le> target"
    and "unat (winner - mi_nonce m) < length world"
  shows "snd (miner_run R vm world m) \<noteq> []"
  using assms(3, 4, 6)
proof (induction world arbitrary: m tried)
  case (Cons w world)
  obtain meta taken where w: "w = (meta, taken)" by fastforce
  let ?work = "vm_hash R vm (pow_input pre_hash (mi_nonce m))"
  have len: "length ?work = 32"
    using assms(1, 2) by (auto simp: vm_hash_def randomx_ok_def split: option.split)
  show ?case
  proof (cases "be_value ?work \<le> target")
    case True
    then have "snd (miner_step R vm w m) \<noteq> None" using len Cons.prems(1) by (simp add: w miner_step_def try_nonce_def Let_def)
    then show ?thesis by (auto split: prod.splits option.splits)
  next
    case False
    have "\<not> (case meta of Some b \<Rightarrow> bd_pre_hash b \<noteq> pre_hash | None \<Rightarrow> False)"
      using Cons.prems(2) by (auto simp: w split: option.splits)
    then have step: "miner_step R vm w m = (m\<lparr>mi_nonce := mi_nonce m + 1, mi_total := mi_total m + 1,
        mi_phase := Searching pre_hash target (tried + 1)\<rparr>, None)"
      using False len Cons.prems(1) by (simp add: w miner_step_def try_nonce_def Let_def)
    have "winner \<noteq> mi_nonce m" using False assms(5) by auto
    then have "winner - mi_nonce m \<noteq> 0" by simp
    then have u: "unat (winner - mi_nonce m - 1) = unat (winner - mi_nonce m) - 1" and "0 < unat (winner - mi_nonce m)"
      by (simp_all add: unat_minus_one unat_gt_0)
    have "winner - (mi_nonce m + 1) = winner - mi_nonce m - 1" by simp
    then have "unat (winner - (mi_nonce m + 1)) = unat (winner - mi_nonce m) - 1" using u by (simp only:)
    with \<open>0 < unat (winner - mi_nonce m)\<close> have "unat (winner - (mi_nonce m + 1)) < length world"
      using Cons.prems(3) by simp
    then have "snd (miner_run R vm world (fst (miner_step R vm w m))) \<noteq> []"
      using Cons.prems(2) by (intro Cons.IH [of _ "tried + 1"]) (simp_all add: step)
    then show ?thesis by (simp add: step split: prod.splits)
  qed
qed simp

text \<open>The difficulty the runtime reports is never zero, so no block is left waiting and no seal refused for it.\<close>

lemma reported_difficulty_positive:
  assumes "difficulty_reachable cfg initial_difficulty s" and "initial_difficulty \<le> u256_max" and "df_min cfg \<le> u256_max"
    and "0 < df_min cfg"
  shows "mi_phase (fst (miner_step R vm (Some \<lparr>bd_pre_hash = p, bd_difficulty = current_difficulty s\<rparr>, taken)
      (m\<lparr>mi_phase := AwaitBuild\<rparr>))) = Searching p (pow_target (current_difficulty s)) 0"
  using difficulty_reachable_inv [OF assms(1-3)] assms(4) by (auto simp: miner_step_def)

text \<open>A machine that fails to hash ends the thread: the empty hash counts as zero, which no target is below.\<close>

lemma failed_hash_panics:
  assumes "rx_hash R (vm_full vm) (vm_key vm) (pow_input pre_hash (mi_nonce m)) = None" and "mi_phase m = Searching pre_hash target tried"
  shows "mi_phase (fst (miner_step R vm w m)) = Panicked"
  using assms by (cases w) (simp add: miner_step_def try_nonce_def vm_hash_def Let_def)

text \<open>Outside development chains nothing private may be contacted.\<close>

lemma live_policy_public: "allow_private (node_endpoint_policy c ports port) \<longleftrightarrow> c = Development \<or> c = Local"
  by (simp add: node_endpoint_policy_def split: chain_type.splits)

subsection \<open>Witnesses\<close>

text \<open>A machine with which only nonces whose lowest byte is two win.\<close>

definition demo_randomx :: randomx where
  "demo_randomx = \<lparr>rx_new = (\<lambda>_ _. True),
     rx_hash = (\<lambda>_ _ input. Some (if hd (drop 32 input) = 2 then replicate 32 0 else 255 # replicate 31 0))\<rparr>"

definition demo_build :: build where
  "demo_build = \<lparr>bd_pre_hash = replicate 32 0, bd_difficulty = 10000\<rparr>"

definition demo_light :: randomx_vm where
  "demo_light = \<lparr>vm_key = replicate 32 0, vm_full = False\<rparr>"

lemma demo_randomx_ok: "randomx_ok demo_randomx"
  by (auto simp: randomx_ok_def demo_randomx_def)

lemma demo_tries:
  assumes "length pre_hash = 32"
  shows "hd (drop 32 (pow_input pre_hash n)) = of_nat (unat n mod 256)"
proof -
  have "le_bytes 8 k = of_nat (k mod 256) # le_bytes 7 (k div 256)" for k
    using le_bytes.simps(2) [of 7 k] by simp
  with assms show ?thesis by (simp add: pow_input_def)
qed

lemma demo_hash:
  "vm_hash demo_randomx v (pow_input (replicate 32 0) n) = (if of_nat (unat n mod 256) = (2 :: 8 word) then replicate 32 0 else 255 # replicate 31 0)"
  by (simp add: vm_hash_def demo_randomx_def demo_tries)

lemma demo_values: "be_value (replicate 32 0) \<le> pow_target 10000" "\<not> be_value (255 # replicate 31 0) \<le> pow_target 10000"
  by (simp_all add: be_value_zeros pow_target_def u256_max_def)

theorem verify_seal_iff_witness:
  "fst (verify_seal demo_randomx [7] (replicate 32 0) (seal_encode \<lparr>ps_nonce = 2, ps_work = replicate 32 9\<rparr>) 10000 demo_light) = Inr True"
proof -
  have "seal_nonce (seal_encode \<lparr>ps_nonce = 2, ps_work = replicate 32 9\<rparr>) = 2" by (simp add: seal_nonce_encode)
  moreover have "length (seal_encode \<lparr>ps_nonce = 2, ps_work = replicate 32 9\<rparr>) = 40" by (simp add: seal_encode_def)
  ultimately show ?thesis
    unfolding verify_seal_iff [OF demo_randomx_ok] by (simp add: demo_randomx_def demo_tries be_value_zeros)
qed

lemma demo_mined:
  "\<exists>m. mining_thread demo_randomx (replicate 32 0) Fast (replicate 4 (Some demo_build, True))
     = Inr (m, [seal_encode \<lparr>ps_nonce = 2, ps_work = replicate 32 0\<rparr>])"
proof -
  have four: "replicate 4 x = [x, x, x, x]" for x :: "build option \<times> bool" by (simp add: eval_nat_numeral)
  show ?thesis
    using demo_values unfolding four
    by (simp add: mining_thread_def vm_new_def full_mode_def miner_start_def miner_step_def try_nonce_def demo_build_def
        demo_hash Let_def) (simp add: demo_randomx_def)
qed

theorem mined_seals_accepted_witness:
  "fst (verify_seal demo_randomx (replicate 32 0) (replicate 32 0) (seal_encode \<lparr>ps_nonce = 2, ps_work = replicate 32 0\<rparr>) 10000 demo_light)
     = Inr True"
proof -
  obtain m where m: "mining_thread demo_randomx (replicate 32 0) Fast (replicate 4 (Some demo_build, True))
     = Inr (m, [seal_encode \<lparr>ps_nonce = 2, ps_work = replicate 32 0\<rparr>])" using demo_mined by blast
  have "vm_key demo_light = replicate 32 0 \<or> rx_new demo_randomx (replicate 32 0) (vm_full demo_light)" by (simp add: demo_light_def)
  from mined_seals_accepted [OF demo_randomx_ok m _ this] show ?thesis by (auto simp: demo_build_def)
qed

theorem miner_finds_seal_witness:
  "snd (miner_run demo_randomx demo_light (replicate 3 (None, False))
     \<lparr>mi_nonce = 0, mi_total = 0, mi_phase = Searching (replicate 32 0) (pow_target 10000) 0\<rparr>) \<noteq> []"
proof (rule miner_finds_seal [where winner = 2])
  show "randomx_ok demo_randomx" by (rule demo_randomx_ok)
  show "rx_hash demo_randomx (vm_full demo_light) (vm_key demo_light) input \<noteq> None" for input by (simp add: demo_randomx_def)
  show "be_value (vm_hash demo_randomx demo_light (pow_input (replicate 32 0) 2)) \<le> pow_target 10000"
    using demo_values by (simp add: demo_hash)
qed (auto simp: split: if_splits)

end
