(* ===== verification/Node_Start.thy ===== *)
theory Node_Start
  imports Mining
begin

text \<open>
  The start of a chain node: which chain it runs (\<open>src/apps/blockchain/node/src/command.rs\<close>,
  \<open>chain_spec.rs\<close>), the check and the shortening of onion addresses. Strings are ASCII. Accounts and keys are
  named by the seeds they come from; chain specifications in files are a parameter.
\<close>

subsection \<open>Chains\<close>

record chain_spec =
  cs_name :: string
  cs_id :: string
  cs_type :: chain_type
  cs_authorities :: "string list"
  cs_root :: string
  cs_balances :: "(string \<times> nat) list"
  cs_storage_pool :: nat
  cs_reaction_pool :: nat
  cs_reaction_difficulty :: nat

definition testnet_genesis :: "string list \<Rightarrow> string \<Rightarrow> string list \<Rightarrow> chain_spec \<Rightarrow> chain_spec" where
  "testnet_genesis initial_grandpa_authorities root_key endowed_accounts spec = spec\<lparr>
     cs_authorities := initial_grandpa_authorities, cs_root := root_key,
     cs_balances := map (\<lambda>k. (k, 10000000000000000)) endowed_accounts,
     cs_storage_pool := 100000000000000000, cs_reaction_pool := 100000000000000000, cs_reaction_difficulty := 16\<rparr>"

definition named_spec :: "string \<Rightarrow> string \<Rightarrow> chain_type \<Rightarrow> chain_spec" where
  "named_spec name i ty = \<lparr>cs_name = name, cs_id = i, cs_type = ty, cs_authorities = [], cs_root = [], cs_balances = [],
     cs_storage_pool = 0, cs_reaction_pool = 0, cs_reaction_difficulty = 0\<rparr>"

definition test_accounts :: "string list" where
  "test_accounts = [''Alice'', ''Bob'', ''Charlie'', ''Dave'', ''Eve'', ''Ferdie'', ''Alice//stash'', ''Bob//stash'']"

definition development_config :: chain_spec where
  "development_config = testnet_genesis [''Alice''] ''Alice'' test_accounts (named_spec ''Development'' ''dev'' Development)"

definition local_testnet_config :: chain_spec where
  "local_testnet_config = testnet_genesis [''Alice'', ''Bob''] ''Alice'' test_accounts (named_spec ''Local Testnet'' ''local_testnet'' Local)"

definition load_spec :: "(string \<Rightarrow> chain_spec option) \<Rightarrow> string \<Rightarrow> chain_spec option" where
  "load_spec from_json_file i = (if i = ''dev'' then Some development_config
     else if i = '''' \<or> i = ''local'' then Some local_testnet_config else from_json_file i)"

text \<open>
  A node that is told no chain runs the local test network, whose keys are public, and may contact
  private addresses; a chain from a file decides by its type.
\<close>

lemma default_chain_private:
  "load_spec files '''' = Some spec \<Longrightarrow> allow_private (node_endpoint_policy (cs_type spec) ports port)"
  "load_spec files i = Some spec \<Longrightarrow> cs_type spec = Live \<Longrightarrow> \<not> allow_private (node_endpoint_policy (cs_type spec) ports port)"
  by (auto simp: load_spec_def local_testnet_config_def named_spec_def testnet_genesis_def node_endpoint_policy_def)

text \<open>The pools start with more than all accounts hold together.\<close>

lemma genesis_amounts:
  "sum_list (map snd (cs_balances development_config)) = 80000000000000000
    \<and> sum_list (map snd (cs_balances development_config)) < cs_storage_pool development_config"
  by (simp add: development_config_def testnet_genesis_def named_spec_def test_accounts_def)

subsection \<open>Onion addresses\<close>

fun find_sub :: "string \<Rightarrow> string \<Rightarrow> nat option" where
  "find_sub p s = (if take (length p) s = p then Some 0 else case s of [] \<Rightarrow> None | c # cs \<Rightarrow> map_option Suc (find_sub p cs))"

declare find_sub.simps [simp del]

definition split_once :: "char \<Rightarrow> string \<Rightarrow> (string \<times> string) option" where
  "split_once c s = (case dropWhile (\<lambda>x. x \<noteq> c) s of [] \<Rightarrow> None | _ # after \<Rightarrow> Some (takeWhile (\<lambda>x. x \<noteq> c) s, after))"

definition onion_prefix :: string where "onion_prefix = ''/onion3/''"

definition base32_chars :: "char set" where "base32_chars = set ''abcdefghijklmnopqrstuvwxyz234567''"

datatype onion_error = NoOnionPrefix | NoOnionPort | OnionLength nat | OnionCharacter char

definition validate_onion_address :: "string \<Rightarrow> (onion_error, unit) result" where
  "validate_onion_address addr =
     ensure (take (length onion_prefix) addr = onion_prefix) NoOnionPrefix (
     ok_or (split_once CHR '':'' (drop (length onion_prefix) addr)) NoOnionPort (\<lambda>(base32_part, port).
     ensure (length base32_part = 56) (OnionLength (length base32_part)) (
     case filter (\<lambda>c. c \<notin> base32_chars) base32_part of [] \<Rightarrow> Inr () | c # _ \<Rightarrow> Inl (Err (OnionCharacter c)))))"

definition validate_public_addresses :: "string list \<Rightarrow> (onion_error, unit) result" where
  "validate_public_addresses addrs =
     fold (\<lambda>addr r. bind_ok r (\<lambda>_. if find_sub onion_prefix addr \<noteq> None then validate_onion_address addr else Inr ())) addrs (Inr ())"

text \<open>Shortening: the first six and the last six characters of the address stay.\<close>

definition sanitize_onion_in_string :: "string \<Rightarrow> string" where
  "sanitize_onion_in_string s = (case find_sub onion_prefix s of
       None \<Rightarrow> s
     | Some start \<Rightarrow>
         (let rest = drop (start + 8) s in
          if length s < start + 8 + 56 then s
          else case split_once CHR '':'' rest of
                 None \<Rightarrow> s
               | Some (before, after) \<Rightarrow>
                   take start s @ onion_prefix @ take 6 rest @ ''...'' @ take 6 (drop 50 rest) @ CHR '':'' # after))"

lemma split_once_Some: "split_once c s = Some (a, b) \<longleftrightarrow> s = a @ c # b \<and> c \<notin> set a"
proof
  assume *: "split_once c s = Some (a, b)"
  then obtain x where x: "dropWhile (\<lambda>x. x \<noteq> c) s = x # b" "a = takeWhile (\<lambda>x. x \<noteq> c) s"
    by (auto simp: split_once_def split: list.splits)
  then have "x = c" using hd_dropWhile [of "\<lambda>x. x \<noteq> c" s] by auto
  then have "s = a @ c # b" using takeWhile_dropWhile_id [of "\<lambda>x. x \<noteq> c" s] x by simp
  moreover have "c \<notin> set a" using x(2) by (auto dest: set_takeWhileD)
  ultimately show "s = a @ c # b \<and> c \<notin> set a" ..
next
  have "c \<notin> set a \<Longrightarrow> dropWhile (\<lambda>x. x \<noteq> c) (a @ c # b) = c # b \<and> takeWhile (\<lambda>x. x \<noteq> c) (a @ c # b) = a"
    by (induction a) auto
  moreover assume "s = a @ c # b \<and> c \<notin> set a"
  ultimately show "split_once c s = Some (a, b)" by (simp add: split_once_def)
qed

text \<open>
  An address is accepted exactly when it is the prefix, 56 characters of base 32, a colon and anything; what
  follows the colon is left to the parser of addresses.
\<close>

lemma onion_valid_iff:
  "validate_onion_address addr = Inr () \<longleftrightarrow>
     (\<exists>name port. addr = onion_prefix @ name @ CHR '':'' # port \<and> length name = 56 \<and> set name \<subseteq> base32_chars)"
proof -
  have colon: "CHR '':'' \<notin> base32_chars" by (simp add: base32_chars_def)
  have chars: "(case filter (\<lambda>c. c \<notin> base32_chars) name of [] \<Rightarrow> Inr () | c # _ \<Rightarrow> Inl (Err (OnionCharacter c))) = Inr ()
      \<longleftrightarrow> set name \<subseteq> base32_chars" for name
    by (auto simp: filter_empty_conv split: list.splits) (metis (mono_tags, lifting) filter_empty_conv list.distinct(1) subset_iff)
  have "take (length onion_prefix) addr = onion_prefix \<longleftrightarrow> (\<exists>rest. addr = onion_prefix @ rest)"
    by (metis append_eq_conv_conj append_take_drop_id)
  then show ?thesis
    using colon by (auto simp: validate_onion_address_def result_simps chars split_once_Some split: prod.splits) blast+
qed

text \<open>The shortened form hides the middle of the address and keeps everything around it.\<close>

lemma sanitized:
  assumes "find_sub onion_prefix (before @ onion_prefix @ name @ CHR '':'' # after) = Some (length before)"
    and "length name = 56" and "CHR '':'' \<notin> set name"
  shows "sanitize_onion_in_string (before @ onion_prefix @ name @ CHR '':'' # after)
    = before @ onion_prefix @ take 6 name @ ''...'' @ drop 50 name @ CHR '':'' # after"
proof -
  have "split_once CHR '':'' (name @ CHR '':'' # after) = Some (name, after)" using assms(3) by (simp add: split_once_Some)
  moreover have "length onion_prefix = 8" by (simp add: onion_prefix_def)
  ultimately show ?thesis using assms(1, 2) by (simp add: sanitize_onion_in_string_def Let_def)
qed

end
