(* ===== verification/Runtime_Api.thy ===== *)
theory Runtime_Api
  imports Mining Storage_Pallet Reaction Stealth Base_Fee Faucet Block_Reward
begin

text \<open>
  What the runtime (\<open>src/apps/blockchain/runtime/src/lib.rs\<close>) reads for the node: the author of a block from
  its digest, the difficulty for the proof of work, and the snapshot of the economy. An account is the
  number its 32 bytes are in big-endian order.
\<close>

subsection \<open>The author of a block\<close>

definition pow_engine_id :: bytes where "pow_engine_id = [0x70, 0x6f, 0x77, 0x5f]"

definition decode_account :: "bytes \<Rightarrow> account_id option" where
  "decode_account bs = (if 32 \<le> length bs then Some (be_value (take 32 bs)) else None)"

text \<open>Pre-runtime digests are pairs of an engine and its data; one of the engine that does not decode is passed over.\<close>

fun find_author :: "(bytes \<times> bytes) list \<Rightarrow> account_id option" where
  "find_author [] = None"
| "find_author ((engine, data) # digests) =
     (if engine = pow_engine_id then (case decode_account data of Some a \<Rightarrow> Some a | None \<Rightarrow> find_author digests)
      else find_author digests)"

lemma find_author_first:
  assumes "\<forall>(engine, data) \<in> set earlier. engine = pow_engine_id \<longrightarrow> length data < 32" and "length coinbase = 32"
  shows "find_author (earlier @ (pow_engine_id, coinbase) # later) = Some (be_value coinbase)"
  using assms by (induction earlier) (auto simp: decode_account_def)

lemma find_author_None:
  "find_author digests = None \<longleftrightarrow> (\<forall>(engine, data) \<in> set digests. engine = pow_engine_id \<longrightarrow> length data < 32)"
  by (induction digests rule: find_author.induct) (auto simp: decode_account_def)

text \<open>
  The account a miner puts into the first digest of its engine is paid the share of the miner, and a
  block without such a digest pays nobody.
\<close>

lemma coinbase_paid:
  assumes "\<forall>(engine, data) \<in> set earlier. engine = pow_engine_id \<longrightarrow> length data < 32" and "length coinbase = 32"
    and "current_reward cfg n = Some tot" and "0 < br_mul_floor cfg (br_miner_share cfg) tot" and "0 < tot"
    and "sat_add u64_max (sat_add u64_max (br_miner_share cfg) (br_storage_share cfg)) (br_reaction_share cfg) \<le> 1000000"
  shows "\<exists>es' p'. block_reward_on_finalize cfg cur n (find_author (earlier @ (pow_engine_id, coinbase) # later)) (es, c, p)
    = Some (es', cur_deposit cur (be_value coinbase) (br_mul_floor cfg (br_miner_share cfg) tot) c, p')"
  using assms(3-6) find_author_first [OF assms(1, 2), of later] by (simp add: block_reward_on_finalize_def Let_def)

lemma no_author_no_reward:
  assumes "\<forall>(engine, data) \<in> set digests. engine = pow_engine_id \<longrightarrow> length data < 32"
  shows "block_reward_on_finalize cfg cur n (find_author digests) (es, c, p) = Some (es @ [BlockRewardSkipped NoAuthor], c, p)"
  using assms find_author_None [of digests] by (simp add: block_reward_on_finalize_def)

subsection \<open>The economy\<close>

text \<open>\<open>total_active_bond\<close> and \<open>total_issuance\<close> are \<open>u128\<close> already, so their saturating conversion keeps them.\<close>

definition snapshot ::
  "storage_state \<Rightarrow> reaction_state \<Rightarrow> stealth_state \<Rightarrow> base_fee_state \<Rightarrow> stake_state \<Rightarrow> faucet_state \<Rightarrow> nat \<Rightarrow> economic_snapshot" where
  "snapshot st re sl fe sk fa issuance =
     \<lparr>sp_storage_pool = reward_pool st, sp_reaction_pool = reaction_reward_pool re,
      sp_stealth_pool = stealth_reward_pool sl, sp_base_fee = base_fee fe, sp_total_active_bond = active_total sk,
      sp_faucet_minted = total_minted fa, sp_total_issuance = issuance, sp_gas_used_this_block = gas_used_this_block fe,
      sp_reactor_locks_count = reactor_locks_count re\<rparr>"

text \<open>
  A unit of the currency is \<open>10 ^ 12\<close>: the gauges show at most about 18.4 million units; from there on they
  stand still, whatever the chain holds.
\<close>

lemma gauge_saturates:
  "u64_max \<le> issuance \<Longrightarrow> sp_total_issuance (collect_gauges (Some (snapshot st re sl fe sk fa issuance)) g) = u64_max"
  "u64_max < 18446745 * 10 ^ 12"
  by (auto simp: collect_gauges_def snapshot_def saturating_u128_to_u64_def u64_max_def)

end
