(* ===== verification/Runtime_Config.thy ===== *)
theory Runtime_Config
  imports Post Messaging Economic_Params Faucet Difficulty Grandpa_Election Stealth
begin

text \<open>
  The configuration of the runtime (\<open>src/apps/blockchain/runtime/src/lib.rs\<close>): the constants each pallet
  runs with and which pallet stands behind each of its interfaces. What has no counterpart in the
  repository (hashes, signatures, encodings, the currency) stays an argument. The lemmas apply the
  theorems of the pallets at these constants.
\<close>

subsection \<open>Pallets\<close>

definition runtime_difficulty :: difficulty_config where
  "runtime_difficulty = \<lparr>df_target_block_time = 30000, df_window = 60, df_min = 100\<rparr>"

definition runtime_election :: "((grandpa_id \<times> nat) list \<Rightarrow> nat \<Rightarrow> 'g \<Rightarrow> 'g option) \<Rightarrow> 'g election_config" where
  "runtime_election schedule_change = \<lparr>gc_window_size = 100, gc_authority_count = 10, gc_rotation_period = 600,
     gc_rotation_delay = 10, gc_schedule_change = schedule_change\<rparr>"

definition runtime_stake :: stake_config where
  "runtime_stake = \<lparr>sk_bond_per_gb = 10000000000000, sk_min_capacity = 1073741824, sk_release_delay = 100800,
     sk_burn_share = 300000, sk_mul_floor = floor_permill\<rparr>"

text \<open>The storage pallet takes its bonds from the stake pallet and its tokens from the balances.\<close>

definition runtime_storage ::
  "'c currency \<Rightarrow> (bytes \<Rightarrow> bytes) \<Rightarrow> (bytes \<Rightarrow> nat \<Rightarrow> bytes \<Rightarrow> bytes \<Rightarrow> bool option) \<Rightarrow> (stake_state \<times> 'c) storage_config" where
  "runtime_storage cur blake2_256 verify_kzg =
     \<lparr>sc_max_fragment_size = 1073741824, sc_max_peer_id_len = 64, sc_max_holders = 100, sc_max_fragments_per_node = 10000,
      sc_min_peer_id_len = 38, sc_max_registrations = 5, sc_max_declarations = 10, sc_min_capacity = 1073741824,
      sc_pow_period = 10, sc_base_pow_difficulty = 12, sc_reward_per_byte = 5000, sc_score_threshold = 100,
      sc_score_margin = 20, sc_max_challenges = 10, sc_min_withdrawal = 500000000000000,
      sc_pool_target = 500000000000000000, sc_slash_rate_ppm = 50000,
      sc_has_bond = stake_has_bond, sc_bond_amount = stake_bond_amount, sc_active_bond = stake_active_bond,
      sc_slash_bond = do_slash_bond runtime_stake cur,
      sc_mint_into = (\<lambda>who amount (s, c). map_option (\<lambda>c'. (s, c')) (cur_mint cur who amount c)),
      sc_blake2_256 = blake2_256, sc_verify_kzg = verify_kzg\<rparr>"

definition runtime_post :: "economic_state \<Rightarrow> post_config" where
  "runtime_post es = \<lparr>pt_max_content_length = 1073741824, pt_base_cost = 25000000000000, pt_byte_cost = 800000000,
     pt_storage_share = effective_post_storage_share runtime_economic es,
     pt_reaction_share = effective_post_reaction_share runtime_economic es, pt_mul_floor = floor_permill\<rparr>"

definition dm_base_cost :: nat where "dm_base_cost = 250000000000"
definition dm_byte_cost :: nat where "dm_byte_cost = 40000000000"
definition max_dm_ciphertext_len :: nat where "max_dm_ciphertext_len = 262144"

definition runtime_messaging :: "economic_state \<Rightarrow> messaging_config" where
  "runtime_messaging es = \<lparr>mc_max_dispatches = 256, mc_base_cost = dm_base_cost, mc_byte_cost = dm_byte_cost,
     mc_max_ciphertext_len = max_dm_ciphertext_len, mc_storage_share = effective_dm_storage_share runtime_economic es,
     mc_stealth_share = effective_dm_stealth_share runtime_economic es, mc_mul_floor = floor_permill\<rparr>"

definition runtime_faucet ::
  "(block_number \<Rightarrow> bytes) \<Rightarrow> (account_id \<Rightarrow> bytes) \<Rightarrow> (bytes \<Rightarrow> bytes) \<Rightarrow> faucet_config" where
  "runtime_faucet block_hash encode blake2_256 = \<lparr>fc_base_difficulty = 18, fc_scaling_factor = 1000, fc_max_difficulty = 28,
     fc_reward_amount = 100000000000000, fc_challenge_validity = 100, fc_total_cap = 100000000000000000,
     fc_block_hash = block_hash, fc_encode = encode, fc_blake2_256 = blake2_256\<rparr>"

text \<open>The correspondence verifier is the unit implementation.\<close>

definition runtime_stealth ::
  "(bytes \<Rightarrow> bytes \<Rightarrow> hash256 \<Rightarrow> bool) \<Rightarrow> (account_id \<Rightarrow> hash256 \<Rightarrow> bytes) \<Rightarrow> (account_id \<Rightarrow> nat \<Rightarrow> 'c \<Rightarrow> bool) \<Rightarrow> 'c stealth_config" where
  "runtime_stealth ed25519_verify encode_claim funds_unavailable = \<lparr>xc_max_entries = 100, xc_claim_cap_ppm = 100000,
     xc_verify_correspondence = unit_verify, xc_ed25519_verify = ed25519_verify, xc_encode_claim = encode_claim,
     xc_funds_unavailable = funds_unavailable\<rparr>"

definition runtime_reaction_reward :: nat where "runtime_reaction_reward = 1000000000000"

text \<open>The constants of the reaction pallet; its interfaces are those of \<^const>\<open>reaction_wiring\<close>.\<close>

definition runtime_reaction :: "'p reaction_config \<Rightarrow> 'p reaction_config" where
  "runtime_reaction rc = rc\<lparr>rc_reaction_reward := runtime_reaction_reward, rc_min_difficulty := 8, rc_max_difficulty := 32,
     rc_validity := 100, rc_target_rate := 10, rc_window := 10, rc_divisor := 4, rc_gamma_max_ppm := 10000,
     rc_decay_k := 100, rc_payout_cap_ppm := 17, rc_lock_min := 100000000000, rc_lock_duration := 2880\<rparr>"

subsection \<open>Governance\<close>

text \<open>Who calls: the root account, a number of council members out of all, or an account.\<close>

datatype runtime_origin = RootOrigin | MembersOrigin nat nat | SignedOrigin account_id

definition economic_governance_origin :: "runtime_origin \<Rightarrow> bool" where
  "economic_governance_origin origin = (case origin of
       RootOrigin \<Rightarrow> True
     | MembersOrigin n m \<Rightarrow> 1 * m \<le> 2 * n
     | SignedOrigin _ \<Rightarrow> False)"

text \<open>Half of a council of even size suffices, so both halves can: it is no majority.\<close>

lemma half_of_council_governs: "economic_governance_origin (MembersOrigin n (2 * n))"
  by (simp add: economic_governance_origin_def)

subsection \<open>What the constants give\<close>

text \<open>Mining never meets a zero difficulty, whatever the genesis.\<close>

lemma runtime_difficulty_floor:
  assumes "difficulty_reachable runtime_difficulty initial_difficulty s" and "initial_difficulty \<le> u256_max"
  shows "100 \<le> current_difficulty s" and "current_difficulty s \<le> u256_max"
  using difficulty_reachable_inv [OF assms] by (simp_all add: runtime_difficulty_def u256_max_def)

text \<open>Whatever the council decides, the shares of a cost never exceed it.\<close>

lemma runtime_shares:
  assumes "economic_reachable runtime_economic es"
  shows "floor_permill (pt_storage_share (runtime_post es)) x + floor_permill (pt_reaction_share (runtime_post es)) x \<le> x"
    and "floor_permill (mc_storage_share (runtime_messaging es)) x + floor_permill (mc_stealth_share (runtime_messaging es)) x \<le> x"
  using economic_shares_bounded [OF assms runtime_economic_bounds floor_permill_law, of x]
  by (simp_all add: runtime_post_def runtime_messaging_def)

text \<open>The faucet serves a thousand accounts, then never again.\<close>

lemma runtime_faucet_thousand:
  assumes "faucet_reachable (runtime_faucet bh enc blake) cur c0 (s, c)" and "currency_laws cur" and "cur_ok cur c0"
  shows "card (dom (faucet_claims s)) \<le> 1000" and "total_minted s \<le> 100000 * 10 ^ 12"
proof -
  have "faucet_inv (runtime_faucet bh enc blake) s" using faucet_reachable_inv [OF assms] by blast
  then show "card (dom (faucet_claims s)) \<le> 1000" and "total_minted s \<le> 100000 * 10 ^ 12"
    by (auto simp: faucet_inv_def runtime_faucet_def)
qed

text \<open>One payment of the faucet is enough for three posts that contain anything, and never for four.\<close>

lemma faucet_pays_three_posts:
  assumes "0 < n" and "n \<le> 1073741824" and "fee \<le> 100000000000"
  shows "fc_reward_amount (runtime_faucet bh enc blake) < 4 * post_total_cost (runtime_post es) fee n"
    and "fee = 100 \<Longrightarrow> n \<le> 10000 \<Longrightarrow> 3 * post_total_cost (runtime_post es) fee n \<le> fc_reward_amount (runtime_faucet bh enc blake)"
proof -
  have "n * fee \<le> 1073741824 * 100000000000" using assms(2, 3) by (rule mult_le_mono)
  then have cost: "post_total_cost (runtime_post es) fee n = 25000000000000 + n * 800000000 + n * fee"
    using assms(2) by (simp add: post_total_cost_def post_distributable_def runtime_post_def sat_add_def sat_mul_def u128_max_def)
  show "fc_reward_amount (runtime_faucet bh enc blake) < 4 * post_total_cost (runtime_post es) fee n"
    using assms(1) by (simp add: cost runtime_faucet_def)
  show "fee = 100 \<Longrightarrow> n \<le> 10000 \<Longrightarrow> 3 * post_total_cost (runtime_post es) fee n \<le> fc_reward_amount (runtime_faucet bh enc blake)"
    using cost by (simp add: runtime_faucet_def)
qed

text \<open>
  A failed challenge slashes a part of the bond that is left, so ten failures in a row take about two
  fifths of it, not a half.
\<close>

definition bond_after_slash :: "'c currency \<Rightarrow> nat \<Rightarrow> nat" where
  "bond_after_slash cur b = b - sat_mul u128_max b (sc_slash_rate_ppm (runtime_storage cur (\<lambda>_. []) (\<lambda>_ _ _ _. None))) div 1000000"

lemma slash_keeps_share:
  assumes "b * 50000 \<le> u128_max"
  shows "95 ^ k * b \<le> 100 ^ k * (bond_after_slash cur ^^ k) b" and "(bond_after_slash cur ^^ k) b \<le> b"
proof (induction k)
  case (Suc k)
  {
    case 1
    let ?x = "(bond_after_slash cur ^^ k) b"
    have "?x * 50000 \<le> u128_max" using Suc(2) assms by linarith
    then have "95 * ?x \<le> 100 * bond_after_slash cur ?x"
      by (simp add: bond_after_slash_def runtime_storage_def sat_mul_def)
    then have step: "100 ^ k * (95 * ?x) \<le> 100 ^ k * (100 * bond_after_slash cur ?x)" by (rule mult_le_mono2)
    have "95 ^ Suc k * b = 95 * (95 ^ k * b)" by (simp only: power_Suc mult.assoc)
    also have "\<dots> \<le> 95 * (100 ^ k * ?x)" using Suc(1) by (rule mult_le_mono2)
    also have "\<dots> = 100 ^ k * (95 * ?x)" by (simp only: mult.left_commute)
    also note step
    also have "100 ^ k * (100 * bond_after_slash cur ?x) = 100 ^ Suc k * (bond_after_slash cur ^^ Suc k) b"
      by (simp only: power_Suc funpow.simps o_apply ac_simps)
    finally show ?case .
  next
    case 2
    have "bond_after_slash cur x \<le> x" for x by (simp add: bond_after_slash_def)
    from this [of "(bond_after_slash cur ^^ k) b"] Suc(2) show ?case by simp
  }
qed simp_all

lemma ten_slashes_leave_most:
  assumes "b * 50000 \<le> u128_max"
  shows "59 * b \<le> 100 * (bond_after_slash cur ^^ 10) b"
proof -
  let ?y = "(bond_after_slash cur ^^ 10) b"
  have "95 ^ 10 * b \<le> 100 ^ 10 * ?y" by (rule slash_keeps_share [OF assms])
  then show ?thesis by simp
qed

end
