(* ===== verification/Spec2Isabelle.thy ===== *)
theory Spec2Isabelle
  imports
    Storage_Stake Storage_Registry Storage_Repair Storage_Challenges Base_Fee Block_Reward
    Difficulty Popularity Reaction Post Stealth Messaging Economic_Params Faucet Grandpa_Election
    Kzg_Vss Hybrid Wallet Dm_Crypto Node_Auth Fragment_Store
    Node_Gossip Nickname Storage_Rpc Wasm_Bindings Kzg_Prover Challenge_Monitor Node_Rpc Self_Repair Upload_Path
    Node_Start Runtime_Api Runtime_Config
begin

text \<open>
  A model of the core of anarchy: a Substrate block chain whose blocks are found by proof of work,
  finalised by GRANDPA, and whose users publish posts, react to them, send sealed messages and store
  the content on rewarded storage nodes; the daemon those nodes run; and the engine in the user's
  browser that encrypts, splits and signs what is published.

  The chain. Its consensus logic lies in the pallets under \<open>src/apps/blockchain/pallets\<close>,
  which \<open>src/apps/blockchain/runtime/src/lib.rs\<close> wires together. A pallet is a set of
  storage items, dispatchables that change them in a storage layer (an error rolls everything
  back), hooks at the end of a block, and traits through which other pallets call it. The model
  follows this: each pallet's storage is a record, each dispatchable and hook a function on it that
  returns the new state and the events or an error, and each trait another pallet implements is
  either composed in place or a parameter. Balances, block numbers and counters are natural
  numbers with every saturating, checked or truncating operation of the code written out
  (\<open>sat_add\<close>, \<open>checked_sub\<close>, casts as \<open>mod\<close>); hashes,
  signatures, the Blake2b function and the KZG verifier are parameters.

  Foundations.
  \<^item> \<open>Prelude\<close>: error results, widths and saturating arithmetic, lemma collections, lists and
    association lists.
  \<^item> \<open>Frame\<close>: the ledger (free, reserved, issuance; reserve, unreserve, burn, mint, withdraw) and
    Substrate's bounded vectors; what each keeps of the total.
  \<^item> \<open>Pow\<close> (\<open>primitives/pow\<close>, \<open>storage/pow.rs\<close>, \<open>storage/rate_limit.rs\<close>), \<open>Ppm_Math\<close> and
    \<open>Rewards\<close> (\<open>storage/rewards.rs\<close>): bit counting of hashes, the integer square root, the
    reward of a holding proof.

  Storage market.
  \<^item> \<open>Storage_Stake\<close> (\<open>storage_stake/lib.rs\<close>): bonding, release and slashing; a reachability
    relation and its invariant.
  \<^item> \<open>Storage_Pallet\<close> (\<open>storage/lib.rs\<close>): the state and all operations of the storage pallet.
    \<open>Storage_Registry\<close> holds the invariant of nodes and holdings with its refinement to a
    relation, \<open>Storage_Repair\<close> eviction, repair and the reachable states, \<open>Storage_Challenges\<close>
    challenges, proofs, slashing and reward claims.

  Economy.
  \<^item> \<open>Base_Fee\<close>, \<open>Block_Reward\<close>, \<open>Difficulty\<close> (with \<open>lwma.rs\<close>), \<open>Economic_Params\<close>, \<open>Faucet\<close>,
    \<open>Grandpa_Election\<close>: one theory for each pallet of that name.

  Content.
  \<^item> \<open>Popularity\<close> (with \<open>decay.rs\<close>): decay, the round robin scan and the deletion policy; a
    locale states what the policy needs of the pallet that deletes posts.
  \<^item> \<open>Reaction\<close>: proof of work reactions, payouts, locks and the difficulty of a reaction; what
    happens to the pool within a block, deposits included.
  \<^item> \<open>Post\<close>: posting, the composition of post, storage, popularity and reaction pallets as one
    chain state with a step relation, and the interpretation of the popularity policy's locale.
  \<^item> \<open>Stealth\<close> and \<open>Messaging\<close>: stealth receives and claims; message keys, messages, the scan
    interface of the runtime, and the later states of the pallet, which forget no message.

  \<^item> \<open>Nickname\<close> with \<open>Utf8\<close> (\<open>nickname/lib.rs\<close>): names and the UTF-8 check of the standard library,
    characterised by the encodings of scalar values.

  Chain node (\<open>src/apps/blockchain/node/src\<close>).
  \<^item> \<open>Ip_Address\<close>, \<open>Endpoint_Policy\<close> (\<open>rpc/endpoint_policy.rs\<close>): addresses, URLs, and which of them
    the node may contact; equivalent to a list of address blocks.
  \<^item> \<open>Node_Registry\<close> (\<open>rpc/mod.rs\<close>), \<open>Node_Gossip\<close> (\<open>gossip/mod.rs\<close>): the registry of storage nodes
    with its rate limit, registration by RPC, gossip; the states one node reaches, with what the resolver
    answered on the way, and the flooding
    of a network of nodes with a measure that shows it ends.
  \<^item> \<open>Storage_Api\<close> (the storage interface of the runtime) and \<open>Storage_Rpc\<close> (\<open>rpc/storage.rs\<close>): checking
    fragments and shards, choosing a storage node, forwarding, and the queries; where requests go,
    that fragments are spread and found, and that the other side accepts what the node sends.
  \<^item> \<open>Mining\<close> (\<open>pow/\<close>, the mining thread of \<open>service.rs\<close>, \<open>economic_metrics.rs\<close>): seals, their verification,
    and the search for nonces as a machine that takes one turn per observation of the block builder; what
    miners find is what verifiers accept. \<open>Node_Start\<close> (\<open>command.rs\<close>, \<open>chain_spec.rs\<close>): the chains a node can
    run and onion addresses. \<open>Runtime_Api\<close>: the author of a block, who is paid its reward, and the snapshot
    of the economy. \<open>Runtime_Config\<close>: the constants the runtime gives its pallets, and what the pallets'
    theorems say at these constants.

  Storage node daemon (\<open>src/apps/storage-node/src\<close>).
  \<^item> \<open>Fragment_Store\<close> (\<open>storage/mod.rs\<close>, \<open>storage/metadata.rs\<close>): the database of fragments with
    its byte counter, the touch buffer and least-recently-used eviction. Tables are red-black trees in
    key order, a transaction is one function. A step relation gives the reachable stores and their
    accounting invariant.
  \<^item> \<open>Node_Auth\<close> (\<open>rpc/auth.rs\<close>, the check in \<open>rpc/mod.rs\<close>): signed requests, the nonce cache with
    its collection, and the middleware; replay is studied over runs of validations and collections.
  \<^item> \<open>Kzg_Prover\<close> with \<open>Srs_Text\<close> and \<open>Rust_Text\<close> (\<open>prover.rs\<close>, \<open>pallets/storage/src/kzg.rs\<close>,
    \<open>kzg/srs.rs\<close>): both formats of the reference string, the prover of the daemon and the verifier
    of the chain; proofs of honest nodes are accepted and equal those of the browser engine.

  \<^item> \<open>Peer_Caches\<close> (\<open>network/endpoint_cache.rs\<close>, \<open>storage_node_cache.rs\<close>, \<open>reputation.rs\<close>): what the node
    remembers of chain nodes, storage nodes and peers, and which URLs it takes over.
  \<^item> \<open>Peer_Network\<close> (\<open>network/gossip.rs\<close>, \<open>network/mod.rs\<close>): signed messages, frames, the requests and
    events of peers; whose messages are believed, against a log of what the holder of a key has announced,
    what arrives, and what a peer can write.
  \<^item> \<open>Chain_Client\<close> (\<open>chain/\<close>): the connection to a chain node and the genesis hash it is pinned to,
    failover, rate limit, transactions and the registration, which the chain node accepts.
  \<^item> \<open>Challenge_Monitor\<close> (\<open>challenge.rs\<close>): challenges and proofs; \<open>Node_Gc\<close> (\<open>gc/\<close>): collection after a
    grace period; \<open>Self_Repair\<close> (\<open>repair/\<close>): the repair protocol, with its placeholders.
  \<^item> \<open>Node_Metrics\<close> and \<open>Node_Rpc\<close> (\<open>metrics.rs\<close>, \<open>rpc/mod.rs\<close>): the counters, the handlers and their
    effect on the store.
  \<^item> \<open>Node_Config\<close> (\<open>config/mod.rs\<close>, \<open>identity.rs\<close>) and \<open>Daemon\<close> (\<open>main.rs\<close>): the start and the main
    loop as a step relation over the states of all parts, with handlers that are dropped half-way and
    restarts from the database; an invariant of every reachable state.
  \<^item> \<open>Upload_Path\<close>: chain nodes and a daemon connected over HTTP in a network whose other nodes answer as they
    like; what is uploaded can be fetched, unless another node is quicker with an answer of its own.

  Browser engine (\<open>src/packages/wasm-engine/src\<close>).
  \<^item> \<open>Gf256\<close> and \<open>List_Poly\<close>: the byte field of \<open>kzg/key_sss.rs\<close>, its loops shown to compute in a
    field; polynomials as coefficient lists over any field, with Lagrange's formula and uniqueness.
  \<^item> \<open>Key_Sss\<close>: Shamir sharing of the content key: round trip and perfect secrecy.
  \<^item> \<open>Kzg_Encoding\<close>, \<open>Dense_Poly\<close>, \<open>Kzg_Vss\<close> (\<open>kzg/compression.rs\<close>, \<open>encoding.rs\<close>, \<open>vss.rs\<close>,
    \<open>proof.rs\<close>, \<open>srs.rs\<close>): verifiable secret sharing: codecs, polynomial arithmetic with a long
    division that may not end for an arbitrary library and does for a lawful one, splitting,
    commitments, proofs, recovery, regeneration, and the soundness of the verifier.
  \<^item> \<open>Hybrid\<close> (\<open>kzg/hybrid.rs\<close>, \<open>reed_solomon.rs\<close>, \<open>encryption.rs\<close>): the path of a post through
    compression, encryption, erasure coding and key sharing, and back from any \<open>k\<close> shards.
  \<^item> \<open>Wasm_Bindings\<close> (\<open>kzg/wasm.rs\<close>): the byte formats in which shares and shards cross into
    JavaScript, on 32-bit indices that wrap, and every binding; round trips through the bytes, and the
    inputs that trap.
  \<^item> \<open>Wallet\<close> (\<open>stealth/\<close>) and \<open>Dm_Crypto\<close> (\<open>dm/\<close>, \<open>merkle.rs\<close>): one-time addresses, their spending
    keys and signatures, backups; padding, sealed messages and their fragments.
  Libraries (curves, ciphers, hashes, gzip, the erasure code, codecs) are records of operations, and
  a predicate (\<open>curve_ok\<close>, \<open>ecc_ok\<close>, \<open>codec_ok\<close>, \<open>gzip_ok\<close>, \<open>cipher_ok\<close>, \<open>dm_ok\<close>,
    \<open>identities_ok\<close>, \<open>peer_ids_ok\<close>, \<open>unforgeable\<close>, \<open>hex_ok\<close>, \<open>sr25519_ok\<close>, \<open>randomx_ok\<close>) states the laws the
  code relies on; each theory ends with an instance that satisfies them.

  Interfaces. Locales state the contracts between pallets: \<open>pool_deposit\<close> (where the shares of
  the block reward and of costs go), \<open>base_fee_provider\<close> (the fee a post or message pays),
  \<open>bond_info\<close> (the stake provider of the storage pallet) and \<open>post_mutator\<close> (the deletion of
  posts by the popularity pallet). Each is interpreted on the pallets that provide it, and on the
  unit implementations the code also has. In the daemon \<open>fragment_keeper\<close> is the contract of a store that
  loses nothing while it is used, interpreted on the fragment store, and \<open>fragment_client\<close> extends it by
  a client that only uses the store, interpreted on the RPC handlers and on the network.

  Bounds. The arithmetic widths are those of the code: \<open>u128\<close> balances, \<open>u64\<close> counters,
  \<open>u32\<close> block numbers, \<open>U256\<close> difficulties. No operation has fuel: the loops are structural
  or come with a measure (the bit length for Newton's square root and the decay loop, the length of
  the map for the rate limit).

  Not modelled. SCALE storage encodings, weights, benchmarks and mocks; of the chain node the
  assembly of its services and of its RPC module, and RandomX, which is a parameter; of the daemon the construction of
  the libp2p swarm and of the HTTP router, the command line, logging and I/O errors of the database.
  These only call libraries. The steps of the daemon are atomic between two suspensions of a handler;
  what a handler that is dropped leaves behind is a step of its own. The manifest lists the parts one by one.
\<close>

end
